(* ===== verification/Prelude.thy ===== *)
theory Prelude
  imports Main "HOL-Library.Word" "HOL-Library.Monad_Syntax"
begin

text \<open>
  Shared vocabulary of the development: machine integers at the widths the C code uses,
  byte buffers, and the lemmas on them that every component needs.

  A C buffer is a list of bytes. Reads and writes go through \<open>memget\<close>, \<open>memread\<close> and
  \<open>memwrite\<close>, whose result is \<open>None\<close> when the access leaves the buffer: \<open>None\<close> is the
  undefined behaviour of C, so a theorem that an operation returns \<open>Some\<close> is a memory
  safety theorem. \<open>bsplice\<close> is the total form of a write and the normal form in which
  the effect of a sequence of writes is stated.
\<close>

unbundle bit_operations_syntax

type_synonym byte = "8 word"
type_synonym u16 = "16 word"
type_synonym u32 = "32 word"
type_synonym u64 = "64 word"
type_synonym bytes = "byte list"

text \<open>The status codes (\<open>STATUS\<close>) that the modelled functions return.\<close>

datatype STATUS =
    STATUS_SUCCESS
  | STATUS_NULL_ARG
  | STATUS_INVALID_ARG
  | STATUS_NOT_ENOUGH_MEMORY
  | STATUS_BUFFER_TOO_SMALL
  | STATUS_INVALID_ARG_LEN
  | STATUS_SCTP_INVALID_DCEP_PACKET
  | STATUS_RTP_INPUT_PACKET_TOO_SMALL
  | STATUS_RTP_INVALID_EXTENSION_LEN
  | STATUS_ROLLING_BUFFER_NOT_IN_RANGE
  | STATUS_RTCP_INPUT_PACKET_TOO_SMALL
  | STATUS_RTCP_INPUT_PARTIAL_PACKET
  | STATUS_RTCP_INPUT_PACKET_INVALID_VERSION
  | STATUS_RTCP_INPUT_NACK_LIST_INVALID
  | STATUS_RTCP_INPUT_REMB_TOO_SMALL
  | STATUS_RTCP_INPUT_REMB_INVALID
  | STATUS_NOT_FOUND
  | STATUS_INVALID_OPERATION
  | STATUS_RTP_INVALID_NALU
  | STATUS_RTP_INPUT_MTU_TOO_SMALL
  | STATUS_RTP_INVALID_RED_PACKET
  | STATUS_INTERNAL_ERROR
  | STATUS_HASH_KEY_NOT_PRESENT
  | STATUS_HASH_KEY_ALREADY_PRESENT
  | STATUS_HASH_ENTRY_ITERATION_ABORT
  | STATUS_OPERATION_TIMED_OUT
  | STATUS_INVALID_STREAM_STATE
  | STATUS_STATE_MACHINE_STATE_NOT_FOUND
  | STATUS_STATE_MACHINE_NAME_LEN_INVALID
  | STATUS_SERVICE_CALL_NOT_AUTHORIZED_ERROR
  | STATUS_SIGNALING_INVALID_READY_STATE
  | STATUS_SIGNALING_GET_TOKEN_CALL_FAILED
  | STATUS_SIGNALING_DESCRIBE_CALL_FAILED
  | STATUS_SIGNALING_DESCRIBE_MEDIA_CALL_FAILED
  | STATUS_SIGNALING_CREATE_CALL_FAILED
  | STATUS_SIGNALING_GET_ENDPOINT_CALL_FAILED
  | STATUS_SIGNALING_GET_ICE_CONFIG_CALL_FAILED
  | STATUS_SIGNALING_READY_CALLBACK_FAILED
  | STATUS_SIGNALING_CONNECT_CALL_FAILED
  | STATUS_SIGNALING_CONNECTED_CALLBACK_FAILED
  | STATUS_SIGNALING_DISCONNECTED_CALLBACK_FAILED
  | STATUS_SIGNALING_DELETE_CALL_FAILED
  | STATUS_SIGNALING_JOIN_SESSION_CALL_FAILED
  | STATUS_SIGNALING_JOIN_SESSION_CONNECTED_FAILED
  | STATUS_STUN_MAGIC_COOKIE_MISMATCH
  | STATUS_STUN_INVALID_ADDRESS_ATTRIBUTE_LENGTH
  | STATUS_STUN_INVALID_USERNAME_ATTRIBUTE_LENGTH
  | STATUS_STUN_INVALID_MESSAGE_INTEGRITY_ATTRIBUTE_LENGTH
  | STATUS_STUN_INVALID_FINGERPRINT_ATTRIBUTE_LENGTH
  | STATUS_STUN_MULTIPLE_MESSAGE_INTEGRITY_ATTRIBUTES
  | STATUS_STUN_MULTIPLE_FINGERPRINT_ATTRIBUTES
  | STATUS_STUN_ATTRIBUTES_AFTER_FINGERPRINT_MESSAGE_INTEGRITY
  | STATUS_STUN_MESSAGE_INTEGRITY_AFTER_FINGERPRINT
  | STATUS_STUN_MAX_ATTRIBUTE_COUNT
  | STATUS_STUN_MESSAGE_INTEGRITY_MISMATCH
  | STATUS_STUN_FINGERPRINT_MISMATCH
  | STATUS_STUN_INVALID_PRIORITY_ATTRIBUTE_LENGTH
  | STATUS_STUN_INVALID_USE_CANDIDATE_ATTRIBUTE_LENGTH
  | STATUS_STUN_INVALID_LIFETIME_ATTRIBUTE_LENGTH
  | STATUS_STUN_INVALID_REQUESTED_TRANSPORT_ATTRIBUTE_LENGTH
  | STATUS_STUN_INVALID_REALM_ATTRIBUTE_LENGTH
  | STATUS_STUN_INVALID_NONCE_ATTRIBUTE_LENGTH
  | STATUS_STUN_INVALID_ERROR_CODE_ATTRIBUTE_LENGTH
  | STATUS_STUN_INVALID_ICE_CONTROL_ATTRIBUTE_LENGTH
  | STATUS_STUN_INVALID_CHANNEL_NUMBER_ATTRIBUTE_LENGTH
  | STATUS_STUN_INVALID_CHANGE_REQUEST_ATTRIBUTE_LENGTH
  | STATUS_STUN_MESSAGE_INTEGRITY_NOT_LAST
  | STATUS_STUN_FINGERPRINT_NOT_LAST
  | STATUS_HMAC_GENERATION_ERROR

named_theorems mem_simps \<open>evaluation of buffer accesses that stay inside the buffer\<close>
named_theorems wire_simps \<open>unfolding of wire layouts to explicit bytes\<close>

section \<open>Buffers\<close>

definition memget :: "'a list \<Rightarrow> nat \<Rightarrow> 'a option" where
  "memget b i = (if i < length b then Some (b ! i) else None)"

definition memread :: "'a list \<Rightarrow> nat \<Rightarrow> nat \<Rightarrow> 'a list option" where
  "memread b off n = (if off + n \<le> length b then Some (take n (drop off b)) else None)"

definition bsplice :: "'a list \<Rightarrow> nat \<Rightarrow> 'a list \<Rightarrow> 'a list" where
  "bsplice b off xs = take off b @ xs @ drop (off + length xs) b"

definition memwrite :: "'a list \<Rightarrow> nat \<Rightarrow> 'a list \<Rightarrow> 'a list option" where
  "memwrite b off xs = (if off + length xs \<le> length b then Some (bsplice b off xs) else None)"

lemma memget_Some [mem_simps]: "i < length b \<Longrightarrow> memget b i = Some (b ! i)"
  by (simp add: memget_def)

lemma memread_Some [mem_simps]: "off + n \<le> length b \<Longrightarrow> memread b off n = Some (take n (drop off b))"
  by (simp add: memread_def)

lemma memwrite_Some [mem_simps]:
  "off + length xs \<le> length b \<Longrightarrow> memwrite b off xs = Some (bsplice b off xs)"
  by (simp add: memwrite_def)

lemma memwrite_length: "memwrite b off xs = Some b' \<Longrightarrow> length b' = length b"
  by (auto simp: memwrite_def bsplice_def split: if_splits)

lemma length_bsplice [simp]:
  "off + length xs \<le> length b \<Longrightarrow> length (bsplice b off xs) = length b"
  by (simp add: bsplice_def)

lemma bsplice_Nil [simp]: "bsplice b off [] = b"
  by (simp add: bsplice_def)

lemma bsplice_adjacent [simp]:
  assumes "off + length xs \<le> length b" and "off' = off + length xs"
  shows "bsplice (bsplice b off xs) off' ys = bsplice b off (xs @ ys)"
  using assms by (simp add: bsplice_def ac_simps)

lemma bsplice_0: "length xs \<le> n \<Longrightarrow> n \<le> length b \<Longrightarrow>
    take n (bsplice b 0 xs) = xs @ take (n - length xs) (drop (length xs) b)"
  by (simp add: bsplice_def)

lemma take_bsplice_below: "n \<le> off \<Longrightarrow> off \<le> length b \<Longrightarrow> take n (bsplice b off xs) = take n b"
  by (simp add: bsplice_def min_def)

lemma bsplice_inside:
  assumes "off + length ys \<le> length xs" and "length xs \<le> length b"
  shows "bsplice (bsplice b 0 xs) off ys = bsplice b 0 (bsplice xs off ys)"
  using assms by (cases "length ys = 0") (auto simp: bsplice_def)

lemma bsplice_over:
  "length ys = length xs \<Longrightarrow> off + length xs \<le> length b \<Longrightarrow>
    bsplice (bsplice b off xs) off ys = bsplice b off ys"
  by (simp add: bsplice_def min_absorb2)

section \<open>Searching and folding over slots of a table\<close>

text \<open>
  \<open>first_index P xs\<close> is the value of the loop counter after
  \<^verbatim>\<open>for (i = 0; i < n; i++) { if (P(xs[i])) break; }\<close>: the first position that satisfies
  the test, or the length of the table.
\<close>

fun first_index :: "('a \<Rightarrow> bool) \<Rightarrow> 'a list \<Rightarrow> nat" where
  "first_index P [] = 0"
| "first_index P (x # xs) = (if P x then 0 else Suc (first_index P xs))"

lemma first_index_le: "first_index P xs \<le> length xs"
  by (induction xs) auto

lemma first_index_less: "(first_index P xs < length xs) = (\<exists>x \<in> set xs. P x)"
  by (induction xs) auto

lemma first_index_nth: "first_index P xs < length xs \<Longrightarrow> P (xs ! first_index P xs)"
  by (induction xs) auto

lemma first_index_before: "i < first_index P xs \<Longrightarrow> \<not> P (xs ! i)"
proof (induction xs arbitrary: i)
  case (Cons x xs)
  then show ?case by (cases i) (auto split: if_splits)
qed simp

lemma first_index_replicate: "first_index P (replicate n x) = (if P x then 0 else n)"
  by (induction n) auto

section \<open>Sums over tables with values in a word type\<close>

lemma sum_list_map_update:
  fixes g :: "'a \<Rightarrow> 'b::ab_group_add"
  assumes "i < length xs"
  shows "sum_list (map g (xs[i := y])) = sum_list (map g xs) - g (xs ! i) + g y"
  using assms
proof (induction xs arbitrary: i)
  case (Cons x xs)
  then show ?case by (cases i) (auto simp: algebra_simps)
qed simp

lemma sum_list_map_update_same:
  assumes "i < length xs" and "g y = g (xs ! i)"
  shows "map g (xs[i := y]) = map g xs"
  using assms by (simp add: map_update list_update_same_conv)

lemma sum_list_map_replicate_0: "g x = (0::'b::monoid_add) \<Longrightarrow> sum_list (map g (replicate n x)) = 0"
  by (induction n) auto

section \<open>Cutting a list into pieces\<close>

text \<open>Pieces of \<open>n\<close> elements and a shorter last one: how a frame is spread over packets.\<close>

function chunks :: "nat \<Rightarrow> 'a list \<Rightarrow> 'a list list" where
  "chunks n xs = (if xs = [] then [] else if n = 0 then [xs] else take n xs # chunks n (drop n xs))"
  by pat_completeness auto
termination by (relation "measure (\<lambda>(n, xs). length xs)") auto

declare chunks.simps [simp del]

lemma chunks_Nil [simp]: "chunks n [] = []"
  by (simp add: chunks.simps)

lemma chunks_step: "xs \<noteq> [] \<Longrightarrow> 0 < n \<Longrightarrow> chunks n xs = take n xs # chunks n (drop n xs)"
  by (subst chunks.simps) simp

lemma concat_chunks [simp]: "concat (chunks n xs) = xs"
proof (induction n xs rule: chunks.induct)
  case (1 n xs)
  then show ?case by (subst chunks.simps) auto
qed

lemma chunks_bounds:
  assumes "0 < n" "c \<in> set (chunks n xs)"
  shows "0 < length c \<and> length c \<le> n"
  using assms
proof (induction n xs rule: chunks.induct)
  case (1 n xs)
  then show ?case by (cases "xs = []") (auto simp: chunks_step)
qed

lemma length_chunks: "0 < n \<Longrightarrow> length (chunks n xs) = length xs div n + (if length xs mod n = 0 then 0 else 1)"
proof (induction n xs rule: chunks.induct)
  case (1 n xs)
  show ?case
  proof (cases "length xs \<le> n")
    case True
    then have "xs = [] \<or> chunks n xs = [xs]" using 1(2) by (cases "xs = []") (auto simp: chunks_step)
    then show ?thesis using True 1(2) by (cases "length xs = n") auto
  next
    case False
    then have ne: "xs \<noteq> []" by auto
    have "length xs div n = Suc (length (drop n xs) div n)" "length xs mod n = length (drop n xs) mod n"
      using False 1(2) by (auto simp: le_div_geq le_mod_geq)
    then show ?thesis using 1 ne by (simp add: chunks_step)
  qed
qed

section \<open>Bits of small words\<close>

lemma bit_word_lessD:
  fixes w :: "'a::len word"
  assumes "bit w n" and "unat w < 2 ^ k"
  shows "n < k"
proof -
  have "bit (unat w) n" using assms(1) by (simp add: bit_unsigned_iff bit_imp_le_length)
  then have "2 ^ n \<le> unat w" by (simp add: bit_iff_odd) (metis bit_iff_odd div_less even_zero leI)
  then have "(2::nat) ^ n < 2 ^ k" using assms(2) by (rule le_less_trans)
  then show ?thesis by simp
qed

section \<open>Values of 32-bit words\<close>

lemma unat_small32: "n < 2 ^ 32 \<Longrightarrow> unat (word_of_nat n :: u32) = n"
  by (simp add: unat_of_nat take_bit_nat_eq_self)

lemma unat_less32: "unat (w :: u32) < 2 ^ 32"
  using unsigned_less[of w, where ?'a = nat] by simp

section \<open>Option-valued computations\<close>

lemma bind_Some_iff: "(Option.bind m f = Some y) = (\<exists>x. m = Some x \<and> f x = Some y)"
  by (cases m) auto

lemma case_prod_Some_iff: "(case p of (a, b) \<Rightarrow> f a b) = Some y \<longleftrightarrow> (\<exists>a b. p = (a, b) \<and> f a b = Some y)"
  by (cases p) auto

text \<open>A loop over the positions of a table, where the body may fault.\<close>

fun for_each :: "('i \<Rightarrow> 's \<Rightarrow> 's option) \<Rightarrow> 'i list \<Rightarrow> 's \<Rightarrow> 's option" where
  "for_each f [] s = Some s"
| "for_each f (i # is) s = (case f i s of None \<Rightarrow> None | Some s' \<Rightarrow> for_each f is s')"

lemma for_each_inv:
  assumes "\<And>i s. i \<in> set is \<Longrightarrow> I s \<Longrightarrow> \<exists>s'. f i s = Some s' \<and> I s'" and "I s"
  shows "\<exists>s'. for_each f is s = Some s' \<and> I s'"
  using assms
proof (induction "is" arbitrary: s)
  case (Cons i "is")
  from Cons.prems(1)[of i s] Cons.prems(2) obtain s' where s': "f i s = Some s'" "I s'" by auto
  from Cons.IH[of s'] Cons.prems(1) s'(2) obtain s'' where "for_each f is s' = Some s''" "I s''" by auto
  with s'(1) show ?case by auto
qed simp

lemma for_each_append: "for_each f (xs @ ys) s = Option.bind (for_each f xs s) (for_each f ys)"
  by (induction xs arbitrary: s) (auto split: option.splits)

lemma for_each_map: "for_each f (map g xs) s = for_each (\<lambda>x. f (g x)) xs s"
  by (induction xs arbitrary: s) (auto split: option.splits)

lemma for_each_filter: "for_each (\<lambda>x s. if P x then f x s else Some s) xs s = for_each f (filter P xs) s"
  by (induction xs arbitrary: s) (auto split: option.splits)

lemma for_each_concat: "for_each (\<lambda>x. for_each f (g x)) xs s = for_each f (concat (map g xs)) s"
  by (induction xs arbitrary: s) (auto simp: for_each_append split: option.splits)

lemma for_each_cong: "(\<And>x s. x \<in> set xs \<Longrightarrow> f x s = g x s) \<Longrightarrow> for_each f xs s = for_each g xs s"
  by (induction xs arbitrary: s) (auto split: option.splits)

lemma for_each_upt:
  assumes "\<And>k s. k < length xs \<Longrightarrow> f k s = g (xs ! k) s"
  shows "for_each f [0..<length xs] s = for_each g xs s"
proof -
  have "for_each f [0..<length xs] s = for_each (\<lambda>k. g (xs ! k)) [0..<length xs] s"
    using assms by (intro for_each_cong) simp
  also have "\<dots> = for_each g (map (nth xs) [0..<length xs]) s" by (simp only: for_each_map)
  finally show ?thesis by (simp only: map_nth)
qed

lemma fold_inv:
  assumes "\<And>i s. i \<in> set is \<Longrightarrow> I s \<Longrightarrow> I (f i s)" and "I s"
  shows "I (fold f is s)"
  using assms by (induction "is" arbitrary: s) auto

end
