(* ===== verification/RollingBuffer.thy ===== *)
theory RollingBuffer
  imports Prelude "HOL-Library.Multiset"
begin

text \<open>
  \<^verbatim>\<open>src/source/Rtcp/RollingBuffer.c\<close> and \<^verbatim>\<open>RollingBuffer.h\<close>: a ring of \<open>UINT64\<close> slots addressed by
  absolute 64-bit indexes. Slot \<open>i\<close> of the window \<open>[tailIndex, headIndex)\<close> lives at
  \<open>i mod capacity\<close>; appending to a full buffer evicts the oldest slot.

  The callback \<open>freeDataFn\<close> is given a pointer to a slot. It is a function of an environment
  (whatever it frees lives there) and the content of the slot; its result is the status, the
  new environment and the new content of the slot, or \<open>None\<close> for a fault such as a double
  free. The lock is held for the whole of every operation that changes the buffer, so each
  operation is one atomic step. The outer \<open>None\<close> of an operation is an access outside
  \<open>dataBuffer\<close> or a faulting callback.

  The contract of the buffer is the locale \<open>index_window\<close>: a list of items with the absolute
  index of the first one. Its clients' lemmas are proved there once and reach the ring
  through the interpretation \<open>ring\<close>.
\<close>

section \<open>Data\<close>

type_synonym 's FreeDataFunc = "'s \<Rightarrow> u64 \<Rightarrow> (STATUS \<times> 's \<times> u64) option"

record 's RollingBuffer =
  capacity :: u32
  headIndex :: u64
  tailIndex :: u64
  dataBuffer :: "u64 list"
  freeDataFn :: "'s FreeDataFunc option"

definition ROLLING_BUFFER_MAP_INDEX :: "'s RollingBuffer \<Rightarrow> u64 \<Rightarrow> nat" where
  "ROLLING_BUFFER_MAP_INDEX rb i = unat (i mod ucast (capacity rb))"

section \<open>Operations\<close>

text \<open>\<open>memory\<close> tells whether \<open>MEMALLOC\<close> succeeds and \<open>out\<close> whether \<open>ppRollingBuffer\<close> is not null.\<close>

definition createRollingBuffer ::
  "bool \<Rightarrow> u32 \<Rightarrow> 's FreeDataFunc option \<Rightarrow> bool \<Rightarrow> STATUS \<times> 's RollingBuffer option" where
  "createRollingBuffer memory cap fn out =
     (if cap = 0 then (STATUS_INVALID_ARG, None)
      else if \<not> out then (STATUS_NULL_ARG, None)
      else if \<not> memory then (STATUS_NOT_ENOUGH_MEMORY, None)
      else (STATUS_SUCCESS, Some \<lparr>capacity = cap, headIndex = 0, tailIndex = 0,
              dataBuffer = replicate (unat cap) 0, freeDataFn = fn\<rparr>))"

text \<open>The callback applied to the slot of an absolute index; the slot keeps what it stores there.\<close>

definition free_ring_slot ::
  "'s FreeDataFunc \<Rightarrow> u64 \<Rightarrow> 's RollingBuffer \<Rightarrow> 's \<Rightarrow> (STATUS \<times> 's RollingBuffer \<times> 's) option" where
  "free_ring_slot fn i rb s =
     do { let j = ROLLING_BUFFER_MAP_INDEX rb i;
          x \<leftarrow> memget (dataBuffer rb) j;
          (status, s', y) \<leftarrow> fn s x;
          Some (status, rb\<lparr>dataBuffer := (dataBuffer rb)[j := y]\<rparr>, s') }"

definition store_ring_slot :: "u64 \<Rightarrow> u64 \<Rightarrow> 's RollingBuffer \<Rightarrow> 's RollingBuffer option" where
  "store_ring_slot i d rb =
     do { b \<leftarrow> memwrite (dataBuffer rb) (ROLLING_BUFFER_MAP_INDEX rb i) [d]; Some (rb\<lparr>dataBuffer := b\<rparr>) }"

function free_loop :: "u64 \<Rightarrow> u64 \<Rightarrow> 's RollingBuffer \<Rightarrow> 's \<Rightarrow> ('s RollingBuffer \<times> 's) option" where
  "free_loop tail headIdx rb s =
     (if tail < headIdx then
        do { (rb', s') \<leftarrow> (case freeDataFn rb of
               None \<Rightarrow> Some (rb, s)
             | Some fn \<Rightarrow> do { (_, rb1, s1) \<leftarrow> free_ring_slot fn tail rb s; rb2 \<leftarrow> store_ring_slot tail 0 rb1; Some (rb2, s1) });
             free_loop (tail + 1) headIdx (rb'\<lparr>tailIndex := tail + 1\<rparr>) s' }
      else Some (rb, s))"
  by pat_completeness auto

lemma unat_step: "i < j \<Longrightarrow> unat (i + 1 :: u64) = unat i + 1"
proof -
  assume "i < j"
  moreover have "unat j < 2 ^ LENGTH(64)" by (rule unsigned_less)
  ultimately have "unat i + unat (1 :: u64) < 2 ^ LENGTH(64)" by (simp add: word_less_nat_alt)
  then show ?thesis by (simp only: unat_add_lem) simp
qed

termination free_loop
  by (relation "measure (\<lambda>(t, h, _, _). unat h - unat t)") (auto simp: unat_step word_less_nat_alt)

declare free_loop.simps [simp del]

text \<open>The result is the status and the environment after the callbacks; the buffer is gone.\<close>

definition freeRollingBuffer :: "'s RollingBuffer option option \<Rightarrow> 's \<Rightarrow> (STATUS \<times> 's) option" where
  "freeRollingBuffer pp s =
     (case pp of
        None \<Rightarrow> Some (STATUS_NULL_ARG, s)
      | Some None \<Rightarrow> Some (STATUS_SUCCESS, s)
      | Some (Some rb) \<Rightarrow> do { (_, s') \<leftarrow> free_loop (tailIndex rb) (headIndex rb) rb s; Some (STATUS_SUCCESS, s') })"

text \<open>The last component of the result is the value stored to \<open>*pIndex\<close>, if any is.\<close>

definition rollingBufferAppendData ::
  "'s RollingBuffer option \<Rightarrow> u64 \<Rightarrow> bool \<Rightarrow> 's \<Rightarrow> (STATUS \<times> 's RollingBuffer option \<times> 's \<times> u64 option) option" where
  "rollingBufferAppendData pRb d wantIndex s =
     (case pRb of
        None \<Rightarrow> Some (STATUS_NULL_ARG, None, s, None)
      | Some rb \<Rightarrow>
          if headIndex rb = tailIndex rb then
            do { rb \<leftarrow> store_ring_slot (tailIndex rb) d rb;
                 let rb = rb\<lparr>headIndex := tailIndex rb + 1\<rparr>;
                 Some (STATUS_SUCCESS, Some rb, s, if wantIndex then Some (headIndex rb - 1) else None) }
          else
            do { (status, rb, s) \<leftarrow>
                   (if headIndex rb = tailIndex rb + ucast (capacity rb) then
                      do { (status, rb, s) \<leftarrow> (case freeDataFn rb of
                              None \<Rightarrow> Some (STATUS_SUCCESS, rb, s)
                            | Some fn \<Rightarrow> free_ring_slot fn (tailIndex rb) rb s);
                           Some (status, if status = STATUS_SUCCESS then rb\<lparr>tailIndex := tailIndex rb + 1\<rparr> else rb, s) }
                    else Some (STATUS_SUCCESS, rb, s));
                 if status \<noteq> STATUS_SUCCESS then Some (status, Some rb, s, None)
                 else do { rb \<leftarrow> store_ring_slot (headIndex rb) d rb;
                           let rb = rb\<lparr>headIndex := headIndex rb + 1\<rparr>;
                           Some (STATUS_SUCCESS, Some rb, s, if wantIndex then Some (headIndex rb - 1) else None) } })"

definition rollingBufferInsertData ::
  "'s RollingBuffer option \<Rightarrow> u64 \<Rightarrow> u64 \<Rightarrow> 's \<Rightarrow> (STATUS \<times> 's RollingBuffer option \<times> 's) option" where
  "rollingBufferInsertData pRb i d s =
     (case pRb of
        None \<Rightarrow> Some (STATUS_NULL_ARG, None, s)
      | Some rb \<Rightarrow>
          if \<not> (headIndex rb > i \<and> tailIndex rb \<le> i) then Some (STATUS_ROLLING_BUFFER_NOT_IN_RANGE, Some rb, s)
          else do { x \<leftarrow> memget (dataBuffer rb) (ROLLING_BUFFER_MAP_INDEX rb i);
                    (rb, s) \<leftarrow> (case freeDataFn rb of
                        Some fn \<Rightarrow> if x \<noteq> 0 then do { (_, rb1, s1) \<leftarrow> free_ring_slot fn i rb s; Some (rb1, s1) } else Some (rb, s)
                      | None \<Rightarrow> Some (rb, s));
                    rb \<leftarrow> store_ring_slot i d rb;
                    Some (STATUS_SUCCESS, Some rb, s) })"

text \<open>\<open>out\<close> tells whether \<open>pData\<close> is not null; the last component is the value stored to \<open>*pData\<close>.\<close>

definition rollingBufferExtractData ::
  "'s RollingBuffer option \<Rightarrow> u64 \<Rightarrow> bool \<Rightarrow> (STATUS \<times> 's RollingBuffer option \<times> u64 option) option" where
  "rollingBufferExtractData pRb i out =
     (case pRb of
        None \<Rightarrow> Some (STATUS_NULL_ARG, None, None)
      | Some rb \<Rightarrow>
          if \<not> out then Some (STATUS_NULL_ARG, Some rb, None)
          else if headIndex rb > i \<and> tailIndex rb \<le> i then
            do { x \<leftarrow> memget (dataBuffer rb) (ROLLING_BUFFER_MAP_INDEX rb i);
                 rb \<leftarrow> (if x \<noteq> 0 then store_ring_slot i 0 rb else Some rb);
                 Some (STATUS_SUCCESS, Some rb, Some x) }
          else Some (STATUS_SUCCESS, Some rb, Some 0))"

definition rollingBufferGetSize :: "'s RollingBuffer option \<Rightarrow> bool \<Rightarrow> STATUS \<times> u32 option" where
  "rollingBufferGetSize pRb out =
     (case pRb of
        Some rb \<Rightarrow> if out then (STATUS_SUCCESS, Some (ucast (headIndex rb - tailIndex rb))) else (STATUS_NULL_ARG, None)
      | None \<Rightarrow> (STATUS_NULL_ARG, None))"

definition rollingBufferIsEmpty :: "'s RollingBuffer option \<Rightarrow> bool \<Rightarrow> STATUS \<times> bool option" where
  "rollingBufferIsEmpty pRb out =
     (case pRb of
        Some rb \<Rightarrow> if out then (STATUS_SUCCESS, Some (headIndex rb = tailIndex rb)) else (STATUS_NULL_ARG, None)
      | None \<Rightarrow> (STATUS_NULL_ARG, None))"


section \<open>The ring as a list\<close>

definition ring_view :: "'a list \<Rightarrow> nat \<Rightarrow> nat \<Rightarrow> 'a list" where
  "ring_view b t h = map (\<lambda>i. b ! (i mod length b)) [t..<h]"

lemma length_ring_view [simp]: "length (ring_view b t h) = h - t"
  by (simp add: ring_view_def)

lemma ring_view_nth: "t + k < h \<Longrightarrow> ring_view b t h ! k = b ! ((t + k) mod length b)"
  by (simp only: ring_view_def nth_map length_upt less_diff_conv2 nth_upt less_diff_conv add.commute)

lemma mod_window_le:
  fixes i j n t :: nat
  assumes "t \<le> i" "i \<le> j" "j < t + n" "i mod n = j mod n"
  shows "i = j"
proof -
  have "n dvd j - i" using assms(2,4) mod_eq_dvd_iff_nat[of i j n] by simp
  moreover have "j - i < n" using assms(1,2,3) by linarith
  ultimately have "j - i = 0" using dvd_imp_le by fastforce
  with assms(2) show ?thesis by simp
qed

lemma mod_window_inj:
  fixes i j n t :: nat
  assumes "t \<le> i" "t \<le> j" "i < t + n" "j < t + n" "i mod n = j mod n"
  shows "i = j"
  using mod_window_le[of t i j n] mod_window_le[of t j i n] assms by (cases "i \<le> j") auto

lemma ring_view_update:
  assumes "t \<le> i" "i < h" "h - t \<le> length b"
  shows "ring_view (b[i mod length b := d]) t h = (ring_view b t h)[i - t := d]"
proof (rule nth_equalityI)
  fix k assume k: "k < length (ring_view (b[i mod length b := d]) t h)"
  have "((t + k) mod length b = i mod length b) = (k = i - t)"
    using mod_window_inj[of t "t + k" i "length b"] assms k by fastforce
  moreover have "i mod length b < length b" using assms by (intro mod_less_divisor) auto
  ultimately show "ring_view (b[i mod length b := d]) t h ! k = (ring_view b t h)[i - t := d] ! k"
    using k assms by (auto simp: ring_view_nth nth_list_update less_diff_conv add.commute)
qed simp

lemma ring_view_snoc:
  assumes "t \<le> h" "h - t < length b"
  shows "ring_view (b[h mod length b := d]) t (h + 1) = ring_view b t h @ [d]"
  using assms ring_view_update[of t h "h + 1" b d]
  by (auto simp: ring_view_def list_update_append)

lemma ring_view_tl: "ring_view b (t + 1) h = tl (ring_view b t h)"
  by (cases "t < h") (auto simp: ring_view_def upt_conv_Cons)

definition window_lo :: "'s RollingBuffer \<Rightarrow> nat" where
  "window_lo rb = unat (tailIndex rb)"

definition window_items :: "'s RollingBuffer \<Rightarrow> u64 list" where
  "window_items rb = ring_view (dataBuffer rb) (unat (tailIndex rb)) (unat (headIndex rb))"

definition rb_wf :: "'s RollingBuffer \<Rightarrow> bool" where
  "rb_wf rb = (capacity rb \<noteq> 0 \<and> length (dataBuffer rb) = unat (capacity rb) \<and> tailIndex rb \<le> headIndex rb \<and>
     unat (headIndex rb) - unat (tailIndex rb) \<le> unat (capacity rb))"

lemma map_index: "ROLLING_BUFFER_MAP_INDEX rb i = unat i mod unat (capacity rb)"
  by (simp add: ROLLING_BUFFER_MAP_INDEX_def unat_mod unsigned_ucast_eq take_bit_nat_eq_self unsigned_less
      order_less_trans[OF unsigned_less])

lemma map_index_less: "rb_wf rb \<Longrightarrow> ROLLING_BUFFER_MAP_INDEX rb i < length (dataBuffer rb)"
  by (simp add: map_index rb_wf_def unat_gt_0)

lemma store_ring_slot_eq:
  "rb_wf rb \<Longrightarrow> store_ring_slot i d rb = Some (rb\<lparr>dataBuffer := (dataBuffer rb)[unat i mod unat (capacity rb) := d]\<rparr>)"
  using map_index_less[of rb i]
  by (simp add: store_ring_slot_def memwrite_def bsplice_def map_index upd_conv_take_nth_drop)

lemma window_items_update:
  assumes "rb_wf rb" "tailIndex rb \<le> i" "i < headIndex rb"
  shows "window_items (rb\<lparr>dataBuffer := (dataBuffer rb)[unat i mod unat (capacity rb) := d]\<rparr>) =
           (window_items rb)[unat i - window_lo rb := d]"
  using assms ring_view_update[of "unat (tailIndex rb)" "unat i" "unat (headIndex rb)" "dataBuffer rb" d]
  by (simp add: window_items_def window_lo_def rb_wf_def word_le_nat_alt word_less_nat_alt)

lemma window_items_nth:
  assumes "rb_wf rb" "tailIndex rb \<le> i" "i < headIndex rb"
  shows "memget (dataBuffer rb) (ROLLING_BUFFER_MAP_INDEX rb i) = Some (window_items rb ! (unat i - window_lo rb))"
  using assms map_index_less[OF assms(1), of i]
  by (simp add: memget_def map_index window_items_def window_lo_def ring_view_nth rb_wf_def word_le_nat_alt word_less_nat_alt)

lemma rb_wf_update [simp]:
  "rb_wf (rb\<lparr>dataBuffer := (dataBuffer rb)[j := d]\<rparr>) = rb_wf rb"
  by (simp add: rb_wf_def)

text \<open>Data taken out of its slot and put back at the same index leaves the ring as it was.\<close>

lemma extract_then_insert:
  assumes wf: "rb_wf rb" and i: "tailIndex rb \<le> i" "i < headIndex rb"
    and x: "x = window_items rb ! (unat i - window_lo rb)" "x \<noteq> 0"
  shows "\<exists>rb1. rollingBufferExtractData (Some rb) i True = Some (STATUS_SUCCESS, Some rb1, Some x) \<and>
           (\<forall>s. rollingBufferInsertData (Some rb1) i x s = Some (STATUS_SUCCESS, Some rb, s))"
proof -
  let ?j = "unat i mod unat (capacity rb)"
  let ?rb1 = "rb\<lparr>dataBuffer := (dataBuffer rb)[?j := 0]\<rparr>"
  have j: "memget (dataBuffer rb) ?j = Some x" "?j < length (dataBuffer rb)"
    using window_items_nth[OF wf i] map_index_less[OF wf, of i] by (simp_all add: map_index x(1))
  then have xj: "dataBuffer rb ! ?j = x" by (simp add: memget_def)
  have "rollingBufferExtractData (Some rb) i True = Some (STATUS_SUCCESS, Some ?rb1, Some x)"
    using i j(1) x(2) store_ring_slot_eq[OF wf, of i 0] by (simp add: rollingBufferExtractData_def map_index)
  moreover have "rollingBufferInsertData (Some ?rb1) i x s = Some (STATUS_SUCCESS, Some rb, s)" for s
    using i j(2) store_ring_slot_eq[of ?rb1 i x] wf xj[symmetric]
    by (auto simp: rollingBufferInsertData_def map_index memget_def split: option.split)
  ultimately show ?thesis by blast
qed

section \<open>The contract: a window of items under absolute indexes\<close>

text \<open>
  \<open>lo b\<close> is the index of the first item, \<open>held b\<close> the data the environment has not freed.
  Data may be stored when it is null, or held and not stored already.
\<close>

locale index_window =
  fixes wf :: "'b \<Rightarrow> bool" and cap :: "'b \<Rightarrow> nat" and lo :: "'b \<Rightarrow> nat" and items :: "'b \<Rightarrow> 'd list"
    and held :: "'b \<Rightarrow> 'd set" and null :: 'd and limit :: nat
    and append_op :: "'d \<Rightarrow> 'b \<Rightarrow> ('b \<times> nat) option" and insert_op :: "nat \<Rightarrow> 'd \<Rightarrow> 'b \<Rightarrow> 'b option"
    and extract_op :: "nat \<Rightarrow> 'b \<Rightarrow> ('b \<times> 'd) option"
  assumes wf_items: "wf b \<Longrightarrow> 0 < cap b \<and> length (items b) \<le> cap b \<and> distinct (filter (\<lambda>x. x \<noteq> null) (items b)) \<and>
      set (items b) - {null} \<subseteq> held b"
    and append_law: "wf b \<Longrightarrow> d = null \<or> d \<in> held b \<and> d \<notin> set (items b) \<Longrightarrow> lo b + length (items b) < limit \<Longrightarrow>
      \<exists>b'. append_op d b = Some (b', lo b + length (items b)) \<and> wf b' \<and> cap b' = cap b \<and>
        (if length (items b) = cap b
         then lo b' = lo b + 1 \<and> items b' = tl (items b) @ [d] \<and> held b' = held b - ({hd (items b)} - {null})
         else lo b' = lo b \<and> items b' = items b @ [d] \<and> held b' = held b)"
    and insert_law: "wf b \<Longrightarrow> d = null \<or> d \<in> held b \<and> d \<notin> set (items b) \<Longrightarrow> lo b \<le> i \<Longrightarrow> i < lo b + length (items b) \<Longrightarrow>
      \<exists>b'. insert_op i d b = Some b' \<and> wf b' \<and> cap b' = cap b \<and> lo b' = lo b \<and>
        items b' = (items b)[i - lo b := d] \<and> held b' = held b - ({items b ! (i - lo b)} - {null})"
    and extract_law: "wf b \<Longrightarrow> lo b \<le> i \<Longrightarrow> i < lo b + length (items b) \<Longrightarrow>
      \<exists>b'. extract_op i b = Some (b', items b ! (i - lo b)) \<and> wf b' \<and> cap b' = cap b \<and> lo b' = lo b \<and>
        items b' = (items b)[i - lo b := null] \<and> held b' = held b"
    and extract_outside: "wf b \<Longrightarrow> i < limit \<Longrightarrow> i < lo b \<or> lo b + length (items b) \<le> i \<Longrightarrow> extract_op i b = Some (b, null)"

lemma distinct_filter_nth:
  assumes "distinct (filter P xs)" "i < length xs" "P (xs ! i)" "P y = False"
  shows "xs ! i \<notin> set (xs[i := y])"
proof
  assume "xs ! i \<in> set (xs[i := y])"
  then obtain j where j: "j < length xs" "j \<noteq> i" "xs ! j = xs ! i"
    using assms(2,3,4) by (auto simp: in_set_conv_nth nth_list_update split: if_splits)
  obtain a b where "a < b" "b < length xs" "xs ! a = xs ! b" "P (xs ! a)"
    using j assms(2,3) by (metis nat_neq_iff)
  then have "take b xs ! a = xs ! b" "a < length (take b xs)" by auto
  then have "xs ! b \<in> set (take b xs)" using nth_mem by metis
  then have "xs ! b \<in> set (filter P (take b xs))" using \<open>P (xs ! a)\<close> \<open>xs ! a = xs ! b\<close> by simp
  moreover have "filter P xs = filter P (take b xs) @ xs ! b # filter P (drop (Suc b) xs)"
    using \<open>b < length xs\<close> \<open>P (xs ! a)\<close> \<open>xs ! a = xs ! b\<close>
    by (subst id_take_nth_drop[of b xs]) (auto simp del: append_take_drop_id)
  ultimately show False using assms(1) by auto
qed

context index_window
begin

lemma put_back:
  assumes "wf b" "lo b \<le> i" "i < lo b + length (items b)"
  shows "\<exists>b1 b2. extract_op i b = Some (b1, items b ! (i - lo b)) \<and> insert_op i (items b ! (i - lo b)) b1 = Some b2 \<and>
           wf b2 \<and> lo b2 = lo b \<and> cap b2 = cap b \<and> items b2 = items b \<and> held b2 = held b"
proof -
  let ?x = "items b ! (i - lo b)"
  obtain b1 where b1: "extract_op i b = Some (b1, ?x)" "wf b1" "cap b1 = cap b" "lo b1 = lo b"
      "items b1 = (items b)[i - lo b := null]" "held b1 = held b"
    using extract_law[OF assms] by blast
  have "?x = null \<or> ?x \<in> held b1 \<and> ?x \<notin> set (items b1)"
    using wf_items[OF assms(1)] distinct_filter_nth[of "\<lambda>x. x \<noteq> null" "items b" "i - lo b" null] assms(2,3)
    by (auto simp: b1(5,6) less_diff_conv2)
  then obtain b2 where "insert_op i ?x b1 = Some b2" "wf b2" "cap b2 = cap b1" "lo b2 = lo b1"
      "items b2 = (items b1)[i - lo b1 := ?x]" "held b2 = held b1 - ({items b1 ! (i - lo b1)} - {null})"
    using insert_law[OF b1(2), of ?x i] assms(2,3) by (auto simp: b1(4,5))
  then show ?thesis using b1 assms(2,3) by (auto simp: less_diff_conv2)
qed

text \<open>After any number of appends the window is the longest suffix of the data that fits.\<close>

lemma append_recent:
  assumes "wf b" and items: "items b = drop (length L - cap b) L" and lo: "lo b = length L - cap b"
    and d: "d \<noteq> null" "d \<in> held b" "distinct (L @ [d])" "null \<notin> set L" and lim: "length L < limit"
  shows "\<exists>b'. append_op d b = Some (b', length L) \<and> wf b' \<and> cap b' = cap b \<and>
           items b' = drop (length (L @ [d]) - cap b) (L @ [d]) \<and> lo b' = length (L @ [d]) - cap b \<and>
           held b' = held b - (set (items b) - set (items b'))"
proof -
  have "d \<notin> set (items b)" using d(3) by (auto simp: items dest: in_set_dropD)
  moreover have hi: "lo b + length (items b) = length L" by (simp add: items lo)
  ultimately obtain b' where b': "append_op d b = Some (b', length L)" "wf b'" "cap b' = cap b"
    "if length (items b) = cap b
     then lo b' = lo b + 1 \<and> items b' = tl (items b) @ [d] \<and> held b' = held b - ({hd (items b)} - {null})
     else lo b' = lo b \<and> items b' = items b @ [d] \<and> held b' = held b"
    using append_law[OF assms(1), of d] d(2) lim by auto
  have pos: "0 < cap b" using wf_items[OF assms(1)] by simp
  show ?thesis
  proof (cases "length (items b) = cap b")
    case True
    then have len: "length L - cap b + 1 = length L + 1 - cap b" "cap b \<le> length L" using hi lo by auto
    obtain x xs where x: "items b = x # xs" using True pos by (cases "items b") auto
    have "x \<in> set L" using x by (metis in_set_dropD items list.set_intros(1))
    then have "x \<noteq> null" "x \<noteq> d" using d by auto
    moreover have "x \<notin> set xs" using d(3) distinct_drop[of L "length L - cap b"] by (simp flip: items add: x)
    moreover have "xs = drop (length L + 1 - cap b) L"
      using x len by (metis drop_Suc items list.sel(3) Suc_eq_plus1 tl_drop)
    ultimately show ?thesis using True b' x len lo by (auto simp: insert_Diff_if)
  next
    case False
    then have "length L < cap b" using hi lo items wf_items[OF assms(1)] by auto
    then show ?thesis using False b' items lo by auto
  qed
qed

end

section \<open>The ring implements the contract\<close>

definition ring_append :: "u64 \<Rightarrow> 's RollingBuffer \<times> 's \<Rightarrow> (('s RollingBuffer \<times> 's) \<times> nat) option" where
  "ring_append d b =
     (case rollingBufferAppendData (Some (fst b)) d True (snd b) of
        Some (STATUS_SUCCESS, Some rb, s, Some i) \<Rightarrow> Some ((rb, s), unat i)
      | _ \<Rightarrow> None)"

definition ring_insert :: "nat \<Rightarrow> u64 \<Rightarrow> 's RollingBuffer \<times> 's \<Rightarrow> ('s RollingBuffer \<times> 's) option" where
  "ring_insert i d b =
     (case rollingBufferInsertData (Some (fst b)) (word_of_nat i) d (snd b) of
        Some (STATUS_SUCCESS, Some rb, s) \<Rightarrow> Some (rb, s)
      | _ \<Rightarrow> None)"

definition ring_extract :: "nat \<Rightarrow> 's RollingBuffer \<times> 's \<Rightarrow> (('s RollingBuffer \<times> 's) \<times> u64) option" where
  "ring_extract i b =
     (case rollingBufferExtractData (Some (fst b)) (word_of_nat i) True of
        Some (STATUS_SUCCESS, Some rb, Some x) \<Rightarrow> Some ((rb, snd b), x)
      | _ \<Rightarrow> None)"

definition ring_wf :: "'s FreeDataFunc \<Rightarrow> ('s \<Rightarrow> u64 set) \<Rightarrow> 's RollingBuffer \<times> 's \<Rightarrow> bool" where
  "ring_wf fn owned b = (rb_wf (fst b) \<and> freeDataFn (fst b) = Some fn \<and>
     distinct (filter (\<lambda>x. x \<noteq> 0) (window_items (fst b))) \<and> set (window_items (fst b)) - {0} \<subseteq> owned (snd b))"

text \<open>What the buffer needs of the callback: null is ignored, and what the environment owns is freed once.\<close>

locale slot_owner =
  fixes fn :: "'s FreeDataFunc" and owned :: "'s \<Rightarrow> u64 set"
  assumes free_null: "fn s 0 = Some (STATUS_SUCCESS, s, 0)"
    and free_owned: "x \<noteq> 0 \<Longrightarrow> x \<in> owned s \<Longrightarrow> \<exists>s'. fn s x = Some (STATUS_SUCCESS, s', 0) \<and> owned s' = owned s - {x}"

lemma unat_capacity_64: "unat (ucast c :: u64) = unat (c :: u32)"
  by (simp add: unsigned_ucast_eq take_bit_nat_eq_self order_less_trans[OF unsigned_less])

lemma full_iff:
  assumes "rb_wf rb" "unat (headIndex rb) < 2 ^ 64 - 1"
  shows "(headIndex rb = tailIndex rb + ucast (capacity rb)) = (length (window_items rb) = unat (capacity rb))"
proof -
  have le: "tailIndex rb \<le> headIndex rb" using assms by (simp add: rb_wf_def)
  have "(headIndex rb = tailIndex rb + ucast (capacity rb)) = (headIndex rb - tailIndex rb = ucast (capacity rb))"
    by (auto simp: algebra_simps)
  also have "\<dots> = (unat (headIndex rb) - unat (tailIndex rb) = unat (capacity rb))"
    using le by (simp add: word_unat_eq_iff unat_sub unat_capacity_64)
  finally show ?thesis by (simp add: window_items_def)
qed

lemma empty_iff: "rb_wf rb \<Longrightarrow> (headIndex rb = tailIndex rb) = (window_items rb = [])"
  by (auto simp: window_items_def rb_wf_def word_le_nat_alt word_unat_eq_iff simp flip: length_0_conv)

lemma unat_step_limit: "unat (x :: u64) < 2 ^ 64 - 1 \<Longrightarrow> unat (x + 1) = unat x + 1"
  using unat_step[of x "-1"] by (simp add: word_less_nat_alt unsigned_minus_1_eq_mask mask_eq_exp_minus_1)

text \<open>Storing at the head and moving it on.\<close>

lemma push_head:
  assumes "rb_wf rb" "length (window_items rb) < unat (capacity rb)" "unat (headIndex rb) < 2 ^ 64 - 1"
    and rb'_def: "rb' = rb\<lparr>dataBuffer := (dataBuffer rb)[unat (headIndex rb) mod unat (capacity rb) := d],
                     headIndex := headIndex rb + 1\<rparr>"
  shows "rb_wf rb'" "window_items rb' = window_items rb @ [d]" "window_lo rb' = window_lo rb"
proof -
  have le: "tailIndex rb \<le> headIndex rb" "unat (tailIndex rb) \<le> unat (headIndex rb)"
    using assms(1) by (auto simp: rb_wf_def word_le_nat_alt)
  note h = unat_step_limit[OF assms(3)]
  show "rb_wf rb'"
    using assms(1,2) le by (auto simp: rb'_def rb_wf_def h word_le_nat_alt window_items_def)
  show "window_items rb' = window_items rb @ [d]"
    using assms(1,2) le ring_view_snoc[of "unat (tailIndex rb)" "unat (headIndex rb)" "dataBuffer rb" d]
    by (simp add: rb'_def window_items_def h rb_wf_def)
  show "window_lo rb' = window_lo rb" by (simp add: rb'_def window_lo_def)
qed

text \<open>Moving the tail past the oldest item, after its slot was rewritten.\<close>

lemma pop_tail:
  assumes "rb_wf rb" "window_items rb \<noteq> []"
    and rb'_def: "rb' = rb\<lparr>dataBuffer := (dataBuffer rb)[unat (tailIndex rb) mod unat (capacity rb) := y],
                     tailIndex := tailIndex rb + 1\<rparr>"
  shows "rb_wf rb'" "window_items rb' = tl (window_items rb)" "window_lo rb' = window_lo rb + 1"
proof -
  have lt: "tailIndex rb < headIndex rb"
    using assms(1,2) empty_iff[OF assms(1)] by (auto simp: rb_wf_def order_less_le)
  note t = unat_step[OF lt]
  show "rb_wf rb'" using assms(1) lt by (auto simp: rb'_def rb_wf_def t word_le_nat_alt word_less_nat_alt)
  have "window_items rb' = tl (window_items (rb\<lparr>dataBuffer := (dataBuffer rb)[unat (tailIndex rb) mod unat (capacity rb) := y]\<rparr>))"
    by (simp add: rb'_def window_items_def t ring_view_tl[simplified])
  also have "\<dots> = tl ((window_items rb)[0 := y])"
    using window_items_update[OF assms(1), of "tailIndex rb" y] lt by (simp add: window_lo_def)
  finally show "window_items rb' = tl (window_items rb)" by (cases "window_items rb") auto
  show "window_lo rb' = window_lo rb + 1" by (simp add: rb'_def window_lo_def t)
qed

context slot_owner
begin

lemma free_any:
  assumes "x = 0 \<or> x \<in> owned s"
  obtains s' where "fn s x = Some (STATUS_SUCCESS, s', 0)" "owned s' = owned s - ({x} - {0})"
  using assms free_null[of s] free_owned[of x s] by (cases "x = 0") auto

lemma wf_nth_owned:
  "ring_wf fn owned (rb, s) \<Longrightarrow> k < length (window_items rb) \<Longrightarrow> window_items rb ! k = 0 \<or> window_items rb ! k \<in> owned s"
proof -
  assume "ring_wf fn owned (rb, s)" "k < length (window_items rb)"
  then have "window_items rb ! k \<in> set (window_items rb)" "set (window_items rb) - {0} \<subseteq> owned s"
    by (auto simp: ring_wf_def)
  then show ?thesis by blast
qed

lemma free_ring_slot_window:
  assumes "ring_wf fn owned (rb, s)" "tailIndex rb \<le> i" "i < headIndex rb"
  obtains s' where "free_ring_slot fn i rb s =
      Some (STATUS_SUCCESS, rb\<lparr>dataBuffer := (dataBuffer rb)[unat i mod unat (capacity rb) := 0]\<rparr>, s')"
    "owned s' = owned s - ({window_items rb ! (unat i - window_lo rb)} - {0})"
proof -
  have rb: "rb_wf rb" using assms(1) by (simp add: ring_wf_def)
  have "unat i - window_lo rb < length (window_items rb)"
    using assms(2,3) by (simp add: window_items_def window_lo_def word_le_nat_alt word_less_nat_alt)
  from free_any[OF wf_nth_owned[OF assms(1) this]] obtain s' where
    "fn s (window_items rb ! (unat i - window_lo rb)) = Some (STATUS_SUCCESS, s', 0)"
    "owned s' = owned s - ({window_items rb ! (unat i - window_lo rb)} - {0})" by blast
  then show ?thesis using that window_items_nth[OF rb assms(2,3)] by (simp add: free_ring_slot_def map_index)
qed

lemma append_full:
  assumes wf: "ring_wf fn owned (rb, s)" and d: "d = 0 \<or> d \<in> owned s \<and> d \<notin> set (window_items rb)"
    and lim: "unat (headIndex rb) < 2 ^ 64 - 1" and full: "length (window_items rb) = unat (capacity rb)"
  shows "\<exists>rb' s'. rollingBufferAppendData (Some rb) d True s = Some (STATUS_SUCCESS, Some rb', s', Some (headIndex rb)) \<and>
     ring_wf fn owned (rb', s') \<and> capacity rb' = capacity rb \<and> window_lo rb' = window_lo rb + 1 \<and>
     window_items rb' = tl (window_items rb) @ [d] \<and> owned s' = owned s - ({hd (window_items rb)} - {0})"
proof -
  have rb: "rb_wf rb" "freeDataFn rb = Some fn" using wf by (auto simp: ring_wf_def)
  have ne: "window_items rb \<noteq> []" using full rb(1) by (auto simp: rb_wf_def unat_eq_zero)
  then have lt: "headIndex rb \<noteq> tailIndex rb" "tailIndex rb < headIndex rb"
    using empty_iff[OF rb(1)] rb(1) by (auto simp: rb_wf_def order_less_le)
  obtain s' where s': "free_ring_slot fn (tailIndex rb) rb s =
      Some (STATUS_SUCCESS, rb\<lparr>dataBuffer := (dataBuffer rb)[unat (tailIndex rb) mod unat (capacity rb) := 0]\<rparr>, s')"
    "owned s' = owned s - ({hd (window_items rb)} - {0})"
    using free_ring_slot_window[OF wf order_refl lt(2)] ne by (auto simp: window_lo_def hd_conv_nth)
  define rb1 where "rb1 = rb\<lparr>dataBuffer := (dataBuffer rb)[unat (tailIndex rb) mod unat (capacity rb) := 0],
                     tailIndex := tailIndex rb + 1\<rparr>"
  note pop = pop_tail[OF rb(1) ne rb1_def]
  define rb2 where "rb2 = rb1\<lparr>dataBuffer := (dataBuffer rb1)[unat (headIndex rb1) mod unat (capacity rb1) := d],
                     headIndex := headIndex rb1 + 1\<rparr>"
  have lim1: "unat (headIndex rb1) < 2 ^ 64 - 1" "length (window_items rb1) < unat (capacity rb1)"
    using lim full ne length_greater_0_conv[of "window_items rb"] by (auto simp: pop(2)) (auto simp: rb1_def)
  note push = push_head[OF pop(1) lim1(2,1) rb2_def]
  have "rollingBufferAppendData (Some rb) d True s = Some (STATUS_SUCCESS, Some rb2, s', Some (headIndex rb))"
    using s'(1) rb lt full_iff[OF rb(1) lim] full store_ring_slot_eq[OF pop(1), of "headIndex rb1" d]
    by (simp add: rollingBufferAppendData_def rb2_def rb1_def Let_def)
  moreover have keep: "freeDataFn rb2 = Some fn" "capacity rb2 = capacity rb" "window_lo rb2 = window_lo rb + 1"
      "window_items rb2 = tl (window_items rb) @ [d]"
    using push pop rb(2) by (simp_all add: rb2_def rb1_def)
  moreover have "ring_wf fn owned (rb2, s')"
    using wf d ne s'(2) push(1) by (cases "window_items rb") (auto simp: ring_wf_def keep split: if_splits)
  ultimately show ?thesis using s'(2) by blast
qed

lemma append_room:
  assumes wf: "ring_wf fn owned (rb, s)" and d: "d = 0 \<or> d \<in> owned s \<and> d \<notin> set (window_items rb)"
    and lim: "unat (headIndex rb) < 2 ^ 64 - 1" and room: "length (window_items rb) \<noteq> unat (capacity rb)"
  shows "\<exists>rb'. rollingBufferAppendData (Some rb) d True s = Some (STATUS_SUCCESS, Some rb', s, Some (headIndex rb)) \<and>
     ring_wf fn owned (rb', s) \<and> capacity rb' = capacity rb \<and> window_lo rb' = window_lo rb \<and>
     window_items rb' = window_items rb @ [d]"
proof -
  have rb: "rb_wf rb" "freeDataFn rb = Some fn" using wf by (auto simp: ring_wf_def)
  define rb' where "rb' = rb\<lparr>dataBuffer := (dataBuffer rb)[unat (headIndex rb) mod unat (capacity rb) := d],
                     headIndex := headIndex rb + 1\<rparr>"
  have "length (window_items rb) < unat (capacity rb)"
    using room rb(1) by (simp add: rb_wf_def window_items_def)
  note push = push_head[OF rb(1) this lim rb'_def]
  have "rollingBufferAppendData (Some rb) d True s = Some (STATUS_SUCCESS, Some rb', s, Some (headIndex rb))"
    using rb full_iff[OF rb(1) lim] room store_ring_slot_eq[OF rb(1), of "headIndex rb" d]
    by (auto simp: rollingBufferAppendData_def rb'_def Let_def)
  moreover have "ring_wf fn owned (rb', s)"
    using wf d push by (auto simp: ring_wf_def rb'_def)
  ultimately show ?thesis using push by (auto simp: rb'_def)
qed

lemma distinct_filter_update:
  assumes "distinct (filter P xs)" "P y \<longrightarrow> y \<notin> set xs"
  shows "distinct (filter P (xs[k := y]))"
  using assms
proof (induction xs arbitrary: k)
  case (Cons x xs)
  then show ?case by (cases k) (auto split: if_splits dest: set_update_subset_insert[THEN subsetD])
qed simp

lemma insert_in_window:
  assumes wf: "ring_wf fn owned (rb, s)" and d: "d = 0 \<or> d \<in> owned s \<and> d \<notin> set (window_items rb)"
    and i: "tailIndex rb \<le> i" "i < headIndex rb"
  shows "\<exists>rb' s'. rollingBufferInsertData (Some rb) i d s = Some (STATUS_SUCCESS, Some rb', s') \<and>
     ring_wf fn owned (rb', s') \<and> capacity rb' = capacity rb \<and> window_lo rb' = window_lo rb \<and>
     window_items rb' = (window_items rb)[unat i - window_lo rb := d] \<and>
     owned s' = owned s - ({window_items rb ! (unat i - window_lo rb)} - {0})"
proof -
  have rb: "rb_wf rb" "freeDataFn rb = Some fn" using wf by (auto simp: ring_wf_def)
  let ?x = "window_items rb ! (unat i - window_lo rb)" and ?j = "unat i mod unat (capacity rb)"
  have k: "unat i - window_lo rb < length (window_items rb)"
    using i by (simp add: window_items_def window_lo_def word_le_nat_alt word_less_nat_alt)
  define rb' where "rb' = rb\<lparr>dataBuffer := (dataBuffer rb)[?j := d]\<rparr>"
  obtain s' where s': "free_ring_slot fn i rb s = Some (STATUS_SUCCESS, rb\<lparr>dataBuffer := (dataBuffer rb)[?j := 0]\<rparr>, s')"
    "owned s' = owned s - ({?x} - {0})" using free_ring_slot_window[OF wf i] by blast
  define s2 where "s2 = (if ?x \<noteq> 0 then s' else s)"
  have s2: "owned s2 = owned s - ({?x} - {0})" using s'(2) by (auto simp: s2_def)
  have "rollingBufferInsertData (Some rb) i d s = Some (STATUS_SUCCESS, Some rb', s2)"
    using i rb s'(1) window_items_nth[OF rb(1) i] store_ring_slot_eq[OF rb(1), of i d]
      store_ring_slot_eq[of "rb\<lparr>dataBuffer := (dataBuffer rb)[?j := 0]\<rparr>" i d]
    by (simp add: rollingBufferInsertData_def rb'_def s2_def)
  moreover have items: "window_items rb' = (window_items rb)[unat i - window_lo rb := d]"
    using window_items_update[OF rb(1) i] by (simp add: rb'_def)
  moreover have wf': "rb_wf rb'" "freeDataFn rb' = Some fn" using rb by (auto simp: rb'_def)
  have "?x \<noteq> 0 \<Longrightarrow> ?x \<notin> set ((window_items rb)[unat i - window_lo rb := d])"
    using distinct_filter_nth[of "\<lambda>x. x \<noteq> 0" "window_items rb" "unat i - window_lo rb" 0] wf k d nth_mem[OF k]
    by (auto simp: ring_wf_def in_set_conv_nth nth_list_update split: if_splits)
  then have "ring_wf fn owned (rb', s2)"
    using wf d s2 distinct_filter_update[of "\<lambda>x. x \<noteq> 0" "window_items rb" d "unat i - window_lo rb"]
      set_update_subset_insert[of "window_items rb" "unat i - window_lo rb" d]
    by (auto simp: ring_wf_def items wf')
  ultimately show ?thesis using s2 by (auto simp: rb'_def window_lo_def)
qed

lemma extract_in_window:
  assumes wf: "ring_wf fn owned (rb, s)" and i: "tailIndex rb \<le> i" "i < headIndex rb"
  shows "\<exists>rb'. rollingBufferExtractData (Some rb) i True =
       Some (STATUS_SUCCESS, Some rb', Some (window_items rb ! (unat i - window_lo rb))) \<and>
     ring_wf fn owned (rb', s) \<and> capacity rb' = capacity rb \<and> window_lo rb' = window_lo rb \<and>
     window_items rb' = (window_items rb)[unat i - window_lo rb := 0]"
proof -
  have rb: "rb_wf rb" "freeDataFn rb = Some fn" using wf by (auto simp: ring_wf_def)
  let ?x = "window_items rb ! (unat i - window_lo rb)" and ?j = "unat i mod unat (capacity rb)"
  define rb' where "rb' = (if ?x \<noteq> 0 then rb\<lparr>dataBuffer := (dataBuffer rb)[?j := 0]\<rparr> else rb)"
  have "rollingBufferExtractData (Some rb) i True = Some (STATUS_SUCCESS, Some rb', Some ?x)"
    using i rb window_items_nth[OF rb(1) i] store_ring_slot_eq[OF rb(1), of i 0]
    by (auto simp: rollingBufferExtractData_def rb'_def)
  moreover have items: "window_items rb' = (window_items rb)[unat i - window_lo rb := 0]"
    using window_items_update[OF rb(1) i, of 0] list_update_id[of "window_items rb" "unat i - window_lo rb"]
    by (cases "?x = 0") (simp_all add: rb'_def)
  moreover have wf': "rb_wf rb'" "freeDataFn rb' = Some fn" "capacity rb' = capacity rb" "window_lo rb' = window_lo rb"
    using rb by (auto simp: rb'_def window_lo_def)
  moreover have "ring_wf fn owned (rb', s)"
    using wf distinct_filter_update[of "\<lambda>x. x \<noteq> 0" "window_items rb" 0 "unat i - window_lo rb"]
      set_update_subset_insert[of "window_items rb" "unat i - window_lo rb" 0]
    by (auto simp: ring_wf_def items wf')
  ultimately show ?thesis by blast
qed

lemma free_loop_law:
  assumes "ring_wf fn owned (rb, s)"
  shows "\<exists>rb' s'. free_loop (tailIndex rb) (headIndex rb) rb s = Some (rb', s') \<and>
     owned s' = owned s - (set (window_items rb) - {0})"
  using assms
proof (induction "length (window_items rb)" arbitrary: rb s)
  case 0
  then show ?case using empty_iff[of rb] by (simp add: ring_wf_def free_loop.simps)
next
  case (Suc n)
  have rb: "rb_wf rb" "freeDataFn rb = Some fn" using Suc.prems by (auto simp: ring_wf_def)
  have ne: "window_items rb \<noteq> []" using Suc.hyps(2) by auto
  then have lt: "tailIndex rb < headIndex rb"
    using empty_iff[OF rb(1)] rb(1) by (auto simp: rb_wf_def order_less_le)
  obtain s1 where s1: "free_ring_slot fn (tailIndex rb) rb s =
      Some (STATUS_SUCCESS, rb\<lparr>dataBuffer := (dataBuffer rb)[unat (tailIndex rb) mod unat (capacity rb) := 0]\<rparr>, s1)"
    "owned s1 = owned s - ({hd (window_items rb)} - {0})"
    using free_ring_slot_window[OF Suc.prems order_refl lt] ne by (auto simp: window_lo_def hd_conv_nth)
  define rb1 where "rb1 = rb\<lparr>dataBuffer := (dataBuffer rb)[unat (tailIndex rb) mod unat (capacity rb) := 0],
                     tailIndex := tailIndex rb + 1\<rparr>"
  note pop = pop_tail[OF rb(1) ne rb1_def]
  have "ring_wf fn owned (rb1, s1)"
    using Suc.prems ne s1(2) pop by (cases "window_items rb") (auto simp: ring_wf_def rb1_def split: if_splits)
  moreover have "n = length (window_items rb1)" using Suc.hyps(2) by (simp add: pop(2))
  ultimately obtain rb' s' where IH: "free_loop (tailIndex rb1) (headIndex rb1) rb1 s1 = Some (rb', s')"
    "owned s' = owned s1 - (set (window_items rb1) - {0})" using Suc.hyps(1) by blast
  have "free_loop (tailIndex rb) (headIndex rb) rb s = Some (rb', s')"
    using lt IH(1) s1(1) rb
      store_ring_slot_eq[of "rb\<lparr>dataBuffer := (dataBuffer rb)[unat (tailIndex rb) mod unat (capacity rb) := 0]\<rparr>" "tailIndex rb" 0]
    by (subst free_loop.simps) (simp add: rb1_def)
  moreover have "owned s' = owned s - (set (window_items rb) - {0})"
    using IH(2) s1(2) ne by (cases "window_items rb") (auto simp: pop(2))
  ultimately show ?case by blast
qed

end


text \<open>An absolute index as the word the C functions take.\<close>

lemma index_word:
  assumes "i < 2 ^ 64"
  shows "unat (word_of_nat i :: u64) = i"
  using assms by (simp add: unat_of_nat take_bit_nat_eq_self)

lemma window_hi: "rb_wf rb \<Longrightarrow> window_lo rb + length (window_items rb) = unat (headIndex rb)"
  by (simp add: rb_wf_def window_lo_def window_items_def word_le_nat_alt)

lemma index_in_window:
  assumes "rb_wf rb" "window_lo rb \<le> i" "i < window_lo rb + length (window_items rb)"
  shows "tailIndex rb \<le> word_of_nat i" "word_of_nat i < headIndex rb" "unat (word_of_nat i :: u64) = i"
proof -
  have "unat (headIndex rb) < 2 ^ LENGTH(64)" by (rule unsigned_less)
  then show u: "unat (word_of_nat i :: u64) = i"
    using assms window_hi[OF assms(1)] by (intro index_word) simp
  show "tailIndex rb \<le> word_of_nat i" "word_of_nat i < headIndex rb"
    using assms window_hi[OF assms(1)] by (simp_all add: word_le_nat_alt word_less_nat_alt u window_lo_def)
qed

sublocale slot_owner \<subseteq> ring: index_window "ring_wf fn owned" "\<lambda>b. unat (capacity (fst b))" "\<lambda>b. window_lo (fst b)"
    "\<lambda>b. window_items (fst b)" "\<lambda>b. owned (snd b)" 0 "2 ^ 64 - 1" ring_append ring_insert ring_extract
proof (unfold_locales, goal_cases)
  case (1 b)
  then show ?case by (auto simp: ring_wf_def rb_wf_def window_items_def unat_gt_0)
next
  case (2 b d)
  obtain rb s where b: "b = (rb, s)" by (cases b)
  have rb: "rb_wf rb" using 2(1) by (simp add: b ring_wf_def)
  have lim: "unat (headIndex rb) < 2 ^ 64 - 1" using 2(3) window_hi[OF rb] by (simp add: b)
  show ?case
  proof (cases "length (window_items rb) = unat (capacity rb)")
    case True
    then show ?thesis
      using append_full[OF _ _ lim True, of s d] 2(1,2) window_hi[OF rb] by (auto simp: b ring_append_def)
  next
    case False
    then show ?thesis
      using append_room[OF _ _ lim False, of s d] 2(1,2) window_hi[OF rb] by (auto simp: b ring_append_def)
  qed
next
  case (3 b d i)
  obtain rb s where b: "b = (rb, s)" by (cases b)
  have rb: "rb_wf rb" using 3(1) by (simp add: b ring_wf_def)
  note i = index_in_window[OF rb, of i]
  show ?case
    using insert_in_window[of rb s d "word_of_nat i"] 3 i by (auto simp: b ring_insert_def)
next
  case (4 b i)
  obtain rb s where b: "b = (rb, s)" by (cases b)
  have rb: "rb_wf rb" using 4(1) by (simp add: b ring_wf_def)
  note i = index_in_window[OF rb, of i]
  show ?case
    using extract_in_window[of rb s "word_of_nat i"] 4 i by (auto simp: b ring_extract_def)
next
  case (5 b i)
  obtain rb s where b: "b = (rb, s)" by (cases b)
  have rb: "rb_wf rb" using 5(1) by (simp add: b ring_wf_def)
  have "unat (word_of_nat i :: u64) = i" using 5(2) by (intro index_word) simp
  then have "\<not> (headIndex rb > word_of_nat i \<and> tailIndex rb \<le> word_of_nat i)"
    using 5(3) window_hi[OF rb] by (auto simp: b window_lo_def word_le_nat_alt word_less_nat_alt)
  then show ?case by (auto simp: b ring_extract_def rollingBufferExtractData_def)
qed

end
