(* ===== verification/Endianness.thy ===== *)
theory Endianness
  imports Prelude
begin

text \<open>
  \<^verbatim>\<open>deps/src/utils/Endianness.c\<close>: byte-order conversions and unaligned accesses.

  The \<open>Be\<close> and \<open>Le\<close> accessors read and write a buffer byte by byte. The run-time
  selected \<open>getInt16\<close>/\<open>getInt32\<close>/\<open>getInt64\<close> of \<open>initializeEndianness\<close> take the host's
  endianness (\<open>isBigEndian\<close>) as an argument, and a native load \<^verbatim>\<open>*(PUINT16) p\<close> is
  \<open>native16\<close> on the same host. \<open>host_order_16\<close> and \<open>host_order_32\<close> show that the composition
  the parsers use is a big-endian read on every host.
\<close>

section \<open>The byte-assembly macros\<close>

definition MAKE_INT16 :: "byte \<Rightarrow> byte \<Rightarrow> u16" where
  "MAKE_INT16 a b = ucast a OR push_bit 8 (ucast b)"

definition MAKE_INT32 :: "u16 \<Rightarrow> u16 \<Rightarrow> u32" where
  "MAKE_INT32 a b = ucast a OR push_bit 16 (ucast b)"

definition MAKE_INT64 :: "u32 \<Rightarrow> u32 \<Rightarrow> u64" where
  "MAKE_INT64 a b = ucast a OR push_bit 32 (ucast b)"

definition SWAP_INT16 :: "u16 \<Rightarrow> u16" where
  "SWAP_INT16 x = MAKE_INT16 (ucast (drop_bit 8 x)) (ucast x)"

definition SWAP_INT32 :: "u32 \<Rightarrow> u32" where
  "SWAP_INT32 x = MAKE_INT32 (SWAP_INT16 (ucast (drop_bit 16 x))) (SWAP_INT16 (ucast x))"

definition SWAP_INT64 :: "u64 \<Rightarrow> u64" where
  "SWAP_INT64 x = MAKE_INT64 (SWAP_INT32 (ucast (drop_bit 32 x))) (SWAP_INT32 (ucast x))"

section \<open>Unaligned accessors\<close>

definition getUnalignedInt16Le :: "bytes \<Rightarrow> nat \<Rightarrow> u16 option" where
  "getUnalignedInt16Le b p =
     do { x0 \<leftarrow> memget b p; x1 \<leftarrow> memget b (p + 1); Some (MAKE_INT16 x0 x1) }"

definition getUnalignedInt16Be :: "bytes \<Rightarrow> nat \<Rightarrow> u16 option" where
  "getUnalignedInt16Be b p =
     do { x0 \<leftarrow> memget b p; x1 \<leftarrow> memget b (p + 1); Some (MAKE_INT16 x1 x0) }"

definition getUnalignedInt32Le :: "bytes \<Rightarrow> nat \<Rightarrow> u32 option" where
  "getUnalignedInt32Le b p =
     do { x0 \<leftarrow> memget b p; x1 \<leftarrow> memget b (p + 1); x2 \<leftarrow> memget b (p + 2); x3 \<leftarrow> memget b (p + 3);
          Some (MAKE_INT32 (MAKE_INT16 x0 x1) (MAKE_INT16 x2 x3)) }"

definition getUnalignedInt32Be :: "bytes \<Rightarrow> nat \<Rightarrow> u32 option" where
  "getUnalignedInt32Be b p =
     do { x0 \<leftarrow> memget b p; x1 \<leftarrow> memget b (p + 1); x2 \<leftarrow> memget b (p + 2); x3 \<leftarrow> memget b (p + 3);
          Some (MAKE_INT32 (MAKE_INT16 x3 x2) (MAKE_INT16 x1 x0)) }"

definition getUnalignedInt64Le :: "bytes \<Rightarrow> nat \<Rightarrow> u64 option" where
  "getUnalignedInt64Le b p =
     do { lo \<leftarrow> getUnalignedInt32Le b p; hi \<leftarrow> getUnalignedInt32Le b (p + 4); Some (MAKE_INT64 lo hi) }"

definition getUnalignedInt64Be :: "bytes \<Rightarrow> nat \<Rightarrow> u64 option" where
  "getUnalignedInt64Be b p =
     do { hi \<leftarrow> getUnalignedInt32Be b p; lo \<leftarrow> getUnalignedInt32Be b (p + 4); Some (MAKE_INT64 lo hi) }"

text \<open>The bytes each \<open>put\<close> function stores, lowest address first.\<close>

definition le16 :: "u16 \<Rightarrow> bytes" where
  "le16 v = [ucast v, ucast (drop_bit 8 v)]"

definition be16 :: "u16 \<Rightarrow> bytes" where
  "be16 v = [ucast (drop_bit 8 v), ucast v]"

definition le32 :: "u32 \<Rightarrow> bytes" where
  "le32 v = [ucast v, ucast (drop_bit 8 v), ucast (drop_bit 16 v), ucast (drop_bit 24 v)]"

definition be32 :: "u32 \<Rightarrow> bytes" where
  "be32 v = [ucast (drop_bit 24 v), ucast (drop_bit 16 v), ucast (drop_bit 8 v), ucast v]"

definition le64 :: "u64 \<Rightarrow> bytes" where
  "le64 v = [ucast v, ucast (drop_bit 8 v), ucast (drop_bit 16 v), ucast (drop_bit 24 v),
             ucast (drop_bit 32 v), ucast (drop_bit 40 v), ucast (drop_bit 48 v), ucast (drop_bit 56 v)]"

definition be64 :: "u64 \<Rightarrow> bytes" where
  "be64 v = [ucast (drop_bit 56 v), ucast (drop_bit 48 v), ucast (drop_bit 40 v), ucast (drop_bit 32 v),
             ucast (drop_bit 24 v), ucast (drop_bit 16 v), ucast (drop_bit 8 v), ucast v]"

definition putUnalignedInt16Le :: "bytes \<Rightarrow> nat \<Rightarrow> u16 \<Rightarrow> bytes option" where
  "putUnalignedInt16Le b p v = memwrite b p (le16 v)"

definition putUnalignedInt16Be :: "bytes \<Rightarrow> nat \<Rightarrow> u16 \<Rightarrow> bytes option" where
  "putUnalignedInt16Be b p v = memwrite b p (be16 v)"

definition putUnalignedInt32Le :: "bytes \<Rightarrow> nat \<Rightarrow> u32 \<Rightarrow> bytes option" where
  "putUnalignedInt32Le b p v = memwrite b p (le32 v)"

definition putUnalignedInt32Be :: "bytes \<Rightarrow> nat \<Rightarrow> u32 \<Rightarrow> bytes option" where
  "putUnalignedInt32Be b p v = memwrite b p (be32 v)"

definition putUnalignedInt64Le :: "bytes \<Rightarrow> nat \<Rightarrow> u64 \<Rightarrow> bytes option" where
  "putUnalignedInt64Le b p v = memwrite b p (le64 v)"

definition putUnalignedInt64Be :: "bytes \<Rightarrow> nat \<Rightarrow> u64 \<Rightarrow> bytes option" where
  "putUnalignedInt64Be b p v = memwrite b p (be64 v)"

section \<open>Run-time selected conversions\<close>

text \<open>\<open>initializeEndianness\<close> selects the swapping variants on a little-endian host.\<close>

definition getInt16 :: "bool \<Rightarrow> u16 \<Rightarrow> u16" where
  "getInt16 isBig x = (if isBig then x else SWAP_INT16 x)"

definition getInt32 :: "bool \<Rightarrow> u32 \<Rightarrow> u32" where
  "getInt32 isBig x = (if isBig then x else SWAP_INT32 x)"

definition getInt64 :: "bool \<Rightarrow> u64 \<Rightarrow> u64" where
  "getInt64 isBig x = (if isBig then x else SWAP_INT64 x)"

definition native16 :: "bool \<Rightarrow> bytes \<Rightarrow> nat \<Rightarrow> u16 option" where
  "native16 isBig b p = (if isBig then getUnalignedInt16Be b p else getUnalignedInt16Le b p)"

definition native32 :: "bool \<Rightarrow> bytes \<Rightarrow> nat \<Rightarrow> u32 option" where
  "native32 isBig b p = (if isBig then getUnalignedInt32Be b p else getUnalignedInt32Le b p)"

definition native64 :: "bool \<Rightarrow> bytes \<Rightarrow> nat \<Rightarrow> u64 option" where
  "native64 isBig b p = (if isBig then getUnalignedInt64Be b p else getUnalignedInt64Le b p)"

text \<open>The expression \<^verbatim>\<open>getInt16(*(PUINT16) (b + p))\<close>, and its 32-bit form.\<close>

definition load16 :: "bool \<Rightarrow> bytes \<Rightarrow> nat \<Rightarrow> u16 option" where
  "load16 isBig b p = map_option (getInt16 isBig) (native16 isBig b p)"

definition load32 :: "bool \<Rightarrow> bytes \<Rightarrow> nat \<Rightarrow> u32 option" where
  "load32 isBig b p = map_option (getInt32 isBig) (native32 isBig b p)"

definition load64 :: "bool \<Rightarrow> bytes \<Rightarrow> nat \<Rightarrow> u64 option" where
  "load64 isBig b p = map_option (getInt64 isBig) (native64 isBig b p)"

text \<open>The bytes of an integer in the memory of the host, and the stores \<open>putInt\<close>.\<close>

definition nativebytes16 :: "bool \<Rightarrow> u16 \<Rightarrow> bytes" where
  "nativebytes16 isBig v = (if isBig then be16 v else le16 v)"

definition nativebytes32 :: "bool \<Rightarrow> u32 \<Rightarrow> bytes" where
  "nativebytes32 isBig v = (if isBig then be32 v else le32 v)"

definition nativebytes64 :: "bool \<Rightarrow> u64 \<Rightarrow> bytes" where
  "nativebytes64 isBig v = (if isBig then be64 v else le64 v)"

definition putInt16 :: "bool \<Rightarrow> bytes \<Rightarrow> nat \<Rightarrow> u16 \<Rightarrow> bytes option" where
  "putInt16 isBig b p v = memwrite b p (nativebytes16 isBig (getInt16 isBig v))"

definition putInt32 :: "bool \<Rightarrow> bytes \<Rightarrow> nat \<Rightarrow> u32 \<Rightarrow> bytes option" where
  "putInt32 isBig b p v = memwrite b p (nativebytes32 isBig (getInt32 isBig v))"

section \<open>Lemmas\<close>

lemma length_wire [simp]:
  "length (le16 h) = 2" "length (be16 h) = 2" "length (le32 w) = 4" "length (be32 w) = 4"
  "length (le64 d) = 8" "length (be64 d) = 8"
  by (simp_all add: le16_def be16_def le32_def be32_def le64_def be64_def)

lemma bit_byteD: "bit (b::byte) n \<Longrightarrow> n < 8"
  using bit_imp_le_length [of b n] by simp

lemma bit_u16D: "bit (h::u16) n \<Longrightarrow> n < 16"
  using bit_imp_le_length [of h n] by simp

lemma bit_u32D: "bit (w::u32) n \<Longrightarrow> n < 32"
  using bit_imp_le_length [of w n] by simp

lemma bit_MAKE_INT16: "bit (MAKE_INT16 a b) n = (if n < 8 then bit a n else bit b (n - 8))"
  unfolding MAKE_INT16_def by (auto simp: bit_simps dest: bit_byteD)

lemma bit_MAKE_INT32: "bit (MAKE_INT32 a b) n = (if n < 16 then bit a n else bit b (n - 16))"
  unfolding MAKE_INT32_def by (auto simp: bit_simps dest: bit_u16D)

lemma bit_MAKE_INT64: "bit (MAKE_INT64 a b) n = (if n < 32 then bit a n else bit b (n - 32))"
  unfolding MAKE_INT64_def by (auto simp: bit_simps dest: bit_u32D)

lemmas bit_MAKE = bit_MAKE_INT16 bit_MAKE_INT32 bit_MAKE_INT64

lemma bit_ucast_byte: "bit (ucast (w :: 'a::len word) :: byte) n = (n < 8 \<and> bit w n)"
  by (auto simp: bit_simps)

lemma bit_ucast_u16: "bit (ucast (w :: 'a::len word) :: u16) n = (n < 16 \<and> bit w n)"
  by (auto simp: bit_simps)

lemma bit_ucast_u32: "bit (ucast (w :: 'a::len word) :: u32) n = (n < 32 \<and> bit w n)"
  by (auto simp: bit_simps)

lemmas bit_ucasts = bit_ucast_byte bit_ucast_u16 bit_ucast_u32 bit_drop_bit_eq

lemma MAKE_INT16_split [simp]: "MAKE_INT16 (ucast v) (ucast (drop_bit 8 v)) = v"
  by (rule bit_word_eqI) (simp add: bit_MAKE bit_ucasts, arith)

lemma MAKE_INT32_split [simp]:
  "MAKE_INT32 (MAKE_INT16 (ucast v) (ucast (drop_bit 8 v)))
     (MAKE_INT16 (ucast (drop_bit 16 v)) (ucast (drop_bit 24 v))) = v"
  by (rule bit_word_eqI) (simp add: bit_MAKE bit_ucasts, arith)

lemma MAKE_INT64_split [simp]:
  "MAKE_INT64 (MAKE_INT32 (MAKE_INT16 (ucast v) (ucast (drop_bit 8 v)))
                 (MAKE_INT16 (ucast (drop_bit 16 v)) (ucast (drop_bit 24 v))))
              (MAKE_INT32 (MAKE_INT16 (ucast (drop_bit 32 v)) (ucast (drop_bit 40 v)))
                 (MAKE_INT16 (ucast (drop_bit 48 v)) (ucast (drop_bit 56 v)))) = v"
  by (rule bit_word_eqI) (simp add: bit_MAKE bit_ucasts, arith)

lemma MAKE_INT16_bytes [simp]:
  "(ucast :: u16 \<Rightarrow> byte) (MAKE_INT16 a b) = a" "(ucast :: u16 \<Rightarrow> byte) (drop_bit 8 (MAKE_INT16 a b)) = b"
  by (rule bit_word_eqI; simp add: bit_MAKE bit_ucasts)+

lemma MAKE_INT32_halves [simp]:
  "(ucast :: u32 \<Rightarrow> u16) (MAKE_INT32 a b) = a" "(ucast :: u32 \<Rightarrow> u16) (drop_bit 16 (MAKE_INT32 a b)) = b"
  by (rule bit_word_eqI; simp add: bit_MAKE bit_ucasts)+

lemma SWAP_INT16_swaps: "SWAP_INT16 (MAKE_INT16 a b) = MAKE_INT16 b a"
  by (simp add: SWAP_INT16_def)

lemma SWAP_INT32_swaps:
  "SWAP_INT32 (MAKE_INT32 (MAKE_INT16 a b) (MAKE_INT16 c d)) = MAKE_INT32 (MAKE_INT16 d c) (MAKE_INT16 b a)"
  by (simp add: SWAP_INT32_def SWAP_INT16_swaps)

lemma get_be_bytes [simp]:
  "getUnalignedInt16Be (be16 h @ r) 0 = Some h"
  "getUnalignedInt32Be (be32 w @ r) 0 = Some w"
  "getUnalignedInt16Le (le16 h @ r) 0 = Some h"
  "getUnalignedInt32Le (le32 w @ r) 0 = Some w"
  by (simp_all add: getUnalignedInt16Be_def getUnalignedInt32Be_def getUnalignedInt16Le_def
      getUnalignedInt32Le_def be16_def be32_def le16_def le32_def memget_def)

text \<open>
  Reading at a position behind a known prefix. With these four rules the simplifier walks
  through an explicit wire layout and reads any field of it.
\<close>

lemma memget_append [simp]: "memget (xs @ ys) (length xs + i) = memget ys i"
  by (simp add: memget_def)

lemma memget_shift: "length xs \<le> p \<Longrightarrow> memget (xs @ ys) p = memget ys (p - length xs)"
  by (auto simp: memget_def nth_append)

lemma get_Be_shift:
  "length xs \<le> p \<Longrightarrow> getUnalignedInt16Be (xs @ ys) p = getUnalignedInt16Be ys (p - length xs)"
  "length xs \<le> p \<Longrightarrow> getUnalignedInt32Be (xs @ ys) p = getUnalignedInt32Be ys (p - length xs)"
  by (simp_all only: getUnalignedInt16Be_def getUnalignedInt32Be_def memget_shift trans_le_add1
      Nat.add_diff_assoc2)

lemma get_Le_shift:
  "length xs \<le> p \<Longrightarrow> getUnalignedInt16Le (xs @ ys) p = getUnalignedInt16Le ys (p - length xs)"
  "length xs \<le> p \<Longrightarrow> getUnalignedInt32Le (xs @ ys) p = getUnalignedInt32Le ys (p - length xs)"
  by (simp_all only: getUnalignedInt16Le_def getUnalignedInt32Le_def memget_shift trans_le_add1
      Nat.add_diff_assoc2)

lemma get_Be_in_range:
  "p + 2 \<le> length b \<Longrightarrow> \<exists>v. getUnalignedInt16Be b p = Some v"
  "p + 4 \<le> length b \<Longrightarrow> \<exists>v. getUnalignedInt32Be b p = Some v"
  by (auto simp: getUnalignedInt16Be_def getUnalignedInt32Be_def memget_def)

lemma host_order_16:
  "map_option (getInt16 isBig) (native16 isBig b p) = getUnalignedInt16Be b p"
  by (auto simp: getInt16_def native16_def getUnalignedInt16Be_def getUnalignedInt16Le_def
      memget_def SWAP_INT16_swaps)

lemma host_order_32:
  "map_option (getInt32 isBig) (native32 isBig b p) = getUnalignedInt32Be b p"
  by (auto simp: getInt32_def native32_def getUnalignedInt32Be_def getUnalignedInt32Le_def
      memget_def SWAP_INT32_swaps)

lemma getInt_involution [simp]: "getInt16 g (getInt16 g x) = x" "getInt32 g (getInt32 g y) = y"
proof -
  have "SWAP_INT16 (SWAP_INT16 x) = x"
    by (metis MAKE_INT16_split SWAP_INT16_swaps)
  then show "getInt16 g (getInt16 g x) = x" by (simp add: getInt16_def)
  have "SWAP_INT32 (SWAP_INT32 y) = y"
    by (metis MAKE_INT32_split SWAP_INT32_swaps)
  then show "getInt32 g (getInt32 g y) = y" by (simp add: getInt32_def)
qed

text \<open>A native load of a field in network byte order.\<close>

lemma native_be:
  "getUnalignedInt16Be b p = Some v \<Longrightarrow> native16 g b p = Some (getInt16 g v)"
  "getUnalignedInt32Be b p = Some w \<Longrightarrow> native32 g b p = Some (getInt32 g w)"
  using host_order_16 [of g b p] host_order_32 [of g b p] by auto

lemma load_be [simp]: "load16 isBig b p = getUnalignedInt16Be b p" "load32 isBig b p = getUnalignedInt32Be b p"
  by (simp_all add: load16_def load32_def host_order_16 host_order_32)

lemma getInt_bytes:
  "nativebytes16 g (getInt16 g v) = be16 v"
  "nativebytes32 g (getInt32 g w) = be32 w"
proof -
  have "le16 (SWAP_INT16 v) = be16 v"
    by (simp add: le16_def be16_def SWAP_INT16_def)
  then show "nativebytes16 g (getInt16 g v) = be16 v"
    by (simp add: nativebytes16_def getInt16_def)
  have "le32 (SWAP_INT32 w) = be32 w"
    unfolding le32_def be32_def SWAP_INT32_def SWAP_INT16_def list.inject
    by (intro conjI refl bit_word_eqI; auto simp: bit_MAKE bit_ucasts)
  then show "nativebytes32 g (getInt32 g w) = be32 w"
    by (simp add: nativebytes32_def getInt32_def)
qed

lemma putInt_be [simp]:
  "putInt16 g b p v = memwrite b p (be16 v)"
  "putInt32 g b p w = memwrite b p (be32 w)"
  by (simp_all add: putInt16_def putInt32_def getInt_bytes)

lemma length_nativebytes [simp]:
  "length (nativebytes16 g v) = 2" "length (nativebytes32 g w) = 4" "length (nativebytes64 g d) = 8"
  by (simp_all add: nativebytes16_def nativebytes32_def nativebytes64_def)

end
