(* ===== verification/RtpPacket.thy ===== *)
theory RtpPacket
  imports Endianness
begin

text \<open>
  \<^verbatim>\<open>src/source/Rtp/RtpPacket.c\<close> and \<^verbatim>\<open>RtpPacket.h\<close>: RTP packets as structures and as bytes.

  A pointer into a buffer is the list of the bytes that follow it, or \<open>None\<close> for a null
  pointer; a length kept beside it is a 32-bit word, so a length that does not fit the buffer
  is representable and using it faults. \<open>csrcArray\<close> is the list of the words that the host
  reads there. \<open>MEMALLOC\<close> is a parameter: \<open>malloc n\<close> is the content of a fresh buffer of \<open>n\<close>
  bytes, or \<open>None\<close>.
\<close>

section \<open>Data\<close>

record RtpPacketHeader =
  version :: byte
  padding :: bool
  extension :: bool
  marker :: bool
  csrcCount :: byte
  payloadType :: byte
  sequenceNumber :: u16
  timestamp :: u32
  ssrc :: u32
  csrcArray :: "u32 list option"
  extensionProfile :: u16
  extensionPayload :: "bytes option"
  extensionLength :: u32

record RtpPacket =
  header :: RtpPacketHeader
  payload :: "bytes option"
  payloadLength :: u32
  pRawPacket :: "bytes option"
  rawPacketLength :: u32
  receivedTime :: u64
  sentTime :: u64
  isSynthetic :: bool

record PayloadArray =
  payloadBuffer :: "bytes"
  pa_payloadLength :: u32
  maxPayloadLength :: u32
  payloadSubLength :: "u32 list"
  payloadSubLenSize :: u32
  maxPayloadSubLenSize :: u32

abbreviation (input) MIN_HEADER_LENGTH :: nat where "MIN_HEADER_LENGTH \<equiv> 12"
abbreviation (input) CSRC_OFFSET :: nat where "CSRC_OFFSET \<equiv> 12"

definition RTP_HEADER_LEN :: "RtpPacket \<Rightarrow> u32" where
  "RTP_HEADER_LEN p = 12 + ucast (csrcCount (header p)) * 4 +
     (if extension (header p) then 4 + extensionLength (header p) else 0)"

definition RTP_GET_RAW_PACKET_SIZE :: "RtpPacket \<Rightarrow> u32" where
  "RTP_GET_RAW_PACKET_SIZE p = RTP_HEADER_LEN p + payloadLength p"

section \<open>Setting the fields\<close>

definition setRtpPacket ::
  "byte \<Rightarrow> bool \<Rightarrow> bool \<Rightarrow> byte \<Rightarrow> bool \<Rightarrow> byte \<Rightarrow> u16 \<Rightarrow> u32 \<Rightarrow> u32 \<Rightarrow> u32 list option \<Rightarrow> u16 \<Rightarrow> u32 \<Rightarrow>
   bytes option \<Rightarrow> bytes option \<Rightarrow> u32 \<Rightarrow> RtpPacket option \<Rightarrow> STATUS \<times> RtpPacket option" where
  "setRtpPacket ver pad ext cc mark pt seq ts src csrcs profile extLen extPayload pl plLen pPacket =
     (case pPacket of
        None \<Rightarrow> (STATUS_NULL_ARG, None)
      | Some p \<Rightarrow>
          if ext \<and> extPayload = None then (STATUS_NULL_ARG, Some p)
          else (STATUS_SUCCESS, Some (p\<lparr>header :=
                 \<lparr>version = ver, padding = pad, extension = ext, marker = mark, csrcCount = cc, payloadType = pt,
                  sequenceNumber = seq, timestamp = ts, ssrc = src, csrcArray = csrcs,
                  extensionProfile = (if ext then profile else 0),
                  extensionPayload = (if ext then extPayload else None),
                  extensionLength = (if ext then extLen else 0)\<rparr>,
               payload := pl, payloadLength := plLen\<rparr>)))"

text \<open>\<open>mem\<close> is the fresh structure, with whatever it holds, or \<open>None\<close> when there is no memory.\<close>

definition createRtpPacket ::
  "RtpPacket option \<Rightarrow> byte \<Rightarrow> bool \<Rightarrow> bool \<Rightarrow> byte \<Rightarrow> bool \<Rightarrow> byte \<Rightarrow> u16 \<Rightarrow> u32 \<Rightarrow> u32 \<Rightarrow> u32 list option \<Rightarrow> u16 \<Rightarrow>
   u32 \<Rightarrow> bytes option \<Rightarrow> bytes option \<Rightarrow> u32 \<Rightarrow> STATUS \<times> RtpPacket option" where
  "createRtpPacket mem ver pad ext cc mark pt seq ts src csrcs profile extLen extPayload pl plLen =
     (case mem of
        None \<Rightarrow> (STATUS_NOT_ENOUGH_MEMORY, None)
      | Some p \<Rightarrow>
          let (status, q) = setRtpPacket ver pad ext cc mark pt seq ts src csrcs profile extLen extPayload pl plLen
                (Some (p\<lparr>pRawPacket := None, rawPacketLength := 0\<rparr>)) in
          if status = STATUS_SUCCESS then (status, q) else (status, None))"

section \<open>Parsing\<close>

fun read_csrcs :: "bool \<Rightarrow> bytes \<Rightarrow> nat \<Rightarrow> nat \<Rightarrow> u32 list option" where
  "read_csrcs isBig raw off 0 = Some []"
| "read_csrcs isBig raw off (Suc n) =
     do { x \<leftarrow> native32 isBig raw off; xs \<leftarrow> read_csrcs isBig raw (off + 4) n; Some (x # xs) }"

definition setRtpPacketFromBytes ::
  "bool \<Rightarrow> bytes option \<Rightarrow> RtpPacket option \<Rightarrow> (STATUS \<times> RtpPacket option) option" where
  "setRtpPacketFromBytes isBig rawPacket pPacket =
     (case (pPacket, rawPacket) of
        (Some p, Some raw) \<Rightarrow>
          if length raw < MIN_HEADER_LENGTH then Some (STATUS_RTP_INPUT_PACKET_TOO_SMALL, Some p)
          else do {
            b0 \<leftarrow> memget raw 0;
            b1 \<leftarrow> memget raw 1;
            seq \<leftarrow> native16 isBig raw 2;
            ts \<leftarrow> native32 isBig raw 4;
            src \<leftarrow> native32 isBig raw 8;
            let ver = drop_bit 6 b0 AND 0x3;
            let pad = ((drop_bit 5 b0 AND 0x1) > 0);
            let ext = ((drop_bit 4 b0 AND 0x1) > 0);
            let cc = b0 AND 0xF;
            let mark = ((drop_bit 7 b1 AND 0x1) > 0);
            let pt = b1 AND 0x7F;
            let currOffset = CSRC_OFFSET + unat cc * 4;
            if length raw < currOffset then Some (STATUS_RTP_INPUT_PACKET_TOO_SMALL, Some p)
            else do {
              csrcs \<leftarrow> (if cc > 0 then map_option Some (read_csrcs isBig raw CSRC_OFFSET (unat cc)) else Some None);
              (profile, extLen, extPayload, currOffset) \<leftarrow>
                (if ext then do {
                   profile \<leftarrow> native16 isBig raw currOffset;
                   words \<leftarrow> native16 isBig raw (currOffset + 2);
                   let extLen = getInt16 isBig words * 4;
                   Some (getInt16 isBig profile, extLen, Some (drop (currOffset + 4) raw), currOffset + 4 + unat extLen) }
                 else Some (0, 0, None, currOffset));
              Some (setRtpPacket ver pad ext cc mark pt (getInt16 isBig seq) (getInt32 isBig ts) (getInt32 isBig src)
                      csrcs profile (ucast extLen) extPayload (Some (drop currOffset raw))
                      (word_of_nat (length raw) - word_of_nat currOffset) (Some p)) } }
      | _ \<Rightarrow> Some (STATUS_NULL_ARG, pPacket))"

definition createRtpPacketFromBytes ::
  "bool \<Rightarrow> RtpPacket option \<Rightarrow> bytes option \<Rightarrow> (STATUS \<times> RtpPacket option) option" where
  "createRtpPacketFromBytes isBig mem rawPacket =
     (case mem of
        None \<Rightarrow> Some (STATUS_NOT_ENOUGH_MEMORY, None)
      | Some p \<Rightarrow>
          do { (status, q) \<leftarrow> setRtpPacketFromBytes isBig rawPacket (Some (p\<lparr>pRawPacket := rawPacket,
                  rawPacketLength := (case rawPacket of None \<Rightarrow> 0 | Some raw \<Rightarrow> word_of_nat (length raw))\<rparr>));
               if status = STATUS_SUCCESS then Some (status, q) else Some (status, None) })"

section \<open>Serialising\<close>

fun put_csrcs :: "bytes \<Rightarrow> nat \<Rightarrow> nat \<Rightarrow> u32 list option \<Rightarrow> nat \<Rightarrow> bytes option" where
  "put_csrcs b off 0 csrcs i = Some b"
| "put_csrcs b off (Suc n) csrcs i =
     do { xs \<leftarrow> csrcs; x \<leftarrow> memget xs i; b \<leftarrow> putUnalignedInt32Be b off x; put_csrcs b (off + 4) n csrcs (i + 1) }"

definition put_payload :: "bytes \<Rightarrow> nat \<Rightarrow> RtpPacket \<Rightarrow> bytes option" where
  "put_payload b off p =
     (case payload p of
        Some pl \<Rightarrow> if payloadLength p > 0
                   then do { d \<leftarrow> memread pl 0 (unat (payloadLength p)); memwrite b off d } else Some b
      | None \<Rightarrow> Some b)"

definition first_byte :: "RtpPacketHeader \<Rightarrow> byte" where
  "first_byte h =
     (let b = push_bit 6 (version h) OR csrcCount h;
          b = (if padding h then b OR push_bit 5 1 else b)
      in if extension h then b OR push_bit 4 1 else b)"

definition second_byte :: "RtpPacketHeader \<Rightarrow> byte" where
  "second_byte h = (if marker h then payloadType h OR push_bit 7 1 else payloadType h)"

definition put_header :: "bytes \<Rightarrow> RtpPacketHeader \<Rightarrow> bytes option" where
  "put_header b h =
     do { b \<leftarrow> memwrite b 0 [first_byte h];
          b \<leftarrow> memwrite b 1 [second_byte h];
          b \<leftarrow> putUnalignedInt16Be b 2 (sequenceNumber h);
          b \<leftarrow> putUnalignedInt32Be b 4 (timestamp h);
          b \<leftarrow> putUnalignedInt32Be b 8 (ssrc h);
          put_csrcs b 12 (unat (csrcCount h)) (csrcArray h) 0 }"

definition put_extension :: "bytes \<Rightarrow> nat \<Rightarrow> RtpPacketHeader \<Rightarrow> bytes option" where
  "put_extension b off h =
     do { b \<leftarrow> putUnalignedInt16Be b off (extensionProfile h);
          b \<leftarrow> putUnalignedInt16Be b (off + 2) (ucast (extensionLength h div 4));
          ext \<leftarrow> extensionPayload h;
          d \<leftarrow> memread ext 0 (unat (extensionLength h));
          memwrite b (off + 4) d }"

definition setBytesFromRtpPacket :: "RtpPacket \<Rightarrow> bytes option \<Rightarrow> u32 \<Rightarrow> (STATUS \<times> bytes option) option" where
  "setBytesFromRtpPacket p pRaw packetLength =
     (case pRaw of
        None \<Rightarrow> Some (STATUS_NULL_ARG, None)
      | Some b \<Rightarrow>
          if packetLength < RTP_GET_RAW_PACKET_SIZE p then Some (STATUS_BUFFER_TOO_SMALL, Some b)
          else let h = header p; off = 12 + 4 * unat (csrcCount h) in do {
            b \<leftarrow> put_header b h;
            if extension h then
              if extensionLength h mod 4 \<noteq> 0 then Some (STATUS_RTP_INVALID_EXTENSION_LEN, Some b)
              else do { b \<leftarrow> put_extension b off h;
                        b \<leftarrow> put_payload b (off + 4 + unat (extensionLength h)) p;
                        Some (STATUS_SUCCESS, Some b) }
            else do { b \<leftarrow> put_payload b off p; Some (STATUS_SUCCESS, Some b) } })"

text \<open>The result is the status, the buffer and the value stored to \<open>*pPacketLength\<close>.\<close>

definition createBytesFromRtpPacket ::
  "RtpPacket option \<Rightarrow> bytes option \<Rightarrow> u32 option \<Rightarrow> (STATUS \<times> bytes option \<times> u32 option) option" where
  "createBytesFromRtpPacket pPacket pRaw pLen =
     (case (pPacket, pLen) of
        (Some p, Some len) \<Rightarrow>
          let packetLength = RTP_GET_RAW_PACKET_SIZE p in
          if pRaw = None then Some (STATUS_SUCCESS, pRaw, Some packetLength)
          else if len < packetLength then Some (STATUS_NOT_ENOUGH_MEMORY, pRaw, Some packetLength)
          else do { (status, b) \<leftarrow> setBytesFromRtpPacket p pRaw packetLength; Some (status, b, Some packetLength) }
      | _ \<Rightarrow> Some (STATUS_NULL_ARG, pRaw, map_option (\<lambda>_. 0) pLen))"

section \<open>Packets of a frame\<close>

text \<open>
  One round per payload: slot \<open>i\<close> of \<open>pPackets\<close> gets the next sequence number and the pointer
  into the payload buffer, which moves on by the length of the payload.
\<close>

fun construct_loop ::
  "bytes \<Rightarrow> u32 \<Rightarrow> byte \<Rightarrow> u32 \<Rightarrow> u32 \<Rightarrow> u32 list \<Rightarrow> u32 \<Rightarrow> u16 \<Rightarrow> nat \<Rightarrow> RtpPacket list \<Rightarrow>
   (STATUS \<times> RtpPacket list) option" where
  "construct_loop buf subLenSize pt ts src [] i seq off packets = Some (STATUS_SUCCESS, packets)"
| "construct_loop buf subLenSize pt ts src (len # lens) i seq off packets =
     do { slot \<leftarrow> memget packets (unat i);
          let (status, q) = setRtpPacket 2 False False 0 (i = subLenSize - 1) pt seq ts src None 0 0 None
                              (Some (drop off buf)) len (Some slot);
          let packets = (case q of Some p \<Rightarrow> packets[unat i := p] | None \<Rightarrow> packets);
          if status \<noteq> STATUS_SUCCESS then Some (status, packets)
          else construct_loop buf subLenSize pt ts src lens (i + 1) (seq + 1) (off + unat len) packets }"

definition constructRtpPackets ::
  "PayloadArray option \<Rightarrow> byte \<Rightarrow> u16 \<Rightarrow> u32 \<Rightarrow> u32 \<Rightarrow> RtpPacket list option \<Rightarrow> u32 \<Rightarrow> (STATUS \<times> RtpPacket list option) option" where
  "constructRtpPackets pPayloadArray pt startSeq ts src pPackets packetCount =
     (case pPayloadArray of
        None \<Rightarrow> Some (STATUS_SUCCESS, pPackets)
      | Some pa \<Rightarrow>
          if pa_payloadLength pa = 0 then Some (STATUS_SUCCESS, pPackets)
          else case pPackets of
            None \<Rightarrow> Some (STATUS_NULL_ARG, None)
          | Some packets \<Rightarrow>
              if payloadSubLenSize pa > packetCount then Some (STATUS_BUFFER_TOO_SMALL, Some packets)
              else do { lens \<leftarrow> memread (payloadSubLength pa) 0 (unat (payloadSubLenSize pa));
                        (status, packets) \<leftarrow> construct_loop (payloadBuffer pa) (payloadSubLenSize pa) pt ts src lens 0
                                               startSeq 0 packets;
                        Some (status, Some packets) })"

section \<open>Retransmission\<close>

text \<open>
  The error path frees \<open>pRawPacket\<close>, also before it was set; freeing a pointer that no
  allocation returned is a fault.
\<close>

definition free_unset :: "STATUS \<Rightarrow> RtpPacket \<Rightarrow> (STATUS \<times> RtpPacket option) option" where
  "free_unset status p = (if pRawPacket p = None then Some (status, None) else None)"

text \<open>
  \<open>mem\<close> and \<open>malloc\<close> stand for the allocations. The packet that leaves has the original
  sequence number in front of its payload, and its payload pointer goes into \<open>pRawPacket\<close>.
\<close>

definition constructRetransmitRtpPacketFromBytes ::
  "bool \<Rightarrow> RtpPacket option \<Rightarrow> (nat \<Rightarrow> bytes option) \<Rightarrow> bytes option \<Rightarrow> u16 \<Rightarrow> byte \<Rightarrow> u32 \<Rightarrow> (STATUS \<times> RtpPacket option) option" where
  "constructRetransmitRtpPacketFromBytes isBig mem malloc rawPacket sequenceNum pt src =
     (case mem of
        None \<Rightarrow> Some (STATUS_NOT_ENOUGH_MEMORY, None)
      | Some junk \<Rightarrow> do {
          (status, q) \<leftarrow> setRtpPacketFromBytes isBig rawPacket (Some junk);
          p \<leftarrow> q;
          if status \<noteq> STATUS_SUCCESS then free_unset status p
          else
            case malloc (unat (payloadLength p + 2)) of
              None \<Rightarrow> free_unset STATUS_NOT_ENOUGH_MEMORY p
            | Some pPayload \<Rightarrow> do {
                pPayload \<leftarrow> putUnalignedInt16Be pPayload 0 (sequenceNumber (header p));
                pl \<leftarrow> payload p;
                d \<leftarrow> memread pl 0 (unat (payloadLength p));
                pPayload \<leftarrow> memwrite pPayload 2 d;
                let p1 = p\<lparr>payloadLength := payloadLength p + 2, payload := Some pPayload,
                           header := (header p)\<lparr>sequenceNumber := sequenceNum, ssrc := src, payloadType := pt, padding := False\<rparr>,
                           pRawPacket := None\<rparr>;
                (status, _, len) \<leftarrow> createBytesFromRtpPacket (Some p1) None (Some (rawPacketLength p1));
                len \<leftarrow> len;
                case malloc (unat len) of
                  None \<Rightarrow> Some (STATUS_NOT_ENOUGH_MEMORY, None)
                | Some raw \<Rightarrow> do {
                    (status, raw, len) \<leftarrow> createBytesFromRtpPacket (Some p1) (Some raw) (Some len);
                    if status \<noteq> STATUS_SUCCESS then Some (status, None)
                    else do {
                      raw \<leftarrow> raw;
                      len \<leftarrow> len;
                      Some (STATUS_SUCCESS, Some (p1\<lparr>pRawPacket := Some raw, rawPacketLength := len,
                        payload := Some (drop (unat (RTP_GET_RAW_PACKET_SIZE p1 - payloadLength p1)) raw)\<rparr>)) } } } })"

section \<open>Layout\<close>

definition csrc_list :: "RtpPacketHeader \<Rightarrow> u32 list" where
  "csrc_list h = (case csrcArray h of None \<Rightarrow> [] | Some xs \<Rightarrow> xs)"

definition ext_bytes :: "RtpPacketHeader \<Rightarrow> bytes" where
  "ext_bytes h = (case extensionPayload h of None \<Rightarrow> [] | Some xs \<Rightarrow> take (unat (extensionLength h)) xs)"

definition payload_bytes :: "RtpPacket \<Rightarrow> bytes" where
  "payload_bytes p = (case payload p of None \<Rightarrow> [] | Some xs \<Rightarrow> take (unat (payloadLength p)) xs)"

definition rtp_layout :: "RtpPacket \<Rightarrow> bytes" where
  "rtp_layout p = (let h = header p in
     [first_byte h, second_byte h] @ be16 (sequenceNumber h) @ be32 (timestamp h) @ be32 (ssrc h) @
     concat (map be32 (csrc_list h)) @
     (if extension h then be16 (extensionProfile h) @ be16 (ucast (extensionLength h div 4)) @ ext_bytes h else []) @
     payload_bytes p)"

text \<open>
  A packet that the structure can describe: fields within their bit widths, the counts and
  lengths equal to what the pointers hold, the extension in 32-bit words and short enough for
  the 16-bit length the parser computes with.
\<close>

definition rtp_wf :: "RtpPacket \<Rightarrow> bool" where
  "rtp_wf p = (let h = header p in
     version h < 4 \<and> csrcCount h < 16 \<and> payloadType h < 128 \<and>
     (csrcCount h = 0 \<longrightarrow> csrcArray h = None) \<and>
     (csrcCount h \<noteq> 0 \<longrightarrow> (\<exists>xs. csrcArray h = Some xs \<and> length xs = unat (csrcCount h))) \<and>
     (extension h \<longrightarrow> extensionLength h mod 4 = 0 \<and> extensionLength h < 2 ^ 16 \<and>
        (\<exists>e. extensionPayload h = Some e \<and> unat (extensionLength h) \<le> length e)) \<and>
     (\<exists>pl. payload p = Some pl \<and> unat (payloadLength p) \<le> length pl) \<and>
     unat (payloadLength p) < 2 ^ 31)"

lemma length_concat_be32 [simp]: "length (concat (map be32 xs)) = 4 * length xs"
  by (induction xs) auto

lemma byte_masks: "(0x3 :: byte) = mask 2" "(0xF :: byte) = mask 4" "(0x7F :: byte) = mask 7"
  by (simp_all add: mask_eq_exp_minus_1)

lemma low_bit_set: "(w AND 0x1 > 0) = bit w 0" for w :: byte
  by (simp only: and_one_eq mod_2_eq_odd bit_0) simp

lemma bit_flags:
  "bit (if c then 0x20 else 0 :: byte) n = (c \<and> n = 5)" "bit (if c then 0x10 else 0 :: byte) n = (c \<and> n = 4)"
  "bit (if c then 0x80 else 0 :: byte) n = (c \<and> n = 7)"
proof -
  have p: "(0x20 :: byte) = 2 ^ 5" "(0x10 :: byte) = 2 ^ 4" "(0x80 :: byte) = 2 ^ 7" by simp_all
  have "bit (2 ^ 5 :: byte) n = (n = 5)" "bit (2 ^ 4 :: byte) n = (n = 4)" "bit (2 ^ 7 :: byte) n = (n = 7)"
    by (simp_all only: bit_exp_iff possible_bit_word) auto
  then show "bit (if c then 0x20 else 0 :: byte) n = (c \<and> n = 5)" "bit (if c then 0x10 else 0 :: byte) n = (c \<and> n = 4)"
    "bit (if c then 0x80 else 0 :: byte) n = (c \<and> n = 7)"
    unfolding p by (cases c; simp only: if_True if_False; simp)+
qed

lemma first_byte_eq:
  "first_byte h = push_bit 6 (version h) OR csrcCount h OR (if padding h then 0x20 else 0) OR (if extension h then 0x10 else 0)"
  by (simp add: first_byte_def Let_def or.assoc)

lemma second_byte_eq: "second_byte h = payloadType h OR (if marker h then 0x80 else 0)"
  by (simp add: second_byte_def)

lemma bit_first_byte:
  assumes "version h < 4" and "csrcCount h < 16"
  shows "bit (first_byte h) n = (6 \<le> n \<and> n < 8 \<and> bit (version h) (n - 6) \<or> n < 4 \<and> bit (csrcCount h) n \<or>
    padding h \<and> n = 5 \<or> extension h \<and> n = 4)"
proof -
  have "unat (csrcCount h) < 2 ^ 4" using assms(2) by (simp add: word_less_nat_alt)
  then have "bit (csrcCount h) n \<Longrightarrow> n < 4" using bit_word_lessD by blast
  then show ?thesis
    unfolding first_byte_eq by (simp only: bit_or_iff bit_push_bit_iff bit_flags) (auto dest: bit_byteD)
qed

lemma first_byte_fields:
  assumes "version h < 4" and "csrcCount h < 16"
  shows "drop_bit 6 (first_byte h) AND 0x3 = version h" and "first_byte h AND 0xF = csrcCount h"
    and "((drop_bit 5 (first_byte h) AND 0x1) > 0) = padding h" and "((drop_bit 4 (first_byte h) AND 0x1) > 0) = extension h"
proof -
  note bits = bit_first_byte [OF assms]
  have "unat (version h) < 2 ^ 2" "unat (csrcCount h) < 2 ^ 4" using assms by (simp_all add: word_less_nat_alt)
  then have lt: "\<And>n. bit (version h) n \<Longrightarrow> n < 2" "\<And>n. bit (csrcCount h) n \<Longrightarrow> n < 4"
    using bit_word_lessD by blast+
  show "drop_bit 6 (first_byte h) AND 0x3 = version h"
    by (rule bit_word_eqI)
      (simp only: byte_masks bit_and_iff bit_mask_iff bit_drop_bit_eq comp_def bits, use lt(1) in \<open>auto dest: lt\<close>)
  show "first_byte h AND 0xF = csrcCount h"
    by (rule bit_word_eqI)
      (simp only: byte_masks bit_and_iff bit_mask_iff bits, use lt(2) in \<open>auto dest: lt\<close>)
  show "((drop_bit 5 (first_byte h) AND 0x1) > 0) = padding h" "((drop_bit 4 (first_byte h) AND 0x1) > 0) = extension h"
    by (simp_all only: low_bit_set bit_drop_bit_eq comp_def bits) auto
qed

lemma second_byte_fields:
  assumes "payloadType h < 128"
  shows "second_byte h AND 0x7F = payloadType h" and "((drop_bit 7 (second_byte h) AND 0x1) > 0) = marker h"
proof -
  have "unat (payloadType h) < 2 ^ 7" using assms by (simp add: word_less_nat_alt)
  then have lt: "\<And>n. bit (payloadType h) n \<Longrightarrow> n < 7" using bit_word_lessD by blast
  have bits: "bit (second_byte h) n = (n < 7 \<and> bit (payloadType h) n \<or> marker h \<and> n = 7)" for n
    unfolding second_byte_eq by (simp only: bit_or_iff bit_flags) (auto dest: lt)
  show "second_byte h AND 0x7F = payloadType h"
    by (rule bit_word_eqI) (simp only: byte_masks bit_and_iff bit_mask_iff bits, auto dest: lt)
  show "((drop_bit 7 (second_byte h) AND 0x1) > 0) = marker h"
    by (simp only: low_bit_set bit_drop_bit_eq comp_def bits) auto
qed

section \<open>Serialising stores the layout\<close>

lemma rtp_wf_csrc: "rtp_wf p \<Longrightarrow> length (csrc_list (header p)) = unat (csrcCount (header p))"
  by (auto simp: rtp_wf_def Let_def csrc_list_def split: option.splits)

lemma rtp_wf_bounds:
  assumes "rtp_wf p"
  shows "unat (csrcCount (header p)) < 16" and "extension (header p) \<Longrightarrow> unat (extensionLength (header p)) < 2 ^ 16"
    and "unat (payloadLength p) < 2 ^ 31" and "extension (header p) \<Longrightarrow> length (ext_bytes (header p)) = unat (extensionLength (header p))"
    and "length (payload_bytes p) = unat (payloadLength p)"
  using assms by (auto simp: rtp_wf_def Let_def word_less_nat_alt ext_bytes_def payload_bytes_def)

lemma length_rtp_layout:
  assumes "rtp_wf p"
  shows "length (rtp_layout p) = 12 + 4 * unat (csrcCount (header p)) +
    (if extension (header p) then 4 + unat (extensionLength (header p)) else 0) + unat (payloadLength p)"
  using rtp_wf_bounds [OF assms] rtp_wf_csrc [OF assms] by (auto simp: rtp_layout_def Let_def)

lemma raw_packet_size:
  assumes "rtp_wf p"
  shows "RTP_GET_RAW_PACKET_SIZE p = word_of_nat (length (rtp_layout p))"
    and "unat (RTP_GET_RAW_PACKET_SIZE p) = length (rtp_layout p)"
proof -
  show *: "RTP_GET_RAW_PACKET_SIZE p = word_of_nat (length (rtp_layout p))"
    unfolding RTP_GET_RAW_PACKET_SIZE_def RTP_HEADER_LEN_def length_rtp_layout [OF assms]
    by (simp add: mult.commute)
  have "length (rtp_layout p) < 2 ^ 32"
    using rtp_wf_bounds [OF assms] unfolding length_rtp_layout [OF assms] by (auto split: if_splits)
  then show "unat (RTP_GET_RAW_PACKET_SIZE p) = length (rtp_layout p)"
    unfolding * by (simp add: unat_of_nat take_bit_nat_eq_self)
qed

lemma put_csrcs_splice:
  "i + n \<le> length xs \<Longrightarrow> off + 4 * n \<le> length b \<Longrightarrow>
   put_csrcs b off n (Some xs) i = Some (bsplice b off (concat (map be32 (take n (drop i xs)))))"
proof (induction b off n "Some xs" i rule: put_csrcs.induct)
  case (2 b off n i)
  then have "drop i xs = xs ! i # drop (Suc i) xs" by (simp add: Cons_nth_drop_Suc)
  with 2 show ?case by (simp add: mem_simps putUnalignedInt32Be_def)
qed simp

lemma put_csrcs_layout:
  assumes "rtp_wf p" and "off + 4 * unat (csrcCount (header p)) \<le> length b"
  shows "put_csrcs b off (unat (csrcCount (header p))) (csrcArray (header p)) 0 =
    Some (bsplice b off (concat (map be32 (csrc_list (header p)))))"
proof (cases "csrcCount (header p) = 0")
  case True
  then show ?thesis using assms(1) by (simp add: rtp_wf_def Let_def csrc_list_def)
next
  case False
  then obtain xs where "csrcArray (header p) = Some xs" "length xs = unat (csrcCount (header p))"
    using assms(1) by (auto simp: rtp_wf_def Let_def)
  then show ?thesis using put_csrcs_splice [of 0 "unat (csrcCount (header p))" xs off b] assms(2)
    by (simp add: csrc_list_def)
qed

lemma put_payload_layout:
  assumes "rtp_wf p" and "off + length (payload_bytes p) \<le> length b"
  shows "put_payload b off p = Some (bsplice b off (payload_bytes p))"
proof -
  obtain pl where pl: "payload p = Some pl" "unat (payloadLength p) \<le> length pl"
    using assms(1) by (auto simp: rtp_wf_def Let_def)
  then show ?thesis using assms(2)
    by (cases "payloadLength p = 0") (auto simp: put_payload_def payload_bytes_def mem_simps word_greater_zero_iff)
qed

lemma put_header_layout:
  assumes "rtp_wf p" and "12 + 4 * unat (csrcCount (header p)) \<le> length b"
  shows "put_header b (header p) = Some (bsplice b 0 ([first_byte (header p), second_byte (header p)] @
    be16 (sequenceNumber (header p)) @ be32 (timestamp (header p)) @ be32 (ssrc (header p)) @
    concat (map be32 (csrc_list (header p)))))"
  using assms put_csrcs_layout [OF assms(1), of 12]
  by (simp add: put_header_def mem_simps putUnalignedInt16Be_def putUnalignedInt32Be_def)

lemma put_extension_layout:
  assumes "rtp_wf p" and "extension (header p)" and "off + 4 + unat (extensionLength (header p)) \<le> length b"
  shows "put_extension b off (header p) = Some (bsplice b off (be16 (extensionProfile (header p)) @
    be16 (ucast (extensionLength (header p) div 4)) @ ext_bytes (header p)))"
proof -
  obtain e where "extensionPayload (header p) = Some e" "unat (extensionLength (header p)) \<le> length e"
    using assms(1,2) by (auto simp: rtp_wf_def Let_def)
  then show ?thesis using assms(3) by (simp add: put_extension_def mem_simps putUnalignedInt16Be_def ext_bytes_def)
qed

lemma set_bytes_layout:
  assumes wf: "rtp_wf p" and "length (rtp_layout p) \<le> length b" and "RTP_GET_RAW_PACKET_SIZE p \<le> len"
  shows "setBytesFromRtpPacket p (Some b) len = Some (STATUS_SUCCESS, Some (bsplice b 0 (rtp_layout p)))"
proof -
  let ?h = "header p"
  have lb: "12 + 4 * unat (csrcCount ?h) + (if extension ?h then 4 + unat (extensionLength ?h) else 0) +
      unat (payloadLength p) \<le> length b"
    using assms(2) length_rtp_layout [OF wf] by simp
  have csl: "length (csrc_list ?h) = unat (csrcCount ?h)" by (rule rtp_wf_csrc [OF wf])
  note bnd = rtp_wf_bounds [OF wf]
  have m4: "extension ?h \<Longrightarrow> extensionLength ?h mod 4 = 0" using wf by (simp add: rtp_wf_def Let_def)
  show ?thesis
  proof (cases "extension ?h")
    case True
    then show ?thesis
      using assms(3) lb csl bnd m4 put_header_layout [OF wf, of b]
      by (simp add: setBytesFromRtpPacket_def Let_def put_extension_layout [OF wf] put_payload_layout [OF wf] rtp_layout_def not_less)
  next
    case False
    then show ?thesis
      using assms(3) lb csl bnd put_header_layout [OF wf, of b]
      by (simp add: setBytesFromRtpPacket_def Let_def put_payload_layout [OF wf] rtp_layout_def not_less)
  qed
qed

section \<open>Parsing reads the layout\<close>

lemma read_csrcs_layout:
  "read_csrcs g (pre @ concat (map be32 xs) @ r) (length pre) (length xs) = Some (map (getInt32 g) xs)"
proof (induction xs arbitrary: pre)
  case (Cons x xs)
  have "getUnalignedInt32Be (pre @ be32 x @ concat (map be32 xs) @ r) (length pre) = Some x"
    by (simp add: get_Be_shift)
  from native_be(2) [OF this, of g] Cons [of "pre @ be32 x"] show ?case by simp
qed simp

definition header_prefix :: "RtpPacketHeader \<Rightarrow> bytes" where
  "header_prefix h = [first_byte h, second_byte h] @ be16 (sequenceNumber h) @ be32 (timestamp h) @ be32 (ssrc h)"

lemma length_header_prefix [simp]: "length (header_prefix h) = 12"
  by (simp add: header_prefix_def)

lemma rtp_layout_split:
  "rtp_layout p = header_prefix (header p) @ concat (map be32 (csrc_list (header p))) @
     (if extension (header p) then be16 (extensionProfile (header p)) @
        be16 (ucast (extensionLength (header p) div 4)) @ ext_bytes (header p) else []) @ payload_bytes p"
  by (simp add: rtp_layout_def header_prefix_def Let_def)

lemma header_prefix_reads:
  "memget (header_prefix h @ r) 0 = Some (first_byte h)" "memget (header_prefix h @ r) 1 = Some (second_byte h)"
  "native16 g (header_prefix h @ r) 2 = Some (getInt16 g (sequenceNumber h))"
  "native32 g (header_prefix h @ r) 4 = Some (getInt32 g (timestamp h))"
  "native32 g (header_prefix h @ r) 8 = Some (getInt32 g (ssrc h))"
  by (simp_all add: header_prefix_def memget_def)
    (rule native_be; simp add: get_Be_shift get_Be_shift [of "[first_byte h, second_byte h]", simplified])+

lemma ext_length_words:
  fixes n :: u32
  assumes "n mod 4 = 0" and "n < 2 ^ 16"
  shows "unat ((ucast (n div 4) :: u16) * 4) = unat n" and "(ucast ((ucast (n div 4) :: u16) * 4) :: u32) = n"
proof -
  have n: "unat n mod 4 = 0" "unat n < 2 ^ 16"
    using assms by (simp_all add: word_less_nat_alt unat_mod flip: unat_eq_zero)
  have d: "unat (ucast (n div 4) :: u16) = unat n div 4"
    using n by (simp add: unsigned_ucast_eq unat_div take_bit_nat_eq_self)
  have "unat n div 4 * 4 = unat n" using n(1) by presburger
  moreover have "unat n div 4 < 16384" using n(2) by (simp add: div_less_iff_less_mult)
  then have "unat ((ucast (n div 4) :: u16) * 4) = unat n div 4 * 4"
    using d unat_mult_lem [of "ucast (n div 4) :: u16" 4] by simp
  ultimately show *: "unat ((ucast (n div 4) :: u16) * 4) = unat n" by simp
  show "(ucast ((ucast (n div 4) :: u16) * 4) :: u32) = n"
    using * n unfolding word_unat_eq_iff by (simp add: unsigned_ucast_eq take_bit_nat_eq_self)
qed

text \<open>What survives a round trip: every field, with the CSRCs in the byte order of the host.\<close>

definition same_packet :: "bool \<Rightarrow> RtpPacket \<Rightarrow> RtpPacket \<Rightarrow> bool" where
  "same_packet g p r = (
     version (header r) = version (header p) \<and> padding (header r) = padding (header p) \<and>
     extension (header r) = extension (header p) \<and> marker (header r) = marker (header p) \<and>
     csrcCount (header r) = csrcCount (header p) \<and> payloadType (header r) = payloadType (header p) \<and>
     sequenceNumber (header r) = sequenceNumber (header p) \<and> timestamp (header r) = timestamp (header p) \<and>
     ssrc (header r) = ssrc (header p) \<and> csrc_list (header r) = map (getInt32 g) (csrc_list (header p)) \<and>
     (extension (header p) \<longrightarrow> extensionProfile (header r) = extensionProfile (header p) \<and>
        extensionLength (header r) = extensionLength (header p) \<and> ext_bytes (header r) = ext_bytes (header p)) \<and>
     payloadLength r = payloadLength p \<and> payload_bytes r = payload_bytes p)"

lemma read_csrcs_packet:
  assumes "rtp_wf p"
  shows "(if csrcCount (header p) > 0
      then map_option Some (read_csrcs g (header_prefix (header p) @ concat (map be32 (csrc_list (header p))) @ r) 12
             (unat (csrcCount (header p)))) else Some None) =
    Some (if csrcCount (header p) > 0 then Some (map (getInt32 g) (csrc_list (header p))) else None)"
  using read_csrcs_layout [of g "header_prefix (header p)" "csrc_list (header p)" r] rtp_wf_csrc [OF assms] by simp

lemma parse_layout:
  assumes wf: "rtp_wf p"
  shows "\<exists>r. setRtpPacketFromBytes g (Some (rtp_layout p)) (Some q) = Some (STATUS_SUCCESS, Some r) \<and> same_packet g p r \<and>
    rtp_wf r \<and> pRawPacket r = pRawPacket q"
proof -
  let ?h = "header p"
  let ?raw = "rtp_layout p"
  let ?off = "12 + unat (csrcCount ?h) * 4"
  let ?cs = "concat (map be32 (csrc_list ?h))"
  let ?csrcs = "if csrcCount ?h > 0 then Some (map (getInt32 g) (csrc_list ?h)) else None"
  have fields: "version ?h < 4" "csrcCount ?h < 16" "payloadType ?h < 128" using wf by (simp_all add: rtp_wf_def Let_def)
  note fb = first_byte_fields [OF fields(1,2)] second_byte_fields [OF fields(3)]
  note bnd = rtp_wf_bounds [OF wf]
  have csl: "length (csrc_list ?h) = unat (csrcCount ?h)" by (rule rtp_wf_csrc [OF wf])
  have len: "\<not> length ?raw < 12" "\<not> length ?raw < ?off" using length_rtp_layout [OF wf] by auto
  have rd: "memget ?raw 0 = Some (first_byte ?h)" "memget ?raw 1 = Some (second_byte ?h)"
    "native16 g ?raw 2 = Some (getInt16 g (sequenceNumber ?h))" "native32 g ?raw 4 = Some (getInt32 g (timestamp ?h))"
    "native32 g ?raw 8 = Some (getInt32 g (ssrc ?h))"
    unfolding rtp_layout_split by (rule header_prefix_reads)+
  have cs: "(if csrcCount ?h > 0 then map_option Some (read_csrcs g ?raw 12 (unat (csrcCount ?h))) else Some None) = Some ?csrcs"
    unfolding rtp_layout_split by (rule read_csrcs_packet [OF wf])
  have clist: "(case ?csrcs of None \<Rightarrow> [] | Some xs \<Rightarrow> xs) = map (getInt32 g) (csrc_list ?h)"
    using csl by (auto simp: word_greater_zero_iff)
  show ?thesis
  proof (cases "extension ?h")
    case False
    have drop: "drop ?off ?raw = payload_bytes p" using False csl by (simp add: rtp_layout_split)
    have plen: "(word_of_nat (length ?raw) - word_of_nat ?off :: u32) = payloadLength p"
      using False length_rtp_layout [OF wf] by (simp add: mult.commute)
    have "\<exists>r. setRtpPacketFromBytes g (Some ?raw) (Some q) = Some (STATUS_SUCCESS, Some r) \<and>
        header r = \<lparr>version = version ?h, padding = padding ?h, extension = extension ?h, marker = marker ?h,
          csrcCount = csrcCount ?h, payloadType = payloadType ?h, sequenceNumber = sequenceNumber ?h,
          timestamp = timestamp ?h, ssrc = ssrc ?h, csrcArray = ?csrcs, extensionProfile = 0, extensionPayload = None,
          extensionLength = 0\<rparr> \<and> payload r = Some (payload_bytes p) \<and> payloadLength r = payloadLength p \<and>
        pRawPacket r = pRawPacket q"
      using len rd cs drop plen False fb
      by (simp add: setRtpPacketFromBytes_def setRtpPacket_def)
    then show ?thesis using False clist bnd(3,5) fields csl
      by (auto simp: same_packet_def rtp_wf_def Let_def csrc_list_def payload_bytes_def word_greater_zero_iff)
  next
    case True
    have ext4: "extensionLength ?h mod 4 = 0" "extensionLength ?h < 2 ^ 16" using wf True by (simp_all add: rtp_wf_def Let_def)
    note words = ext_length_words [OF ext4]
    let ?words = "ucast (extensionLength ?h div 4) :: u16"
    have e: "native16 g ?raw ?off = Some (getInt16 g (extensionProfile ?h))" "native16 g ?raw (?off + 2) = Some (getInt16 g ?words)"
      using True csl by (auto simp: rtp_layout_split get_Be_shift intro!: native_be)
    have drop: "drop (?off + 4) ?raw = ext_bytes ?h @ payload_bytes p"
      "drop (?off + 4 + unat (extensionLength ?h)) ?raw = payload_bytes p"
      using True csl bnd(4) by (simp_all add: rtp_layout_split)
    have plen: "(word_of_nat (length ?raw) - word_of_nat (?off + 4 + unat (extensionLength ?h)) :: u32) = payloadLength p"
      using True length_rtp_layout [OF wf] by (simp add: mult.commute)
    have "\<exists>r. setRtpPacketFromBytes g (Some ?raw) (Some q) = Some (STATUS_SUCCESS, Some r) \<and>
        header r = \<lparr>version = version ?h, padding = padding ?h, extension = extension ?h, marker = marker ?h,
          csrcCount = csrcCount ?h, payloadType = payloadType ?h, sequenceNumber = sequenceNumber ?h,
          timestamp = timestamp ?h, ssrc = ssrc ?h, csrcArray = ?csrcs, extensionProfile = extensionProfile ?h,
          extensionPayload = Some (ext_bytes ?h @ payload_bytes p), extensionLength = extensionLength ?h\<rparr> \<and>
        payload r = Some (payload_bytes p) \<and> payloadLength r = payloadLength p \<and> pRawPacket r = pRawPacket q"
      using len rd cs e drop plen True fb words
      by (simp add: setRtpPacketFromBytes_def setRtpPacket_def)
    then show ?thesis
      using True clist bnd(3,4,5) fields csl ext4
      by (auto simp: same_packet_def rtp_wf_def Let_def csrc_list_def payload_bytes_def ext_bytes_def word_greater_zero_iff)
        (rule ext4(1))
  qed
qed

section \<open>The packets of a frame\<close>

definition frame_header :: "byte \<Rightarrow> u16 \<Rightarrow> u32 \<Rightarrow> u32 \<Rightarrow> bool \<Rightarrow> RtpPacketHeader" where
  "frame_header pt seq ts src mark = \<lparr>version = 2, padding = False, extension = False, marker = mark, csrcCount = 0,
     payloadType = pt, sequenceNumber = seq, timestamp = ts, ssrc = src, csrcArray = None, extensionProfile = 0,
     extensionPayload = None, extensionLength = 0\<rparr>"

lemma construct_loop_spec:
  assumes "i + length lens \<le> length packets" and "length packets < 2 ^ 32"
  shows "\<exists>ps. construct_loop buf n pt ts src lens (word_of_nat i) seq off packets = Some (STATUS_SUCCESS, ps) \<and>
    length ps = length packets \<and> (\<forall>j. j < i \<or> i + length lens \<le> j \<longrightarrow> ps ! j = packets ! j) \<and>
    (\<forall>k < length lens. header (ps ! (i + k)) = frame_header pt (seq + word_of_nat k) ts src (word_of_nat (i + k) = n - 1) \<and>
       payload (ps ! (i + k)) = Some (drop (off + (\<Sum>l\<leftarrow>take k lens. unat l)) buf) \<and> payloadLength (ps ! (i + k)) = lens ! k)"
  using assms
proof (induction lens arbitrary: i seq off packets)
  case (Cons len lens)
  have i: "i < length packets" and ui: "unat (word_of_nat i :: u32) = i"
    using Cons.prems by (auto simp: unat_of_nat take_bit_nat_eq_self)
  let ?q = "(packets ! i)\<lparr>header := frame_header pt seq ts src (word_of_nat i = n - 1), payload := Some (drop off buf),
     payloadLength := len\<rparr>"
  let ?ps = "packets[i := ?q]"
  have step: "construct_loop buf n pt ts src (len # lens) (word_of_nat i) seq off packets =
      construct_loop buf n pt ts src lens (word_of_nat (Suc i)) (seq + 1) (off + unat len) ?ps"
    using i by (simp add: ui mem_simps setRtpPacket_def frame_header_def add.commute)
  obtain ps where ps: "construct_loop buf n pt ts src lens (word_of_nat (Suc i)) (seq + 1) (off + unat len) ?ps = Some (STATUS_SUCCESS, ps)"
    "length ps = length packets" "\<forall>j. j < Suc i \<or> Suc i + length lens \<le> j \<longrightarrow> ps ! j = ?ps ! j"
    "\<forall>k < length lens. header (ps ! (Suc i + k)) = frame_header pt (seq + 1 + word_of_nat k) ts src (word_of_nat (Suc i + k) = n - 1) \<and>
       payload (ps ! (Suc i + k)) = Some (drop (off + unat len + (\<Sum>l\<leftarrow>take k lens. unat l)) buf) \<and>
       payloadLength (ps ! (Suc i + k)) = lens ! k"
    using Cons.IH [of "Suc i" ?ps "seq + 1" "off + unat len"] Cons.prems by auto
  have "header (ps ! (i + k)) = frame_header pt (seq + word_of_nat k) ts src (word_of_nat (i + k) = n - 1) \<and>
       payload (ps ! (i + k)) = Some (drop (off + (\<Sum>l\<leftarrow>take k (len # lens). unat l)) buf) \<and>
       payloadLength (ps ! (i + k)) = (len # lens) ! k" if "k < length (len # lens)" for k
  proof (cases k)
    case 0
    then show ?thesis using ps(3) i by simp
  next
    case (Suc m)
    then show ?thesis using ps(4) that by (auto simp: add.assoc)
  qed
  moreover have "\<forall>j. j < i \<or> i + length (len # lens) \<le> j \<longrightarrow> ps ! j = packets ! j" using ps(3) by auto
  ultimately show ?case using step ps(1,2) by auto
qed simp

lemma concat_slices:
  "(\<Sum>l\<leftarrow>lens. unat l) \<le> length (drop off buf) \<Longrightarrow>
   concat (map (\<lambda>k. take (unat (lens ! k)) (drop (off + (\<Sum>l\<leftarrow>take k lens. unat l)) buf)) [0..<length lens]) =
   take (\<Sum>l\<leftarrow>lens. unat l) (drop off buf)"
proof (induction lens arbitrary: off)
  case (Cons l lens)
  have "concat (map (\<lambda>k. take (unat (lens ! k)) (drop (off + unat l + (\<Sum>l\<leftarrow>take k lens. unat l)) buf)) [0..<length lens]) =
      take (\<Sum>l\<leftarrow>lens. unat l) (drop (off + unat l) buf)"
    using Cons.prems by (intro Cons.IH) simp
  moreover have "[0..<length (l # lens)] = 0 # map Suc [0..<length lens]" by (simp add: upt_conv_Cons map_Suc_upt del: upt_Suc)
  ultimately show ?case by (simp add: comp_def add.assoc take_add add.commute)
qed simp

section \<open>Properties\<close>


text \<open>
  C14. The packets built from the payloads of a frame carry consecutive sequence numbers (modulo
  \<open>2 ^ 16\<close>), the marker only on the last, and payloads that together are the payload buffer.
\<close>

theorem frame_packets:
  assumes "pa_payloadLength pa > 0" and "payloadSubLength pa = lens" and "payloadSubLenSize pa = word_of_nat (length lens)"
    and "length lens < 2 ^ 32" and "(\<Sum>l\<leftarrow>lens. unat l) = length (payloadBuffer pa)"
    and "length lens \<le> length packets" and "length packets < 2 ^ 32"
  shows "\<exists>ps. constructRtpPackets (Some pa) pt seq ts src (Some packets) (word_of_nat (length packets)) =
      Some (STATUS_SUCCESS, Some ps) \<and>
    (\<forall>k < length lens. header (ps ! k) = frame_header pt (seq + word_of_nat k) ts src (k = length lens - 1)) \<and>
    concat (map (\<lambda>k. payload_bytes (ps ! k)) [0..<length lens]) = payloadBuffer pa"
proof -
  let ?n = "word_of_nat (length lens) :: u32"
  have un: "unat ?n = length lens" using assms(4) by (simp add: unat_of_nat take_bit_nat_eq_self)
  have up: "unat (word_of_nat (length packets) :: u32) = length packets"
    using assms(7) by (simp add: unat_of_nat take_bit_nat_eq_self)
  obtain ps where ps: "construct_loop (payloadBuffer pa) ?n pt ts src lens (word_of_nat 0) seq 0 packets = Some (STATUS_SUCCESS, ps)"
    "\<forall>k < length lens. header (ps ! k) = frame_header pt (seq + word_of_nat k) ts src (word_of_nat k = ?n - 1) \<and>
       payload (ps ! k) = Some (drop (\<Sum>l\<leftarrow>take k lens. unat l) (payloadBuffer pa)) \<and> payloadLength (ps ! k) = lens ! k"
    using construct_loop_spec [of 0 lens packets "payloadBuffer pa" ?n pt ts src seq 0] assms(6,7) by auto
  have last: "(word_of_nat k = ?n - 1) = (k = length lens - 1)" if "k < length lens" for k
  proof -
    have "(1 :: u32) \<le> ?n" using that un by (simp add: word_le_nat_alt)
    from unat_sub [OF this] have "unat (?n - 1) = length lens - 1" using un by simp
    moreover have "unat (word_of_nat k :: u32) = k" using that assms(4) by (simp add: unat_of_nat take_bit_nat_eq_self)
    ultimately show ?thesis by (metis word_unat_eq_iff)
  qed
  have "concat (map (\<lambda>k. payload_bytes (ps ! k)) [0..<length lens]) =
      concat (map (\<lambda>k. take (unat (lens ! k)) (drop (0 + (\<Sum>l\<leftarrow>take k lens. unat l)) (payloadBuffer pa))) [0..<length lens])"
    using ps(2) by (intro arg_cong [where f = concat] map_cong) (auto simp: payload_bytes_def)
  also have "\<dots> = payloadBuffer pa" using assms(5) by (subst concat_slices) auto
  finally have "concat (map (\<lambda>k. payload_bytes (ps ! k)) [0..<length lens]) = payloadBuffer pa" .
  moreover have "constructRtpPackets (Some pa) pt seq ts src (Some packets) (word_of_nat (length packets)) = Some (STATUS_SUCCESS, Some ps)"
    using assms(1-3,6) ps(1) un up
    by (simp add: constructRtpPackets_def mem_simps word_less_nat_alt unat_eq_zero [symmetric])
  ultimately show ?thesis using ps(2) last by auto
qed

lemma rtx_packet_wf:
  assumes "rtp_wf p" and "pt < 128" and "unat (payloadLength p) + 2 < 2 ^ 31" and "length new = unat (payloadLength p) + 2"
  shows "rtp_wf (p\<lparr>payloadLength := payloadLength p + 2, payload := Some new,
    header := (header p)\<lparr>sequenceNumber := seq, ssrc := src, payloadType := pt, padding := False\<rparr>, pRawPacket := None\<rparr>)"
    and "unat (payloadLength p + 2) = unat (payloadLength p) + 2"
proof -
  show u: "unat (payloadLength p + 2) = unat (payloadLength p) + 2"
    using assms(3) unat_add_lem [of "payloadLength p" 2] by simp
  show "rtp_wf (p\<lparr>payloadLength := payloadLength p + 2, payload := Some new,
    header := (header p)\<lparr>sequenceNumber := seq, ssrc := src, payloadType := pt, padding := False\<rparr>, pRawPacket := None\<rparr>)"
    using assms u by (auto simp: rtp_wf_def Let_def)
qed

lemma layout_payload_drop:
  assumes "rtp_wf p"
  shows "drop (unat (RTP_GET_RAW_PACKET_SIZE p - payloadLength p)) (rtp_layout p) = payload_bytes p"
proof -
  have "length (rtp_layout p) = unat (RTP_GET_RAW_PACKET_SIZE p)" using raw_packet_size [OF assms] by simp
  moreover have "unat (payloadLength p) \<le> length (rtp_layout p)" using length_rtp_layout [OF assms] by simp
  ultimately have "payloadLength p \<le> RTP_GET_RAW_PACKET_SIZE p" by (simp add: word_le_nat_alt)
  from unat_sub [OF this] have "unat (RTP_GET_RAW_PACKET_SIZE p - payloadLength p) = length (rtp_layout p) - length (payload_bytes p)"
    using raw_packet_size [OF assms] rtp_wf_bounds(5) [OF assms] by simp
  moreover obtain hd where "rtp_layout p = hd @ payload_bytes p" by (simp add: rtp_layout_split)
  ultimately show ?thesis by simp
qed

lemma retransmit_packet:
  assumes wf: "rtp_wf p" and pt: "pt < 128" and short: "unat (payloadLength p) + 2 < 2 ^ 31"
    and mal: "\<And>n. \<exists>b. malloc n = Some b \<and> length b = n"
  shows "\<exists>r. constructRetransmitRtpPacketFromBytes g (Some junk) malloc (Some (rtp_layout p)) seq pt src =
      Some (STATUS_SUCCESS, Some r) \<and> sequenceNumber (header r) = seq \<and> ssrc (header r) = src \<and> payloadType (header r) = pt \<and>
    timestamp (header r) = timestamp (header p) \<and> marker (header r) = marker (header p) \<and>
    payload_bytes r = be16 (sequenceNumber (header p)) @ payload_bytes p \<and> rtp_wf r \<and> pRawPacket r = Some (rtp_layout r)"
proof -
  obtain p1 where p1: "setRtpPacketFromBytes g (Some (rtp_layout p)) (Some junk) = Some (STATUS_SUCCESS, Some p1)"
    "same_packet g p p1" "rtp_wf p1" using parse_layout [OF wf] by blast
  obtain pl where pl: "payload p1 = Some pl" "unat (payloadLength p1) \<le> length pl"
    using p1(3) by (auto simp: rtp_wf_def Let_def)
  have same: "payloadLength p1 = payloadLength p" "sequenceNumber (header p1) = sequenceNumber (header p)"
    "payload_bytes p1 = payload_bytes p" using p1(2) by (auto simp: same_packet_def)
  let ?new = "be16 (sequenceNumber (header p)) @ payload_bytes p"
  have ln: "length ?new = unat (payloadLength p1) + 2" using rtp_wf_bounds(5) [OF wf] same by simp
  let ?p2 = "p1\<lparr>payloadLength := payloadLength p1 + 2, payload := Some ?new,
    header := (header p1)\<lparr>sequenceNumber := seq, ssrc := src, payloadType := pt, padding := False\<rparr>, pRawPacket := None\<rparr>"
  have wf2: "rtp_wf ?p2" and u2: "unat (payloadLength p1 + 2) = unat (payloadLength p1) + 2"
    using rtx_packet_wf(1) [OF p1(3) pt _ ln, where seq = seq and src = src] rtx_packet_wf(2) [OF p1(3) pt _ ln] short same
    by auto
  obtain b1 where b1: "malloc (unat (payloadLength p1 + 2)) = Some b1" "length b1 = unat (payloadLength p1) + 2"
    using mal [of "unat (payloadLength p1 + 2)"] u2 by auto
  obtain b2 where b2: "malloc (unat (RTP_GET_RAW_PACKET_SIZE ?p2)) = Some b2" "length b2 = length (rtp_layout ?p2)"
    using mal [of "unat (RTP_GET_RAW_PACKET_SIZE ?p2)"] raw_packet_size(2) [OF wf2] by auto
  have new: "bsplice b1 0 ?new = ?new" using b1(2) ln by (simp add: bsplice_def)
  have d: "take (unat (payloadLength p1)) pl = payload_bytes p" using pl same by (simp add: payload_bytes_def)
  have lay: "bsplice b2 0 (rtp_layout ?p2) = rtp_layout ?p2" using b2(2) by (simp add: bsplice_def)
  have ser: "setBytesFromRtpPacket ?p2 (Some b2) (RTP_GET_RAW_PACKET_SIZE ?p2) = Some (STATUS_SUCCESS, Some (rtp_layout ?p2))"
    using set_bytes_layout [OF wf2, of b2 "RTP_GET_RAW_PACKET_SIZE ?p2"] b2(2) lay by simp
  let ?r = "?p2\<lparr>pRawPacket := Some (rtp_layout ?p2), rawPacketLength := RTP_GET_RAW_PACKET_SIZE ?p2,
    payload := Some (drop (unat (RTP_GET_RAW_PACKET_SIZE ?p2 - payloadLength ?p2)) (rtp_layout ?p2))\<rparr>"
  have "constructRetransmitRtpPacketFromBytes g (Some junk) malloc (Some (rtp_layout p)) seq pt src = Some (STATUS_SUCCESS, Some ?r)"
    using p1(1) b1 pl d new ln same(2) b2(1) ser
    by (simp add: constructRetransmitRtpPacketFromBytes_def mem_simps putUnalignedInt16Be_def createBytesFromRtpPacket_def Let_def)
  moreover have pb2: "payload_bytes ?p2 = ?new" using ln u2 by (simp add: payload_bytes_def)
  have plr: "payload ?r = Some ?new" using layout_payload_drop [OF wf2] pb2 by simp
  then have "payload_bytes ?r = ?new" "rtp_layout ?r = rtp_layout ?p2" "rtp_wf ?r"
    using pb2 wf2 ln u2 by (simp_all add: payload_bytes_def rtp_layout_def Let_def rtp_wf_def)
  ultimately show ?thesis using p1(2) by (intro exI [of _ ?r]) (simp add: same_packet_def)
qed

text \<open>
  Retransmission (RFC 4588): from the bytes of a packet the code builds a packet with the
  new sequence number, payload type and source, whose payload is the original sequence number
  in two bytes followed by the original payload, and whose raw bytes parse back to it.
\<close>

lemma retransmission_packet:
  assumes "rtp_wf p" and "pt < 128" and "unat (payloadLength p) + 2 < 2 ^ 31"
    and "\<And>n. \<exists>b. malloc n = Some b \<and> length b = n"
  shows "\<exists>r raw r'. constructRetransmitRtpPacketFromBytes g (Some junk) malloc (Some (rtp_layout p)) seq pt src =
      Some (STATUS_SUCCESS, Some r) \<and> sequenceNumber (header r) = seq \<and> ssrc (header r) = src \<and> payloadType (header r) = pt \<and>
    timestamp (header r) = timestamp (header p) \<and> marker (header r) = marker (header p) \<and>
    payload_bytes r = be16 (sequenceNumber (header p)) @ payload_bytes p \<and>
    pRawPacket r = Some raw \<and> setRtpPacketFromBytes g (Some raw) (Some junk) = Some (STATUS_SUCCESS, Some r') \<and> same_packet g r r'"
proof -
  obtain r where r: "constructRetransmitRtpPacketFromBytes g (Some junk) malloc (Some (rtp_layout p)) seq pt src =
      Some (STATUS_SUCCESS, Some r)" "sequenceNumber (header r) = seq" "ssrc (header r) = src" "payloadType (header r) = pt"
    "timestamp (header r) = timestamp (header p)" "marker (header r) = marker (header p)"
    "payload_bytes r = be16 (sequenceNumber (header p)) @ payload_bytes p" "rtp_wf r" "pRawPacket r = Some (rtp_layout r)"
    using retransmit_packet [OF assms(1-3), of malloc g junk seq src] assms(4) by blast
  then show ?thesis using parse_layout [OF r(8), of g junk] by blast
qed

lemma read_csrcs_in_range: "off + 4 * n \<le> length raw \<Longrightarrow> \<exists>xs. read_csrcs g raw off n = Some xs"
proof (induction n arbitrary: off)
  case (Suc n)
  then obtain x where "getUnalignedInt32Be raw off = Some x" using get_Be_in_range(2) [of off raw] by auto
  from native_be(2) [OF this, of g] Suc.IH [of "off + 4"] Suc.prems show ?case by auto
qed simp

lemma remaining_length:
  assumes "off \<le> n" and "n < 2 ^ 32"
  shows "unat (word_of_nat n - word_of_nat off :: u32) = n - off"
proof -
  have "unat (word_of_nat k :: u32) = k" if "k \<le> n" for k
    using that assms(2) by (simp add: unat_of_nat take_bit_nat_eq_self)
  then have u: "unat (word_of_nat n :: u32) = n" "unat (word_of_nat off :: u32) = off" using assms(1) by simp_all
  then have "(word_of_nat off :: u32) \<le> word_of_nat n" using assms(1) by (simp add: word_le_nat_alt)
  from unat_sub [OF this] show ?thesis using u by simp
qed

text \<open>
  Parsing a packet whose extension bit is clear is memory safe on any bytes: a packet shorter
  than its header and CSRC list is refused, any other is accepted and its payload is exactly
  what follows.
\<close>

lemma rtp_parse_without_extension:
  assumes "length raw < 2 ^ 32" and "raw \<noteq> [] \<longrightarrow> drop_bit 4 (raw ! 0) AND 0x1 = 0"
  shows "\<exists>status r. setRtpPacketFromBytes g (Some raw) (Some q) = Some (status, Some r) \<and>
    (if length raw < 12 \<or> length raw < 12 + unat (raw ! 0 AND 0xF) * 4
     then status = STATUS_RTP_INPUT_PACKET_TOO_SMALL \<and> r = q
     else status = STATUS_SUCCESS \<and> payload_bytes r = drop (12 + unat (raw ! 0 AND 0xF) * 4) raw)"
proof (cases "length raw < 12")
  case False
  let ?cc = "raw ! 0 AND 0xF"
  let ?off = "12 + unat ?cc * 4"
  obtain x y z where be: "getUnalignedInt16Be raw 2 = Some x" "getUnalignedInt32Be raw 4 = Some y"
    "getUnalignedInt32Be raw 8 = Some z"
    using False get_Be_in_range(1) [of 2 raw] get_Be_in_range(2) [of 4 raw] get_Be_in_range(2) [of 8 raw] by auto
  note rd = native_be(1) [OF be(1), of g] native_be(2) [OF be(2), of g] native_be(2) [OF be(3), of g]
  have m: "memget raw 0 = Some (raw ! 0)" "memget raw 1 = Some (raw ! 1)" using False by (auto simp: memget_def)
  have ext: "drop_bit 4 (raw ! 0) AND 0x1 = 0" using assms(2) False by auto
  show ?thesis
  proof (cases "length raw < ?off")
    case True
    then show ?thesis using False rd m by (simp add: setRtpPacketFromBytes_def)
  next
    case fits: False
    then obtain xs where xs: "read_csrcs g raw 12 (unat ?cc) = Some xs" using read_csrcs_in_range [of 12 "unat ?cc" raw g] by auto
    let ?len = "word_of_nat (length raw) - word_of_nat ?off :: u32"
    have "unat ?len = length raw - ?off" by (rule remaining_length) (use assms(1) fits in auto)
    then have "payload_bytes (p\<lparr>header := h, payload := Some (drop ?off raw), payloadLength := ?len\<rparr>) = drop ?off raw" for p h
      by (simp add: payload_bytes_def)
    then show ?thesis using False fits rd m ext xs
      by (cases "?cc > 0") (simp_all add: setRtpPacketFromBytes_def setRtpPacket_def Let_def)
  qed
qed (simp add: setRtpPacketFromBytes_def)

text \<open>
  The length of the extension header is not checked: a packet of 12 bytes with the extension
  bit set makes the parser read behind the packet, on any host.
\<close>

lemma rtp_extension_overread:
  "setRtpPacketFromBytes g (Some (0x90 # replicate 11 0)) (Some q) = None"
proof -
  let ?raw = "0x90 # replicate 11 0 :: bytes"
  have len: "length ?raw = 12" by simp
  obtain x y z where be: "getUnalignedInt16Be ?raw 2 = Some x" "getUnalignedInt32Be ?raw 4 = Some y"
    "getUnalignedInt32Be ?raw 8 = Some z"
    using get_Be_in_range(1) [of 2 ?raw] get_Be_in_range(2) [of 4 ?raw] get_Be_in_range(2) [of 8 ?raw] by auto
  note rd = native_be(1) [OF be(1), of g] native_be(2) [OF be(2), of g] native_be(2) [OF be(3), of g]
  have m: "memget ?raw 0 = Some 0x90" "memget ?raw 1 = Some 0" by (simp_all add: memget_def)
  have ov: "native16 g ?raw 12 = None"
    by (simp add: native16_def getUnalignedInt16Be_def getUnalignedInt16Le_def memget_def)
  show ?thesis using rd m ov len by (simp add: setRtpPacketFromBytes_def)
qed

text \<open>A packet for the applications below.\<close>

definition packet0 :: RtpPacket where
  "packet0 = \<lparr>header = \<lparr>version = 2, padding = False, extension = True, marker = True, csrcCount = 0, payloadType = 96,
     sequenceNumber = 7, timestamp = 90000, ssrc = 0xDEADBEEF, csrcArray = None, extensionProfile = 0xBEDE,
     extensionPayload = Some [0x10, 0, 1, 0], extensionLength = 4\<rparr>, payload = Some [1, 2, 3], payloadLength = 3,
     pRawPacket = None, rawPacketLength = 0, receivedTime = 0, sentTime = 0, isSynthetic = False\<rparr>"

lemma packet0_wf: "rtp_wf packet0"
  by (simp add: rtp_wf_def packet0_def Let_def)


definition payloads0 :: PayloadArray where
  "payloads0 = \<lparr>payloadBuffer = [1, 2, 3, 4, 5], pa_payloadLength = 5, maxPayloadLength = 5, payloadSubLength = [2, 3],
     payloadSubLenSize = 2, maxPayloadSubLenSize = 2\<rparr>"

theorem frame_packets_witness:
  "\<exists>ps. constructRtpPackets (Some payloads0) 96 0xFFFF 0 1 (Some [packet0, packet0]) (word_of_nat (length [packet0, packet0])) =
      Some (STATUS_SUCCESS, Some ps) \<and>
    (\<forall>k < length [2 :: u32, 3]. header (ps ! k) = frame_header 96 (0xFFFF + word_of_nat k) 0 1 (k = length [2 :: u32, 3] - 1)) \<and>
    concat (map (\<lambda>k. payload_bytes (ps ! k)) [0..<length [2 :: u32, 3]]) = payloadBuffer payloads0"
  by (rule frame_packets) (simp_all add: payloads0_def)

lemma retransmission_packet_witness:
  "\<exists>r raw r'. constructRetransmitRtpPacketFromBytes False (Some packet0) (\<lambda>n. Some (replicate n 0)) (Some (rtp_layout packet0)) 1 97 5 =
      Some (STATUS_SUCCESS, Some r) \<and> sequenceNumber (header r) = 1 \<and> ssrc (header r) = 5 \<and> payloadType (header r) = 97 \<and>
    timestamp (header r) = timestamp (header packet0) \<and> marker (header r) = marker (header packet0) \<and>
    payload_bytes r = be16 (sequenceNumber (header packet0)) @ payload_bytes packet0 \<and>
    pRawPacket r = Some raw \<and> setRtpPacketFromBytes False (Some raw) (Some packet0) = Some (STATUS_SUCCESS, Some r') \<and>
    same_packet False r r'"
  by (rule retransmission_packet [OF packet0_wf]) (simp_all add: packet0_def)

lemma rtp_parse_without_extension_witness:
  "\<exists>r. setRtpPacketFromBytes True (Some (0x80 # replicate 13 0)) (Some packet0) = Some (STATUS_SUCCESS, Some r) \<and>
    payload_bytes r = replicate 2 0"
  using rtp_parse_without_extension [of "0x80 # replicate 13 0" True packet0] by auto

end
