(* ===== verification/RtpRollingBuffer.thy ===== *)
theory RtpRollingBuffer
  imports RollingBuffer RtpPacket
begin

text \<open>
  \<^verbatim>\<open>src/source/Rtcp/RtpRollingBuffer.c\<close>: the sent packets kept for retransmission.

  The buffer stores addresses of packets. The heap maps the address of every live packet to
  its structure; freeing an address that is not live is a fault. The result of \<open>MEMALLOC\<close> is
  an argument of the operations that allocate: the fresh address with the bits that are
  found there, or nothing. The operations satisfy the laws of \<open>slot_owner\<close>, so the buffer of
  packets inherits the contract of \<open>index_window\<close>.
\<close>

section \<open>Data\<close>

type_synonym heap = "u64 \<rightharpoonup> RtpPacket"

record RtpRollingBuffer =
  pRollingBuffer :: "heap RollingBuffer option"
  lastIndex :: u64

definition GET_UINT16_SEQ_NUM :: "u64 \<Rightarrow> u16" where
  "GET_UINT16_SEQ_NUM i = ucast (i mod 65536)"

section \<open>Operations\<close>

text \<open>\<open>pp\<close> is the content of the pointer variable, or \<open>None\<close> when its address is null.\<close>

definition freeRtpPacket :: "heap \<Rightarrow> u64 option \<Rightarrow> (STATUS \<times> heap \<times> u64 option) option" where
  "freeRtpPacket h pp =
     (case pp of
        None \<Rightarrow> Some (STATUS_NULL_ARG, h, None)
      | Some a \<Rightarrow> if a = 0 then Some (STATUS_SUCCESS, h, Some 0)
                  else if h a = None then None
                  else Some (STATUS_SUCCESS, h(a := None), Some 0))"

definition freeRtpRollingBufferData :: "heap FreeDataFunc" where
  "freeRtpRollingBufferData h x =
     do { (status, h, pp) \<leftarrow> freeRtpPacket h (Some x); y \<leftarrow> pp; Some (status, h, y) }"

text \<open>\<open>mem\<close> is the fresh structure (the value of its uninitialised \<open>lastIndex\<close>), \<open>ringMem\<close> whether the ring fits.\<close>

definition createRtpRollingBuffer :: "u64 option \<Rightarrow> bool \<Rightarrow> u32 \<Rightarrow> bool \<Rightarrow> STATUS \<times> RtpRollingBuffer option" where
  "createRtpRollingBuffer mem ringMem cap out =
     (if cap = 0 then (STATUS_INVALID_ARG, None)
      else if \<not> out then (STATUS_NULL_ARG, None)
      else case mem of
        None \<Rightarrow> (STATUS_NOT_ENOUGH_MEMORY, None)
      | Some junk \<Rightarrow>
          let (status, ring) = createRollingBuffer ringMem cap (Some freeRtpRollingBufferData) True
          in (status, Some \<lparr>pRollingBuffer = ring, lastIndex = junk\<rparr>))"

definition freeRtpRollingBuffer :: "RtpRollingBuffer option option \<Rightarrow> heap \<Rightarrow> (STATUS \<times> heap) option" where
  "freeRtpRollingBuffer pp h =
     (case pp of
        None \<Rightarrow> Some (STATUS_NULL_ARG, h)
      | Some None \<Rightarrow> Some (STATUS_SUCCESS, h)
      | Some (Some rrb) \<Rightarrow> do { (_, h') \<leftarrow> freeRollingBuffer (Some (pRollingBuffer rrb)) h; Some (STATUS_SUCCESS, h') })"

definition rtpRollingBufferAddRtpPacket ::
  "bool \<Rightarrow> bool \<Rightarrow> (u64 \<times> RtpPacket) option \<Rightarrow> RtpRollingBuffer option \<Rightarrow> RtpPacket option \<Rightarrow> heap \<Rightarrow>
   (STATUS \<times> RtpRollingBuffer option \<times> heap) option" where
  "rtpRollingBufferAddRtpPacket isBig rawMem mem pRrb pPacket h =
     (case (pRrb, pPacket) of
        (Some rrb, Some p) \<Rightarrow>
          if \<not> rawMem then Some (STATUS_NOT_ENOUGH_MEMORY, Some rrb, h)
          else do {
            raw \<leftarrow> pRawPacket p;
            copy \<leftarrow> memread raw 0 (unat (rawPacketLength p));
            (status, q) \<leftarrow> createRtpPacketFromBytes isBig (map_option snd mem) (Some copy);
            if status \<noteq> STATUS_SUCCESS then Some (status, Some rrb, h)
            else do {
              pkt \<leftarrow> q;
              (addr, _) \<leftarrow> mem;
              (status, ring, h, index) \<leftarrow> rollingBufferAppendData (pRollingBuffer rrb) addr True (h(addr \<mapsto> pkt));
              let rrb = rrb\<lparr>pRollingBuffer := ring\<rparr>;
              Some (status,
                    Some (case index of Some i \<Rightarrow> if status = STATUS_SUCCESS then rrb\<lparr>lastIndex := i\<rparr> else rrb | None \<Rightarrow> rrb),
                    h) } }
      | _ \<Rightarrow> Some (STATUS_NULL_ARG, pRrb, h))"

text \<open>The index computed for one sequence number, or \<open>None\<close> when the packet is not found.\<close>

definition seq_index :: "u64 \<Rightarrow> u32 \<Rightarrow> u16 \<Rightarrow> u16 \<Rightarrow> bool \<Rightarrow> u16 \<Rightarrow> u64 option" where
  "seq_index li n startSeq endSeq crossMaxSeq seqNum =
     (if (\<not> crossMaxSeq \<and> seqNum \<ge> startSeq \<and> seqNum \<le> endSeq) \<or> (crossMaxSeq \<and> seqNum \<ge> startSeq)
      then Some (li - ucast n + 1 + ucast seqNum - ucast startSeq)
      else if crossMaxSeq \<and> seqNum \<le> endSeq then Some (li - ucast endSeq + ucast seqNum)
      else None)"

text \<open>
  The loop over the sequence numbers from position \<open>j\<close> on. \<open>k\<close> packets were found so far; the loop stops when
  \<open>*pValidIndexListLen\<close> of them are, and otherwise clears the entry behind the last one.
\<close>

fun valid_loop :: "(u16 \<Rightarrow> u64 option) \<Rightarrow> u32 option \<Rightarrow> u16 list \<Rightarrow> nat \<Rightarrow> nat \<Rightarrow> u32 \<Rightarrow> u64 list \<Rightarrow> (u64 list \<times> u32) option" where
  "valid_loop f maxLen seqs j 0 k out = Some (out, k)"
| "valid_loop f maxLen seqs j (Suc n) k out =
     do { s \<leftarrow> memget seqs j;
          case f s of
            None \<Rightarrow> valid_loop f maxLen seqs (j + 1) n k out
          | Some i \<Rightarrow> do {
              out \<leftarrow> memwrite out (unat k) [i];
              m \<leftarrow> maxLen;
              if \<not> (k + 1 < m) then Some (out, k + 1)
              else do { out \<leftarrow> memwrite out (unat (k + 1)) [0]; valid_loop f maxLen seqs (j + 1) n (k + 1) out } } }"

definition rtpRollingBufferGetValidSeqIndexList ::
  "RtpRollingBuffer option \<Rightarrow> u16 list option \<Rightarrow> u32 \<Rightarrow> u64 list option \<Rightarrow> u32 option \<Rightarrow>
   (STATUS \<times> u64 list option \<times> u32 option) option" where
  "rtpRollingBufferGetValidSeqIndexList pRrb pSeqs seqLen pOut pMax =
     (case (pRrb, pOut, pSeqs) of
        (Some rrb, Some out, Some seqs) \<Rightarrow>
          (case rollingBufferGetSize (pRollingBuffer rrb) True of
             (STATUS_SUCCESS, Some n) \<Rightarrow>
               if n = 0 then Some (STATUS_SUCCESS, pOut, map_option (\<lambda>_. 0) pMax)
               else
                 let startSeq = GET_UINT16_SEQ_NUM (lastIndex rrb - ucast n + 1);
                     endSeq = GET_UINT16_SEQ_NUM (lastIndex rrb);
                     crossMaxSeq = (startSeq \<ge> endSeq)
                 in do { (out, k) \<leftarrow> valid_loop (seq_index (lastIndex rrb) n startSeq endSeq crossMaxSeq) pMax seqs 0
                                       (unat seqLen) 0 out;
                         Some (STATUS_SUCCESS, Some out, map_option (\<lambda>_. k) pMax) }
           | (status, _) \<Rightarrow> Some (status, pOut, map_option (\<lambda>_. 0) pMax))
      | _ \<Rightarrow> Some (STATUS_NULL_ARG, pOut, map_option (\<lambda>_. 0) pMax))"

section \<open>The callback keeps the contract of the ring\<close>

interpretation packets: slot_owner freeRtpRollingBufferData dom
  by unfold_locales (auto simp: freeRtpRollingBufferData_def freeRtpPacket_def)

section \<open>Looking up sequence numbers\<close>

text \<open>
  The specification: the only index from \<open>lo\<close> on, and less than $2^{16}$ above it, whose packet
  has sequence number \<open>s\<close>.
\<close>

definition index_of_seq :: "nat \<Rightarrow> u16 \<Rightarrow> nat" where
  "index_of_seq lo s = lo + unat (s - word_of_nat lo)"

lemma unat_of_nat_16: "unat (word_of_nat k :: u16) = k mod 65536"
  by (simp add: unat_of_nat take_bit_eq_mod)

lemma index_of_seq_unique:
  assumes "lo \<le> i" "i < lo + 65536"
  shows "(word_of_nat i = s) = (i = index_of_seq lo s)"
proof
  assume "word_of_nat i = s"
  then have "s - word_of_nat lo = word_of_nat (i - lo)" using assms(1) by (simp add: of_nat_diff)
  moreover have "unat (word_of_nat (i - lo) :: u16) = i - lo"
    using assms unat_of_nat_16[of "i - lo"] by simp
  ultimately show "i = index_of_seq lo s" using assms(1) by (simp add: index_of_seq_def)
qed (simp add: index_of_seq_def)

lemma unat_ucast_16_64: "unat (ucast (s :: u16) :: u64) = unat s"
  by (simp add: unsigned_ucast_eq take_bit_nat_eq_self order_less_trans[OF unsigned_less])

lemma seq_num_of: "GET_UINT16_SEQ_NUM (word_of_nat i) = word_of_nat i"
  by (simp add: GET_UINT16_SEQ_NUM_def word_unat_eq_iff unsigned_ucast_eq unat_mod unat_of_nat take_bit_eq_mod mod_mod_cancel)

text \<open>The wrap-around of the 16-bit difference, on naturals.\<close>

lemma unat_diff_16: "unat (s - t :: u16) = (if t \<le> s then unat s - unat t else unat s + 65536 - unat t)"
proof (cases "t \<le> s")
  case False
  have "unat t < 2 ^ LENGTH(16)" by (rule unsigned_less)
  with False show ?thesis by (simp add: unat_sub_if_size word_size word_le_nat_alt)
qed (simp add: unat_sub word_le_nat_alt)

lemma window_ends:
  fixes startSeq endSeq :: u16
  assumes n: "2 \<le> n" "n \<le> 65536" and s: "startSeq = word_of_nat lo" and e: "endSeq = word_of_nat (lo + n - 1)"
  shows "unat endSeq = (if startSeq \<ge> endSeq then unat startSeq + n - 1 - 65536 else unat startSeq + n - 1)"
    and "startSeq \<ge> endSeq \<Longrightarrow> 65536 \<le> unat startSeq + n - 1"
proof -
  have us: "unat startSeq = lo mod 65536" and ue: "unat endSeq = (lo + (n - 1)) mod 65536"
    using n unat_of_nat_16[of lo] unat_of_nat_16[of "lo + n - 1"] by (simp_all only: s e) simp
  have "unat endSeq = (unat startSeq + (n - 1)) mod 65536" by (simp add: us ue mod_add_left_eq)
  moreover have "unat startSeq < 65536" by (simp add: us)
  moreover define a where "a = unat startSeq + (n - 1)"
  ultimately have ends: "unat endSeq = (if a < 65536 then a else a - 65536)" "a < 2 * 65536"
    using n by (auto simp: mod_if)
  then show "unat endSeq = (if startSeq \<ge> endSeq then unat startSeq + n - 1 - 65536 else unat startSeq + n - 1)"
    and "startSeq \<ge> endSeq \<Longrightarrow> 65536 \<le> unat startSeq + n - 1"
    using n by (auto simp: word_le_nat_alt a_def split: if_splits)
qed

lemma seq_index_correct:
  assumes n: "2 \<le> n" "n \<le> 65536" and li: "li = word_of_nat (lo + n - 1)"
    and nw: "nw = word_of_nat n" and st: "startSeq = GET_UINT16_SEQ_NUM (li - ucast nw + 1)"
    and en: "endSeq = GET_UINT16_SEQ_NUM li"
  shows "seq_index li nw startSeq endSeq (startSeq \<ge> endSeq) s =
     (if index_of_seq lo s < lo + n then Some (word_of_nat (index_of_seq lo s)) else None)"
proof -
  have n1: "word_of_nat (lo + n - 1) = word_of_nat lo + word_of_nat n - (1 :: u64)" using n by (simp add: of_nat_diff)
  have nw64: "ucast nw = (word_of_nat n :: u64)"
    using n by (simp add: nw word_unat_eq_iff unsigned_ucast_eq unat_of_nat take_bit_nat_eq_self)
  have first: "li - ucast nw + 1 = word_of_nat lo" using n1 by (simp add: li nw64)
  have s_eq: "startSeq = word_of_nat lo" unfolding st first by (rule seq_num_of)
  have e_eq: "endSeq = word_of_nat (lo + n - 1)" unfolding en li by (rule seq_num_of)
  note ends = window_ends[OF n s_eq e_eq]
  have su: "ucast x = (word_of_nat (unat x) :: u64)" for x :: u16
    by (simp add: word_unat_eq_iff unsigned_ucast_eq)
  have u16_lt: "unat x < 65536" for x :: u16
    using unat_of_nat_16[of "unat x"] by simp
  note s_lt = u16_lt[of s] and st_lt = u16_lt[of startSeq] and en_lt = u16_lt[of endSeq]
  have val1: "startSeq \<le> s \<Longrightarrow> li - ucast nw + 1 + ucast s - ucast startSeq = word_of_nat (index_of_seq lo s)"
    by (simp only: first s_eq[symmetric] index_of_seq_def unat_diff_16 su)
      (simp add: word_le_nat_alt of_nat_diff)
  have val2: "li - ucast endSeq + ucast s = word_of_nat (index_of_seq lo s)" if "\<not> startSeq \<le> s" "startSeq \<ge> endSeq"
  proof -
    have "lo + n - 1 + unat s = (lo + (unat s + 65536 - unat startSeq)) + unat endSeq"
      using ends that st_lt by (simp add: word_le_nat_alt)
    then have "word_of_nat (lo + n - 1) + word_of_nat (unat s) =
        (word_of_nat (lo + (unat s + 65536 - unat startSeq)) + word_of_nat (unat endSeq) :: u64)"
      by (metis of_nat_add)
    then show ?thesis
      using that by (simp only: index_of_seq_def s_eq[symmetric] unat_diff_16 if_False li su)
        (simp add: algebra_simps)
  qed
  have "index_of_seq lo s < lo + n \<longleftrightarrow>
      (\<not> startSeq \<ge> endSeq \<and> s \<ge> startSeq \<and> s \<le> endSeq) \<or> (startSeq \<ge> endSeq \<and> (s \<ge> startSeq \<or> s \<le> endSeq))"
    using ends s_lt st_lt en_lt n
    by (simp only: index_of_seq_def s_eq[symmetric] unat_diff_16 word_le_nat_alt) (auto split: if_splits)
  then show ?thesis using val1 val2 by (auto simp: seq_index_def)
qed

lemma bsplice_single: "k < length xs \<Longrightarrow> bsplice xs k [y] = xs[k := y]"
  by (simp add: bsplice_def upd_conv_take_nth_drop)

text \<open>The loop collects the found indexes behind the ones already in the list.\<close>

lemma valid_loop_collects:
  assumes "unat k < unat m" "unat m \<le> length out" "j + n \<le> length seqs"
  shows "\<exists>out' k'. valid_loop f (Some m) seqs j n k out = Some (out', k') \<and> length out' = length out \<and>
     unat k' \<le> unat m \<and>
     take (unat k') out' = take (unat m) (take (unat k) out @ List.map_filter f (take n (drop j seqs)))"
  using assms
proof (induction n arbitrary: j k out)
  case 0
  then show ?case by (simp add: min_def)
next
  case (Suc n)
  have j: "memget seqs j = Some (seqs ! j)" "take (Suc n) (drop j seqs) = seqs ! j # take n (drop (j + 1) seqs)"
    using Suc.prems(3) by (simp_all add: memget_def Cons_nth_drop_Suc[symmetric])
  show ?case
  proof (cases "f (seqs ! j)")
    case None
    then show ?thesis using Suc.IH[of k out "j + 1"] Suc.prems j by (simp add: List.map_filter_simps)
  next
    case (Some i)
    define out1 where "out1 = out[unat k := i]"
    have "unat m < 2 ^ LENGTH(32)" by (rule unsigned_less)
    then have k1: "unat (k + 1) = unat k + 1"
      using Suc.prems(1) unat_add_lem[of k "1 :: u32"] by simp
    have w: "memwrite out (unat k) [i] = Some out1" "take (unat k + 1) out1 = take (unat k) out @ [i]"
      using Suc.prems by (simp_all add: memwrite_def bsplice_single out1_def take_Suc_conv_app_nth)
    show ?thesis
    proof (cases "k + 1 < m")
      case True
      define out2 where "out2 = out1[unat k + 1 := 0]"
      have less: "unat k + 1 < unat m" using True k1 by (simp add: word_less_nat_alt)
      have w2: "memwrite out1 (unat (k + 1)) [0] = Some out2" "take (unat k + 1) out2 = take (unat k + 1) out1"
        using less Suc.prems(2) by (simp_all add: k1 memwrite_def bsplice_single out2_def out1_def)
      have "length out2 = length out" by (simp add: out2_def out1_def)
      then show ?thesis
        using Suc.IH[of "k + 1" out2 "j + 1"] Suc.prems less w w2 True Some j k1
        by (simp add: List.map_filter_simps take_Cons')
    next
      case False
      then have "unat m = unat k + 1" using Suc.prems(1) k1 by (simp add: word_less_nat_alt)
      then show ?thesis using False w Some j k1 Suc.prems
        by (simp add: List.map_filter_simps) (simp add: out1_def)
    qed
  qed
qed

definition in_window_index :: "nat \<Rightarrow> nat \<Rightarrow> u16 \<Rightarrow> u64 option" where
  "in_window_index lo n s = (if index_of_seq lo s < lo + n then Some (word_of_nat (index_of_seq lo s)) else None)"

lemma ring_size:
  assumes "rb_wf rb" "length (window_items rb) \<le> 65536"
  shows "rollingBufferGetSize (Some rb) True = (STATUS_SUCCESS, Some (word_of_nat (length (window_items rb))))"
proof -
  have le: "tailIndex rb \<le> headIndex rb" using assms(1) by (simp add: rb_wf_def)
  have "unat (word_of_nat (length (window_items rb)) :: u64) = length (window_items rb)"
    using assms(2) by (intro index_word) simp
  moreover have "unat (headIndex rb - tailIndex rb) = length (window_items rb)"
    using le by (simp add: unat_sub window_items_def)
  ultimately have "headIndex rb - tailIndex rb = word_of_nat (length (window_items rb))"
    by (simp only: word_unat_eq_iff)
  then show ?thesis
    using assms(2) by (simp add: rollingBufferGetSize_def word_unat_eq_iff unsigned_ucast_eq unat_of_nat take_bit_nat_eq_self)
qed

lemma valid_seq_index_list':
  assumes "rb_wf rb" "pRollingBuffer rrb = Some rb" "lastIndex rrb = headIndex rb - 1"
    and n: "2 \<le> length (window_items rb)" "length (window_items rb) \<le> 65536"
    and m: "0 < m" "unat m \<le> length out" and len: "unat seqLen \<le> length seqs"
  shows "\<exists>out' k. rtpRollingBufferGetValidSeqIndexList (Some rrb) (Some seqs) seqLen (Some out) (Some m) =
       Some (STATUS_SUCCESS, Some out', Some k) \<and> length out' = length out \<and> unat k \<le> unat m \<and>
     take (unat k) out' = take (unat m)
       (List.map_filter (in_window_index (window_lo rb) (length (window_items rb))) (take (unat seqLen) seqs))"
proof -
  let ?n = "length (window_items rb)" and ?lo = "window_lo rb"
  have hi: "unat (headIndex rb) = ?lo + ?n" using window_hi[OF assms(1)] by simp
  have "headIndex rb = word_of_nat (?lo + ?n)" by (simp flip: hi)
  then have li: "lastIndex rrb = word_of_nat (?lo + ?n - 1)" using n by (simp add: assms(3) of_nat_diff)
  have f: "seq_index (lastIndex rrb) (word_of_nat ?n) (GET_UINT16_SEQ_NUM (lastIndex rrb - ucast (word_of_nat ?n :: u32) + 1))
      (GET_UINT16_SEQ_NUM (lastIndex rrb))
      (GET_UINT16_SEQ_NUM (lastIndex rrb) \<le> GET_UINT16_SEQ_NUM (lastIndex rrb - ucast (word_of_nat ?n :: u32) + 1)) =
      in_window_index ?lo ?n"
    using seq_index_correct[OF n li refl refl refl] by (auto simp: in_window_index_def)
  have "unat (word_of_nat ?n :: u32) = ?n" using n by (simp add: unat_of_nat take_bit_nat_eq_self)
  then have nz: "(word_of_nat ?n :: u32) \<noteq> 0" using n by (auto simp: word_unat_eq_iff)
  have m0: "unat (0 :: u32) < unat m" using m(1) by (simp add: word_less_nat_alt)
  obtain out' k where "valid_loop (in_window_index ?lo ?n) (Some m) seqs 0 (unat seqLen) 0 out = Some (out', k)"
      "length out' = length out" "unat k \<le> unat m"
      "take (unat k) out' = take (unat m) (List.map_filter (in_window_index ?lo ?n) (take (unat seqLen) seqs))"
    using valid_loop_collects[OF m0 m(2), of 0 "unat seqLen" seqs "in_window_index ?lo ?n"] len by auto
  then show ?thesis
    using ring_size[OF assms(1) n(2)] f nz
    by (simp add: rtpRollingBufferGetValidSeqIndexList_def assms(2) Let_def)
qed

text \<open>
  Finding the packets of a NACK. The buffer holds between 2 and 65536 packets, the last
  one at \<open>lastIndex\<close>. For every list of sequence numbers, and a result list with room for
  \<open>m > 0\<close> entries, \<open>rtpRollingBufferGetValidSeqIndexList\<close> succeeds without leaving either list
  and stores, in the order of the sequence numbers and at most \<open>m\<close> of them, exactly the indexes
  of those numbers whose packet is in the window: \<open>index_of_seq\<close> is the one index of the
  window that has the given low 16 bits.
\<close>

lemma valid_seq_index_list:
  assumes "rb_wf rb" "pRollingBuffer rrb = Some rb" "lastIndex rrb = headIndex rb - 1"
    and n: "2 \<le> length (window_items rb)" "length (window_items rb) \<le> 65536"
    and m: "0 < m" "unat m \<le> length out" and len: "unat seqLen \<le> length seqs"
  shows "\<exists>out' k. rtpRollingBufferGetValidSeqIndexList (Some rrb) (Some seqs) seqLen (Some out) (Some m) =
       Some (STATUS_SUCCESS, Some out', Some k) \<and> length out' = length out \<and>
     take (unat k) out' = take (unat m)
       (List.map_filter (in_window_index (window_lo rb) (length (window_items rb))) (take (unat seqLen) seqs))"
  using valid_seq_index_list'[OF assms] by blast

text \<open>A buffer of capacity 4 that has seen the packets 65534, 65535, 0 and 1 last.\<close>

definition wrap_ring :: "heap RollingBuffer" where
  "wrap_ring = \<lparr>capacity = 4, headIndex = 65538, tailIndex = 65534, dataBuffer = [16, 24, 32, 40],
     freeDataFn = Some freeRtpRollingBufferData\<rparr>"

lemma wrap_ring_wf: "rb_wf wrap_ring" "length (window_items wrap_ring) = 4" "window_lo wrap_ring = 65534"
  by (simp_all add: wrap_ring_def rb_wf_def window_items_def window_lo_def)

lemma valid_seq_index_list_witness:
  "\<exists>out' k. rtpRollingBufferGetValidSeqIndexList (Some \<lparr>pRollingBuffer = Some wrap_ring, lastIndex = 65537\<rparr>)
       (Some [0, 7, 65535]) 3 (Some (replicate 10 0)) (Some 10) = Some (STATUS_SUCCESS, Some out', Some k) \<and>
     length out' = length (replicate 10 (0 :: u64)) \<and>
     take (unat k) out' = take (unat (10 :: u32))
       (List.map_filter (in_window_index (window_lo wrap_ring) (length (window_items wrap_ring)))
         (take (unat (3 :: u32)) [0, 7, 65535]))"
  by (rule valid_seq_index_list) (simp_all add: wrap_ring_wf, simp add: wrap_ring_def)

text \<open>
  A buffer of one packet. When only the packet with index 5 is in the buffer, the function
  answers a request for packet 9 with index 9, which is outside the window: with
  \<open>startSeq = endSeq\<close> it takes the window for one that wraps around.
\<close>

lemma single_packet_lookup:
  "rtpRollingBufferGetValidSeqIndexList
     (Some \<lparr>pRollingBuffer = Some \<lparr>capacity = 4, headIndex = 6, tailIndex = 5, dataBuffer = [0, 16, 0, 0],
        freeDataFn = Some freeRtpRollingBufferData\<rparr>, lastIndex = 5\<rparr>)
     (Some [9]) 1 (Some [0, 0, 0]) (Some 3) = Some (STATUS_SUCCESS, Some [9, 0, 0], Some 1)"
  by (simp add: rtpRollingBufferGetValidSeqIndexList_def rollingBufferGetSize_def GET_UINT16_SEQ_NUM_def seq_index_def
      memget_def memwrite_def bsplice_def)

section \<open>Life of the buffered packets\<close>

text \<open>Adding packets one after the other, each with the allocation it gets.\<close>

fun add_packets :: "bool \<Rightarrow> ((u64 \<times> RtpPacket) \<times> RtpPacket) list \<Rightarrow> RtpRollingBuffer \<Rightarrow> heap \<Rightarrow> (RtpRollingBuffer \<times> heap) option" where
  "add_packets isBig [] rrb h = Some (rrb, h)"
| "add_packets isBig ((mem, p) # ps) rrb h =
     (case rtpRollingBufferAddRtpPacket isBig True (Some mem) (Some rrb) (Some p) h of
        Some (STATUS_SUCCESS, Some rrb', h') \<Rightarrow> add_packets isBig ps rrb' h'
      | _ \<Rightarrow> None)"

text \<open>The copy of a packet that the buffer stores.\<close>

definition stored_copy :: "bool \<Rightarrow> (u64 \<times> RtpPacket) \<times> RtpPacket \<Rightarrow> RtpPacket option" where
  "stored_copy isBig mp =
     do { raw \<leftarrow> pRawPacket (snd mp);
          copy \<leftarrow> memread raw 0 (unat (rawPacketLength (snd mp)));
          (status, q) \<leftarrow> createRtpPacketFromBytes isBig (Some (snd (fst mp))) (Some copy);
          if status = STATUS_SUCCESS then q else None }"

text \<open>The buffer after the addresses \<open>L\<close> were appended, on a heap that held \<open>D\<close> before.\<close>

definition holds_recent :: "u32 \<Rightarrow> u64 set \<Rightarrow> u64 list \<Rightarrow> RtpRollingBuffer \<Rightarrow> heap \<Rightarrow> bool" where
  "holds_recent cap D L rrb h = (\<exists>rb. pRollingBuffer rrb = Some rb \<and> ring_wf freeRtpRollingBufferData dom (rb, h) \<and>
     capacity rb = cap \<and> window_items rb = drop (length L - unat cap) L \<and> window_lo rb = length L - unat cap \<and>
     dom h = D \<union> set (window_items rb) \<and> (L \<noteq> [] \<longrightarrow> lastIndex rrb = headIndex rb - 1))"

lemma ring_append_SomeE:
  assumes "ring_append d (rb, h) = Some ((rb', h'), i)"
  obtains j where "rollingBufferAppendData (Some rb) d True h = Some (STATUS_SUCCESS, Some rb', h', Some j)" "unat j = i"
  using assms
  by (auto simp: ring_append_def split: option.splits prod.splits STATUS.splits)

lemma ring_wf_heap_mono:
  "ring_wf fn dom (rb, h) \<Longrightarrow> ring_wf fn dom (rb, h(a \<mapsto> p))"
  by (auto simp: ring_wf_def)

lemma add_packet_step:
  assumes hr: "holds_recent cap D L rrb h" and copy: "stored_copy isBig ((a, junk), p) = Some q"
    and a: "a \<noteq> 0" "a \<notin> D" "distinct (L @ [a])" "0 \<notin> set L" "D \<inter> set L = {}" and lim: "length L < 2 ^ 64 - 1"
  shows "\<exists>rrb' h'. rtpRollingBufferAddRtpPacket isBig True (Some (a, junk)) (Some rrb) (Some p) h =
           Some (STATUS_SUCCESS, Some rrb', h') \<and> holds_recent cap D (L @ [a]) rrb' h'"
proof -
  obtain rb where rb: "pRollingBuffer rrb = Some rb" "ring_wf freeRtpRollingBufferData dom (rb, h)" "capacity rb = cap"
      "window_items rb = drop (length L - unat cap) L" "window_lo rb = length L - unat cap"
      "dom h = D \<union> set (window_items rb)"
    using hr by (auto simp: holds_recent_def)
  let ?b = "(rb, h(a \<mapsto> q))"
  have "window_items (fst ?b) = drop (length L - unat (capacity (fst ?b))) L"
    "window_lo (fst ?b) = length L - unat (capacity (fst ?b))" "a \<in> dom (snd ?b)"
    using rb(3-5) by simp_all
  from packets.ring.append_recent[OF ring_wf_heap_mono[OF rb(2)] this(1,2) a(1) this(3) a(3,4) lim]
  obtain b' where b': "ring_append a ?b = Some (b', length L)" "ring_wf freeRtpRollingBufferData dom b'"
      "unat (capacity (fst b')) = unat cap" "window_items (fst b') = drop (length (L @ [a]) - unat cap) (L @ [a])"
      "window_lo (fst b') = length (L @ [a]) - unat cap"
      "dom (snd b') = dom (h(a \<mapsto> q)) - (set (window_items rb) - set (window_items (fst b')))"
    unfolding fst_conv snd_conv rb(3) by (elim exE conjE) (rule that)
  obtain rb' h' where p: "b' = (rb', h')" by (cases b')
  obtain j where j: "rollingBufferAppendData (Some rb) a True (h(a \<mapsto> q)) = Some (STATUS_SUCCESS, Some rb', h', Some j)"
      "unat j = length L" by (rule ring_append_SomeE[OF b'(1)[unfolded p]])
  have wf': "rb_wf rb'" using b'(2) by (simp add: p ring_wf_def)
  then have "unat (headIndex rb') = length L + 1"
    using window_hi[OF wf'] b'(4,5) by (simp add: p)
  then have "headIndex rb' - 1 = j"
    using j(2) by (metis add_diff_cancel_right' of_nat_Suc of_nat_unat ucast_id Suc_eq_plus1 add.commute)
  moreover have "0 < unat cap" using rb(2,3) by (auto simp: ring_wf_def rb_wf_def unat_gt_0)
  then have "drop (1 - unat cap) [a] = [a]" "set (drop (Suc (length L) - unat cap) L) \<subseteq> set (drop (length L - unat cap) L)"
    by (auto intro: set_drop_subset_set_drop[THEN subsetD, rotated])
  then have "dom h' = D \<union> set (window_items rb')"
    using b'(4,6) rb(4,6) a by (auto simp: p dest: in_set_dropD)
  moreover have "capacity rb' = cap" using b'(3) by (simp add: p word_unat_eq_iff)
  ultimately have "holds_recent cap D (L @ [a]) (rrb\<lparr>pRollingBuffer := Some rb', lastIndex := j\<rparr>) h'"
    using b' by (simp add: holds_recent_def p)
  moreover have "rtpRollingBufferAddRtpPacket isBig True (Some (a, junk)) (Some rrb) (Some p) h =
      Some (STATUS_SUCCESS, Some (rrb\<lparr>pRollingBuffer := Some rb', lastIndex := j\<rparr>), h')"
    using copy j(1) rb(1)
    by (auto simp: rtpRollingBufferAddRtpPacket_def stored_copy_def bind_Some_iff split: if_splits)
  ultimately show ?thesis by blast
qed

lemma add_packets_recent:
  assumes "holds_recent cap D L rrb h" "\<forall>mp \<in> set ps. stored_copy isBig mp \<noteq> None"
    "distinct (L @ map (fst \<circ> fst) ps)" "0 \<notin> set (L @ map (fst \<circ> fst) ps)" "D \<inter> set (L @ map (fst \<circ> fst) ps) = {}"
    "length L + length ps \<le> 2 ^ 64 - 1"
  shows "\<exists>rrb' h'. add_packets isBig ps rrb h = Some (rrb', h') \<and> holds_recent cap D (L @ map (fst \<circ> fst) ps) rrb' h'"
  using assms
proof (induction ps arbitrary: L rrb h)
  case (Cons mp ps)
  obtain a junk p where mp: "mp = ((a, junk), p)" by (metis surj_pair)
  obtain q where q: "stored_copy isBig ((a, junk), p) = Some q" using Cons.prems(2) mp by auto
  have "a \<noteq> 0" "a \<notin> D" "distinct (L @ [a])" "0 \<notin> set L" "D \<inter> set L = {}" "length L < 2 ^ 64 - 1"
    using Cons.prems(3-6) mp by auto
  then obtain rrb1 h1 where "rtpRollingBufferAddRtpPacket isBig True (Some (a, junk)) (Some rrb) (Some p) h =
      Some (STATUS_SUCCESS, Some rrb1, h1)" "holds_recent cap D (L @ [a]) rrb1 h1"
    using add_packet_step[OF Cons.prems(1) q] by blast
  then show ?case using Cons.IH[of "L @ [a]" rrb1 h1] Cons.prems mp by auto
qed simp

lemma create_holds_recent:
  assumes "cap \<noteq> 0"
  shows "\<exists>rrb. createRtpRollingBuffer (Some junk) True cap True = (STATUS_SUCCESS, Some rrb) \<and> holds_recent cap (dom h) [] rrb h"
  using assms
  by (simp add: createRtpRollingBuffer_def createRollingBuffer_def holds_recent_def ring_wf_def rb_wf_def
      window_items_def window_lo_def ring_view_def)

lemma free_recent:
  assumes "holds_recent cap D L rrb h" "0 \<notin> set L" "D \<inter> set L = {}"
  shows "\<exists>h'. freeRtpRollingBuffer (Some (Some rrb)) h = Some (STATUS_SUCCESS, h') \<and> dom h' = D"
proof -
  obtain rb where rb: "pRollingBuffer rrb = Some rb" "ring_wf freeRtpRollingBufferData dom (rb, h)"
      "window_items rb = drop (length L - unat cap) L" "dom h = D \<union> set (window_items rb)"
    using assms(1) by (auto simp: holds_recent_def)
  obtain rb' h' where fl: "free_loop (tailIndex rb) (headIndex rb) rb h = Some (rb', h')"
      "dom h' = dom h - (set (window_items rb) - {0})"
    using packets.free_loop_law[OF rb(2)] by blast
  have "set (window_items rb) \<subseteq> set L" using rb(3) by (auto dest: in_set_dropD)
  then have "dom h' = D" using fl(2) rb(4) assms(2,3) by auto
  then show ?thesis using fl(1) rb(1) by (simp add: freeRtpRollingBuffer_def freeRollingBuffer_def)
qed


definition sample_packet :: RtpPacket where
  "sample_packet = \<lparr>header = \<lparr>version = 0, padding = False, extension = False, marker = False, csrcCount = 0, payloadType = 0,
      sequenceNumber = 0, timestamp = 0, ssrc = 0, csrcArray = None, extensionProfile = 0, extensionPayload = None,
      extensionLength = 0\<rparr>, payload = None, payloadLength = 0,
     pRawPacket = Some [0x80, 96, 0, 1, 0, 0, 0, 2, 0, 0, 0, 3, 42], rawPacketLength = 13, receivedTime = 0, sentTime = 0,
     isSynthetic = False\<rparr>"


end
