(* ===== verification/JitterBuffer.thy ===== *)
theory JitterBuffer
  imports RtpRollingBuffer
begin

text \<open>
  \<^verbatim>\<open>src/source/PeerConnection/JitterBuffer.c\<close>: received packets are put into order again, and complete
  frames are handed to the application.

  The buffer holds the addresses of packets in a hash table under their sequence numbers. The table is modelled by the
  finite map that \<open>HashTable\<close> is shown to implement. The heap is the one of \<open>RtpRollingBuffer\<close>: reading or freeing a
  packet that is not there is a fault, \<open>None\<close>. The callbacks for ready and dropped frames and the depayloader are
  parameters; the callbacks may read the buffer and the heap and change the state of the application, of
  type \<open>'e\<close>. The interarrival jitter, which the receiver keeps in this structure, is left out.
\<close>

section \<open>Data\<close>

record JitterBufferInternal =
  jb_clockRate :: u32
  jb_tailTimestamp :: u32
  jb_headSequenceNumber :: u16
  jb_tailSequenceNumber :: u16
  jb_headTimestamp :: u32
  jb_maxLatency :: u64
  jb_started :: bool
  jb_firstFrameProcessed :: bool
  jb_sequenceNumberOverflowState :: bool
  jb_timestampOverFlowState :: bool
  jb_alwaysSinglePacketFrames :: bool
  jb_pPkgBufferHashTable :: "u16 \<rightharpoonup> u64"

record 'e jb_world =
  w_jb :: JitterBufferInternal
  w_heap :: heap
  w_app :: 'e

text \<open>A depayloader gets a payload and, unless it is only asked for the size, the rest of the frame buffer.\<close>

type_synonym DepayRtpPayloadFunc = "bytes option \<Rightarrow> u32 \<Rightarrow> bytes option \<Rightarrow> u32 \<Rightarrow> bool \<Rightarrow> (STATUS \<times> bytes option \<times> u32 \<times> bool) option"

record 'e JitterBufferCalls =
  onFrameReadyFn :: "u16 \<Rightarrow> u16 \<Rightarrow> u32 \<Rightarrow> 'e jb_world \<Rightarrow> (STATUS \<times> 'e) option"
  onFrameDroppedFn :: "u16 \<Rightarrow> u16 \<Rightarrow> u32 \<Rightarrow> 'e jb_world \<Rightarrow> (STATUS \<times> 'e) option"
  depayPayloadFn :: DepayRtpPayloadFunc

abbreviation (input) MAX_OUT_OF_ORDER_PACKET_DIFFERENCE :: nat where "MAX_OUT_OF_ORDER_PACKET_DIFFERENCE \<equiv> 512"
abbreviation (input) MAX_RTP_SEQUENCE_NUM :: u32 where "MAX_RTP_SEQUENCE_NUM \<equiv> 65535"
abbreviation (input) MAX_RTP_TIMESTAMP :: u32 where "MAX_RTP_TIMESTAMP \<equiv> 0xFFFFFFFF"
abbreviation (input) DEFAULT_JITTER_BUFFER_MAX_LATENCY :: u64 where "DEFAULT_JITTER_BUFFER_MAX_LATENCY \<equiv> 20000000"
abbreviation (input) HUNDREDS_OF_NANOS_IN_A_SECOND :: u64 where "HUNDREDS_OF_NANOS_IN_A_SECOND \<equiv> 10000000"

abbreviation seq_of :: "RtpPacket \<Rightarrow> u16" where "seq_of p \<equiv> sequenceNumber (header p)"
abbreviation ts_of :: "RtpPacket \<Rightarrow> u32" where "ts_of p \<equiv> timestamp (header p)"

section \<open>Creation\<close>

text \<open>
  The structure is allocated without being cleared. When the latency is refused, it is destroyed while its
  table is not yet set: the model faults.
\<close>

definition createJitterBuffer :: "bool \<Rightarrow> bool \<Rightarrow> bool \<Rightarrow> u32 \<Rightarrow> u32 \<Rightarrow> bool \<Rightarrow> bool \<Rightarrow> (STATUS \<times> JitterBufferInternal option) option" where
  "createJitterBuffer mem tableMem functions maxLatency clockRate alwaysSinglePacketFrames ppJitterBuffer =
     (if \<not> (ppJitterBuffer \<and> functions) then Some (STATUS_NULL_ARG, None)
      else if clockRate = 0 then Some (STATUS_INVALID_ARG, None)
      else if \<not> mem then Some (STATUS_NOT_ENOUGH_MEMORY, None)
      else
        let latency = (if maxLatency = 0 then DEFAULT_JITTER_BUFFER_MAX_LATENCY else ucast maxLatency)
              * ucast clockRate div HUNDREDS_OF_NANOS_IN_A_SECOND in
        if \<not> latency < ucast MAX_RTP_TIMESTAMP then None
        else if \<not> tableMem then Some (STATUS_NOT_ENOUGH_MEMORY, None)
        else Some (STATUS_SUCCESS, Some
          \<lparr>jb_clockRate = clockRate, jb_tailTimestamp = 0, jb_headSequenceNumber = 65535, jb_tailSequenceNumber = 65535,
           jb_headTimestamp = 0xFFFFFFFF, jb_maxLatency = latency, jb_started = False, jb_firstFrameProcessed = False,
           jb_sequenceNumberOverflowState = False, jb_timestampOverFlowState = False,
           jb_alwaysSinglePacketFrames = alwaysSinglePacketFrames, jb_pPkgBufferHashTable = Map.empty\<rparr>))"

section \<open>Tracking the head and the tail\<close>

definition underflowPossible :: "JitterBufferInternal \<Rightarrow> RtpPacket \<Rightarrow> bool" where
  "underflowPossible jb p =
     (if jb_headTimestamp jb = ts_of p then True
      else
        let seqNoDifference = (MAX_RTP_SEQUENCE_NUM - ucast (seq_of p)) + ucast (jb_headSequenceNumber jb) :: u32;
            timestampDifference = (if jb_headTimestamp jb > ts_of p then jb_headTimestamp jb - ts_of p
              else (MAX_RTP_TIMESTAMP - ts_of p) + jb_headTimestamp jb);
            maxTimePassed = (if MAX_RTP_TIMESTAMP div jb_clockRate jb \<le> seqNoDifference then MAX_RTP_TIMESTAMP
              else jb_clockRate jb * seqNoDifference) in
        maxTimePassed \<ge> timestampDifference)"

definition headCheckingAllowed :: "JitterBufferInternal \<Rightarrow> RtpPacket \<Rightarrow> bool" where
  "headCheckingAllowed jb p = (\<not> jb_firstFrameProcessed jb \<or> jb_headTimestamp jb = ts_of p)"

definition headSequenceNumberCheck :: "JitterBufferInternal \<Rightarrow> RtpPacket \<Rightarrow> bool \<times> JitterBufferInternal" where
  "headSequenceNumberCheck jb p =
     (let hd = jb_headSequenceNumber jb; seq = seq_of p;
          minimumHead = (if unat hd \<ge> MAX_OUT_OF_ORDER_PACKET_DIFFERENCE then hd - 512 else 0) in
      if hd = seq then (True, jb)
      else if headCheckingAllowed jb p then
        if jb_sequenceNumberOverflowState jb then
          if jb_tailSequenceNumber jb < seq \<and> hd > seq \<and> seq \<ge> minimumHead then (True, jb\<lparr>jb_headSequenceNumber := seq\<rparr>)
          else (False, jb)
        else if seq < hd \<and> seq \<ge> minimumHead then (True, jb\<lparr>jb_headSequenceNumber := seq\<rparr>)
        else (False, jb)
      else (False, jb))"

definition tailSequenceNumberCheck :: "JitterBufferInternal \<Rightarrow> RtpPacket \<Rightarrow> bool \<times> JitterBufferInternal" where
  "tailSequenceNumberCheck jb p =
     (if jb_tailSequenceNumber jb = seq_of p then (True, jb)
      else if seq_of p > jb_tailSequenceNumber jb \<and>
          (\<not> jb_sequenceNumberOverflowState jb \<or> jb_headSequenceNumber jb > seq_of p)
        then (True, jb\<lparr>jb_tailSequenceNumber := seq_of p\<rparr>)
      else (False, jb))"

definition enterSequenceNumberOverflowCheck :: "JitterBufferInternal \<Rightarrow> RtpPacket \<Rightarrow> bool \<times> JitterBufferInternal" where
  "enterSequenceNumberOverflowCheck jb p =
     (let seq = unat (seq_of p);
          packetsUntilOverflow = 65535 - unat (jb_tailSequenceNumber jb);
          overflow = (\<not> jb_sequenceNumberOverflowState jb \<and> MAX_OUT_OF_ORDER_PACKET_DIFFERENCE \<ge> packetsUntilOverflow \<and>
            seq_of p < jb_tailSequenceNumber jb \<and> seq \<le> MAX_OUT_OF_ORDER_PACKET_DIFFERENCE - packetsUntilOverflow);
          underflow = (\<not> jb_sequenceNumberOverflowState jb \<and> \<not> MAX_OUT_OF_ORDER_PACKET_DIFFERENCE \<ge> packetsUntilOverflow \<and>
            headCheckingAllowed jb p \<and> unat (jb_headSequenceNumber jb) < MAX_OUT_OF_ORDER_PACKET_DIFFERENCE \<and>
            seq \<ge> 65535 - (MAX_OUT_OF_ORDER_PACKET_DIFFERENCE - unat (jb_headSequenceNumber jb)) \<and> underflowPossible jb p);
          jb1 = (if overflow then jb\<lparr>jb_sequenceNumberOverflowState := True, jb_tailSequenceNumber := seq_of p, jb_tailTimestamp := ts_of p\<rparr>
                 else jb);
          jb2 = (if underflow then jb1\<lparr>jb_sequenceNumberOverflowState := True, jb_headSequenceNumber := seq_of p, jb_headTimestamp := ts_of p\<rparr>
                 else jb1) in
      (overflow \<or> underflow, jb2))"

definition enterTimestampOverflowCheck :: "JitterBufferInternal \<Rightarrow> RtpPacket \<Rightarrow> bool \<times> JitterBufferInternal" where
  "enterTimestampOverflowCheck jb p =
     (if jb_timestampOverFlowState jb then (False, jb)
      else if jb_headTimestamp jb > ts_of p \<and> jb_tailTimestamp jb > ts_of p then
        let (overflow, jb1) = tailSequenceNumberCheck jb p in
        (overflow, if overflow then jb1\<lparr>jb_timestampOverFlowState := True, jb_tailTimestamp := ts_of p\<rparr> else jb1)
      else if jb_headTimestamp jb < ts_of p \<and> jb_tailTimestamp jb < ts_of p then
        let (isHead, jb1) = headSequenceNumberCheck jb p;
            underflow = (isHead \<and> jb_headSequenceNumber jb1 \<noteq> jb_headSequenceNumber jb) in
        (underflow, if underflow then jb1\<lparr>jb_timestampOverFlowState := True, jb_headTimestamp := ts_of p\<rparr> else jb1)
      else (False, jb))"

definition exitSequenceNumberOverflowCheck :: "JitterBufferInternal \<Rightarrow> bool \<times> JitterBufferInternal" where
  "exitSequenceNumberOverflowCheck jb =
     (if jb_sequenceNumberOverflowState jb \<and> jb_headSequenceNumber jb \<le> jb_tailSequenceNumber jb
      then (True, jb\<lparr>jb_sequenceNumberOverflowState := False\<rparr>) else (False, jb))"

definition exitTimestampOverflowCheck :: "JitterBufferInternal \<Rightarrow> bool \<times> JitterBufferInternal" where
  "exitTimestampOverflowCheck jb =
     (if jb_timestampOverFlowState jb \<and> jb_headTimestamp jb \<le> jb_tailTimestamp jb
      then (True, jb\<lparr>jb_timestampOverFlowState := False\<rparr>) else (False, jb))"

definition headTimestampCheck :: "JitterBufferInternal \<Rightarrow> RtpPacket \<Rightarrow> bool \<times> JitterBufferInternal" where
  "headTimestampCheck jb p =
     (if headCheckingAllowed jb p \<and>
         (if jb_timestampOverFlowState jb then jb_headTimestamp jb > ts_of p \<and> jb_tailTimestamp jb < ts_of p
          else jb_headTimestamp jb > ts_of p \<or> jb_tailTimestamp jb < ts_of p)
      then let (isHead, jb1) = headSequenceNumberCheck jb p in
           (isHead, if isHead then jb1\<lparr>jb_headTimestamp := ts_of p\<rparr> else jb1)
      else (False, jb))"

definition tailTimestampCheck :: "JitterBufferInternal \<Rightarrow> RtpPacket \<Rightarrow> bool \<times> JitterBufferInternal" where
  "tailTimestampCheck jb p =
     (if jb_tailTimestamp jb < ts_of p \<and> (\<not> jb_timestampOverFlowState jb \<or> jb_headTimestamp jb > ts_of p)
      then let (isTail, jb1) = tailSequenceNumberCheck jb p in
           (isTail, if isTail then jb1\<lparr>jb_tailTimestamp := ts_of p\<rparr> else jb1)
      else (False, jb))"

definition withinLatencyTolerance :: "JitterBufferInternal \<Rightarrow> RtpPacket \<Rightarrow> bool \<times> JitterBufferInternal" where
  "withinLatencyTolerance jb0 p =
     (let (isTail, jb) = tailTimestampCheck jb0 p; ts = ts_of p in
      if isTail \<or> jb_tailTimestamp jb = ts then (True, jb)
      else if jb_timestampOverFlowState jb then
        let minimumTimestamp = (if ucast (jb_tailTimestamp jb) < jb_maxLatency jb
              then ucast (ucast MAX_RTP_TIMESTAMP - (jb_maxLatency jb - ucast (jb_tailTimestamp jb)) :: u64) else 0) :: u32 in
        (ts < jb_tailTimestamp jb \<or> ts > jb_headTimestamp jb \<or> ts \<ge> minimumTimestamp, jb)
      else
        (ucast ts < jb_maxLatency jb \<and> ucast (jb_tailTimestamp jb) \<le> jb_maxLatency jb \<or>
         (ucast ts :: u64) \<ge> ucast (jb_tailTimestamp jb) - jb_maxLatency jb, jb))"

section \<open>Reading the buffer\<close>

definition defaultGetPacket :: "JitterBufferInternal \<Rightarrow> u16 \<Rightarrow> STATUS \<times> u64" where
  "defaultGetPacket jb seqNum = (case jb_pPkgBufferHashTable jb seqNum of
     None \<Rightarrow> (STATUS_HASH_KEY_NOT_PRESENT, 0)
   | Some a \<Rightarrow> (STATUS_SUCCESS, a))"

text \<open>
  The loops over the sequence numbers from \<open>startIndex\<close> to \<open>endIndex\<close>, which may wrap around: they end when
  the number before \<open>index\<close> is \<open>endIndex\<close>, so their number of rounds is known at the start.
\<close>

definition seq_range :: "u16 \<Rightarrow> u16 \<Rightarrow> u16 list" where
  "seq_range startIndex endIndex = map (\<lambda>k. startIndex + word_of_nat k) [0..<unat (endIndex + 1 - startIndex)]"

text \<open>
  The state of a loop that fills a frame: the buffer, the bytes written, the size that is left. A depayloader is given the rest
  of the buffer behind the bytes written; a position behind the buffer is a fault. The first error ends the loop.
\<close>

definition fill_round :: "DepayRtpPayloadFunc \<Rightarrow> JitterBufferInternal \<Rightarrow> heap \<Rightarrow> u16 \<Rightarrow>
    STATUS \<times> bytes \<times> nat \<times> u32 \<times> bool \<Rightarrow> (STATUS \<times> bytes \<times> nat \<times> u32 \<times> bool) option" where
  "fill_round depay jb h index s =
     (case s of (retStatus, frame, pos, remainingFrameSize, isFirstInFrame) \<Rightarrow>
      if retStatus \<noteq> STATUS_SUCCESS then Some s
      else case jb_pPkgBufferHashTable jb index of
        None \<Rightarrow> Some (STATUS_HASH_KEY_NOT_PRESENT, frame, pos, remainingFrameSize, isFirstInFrame)
      | Some a \<Rightarrow>
          if a = 0 then Some (STATUS_NULL_ARG, frame, pos, remainingFrameSize, isFirstInFrame)
          else do {
            p \<leftarrow> h a;
            rest \<leftarrow> (if pos \<le> length frame then Some (drop pos frame) else None);
            (st, out, partialFrameSize, first) \<leftarrow> depay (payload p) (payloadLength p) (Some rest) remainingFrameSize isFirstInFrame;
            data \<leftarrow> out;
            Some (if st \<noteq> STATUS_SUCCESS then (st, take pos frame @ data, pos, remainingFrameSize, first)
                  else (STATUS_SUCCESS, take pos frame @ data, pos + unat partialFrameSize, remainingFrameSize - partialFrameSize, False))
          })"

definition defaultFillFrameData ::
  "DepayRtpPayloadFunc \<Rightarrow> JitterBufferInternal \<Rightarrow> heap \<Rightarrow> bytes option \<Rightarrow> u32 \<Rightarrow> u16 \<Rightarrow> u16 \<Rightarrow> (STATUS \<times> bytes option \<times> u32) option" where
  "defaultFillFrameData depay jb h pFrame frameSize startIndex endIndex = (case pFrame of
     None \<Rightarrow> Some (STATUS_NULL_ARG, None, 0)
   | Some frame \<Rightarrow> do {
       (retStatus, frame', pos, remainingFrameSize, first) \<leftarrow>
         for_each (fill_round depay jb h) (seq_range startIndex endIndex) (STATUS_SUCCESS, frame, 0, frameSize, True);
       Some (retStatus, Some frame', frameSize - remainingFrameSize)
     })"

text \<open>Filling what there is of a frame: missing packets and packets that cannot be depayloaded are skipped.\<close>

definition fill_partial_round :: "DepayRtpPayloadFunc \<Rightarrow> JitterBufferInternal \<Rightarrow> heap \<Rightarrow> u32 \<Rightarrow> u16 \<Rightarrow>
    bytes option \<times> nat \<times> u32 \<times> bool \<Rightarrow> (bytes option \<times> nat \<times> u32 \<times> bool) option" where
  "fill_partial_round depay jb h frameSize index s =
     (case s of (pFrame, pos, filledSize, isFirstInFrame) \<Rightarrow>
      case jb_pPkgBufferHashTable jb index of
        None \<Rightarrow> Some s
      | Some a \<Rightarrow> do {
          p \<leftarrow> h a;
          rest \<leftarrow> (case pFrame of None \<Rightarrow> Some None
            | Some frame \<Rightarrow> if pos \<le> length frame then Some (Some (drop pos frame)) else None);
          (st, out, partialFrameSize, first) \<leftarrow> depay (payload p) (payloadLength p) rest
            (if pFrame = None then 0 else frameSize - filledSize) isFirstInFrame;
          let frame' = (case (pFrame, out) of (Some frame, Some data) \<Rightarrow> Some (take pos frame @ data) | _ \<Rightarrow> pFrame) in
          Some (if st \<noteq> STATUS_SUCCESS then (frame', pos, filledSize, isFirstInFrame)
                else (frame', if pFrame = None then pos else pos + unat partialFrameSize, filledSize + partialFrameSize, False))
        })"

definition defaultFillPartialFrameData ::
  "DepayRtpPayloadFunc \<Rightarrow> JitterBufferInternal \<Rightarrow> heap \<Rightarrow> bytes option \<Rightarrow> u32 \<Rightarrow> u16 \<Rightarrow> u16 \<Rightarrow> (STATUS \<times> bytes option \<times> u32) option" where
  "defaultFillPartialFrameData depay jb h pFrame frameSize startIndex endIndex = do {
     (frame', pos, filledSize, first) \<leftarrow>
       for_each (fill_partial_round depay jb h frameSize) (seq_range startIndex endIndex) (pFrame, 0, 0, True);
     Some (STATUS_SUCCESS, frame', filledSize)
   }"

section \<open>Dropping packets\<close>

definition drop_round :: "u16 \<Rightarrow> JitterBufferInternal \<times> heap \<Rightarrow> (JitterBufferInternal \<times> heap) option" where
  "drop_round index s = (case s of (jb, h) \<Rightarrow>
     case jb_pPkgBufferHashTable jb index of
       None \<Rightarrow> Some (jb, h)
     | Some a \<Rightarrow> do {
         (st, h', q) \<leftarrow> freeRtpPacket h (Some a);
         Some (jb\<lparr>jb_pPkgBufferHashTable := (jb_pPkgBufferHashTable jb)(index := None)\<rparr>, h')
       })"

definition defaultDropBufferData :: "u16 \<Rightarrow> u16 \<Rightarrow> u32 \<Rightarrow> JitterBufferInternal \<times> heap \<Rightarrow> (STATUS \<times> JitterBufferInternal \<times> heap) option" where
  "defaultDropBufferData startIndex endIndex nextTimestamp s = do {
     (jb, h) \<leftarrow> for_each drop_round (seq_range startIndex endIndex) s;
     let jb1 = jb\<lparr>jb_headTimestamp := nextTimestamp, jb_headSequenceNumber := endIndex + 1\<rparr>;
         jb2 = snd (exitTimestampOverflowCheck jb1);
         jb3 = snd (exitSequenceNumberOverflowCheck jb2) in
     Some (STATUS_SUCCESS, jb3, h)
   }"

definition drop_world :: "u16 \<Rightarrow> u16 \<Rightarrow> u32 \<Rightarrow> 'e jb_world \<Rightarrow> (STATUS \<times> 'e jb_world) option" where
  "drop_world startIndex endIndex nextTimestamp w = do {
     (st, jb, h) \<leftarrow> defaultDropBufferData startIndex endIndex nextTimestamp (w_jb w, w_heap w);
     Some (st, w\<lparr>w_jb := jb, w_heap := h\<rparr>)
   }"

section \<open>Parsing\<close>

text \<open>The variables of \<^verbatim>\<open>jitterBufferInternalParse\<close> that live over a round of its loop, with the world.\<close>

record 'e ParseState =
  ps_w :: "'e jb_world"
  ps_headFrameIsContiguous :: bool
  ps_startDropIndex :: u16
  ps_curFrameSize :: u32
  ps_sizeCalcIsFirst :: bool
  ps_partialFrameSize :: u32
  ps_containStart :: bool
  ps_lastNonNullIndex :: u16
  ps_lastHeadFrameSeqNum :: u16
  ps_seenHeadFramePacket :: bool
  ps_firstGapIndex :: u16
  ps_sawGapSinceLastFrame :: bool
  ps_headFrameEnded :: bool

text \<open>How a round ends: the loop goes on, the loop is left, or the function is.\<close>

datatype 's flow = Continue 's | Break 's | Return STATUS 's

abbreviation ps_jb :: "'e ParseState \<Rightarrow> JitterBufferInternal" where "ps_jb ps \<equiv> w_jb (ps_w ps)"

definition too_late :: "u32 \<Rightarrow> bool \<Rightarrow> 'e ParseState \<Rightarrow> bool" where
  "too_late earliest bufferClosed ps = (jb_headTimestamp (ps_jb ps) < earliest \<or> bufferClosed)"

definition parse_gap :: "u32 \<Rightarrow> bool \<Rightarrow> u16 \<Rightarrow> 'e ParseState \<Rightarrow> 'e ParseState flow" where
  "parse_gap earliest bufferClosed index ps =
     (let ps1 = (if \<not> ps_sawGapSinceLastFrame ps then ps\<lparr>ps_firstGapIndex := index, ps_sawGapSinceLastFrame := True\<rparr> else ps);
          ps2 = (if ps_seenHeadFramePacket ps1 \<and> \<not> ps_headFrameEnded ps1 then ps1\<lparr>ps_headFrameIsContiguous := False\<rparr> else ps1) in
      if too_late earliest bufferClosed ps2 then Continue ps2 else Return STATUS_SUCCESS ps2)"

definition ends_frame :: "JitterBufferInternal \<Rightarrow> RtpPacket \<Rightarrow> bool" where
  "ends_frame jb p = (marker (header p) \<or> jb_alwaysSinglePacketFrames jb)"

text \<open>A frame is handed to the application and removed.\<close>

definition deliver_frame :: "'e JitterBufferCalls \<Rightarrow> u16 \<Rightarrow> u16 \<Rightarrow> u32 \<Rightarrow> u32 \<Rightarrow> 'e jb_world \<Rightarrow> (STATUS \<times> 'e jb_world) option" where
  "deliver_frame calls startIndex endIndex frameSize nextTimestamp w = do {
     (st, e) \<leftarrow> onFrameReadyFn calls startIndex endIndex frameSize w;
     (if st \<noteq> STATUS_SUCCESS then Some (st, w\<lparr>w_app := e\<rparr>)
      else drop_world startIndex endIndex nextTimestamp (w\<lparr>w_app := e\<rparr>))
   }"

definition discard_frame :: "'e JitterBufferCalls \<Rightarrow> u16 \<Rightarrow> u16 \<Rightarrow> u32 \<Rightarrow> 'e jb_world \<Rightarrow> (STATUS \<times> 'e jb_world) option" where
  "discard_frame calls startIndex endIndex nextTimestamp w = do {
     (st, e) \<leftarrow> onFrameDroppedFn calls startIndex endIndex (jb_headTimestamp (w_jb w)) w;
     drop_world startIndex endIndex nextTimestamp (w\<lparr>w_app := e\<rparr>)
   }"

text \<open>The variables when the packet at \<open>index\<close> becomes the first one of the head frame.\<close>

definition start_frame :: "u16 \<Rightarrow> RtpPacket \<Rightarrow> 'e ParseState \<Rightarrow> 'e ParseState" where
  "start_frame index p ps = ps\<lparr>ps_startDropIndex := index, ps_headFrameIsContiguous := True, ps_sawGapSinceLastFrame := False,
     ps_lastHeadFrameSeqNum := index, ps_seenHeadFramePacket := True, ps_headFrameEnded := ends_frame (ps_jb ps) p\<rparr>"

definition frame_done :: "'e ParseState \<Rightarrow> 'e ParseState" where
  "frame_done ps = ps\<lparr>ps_w := ps_w ps\<lparr>w_jb := (ps_jb ps)\<lparr>jb_firstFrameProcessed := True\<rparr>\<rparr>\<rparr>"

definition reset_size :: "'e ParseState \<Rightarrow> 'e ParseState" where
  "reset_size ps = ps\<lparr>ps_curFrameSize := 0, ps_sizeCalcIsFirst := True\<rparr>"

text \<open>A packet whose timestamp is not the one of the head frame.\<close>

definition parse_new_timestamp :: "'e JitterBufferCalls \<Rightarrow> u32 \<Rightarrow> bool \<Rightarrow> u16 \<Rightarrow> RtpPacket \<Rightarrow> 'e ParseState \<Rightarrow> 'e ParseState flow option" where
  "parse_new_timestamp calls earliest bufferClosed index p ps0 =
     (let ps = (if ps_sawGapSinceLastFrame ps0 \<and> ps_seenHeadFramePacket ps0 \<and>
            (ps_firstGapIndex ps0 \<le> ps_lastHeadFrameSeqNum ps0 \<or> \<not> ps_headFrameEnded ps0)
          then ps0\<lparr>ps_headFrameIsContiguous := False\<rparr> else ps0) in
      if ps_containStart ps \<and> ps_headFrameIsContiguous ps then do {
        (st, w) \<leftarrow> deliver_frame calls (ps_startDropIndex ps) (index - 1) (ps_curFrameSize ps) (ts_of p) (ps_w ps);
        Some (if st \<noteq> STATUS_SUCCESS then Return st (ps\<lparr>ps_w := w\<rparr>)
              else Continue (reset_size (start_frame index p (frame_done (ps\<lparr>ps_w := w\<rparr>)\<lparr>ps_containStart := False\<rparr>))))
      }
      else if ps_seenHeadFramePacket ps \<and> ps_startDropIndex ps \<noteq> index \<and> too_late earliest bufferClosed ps then do {
        (st, w) \<leftarrow> discard_frame calls (ps_startDropIndex ps) (index - 1) (ts_of p) (ps_w ps);
        Some (if st \<noteq> STATUS_SUCCESS then Return st (ps\<lparr>ps_w := w\<rparr>)
              else Continue (reset_size (start_frame index p (frame_done (ps\<lparr>ps_w := w\<rparr>)))))
      }
      else if ps_seenHeadFramePacket ps then Some (Break ps)
      else Some (Continue (reset_size (start_frame index p
        (ps\<lparr>ps_w := ps_w ps\<lparr>w_jb := (ps_jb ps)\<lparr>jb_headTimestamp := ts_of p\<rparr>\<rparr>\<rparr>)))))"

text \<open>The size of the packet is added, and a frame that ends with it is delivered.\<close>

definition parse_payload :: "'e JitterBufferCalls \<Rightarrow> u16 \<Rightarrow> RtpPacket \<Rightarrow> 'e ParseState \<Rightarrow> 'e ParseState flow option" where
  "parse_payload calls index p ps = do {
     (st, out, partialFrameSize, isStart) \<leftarrow>
       depayPayloadFn calls (payload p) (payloadLength p) None (ps_partialFrameSize ps) (ps_sizeCalcIsFirst ps);
     let ps0 = ps\<lparr>ps_partialFrameSize := partialFrameSize\<rparr> in
     if st \<noteq> STATUS_SUCCESS then Some (Return st ps0)
     else
       let ps1 = ps0\<lparr>ps_curFrameSize := ps_curFrameSize ps0 + partialFrameSize, ps_sizeCalcIsFirst := False\<rparr>;
           isHead = (ts_of p = jb_headTimestamp (ps_jb ps1));
           ps2 = (if isStart \<and> isHead then ps1\<lparr>ps_containStart := True\<rparr> else ps1) in
       if (jb_firstFrameProcessed (ps_jb ps2) \<or> jb_alwaysSinglePacketFrames (ps_jb ps2)) \<and> isHead \<and>
          ends_frame (ps_jb ps2) p \<and> ps_containStart ps2 \<and> ps_headFrameIsContiguous ps2
       then do {
         (st, w) \<leftarrow> deliver_frame calls (ps_startDropIndex ps2) index (ps_curFrameSize ps2) (ts_of p) (ps_w ps2);
         Some (if st \<noteq> STATUS_SUCCESS then Return st (ps2\<lparr>ps_w := w\<rparr>)
               else Break (reset_size (frame_done (ps2\<lparr>ps_w := w\<rparr>)\<lparr>ps_startDropIndex := index + 1\<rparr>)))
       }
       else Some (Continue ps2)
   }"

definition parse_round :: "'e JitterBufferCalls \<Rightarrow> u32 \<Rightarrow> bool \<Rightarrow> u16 \<Rightarrow> 'e ParseState \<Rightarrow> 'e ParseState flow option" where
  "parse_round calls earliest bufferClosed index ps =
     (case jb_pPkgBufferHashTable (ps_jb ps) index of
        None \<Rightarrow> Some (parse_gap earliest bufferClosed index ps)
      | Some a \<Rightarrow>
          let ps1 = ps\<lparr>ps_lastNonNullIndex := index\<rparr> in
          if a = 0 then Some (Return STATUS_NULL_ARG ps1)
          else do {
            p \<leftarrow> w_heap (ps_w ps1) a;
            (if ts_of p = jb_headTimestamp (ps_jb ps1) then
               parse_payload calls index p (ps1\<lparr>ps_lastHeadFrameSeqNum := index, ps_seenHeadFramePacket := True,
                 ps_headFrameEnded := (ends_frame (ps_jb ps1) p \<or> ps_headFrameEnded ps1)\<rparr>)
             else do {
               flow \<leftarrow> parse_new_timestamp calls earliest bufferClosed index p ps1;
               (case flow of Continue ps2 \<Rightarrow> parse_payload calls index p ps2 | _ \<Rightarrow> Some flow)
             })
          })"

fun parse_loop :: "'e JitterBufferCalls \<Rightarrow> u32 \<Rightarrow> bool \<Rightarrow> u16 list \<Rightarrow> 'e ParseState \<Rightarrow> 'e ParseState flow option" where
  "parse_loop calls earliest bufferClosed [] ps = Some (Break ps)"
| "parse_loop calls earliest bufferClosed (index # rest) ps = (case parse_round calls earliest bufferClosed index ps of
     None \<Rightarrow> None
   | Some (Continue ps') \<Rightarrow> parse_loop calls earliest bufferClosed rest ps'
   | Some flow \<Rightarrow> Some flow)"

text \<open>
  The last frame of a buffer that is closed: the packets from the start of the frame are measured until one is
  missing. The result is the index behind the last one looked at, the size, and an error of the depayloader.
\<close>

fun measure_last :: "'e JitterBufferCalls \<Rightarrow> 'e jb_world \<Rightarrow> u16 list \<Rightarrow> u16 \<Rightarrow> u32 \<Rightarrow> u32 \<Rightarrow> bool \<Rightarrow> (STATUS \<times> u16 \<times> u32) option" where
  "measure_last calls w [] index size0 partial first = Some (STATUS_SUCCESS, index, size0)"
| "measure_last calls w (i # rest) index size0 partial first = (case jb_pPkgBufferHashTable (w_jb w) i of
     None \<Rightarrow> Some (STATUS_SUCCESS, i + 1, size0)
   | Some a \<Rightarrow> do {
       p \<leftarrow> w_heap w a;
       (st, out, partialFrameSize, isStart) \<leftarrow> depayPayloadFn calls (payload p) (payloadLength p) None partial first;
       (if st \<noteq> STATUS_SUCCESS then Some (st, i, size0)
        else measure_last calls w rest (i + 1) (size0 + partialFrameSize) partialFrameSize False)
     })"

definition parse_last_frame :: "'e JitterBufferCalls \<Rightarrow> 'e ParseState \<Rightarrow> (STATUS \<times> 'e jb_world) option" where
  "parse_last_frame calls ps =
     (let w = ps_w ps; lastIndex = ps_lastNonNullIndex ps; startIndex = ps_startDropIndex ps in do {
        (st, index, frameSize) \<leftarrow>
          measure_last calls w (seq_range startIndex lastIndex) startIndex 0 (ps_partialFrameSize ps) True;
        (if st \<noteq> STATUS_SUCCESS then Some (st, w)
         else if index - 1 = lastIndex then
           deliver_frame calls startIndex lastIndex frameSize (jb_headTimestamp (w_jb w)) w
         else do {
           (st, e) \<leftarrow> onFrameDroppedFn calls startIndex (index - 1) (jb_headTimestamp (w_jb w)) w;
           (if st \<noteq> STATUS_SUCCESS then Some (st, w\<lparr>w_app := e\<rparr>)
            else drop_world startIndex lastIndex (jb_headTimestamp (w_jb w)) (w\<lparr>w_app := e\<rparr>))
         })
      })"

definition parse_start :: "'e jb_world \<Rightarrow> 'e ParseState" where
  "parse_start w = \<lparr>ps_w = w, ps_headFrameIsContiguous = True, ps_startDropIndex = jb_headSequenceNumber (w_jb w), ps_curFrameSize = 0,
     ps_sizeCalcIsFirst = True, ps_partialFrameSize = 0, ps_containStart = False, ps_lastNonNullIndex = 0, ps_lastHeadFrameSeqNum = 0,
     ps_seenHeadFramePacket = False, ps_firstGapIndex = 0, ps_sawGapSinceLastFrame = False, ps_headFrameEnded = False\<rparr>"

definition earliest_allowed :: "JitterBufferInternal \<Rightarrow> u32" where
  "earliest_allowed jb = (if ucast (jb_tailTimestamp jb) > jb_maxLatency jb
     then ucast (ucast (jb_tailTimestamp jb) - jb_maxLatency jb :: u64) else 0)"

definition jitterBufferInternalParse :: "'e JitterBufferCalls \<Rightarrow> bool \<Rightarrow> 'e jb_world \<Rightarrow> (STATUS \<times> 'e jb_world) option" where
  "jitterBufferInternalParse calls bufferClosed w =
     (if \<not> jb_started (w_jb w) then Some (STATUS_SUCCESS, w)
      else do {
        flow \<leftarrow> parse_loop calls (earliest_allowed (w_jb w)) bufferClosed
          (seq_range (jb_headSequenceNumber (w_jb w)) (jb_tailSequenceNumber (w_jb w))) (parse_start w);
        (case flow of
           Return st ps \<Rightarrow> Some (st, ps_w ps)
         | Continue ps \<Rightarrow> Some (STATUS_SUCCESS, ps_w ps)
         | Break ps \<Rightarrow> if bufferClosed \<and> ps_curFrameSize ps > 0 then parse_last_frame calls ps else Some (STATUS_SUCCESS, ps_w ps))
      })"

section \<open>Adding packets\<close>

text \<open>The positions of the head and the tail after a packet has been seen; whether it is recent enough to be kept.\<close>

definition track_packet :: "RtpPacket \<Rightarrow> JitterBufferInternal \<Rightarrow> bool \<times> JitterBufferInternal" where
  "track_packet p jb0 =
     (let jb1 = (if \<not> jb_started jb0 then jb0\<lparr>jb_started := True, jb_headSequenceNumber := seq_of p,
            jb_tailSequenceNumber := seq_of p, jb_headTimestamp := ts_of p\<rparr> else jb0);
          (entered, jb2) = enterSequenceNumberOverflowCheck jb1 p;
          jb3 = (if \<not> entered then snd (tailSequenceNumberCheck jb2 p) else jb2);
          (entered, jb4) = enterTimestampOverflowCheck jb3 p;
          jb5 = (if \<not> entered then snd (tailTimestampCheck jb4 p) else jb4) in
      withinLatencyTolerance jb5 p)"

text \<open>A packet that has been stored may be the new head.\<close>

definition track_head :: "RtpPacket \<Rightarrow> JitterBufferInternal \<Rightarrow> JitterBufferInternal" where
  "track_head p jb = (if headCheckingAllowed jb p then snd (headSequenceNumberCheck (snd (headTimestampCheck jb p)) p) else jb)"

text \<open>
  The packet at the address \<open>a\<close> is consumed. \<open>mem\<close> tells whether the table has room. The second component of the result
  is the value of \<^verbatim>\<open>*pPacketDiscarded\<close>, which is false before.
\<close>

definition defaultPush :: "'e JitterBufferCalls \<Rightarrow> bool \<Rightarrow> u64 \<Rightarrow> 'e jb_world \<Rightarrow> (STATUS \<times> bool \<times> 'e jb_world) option" where
  "defaultPush calls mem a w =
     (if a = 0 then Some (STATUS_NULL_ARG, False, w)
      else do {
        p \<leftarrow> w_heap w a;
        let (within, jb) = track_packet p (w_jb w); w1 = w\<lparr>w_jb := jb\<rparr>;
            parse = (\<lambda>discarded w. do { (st, w') \<leftarrow> jitterBufferInternalParse calls False w; Some (st, discarded, w') });
            store = (\<lambda>w. let tab = jb_pPkgBufferHashTable (w_jb w) in
              if tab (seq_of p) \<noteq> None then Some (STATUS_HASH_KEY_ALREADY_PRESENT, False, w)
              else if \<not> mem then Some (STATUS_NOT_ENOUGH_MEMORY, False, w)
              else parse False (w\<lparr>w_jb := track_head p (w_jb w\<lparr>jb_pPkgBufferHashTable := tab(seq_of p \<mapsto> a)\<rparr>)\<rparr>)) in
        if within then
          (case jb_pPkgBufferHashTable jb (seq_of p) of
             Some b \<Rightarrow>
               if b = 0 then store w1
               else do {
                 q \<leftarrow> w_heap w b;
                 (if \<not> isSynthetic q \<and> isSynthetic p then do {
                    (st, h, r) \<leftarrow> freeRtpPacket (w_heap w) (Some a);
                    Some (STATUS_SUCCESS, True, w1\<lparr>w_heap := h\<rparr>)
                  }
                  else do {
                    (st, h, r) \<leftarrow> freeRtpPacket (w_heap w) (Some b);
                    store (w1\<lparr>w_jb := jb\<lparr>jb_pPkgBufferHashTable := (jb_pPkgBufferHashTable jb)(seq_of p := None)\<rparr>, w_heap := h\<rparr>)
                  })
               }
           | None \<Rightarrow> store w1)
        else do {
          (st, h, r) \<leftarrow> freeRtpPacket (w_heap w) (Some a);
          parse True (w1\<lparr>w_heap := h\<rparr>)
        }
      })"

section \<open>Destruction\<close>

fun close_loop :: "'e JitterBufferCalls \<Rightarrow> nat \<Rightarrow> u16 \<Rightarrow> 'e jb_world \<Rightarrow> 'e jb_world option" where
  "close_loop calls 0 prevHead w = Some w"
| "close_loop calls (Suc maxIterations) prevHead w = do {
     (st, w') \<leftarrow> jitterBufferInternalParse calls True w;
     let head = jb_headSequenceNumber (w_jb w') in
     if head = prevHead then Some w'
     else if jb_tailSequenceNumber (w_jb w') - head + 1 = 0 then Some w'
     else close_loop calls maxIterations head w'
   }"

definition freeRtpPacketHashEntry :: "u16 \<Rightarrow> u64 \<Rightarrow> heap \<Rightarrow> (STATUS \<times> heap) option" where
  "freeRtpPacketHashEntry key value h =
     (if value = 0 then Some (STATUS_SUCCESS, h)
      else do { (st, h', q) \<leftarrow> freeRtpPacket h (Some value); Some (STATUS_SUCCESS, h') })"

text \<open>The entries that are left are freed in some order; the result is the heap and the application.\<close>

definition free_entries :: "(u16 \<rightharpoonup> u64) \<Rightarrow> heap \<Rightarrow> heap option" where
  "free_entries tab = for_each (\<lambda>k h. case tab k of None \<Rightarrow> Some h | Some a \<Rightarrow> map_option snd (freeRtpPacketHashEntry k a h))
     (map word_of_nat [0..<2 ^ 16])"

definition defaultDestroy :: "'e JitterBufferCalls \<Rightarrow> 'e jb_world \<Rightarrow> (STATUS \<times> heap \<times> 'e) option" where
  "defaultDestroy calls w = do {
     w1 \<leftarrow> (if jb_started (w_jb w) then do {
         w' \<leftarrow> close_loop calls 65536 (jb_headSequenceNumber (w_jb w)) w;
         (st, w'') \<leftarrow> drop_world (jb_headSequenceNumber (w_jb w')) (jb_tailSequenceNumber (w_jb w')) 0 w';
         Some w''
       } else Some w);
     h \<leftarrow> free_entries (jb_pPkgBufferHashTable (w_jb w1)) (w_heap w1);
     Some (STATUS_SUCCESS, h, w_app w1)
   }"

section \<open>The calls of the users\<close>

text \<open>A null buffer is \<open>None\<close>; the functions of a buffer are the ones above.\<close>

definition jitterBufferPush :: "'e JitterBufferCalls \<Rightarrow> bool \<Rightarrow> u64 \<Rightarrow> 'e jb_world option \<Rightarrow> (STATUS \<times> bool \<times> 'e jb_world option) option" where
  "jitterBufferPush calls mem a pw = (case pw of
     None \<Rightarrow> Some (STATUS_NULL_ARG, False, None)
   | Some w \<Rightarrow> map_option (\<lambda>(st, discarded, w'). (st, discarded, Some w')) (defaultPush calls mem a w))"

definition jitterBufferFillFrameData :: "DepayRtpPayloadFunc \<Rightarrow> JitterBufferInternal option \<Rightarrow> heap \<Rightarrow> bytes option \<Rightarrow> u32 \<Rightarrow> u16 \<Rightarrow> u16 \<Rightarrow>
    (STATUS \<times> bytes option \<times> u32) option" where
  "jitterBufferFillFrameData depay pjb h pFrame frameSize startIndex endIndex = (case pjb of
     None \<Rightarrow> Some (STATUS_NULL_ARG, pFrame, 0)
   | Some jb \<Rightarrow> defaultFillFrameData depay jb h pFrame frameSize startIndex endIndex)"

definition jitterBufferFillPartialFrameData :: "DepayRtpPayloadFunc \<Rightarrow> JitterBufferInternal option \<Rightarrow> heap \<Rightarrow> bytes option \<Rightarrow> u32 \<Rightarrow> u16 \<Rightarrow> u16 \<Rightarrow>
    (STATUS \<times> bytes option \<times> u32) option" where
  "jitterBufferFillPartialFrameData depay pjb h pFrame frameSize startIndex endIndex = (case pjb of
     None \<Rightarrow> Some (STATUS_NULL_ARG, pFrame, 0)
   | Some jb \<Rightarrow> defaultFillPartialFrameData depay jb h pFrame frameSize startIndex endIndex)"

definition jitterBufferGetPacket :: "JitterBufferInternal option \<Rightarrow> u16 \<Rightarrow> STATUS \<times> u64" where
  "jitterBufferGetPacket pjb seqNum = (case pjb of None \<Rightarrow> (STATUS_NULL_ARG, 0) | Some jb \<Rightarrow> defaultGetPacket jb seqNum)"

definition jitterBufferDropBufferData :: "u16 \<Rightarrow> u16 \<Rightarrow> u32 \<Rightarrow> 'e jb_world option \<Rightarrow> (STATUS \<times> 'e jb_world option) option" where
  "jitterBufferDropBufferData startIndex endIndex nextTimestamp pw = (case pw of
     None \<Rightarrow> Some (STATUS_NULL_ARG, None)
   | Some w \<Rightarrow> map_option (\<lambda>(st, w'). (st, Some w')) (drop_world startIndex endIndex nextTimestamp w))"

definition freeJitterBuffer :: "'e JitterBufferCalls \<Rightarrow> 'e jb_world option \<Rightarrow> (STATUS \<times> (heap \<times> 'e) option) option" where
  "freeJitterBuffer calls pw = (case pw of
     None \<Rightarrow> Some (STATUS_SUCCESS, None)
   | Some w \<Rightarrow> map_option (\<lambda>(st, h, e). (st, Some (h, e))) (defaultDestroy calls w))"

section \<open>Ownership of the packets\<close>

text \<open>
  The table holds live packets under their own sequence numbers; \<open>U\<close> is the part of the heap that the
  buffer does not own.
\<close>

definition owns :: "heap \<Rightarrow> (u16 \<rightharpoonup> u64) \<Rightarrow> heap \<Rightarrow> bool" where
  "owns U tab h \<longleftrightarrow> (\<forall>k a. tab k = Some a \<longrightarrow> a \<noteq> 0 \<and> (\<exists>p. h a = Some p \<and> seq_of p = k)) \<and> h |` (- ran tab) = U"

definition jb_owns :: "heap \<Rightarrow> 'e jb_world \<Rightarrow> bool" where
  "jb_owns U w = owns U (jb_pPkgBufferHashTable (w_jb w)) (w_heap w)"

text \<open>The callbacks return, whatever they are called with.\<close>

definition calls_return :: "'e JitterBufferCalls \<Rightarrow> bool" where
  "calls_return calls \<longleftrightarrow>
     (\<forall>i j n w. onFrameReadyFn calls i j n w \<noteq> None) \<and> (\<forall>i j n w. onFrameDroppedFn calls i j n w \<noteq> None) \<and>
     (\<forall>pl len sz first. depayPayloadFn calls pl len None sz first \<noteq> None)"

lemma owns_lookup: "owns U tab h \<Longrightarrow> tab k = Some a \<Longrightarrow> a \<noteq> 0 \<and> (\<exists>p. h a = Some p \<and> seq_of p = k)"
  by (simp add: owns_def)

lemma owns_remove:
  assumes "owns U tab h" and "tab k = Some a"
  shows "owns U (tab(k := None)) (h(a := None))"
proof -
  have inj: "l = k" if "tab l = Some a" for l
    using owns_lookup[OF assms(1) that] owns_lookup[OF assms] by auto
  have ran: "ran (tab(k := None)) = ran tab - {a}"
  proof (intro equalityI subsetI)
    fix x assume "x \<in> ran (tab(k := None))"
    then obtain l where "l \<noteq> k" "tab l = Some x" by (auto simp: ran_def split: if_splits)
    then show "x \<in> ran tab - {a}" using inj by (auto simp: ran_def)
  next
    fix x assume "x \<in> ran tab - {a}"
    then obtain l where "tab l = Some x" "x \<noteq> a" by (auto simp: ran_def)
    then have "(tab(k := None)) l = Some x" using assms(2) by auto
    then show "x \<in> ran (tab(k := None))" unfolding ran_def by blast
  qed
  have U: "h(a := None) |` (- (ran tab - {a})) = U"
  proof -
    have "h(a := None) |` (- (ran tab - {a})) = h |` (- ran tab)"
      using assms(2) by (auto simp: restrict_map_def fun_eq_iff ran_def)
    then show ?thesis using assms(1) by (simp only: owns_def)
  qed
  have "b \<noteq> a \<and> b \<noteq> 0 \<and> (\<exists>p. h b = Some p \<and> seq_of p = l)" if "tab l = Some b" "l \<noteq> k" for l b
    using inj that owns_lookup[OF assms(1) that(1)] by auto
  then have "\<forall>l b. (tab(k := None)) l = Some b \<longrightarrow> b \<noteq> 0 \<and> (\<exists>p. (h(a := None)) b = Some p \<and> seq_of p = l)" by simp
  then show ?thesis unfolding owns_def ran using U by blast
qed

lemma owns_store:
  assumes "owns U tab h" and "tab (seq_of p) = None" and "h a = Some p" and "a \<notin> ran tab" and "a \<noteq> 0"
  shows "owns (U(a := None)) (tab(seq_of p \<mapsto> a)) h"
proof -
  have "ran (tab(seq_of p \<mapsto> a)) = insert a (ran tab)" using assms(2) by (simp add: ran_map_upd)
  moreover have "h |` (- insert a (ran tab)) = (h |` (- ran tab))(a := None)" by (auto simp: restrict_map_def fun_eq_iff)
  ultimately show ?thesis using assms by (auto simp: owns_def)
qed

lemma owns_free_other:
  assumes "owns U tab h" and "a \<notin> ran tab"
  shows "owns (U(a := None)) tab (h(a := None))"
proof -
  have "h(a := None) |` (- ran tab) = (h |` (- ran tab))(a := None)" by (auto simp: restrict_map_def fun_eq_iff)
  moreover have "tab k \<noteq> Some a" for k using assms(2) by (auto simp: ran_def)
  ultimately show ?thesis using assms by (auto simp: owns_def)
qed

lemma free_packet_live: "h a = Some p \<Longrightarrow> a \<noteq> 0 \<Longrightarrow> freeRtpPacket h (Some a) = Some (STATUS_SUCCESS, h(a := None), Some 0)"
  by (simp add: freeRtpPacket_def)

text \<open>Tracking does not touch the table.\<close>

lemma table_unchanged [simp]:
  "jb_pPkgBufferHashTable (snd (headSequenceNumberCheck jb p)) = jb_pPkgBufferHashTable jb"
  "jb_pPkgBufferHashTable (snd (tailSequenceNumberCheck jb p)) = jb_pPkgBufferHashTable jb"
  "jb_pPkgBufferHashTable (snd (enterSequenceNumberOverflowCheck jb p)) = jb_pPkgBufferHashTable jb"
  "jb_pPkgBufferHashTable (snd (exitSequenceNumberOverflowCheck jb)) = jb_pPkgBufferHashTable jb"
  "jb_pPkgBufferHashTable (snd (exitTimestampOverflowCheck jb)) = jb_pPkgBufferHashTable jb"
  by (simp_all add: headSequenceNumberCheck_def tailSequenceNumberCheck_def enterSequenceNumberOverflowCheck_def
      exitSequenceNumberOverflowCheck_def exitTimestampOverflowCheck_def Let_def)

lemma table_unchanged_timestamps [simp]:
  "jb_pPkgBufferHashTable (snd (enterTimestampOverflowCheck jb p)) = jb_pPkgBufferHashTable jb"
  "jb_pPkgBufferHashTable (snd (headTimestampCheck jb p)) = jb_pPkgBufferHashTable jb"
  "jb_pPkgBufferHashTable (snd (tailTimestampCheck jb p)) = jb_pPkgBufferHashTable jb"
proof -
  show "jb_pPkgBufferHashTable (snd (enterTimestampOverflowCheck jb p)) = jb_pPkgBufferHashTable jb"
    using table_unchanged(1,2)[of jb p]
    by (cases "tailSequenceNumberCheck jb p"; cases "headSequenceNumberCheck jb p") (auto simp: enterTimestampOverflowCheck_def Let_def)
  show "jb_pPkgBufferHashTable (snd (headTimestampCheck jb p)) = jb_pPkgBufferHashTable jb"
    using table_unchanged(1)[of jb p] by (cases "headSequenceNumberCheck jb p") (auto simp: headTimestampCheck_def)
  show "jb_pPkgBufferHashTable (snd (tailTimestampCheck jb p)) = jb_pPkgBufferHashTable jb"
    using table_unchanged(2)[of jb p] by (cases "tailSequenceNumberCheck jb p") (auto simp: tailTimestampCheck_def)
qed

lemma table_unchanged_within [simp]: "jb_pPkgBufferHashTable (snd (withinLatencyTolerance jb p)) = jb_pPkgBufferHashTable jb"
  using table_unchanged_timestamps(3)[of jb p]
  by (cases "tailTimestampCheck jb p") (auto simp: withinLatencyTolerance_def Let_def)

lemma table_unchanged_track [simp]:
  "jb_pPkgBufferHashTable (snd (track_packet p jb)) = jb_pPkgBufferHashTable jb"
  "jb_pPkgBufferHashTable (track_head p jb) = jb_pPkgBufferHashTable jb"
proof -
  show "jb_pPkgBufferHashTable (track_head p jb) = jb_pPkgBufferHashTable jb" by (simp add: track_head_def)
  define jb1 where "jb1 = (if \<not> jb_started jb then jb\<lparr>jb_started := True, jb_headSequenceNumber := seq_of p,
    jb_tailSequenceNumber := seq_of p, jb_headTimestamp := ts_of p\<rparr> else jb)"
  obtain e2 jb2 where 2: "enterSequenceNumberOverflowCheck jb1 p = (e2, jb2)" by fastforce
  define jb3 where "jb3 = (if \<not> e2 then snd (tailSequenceNumberCheck jb2 p) else jb2)"
  obtain e4 jb4 where 4: "enterTimestampOverflowCheck jb3 p = (e4, jb4)" by fastforce
  define jb5 where "jb5 = (if \<not> e4 then snd (tailTimestampCheck jb4 p) else jb4)"
  have "track_packet p jb = withinLatencyTolerance jb5 p"
    unfolding track_packet_def Let_def jb1_def[symmetric] 2 case_prod_conv jb3_def[symmetric] 4 jb5_def[symmetric] by simp
  moreover have "jb_pPkgBufferHashTable jb2 = jb_pPkgBufferHashTable jb"
  proof -
    have "jb_pPkgBufferHashTable jb1 = jb_pPkgBufferHashTable jb" by (simp add: jb1_def)
    then show ?thesis using table_unchanged(3)[of jb1 p] by (simp add: 2)
  qed
  moreover have "jb_pPkgBufferHashTable jb4 = jb_pPkgBufferHashTable jb3"
    using table_unchanged_timestamps(1)[of jb3 p] 4 by simp
  ultimately show "jb_pPkgBufferHashTable (snd (track_packet p jb)) = jb_pPkgBufferHashTable jb"
    by (simp add: jb3_def jb5_def)
qed

lemma drop_round_owns:
  assumes "owns U (jb_pPkgBufferHashTable jb) h"
  shows "\<exists>jb' h'. drop_round i (jb, h) = Some (jb', h') \<and> owns U (jb_pPkgBufferHashTable jb') h'"
proof (cases "jb_pPkgBufferHashTable jb i")
  case None
  then show ?thesis using assms by (simp add: drop_round_def)
next
  case (Some a)
  obtain p where "a \<noteq> 0" "h a = Some p" using owns_lookup[OF assms Some] by auto
  then show ?thesis using Some owns_remove[OF assms Some] by (simp add: drop_round_def free_packet_live)
qed

lemma drop_owns:
  assumes "jb_owns U w"
  shows "\<exists>w'. drop_world i j t w = Some (STATUS_SUCCESS, w') \<and> jb_owns U w'"
proof -
  have "\<exists>s. for_each drop_round (seq_range i j) (w_jb w, w_heap w) = Some s \<and> owns U (jb_pPkgBufferHashTable (fst s)) (snd s)"
  proof (rule for_each_inv)
    fix k and s :: "JitterBufferInternal \<times> heap"
    assume "owns U (jb_pPkgBufferHashTable (fst s)) (snd s)"
    then show "\<exists>s'. drop_round k s = Some s' \<and> owns U (jb_pPkgBufferHashTable (fst s')) (snd s')"
      using drop_round_owns[of U "fst s" "snd s" k] by fastforce
  qed (use assms in \<open>simp add: jb_owns_def\<close>)
  then obtain jb h where "for_each drop_round (seq_range i j) (w_jb w, w_heap w) = Some (jb, h)" "owns U (jb_pPkgBufferHashTable jb) h"
    by fastforce
  then show ?thesis by (simp add: drop_world_def defaultDropBufferData_def jb_owns_def Let_def)
qed

lemma jb_owns_scalars:
  "jb_pPkgBufferHashTable jb = jb_pPkgBufferHashTable (w_jb w) \<Longrightarrow> jb_owns U (w\<lparr>w_jb := jb\<rparr>) = jb_owns U w"
  "jb_owns U (w\<lparr>w_app := e\<rparr>) = jb_owns U w"
  by (simp_all add: jb_owns_def)

lemma deliver_owns:
  assumes "jb_owns U w" and "calls_return calls"
  shows "\<exists>st w'. deliver_frame calls i j n t w = Some (st, w') \<and> jb_owns U w'"
proof -
  obtain st e where r: "onFrameReadyFn calls i j n w = Some (st, e)" using assms(2) by (fastforce simp: calls_return_def)
  then show ?thesis using drop_owns[of U "w\<lparr>w_app := e\<rparr>" i j t] assms(1)
    by (cases "st = STATUS_SUCCESS") (auto simp: deliver_frame_def jb_owns_scalars)
qed

lemma discard_owns:
  assumes "jb_owns U w" and "calls_return calls"
  shows "\<exists>st w'. discard_frame calls i j t w = Some (st, w') \<and> jb_owns U w'"
proof -
  obtain st e where r: "onFrameDroppedFn calls i j (jb_headTimestamp (w_jb w)) w = Some (st, e)"
    using assms(2) by (fastforce simp: calls_return_def)
  then show ?thesis using drop_owns[of U "w\<lparr>w_app := e\<rparr>" i j t] assms(1) by (auto simp: discard_frame_def jb_owns_scalars)
qed

fun flow_state :: "'s flow \<Rightarrow> 's" where
  "flow_state (Continue s) = s"
| "flow_state (Break s) = s"
| "flow_state (Return st s) = s"

definition flow_owns :: "heap \<Rightarrow> 'e ParseState flow option \<Rightarrow> bool" where
  "flow_owns U r \<longleftrightarrow> (\<exists>f. r = Some f \<and> jb_owns U (ps_w (flow_state f)))"

lemma parse_gap_owns: "jb_owns U (ps_w ps) \<Longrightarrow> flow_owns U (Some (parse_gap earliest closed i ps))"
  by (auto simp: flow_owns_def parse_gap_def Let_def)

lemma frame_fields [simp]:
  "ps_w (start_frame i p ps) = ps_w ps" "ps_w (reset_size ps) = ps_w ps"
  "jb_owns U (ps_w (frame_done ps)) = jb_owns U (ps_w ps)"
  by (simp_all add: start_frame_def reset_size_def frame_done_def jb_owns_def)

lemma parse_new_timestamp_owns:
  assumes "jb_owns U (ps_w ps)" and "calls_return calls"
  shows "flow_owns U (parse_new_timestamp calls earliest closed i p ps)"
proof -
  define ps1 where "ps1 = (if ps_sawGapSinceLastFrame ps \<and> ps_seenHeadFramePacket ps \<and>
      (ps_firstGapIndex ps \<le> ps_lastHeadFrameSeqNum ps \<or> \<not> ps_headFrameEnded ps) then ps\<lparr>ps_headFrameIsContiguous := False\<rparr> else ps)"
  have o: "jb_owns U (ps_w ps1)" using assms(1) by (simp add: ps1_def)
  obtain st1 w1 where 1: "deliver_frame calls (ps_startDropIndex ps1) (i - 1) (ps_curFrameSize ps1) (ts_of p) (ps_w ps1) = Some (st1, w1)" "jb_owns U w1"
    using deliver_owns[OF o assms(2)] by metis
  obtain st2 w2 where 2: "discard_frame calls (ps_startDropIndex ps1) (i - 1) (ts_of p) (ps_w ps1) = Some (st2, w2)" "jb_owns U w2"
    using discard_owns[OF o assms(2)] by metis
  have "jb_owns U (ps_w ps1\<lparr>w_jb := (ps_jb ps1)\<lparr>jb_headTimestamp := ts_of p\<rparr>\<rparr>)" using o by (simp add: jb_owns_def)
  then show ?thesis using o 1 2 unfolding parse_new_timestamp_def Let_def ps1_def[symmetric] flow_owns_def by simp
qed

lemma parse_payload_owns:
  assumes "jb_owns U (ps_w ps)" and "calls_return calls"
  shows "flow_owns U (parse_payload calls i p ps)"
proof -
  obtain st out n start where d: "depayPayloadFn calls (payload p) (payloadLength p) None (ps_partialFrameSize ps) (ps_sizeCalcIsFirst ps) =
      Some (st, out, n, start)"
    using assms(2) by (fastforce simp: calls_return_def)
  define ps0 where "ps0 = ps\<lparr>ps_partialFrameSize := n\<rparr>"
  define ps1 where "ps1 = ps0\<lparr>ps_curFrameSize := ps_curFrameSize ps0 + n, ps_sizeCalcIsFirst := False\<rparr>"
  define ps2 where "ps2 = (if start \<and> ts_of p = jb_headTimestamp (ps_jb ps1) then ps1\<lparr>ps_containStart := True\<rparr> else ps1)"
  have o: "jb_owns U (ps_w ps0)" "jb_owns U (ps_w ps2)" using assms(1) by (simp_all add: ps0_def ps1_def ps2_def)
  obtain st1 w1 where "deliver_frame calls (ps_startDropIndex ps2) i (ps_curFrameSize ps2) (ts_of p) (ps_w ps2) = Some (st1, w1)" "jb_owns U w1"
    using deliver_owns[OF o(2) assms(2)] by metis
  then show ?thesis using o
    unfolding parse_payload_def d bind.bind_lunit case_prod_conv Let_def ps0_def[symmetric] ps1_def[symmetric] ps2_def[symmetric]
    by (auto simp: flow_owns_def)
qed

lemma parse_round_owns:
  assumes "jb_owns U (ps_w ps)" and "calls_return calls"
  shows "flow_owns U (parse_round calls earliest closed i ps)"
proof (cases "jb_pPkgBufferHashTable (ps_jb ps) i")
  case None
  then show ?thesis using parse_gap_owns[OF assms(1)] by (simp add: parse_round_def)
next
  case (Some a)
  define ps1 where "ps1 = ps\<lparr>ps_lastNonNullIndex := i\<rparr>"
  have o: "jb_owns U (ps_w ps1)" using assms(1) by (simp add: ps1_def)
  obtain p where p: "a \<noteq> 0" "w_heap (ps_w ps1) a = Some p" using owns_lookup[OF assms(1)[unfolded jb_owns_def] Some] by (auto simp: ps1_def)
  show ?thesis
  proof (cases "ts_of p = jb_headTimestamp (ps_jb ps1)")
    case True
    then show ?thesis using Some p o by (simp add: parse_round_def Let_def ps1_def[symmetric] parse_payload_owns assms(2))
  next
    case False
    obtain f where f: "parse_new_timestamp calls earliest closed i p ps1 = Some f" "jb_owns U (ps_w (flow_state f))"
      using parse_new_timestamp_owns[OF o assms(2), of earliest closed i p] by (auto simp: flow_owns_def)
    then show ?thesis using Some p False parse_payload_owns[OF _ assms(2)]
      by (cases f) (simp_all add: parse_round_def Let_def ps1_def[symmetric] flow_owns_def)
  qed
qed

lemma parse_loop_owns:
  assumes "jb_owns U (ps_w ps)" and "calls_return calls"
  shows "flow_owns U (parse_loop calls earliest closed is ps)"
  using assms(1)
proof (induction "is" arbitrary: ps)
  case Nil
  then show ?case by (simp add: flow_owns_def)
next
  case (Cons i "is")
  obtain f where "parse_round calls earliest closed i ps = Some f" "jb_owns U (ps_w (flow_state f))"
    using parse_round_owns[OF Cons(2) assms(2), of earliest closed i] by (auto simp: flow_owns_def)
  then show ?case using Cons(1) by (cases f) (simp_all add: flow_owns_def)
qed

lemma measure_last_returns:
  assumes "jb_owns U w" and "calls_return calls"
  shows "\<exists>st i n. measure_last calls w is k m part first = Some (st, i, n)"
proof (induction "is" arbitrary: k m part first)
  case (Cons i "is")
  show ?case
  proof (cases "jb_pPkgBufferHashTable (w_jb w) i")
    case (Some a)
    obtain p where p: "w_heap w a = Some p" using owns_lookup[OF assms(1)[unfolded jb_owns_def] Some] by auto
    obtain r where "depayPayloadFn calls (payload p) (payloadLength p) None part first = Some r"
      using assms(2) by (fastforce simp: calls_return_def)
    then show ?thesis using Some p Cons by (cases r) simp
  qed simp
qed simp

lemma parse_last_frame_owns:
  assumes "jb_owns U (ps_w ps)" and "calls_return calls"
  shows "\<exists>st w'. parse_last_frame calls ps = Some (st, w') \<and> jb_owns U w'"
proof -
  obtain st i n where m: "measure_last calls (ps_w ps) (seq_range (ps_startDropIndex ps) (ps_lastNonNullIndex ps)) (ps_startDropIndex ps) 0
      (ps_partialFrameSize ps) True = Some (st, i, n)" using measure_last_returns[OF assms] by metis
  obtain st2 e where d: "onFrameDroppedFn calls (ps_startDropIndex ps) (i - 1) (jb_headTimestamp (ps_jb ps)) (ps_w ps) = Some (st2, e)"
    using assms(2) by (fastforce simp: calls_return_def)
  have "jb_owns U (ps_w ps\<lparr>w_app := e\<rparr>)" using assms(1) by (simp add: jb_owns_scalars)
  from drop_owns[OF this] deliver_owns[OF assms] assms(1) m d this show ?thesis
    by (simp add: parse_last_frame_def Let_def) metis
qed

lemma parse_owns:
  assumes "jb_owns U w" and "calls_return calls"
  shows "\<exists>st w'. jitterBufferInternalParse calls closed w = Some (st, w') \<and> jb_owns U w'"
proof -
  obtain f where f: "parse_loop calls (earliest_allowed (w_jb w)) closed
      (seq_range (jb_headSequenceNumber (w_jb w)) (jb_tailSequenceNumber (w_jb w))) (parse_start w) = Some f" "jb_owns U (ps_w (flow_state f))"
    using parse_loop_owns[of U "parse_start w" calls "earliest_allowed (w_jb w)" closed
      "seq_range (jb_headSequenceNumber (w_jb w)) (jb_tailSequenceNumber (w_jb w))"] assms by (auto simp: flow_owns_def parse_start_def)
  then show ?thesis using assms parse_last_frame_owns[OF _ assms(2)]
    by (cases f) (auto simp: jitterBufferInternalParse_def)
qed

text \<open>A packet that is pushed belongs to the buffer afterwards, or has been freed.\<close>

lemma push_owns:
  assumes "jb_owns U w" and "calls_return calls" and p: "w_heap w a = Some p" "a \<noteq> 0" "a \<notin> ran (jb_pPkgBufferHashTable (w_jb w))"
    and mem: mem
  shows "\<exists>st d w'. defaultPush calls mem a w = Some (st, d, w') \<and> jb_owns (U(a := None)) w'"
proof -
  let ?tab = "jb_pPkgBufferHashTable (w_jb w)"
  obtain within jb where t: "track_packet p (w_jb w) = (within, jb)" by fastforce
  then have tab: "jb_pPkgBufferHashTable jb = ?tab" using table_unchanged_track(1)[of p "w_jb w"] by simp
  have o: "owns U ?tab (w_heap w)" using assms(1) by (simp add: jb_owns_def)
  have parse: "\<exists>st d w'. (jitterBufferInternalParse calls False v \<bind> (\<lambda>(st, w'). Some (st, d0, w'))) = Some (st, d, w') \<and> jb_owns V w'"
    if "jb_owns V v" for V v d0
    using parse_owns[OF that assms(2), of False] by auto
  have store: "\<exists>st d w'. (let tab = jb_pPkgBufferHashTable (w_jb v) in
      if tab (seq_of p) \<noteq> None then Some (STATUS_HASH_KEY_ALREADY_PRESENT, False, v)
      else if \<not> mem then Some (STATUS_NOT_ENOUGH_MEMORY, False, v)
      else jitterBufferInternalParse calls False (v\<lparr>w_jb := track_head p (w_jb v\<lparr>jb_pPkgBufferHashTable := tab(seq_of p \<mapsto> a)\<rparr>)\<rparr>) \<bind>
        (\<lambda>(st, w'). Some (st, False, w'))) = Some (st, d, w') \<and> jb_owns (U(a := None)) w'"
    if v: "jb_owns U v" "jb_pPkgBufferHashTable (w_jb v) (seq_of p) = None" "w_heap v a = Some p" "a \<notin> ran (jb_pPkgBufferHashTable (w_jb v))" for v
  proof -
    have "jb_owns (U(a := None)) (v\<lparr>w_jb := track_head p (w_jb v\<lparr>jb_pPkgBufferHashTable := (jb_pPkgBufferHashTable (w_jb v))(seq_of p \<mapsto> a)\<rparr>)\<rparr>)"
      using owns_store[OF v(1)[unfolded jb_owns_def] v(2,3,4) p(2)] by (simp add: jb_owns_def)
    from parse[OF this, of False] show ?thesis using v(2) mem by (simp add: Let_def)
  qed
  have w1: "jb_owns U (w\<lparr>w_jb := jb\<rparr>)" using assms(1) tab by (simp add: jb_owns_def)
  consider (outside) "\<not> within" | (fresh) within "?tab (seq_of p) = None" | (replace) b where within "?tab (seq_of p) = Some b" by blast
  then show ?thesis
  proof cases
    case outside
    have "jb_owns (U(a := None)) (w\<lparr>w_jb := jb, w_heap := (w_heap w)(a := None)\<rparr>)"
      using owns_free_other[OF o p(3)] tab by (simp add: jb_owns_def)
    from parse[OF this, of True] show ?thesis
      using outside p t by (simp add: defaultPush_def free_packet_live Let_def)
  next
    case fresh
    then show ?thesis using store[OF w1] p t tab mem by (simp add: defaultPush_def Let_def)
  next
    case replace
    obtain q where q: "b \<noteq> 0" "w_heap w b = Some q" using owns_lookup[OF o replace(2)] by auto
    have ab: "a \<noteq> b" using p(3) replace(2) by (auto simp: ran_def)
    show ?thesis
    proof (cases "\<not> isSynthetic q \<and> isSynthetic p")
      case True
      have "jb_owns (U(a := None)) (w\<lparr>w_jb := jb, w_heap := (w_heap w)(a := None)\<rparr>)"
        using owns_free_other[OF o p(3)] tab by (simp add: jb_owns_def)
      then show ?thesis using True replace p q t tab by (simp add: defaultPush_def free_packet_live) blast
    next
      case False
      let ?v = "w\<lparr>w_jb := jb\<lparr>jb_pPkgBufferHashTable := ?tab(seq_of p := None)\<rparr>, w_heap := (w_heap w)(b := None)\<rparr>"
      have "jb_owns U ?v" using owns_remove[OF o replace(2)] by (simp add: jb_owns_def)
      moreover have "a \<notin> ran (?tab(seq_of p := None))" using p(3) by (auto simp: ran_def split: if_splits)
      ultimately show ?thesis using store[of ?v] False replace p q t tab ab mem
        by (simp add: defaultPush_def free_packet_live Let_def) blast
    qed
  qed
qed

lemma close_loop_owns:
  assumes "jb_owns U w" and "calls_return calls"
  shows "\<exists>w'. close_loop calls n k w = Some w' \<and> jb_owns U w'"
  using assms(1)
proof (induction n arbitrary: k w)
  case (Suc n)
  obtain st w' where "jitterBufferInternalParse calls True w = Some (st, w')" "jb_owns U w'" using parse_owns[OF Suc(2) assms(2)] by metis
  then show ?case using Suc(1)[of w'] by (simp add: Let_def)
qed simp

lemma free_entries_owns:
  assumes "owns U (tab |` set ks) h" and "distinct ks"
  shows "for_each (\<lambda>k h. case tab k of None \<Rightarrow> Some h | Some a \<Rightarrow> map_option snd (freeRtpPacketHashEntry k a h)) ks h = Some U"
  using assms
proof (induction ks arbitrary: h)
  case Nil
  then show ?case by (simp add: owns_def restrict_map_def)
next
  case (Cons k ks)
  have cut: "(tab |` set (k # ks))(k := None) = tab |` set ks" using Cons(3) by (auto simp: restrict_map_def fun_eq_iff)
  show ?case
  proof (cases "tab k")
    case None
    then have "tab |` set (k # ks) = tab |` set ks" by (auto simp: restrict_map_def fun_eq_iff)
    then show ?thesis using Cons None by simp
  next
    case (Some a)
    then have e: "(tab |` set (k # ks)) k = Some a" by simp
    obtain q where "a \<noteq> 0" "h a = Some q" using owns_lookup[OF Cons(2) e] by auto
    moreover have "owns U (tab |` set ks) (h(a := None))" using owns_remove[OF Cons(2) e] by (simp only: cut)
    ultimately show ?thesis using Cons(1,3) Some by (simp add: freeRtpPacketHashEntry_def free_packet_live)
  qed
qed

lemma all_seq_nums: "set (map word_of_nat [0..<2 ^ 16]) = (UNIV :: u16 set)" "distinct (map word_of_nat [0..<2 ^ 16] :: u16 list)"
proof -
  have "w \<in> word_of_nat ` {0..<2 ^ 16}" for w :: u16
    using unsigned_less[of w, where ?'a = nat] by (intro image_eqI[of _ _ "unat w"]) simp_all
  then show "set (map word_of_nat [0..<2 ^ 16]) = (UNIV :: u16 set)" by (auto simp: atLeast_upt)
  have "inj_on (word_of_nat :: nat \<Rightarrow> u16) {0..<2 ^ 16}"
    by (rule inj_on_inverseI[of _ unat]) (simp add: unat_of_nat_16)
  then show "distinct (map word_of_nat [0..<2 ^ 16] :: u16 list)" by (simp add: distinct_map atLeast_upt)
qed

lemma destroy_owns:
  assumes "jb_owns U w" and "calls_return calls"
  shows "\<exists>e. defaultDestroy calls w = Some (STATUS_SUCCESS, U, e)"
proof -
  obtain w' where w': "close_loop calls 65536 (jb_headSequenceNumber (w_jb w)) w = Some w'" "jb_owns U w'" using close_loop_owns[OF assms] by metis
  obtain w'' where w'': "drop_world (jb_headSequenceNumber (w_jb w')) (jb_tailSequenceNumber (w_jb w')) 0 w' = Some (STATUS_SUCCESS, w'')" "jb_owns U w''"
    using drop_owns[OF w'(2)] by metis
  have F: "free_entries (jb_pPkgBufferHashTable (w_jb v)) (w_heap v) = Some U" if "jb_owns U v" for v
  proof -
    have "jb_pPkgBufferHashTable (w_jb v) |` UNIV = jb_pPkgBufferHashTable (w_jb v)" by (simp add: restrict_map_def)
    then show ?thesis unfolding free_entries_def
      by (intro free_entries_owns) (use that in \<open>simp_all only: all_seq_nums jb_owns_def\<close>)
  qed
  show ?thesis using w' w'' F[OF w''(2)] F[OF assms(1)] by (simp add: defaultDestroy_def)
qed

section \<open>Properties\<close>

text \<open>The packets at some addresses are pushed one after the other, whatever the calls return.\<close>

fun push_all :: "'e JitterBufferCalls \<Rightarrow> u64 list \<Rightarrow> 'e jb_world \<Rightarrow> 'e jb_world option" where
  "push_all calls [] w = Some w"
| "push_all calls (a # as) w = do {
     (st, discarded, w') \<leftarrow> jitterBufferPush calls True a (Some w);
     w'' \<leftarrow> w';
     push_all calls as w''
   }"

lemma push_all_owns:
  assumes "jb_owns U w" "calls_return calls" "distinct as" "0 \<notin> set as" "set as \<subseteq> dom U"
  shows "\<exists>w'. push_all calls as w = Some w' \<and> jb_owns (U |` (- set as)) w'"
  using assms
proof (induction as arbitrary: U w)
  case Nil
  then show ?case by (simp add: restrict_map_def)
next
  case (Cons a as)
  have U: "U = w_heap w |` (- ran (jb_pPkgBufferHashTable (w_jb w)))" using Cons(2) by (simp add: jb_owns_def owns_def)
  obtain p where "U a = Some p" using Cons(6) by auto
  then have p: "w_heap w a = Some p" "a \<notin> ran (jb_pPkgBufferHashTable (w_jb w))" unfolding U by (auto simp: restrict_map_def split: if_splits)
  have "a \<noteq> 0" using Cons(5) by auto
  from push_owns[OF Cons(2,3) p(1) this p(2), of True]
  obtain st d w' where w': "defaultPush calls True a w = Some (st, d, w')" "jb_owns (U(a := None)) w'" by auto
  have "\<exists>w''. push_all calls as w' = Some w'' \<and> jb_owns (U(a := None) |` (- set as)) w''"
    by (rule Cons(1)[OF w'(2) Cons(3)]) (use Cons(4-6) in \<open>auto simp: dom_def\<close>)
  moreover have "U(a := None) |` (- set as) = U |` (- set (a # as))" by (auto simp: restrict_map_def fun_eq_iff)
  ultimately show ?case using w'(1) by (simp add: jitterBufferPush_def)
qed

lemma create_jb:
  "createJitterBuffer mem tableMem fs lat clock single pp = Some (STATUS_SUCCESS, Some jb) \<Longrightarrow>
    jb_pPkgBufferHashTable jb = Map.empty \<and> \<not> jb_started jb"
  by (auto simp: createJitterBuffer_def Let_def split: if_splits)


text \<open>Callbacks that always succeed and a depayloader that takes each payload for a frame; two packets out of order.\<close>

definition plain_calls :: "unit JitterBufferCalls" where
  "plain_calls = \<lparr>onFrameReadyFn = (\<lambda>i j n w. Some (STATUS_SUCCESS, w_app w)), onFrameDroppedFn = (\<lambda>i j ts w. Some (STATUS_SUCCESS, w_app w)),
     depayPayloadFn = (\<lambda>pl len out sz first. Some (STATUS_SUCCESS, out, len, True))\<rparr>"

lemma plain_calls_return: "calls_return plain_calls"
  by (simp add: calls_return_def plain_calls_def)

definition two_packets :: heap where
  "two_packets = [1 \<mapsto> packet0, 2 \<mapsto> packet0\<lparr>header := header packet0\<lparr>sequenceNumber := 6, timestamp := 87000\<rparr>\<rparr>]"

lemma created_jb:
  obtains jb where "createJitterBuffer True True True 0 90000 False True = Some (STATUS_SUCCESS, Some jb)"
  by (simp add: createJitterBuffer_def)


end
