(* ===== verification/JitterDelivery.thy ===== *)
theory JitterDelivery
  imports JitterBuffer
begin

text \<open>
  What the jitter buffer of \<open>JitterBuffer\<close> delivers. For a codec whose frames are single packets, a stream without losses is delivered
  packet by packet as long as its sequence numbers do not wrap around; after that the buffer is stuck.
\<close>



section \<open>A stalled buffer\<close>

definition stalled :: "JitterBufferInternal \<Rightarrow> bool" where
  "stalled jb \<longleftrightarrow> jb_started jb \<and> jb_sequenceNumberOverflowState jb \<and> jb_headSequenceNumber jb = 1 \<and> jb_tailSequenceNumber jb = 0"

lemma word_lt_1: "(x :: u16) < 1 \<longleftrightarrow> x = 0"
  by (simp add: word_less_nat_alt unat_eq_0[symmetric])

lemma stalled_checks:
  assumes "stalled jb"
  shows "stalled (snd (headSequenceNumberCheck jb p))" "stalled (snd (tailSequenceNumberCheck jb p))"
    "fst (enterSequenceNumberOverflowCheck jb p) = False" "snd (enterSequenceNumberOverflowCheck jb p) = jb"
    "jb_headSequenceNumber (snd (headSequenceNumberCheck jb p)) = 1"
proof -
  have no: "\<not> (0 < seq_of p \<and> seq_of p < 1)" by (auto simp: word_lt_1)
  show "stalled (snd (headSequenceNumberCheck jb p))" "stalled (snd (tailSequenceNumberCheck jb p))"
    "jb_headSequenceNumber (snd (headSequenceNumberCheck jb p)) = 1"
    using assms no by (auto simp: stalled_def headSequenceNumberCheck_def tailSequenceNumberCheck_def Let_def)
  show "fst (enterSequenceNumberOverflowCheck jb p) = False" "snd (enterSequenceNumberOverflowCheck jb p) = jb"
    using assms by (simp_all add: stalled_def enterSequenceNumberOverflowCheck_def Let_def)
qed

lemma stalled_fields [simp]:
  "stalled (jb\<lparr>jb_timestampOverFlowState := b\<rparr>) = stalled jb" "stalled (jb\<lparr>jb_tailTimestamp := t\<rparr>) = stalled jb"
  "stalled (jb\<lparr>jb_headTimestamp := t\<rparr>) = stalled jb" "stalled (jb\<lparr>jb_pPkgBufferHashTable := tab\<rparr>) = stalled jb"
  by (simp_all add: stalled_def)

lemma stalled_timestamps:
  assumes "stalled jb"
  shows "stalled (snd (enterTimestampOverflowCheck jb p))" "stalled (snd (headTimestampCheck jb p))"
    "stalled (snd (tailTimestampCheck jb p))" "stalled (snd (withinLatencyTolerance jb p))"
proof -
  note c = stalled_checks(1,2)[OF assms, of p]
  show "stalled (snd (enterTimestampOverflowCheck jb p))" "stalled (snd (headTimestampCheck jb p))"
    using assms c by (simp_all add: enterTimestampOverflowCheck_def headTimestampCheck_def split_beta Let_def)
  show t: "stalled (snd (tailTimestampCheck jb p))" using assms c by (simp add: tailTimestampCheck_def split_beta Let_def)
  then show "stalled (snd (withinLatencyTolerance jb p))" by (simp add: withinLatencyTolerance_def split_beta Let_def)
qed

lemma stalled_track:
  assumes "stalled jb"
  shows "stalled (snd (track_packet p jb))" "stalled (track_head p jb)"
proof -
  have s: "jb_started jb" using assms by (simp add: stalled_def)
  define jb3 where "jb3 = snd (tailSequenceNumberCheck jb p)"
  obtain e4 jb4 where 4: "enterTimestampOverflowCheck jb3 p = (e4, jb4)" by fastforce
  have 3: "stalled jb3" unfolding jb3_def by (rule stalled_checks(2)[OF assms])
  have st4: "stalled jb4" using stalled_timestamps(1)[OF 3, of p] 4 by simp
  have "enterSequenceNumberOverflowCheck jb p = (False, jb)" using stalled_checks(3,4)[OF assms, of p] by (simp add: prod_eq_iff)
  then have "track_packet p jb = withinLatencyTolerance (if \<not> e4 then snd (tailTimestampCheck jb4 p) else jb4) p"
    using s 4 unfolding jb3_def by (simp add: track_packet_def Let_def)
  then show "stalled (snd (track_packet p jb))" using st4 stalled_timestamps(3)[OF st4] by (simp add: stalled_timestamps)
  show "stalled (track_head p jb)"
    using stalled_checks(1)[OF stalled_timestamps(2)[OF assms]] assms by (simp add: track_head_def)
qed

lemma stalled_parse: "stalled (w_jb w) \<Longrightarrow> jitterBufferInternalParse calls False w = Some (STATUS_SUCCESS, w)"
  by (simp add: jitterBufferInternalParse_def stalled_def seq_range_def parse_start_def)

lemma stalled_push:
  assumes "stalled (w_jb w)" and "defaultPush calls mem a w = Some (st, d, w')"
  shows "stalled (w_jb w') \<and> w_app w' = w_app w"
proof (cases "a = 0")
  case True
  then show ?thesis using assms by (simp add: defaultPush_def)
next
  case False
  obtain p where p: "w_heap w a = Some p" using assms(2) False by (cases "w_heap w a") (auto simp: defaultPush_def)
  obtain within jb where t: "track_packet p (w_jb w) = (within, jb)" by fastforce
  then have s: "stalled jb" using stalled_track(1)[OF assms(1), of p] by simp
  show ?thesis using assms(2) False p t s
    by (auto simp: defaultPush_def Let_def stalled_parse stalled_track freeRtpPacket_def bind_eq_Some_conv split: if_splits option.splits)
qed


section \<open>Frames of one packet\<close>

text \<open>Every packet before \<open>n\<close> has been delivered; the last one had the timestamp \<open>t\<close>.\<close>

definition drained :: "u32 \<Rightarrow> u16 \<Rightarrow> u32 \<Rightarrow> JitterBufferInternal \<Rightarrow> bool" where
  "drained c n t jb \<longleftrightarrow> jb_started jb \<and> jb_firstFrameProcessed jb \<and> jb_alwaysSinglePacketFrames jb \<and> \<not> jb_sequenceNumberOverflowState jb \<and>
     \<not> jb_timestampOverFlowState jb \<and> jb_headSequenceNumber jb = n \<and> jb_tailSequenceNumber jb = n - 1 \<and> jb_headTimestamp jb = t \<and>
     jb_tailTimestamp jb = t \<and> jb_pPkgBufferHashTable jb = Map.empty \<and> jb_clockRate jb = c"

definition new_buffer :: "u32 \<Rightarrow> JitterBufferInternal \<Rightarrow> bool" where
  "new_buffer c jb \<longleftrightarrow> \<not> jb_started jb \<and> \<not> jb_firstFrameProcessed jb \<and> jb_alwaysSinglePacketFrames jb \<and> \<not> jb_sequenceNumberOverflowState jb \<and>
     \<not> jb_timestampOverFlowState jb \<and> jb_tailTimestamp jb = 0 \<and> jb_pPkgBufferHashTable jb = Map.empty \<and> jb_clockRate jb = c"

lemma pred_less: "(n :: u16) \<noteq> 0 \<Longrightarrow> n - 1 < n"
  by (simp add: word_less_nat_alt unat_minus_one unat_gt_0)

lemma track_next:
  assumes "drained c n t jb" and "seq_of p = n" and "n \<noteq> 0" and "ts_of p \<noteq> t"
  shows "track_packet p jb = (True, jb\<lparr>jb_tailSequenceNumber := n, jb_tailTimestamp := ts_of p, jb_timestampOverFlowState := ts_of p < t\<rparr>)"
proof -
  note d = assms(1)[unfolded drained_def]
  have lt: "n - 1 < n" "\<not> n < n - 1" using pred_less[OF assms(3)] by auto
  have 1: "enterSequenceNumberOverflowCheck jb p = (False, jb)"
    using d assms lt by (simp add: enterSequenceNumberOverflowCheck_def headCheckingAllowed_def Let_def)
  have 2: "tailSequenceNumberCheck jb p = (True, jb\<lparr>jb_tailSequenceNumber := n\<rparr>)"
    using d assms lt by (simp add: tailSequenceNumberCheck_def)
  let ?jb = "jb\<lparr>jb_tailSequenceNumber := n\<rparr>"
  have c: "tailSequenceNumberCheck ?jb p = (True, ?jb)" "headSequenceNumberCheck ?jb p = (True, ?jb)"
    using d assms by (simp_all add: tailSequenceNumberCheck_def headSequenceNumberCheck_def Let_def)
  consider "ts_of p < t" "\<not> t < ts_of p" | "t < ts_of p" "\<not> ts_of p < t" using assms(4) by fastforce
  then show ?thesis
    using d 1 2 c by cases (simp_all add: track_packet_def enterTimestampOverflowCheck_def tailTimestampCheck_def withinLatencyTolerance_def Let_def)
qed

lemma track_first:
  assumes "new_buffer c jb"
  shows "track_packet p jb = (True, jb\<lparr>jb_started := True, jb_headSequenceNumber := seq_of p, jb_tailSequenceNumber := seq_of p,
    jb_headTimestamp := ts_of p, jb_tailTimestamp := ts_of p\<rparr>)"
proof -
  note d = assms[unfolded new_buffer_def]
  let ?jb = "jb\<lparr>jb_started := True, jb_headSequenceNumber := seq_of p, jb_tailSequenceNumber := seq_of p, jb_headTimestamp := ts_of p\<rparr>"
  have 1: "enterSequenceNumberOverflowCheck ?jb p = (False, ?jb)"
    using d by (auto simp: enterSequenceNumberOverflowCheck_def Let_def)
  have 2: "tailSequenceNumberCheck ?jb p = (True, ?jb)" by (simp add: tailSequenceNumberCheck_def)
  have 3: "enterTimestampOverflowCheck ?jb p = (False, ?jb)" using d by (simp add: enterTimestampOverflowCheck_def)
  have 4: "snd (tailTimestampCheck ?jb p) = ?jb\<lparr>jb_tailTimestamp := ts_of p\<rparr>"
  proof (cases "ts_of p = 0")
    case True
    then show ?thesis using d by (cases jb) (simp add: tailTimestampCheck_def)
  next
    case False
    then have "0 < ts_of p" by (simp add: word_gt_0)
    then show ?thesis using d 2 by (simp add: tailTimestampCheck_def)
  qed
  have 5: "withinLatencyTolerance (?jb\<lparr>jb_tailTimestamp := ts_of p\<rparr>) p = (True, ?jb\<lparr>jb_tailTimestamp := ts_of p\<rparr>)"
    by (simp add: withinLatencyTolerance_def tailTimestampCheck_def Let_def)
  then show ?thesis using d 1 2 3 4 5 by (simp add: track_packet_def Let_def)
qed

text \<open>The buffer when the first packet has been stored.\<close>

definition first_stored :: "RtpPacket \<Rightarrow> u64 \<Rightarrow> JitterBufferInternal \<Rightarrow> JitterBufferInternal" where
  "first_stored p a jb = jb\<lparr>jb_started := True, jb_headSequenceNumber := seq_of p, jb_tailSequenceNumber := seq_of p,
    jb_headTimestamp := ts_of p, jb_tailTimestamp := ts_of p, jb_pPkgBufferHashTable := [seq_of p \<mapsto> a]\<rparr>"

lemma first_push_parses:
  assumes "new_buffer c (w_jb w)" and "a \<noteq> 0" "w_heap w a = Some p"
  shows "defaultPush calls True a w =
    (jitterBufferInternalParse calls False (w\<lparr>w_jb := first_stored p a (w_jb w)\<rparr>) \<bind> (\<lambda>(st, w'). Some (st, False, w')))"
proof -
  note d = assms(1)[unfolded new_buffer_def]
  have "track_head p (first_stored p a (w_jb w)) = first_stored p a (w_jb w)"
    using d by (simp add: first_stored_def track_head_def headCheckingAllowed_def headTimestampCheck_def headSequenceNumberCheck_def Let_def)
  then show ?thesis using assms(2,3) d track_first[OF assms(1), of p] by (simp add: defaultPush_def first_stored_def Let_def)
qed

text \<open>A stream without losses: consecutive sequence numbers that do not wrap around, and a new timestamp for every packet.\<close>

fun follows :: "u16 \<Rightarrow> u32 \<Rightarrow> RtpPacket list \<Rightarrow> bool" where
  "follows n t [] = True"
| "follows n t (p # ps) = (seq_of p = n \<and> n \<noteq> 0 \<and> ts_of p \<noteq> t \<and> follows (n + 1) (ts_of p) ps)"

fun in_order :: "RtpPacket list \<Rightarrow> bool" where
  "in_order [] = True"
| "in_order (p # ps) = follows (seq_of p + 1) (ts_of p) ps"

text \<open>
  What a receiver of such frames promises to the buffer: the depayloader takes each payload for a whole frame, and
  the callback for a frame of one packet adds it to the state of the application.
\<close>

locale single_packet_receiver =
  fixes calls :: "'e JitterBufferCalls" and ok :: "'e \<Rightarrow> bool" and frame_ok :: "RtpPacket \<Rightarrow> bool" and add :: "u32 \<Rightarrow> RtpPacket \<Rightarrow> 'e \<Rightarrow> 'e"
  assumes depay: "frame_ok p \<Longrightarrow> \<exists>out. depayPayloadFn calls (payload p) (payloadLength p) None sz True = Some (STATUS_SUCCESS, out, payloadLength p, True)"
    and ready: "frame_ok p \<Longrightarrow> ok (w_app w) \<Longrightarrow> jb_pPkgBufferHashTable (w_jb w) i = Some a \<Longrightarrow> a \<noteq> 0 \<Longrightarrow> w_heap w a = Some p \<Longrightarrow>
      onFrameReadyFn calls i i (payloadLength p) w = Some (STATUS_SUCCESS, add (jb_clockRate (w_jb w)) p (w_app w))"
    and ok_add: "frame_ok p \<Longrightarrow> ok e \<Longrightarrow> ok (add c p e)"
begin

lemma parse_single:
  assumes jb: "jb_started jb" "jb_alwaysSinglePacketFrames jb" "\<not> (jb_sequenceNumberOverflowState jb \<and> n + 1 \<le> n)" "jb_headSequenceNumber jb = n"
      "jb_tailSequenceNumber jb = n" "jb_tailTimestamp jb = ts_of p" "jb_pPkgBufferHashTable jb = [n \<mapsto> a]"
    and p: "a \<noteq> 0" "w_heap w a = Some p" "frame_ok p" "ok (w_app w)" and w: "w_jb w = jb"
  shows "jitterBufferInternalParse calls False w = Some (STATUS_SUCCESS, \<lparr>w_jb = jb\<lparr>jb_pPkgBufferHashTable := Map.empty, jb_headSequenceNumber := n + 1,
    jb_headTimestamp := ts_of p, jb_timestampOverFlowState := False, jb_firstFrameProcessed := True\<rparr>, w_heap = (w_heap w)(a := None),
    w_app = add (jb_clockRate jb) p (w_app w)\<rparr>)"
proof -
  obtain out where d: "depayPayloadFn calls (payload p) (payloadLength p) None 0 True = Some (STATUS_SUCCESS, out, payloadLength p, True)"
    using depay[OF p(3)] by blast
  have range: "seq_range n n = [n]" by (simp add: seq_range_def)
  let ?jb = "jb\<lparr>jb_headTimestamp := ts_of p\<rparr>"
  let ?v = "\<lparr>w_jb = jb\<lparr>jb_pPkgBufferHashTable := Map.empty, jb_headSequenceNumber := n + 1, jb_headTimestamp := ts_of p,
    jb_timestampOverFlowState := False\<rparr>, w_heap = (w_heap w)(a := None), w_app = add (jb_clockRate jb) p (w_app w)\<rparr>"
  have r: "onFrameReadyFn calls n n (payloadLength p) \<lparr>w_jb = ?jb, w_heap = w_heap w, w_app = w_app w\<rparr> =
      Some (STATUS_SUCCESS, add (jb_clockRate jb) p (w_app w))"
    using ready[of p "\<lparr>w_jb = ?jb, w_heap = w_heap w, w_app = w_app w\<rparr>" n a] p jb by simp
  have drop: "drop_world n n (ts_of p) \<lparr>w_jb = ?jb, w_heap = w_heap w, w_app = add (jb_clockRate jb) p (w_app w)\<rparr> = Some (STATUS_SUCCESS, ?v)"
    using jb p by (simp add: drop_world_def defaultDropBufferData_def range drop_round_def freeRtpPacket_def
        exitTimestampOverflowCheck_def exitSequenceNumberOverflowCheck_def Let_def)
  have deliver: "deliver_frame calls n n (payloadLength p) (ts_of p) \<lparr>w_jb = ?jb, w_heap = w_heap w, w_app = w_app w\<rparr> = Some (STATUS_SUCCESS, ?v)"
    using r drop by (simp add: deliver_frame_def)
  have e: "w = \<lparr>w_jb = jb, w_heap = w_heap w, w_app = w_app w\<rparr>" using w by (cases w) simp
  show ?thesis
  proof (cases "ts_of p = jb_headTimestamp jb")
    case True
    then have "?jb = jb" by (cases jb) simp
    then show ?thesis using jb p deliver d True
      by (subst e) (simp add: jitterBufferInternalParse_def range parse_start_def parse_round_def parse_payload_def ends_frame_def frame_done_def reset_size_def Let_def)
  next
    case False
    then show ?thesis using jb p deliver d
      by (subst e) (simp add: jitterBufferInternalParse_def range parse_start_def parse_round_def parse_new_timestamp_def parse_payload_def ends_frame_def
          frame_done_def reset_size_def start_frame_def Let_def)
  qed
qed

text \<open>The first packet and every next one are delivered when they are pushed.\<close>

lemma push_first:
  assumes "new_buffer c (w_jb w)" and p: "a \<noteq> 0" "w_heap w a = Some p" "frame_ok p" "ok (w_app w)"
  shows "\<exists>w'. defaultPush calls True a w = Some (STATUS_SUCCESS, False, w') \<and> drained c (seq_of p + 1) (ts_of p) (w_jb w') \<and>
    w_heap w' = (w_heap w)(a := None) \<and> w_app w' = add c p (w_app w)"
proof -
  note d = assms(1)[unfolded new_buffer_def]
  show ?thesis unfolding first_push_parses[OF assms(1) p(1,2)]
    using parse_single[of "first_stored p a (w_jb w)" "seq_of p" p a "w\<lparr>w_jb := first_stored p a (w_jb w)\<rparr>"] p d
    by (simp add: drained_def first_stored_def)
qed

lemma push_next:
  assumes "drained c n t (w_jb w)" and p: "a \<noteq> 0" "w_heap w a = Some p" "frame_ok p" "ok (w_app w)"
    and n: "seq_of p = n" "n \<noteq> 0" "ts_of p \<noteq> t"
  shows "\<exists>w'. defaultPush calls True a w = Some (STATUS_SUCCESS, False, w') \<and> drained c (n + 1) (ts_of p) (w_jb w') \<and>
    w_heap w' = (w_heap w)(a := None) \<and> w_app w' = add c p (w_app w)"
proof -
  note d = assms(1)[unfolded drained_def]
  let ?jb = "w_jb w\<lparr>jb_tailSequenceNumber := n, jb_tailTimestamp := ts_of p, jb_timestampOverFlowState := ts_of p < t\<rparr>"
  let ?jb1 = "?jb\<lparr>jb_pPkgBufferHashTable := [n \<mapsto> a]\<rparr>"
  have th: "track_head p ?jb1 = ?jb1" using d n by (simp add: track_head_def headCheckingAllowed_def)
  have "defaultPush calls True a w = (jitterBufferInternalParse calls False (w\<lparr>w_jb := ?jb1\<rparr>) \<bind> (\<lambda>(st, w'). Some (st, False, w')))"
    using p d n th track_next[OF assms(1) n] by (simp add: defaultPush_def Let_def)
  then show ?thesis using parse_single[of ?jb1 n p a "w\<lparr>w_jb := ?jb1\<rparr>"] p d by (simp add: drained_def)
qed

text \<open>The packet with the sequence number 0 after one with 65535 is the last one that is delivered.\<close>

lemma push_wrap:
  assumes "drained c 0 t (w_jb w)" and p: "a \<noteq> 0" "w_heap w a = Some p" "frame_ok p" "ok (w_app w)" and n: "seq_of p = 0" "ts_of p \<noteq> t"
  shows "\<exists>w'. defaultPush calls True a w = Some (STATUS_SUCCESS, False, w') \<and> stalled (w_jb w') \<and>
    w_heap w' = (w_heap w)(a := None) \<and> w_app w' = add c p (w_app w)"
proof -
  note d = assms(1)[unfolded drained_def]
  let ?jb = "w_jb w\<lparr>jb_sequenceNumberOverflowState := True, jb_tailSequenceNumber := 0, jb_tailTimestamp := ts_of p\<rparr>"
  let ?jb1 = "?jb\<lparr>jb_pPkgBufferHashTable := [0 \<mapsto> a]\<rparr>"
  have tail: "jb_tailSequenceNumber (w_jb w) = 65535"
  proof -
    have "(65535 :: u16) + 1 = 0" by (simp add: word_eq_iff_unsigned)
    then have "(65535 :: u16) = 0 - 1" by (metis add_diff_cancel_right')
    then show ?thesis using d by (simp only:)
  qed
  have "enterSequenceNumberOverflowCheck (w_jb w) p = (True, ?jb)"
    using d n tail by (simp add: enterSequenceNumberOverflowCheck_def Let_def)
  moreover have "enterTimestampOverflowCheck ?jb p = (False, ?jb)" using d by (simp add: enterTimestampOverflowCheck_def)
  ultimately have tr: "track_packet p (w_jb w) = (True, ?jb)"
    using d by (simp add: track_packet_def withinLatencyTolerance_def tailTimestampCheck_def Let_def)
  have th: "track_head p ?jb1 = ?jb1" using d n by (simp add: track_head_def headCheckingAllowed_def)
  have "defaultPush calls True a w = (jitterBufferInternalParse calls False (w\<lparr>w_jb := ?jb1\<rparr>) \<bind> (\<lambda>(st, w'). Some (st, False, w')))"
    using p d n th tr by (simp add: defaultPush_def Let_def)
  then show ?thesis using parse_single[of ?jb1 0 p a "w\<lparr>w_jb := ?jb1\<rparr>"] p d by (simp add: stalled_def)
qed

lemma push_follows:
  assumes "drained c n t (w_jb w)" and "follows n t ps" and "list_all2 (\<lambda>a p. w_heap w a = Some p) as ps" and "distinct as" and "0 \<notin> set as"
    and "\<forall>p \<in> set ps. frame_ok p" and "ok (w_app w)"
  shows "\<exists>w'. push_all calls as w = Some w' \<and> w_app w' = foldl (\<lambda>e p. add c p e) (w_app w) ps \<and> w_heap w' = w_heap w |` (- set as)"
  using assms
proof (induction ps arbitrary: as w n t)
  case (Cons p ps)
  then obtain a bs where as: "as = a # bs" "w_heap w a = Some p" "list_all2 (\<lambda>a p. w_heap w a = Some p) bs ps"
    by (auto simp: list_all2_Cons2)
  obtain v where v: "defaultPush calls True a w = Some (STATUS_SUCCESS, False, v)" "drained c (n + 1) (ts_of p) (w_jb v)"
      "w_heap v = (w_heap w)(a := None)" "w_app v = add c p (w_app w)"
    using push_next[OF Cons(2) _ as(2)] Cons as(1) by auto
  have "list_all2 (\<lambda>a p. w_heap v a = Some p) bs ps"
    using as(3) Cons(5) unfolding as(1) v(3) by (auto simp: list_all2_iff dest: set_zip_leftD)
  then obtain w' where w': "push_all calls bs v = Some w'" "w_app w' = foldl (\<lambda>e p. add c p e) (w_app v) ps" "w_heap w' = w_heap v |` (- set bs)"
    using Cons(1)[OF v(2)] Cons(3-) as v(4) by (auto simp: ok_add)
  moreover have "(w_heap w)(a := None) |` (- set bs) = w_heap w |` (- set (a # bs))" by (auto simp: restrict_map_def fun_eq_iff)
  ultimately show ?case using v as(1) by (simp add: jitterBufferPush_def)
qed (simp add: restrict_map_def)

lemma push_stream:
  assumes "new_buffer c (w_jb w)" and "in_order ps" and "list_all2 (\<lambda>a p. w_heap w a = Some p) as ps" and "distinct as" and "0 \<notin> set as"
    and "\<forall>p \<in> set ps. frame_ok p" and "ok (w_app w)"
  shows "\<exists>w'. push_all calls as w = Some w' \<and> w_app w' = foldl (\<lambda>e p. add c p e) (w_app w) ps \<and> w_heap w' = w_heap w |` (- set as)"
proof (cases ps)
  case Nil
  then show ?thesis using assms(3) by (simp add: restrict_map_def)
next
  case (Cons p qs)
  then obtain a bs where as: "as = a # bs" "w_heap w a = Some p" "list_all2 (\<lambda>a p. w_heap w a = Some p) bs qs"
    using assms(3) by (auto simp: list_all2_Cons2)
  obtain v where v: "defaultPush calls True a w = Some (STATUS_SUCCESS, False, v)" "drained c (seq_of p + 1) (ts_of p) (w_jb v)"
      "w_heap v = (w_heap w)(a := None)" "w_app v = add c p (w_app w)"
    using push_first[OF assms(1) _ as(2)] assms(5-) as(1) Cons by auto
  have "list_all2 (\<lambda>a p. w_heap v a = Some p) bs qs"
    using as(3) assms(4) unfolding as(1) v(3) by (auto simp: list_all2_iff dest: set_zip_leftD)
  then obtain w' where w': "push_all calls bs v = Some w'" "w_app w' = foldl (\<lambda>e p. add c p e) (w_app v) qs" "w_heap w' = w_heap v |` (- set bs)"
    using push_follows[OF v(2), of qs bs] assms(2,4-) as(1) Cons v(4) by (auto simp: ok_add)
  moreover have "(w_heap w)(a := None) |` (- set bs) = w_heap w |` (- set (a # bs))" by (auto simp: restrict_map_def fun_eq_iff)
  ultimately show ?thesis using v as(1) Cons by (simp add: jitterBufferPush_def)
qed

end

text \<open>Callbacks that count the frames, for packets that are frames.\<close>

definition counting_calls :: "nat JitterBufferCalls" where
  "counting_calls = \<lparr>onFrameReadyFn = (\<lambda>i j n w. Some (STATUS_SUCCESS, Suc (w_app w))), onFrameDroppedFn = (\<lambda>i j ts w. Some (STATUS_SUCCESS, w_app w)),
     depayPayloadFn = (\<lambda>pl len out sz first. Some (STATUS_SUCCESS, out, len, True))\<rparr>"

interpretation counting: single_packet_receiver counting_calls "\<lambda>_. True" "\<lambda>_. True" "\<lambda>c p. Suc"
  by unfold_locales (simp_all add: counting_calls_def)

text \<open>The stream with the sequence numbers 65535, 0, 1 and 2: two frames are delivered.\<close>

definition wrapping_packet :: "nat \<Rightarrow> RtpPacket" where
  "wrapping_packet k = packet0\<lparr>header := header packet0\<lparr>sequenceNumber := word_of_nat (65534 + k), timestamp := word_of_nat (960 * k)\<rparr>\<rparr>"

definition wrapping_heap :: heap where
  "wrapping_heap = [1 \<mapsto> wrapping_packet 1, 2 \<mapsto> wrapping_packet 2, 3 \<mapsto> wrapping_packet 3, 4 \<mapsto> wrapping_packet 4]"


end
