(* ===== verification/RtpRed.thy ===== *)
theory RtpRed
  imports RtpPacket
begin

text \<open>
  \<^verbatim>\<open>src/source/Rtp/Codecs/RtpRedPayloader.c\<close>: redundant audio data (RFC 2198). A packet carries an Opus frame and copies of
  some frames sent before it; the receiver splits it into packets again, so that a lost frame is
  recovered from a later packet.

  The sender keeps the last frames in a ring of slots. Buffers are written at explicit positions, and a write
  outside of them is a fault, \<open>None\<close>. \<open>mem\<close> tells which allocations succeed. Output
  arguments that must not be null are given by one flag, \<open>ptrs\<close>.
\<close>

section \<open>Data\<close>

record RedSenderSlot =
  rs_rtpTimestamp :: u32
  rs_payloadLen :: u32
  rs_payload :: bytes

record RedSenderState =
  red_redundancyLevel :: byte
  red_opusPayloadType :: byte
  red_nextSlot :: u32
  red_slots :: "RedSenderSlot list"

record RedBlockInfo =
  bi_payloadType :: byte
  bi_tsOffset :: u32
  bi_payloadLen :: u32
  bi_isLast :: bool

abbreviation (input) RED_HEADER_LEN_NON_LAST :: u32 where "RED_HEADER_LEN_NON_LAST \<equiv> 4"
abbreviation (input) RED_HEADER_LEN_LAST :: u32 where "RED_HEADER_LEN_LAST \<equiv> 1"
abbreviation (input) RED_MAX_BLOCK_LEN :: u32 where "RED_MAX_BLOCK_LEN \<equiv> 1023"
abbreviation (input) RED_MAX_TS_DELTA :: u32 where "RED_MAX_TS_DELTA \<equiv> 16384"
abbreviation (input) RED_MAX_BLOCKS :: nat where "RED_MAX_BLOCKS \<equiv> 32"
abbreviation (input) RED_MAX_REDUNDANCY :: byte where "RED_MAX_REDUNDANCY \<equiv> 9"
abbreviation (input) RED_DEFAULT_REDUNDANCY :: byte where "RED_DEFAULT_REDUNDANCY \<equiv> 1"
abbreviation (input) SRTP_AUTH_TAG_OVERHEAD :: u32 where "SRTP_AUTH_TAG_OVERHEAD \<equiv> 10"

section \<open>The sender\<close>

definition createRedSenderState :: "bool \<Rightarrow> byte \<Rightarrow> byte \<Rightarrow> bool \<Rightarrow> STATUS \<times> RedSenderState option" where
  "createRedSenderState mem redundancyLevel opusPayloadType ppState =
     (if \<not> ppState then (STATUS_NULL_ARG, None)
      else
        let level = (if redundancyLevel = 0 then RED_DEFAULT_REDUNDANCY else redundancyLevel);
            level = (if level > RED_MAX_REDUNDANCY then RED_MAX_REDUNDANCY else level) in
        if \<not> mem then (STATUS_NOT_ENOUGH_MEMORY, None)
        else (STATUS_SUCCESS, Some \<lparr>red_redundancyLevel = level, red_opusPayloadType = opusPayloadType, red_nextSlot = 0,
          red_slots = replicate 9 \<lparr>rs_rtpTimestamp = 0, rs_payloadLen = 0, rs_payload = replicate 1023 0\<rparr>\<rparr>))"

text \<open>The number of allocations released; \<open>None\<close> is a null address of the pointer, \<open>Some None\<close> a null pointer.\<close>

definition freeRedSenderState :: "RedSenderState option option \<Rightarrow> STATUS \<times> nat" where
  "freeRedSenderState ppState = (case ppState of
     None \<Rightarrow> (STATUS_NULL_ARG, 0)
   | Some None \<Rightarrow> (STATUS_SUCCESS, 0)
   | Some (Some s) \<Rightarrow> (STATUS_SUCCESS, 1))"

text \<open>The walk over the ring from the oldest slot; the chosen slots and the size of the body so far.\<close>

fun select_loop :: "RedSenderState \<Rightarrow> u32 \<Rightarrow> u32 \<Rightarrow> nat list \<Rightarrow> nat list \<Rightarrow> u32 \<Rightarrow> (nat list \<times> u32) option" where
  "select_loop s rtpTimestamp mtuBudget [] chosen bodyBytes = Some (chosen, bodyBytes)"
| "select_loop s rtpTimestamp mtuBudget (i # rest) chosen bodyBytes =
     (let slotIdx = (unat (red_nextSlot s) + i) mod unat (red_redundancyLevel s) in do {
        slot \<leftarrow> memget (red_slots s) slotIdx;
        let tsDelta = rtpTimestamp - rs_rtpTimestamp slot;
            addedBytes = RED_HEADER_LEN_NON_LAST + rs_payloadLen slot in
        if rs_payloadLen slot = 0 \<or> tsDelta = 0 \<or> tsDelta \<ge> RED_MAX_TS_DELTA \<or> rs_payloadLen slot > RED_MAX_BLOCK_LEN
        then select_loop s rtpTimestamp mtuBudget rest chosen bodyBytes
        else if bodyBytes + addedBytes > mtuBudget then Some (chosen, bodyBytes)
        else if length chosen + 1 \<ge> RED_MAX_BLOCKS - 1 then Some (chosen @ [slotIdx], bodyBytes + addedBytes)
        else select_loop s rtpTimestamp mtuBudget rest (chosen @ [slotIdx]) (bodyBytes + addedBytes)
      })"

definition selectRedundantBlocks :: "RedSenderState \<Rightarrow> u32 \<Rightarrow> u32 \<Rightarrow> u32 \<Rightarrow> (nat list \<times> u32) option" where
  "selectRedundantBlocks s rtpTimestamp mtuBudget primaryLen =
     select_loop s rtpTimestamp mtuBudget [0..<unat (red_redundancyLevel s)] [] (RED_HEADER_LEN_LAST + primaryLen)"

definition red_header :: "byte \<Rightarrow> u32 \<Rightarrow> u32 \<Rightarrow> bytes" where
  "red_header opusPt tsDelta blockLen =
     [0x80 OR (opusPt AND 0x7F), ucast (drop_bit 6 (tsDelta AND 0x3FFF) AND 0xFF),
      ucast ((push_bit 2 (tsDelta AND 0x3F) OR (drop_bit 8 blockLen AND 0x3)) AND 0xFF), ucast (blockLen AND 0xFF)]"

text \<open>The loops write at the position \<open>pOut\<close>, which they advance.\<close>

definition put_red_header :: "RedSenderState \<Rightarrow> u32 \<Rightarrow> nat \<Rightarrow> bytes \<times> nat \<Rightarrow> (bytes \<times> nat) option" where
  "put_red_header s rtpTimestamp slotIdx out = do {
     slot \<leftarrow> memget (red_slots s) slotIdx;
     buf \<leftarrow> memwrite (fst out) (snd out)
       (red_header (red_opusPayloadType s) (rtpTimestamp - rs_rtpTimestamp slot) (rs_payloadLen slot));
     Some (buf, snd out + 4)
   }"

definition put_red_payload :: "RedSenderState \<Rightarrow> nat \<Rightarrow> bytes \<times> nat \<Rightarrow> (bytes \<times> nat) option" where
  "put_red_payload s slotIdx out = do {
     slot \<leftarrow> memget (red_slots s) slotIdx;
     data \<leftarrow> memread (rs_payload slot) 0 (unat (rs_payloadLen slot));
     buf \<leftarrow> memwrite (fst out) (snd out) data;
     Some (buf, snd out + unat (rs_payloadLen slot))
   }"

text \<open>The frame that was sent takes the oldest slot.\<close>

definition remember_frame :: "RedSenderState \<Rightarrow> u32 \<Rightarrow> bytes \<Rightarrow> RedSenderState option" where
  "remember_frame s rtpTimestamp frame = do {
     slot \<leftarrow> memget (red_slots s) (unat (red_nextSlot s));
     data \<leftarrow> memwrite (rs_payload slot) 0 frame;
     Some (s\<lparr>red_slots := (red_slots s)[unat (red_nextSlot s) :=
         \<lparr>rs_rtpTimestamp = rtpTimestamp, rs_payloadLen = word_of_nat (length frame), rs_payload = data\<rparr>],
       red_nextSlot := (red_nextSlot s + 1) mod ucast (red_redundancyLevel s)\<rparr>)
   }"

record red_result =
  rr_status :: STATUS
  rr_state :: "RedSenderState option"
  rr_payload :: "bytes option"
  rr_subLength :: "u32 list option"
  rr_payloadLength :: u32
  rr_subLenSize :: u32
  rr_fallback :: bool

definition createPayloadForOpusRed ::
  "bool \<Rightarrow> u32 \<Rightarrow> bytes option \<Rightarrow> u32 \<Rightarrow> u32 \<Rightarrow> RedSenderState option \<Rightarrow> bytes option \<Rightarrow> u32 \<Rightarrow> u32 list option \<Rightarrow> u32 \<Rightarrow> bool \<Rightarrow>
   red_result option" where
  "createPayloadForOpusRed ptrs mtu opusFrame opusFrameLength rtpTimestamp pState pBuffer bufLength pSubLength
       subLenCap isFallback =
     (let fail = (\<lambda>st. Some \<lparr>rr_status = st, rr_state = pState, rr_payload = pBuffer, rr_subLength = pSubLength,
            rr_payloadLength = bufLength, rr_subLenSize = subLenCap, rr_fallback = isFallback\<rparr>) in
      case (pState, opusFrame) of
        (Some s, Some frame0) \<Rightarrow>
          if \<not> ptrs \<or> pBuffer \<noteq> None \<and> pSubLength = None then fail STATUS_NULL_ARG
          else if opusFrameLength = 0 then fail STATUS_INVALID_ARG
          else do {
            let mtuBudget = (if mtu > SRTP_AUTH_TAG_OVERHEAD + 24 then mtu - SRTP_AUTH_TAG_OVERHEAD - 24 else 0);
            let fallback = (opusFrameLength > RED_MAX_BLOCK_LEN);
            (chosen, bodyBytes) \<leftarrow> (if fallback then Some ([], opusFrameLength)
              else selectRedundantBlocks s rtpTimestamp mtuBudget opusFrameLength);
            (case (pBuffer, pSubLength) of
               (Some buf, Some subLens) \<Rightarrow>
                 if \<not> (bufLength \<ge> bodyBytes \<and> subLenCap \<ge> 1) then fail STATUS_BUFFER_TOO_SMALL
                 else do {
                   frame \<leftarrow> memread frame0 0 (unat opusFrameLength);
                   (buf, s') \<leftarrow> (if fallback then do { buf \<leftarrow> memwrite buf 0 frame; Some (buf, s) }
                     else do {
                       (buf, pOut) \<leftarrow> for_each (put_red_header s rtpTimestamp) chosen (buf, 0);
                       buf \<leftarrow> memwrite buf pOut [red_opusPayloadType s AND 0x7F];
                       (buf, pOut) \<leftarrow> for_each (put_red_payload s) chosen (buf, pOut + 1);
                       buf \<leftarrow> memwrite buf pOut frame;
                       s' \<leftarrow> remember_frame s rtpTimestamp frame;
                       Some (buf, s')
                     });
                   subLens \<leftarrow> memwrite subLens 0 [bodyBytes];
                   Some \<lparr>rr_status = STATUS_SUCCESS, rr_state = Some s', rr_payload = Some buf, rr_subLength = Some subLens,
                     rr_payloadLength = bodyBytes, rr_subLenSize = 1, rr_fallback = fallback\<rparr>
                 }
             | _ \<Rightarrow> Some \<lparr>rr_status = STATUS_SUCCESS, rr_state = pState, rr_payload = pBuffer, rr_subLength = pSubLength,
                     rr_payloadLength = bodyBytes, rr_subLenSize = 1, rr_fallback = fallback\<rparr>)
          }
      | _ \<Rightarrow> fail STATUS_NULL_ARG)"

text \<open>
  The part of \<^verbatim>\<open>writeFrame\<close> for such a sender: a call for the size, new buffers where the ones of the transceiver are too small
  (\<open>fresh\<close> is what new memory holds), and a call that fills them. The result is the status and, on success, the state, the
  buffers, the length and whether the frame is sent alone.
\<close>

definition write_red_frame ::
  "(nat \<Rightarrow> byte) \<Rightarrow> u32 \<Rightarrow> bytes \<Rightarrow> u32 \<Rightarrow> RedSenderState \<Rightarrow> bytes \<Rightarrow> u32 list \<Rightarrow>
   (STATUS \<times> (RedSenderState \<times> bytes \<times> u32 list \<times> u32 \<times> bool) option) option" where
  "write_red_frame fresh mtu frame rtpTimestamp s buf subLens = do {
     r \<leftarrow> createPayloadForOpusRed True mtu (Some frame) (word_of_nat (length frame)) rtpTimestamp (Some s) None 0 None 1 False;
     (if rr_status r \<noteq> STATUS_SUCCESS then Some (rr_status r, None)
      else do {
        let buf = (if unat (rr_payloadLength r) > length buf then map fresh [0..<unat (rr_payloadLength r)] else buf);
        let subLens = (if length subLens < 1 then [0] else subLens);
        r \<leftarrow> createPayloadForOpusRed True mtu (Some frame) (word_of_nat (length frame)) rtpTimestamp (Some s) (Some buf)
              (rr_payloadLength r) (Some subLens) 1 (rr_fallback r);
        (if rr_status r \<noteq> STATUS_SUCCESS then Some (rr_status r, None)
         else do {
           s \<leftarrow> rr_state r;
           buf \<leftarrow> rr_payload r;
           subLens \<leftarrow> rr_subLength r;
           Some (STATUS_SUCCESS, Some (s, buf, subLens, rr_payloadLength r, rr_fallback r))
         })
      })
   }"

section \<open>The receiver\<close>

function parse_red_from :: "bytes \<Rightarrow> nat \<Rightarrow> nat \<Rightarrow> nat \<Rightarrow> RedBlockInfo list \<Rightarrow> (STATUS \<times> RedBlockInfo list \<times> nat) option" where
  "parse_red_from body bodyLen maxBlocks off blocks =
     (if off < bodyLen then
        if \<not> length blocks < maxBlocks then Some (STATUS_RTP_INVALID_RED_PACKET, blocks, off)
        else (case memget body off of
          None \<Rightarrow> None
        | Some first \<Rightarrow>
            if first AND 0x80 \<noteq> 0 then
              if \<not> off + 4 \<le> bodyLen then Some (STATUS_RTP_INVALID_RED_PACKET, blocks, off)
              else (case memread body (off + 1) 3 of
                Some [b1, b2, b3] \<Rightarrow>
                  parse_red_from body bodyLen maxBlocks (off + 4) (blocks @ [
                    \<lparr>bi_payloadType = first AND 0x7F, bi_tsOffset = push_bit 6 (ucast b1) OR drop_bit 2 (ucast b2),
                     bi_payloadLen = push_bit 8 (ucast b2 AND 0x3) OR ucast b3, bi_isLast = False\<rparr>])
              | _ \<Rightarrow> None)
            else Some (STATUS_SUCCESS, blocks @ [\<lparr>bi_payloadType = first AND 0x7F, bi_tsOffset = 0, bi_payloadLen = 0, bi_isLast = True\<rparr>],
                off + 1))
      else Some (STATUS_SUCCESS, blocks, off))"
  by pat_completeness auto
termination by (relation "measure (\<lambda>(body, bodyLen, maxBlocks, off, blocks). bodyLen - off)") auto

declare parse_red_from.simps [simp del]

definition parseRedHeaders :: "bytes \<Rightarrow> nat \<Rightarrow> nat \<Rightarrow> (STATUS \<times> RedBlockInfo list \<times> nat) option" where
  "parseRedHeaders body bodyLen maxBlocks = do {
     (st, blocks, off) \<leftarrow> parse_red_from body bodyLen maxBlocks 0 [];
     Some (if st \<noteq> STATUS_SUCCESS then (st, [], 0)
       else if blocks = [] then (STATUS_RTP_INVALID_RED_PACKET, [], 0)
       else if \<not> bi_isLast (last blocks) then (STATUS_RTP_INVALID_RED_PACKET, [], 0)
       else (STATUS_SUCCESS, blocks, off))
   }"

definition buildSyntheticPacket :: "bool \<Rightarrow> RtpPacket \<Rightarrow> byte \<Rightarrow> u32 \<Rightarrow> u16 \<Rightarrow> bytes \<Rightarrow> bool \<Rightarrow> STATUS \<times> RtpPacket option" where
  "buildSyntheticPacket mem pSourceRed opusPt ts seq data synthetic =
     (if \<not> mem then (STATUS_NOT_ENOUGH_MEMORY, None)
      else
        let pBuf = (if data = [] then None else Some data) in
        (STATUS_SUCCESS, Some \<lparr>header = \<lparr>version = 2, padding = False, extension = False, marker = marker (header pSourceRed),
             csrcCount = 0, payloadType = opusPt, sequenceNumber = seq, timestamp = ts, ssrc = ssrc (header pSourceRed),
             csrcArray = None, extensionProfile = 0, extensionPayload = None, extensionLength = 0\<rparr>,
           payload = pBuf, payloadLength = word_of_nat (length data), pRawPacket = pBuf, rawPacketLength = word_of_nat (length data),
           receivedTime = receivedTime pSourceRed, sentTime = sentTime pSourceRed, isSynthetic = synthetic\<rparr>))"

text \<open>
  The blocks with their numbers, the position in the body, the packets built and the bytes of redundancy so far. A failed allocation
  frees the packets that were built: none is returned.
\<close>

fun split_loop :: "(nat \<Rightarrow> bool) \<Rightarrow> RtpPacket \<Rightarrow> byte \<Rightarrow> bytes \<Rightarrow> nat \<Rightarrow> (nat \<times> RedBlockInfo) list \<Rightarrow> nat \<Rightarrow> RtpPacket list \<Rightarrow> u32 \<Rightarrow>
    (STATUS \<times> RtpPacket list \<times> u32) option" where
  "split_loop mem red opusPt body blockCount [] cursor out fecBytes = Some (STATUS_SUCCESS, out, fecBytes)"
| "split_loop mem red opusPt body blockCount ((i, b) # rest) cursor out fecBytes =
     (if bi_payloadType b \<noteq> opusPt then
        split_loop mem red opusPt body blockCount rest (cursor + unat (bi_payloadLen b)) out fecBytes
      else
        let ts = (if bi_isLast b then timestamp (header red) else timestamp (header red) - bi_tsOffset b);
            seq = (if bi_isLast b then sequenceNumber (header red)
                   else sequenceNumber (header red) - word_of_nat (blockCount - 1 - i));
            fec = (if bi_isLast b then fecBytes else fecBytes + bi_payloadLen b) in
        (case memread body cursor (unat (bi_payloadLen b)) of
           None \<Rightarrow> None
         | Some data \<Rightarrow>
             (case buildSyntheticPacket (mem i) red opusPt ts seq data (\<not> bi_isLast b) of
                (st, Some p) \<Rightarrow>
                  split_loop mem red opusPt body blockCount rest (cursor + unat (bi_payloadLen b)) (out @ [p]) fec
              | (st, None) \<Rightarrow> Some (st, [], 0))))"

definition splitRedRtpPacket :: "(nat \<Rightarrow> bool) \<Rightarrow> RtpPacket option \<Rightarrow> byte \<Rightarrow> bool \<Rightarrow> nat \<Rightarrow> (STATUS \<times> RtpPacket list \<times> u32) option" where
  "splitRedRtpPacket mem pRedPacket negotiatedOpusPt ptrs maxCount = (case pRedPacket of
     None \<Rightarrow> Some (STATUS_NULL_ARG, [], 0)
   | Some red \<Rightarrow>
       if \<not> ptrs then Some (STATUS_NULL_ARG, [], 0)
       else if \<not> maxCount \<ge> 1 then Some (STATUS_INVALID_ARG, [], 0)
       else (case payload red of
         None \<Rightarrow> Some (STATUS_RTP_INVALID_RED_PACKET, [], 0)
       | Some body \<Rightarrow>
           let bodyLen = unat (payloadLength red) in
           if bodyLen = 0 then Some (STATUS_RTP_INVALID_RED_PACKET, [], 0)
           else do {
             (st, blocks, headerTotalLen) \<leftarrow> parseRedHeaders body bodyLen RED_MAX_BLOCKS;
             (if st \<noteq> STATUS_SUCCESS then Some (st, [], 0)
              else
                let payloadsTotalLen = sum_list (map (\<lambda>b. unat (bi_payloadLen b)) (butlast blocks)) in
                if \<not> headerTotalLen + payloadsTotalLen \<le> bodyLen then Some (STATUS_RTP_INVALID_RED_PACKET, [], 0)
                else if \<not> length blocks \<le> maxCount then Some (STATUS_RTP_INVALID_RED_PACKET, [], 0)
                else
                  let blocks = butlast blocks @ [(last blocks)\<lparr>bi_payloadLen := word_of_nat (bodyLen - headerTotalLen - payloadsTotalLen)\<rparr>] in
                  split_loop mem red negotiatedOpusPt body (length blocks) (enumerate 0 blocks) headerTotalLen [] 0)
           }))"

section \<open>Headers\<close>

lemma below_bits:
  fixes w :: u32
  assumes "unat w < 2 ^ k"
  shows "bit w n \<longleftrightarrow> bit w n \<and> n < k"
  using bit_word_lessD[OF _ assms] by blast

lemma bit_7F: "bit (0x7F :: byte) n \<longleftrightarrow> n < 7"
proof -
  have "(0x7F :: byte) = mask 7" by (simp add: mask_eq_exp_minus_1)
  moreover have "bit (mask 7 :: byte) n \<longleftrightarrow> n < 7" unfolding bit_mask_iff by auto
  ultimately show ?thesis by (simp only:)
qed

lemma bit_low_mask:
  fixes w :: u32
  assumes "w = mask k" and "k \<le> 32"
  shows "bit w n \<longleftrightarrow> n < k"
  unfolding assms(1) bit_mask_iff using assms(2) by auto

lemma bit_masks32: "bit (0x3FFF :: u32) n \<longleftrightarrow> n < 14" "bit (0x3F :: u32) n \<longleftrightarrow> n < 6" "bit (0x3 :: u32) n \<longleftrightarrow> n < 2" "bit (0xFF :: u32) n \<longleftrightarrow> n < 8"
proof -
  have m: "(0x3FFF :: u32) = mask 14" "(0x3F :: u32) = mask 6" "(0x3 :: u32) = mask 2" "(0xFF :: u32) = mask 8"
    by (simp_all add: mask_eq_exp_minus_1)
  show "bit (0x3FFF :: u32) n \<longleftrightarrow> n < 14" "bit (0x3F :: u32) n \<longleftrightarrow> n < 6" "bit (0x3 :: u32) n \<longleftrightarrow> n < 2" "bit (0xFF :: u32) n \<longleftrightarrow> n < 8"
    by (rule bit_low_mask[OF m(1)] bit_low_mask[OF m(2)] bit_low_mask[OF m(3)] bit_low_mask[OF m(4)], simp)+
qed

lemma bit_FC: "bit (0xFC :: u32) n \<longleftrightarrow> 2 \<le> n \<and> n < 8"
proof -
  have "(0xFC :: u32) = push_bit 2 (mask 6)" by (simp add: mask_eq_exp_minus_1)
  moreover have "bit (push_bit 2 (mask 6) :: u32) n \<longleftrightarrow> 2 \<le> n \<and> n < 8" unfolding bit_push_bit_iff bit_mask_iff by auto
  ultimately show ?thesis by (simp only:)
qed

lemma bit_300: "bit (0x300 :: u32) n \<longleftrightarrow> 8 \<le> n \<and> n < 10"
proof -
  have "(0x300 :: u32) = push_bit 8 (mask 2)" by (simp add: mask_eq_exp_minus_1)
  moreover have "bit (push_bit 8 (mask 2) :: u32) n \<longleftrightarrow> 8 \<le> n \<and> n < 10" unfolding bit_push_bit_iff bit_mask_iff by auto
  ultimately show ?thesis by (simp only:)
qed

lemma bit_80: "bit (0x80 :: byte) n \<longleftrightarrow> n = 7"
proof -
  have "(0x80 :: byte) = 2 ^ 7" by simp
  moreover have "bit (2 ^ 7 :: byte) n \<longleftrightarrow> n = 7" unfolding bit_exp_iff by auto
  ultimately show ?thesis by (simp only:)
qed

text \<open>A header gives back its fields.\<close>

lemma red_header_fields:
  fixes d l :: u32
  assumes d: "unat d < 2 ^ 14" and l: "unat l < 2 ^ 10"
  obtains b0 b1 b2 b3 where "red_header pt d l = [b0, b1, b2, b3]" "b0 AND 0x80 \<noteq> 0" "b0 AND 0x7F = pt AND 0x7F"
    "push_bit 6 (ucast b1) OR drop_bit 2 (ucast b2) = d" "push_bit 8 (ucast b2 AND 0x3) OR ucast b3 = l"
proof
  let ?b0 = "0x80 OR (pt AND 0x7F)" and ?b1 = "ucast (drop_bit 6 (d AND 0x3FFF) AND 0xFF) :: byte"
    and ?b2 = "ucast ((push_bit 2 (d AND 0x3F) OR (drop_bit 8 l AND 0x3)) AND 0xFF) :: byte" and ?b3 = "ucast (l AND 0xFF) :: byte"
  show "red_header pt d l = [?b0, ?b1, ?b2, ?b3]" by (simp add: red_header_def)
  have "bit (?b0 AND 0x80) 7" by (simp add: bit_simps bit_80 del: bit_numeral_word_iff)
  then show "?b0 AND 0x80 \<noteq> 0" by force
  show "?b0 AND 0x7F = pt AND 0x7F" by (rule bit_word_eqI) (auto simp: bit_simps bit_80 bit_7F simp del: bit_numeral_word_iff)
  show "push_bit 6 (ucast ?b1) OR drop_bit 2 (ucast ?b2) = d"
  proof (rule bit_word_eqI)
    fix n
    show "bit (push_bit 6 (ucast ?b1) OR drop_bit 2 (ucast ?b2) :: u32) n = bit d n" if "n < LENGTH(32)"
      using that below_bits[OF d, of n] below_bits[OF l, of "n + 10"]
      by (cases "6 \<le> n") (auto simp: bit_simps bit_masks32 bit_FC not_less simp del: bit_numeral_word_iff)
  qed
  show "push_bit 8 (ucast ?b2 AND 0x3) OR ucast ?b3 = l"
  proof (rule bit_word_eqI)
    fix n
    show "bit (push_bit 8 (ucast ?b2 AND 0x3) OR ucast ?b3 :: u32) n = bit l n" if "n < LENGTH(32)"
      using that below_bits[OF l, of n]
      by (auto simp: bit_simps bit_masks32 bit_FC bit_300 not_less simp del: bit_numeral_word_iff)
  qed
qed

section \<open>The layout of a packet\<close>

definition red_wf :: "RedSenderState \<Rightarrow> bool" where
  "red_wf s \<longleftrightarrow> 0 < red_redundancyLevel s \<and> red_redundancyLevel s \<le> 9 \<and> length (red_slots s) = 9 \<and>
     unat (red_nextSlot s) < unat (red_redundancyLevel s) \<and>
     (\<forall>x \<in> set (red_slots s). length (rs_payload x) = 1023 \<and> rs_payloadLen x \<le> RED_MAX_BLOCK_LEN)"

definition slot_bytes :: "RedSenderSlot \<Rightarrow> bytes" where
  "slot_bytes x = take (unat (rs_payloadLen x)) (rs_payload x)"

text \<open>A frame of the ring that can be sent again with one of the timestamp \<open>ts\<close>.\<close>

definition slot_fits :: "u32 \<Rightarrow> RedSenderSlot \<Rightarrow> bool" where
  "slot_fits ts x \<longleftrightarrow> 0 < rs_payloadLen x \<and> rs_payloadLen x \<le> RED_MAX_BLOCK_LEN \<and> length (rs_payload x) = 1023 \<and>
     0 < ts - rs_rtpTimestamp x \<and> ts - rs_rtpTimestamp x < RED_MAX_TS_DELTA"

definition red_layout :: "byte \<Rightarrow> u32 \<Rightarrow> RedSenderSlot list \<Rightarrow> bytes \<Rightarrow> bytes" where
  "red_layout pt ts xs frame = concat (map (\<lambda>x. red_header pt (ts - rs_rtpTimestamp x) (rs_payloadLen x)) xs) @ [pt AND 0x7F] @
     concat (map slot_bytes xs) @ frame"

definition block_sizes :: "RedSenderSlot list \<Rightarrow> nat" where
  "block_sizes xs = sum_list (map (\<lambda>x. 4 + unat (rs_payloadLen x)) xs)"

lemma length_red_header [simp]: "length (red_header pt d l) = 4"
  by (simp add: red_header_def)

lemma length_slot_bytes: "slot_fits ts x \<Longrightarrow> length (slot_bytes x) = unat (rs_payloadLen x)"
  by (auto simp: slot_fits_def slot_bytes_def word_le_nat_alt)

lemma length_headers: "length (concat (map (\<lambda>x. red_header pt (d x) (l x)) xs)) = 4 * length xs"
  by (induction xs) auto

lemma length_red_layout: "\<forall>x \<in> set xs. slot_fits ts x \<Longrightarrow> length (red_layout pt ts xs frame) = 1 + length frame + block_sizes xs"
proof -
  assume ok: "\<forall>x \<in> set xs. slot_fits ts x"
  then have "length (concat (map slot_bytes xs)) = sum_list (map (\<lambda>x. unat (rs_payloadLen x)) xs)"
    by (induction xs) (auto simp: length_slot_bytes)
  moreover have "block_sizes xs = 4 * length xs + sum_list (map (\<lambda>x. unat (rs_payloadLen x)) xs)"
    by (induction xs) (auto simp: block_sizes_def)
  ultimately show ?thesis by (simp add: red_layout_def length_headers)
qed

lemma block_sizes_le: "\<forall>x \<in> set xs. slot_fits ts x \<Longrightarrow> block_sizes xs \<le> 1027 * length xs"
  by (induction xs) (auto simp: block_sizes_def slot_fits_def word_le_nat_alt)

lemma block_sizes_snoc: "block_sizes (xs @ [x]) = block_sizes xs + 4 + unat (rs_payloadLen x)"
  by (simp add: block_sizes_def)

section \<open>The sender writes the layout\<close>

definition chosen_slots :: "RedSenderState \<Rightarrow> nat list \<Rightarrow> RedSenderSlot list" where
  "chosen_slots s ch = map (nth (red_slots s)) ch"

definition chosen_ok :: "RedSenderState \<Rightarrow> u32 \<Rightarrow> nat list \<Rightarrow> bool" where
  "chosen_ok s ts ch \<longleftrightarrow> (\<forall>j \<in> set ch. j < 9) \<and> (\<forall>x \<in> set (chosen_slots s ch). slot_fits ts x)"

lemma select_loop_spec:
  assumes wf: "red_wf s" and "n \<le> 1023"
    and "chosen_ok s ts ch" and "length ch + length is \<le> 9" and "body = word_of_nat (1 + n + block_sizes (chosen_slots s ch))"
  shows "\<exists>ch' body'. select_loop s ts budget is ch body = Some (ch', body') \<and> chosen_ok s ts ch' \<and> length ch' \<le> 9 \<and>
    body' = word_of_nat (1 + n + block_sizes (chosen_slots s ch'))"
  using assms(3-)
proof (induction "is" arbitrary: ch body)
  case Nil
  then show ?case by simp
next
  case (Cons i "is")
  define j where "j = (unat (red_nextSlot s) + i) mod unat (red_redundancyLevel s)"
  have "0 < unat (red_redundancyLevel s)" "unat (red_redundancyLevel s) \<le> 9"
    using wf by (auto simp: red_wf_def word_le_nat_alt unat_gt_0)
  then have j: "j < 9" using mod_less_divisor[of "unat (red_redundancyLevel s)" "unat (red_nextSlot s) + i"] unfolding j_def by linarith
  then have get: "memget (red_slots s) j = Some (red_slots s ! j)" using wf by (simp add: red_wf_def memget_def)
  let ?x = "red_slots s ! j"
  have x: "length (rs_payload ?x) = 1023" using wf j by (simp add: red_wf_def)
  let ?skip = "rs_payloadLen ?x = 0 \<or> ts - rs_rtpTimestamp ?x = 0 \<or> ts - rs_rtpTimestamp ?x \<ge> RED_MAX_TS_DELTA \<or> rs_payloadLen ?x > RED_MAX_BLOCK_LEN"
  show ?case
  proof (cases ?skip)
    case True
    then have "select_loop s ts budget (i # is) ch body = select_loop s ts budget is ch body"
      by (simp add: j_def[symmetric] get Let_def)
    then show ?thesis using Cons by simp
  next
    case False
    then have fit: "slot_fits ts ?x" using x by (auto simp: slot_fits_def not_le not_less word_gt_0)
    have ok: "chosen_ok s ts (ch @ [j])" using Cons(2) fit j by (simp add: chosen_ok_def chosen_slots_def)
    have body: "body + (4 + rs_payloadLen ?x) = word_of_nat (1 + n + block_sizes (chosen_slots s (ch @ [j])))"
      using Cons(4) by (simp add: chosen_slots_def block_sizes_snoc)
    have "select_loop s ts budget (i # is) ch body = (if body + (4 + rs_payloadLen ?x) > budget then Some (ch, body)
        else select_loop s ts budget is (ch @ [j]) (body + (4 + rs_payloadLen ?x)))"
      using False Cons(3) by (simp add: j_def[symmetric] get Let_def)
    then show ?thesis using Cons(1)[OF ok _ body] Cons(2-4) by simp
  qed
qed

lemma put_headers:
  assumes "chosen_ok s ts ch" and "length (red_slots s) = 9" and "off + 4 * length ch \<le> length buf"
  shows "for_each (put_red_header s ts) ch (buf, off) =
    Some (bsplice buf off (concat (map (\<lambda>x. red_header (red_opusPayloadType s) (ts - rs_rtpTimestamp x) (rs_payloadLen x)) (chosen_slots s ch))),
      off + 4 * length ch)"
  using assms
proof (induction ch arbitrary: buf off)
  case (Cons j ch)
  have "chosen_ok s ts ch" "j < 9" using Cons(2) by (auto simp: chosen_ok_def chosen_slots_def)
  then show ?case using Cons(1)[of "off + 4" "bsplice buf off (red_header (red_opusPayloadType s) (ts - rs_rtpTimestamp (red_slots s ! j)) (rs_payloadLen (red_slots s ! j)))"] Cons(3,4)
    by (simp add: put_red_header_def memget_def memwrite_def chosen_slots_def)
qed (simp add: chosen_slots_def)

lemma put_payloads:
  assumes "chosen_ok s ts ch" and "length (red_slots s) = 9"
    and "off + length (concat (map slot_bytes (chosen_slots s ch))) \<le> length buf"
  shows "for_each (put_red_payload s) ch (buf, off) =
    Some (bsplice buf off (concat (map slot_bytes (chosen_slots s ch))), off + length (concat (map slot_bytes (chosen_slots s ch))))"
  using assms
proof (induction ch arbitrary: buf off)
  case (Cons j ch)
  let ?x = "red_slots s ! j"
  have ok: "chosen_ok s ts ch" "j < 9" "slot_fits ts ?x" using Cons(2) by (auto simp: chosen_ok_def chosen_slots_def)
  then have r: "memread (rs_payload ?x) 0 (unat (rs_payloadLen ?x)) = Some (slot_bytes ?x)"
    by (auto simp: memread_def slot_bytes_def slot_fits_def word_le_nat_alt)
  have l: "length (slot_bytes ?x) = unat (rs_payloadLen ?x)" by (rule length_slot_bytes[OF ok(3)])
  show ?case using Cons(1)[OF ok(1) Cons(3), of "off + length (slot_bytes ?x)" "bsplice buf off (slot_bytes ?x)"] Cons(3,4) ok r l
    by (simp add: put_red_payload_def memget_def memwrite_def chosen_slots_def ac_simps)
qed (simp add: chosen_slots_def)

definition mtu_budget :: "u32 \<Rightarrow> u32" where
  "mtu_budget mtu = (if mtu > SRTP_AUTH_TAG_OVERHEAD + 24 then mtu - SRTP_AUTH_TAG_OVERHEAD - 24 else 0)"

lemma select_spec:
  assumes "red_wf s" and "n \<le> 1023"
  obtains ch where "selectRedundantBlocks s ts budget (word_of_nat n) = Some (ch, word_of_nat (1 + n + block_sizes (chosen_slots s ch)))"
    "chosen_ok s ts ch" "length ch \<le> 9" "1 + n + block_sizes (chosen_slots s ch) < 2 ^ 16"
proof -
  have "chosen_ok s ts []" by (simp add: chosen_ok_def chosen_slots_def)
  moreover have "length ([] :: nat list) + length [0..<unat (red_redundancyLevel s)] \<le> 9" using assms(1) by (simp add: red_wf_def word_le_nat_alt)
  moreover have "1 + word_of_nat n = (word_of_nat (1 + n + block_sizes (chosen_slots s [])) :: u32)" by (simp add: chosen_slots_def block_sizes_def)
  ultimately obtain ch body where ch: "select_loop s ts budget [0..<unat (red_redundancyLevel s)] [] (1 + word_of_nat n) = Some (ch, body)"
      "chosen_ok s ts ch" "length ch \<le> 9" "body = word_of_nat (1 + n + block_sizes (chosen_slots s ch))"
    using select_loop_spec[OF assms] by metis
  have "block_sizes (chosen_slots s ch) \<le> 1027 * 9"
    using block_sizes_le[of "chosen_slots s ch" ts] ch(2,3) by (simp add: chosen_ok_def chosen_slots_def)
  then show thesis using that[of ch] ch assms(2) by (simp add: selectRedundantBlocks_def)
qed

lemma remember_spec:
  assumes "red_wf s" and "length frame \<le> 1023"
  obtains s' where "remember_frame s ts frame = Some s'" "red_wf s'" "red_opusPayloadType s' = red_opusPayloadType s"
    "red_redundancyLevel s' = red_redundancyLevel s" "red_nextSlot s' = (red_nextSlot s + 1) mod ucast (red_redundancyLevel s)"
    "length (red_slots s') = 9" "slot_bytes (red_slots s' ! unat (red_nextSlot s)) = frame"
    "rs_rtpTimestamp (red_slots s' ! unat (red_nextSlot s)) = ts" "rs_payloadLen (red_slots s' ! unat (red_nextSlot s)) = word_of_nat (length frame)"
proof -
  let ?k = "unat (red_nextSlot s)"
  have k: "?k < 9" "unat (red_redundancyLevel s) \<noteq> 0" using assms(1) by (auto simp: red_wf_def word_le_nat_alt unat_gt_0)
  let ?x = "\<lparr>rs_rtpTimestamp = ts, rs_payloadLen = word_of_nat (length frame), rs_payload = bsplice (rs_payload (red_slots s ! ?k)) 0 frame\<rparr>"
  let ?s = "s\<lparr>red_slots := (red_slots s)[?k := ?x], red_nextSlot := (red_nextSlot s + 1) mod ucast (red_redundancyLevel s)\<rparr>"
  have p: "length (rs_payload (red_slots s ! ?k)) = 1023" "length (red_slots s) = 9" using assms(1) k by (auto simp: red_wf_def)
  have len: "unat (word_of_nat (length frame) :: u32) = length frame" using assms(2) by (intro unat_small32) simp
  have "remember_frame s ts frame = Some ?s" using k p assms(2) by (simp add: remember_frame_def memget_def memwrite_def)
  moreover have "unat ((red_nextSlot s + 1) mod ucast (red_redundancyLevel s)) < unat (red_redundancyLevel s)"
  proof -
    have "unat (ucast (red_redundancyLevel s) :: u32) = unat (red_redundancyLevel s)"
      using assms(1) by (simp add: unsigned_ucast_eq take_bit_nat_eq_self red_wf_def word_le_nat_alt)
    then show ?thesis using k by (simp add: unat_mod_distrib)
  qed
  moreover have "\<forall>x \<in> set ((red_slots s)[?k := ?x]). length (rs_payload x) = 1023 \<and> rs_payloadLen x \<le> 1023"
    using assms p len by (auto simp: red_wf_def word_le_nat_alt dest!: set_update_subset_insert[THEN subsetD])
  ultimately show thesis using that[of ?s] assms(1) p k len by (simp add: red_wf_def slot_bytes_def bsplice_def)
qed

lemma red_created:
  assumes "red_wf s" and frame: "0 < length frame" "length frame \<le> 1023"
    and ch: "selectRedundantBlocks s ts (mtu_budget mtu) (word_of_nat (length frame)) = Some (ch, word_of_nat m)" "chosen_ok s ts ch"
    and m: "m = 1 + length frame + block_sizes (chosen_slots s ch)" "m < 2 ^ 16" "m \<le> length buf" "word_of_nat m \<le> cap"
    and s': "remember_frame s ts frame = Some s'"
  shows "createPayloadForOpusRed True mtu (Some frame) (word_of_nat (length frame)) ts (Some s) (Some buf) cap (Some (l # ls)) 1 fb =
    Some \<lparr>rr_status = STATUS_SUCCESS, rr_state = Some s',
      rr_payload = Some (red_layout (red_opusPayloadType s) ts (chosen_slots s ch) frame @ drop m buf),
      rr_subLength = Some (word_of_nat m # ls), rr_payloadLength = word_of_nat m, rr_subLenSize = 1, rr_fallback = False\<rparr>"
proof -
  let ?xs = "chosen_slots s ch" and ?pt = "red_opusPayloadType s"
  let ?H = "concat (map (\<lambda>x. red_header ?pt (ts - rs_rtpTimestamp x) (rs_payloadLen x)) ?xs)" and ?P = "concat (map slot_bytes ?xs)"
  have slots: "length (red_slots s) = 9" using assms(1) by (simp add: red_wf_def)
  have lay: "red_layout ?pt ts ?xs frame = ?H @ [?pt AND 0x7F] @ ?P @ frame" by (simp add: red_layout_def)
  have H: "length ?H = 4 * length ch" unfolding length_headers by (simp add: chosen_slots_def)
  have total: "4 * length ch + 1 + length ?P + length frame = m"
    using length_red_layout[of ?xs ts ?pt frame] ch(2) m(1) H unfolding lay chosen_ok_def by simp
  have u: "unat (word_of_nat (length frame) :: u32) = length frame" by (rule unat_small32) (use frame in simp)
  have nf: "(word_of_nat (length frame) :: u32) \<noteq> 0" "\<not> (word_of_nat (length frame) :: u32) > 1023"
    using u frame by (auto simp: word_less_nat_alt unat_eq_0[symmetric])
  have w: "for_each (put_red_header s ts) ch (buf, 0) = Some (bsplice buf 0 ?H, 4 * length ch)"
      "memwrite (bsplice buf 0 ?H) (4 * length ch) [?pt AND 0x7F] = Some (bsplice buf 0 (?H @ [?pt AND 0x7F]))"
      "for_each (put_red_payload s) ch (bsplice buf 0 (?H @ [?pt AND 0x7F]), 4 * length ch + 1) =
        Some (bsplice buf 0 (?H @ [?pt AND 0x7F] @ ?P), 4 * length ch + 1 + length ?P)"
      "memwrite (bsplice buf 0 (?H @ [?pt AND 0x7F] @ ?P)) (4 * length ch + 1 + length ?P) frame =
        Some (bsplice buf 0 (?H @ [?pt AND 0x7F] @ ?P @ frame))"
    using put_headers[OF ch(2) slots, of 0 buf] put_payloads[OF ch(2) slots, of "4 * length ch + 1" "bsplice buf 0 (?H @ [?pt AND 0x7F])"]
      total m(3) H by (simp_all add: memwrite_def)
  have b: "bsplice buf 0 (?H @ [?pt AND 0x7F] @ ?P @ frame) = red_layout ?pt ts ?xs frame @ drop m buf"
    using total[symmetric] H unfolding lay by (simp add: bsplice_def ac_simps)
  have r: "memread frame 0 (length frame) = Some frame" "memwrite (l # ls) 0 [word_of_nat m] = Some (word_of_nat m # ls)"
    by (simp_all add: memread_def memwrite_def bsplice_def)
  show ?thesis using nf u m(4) s' ch(1)[unfolded mtu_budget_def] w b r
    by (simp add: createPayloadForOpusRed_def Let_def)
qed

section \<open>The receiver reads the layout\<close>

definition slot_info :: "byte \<Rightarrow> u32 \<Rightarrow> RedSenderSlot \<Rightarrow> RedBlockInfo" where
  "slot_info pt ts x = \<lparr>bi_payloadType = pt AND 0x7F, bi_tsOffset = ts - rs_rtpTimestamp x, bi_payloadLen = rs_payloadLen x, bi_isLast = False\<rparr>"

definition primary_info :: "byte \<Rightarrow> u32 \<Rightarrow> RedBlockInfo" where
  "primary_info pt n = \<lparr>bi_payloadType = pt AND 0x7F, bi_tsOffset = 0, bi_payloadLen = n, bi_isLast = True\<rparr>"

lemma pt_no_flag: "(pt AND 0x7F) AND 0x80 = (0 :: byte)" "(pt AND 0x7F) AND 0x7F = (pt AND 0x7F :: byte)"
  by (simp_all add: and.assoc)

lemma parse_headers:
  assumes "\<forall>x \<in> set xs. slot_fits ts x" and "length blocks + length xs < 32" and "off + 4 * length xs + 1 \<le> n" and "n \<le> length body"
    and "drop off body = concat (map (\<lambda>x. red_header pt (ts - rs_rtpTimestamp x) (rs_payloadLen x)) xs) @ [pt AND 0x7F] @ rest"
  shows "parse_red_from body n 32 off blocks =
    Some (STATUS_SUCCESS, blocks @ map (slot_info pt ts) xs @ [primary_info pt 0], off + 4 * length xs + 1)"
  using assms
proof (induction xs arbitrary: off blocks)
  case Nil
  have "body ! off = pt AND 0x7F" using arg_cong[OF Nil(5), of hd] Nil(3,4) by (simp add: hd_drop_conv_nth)
  then show ?case using Nil by (subst parse_red_from.simps) (simp add: memget_def pt_no_flag primary_info_def)
next
  case (Cons x xs)
  have x: "slot_fits ts x" using Cons(2) by simp
  then have "unat (ts - rs_rtpTimestamp x) < 2 ^ 14" "unat (rs_payloadLen x) < 2 ^ 10"
    by (auto simp: slot_fits_def word_less_nat_alt word_le_nat_alt)
  then obtain b0 b1 b2 b3 where b: "red_header pt (ts - rs_rtpTimestamp x) (rs_payloadLen x) = [b0, b1, b2, b3]" "b0 AND 0x80 \<noteq> 0"
      "b0 AND 0x7F = pt AND 0x7F" "push_bit 6 (ucast b1) OR drop_bit 2 (ucast b2) = ts - rs_rtpTimestamp x"
      "push_bit 8 (ucast b2 AND 0x3) OR ucast b3 = rs_payloadLen x"
    by (rule red_header_fields)
  let ?rest = "concat (map (\<lambda>x. red_header pt (ts - rs_rtpTimestamp x) (rs_payloadLen x)) xs) @ [pt AND 0x7F] @ rest"
  have d: "drop off body = b0 # b1 # b2 # b3 # ?rest" using Cons(6) b(1) by simp
  have "off < length body" using Cons(4,5) by simp
  then have g: "memget body off = Some b0" using hd_drop_conv_nth[of off body] d by (simp add: memget_def)
  have "drop (off + 1) body = b1 # b2 # b3 # ?rest" "drop (off + 4) body = ?rest"
    using arg_cong[OF d, of "drop 1"] arg_cong[OF d, of "drop 4"] by (simp_all add: ac_simps)
  then have r: "memread body (off + 1) 3 = Some [b1, b2, b3]" "drop (off + 4) body = ?rest"
    using Cons(4,5) by (simp_all add: memread_def)
  have "parse_red_from body n 32 off blocks = parse_red_from body n 32 (off + 4) (blocks @ [slot_info pt ts x])"
    using Cons(3-5) g r(1) b by (subst parse_red_from.simps) (simp add: slot_info_def)
  also have "\<dots> = Some (STATUS_SUCCESS, (blocks @ [slot_info pt ts x]) @ map (slot_info pt ts) xs @ [primary_info pt 0], off + 4 + 4 * length xs + 1)"
    using Cons(2-5) r(2) by (intro Cons(1)) simp_all
  finally show ?case by simp
qed

text \<open>The packet that is built for a block.\<close>

definition red_packet :: "RtpPacket \<Rightarrow> byte \<Rightarrow> u32 \<Rightarrow> u16 \<Rightarrow> bytes \<Rightarrow> bool \<Rightarrow> RtpPacket" where
  "red_packet red pt ts seq data synthetic = the (snd (buildSyntheticPacket True red pt ts seq data synthetic))"

lemma build_packet: "buildSyntheticPacket True red pt ts seq data synthetic = (STATUS_SUCCESS, Some (red_packet red pt ts seq data synthetic))"
  by (simp add: red_packet_def buildSyntheticPacket_def Let_def)

definition redundant_packets :: "RtpPacket \<Rightarrow> byte \<Rightarrow> nat \<Rightarrow> (nat \<times> RedSenderSlot) list \<Rightarrow> RtpPacket list" where
  "redundant_packets red pt n xs = map (\<lambda>(i, x). red_packet red pt (rs_rtpTimestamp x)
     (sequenceNumber (header red) - word_of_nat (n - 1 - i)) (slot_bytes x) True) xs"

lemma split_blocks:
  assumes "\<forall>x \<in> set (map snd xs). slot_fits ts x" and "timestamp (header red) = ts" and "pt AND 0x7F = pt"
    and "drop cursor body = concat (map (\<lambda>x. slot_bytes (snd x)) xs) @ frame" and "cursor \<le> length body" and "length frame < 2 ^ 32"
  shows "split_loop (\<lambda>_. True) red pt body n (map (\<lambda>(i, x). (i, slot_info pt ts x)) xs @ [(j, primary_info pt (word_of_nat (length frame)))]) cursor out fec =
    Some (STATUS_SUCCESS, out @ redundant_packets red pt n xs @ [red_packet red pt ts (sequenceNumber (header red)) frame False],
      fec + word_of_nat (sum_list (map (\<lambda>x. unat (rs_payloadLen (snd x))) xs)))"
  using assms(1,4,5)
proof (induction xs arbitrary: cursor out fec)
  case Nil
  have "length body - cursor = length frame" using arg_cong[OF Nil(2), of length] by simp
  then have "memread body cursor (length frame) = Some frame" using Nil(2,3) by (simp add: memread_def)
  moreover have "unat (word_of_nat (length frame) :: u32) = length frame" using assms(6) by (rule unat_small32)
  ultimately show ?case using assms(2,3) by (simp add: primary_info_def build_packet redundant_packets_def)
next
  case (Cons ix xs)
  obtain i x where ix: "ix = (i, x)" by (cases ix)
  have x: "slot_fits ts x" using Cons(2) ix by simp
  have len: "length (slot_bytes x) = unat (rs_payloadLen x)" by (rule length_slot_bytes[OF x])
  have "length (slot_bytes x) \<le> length (drop cursor body)" unfolding Cons(3) ix by simp
  then have le: "cursor + unat (rs_payloadLen x) \<le> length body" using Cons(4) len by simp
  have data: "memread body cursor (unat (rs_payloadLen x)) = Some (slot_bytes x)" using le Cons(3) len ix by (simp add: memread_def)
  have "drop (cursor + unat (rs_payloadLen x)) body = drop (unat (rs_payloadLen x)) (drop cursor body)" by (simp add: ac_simps)
  then have rest: "drop (cursor + unat (rs_payloadLen x)) body = concat (map (\<lambda>x. slot_bytes (snd x)) xs) @ frame" using Cons(3) len ix by simp
  have ok: "\<forall>x \<in> set (map snd xs). slot_fits ts x" using Cons(2) by simp
  show ?case using Cons(1)[OF ok rest le] assms(2,3) data ix
    by (simp add: slot_info_def build_packet redundant_packets_def)
qed

lemma enumerate_values: "map (\<lambda>x. f (snd x)) (enumerate n xs) = map f xs"
  by (induction xs arbitrary: n) auto

lemma red_split:
  assumes xs: "\<forall>x \<in> set xs. slot_fits ts x" "length xs \<le> 9" and frame: "length frame < 2 ^ 16" and pt: "pt AND 0x7F = pt"
    and red: "payload red = Some (red_layout pt ts xs frame)" "payloadLength red = word_of_nat (length (red_layout pt ts xs frame))"
      "timestamp (header red) = ts"
  shows "splitRedRtpPacket (\<lambda>_. True) (Some red) pt True 32 =
    Some (STATUS_SUCCESS, redundant_packets red pt (length xs + 1) (enumerate 0 xs) @ [red_packet red pt ts (sequenceNumber (header red)) frame False],
      word_of_nat (sum_list (map (\<lambda>x. unat (rs_payloadLen x)) xs)))"
proof -
  let ?body = "red_layout pt ts xs frame" and ?sum = "sum_list (map (\<lambda>x. unat (rs_payloadLen x)) xs)"
  have len: "length ?body = 4 * length xs + 1 + ?sum + length frame"
    using length_red_layout[OF xs(1), of pt frame] by (simp add: block_sizes_def sum_list_addf sum_list_triv)
  have "?sum \<le> 1023 * length xs" using xs(1) by (induction xs) (auto simp: slot_fits_def word_le_nat_alt)
  then have small: "length ?body < 2 ^ 32" using len frame xs(2) by simp
  then have n: "unat (payloadLength red) = length ?body" unfolding red(2) by (rule unat_small32)
  have parse: "parseRedHeaders ?body (length ?body) 32 = Some (STATUS_SUCCESS, map (slot_info pt ts) xs @ [primary_info pt 0], 4 * length xs + 1)"
    using parse_headers[OF xs(1), of "[]" 0 "length ?body" ?body pt "concat (map slot_bytes xs) @ frame"] xs(2) len
    by (simp add: parseRedHeaders_def red_layout_def primary_info_def)
  have sum: "sum_list (map (\<lambda>b. unat (bi_payloadLen b)) (map (slot_info pt ts) xs)) = ?sum"
    by (simp add: slot_info_def comp_def)
  have rest: "length ?body - (4 * length xs + 1) - ?sum = length frame" using len by simp
  have p0: "(primary_info pt 0)\<lparr>bi_payloadLen := m\<rparr> = primary_info pt m" for m by (simp add: primary_info_def)
  have en: "enumerate 0 (map (slot_info pt ts) xs @ [b]) = map (\<lambda>(i, x). (i, slot_info pt ts x)) (enumerate 0 xs) @ [(length xs, b)]" for b
    by (simp add: enumerate_append_eq enumerate_map_upt enumerate_eq_zip zip_map2)
  have d: "drop (4 * length xs + 1) ?body = concat (map (\<lambda>x. slot_bytes (snd x)) (enumerate 0 xs)) @ frame"
    by (simp add: red_layout_def length_headers enumerate_values[of slot_bytes])
  have sum2: "sum_list (map (\<lambda>x. unat (rs_payloadLen (snd x))) (enumerate 0 xs)) = ?sum"
    by (simp only: enumerate_values[of "\<lambda>x. unat (rs_payloadLen x)"])
  have split: "split_loop (\<lambda>_. True) red pt ?body (length xs + 1)
      (map (\<lambda>(i, x). (i, slot_info pt ts x)) (enumerate 0 xs) @ [(length xs, primary_info pt (word_of_nat (length frame)))]) (4 * length xs + 1) [] 0 =
    Some (STATUS_SUCCESS, redundant_packets red pt (length xs + 1) (enumerate 0 xs) @ [red_packet red pt ts (sequenceNumber (header red)) frame False],
      word_of_nat ?sum)"
    using split_blocks[of "enumerate 0 xs" ts red pt "4 * length xs + 1" ?body frame "length xs + 1" "length xs" "[]" 0] xs(1) red(3) pt d len frame
    by (simp add: sum2)
  have "length ?body \<noteq> 0" "4 * length xs + 1 + ?sum \<le> length ?body" using len by simp_all
  moreover have "length (map (slot_info pt ts) xs @ [primary_info pt 0]) \<le> 32" using xs(2) by simp
  ultimately show ?thesis using parse split sum rest
    unfolding splitRedRtpPacket_def red(1) option.case Let_def n by (simp add: p0 en del: map_map)
qed

section \<open>A lost frame\<close>

text \<open>The slots in the order of the walk, the oldest first.\<close>

definition ring_walk :: "RedSenderState \<Rightarrow> nat list" where
  "ring_walk s = map (\<lambda>i. (unat (red_nextSlot s) + i) mod unat (red_redundancyLevel s)) [0..<unat (red_redundancyLevel s)]"

lemma walk_bound: "red_wf s \<Longrightarrow> (unat (red_nextSlot s) + i) mod unat (red_redundancyLevel s) < 9"
proof -
  assume "red_wf s"
  then have "0 < unat (red_redundancyLevel s)" "unat (red_redundancyLevel s) \<le> 9"
    by (auto simp: red_wf_def word_le_nat_alt unat_gt_0)
  then show ?thesis using mod_less_divisor[of "unat (red_redundancyLevel s)" "unat (red_nextSlot s) + i"] by linarith
qed

text \<open>Without a limit of the size, the walk takes every frame that can be sent again.\<close>

lemma select_loop_all:
  assumes wf: "red_wf s" and "length ch + length is \<le> 9" and "body = word_of_nat m"
    and "m + block_sizes (map (\<lambda>i. red_slots s ! ((unat (red_nextSlot s) + i) mod unat (red_redundancyLevel s))) is) \<le> unat budget"
  shows "\<exists>body'. select_loop s ts budget is ch body = Some (ch @ filter (\<lambda>j. slot_fits ts (red_slots s ! j))
    (map (\<lambda>i. (unat (red_nextSlot s) + i) mod unat (red_redundancyLevel s)) is), body')"
  using assms(2-)
proof (induction "is" arbitrary: ch body m)
  case (Cons i "is")
  define j where "j = (unat (red_nextSlot s) + i) mod unat (red_redundancyLevel s)"
  have j: "j < 9" unfolding j_def by (rule walk_bound[OF wf])
  then have get: "memget (red_slots s) j = Some (red_slots s ! j)" using wf by (simp add: red_wf_def memget_def)
  let ?x = "red_slots s ! j"
  have x: "length (rs_payload ?x) = 1023" using wf j by (simp add: red_wf_def)
  let ?skip = "rs_payloadLen ?x = 0 \<or> ts - rs_rtpTimestamp ?x = 0 \<or> ts - rs_rtpTimestamp ?x \<ge> RED_MAX_TS_DELTA \<or> rs_payloadLen ?x > RED_MAX_BLOCK_LEN"
  have sz: "m + 4 + unat (rs_payloadLen ?x) + block_sizes (map (\<lambda>i. red_slots s ! ((unat (red_nextSlot s) + i) mod unat (red_redundancyLevel s))) is) \<le> unat budget"
    using Cons(4) by (simp add: block_sizes_def j_def)
  show ?case
  proof (cases ?skip)
    case True
    then have "select_loop s ts budget (i # is) ch body = select_loop s ts budget is ch body"
      by (simp add: j_def[symmetric] get Let_def)
    moreover have "\<not> slot_fits ts ?x" using True by (auto simp: slot_fits_def not_le not_less)
    ultimately show ?thesis using Cons(1)[of ch body m] Cons(2,3) sz by (simp add: j_def[symmetric])
  next
    case False
    have fit: "slot_fits ts ?x" using False x by (auto simp: slot_fits_def not_le not_less word_gt_0)
    have body: "body + (4 + rs_payloadLen ?x) = word_of_nat (m + 4 + unat (rs_payloadLen ?x))" using Cons(3) by simp
    have "m + 4 + unat (rs_payloadLen ?x) < 2 ^ 32" using sz unsigned_less[of budget, where ?'a = nat] by simp
    then have "unat (word_of_nat (m + 4 + unat (rs_payloadLen ?x)) :: u32) = m + 4 + unat (rs_payloadLen ?x)" by (rule unat_small32)
    then have fits: "\<not> body + (4 + rs_payloadLen ?x) > budget" unfolding body using sz by (simp only: word_less_nat_alt)
    have step: "select_loop s ts budget (i # is) ch body = select_loop s ts budget is (ch @ [j]) (body + (4 + rs_payloadLen ?x))"
      using False Cons(2) fits by (simp add: j_def[symmetric] get Let_def)
    show ?thesis unfolding step using Cons(1)[OF _ body, of "ch @ [j]"] Cons(2) sz fit by (simp add: j_def[symmetric])
  qed
qed simp

lemma select_all:
  assumes "red_wf s" and "1 + n + block_sizes (chosen_slots s (ring_walk s)) \<le> unat budget"
  obtains body where "selectRedundantBlocks s ts budget (word_of_nat n) =
    Some (filter (\<lambda>j. slot_fits ts (red_slots s ! j)) (ring_walk s), body)"
proof -
  have a1: "1 + n + block_sizes (map (\<lambda>i. red_slots s ! ((unat (red_nextSlot s) + i) mod unat (red_redundancyLevel s))) [0..<unat (red_redundancyLevel s)])
      \<le> unat budget"
    using assms(2) by (simp add: ring_walk_def chosen_slots_def comp_def)
  have a2: "length ([] :: nat list) + length [0..<unat (red_redundancyLevel s)] \<le> 9" using assms(1) by (simp add: red_wf_def word_le_nat_alt)
  have a3: "1 + word_of_nat n = (word_of_nat (1 + n) :: u32)" by simp
  from select_loop_all[OF assms(1) a2 a3 a1, of ts] obtain body
    where "select_loop s ts budget [0..<unat (red_redundancyLevel s)] [] (1 + word_of_nat n) =
      Some ([] @ filter (\<lambda>j. slot_fits ts (red_slots s ! j)) (ring_walk s), body)"
    unfolding ring_walk_def by (rule exE)
  then show thesis by (intro that[of body]) (simp add: selectRedundantBlocks_def)
qed

lemma newest_last:
  assumes "red_wf s" and "red_redundancyLevel s' = red_redundancyLevel s"
    and "red_nextSlot s' = (red_nextSlot s + 1) mod ucast (red_redundancyLevel s)"
  obtains w where "ring_walk s' = w @ [unat (red_nextSlot s)]"
proof -
  let ?n = "unat (red_redundancyLevel s)" and ?k = "unat (red_nextSlot s)"
  have n: "0 < ?n" "?n \<le> 9" "?k < ?n" using assms(1) by (auto simp: red_wf_def word_le_nat_alt unat_gt_0)
  have "unat (ucast (red_redundancyLevel s) :: u32) = ?n" using n by (simp add: unsigned_ucast_eq take_bit_nat_eq_self)
  moreover have "unat (red_nextSlot s + 1) = ?k + 1" using n by (simp add: unat_word_ariths)
  ultimately have k: "unat (red_nextSlot s') = (?k + 1) mod ?n" using assms(3) by (simp add: unat_mod_distrib)
  have "((?k + 1) mod ?n + (?n - 1)) mod ?n = (?k + 1 + (?n - 1)) mod ?n" by (rule mod_add_left_eq)
  also have "\<dots> = ?k" using n by simp
  finally have l: "((?k + 1) mod ?n + (?n - 1)) mod ?n = ?k" .
  have u: "[0..<?n] = [0..<?n - 1] @ [?n - 1]" using n(1) upt_Suc_append[of 0 "?n - 1"] by simp
  show thesis
    by (rule that[of "map (\<lambda>i. ((?k + 1) mod ?n + i) mod ?n) [0..<?n - 1]"])
      (unfold ring_walk_def k assms(2), subst u, simp only: map_append list.map l)
qed

text \<open>One frame through \<^verbatim>\<open>writeFrame\<close>.\<close>

lemma write_frame_spec:
  assumes "red_wf s" and frame: "0 < length frame" "length frame \<le> 1023"
    and ch: "selectRedundantBlocks s ts (mtu_budget mtu) (word_of_nat (length frame)) = Some (ch, word_of_nat m)" "chosen_ok s ts ch"
    and m: "m = 1 + length frame + block_sizes (chosen_slots s ch)" "m < 2 ^ 16" and s': "remember_frame s ts frame = Some s'"
  obtains buf' subs' where "write_red_frame fresh mtu frame ts s buf subs = Some (STATUS_SUCCESS, Some (s', buf', subs', word_of_nat m, False))"
    "take m buf' = red_layout (red_opusPayloadType s) ts (chosen_slots s ch) frame"
proof -
  let ?buf = "if m > length buf then map fresh [0..<m] else buf" and ?subs = "if length subs < 1 then [0] else subs"
  let ?lay = "red_layout (red_opusPayloadType s) ts (chosen_slots s ch) frame"
  have u: "unat (word_of_nat (length frame) :: u32) = length frame" "unat (word_of_nat m :: u32) = m"
    by (rule unat_small32; use frame m(2) in simp)+
  have nf: "(word_of_nat (length frame) :: u32) \<noteq> 0" "\<not> (word_of_nat (length frame) :: u32) > 1023"
    using u(1) frame by (auto simp: word_less_nat_alt unat_eq_0[symmetric])
  have first: "createPayloadForOpusRed True mtu (Some frame) (word_of_nat (length frame)) ts (Some s) None 0 None 1 False =
      Some \<lparr>rr_status = STATUS_SUCCESS, rr_state = Some s, rr_payload = None, rr_subLength = None, rr_payloadLength = word_of_nat m,
        rr_subLenSize = 1, rr_fallback = False\<rparr>"
    using nf ch(1)[unfolded mtu_budget_def] by (simp add: createPayloadForOpusRed_def Let_def)
  obtain l ls where ls: "?subs = l # ls" by (cases subs) auto
  have second: "createPayloadForOpusRed True mtu (Some frame) (word_of_nat (length frame)) ts (Some s) (Some ?buf) (word_of_nat m) (Some (l # ls)) 1 False =
      Some \<lparr>rr_status = STATUS_SUCCESS, rr_state = Some s', rr_payload = Some (?lay @ drop m ?buf), rr_subLength = Some (word_of_nat m # ls),
        rr_payloadLength = word_of_nat m, rr_subLenSize = 1, rr_fallback = False\<rparr>"
    using assms(1) frame ch m s' by (intro red_created) auto
  have "length ?lay = m" using length_red_layout ch(2) m(1) by (simp add: chosen_ok_def)
  then have "take m (?lay @ drop m ?buf) = ?lay" by simp
  moreover have "write_red_frame fresh mtu frame ts s buf subs = Some (STATUS_SUCCESS, Some (s', ?lay @ drop m ?buf, word_of_nat m # ls, word_of_nat m, False))"
    unfolding write_red_frame_def first bind.bind_lunit red_result.simps Let_def u(2) ls second by simp
  ultimately show thesis using that by blast
qed

text \<open>The frame that was sent last is the last of those that are sent again.\<close>

lemma newest_chosen:
  assumes "red_wf s" and f: "0 < length f" "length f \<le> 1023" and d: "0 < ts2 - ts1" "ts2 - ts1 < 16384" and n: "n \<le> 1023"
    and s': "remember_frame s ts1 f = Some s'" and fits: "1 + n + block_sizes (chosen_slots s' (ring_walk s')) \<le> unat budget"
  obtains c k where "selectRedundantBlocks s' ts2 budget (word_of_nat n) = Some (c @ [k], word_of_nat (1 + n + block_sizes (chosen_slots s' (c @ [k]))))"
    "chosen_ok s' ts2 (c @ [k])" "length (c @ [k]) \<le> 9" "1 + n + block_sizes (chosen_slots s' (c @ [k])) < 2 ^ 16" "red_wf s'"
    "red_opusPayloadType s' = red_opusPayloadType s" "slot_bytes (red_slots s' ! k) = f" "rs_rtpTimestamp (red_slots s' ! k) = ts1"
proof -
  let ?k = "unat (red_nextSlot s)" and ?x = "red_slots s' ! unat (red_nextSlot s)"
  obtain r where "remember_frame s ts1 f = Some r" "red_wf r" "red_opusPayloadType r = red_opusPayloadType s"
      "red_redundancyLevel r = red_redundancyLevel s" "red_nextSlot r = (red_nextSlot s + 1) mod ucast (red_redundancyLevel s)"
      "slot_bytes (red_slots r ! ?k) = f" "rs_rtpTimestamp (red_slots r ! ?k) = ts1" "rs_payloadLen (red_slots r ! ?k) = word_of_nat (length f)"
    by (rule remember_spec[OF assms(1) f(2), of ts1])
  then have r: "red_wf s'" "red_opusPayloadType s' = red_opusPayloadType s" "red_redundancyLevel s' = red_redundancyLevel s"
      "red_nextSlot s' = (red_nextSlot s + 1) mod ucast (red_redundancyLevel s)" "slot_bytes ?x = f" "rs_rtpTimestamp ?x = ts1"
      "rs_payloadLen ?x = word_of_nat (length f)"
    using s' by simp_all
  obtain w where w: "ring_walk s' = w @ [?k]" by (rule newest_last[OF assms(1) r(3,4)])
  obtain body where all: "selectRedundantBlocks s' ts2 budget (word_of_nat n) =
      Some (filter (\<lambda>j. slot_fits ts2 (red_slots s' ! j)) (ring_walk s'), body)"
    by (rule select_all[OF r(1) fits])
  obtain ch where ch: "selectRedundantBlocks s' ts2 budget (word_of_nat n) = Some (ch, word_of_nat (1 + n + block_sizes (chosen_slots s' ch)))"
      "chosen_ok s' ts2 ch" "length ch \<le> 9" "1 + n + block_sizes (chosen_slots s' ch) < 2 ^ 16"
    by (rule select_spec[OF r(1) n])
  have k: "?k < 9" using assms(1) by (auto simp: red_wf_def word_le_nat_alt)
  have lf: "unat (word_of_nat (length f) :: u32) = length f" using f(2) by (intro unat_small32) simp
  have "length (rs_payload ?x) = 1023" using r(1) k by (simp add: red_wf_def)
  moreover have "0 < rs_payloadLen ?x" "rs_payloadLen ?x \<le> 1023"
    unfolding r(7) using lf f by (simp_all add: word_less_nat_alt word_le_nat_alt)
  ultimately have fit: "slot_fits ts2 ?x" using d by (simp add: slot_fits_def r(6))
  have "ch = filter (\<lambda>j. slot_fits ts2 (red_slots s' ! j)) (ring_walk s')" using ch(1) unfolding all by simp
  then obtain c where c: "ch = c @ [?k]" unfolding w using fit by simp
  show thesis by (rule that[OF ch[unfolded c] r(1,2,5,6)])
qed

text \<open>A packet with the layout of the slots \<open>xs @ [x]\<close> ends with the packets of \<open>x\<close> and of the frame.\<close>

lemma split_newest:
  assumes "\<forall>y \<in> set (xs @ [x]). slot_fits ts y" "length (xs @ [x]) \<le> 9" and "length g < 2 ^ 16" and "pt AND 0x7F = pt"
    and "timestamp (header red) = ts" and m: "m = length (red_layout pt ts (xs @ [x]) g)"
  obtains before fec where "splitRedRtpPacket (\<lambda>_. True)
      (Some (red\<lparr>payload := Some (red_layout pt ts (xs @ [x]) g), payloadLength := word_of_nat m\<rparr>)) pt True 32 =
    Some (STATUS_SUCCESS, before @ [red_packet red pt (rs_rtpTimestamp x) (sequenceNumber (header red) - 1) (slot_bytes x) True,
      red_packet red pt ts (sequenceNumber (header red)) g False], fec)"
proof -
  let ?red = "red\<lparr>payload := Some (red_layout pt ts (xs @ [x]) g), payloadLength := word_of_nat m\<rparr>"
  have lay: "payload ?red = Some (red_layout pt ts (xs @ [x]) g)" "payloadLength ?red = word_of_nat (length (red_layout pt ts (xs @ [x]) g))"
      "timestamp (header ?red) = ts"
    using assms(5) m by simp_all
  have pk: "red_packet ?red a b c d e = red_packet red a b c d e" for a b c d e by (simp add: red_packet_def buildSyntheticPacket_def Let_def)
  have "redundant_packets ?red pt (length (xs @ [x]) + 1) (enumerate 0 (xs @ [x])) =
      redundant_packets ?red pt (length (xs @ [x]) + 1) (enumerate 0 xs) @
        [red_packet red pt (rs_rtpTimestamp x) (sequenceNumber (header red) - 1) (slot_bytes x) True]"
    by (simp add: redundant_packets_def enumerate_append_eq pk)
  then show thesis using red_split[OF assms(1-4) lay] by (intro that) (simp add: pk)
qed


text \<open>A call with an audio frame of two bytes at time 0 and one of three bytes 20 ms later.\<close>

definition red_example :: RedSenderState where
  "red_example = the (snd (createRedSenderState True 2 111 True))"

lemma red_example_wf: "red_wf red_example" "red_opusPayloadType red_example = 111"
  by (simp_all add: red_example_def createRedSenderState_def red_wf_def)

lemma red_example_sent:
  obtains s1 buf1 subs1 n fb where "write_red_frame (\<lambda>_. 0) 1200 [1, 2] 0 red_example [] [] = Some (STATUS_SUCCESS, Some (s1, buf1, subs1, n, fb))"
    "1 + length [3, 4, 5 :: byte] + block_sizes (chosen_slots s1 (ring_walk s1)) \<le> unat (mtu_budget 1200)"
proof -
  have "case write_red_frame (\<lambda>_. 0) 1200 [1, 2] 0 red_example [] [] of
      Some (STATUS_SUCCESS, Some (s1, _)) \<Rightarrow> 1 + length [3, 4, 5 :: byte] + block_sizes (chosen_slots s1 (ring_walk s1)) \<le> unat (mtu_budget 1200)
    | _ \<Rightarrow> False"
    by code_simp
  then show thesis using that by (auto split: option.splits prod.splits STATUS.splits)
qed


text \<open>
  The sequence number of a redundant packet is the number of the RED packet less its distance to the primary block, which is right
  only when every frame between them is in the packet. When the frames are too large for the MTU the walk stops after the oldest ones, and
  the frame sent two packets before gets the number of the one in between; so it does when the frame in between was sent alone.
\<close>

fun send_red_frames :: "u32 \<Rightarrow> RedSenderState \<Rightarrow> (u32 \<times> bytes) list \<Rightarrow> bytes option" where
  "send_red_frames mtu s [] = None"
| "send_red_frames mtu s ((ts, frame) # rest) = (case write_red_frame (\<lambda>_. 0) mtu frame ts s [] [] of
     Some (STATUS_SUCCESS, Some (s', buf, _, n, _)) \<Rightarrow> (if rest = [] then Some (take (unat n) buf) else send_red_frames mtu s' rest)
   | _ \<Rightarrow> None)"

definition red_numbers :: "u32 \<Rightarrow> (u32 \<times> bytes) list \<Rightarrow> u16 \<Rightarrow> (u32 \<times> u16) list" where
  "red_numbers mtu frames seq = (case send_red_frames mtu red_example frames of
     None \<Rightarrow> []
   | Some body \<Rightarrow> (case splitRedRtpPacket (\<lambda>_. True) (Some (red_packet packet0 63 (fst (last frames)) seq body False)) 111 True 32 of
       None \<Rightarrow> []
     | Some (_, ps, _) \<Rightarrow> map (\<lambda>p. (timestamp (header p), sequenceNumber (header p))) ps))"

lemma red_numbers_in_order: "red_numbers 1200 [(0, [1, 2]), (960, [3]), (1920, [4])] 10 = [(0, 8), (960, 9), (1920, 10)]"
  by code_simp

lemma red_numbers_over_mtu:
  "red_numbers 60 [(0, [1, 2, 3, 4, 5, 6]), (960, [1, 2, 3, 4, 5, 6]), (1920, [1, 2, 3, 4, 5, 6])] 10 = [(0, 9), (1920, 10)]"
  by code_simp

lemma red_numbers_after_plain_frame: "red_numbers 1200 [(0, [1, 2]), (960, replicate 1024 0), (1920, [4])] 10 = [(0, 9), (1920, 10)]"
  by code_simp

end
