(* ===== verification/RtpPayloader.thy ===== *)
theory RtpPayloader
  imports RtpPacket
begin

text \<open>
  \<^verbatim>\<open>src/source/Rtp/Codecs\<close>: \<^verbatim>\<open>RtpOpusPayloader.c\<close>, \<^verbatim>\<open>RtpG711Payloader.c\<close> and \<^verbatim>\<open>RtpVP8Payloader.c\<close>.

  A payloader spreads a frame over the payloads of RTP packets. Called without a buffer it
  only returns the size of the payloads and their number; called with a buffer it stores the
  payloads one after the other and their lengths in a second list. The depayloader takes the
  data out of one payload. The result of a payloader is the status, the buffer, the list of
  lengths and the values of \<open>*pPayloadLength\<close> and \<open>*pPayloadSubLenSize\<close>; that of a depayloader
  the status, the data, the value of \<open>*pLength\<close> and that of \<open>*pIsStart\<close>. \<open>None\<close> is an access
  outside a buffer, a division by zero or a loop that does not end.

  The contract of a payloader is the locale \<open>payloader\<close>; the transport of a frame, from the
  payloader over the packets and their bytes to the depayloader, is proved there once.
\<close>

section \<open>Interface\<close>

type_synonym payload_result = "(STATUS \<times> bytes option \<times> u32 list option \<times> u32 option \<times> u32 option) option"
type_synonym depay_result = "(STATUS \<times> bytes option \<times> u32 option \<times> bool) option"

text \<open>The clean-up part that the payloaders share: sizes are stored when both pointers are not null.\<close>

definition report_sizes :: "bool \<Rightarrow> STATUS \<Rightarrow> u32 \<Rightarrow> u32 \<Rightarrow> u32 option \<Rightarrow> u32 option \<Rightarrow> u32 option \<times> u32 option" where
  "report_sizes sizeOnly status len n pLen pSub =
     (if pSub \<noteq> None \<and> pLen \<noteq> None
      then (if status \<noteq> STATUS_SUCCESS \<and> sizeOnly then (Some 0, Some 0) else (Some len, Some n))
      else (pLen, pSub))"

section \<open>Opus\<close>

definition createPayloadForOpus ::
  "u32 \<Rightarrow> bytes option \<Rightarrow> u32 \<Rightarrow> bytes option \<Rightarrow> u32 option \<Rightarrow> u32 list option \<Rightarrow> u32 option \<Rightarrow> payload_result" where
  "createPayloadForOpus mtu pFrame frameLength pBuf pLen pSubLens pSub =
     (let sizeOnly = (pBuf = None); done = (\<lambda>status len n buf lens. Some (status, buf, lens, report_sizes sizeOnly status len n pLen pSub)) in
      case (pFrame, pSub, pLen) of
        (Some frame, Some subSize, Some bufLen) \<Rightarrow>
          if \<not> (sizeOnly \<or> pSubLens \<noteq> None) then done STATUS_NULL_ARG 0 0 pBuf pSubLens
          else (case (pBuf, pSubLens) of
            (Some buf, Some lens) \<Rightarrow>
              if \<not> (frameLength \<le> bufLen \<and> 1 \<le> subSize) then done STATUS_BUFFER_TOO_SMALL frameLength 1 pBuf pSubLens
              else do { d \<leftarrow> memread frame 0 (unat frameLength);
                        buf \<leftarrow> memwrite buf 0 d;
                        lens \<leftarrow> memwrite lens 0 [frameLength];
                        done STATUS_SUCCESS frameLength 1 (Some buf) (Some lens) }
          | _ \<Rightarrow> done STATUS_SUCCESS frameLength 1 pBuf pSubLens)
      | _ \<Rightarrow> done STATUS_NULL_ARG 0 0 pBuf pSubLens)"

definition depayOpusFromRtpPayload ::
  "bytes option \<Rightarrow> u32 \<Rightarrow> bytes option \<Rightarrow> u32 option \<Rightarrow> depay_result" where
  "depayOpusFromRtpPayload pRaw packetLength pData pLength =
     (case (pRaw, pLength) of
        (Some raw, Some maxLength) \<Rightarrow>
          if packetLength = 0 then Some (STATUS_SUCCESS, pData, Some 0, True)
          else (case pData of
            None \<Rightarrow> Some (STATUS_SUCCESS, None, Some packetLength, True)
          | Some out \<Rightarrow>
              if \<not> (packetLength \<le> maxLength) then Some (STATUS_BUFFER_TOO_SMALL, pData, Some packetLength, True)
              else do { d \<leftarrow> memread raw 0 (unat packetLength);
                        out \<leftarrow> memwrite out 0 d;
                        Some (STATUS_SUCCESS, Some out, Some packetLength, True) })
      | _ \<Rightarrow> Some (STATUS_NULL_ARG, pData, map_option (\<lambda>_. 0) pLength, True))"

section \<open>G.711\<close>

function g711_lens :: "u32 \<Rightarrow> u32 \<Rightarrow> nat \<Rightarrow> u32 list \<Rightarrow> u32 list option" where
  "g711_lens mtu remaining i lens =
     (if remaining > mtu
      then do { lens \<leftarrow> memwrite lens i [mtu]; if mtu = 0 then None else g711_lens mtu (remaining - mtu) (i + 1) lens }
      else memwrite lens i [remaining])"
  by pat_completeness auto

lemma unat_sub_less: "c \<noteq> 0 \<Longrightarrow> c \<le> r \<Longrightarrow> unat (r - c :: u32) < unat r"
proof -
  assume "c \<noteq> 0" "c \<le> r"
  then have "0 < unat c" "unat c \<le> unat r" by (auto simp: unat_gt_0 word_le_nat_alt)
  then show ?thesis using \<open>c \<le> r\<close> by (simp add: unat_sub)
qed

termination g711_lens
  by (relation "measure (\<lambda>(mtu, remaining, i, lens). unat remaining)") (auto simp: unat_sub_less)

declare g711_lens.simps [simp del]

definition createPayloadForG711 ::
  "u32 \<Rightarrow> bytes option \<Rightarrow> u32 \<Rightarrow> bytes option \<Rightarrow> u32 option \<Rightarrow> u32 list option \<Rightarrow> u32 option \<Rightarrow> payload_result" where
  "createPayloadForG711 mtu pFrame frameLength pBuf pLen pSubLens pSub =
     (let sizeOnly = (pBuf = None); done = (\<lambda>status len n buf lens. Some (status, buf, lens, report_sizes sizeOnly status len n pLen pSub)) in
      case (pFrame, pSub, pLen) of
        (Some frame, Some subSize, Some bufLen) \<Rightarrow>
          if \<not> (sizeOnly \<or> pSubLens \<noteq> None) then done STATUS_NULL_ARG 0 0 pBuf pSubLens
          else if mtu = 0 then None
          else let n = frameLength div mtu + (if frameLength mod mtu = 0 then 0 else 1) in
            (case (pBuf, pSubLens) of
               (Some buf, Some lens) \<Rightarrow>
                 if \<not> (frameLength \<le> bufLen \<and> n \<le> subSize) then done STATUS_BUFFER_TOO_SMALL frameLength n pBuf pSubLens
                 else do { d \<leftarrow> memread frame 0 (unat frameLength);
                           buf \<leftarrow> memwrite buf 0 d;
                           lens \<leftarrow> g711_lens mtu frameLength 0 lens;
                           done STATUS_SUCCESS frameLength n (Some buf) (Some lens) }
             | _ \<Rightarrow> done STATUS_SUCCESS frameLength n pBuf pSubLens)
      | _ \<Rightarrow> done STATUS_NULL_ARG 0 0 pBuf pSubLens)"

definition depayG711FromRtpPayload ::
  "bytes option \<Rightarrow> u32 \<Rightarrow> bytes option \<Rightarrow> u32 option \<Rightarrow> depay_result" where
  "depayG711FromRtpPayload pRaw packetLength pData pLength =
     (case (pRaw, pLength) of
        (Some raw, Some maxLength) \<Rightarrow>
          if packetLength = 0 then Some (STATUS_SUCCESS, pData, Some 0, True)
          else (case pData of
            None \<Rightarrow> Some (STATUS_SUCCESS, None, Some packetLength, True)
          | Some out \<Rightarrow>
              if \<not> (packetLength \<le> maxLength) then Some (STATUS_BUFFER_TOO_SMALL, pData, Some packetLength, True)
              else do { d \<leftarrow> memread raw 0 (unat packetLength);
                        out \<leftarrow> memwrite out 0 d;
                        Some (STATUS_SUCCESS, Some out, Some packetLength, True) })
      | _ \<Rightarrow> Some (STATUS_NULL_ARG, pData, map_option (\<lambda>_. 0) pLength, True))"

section \<open>VP8\<close>

text \<open>
  \<open>pos\<close> is the position in the frame and \<open>off\<close> the one in the buffer, \<open>n\<close> the number of payloads
  so far. A round that consumes nothing is repeated forever.
\<close>

function vp8_loop ::
  "u32 \<Rightarrow> bytes \<Rightarrow> u32 \<Rightarrow> nat \<Rightarrow> nat \<Rightarrow> u32 \<Rightarrow> u32 \<Rightarrow> bytes option \<Rightarrow> u32 list option \<Rightarrow>
   (u32 \<times> u32 \<times> bytes option \<times> u32 list option) option" where
  "vp8_loop mtu frame remaining pos off len n pBuf pLens =
     (if remaining = 0 then Some (len, n, pBuf, pLens)
      else let consumed = min (mtu - 1) remaining in
        do { (pBuf, pLens) \<leftarrow> (case pBuf of
               None \<Rightarrow> Some (None, pLens)
             | Some buf \<Rightarrow>
                 do { buf \<leftarrow> memwrite buf off [if n = 0 then 0x10 else 0];
                      d \<leftarrow> memread frame pos (unat consumed);
                      buf \<leftarrow> memwrite buf (off + 1) d;
                      lens \<leftarrow> pLens;
                      lens \<leftarrow> memwrite lens (unat n) [consumed + 1];
                      Some (Some buf, Some lens) });
             if consumed = 0 then None
             else vp8_loop mtu frame (remaining - consumed) (pos + unat consumed) (off + 1 + unat consumed)
                    (len + (consumed + 1)) (n + 1) pBuf pLens })"
  by pat_completeness auto

termination vp8_loop
  by (relation "measure (\<lambda>(mtu, frame, remaining, pos, off, len, n, pBuf, pLens). unat remaining)")
    (auto simp: unat_sub_less)

declare vp8_loop.simps [simp del]

definition createPayloadForVP8 ::
  "u32 \<Rightarrow> bytes option \<Rightarrow> u32 \<Rightarrow> bytes option \<Rightarrow> u32 option \<Rightarrow> u32 list option \<Rightarrow> u32 option \<Rightarrow> payload_result" where
  "createPayloadForVP8 mtu pFrame frameLength pBuf pLen pSubLens pSub =
     (let sizeOnly = (pBuf = None); done = (\<lambda>status len n buf lens. Some (status, buf, lens, report_sizes sizeOnly status len n pLen pSub)) in
      case pFrame of
        None \<Rightarrow> done STATUS_NULL_ARG 0 0 pBuf pSubLens
      | Some frame \<Rightarrow>
          if \<not> (pSub \<noteq> None \<and> pLen \<noteq> None \<and> (sizeOnly \<or> pSubLens \<noteq> None)) then done STATUS_NULL_ARG 0 0 pBuf pSubLens
          else do { (len, n, buf, lens) \<leftarrow> vp8_loop mtu frame frameLength 0 0 0 0 pBuf pSubLens;
                    done STATUS_SUCCESS len n buf lens })"

text \<open>The length of the payload descriptor, read from its flag bytes.\<close>

definition vp8_descriptor :: "bytes \<Rightarrow> nat option" where
  "vp8_descriptor raw =
     do { b0 \<leftarrow> memget raw 0;
          (flags, len) \<leftarrow> (if b0 AND 0x80 \<noteq> 0 then do { f \<leftarrow> memget raw 1; Some (f, 2) } else Some (0, 1));
          len \<leftarrow> (if flags AND 0x80 \<noteq> 0
                  then do { b \<leftarrow> memget raw len; Some (if b AND 0x80 > 0 then len + 2 else len + 1) } else Some len);
          let len = (if flags AND 0x40 \<noteq> 0 then len + 1 else len);
          Some (if flags AND 0x20 \<noteq> 0 \<or> flags AND 0x10 \<noteq> 0 then len + 1 else len) }"

definition depayVP8FromRtpPayload :: "bytes option \<Rightarrow> u32 \<Rightarrow> bytes option \<Rightarrow> u32 option \<Rightarrow> depay_result" where
  "depayVP8FromRtpPayload pRaw packetLength pData pLength =
     (case (pRaw, pLength) of
        (Some raw, Some maxLength) \<Rightarrow>
          if packetLength = 0 then Some (STATUS_SUCCESS, pData, Some 0, True)
          else do {
            desc \<leftarrow> vp8_descriptor raw;
            let vp8Length = packetLength - word_of_nat desc;
            case pData of
              None \<Rightarrow> Some (STATUS_SUCCESS, None, Some vp8Length, True)
            | Some out \<Rightarrow>
                if \<not> (vp8Length \<le> maxLength) then Some (STATUS_BUFFER_TOO_SMALL, pData, Some vp8Length, True)
                else do { d \<leftarrow> memread raw desc (unat vp8Length);
                          out \<leftarrow> memwrite out 0 d;
                          Some (STATUS_SUCCESS, Some out, Some vp8Length, True) } }
      | _ \<Rightarrow> Some (STATUS_NULL_ARG, pData, map_option (\<lambda>_. if pData = None then 0 else packetLength) pLength, True))"

section \<open>Sending and receiving a frame\<close>

text \<open>
  The calls that \<open>writeFrame\<close> of \<^verbatim>\<open>Rtp.c\<close> makes for a frame: the payloader twice, the packets, and
  the bytes of every packet, again in two calls. The receiver parses each packet and asks the
  depayloader for the size and then for the data.
\<close>

definition payload_frame ::
  "(u32 \<Rightarrow> bytes option \<Rightarrow> u32 \<Rightarrow> bytes option \<Rightarrow> u32 option \<Rightarrow> u32 list option \<Rightarrow> u32 option \<Rightarrow> payload_result) \<Rightarrow>
   u32 \<Rightarrow> bytes \<Rightarrow> PayloadArray option" where
  "payload_frame create mtu f =
     do { (status, _, _, len, n) \<leftarrow> create mtu (Some f) (word_of_nat (length f)) None (Some 0) None (Some 0);
          len \<leftarrow> len;
          n \<leftarrow> n;
          if status \<noteq> STATUS_SUCCESS then None
          else do {
            (status, buf, lens, len', n') \<leftarrow> create mtu (Some f) (word_of_nat (length f)) (Some (replicate (unat len) 0)) (Some len)
                                         (Some (replicate (unat n) 0)) (Some n);
            buf \<leftarrow> buf;
            lens \<leftarrow> lens;
            len' \<leftarrow> len';
            n' \<leftarrow> n';
            if status \<noteq> STATUS_SUCCESS then None
            else Some \<lparr>payloadBuffer = buf, pa_payloadLength = len', maxPayloadLength = len, payloadSubLength = lens,
                       payloadSubLenSize = n', maxPayloadSubLenSize = n\<rparr> } }"

definition packet_bytes :: "RtpPacket \<Rightarrow> bytes option" where
  "packet_bytes p =
     do { (_, _, len) \<leftarrow> createBytesFromRtpPacket (Some p) None (Some 0);
          len \<leftarrow> len;
          (status, raw, _) \<leftarrow> createBytesFromRtpPacket (Some p) (Some (replicate (unat len) 0)) (Some len);
          if status = STATUS_SUCCESS then raw else None }"

definition send_frame ::
  "(u32 \<Rightarrow> bytes option \<Rightarrow> u32 \<Rightarrow> bytes option \<Rightarrow> u32 option \<Rightarrow> u32 list option \<Rightarrow> u32 option \<Rightarrow> payload_result) \<Rightarrow>
   u32 \<Rightarrow> bytes \<Rightarrow> byte \<Rightarrow> u16 \<Rightarrow> u32 \<Rightarrow> u32 \<Rightarrow> RtpPacket \<Rightarrow> bytes list option" where
  "send_frame create mtu f pt seq ts src junk =
     do { pa \<leftarrow> payload_frame create mtu f;
          (status, ps) \<leftarrow> constructRtpPackets (Some pa) pt seq ts src (Some (replicate (unat (payloadSubLenSize pa)) junk))
                           (payloadSubLenSize pa);
          ps \<leftarrow> ps;
          if status = STATUS_SUCCESS then those (map packet_bytes ps) else None }"

definition receive_packet ::
  "(bytes option \<Rightarrow> u32 \<Rightarrow> bytes option \<Rightarrow> u32 option \<Rightarrow> depay_result) \<Rightarrow> bool \<Rightarrow> RtpPacket \<Rightarrow> bytes \<Rightarrow> bytes option" where
  "receive_packet depay isBig junk raw =
     do { (status, r) \<leftarrow> setRtpPacketFromBytes isBig (Some raw) (Some junk);
          p \<leftarrow> r;
          if status \<noteq> STATUS_SUCCESS then None
          else do {
            (_, _, len, _) \<leftarrow> depay (payload p) (payloadLength p) None (Some 0);
            len \<leftarrow> len;
            (status, d, _, _) \<leftarrow> depay (payload p) (payloadLength p) (Some (replicate (unat len) 0)) (Some len);
            if status = STATUS_SUCCESS then d else None } }"

section \<open>The contract of a payloader\<close>

text \<open>
  A frame is a value \<open>f\<close> that the encoder hands over as the bytes \<open>enc f\<close>; \<open>payloads mtu f\<close> are
  its payloads, \<open>strip\<close> is the data in one of them, and \<open>canon f d\<close> says that the receiver may
  see the frame as \<open>d\<close> (codecs with start codes may normalise them).
\<close>

locale payloader =
  fixes create :: "u32 \<Rightarrow> bytes option \<Rightarrow> u32 \<Rightarrow> bytes option \<Rightarrow> u32 option \<Rightarrow> u32 list option \<Rightarrow> u32 option \<Rightarrow> payload_result"
    and depay :: "bytes option \<Rightarrow> u32 \<Rightarrow> bytes option \<Rightarrow> u32 option \<Rightarrow> depay_result"
    and enc :: "'f \<Rightarrow> bytes" and valid :: "u32 \<Rightarrow> 'f \<Rightarrow> bool" and payloads :: "u32 \<Rightarrow> 'f \<Rightarrow> bytes list"
    and strip :: "bytes \<Rightarrow> bytes" and canon :: "'f \<Rightarrow> bytes \<Rightarrow> bool"
  assumes bounded: "valid mtu f \<Longrightarrow> payloads mtu f \<noteq> [] \<and> (\<forall>p \<in> set (payloads mtu f). 0 < length p \<and> length p \<le> unat mtu)"
    and small: "valid mtu f \<Longrightarrow> length (concat (payloads mtu f)) < 2 ^ 31"
    and measure_law: "valid mtu f \<Longrightarrow>
      create mtu (Some (enc f)) (word_of_nat (length (enc f))) None (Some a) None (Some b) =
        Some (STATUS_SUCCESS, None, None, Some (word_of_nat (length (concat (payloads mtu f)))),
              Some (word_of_nat (length (payloads mtu f))))"
    and fill_law: "valid mtu f \<Longrightarrow> length (concat (payloads mtu f)) \<le> length buf \<Longrightarrow> length (payloads mtu f) \<le> length lens \<Longrightarrow>
      create mtu (Some (enc f)) (word_of_nat (length (enc f))) (Some buf) (Some (word_of_nat (length (concat (payloads mtu f)))))
          (Some lens) (Some (word_of_nat (length (payloads mtu f)))) =
        Some (STATUS_SUCCESS, Some (concat (payloads mtu f) @ drop (length (concat (payloads mtu f))) buf),
              Some (map (\<lambda>p. word_of_nat (length p)) (payloads mtu f) @ drop (length (payloads mtu f)) lens),
              Some (word_of_nat (length (concat (payloads mtu f)))), Some (word_of_nat (length (payloads mtu f))))"
    and depay_size: "valid mtu f \<Longrightarrow> p \<in> set (payloads mtu f) \<Longrightarrow>
      \<exists>start. depay (Some (p @ rest)) (word_of_nat (length p)) None (Some a) =
        Some (STATUS_SUCCESS, None, Some (word_of_nat (length (strip p))), start) \<and> length (strip p) < 2 ^ 32"
    and depay_data: "valid mtu f \<Longrightarrow> p \<in> set (payloads mtu f) \<Longrightarrow> length (strip p) \<le> length out \<Longrightarrow>
      \<exists>start. depay (Some (p @ rest)) (word_of_nat (length p)) (Some out) (Some (word_of_nat (length (strip p)))) =
        Some (STATUS_SUCCESS, Some (strip p @ drop (length (strip p)) out), Some (word_of_nat (length (strip p))), start)"
    and reassemble: "valid mtu f \<Longrightarrow> canon f (concat (map strip (payloads mtu f)))"

lemma packet_bytes_layout:
  assumes "rtp_wf p"
  shows "packet_bytes p = Some (rtp_layout p)"
  using set_bytes_layout[OF assms, of "replicate (length (rtp_layout p)) 0" "RTP_GET_RAW_PACKET_SIZE p"]
    raw_packet_size(2)[OF assms]
  by (simp add: packet_bytes_def createBytesFromRtpPacket_def bsplice_def)

lemma those_map_Some: "(\<And>x. x \<in> set xs \<Longrightarrow> f x = Some (g x)) \<Longrightarrow> those (map f xs) = Some (map g xs)"
  by (induction xs) auto

lemma length_le_concat: "\<forall>p \<in> set P. 0 < length p \<Longrightarrow> length P \<le> length (concat P)"
  by (induction P) (auto simp: neq_Nil_conv)

lemma length_concat_ge: "p \<in> set P \<Longrightarrow> length p \<le> length (concat P)"
  by (induction P) auto

lemma concat_nth_slice:
  "k < length xs \<Longrightarrow> take (length (xs ! k)) (drop (length (concat (take k xs))) (concat xs)) = xs ! k"
proof -
  assume "k < length xs"
  then have "concat xs = concat (take k xs) @ xs ! k @ concat (drop (Suc k) xs)"
    by (metis concat.simps(2) concat_append id_take_nth_drop)
  then show ?thesis by simp
qed

text \<open>The packets of a list of payloads, one after the other in one buffer.\<close>

lemma packets_of_payloads:
  assumes "P \<noteq> []" "\<forall>p \<in> set P. 0 < length p" "length (concat P) < 2 ^ 31" "pt < 128"
    and pa: "payloadBuffer pa = concat P" "pa_payloadLength pa = word_of_nat (length (concat P))"
      "payloadSubLength pa = map (\<lambda>p. word_of_nat (length p)) P" "payloadSubLenSize pa = word_of_nat (length P)"
  shows "\<exists>ps. constructRtpPackets (Some pa) pt seq ts src (Some (replicate (length P) junk)) (word_of_nat (length P)) =
       Some (STATUS_SUCCESS, Some ps) \<and> length ps = length P \<and>
     (\<forall>k < length P. rtp_wf (ps ! k) \<and> payload_bytes (ps ! k) = P ! k \<and> length (rtp_layout (ps ! k)) = 12 + length (P ! k))"
proof -
  let ?lens = "map (\<lambda>p. word_of_nat (length p)) P :: u32 list"
  have each: "length p < 2 ^ 31" if "p \<in> set P" for p
    using length_concat_ge[OF that] assms(3) by linarith
  have each': "unat (word_of_nat (length p) :: u32) = length p" if "p \<in> set P" for p
    using each[OF that] by (intro unat_small32) simp
  have n: "length P < 2 ^ 32" using length_le_concat[OF assms(2)] assms(3) by simp
  have nz: "pa_payloadLength pa \<noteq> 0" "length (concat P) < 2 ^ 32"
    using unat_small32[of "length (concat P)"] assms(1-3) pa(2) by (auto simp: word_unat_eq_iff neq_Nil_conv)
  have ln: "unat (?lens ! k) = length (P ! k)" if "k < length P" for k
    using that each'[of "P ! k"] by simp
  have sums: "(\<Sum>l \<leftarrow> take k ?lens. unat l) = length (concat (take k P))" for k
    unfolding take_map length_concat map_map comp_def
    by (rule arg_cong[where f = sum_list], rule map_cong[OF refl]) (use each' in \<open>blast dest: in_set_takeD\<close>)
  obtain ps where ps: "construct_loop (concat P) (word_of_nat (length P)) pt ts src ?lens (word_of_nat 0) seq 0
      (replicate (length P) junk) = Some (STATUS_SUCCESS, ps)" "length ps = length P"
    "\<forall>k < length P. header (ps ! k) = frame_header pt (seq + word_of_nat k) ts src (word_of_nat k = (word_of_nat (length P) :: u32) - 1) \<and>
       payload (ps ! k) = Some (drop (length (concat (take k P))) (concat P)) \<and> payloadLength (ps ! k) = ?lens ! k"
    using construct_loop_spec[of 0 ?lens "replicate (length P) junk" "concat P" "word_of_nat (length P)" pt ts src seq 0] n
    unfolding add_0 sums by (simp add: sums[simplified]) blast
  have "constructRtpPackets (Some pa) pt seq ts src (Some (replicate (length P) junk)) (word_of_nat (length P)) =
       Some (STATUS_SUCCESS, Some ps)"
    using ps(1) n nz(1) by (simp add: constructRtpPackets_def pa memread_def unat_small32)
  moreover have "rtp_wf (ps ! k) \<and> payload_bytes (ps ! k) = P ! k \<and> length (rtp_layout (ps ! k)) = 12 + length (P ! k)"
    if k: "k < length P" for k
  proof -
    have sl: "payload_bytes (ps ! k) = P ! k"
      using ps(3) k ln[OF k] concat_nth_slice[OF k] by (simp add: payload_bytes_def)
    then have "length (P ! k) \<le> length (drop (length (concat (take k P))) (concat P))"
      using concat_nth_slice[OF k] by (metis length_take min.cobounded1)
    then have wf: "rtp_wf (ps ! k)"
      using ps(3) k ln[OF k] each[of "P ! k"] assms(4) by (simp add: rtp_wf_def Let_def frame_header_def)
    have "length (rtp_layout (ps ! k)) = 12 + length (P ! k)"
      using ps(3) k sl by (simp add: rtp_layout_def Let_def frame_header_def csrc_list_def)
    with wf sl show ?thesis by blast
  qed
  ultimately show ?thesis using ps(2) by blast
qed

lemma receive_layout:
  assumes "rtp_wf p" "payload_bytes p = d" "d \<noteq> []"
    and size: "\<And>rest a. \<exists>start. depay (Some (d @ rest)) (word_of_nat (length d)) None (Some a) =
        Some (STATUS_SUCCESS, None, Some (word_of_nat (length x)), start)" and "length x < 2 ^ 32"
    and data: "\<And>rest out. length x \<le> length out \<Longrightarrow>
      \<exists>start. depay (Some (d @ rest)) (word_of_nat (length d)) (Some out) (Some (word_of_nat (length x))) =
        Some (STATUS_SUCCESS, Some (x @ drop (length x) out), Some (word_of_nat (length x)), start)"
  shows "receive_packet depay isBig junk (rtp_layout p) = Some x"
proof -
  obtain r where r: "setRtpPacketFromBytes isBig (Some (rtp_layout p)) (Some junk) = Some (STATUS_SUCCESS, Some r)"
      "same_packet isBig p r" "rtp_wf r" using parse_layout[OF assms(1)] by blast
  obtain pl where pl: "payload r = Some pl" "unat (payloadLength r) \<le> length pl" using r(3) by (auto simp: rtp_wf_def Let_def)
  have "payload_bytes r = d" using r(2) assms(2) by (simp add: same_packet_def)
  then have "take (unat (payloadLength r)) pl = d" by (simp add: payload_bytes_def pl(1))
  then have split: "pl = d @ drop (unat (payloadLength r)) pl" "length d = unat (payloadLength r)"
    using pl(2) append_take_drop_id[of "unat (payloadLength r)" pl] by (auto simp: min_absorb2)
  then have len: "payloadLength r = word_of_nat (length d)" by simp
  obtain s1 where "depay (payload r) (payloadLength r) None (Some 0) = Some (STATUS_SUCCESS, None, Some (word_of_nat (length x)), s1)"
    using size[of "drop (unat (payloadLength r)) pl" 0] pl(1) split(1) len by (metis (no_types))
  moreover obtain s2 where "depay (payload r) (payloadLength r) (Some (replicate (length x) 0)) (Some (word_of_nat (length x))) =
      Some (STATUS_SUCCESS, Some x, Some (word_of_nat (length x)), s2)"
    using data[of "replicate (length x) 0" "drop (unat (payloadLength r)) pl"] pl(1) split(1) len
    by (metis (no_types) append_Nil2 drop_all length_replicate order_refl)
  ultimately show ?thesis using r(1) assms(5) by (simp add: receive_packet_def unat_small32)
qed

context payloader
begin

lemma payload_frame_law:
  assumes "valid mtu f"
  shows "\<exists>pa. payload_frame create mtu (enc f) = Some pa \<and> payloadBuffer pa = concat (payloads mtu f) \<and>
     pa_payloadLength pa = word_of_nat (length (concat (payloads mtu f))) \<and>
     payloadSubLength pa = map (\<lambda>p. word_of_nat (length p)) (payloads mtu f) \<and>
     payloadSubLenSize pa = word_of_nat (length (payloads mtu f))"
proof -
  let ?P = "payloads mtu f"
  have "length ?P \<le> length (concat ?P)" using bounded[OF assms] by (intro length_le_concat) blast
  then have u: "unat (word_of_nat (length ?P) :: u32) = length ?P" "unat (word_of_nat (length (concat ?P)) :: u32) = length (concat ?P)"
    using small[OF assms] by (auto intro!: unat_small32)
  show ?thesis
    using measure_law[OF assms, of 0 0] fill_law[OF assms, of "replicate (length (concat ?P)) 0" "replicate (length ?P) 0"]
    by (simp add: payload_frame_def u)
qed

lemma frame_transport:
  assumes "valid mtu f" "pt < 128"
  shows "\<exists>raws ds. send_frame create mtu (enc f) pt seq ts src junk = Some raws \<and> length raws = length (payloads mtu f) \<and>
     (\<forall>raw \<in> set raws. length raw \<le> 12 + unat mtu) \<and>
     those (map (receive_packet depay isBig junk') raws) = Some ds \<and> canon f (concat ds)"
proof -
  let ?P = "payloads mtu f"
  obtain pa where pa: "payload_frame create mtu (enc f) = Some pa" "payloadBuffer pa = concat ?P"
      "pa_payloadLength pa = word_of_nat (length (concat ?P))" "payloadSubLength pa = map (\<lambda>p. word_of_nat (length p)) ?P"
      "payloadSubLenSize pa = word_of_nat (length ?P)" using payload_frame_law[OF assms(1)] by blast
  have b: "?P \<noteq> []" "\<forall>p \<in> set ?P. 0 < length p" "\<forall>p \<in> set ?P. length p \<le> unat mtu" using bounded[OF assms(1)] by auto
  obtain ps where ps: "constructRtpPackets (Some pa) pt seq ts src (Some (replicate (length ?P) junk)) (word_of_nat (length ?P)) =
       Some (STATUS_SUCCESS, Some ps)" "length ps = length ?P"
     "\<forall>k < length ?P. rtp_wf (ps ! k) \<and> payload_bytes (ps ! k) = ?P ! k \<and> length (rtp_layout (ps ! k)) = 12 + length (?P ! k)"
    using packets_of_payloads[OF b(1,2) small[OF assms(1)] assms(2) pa(2-5)] by blast
  have "length ?P \<le> length (concat ?P)" by (rule length_le_concat[OF b(2)])
  then have n: "unat (word_of_nat (length ?P) :: u32) = length ?P" using small[OF assms(1)] by (intro unat_small32) simp
  have wf: "rtp_wf p \<and> payload_bytes p \<in> set ?P \<and> length (rtp_layout p) \<le> 12 + unat mtu" if "p \<in> set ps" for p
    using that ps(2,3) b(3) nth_mem[of _ ?P] by (auto simp: in_set_conv_nth[of p])
  have send: "send_frame create mtu (enc f) pt seq ts src junk = Some (map rtp_layout ps)"
    using pa(1,5) ps(1) n those_map_Some[of ps packet_bytes rtp_layout] wf packet_bytes_layout by (simp add: send_frame_def)
  have "receive_packet depay isBig junk' (rtp_layout p) = Some (strip (payload_bytes p))" if "p \<in> set ps" for p
  proof -
    have p: "payload_bytes p \<in> set ?P" "rtp_wf p" using wf[OF that] by auto
    show ?thesis
      using depay_size[OF assms(1) p(1)] depay_data[OF assms(1) p(1)] b(2) p(1)
      by (intro receive_layout[OF p(2) refl]) (auto dest: spec)
  qed
  then have "those (map (receive_packet depay isBig junk') (map rtp_layout ps)) = Some (map (\<lambda>p. strip (payload_bytes p)) ps)"
    unfolding map_map comp_def by (intro those_map_Some)
  moreover have "map payload_bytes ps = ?P" using ps(2,3) by (intro nth_equalityI) auto
  then have "canon f (concat (map (\<lambda>p. strip (payload_bytes p)) ps))"
    using reassemble[OF assms(1)] by (metis (no_types, lifting) map_map comp_def map_eq_conv)
  ultimately show ?thesis using send ps(2) wf by (intro exI[of _ "map rtp_layout ps"] exI[of _ "map (\<lambda>p. strip (payload_bytes p)) ps"]) auto
qed

end

section \<open>The three codecs keep the contract\<close>

definition opus_valid :: "u32 \<Rightarrow> bytes \<Rightarrow> bool" where
  "opus_valid mtu f = (f \<noteq> [] \<and> length f \<le> unat mtu \<and> length f < 2 ^ 31)"

definition frame_valid :: "u32 \<Rightarrow> bytes \<Rightarrow> bool" where
  "frame_valid mtu f = (f \<noteq> [] \<and> 1 < unat mtu \<and> length f < 2 ^ 30)"

text \<open>The payload is the frame, or a piece of it: both audio depayloaders copy it.\<close>

lemma depay_audio:
  assumes "p \<noteq> []" "length p < 2 ^ 32"
  shows "depayOpusFromRtpPayload (Some (p @ rest)) (word_of_nat (length p)) None (Some a) =
      Some (STATUS_SUCCESS, None, Some (word_of_nat (length p)), True)"
    and "length p \<le> length out \<Longrightarrow>
      depayOpusFromRtpPayload (Some (p @ rest)) (word_of_nat (length p)) (Some out) (Some (word_of_nat (length p))) =
        Some (STATUS_SUCCESS, Some (p @ drop (length p) out), Some (word_of_nat (length p)), True)"
    and "depayG711FromRtpPayload = depayOpusFromRtpPayload"
proof -
  have u: "unat (word_of_nat (length p) :: u32) = length p" using assms(2) by (rule unat_small32)
  then have "(word_of_nat (length p) :: u32) \<noteq> 0" using assms(1) by (auto simp: word_unat_eq_iff)
  then show "depayOpusFromRtpPayload (Some (p @ rest)) (word_of_nat (length p)) None (Some a) =
      Some (STATUS_SUCCESS, None, Some (word_of_nat (length p)), True)"
    and "length p \<le> length out \<Longrightarrow>
      depayOpusFromRtpPayload (Some (p @ rest)) (word_of_nat (length p)) (Some out) (Some (word_of_nat (length p))) =
        Some (STATUS_SUCCESS, Some (p @ drop (length p) out), Some (word_of_nat (length p)), True)"
    using u by (simp_all add: depayOpusFromRtpPayload_def memread_def memwrite_def bsplice_def)
  show "depayG711FromRtpPayload = depayOpusFromRtpPayload"
    by (intro ext) (simp add: depayG711FromRtpPayload_def depayOpusFromRtpPayload_def)
qed

interpretation opus: payloader createPayloadForOpus depayOpusFromRtpPayload "\<lambda>f. f" opus_valid "\<lambda>mtu f. [f]" "\<lambda>p. p" "\<lambda>f d. d = f"
proof (unfold_locales, goal_cases)
  case (3 mtu f a b)
  then show ?case by (simp add: createPayloadForOpus_def report_sizes_def opus_valid_def)
next
  case (4 mtu f buf lens)
  then have "unat (word_of_nat (length f) :: u32) = length f" by (intro unat_small32) (simp add: opus_valid_def)
  then show ?case using 4
    by (simp add: createPayloadForOpus_def report_sizes_def memread_def memwrite_def bsplice_def Suc_le_eq)
next
  case (5 mtu f p rest a)
  then show ?case using depay_audio(1)[of p] by (auto simp: opus_valid_def)
next
  case (6 mtu f p out rest)
  then show ?case using depay_audio(2)[of p] by (auto simp: opus_valid_def)
qed (auto simp: opus_valid_def)

text \<open>G.711: pieces of the size of the MTU.\<close>

lemma g711_lens_chunks:
  assumes "0 < mtu" "xs \<noteq> []" "length xs < 2 ^ 32" "i + length (chunks (unat mtu) xs) \<le> length lens"
  shows "g711_lens mtu (word_of_nat (length xs)) i lens =
     Some (bsplice lens i (map (\<lambda>c. word_of_nat (length c)) (chunks (unat mtu) xs)))"
  using assms
proof (induction "length xs" arbitrary: xs i lens rule: less_induct)
  case less
  have u: "unat (word_of_nat (length xs) :: u32) = length xs" using less.prems(3) by (rule unat_small32)
  have m: "0 < unat mtu" using less.prems(1) by (simp add: word_less_nat_alt)
  note c = chunks_step[OF less.prems(2) m]
  show ?case
  proof (cases "unat mtu < length xs")
    case True
    let ?ys = "drop (unat mtu) xs"
    have gt: "word_of_nat (length xs) > mtu" using True u by (simp add: word_less_nat_alt)
    have sub: "word_of_nat (length xs) - mtu = (word_of_nat (length ?ys) :: u32)"
      using True by (simp add: of_nat_diff)
    have w: "memwrite lens i [mtu] = Some (bsplice lens i [mtu])" using less.prems(4) c by (simp add: memwrite_def)
    have "g711_lens mtu (word_of_nat (length ?ys)) (i + 1) (bsplice lens i [mtu]) =
        Some (bsplice (bsplice lens i [mtu]) (i + 1) (map (\<lambda>c. word_of_nat (length c)) (chunks (unat mtu) ?ys)))"
      using less.hyps[of ?ys "i + 1" "bsplice lens i [mtu]"] less.prems True m c by simp
    moreover have "g711_lens mtu (word_of_nat (length xs)) i lens = g711_lens mtu (word_of_nat (length ?ys)) (i + 1) (bsplice lens i [mtu])"
      using less.prems(1) by (subst g711_lens.simps) (simp only: gt w sub if_True bind.bind_lunit word_greater_zero_iff if_False)
    moreover have "word_of_nat (length (take (unat mtu) xs)) = mtu" using True by (simp add: min_absorb2)
    moreover have "i + 1 \<le> length lens" using less.prems(4) c by simp
    ultimately show ?thesis by (simp add: c)
  next
    case False
    then have "chunks (unat mtu) xs = [xs]" using c by simp
    then show ?thesis
      using False u less.prems(4) by (subst g711_lens.simps) (simp add: word_less_nat_alt memwrite_def)
  qed
qed

lemma g711_count:
  assumes "0 < mtu" "length f < 2 ^ 32"
  shows "word_of_nat (length f) div mtu + (if word_of_nat (length f) mod mtu = 0 then 0 else 1) =
     (word_of_nat (length (chunks (unat mtu) f)) :: u32)"
proof -
  have m: "0 < unat mtu" using assms(1) by (simp add: word_less_nat_alt)
  have u: "unat (word_of_nat (length f) :: u32) = length f" using assms(2) by (rule unat_small32)
  have "word_of_nat (length f) div mtu = word_of_nat (length f div unat mtu)"
    by (metis u unat_div of_nat_unat ucast_id)
  moreover have "(word_of_nat (length f) mod mtu = 0) = (length f mod unat mtu = 0)"
    by (metis u unat_mod unat_eq_zero)
  ultimately show ?thesis by (simp add: length_chunks[OF m])
qed

lemma g711_bounds:
  assumes "frame_valid mtu f"
  shows "0 < mtu" "0 < unat mtu" "length f < 2 ^ 32" "chunks (unat mtu) f \<noteq> []" "length (chunks (unat mtu) f) < 2 ^ 32"
proof -
  show "0 < mtu" "0 < unat mtu" "length f < 2 ^ 32" using assms by (auto simp: frame_valid_def word_less_nat_alt)
  then show "chunks (unat mtu) f \<noteq> []" using assms by (subst chunks.simps) (simp add: frame_valid_def)
  have "\<forall>p \<in> set (chunks (unat mtu) f). 0 < length p" using chunks_bounds[OF \<open>0 < unat mtu\<close>] by blast
  then have "length (chunks (unat mtu) f) \<le> length f" using length_le_concat[of "chunks (unat mtu) f"] by simp
  then show "length (chunks (unat mtu) f) < 2 ^ 32" using \<open>length f < 2 ^ 32\<close> by simp
qed

interpretation g711: payloader createPayloadForG711 depayG711FromRtpPayload "\<lambda>f. f" frame_valid "\<lambda>mtu f. chunks (unat mtu) f" "\<lambda>p. p" "\<lambda>f d. d = f"
proof (unfold_locales, goal_cases)
  case (1 mtu f)
  then show ?case using g711_bounds[OF 1] chunks_bounds[of "unat mtu" _ f] by blast
next
  case (3 mtu f a b)
  then show ?case using g711_bounds[OF 3] g711_count[of mtu f]
    by (simp add: createPayloadForG711_def report_sizes_def word_greater_zero_iff)
next
  case (4 mtu f buf lens)
  note b = g711_bounds[OF 4(1)]
  have f: "f \<noteq> []" using 4(1) by (simp add: frame_valid_def)
  have "unat (word_of_nat (length f) :: u32) = length f" using b(3) by (rule unat_small32)
  moreover have "g711_lens mtu (word_of_nat (length f)) 0 lens =
      Some (map (\<lambda>c. word_of_nat (length c)) (chunks (unat mtu) f) @ drop (length (chunks (unat mtu) f)) lens)"
    using g711_lens_chunks[OF b(1) f b(3), of 0 lens] 4(3) by (simp add: bsplice_def)
  ultimately show ?case using 4(2) b(1) g711_count[OF b(1,3)]
    by (simp add: createPayloadForG711_def report_sizes_def memread_def memwrite_def bsplice_def word_greater_zero_iff)
next
  case (5 mtu f p rest a)
  have "p \<noteq> []" "length p < 2 ^ 32"
    using 5 chunks_bounds[OF g711_bounds(2)[OF 5(1)] 5(2)] length_concat_ge[OF 5(2)] g711_bounds(3)[OF 5(1)] by auto
  then show ?case using depay_audio(1,3)[of p] by auto
next
  case (6 mtu f p out rest)
  have "p \<noteq> []" "length p < 2 ^ 32"
    using 6 chunks_bounds[OF g711_bounds(2)[OF 6(1)] 6(2)] length_concat_ge[OF 6(2)] g711_bounds(3)[OF 6(1)] by auto
  then show ?case using depay_audio(2,3)[of p] 6(3) by auto
qed (auto simp: frame_valid_def)

text \<open>A loop that takes pieces of at most \<open>k\<close> bytes off the front, with its counters in 32 bits.\<close>

lemma piece_consumed:
  fixes k :: u32
  assumes "0 < unat k" "xs \<noteq> []" "length xs < 2 ^ 32"
  defines "c \<equiv> take (unat k) xs"
  shows "min k (word_of_nat (length xs)) = word_of_nat (length c)" "unat (word_of_nat (length c) :: u32) = length c"
    "(word_of_nat (length c) :: u32) \<noteq> 0" "word_of_nat (length xs) - word_of_nat (length c) = (word_of_nat (length (drop (unat k) xs)) :: u32)"
proof -
  have u: "unat (word_of_nat (length xs) :: u32) = length xs" using assms(3) by (rule unat_small32)
  show uc: "unat (word_of_nat (length c) :: u32) = length c" using assms(3) by (intro unat_small32) (simp add: c_def min_def)
  show "min k (word_of_nat (length xs)) = word_of_nat (length c)"
    by (simp only: word_unat_eq_iff uc) (auto simp: min_def word_le_nat_alt u c_def)
  show "(word_of_nat (length c) :: u32) \<noteq> 0"
    using uc assms(1,2) by (auto simp: word_unat_eq_iff c_def)
  have "length xs = length c + length (drop (unat k) xs)" by (simp add: c_def)
  then show "word_of_nat (length xs) - word_of_nat (length c) = (word_of_nat (length (drop (unat k) xs)) :: u32)"
    by (metis add_diff_cancel_left' of_nat_add)
qed

lemma unat_minus_below: "d \<le> (k :: u32) \<Longrightarrow> unat (k - d) = unat k - unat d"
  by (simp add: unat_sub)

text \<open>VP8: a descriptor byte before each piece, with the start bit in the first.\<close>

definition vp8_mark :: "bool \<Rightarrow> bytes list \<Rightarrow> bytes list" where
  "vp8_mark start cs = (case cs of [] \<Rightarrow> [] | c # cs' \<Rightarrow> ((if start then 0x10 else 0) # c) # map (Cons 0) cs')"

definition vp8_payloads :: "u32 \<Rightarrow> bytes \<Rightarrow> bytes list" where
  "vp8_payloads mtu f = vp8_mark True (chunks (unat mtu - 1) f)"

lemma vp8_mark_Cons: "vp8_mark start (c # cs) = ((if start then 0x10 else 0) # c) # vp8_mark False cs"
  by (simp add: vp8_mark_def split: list.split)

lemma vp8_mark_sizes: "length (vp8_mark start cs) = length cs" "length (concat (vp8_mark start cs)) = length (concat cs) + length cs"
  by (cases cs; simp add: vp8_mark_def length_concat comp_def sum_list_Suc)+

lemma vp8_piece: "1 < unat mtu \<Longrightarrow> unat (mtu - 1 :: u32) = unat mtu - 1"
  by (simp add: unat_minus_below word_le_nat_alt)

lemma drop_shorter: "xs \<noteq> [] \<Longrightarrow> 1 < m \<Longrightarrow> length (drop (m - 1) xs) < length xs"
  by (cases xs) auto

lemma vp8_loop_size:
  assumes "1 < unat mtu" "length xs < 2 ^ 32"
  shows "vp8_loop mtu frame (word_of_nat (length xs)) pos off len n None None =
     Some (len + word_of_nat (length (concat (vp8_mark start (chunks (unat mtu - 1) xs)))),
           n + word_of_nat (length (chunks (unat mtu - 1) xs)), None, None)"
  using assms
proof (induction "length xs" arbitrary: xs pos off len n rule: less_induct)
  case less
  show ?case
  proof (cases "xs = []")
    case True
    then show ?thesis by (subst vp8_loop.simps) (simp add: vp8_mark_def)
  next
    case False
    let ?k = "unat mtu - 1"
    define c ys where "c = take ?k xs" and "ys = drop ?k xs"
    note cons = piece_consumed[of "mtu - 1", unfolded vp8_piece[OF less.prems(1)], OF _ False less.prems(2), folded c_def ys_def]
    have ch: "chunks ?k xs = c # chunks ?k ys" unfolding c_def ys_def using False less.prems(1) by (intro chunks_step) auto
    have nz: "(word_of_nat (length xs) :: u32) \<noteq> 0"
      using unat_small32[OF less.prems(2)] False by (auto simp: word_unat_eq_iff)
    have "length ys < length xs" unfolding ys_def using False less.prems(1) by (rule drop_shorter)
    moreover have "length ys < 2 ^ 32" using less.prems(2) by (simp add: ys_def)
    ultimately have IH: "vp8_loop mtu frame (word_of_nat (length ys)) (pos + length c) (off + 1 + length c) (len + (word_of_nat (length c) + 1))
        (n + 1) None None = Some (len + (word_of_nat (length c) + 1) + word_of_nat (length (concat (vp8_mark start (chunks ?k ys)))),
           n + 1 + word_of_nat (length (chunks ?k ys)), None, None)"
      by (rule less.hyps[OF _ less.prems(1)])
    have "vp8_loop mtu frame (word_of_nat (length xs)) pos off len n None None =
      vp8_loop mtu frame (word_of_nat (length ys)) (pos + length c) (off + 1 + length c) (len + (word_of_nat (length c) + 1)) (n + 1) None None"
      using nz cons less.prems(1) by (subst vp8_loop.simps) (simp add: Let_def)
    also note IH
    finally show ?thesis using cons(4) less.prems(1) by (simp add: ch[unfolded One_nat_def] vp8_mark_sizes algebra_simps)
  qed
qed

lemma vp8_loop_write:
  assumes "1 < unat mtu" "frame = pre @ xs" "length xs < 2 ^ 32"
    and "unat n + length (chunks (unat mtu - 1) xs) < 2 ^ 32"
    and "P = vp8_mark (n = 0) (chunks (unat mtu - 1) xs)"
    and "off + length (concat P) \<le> length buf" "unat n + length P \<le> length lens"
  shows "vp8_loop mtu frame (word_of_nat (length xs)) (length pre) off len n (Some buf) (Some lens) =
       Some (len + word_of_nat (length (concat P)), n + word_of_nat (length P), Some (bsplice buf off (concat P)),
             Some (bsplice lens (unat n) (map (\<lambda>p. word_of_nat (length p)) P)))"
  using assms
proof (induction "length xs" arbitrary: xs pre off len n buf lens P rule: less_induct)
  case less
  show ?case
  proof (cases "xs = []")
    case True
    then show ?thesis using less.prems(5) by (subst vp8_loop.simps) (simp add: vp8_mark_def)
  next
    case False
    let ?k = "unat mtu - 1"
    define c ys h where "c = take ?k xs" and "ys = drop ?k xs" and "h = (if n = 0 then 0x10 else 0 :: byte)"
    define Q where "Q = vp8_mark False (chunks ?k ys)"
    note cons = piece_consumed[of "mtu - 1", unfolded vp8_piece[OF less.prems(1)], OF _ False less.prems(3), folded c_def ys_def]
    have ch: "chunks ?k xs = c # chunks ?k ys" unfolding c_def ys_def using False less.prems(1) by (intro chunks_step) auto
    then have P: "P = (h # c) # Q" using less.prems(5) by (simp add: vp8_mark_Cons h_def Q_def)
    have xs: "xs = c @ ys" by (simp add: c_def ys_def)
    have nz: "(word_of_nat (length xs) :: u32) \<noteq> 0"
      using unat_small32[OF less.prems(3)] False by (auto simp: word_unat_eq_iff)
    have n1: "unat (n + 1) = unat n + 1" using less.prems(4) ch unat_add_lem[of n "1 :: u32"] by simp
    then have n0: "n + 1 \<noteq> 0" by (auto simp: word_unat_eq_iff)
    have w: "memwrite buf off [h] = Some (bsplice buf off [h])"
      "memwrite (bsplice buf off [h]) (off + 1) c = Some (bsplice buf off (h # c))"
      "memread frame (length pre) (length c) = Some c"
      "memwrite lens (unat n) [word_of_nat (length c) + 1] = Some (bsplice lens (unat n) [word_of_nat (length (h # c))])"
      using less.prems(2,6,7) by (simp_all add: P xs memwrite_def memread_def algebra_simps)
    have "length ys < length xs" unfolding ys_def using False less.prems(1) by (rule drop_shorter)
    then have IH: "vp8_loop mtu frame (word_of_nat (length ys)) (length (pre @ c)) (off + 1 + length c) (len + (word_of_nat (length c) + 1)) (n + 1)
        (Some (bsplice buf off (h # c))) (Some (bsplice lens (unat n) [word_of_nat (length (h # c))])) =
       Some (len + (word_of_nat (length c) + 1) + word_of_nat (length (concat Q)), n + 1 + word_of_nat (length Q),
             Some (bsplice (bsplice buf off (h # c)) (off + 1 + length c) (concat Q)),
             Some (bsplice (bsplice lens (unat n) [word_of_nat (length (h # c))]) (unat (n + 1)) (map (\<lambda>p. word_of_nat (length p)) Q)))"
    proof (rule less.hyps)
      have "length (bsplice buf off (h # c)) = length buf" "length (bsplice lens (unat n) [word_of_nat (length (h # c))]) = length lens"
        using less.prems(6,7) by (simp_all add: P)
      then show "off + 1 + length c + length (concat Q) \<le> length (bsplice buf off (h # c))"
        and "unat (n + 1) + length Q \<le> length (bsplice lens (unat n) [word_of_nat (length (h # c))])"
        using less.prems(6,7) n1 by (simp_all add: P)
      show "unat (n + 1) + length (chunks ?k ys) < 2 ^ 32" using less.prems(4) n1 unfolding ch by simp
      show "length ys < 2 ^ 32" using less.prems(3) by (simp add: xs)
      show "frame = (pre @ c) @ ys" using less.prems(2) by (simp add: xs)
    qed (use less.prems(1) n0 in \<open>simp_all add: Q_def\<close>)
    have "vp8_loop mtu frame (word_of_nat (length xs)) (length pre) off len n (Some buf) (Some lens) =
      vp8_loop mtu frame (word_of_nat (length ys)) (length (pre @ c)) (off + 1 + length c) (len + (word_of_nat (length c) + 1)) (n + 1)
        (Some (bsplice buf off (h # c))) (Some (bsplice lens (unat n) [word_of_nat (length (h # c))]))"
      using nz cons w less.prems(1) by (subst vp8_loop.simps) (simp add: Let_def h_def[symmetric])
    also note IH
    finally show ?thesis
      using less.prems(6,7) n1 by (simp add: P algebra_simps)
  qed
qed

lemma vp8_payload_sizes:
  assumes "frame_valid mtu f"
  shows "1 < unat mtu" "length f < 2 ^ 30" "length (chunks (unat mtu - 1) f) \<le> length f"
    "length (concat (vp8_payloads mtu f)) < 2 ^ 31" "p \<in> set (vp8_payloads mtu f) \<Longrightarrow> \<exists>h c. p = h # c \<and> (h = 0x10 \<or> h = 0) \<and> c \<in> set (chunks (unat mtu - 1) f)"
proof -
  show m: "1 < unat mtu" and f: "length f < 2 ^ 30" using assms by (auto simp: frame_valid_def)
  have "\<forall>p \<in> set (chunks (unat mtu - 1) f). 0 < length p" using chunks_bounds[of "unat mtu - 1"] m by auto
  then show le: "length (chunks (unat mtu - 1) f) \<le> length f" using length_le_concat by fastforce
  show "length (concat (vp8_payloads mtu f)) < 2 ^ 31" using f le by (simp add: vp8_payloads_def vp8_mark_sizes)
  show "\<exists>h c. p = h # c \<and> (h = 0x10 \<or> h = 0) \<and> c \<in> set (chunks (unat mtu - 1) f)" if "p \<in> set (vp8_payloads mtu f)"
    using that by (cases "chunks (unat mtu - 1) f") (auto simp: vp8_payloads_def vp8_mark_def)
qed

lemma depay_vp8:
  assumes "h = 0x10 \<or> h = 0" "length c < 2 ^ 31"
  shows "depayVP8FromRtpPayload (Some ((h # c) @ rest)) (word_of_nat (length (h # c))) None (Some a) =
      Some (STATUS_SUCCESS, None, Some (word_of_nat (length c)), True)"
    and "length c \<le> length out \<Longrightarrow>
      depayVP8FromRtpPayload (Some ((h # c) @ rest)) (word_of_nat (length (h # c))) (Some out) (Some (word_of_nat (length c))) =
        Some (STATUS_SUCCESS, Some (c @ drop (length c) out), Some (word_of_nat (length c)), True)"
proof -
  have "unat (word_of_nat (length (h # c)) :: u32) = length (h # c)" using assms(2) by (intro unat_small32) simp
  then have nz: "(1 + word_of_nat (length c) :: u32) \<noteq> 0" by (auto simp: word_unat_eq_iff)
  have u: "unat (word_of_nat (length c) :: u32) = length c" using assms(2) by (intro unat_small32) simp
  have d: "vp8_descriptor ((h # c) @ rest) = Some 1"
    using assms(1) by (auto simp: vp8_descriptor_def memget_def)
  show "depayVP8FromRtpPayload (Some ((h # c) @ rest)) (word_of_nat (length (h # c))) None (Some a) =
      Some (STATUS_SUCCESS, None, Some (word_of_nat (length c)), True)"
    and "length c \<le> length out \<Longrightarrow>
      depayVP8FromRtpPayload (Some ((h # c) @ rest)) (word_of_nat (length (h # c))) (Some out) (Some (word_of_nat (length c))) =
        Some (STATUS_SUCCESS, Some (c @ drop (length c) out), Some (word_of_nat (length c)), True)"
    using nz d u by (simp_all add: depayVP8FromRtpPayload_def memread_def memwrite_def bsplice_def)
qed

interpretation vp8: payloader createPayloadForVP8 depayVP8FromRtpPayload "\<lambda>f. f" frame_valid vp8_payloads tl "\<lambda>f d. d = f"
proof (unfold_locales, goal_cases)
  case (1 mtu f)
  note s = vp8_payload_sizes[OF 1]
  have "chunks (unat mtu - 1) f \<noteq> []" using 1 s(1) by (subst chunks.simps) (simp add: frame_valid_def)
  then have "vp8_payloads mtu f \<noteq> []" by (simp add: vp8_payloads_def vp8_mark_def split: list.split)
  moreover have "0 < length p \<and> length p \<le> unat mtu" if "p \<in> set (vp8_payloads mtu f)" for p
    using s(5)[OF that] chunks_bounds[of "unat mtu - 1" _ f] s(1) by fastforce
  ultimately show ?case by blast
next
  case (2 mtu f)
  then show ?case by (rule vp8_payload_sizes)
next
  case (3 mtu f a b)
  note s = vp8_payload_sizes[OF 3]
  show ?case using vp8_loop_size[OF s(1), of f f 0 0 0 0 True] s(2)
    by (simp add: createPayloadForVP8_def report_sizes_def vp8_payloads_def vp8_mark_sizes(1))
next
  case (4 mtu f buf lens)
  note s = vp8_payload_sizes[OF 4(1)]
  have "vp8_loop mtu f (word_of_nat (length f)) (length ([] :: bytes)) 0 0 0 (Some buf) (Some lens) =
    Some (0 + word_of_nat (length (concat (vp8_payloads mtu f))), 0 + word_of_nat (length (vp8_payloads mtu f)),
      Some (bsplice buf 0 (concat (vp8_payloads mtu f))),
      Some (bsplice lens (unat (0 :: u32)) (map (\<lambda>p. word_of_nat (length p)) (vp8_payloads mtu f))))"
    using s(1-3) 4(2,3) by (intro vp8_loop_write) (simp_all add: vp8_payloads_def)
  then show ?case by (simp add: createPayloadForVP8_def report_sizes_def bsplice_def)
next
  case (5 mtu f p rest a)
  obtain h c where p: "p = h # c" "h = 0x10 \<or> h = 0" "c \<in> set (chunks (unat mtu - 1) f)"
    using vp8_payload_sizes(5)[OF 5] by blast
  have "length c < 2 ^ 31" using length_concat_ge[OF p(3)] vp8_payload_sizes(2)[OF 5(1)] by simp
  then show ?case using depay_vp8(1)[OF p(2), of c] by (auto simp: p(1))
next
  case (6 mtu f p out rest)
  obtain h c where p: "p = h # c" "h = 0x10 \<or> h = 0" "c \<in> set (chunks (unat mtu - 1) f)"
    using vp8_payload_sizes(5)[OF 6(1,2)] by blast
  have "length c < 2 ^ 31" using length_concat_ge[OF p(3)] vp8_payload_sizes(2)[OF 6(1)] by simp
  then show ?case using depay_vp8(2)[OF p(2), of c] 6(3) by (auto simp: p(1))
next
  case (7 mtu f)
  have "concat (map tl (vp8_mark start cs)) = concat cs" for start cs
    by (cases cs) (simp_all add: vp8_mark_def comp_def)
  then show ?case by (simp add: vp8_payloads_def)
qed

section \<open>Properties\<close>

text \<open>
  C17. A VP8 frame survives the transport. Every non-empty frame below $2^{30}$ bytes, with an
  MTU of at least 2, is spread over packets of at most \<open>mtu\<close> bytes of payload: the second call of
  the payloader fits the buffer that the first call measured, and parsing the packets and taking
  the data out of them, on a host of either byte order, gives the frame back.
\<close>

theorem vp8_frame_transport:
  assumes "f \<noteq> []" "1 < unat mtu" "length f < 2 ^ 30" "pt < 128"
  shows "\<exists>raws ds. send_frame createPayloadForVP8 mtu f pt seq ts src junk = Some raws \<and>
     (\<forall>raw \<in> set raws. length raw \<le> 12 + unat mtu) \<and>
     those (map (receive_packet depayVP8FromRtpPayload isBig junk') raws) = Some ds \<and> concat ds = f"
proof -
  have "frame_valid mtu f" using assms by (simp add: frame_valid_def)
  from vp8.frame_transport[OF this assms(4)] show ?thesis by blast
qed

theorem vp8_frame_transport_witness:
  "\<exists>raws ds. send_frame createPayloadForVP8 4 [1, 2, 3, 4, 5] 96 65535 0 7 packet0 = Some raws \<and>
     (\<forall>raw \<in> set raws. length raw \<le> 12 + unat (4 :: u32)) \<and>
     those (map (receive_packet depayVP8FromRtpPayload False packet0) raws) = Some ds \<and> concat ds = [1, 2, 3, 4, 5]"
  by (rule vp8_frame_transport) simp_all

text \<open>
  A G.711 frame survives the transport: as for VP8, and the payloads are the pieces of \<open>mtu\<close>
  bytes of the frame, so there are as many packets as the division of the frame length by the
  MTU, rounded up.
\<close>

lemma g711_frame_transport:
  assumes "f \<noteq> []" "1 < unat mtu" "length f < 2 ^ 30" "pt < 128"
  shows "\<exists>raws ds. send_frame createPayloadForG711 mtu f pt seq ts src junk = Some raws \<and>
     length raws = length f div unat mtu + (if length f mod unat mtu = 0 then 0 else 1) \<and>
     those (map (receive_packet depayG711FromRtpPayload isBig junk') raws) = Some ds \<and> concat ds = f"
proof -
  have v: "frame_valid mtu f" using assms by (simp add: frame_valid_def)
  have "length (chunks (unat mtu) f) = length f div unat mtu + (if length f mod unat mtu = 0 then 0 else 1)"
    using assms(2) by (intro length_chunks) simp
  with g711.frame_transport[OF v assms(4)] show ?thesis by metis
qed

lemma g711_frame_transport_witness:
  "\<exists>raws ds. send_frame createPayloadForG711 2 [1, 2, 3, 4, 5] 0 7 0 7 packet0 = Some raws \<and>
     length raws = length [1, 2, 3, 4, 5 :: byte] div unat (2 :: u32) + (if length [1, 2, 3, 4, 5 :: byte] mod unat (2 :: u32) = 0 then 0 else 1) \<and>
     those (map (receive_packet depayG711FromRtpPayload True packet0) raws) = Some ds \<and> concat ds = [1, 2, 3, 4, 5]"
  by (rule g711_frame_transport) simp_all

text \<open>
  An Opus frame survives the transport, in exactly one packet.
\<close>

lemma opus_frame_transport:
  assumes "f \<noteq> []" "length f \<le> unat mtu" "length f < 2 ^ 31" "pt < 128"
  shows "\<exists>raw. send_frame createPayloadForOpus mtu f pt seq ts src junk = Some [raw] \<and>
     receive_packet depayOpusFromRtpPayload isBig junk' raw = Some f"
proof -
  have "opus_valid mtu f" using assms by (simp add: opus_valid_def)
  from opus.frame_transport[OF this assms(4)] obtain raws ds where
    "send_frame createPayloadForOpus mtu f pt seq ts src junk = Some raws" "length raws = 1"
    "those (map (receive_packet depayOpusFromRtpPayload isBig junk') raws) = Some ds" "concat ds = f" by fastforce
  moreover from this obtain raw where "raws = [raw]" by (auto simp: length_Suc_conv)
  ultimately show ?thesis by (auto split: option.splits)
qed

lemma opus_frame_transport_witness:
  "\<exists>raw. send_frame createPayloadForOpus 100 [1, 2, 3] 111 7 0 7 packet0 = Some [raw] \<and>
     receive_packet depayOpusFromRtpPayload False packet0 raw = Some [1, 2, 3]"
  by (rule opus_frame_transport) simp_all

text \<open>
  A truncated VP8 descriptor. A payload that ends inside its descriptor makes the
  depayloader read behind it; with a longer buffer the length it returns has wrapped around.
\<close>

lemma vp8_short_descriptor:
  "depayVP8FromRtpPayload (Some [0x80]) 1 None (Some 0) = None \<and>
   depayVP8FromRtpPayload (Some [0x80, 0x00]) 1 None (Some 0) = Some (STATUS_SUCCESS, None, Some 0xFFFFFFFF, True)"
  by (simp add: depayVP8FromRtpPayload_def vp8_descriptor_def memget_def)

end
