(* ===== verification/RtcpPacket.thy ===== *)
theory RtcpPacket
  imports Endianness
begin

text \<open>
  \<^verbatim>\<open>src/source/Rtcp/RtcpPacket.c\<close>: the RTCP header, the sequence numbers of a NACK, the bit
  rate and sources of a REMB message, and NTP time stamps.

  A buffer is the list of its bytes and its length argument a 32-bit word. \<open>None\<close> is an access
  outside a buffer or an undefined shift. A pointer argument that may be null is an option.
\<close>

section \<open>Data\<close>

record RtcpPacketHeader =
  rtcp_version :: byte
  receptionReportCount :: byte
  packetType :: byte
  packetLength :: u32

record RtcpPacket =
  rtcp_header :: RtcpPacketHeader
  rtcp_payload :: "bytes option"
  rtcp_payloadLength :: u32

abbreviation (input) RTCP_PACKET_HEADER_LEN :: u32 where "RTCP_PACKET_HEADER_LEN \<equiv> 4"
abbreviation (input) RTCP_NACK_LIST_LEN :: nat where "RTCP_NACK_LIST_LEN \<equiv> 8"
abbreviation (input) RTCP_PACKET_REMB_MIN_SIZE :: nat where "RTCP_PACKET_REMB_MIN_SIZE \<equiv> 16"
abbreviation (input) RTCP_PACKET_REMB_IDENTIFIER_OFFSET :: nat where "RTCP_PACKET_REMB_IDENTIFIER_OFFSET \<equiv> 8"

section \<open>The header\<close>

definition setRtcpPacketFromBytes ::
  "bool \<Rightarrow> bytes \<Rightarrow> u32 \<Rightarrow> RtcpPacket option \<Rightarrow> (STATUS \<times> RtcpPacket option) option" where
  "setRtcpPacketFromBytes isBig raw rawLen pPacket =
     (case pPacket of
        None \<Rightarrow> Some (STATUS_NULL_ARG, None)
      | Some p \<Rightarrow>
          if rawLen < RTCP_PACKET_HEADER_LEN then Some (STATUS_RTCP_INPUT_PACKET_TOO_SMALL, Some p)
          else do {
            packetLen \<leftarrow> load16 isBig raw 2;
            if \<not> ((unat packetLen + 1) * 4 \<le> unat rawLen) then Some (STATUS_RTCP_INPUT_PARTIAL_PACKET, Some p)
            else do {
              b0 \<leftarrow> memget raw 0;
              let p1 = p\<lparr>rtcp_header := (rtcp_header p)\<lparr>rtcp_version := drop_bit 6 b0 AND 0x3\<rparr>\<rparr>;
              if rtcp_version (rtcp_header p1) \<noteq> 2 then Some (STATUS_RTCP_INPUT_PACKET_INVALID_VERSION, Some p1)
              else do {
                b1 \<leftarrow> memget raw 1;
                Some (STATUS_SUCCESS, Some (p1\<lparr>
                  rtcp_header := (rtcp_header p1)\<lparr>receptionReportCount := b0 AND 0x1F, packetType := b1,
                                                  packetLength := ucast packetLen\<rparr>,
                  rtcp_payloadLength := ucast packetLen * 4, rtcp_payload := Some (drop 4 raw)\<rparr>)) } } })"

section \<open>Lists of lost packets\<close>

text \<open>
  One sequence number: stored when there is a list and the counter has not passed its length,
  counted in any case. The counter has 16 bits.
\<close>

definition push_seq :: "u32 \<Rightarrow> u16 \<Rightarrow> u16 list option \<times> u16 \<Rightarrow> (u16 list option \<times> u16) option" where
  "push_seq listLen x = (\<lambda>(lst, count).
     do { lst' \<leftarrow> (case lst of
            None \<Rightarrow> Some None
          | Some l \<Rightarrow> if ucast count \<le> listLen then map_option Some (memwrite l (unat count) [x]) else Some lst);
          Some (lst', count + 1) })"

text \<open>The numbers of one entry: the packet identifier and one number per set bit of the mask.\<close>

definition push_mask :: "u32 \<Rightarrow> u16 \<Rightarrow> u16 \<Rightarrow> u16 list option \<times> u16 \<Rightarrow> (u16 list option \<times> u16) option" where
  "push_mask listLen pid blp =
     for_each (\<lambda>j st. if drop_bit j (blp AND push_bit j 1) \<noteq> 0 then push_seq listLen (pid + word_of_nat j + 1) st else Some st) [0..<16]"

definition push_entry :: "bool \<Rightarrow> bytes \<Rightarrow> u32 \<Rightarrow> nat \<Rightarrow> u16 list option \<times> u16 \<Rightarrow> (u16 list option \<times> u16) option" where
  "push_entry isBig pl listLen i st =
     do { pid \<leftarrow> load16 isBig pl i;
          blp \<leftarrow> load16 isBig pl (i + 2);
          st \<leftarrow> push_seq listLen pid st;
          push_mask listLen pid blp st }"

definition entry_offsets :: "nat \<Rightarrow> nat list" where
  "entry_offsets payloadLen = map (\<lambda>k. RTCP_NACK_LIST_LEN + 4 * k) [0..<(payloadLen - RTCP_NACK_LIST_LEN) div 4]"

text \<open>
  The result is the status, the two sources, the list and the value of \<open>*pSequenceNumberListLen\<close>.
  \<open>ssrcs\<close> tells whether the pointers for the two sources are not null.
\<close>

definition rtcpNackListGet ::
  "bool \<Rightarrow> bytes option \<Rightarrow> u32 \<Rightarrow> bool \<Rightarrow> u16 list option \<Rightarrow> u32 option \<Rightarrow>
   (STATUS \<times> (u32 \<times> u32) option \<times> u16 list option \<times> u32 option) option" where
  "rtcpNackListGet isBig pPayload payloadLen ssrcs pList pListLen =
     (case (pPayload, pListLen) of
        (Some pl, Some listLen) \<Rightarrow>
          if \<not> ssrcs then Some (STATUS_NULL_ARG, None, pList, pListLen)
          else if \<not> (RTCP_NACK_LIST_LEN \<le> unat payloadLen \<and> payloadLen mod 4 = 0)
          then Some (STATUS_RTCP_INPUT_NACK_LIST_INVALID, None, pList, pListLen)
          else do {
            sender \<leftarrow> load32 isBig pl 0;
            receiver \<leftarrow> load32 isBig pl 4;
            (lst, count) \<leftarrow> for_each (push_entry isBig pl listLen) (entry_offsets (unat payloadLen)) (pList, 0);
            Some (STATUS_SUCCESS, Some (sender, receiver), lst, Some (ucast count)) }
      | _ \<Rightarrow> Some (STATUS_NULL_ARG, None, pList, pListLen))"

section \<open>Receiver estimated maximum bit rate\<close>

definition isRembPacket :: "bytes option \<Rightarrow> u32 \<Rightarrow> STATUS option" where
  "isRembPacket pPayload payloadLen =
     (case pPayload of
        None \<Rightarrow> Some STATUS_NULL_ARG
      | Some pl \<Rightarrow>
          if unat payloadLen < RTCP_PACKET_REMB_MIN_SIZE then Some STATUS_RTCP_INPUT_REMB_TOO_SMALL
          else do { ident \<leftarrow> memread pl RTCP_PACKET_REMB_IDENTIFIER_OFFSET 4;
                    Some (if ident = [0x52, 0x45, 0x4d, 0x42] then STATUS_SUCCESS else STATUS_RTCP_INPUT_REMB_INVALID) })"

text \<open>
  \<^verbatim>\<open>mantissa << exponent\<close> is a shift of a \<open>UINT32\<close>: undefined from 32 on, and the bits shifted
  out are lost. The list of sources is written whether or not the caller passed one.
\<close>

definition remb_ssrc :: "bool \<Rightarrow> bytes \<Rightarrow> nat \<Rightarrow> u32 list option \<Rightarrow> u32 list option option" where
  "remb_ssrc isBig pl i pList =
     do { x \<leftarrow> load32 isBig pl (RTCP_PACKET_REMB_IDENTIFIER_OFFSET + 8 + i * 4);
          l \<leftarrow> pList;
          map_option Some (memwrite l i [x]) }"

definition rembValueGet ::
  "bool \<Rightarrow> bytes option \<Rightarrow> u32 \<Rightarrow> u32 option \<Rightarrow> u32 list option \<Rightarrow> byte option \<Rightarrow>
   (STATUS \<times> u32 option \<times> u32 list option \<times> byte option) option" where
  "rembValueGet isBig pPayload payloadLen pMaximumBitRate pSsrcList pSsrcListLen =
     (case (pPayload, pMaximumBitRate, pSsrcListLen) of
        (Some pl, Some _, Some _) \<Rightarrow>
          if unat payloadLen < RTCP_PACKET_REMB_MIN_SIZE
          then Some (STATUS_RTCP_INPUT_REMB_TOO_SMALL, pMaximumBitRate, pSsrcList, pSsrcListLen)
          else do {
            m \<leftarrow> load32 isBig pl (RTCP_PACKET_REMB_IDENTIFIER_OFFSET + 4);
            let mantissa = m AND 0x3FFFF;
            e \<leftarrow> memget pl (RTCP_PACKET_REMB_IDENTIFIER_OFFSET + 4 + 1);
            let exponent = drop_bit 2 e;
            maximumBitRate \<leftarrow> (if unat exponent < 32 then Some (push_bit (unat exponent) mantissa) else None);
            ssrcListLen \<leftarrow> memget pl (RTCP_PACKET_REMB_IDENTIFIER_OFFSET + 4);
            if \<not> (unat payloadLen \<ge> RTCP_PACKET_REMB_MIN_SIZE + unat ssrcListLen * 4)
            then Some (STATUS_RTCP_INPUT_REMB_INVALID, pMaximumBitRate, pSsrcList, pSsrcListLen)
            else do {
              lst \<leftarrow> for_each (remb_ssrc isBig pl) [0..<unat ssrcListLen] pSsrcList;
              Some (STATUS_SUCCESS, Some maximumBitRate, lst, Some ssrcListLen) } }
      | _ \<Rightarrow> Some (STATUS_NULL_ARG, pMaximumBitRate, pSsrcList, pSsrcListLen))"

section \<open>Time stamps\<close>

definition KVS_CONVERT_TIMESCALE :: "u64 \<Rightarrow> u64 \<Rightarrow> u64 \<Rightarrow> u64" where
  "KVS_CONVERT_TIMESCALE pts from_timescale to_timescale = pts * to_timescale div from_timescale"

definition convertTimestampToNTP :: "u64 \<Rightarrow> u64" where
  "convertTimestampToNTP time100ns =
     (let sec = time100ns div 10000000;
          hundred_ns = time100ns mod 10000000;
          ntp_sec = sec + 2208988800;
          ntp_frac = KVS_CONVERT_TIMESCALE hundred_ns 10000000 4294967296
      in push_bit 32 ntp_sec OR ntp_frac)"

definition MID_NTP :: "u64 \<Rightarrow> u32" where
  "MID_NTP t = ucast (drop_bit 16 t AND 0xffffffff)"

section \<open>Parsing the header is memory safe\<close>

text \<open>
  Parsing an RTCP header never reads outside the packet. When it succeeds the version is
  2, and the payload pointer and length describe bytes of the packet: header and payload
  together are no longer than the packet.
\<close>

lemma rtcp_header_bounds:
  assumes "unat rawLen \<le> length raw"
  shows "\<exists>status p'. setRtcpPacketFromBytes isBig raw rawLen (Some p) = Some (status, Some p') \<and>
     (status = STATUS_SUCCESS \<longrightarrow> rtcp_version (rtcp_header p') = 2 \<and> rtcp_payload p' = Some (drop 4 raw) \<and>
        4 + unat (rtcp_payloadLength p') \<le> unat rawLen \<and> unat (rtcp_payloadLength p') mod 4 = 0)"
proof (cases "rawLen < 4")
  case False
  then have len: "4 \<le> length raw" using assms by (simp add: word_less_nat_alt)
  obtain w where w: "getUnalignedInt16Be raw 2 = Some w" using get_Be_in_range(1)[of 2 raw] len by auto
  have "unat w < 2 ^ LENGTH(16)" by (rule unsigned_less)
  then have u: "unat (ucast w * 4 :: u32) = unat w * 4"
    by (simp add: unat_mult_lem[THEN iffD1] unsigned_ucast_eq take_bit_nat_eq_self)
  have "memget raw 0 = Some (raw ! 0)" "memget raw 1 = Some (raw ! 1)" using len by (intro memget_Some, linarith)+
  then show ?thesis using False w u by (auto simp: setRtcpPacketFromBytes_def Let_def)
qed (simp add: setRtcpPacketFromBytes_def)

lemma rtcp_header_bounds_witness:
  "unat (8 :: u32) \<le> length [0x81, 205, 0, 1, 0, 0, 0, 7 :: byte] \<and>
   (\<exists>status p'. setRtcpPacketFromBytes False [0x81, 205, 0, 1, 0, 0, 0, 7] 8
       (Some \<lparr>rtcp_header = \<lparr>rtcp_version = 0, receptionReportCount = 0, packetType = 0, packetLength = 0\<rparr>,
              rtcp_payload = None, rtcp_payloadLength = 0\<rparr>) = Some (status, Some p') \<and>
     (status = STATUS_SUCCESS \<longrightarrow> rtcp_version (rtcp_header p') = 2 \<and>
        rtcp_payload p' = Some (drop 4 [0x81, 205, 0, 1, 0, 0, 0, 7]) \<and>
        4 + unat (rtcp_payloadLength p') \<le> unat (8 :: u32) \<and> unat (rtcp_payloadLength p') mod 4 = 0))"
  by (intro conjI, simp, rule rtcp_header_bounds) simp

section \<open>NACK lists\<close>

text \<open>What a NACK message says: each entry names a packet and those of the next 16 whose bit is set.\<close>

definition nack_entry :: "u16 \<times> u16 \<Rightarrow> u16 list" where
  "nack_entry e = fst e # map (\<lambda>j. fst e + word_of_nat j + 1) (filter (bit (snd e)) [0..<16])"

definition nack_bytes :: "u32 \<Rightarrow> u32 \<Rightarrow> (u16 \<times> u16) list \<Rightarrow> bytes" where
  "nack_bytes sender receiver es = be32 sender @ be32 receiver @ concat (map (\<lambda>e. be16 (fst e) @ be16 (snd e)) es)"

lemma mask_bit: "(drop_bit j (blp AND push_bit j 1) \<noteq> 0) = bit (blp :: u16) j"
proof
  assume "drop_bit j (blp AND push_bit j 1) \<noteq> 0"
  then obtain n where "bit (drop_bit j (blp AND push_bit j 1)) n" by (metis bit_eq_iff bit_0_eq bot_apply bot_bool_def)
  then show "bit blp j" by (auto simp: bit_simps)
next
  assume b: "bit blp j"
  then have "j < 16" by (rule bit_u16D)
  with b have "bit (drop_bit j (blp AND push_bit j 1)) 0" by (simp add: bit_simps)
  then show "drop_bit j (blp AND push_bit j 1) \<noteq> 0" by (metis bit_0_eq bot_apply bot_bool_def)
qed

lemma push_mask_eq:
  "push_mask n pid blp = for_each (push_seq n) (map (\<lambda>j. pid + word_of_nat j + 1) (filter (bit blp) [0..<16]))"
  by (rule ext) (simp only: push_mask_def mask_bit for_each_filter for_each_map)

lemma push_entry_eq:
  assumes "getUnalignedInt16Be pl i = Some pid" "getUnalignedInt16Be pl (i + 2) = Some blp"
  shows "push_entry isBig pl n i st = for_each (push_seq n) (nack_entry (pid, blp)) st"
  using assms by (simp add: push_entry_def push_mask_eq nack_entry_def Option.bind_def split: option.split)

lemma entries_at:
  assumes "k < length es"
  shows "getUnalignedInt16Be (concat (map (\<lambda>e. be16 (fst e) @ be16 (snd e)) es) @ r) (4 * k) = Some (fst (es ! k))"
    and "getUnalignedInt16Be (concat (map (\<lambda>e. be16 (fst e) @ be16 (snd e)) es) @ r) (4 * k + 2) = Some (snd (es ! k))"
  using assms
proof (induction es arbitrary: k)
  case (Cons e es)
  { case 1
    then show ?case using Cons.IH(1)[of "k - 1"] by (cases k) (simp_all add: get_Be_shift) }
  { case 2
    then show ?case using Cons.IH(2)[of "k - 1"] by (cases k) (simp_all add: get_Be_shift) }
qed simp_all

lemma nack_bytes_fields:
  "getUnalignedInt32Be (nack_bytes s r es @ rest) 0 = Some s" "getUnalignedInt32Be (nack_bytes s r es @ rest) 4 = Some r"
  "k < length es \<Longrightarrow> getUnalignedInt16Be (nack_bytes s r es @ rest) (8 + 4 * k) = Some (fst (es ! k))"
  "k < length es \<Longrightarrow> getUnalignedInt16Be (nack_bytes s r es @ rest) (8 + 4 * k + 2) = Some (snd (es ! k))"
  using entries_at(2)[of k es rest] by (simp_all add: nack_bytes_def get_Be_shift entries_at(1))

text \<open>The three loops together push the numbers of the entries one after the other.\<close>

lemma entries_loop:
  assumes "pl = nack_bytes s r es @ rest"
  shows "for_each (push_entry isBig pl n) (entry_offsets (8 + 4 * length es)) st =
           for_each (push_seq n) (concat (map nack_entry es)) st"
proof -
  have "for_each (push_entry isBig pl n) (entry_offsets (8 + 4 * length es)) st =
      for_each (\<lambda>k. push_entry isBig pl n (8 + 4 * k)) [0..<length es] st"
    by (simp add: entry_offsets_def for_each_map)
  also have "\<dots> = for_each (\<lambda>e. for_each (push_seq n) (nack_entry e)) es st"
    using push_entry_eq[OF nack_bytes_fields(3,4)] by (intro for_each_upt) (simp add: assms)
  finally show ?thesis by (simp only: for_each_concat)
qed

lemma push_seq_room:
  assumes "length xs < 65536" "length xs \<le> unat n"
  shows "push_seq n x (Some (xs @ l), word_of_nat (length xs)) =
     (case l of [] \<Rightarrow> None | _ # l' \<Rightarrow> Some (Some ((xs @ [x]) @ l'), word_of_nat (length (xs @ [x]))))"
proof -
  have u: "unat (word_of_nat (length xs) :: u16) = length xs" using assms(1) by (simp add: unat_of_nat take_bit_nat_eq_self)
  then have "(ucast (word_of_nat (length xs) :: u16) :: u32) \<le> n"
    using assms by (simp add: word_le_nat_alt unsigned_ucast_eq take_bit_nat_eq_self)
  then show ?thesis using u by (cases l) (auto simp: push_seq_def memwrite_def bsplice_def)
qed

lemma push_seqs_room:
  assumes "length xs + length ys \<le> 65536" "length xs + length ys \<le> unat n" "length ys \<le> length l"
  shows "for_each (push_seq n) ys (Some (xs @ l), word_of_nat (length xs)) =
     Some (Some ((xs @ ys) @ drop (length ys) l), word_of_nat (length (xs @ ys)))"
  using assms
proof (induction ys arbitrary: xs l)
  case (Cons y ys)
  from Cons.prems(3) obtain z l' where l: "l = z # l'" by (cases l) auto
  have "push_seq n y (Some (xs @ l), word_of_nat (length xs)) = Some (Some ((xs @ [y]) @ l'), word_of_nat (length (xs @ [y])))"
    using push_seq_room[of xs n y l] Cons.prems by (simp add: l)
  then show ?case using Cons.IH[of "xs @ [y]" l'] Cons.prems by (simp add: l)
qed simp

lemma push_seqs_overrun:
  assumes "length xs + length ys \<le> 65536" "length xs + length l = unat n" "length l < length ys"
  shows "for_each (push_seq n) ys (Some (xs @ l), word_of_nat (length xs)) = None"
  using assms
proof (induction ys arbitrary: xs l)
  case (Cons y ys)
  show ?case
  proof (cases l)
    case Nil
    then show ?thesis using push_seq_room[of xs n y l] Cons.prems by simp
  next
    case (Cons z l')
    have "push_seq n y (Some (xs @ l), word_of_nat (length xs)) = Some (Some ((xs @ [y]) @ l'), word_of_nat (length (xs @ [y])))"
      using push_seq_room[of xs n y l] Cons.prems by (simp add: Cons)
    then show ?thesis using Cons.IH[of "xs @ [y]" l'] Cons.prems by (simp add: Cons)
  qed
qed simp

lemma push_seqs_count:
  "for_each (push_seq n) ys (None, c) = Some (None, c + word_of_nat (length ys))"
  by (induction ys arbitrary: c) (simp_all add: push_seq_def ac_simps)

lemma nack_length_ok:
  assumes "8 + 4 * length es < 2 ^ 32"
  shows "unat (word_of_nat (8 + 4 * length es) :: u32) = 8 + 4 * length es" "(word_of_nat (8 + 4 * length es) :: u32) mod 4 = 0"
proof -
  show u: "unat (word_of_nat (8 + 4 * length es) :: u32) = 8 + 4 * length es"
    using assms by (simp only: unat_of_nat) (simp add: take_bit_nat_eq_self)
  have "unat ((word_of_nat (8 + 4 * length es) :: u32) mod 4) = (8 + 4 * length es) mod 4" by (simp only: unat_mod u) simp
  also have "\<dots> = 0" by presburger
  finally show "(word_of_nat (8 + 4 * length es) :: u32) mod 4 = 0" by (simp only: unat_eq_zero)
qed

lemma nack_list_eval:
  assumes "8 + 4 * length es < 2 ^ 32"
  shows "rtcpNackListGet isBig (Some (nack_bytes s r es @ rest)) (word_of_nat (8 + 4 * length es)) True pList (Some n) =
     (case for_each (push_seq n) (concat (map nack_entry es)) (pList, 0) of
        None \<Rightarrow> None
      | Some (lst, count) \<Rightarrow> Some (STATUS_SUCCESS, Some (s, r), lst, Some (ucast count)))"
  using nack_length_ok[OF assms]
  by (simp add: rtcpNackListGet_def nack_bytes_fields entries_loop[OF refl] Option.bind_def split: option.split del: of_nat_add of_nat_mult)

text \<open>
  The numbers of a NACK. A NACK message with the sources and entries \<open>es\<close>, whatever
  follows it in the buffer, is decoded to its sources and to the list of the packets it names,
  in order, when the list has room for all of them; what was in the list behind them stays.
  Without a list the same number of packets is reported, so the first call of
  \<open>resendPacketOnNack\<close> measures what the second one stores.
\<close>

lemma nack_list_decoded:
  assumes "8 + 4 * length es < 2 ^ 32" "length (concat (map nack_entry es)) < 2 ^ 16"
    and "length (concat (map nack_entry es)) \<le> unat n" "unat n \<le> length l"
  shows "rtcpNackListGet isBig (Some (nack_bytes s r es @ rest)) (word_of_nat (8 + 4 * length es)) True (Some l) (Some n) =
       Some (STATUS_SUCCESS, Some (s, r),
         Some (concat (map nack_entry es) @ drop (length (concat (map nack_entry es))) l),
         Some (word_of_nat (length (concat (map nack_entry es))))) \<and>
     rtcpNackListGet isBig (Some (nack_bytes s r es @ rest)) (word_of_nat (8 + 4 * length es)) True None (Some m) =
       Some (STATUS_SUCCESS, Some (s, r), None, Some (word_of_nat (length (concat (map nack_entry es)))))"
proof -
  let ?xs = "concat (map nack_entry es)"
  have c: "(ucast (word_of_nat (length ?xs) :: u16) :: u32) = word_of_nat (length ?xs)"
    using assms(2) by (simp only: word_unat_eq_iff unsigned_ucast_eq unat_of_nat) (simp add: take_bit_nat_eq_self)
  have "rtcpNackListGet isBig (Some (nack_bytes s r es @ rest)) (word_of_nat (8 + 4 * length es)) True (Some l) (Some n) =
       Some (STATUS_SUCCESS, Some (s, r), Some (?xs @ drop (length ?xs) l), Some (word_of_nat (length ?xs)))"
    using push_seqs_room[of "[]" ?xs n l] assms c unfolding nack_list_eval[OF assms(1)] by simp
  moreover have "rtcpNackListGet isBig (Some (nack_bytes s r es @ rest)) (word_of_nat (8 + 4 * length es)) True None (Some m) =
       Some (STATUS_SUCCESS, Some (s, r), None, Some (word_of_nat (length ?xs)))"
    using push_seqs_count[of m ?xs 0] c unfolding nack_list_eval[OF assms(1)] by simp
  ultimately show ?thesis by blast
qed

lemma nack_example: "concat (map nack_entry [(65535, 5)]) = [65535, 0, 2]"
proof -
  have "filter (bit (5 :: u16)) [0..<16] = [0, 2]" by (simp add: upt_rec)
  then show ?thesis by (simp add: nack_entry_def)
qed

lemma nack_list_decoded_witness:
  "rtcpNackListGet False (Some (nack_bytes 1 2 [(65535, 5)] @ [])) (word_of_nat (8 + 4 * length [(65535 :: u16, 5 :: u16)])) True
       (Some (replicate 4 9)) (Some 4) =
     Some (STATUS_SUCCESS, Some (1, 2),
       Some (concat (map nack_entry [(65535, 5)]) @ drop (length (concat (map nack_entry [(65535, 5)]))) (replicate 4 9)),
       Some (word_of_nat (length (concat (map nack_entry [(65535, 5)]))))) \<and>
   rtcpNackListGet False (Some (nack_bytes 1 2 [(65535, 5)] @ [])) (word_of_nat (8 + 4 * length [(65535 :: u16, 5 :: u16)])) True
       None (Some 4) =
     Some (STATUS_SUCCESS, Some (1, 2), None, Some (word_of_nat (length (concat (map nack_entry [(65535, 5)])))))"
  by (rule nack_list_decoded) (simp_all only: nack_example, simp_all)

text \<open>
  A NACK that names more packets than the list has room for writes behind the end of
  the list: the guard compares the counter with \<open><=\<close> where the last entry is one below the
  length. With a list of exactly \<open>n\<close> entries every longer NACK (below $2^{16}$ packets) faults.
\<close>

lemma nack_list_overrun:
  assumes "8 + 4 * length es < 2 ^ 32" "length (concat (map nack_entry es)) \<le> 2 ^ 16"
    and "unat n < length (concat (map nack_entry es))" "length l = unat n"
  shows "rtcpNackListGet isBig (Some (nack_bytes s r es @ rest)) (word_of_nat (8 + 4 * length es)) True (Some l) (Some n) = None"
  using push_seqs_overrun[of "[]" "concat (map nack_entry es)" l n] assms unfolding nack_list_eval[OF assms(1)] by simp

lemma nack_list_overrun_witness:
  "rtcpNackListGet False (Some (nack_bytes 1 2 [(65535, 5)] @ [])) (word_of_nat (8 + 4 * length [(65535 :: u16, 5 :: u16)])) True
     (Some [0, 0]) (Some 2) = None"
  by (rule nack_list_overrun) (simp_all only: nack_example, simp_all)

section \<open>Bit rates\<close>

definition remb_head :: "bytes \<Rightarrow> u32 \<Rightarrow> byte \<Rightarrow> byte \<Rightarrow> bytes" where
  "remb_head sources mantissa exponent n =
     sources @ [0x52, 0x45, 0x4d, 0x42] @ [n, push_bit 2 exponent OR ucast (drop_bit 16 mantissa)] @ be16 (ucast mantissa)"

definition remb_bytes :: "bytes \<Rightarrow> u32 \<Rightarrow> byte \<Rightarrow> u32 list \<Rightarrow> bytes" where
  "remb_bytes sources mantissa exponent ssrcs =
     remb_head sources mantissa exponent (word_of_nat (length ssrcs)) @ concat (map be32 ssrcs)"

lemma length_remb_head [simp]: "length sources = 8 \<Longrightarrow> length (remb_head sources m e n) = 16"
  by (simp add: remb_head_def)

lemma be32_at:
  "k < length xs \<Longrightarrow> getUnalignedInt32Be (concat (map be32 xs) @ r) (4 * k) = Some (xs ! k)"
proof (induction xs arbitrary: k)
  case (Cons x xs)
  then show ?case by (cases k) (simp_all add: get_Be_shift)
qed simp

lemma remb_ssrcs_loop:
  assumes len: "length sources = 8" and pl: "pl = remb_bytes sources m e ssrcs @ rest"
    and "n \<le> length ssrcs" "length ssrcs \<le> length l"
  shows "for_each (remb_ssrc isBig pl) [0..<n] (Some l) = Some (Some (take n ssrcs @ drop n l))"
  using assms(3)
proof (induction n)
  case (Suc n)
  have "getUnalignedInt32Be pl (16 + n * 4) = Some (ssrcs ! n)"
    using be32_at[of n ssrcs rest] Suc.prems len by (simp add: pl remb_bytes_def get_Be_shift mult.commute)
  then have "remb_ssrc isBig pl n (Some (take n ssrcs @ drop n l)) = Some (Some (take (Suc n) ssrcs @ drop (Suc n) l))"
    using Suc.prems assms(4) by (simp add: remb_ssrc_def memwrite_def bsplice_def take_Suc_conv_app_nth)
  then show ?case using Suc by (simp add: for_each_append)
qed simp

lemma remb_head_fields:
  assumes "length sources = 8" "m < 2 ^ 18" "e < 2 ^ 6"
  shows "\<exists>w. getUnalignedInt32Be (remb_head sources m e n @ r) 12 = Some w \<and> w AND 0x3FFFF = m"
    and "memget (remb_head sources m e n @ r) 13 = Some (push_bit 2 e OR ucast (drop_bit 16 m))"
    and "drop_bit 2 (push_bit 2 e OR ucast (drop_bit 16 m)) = e"
    and "memget (remb_head sources m e n @ r) 12 = Some n"
proof -
  have "unat m < 2 ^ 18" "unat e < 2 ^ 6" using assms(2,3) by (simp_all add: word_less_nat_alt)
  then have lt: "bit m i \<Longrightarrow> i < 18" "bit e i \<Longrightarrow> i < 6" for i using bit_word_lessD by blast+
  show "drop_bit 2 (push_bit 2 e OR ucast (drop_bit 16 m)) = e"
    by (rule bit_word_eqI) (auto simp: bit_simps dest: lt)
  let ?w = "MAKE_INT32 (ucast m) (MAKE_INT16 (push_bit 2 e OR ucast (drop_bit 16 m)) n)"
  have "getUnalignedInt32Be (remb_head sources m e n @ r) 12 = Some ?w"
    using assms(1) by (simp add: remb_head_def getUnalignedInt32Be_def memget_def nth_append be16_def)
  moreover have "?w AND 0x3FFFF = m"
  proof (rule bit_word_eqI)
    fix i assume "i < LENGTH(32)"
    have "(0x3FFFF :: u32) = mask 18" by (simp add: mask_eq_exp_minus_1)
    then have "bit (0x3FFFF :: u32) i = (i < 18)" by (simp only: bit_mask_iff) auto
    then show "bit (?w AND 0x3FFFF) i = bit m i"
      using lt(1)[of i] by (auto simp: bit_and_iff bit_MAKE bit_simps)
  qed
  ultimately show "\<exists>w. getUnalignedInt32Be (remb_head sources m e n @ r) 12 = Some w \<and> w AND 0x3FFFF = m" by blast
qed (use assms in \<open>simp_all add: remb_head_def memget_def nth_append\<close>)

text \<open>
  The values of a REMB message. A message with the 18-bit \<open>mantissa\<close>, an exponent below
  32 and at most 255 sources is decoded to its sources, stored in the caller's list, and to the
  bit rate \<open>mantissa * 2 ^ exponent\<close> modulo $2^{32}$; no byte outside the message is read.
\<close>

lemma remb_values:
  assumes "length sources = 8" "mantissa < 2 ^ 18" "exponent < 32" "length ssrcs < 256" "length ssrcs \<le> length l"
  shows "\<exists>rate. rembValueGet isBig (Some (remb_bytes sources mantissa exponent ssrcs @ rest))
       (word_of_nat (16 + 4 * length ssrcs)) (Some rate0) (Some l) (Some n0) =
     Some (STATUS_SUCCESS, Some rate, Some (ssrcs @ drop (length ssrcs) l), Some (word_of_nat (length ssrcs))) \<and>
     unat rate = unat mantissa * 2 ^ unat exponent mod 2 ^ 32"
proof -
  let ?n = "word_of_nat (length ssrcs) :: byte" and ?pl = "remb_bytes sources mantissa exponent ssrcs @ rest"
  have pl: "?pl = remb_head sources mantissa exponent ?n @ concat (map be32 ssrcs) @ rest"
    by (simp add: remb_bytes_def)
  have e: "exponent < 2 ^ 6" "unat exponent < 32" using assms(3) by (auto simp: word_less_nat_alt)
  note f = remb_head_fields(1,2,4)[OF assms(1,2) e(1), of ?n "concat (map be32 ssrcs) @ rest", folded pl]
    remb_head_fields(3)[OF assms(1,2) e(1)]
  obtain w where w: "getUnalignedInt32Be ?pl 12 = Some w" "w AND 0x3FFFF = mantissa" using f(1) by blast
  have n: "unat ?n = length ssrcs" using assms(4) by (simp add: unat_of_nat take_bit_nat_eq_self)
  have len: "unat (word_of_nat (16 + 4 * length ssrcs) :: u32) = 16 + 4 * length ssrcs"
    using assms(4) by (simp only: unat_of_nat) (simp add: take_bit_nat_eq_self)
  have loop: "for_each (remb_ssrc isBig ?pl) [0..<length ssrcs] (Some l) = Some (Some (ssrcs @ drop (length ssrcs) l))"
    using remb_ssrcs_loop[OF assms(1) refl order_refl assms(5)] by simp
  have "rembValueGet isBig (Some ?pl) (word_of_nat (16 + 4 * length ssrcs)) (Some rate0) (Some l) (Some n0) =
     Some (STATUS_SUCCESS, Some (push_bit (unat exponent) mantissa), Some (ssrcs @ drop (length ssrcs) l), Some ?n)"
    using w f(2-4) n len loop e(2) unfolding rembValueGet_def by (simp add: Let_def del: of_nat_add of_nat_mult push_bit_and drop_bit_or)
  moreover have "unat (push_bit (unat exponent) mantissa) = unat mantissa * 2 ^ unat exponent mod 2 ^ 32"
    by (simp only: unsigned_push_bit_eq) (simp add: push_bit_eq_mult take_bit_eq_mod)
  ultimately show ?thesis by blast
qed

lemma remb_values_witness:
  "\<exists>rate. rembValueGet False (Some (remb_bytes (replicate 8 0) 1000 3 [7] @ [])) (word_of_nat (16 + 4 * length [7 :: u32]))
       (Some 0) (Some [0, 0]) (Some 0) =
     Some (STATUS_SUCCESS, Some rate, Some ([7] @ drop (length [7 :: u32]) [0, 0]), Some (word_of_nat (length [7 :: u32]))) \<and>
     unat rate = unat (1000 :: u32) * 2 ^ unat (3 :: byte) mod 2 ^ 32"
  by (rule remb_values) simp_all

section \<open>Time\<close>

text \<open>
  NTP time stamps. The upper half of the result is the number of seconds since 1900,
  modulo $2^{32}$, and the lower half the fraction of the second in units of $2^{-32}$ s, rounded
  down; no step of the conversion overflows before the shift.
\<close>

lemma ntp_conversion:
  "unat (convertTimestampToNTP t) =
     (unat t div 10000000 + 2208988800) mod 2 ^ 32 * 2 ^ 32 + unat t mod 10000000 * 2 ^ 32 div 10000000"
proof -
  have tlt: "unat t < 2 ^ LENGTH(64)" by (rule unsigned_less)
  define sec frac where "sec = t div 10000000 + 2208988800" and "frac = t mod 10000000 * 4294967296 div 10000000"
  have "unat (t div 10000000) = unat t div 10000000" by (simp add: unat_div)
  moreover have "unat t div 10000000 + 2208988800 < 2 ^ 64" using tlt by (simp add: div_less_iff_less_mult less_diff_conv2)
  ultimately have s: "unat sec = unat t div 10000000 + 2208988800"
    unfolding sec_def by (subst unat_add_lem[THEN iffD1]) simp_all
  have m: "unat (t mod 10000000) = unat t mod 10000000" by (simp add: unat_mod)
  have "unat t mod 10000000 < 10000000" by simp
  then have "unat (t mod 10000000 * 4294967296) = unat t mod 10000000 * 4294967296"
    by (subst unat_mult_lem[THEN iffD1]) (simp_all add: m)
  then have f: "unat frac = unat t mod 10000000 * 2 ^ 32 div 10000000" by (simp add: frac_def unat_div)
  then have flt: "unat frac < 2 ^ 32" by (simp add: div_less_iff_less_mult)
  have "convertTimestampToNTP t = push_bit 32 sec OR frac"
    by (simp add: convertTimestampToNTP_def KVS_CONVERT_TIMESCALE_def sec_def frac_def Let_def)
  also have "\<dots> = push_bit 32 sec + frac"
    by (rule disjunctive_add[symmetric]) (auto simp: bit_simps dest: bit_word_lessD[OF _ flt])
  finally have e: "convertTimestampToNTP t = push_bit 32 sec + frac" .
  have p: "unat (push_bit 32 sec) = unat sec mod 2 ^ 32 * 2 ^ 32"
    using mod_mult_mult2[of "unat sec" "2 ^ 32" "2 ^ 32"]
    by (simp only: unsigned_push_bit_eq) (simp add: push_bit_eq_mult take_bit_eq_mod)
  have "unat sec mod 2 ^ 32 \<le> 2 ^ 32 - 1" by (simp add: less_Suc_eq_le[symmetric])
  then have "unat sec mod 2 ^ 32 * 2 ^ 32 \<le> (2 ^ 32 - 1) * 2 ^ 32" by (rule mult_right_mono) simp
  then have "unat (push_bit 32 sec) + unat frac < 2 ^ 64" using flt unfolding p by simp
  then have "unat (push_bit 32 sec + frac) = unat (push_bit 32 sec) + unat frac"
    by (simp add: unat_add_lem[THEN iffD1])
  then show ?thesis by (simp only: e p s f)
qed

end
