(* ===== verification/RtpReceive.thy ===== *)
theory RtpReceive
  imports JitterDelivery RtpRed RtpPayloader RtcpPacket
begin

text \<open>
  The receiving side of a transceiver in \<^verbatim>\<open>src/source/PeerConnection/PeerConnection.c\<close>: the sequence numbers that are counted for
  reports, the packets that are given to the jitter buffer, and the callbacks that hand its frames to the application.

  A receiver is the part of \<^verbatim>\<open>KvsRtpTransceiver\<close> that these functions use; it is the state of the application in the world of
  \<open>JitterBuffer\<close>. The statistics that are floating-point numbers are left out. \<open>fresh\<close> is the content of new memory, and \<open>mem\<close>
  tells which sizes can be allocated. The frames that were given to the callbacks of the application are kept in lists.
\<close>

section \<open>Data\<close>

record Frame =
  fr_index :: u32
  fr_decodingTs :: u64
  fr_size :: u32
  fr_frameData :: "bytes option"

record RtcInboundRtpStreamStats =
  in_packetsReceived :: u64
  in_packetsLost :: int
  in_packetsDiscarded :: u64
  in_lastPacketReceivedTimestamp :: u64
  in_headerBytesReceived :: u64
  in_bytesReceived :: u64
  in_fecPacketsReceived :: u64
  in_fecBytesReceived :: u64
  in_fecPacketsDiscarded :: u64
  in_jitterBufferEmittedCount :: u64
  in_framesReceived :: u32
  in_framesDropped :: u32
  in_fullFramesLost :: u32

record KvsRtpReceiver =
  rrMaxSeq :: u16
  rrCycles :: u32
  rrBaseSeq :: u32
  rrBadSeq :: u32
  rrExpectedPrior :: u32
  rrReceivedPrior :: u32
  rrSeqInitialized :: bool
  receiverRedPayloadType :: byte
  receiverOpusPayloadType :: byte
  peerFrameBuffer :: "bytes option"
  peerFrameBufferSize :: u32
  rx_isVideo :: bool
  rx_onFrame :: bool
  rx_onPartialFrame :: bool
  rx_frames :: "Frame list"
  rx_partialFrames :: "Frame list"
  inboundStats :: RtcInboundRtpStreamStats

abbreviation (input) RTP_SEQ_MOD :: u32 where "RTP_SEQ_MOD \<equiv> 0x10000"
abbreviation (input) MAX_DROPOUT :: nat where "MAX_DROPOUT \<equiv> 3000"
abbreviation (input) MAX_MISORDER :: nat where "MAX_MISORDER \<equiv> 100"
abbreviation (input) HUNDREDS_OF_NANOS_IN_A_MILLISECOND :: u64 where "HUNDREDS_OF_NANOS_IN_A_MILLISECOND \<equiv> 10000"

section \<open>Sequence numbers\<close>

definition rrInitSeq :: "u16 \<Rightarrow> KvsRtpReceiver \<Rightarrow> KvsRtpReceiver" where
  "rrInitSeq seq r = r\<lparr>rrBaseSeq := ucast seq, rrMaxSeq := seq, rrBadSeq := RTP_SEQ_MOD + 1, rrCycles := 0, rrExpectedPrior := 0,
     rrReceivedPrior := 0, rrSeqInitialized := True\<rparr>"

definition rrUpdateSeq :: "u16 \<Rightarrow> KvsRtpReceiver \<Rightarrow> KvsRtpReceiver" where
  "rrUpdateSeq seq r =
     (let udelta = seq - rrMaxSeq r in
      if unat udelta < MAX_DROPOUT then
        let r1 = (if seq < rrMaxSeq r then r\<lparr>rrCycles := rrCycles r + RTP_SEQ_MOD\<rparr> else r) in r1\<lparr>rrMaxSeq := seq\<rparr>
      else if unat udelta \<le> 65536 - MAX_MISORDER then
        if ucast seq = rrBadSeq r then rrInitSeq seq r
        else r\<lparr>rrBadSeq := (ucast seq + 1) AND (RTP_SEQ_MOD - 1)\<rparr>
      else
        let backward = ucast (rrMaxSeq r - seq) :: u32;
            extPacket = rrCycles r + ucast (rrMaxSeq r) - backward in
        if extPacket < rrBaseSeq r then r\<lparr>rrBaseSeq := extPacket\<rparr> else r)"

text \<open>The part of \<^verbatim>\<open>transceiverOnRtpPacketReceived\<close> that counts a packet.\<close>

definition rr_receive :: "u16 \<Rightarrow> KvsRtpReceiver \<Rightarrow> KvsRtpReceiver" where
  "rr_receive seq r = (if \<not> rrSeqInitialized r then rrInitSeq seq r else rrUpdateSeq seq r)"

definition packets_lost :: "KvsRtpReceiver \<Rightarrow> u64 \<Rightarrow> int" where
  "packets_lost r packetsReceived =
     (let extMax = rrCycles r + ucast (rrMaxSeq r); expected = extMax - rrBaseSeq r + 1 :: u32 in
      uint expected - sint packetsReceived)"

section \<open>The callbacks of the jitter buffer\<close>

text \<open>
  The buffer for a frame grows to one and a half times the size that is needed; a product that does not fit in 32 bits is a
  fault. When there is no memory, the buffer is null but the new size is kept.
\<close>

definition grow_frame_buffer :: "(nat \<Rightarrow> byte) \<Rightarrow> (nat \<Rightarrow> bool) \<Rightarrow> u32 \<Rightarrow> KvsRtpReceiver \<Rightarrow> (bool \<times> KvsRtpReceiver) option" where
  "grow_frame_buffer fresh mem frameSize r =
     (if frameSize > peerFrameBufferSize r then
        let n = unat frameSize * 3 div 2 in
        if uint frameSize * 3 div 2 \<ge> 2 ^ 32 then None
        else Some (mem n, r\<lparr>peerFrameBufferSize := word_of_nat n, peerFrameBuffer := (if mem n then Some (map fresh [0..<n]) else None)\<rparr>)
      else Some (True, r))"

definition onFrameReadyFunc ::
  "(nat \<Rightarrow> byte) \<Rightarrow> (nat \<Rightarrow> bool) \<Rightarrow> DepayRtpPayloadFunc \<Rightarrow> u16 \<Rightarrow> u16 \<Rightarrow> u32 \<Rightarrow> KvsRtpReceiver jb_world \<Rightarrow> (STATUS \<times> KvsRtpReceiver) option" where
  "onFrameReadyFunc fresh mem depay startIndex endIndex frameSize w =
     (let jb = w_jb w; r = w_app w; (st, a) = jitterBufferGetPacket (Some jb) startIndex in
      if st \<noteq> STATUS_SUCCESS \<and> st \<noteq> STATUS_HASH_KEY_NOT_PRESENT then Some (st, r)
      else if a = 0 then Some (STATUS_NULL_ARG, r)
      else do {
        p \<leftarrow> w_heap w a;
        let s = inboundStats r;
        let s1 = s\<lparr>in_jitterBufferEmittedCount := in_jitterBufferEmittedCount s + 1\<rparr>;
        let s2 = (if rx_isVideo r then s1\<lparr>in_framesReceived := in_framesReceived s1 + 1\<rparr> else s1);
        (enough, r2) \<leftarrow> grow_frame_buffer fresh mem frameSize (r\<lparr>inboundStats := s2\<rparr>);
        (if \<not> enough then Some (STATUS_NOT_ENOUGH_MEMORY, r2)
         else do {
           (st, buf, filledSize) \<leftarrow> jitterBufferFillFrameData depay (Some jb) (w_heap w) (peerFrameBuffer r2) frameSize startIndex endIndex;
           let r3 = r2\<lparr>peerFrameBuffer := buf\<rparr>;
           let frame = \<lparr>fr_index = ucast (in_jitterBufferEmittedCount s),
             fr_decodingTs = KVS_CONVERT_TIMESCALE (ucast (ts_of p)) (ucast (jb_clockRate jb)) HUNDREDS_OF_NANOS_IN_A_SECOND,
             fr_size = frameSize, fr_frameData = map_option (take (unat frameSize)) buf\<rparr>;
           Some (if st \<noteq> STATUS_SUCCESS then (st, r3)
             else if frameSize \<noteq> filledSize then (STATUS_INVALID_ARG_LEN, r3)
             else (STATUS_SUCCESS, if rx_onFrame r3 then r3\<lparr>rx_frames := rx_frames r3 @ [frame]\<rparr> else r3))
         })
      })"

definition onFrameDroppedFunc ::
  "(nat \<Rightarrow> byte) \<Rightarrow> (nat \<Rightarrow> bool) \<Rightarrow> DepayRtpPayloadFunc \<Rightarrow> u16 \<Rightarrow> u16 \<Rightarrow> u32 \<Rightarrow> KvsRtpReceiver jb_world \<Rightarrow> (STATUS \<times> KvsRtpReceiver) option" where
  "onFrameDroppedFunc fresh mem depay startIndex endIndex timestamp0 w =
     (let jb = w_jb w; r = w_app w; (st, a) = jitterBufferGetPacket (Some jb) startIndex in
      if st \<noteq> STATUS_SUCCESS \<and> st \<noteq> STATUS_HASH_KEY_NOT_PRESENT then Some (st, r)
      else if a = 0 then Some (STATUS_NULL_ARG, r)
      else do {
        p \<leftarrow> w_heap w a;
        let s = inboundStats r;
        let r1 = r\<lparr>inboundStats := s\<lparr>in_jitterBufferEmittedCount := in_jitterBufferEmittedCount s + 1,
              in_framesDropped := in_framesDropped s + 1, in_fullFramesLost := in_fullFramesLost s + 1\<rparr>\<rparr>;
        (if \<not> rx_onPartialFrame r1 then Some (STATUS_SUCCESS, r1)
         else do {
           (st, _, totalPartialSize) \<leftarrow> jitterBufferFillPartialFrameData depay (Some jb) (w_heap w) None 0 startIndex endIndex;
           (if totalPartialSize = 0 then Some (STATUS_SUCCESS, r1)
            else do {
              (enough, r2) \<leftarrow> grow_frame_buffer fresh mem totalPartialSize r1;
              (if \<not> enough then Some (STATUS_NOT_ENOUGH_MEMORY, r2)
               else do {
                 (st, buf, filledSize) \<leftarrow> jitterBufferFillPartialFrameData depay (Some jb) (w_heap w) (peerFrameBuffer r2) totalPartialSize startIndex endIndex;
                 let frame = \<lparr>fr_index = ucast (in_jitterBufferEmittedCount (inboundStats r2) - 1),
                   fr_decodingTs = ucast (ts_of p) * HUNDREDS_OF_NANOS_IN_A_MILLISECOND, fr_size = filledSize,
                   fr_frameData = map_option (take (unat filledSize)) buf\<rparr>;
                 Some (STATUS_SUCCESS, r2\<lparr>peerFrameBuffer := buf, rx_partialFrames := rx_partialFrames r2 @ [frame]\<rparr>)
               })
            })
         })
      })"

text \<open>A depayloader of \<open>RtpPayloader\<close> behind the function pointer of the jitter buffer.\<close>

definition as_depay :: "(bytes option \<Rightarrow> u32 \<Rightarrow> bytes option \<Rightarrow> u32 option \<Rightarrow> depay_result) \<Rightarrow> DepayRtpPayloadFunc" where
  "as_depay f raw n out sz first = map_option (\<lambda>(st, out', len, start). (st, out', case len of None \<Rightarrow> sz | Some l \<Rightarrow> l, start)) (f raw n out (Some sz))"

definition receiver_calls :: "(nat \<Rightarrow> byte) \<Rightarrow> (nat \<Rightarrow> bool) \<Rightarrow> DepayRtpPayloadFunc \<Rightarrow> KvsRtpReceiver JitterBufferCalls" where
  "receiver_calls fresh mem depay = \<lparr>onFrameReadyFn = onFrameReadyFunc fresh mem depay, onFrameDroppedFn = onFrameDroppedFunc fresh mem depay,
     depayPayloadFn = depay\<rparr>"

section \<open>Receiving a packet\<close>

text \<open>The statistics that are updated at the end.\<close>

record reception =
  rc_headerBytes :: u64
  rc_bytes :: u64
  rc_lastTimestamp :: u64
  rc_discarded :: u64
  rc_fecPackets :: u64
  rc_fecBytes :: u64
  rc_fecDiscarded :: u64

definition update_stats :: "reception \<Rightarrow> KvsRtpReceiver \<Rightarrow> KvsRtpReceiver" where
  "update_stats c r =
     (let s = inboundStats r; received = in_packetsReceived s + 1 in
      r\<lparr>inboundStats := s\<lparr>in_packetsReceived := received, in_lastPacketReceivedTimestamp := rc_lastTimestamp c,
        in_headerBytesReceived := in_headerBytesReceived s + rc_headerBytes c, in_bytesReceived := in_bytesReceived s + rc_bytes c,
        in_packetsDiscarded := in_packetsDiscarded s + rc_discarded c, in_fecPacketsReceived := in_fecPacketsReceived s + rc_fecPackets c,
        in_fecBytesReceived := in_fecBytesReceived s + rc_fecBytes c, in_fecPacketsDiscarded := in_fecPacketsDiscarded s + rc_fecDiscarded c,
        in_packetsLost := (if rrSeqInitialized r then packets_lost r received else in_packetsLost s)\<rparr>\<rparr>)"

text \<open>The packets that \<^verbatim>\<open>splitRedRtpPacket\<close> has allocated; \<open>alloc\<close> chooses their addresses.\<close>

fun store_packets :: "(heap \<Rightarrow> u64) \<Rightarrow> RtpPacket list \<Rightarrow> heap \<Rightarrow> u64 list \<times> heap" where
  "store_packets alloc [] h = ([], h)"
| "store_packets alloc (p # ps) h = (let a = alloc h; (as, h') = store_packets alloc ps (h(a \<mapsto> p)) in (a # as, h'))"

fun push_synthetics :: "KvsRtpReceiver JitterBufferCalls \<Rightarrow> bool \<Rightarrow> u64 list \<Rightarrow> reception \<Rightarrow> KvsRtpReceiver jb_world \<Rightarrow>
    (reception \<times> KvsRtpReceiver jb_world) option" where
  "push_synthetics calls tableMem [] c w = Some (c, w)"
| "push_synthetics calls tableMem (a # as) c w = do {
     p \<leftarrow> w_heap w a;
     let c1 = (if isSynthetic p then c\<lparr>rc_fecPackets := rc_fecPackets c + 1, rc_fecBytes := rc_fecBytes c + ucast (payloadLength p)\<rparr> else c);
     (st, synDiscarded, pw) \<leftarrow> jitterBufferPush calls tableMem a (Some w);
     w' \<leftarrow> pw;
     let c2 = (if st \<noteq> STATUS_SUCCESS \<or> synDiscarded then
         if isSynthetic p then c1\<lparr>rc_fecDiscarded := rc_fecDiscarded c1 + 1\<rparr>
         else if synDiscarded then c1\<lparr>rc_discarded := rc_discarded c1 + 1\<rparr> else c1
       else c1);
     push_synthetics calls tableMem as c2 w'
   }"

definition finish_reception :: "STATUS \<Rightarrow> reception \<Rightarrow> KvsRtpReceiver jb_world \<Rightarrow> STATUS \<times> KvsRtpReceiver jb_world" where
  "finish_reception st c w = (st, w\<lparr>w_app := update_stats c (w_app w)\<rparr>)"

text \<open>
  \<open>valid\<close> tells whether there is a transceiver with a jitter buffer; \<open>splitMem\<close> which packets of a RED packet can be allocated.
\<close>

definition transceiverOnRtpPacketReceived ::
  "KvsRtpReceiver JitterBufferCalls \<Rightarrow> (heap \<Rightarrow> u64) \<Rightarrow> bool \<Rightarrow> (nat \<Rightarrow> bool) \<Rightarrow> bool \<Rightarrow> u64 \<Rightarrow> KvsRtpReceiver jb_world \<Rightarrow>
   (STATUS \<times> KvsRtpReceiver jb_world) option" where
  "transceiverOnRtpPacketReceived calls alloc tableMem splitMem valid a w =
     (if \<not> valid \<or> a = 0 then do { (st, h, q) \<leftarrow> freeRtpPacket (w_heap w) (Some a); Some (STATUS_NULL_ARG, w\<lparr>w_heap := h\<rparr>) }
      else do {
        p \<leftarrow> w_heap w a;
        let r = rr_receive (seq_of p) (w_app w);
        let w1 = w\<lparr>w_app := r\<rparr>;
        let now = KVS_CONVERT_TIMESCALE (receivedTime p) HUNDREDS_OF_NANOS_IN_A_SECOND 1000;
        let c = \<lparr>rc_headerBytes = ucast (RTP_HEADER_LEN p), rc_bytes = ucast (rawPacketLength p - RTP_HEADER_LEN p), rc_lastTimestamp = 0,
          rc_discarded = 0, rc_fecPackets = 0, rc_fecBytes = 0, rc_fecDiscarded = 0\<rparr>;
        (if receiverRedPayloadType r \<noteq> 0 \<and> payloadType (header p) = receiverRedPayloadType r then do {
           (splitStatus, ps, fecBytes) \<leftarrow> splitRedRtpPacket splitMem (Some p) (receiverOpusPayloadType r) True 32;
           (if splitStatus = STATUS_SUCCESS \<and> ps \<noteq> [] then do {
              let (as, h) = store_packets alloc ps (w_heap w1);
              (c1, w2) \<leftarrow> push_synthetics calls tableMem as c (w1\<lparr>w_heap := h\<rparr>);
              (st, h2, q) \<leftarrow> freeRtpPacket (w_heap w2) (Some a);
              Some (finish_reception STATUS_SUCCESS (c1\<lparr>rc_lastTimestamp := now\<rparr>) (w2\<lparr>w_heap := h2\<rparr>))
            }
            else do {
              (st, h2, q) \<leftarrow> freeRtpPacket (w_heap w1) (Some a);
              Some (finish_reception STATUS_SUCCESS (c\<lparr>rc_lastTimestamp := now, rc_discarded := 1\<rparr>) (w1\<lparr>w_heap := h2\<rparr>))
            })
         }
         else do {
           (st, discarded, pw) \<leftarrow> jitterBufferPush calls tableMem a (Some w1);
           w2 \<leftarrow> pw;
           (if st \<noteq> STATUS_SUCCESS then do {
              (st2, h2, q) \<leftarrow> freeRtpPacket (w_heap w2) (Some a);
              Some (finish_reception st c (w2\<lparr>w_heap := h2\<rparr>))
            }
            else Some (finish_reception STATUS_SUCCESS (c\<lparr>rc_lastTimestamp := now, rc_discarded := (if discarded then 1 else 0)\<rparr>) w2))
         })
      })"

section \<open>Extended sequence numbers\<close>

text \<open>
  The sequence numbers of a stream counted without wrap-around, as \<open>nat\<close>: a packet is at most 2999 after the last one of the stream
  so far or at most 99 before it.
\<close>

fun near_stream :: "nat \<Rightarrow> nat list \<Rightarrow> bool" where
  "near_stream m [] = True"
| "near_stream m (e # es) = (e < m + MAX_DROPOUT \<and> m < e + MAX_MISORDER \<and> e < 2 ^ 32 \<and> near_stream (max m e) es)"

definition tracks :: "nat \<Rightarrow> nat \<Rightarrow> KvsRtpReceiver \<Rightarrow> bool" where
  "tracks lo hi r \<longleftrightarrow> rrSeqInitialized r \<and> unat (rrCycles r) = hi - hi mod 65536 \<and> rrMaxSeq r = word_of_nat hi \<and>
     unat (rrBaseSeq r) = lo \<and> lo \<le> hi \<and> hi < 2 ^ 32"

lemma cycle_step:
  assumes "hi \<le> e" "e < hi + 3000"
  shows "e - e mod 65536 = (hi - hi mod 65536) + (if e mod 65536 < hi mod 65536 then 65536 else (0 :: nat))"
proof -
  define qe qh re rh where q: "qe = e div 65536" "qh = hi div 65536" "re = e mod 65536" "rh = hi mod 65536"
  have e: "e = 65536 * qe + re" "hi = 65536 * qh + rh" "re < 65536" "rh < 65536" by (simp_all add: q)
  have "re < rh \<Longrightarrow> qh < qe" "qe < qh + 2" "qh < qe + 1" "\<not> re < rh \<Longrightarrow> qe < qh + 1" using assms e by linarith+
  then have "qe = qh + (if re < rh then 1 else 0)" by auto
  moreover have "e - re = 65536 * qe" "hi - rh = 65536 * qh" using e by simp_all
  ultimately show ?thesis by (simp add: q(3,4))
qed

lemma tracks_step:
  assumes "tracks lo hi r" and "e < hi + MAX_DROPOUT" and "hi < e + MAX_MISORDER" and "e < 2 ^ 32"
  shows "tracks (min lo e) (max hi e) (rr_receive (word_of_nat e) r)"
proof -
  have c: "rrSeqInitialized r" "unat (rrCycles r) = hi - hi mod 65536" "rrMaxSeq r = word_of_nat hi" "unat (rrBaseSeq r) = lo" "lo \<le> hi" "hi < 2 ^ 32"
    using assms(1) by (auto simp: tracks_def)
  have us: "unat (word_of_nat n :: u16) = n mod 65536" for n by (simp add: unsigned_of_nat take_bit_eq_mod)
  show ?thesis
  proof (cases "hi \<le> e")
    case True
    have d: "unat (word_of_nat e - word_of_nat hi :: u16) = e - hi"
    proof -
      have "(word_of_nat e - word_of_nat hi :: u16) = word_of_nat (e - hi)" using True by (simp add: of_nat_diff)
      then show ?thesis using assms(2) True us[of "e - hi"] by simp
    qed
    have wrap: "(word_of_nat e :: u16) < word_of_nat hi \<longleftrightarrow> e mod 65536 < hi mod 65536" by (simp add: word_less_nat_alt us)
    have q: "e - e mod 65536 = (hi - hi mod 65536) + (if e mod 65536 < hi mod 65536 then 65536 else 0)"
      using cycle_step[OF True assms(2)] .
    have "unat (rrCycles r + (if e mod 65536 < hi mod 65536 then 0x10000 else 0)) = e - e mod 65536"
    proof -
      have "unat (rrCycles r) + (if e mod 65536 < hi mod 65536 then 65536 else 0) = e - e mod 65536" using q c(2) by simp
      moreover have "e - e mod 65536 < 2 ^ 32" using assms(4) by simp
      ultimately show ?thesis by (auto simp: unat_word_ariths)
    qed
    moreover have "e - hi < 3000" using True assms(2) by simp
    ultimately show ?thesis using c d wrap True assms(4)
      by (cases "e mod 65536 < hi mod 65536") (simp_all add: tracks_def rr_receive_def rrUpdateSeq_def Let_def max_def min_def)
  next
    case False
    have bk: "(word_of_nat hi - word_of_nat e :: u16) = word_of_nat (hi - e)" using False by (simp add: of_nat_diff)
    have u: "unat (word_of_nat hi - word_of_nat e :: u16) = hi - e" unfolding bk us using assms(3) False by simp
    have "(word_of_nat (65536 - (hi - e)) :: u16) = word_of_nat 65536 - word_of_nat (hi - e)" using assms(3) False by (simp only: of_nat_diff)
    moreover have "(word_of_nat 65536 :: u16) = 0" by simp
    ultimately have "(word_of_nat e - word_of_nat hi :: u16) = word_of_nat (65536 - (hi - e))" unfolding bk[symmetric] by simp
    then have d: "unat (word_of_nat e - word_of_nat hi :: u16) = 65536 - (hi - e)" using us[of "65536 - (hi - e)"] False by simp
    have ext: "unat (rrCycles r + ucast (word_of_nat hi :: u16)) = hi"
      using c(2,6) us[of hi] by (simp add: unat_word_ariths unsigned_ucast_eq take_bit_nat_eq_self)
    have "unat (rrCycles r + ucast (word_of_nat hi :: u16) - ucast (word_of_nat hi - word_of_nat e :: u16)) = e"
    proof -
      have uu: "unat (ucast (word_of_nat hi - word_of_nat e :: u16) :: u32) = hi - e"
        unfolding unsigned_ucast_eq u using c(6) by (simp add: take_bit_nat_eq_self)
      then have le: "(ucast (word_of_nat hi - word_of_nat e :: u16) :: u32) \<le> rrCycles r + ucast (word_of_nat hi :: u16)"
        using ext by (simp only: word_le_nat_alt)
      show ?thesis unfolding unat_sub[OF le] uu ext using False by simp
    qed
    moreover have "\<not> 65536 - (hi - e) < 3000" "\<not> 65536 - (hi - e) \<le> 65436" using assms(3) False by linarith+
    ultimately show ?thesis using c d False
      by (cases "e < lo") (simp_all add: tracks_def rr_receive_def rrUpdateSeq_def Let_def max_def min_def word_less_nat_alt[where 'a = 32])
  qed
qed

lemma tracks_all:
  "tracks lo hi r \<Longrightarrow> near_stream hi es \<Longrightarrow>
    tracks (foldl min lo es) (foldl max hi es) (foldl (\<lambda>r e. rr_receive (word_of_nat e) r) r es)"
  by (induction es arbitrary: lo hi r) (simp_all add: tracks_step)

lemma tracks_first: "\<not> rrSeqInitialized r \<Longrightarrow> e < 65536 \<Longrightarrow> tracks e e (rr_receive (word_of_nat e) r)"
  by (simp add: tracks_def rr_receive_def rrInitSeq_def unsigned_ucast_eq unsigned_of_nat take_bit_eq_mod)

lemma foldl_max_Max: "foldl max (x :: nat) xs = Max (set (x # xs))"
  unfolding Max.set_eq_fold by (induction xs arbitrary: x) (simp_all add: max.commute)

lemma foldl_min_Min: "foldl min (x :: nat) xs = Min (set (x # xs))"
  unfolding Min.set_eq_fold by (induction xs arbitrary: x) (simp_all add: min.commute)

text \<open>A receiver before the first packet.\<close>

definition receiver0 :: KvsRtpReceiver where
  "receiver0 = \<lparr>rrMaxSeq = 0, rrCycles = 0, rrBaseSeq = 0, rrBadSeq = 0, rrExpectedPrior = 0, rrReceivedPrior = 0, rrSeqInitialized = False,
     receiverRedPayloadType = 0, receiverOpusPayloadType = 0, peerFrameBuffer = Some [], peerFrameBufferSize = 0, rx_isVideo = False, rx_onFrame = True,
     rx_onPartialFrame = False, rx_frames = [], rx_partialFrames = [],
     inboundStats = \<lparr>in_packetsReceived = 0, in_packetsLost = 0, in_packetsDiscarded = 0, in_lastPacketReceivedTimestamp = 0,
       in_headerBytesReceived = 0, in_bytesReceived = 0, in_fecPacketsReceived = 0, in_fecBytesReceived = 0, in_fecPacketsDiscarded = 0,
       in_jitterBufferEmittedCount = 0, in_framesReceived = 0, in_framesDropped = 0, in_fullFramesLost = 0\<rparr>\<rparr>"

text \<open>
  C32. The receiver counts the lost packets of a stream right through any number of wrap-arounds of the 16-bit sequence
  numbers and any reordering by less than 100 packets: when the packets with the extended sequence numbers \<open>e # es\<close> have
  arrived in this order, the number of lost packets is the number of packets from the lowest to the highest one less those received.
\<close>

theorem packets_lost_exact:
  assumes "\<not> rrSeqInitialized r" and "e < 65536" and "near_stream e es" and "n < 2 ^ 63" and "Max (set (e # es)) + 1 < 2 ^ 32"
  shows "packets_lost (foldl (\<lambda>r e. rr_receive (word_of_nat e) r) r (e # es)) (word_of_nat n) =
    int (Max (set (e # es)) - Min (set (e # es)) + 1) - int n"
proof -
  define r' lo hi where d: "r' = foldl (\<lambda>r e. rr_receive (word_of_nat e) r) r (e # es)" "lo = Min (set (e # es))" "hi = Max (set (e # es))"
  have t: "tracks lo hi r'"
    using tracks_all[OF tracks_first[OF assms(1,2)] assms(3)] unfolding foldl_max_Max foldl_min_Min d by simp
  then have "unat (rrCycles r' + ucast (rrMaxSeq r')) = hi"
    by (auto simp: tracks_def unat_word_ariths unsigned_ucast_eq unsigned_of_nat take_bit_eq_mod)
  then have "unat (rrCycles r' + ucast (rrMaxSeq r') - rrBaseSeq r' + 1) = hi - lo + 1"
    using t assms(5)[folded d] by (simp add: tracks_def unat_sub_if_size unat_word_ariths)
  moreover have "sint (word_of_nat n :: u64) = int n" using assms(4) by (simp add: signed_of_nat signed_take_bit_int_eq_self)
  ultimately show ?thesis unfolding d[symmetric] packets_lost_def Let_def uint_nat by simp
qed

theorem packets_lost_exact_witness:
  "packets_lost (foldl (\<lambda>r e. rr_receive (word_of_nat e) r) receiver0 [65534, 65530, 65536, 65540, 65535]) (word_of_nat 5) = 6"
proof -
  have m: "Max (set [65534, 65530, 65536, 65540, 65535]) = (65540 :: nat)" "Min (set [65534, 65530, 65536, 65540, 65535]) = (65530 :: nat)" by simp_all
  have "\<not> rrSeqInitialized receiver0" by (simp add: receiver0_def)
  then show ?thesis using packets_lost_exact[of receiver0 65534 "[65530, 65536, 65540, 65535]" 5] unfolding m by simp
qed

section \<open>Audio frames\<close>

text \<open>A packet of a codec with single packets; a receiver that has a buffer and an application.\<close>

definition audio_packet :: "RtpPacket \<Rightarrow> bool" where
  "audio_packet p \<longleftrightarrow> (\<exists>d. payload p = Some d \<and> d \<noteq> [] \<and> length d < 2 ^ 31 \<and> payloadLength p = word_of_nat (length d))"

definition receiver_ok :: "KvsRtpReceiver \<Rightarrow> bool" where
  "receiver_ok r \<longleftrightarrow> rx_onFrame r \<and> (\<exists>b. peerFrameBuffer r = Some b \<and> length b = unat (peerFrameBufferSize r))"

text \<open>The frame that the application gets, and the receiver afterwards.\<close>

definition frame_of :: "u32 \<Rightarrow> RtpPacket \<Rightarrow> u64 \<Rightarrow> Frame" where
  "frame_of c p n = \<lparr>fr_index = ucast n, fr_decodingTs = KVS_CONVERT_TIMESCALE (ucast (ts_of p)) (ucast c) HUNDREDS_OF_NANOS_IN_A_SECOND,
     fr_size = payloadLength p, fr_frameData = payload p\<rparr>"

definition deliver_audio :: "(nat \<Rightarrow> byte) \<Rightarrow> u32 \<Rightarrow> RtpPacket \<Rightarrow> KvsRtpReceiver \<Rightarrow> KvsRtpReceiver" where
  "deliver_audio fresh c p r =
     (let s = inboundStats r; d = the (payload p); n = length d;
          s1 = s\<lparr>in_jitterBufferEmittedCount := in_jitterBufferEmittedCount s + 1\<rparr>;
          s2 = (if rx_isVideo r then s1\<lparr>in_framesReceived := in_framesReceived s1 + 1\<rparr> else s1);
          grow = (payloadLength p > peerFrameBufferSize r);
          buf = (if grow then map fresh [0..<n * 3 div 2] else the (peerFrameBuffer r)) in
      r\<lparr>inboundStats := s2, peerFrameBufferSize := (if grow then word_of_nat (n * 3 div 2) else peerFrameBufferSize r),
        peerFrameBuffer := Some (d @ drop n buf), rx_frames := rx_frames r @ [frame_of c p (in_jitterBufferEmittedCount s)]\<rparr>)"

lemma audio_size: "length d < 2 ^ 31 \<Longrightarrow> unat (word_of_nat (length d) :: u32) = length d"
  by (rule unat_small32) simp

lemma audio_fill:
  assumes d: "payload p = Some d" "d \<noteq> []" "length d < 2 ^ 31" "payloadLength p = word_of_nat (length d)" and b: "length d \<le> length buf"
    and t: "jb_pPkgBufferHashTable jb i = Some a" "a \<noteq> 0" "h a = Some p"
  shows "jitterBufferFillFrameData (as_depay depayOpusFromRtpPayload) (Some jb) h (Some buf) (payloadLength p) i i =
    Some (STATUS_SUCCESS, Some (d @ drop (length d) buf), payloadLength p)"
proof -
  have len: "length d < 2 ^ 32" using d(3) by simp
  have "as_depay depayOpusFromRtpPayload (payload p) (payloadLength p) (Some buf) (payloadLength p) True =
      Some (STATUS_SUCCESS, Some (d @ drop (length d) buf), payloadLength p, True)"
    using depay_audio(2)[OF d(2) len b, of "[]"] by (simp add: as_depay_def d)
  moreover have "seq_range i i = [i]" by (simp add: seq_range_def)
  ultimately show ?thesis using t by (simp add: jitterBufferFillFrameData_def defaultFillFrameData_def fill_round_def)
qed

lemma audio_ready:
  assumes "audio_packet p" and r: "receiver_ok (w_app w)" and t: "jb_pPkgBufferHashTable (w_jb w) i = Some a" "a \<noteq> 0" "w_heap w a = Some p"
  shows "onFrameReadyFunc fresh (\<lambda>_. True) (as_depay depayOpusFromRtpPayload) i i (payloadLength p) w =
    Some (STATUS_SUCCESS, deliver_audio fresh (jb_clockRate (w_jb w)) p (w_app w))"
proof -
  obtain d where d: "payload p = Some d" "d \<noteq> []" "length d < 2 ^ 31" "payloadLength p = word_of_nat (length d)"
    using assms(1) by (auto simp: audio_packet_def)
  have n: "unat (payloadLength p) = length d" using audio_size[OF d(3)] d(4) by simp
  obtain b where b: "peerFrameBuffer (w_app w) = Some b" "length b = unat (peerFrameBufferSize (w_app w))" using r by (auto simp: receiver_ok_def)
  have small: "uint (payloadLength p) * 3 div 2 < 2 ^ 32" "length d \<le> length d * 3 div 2" using d(3) by (simp_all add: uint_nat n)
  show ?thesis
  proof (cases "payloadLength p > peerFrameBufferSize (w_app w)")
    case True
    then show ?thesis using t r n d(1) small audio_fill[OF d, of "map fresh [0..<length d * 3 div 2]" "w_jb w" i a "w_heap w"]
      by (simp add: onFrameReadyFunc_def deliver_audio_def jitterBufferGetPacket_def defaultGetPacket_def grow_frame_buffer_def frame_of_def receiver_ok_def Let_def)
  next
    case False
    then have "length d \<le> length b" using n b(2) by (simp add: word_less_nat_alt)
    then show ?thesis using t r n d(1) b(1) False audio_fill[OF d, of b "w_jb w" i a "w_heap w"]
      by (simp add: onFrameReadyFunc_def deliver_audio_def jitterBufferGetPacket_def defaultGetPacket_def grow_frame_buffer_def frame_of_def receiver_ok_def Let_def)
  qed
qed

lemma audio_keeps_ok:
  assumes "audio_packet p" and "receiver_ok r"
  shows "receiver_ok (deliver_audio fresh c p r)"
proof -
  obtain d where d: "payload p = Some d" "length d < 2 ^ 31" "payloadLength p = word_of_nat (length d)"
    using assms(1) by (auto simp: audio_packet_def)
  have n: "unat (payloadLength p) = length d" "unat (word_of_nat (length d * 3 div 2) :: u32) = length d * 3 div 2"
    using audio_size[OF d(2)] d by (simp, intro unat_small32) simp
  then show ?thesis using assms(2) d(1) by (auto simp: receiver_ok_def deliver_audio_def Let_def word_less_nat_alt)
qed

interpretation opus_rx: single_packet_receiver "receiver_calls fresh (\<lambda>_. True) (as_depay depayOpusFromRtpPayload)" receiver_ok audio_packet "deliver_audio fresh"
  for fresh
proof (unfold_locales, goal_cases)
  case (1 p sz)
  then obtain d where d: "payload p = Some d" "d \<noteq> []" "length d < 2 ^ 32" "payloadLength p = word_of_nat (length d)"
    by (auto simp: audio_packet_def)
  then show ?case using depay_audio(1)[OF d(2,3), of "[]" sz] by (simp add: receiver_calls_def as_depay_def)
next
  case (2 p w i a)
  then show ?case using audio_ready by (simp add: receiver_calls_def)
next
  case (3 p e c)
  then show ?case by (rule audio_keeps_ok)
qed

text \<open>Counting a packet does not touch the frames.\<close>

lemma rr_receive_fields [simp]:
  "rx_frames (rr_receive seq r) = rx_frames r" "receiver_ok (rr_receive seq r) = receiver_ok r"
  "receiverRedPayloadType (rr_receive seq r) = receiverRedPayloadType r" "inboundStats (rr_receive seq r) = inboundStats r"
  by (simp_all add: rr_receive_def rrInitSeq_def rrUpdateSeq_def receiver_ok_def Let_def)

lemma update_stats_fields [simp]:
  "rx_frames (update_stats c r) = rx_frames r" "receiver_ok (update_stats c r) = receiver_ok r"
  "receiverRedPayloadType (update_stats c r) = receiverRedPayloadType r"
  "in_jitterBufferEmittedCount (inboundStats (update_stats c r)) = in_jitterBufferEmittedCount (inboundStats r)"
  by (simp_all add: update_stats_def receiver_ok_def Let_def)

lemma deliver_audio_fields [simp]:
  "rx_frames (deliver_audio fresh c p r) = rx_frames r @ [frame_of c p (in_jitterBufferEmittedCount (inboundStats r))]"
  "receiverRedPayloadType (deliver_audio fresh c p r) = receiverRedPayloadType r"
  "in_jitterBufferEmittedCount (inboundStats (deliver_audio fresh c p r)) = in_jitterBufferEmittedCount (inboundStats r) + 1"
  by (simp_all add: deliver_audio_def Let_def)

fun receive_all :: "KvsRtpReceiver JitterBufferCalls \<Rightarrow> (heap \<Rightarrow> u64) \<Rightarrow> u64 list \<Rightarrow> KvsRtpReceiver jb_world \<Rightarrow> KvsRtpReceiver jb_world option" where
  "receive_all calls alloc [] w = Some w"
| "receive_all calls alloc (a # as) w = do {
     (st, w') \<leftarrow> transceiverOnRtpPacketReceived calls alloc True (\<lambda>_. True) True a w;
     receive_all calls alloc as w'
   }"

abbreviation opus_calls :: "(nat \<Rightarrow> byte) \<Rightarrow> KvsRtpReceiver JitterBufferCalls" where
  "opus_calls fresh \<equiv> receiver_calls fresh (\<lambda>_. True) (as_depay depayOpusFromRtpPayload)"

text \<open>What is kept between the packets of a stream: the receiver is ready, and the frames so far were numbered by the counter.\<close>

definition rx_inv :: "KvsRtpReceiver \<Rightarrow> bool" where
  "rx_inv r \<longleftrightarrow> receiver_ok r \<and> receiverRedPayloadType r = 0"

definition frames_from :: "u32 \<Rightarrow> KvsRtpReceiver \<Rightarrow> RtpPacket list \<Rightarrow> Frame list" where
  "frames_from c r ps = map (\<lambda>(k, p). frame_of c p (in_jitterBufferEmittedCount (inboundStats r) + word_of_nat k)) (enumerate 0 ps)"

lemma received_audio:
  assumes "defaultPush (opus_calls fresh) True a (w\<lparr>w_app := rr_receive (seq_of p) (w_app w)\<rparr>) = Some (STATUS_SUCCESS, False, v)"
    and "w_app v = deliver_audio fresh c p (rr_receive (seq_of p) (w_app w))" and "a \<noteq> 0" and "w_heap w a = Some p" and "audio_packet p" and "rx_inv (w_app w)"
  shows "\<exists>w'. transceiverOnRtpPacketReceived (opus_calls fresh) alloc True (\<lambda>_. True) True a w = Some (STATUS_SUCCESS, w') \<and>
    w_jb w' = w_jb v \<and> w_heap w' = w_heap v \<and> rx_inv (w_app w') \<and>
    rx_frames (w_app w') = rx_frames (w_app w) @ [frame_of c p (in_jitterBufferEmittedCount (inboundStats (w_app w)))] \<and>
    in_jitterBufferEmittedCount (inboundStats (w_app w')) = in_jitterBufferEmittedCount (inboundStats (w_app w)) + 1"
  using assms audio_keeps_ok[OF assms(5), of "rr_receive (seq_of p) (w_app w)"]
  by (simp add: transceiverOnRtpPacketReceived_def jitterBufferPush_def finish_reception_def rx_inv_def Let_def)

lemma receive_follows:
  assumes "drained c n t (w_jb w)" and "follows n t ps" and "list_all2 (\<lambda>a p. w_heap w a = Some p) as ps" and "distinct as" and "0 \<notin> set as"
    and "\<forall>p \<in> set ps. audio_packet p" and "rx_inv (w_app w)"
  shows "\<exists>w'. receive_all (opus_calls fresh) alloc as w = Some w' \<and> rx_frames (w_app w') = rx_frames (w_app w) @ frames_from c (w_app w) ps \<and>
    w_heap w' = w_heap w |` (- set as)"
  using assms
proof (induction ps arbitrary: as w n t)
  case (Cons p ps)
  then obtain a bs where as: "as = a # bs" "w_heap w a = Some p" "list_all2 (\<lambda>a p. w_heap w a = Some p) bs ps"
    by (auto simp: list_all2_Cons2)
  let ?w = "w\<lparr>w_app := rr_receive (seq_of p) (w_app w)\<rparr>"
  have p: "a \<noteq> 0" "audio_packet p" "receiver_ok (w_app ?w)" using Cons as(1) by (auto simp: rx_inv_def)
  have f: "seq_of p = n" "n \<noteq> 0" "ts_of p \<noteq> t" "follows (n + 1) (ts_of p) ps" using Cons(3) by auto
  obtain v where v: "defaultPush (opus_calls fresh) True a ?w = Some (STATUS_SUCCESS, False, v)" "drained c (n + 1) (ts_of p) (w_jb v)"
      "w_heap v = (w_heap w)(a := None)" "w_app v = deliver_audio fresh c p (w_app ?w)"
    using opus_rx.push_next[of c n t ?w a p fresh] Cons(2) p as(2) f by auto
  obtain w1 where w1: "transceiverOnRtpPacketReceived (opus_calls fresh) alloc True (\<lambda>_. True) True a w = Some (STATUS_SUCCESS, w1)"
      "w_jb w1 = w_jb v" "w_heap w1 = w_heap v" "rx_inv (w_app w1)"
      "rx_frames (w_app w1) = rx_frames (w_app w) @ [frame_of c p (in_jitterBufferEmittedCount (inboundStats (w_app w)))]"
      "in_jitterBufferEmittedCount (inboundStats (w_app w1)) = in_jitterBufferEmittedCount (inboundStats (w_app w)) + 1"
    using received_audio[OF v(1) _ p(1) as(2) p(2) Cons(8), of c alloc] v(4) by auto
  have "list_all2 (\<lambda>a p. w_heap w1 a = Some p) bs ps"
    using as(3) Cons(5) unfolding as(1) w1(3) v(3) by (auto simp: list_all2_iff dest: set_zip_leftD)
  then obtain w' where w': "receive_all (opus_calls fresh) alloc bs w1 = Some w'"
      "rx_frames (w_app w') = rx_frames (w_app w1) @ frames_from c (w_app w1) ps" "w_heap w' = w_heap w1 |` (- set bs)"
    using Cons(1)[of "n + 1" "ts_of p" w1 bs] v(2) w1(2,4) f(4) Cons(5-7) as(1) by auto
  have fr: "frames_from c (w_app w) (p # ps) = frame_of c p (in_jitterBufferEmittedCount (inboundStats (w_app w))) # frames_from c (w_app w1) ps"
    by (simp add: frames_from_def w1(6) enumerate_Suc_eq enumerate_map_upt split_def ac_simps)
  have "(w_heap w)(a := None) |` (- set bs) = w_heap w |` (- set (a # bs))" by (auto simp: restrict_map_def fun_eq_iff)
  then show ?case using w' w1(1,3,5) v(3) as(1) fr by simp
qed (simp add: restrict_map_def frames_from_def)

text \<open>
  C31. A stream of audio packets without losses whose sequence numbers do not wrap around reaches the application: the receiver with a new jitter
  buffer that is given the packets in order hands out exactly their payloads as frames, in order, with their times and numbers,
  and all packets have been freed.
\<close>

theorem audio_frames_delivered:
  assumes "createJitterBuffer mem tableMem fs lat clock True pp = Some (STATUS_SUCCESS, Some jb)" and "in_order ps"
    and "list_all2 (\<lambda>a p. h a = Some p) as ps" and "distinct as" and "0 \<notin> set as" and "\<forall>p \<in> set ps. audio_packet p"
    and "receiver_ok r" and "receiverRedPayloadType r = 0" and "rx_frames r = []"
  shows "\<exists>w'. receive_all (opus_calls fresh) alloc as \<lparr>w_jb = jb, w_heap = h, w_app = r\<rparr> = Some w' \<and>
    rx_frames (w_app w') = frames_from clock r ps \<and> map fr_frameData (rx_frames (w_app w')) = map payload ps \<and> w_heap w' = h |` (- set as)"
proof -
  have data: "map fr_frameData (frames_from clock r ps) = map payload ps"
    by (rule nth_equalityI) (simp_all add: frames_from_def frame_of_def nth_enumerate_eq split_def)
  let ?w = "\<lparr>w_jb = jb, w_heap = h, w_app = r\<rparr>"
  have inv: "rx_inv r" using assms(7,8) by (simp add: rx_inv_def)
  show ?thesis
  proof (cases ps)
    case Nil
    then show ?thesis using assms(3,9) by (simp add: frames_from_def restrict_map_def)
  next
    case (Cons p qs)
    then obtain a bs where as: "as = a # bs" "h a = Some p" "list_all2 (\<lambda>a p. h a = Some p) bs qs"
      using assms(3) by (auto simp: list_all2_Cons2)
    let ?v = "?w\<lparr>w_app := rr_receive (seq_of p) r\<rparr>"
    have p: "a \<noteq> 0" "audio_packet p" "receiver_ok (w_app ?v)" using assms(5-7) as(1) Cons by auto
    have "new_buffer clock jb" using assms(1) by (auto simp: createJitterBuffer_def new_buffer_def Let_def split: if_splits)
    then obtain v where v: "defaultPush (opus_calls fresh) True a ?v = Some (STATUS_SUCCESS, False, v)" "drained clock (seq_of p + 1) (ts_of p) (w_jb v)"
        "w_heap v = h(a := None)" "w_app v = deliver_audio fresh clock p (w_app ?v)"
      using opus_rx.push_first[of clock ?v a p fresh] p as(2) by auto
    obtain w1 where w1: "transceiverOnRtpPacketReceived (opus_calls fresh) alloc True (\<lambda>_. True) True a ?w = Some (STATUS_SUCCESS, w1)"
        "w_jb w1 = w_jb v" "w_heap w1 = w_heap v" "rx_inv (w_app w1)" "rx_frames (w_app w1) = [frame_of clock p (in_jitterBufferEmittedCount (inboundStats r))]"
        "in_jitterBufferEmittedCount (inboundStats (w_app w1)) = in_jitterBufferEmittedCount (inboundStats r) + 1"
      using received_audio[of fresh a p ?w v clock alloc] v(1,4) p(1,2) as(2) inv assms(9) by auto
    have "list_all2 (\<lambda>a p. w_heap w1 a = Some p) bs qs"
      using as(3) assms(4) unfolding as(1) w1(3) v(3) by (auto simp: list_all2_iff dest: set_zip_leftD)
    then obtain w' where w': "receive_all (opus_calls fresh) alloc bs w1 = Some w'"
        "rx_frames (w_app w') = rx_frames (w_app w1) @ frames_from clock (w_app w1) qs" "w_heap w' = w_heap w1 |` (- set bs)"
      using receive_follows[of clock "seq_of p + 1" "ts_of p" w1 qs bs fresh alloc] v(2) w1(2,4) assms(2,4-6) as(1) Cons by auto
    have fr: "frames_from clock r ps = frame_of clock p (in_jitterBufferEmittedCount (inboundStats r)) # frames_from clock (w_app w1) qs"
      unfolding Cons by (simp add: frames_from_def w1(6) enumerate_Suc_eq enumerate_map_upt split_def ac_simps)
    have "h(a := None) |` (- set bs) = h |` (- set (a # bs))" by (auto simp: restrict_map_def fun_eq_iff)
    then show ?thesis using w' w1(1,3,5) v(3) as(1) fr data by simp
  qed
qed

text \<open>Two packets of an audio stream.\<close>

definition audio0 :: "u16 \<Rightarrow> u32 \<Rightarrow> bytes \<Rightarrow> RtpPacket" where
  "audio0 seq ts d = packet0\<lparr>header := header packet0\<lparr>sequenceNumber := seq, timestamp := ts\<rparr>, payload := Some d, payloadLength := word_of_nat (length d)\<rparr>"

theorem audio_frames_delivered_witness:
  "\<exists>jb w'. createJitterBuffer True True True 0 48000 True True = Some (STATUS_SUCCESS, Some jb) \<and>
    receive_all (opus_calls (\<lambda>_. 0)) (\<lambda>_. 0) [1, 2] \<lparr>w_jb = jb, w_heap = [1 \<mapsto> audio0 7 960 [1, 2], 2 \<mapsto> audio0 8 1920 [3]], w_app = receiver0\<rparr> = Some w' \<and>
    map fr_frameData (rx_frames (w_app w')) = [Some [1, 2], Some [3]] \<and> w_heap w' = Map.empty"
proof -
  obtain jb where jb: "createJitterBuffer True True True 0 48000 True True = Some (STATUS_SUCCESS, Some jb)" by (simp add: createJitterBuffer_def)
  let ?h = "[1 \<mapsto> audio0 7 960 [1, 2], 2 \<mapsto> audio0 8 1920 [3]] :: heap" and ?ps = "[audio0 7 960 [1, 2], audio0 8 1920 [3]]"
  have e: "?h |` (- set [1, 2]) = Map.empty" by (auto simp: restrict_map_def fun_eq_iff)
  have "in_order ?ps" "list_all2 (\<lambda>a p. ?h a = Some p) [1, 2] ?ps" "distinct [1, 2 :: u64]" "0 \<notin> set [1, 2 :: u64]" "\<forall>p \<in> set ?ps. audio_packet p"
      "receiver_ok receiver0" "receiverRedPayloadType receiver0 = 0" "rx_frames receiver0 = []"
    by (simp_all add: audio0_def audio_packet_def receiver_ok_def receiver0_def)
  note d = audio_frames_delivered[OF jb this, of "\<lambda>_. 0" "\<lambda>_. 0"]
  have "map payload ?ps = [Some [1, 2], Some [3]]" by (simp add: audio0_def)
  with d show ?thesis using jb unfolding e by metis
qed

section \<open>Ownership\<close>

text \<open>A RED packet is read only inside of its payload, whatever it contains.\<close>

definition payload_ok :: "RtpPacket \<Rightarrow> bool" where
  "payload_ok p \<longleftrightarrow> (\<forall>body. payload p = Some body \<longrightarrow> unat (payloadLength p) \<le> length body)"

lemma three_elements: "length xs = 3 \<Longrightarrow> \<exists>a b c. xs = [a, b, c]"
  by (auto simp: numeral_3_eq_3 length_Suc_conv)

lemma parse_red_total:
  assumes "bodyLen \<le> length body"
  shows "\<exists>r. parse_red_from body bodyLen n off blocks = Some r"
proof (induction "bodyLen - off" arbitrary: off blocks rule: less_induct)
  case less
  show ?case
  proof (cases "off < bodyLen \<and> length blocks < n \<and> body ! off AND 0x80 \<noteq> 0 \<and> off + 4 \<le> bodyLen")
    case True
    have "length (take 3 (drop (off + 1) body)) = 3" using True assms by (auto simp: min_def)
    then obtain b1 b2 b3 where "take 3 (drop (off + 1) body) = [b1, b2, b3]"
      using three_elements by blast
    then have "memread body (off + 1) 3 = Some [b1, b2, b3]" using True assms by (simp add: memread_def)
    moreover have "\<exists>r. parse_red_from body bodyLen n (off + 4) bs = Some r" for bs using True by (intro less(1)) linarith
    ultimately show ?thesis using True assms by (subst parse_red_from.simps) (simp add: memget_def)
  next
    case False
    then show ?thesis using assms by (subst parse_red_from.simps) (auto simp: memget_def)
  qed
qed

lemma split_loop_total:
  "cursor + sum_list (map (\<lambda>b. unat (bi_payloadLen (snd b))) bs) \<le> length body \<Longrightarrow>
    \<exists>r. split_loop mem red pt body n bs cursor out fec = Some r"
proof (induction bs arbitrary: cursor out fec)
  case (Cons b bs)
  obtain i x where b: "b = (i, x)" by (cases b)
  have le: "cursor + unat (bi_payloadLen x) + sum_list (map (\<lambda>b. unat (bi_payloadLen (snd b))) bs) \<le> length body" using Cons(2) b by simp
  note IH = Cons(1)[OF le]
  obtain d where "memread body cursor (unat (bi_payloadLen x)) = Some d" using le by (simp add: memread_def)
  then show ?case using IH b by (auto simp: Let_def split: prod.splits option.splits)
qed simp

lemma red_split_total:
  assumes "payload_ok red"
  shows "\<exists>r. splitRedRtpPacket mem (Some red) pt ptrs maxCount = Some r"
proof (cases "payload red")
  case None
  then show ?thesis by (simp add: splitRedRtpPacket_def)
next
  case (Some body)
  define n where "n = unat (payloadLength red)"
  have len: "n \<le> length body" "n < 2 ^ 32"
    using assms Some unsigned_less[of "payloadLength red", where ?'a = nat] by (simp_all add: payload_ok_def n_def)
  obtain st0 bs0 off0 where "parse_red_from body n 32 0 [] = Some (st0, bs0, off0)"
    using parse_red_total[OF len(1), of 32 0 "[]"] by auto
  then obtain st blocks off where p: "parseRedHeaders body n 32 = Some (st, blocks, off)" by (simp add: parseRedHeaders_def) (metis prod_cases3)
  define sum where "sum = sum_list (map (\<lambda>b. unat (bi_payloadLen b)) (butlast blocks))"
  have "\<exists>r. split_loop mem red pt body k (enumerate 0 (butlast blocks @ [(last blocks)\<lparr>bi_payloadLen := word_of_nat (n - off - sum)\<rparr>])) off [] 0 = Some r"
    if "off + sum \<le> n" for k
  proof (rule split_loop_total)
    have "unat (word_of_nat (n - off - sum) :: u32) = n - off - sum" using len(2) by (intro unat_small32) simp
    then show "off + sum_list (map (\<lambda>b. unat (bi_payloadLen (snd b))) (enumerate 0 (butlast blocks @ [(last blocks)\<lparr>bi_payloadLen := word_of_nat (n - off - sum)\<rparr>])))
        \<le> length body"
      using that len(1) unfolding enumerate_values[of "\<lambda>b. unat (bi_payloadLen b)"] by (simp add: sum_def[symmetric])
  qed
  then show ?thesis using Some p by (simp add: splitRedRtpPacket_def Let_def n_def[symmetric] sum_def[symmetric])
qed

lemma split_loop_count:
  "split_loop mem red pt body n bs cursor out fec = Some (st, ps, fec') \<Longrightarrow> length ps \<le> length out + length bs"
proof (induction bs arbitrary: pt cursor out fec)
  case (Cons b bs)
  obtain i x where b: "b = (i, x)" by (cases b)
  have IH: "length ps \<le> length out' + length bs" if "split_loop mem red pt' body n bs c out' f = Some (st, ps, fec')" for pt' c out' f
    by (rule Cons(1)[OF that])
  show ?case using Cons(2) unfolding b split_loop.simps Let_def
    by (auto split: if_splits option.splits prod.splits dest!: IH)
qed simp

lemma red_split_count:
  assumes "splitRedRtpPacket mem (Some red) pt True 32 = Some (st, ps, fec)"
  shows "length ps \<le> 32"
  using assms
  by (auto simp: splitRedRtpPacket_def Let_def bind_eq_Some_conv split: option.splits if_splits dest!: split_loop_count)

text \<open>The next \<open>n\<close> allocations succeed with new addresses.\<close>

fun alloc_ok :: "(heap \<Rightarrow> u64) \<Rightarrow> nat \<Rightarrow> heap \<Rightarrow> bool" where
  "alloc_ok alloc 0 h = True"
| "alloc_ok alloc (Suc n) h = (alloc h \<notin> dom h \<and> alloc h \<noteq> 0 \<and> (\<forall>p. alloc_ok alloc n (h(alloc h \<mapsto> p))))"

lemma owns_ran: "owns U tab h \<Longrightarrow> ran tab \<subseteq> dom h" "owns U tab h \<Longrightarrow> dom U \<subseteq> dom h"
  by (auto simp: owns_def ran_def restrict_map_def split: if_splits)

lemma store_owns:
  assumes "owns U tab h" and "alloc_ok alloc (length ps) h" and "store_packets alloc ps h = (as, h')"
  shows "\<exists>U'. owns U' tab h' \<and> distinct as \<and> 0 \<notin> set as \<and> set as \<subseteq> dom U' \<and> U' |` (- set as) = U"
  using assms
proof (induction ps arbitrary: U h as)
  case Nil
  then show ?case by (auto simp: restrict_map_def)
next
  case (Cons p ps)
  define a where "a = alloc h"
  obtain bs where as: "as = a # bs" "store_packets alloc ps (h(a \<mapsto> p)) = (bs, h')" using Cons(4) by (auto simp: a_def Let_def split: prod.splits)
  have a: "a \<notin> dom h" "a \<noteq> 0" "alloc_ok alloc (length ps) (h(a \<mapsto> p))" using Cons(3) by (simp_all add: a_def)
  have "a \<notin> ran tab" using owns_ran(1)[OF Cons(2)] a(1) by blast
  then have "(h(a \<mapsto> p)) |` (- ran tab) = (h |` (- ran tab))(a \<mapsto> p)" by (auto simp: restrict_map_def fun_eq_iff)
  moreover have "\<forall>k b. tab k = Some b \<longrightarrow> b \<noteq> a" using \<open>a \<notin> ran tab\<close> by (auto simp: ran_def)
  ultimately have "owns (U(a \<mapsto> p)) tab (h(a \<mapsto> p))" using Cons(2) by (auto simp: owns_def)
  then obtain U' where U': "owns U' tab h'" "distinct bs" "0 \<notin> set bs" "set bs \<subseteq> dom U'" "U' |` (- set bs) = U(a \<mapsto> p)"
    using Cons(1)[OF _ a(3) as(2)] by blast
  have aU: "a \<notin> dom U" using a(1) owns_ran(2)[OF Cons(2)] by blast
  have "a \<in> dom (U' |` (- set bs))" unfolding U'(5) by simp
  then have "a \<notin> set bs" "a \<in> dom U'" by (auto simp: restrict_map_def split: if_splits)
  moreover have "U' |` (- set (a # bs)) = (U' |` (- set bs))(a := None)" by (auto simp: restrict_map_def fun_eq_iff)
  moreover have "(U(a \<mapsto> p))(a := None) = U" using aU by (auto simp: fun_eq_iff domIff)
  ultimately show ?case using U' a(2) as(1) by auto
qed

lemma pushed_synthetics_owned:
  assumes "jb_owns U w" "calls_return calls" "distinct as" "0 \<notin> set as" "set as \<subseteq> dom U"
  shows "\<exists>c' w'. push_synthetics calls True as c w = Some (c', w') \<and> jb_owns (U |` (- set as)) w'"
  using assms
proof (induction as arbitrary: U c w)
  case Nil
  then show ?case by (simp add: restrict_map_def)
next
  case (Cons a as)
  have U: "U = w_heap w |` (- ran (jb_pPkgBufferHashTable (w_jb w)))" using Cons(2) by (simp add: jb_owns_def owns_def)
  obtain p where "U a = Some p" using Cons(6) by auto
  then have p: "w_heap w a = Some p" "a \<notin> ran (jb_pPkgBufferHashTable (w_jb w))" unfolding U by (auto simp: restrict_map_def split: if_splits)
  have "a \<noteq> 0" using Cons(5) by auto
  from push_owns[OF Cons(2,3) p(1) this p(2), of True]
  obtain st d w' where w': "defaultPush calls True a w = Some (st, d, w')" "jb_owns (U(a := None)) w'" by auto
  have IH: "\<exists>c' w''. push_synthetics calls True as c0 w' = Some (c', w'') \<and> jb_owns (U(a := None) |` (- set as)) w''" for c0
    by (rule Cons(1)[OF w'(2) Cons(3)]) (use Cons(4-6) in \<open>auto simp: dom_def\<close>)
  have "U(a := None) |` (- set as) = U |` (- set (a # as))" by (auto simp: restrict_map_def fun_eq_iff)
  then show ?case using IH w'(1) p(1) by (simp add: jitterBufferPush_def Let_def)
qed

lemma red_received_owned:
  assumes w: "jb_owns U w" "calls_return calls" and a: "a \<noteq> 0" "U a = Some p" and al: "alloc_ok alloc (length ps) (w_heap w)"
    and st: "store_packets alloc ps (w_heap w) = (as, h)"
  shows "\<exists>c' w2 h2. push_synthetics calls True as c (w\<lparr>w_heap := h\<rparr>) = Some (c', w2) \<and>
    freeRtpPacket (w_heap w2) (Some a) = Some (STATUS_SUCCESS, h2, Some 0) \<and> jb_owns (U(a := None)) (w2\<lparr>w_heap := h2\<rparr>)"
proof -
  obtain U' where U': "owns U' (jb_pPkgBufferHashTable (w_jb w)) h" "distinct as" "0 \<notin> set as" "set as \<subseteq> dom U'" "U' |` (- set as) = U"
    using store_owns[OF w(1)[unfolded jb_owns_def] al st] by blast
  have "jb_owns U' (w\<lparr>w_heap := h\<rparr>)" using U'(1) by (simp add: jb_owns_def)
  from pushed_synthetics_owned[OF this w(2) U'(2-4), of c] obtain c' w2
    where w2: "push_synthetics calls True as c (w\<lparr>w_heap := h\<rparr>) = Some (c', w2)" "jb_owns U w2" unfolding U'(5) by blast
  note o = w2(2)[unfolded jb_owns_def]
  have na: "a \<notin> ran (jb_pPkgBufferHashTable (w_jb w2))" and p: "w_heap w2 a = Some p"
    using a(2) o by (auto simp: owns_def restrict_map_def split: if_splits)
  then have "freeRtpPacket (w_heap w2) (Some a) = Some (STATUS_SUCCESS, (w_heap w2)(a := None), Some 0)" using a(1) by (simp add: free_packet_live)
  moreover have "jb_owns (U(a := None)) (w2\<lparr>w_heap := (w_heap w2)(a := None)\<rparr>)" using owns_free_other[OF o na] by (simp add: jb_owns_def)
  ultimately show ?thesis using w2(1) by blast
qed


text \<open>
  C34. When the jitter buffer fails after it has stored the packet, because the callback or the depayloader failed, the packet is freed although
  its address stays in the table; the next access to it is a use after free. When the jitter buffer fails after it has discarded the packet,
  the packet is freed a second time.
\<close>

theorem failed_reception_frees_stored_packet:
  assumes "a \<noteq> 0" and "w_heap w a = Some p" and "receiverRedPayloadType (w_app w) = 0"
    and "defaultPush calls True a (w\<lparr>w_app := rr_receive (seq_of p) (w_app w)\<rparr>) = Some (st, d, v)" and "st \<noteq> STATUS_SUCCESS"
  shows "if w_heap v a = None then transceiverOnRtpPacketReceived calls alloc True mem True a w = None
    else \<exists>w'. transceiverOnRtpPacketReceived calls alloc True mem True a w = Some (st, w') \<and>
      jb_pPkgBufferHashTable (w_jb w') = jb_pPkgBufferHashTable (w_jb v) \<and> w_heap w' a = None"
  using assms
  by (auto simp: transceiverOnRtpPacketReceived_def jitterBufferPush_def finish_reception_def freeRtpPacket_def Let_def)

text \<open>
  A new jitter buffer, callbacks that accept every frame, callbacks that have no memory, and a RED packet with two blocks in a heap
  from which new addresses can be taken.
\<close>

definition jb0 :: JitterBufferInternal where
  "jb0 = the (snd (the (createJitterBuffer True True True 0 48000 True True)))"

definition accept_calls :: "KvsRtpReceiver JitterBufferCalls" where
  "accept_calls = \<lparr>onFrameReadyFn = (\<lambda>i j n w. Some (STATUS_SUCCESS, w_app w)), onFrameDroppedFn = (\<lambda>i j ts w. Some (STATUS_SUCCESS, w_app w)),
     depayPayloadFn = (\<lambda>pl len out sz first. Some (STATUS_SUCCESS, out, len, True))\<rparr>"

interpretation accepting: single_packet_receiver accept_calls "\<lambda>_. True" "\<lambda>_. True" "\<lambda>c p r. r"
  by unfold_locales (simp_all add: accept_calls_def)

definition red0 :: RtpPacket where
  "red0 = (audio0 7 1920 [0x80 OR 111, 15, 0, 1, 111, 5, 6])\<lparr>header := (header (audio0 7 1920 []))\<lparr>payloadType := 63\<rparr>\<rparr>"

definition red_world :: "KvsRtpReceiver jb_world" where
  "red_world = \<lparr>w_jb = jb0, w_heap = [1 \<mapsto> red0], w_app = receiver0\<lparr>receiverRedPayloadType := 63, receiverOpusPayloadType := 111\<rparr>\<rparr>"

definition new_address :: "heap \<Rightarrow> u64" where
  "new_address h = (SOME a. a \<notin> dom h \<and> a \<noteq> 0)"

lemma new_address_ok: "card (dom h) + n < 2 ^ 64 - 1 \<Longrightarrow> alloc_ok new_address n h"
proof (induction n arbitrary: h)
  case (Suc n)
  have "\<exists>a. a \<notin> dom h \<and> a \<noteq> 0"
  proof (rule ccontr)
    assume "\<nexists>a. a \<notin> dom h \<and> a \<noteq> 0"
    then have "UNIV \<subseteq> insert 0 (dom h)" by auto
    then have "card (UNIV :: u64 set) \<le> card (insert 0 (dom h))" by (intro card_mono) simp_all
    also have "\<dots> \<le> card (dom h) + 1" by (simp add: card_insert_if)
    finally show False using Suc(2) by (simp add: card_word)
  qed
  then have a: "new_address h \<notin> dom h \<and> new_address h \<noteq> 0" unfolding new_address_def by (rule someI_ex)
  have c: "card (dom (h(new_address h \<mapsto> p))) + n < 2 ^ 64 - 1" for p using Suc(2) a by (simp add: card_insert_if)
  show ?case using a Suc(1)[OF c] unfolding alloc_ok.simps by blast
qed simp


text \<open>An audio packet for which no frame buffer can be allocated.\<close>

definition starved_world :: "KvsRtpReceiver jb_world" where
  "starved_world = \<lparr>w_jb = jb0, w_heap = [1 \<mapsto> audio0 7 960 [1, 2]], w_app = receiver0\<rparr>"

abbreviation starved_calls :: "KvsRtpReceiver JitterBufferCalls" where
  "starved_calls \<equiv> receiver_calls (\<lambda>_. 0) (\<lambda>_. False) (as_depay depayOpusFromRtpPayload)"

theorem failed_reception_frees_stored_packet_witness:
  "\<exists>w'. transceiverOnRtpPacketReceived starved_calls (\<lambda>_. 0) True (\<lambda>_. True) True 1 starved_world = Some (STATUS_NOT_ENOUGH_MEMORY, w') \<and>
    jb_pPkgBufferHashTable (w_jb w') 7 = Some 1 \<and> w_heap w' 1 = None"
proof -
  let ?p = "audio0 7 960 [1, 2]"
  let ?w = "starved_world\<lparr>w_app := rr_receive (seq_of ?p) (w_app starved_world)\<rparr>"
  let ?push = "defaultPush starved_calls True 1 ?w"
  have jb: "new_buffer 48000 (w_jb ?w)" "w_heap ?w 1 = Some ?p" by (simp_all add: starved_world_def new_buffer_def jb0_def createJitterBuffer_def)
  have "seq_range 7 7 = [7]" by (simp add: seq_range_def)
  then have "map_option (\<lambda>(st, d, v). (st, w_heap v 1 \<noteq> None, jb_pPkgBufferHashTable (w_jb v) 7)) ?push = Some (STATUS_NOT_ENOUGH_MEMORY, True, Some 1)"
    unfolding first_push_parses[OF jb(1) _ jb(2), simplified] using jb
    by (simp add: jitterBufferInternalParse_def parse_start_def parse_round_def parse_payload_def ends_frame_def deliver_frame_def first_stored_def new_buffer_def
        starved_world_def audio0_def receiver_calls_def as_depay_def depayOpusFromRtpPayload_def onFrameReadyFunc_def jitterBufferGetPacket_def defaultGetPacket_def
        grow_frame_buffer_def rr_receive_def rrInitSeq_def receiver0_def Let_def)
  then obtain d v where v: "?push = Some (STATUS_NOT_ENOUGH_MEMORY, d, v)" "w_heap v 1 \<noteq> None" "jb_pPkgBufferHashTable (w_jb v) 7 = Some 1" by auto
  have "(1 :: u64) \<noteq> 0" "w_heap starved_world 1 = Some ?p" "receiverRedPayloadType (w_app starved_world) = 0" "STATUS_NOT_ENOUGH_MEMORY \<noteq> STATUS_SUCCESS"
    by (simp_all add: starved_world_def receiver0_def)
  from failed_reception_frees_stored_packet[OF this(1-3) v(1) this(4), of "\<lambda>_. 0" "\<lambda>_. True"] show ?thesis using v by auto
qed

end
