(* ===== verification/TableCrc.thy ===== *)
theory TableCrc
  imports Endianness
begin

text \<open>
  Table-driven checksums over a reflected polynomial of degree 32, the form of both checksum
  routines of the program. \<open>crc_shift\<close> is one step of the bit-serial division. The locale \<open>table_crc\<close>
  states what a routine relies on: its table has, for every byte, eight such steps, and its
  loop body combines the table with the register. Inside it the loop is shown to be the
  bit-serial division, and a byte that differs is shown to change the checksum.
\<close>

section \<open>The bit-serial division\<close>

definition crc_shift :: "u32 \<Rightarrow> u32 \<Rightarrow> u32" where
  "crc_shift poly x = (if bit x 0 then drop_bit 1 x XOR poly else drop_bit 1 x)"

definition crc_shift8 :: "u32 \<Rightarrow> u32 \<Rightarrow> u32" where
  "crc_shift8 poly = crc_shift poly ^^ 8"

definition crc_bitwise :: "u32 \<Rightarrow> bytes \<Rightarrow> u32 \<Rightarrow> u32" where
  "crc_bitwise poly = fold (\<lambda>b crc. crc_shift8 poly (crc XOR ucast b))"

lemma crc_shift_xor: "crc_shift p (x XOR y) = crc_shift p x XOR crc_shift p y"
  by (simp add: crc_shift_def bit_xor_iff ac_simps)

lemma crc_shift_pow_xor: "(crc_shift p ^^ n) (x XOR y) = (crc_shift p ^^ n) x XOR (crc_shift p ^^ n) y"
  by (induction n arbitrary: x y) (simp_all add: crc_shift_xor)

lemma crc_shift_pow_high:
  "(\<And>i. i < n \<Longrightarrow> \<not> bit x i) \<Longrightarrow> (crc_shift p ^^ n) x = drop_bit n x"
proof (induction n)
  case (Suc n)
  then have IH: "(crc_shift p ^^ n) x = drop_bit n x" by simp
  have "\<not> bit (drop_bit n x) 0" using Suc.prems by (simp add: bit_drop_bit_eq)
  then have "crc_shift p (drop_bit n x) = drop_bit (Suc n) x" by (simp add: crc_shift_def)
  with IH show ?case by simp
qed simp

text \<open>
  The table is built by doubling: the rows for \<open>2 ^ k\<close> to \<open>2 ^ (k + 1) - 1\<close> are the rows before
  them, each combined with the row of \<open>2 ^ k\<close>. Only the eight rows of the powers of two are
  computed bit by bit.
\<close>

definition crc_rows :: "u32 \<Rightarrow> nat \<Rightarrow> u32 list" where
  "crc_rows p k = map (\<lambda>i. crc_shift8 p (word_of_nat i)) [0..<2 ^ k]"

lemma crc_shift8_xor: "crc_shift8 p (x XOR y) = crc_shift8 p x XOR crc_shift8 p y"
  by (simp add: crc_shift8_def crc_shift_pow_xor del: funpow.simps)

lemma bit_lessD: "bit i n \<Longrightarrow> i < 2 ^ k \<Longrightarrow> n < k" for i :: nat
  by (metis bit_take_bit_iff take_bit_nat_eq_self)

lemma word_of_nat_disjoint:
  assumes "i < 2 ^ k"
  shows "(word_of_nat (2 ^ k + i) :: 'a::len word) = word_of_nat (2 ^ k) XOR word_of_nat i"
proof -
  have "2 ^ k + i = (2 ^ k OR i)"
    using assms by (intro disjunctive_add_eq_or) (auto intro!: bit_eqI simp: bit_simps dest: bit_lessD)
  also have "\<dots> = 2 ^ k XOR i"
    using assms by (intro bit_eqI) (auto simp: bit_simps dest: bit_lessD)
  finally have *: "2 ^ k + i = 2 ^ k XOR i" .
  show ?thesis unfolding * by (rule bit_word_eqI) (auto simp: bit_simps)
qed

lemma crc_rows_0: "crc_rows p 0 = [0]"
  by (simp add: crc_rows_def crc_shift8_def crc_shift_def eval_nat_numeral)

lemma crc_rows_Suc:
  "crc_rows p (Suc k) = crc_rows p k @ map (\<lambda>r. crc_shift8 p (word_of_nat (2 ^ k)) XOR r) (crc_rows p k)"
proof -
  have "[0..<2 ^ Suc k] = [0..<2 ^ k] @ [2 ^ k..<2 ^ k + 2 ^ k]"
    using upt_add_eq_append [of 0 "2 ^ k" "2 ^ k"] by (simp only: mult_2 power_Suc)
  also have "[2 ^ k..<2 ^ k + 2 ^ k] = map (\<lambda>i. 2 ^ k + i) [0..<2 ^ k]"
    by (rule nth_equalityI) simp_all
  finally have *: "[0..<2 ^ Suc k] = [0..<2 ^ k] @ map (\<lambda>i. 2 ^ k + i) [0..<2 ^ k]" .
  show ?thesis
    unfolding crc_rows_def * by (simp add: word_of_nat_disjoint crc_shift8_xor del: of_nat_add)
qed

lemma crc_rows_8: "crc_rows p 8 = crc_rows p (Suc (Suc (Suc (Suc (Suc (Suc (Suc (Suc 0))))))))"
  by (rule arg_cong [where f = "crc_rows p"]) simp

lemma crc_shift8_unfold:
  "crc_shift8 p x = crc_shift p (crc_shift p (crc_shift p (crc_shift p
     (crc_shift p (crc_shift p (crc_shift p (crc_shift p x)))))))"
  by (simp add: crc_shift8_def eval_nat_numeral)

lemma low_byte_less: "unat (x AND 0xFF) < 256" for x :: u32
proof -
  have "x AND 0xFF \<le> 0xFF" by (rule word_and_le1)
  then show ?thesis by (simp add: word_le_nat_alt)
qed

lemma low_high_split: "x = (x AND 0xFF) XOR (x AND NOT 0xFF)" for x :: u32
  by (rule bit_word_eqI) (auto simp: bit_simps)

lemma bit_255: "bit (0xFF :: 'a::len word) n = (n < 8 \<and> n < LENGTH('a))"
proof -
  have "(0xFF :: 'a word) = mask 8" by (simp add: mask_eq_exp_minus_1)
  then show ?thesis by (auto simp only: bit_mask_iff possible_bit_word)
qed

lemma crc_shift8_split: "crc_shift8 p x = crc_shift8 p (x AND 0xFF) XOR drop_bit 8 x"
proof -
  have "crc_shift8 p (x AND NOT 0xFF) = drop_bit 8 (x AND NOT 0xFF)"
    unfolding crc_shift8_def by (rule crc_shift_pow_high) (simp only: bit_and_iff bit_not_iff bit_255, simp)
  also have "\<dots> = drop_bit 8 x"
    by (rule bit_word_eqI) (simp only: bit_and_iff bit_not_iff bit_drop_bit_eq comp_def bit_255, auto dest: bit_u32D)
  finally show ?thesis
    using crc_shift8_xor [of p "x AND 0xFF" "x AND NOT 0xFF"] low_high_split [of x] by simp
qed

lemma xor_cancel: "(x XOR z = y XOR z) = (x = y)" for x y z :: "'a::len word"
  by (metis xor.right_neutral xor_self_eq xor.assoc)

lemma crc_shift_inj:
  assumes "bit p 31" and eq: "crc_shift p x = crc_shift p y"
  shows "x = y"
proof -
  have top: "bit (crc_shift p z) 31 = bit z 0" for z
    using assms(1) bit_u32D [of z 32] by (auto simp: crc_shift_def bit_simps)
  from top [of x] top [of y] eq have b0: "bit x 0 = bit y 0" by simp
  with eq have "drop_bit 1 x = drop_bit 1 y"
    by (auto simp: crc_shift_def xor_cancel split: if_splits)
  then have "bit (drop_bit 1 x) n = bit (drop_bit 1 y) n" for n by simp
  then have "bit x (Suc n) = bit y (Suc n)" for n by (simp add: bit_drop_bit_eq)
  with b0 have "bit x n = bit y n" for n by (cases n) auto
  then show "x = y" by (simp add: bit_eq_iff)
qed

lemma crc_shift_eq_iff: "bit p 31 \<Longrightarrow> (crc_shift p x = crc_shift p y) = (x = y)"
  by (auto dest: crc_shift_inj)

lemma crc_shift8_inj: "bit p 31 \<Longrightarrow> crc_shift8 p x = crc_shift8 p y \<Longrightarrow> x = y"
  by (simp add: crc_shift8_unfold crc_shift_eq_iff)

section \<open>A table-driven routine\<close>

locale table_crc =
  fixes poly :: u32 and table :: "u32 list" and crc_step :: "byte \<Rightarrow> u32 \<Rightarrow> u32"
  assumes poly_top: "bit poly 31"
    and table_rows: "table = crc_rows poly 8"
    and step_table: "crc_step b crc = table ! unat ((crc XOR ucast b) AND 0xFF) XOR drop_bit 8 crc"
begin

lemma table_nth: "i < 256 \<Longrightarrow> table ! i = crc_shift8 poly (word_of_nat i)"
  by (simp add: table_rows crc_rows_def)

lemma byte_table: "crc_step b crc = crc_shift8 poly (crc XOR ucast b)"
proof -
  let ?x = "crc XOR ucast b"
  have "table ! unat (?x AND 0xFF) = crc_shift8 poly (?x AND 0xFF)"
    using table_nth [OF low_byte_less [of ?x]] by simp
  moreover have "drop_bit 8 ?x = drop_bit 8 crc"
    by (rule bit_word_eqI) (auto simp: bit_simps dest: bit_byteD)
  ultimately show ?thesis
    using crc_shift8_split [of poly ?x] by (simp add: step_table)
qed

lemma fold_reference: "fold crc_step data crc = crc_bitwise poly data crc"
  by (induction data arbitrary: crc) (simp_all add: crc_bitwise_def byte_table)

lemma step_inj: "crc_step b x = crc_step b y \<Longrightarrow> x = y"
  unfolding byte_table by (drule crc_shift8_inj [OF poly_top]) (simp add: xor_cancel)

lemma fold_inj: "fold crc_step data x = fold crc_step data y \<Longrightarrow> x = y"
  by (induction data arbitrary: x y) (auto dest: step_inj)

lemma byte_inj: "crc_step b x = crc_step b' x \<Longrightarrow> b = b'"
proof -
  assume "crc_step b x = crc_step b' x"
  then have "(ucast b :: u32) XOR x = ucast b' XOR x"
    unfolding byte_table by (metis crc_shift8_inj [OF poly_top] xor.commute)
  then have "(ucast b :: u32) = ucast b'" by (simp only: xor_cancel)
  then have "(ucast (ucast b :: u32) :: byte) = ucast (ucast b' :: u32)" by simp
  moreover have "(ucast (ucast c :: u32) :: byte) = c" for c :: byte
    by (rule bit_word_eqI) (simp add: bit_simps)
  ultimately show "b = b'" by simp
qed

lemma single_byte: "b \<noteq> b' \<Longrightarrow> fold crc_step (pre @ b # post) crc \<noteq> fold crc_step (pre @ b' # post) crc"
  by (auto dest!: fold_inj byte_inj)

end

end
