(* ===== verification/SctpPacket.thy ===== *)
theory SctpPacket
  imports SctpCrc32c
begin

text \<open>
  \<^verbatim>\<open>src/source/Sctp/SctpPacket.c\<close>: writing, checking and splitting SCTP packets.

  A writer gets the buffer and the position \<open>pBuf\<close> points to, and returns the buffer and the
  number of bytes the C function reports (padded to a multiple of four, although several
  writers leave the padding bytes as they were). The locale \<open>chunk_writer\<close> is the contract
  of a writer: within the buffer it stores exactly its layout at the position and touches
  nothing else. Every writer of the file is an interpretation of it, and the association
  builds its packets over the contract only.
\<close>

section \<open>Constants\<close>

abbreviation (input) SCTP_COMMON_HEADER_SIZE :: nat where "SCTP_COMMON_HEADER_SIZE \<equiv> 12"
abbreviation (input) SCTP_CHUNK_HEADER_SIZE :: nat where "SCTP_CHUNK_HEADER_SIZE \<equiv> 4"
abbreviation (input) SCTP_DATA_HEADER_SIZE :: nat where "SCTP_DATA_HEADER_SIZE \<equiv> 16"
abbreviation (input) SCTP_INIT_HEADER_SIZE :: nat where "SCTP_INIT_HEADER_SIZE \<equiv> 20"
abbreviation (input) SCTP_SACK_HEADER_SIZE :: nat where "SCTP_SACK_HEADER_SIZE \<equiv> 16"
abbreviation (input) SCTP_COOKIE_ACK_SIZE :: nat where "SCTP_COOKIE_ACK_SIZE \<equiv> 4"
abbreviation (input) SCTP_SHUTDOWN_SIZE :: nat where "SCTP_SHUTDOWN_SIZE \<equiv> 8"
abbreviation (input) SCTP_SHUTDOWN_ACK_SIZE :: nat where "SCTP_SHUTDOWN_ACK_SIZE \<equiv> 4"
abbreviation (input) SCTP_SHUTDOWN_COMPLETE_SIZE :: nat where "SCTP_SHUTDOWN_COMPLETE_SIZE \<equiv> 4"
abbreviation (input) SCTP_FORWARD_TSN_HEADER_SIZE :: nat where "SCTP_FORWARD_TSN_HEADER_SIZE \<equiv> 8"

abbreviation (input) SCTP_CHUNK_DATA :: byte where "SCTP_CHUNK_DATA \<equiv> 0"
abbreviation (input) SCTP_CHUNK_INIT :: byte where "SCTP_CHUNK_INIT \<equiv> 1"
abbreviation (input) SCTP_CHUNK_INIT_ACK :: byte where "SCTP_CHUNK_INIT_ACK \<equiv> 2"
abbreviation (input) SCTP_CHUNK_SACK :: byte where "SCTP_CHUNK_SACK \<equiv> 3"
abbreviation (input) SCTP_CHUNK_HEARTBEAT :: byte where "SCTP_CHUNK_HEARTBEAT \<equiv> 4"
abbreviation (input) SCTP_CHUNK_HEARTBEAT_ACK :: byte where "SCTP_CHUNK_HEARTBEAT_ACK \<equiv> 5"
abbreviation (input) SCTP_CHUNK_ABORT :: byte where "SCTP_CHUNK_ABORT \<equiv> 6"
abbreviation (input) SCTP_CHUNK_SHUTDOWN :: byte where "SCTP_CHUNK_SHUTDOWN \<equiv> 7"
abbreviation (input) SCTP_CHUNK_SHUTDOWN_ACK :: byte where "SCTP_CHUNK_SHUTDOWN_ACK \<equiv> 8"
abbreviation (input) SCTP_CHUNK_COOKIE_ECHO :: byte where "SCTP_CHUNK_COOKIE_ECHO \<equiv> 10"
abbreviation (input) SCTP_CHUNK_COOKIE_ACK :: byte where "SCTP_CHUNK_COOKIE_ACK \<equiv> 11"
abbreviation (input) SCTP_CHUNK_SHUTDOWN_COMPLETE :: byte where "SCTP_CHUNK_SHUTDOWN_COMPLETE \<equiv> 14"
abbreviation (input) SCTP_CHUNK_FORWARD_TSN :: byte where "SCTP_CHUNK_FORWARD_TSN \<equiv> 192"

abbreviation (input) SCTP_DATA_FLAG_END :: byte where "SCTP_DATA_FLAG_END \<equiv> 0x01"
abbreviation (input) SCTP_DATA_FLAG_BEGIN :: byte where "SCTP_DATA_FLAG_BEGIN \<equiv> 0x02"
abbreviation (input) SCTP_DATA_FLAG_UNORDERED :: byte where "SCTP_DATA_FLAG_UNORDERED \<equiv> 0x04"

abbreviation (input) SCTP_PARAM_STATE_COOKIE :: u16 where "SCTP_PARAM_STATE_COOKIE \<equiv> 0x0007"
abbreviation (input) SCTP_PARAM_FORWARD_TSN_SUPPORTED :: u16 where "SCTP_PARAM_FORWARD_TSN_SUPPORTED \<equiv> 0xC000"

definition SCTP_PAD4 :: "nat \<Rightarrow> nat" where
  "SCTP_PAD4 x = (x + 3) div 4 * 4"

section \<open>Writers\<close>

definition sctpWriteCommonHeader :: "bytes \<Rightarrow> nat \<Rightarrow> u16 \<Rightarrow> u16 \<Rightarrow> u32 \<Rightarrow> (bytes \<times> nat) option" where
  "sctpWriteCommonHeader b p srcPort dstPort vtag =
     do { b \<leftarrow> putUnalignedInt16Be b (p + 0) srcPort;
          b \<leftarrow> putUnalignedInt16Be b (p + 2) dstPort;
          b \<leftarrow> putUnalignedInt32Be b (p + 4) vtag;
          b \<leftarrow> putUnalignedInt32Be b (p + 8) 0;
          Some (b, SCTP_COMMON_HEADER_SIZE) }"

definition sctpFinalizePacket :: "bytes \<Rightarrow> nat \<Rightarrow> bytes option" where
  "sctpFinalizePacket b len =
     do { b \<leftarrow> putUnalignedInt32Be b 8 0;
          covered \<leftarrow> memread b 0 len;
          let crc = sctpCrc32c covered;
          memwrite b 8 [ucast (crc AND 0xFF), ucast (drop_bit 8 crc AND 0xFF),
                        ucast (drop_bit 16 crc AND 0xFF), ucast (drop_bit 24 crc AND 0xFF)] }"

definition sctpWriteInitChunk :: "bytes \<Rightarrow> nat \<Rightarrow> u32 \<Rightarrow> u32 \<Rightarrow> u16 \<Rightarrow> u16 \<Rightarrow> u32 \<Rightarrow> (bytes \<times> nat) option" where
  "sctpWriteInitChunk b p initTag arwnd numOutStreams numInStreams initialTsn =
     (let chunkLen = SCTP_INIT_HEADER_SIZE + 4 in
     do { b \<leftarrow> memwrite b p [SCTP_CHUNK_INIT];
          b \<leftarrow> memwrite b (p + 1) [0];
          b \<leftarrow> putUnalignedInt16Be b (p + 2) (word_of_nat chunkLen);
          b \<leftarrow> putUnalignedInt32Be b (p + 4) initTag;
          b \<leftarrow> putUnalignedInt32Be b (p + 8) arwnd;
          b \<leftarrow> putUnalignedInt16Be b (p + 12) numOutStreams;
          b \<leftarrow> putUnalignedInt16Be b (p + 14) numInStreams;
          b \<leftarrow> putUnalignedInt32Be b (p + 16) initialTsn;
          b \<leftarrow> putUnalignedInt16Be b (p + 20) SCTP_PARAM_FORWARD_TSN_SUPPORTED;
          b \<leftarrow> putUnalignedInt16Be b (p + 22) 4;
          Some (b, SCTP_PAD4 24) })"

text \<open>The loop that pads the cookie with zero bytes; \<open>offset\<close> counts from the chunk's start.\<close>

function zero_pad :: "bytes \<Rightarrow> nat \<Rightarrow> nat \<Rightarrow> (bytes \<times> nat) option" where
  "zero_pad b p offset =
     (if offset mod 4 \<noteq> 0
      then do { b \<leftarrow> memwrite b (p + offset) [0]; zero_pad b p (offset + 1) }
      else Some (b, offset))"
  by pat_completeness auto
termination
  by (relation "measure (\<lambda>(b, p, offset). (4 - offset mod 4) mod 4)") (auto simp: mod_Suc)

declare zero_pad.simps [simp del]

definition sctpWriteInitAckChunk ::
  "bytes \<Rightarrow> nat \<Rightarrow> u32 \<Rightarrow> u32 \<Rightarrow> u16 \<Rightarrow> u16 \<Rightarrow> u32 \<Rightarrow> bytes \<Rightarrow> (bytes \<times> nat) option" where
  "sctpWriteInitAckChunk b p initTag arwnd numOutStreams numInStreams initialTsn cookie =
     (let cookieLen = length cookie; paramLen = 4 + cookieLen;
          chunkLen = SCTP_INIT_HEADER_SIZE + paramLen + 4 in
     do { b \<leftarrow> memwrite b p [SCTP_CHUNK_INIT_ACK];
          b \<leftarrow> memwrite b (p + 1) [0];
          b \<leftarrow> putUnalignedInt16Be b (p + 2) (word_of_nat chunkLen);
          b \<leftarrow> putUnalignedInt32Be b (p + 4) initTag;
          b \<leftarrow> putUnalignedInt32Be b (p + 8) arwnd;
          b \<leftarrow> putUnalignedInt16Be b (p + 12) numOutStreams;
          b \<leftarrow> putUnalignedInt16Be b (p + 14) numInStreams;
          b \<leftarrow> putUnalignedInt32Be b (p + 16) initialTsn;
          b \<leftarrow> putUnalignedInt16Be b (p + 20) SCTP_PARAM_STATE_COOKIE;
          b \<leftarrow> putUnalignedInt16Be b (p + 22) (word_of_nat (4 + cookieLen));
          b \<leftarrow> memwrite b (p + 24) cookie;
          (b, offset) \<leftarrow> zero_pad b p (24 + cookieLen);
          b \<leftarrow> putUnalignedInt16Be b (p + offset) SCTP_PARAM_FORWARD_TSN_SUPPORTED;
          b \<leftarrow> putUnalignedInt16Be b (p + offset + 2) 4;
          Some (b, SCTP_PAD4 (offset + 4)) })"

definition sctpWriteCookieEchoChunk :: "bytes \<Rightarrow> nat \<Rightarrow> bytes \<Rightarrow> (bytes \<times> nat) option" where
  "sctpWriteCookieEchoChunk b p cookie =
     (let chunkLen = SCTP_CHUNK_HEADER_SIZE + length cookie in
     do { b \<leftarrow> memwrite b p [SCTP_CHUNK_COOKIE_ECHO];
          b \<leftarrow> memwrite b (p + 1) [0];
          b \<leftarrow> putUnalignedInt16Be b (p + 2) (word_of_nat chunkLen);
          b \<leftarrow> memwrite b (p + SCTP_CHUNK_HEADER_SIZE) cookie;
          Some (b, SCTP_PAD4 chunkLen) })"

definition sctpWriteCookieAckChunk :: "bytes \<Rightarrow> nat \<Rightarrow> (bytes \<times> nat) option" where
  "sctpWriteCookieAckChunk b p =
     do { b \<leftarrow> memwrite b p [SCTP_CHUNK_COOKIE_ACK];
          b \<leftarrow> memwrite b (p + 1) [0];
          b \<leftarrow> putUnalignedInt16Be b (p + 2) (word_of_nat SCTP_COOKIE_ACK_SIZE);
          Some (b, SCTP_COOKIE_ACK_SIZE) }"

definition sctpWriteDataChunk ::
  "bytes \<Rightarrow> nat \<Rightarrow> u32 \<Rightarrow> u16 \<Rightarrow> u16 \<Rightarrow> u32 \<Rightarrow> bool \<Rightarrow> bytes \<Rightarrow> (bytes \<times> nat) option" where
  "sctpWriteDataChunk b p tsn streamId ssn ppid unordered payload =
     (let chunkLen = SCTP_DATA_HEADER_SIZE + length payload;
          flags = SCTP_DATA_FLAG_BEGIN OR SCTP_DATA_FLAG_END;
          flags = (if unordered then flags OR SCTP_DATA_FLAG_UNORDERED else flags) in
     do { b \<leftarrow> memwrite b p [SCTP_CHUNK_DATA];
          b \<leftarrow> memwrite b (p + 1) [flags];
          b \<leftarrow> putUnalignedInt16Be b (p + 2) (word_of_nat chunkLen);
          b \<leftarrow> putUnalignedInt32Be b (p + 4) tsn;
          b \<leftarrow> putUnalignedInt16Be b (p + 8) streamId;
          b \<leftarrow> putUnalignedInt16Be b (p + 10) ssn;
          b \<leftarrow> putUnalignedInt32Be b (p + 12) ppid;
          b \<leftarrow> memwrite b (p + SCTP_DATA_HEADER_SIZE) payload;
          Some (b, SCTP_PAD4 chunkLen) })"

text \<open>The gap blocks are the pairs \<open>(pGapStarts[i], pGapEnds[i])\<close> for \<open>i < numGaps\<close>.\<close>

fun write_gap_blocks :: "bytes \<Rightarrow> nat \<Rightarrow> (u16 \<times> u16) list \<Rightarrow> (bytes \<times> nat) option" where
  "write_gap_blocks b offset [] = Some (b, offset)"
| "write_gap_blocks b offset ((gapStart, gapEnd) # gaps) =
     do { b \<leftarrow> putUnalignedInt16Be b offset gapStart;
          b \<leftarrow> putUnalignedInt16Be b (offset + 2) gapEnd;
          write_gap_blocks b (offset + 4) gaps }"

definition sctpWriteSackChunk :: "bytes \<Rightarrow> nat \<Rightarrow> u32 \<Rightarrow> u32 \<Rightarrow> (u16 \<times> u16) list \<Rightarrow> (bytes \<times> nat) option" where
  "sctpWriteSackChunk b p cumTsn arwnd gaps =
     (let numGaps = length gaps; chunkLen = SCTP_SACK_HEADER_SIZE + numGaps * 4 in
     do { b \<leftarrow> memwrite b p [SCTP_CHUNK_SACK];
          b \<leftarrow> memwrite b (p + 1) [0];
          b \<leftarrow> putUnalignedInt16Be b (p + 2) (word_of_nat chunkLen);
          b \<leftarrow> putUnalignedInt32Be b (p + 4) cumTsn;
          b \<leftarrow> putUnalignedInt32Be b (p + 8) arwnd;
          b \<leftarrow> putUnalignedInt16Be b (p + 12) (word_of_nat numGaps);
          b \<leftarrow> putUnalignedInt16Be b (p + 14) 0;
          (b, offset) \<leftarrow> write_gap_blocks b (p + 16) gaps;
          Some (b, SCTP_PAD4 (offset - p)) })"

definition sctpWriteForwardTsnChunk :: "bytes \<Rightarrow> nat \<Rightarrow> u32 \<Rightarrow> (bytes \<times> nat) option" where
  "sctpWriteForwardTsnChunk b p newCumTsn =
     (let chunkLen = SCTP_FORWARD_TSN_HEADER_SIZE in
     do { b \<leftarrow> memwrite b p [SCTP_CHUNK_FORWARD_TSN];
          b \<leftarrow> memwrite b (p + 1) [0];
          b \<leftarrow> putUnalignedInt16Be b (p + 2) (word_of_nat chunkLen);
          b \<leftarrow> putUnalignedInt32Be b (p + 4) newCumTsn;
          Some (b, SCTP_PAD4 chunkLen) })"

definition sctpWriteShutdownChunk :: "bytes \<Rightarrow> nat \<Rightarrow> u32 \<Rightarrow> (bytes \<times> nat) option" where
  "sctpWriteShutdownChunk b p cumTsn =
     do { b \<leftarrow> memwrite b p [SCTP_CHUNK_SHUTDOWN];
          b \<leftarrow> memwrite b (p + 1) [0];
          b \<leftarrow> putUnalignedInt16Be b (p + 2) (word_of_nat SCTP_SHUTDOWN_SIZE);
          b \<leftarrow> putUnalignedInt32Be b (p + 4) cumTsn;
          Some (b, SCTP_SHUTDOWN_SIZE) }"

definition sctpWriteShutdownAckChunk :: "bytes \<Rightarrow> nat \<Rightarrow> (bytes \<times> nat) option" where
  "sctpWriteShutdownAckChunk b p =
     do { b \<leftarrow> memwrite b p [SCTP_CHUNK_SHUTDOWN_ACK];
          b \<leftarrow> memwrite b (p + 1) [0];
          b \<leftarrow> putUnalignedInt16Be b (p + 2) (word_of_nat SCTP_SHUTDOWN_ACK_SIZE);
          Some (b, SCTP_SHUTDOWN_ACK_SIZE) }"

definition sctpWriteShutdownCompleteChunk :: "bytes \<Rightarrow> nat \<Rightarrow> (bytes \<times> nat) option" where
  "sctpWriteShutdownCompleteChunk b p =
     do { b \<leftarrow> memwrite b p [SCTP_CHUNK_SHUTDOWN_COMPLETE];
          b \<leftarrow> memwrite b (p + 1) [0];
          b \<leftarrow> putUnalignedInt16Be b (p + 2) (word_of_nat SCTP_SHUTDOWN_COMPLETE_SIZE);
          Some (b, SCTP_SHUTDOWN_COMPLETE_SIZE) }"

section \<open>Validation and chunk iteration\<close>

text \<open>
  \<open>sctpValidatePacket\<close> clears the checksum field of the caller's buffer, computes the
  checksum and restores the field. The result is the status and the buffer afterwards.
\<close>

definition sctpValidatePacket :: "bytes option \<Rightarrow> u32 \<Rightarrow> (STATUS \<times> bytes option) option" where
  "sctpValidatePacket pBuf expectedVtag =
     (case pBuf of
        None \<Rightarrow> Some (STATUS_SCTP_INVALID_DCEP_PACKET, None)
      | Some b \<Rightarrow>
          if length b < SCTP_COMMON_HEADER_SIZE then Some (STATUS_SCTP_INVALID_DCEP_PACKET, Some b)
          else do {
            b8 \<leftarrow> memget b 8; b9 \<leftarrow> memget b 9; b10 \<leftarrow> memget b 10; b11 \<leftarrow> memget b 11;
            let storedCrc = (ucast b8 OR push_bit 8 (ucast b9) OR push_bit 16 (ucast b10) OR push_bit 24 (ucast b11) :: u32);
            b \<leftarrow> memwrite b 8 [0, 0, 0, 0];
            let computedCrc = sctpCrc32c b;
            b \<leftarrow> memwrite b 8 [ucast (storedCrc AND 0xFF), ucast (drop_bit 8 storedCrc AND 0xFF),
                               ucast (drop_bit 16 storedCrc AND 0xFF), ucast (drop_bit 24 storedCrc AND 0xFF)];
            if storedCrc \<noteq> computedCrc then Some (STATUS_SCTP_INVALID_DCEP_PACKET, Some b)
            else do {
              vtag \<leftarrow> getUnalignedInt32Be b 4;
              if vtag \<noteq> 0 \<and> expectedVtag \<noteq> 0 \<and> vtag \<noteq> expectedVtag
              then Some (STATUS_SCTP_INVALID_DCEP_PACKET, Some b)
              else Some (STATUS_SUCCESS, Some b) } })"

text \<open>
  The callback gets the chunk type, its flags and its value; its state \<open>'s\<close> stands for what
  \<open>customData\<close> points to. A failing status ends the iteration (\<open>CHK_STATUS\<close>).
\<close>

function sctpParseChunks_from ::
  "bytes \<Rightarrow> (byte \<Rightarrow> byte \<Rightarrow> bytes \<Rightarrow> 's \<Rightarrow> (STATUS \<times> 's) option) \<Rightarrow> nat \<Rightarrow> 's \<Rightarrow> (STATUS \<times> 's) option" where
  "sctpParseChunks_from b callback offset s =
     (if offset + SCTP_CHUNK_HEADER_SIZE \<le> length b then
        do { chunkType \<leftarrow> memget b offset;
             chunkFlags \<leftarrow> memget b (offset + 1);
             len \<leftarrow> getUnalignedInt16Be b (offset + 2);
             let chunkLen = unat len;
             if chunkLen < SCTP_CHUNK_HEADER_SIZE \<or> offset + chunkLen > length b then Some (STATUS_SUCCESS, s)
             else do {
               value \<leftarrow> memread b (offset + SCTP_CHUNK_HEADER_SIZE) (chunkLen - SCTP_CHUNK_HEADER_SIZE);
               (status, s') \<leftarrow> callback chunkType chunkFlags value s;
               if status \<noteq> STATUS_SUCCESS then Some (status, s')
               else sctpParseChunks_from b callback (offset + SCTP_PAD4 chunkLen) s' } }
      else Some (STATUS_SUCCESS, s))"
  by pat_completeness auto
termination
  by (relation "measure (\<lambda>(b, callback, offset, s). length b - offset)")
     (auto simp: SCTP_PAD4_def)

declare sctpParseChunks_from.simps [simp del]

definition sctpParseChunks ::
  "bytes \<Rightarrow> (byte \<Rightarrow> byte \<Rightarrow> bytes \<Rightarrow> 's \<Rightarrow> (STATUS \<times> 's) option) \<Rightarrow> 's \<Rightarrow> (STATUS \<times> 's) option" where
  "sctpParseChunks b callback s = sctpParseChunks_from b callback SCTP_COMMON_HEADER_SIZE s"

section \<open>Layouts\<close>

text \<open>The bytes on the wire, by field; \<open>chunk_layout\<close> is the frame all chunks share.\<close>

definition chunk_layout :: "byte \<Rightarrow> byte \<Rightarrow> bytes \<Rightarrow> bytes" where
  "chunk_layout type flags value = [type, flags] @ be16 (word_of_nat (4 + length value)) @ value"

definition common_layout :: "u16 \<Rightarrow> u16 \<Rightarrow> u32 \<Rightarrow> bytes \<Rightarrow> bytes" where
  "common_layout srcPort dstPort vtag crc = be16 srcPort @ be16 dstPort @ be32 vtag @ crc"

definition init_value :: "u32 \<Rightarrow> u32 \<Rightarrow> u16 \<Rightarrow> u16 \<Rightarrow> u32 \<Rightarrow> bytes" where
  "init_value initTag arwnd numOut numIn tsn = be32 initTag @ be32 arwnd @ be16 numOut @ be16 numIn @ be32 tsn"

definition forward_tsn_param :: bytes where
  "forward_tsn_param = be16 SCTP_PARAM_FORWARD_TSN_SUPPORTED @ be16 4"

definition cookie_param :: "bytes \<Rightarrow> bytes" where
  "cookie_param cookie = be16 SCTP_PARAM_STATE_COOKIE @ be16 (word_of_nat (4 + length cookie)) @ cookie"

definition data_value :: "u32 \<Rightarrow> u16 \<Rightarrow> u16 \<Rightarrow> u32 \<Rightarrow> bytes \<Rightarrow> bytes" where
  "data_value tsn streamId ssn ppid payload = be32 tsn @ be16 streamId @ be16 ssn @ be32 ppid @ payload"

definition sack_value :: "u32 \<Rightarrow> u32 \<Rightarrow> (u16 \<times> u16) list \<Rightarrow> bytes" where
  "sack_value cumTsn arwnd gaps = be32 cumTsn @ be32 arwnd @ be16 (word_of_nat (length gaps)) @ be16 0 @
     concat (map (\<lambda>(s, e). be16 s @ be16 e) gaps)"

definition single_flags :: "bool \<Rightarrow> byte" where
  "single_flags unordered = (if unordered then 7 else 3)"

lemmas wire_defs = chunk_layout_def common_layout_def init_value_def forward_tsn_param_def
  cookie_param_def data_value_def sack_value_def

lemma length_chunk_layout [simp]: "length (chunk_layout t f v) = 4 + length v"
  by (simp add: chunk_layout_def)

lemma length_common_layout [simp]: "length (common_layout s d v c) = 8 + length c"
  by (simp add: common_layout_def)

lemma length_init_value [simp]: "length (init_value t a out i n) = 16"
  by (simp add: init_value_def)

lemma length_forward_tsn_param [simp]: "length forward_tsn_param = 4"
  by (simp add: forward_tsn_param_def)

lemma length_cookie_param [simp]: "length (cookie_param c) = 4 + length c"
  by (simp add: cookie_param_def)

lemma length_data_value [simp]: "length (data_value t s n p pl) = 12 + length pl"
  by (simp add: data_value_def)

lemma length_gap_blocks [simp]: "length (concat (map (\<lambda>(s, e). be16 s @ be16 e) gaps)) = 4 * length gaps"
  by (induction gaps) auto

lemma length_sack_value [simp]: "length (sack_value c a gaps) = 12 + 4 * length gaps"
  by (simp add: sack_value_def)

section \<open>Padding\<close>

lemma SCTP_PAD4_bounds: "x \<le> SCTP_PAD4 x" "SCTP_PAD4 x < x + 4" "SCTP_PAD4 x mod 4 = 0"
  by (auto simp: SCTP_PAD4_def)

lemma SCTP_PAD4_aligned [simp]: "x mod 4 = 0 \<Longrightarrow> SCTP_PAD4 x = x"
  by (auto simp: SCTP_PAD4_def)

lemma SCTP_PAD4_le: "x \<le> y \<Longrightarrow> y mod 4 = 0 \<Longrightarrow> SCTP_PAD4 x \<le> y"
  unfolding SCTP_PAD4_def by presburger

lemma zero_pad_bsplice:
  "p + SCTP_PAD4 offset \<le> length b \<Longrightarrow>
   zero_pad b p offset = Some (bsplice b (p + offset) (replicate (SCTP_PAD4 offset - offset) 0), SCTP_PAD4 offset)"
proof (induction b p offset rule: zero_pad.induct)
  case (1 b p offset)
  show ?case
  proof (cases "offset mod 4 = 0")
    case True
    then show ?thesis by (simp add: zero_pad.simps [of b p offset])
  next
    case False
    then have pad: "SCTP_PAD4 (Suc offset) = SCTP_PAD4 offset" "offset < SCTP_PAD4 offset"
      unfolding SCTP_PAD4_def by presburger+
    then have fits: "p + offset + 1 \<le> length b" using "1.prems" by simp
    then have w: "memwrite b (p + offset) [0] = Some (bsplice b (p + offset) [0])"
      by (simp add: mem_simps)
    have "zero_pad (bsplice b (p + offset) [0]) p (offset + 1) =
        Some (bsplice (bsplice b (p + offset) [0]) (p + (offset + 1))
               (replicate (SCTP_PAD4 (offset + 1) - (offset + 1)) 0), SCTP_PAD4 (offset + 1))"
      using False w fits pad "1.prems" by (intro "1.IH") auto
    moreover have "SCTP_PAD4 offset - offset = Suc (SCTP_PAD4 offset - (offset + 1))" using pad by simp
    ultimately show ?thesis
      using False w fits pad by (simp add: zero_pad.simps [of b p offset])
  qed
qed

section \<open>The contract of a writer\<close>

locale chunk_writer =
  fixes wr :: "bytes \<Rightarrow> nat \<Rightarrow> (bytes \<times> nat) option"
    and layout :: bytes
    and size :: nat
  assumes write_layout: "p + size \<le> length b \<Longrightarrow> wr b p = Some (bsplice b p layout, size)"
    and layout_fits: "length layout \<le> size"
begin

lemma write_keeps_length: "p + size \<le> length b \<Longrightarrow> wr b p = Some (b', n) \<Longrightarrow> length b' = length b \<and> n = size"
  using layout_fits by (auto simp: write_layout)

lemma write_after_header:
  assumes "length h + size \<le> length b"
  shows "wr (bsplice b 0 h) (length h) = Some (bsplice b 0 (h @ layout), size)"
proof -
  have "length h + size \<le> length (bsplice b 0 h)" using assms by simp
  then have "wr (bsplice b 0 h) (length h) = Some (bsplice (bsplice b 0 h) (length h) layout, size)"
    by (rule write_layout)
  then show ?thesis using assms by simp
qed

end

lemmas put_defs = putUnalignedInt16Be_def putUnalignedInt32Be_def

lemma chunk_header_splice:
  assumes "p + 4 \<le> length b"
  shows "do { b \<leftarrow> memwrite b p [t]; b \<leftarrow> memwrite b (p + 1) [f]; b \<leftarrow> putUnalignedInt16Be b (p + 2) n; k b } =
    k (bsplice b p ([t, f] @ be16 n))"
  using assms by (simp add: put_defs mem_simps)

lemma write_gap_blocks_splice:
  "offset + 4 * length gaps \<le> length b \<Longrightarrow>
   write_gap_blocks b offset gaps =
     Some (bsplice b offset (concat (map (\<lambda>(s, e). be16 s @ be16 e) gaps)), offset + 4 * length gaps)"
proof (induction b offset gaps rule: write_gap_blocks.induct)
  case (2 b offset gapStart gapEnd gaps)
  then show ?case by (simp add: put_defs mem_simps)
qed simp

interpretation w_init: chunk_writer
  "\<lambda>b p. sctpWriteInitChunk b p initTag arwnd numOut numIn tsn"
  "chunk_layout SCTP_CHUNK_INIT 0 (init_value initTag arwnd numOut numIn tsn @ forward_tsn_param)" 24
  for initTag arwnd numOut numIn tsn
  by unfold_locales
    (simp_all add: sctpWriteInitChunk_def wire_defs put_defs mem_simps)

lemma init_ack_layout_bsplice:
  assumes "p + (20 + SCTP_PAD4 (4 + length cookie) + 4) \<le> length b"
  shows "sctpWriteInitAckChunk b p initTag arwnd numOut numIn tsn cookie =
    Some (bsplice b p ([SCTP_CHUNK_INIT_ACK, 0] @ be16 (word_of_nat (28 + length cookie)) @
        init_value initTag arwnd numOut numIn tsn @ cookie_param cookie @
        replicate (SCTP_PAD4 (length cookie) - length cookie) 0 @ forward_tsn_param),
      20 + SCTP_PAD4 (4 + length cookie) + 4)"
proof -
  have pads: "SCTP_PAD4 (24 + length cookie) = 24 + SCTP_PAD4 (length cookie)"
    "SCTP_PAD4 (4 + length cookie) = 4 + SCTP_PAD4 (length cookie)"
    "SCTP_PAD4 (28 + SCTP_PAD4 (length cookie)) = 28 + SCTP_PAD4 (length cookie)"
    unfolding SCTP_PAD4_def by presburger+
  have le: "length cookie \<le> SCTP_PAD4 (length cookie)" by (rule SCTP_PAD4_bounds)
  show ?thesis
    using assms le
    by (simp add: sctpWriteInitAckChunk_def Let_def wire_defs put_defs mem_simps zero_pad_bsplice pads)
qed

interpretation w_cookie_echo: chunk_writer
  "\<lambda>b p. sctpWriteCookieEchoChunk b p cookie"
  "chunk_layout SCTP_CHUNK_COOKIE_ECHO 0 cookie" "SCTP_PAD4 (4 + length cookie)" for cookie
  using SCTP_PAD4_bounds(1) [of "4 + length cookie"]
  by unfold_locales
    (simp_all add: sctpWriteCookieEchoChunk_def chunk_layout_def put_defs mem_simps)

interpretation w_cookie_ack: chunk_writer sctpWriteCookieAckChunk "chunk_layout SCTP_CHUNK_COOKIE_ACK 0 []" 4
  by unfold_locales (simp_all add: sctpWriteCookieAckChunk_def chunk_layout_def put_defs mem_simps)

interpretation w_data: chunk_writer
  "\<lambda>b p. sctpWriteDataChunk b p tsn streamId ssn ppid unordered payload"
  "chunk_layout SCTP_CHUNK_DATA (single_flags unordered) (data_value tsn streamId ssn ppid payload)"
  "SCTP_PAD4 (16 + length payload)" for tsn streamId ssn ppid unordered payload
  using SCTP_PAD4_bounds(1) [of "16 + length payload"]
  by unfold_locales
    (simp_all add: sctpWriteDataChunk_def wire_defs single_flags_def put_defs mem_simps)

interpretation w_sack: chunk_writer
  "\<lambda>b p. sctpWriteSackChunk b p cumTsn arwnd gaps"
  "chunk_layout SCTP_CHUNK_SACK 0 (sack_value cumTsn arwnd gaps)" "16 + 4 * length gaps"
  for cumTsn arwnd gaps
  by unfold_locales
    (simp_all add: sctpWriteSackChunk_def wire_defs put_defs mem_simps write_gap_blocks_splice mult.commute Let_def)

interpretation w_forward_tsn: chunk_writer
  "\<lambda>b p. sctpWriteForwardTsnChunk b p newCumTsn" "chunk_layout SCTP_CHUNK_FORWARD_TSN 0 (be32 newCumTsn)" 8
  for newCumTsn
  by unfold_locales (simp_all add: sctpWriteForwardTsnChunk_def chunk_layout_def put_defs mem_simps)

interpretation w_shutdown: chunk_writer
  "\<lambda>b p. sctpWriteShutdownChunk b p cumTsn" "chunk_layout SCTP_CHUNK_SHUTDOWN 0 (be32 cumTsn)" 8
  for cumTsn
  by unfold_locales (simp_all add: sctpWriteShutdownChunk_def chunk_layout_def put_defs mem_simps)

interpretation w_shutdown_ack: chunk_writer sctpWriteShutdownAckChunk "chunk_layout SCTP_CHUNK_SHUTDOWN_ACK 0 []" 4
  by unfold_locales (simp_all add: sctpWriteShutdownAckChunk_def chunk_layout_def put_defs mem_simps)

interpretation w_shutdown_complete: chunk_writer
  sctpWriteShutdownCompleteChunk "chunk_layout SCTP_CHUNK_SHUTDOWN_COMPLETE 0 []" 4
  by unfold_locales (simp_all add: sctpWriteShutdownCompleteChunk_def chunk_layout_def put_defs mem_simps)

interpretation w_init_ack: chunk_writer
  "\<lambda>b p. sctpWriteInitAckChunk b p initTag arwnd numOut numIn tsn cookie"
  "[SCTP_CHUNK_INIT_ACK, 0] @ be16 (word_of_nat (28 + length cookie)) @
     init_value initTag arwnd numOut numIn tsn @ cookie_param cookie @
     replicate (SCTP_PAD4 (length cookie) - length cookie) 0 @ forward_tsn_param"
  "20 + SCTP_PAD4 (4 + length cookie) + 4"
  for initTag arwnd numOut numIn tsn cookie
proof (unfold_locales, goal_cases)
  case (1 p b)
  then show ?case by (rule init_ack_layout_bsplice)
next
  case 2
  have "SCTP_PAD4 (4 + length cookie) = 4 + SCTP_PAD4 (length cookie)"
    unfolding SCTP_PAD4_def by presburger
  then show ?case using SCTP_PAD4_bounds(1) [of "length cookie"] by simp
qed

section \<open>Finished packets\<close>

lemma crc_bytes_le32:
  "[ucast (crc AND 0xFF), ucast (drop_bit 8 crc AND 0xFF), ucast (drop_bit 16 crc AND 0xFF),
    ucast (drop_bit 24 crc AND 0xFF)] = le32 (crc :: u32)"
  unfolding le32_def
  by (simp, intro conjI; rule bit_word_eqI; simp only: bit_and_iff bit_ucasts bit_255 comp_def; auto)

lemma stored_crc_le32:
  "(ucast b8 OR push_bit 8 (ucast b9) OR push_bit 16 (ucast b10) OR push_bit 24 (ucast b11) :: u32) =
   MAKE_INT32 (MAKE_INT16 b8 b9) (MAKE_INT16 b10 b11)"
  by (rule bit_word_eqI) (auto simp: bit_MAKE bit_simps dest: bit_byteD)

lemma sctpFinalizePacket_bsplice:
  assumes "12 \<le> len" and "len \<le> length b"
  shows "sctpFinalizePacket b len =
    Some (bsplice b 8 (le32 (sctpCrc32c (take len (bsplice b 8 [0, 0, 0, 0])))))"
proof -
  have z: "be32 0 = [0, 0, 0, 0]" by (simp add: be32_def)
  show ?thesis
    using assms unfolding sctpFinalizePacket_def crc_bytes_le32
    by (simp add: put_defs z mem_simps bsplice_over)
qed

text \<open>
  What \<open>sctpValidatePacket\<close> decides: the stored checksum is that of the packet with the
  field cleared, and the verification tag is the expected one or one of them is zero.
\<close>

definition checksum_ok :: "bytes \<Rightarrow> bool" where
  "checksum_ok b = (take 4 (drop 8 b) = le32 (sctpCrc32c (bsplice b 8 [0, 0, 0, 0])))"

definition vtag_ok :: "bytes \<Rightarrow> u32 \<Rightarrow> bool" where
  "vtag_ok b expected = (case getUnalignedInt32Be b 4 of None \<Rightarrow> False
     | Some vtag \<Rightarrow> vtag = 0 \<or> expected = 0 \<or> vtag = expected)"

lemma le32_MAKE: "le32 (MAKE_INT32 (MAKE_INT16 b0 b1) (MAKE_INT16 b2 b3)) = [b0, b1, b2, b3]"
  unfolding le32_def by (simp, intro conjI; rule bit_word_eqI; simp add: bit_MAKE bit_ucasts)

lemma le32_inj: "le32 x = le32 y \<Longrightarrow> x = y"
  by (metis get_be_bytes(4) option.inject)

lemma take4_drop8:
  assumes "12 \<le> length b"
  shows "take 4 (drop 8 b) = [b ! 8, b ! 9, b ! 10, b ! 11]"
  using assms by (intro nth_equalityI) (auto simp: less_Suc_eq nth_Cons' numeral_eq_Suc)

lemma bsplice_same:
  "off + n \<le> length b \<Longrightarrow> bsplice b off (take n (drop off b)) = b"
  by (simp add: bsplice_def) (metis add.commute append_take_drop_id drop_drop)

lemma sctpValidatePacket_spec:
  assumes "12 \<le> length b"
  shows "sctpValidatePacket (Some b) v =
    Some (if checksum_ok b \<and> vtag_ok b v then STATUS_SUCCESS else STATUS_SCTP_INVALID_DCEP_PACKET, Some b)"
proof -
  let ?stored = "MAKE_INT32 (MAKE_INT16 (b ! 8) (b ! 9)) (MAKE_INT16 (b ! 10) (b ! 11))"
  have stored: "le32 ?stored = take 4 (drop 8 b)"
    using assms by (simp add: le32_MAKE take4_drop8)
  have restore: "bsplice (bsplice b 8 [0, 0, 0, 0]) 8 (le32 ?stored) = b"
    using assms bsplice_same [of 8 4 b] by (simp add: bsplice_over stored)
  have crc: "(?stored = sctpCrc32c (bsplice b 8 [0, 0, 0, 0])) = checksum_ok b"
    unfolding checksum_ok_def stored [symmetric] by (auto dest: le32_inj)
  obtain vtag where vtag: "getUnalignedInt32Be b 4 = Some vtag"
    using assms get_Be_in_range(2) [of 4 b] by auto
  show ?thesis
    using assms unfolding sctpValidatePacket_def crc_bytes_le32 stored_crc_le32
    by (simp add: Let_def mem_simps restore crc vtag vtag_ok_def)
qed

lemma nth_bsplice:
  "off + length xs \<le> length b \<Longrightarrow> i < length b \<Longrightarrow>
   bsplice b off xs ! i = (if off \<le> i \<and> i < off + length xs then xs ! (i - off) else b ! i)"
  by (auto simp: bsplice_def nth_append)

lemma take_bsplice:
  "off + length xs \<le> n \<Longrightarrow> n \<le> length b \<Longrightarrow> take n (bsplice b off xs) = bsplice (take n b) off xs"
  by (intro nth_equalityI) (auto simp: nth_bsplice)

lemma read_bsplice:
  "off + length xs \<le> length b \<Longrightarrow> take (length xs) (drop off (bsplice b off xs)) = xs"
  by (simp add: bsplice_def)

lemma vtag_bsplice: "12 \<le> length b \<Longrightarrow> length c = 4 \<Longrightarrow> vtag_ok (bsplice b 8 c) v = vtag_ok b v"
  by (simp add: vtag_ok_def getUnalignedInt32Be_def memget_def nth_bsplice)

lemma finalized_checksum:
  assumes "12 \<le> length b"
  shows "checksum_ok (bsplice b 8 (le32 (sctpCrc32c (bsplice b 8 [0, 0, 0, 0]))))"
  using assms read_bsplice [of 8 "le32 c" b for c] by (simp add: checksum_ok_def bsplice_over)

section \<open>Splitting a packet into chunks\<close>

text \<open>
  \<open>for_chunks\<close> is what the iteration means: the callback on each chunk in turn until one
  fails. A chunk on the wire is its layout followed by the bytes that pad it to a multiple
  of four.
\<close>

fun for_chunks ::
  "(byte \<Rightarrow> byte \<Rightarrow> bytes \<Rightarrow> 's \<Rightarrow> (STATUS \<times> 's) option) \<Rightarrow> (byte \<times> byte \<times> bytes) list \<Rightarrow> 's \<Rightarrow> (STATUS \<times> 's) option" where
  "for_chunks callback [] s = Some (STATUS_SUCCESS, s)"
| "for_chunks callback ((t, f, v) # cs) s =
     do { (status, s') \<leftarrow> callback t f v s;
          if status \<noteq> STATUS_SUCCESS then Some (status, s') else for_chunks callback cs s' }"

fun wire_chunks :: "(byte \<times> byte \<times> bytes) list \<Rightarrow> bytes list \<Rightarrow> bytes" where
  "wire_chunks ((t, f, v) # cs) (pad # pads) = chunk_layout t f v @ pad @ wire_chunks cs pads"
| "wire_chunks _ _ = []"

definition pads_ok :: "(byte \<times> byte \<times> bytes) list \<Rightarrow> bytes list \<Rightarrow> bool" where
  "pads_ok cs pads = list_all2 (\<lambda>(t, f, v) pad. 4 + length v < 2 ^ 16 \<and>
     length pad = SCTP_PAD4 (4 + length v) - (4 + length v)) cs pads"

lemma chunk_len_read:
  assumes "4 + length v < 2 ^ 16"
  shows "getUnalignedInt16Be (pre @ chunk_layout t f v @ r) (length pre + 2) = Some (word_of_nat (4 + length v))"
    and "unat (word_of_nat (4 + length v) :: u16) = 4 + length v"
proof -
  show "getUnalignedInt16Be (pre @ chunk_layout t f v @ r) (length pre + 2) = Some (word_of_nat (4 + length v))"
    using get_Be_shift(1) [of "pre @ [t, f]" "length pre + 2" "be16 (word_of_nat (4 + length v)) @ v @ r"]
    by (simp add: chunk_layout_def)
  show "unat (word_of_nat (4 + length v) :: u16) = 4 + length v"
    using assms by (simp only: unat_of_nat) (simp add: take_bit_nat_eq_self)
qed

lemma parse_one:
  assumes "4 + length v < 2 ^ 16" and pad: "length pad = SCTP_PAD4 (4 + length v) - (4 + length v)"
  shows "sctpParseChunks_from (pre @ chunk_layout t f v @ pad @ r) callback (length pre) s =
    do { (status, s') \<leftarrow> callback t f v s;
         if status \<noteq> STATUS_SUCCESS then Some (status, s')
         else sctpParseChunks_from ((pre @ chunk_layout t f v @ pad) @ r) callback
                (length (pre @ chunk_layout t f v @ pad)) s' }"
proof -
  let ?b = "pre @ chunk_layout t f v @ pad @ r"
  have step: "length pre + SCTP_PAD4 (4 + length v) = length (pre @ chunk_layout t f v @ pad)"
    using pad SCTP_PAD4_bounds(1) [of "4 + length v"] by simp
  have rd: "memget ?b (length pre) = Some t" "memget ?b (length pre + 1) = Some f"
    by (simp_all add: memget_def chunk_layout_def nth_append)
  have val: "memread ?b (length pre + 4) (4 + length v - 4) = Some v"
    by (simp add: memread_def chunk_layout_def be16_def)
  show ?thesis
    unfolding step [symmetric] append_assoc
    using chunk_len_read(1) [OF assms(1), of pre t f "pad @ r"] chunk_len_read(2) [OF assms(1)] rd val
    by (simp add: sctpParseChunks_from.simps [of ?b])
qed

lemma parse_wire_chunks:
  "pads_ok cs pads \<Longrightarrow> sctpParseChunks_from (pre @ wire_chunks cs pads) callback (length pre) s = for_chunks callback cs s"
proof (induction cs pads arbitrary: pre s rule: wire_chunks.induct)
  case (1 t f v cs pad pads)
  from "1.prems" have v: "4 + length v < 2 ^ 16" "length pad = SCTP_PAD4 (4 + length v) - (4 + length v)"
    and rest: "pads_ok cs pads" by (auto simp: pads_ok_def)
  show ?case
    using "1.IH" [OF rest, of "pre @ chunk_layout t f v @ pad"]
      parse_one [OF v, of pre t f "wire_chunks cs pads" callback s]
    by (auto simp: bind_eq_None_conv split: bind_splits)
qed (auto simp: pads_ok_def sctpParseChunks_from.simps)

text \<open>The iteration never faults and keeps what the callback keeps, on any packet.\<close>

lemma parse_total:
  assumes "\<And>t f v s. length v < 2 ^ 16 \<Longrightarrow> I s \<Longrightarrow> \<exists>status s'. callback t f v s = Some (status, s') \<and> Q status \<and> I s'"
    and "I s" and "Q STATUS_SUCCESS"
  shows "\<exists>status s'. sctpParseChunks_from b callback offset s = Some (status, s') \<and> Q status \<and> I s'"
  using assms
proof (induction b callback offset s rule: sctpParseChunks_from.induct)
  case (1 b callback offset s)
  show ?case
  proof (cases "offset + 4 \<le> length b")
    case False
    with "1.prems" show ?thesis by (simp add: sctpParseChunks_from.simps [of b callback offset s])
  next
    case True
    then obtain len where len: "getUnalignedInt16Be b (offset + 2) = Some len"
      using get_Be_in_range(1) [of "offset + 2" b] by auto
    from True have rd: "memget b offset = Some (b ! offset)" "memget b (offset + 1) = Some (b ! (offset + 1))"
      by (simp_all add: mem_simps)
    show ?thesis
    proof (cases "unat len < 4 \<or> offset + unat len > length b")
      case stop: True
      with "1.prems" True rd len show ?thesis by (simp add: sctpParseChunks_from.simps [of b callback offset s])
    next
      case go: False
      let ?v = "take (unat len - 4) (drop (offset + 4) b)"
      from go have v: "memread b (offset + 4) (unat len - 4) = Some ?v" by (simp add: mem_simps)
      have "unat len < 2 ^ LENGTH(16)" by (rule unsigned_less)
      then have short: "length ?v < 2 ^ 16" by simp
      from "1.prems"(1) [OF short] "1.prems"(2) obtain status s' where cb: "callback (b ! offset) (b ! (offset + 1)) ?v s = Some (status, s')"
        and I: "Q status" "I s'" by blast
      have rest: "\<exists>status s''. sctpParseChunks_from b callback (offset + SCTP_PAD4 (unat len)) s' = Some (status, s'') \<and> Q status \<and> I s''"
        if "status = STATUS_SUCCESS"
        using "1.IH" [OF True rd len refl go v cb refl] that "1.prems"(1,3) I by auto
      show ?thesis
        using True rd len go v cb I rest
        by (auto simp: sctpParseChunks_from.simps [of b callback offset s])
    qed
  qed
qed

section \<open>Properties\<close>

lemma crc_changed_byte:
  assumes "i < length b" and "c \<noteq> b ! i"
  shows "sctpCrc32c (b[i := c]) \<noteq> sctpCrc32c b"
proof -
  have "b[i := c] = take i b @ c # drop (Suc i) b" and "b = take i b @ b ! i # drop (Suc i) b"
    using assms(1) by (simp_all add: upd_conv_take_nth_drop id_take_nth_drop)
  then show ?thesis using crc_single_byte [OF assms(2)] by metis
qed

lemma checksum_changed_byte:
  assumes len: "12 \<le> length b" and i: "i < length b" and c: "c \<noteq> b ! i" and ok: "checksum_ok b"
  shows "\<not> checksum_ok (b[i := c])"
proof (cases "8 \<le> i \<and> i < 12")
  case True
  then have "bsplice (b[i := c]) 8 [0, 0, 0, 0] = bsplice b 8 [0, 0, 0, 0]"
    by (simp add: bsplice_def)
  moreover obtain k where "i = 8 + k" "k < 4" using True by (auto simp: le_iff_add)
  then have "take 4 (drop 8 (b[i := c])) ! k \<noteq> take 4 (drop 8 b) ! k"
    using len i c by simp
  ultimately show ?thesis using ok by (auto simp: checksum_ok_def)
next
  case False
  have "bsplice (b[i := c]) 8 [0, 0, 0, 0] = (bsplice b 8 [0, 0, 0, 0])[i := c]"
    using False len i by (intro nth_equalityI) (auto simp: nth_bsplice nth_list_update)
  moreover have "bsplice b 8 [0, 0, 0, 0] ! i = b ! i" using False len i by (auto simp: nth_bsplice)
  ultimately have "sctpCrc32c (bsplice (b[i := c]) 8 [0, 0, 0, 0]) \<noteq> sctpCrc32c (bsplice b 8 [0, 0, 0, 0])"
    using crc_changed_byte [of i "bsplice b 8 [0, 0, 0, 0]" c] i c len by simp
  moreover have "take 4 (drop 8 (b[i := c])) = take 4 (drop 8 b)"
    using False by (intro nth_equalityI) (auto simp: nth_list_update)
  ultimately show ?thesis using ok by (auto simp: checksum_ok_def dest: le32_inj)
qed

text \<open>
  C8. A packet that \<open>sctpValidatePacket\<close> accepts is rejected when any one of its bytes is
  altered, wherever the byte is and whatever tag is expected, and the check leaves the buffer
  as it was.
\<close>

theorem packet_byte_error_detected:
  assumes "12 \<le> length p" and "sctpValidatePacket (Some p) v = Some (STATUS_SUCCESS, Some p)"
    and "i < length p" and "c \<noteq> p ! i"
  shows "sctpValidatePacket (Some (p[i := c])) v' = Some (STATUS_SCTP_INVALID_DCEP_PACKET, Some (p[i := c]))"
proof -
  have "checksum_ok p" using assms(2) by (simp add: sctpValidatePacket_spec [OF assms(1)] split: if_splits)
  from checksum_changed_byte [OF assms(1,3,4) this] show ?thesis
    using assms(1) by (simp add: sctpValidatePacket_spec)
qed

lemma finalize_then_validate:
  assumes "12 \<le> len" and "len \<le> length b" and "getUnalignedInt32Be b 4 = Some vtag"
    and "vtag = 0 \<or> v = 0 \<or> vtag = v"
  shows "\<exists>b'. sctpFinalizePacket b len = Some b' \<and>
    sctpValidatePacket (Some (take len b')) v = Some (STATUS_SUCCESS, Some (take len b'))"
proof -
  let ?t = "take len b"
  let ?crc = "le32 (sctpCrc32c (take len (bsplice b 8 [0, 0, 0, 0])))"
  have fin: "sctpFinalizePacket b len = Some (bsplice b 8 ?crc)"
    using assms by (simp add: sctpFinalizePacket_bsplice)
  have tk: "take len (bsplice b 8 ?crc) = bsplice ?t 8 (le32 (sctpCrc32c (bsplice ?t 8 [0, 0, 0, 0])))"
    using assms by (simp add: take_bsplice)
  have "getUnalignedInt32Be ?t 4 = Some vtag"
    using assms by (simp add: getUnalignedInt32Be_def memget_def)
  then have "vtag_ok (take len (bsplice b 8 ?crc)) v"
    using assms by (simp add: tk vtag_bsplice) (simp add: vtag_ok_def)
  moreover have "checksum_ok (take len (bsplice b 8 ?crc))" unfolding tk using assms by (intro finalized_checksum) simp
  ultimately show ?thesis using fin assms by (simp add: sctpValidatePacket_spec)
qed

text \<open>
  A packet that \<open>sctpFinalizePacket\<close> completed passes \<open>sctpValidatePacket\<close> at a receiver
  that expects its verification tag, or when the tag or the expected tag is zero.
\<close>

lemma finalize_validate:
  assumes "12 \<le> len" and "len \<le> length b" and "getUnalignedInt32Be b 4 = Some vtag"
    and "vtag = 0 \<or> v = 0 \<or> vtag = v"
  shows "\<exists>b'. sctpFinalizePacket b len = Some b' \<and> length b' = length b \<and> take 8 b' = take 8 b \<and> drop 12 b' = drop 12 b \<and>
    sctpValidatePacket (Some (take len b')) v = Some (STATUS_SUCCESS, Some (take len b'))"
  using finalize_then_validate [OF assms] assms by (auto simp: sctpFinalizePacket_bsplice) (auto simp: bsplice_def)

text \<open>
  Splitting undoes writing: for any sequence of chunks laid out behind a common header,
  each padded to four bytes with whatever bytes, \<open>sctpParseChunks\<close> calls its callback on
  exactly these chunks, with their type, flags and value, in order, until one fails.
\<close>

lemma parse_written_chunks:
  assumes "length hdr = 12" and "pads_ok cs pads"
  shows "sctpParseChunks (hdr @ wire_chunks cs pads) callback s = for_chunks callback cs s"
  using parse_wire_chunks [OF assms(2), of hdr callback s] assms(1) by (simp add: sctpParseChunks_def)

text \<open>Applied: a header of zeros with its checksum, and two chunks.\<close>

lemma finalize_validate_witness:
  "\<exists>b'. sctpFinalizePacket (replicate 16 0) 12 = Some b' \<and> length b' = length (replicate 16 (0 :: byte)) \<and>
    take 8 b' = take 8 (replicate 16 0) \<and> drop 12 b' = drop 12 (replicate 16 0) \<and>
    sctpValidatePacket (Some (take 12 b')) 7 = Some (STATUS_SUCCESS, Some (take 12 b'))"
proof -
  have "getUnalignedInt32Be (replicate 16 0) 4 = Some 0"
    by (simp add: getUnalignedInt32Be_def memget_def MAKE_INT32_def MAKE_INT16_def)
  then show ?thesis by (intro finalize_validate [of 12 "replicate 16 0" 0 7]) simp_all
qed

theorem packet_byte_error_detected_witness:
  "\<exists>p. sctpValidatePacket (Some p) 0 = Some (STATUS_SUCCESS, Some p) \<and> length p = 12 \<and> p ! 0 = 0 \<and>
    sctpValidatePacket (Some (p[0 := 1])) 0 = Some (STATUS_SCTP_INVALID_DCEP_PACKET, Some (p[0 := 1]))"
proof -
  have "getUnalignedInt32Be (replicate 12 0) 4 = Some 0"
    by (simp add: getUnalignedInt32Be_def memget_def MAKE_INT32_def MAKE_INT16_def)
  then obtain b where fin: "sctpFinalizePacket (replicate 12 0) 12 = Some b"
    and ok: "sctpValidatePacket (Some (take 12 b)) 0 = Some (STATUS_SUCCESS, Some (take 12 b))"
    using finalize_then_validate [of 12 "replicate 12 0" 0 0] by auto
  have b: "length b = 12" "b ! 0 = 0"
    using fin by (auto simp: sctpFinalizePacket_bsplice nth_bsplice)
  then have "sctpValidatePacket (Some (b[0 := 1])) 0 = Some (STATUS_SCTP_INVALID_DCEP_PACKET, Some (b[0 := 1]))"
    using packet_byte_error_detected [of b 0 0 1 0] ok by simp
  with b ok show ?thesis by (intro exI [of _ b]) simp
qed

lemma parse_written_chunks_witness:
  "sctpParseChunks (replicate 12 0 @ wire_chunks [(11, 0, []), (0, 3, [1, 2, 3])] [[], [9]])
     (\<lambda>t f v seen. Some (STATUS_SUCCESS, seen @ [(t, f, v)])) [] =
   Some (STATUS_SUCCESS, [(11, 0, []), (0, 3, [1, 2, 3])])"
proof -
  have "pads_ok [(11, 0, []), (0, 3, [1, 2, 3])] [[], [9]]" by (simp add: pads_ok_def SCTP_PAD4_def)
  from parse_written_chunks [OF _ this, of "replicate 12 0" "\<lambda>t f v seen. Some (STATUS_SUCCESS, seen @ [(t, f, v)])" "[]"]
  show ?thesis by simp
qed

end
