(* ===== verification/SctpAssoc.thy ===== *)
theory SctpAssoc
  imports SctpPacket
begin

text \<open>
  \<^verbatim>\<open>src/source/Sctp/SctpAssoc.c\<close> and \<^verbatim>\<open>SctpInt.h\<close>: the SCTP association, its state, its chunk
  handlers, the send path, the timers and the shutdown.

  The association is a record with one field per member of \<open>SctpAssociation\<close>; the array
  \<open>receivedTsns\<close> with its count is a list, the other tables are lists of fixed length whose
  slots carry the \<open>inUse\<close> flag. The reassembly buffer is the list of its first
  \<open>reassemblyLen\<close> bytes, or \<open>None\<close> before it is allocated. The members \<open>outPacketLen\<close> and
  \<open>cookie\<close>, which no function uses, are left out. \<open>sa_trace\<close> is not a member: it records the
  calls of the two callbacks, in order.

  What the code takes from its surroundings is the record \<open>env\<close>: the reading of \<open>GETTIME\<close>
  during the call, whether \<open>MEMALLOC\<close> of a size succeeds, the byte order of the host (the
  state cookie is a C struct copied to the wire) and whether a message callback is given.
  Every operation returns \<open>None\<close> when it would access a buffer outside its bounds.
\<close>

section \<open>Constants and data\<close>

definition SCTP_MAX_OUTSTANDING :: nat where "SCTP_MAX_OUTSTANDING = 2048"
definition SCTP_MAX_RECEIVED :: nat where "SCTP_MAX_RECEIVED = 2048"
definition SCTP_MAX_QUEUED_MESSAGES :: nat where "SCTP_MAX_QUEUED_MESSAGES = 32"
definition SCTP_MAX_PENDING_SENDS :: nat where "SCTP_MAX_PENDING_SENDS = 1024"
definition SCTP_MAX_STREAMS :: nat where "SCTP_MAX_STREAMS = 300"
definition SCTP_MAX_GAP_BLOCKS :: nat where "SCTP_MAX_GAP_BLOCKS = 128"
definition SCTP_MAX_REASSEMBLY_SIZE :: nat where "SCTP_MAX_REASSEMBLY_SIZE = 65536"

abbreviation (input) SCTP_MAX_PACKET_SIZE :: nat where "SCTP_MAX_PACKET_SIZE \<equiv> 1200"
abbreviation (input) SCTP_MAX_QUEUED_PAYLOAD :: nat where "SCTP_MAX_QUEUED_PAYLOAD \<equiv> 1200"
abbreviation (input) SCTP_COOKIE_SIZE :: nat where "SCTP_COOKIE_SIZE \<equiv> 44"
abbreviation (input) SCTP_DEFAULT_ARWND :: u32 where "SCTP_DEFAULT_ARWND \<equiv> 131072"
abbreviation (input) SCTP_COOKIE_MAGIC1 :: u32 where "SCTP_COOKIE_MAGIC1 \<equiv> 0x4B565343"
abbreviation (input) SCTP_COOKIE_MAGIC2 :: u32 where "SCTP_COOKIE_MAGIC2 \<equiv> 0x44415441"
abbreviation (input) SCTP_RTO_INITIAL_MS :: u32 where "SCTP_RTO_INITIAL_MS \<equiv> 1000"
abbreviation (input) SCTP_RTO_MAX_MS :: u32 where "SCTP_RTO_MAX_MS \<equiv> 60000"
abbreviation (input) SCTP_MAX_INIT_RETRANS :: u32 where "SCTP_MAX_INIT_RETRANS \<equiv> 8"

datatype SctpAssocState =
    SCTP_ASSOC_CLOSED
  | SCTP_ASSOC_COOKIE_WAIT
  | SCTP_ASSOC_COOKIE_ECHOED
  | SCTP_ASSOC_ESTABLISHED
  | SCTP_ASSOC_SHUTDOWN_PENDING
  | SCTP_ASSOC_SHUTDOWN_SENT
  | SCTP_ASSOC_SHUTDOWN_ACK_SENT

record SctpCookie =
  ck_magic1 :: u32
  ck_magic2 :: u32
  ck_peerTag :: u32
  ck_myTag :: u32
  ck_peerInitialTsn :: u32
  ck_myInitialTsn :: u32
  ck_peerArwnd :: u32
  ck_tieTag :: u64
  ck_numInStreams :: u16
  ck_numOutStreams :: u16
  ck_reserved :: u32

record SctpOutstandingData =
  od_tsn :: u32
  od_streamId :: u16
  od_ssn :: u16
  od_ppid :: u32
  od_payload :: "bytes option"
  od_payloadLen :: u32
  od_unordered :: bool
  od_sentTime :: u64
  od_retransmitCount :: u32
  od_acked :: bool
  od_abandoned :: bool
  od_maxRetransmits :: u16
  od_lifetimeMs :: u64
  od_creationTime :: u64
  od_inUse :: bool

text \<open>A slot of \<open>sendQueue\<close> and of \<open>pendingQueue\<close>.\<close>

record SctpQueuedMessage =
  q_streamId :: u16
  q_ppid :: u32
  q_unordered :: bool
  q_maxRetransmits :: u16
  q_lifetimeMs :: u64
  q_payload :: "bytes option"
  q_payloadLen :: u32
  q_inUse :: bool

datatype sctp_event =
    OutboundPacket bytes
  | InboundMessage u16 u32 bytes

record SctpAssociation =
  sa_state :: SctpAssocState
  sa_localPort :: u16
  sa_remotePort :: u16
  sa_myVerificationTag :: u32
  sa_peerVerificationTag :: u32
  sa_nextTsn :: u32
  sa_cumulativeAckTsn :: u32
  sa_outstanding :: "SctpOutstandingData list"
  sa_outstandingCount :: u32
  sa_nextSsn :: "u16 list"
  sa_peerCumulativeTsn :: u32
  sa_peerCumulativeTsnValid :: bool
  sa_receivedTsns :: "u32 list"
  sa_needSack :: bool
  sa_cwnd :: u32
  sa_ssthresh :: u32
  sa_peerArwnd :: u32
  sa_flightSize :: u32
  sa_mtu :: u16
  sa_t1InitExpiry :: u64
  sa_t3RtxExpiry :: u64
  sa_initRetransmitCount :: u32
  sa_rtoMs :: u32
  sa_srttMs :: u32
  sa_outPacket :: bytes
  sa_cookieEchoData :: bytes
  sa_cookieEchoLen :: nat
  sa_cookieEchoValid :: bool
  sa_tieTag :: u64
  sa_advancedPeerAckPoint :: u32
  sa_reassemblyBuf :: "bytes option"
  sa_reassemblyStreamId :: u16
  sa_reassemblySsn :: u16
  sa_reassemblyPpid :: u32
  sa_reassemblyInProgress :: bool
  sa_sendQueue :: "SctpQueuedMessage list"
  sa_sendQueueCount :: u32
  sa_pendingQueue :: "SctpQueuedMessage list"
  sa_pendingQueueCount :: u32
  sa_trace :: "sctp_event list"

record env =
  env_gettime :: u64
  env_alloc :: "nat \<Rightarrow> bool"
  env_isBigEndian :: bool
  env_hasMessageFn :: bool

section \<open>Serial number arithmetic and the clock\<close>

definition TSN_LT :: "u32 \<Rightarrow> u32 \<Rightarrow> bool" where "TSN_LT a b = (sint (a - b) < 0)"
definition TSN_LTE :: "u32 \<Rightarrow> u32 \<Rightarrow> bool" where "TSN_LTE a b = (sint (a - b) \<le> 0)"
definition TSN_GT :: "u32 \<Rightarrow> u32 \<Rightarrow> bool" where "TSN_GT a b = (sint (a - b) > 0)"
definition TSN_GTE :: "u32 \<Rightarrow> u32 \<Rightarrow> bool" where "TSN_GTE a b = (sint (a - b) \<ge> 0)"

text \<open>\<open>GETTIME\<close> counts 100 ns units and \<open>HUNDREDS_OF_NANOS_IN_A_MILLISECOND\<close> is 10000.\<close>

definition SCTP_NOW_MS :: "env \<Rightarrow> u64" where
  "SCTP_NOW_MS e = env_gettime e div (10 * 10000)"

text \<open>
  \<open>sctpGenerateTag\<close> reads the clock twice. Its loop ends in the first round, because a zero
  tag is replaced inside the body.
\<close>

definition sctpGenerateTag :: "u64 \<Rightarrow> u64 \<Rightarrow> u32" where
  "sctpGenerateTag t1 t2 =
     (let tag = ucast (t1 AND 0xFFFFFFFF) XOR ucast (drop_bit 32 t2 AND 0xFFFFFFFF)
      in if tag = 0 then 0x12345678 else tag)"

section \<open>The state cookie\<close>

definition native_bytes16 :: "bool \<Rightarrow> u16 \<Rightarrow> bytes" where
  "native_bytes16 isBig v = (if isBig then be16 v else le16 v)"

definition native_bytes32 :: "bool \<Rightarrow> u32 \<Rightarrow> bytes" where
  "native_bytes32 isBig v = (if isBig then be32 v else le32 v)"

definition native_bytes64 :: "bool \<Rightarrow> u64 \<Rightarrow> bytes" where
  "native_bytes64 isBig v = (if isBig then be64 v else le64 v)"

text \<open>The packed C struct in memory.\<close>

definition cookie_bytes :: "bool \<Rightarrow> SctpCookie \<Rightarrow> bytes" where
  "cookie_bytes g c =
     native_bytes32 g (ck_magic1 c) @ native_bytes32 g (ck_magic2 c) @ native_bytes32 g (ck_peerTag c) @
     native_bytes32 g (ck_myTag c) @ native_bytes32 g (ck_peerInitialTsn c) @
     native_bytes32 g (ck_myInitialTsn c) @ native_bytes32 g (ck_peerArwnd c) @
     native_bytes64 g (ck_tieTag c) @ native_bytes16 g (ck_numInStreams c) @
     native_bytes16 g (ck_numOutStreams c) @ native_bytes32 g (ck_reserved c)"

section \<open>Sending packets\<close>

definition sctpSendPacket :: "SctpAssociation \<Rightarrow> nat \<Rightarrow> SctpAssociation option" where
  "sctpSendPacket a packetLen =
     do { b \<leftarrow> sctpFinalizePacket (sa_outPacket a) packetLen;
          packet \<leftarrow> memread b 0 packetLen;
          Some (a\<lparr>sa_outPacket := b, sa_trace := sa_trace a @ [OutboundPacket packet]\<rparr>) }"

text \<open>
  The sequence every sender repeats: the common header at the start of \<open>outPacket\<close>, one
  chunk behind it, then \<open>sctpSendPacket\<close>.
\<close>

definition send_chunk ::
  "SctpAssociation \<Rightarrow> u32 \<Rightarrow> (bytes \<Rightarrow> nat \<Rightarrow> (bytes \<times> nat) option) \<Rightarrow> SctpAssociation option" where
  "send_chunk a vtag wr =
     do { (b, offset) \<leftarrow> sctpWriteCommonHeader (sa_outPacket a) 0 (sa_localPort a) (sa_remotePort a) vtag;
          (b, n) \<leftarrow> wr b offset;
          sctpSendPacket (a\<lparr>sa_outPacket := b\<rparr>) (offset + n) }"

section \<open>Selective acknowledgement\<close>

text \<open>The inner loop of the insertion sort moves greater elements up and stores \<open>temp\<close>.\<close>

fun insert_shift :: "u32 list \<Rightarrow> nat \<Rightarrow> u32 \<Rightarrow> u32 list" where
  "insert_shift xs 0 temp = xs[0 := temp]"
| "insert_shift xs (Suc j) temp =
     (if TSN_GT (xs ! j) temp then insert_shift (xs[Suc j := xs ! j]) j temp else xs[Suc j := temp])"

definition sort_tsns :: "u32 list \<Rightarrow> u32 list" where
  "sort_tsns xs = fold (\<lambda>i ys. insert_shift ys i (ys ! i)) [1..<length xs] xs"

text \<open>The gap blocks built so far are the filled prefix of \<open>gapStarts\<close> and \<open>gapEnds\<close>.\<close>

fun build_gaps :: "u32 \<Rightarrow> u32 list \<Rightarrow> (u16 \<times> u16) list \<Rightarrow> (u16 \<times> u16) list" where
  "build_gaps cum [] gaps = gaps"
| "build_gaps cum (tsn # tsns) gaps =
     (if length gaps < SCTP_MAX_GAP_BLOCKS then
        if TSN_LTE tsn cum then build_gaps cum tsns gaps
        else let offset16 = (ucast (tsn - cum) :: u16) in
             if gaps \<noteq> [] \<and> unat offset16 = unat (snd (last gaps)) + 1
             then build_gaps cum tsns (butlast gaps @ [(fst (last gaps), offset16)])
             else build_gaps cum tsns (gaps @ [(offset16, offset16)])
      else gaps)"

definition sctpSendSack :: "SctpAssociation \<Rightarrow> SctpAssociation option" where
  "sctpSendSack a =
     (if \<not> sa_peerCumulativeTsnValid a then Some a
      else let sortedTsns = sort_tsns (take SCTP_MAX_RECEIVED (sa_receivedTsns a));
               gaps = build_gaps (sa_peerCumulativeTsn a) sortedTsns [] in
        do { a' \<leftarrow> send_chunk a (sa_peerVerificationTag a)
                     (\<lambda>b p. sctpWriteSackChunk b p (sa_peerCumulativeTsn a) SCTP_DEFAULT_ARWND gaps);
             Some (a'\<lparr>sa_needSack := False\<rparr>) })"

section \<open>Sending data\<close>

text \<open>
  The message being sent, as the arguments of \<open>sctpAssocSend\<close>; \<open>payloadLen\<close> is the length of
  the payload.
\<close>

record message =
  m_streamId :: u16
  m_ppid :: u32
  m_unordered :: bool
  m_payload :: bytes
  m_maxRetransmits :: u16
  m_lifetimeMs :: u64

definition m_payloadLen :: "message \<Rightarrow> u32" where
  "m_payloadLen m = word_of_nat (length (m_payload m))"

text \<open>The message is kept in the first free slot of \<open>sendQueue\<close> until the association is established.\<close>

definition queue_before_established :: "SctpAssociation \<Rightarrow> message \<Rightarrow> SctpAssociation" where
  "queue_before_established a m =
     (if sa_sendQueueCount a < word_of_nat SCTP_MAX_QUEUED_MESSAGES \<and> m_payloadLen m \<le> word_of_nat SCTP_MAX_QUEUED_PAYLOAD
      then let i = first_index (\<lambda>q. \<not> q_inUse q) (sa_sendQueue a) in
        if i < SCTP_MAX_QUEUED_MESSAGES
        then a\<lparr>sa_sendQueue := (sa_sendQueue a)[i :=
                 \<lparr>q_streamId = m_streamId m, q_ppid = m_ppid m, q_unordered = m_unordered m,
                  q_maxRetransmits = m_maxRetransmits m, q_lifetimeMs = m_lifetimeMs m,
                  q_payload = Some (m_payload m), q_payloadLen = m_payloadLen m, q_inUse = True\<rparr>],
               sa_sendQueueCount := sa_sendQueueCount a + 1\<rparr>
        else a
      else a)"

text \<open>The message is held back in the first free slot of \<open>pendingQueue\<close>; without memory it is dropped.\<close>

definition queue_pending :: "env \<Rightarrow> SctpAssociation \<Rightarrow> message \<Rightarrow> SctpAssociation" where
  "queue_pending e a m =
     (if sa_pendingQueueCount a < word_of_nat SCTP_MAX_PENDING_SENDS
      then let slot = first_index (\<lambda>q. \<not> q_inUse q) (sa_pendingQueue a) in
        if slot < SCTP_MAX_PENDING_SENDS
        then let q = (sa_pendingQueue a ! slot)\<lparr>q_streamId := m_streamId m, q_ppid := m_ppid m,
                   q_unordered := m_unordered m, q_maxRetransmits := m_maxRetransmits m,
                   q_lifetimeMs := m_lifetimeMs m, q_payloadLen := m_payloadLen m\<rparr> in
          if env_alloc e (length (m_payload m))
          then a\<lparr>sa_pendingQueue := (sa_pendingQueue a)[slot := q\<lparr>q_payload := Some (m_payload m), q_inUse := True\<rparr>],
                 sa_pendingQueueCount := sa_pendingQueueCount a + 1\<rparr>
          else a\<lparr>sa_pendingQueue := (sa_pendingQueue a)[slot := q\<lparr>q_payload := None\<rparr>]\<rparr>
        else a
      else a)"

definition free_slot :: "SctpAssociation \<Rightarrow> nat" where
  "free_slot a = first_index (\<lambda>od. \<not> od_inUse od) (sa_outstanding a)"

text \<open>The stores that record a chunk in slot \<open>i\<close> of \<open>outstanding\<close> and account for it.\<close>

definition store_outstanding :: "env \<Rightarrow> SctpAssociation \<Rightarrow> nat \<Rightarrow> u32 \<Rightarrow> u16 \<Rightarrow> message \<Rightarrow> bytes \<Rightarrow> SctpAssociation" where
  "store_outstanding e a i tsn ssn m data =
     a\<lparr>sa_outstanding := (sa_outstanding a)[i :=
         \<lparr>od_tsn = tsn, od_streamId = m_streamId m, od_ssn = ssn, od_ppid = m_ppid m,
          od_payload = (if env_alloc e (length data) then Some data else None),
          od_payloadLen = word_of_nat (length data), od_unordered = m_unordered m,
          od_sentTime = SCTP_NOW_MS e, od_retransmitCount = 0, od_acked = False, od_abandoned = False,
          od_maxRetransmits = m_maxRetransmits m, od_lifetimeMs = m_lifetimeMs m,
          od_creationTime = SCTP_NOW_MS e, od_inUse = True\<rparr>],
       sa_outstandingCount := sa_outstandingCount a + 1,
       sa_flightSize := sa_flightSize a + word_of_nat (length data)\<rparr>"

definition start_t3 :: "env \<Rightarrow> SctpAssociation \<Rightarrow> SctpAssociation" where
  "start_t3 e a = (if sa_t3RtxExpiry a = 0 then a\<lparr>sa_t3RtxExpiry := SCTP_NOW_MS e + ucast (sa_rtoMs a)\<rparr> else a)"

text \<open>A DATA chunk with given flags, as the fragmentation loop writes it.\<close>

definition write_fragment :: "bytes \<Rightarrow> nat \<Rightarrow> byte \<Rightarrow> u32 \<Rightarrow> u16 \<Rightarrow> u16 \<Rightarrow> u32 \<Rightarrow> bytes \<Rightarrow> (bytes \<times> nat) option" where
  "write_fragment b p fragFlags tsn streamId ssn ppid fragment =
     (let chunkLen = SCTP_DATA_HEADER_SIZE + length fragment in
     do { b \<leftarrow> memwrite b p [SCTP_CHUNK_DATA];
          b \<leftarrow> memwrite b (p + 1) [fragFlags];
          b \<leftarrow> putUnalignedInt16Be b (p + 2) (word_of_nat chunkLen);
          b \<leftarrow> putUnalignedInt32Be b (p + 4) tsn;
          b \<leftarrow> putUnalignedInt16Be b (p + 8) streamId;
          b \<leftarrow> putUnalignedInt16Be b (p + 10) ssn;
          b \<leftarrow> putUnalignedInt32Be b (p + 12) ppid;
          b \<leftarrow> memwrite b (p + SCTP_DATA_HEADER_SIZE) fragment;
          Some (b, SCTP_PAD4 chunkLen) })"

definition fragment_flags :: "bool \<Rightarrow> bool \<Rightarrow> bool \<Rightarrow> byte" where
  "fragment_flags isFirst isLast unordered =
     (if isFirst then SCTP_DATA_FLAG_BEGIN else 0) OR (if isLast then SCTP_DATA_FLAG_END else 0) OR
     (if unordered then SCTP_DATA_FLAG_UNORDERED else 0)"

lemma send_chunk_outstanding:
  "send_chunk a vtag wr = Some a' \<Longrightarrow> sa_outstanding a' = sa_outstanding a"
  by (auto simp: send_chunk_def sctpSendPacket_def bind_Some_iff case_prod_Some_iff)

text \<open>
  The fragmentation loop, from \<open>fragmentOffset\<close> on; the flag tells that the loop ran to its
  end and not into a full table (the table has \<open>SCTP_MAX_OUTSTANDING\<close> slots). Every round takes
  a free slot, so the loop ends, also when \<open>maxDataPayload\<close> is 0.
\<close>

abbreviation free_slots :: "SctpAssociation \<Rightarrow> nat" where
  "free_slots a \<equiv> length (filter (\<lambda>od. \<not> od_inUse od) (sa_outstanding a))"

lemma free_slots_update:
  "i < length xs \<Longrightarrow> \<not> od_inUse (xs ! i) \<Longrightarrow> od_inUse y \<Longrightarrow>
   length (filter (\<lambda>od. \<not> od_inUse od) (xs[i := y])) < length (filter (\<lambda>od. \<not> od_inUse od) xs)"
proof (induction xs arbitrary: i)
  case (Cons x xs)
  then show ?case by (cases i) auto
qed simp

function send_fragments ::
  "env \<Rightarrow> message \<Rightarrow> u32 \<Rightarrow> u16 \<Rightarrow> u32 \<Rightarrow> u32 \<Rightarrow> bool \<Rightarrow> SctpAssociation \<Rightarrow> (SctpAssociation \<times> bool) option" where
  "send_fragments e m maxDataPayload ssn remaining fragmentOffset isFirst a =
     (if remaining > 0 then
        let fragmentLen = (if remaining > maxDataPayload then maxDataPayload else remaining);
            isLast = (remaining - fragmentLen = 0);
            tsn = sa_nextTsn a;
            a1 = a\<lparr>sa_nextTsn := tsn + 1\<rparr>;
            i = free_slot a1 in
        if i \<ge> length (sa_outstanding a1) then Some (a1, False)
        else do { fragment \<leftarrow> memread (m_payload m) (unat fragmentOffset) (unat fragmentLen);
                  a2 \<leftarrow> send_chunk (store_outstanding e a1 i tsn ssn m fragment) (sa_peerVerificationTag a)
                          (\<lambda>b p. write_fragment b p (fragment_flags isFirst isLast (m_unordered m)) tsn
                                   (m_streamId m) ssn (m_ppid m) fragment);
                  send_fragments e m maxDataPayload ssn (remaining - fragmentLen)
                    (fragmentOffset + fragmentLen) False a2 }
      else Some (a, True))"
  by pat_completeness auto
termination
proof (relation "measure (\<lambda>(e, m, mx, ssn, r, off, f, a). free_slots a)", goal_cases)
  case (2 e m maxDataPayload ssn remaining fragmentOffset isFirst a fragmentLen isLast tsn a1 i fragment a2)
  have out: "sa_outstanding a2 = sa_outstanding (store_outstanding e a1 i tsn ssn m fragment)"
    using 2 send_chunk_outstanding by blast
  have i: "i < length (sa_outstanding a1)" "\<not> od_inUse (sa_outstanding a1 ! i)"
    using 2 first_index_nth [of "\<lambda>od. \<not> od_inUse od" "sa_outstanding a1"] by (auto simp: free_slot_def)
  have "sa_outstanding a1 = sa_outstanding a" using 2 by simp
  with i free_slots_update [OF i] out show ?case by (simp add: store_outstanding_def)
qed simp

declare send_fragments.simps [simp del]

definition sctpAssocSend :: "env \<Rightarrow> SctpAssociation \<Rightarrow> message \<Rightarrow> SctpAssociation option" where
  "sctpAssocSend e a m =
     (if sa_state a \<noteq> SCTP_ASSOC_ESTABLISHED then Some (queue_before_established a m)
      else if sa_flightSize a \<ge> sa_cwnd a \<or> sa_flightSize a \<ge> sa_peerArwnd a then Some (queue_pending e a m)
      else
        let ordered = (\<not> m_unordered m \<and> unat (m_streamId m) < SCTP_MAX_STREAMS);
            ssn = (if ordered then sa_nextSsn a ! unat (m_streamId m) else 0);
            a1 = (if ordered then a\<lparr>sa_nextSsn := (sa_nextSsn a)[unat (m_streamId m) := ssn + 1]\<rparr> else a);
            maxDataPayload = ucast (sa_mtu a) - 12 - 16 in
        if m_payloadLen m \<le> maxDataPayload then
          let i = free_slot a1 in
          if i \<ge> SCTP_MAX_OUTSTANDING then
            let a2 = (if ordered
                      then a1\<lparr>sa_nextSsn := (sa_nextSsn a1)[unat (m_streamId m) := sa_nextSsn a1 ! unat (m_streamId m) - 1]\<rparr>
                      else a1) in
            Some (queue_pending e a2 m)
          else
            let tsn = sa_nextTsn a1;
                a2 = store_outstanding e (a1\<lparr>sa_nextTsn := tsn + 1\<rparr>) i tsn ssn m (m_payload m) in
            do { a3 \<leftarrow> send_chunk a2 (sa_peerVerificationTag a2)
                         (\<lambda>b p. sctpWriteDataChunk b p tsn (m_streamId m) ssn (m_ppid m) (m_unordered m) (m_payload m));
                 Some (start_t3 e a3) }
        else
          do { (a2, complete) \<leftarrow> send_fragments e m maxDataPayload ssn (m_payloadLen m) 0 True a1;
               Some (if complete then start_t3 e a2 else a2) })"

definition queued_message :: "SctpQueuedMessage \<Rightarrow> bytes \<Rightarrow> message" where
  "queued_message q data =
     \<lparr>m_streamId = q_streamId q, m_ppid = q_ppid q, m_unordered = q_unordered q, m_payload = data,
      m_maxRetransmits = q_maxRetransmits q, m_lifetimeMs = q_lifetimeMs q\<rparr>"

text \<open>The payload of a queue slot: reading \<open>payloadLen\<close> bytes behind a null pointer is a fault.\<close>

definition slot_data :: "SctpQueuedMessage \<Rightarrow> bytes option" where
  "slot_data q = do { p \<leftarrow> q_payload q; memread p 0 (unat (q_payloadLen q)) }"

definition flush_slot :: "env \<Rightarrow> nat \<Rightarrow> SctpAssociation \<Rightarrow> SctpAssociation option" where
  "flush_slot e i a =
     (let q = sa_sendQueue a ! i in
      if \<not> q_inUse q then Some a
      else do { data \<leftarrow> slot_data q;
                a' \<leftarrow> sctpAssocSend e a (queued_message q data);
                Some (a'\<lparr>sa_sendQueue := (sa_sendQueue a')[i := (sa_sendQueue a' ! i)\<lparr>q_inUse := False\<rparr>],
                         sa_sendQueueCount := sa_sendQueueCount a' - 1\<rparr>) })"

definition sctpFlushSendQueue :: "env \<Rightarrow> SctpAssociation \<Rightarrow> SctpAssociation option" where
  "sctpFlushSendQueue e a = for_each (flush_slot e) [0..<SCTP_MAX_QUEUED_MESSAGES] a"

section \<open>The handshake\<close>

definition sctpHandleInit :: "env \<Rightarrow> SctpAssociation \<Rightarrow> bytes \<Rightarrow> SctpAssociation option" where
  "sctpHandleInit e a v =
     (if length v < 16 then Some a
      else do {
        peerTag \<leftarrow> getUnalignedInt32Be v 0;
        peerArwnd \<leftarrow> getUnalignedInt32Be v 4;
        peerOutStreams \<leftarrow> getUnalignedInt16Be v 8;
        peerInStreams \<leftarrow> getUnalignedInt16Be v 10;
        peerInitialTsn \<leftarrow> getUnalignedInt32Be v 12;
        let maxStreams = word_of_nat SCTP_MAX_STREAMS;
        let cookie = \<lparr>ck_magic1 = SCTP_COOKIE_MAGIC1, ck_magic2 = SCTP_COOKIE_MAGIC2, ck_peerTag = peerTag,
                      ck_myTag = sa_myVerificationTag a, ck_peerInitialTsn = peerInitialTsn,
                      ck_myInitialTsn = sa_nextTsn a, ck_peerArwnd = peerArwnd, ck_tieTag = sa_tieTag a,
                      ck_numInStreams = (if peerOutStreams < maxStreams then peerOutStreams else maxStreams),
                      ck_numOutStreams = (if peerInStreams < maxStreams then peerInStreams else maxStreams),
                      ck_reserved = 0\<rparr>;
        send_chunk a peerTag
          (\<lambda>b p. sctpWriteInitAckChunk b p (sa_myVerificationTag a) SCTP_DEFAULT_ARWND maxStreams maxStreams
                   (sa_nextTsn a) (cookie_bytes (env_isBigEndian e) cookie)) })"

text \<open>
  The search for the state cookie among the parameters of an INIT-ACK: the bytes that are
  copied to \<open>cookieEchoData\<close>, if the loop finds them.
\<close>

function find_cookie :: "bytes \<Rightarrow> nat \<Rightarrow> bytes option option" where
  "find_cookie v paramOffset =
     (if paramOffset + 4 \<le> length v then
        do { paramType \<leftarrow> getUnalignedInt16Be v paramOffset;
             paramLen \<leftarrow> getUnalignedInt16Be v (paramOffset + 2);
             if unat paramLen < 4 then Some None
             else if paramType = SCTP_PARAM_STATE_COOKIE then
               let cookieDataLen = unat paramLen - 4 in
               if cookieDataLen \<le> SCTP_COOKIE_SIZE \<and> paramOffset + unat paramLen \<le> length v
               then do { data \<leftarrow> memread v (paramOffset + 4) cookieDataLen; Some (Some data) }
               else Some None
             else find_cookie v (paramOffset + SCTP_PAD4 (unat paramLen)) }
      else Some None)"
  by pat_completeness auto
termination
proof (relation "measure (\<lambda>(v, off). length v - off)", goal_cases)
  case (2 v paramOffset paramType paramLen)
  then show ?case using SCTP_PAD4_bounds(1) [of "unat paramLen"] by simp
qed simp

declare find_cookie.simps [simp del]

definition send_cookie_echo :: "SctpAssociation \<Rightarrow> SctpAssociation option" where
  "send_cookie_echo a =
     do { cookie \<leftarrow> memread (sa_cookieEchoData a) 0 (sa_cookieEchoLen a);
          send_chunk a (sa_peerVerificationTag a) (\<lambda>b p. sctpWriteCookieEchoChunk b p cookie) }"

definition sctpHandleInitAck :: "env \<Rightarrow> SctpAssociation \<Rightarrow> bytes \<Rightarrow> SctpAssociation option" where
  "sctpHandleInitAck e a v =
     (if length v < 16 then Some a
      else if sa_state a \<noteq> SCTP_ASSOC_COOKIE_WAIT \<and> sa_state a \<noteq> SCTP_ASSOC_CLOSED then Some a
      else do {
        peerTag \<leftarrow> getUnalignedInt32Be v 0;
        peerArwnd \<leftarrow> getUnalignedInt32Be v 4;
        peerOutStreams \<leftarrow> getUnalignedInt16Be v 8;
        peerInStreams \<leftarrow> getUnalignedInt16Be v 10;
        peerInitialTsn \<leftarrow> getUnalignedInt32Be v 12;
        let a1 = a\<lparr>sa_peerVerificationTag := peerTag, sa_peerArwnd := peerArwnd,
                   sa_peerCumulativeTsn := peerInitialTsn - 1, sa_peerCumulativeTsnValid := True\<rparr>;
        found \<leftarrow> find_cookie v 16;
        case found of
          None \<Rightarrow> Some a1
        | Some data \<Rightarrow>
            do { echo \<leftarrow> memwrite (sa_cookieEchoData a1) 0 data;
                 a2 \<leftarrow> send_cookie_echo (a1\<lparr>sa_cookieEchoData := echo, sa_cookieEchoLen := length data,
                                           sa_cookieEchoValid := True\<rparr>);
                 Some (a2\<lparr>sa_state := SCTP_ASSOC_COOKIE_ECHOED,
                          sa_t1InitExpiry := SCTP_NOW_MS e + ucast (sa_rtoMs a2)\<rparr>) } })"

text \<open>The fields of the cookie are read through a cast to \<open>SctpCookie\<close>, in the host's byte order.\<close>

definition sctpHandleCookieEcho :: "env \<Rightarrow> SctpAssociation \<Rightarrow> bytes \<Rightarrow> SctpAssociation option" where
  "sctpHandleCookieEcho e a v =
     (if length v < SCTP_COOKIE_SIZE then Some a
      else do {
        magic1 \<leftarrow> native32 (env_isBigEndian e) v 0;
        magic2 \<leftarrow> native32 (env_isBigEndian e) v 4;
        if magic1 \<noteq> SCTP_COOKIE_MAGIC1 \<or> magic2 \<noteq> SCTP_COOKIE_MAGIC2 then Some a
        else do {
          peerTag \<leftarrow> native32 (env_isBigEndian e) v 8;
          peerInitialTsn \<leftarrow> native32 (env_isBigEndian e) v 16;
          peerArwnd \<leftarrow> native32 (env_isBigEndian e) v 24;
          a2 \<leftarrow> send_chunk (a\<lparr>sa_peerVerificationTag := peerTag, sa_peerCumulativeTsn := peerInitialTsn - 1,
                             sa_peerCumulativeTsnValid := True, sa_peerArwnd := peerArwnd\<rparr>)
                  peerTag sctpWriteCookieAckChunk;
          sctpFlushSendQueue e (a2\<lparr>sa_state := SCTP_ASSOC_ESTABLISHED, sa_t1InitExpiry := 0\<rparr>) } })"

definition sctpHandleCookieAck :: "env \<Rightarrow> SctpAssociation \<Rightarrow> SctpAssociation option" where
  "sctpHandleCookieAck e a =
     (if sa_state a \<noteq> SCTP_ASSOC_COOKIE_ECHOED then Some a
      else sctpFlushSendQueue e (a\<lparr>sa_state := SCTP_ASSOC_ESTABLISHED, sa_t1InitExpiry := 0\<rparr>))"

section \<open>Receiving data\<close>

text \<open>Removal of an entry of \<open>receivedTsns\<close> by overwriting it with the last one.\<close>

definition swap_remove :: "'a list \<Rightarrow> nat \<Rightarrow> 'a list" where
  "swap_remove xs k = butlast (xs[k := last xs])"

lemma length_swap_remove [simp]: "length (swap_remove xs k) = length xs - 1"
  by (simp add: swap_remove_def)

text \<open>The loop that advances the cumulative TSN over the out-of-order TSNs received before.\<close>

function advance_cumulative :: "u32 \<Rightarrow> u32 list \<Rightarrow> u32 \<times> u32 list" where
  "advance_cumulative cum tsns =
     (let k = first_index (\<lambda>t. t = cum + 1) tsns in
      if k < length tsns then advance_cumulative (cum + 1) (swap_remove tsns k) else (cum, tsns))"
  by pat_completeness auto
termination
  by (relation "measure (\<lambda>(cum, tsns). length tsns)") auto

declare advance_cumulative.simps [simp del]

text \<open>Delivery of the payload, with the reassembly of fragmented messages.\<close>

definition deliver_data ::
  "env \<Rightarrow> byte \<Rightarrow> u16 \<Rightarrow> u16 \<Rightarrow> u32 \<Rightarrow> bytes \<Rightarrow> SctpAssociation \<Rightarrow> SctpAssociation option" where
  "deliver_data e flags streamId ssn ppid payload a =
     (if \<not> env_hasMessageFn e then Some a
      else let isBegin = (flags AND SCTP_DATA_FLAG_BEGIN \<noteq> 0); isEnd = (flags AND SCTP_DATA_FLAG_END \<noteq> 0) in
        if isBegin \<and> isEnd then Some (a\<lparr>sa_trace := sa_trace a @ [InboundMessage streamId ppid payload]\<rparr>)
        else if isBegin then
          let a1 = (if sa_reassemblyBuf a = None \<and> env_alloc e SCTP_MAX_REASSEMBLY_SIZE
                    then a\<lparr>sa_reassemblyBuf := Some []\<rparr> else a) in
          if sa_reassemblyBuf a1 \<noteq> None \<and> length payload \<le> SCTP_MAX_REASSEMBLY_SIZE
          then Some (a1\<lparr>sa_reassemblyBuf := Some payload, sa_reassemblyStreamId := streamId,
                        sa_reassemblySsn := ssn, sa_reassemblyPpid := ppid, sa_reassemblyInProgress := True\<rparr>)
          else Some a1
        else if sa_reassemblyInProgress a then
          let a1 = (case sa_reassemblyBuf a of
                      Some buf \<Rightarrow> if length buf + length payload \<le> SCTP_MAX_REASSEMBLY_SIZE
                                  then a\<lparr>sa_reassemblyBuf := Some (buf @ payload)\<rparr> else a
                    | None \<Rightarrow> a) in
          if isEnd then
            do { buf \<leftarrow> sa_reassemblyBuf a1;
                 Some (a1\<lparr>sa_trace := sa_trace a1 @ [InboundMessage (sa_reassemblyStreamId a1) (sa_reassemblyPpid a1) buf],
                          sa_reassemblyInProgress := False, sa_reassemblyBuf := Some []\<rparr>) }
          else Some a1
        else Some a)"

text \<open>
  What a DATA chunk does to the receive tracking: the new cumulative TSN and out-of-order
  TSNs, or \<open>None\<close> for an old TSN, which is acknowledged and not delivered.
\<close>

definition track_tsn :: "u32 \<Rightarrow> u32 \<Rightarrow> u32 list \<Rightarrow> (u32 \<times> u32 list) option" where
  "track_tsn tsn cum tsns =
     (if tsn = cum + 1 then Some (advance_cumulative tsn tsns)
      else if TSN_GT tsn (cum + 1)
      then Some (cum, if tsn \<notin> set tsns \<and> length tsns < SCTP_MAX_RECEIVED then tsns @ [tsn] else tsns)
      else None)"

definition sctpHandleData :: "env \<Rightarrow> SctpAssociation \<Rightarrow> byte \<Rightarrow> bytes \<Rightarrow> SctpAssociation option" where
  "sctpHandleData e a flags v =
     (if length v < 12 then Some a
      else if sa_state a \<noteq> SCTP_ASSOC_ESTABLISHED then Some a
      else do {
        tsn \<leftarrow> getUnalignedInt32Be v 0;
        streamId \<leftarrow> getUnalignedInt16Be v 4;
        ssn \<leftarrow> getUnalignedInt16Be v 6;
        ppid \<leftarrow> getUnalignedInt32Be v 8;
        payload \<leftarrow> memread v 12 (length v - 12);
        let a1 = (if sa_peerCumulativeTsnValid a then a
                  else a\<lparr>sa_peerCumulativeTsn := tsn - 1, sa_peerCumulativeTsnValid := True\<rparr>);
        case track_tsn tsn (sa_peerCumulativeTsn a1) (sa_receivedTsns a1) of
          None \<Rightarrow> sctpSendSack (a1\<lparr>sa_needSack := True\<rparr>)
        | Some (cum, tsns) \<Rightarrow>
            do { a2 \<leftarrow> deliver_data e flags streamId ssn ppid payload
                         (a1\<lparr>sa_peerCumulativeTsn := cum, sa_receivedTsns := tsns, sa_needSack := True\<rparr>);
                 sctpSendSack a2 } })"

section \<open>Acknowledgements from the peer\<close>

text \<open>The loop over \<open>pendingQueue\<close>, which stops when the window or the table is full again.\<close>

fun drain_from :: "env \<Rightarrow> nat list \<Rightarrow> SctpAssociation \<Rightarrow> SctpAssociation option" where
  "drain_from e [] a = Some a"
| "drain_from e (slot # slots) a =
     (let q = sa_pendingQueue a ! slot in
      if \<not> q_inUse q then drain_from e slots a
      else if sa_flightSize a \<ge> sa_cwnd a \<or> sa_flightSize a \<ge> sa_peerArwnd a \<or>
              sa_outstandingCount a \<ge> word_of_nat SCTP_MAX_OUTSTANDING then Some a
      else do { data \<leftarrow> slot_data q;
                a' \<leftarrow> sctpAssocSend e
                       (a\<lparr>sa_pendingQueue := (sa_pendingQueue a)[slot := q\<lparr>q_payload := None, q_inUse := False\<rparr>],
                          sa_pendingQueueCount := sa_pendingQueueCount a - 1\<rparr>)
                       (queued_message q data);
                drain_from e slots a' })"

definition sctpDrainPendingQueue :: "env \<Rightarrow> SctpAssociation \<Rightarrow> SctpAssociation option" where
  "sctpDrainPendingQueue e a = drain_from e [0..<SCTP_MAX_PENDING_SENDS] a"

text \<open>
  One round of the loops of \<open>sctpHandleSack\<close> over \<open>outstanding\<close>: a chunk whose TSN is
  covered leaves the table. The second component is \<open>bytesNewlyAcked\<close>.
\<close>

definition ack_slot :: "(u32 \<Rightarrow> bool) \<Rightarrow> nat \<Rightarrow> SctpAssociation \<times> u32 \<Rightarrow> SctpAssociation \<times> u32" where
  "ack_slot covered i s =
     (let a = fst s; od = sa_outstanding a ! i in
      if \<not> od_inUse od \<or> od_acked od then s
      else if covered (od_tsn od)
      then (a\<lparr>sa_outstanding := (sa_outstanding a)[i := od\<lparr>od_acked := True, od_payload := None, od_inUse := False\<rparr>],
              sa_flightSize := sa_flightSize a - od_payloadLen od,
              sa_outstandingCount := sa_outstandingCount a - 1\<rparr>,
            snd s + od_payloadLen od)
      else s)"

definition ack_outstanding :: "(u32 \<Rightarrow> bool) \<Rightarrow> SctpAssociation \<times> u32 \<Rightarrow> SctpAssociation \<times> u32" where
  "ack_outstanding covered s = fold (ack_slot covered) [0..<SCTP_MAX_OUTSTANDING] s"

definition gap_covers :: "u32 \<Rightarrow> u16 \<Rightarrow> u16 \<Rightarrow> u32 \<Rightarrow> bool" where
  "gap_covers cumTsn gapStart gapEnd tsn = (TSN_GTE tsn (cumTsn + ucast gapStart) \<and> TSN_LTE tsn (cumTsn + ucast gapEnd))"

fun ack_gaps :: "bytes \<Rightarrow> u32 \<Rightarrow> nat \<Rightarrow> nat \<Rightarrow> SctpAssociation \<times> u32 \<Rightarrow> (SctpAssociation \<times> u32) option" where
  "ack_gaps v cumTsn gapOffset 0 s = Some s"
| "ack_gaps v cumTsn gapOffset (Suc n) s =
     do { gapStart \<leftarrow> getUnalignedInt16Be v gapOffset;
          gapEnd \<leftarrow> getUnalignedInt16Be v (gapOffset + 2);
          ack_gaps v cumTsn (gapOffset + 4) n (ack_outstanding (gap_covers cumTsn gapStart gapEnd) s) }"

definition grow_cwnd :: "u32 \<Rightarrow> SctpAssociation \<Rightarrow> SctpAssociation" where
  "grow_cwnd bytesNewlyAcked a =
     (if sa_cwnd a \<le> sa_ssthresh a
      then let increase = (if bytesNewlyAcked > ucast (sa_mtu a) then ucast (sa_mtu a) else bytesNewlyAcked)
           in a\<lparr>sa_cwnd := sa_cwnd a + increase\<rparr>
      else a\<lparr>sa_cwnd := sa_cwnd a + ucast (sa_mtu a)\<rparr>)"

definition sctpHandleSack :: "env \<Rightarrow> SctpAssociation \<Rightarrow> bytes \<Rightarrow> SctpAssociation option" where
  "sctpHandleSack e a v =
     (if length v < 12 then Some a
      else do {
        cumTsn \<leftarrow> getUnalignedInt32Be v 0;
        peerArwnd \<leftarrow> getUnalignedInt32Be v 4;
        numGaps \<leftarrow> getUnalignedInt16Be v 8;
        numDups \<leftarrow> getUnalignedInt16Be v 10;
        let s1 = ack_outstanding (\<lambda>tsn. TSN_LTE tsn cumTsn) (a\<lparr>sa_peerArwnd := peerArwnd\<rparr>, 0);
        (a2, bytesNewlyAcked) \<leftarrow>
          (if numGaps > 0 \<and> length v \<ge> 12 + unat numGaps * 4
           then ack_gaps v cumTsn 12 (unat numGaps) s1 else Some s1);
        let a3 = (if TSN_GT cumTsn (sa_cumulativeAckTsn a2) then a2\<lparr>sa_cumulativeAckTsn := cumTsn\<rparr> else a2);
        if bytesNewlyAcked > 0 then
          let a4 = grow_cwnd bytesNewlyAcked a3;
              a5 = (if sa_outstandingCount a4 = 0 then a4\<lparr>sa_t3RtxExpiry := 0\<rparr>
                    else a4\<lparr>sa_t3RtxExpiry := SCTP_NOW_MS e + ucast (sa_rtoMs a4)\<rparr>) in
          if sa_pendingQueueCount a5 > 0 then sctpDrainPendingQueue e a5 else Some a5
        else Some a3 })"

text \<open>The loop that drops the TSNs a FORWARD-TSN covers.\<close>

function prune_tsns :: "u32 \<Rightarrow> nat \<Rightarrow> u32 list \<Rightarrow> u32 list" where
  "prune_tsns newCumTsn i tsns =
     (if i < length tsns then
        if TSN_LTE (tsns ! i) newCumTsn then prune_tsns newCumTsn i (swap_remove tsns i)
        else prune_tsns newCumTsn (i + 1) tsns
      else tsns)"
  by pat_completeness auto
termination
  by (relation "measure (\<lambda>(c, i, tsns). length tsns - i)") auto

declare prune_tsns.simps [simp del]

definition sctpHandleForwardTsn :: "SctpAssociation \<Rightarrow> bytes \<Rightarrow> SctpAssociation option" where
  "sctpHandleForwardTsn a v =
     (if length v < 4 then Some a
      else do {
        newCumTsn \<leftarrow> getUnalignedInt32Be v 0;
        let a1 = (if TSN_GT newCumTsn (sa_peerCumulativeTsn a)
                  then let (cum, tsns) = advance_cumulative newCumTsn (prune_tsns newCumTsn 0 (sa_receivedTsns a))
                       in a\<lparr>sa_peerCumulativeTsn := cum, sa_receivedTsns := tsns\<rparr>
                  else a);
        sctpSendSack (a1\<lparr>sa_needSack := True\<rparr>) })"

section \<open>Shutdown\<close>

definition sctpHandleShutdown :: "SctpAssociation \<Rightarrow> SctpAssociation option" where
  "sctpHandleShutdown a =
     do { a' \<leftarrow> send_chunk a (sa_peerVerificationTag a) sctpWriteShutdownAckChunk;
          Some (a'\<lparr>sa_state := SCTP_ASSOC_SHUTDOWN_ACK_SENT\<rparr>) }"

definition sctpHandleShutdownAck :: "SctpAssociation \<Rightarrow> SctpAssociation option" where
  "sctpHandleShutdownAck a =
     do { a' \<leftarrow> send_chunk a (sa_peerVerificationTag a) sctpWriteShutdownCompleteChunk;
          Some (a'\<lparr>sa_state := SCTP_ASSOC_CLOSED\<rparr>) }"

definition sctpAssocShutdown :: "SctpAssociation \<Rightarrow> SctpAssociation option" where
  "sctpAssocShutdown a =
     (if sa_state a \<noteq> SCTP_ASSOC_ESTABLISHED then Some a
      else do { a' \<leftarrow> send_chunk a (sa_peerVerificationTag a)
                        (\<lambda>b p. sctpWriteShutdownChunk b p (if sa_peerCumulativeTsnValid a then sa_peerCumulativeTsn a else 0));
                Some (a'\<lparr>sa_state := SCTP_ASSOC_SHUTDOWN_SENT\<rparr>) })"

section \<open>Chunk dispatch\<close>

definition heartbeat_ack :: "SctpAssociation \<Rightarrow> bytes \<Rightarrow> SctpAssociation option" where
  "heartbeat_ack a v =
     do { (b, offset) \<leftarrow> sctpWriteCommonHeader (sa_outPacket a) 0 (sa_localPort a) (sa_remotePort a) (sa_peerVerificationTag a);
          if offset + SCTP_CHUNK_HEADER_SIZE + length v \<le> SCTP_MAX_PACKET_SIZE
          then do { b \<leftarrow> memwrite b offset [SCTP_CHUNK_HEARTBEAT_ACK];
                    b \<leftarrow> memwrite b (offset + 1) [0];
                    b \<leftarrow> putUnalignedInt16Be b (offset + 2) (word_of_nat (SCTP_CHUNK_HEADER_SIZE + length v));
                    b \<leftarrow> memwrite b (offset + SCTP_CHUNK_HEADER_SIZE) v;
                    sctpSendPacket (a\<lparr>sa_outPacket := b\<rparr>) (offset + SCTP_PAD4 (SCTP_CHUNK_HEADER_SIZE + length v)) }
          else Some (a\<lparr>sa_outPacket := b\<rparr>) }"

definition sctpChunkDispatch ::
  "env \<Rightarrow> byte \<Rightarrow> byte \<Rightarrow> bytes \<Rightarrow> SctpAssociation \<Rightarrow> (STATUS \<times> SctpAssociation) option" where
  "sctpChunkDispatch e chunkType flags v a =
     do { a' \<leftarrow>
            (if chunkType = SCTP_CHUNK_INIT then sctpHandleInit e a v
             else if chunkType = SCTP_CHUNK_INIT_ACK then sctpHandleInitAck e a v
             else if chunkType = SCTP_CHUNK_COOKIE_ECHO then sctpHandleCookieEcho e a v
             else if chunkType = SCTP_CHUNK_COOKIE_ACK then sctpHandleCookieAck e a
             else if chunkType = SCTP_CHUNK_DATA then sctpHandleData e a flags v
             else if chunkType = SCTP_CHUNK_SACK then sctpHandleSack e a v
             else if chunkType = SCTP_CHUNK_FORWARD_TSN then sctpHandleForwardTsn a v
             else if chunkType = SCTP_CHUNK_HEARTBEAT then heartbeat_ack a v
             else if chunkType = SCTP_CHUNK_SHUTDOWN then sctpHandleShutdown a
             else if chunkType = SCTP_CHUNK_SHUTDOWN_ACK then sctpHandleShutdownAck a
             else if chunkType = SCTP_CHUNK_SHUTDOWN_COMPLETE then Some (a\<lparr>sa_state := SCTP_ASSOC_CLOSED\<rparr>)
             else if chunkType = SCTP_CHUNK_ABORT then Some (a\<lparr>sa_state := SCTP_ASSOC_CLOSED\<rparr>)
             else Some a);
          Some (STATUS_SUCCESS, a') }"

section \<open>Public functions\<close>

definition sctpAssocInit :: "(nat \<Rightarrow> u64) \<Rightarrow> u16 \<Rightarrow> u16 \<Rightarrow> u16 \<Rightarrow> SctpAssociation" where
  "sctpAssocInit clk localPort remotePort mtu =
     (let tag = sctpGenerateTag (clk 0) (clk 1);
          emptyOut = \<lparr>od_tsn = 0, od_streamId = 0, od_ssn = 0, od_ppid = 0, od_payload = None, od_payloadLen = 0,
                      od_unordered = False, od_sentTime = 0, od_retransmitCount = 0, od_acked = False,
                      od_abandoned = False, od_maxRetransmits = 0, od_lifetimeMs = 0, od_creationTime = 0,
                      od_inUse = False\<rparr>;
          emptyQ = \<lparr>q_streamId = 0, q_ppid = 0, q_unordered = False, q_maxRetransmits = 0, q_lifetimeMs = 0,
                    q_payload = None, q_payloadLen = 0, q_inUse = False\<rparr> in
      \<lparr>sa_state = SCTP_ASSOC_CLOSED, sa_localPort = localPort, sa_remotePort = remotePort,
       sa_myVerificationTag = tag, sa_peerVerificationTag = 0, sa_nextTsn = tag, sa_cumulativeAckTsn = tag - 1,
       sa_outstanding = replicate SCTP_MAX_OUTSTANDING emptyOut, sa_outstandingCount = 0,
       sa_nextSsn = replicate SCTP_MAX_STREAMS 0, sa_peerCumulativeTsn = 0, sa_peerCumulativeTsnValid = False,
       sa_receivedTsns = [], sa_needSack = False, sa_cwnd = 3 * ucast mtu, sa_ssthresh = SCTP_DEFAULT_ARWND,
       sa_peerArwnd = SCTP_DEFAULT_ARWND, sa_flightSize = 0, sa_mtu = mtu, sa_t1InitExpiry = 0,
       sa_t3RtxExpiry = 0, sa_initRetransmitCount = 0, sa_rtoMs = SCTP_RTO_INITIAL_MS, sa_srttMs = 0,
       sa_outPacket = replicate SCTP_MAX_PACKET_SIZE 0, sa_cookieEchoData = replicate SCTP_COOKIE_SIZE 0,
       sa_cookieEchoLen = 0, sa_cookieEchoValid = False,
       sa_tieTag = push_bit 32 (ucast (sctpGenerateTag (clk 2) (clk 3))) OR ucast (sctpGenerateTag (clk 4) (clk 5)),
       sa_advancedPeerAckPoint = tag - 1, sa_reassemblyBuf = None, sa_reassemblyStreamId = 0,
       sa_reassemblySsn = 0, sa_reassemblyPpid = 0, sa_reassemblyInProgress = False,
       sa_sendQueue = replicate SCTP_MAX_QUEUED_MESSAGES emptyQ, sa_sendQueueCount = 0,
       sa_pendingQueue = replicate SCTP_MAX_PENDING_SENDS emptyQ, sa_pendingQueueCount = 0, sa_trace = []\<rparr>)"

definition send_init :: "SctpAssociation \<Rightarrow> SctpAssociation option" where
  "send_init a = send_chunk a 0
     (\<lambda>b p. sctpWriteInitChunk b p (sa_myVerificationTag a) SCTP_DEFAULT_ARWND
              (word_of_nat SCTP_MAX_STREAMS) (word_of_nat SCTP_MAX_STREAMS) (sa_nextTsn a))"

definition sctpAssocConnect :: "env \<Rightarrow> SctpAssociation \<Rightarrow> SctpAssociation option" where
  "sctpAssocConnect e a =
     do { a' \<leftarrow> send_init a;
          Some (a'\<lparr>sa_state := SCTP_ASSOC_COOKIE_WAIT, sa_t1InitExpiry := SCTP_NOW_MS e + ucast (sa_rtoMs a'),
                   sa_initRetransmitCount := 0\<rparr>) }"

definition sctpAssocHandlePacket :: "env \<Rightarrow> SctpAssociation \<Rightarrow> bytes \<Rightarrow> (STATUS \<times> SctpAssociation) option" where
  "sctpAssocHandlePacket e a buf =
     (if length buf < SCTP_COMMON_HEADER_SIZE then Some (STATUS_SUCCESS, a)
      else do { (status, pBuf) \<leftarrow> sctpValidatePacket (Some buf) (sa_myVerificationTag a);
                buf' \<leftarrow> pBuf;
                if status \<noteq> STATUS_SUCCESS then Some (STATUS_SUCCESS, a)
                else sctpParseChunks buf' (sctpChunkDispatch e) a })"

section \<open>Timers\<close>

definition double_rto :: "SctpAssociation \<Rightarrow> SctpAssociation" where
  "double_rto a =
     (let rto = sa_rtoMs a * 2 in a\<lparr>sa_rtoMs := (if rto > SCTP_RTO_MAX_MS then SCTP_RTO_MAX_MS else rto)\<rparr>)"

text \<open>The T1 part; the flag tells that \<open>sctpAssocCheckTimers\<close> goes on to T3.\<close>

definition check_t1 :: "SctpAssociation \<Rightarrow> u64 \<Rightarrow> (SctpAssociation \<times> bool) option" where
  "check_t1 a nowMs =
     (if sa_t1InitExpiry a \<noteq> 0 \<and> nowMs \<ge> sa_t1InitExpiry a then
        let a1 = a\<lparr>sa_initRetransmitCount := sa_initRetransmitCount a + 1\<rparr> in
        if sa_initRetransmitCount a1 > SCTP_MAX_INIT_RETRANS
        then Some (a1\<lparr>sa_state := SCTP_ASSOC_CLOSED, sa_t1InitExpiry := 0\<rparr>, False)
        else let a2 = double_rto a1 in
          do { a3 \<leftarrow> (if sa_state a2 = SCTP_ASSOC_COOKIE_WAIT then send_init a2
                      else if sa_state a2 = SCTP_ASSOC_COOKIE_ECHOED \<and> sa_cookieEchoValid a2 then send_cookie_echo a2
                      else Some a2);
               Some (a3\<lparr>sa_t1InitExpiry := nowMs + ucast (sa_rtoMs a3)\<rparr>, True) }
      else Some (a, True))"

definition should_abandon :: "u64 \<Rightarrow> SctpOutstandingData \<Rightarrow> bool" where
  "should_abandon nowMs od =
     (od_maxRetransmits od \<noteq> 0xFFFF \<and> od_retransmitCount od > ucast (od_maxRetransmits od) \<or>
      od_lifetimeMs od > 0 \<and> nowMs - od_creationTime od > od_lifetimeMs od)"

definition rtx_slot :: "u64 \<Rightarrow> nat \<Rightarrow> SctpAssociation \<Rightarrow> SctpAssociation option" where
  "rtx_slot nowMs i a =
     (let od0 = sa_outstanding a ! i in
      if \<not> od_inUse od0 \<or> od_acked od0 \<or> od_abandoned od0 then Some a
      else
        let od = od0\<lparr>od_retransmitCount := od_retransmitCount od0 + 1\<rparr>;
            a1 = a\<lparr>sa_outstanding := (sa_outstanding a)[i := od]\<rparr> in
        if should_abandon nowMs od
        then Some (a1\<lparr>sa_outstanding := (sa_outstanding a1)[i := od\<lparr>od_abandoned := True, od_payload := None, od_inUse := False\<rparr>],
                      sa_flightSize := sa_flightSize a1 - od_payloadLen od,
                      sa_advancedPeerAckPoint :=
                        (if TSN_GT (od_tsn od) (sa_advancedPeerAckPoint a1) then od_tsn od else sa_advancedPeerAckPoint a1),
                      sa_outstandingCount := sa_outstandingCount a1 - 1\<rparr>)
        else case od_payload od of
               None \<Rightarrow> Some a1
             | Some p \<Rightarrow>
                 do { data \<leftarrow> memread p 0 (unat (od_payloadLen od));
                      send_chunk a1 (sa_peerVerificationTag a1)
                        (\<lambda>b q. sctpWriteDataChunk b q (od_tsn od) (od_streamId od) (od_ssn od) (od_ppid od) (od_unordered od) data) })"

definition check_t3 :: "SctpAssociation \<Rightarrow> u64 \<Rightarrow> SctpAssociation option" where
  "check_t3 a nowMs =
     (if sa_t3RtxExpiry a \<noteq> 0 \<and> nowMs \<ge> sa_t3RtxExpiry a then
        let half = sa_cwnd a div 2; floor = 2 * ucast (sa_mtu a);
            a1 = double_rto (a\<lparr>sa_ssthresh := (if half > floor then half else floor), sa_cwnd := ucast (sa_mtu a)\<rparr>) in
        do { a2 \<leftarrow> for_each (rtx_slot nowMs) [0..<SCTP_MAX_OUTSTANDING] a1;
             a3 \<leftarrow> (if TSN_GT (sa_advancedPeerAckPoint a2) (sa_cumulativeAckTsn a2)
                    then send_chunk a2 (sa_peerVerificationTag a2)
                           (\<lambda>b p. sctpWriteForwardTsnChunk b p (sa_advancedPeerAckPoint a2))
                    else Some a2);
             Some (if sa_outstandingCount a3 > 0 then a3\<lparr>sa_t3RtxExpiry := nowMs + ucast (sa_rtoMs a3)\<rparr>
                   else a3\<lparr>sa_t3RtxExpiry := 0\<rparr>) }
      else Some a)"

definition sctpAssocCheckTimers :: "SctpAssociation \<Rightarrow> u64 \<Rightarrow> SctpAssociation option" where
  "sctpAssocCheckTimers a nowMs =
     do { (a1, continue) \<leftarrow> check_t1 a nowMs;
          if continue then check_t3 a1 nowMs else Some a1 }"

text \<open>Cleanup frees the payloads; a slot that is not in use keeps its pointer.\<close>

definition sctpAssocCleanup :: "SctpAssociation \<Rightarrow> SctpAssociation" where
  "sctpAssocCleanup a =
     a\<lparr>sa_outstanding := map (\<lambda>od. od\<lparr>od_payload := (if od_inUse od then None else od_payload od), od_inUse := False\<rparr>)
                            (sa_outstanding a),
       sa_outstandingCount := 0, sa_flightSize := 0,
       sa_pendingQueue := map (\<lambda>q. q\<lparr>q_payload := (if q_inUse q then None else q_payload q), q_inUse := False\<rparr>)
                            (sa_pendingQueue a),
       sa_pendingQueueCount := 0, sa_reassemblyBuf := None, sa_reassemblyInProgress := False\<rparr>"

end
