(* ===== verification/SctpInvariant.thy ===== *)
theory SctpInvariant
  imports SctpAssoc
begin

text \<open>
  The invariant of an SCTP association and its preservation by every operation of
  \<^verbatim>\<open>SctpAssoc.c\<close>, on any input. Because the operations return \<open>None\<close> on an access outside a
  buffer, preservation contains memory safety. The invariant covers the sizes of the tables,
  the content of their slots, the accounting of \<open>flightSize\<close>, \<open>outstandingCount\<close>,
  \<open>sendQueueCount\<close> and \<open>pendingQueueCount\<close>, the reassembly buffer, the range of the
  retransmission timeout and the packets handed to the outbound callback.
\<close>

section \<open>Packets that leave the association\<close>

definition finalized :: "bytes \<Rightarrow> bytes" where
  "finalized x = bsplice x 8 (le32 (sctpCrc32c (bsplice x 8 [0, 0, 0, 0])))"

lemma length_finalized [simp]: "12 \<le> length x \<Longrightarrow> length (finalized x) = length x"
  by (simp add: finalized_def)

lemma checksum_finalized [simp]: "12 \<le> length x \<Longrightarrow> checksum_ok (finalized x)"
  unfolding finalized_def by (rule finalized_checksum)

lemma sctpSendPacket_spec:
  assumes "12 \<le> n" and "n \<le> length (sa_outPacket a)"
  shows "\<exists>b. sctpSendPacket a n = Some (a\<lparr>sa_outPacket := b,
      sa_trace := sa_trace a @ [OutboundPacket (finalized (take n (sa_outPacket a)))]\<rparr>) \<and>
    length b = length (sa_outPacket a)"
  using assms
  by (auto simp: sctpSendPacket_def sctpFinalizePacket_bsplice mem_simps finalized_def take_bsplice)

lemma sctpWriteCommonHeader_spec:
  "12 \<le> length b \<Longrightarrow>
   sctpWriteCommonHeader b 0 s d v = Some (bsplice b 0 (common_layout s d v (be32 0)), 12)"
  by (simp add: sctpWriteCommonHeader_def common_layout_def put_defs mem_simps)

context chunk_writer
begin

lemma send_chunk_spec:
  assumes len: "length (sa_outPacket a) = 1200" and size: "size \<le> 1188"
  shows "\<exists>b pad. send_chunk a vtag wr = Some (a\<lparr>sa_outPacket := b,
      sa_trace := sa_trace a @ [OutboundPacket (finalized
        (common_layout (sa_localPort a) (sa_remotePort a) vtag (be32 0) @ layout @ pad))]\<rparr>) \<and>
    length b = 1200 \<and> length pad = size - length layout"
proof -
  let ?h = "common_layout (sa_localPort a) (sa_remotePort a) vtag (be32 0)"
  let ?b = "bsplice (sa_outPacket a) 0 (?h @ layout)"
  let ?pad = "take (size - length layout) (drop (12 + length layout) (sa_outPacket a))"
  have h: "length ?h = 12" by simp
  have w: "wr (bsplice (sa_outPacket a) 0 ?h) 12 = Some (?b, size)"
    using write_after_header [of ?h "sa_outPacket a"] len size h by simp
  have "12 + size - length (?h @ layout) = size - length layout" by simp
  then have pkt: "take (12 + size) ?b = ?h @ layout @ ?pad"
    using bsplice_0 [of "?h @ layout" "12 + size" "sa_outPacket a"] len size layout_fits by simp
  have lb: "length ?b = 1200" using len size layout_fits by simp
  obtain b where b: "sctpSendPacket (a\<lparr>sa_outPacket := ?b\<rparr>) (12 + size) =
      Some (a\<lparr>sa_outPacket := b, sa_trace := sa_trace a @ [OutboundPacket (finalized (?h @ layout @ ?pad))]\<rparr>)"
    "length b = 1200"
    using sctpSendPacket_spec [of "12 + size" "a\<lparr>sa_outPacket := ?b\<rparr>"] size lb pkt by auto
  have "send_chunk a vtag wr = sctpSendPacket (a\<lparr>sa_outPacket := ?b\<rparr>) (12 + size)"
    using len by (simp add: send_chunk_def sctpWriteCommonHeader_spec w)
  moreover have "length ?pad = size - length layout" using len size layout_fits by simp
  ultimately show ?thesis using b by metis
qed

end

interpretation w_fragment: chunk_writer
  "\<lambda>b p. write_fragment b p flags tsn streamId ssn ppid fragment"
  "chunk_layout SCTP_CHUNK_DATA flags (data_value tsn streamId ssn ppid fragment)"
  "SCTP_PAD4 (16 + length fragment)" for flags tsn streamId ssn ppid fragment
  using SCTP_PAD4_bounds(1) [of "16 + length fragment"]
  by unfold_locales
    (simp_all add: write_fragment_def wire_defs put_defs mem_simps)

section \<open>The invariant\<close>

definition od_ok :: "SctpOutstandingData \<Rightarrow> bool" where
  "od_ok od = (od_inUse od \<longrightarrow> \<not> od_acked od \<and> \<not> od_abandoned od \<and> unat (od_payloadLen od) \<le> 1172 \<and>
     (\<forall>p. od_payload od = Some p \<longrightarrow> length p = unat (od_payloadLen od)))"

definition in_flight :: "SctpOutstandingData \<Rightarrow> u32" where
  "in_flight od = (if od_inUse od then od_payloadLen od else 0)"

definition out_ok :: "SctpOutstandingData list \<Rightarrow> u32 \<Rightarrow> u32 \<Rightarrow> bool" where
  "out_ok ods n f = (length ods = SCTP_MAX_OUTSTANDING \<and> (\<forall>od \<in> set ods. od_ok od) \<and>
     n = (\<Sum>od\<leftarrow>ods. of_bool (od_inUse od)) \<and> f = (\<Sum>od\<leftarrow>ods. in_flight od))"

definition q_ok :: "SctpQueuedMessage \<Rightarrow> bool" where
  "q_ok q = (q_inUse q \<longrightarrow> (\<exists>p. q_payload q = Some p \<and> length p = unat (q_payloadLen q)))"

definition queue_ok :: "nat \<Rightarrow> SctpQueuedMessage list \<Rightarrow> u32 \<Rightarrow> bool" where
  "queue_ok cap qs n = (length qs = cap \<and> (\<forall>q \<in> set qs. q_ok q) \<and> n = (\<Sum>q\<leftarrow>qs. of_bool (q_inUse q)))"

definition event_ok :: "sctp_event \<Rightarrow> bool" where
  "event_ok ev = (case ev of
     OutboundPacket p \<Rightarrow> 16 \<le> length p \<and> length p \<le> SCTP_MAX_PACKET_SIZE \<and> length p mod 4 = 0 \<and> checksum_ok p
   | InboundMessage streamId ppid data \<Rightarrow> length data \<le> SCTP_MAX_REASSEMBLY_SIZE)"

definition assoc_wf :: "SctpAssociation \<Rightarrow> bool" where
  "assoc_wf a =
     (length (sa_outPacket a) = SCTP_MAX_PACKET_SIZE \<and> 28 < sa_mtu a \<and> sa_mtu a \<le> 1200 \<and>
      length (sa_nextSsn a) = SCTP_MAX_STREAMS \<and>
      length (sa_receivedTsns a) \<le> SCTP_MAX_RECEIVED \<and>
      length (sa_cookieEchoData a) = SCTP_COOKIE_SIZE \<and> sa_cookieEchoLen a \<le> SCTP_COOKIE_SIZE \<and>
      SCTP_RTO_INITIAL_MS \<le> sa_rtoMs a \<and> sa_rtoMs a \<le> SCTP_RTO_MAX_MS \<and>
      out_ok (sa_outstanding a) (sa_outstandingCount a) (sa_flightSize a) \<and>
      queue_ok SCTP_MAX_QUEUED_MESSAGES (sa_sendQueue a) (sa_sendQueueCount a) \<and>
      queue_ok SCTP_MAX_PENDING_SENDS (sa_pendingQueue a) (sa_pendingQueueCount a) \<and>
      (sa_reassemblyInProgress a \<longrightarrow> sa_reassemblyBuf a \<noteq> None) \<and>
      (\<forall>buf. sa_reassemblyBuf a = Some buf \<longrightarrow> length buf \<le> SCTP_MAX_REASSEMBLY_SIZE) \<and>
      (\<forall>ev \<in> set (sa_trace a). event_ok ev))"

section \<open>Tables\<close>

lemma out_ok_fill:
  assumes "out_ok ods n f" and "i < length ods" and "\<not> od_inUse (ods ! i)" and "od_ok y" and "od_inUse y"
    and "od_payloadLen y = len"
  shows "out_ok (ods[i := y]) (n + 1) (f + len)"
  using assms set_update_subset_insert [of ods i y]
  by (auto simp: out_ok_def sum_list_map_update in_flight_def)

lemma out_ok_release:
  assumes "out_ok ods n f" and "i < length ods" and "od_inUse (ods ! i)" and "\<not> od_inUse y"
  shows "out_ok (ods[i := y]) (n - 1) (f - od_payloadLen (ods ! i))"
  using assms set_update_subset_insert [of ods i y]
  by (auto simp: out_ok_def sum_list_map_update in_flight_def od_ok_def)

lemma out_ok_same:
  assumes "out_ok ods n f" and "i < length ods" and "od_inUse (ods ! i)" and "od_inUse y" and "od_ok y"
    and "od_payloadLen y = od_payloadLen (ods ! i)"
  shows "out_ok (ods[i := y]) n f"
  using assms set_update_subset_insert [of ods i y]
  by (auto simp: out_ok_def sum_list_map_update in_flight_def)

lemma queue_ok_fill:
  assumes "queue_ok cap qs n" and "i < cap" and "\<not> q_inUse (qs ! i)" and "q_ok y" and "q_inUse y"
  shows "queue_ok cap (qs[i := y]) (n + 1)"
  using assms set_update_subset_insert [of qs i y]
  by (auto simp: queue_ok_def sum_list_map_update)

lemma queue_ok_release:
  assumes "queue_ok cap qs n" and "i < cap" and "q_inUse (qs ! i)" and "\<not> q_inUse y"
  shows "queue_ok cap (qs[i := y]) (n - 1)"
  using assms set_update_subset_insert [of qs i y]
  by (auto simp: queue_ok_def sum_list_map_update q_ok_def)

lemma queue_ok_unused:
  assumes "queue_ok cap qs n" and "i < cap" and "\<not> q_inUse (qs ! i)" and "\<not> q_inUse y"
  shows "queue_ok cap (qs[i := y]) n"
  using assms set_update_subset_insert [of qs i y]
  by (auto simp: queue_ok_def sum_list_map_update q_ok_def)

lemma out_ok_nth: "out_ok ods n f \<Longrightarrow> i < SCTP_MAX_OUTSTANDING \<Longrightarrow> od_ok (ods ! i)"
  by (auto simp: out_ok_def)

lemma queue_ok_nth: "queue_ok cap qs n \<Longrightarrow> i < cap \<Longrightarrow> q_ok (qs ! i)"
  by (auto simp: queue_ok_def)

lemma queue_ok_slot:
  assumes "queue_ok cap qs n" and "first_index (\<lambda>q. \<not> q_inUse q) qs < cap"
  shows "\<not> q_inUse (qs ! first_index (\<lambda>q. \<not> q_inUse q) qs)"
  using assms first_index_nth [of "\<lambda>q. \<not> q_inUse q" qs] by (auto simp: queue_ok_def)

section \<open>Preservation: sending\<close>

text \<open>The fields that the invariant does not constrain.\<close>

lemma assoc_wf_frame [simp]:
  "assoc_wf (a\<lparr>sa_state := st\<rparr>) = assoc_wf a"
  "assoc_wf (a\<lparr>sa_peerVerificationTag := u\<rparr>) = assoc_wf a"
  "assoc_wf (a\<lparr>sa_nextTsn := u\<rparr>) = assoc_wf a"
  "assoc_wf (a\<lparr>sa_cumulativeAckTsn := u\<rparr>) = assoc_wf a"
  "assoc_wf (a\<lparr>sa_peerCumulativeTsn := u\<rparr>) = assoc_wf a"
  "assoc_wf (a\<lparr>sa_peerCumulativeTsnValid := v\<rparr>) = assoc_wf a"
  "assoc_wf (a\<lparr>sa_needSack := v\<rparr>) = assoc_wf a"
  "assoc_wf (a\<lparr>sa_cwnd := u\<rparr>) = assoc_wf a"
  "assoc_wf (a\<lparr>sa_ssthresh := u\<rparr>) = assoc_wf a"
  "assoc_wf (a\<lparr>sa_peerArwnd := u\<rparr>) = assoc_wf a"
  "assoc_wf (a\<lparr>sa_t1InitExpiry := t\<rparr>) = assoc_wf a"
  "assoc_wf (a\<lparr>sa_t3RtxExpiry := t\<rparr>) = assoc_wf a"
  "assoc_wf (a\<lparr>sa_initRetransmitCount := u\<rparr>) = assoc_wf a"
  "assoc_wf (a\<lparr>sa_cookieEchoValid := v\<rparr>) = assoc_wf a"
  "assoc_wf (a\<lparr>sa_advancedPeerAckPoint := u\<rparr>) = assoc_wf a"
  "assoc_wf (a\<lparr>sa_reassemblyStreamId := w\<rparr>) = assoc_wf a"
  "assoc_wf (a\<lparr>sa_reassemblySsn := w\<rparr>) = assoc_wf a"
  "assoc_wf (a\<lparr>sa_reassemblyPpid := u\<rparr>) = assoc_wf a"
  by (simp_all add: assoc_wf_def)

lemma assoc_wf_ssn [simp]:
  "length xs = length (sa_nextSsn a) \<Longrightarrow> assoc_wf (a\<lparr>sa_nextSsn := xs\<rparr>) = assoc_wf a"
  by (simp add: assoc_wf_def)

text \<open>The result of handing one packet to the outbound callback.\<close>

definition sends :: "SctpAssociation \<Rightarrow> SctpAssociation option \<Rightarrow> bool" where
  "sends a r = (\<exists>b p. r = Some (a\<lparr>sa_outPacket := b, sa_trace := sa_trace a @ [OutboundPacket p]\<rparr>) \<and>
     length b = SCTP_MAX_PACKET_SIZE \<and> event_ok (OutboundPacket p))"

lemma sends_wf:
  assumes "sends a r" and "assoc_wf a"
  shows "\<exists>b p. r = Some (a\<lparr>sa_outPacket := b, sa_trace := sa_trace a @ [OutboundPacket p]\<rparr>) \<and>
    assoc_wf (a\<lparr>sa_outPacket := b, sa_trace := sa_trace a @ [OutboundPacket p]\<rparr>)"
  using assms unfolding sends_def by (elim exE) (auto simp: assoc_wf_def)

lemma sendsE:
  assumes "sends a r" and "assoc_wf a"
  obtains a' where "r = Some a'" and "assoc_wf a'" and "sa_outstanding a' = sa_outstanding a"
    and "sa_sendQueue a' = sa_sendQueue a" and "sa_sendQueueCount a' = sa_sendQueueCount a"
    and "sa_state a' = sa_state a"
  using sends_wf [OF assms] by (elim exE conjE) simp

context chunk_writer
begin

lemma send_chunk_sends:
  assumes "assoc_wf a" and "size \<le> 1188" and "size mod 4 = 0" and "4 \<le> size"
  shows "sends a (send_chunk a vtag wr)"
proof -
  have "length (sa_outPacket a) = 1200" using assms(1) by (simp add: assoc_wf_def)
  from send_chunk_spec [OF this assms(2), of vtag] obtain b pad where
    s: "send_chunk a vtag wr = Some (a\<lparr>sa_outPacket := b, sa_trace := sa_trace a @ [OutboundPacket (finalized
        (common_layout (sa_localPort a) (sa_remotePort a) vtag (be32 0) @ layout @ pad))]\<rparr>)"
    and l: "length b = 1200" "length pad = size - length layout" by blast
  have "length layout + length pad = size" using l layout_fits by simp
  then have "event_ok (OutboundPacket (finalized
        (common_layout (sa_localPort a) (sa_remotePort a) vtag (be32 0) @ layout @ pad)))"
    using assms by (simp add: event_ok_def) presburger
  with s l show ?thesis unfolding sends_def by blast
qed

end

lemma data_chunk_size:
  "n \<le> 1172 \<Longrightarrow> SCTP_PAD4 (16 + n) \<le> 1188 \<and> SCTP_PAD4 (16 + n) mod 4 = 0 \<and> 4 \<le> SCTP_PAD4 (16 + n)"
  using SCTP_PAD4_le [of "16 + n" 1188] SCTP_PAD4_bounds [of "16 + n"] by simp

lemma send_data_sends:
  "assoc_wf a \<Longrightarrow> length payload \<le> 1172 \<Longrightarrow>
   sends a (send_chunk a vtag (\<lambda>b p. sctpWriteDataChunk b p tsn streamId ssn ppid unordered payload))"
  using data_chunk_size by (intro w_data.send_chunk_sends) auto

lemma send_fragment_sends:
  "assoc_wf a \<Longrightarrow> length payload \<le> 1172 \<Longrightarrow>
   sends a (send_chunk a vtag (\<lambda>b p. write_fragment b p flags tsn streamId ssn ppid payload))"
  using data_chunk_size by (intro w_fragment.send_chunk_sends) auto

lemma build_gaps_length: "length gaps \<le> SCTP_MAX_GAP_BLOCKS \<Longrightarrow> length (build_gaps cum tsns gaps) \<le> SCTP_MAX_GAP_BLOCKS"
  by (induction cum tsns gaps rule: build_gaps.induct) (auto simp: Let_def)

lemma send_sack_wf:
  assumes "assoc_wf a"
  shows "\<exists>a'. sctpSendSack a = Some a' \<and> assoc_wf a'"
proof (cases "sa_peerCumulativeTsnValid a")
  case True
  let ?gaps = "build_gaps (sa_peerCumulativeTsn a) (sort_tsns (take SCTP_MAX_RECEIVED (sa_receivedTsns a))) []"
  have "length ?gaps \<le> 128" using build_gaps_length [of "[]"] by (simp add: SCTP_MAX_GAP_BLOCKS_def)
  then have "sends a (send_chunk a (sa_peerVerificationTag a)
      (\<lambda>b p. sctpWriteSackChunk b p (sa_peerCumulativeTsn a) SCTP_DEFAULT_ARWND ?gaps))"
    using assms by (intro w_sack.send_chunk_sends) (auto simp: mod_simps)
  from sendsE [OF this assms] obtain a' where
    "send_chunk a (sa_peerVerificationTag a) (\<lambda>b p. sctpWriteSackChunk b p (sa_peerCumulativeTsn a) SCTP_DEFAULT_ARWND ?gaps) = Some a'"
    "assoc_wf a'" by blast
  then show ?thesis using True by (simp add: sctpSendSack_def)
qed (simp add: sctpSendSack_def assms)

lemma unat_of_nat_small: "n < 2 ^ 32 \<Longrightarrow> unat (word_of_nat n :: u32) = n"
  by (simp add: unat_of_nat take_bit_nat_eq_self)

lemma queue_before_established_wf:
  assumes "assoc_wf a" and "length (m_payload m) < 2 ^ 32"
  shows "assoc_wf (queue_before_established a m)"
proof -
  let ?i = "first_index (\<lambda>q. \<not> q_inUse q) (sa_sendQueue a)"
  have q: "queue_ok SCTP_MAX_QUEUED_MESSAGES (sa_sendQueue a) (sa_sendQueueCount a)"
    using assms by (simp add: assoc_wf_def)
  show ?thesis
  proof (cases "?i < SCTP_MAX_QUEUED_MESSAGES")
    case True
    note fill = queue_ok_fill [OF q True queue_ok_slot [OF q True]]
    show ?thesis
      using assms True fill
      by (simp add: queue_before_established_def Let_def assoc_wf_def q_ok_def m_payloadLen_def unat_of_nat_small)
  qed (simp add: queue_before_established_def Let_def assms)
qed

lemma queue_pending_wf:
  assumes "assoc_wf a" and "length (m_payload m) < 2 ^ 32"
  shows "assoc_wf (queue_pending e a m)"
proof -
  let ?i = "first_index (\<lambda>q. \<not> q_inUse q) (sa_pendingQueue a)"
  have q: "queue_ok SCTP_MAX_PENDING_SENDS (sa_pendingQueue a) (sa_pendingQueueCount a)"
    using assms by (simp add: assoc_wf_def)
  show ?thesis
  proof (cases "?i < SCTP_MAX_PENDING_SENDS")
    case True
    note slot = queue_ok_slot [OF q True]
    show ?thesis
      using assms True slot queue_ok_fill [OF q True slot] queue_ok_unused [OF q True slot]
      by (simp add: queue_pending_def Let_def assoc_wf_def q_ok_def m_payloadLen_def unat_of_nat_small)
  qed (simp add: queue_pending_def Let_def assms)
qed

lemma assoc_wf_out:
  "assoc_wf a \<Longrightarrow> out_ok ods n f \<Longrightarrow> assoc_wf (a\<lparr>sa_outstanding := ods, sa_outstandingCount := n, sa_flightSize := f\<rparr>)"
  by (simp add: assoc_wf_def)

lemma free_slot_unused:
  assumes "assoc_wf a" and "free_slot a < SCTP_MAX_OUTSTANDING"
  shows "free_slot a < length (sa_outstanding a)" "\<not> od_inUse (sa_outstanding a ! free_slot a)"
  using assms first_index_nth [of "\<lambda>od. \<not> od_inUse od" "sa_outstanding a"]
  by (auto simp: assoc_wf_def out_ok_def free_slot_def)

lemma store_outstanding_wf:
  assumes wf: "assoc_wf a" and i: "i < length (sa_outstanding a)" "\<not> od_inUse (sa_outstanding a ! i)"
    and data: "length data \<le> 1172"
  shows "assoc_wf (store_outstanding e a i tsn ssn m data)"
proof -
  have out: "out_ok (sa_outstanding a) (sa_outstandingCount a) (sa_flightSize a)" using wf by (simp add: assoc_wf_def)
  have u: "unat (word_of_nat (length data) :: u32) = length data" using data by (intro unat_of_nat_small) simp
  show ?thesis
    unfolding store_outstanding_def
    by (rule assoc_wf_out [OF wf], rule out_ok_fill [OF out i]) (simp_all add: od_ok_def u data)
qed

text \<open>What \<open>sctpAssocSend\<close> leaves alone once the association is established.\<close>

definition send_frame :: "SctpAssociation \<Rightarrow> SctpAssociation \<Rightarrow> bool" where
  "send_frame a a' = (assoc_wf a' \<and> sa_sendQueue a' = sa_sendQueue a \<and>
     sa_sendQueueCount a' = sa_sendQueueCount a \<and> sa_state a' = sa_state a)"

lemma send_frame_trans: "send_frame a b \<Longrightarrow> send_frame b c \<Longrightarrow> send_frame a c"
  by (simp add: send_frame_def)

lemma store_outstanding_frame:
  "assoc_wf (store_outstanding e a i tsn ssn m data) \<Longrightarrow> send_frame a (store_outstanding e a i tsn ssn m data)"
  by (simp add: send_frame_def store_outstanding_def)

lemma sends_frame:
  assumes "sends a r" and "assoc_wf a"
  obtains a' where "r = Some a'" and "send_frame a a'"
  using sendsE [OF assms] by (auto simp: send_frame_def)

lemma fragment_arith:
  fixes remaining off mx :: u32
  assumes "unat off + unat remaining = n" and "n < 2 ^ 32"
  defines "fl \<equiv> if remaining > mx then mx else remaining"
  shows "unat off + unat fl \<le> n" and "unat (off + fl) + unat (remaining - fl) = n" and "unat fl \<le> unat mx"
proof -
  have le: "fl \<le> remaining" and mx: "fl \<le> mx" by (auto simp: fl_def)
  have nat_le: "unat fl \<le> unat remaining" using le by (simp add: word_le_nat_alt)
  show sum: "unat off + unat fl \<le> n" using nat_le assms(1) by simp
  have "unat (off + fl) = unat off + unat fl"
    using sum assms(2) unat_add_lem [of off fl] by simp
  moreover have "unat (remaining - fl) = unat remaining - unat fl" by (rule unat_sub [OF le])
  ultimately show "unat (off + fl) + unat (remaining - fl) = n" using nat_le assms(1) by simp
  show "unat fl \<le> unat mx" using mx by (simp add: word_le_nat_alt)
qed

lemma send_fragments_frame:
  assumes "assoc_wf a" and "unat mx \<le> 1172" and "unat off + unat remaining = length (m_payload m)"
    and "length (m_payload m) < 2 ^ 32"
  shows "\<exists>a' complete. send_fragments e m mx ssn remaining off isFirst a = Some (a', complete) \<and> send_frame a a'"
  using assms
proof (induction e m mx ssn remaining off isFirst a rule: send_fragments.induct)
  case (1 e m mx ssn remaining off isFirst a)
  let ?fl = "if remaining > mx then mx else remaining"
  let ?a1 = "a\<lparr>sa_nextTsn := sa_nextTsn a + 1\<rparr>"
  let ?i = "free_slot ?a1"
  note arith = fragment_arith [OF "1.prems"(3) "1.prems"(4), of mx]
  have wf1: "assoc_wf ?a1" and len: "length (sa_outstanding ?a1) = SCTP_MAX_OUTSTANDING"
    using "1.prems"(1) by (auto simp: assoc_wf_def out_ok_def)
  show ?case
  proof (cases "remaining > 0 \<and> ?i < length (sa_outstanding ?a1)")
    case False
    then show ?thesis using "1.prems"(1)
      by (auto simp: send_fragments.simps [of e m mx ssn remaining off isFirst a] Let_def send_frame_def)
  next
    case True
    let ?fragment = "take (unat ?fl) (drop (unat off) (m_payload m))"
    let ?flags = "fragment_flags isFirst (remaining - ?fl = 0) (m_unordered m)"
    let ?a2 = "store_outstanding e ?a1 ?i (sa_nextTsn a) ssn m ?fragment"
    have rd: "memread (m_payload m) (unat off) (unat ?fl) = Some ?fragment"
      using arith(1) by (simp add: mem_simps)
    have lf: "length ?fragment \<le> 1172" using arith(3) "1.prems"(2) by simp
    have i: "\<not> od_inUse (sa_outstanding ?a1 ! ?i)" using free_slot_unused [OF wf1] True len by auto
    have wf2: "assoc_wf ?a2" using True i lf by (intro store_outstanding_wf wf1) auto
    then have fr2: "send_frame a ?a2" by (simp add: send_frame_def store_outstanding_def)
    obtain a3 where a3: "send_chunk ?a2 (sa_peerVerificationTag a)
        (\<lambda>b p. write_fragment b p ?flags (sa_nextTsn a) (m_streamId m) ssn (m_ppid m) ?fragment) = Some a3"
      and fr3: "send_frame ?a2 a3"
      using sends_frame [OF send_fragment_sends [OF wf2 lf] wf2] by metis
    have nf: "\<not> length (sa_outstanding ?a1) \<le> ?i" using True by simp
    from fr3 have "assoc_wf a3" by (simp add: send_frame_def)
    then obtain a' complete where
      "send_fragments e m mx ssn (remaining - ?fl) (off + ?fl) False a3 = Some (a', complete)" "send_frame a3 a'"
      using "1.IH" [OF _ refl refl refl refl refl nf rd a3 _ "1.prems"(2) arith(2) "1.prems"(4)] True by blast
    with fr2 fr3 show ?thesis
      using True rd a3
      by (simp add: send_fragments.simps [of e m mx ssn remaining off isFirst a] Let_def)
         (meson send_frame_trans)
  qed
qed

lemma queue_pending_frame [simp]:
  "sa_sendQueue (queue_pending e a m) = sa_sendQueue a"
  "sa_sendQueueCount (queue_pending e a m) = sa_sendQueueCount a"
  "sa_state (queue_pending e a m) = sa_state a"
  by (simp_all add: queue_pending_def Let_def)

lemma start_t3_frame [simp]: "send_frame a (start_t3 e a') = send_frame a a'"
  by (simp add: start_t3_def send_frame_def)

lemma max_data_payload:
  fixes mtu :: u16
  assumes "28 < mtu" and "mtu \<le> 1200"
  shows "unat (ucast mtu - 12 - 16 :: u32) = unat mtu - 28"
proof -
  have m: "unat (ucast mtu :: u32) = unat mtu" by transfer simp
  have "unat (28 :: u16) < unat mtu" using assms(1) by (simp only: word_less_nat_alt)
  then have gt: "28 < unat mtu" by simp
  then have le: "(28 :: u32) \<le> ucast mtu" by (simp add: word_le_nat_alt m)
  have "ucast mtu - 12 - 16 = (ucast mtu - 28 :: u32)" by simp
  then show ?thesis using unat_sub [OF le] m by simp
qed

lemma unat_mtu_le: "assoc_wf a \<Longrightarrow> 28 < unat (sa_mtu a) \<and> unat (sa_mtu a) \<le> 1200"
  unfolding assoc_wf_def by (simp only: word_less_nat_alt word_le_nat_alt) simp

lemma sctpAssocSend_established:
  assumes wf: "assoc_wf a" and est: "sa_state a = SCTP_ASSOC_ESTABLISHED" and small: "length (m_payload m) < 2 ^ 32"
  shows "\<exists>a'. sctpAssocSend e a m = Some a' \<and> send_frame a a'"
proof (cases "sa_flightSize a \<ge> sa_cwnd a \<or> sa_flightSize a \<ge> sa_peerArwnd a")
  case True
  then show ?thesis using est queue_pending_wf [OF wf small]
    by (auto simp: sctpAssocSend_def send_frame_def)
next
  case False
  let ?ordered = "\<not> m_unordered m \<and> unat (m_streamId m) < SCTP_MAX_STREAMS"
  let ?ssn = "if ?ordered then sa_nextSsn a ! unat (m_streamId m) else 0"
  let ?a1 = "if ?ordered then a\<lparr>sa_nextSsn := (sa_nextSsn a)[unat (m_streamId m) := ?ssn + 1]\<rparr> else a"
  let ?mx = "ucast (sa_mtu a) - 12 - 16 :: u32"
  have wf1: "assoc_wf ?a1" and fr1: "send_frame a ?a1" using wf by (auto simp: send_frame_def)
  have mx: "unat ?mx \<le> 1172"
    using wf max_data_payload [of "sa_mtu a"] unat_mtu_le [OF wf] by (auto simp: assoc_wf_def)
  have len: "unat (m_payloadLen m) = length (m_payload m)" using small by (simp add: m_payloadLen_def unat_of_nat_small)
  show ?thesis
  proof (cases "m_payloadLen m \<le> ?mx")
    case single: True
    show ?thesis
    proof (cases "free_slot ?a1 \<ge> SCTP_MAX_OUTSTANDING")
      case full: True
      let ?a2 = "if ?ordered then ?a1\<lparr>sa_nextSsn := (sa_nextSsn ?a1)[unat (m_streamId m) := sa_nextSsn ?a1 ! unat (m_streamId m) - 1]\<rparr> else ?a1"
      have "assoc_wf ?a2" using wf by simp
      then have "send_frame a (queue_pending e ?a2 m)" using queue_pending_wf small by (simp add: send_frame_def)
      moreover have "sctpAssocSend e a m = Some (queue_pending e ?a2 m)"
        unfolding sctpAssocSend_def Let_def using est False single full by simp
      ultimately show ?thesis by blast
    next
      case free: False
      let ?a2 = "store_outstanding e (?a1\<lparr>sa_nextTsn := sa_nextTsn ?a1 + 1\<rparr>) (free_slot ?a1) (sa_nextTsn ?a1) ?ssn m (m_payload m)"
      have short: "length (m_payload m) \<le> 1172" using single mx len by (simp add: word_le_nat_alt)
      have wf2: "assoc_wf ?a2"
        using free free_slot_unused [OF wf1] wf1 short by (intro store_outstanding_wf) auto
      then have fr2: "send_frame a ?a2" using fr1 by (simp add: send_frame_def store_outstanding_def)
      obtain a3 where a3: "send_chunk ?a2 (sa_peerVerificationTag ?a2)
           (\<lambda>b p. sctpWriteDataChunk b p (sa_nextTsn ?a1) (m_streamId m) ?ssn (m_ppid m) (m_unordered m) (m_payload m)) = Some a3"
        and fr3: "send_frame ?a2 a3"
        using sends_frame [OF send_data_sends [OF wf2 short] wf2] by metis
      have "sctpAssocSend e a m = Some (start_t3 e a3)"
        unfolding sctpAssocSend_def Let_def using est False single free a3 by simp
      then show ?thesis using send_frame_trans [OF fr2 fr3] by simp
    qed
  next
    case many: False
    obtain a2 c where a2: "send_fragments e m ?mx ?ssn (m_payloadLen m) 0 True ?a1 = Some (a2, c)" and fr2: "send_frame ?a1 a2"
      using send_fragments_frame [OF wf1 mx _ small, of 0 "m_payloadLen m" e ?ssn True] len by auto
    have "sctpAssocSend e a m = Some (if c then start_t3 e a2 else a2)"
      unfolding sctpAssocSend_def Let_def using est False many a2 by simp
    then show ?thesis using send_frame_trans [OF fr1 fr2] by simp
  qed
qed

lemma sctpAssocSend_wf:
  assumes "assoc_wf a" and "length (m_payload m) < 2 ^ 32"
  shows "\<exists>a'. sctpAssocSend e a m = Some a' \<and> assoc_wf a'"
proof (cases "sa_state a = SCTP_ASSOC_ESTABLISHED")
  case True
  from sctpAssocSend_established [OF assms(1) True assms(2)] show ?thesis by (auto simp: send_frame_def)
next
  case False
  then show ?thesis using queue_before_established_wf [OF assms] by (simp add: sctpAssocSend_def)
qed

section \<open>Preservation: the other operations\<close>

text \<open>An operation is safe when it does not fault and its result satisfies the invariant.\<close>

definition safe :: "SctpAssociation option \<Rightarrow> bool" where
  "safe r = (\<exists>a'. r = Some a' \<and> assoc_wf a')"

named_theorems safe_intros \<open>operations that are safe on well-formed associations\<close>

lemma safe_Some [simp]: "safe (Some a) = assoc_wf a"
  by (simp add: safe_def)

lemma safe_bind: "safe r \<Longrightarrow> (\<And>a'. r = Some a' \<Longrightarrow> assoc_wf a' \<Longrightarrow> safe (f a')) \<Longrightarrow> safe (Option.bind r f)"
  by (auto simp: safe_def)

lemma safe_sends: "sends a r \<Longrightarrow> assoc_wf a \<Longrightarrow> safe r"
  by (rule sendsE) (auto simp: safe_def)

lemma safe_for_each:
  assumes "\<And>i a. i \<in> set is \<Longrightarrow> assoc_wf a \<Longrightarrow> safe (f i a)" and "assoc_wf a"
  shows "safe (for_each f is a)"
  using for_each_inv [of "is" assoc_wf f a] assms by (auto simp: safe_def)

lemma safe_send [safe_intros]: "assoc_wf a \<Longrightarrow> length (m_payload m) < 2 ^ 32 \<Longrightarrow> safe (sctpAssocSend e a m)"
  using sctpAssocSend_wf by (simp add: safe_def)

lemma safe_sack [safe_intros]: "assoc_wf a \<Longrightarrow> safe (sctpSendSack a)"
  using send_sack_wf by (simp add: safe_def)

lemma slot_data_ok:
  assumes "q_ok q" and "q_inUse q"
  obtains data where "slot_data q = Some data" and "length data < 2 ^ 32"
proof -
  have "unat (q_payloadLen q) < 2 ^ LENGTH(32)" by (rule unsigned_less)
  with assms that show thesis by (auto simp: q_ok_def slot_data_def mem_simps)
qed

lemma m_payload_queued [simp]: "m_payload (queued_message q data) = data"
  by (simp add: queued_message_def)

lemma flush_slot_wf:
  assumes wf: "assoc_wf a" and est: "sa_state a = SCTP_ASSOC_ESTABLISHED" and i: "i < SCTP_MAX_QUEUED_MESSAGES"
  shows "\<exists>a'. flush_slot e i a = Some a' \<and> assoc_wf a' \<and> sa_state a' = SCTP_ASSOC_ESTABLISHED"
proof (cases "q_inUse (sa_sendQueue a ! i)")
  case used: True
  have q: "queue_ok SCTP_MAX_QUEUED_MESSAGES (sa_sendQueue a) (sa_sendQueueCount a)"
    using wf by (simp add: assoc_wf_def)
  obtain data where data: "slot_data (sa_sendQueue a ! i) = Some data" "length data < 2 ^ 32"
    using slot_data_ok queue_ok_nth [OF q i] used by blast
  obtain a' where a': "sctpAssocSend e a (queued_message (sa_sendQueue a ! i) data) = Some a'" "send_frame a a'"
    using sctpAssocSend_established [OF wf est, of "queued_message (sa_sendQueue a ! i) data" e] data by auto
  note rel = queue_ok_release [OF q i used, of "(sa_sendQueue a ! i)\<lparr>q_inUse := False\<rparr>"]
  show ?thesis
    using used data a' est rel by (simp add: flush_slot_def send_frame_def assoc_wf_def)
qed (simp add: flush_slot_def wf est)

lemma safe_flush [safe_intros]:
  assumes "assoc_wf a" and "sa_state a = SCTP_ASSOC_ESTABLISHED"
  shows "safe (sctpFlushSendQueue e a)"
  using for_each_inv [of "[0..<SCTP_MAX_QUEUED_MESSAGES]"
      "\<lambda>a. assoc_wf a \<and> sa_state a = SCTP_ASSOC_ESTABLISHED" "flush_slot e" a] flush_slot_wf assms
  unfolding sctpFlushSendQueue_def safe_def by auto

lemma safe_drain_from:
  assumes "assoc_wf a" and "\<forall>slot \<in> set slots. slot < SCTP_MAX_PENDING_SENDS"
  shows "safe (drain_from e slots a)"
  using assms
proof (induction e slots a rule: drain_from.induct)
  case (2 e slot slots a)
  let ?q = "sa_pendingQueue a ! slot"
  let ?a1 = "a\<lparr>sa_pendingQueue := (sa_pendingQueue a)[slot := ?q\<lparr>q_payload := None, q_inUse := False\<rparr>],
               sa_pendingQueueCount := sa_pendingQueueCount a - 1\<rparr>"
  let ?stop = "sa_flightSize a \<ge> sa_cwnd a \<or> sa_flightSize a \<ge> sa_peerArwnd a \<or>
      sa_outstandingCount a \<ge> word_of_nat SCTP_MAX_OUTSTANDING"
  have q: "queue_ok SCTP_MAX_PENDING_SENDS (sa_pendingQueue a) (sa_pendingQueueCount a)"
    using "2.prems" by (simp add: assoc_wf_def)
  show ?case
  proof (cases "q_inUse ?q \<and> \<not> ?stop")
    case False
    then show ?thesis using "2.prems" "2.IH"(1) by (auto simp: Let_def)
  next
    case True
    obtain data where data: "slot_data ?q = Some data" "length data < 2 ^ 32"
      using slot_data_ok queue_ok_nth [OF q] "2.prems"(2) True by (metis list.set_intros(1))
    have wf1: "assoc_wf ?a1"
      using "2.prems" True queue_ok_release [OF q, of slot "?q\<lparr>q_payload := None, q_inUse := False\<rparr>"]
      by (simp add: assoc_wf_def)
    obtain a' where a': "sctpAssocSend e ?a1 (queued_message ?q data) = Some a'" "assoc_wf a'"
      using sctpAssocSend_wf [OF wf1, of "queued_message ?q data" e] data by auto
    have "safe (drain_from e slots a')"
      using "2.IH"(2) [OF refl _ _ data(1) a'(1) a'(2)] True "2.prems"(2) by auto
    then show ?thesis using True data a' by (simp add: Let_def)
  qed
qed simp

lemma safe_drain [safe_intros]: "assoc_wf a \<Longrightarrow> safe (sctpDrainPendingQueue e a)"
  unfolding sctpDrainPendingQueue_def by (intro safe_drain_from) auto

lemma safe_get32: "off + 4 \<le> length v \<Longrightarrow> (\<And>x. getUnalignedInt32Be v off = Some x \<Longrightarrow> safe (f x)) \<Longrightarrow> safe (Option.bind (getUnalignedInt32Be v off) f)"
  using get_Be_in_range(2) [of off v] by auto

lemma safe_get16: "off + 2 \<le> length v \<Longrightarrow> (\<And>x. getUnalignedInt16Be v off = Some x \<Longrightarrow> safe (f x)) \<Longrightarrow> safe (Option.bind (getUnalignedInt16Be v off) f)"
  using get_Be_in_range(1) [of off v] by auto

lemma native32_range: "off + 4 \<le> length v \<Longrightarrow> \<exists>x. native32 g v off = Some x"
  using get_Be_in_range(2) [of off v] by (auto simp: native32_def getUnalignedInt32Le_def mem_simps)

lemma safe_getNative: "off + 4 \<le> length v \<Longrightarrow> (\<And>x. safe (f x)) \<Longrightarrow> safe (Option.bind (native32 g v off) f)"
  using native32_range [of off v g] by auto

lemmas safe_reads = safe_get32 safe_get16 safe_getNative

lemma length_cookie_bytes [simp]: "length (cookie_bytes g c) = 44"
  by (simp add: cookie_bytes_def native_bytes16_def native_bytes32_def native_bytes64_def)

lemma safe_if: "(b \<Longrightarrow> safe x) \<Longrightarrow> (\<not> b \<Longrightarrow> safe y) \<Longrightarrow> safe (if b then x else y)"
  by simp

lemma init_ack_sends:
  "assoc_wf a \<Longrightarrow> length cookie = 44 \<Longrightarrow>
   sends a (send_chunk a vtag (\<lambda>b p. sctpWriteInitAckChunk b p tag arwnd out inn tsn cookie))"
  by (intro w_init_ack.send_chunk_sends) (auto simp: SCTP_PAD4_def)

lemma safe_init [safe_intros]: "assoc_wf a \<Longrightarrow> safe (sctpHandleInit e a v)"
  unfolding sctpHandleInit_def Let_def
  by (intro safe_if safe_reads safe_sends [OF init_ack_sends]) simp_all

lemma find_cookie_ok:
  "\<exists>r. find_cookie v off = Some r \<and> (\<forall>d. r = Some d \<longrightarrow> length d \<le> SCTP_COOKIE_SIZE)"
proof (induction v off rule: find_cookie.induct)
  case (1 v off)
  show ?case
  proof (cases "off + 4 \<le> length v")
    case True
    then obtain t len where rd: "getUnalignedInt16Be v off = Some t" "getUnalignedInt16Be v (off + 2) = Some len"
      using get_Be_in_range(1) [of off v] get_Be_in_range(1) [of "off + 2" v] by auto
    show ?thesis
    proof (cases "4 \<le> unat len \<and> t \<noteq> SCTP_PARAM_STATE_COOKIE")
      case skip: True
      with "1.IH" [OF True rd] True rd show ?thesis by (simp add: find_cookie.simps [of v off])
    next
      case False
      with True rd show ?thesis by (auto simp: find_cookie.simps [of v off] mem_simps Let_def)
    qed
  qed (simp add: find_cookie.simps [of v off])
qed

lemma send_cookie_echo_sends:
  assumes "assoc_wf a"
  shows "sends a (send_cookie_echo a)"
proof -
  have len: "sa_cookieEchoLen a \<le> 44" "length (sa_cookieEchoData a) = 44" using assms by (auto simp: assoc_wf_def)
  let ?c = "take (sa_cookieEchoLen a) (sa_cookieEchoData a)"
  have "SCTP_PAD4 (4 + length ?c) \<le> 48" using len by (intro SCTP_PAD4_le) auto
  then have "sends a (send_chunk a (sa_peerVerificationTag a) (\<lambda>b p. sctpWriteCookieEchoChunk b p ?c))"
    using assms SCTP_PAD4_bounds [of "4 + length ?c"] by (intro w_cookie_echo.send_chunk_sends) auto
  then show ?thesis using len by (simp add: send_cookie_echo_def mem_simps)
qed

lemma assoc_wf_cookie:
  "assoc_wf a \<Longrightarrow> length echo = 44 \<Longrightarrow> n \<le> 44 \<Longrightarrow> assoc_wf (a\<lparr>sa_cookieEchoData := echo, sa_cookieEchoLen := n\<rparr>)"
  by (simp add: assoc_wf_def)

lemma safe_init_ack [safe_intros]:
  assumes wf: "assoc_wf a"
  shows "safe (sctpHandleInitAck e a v)"
proof (cases "length v < 16 \<or> sa_state a \<noteq> SCTP_ASSOC_COOKIE_WAIT \<and> sa_state a \<noteq> SCTP_ASSOC_CLOSED")
  case False
  have len: "length (sa_cookieEchoData a) = 44" using wf by (simp add: assoc_wf_def)
  have found: "safe (Option.bind (find_cookie v 16) (\<lambda>found. case found of None \<Rightarrow> Some a1 | Some data \<Rightarrow> k data))"
    if "assoc_wf a1" and "\<And>data. length data \<le> 44 \<Longrightarrow> safe (k data)" for a1 k
    using find_cookie_ok [of v 16] that by (auto split: option.splits)
  show ?thesis
    using False wf len unfolding sctpHandleInitAck_def Let_def
    by (simp, intro safe_reads found)
       (auto simp: mem_simps assoc_wf_cookie intro!: safe_bind safe_sends [OF send_cookie_echo_sends])
qed (auto simp: sctpHandleInitAck_def wf)

lemma safe_cookie_echo [safe_intros]:
  assumes wf: "assoc_wf a"
  shows "safe (sctpHandleCookieEcho e a v)"
proof (cases "length v < 44")
  case False
  then show ?thesis
    using wf unfolding sctpHandleCookieEcho_def
    by (intro safe_if safe_reads safe_bind [of "send_chunk _ _ _"] safe_flush safe_sends [OF w_cookie_ack.send_chunk_sends])
       simp_all
qed (simp add: sctpHandleCookieEcho_def wf)

lemma safe_cookie_ack [safe_intros]: "assoc_wf a \<Longrightarrow> safe (sctpHandleCookieAck e a)"
  by (auto simp: sctpHandleCookieAck_def intro: safe_flush)

lemma advance_cumulative_length: "length (snd (advance_cumulative cum tsns)) \<le> length tsns"
proof (induction cum tsns rule: advance_cumulative.induct)
  case (1 cum tsns)
  show ?case
  proof (cases "first_index (\<lambda>t. t = cum + 1) tsns < length tsns")
    case True
    with "1.IH" [OF refl] show ?thesis by (simp add: advance_cumulative.simps [of cum tsns])
  qed (simp add: advance_cumulative.simps [of cum tsns])
qed

lemma track_tsn_length:
  "track_tsn tsn cum tsns = Some (cum', tsns') \<Longrightarrow> length tsns \<le> SCTP_MAX_RECEIVED \<Longrightarrow> length tsns' \<le> SCTP_MAX_RECEIVED"
  using advance_cumulative_length [of tsn tsns]
  by (auto simp: track_tsn_def split: if_splits)

lemma assoc_wf_received:
  "assoc_wf a \<Longrightarrow> length tsns \<le> SCTP_MAX_RECEIVED \<Longrightarrow> assoc_wf (a\<lparr>sa_receivedTsns := tsns\<rparr>)"
  by (simp add: assoc_wf_def)

lemma safe_deliver [safe_intros]:
  assumes wf: "assoc_wf a" and "length payload \<le> SCTP_MAX_REASSEMBLY_SIZE"
  shows "safe (deliver_data e flags streamId ssn ppid payload a)"
proof (cases "sa_reassemblyBuf a")
  case None
  with assms show ?thesis by (simp add: deliver_data_def Let_def assoc_wf_def event_ok_def)
next
  case (Some buf)
  with assms show ?thesis by (simp add: deliver_data_def Let_def assoc_wf_def event_ok_def)
qed

lemma safe_data [safe_intros]:
  assumes wf: "assoc_wf a" and v: "length v < 2 ^ 16"
  shows "safe (sctpHandleData e a flags v)"
proof (cases "length v < 12 \<or> sa_state a \<noteq> SCTP_ASSOC_ESTABLISHED")
  case False
  have len: "length (sa_receivedTsns a) \<le> SCTP_MAX_RECEIVED" using wf by (simp add: assoc_wf_def)
  have pl: "length (drop 12 v) \<le> SCTP_MAX_REASSEMBLY_SIZE" using v by (simp add: SCTP_MAX_REASSEMBLY_SIZE_def)
  have track: "safe (case track_tsn tsn cum (sa_receivedTsns a) of None \<Rightarrow> sctpSendSack a1
      | Some (cum', tsns) \<Rightarrow> Option.bind (deliver_data e flags streamId ssn ppid (drop 12 v)
          (a2\<lparr>sa_peerCumulativeTsn := cum', sa_receivedTsns := tsns, sa_needSack := True\<rparr>)) sctpSendSack)"
    if "assoc_wf a1" and "assoc_wf a2" for tsn cum a1 a2 streamId ssn ppid
    using that len pl
    by (auto split: option.split intro!: safe_sack safe_bind safe_deliver assoc_wf_received dest: track_tsn_length)
  show ?thesis
    using False wf unfolding sctpHandleData_def Let_def
    by (simp, intro safe_reads) (auto simp: mem_simps intro!: track)
qed (auto simp: sctpHandleData_def wf)

lemma ack_slot_wf:
  assumes "assoc_wf (fst s)" and "i < SCTP_MAX_OUTSTANDING"
  shows "assoc_wf (fst (ack_slot covered i s))"
proof -
  let ?a = "fst s"
  let ?od = "sa_outstanding ?a ! i"
  have out: "out_ok (sa_outstanding ?a) (sa_outstandingCount ?a) (sa_flightSize ?a)"
    using assms by (simp add: assoc_wf_def)
  then have i: "i < length (sa_outstanding ?a)" using assms by (simp add: out_ok_def)
  show ?thesis
  proof (cases "od_inUse ?od")
    case True
    note rel = out_ok_release [OF out i True, of "?od\<lparr>od_acked := True, od_payload := None, od_inUse := False\<rparr>"]
    show ?thesis using assms rel by (simp add: ack_slot_def Let_def assoc_wf_def)
  qed (simp add: ack_slot_def Let_def assms)
qed

lemma ack_outstanding_wf: "assoc_wf (fst s) \<Longrightarrow> assoc_wf (fst (ack_outstanding covered s))"
  unfolding ack_outstanding_def by (rule fold_inv [where I = "\<lambda>s. assoc_wf (fst s)"]) (auto intro: ack_slot_wf)

lemma ack_gaps_wf:
  "assoc_wf (fst s) \<Longrightarrow> off + 4 * n \<le> length v \<Longrightarrow> \<exists>s'. ack_gaps v cum off n s = Some s' \<and> assoc_wf (fst s')"
proof (induction v cum off n s rule: ack_gaps.induct)
  case (2 v cum off n s)
  then obtain x y where "getUnalignedInt16Be v off = Some x" "getUnalignedInt16Be v (off + 2) = Some y"
    using get_Be_in_range(1) [of off v] get_Be_in_range(1) [of "off + 2" v] by auto
  with 2 show ?case using ack_outstanding_wf by simp
qed simp

lemma grow_cwnd_wf [simp]: "assoc_wf (grow_cwnd n a) = assoc_wf a"
  by (simp add: grow_cwnd_def Let_def)

lemma safe_handle_sack [safe_intros]:
  assumes wf: "assoc_wf a"
  shows "safe (sctpHandleSack e a v)"
proof (cases "length v < 12")
  case False
  have gaps: "safe (Option.bind (if b then ack_gaps v cum 12 n (ack_outstanding P (a\<lparr>sa_peerArwnd := u\<rparr>, 0))
        else Some (ack_outstanding P (a\<lparr>sa_peerArwnd := u\<rparr>, 0))) k)"
    if "b \<Longrightarrow> 12 + n * 4 \<le> length v" and "\<And>s. assoc_wf (fst s) \<Longrightarrow> safe (k s)" for b cum n u P k
    using that ack_gaps_wf [of "ack_outstanding P (a\<lparr>sa_peerArwnd := u\<rparr>, 0)" 12 n v cum]
      ack_outstanding_wf [of "(a\<lparr>sa_peerArwnd := u\<rparr>, 0)"] wf by auto
  show ?thesis
    using False wf unfolding sctpHandleSack_def Let_def
    by (simp, intro safe_reads gaps) (auto intro!: safe_drain)
qed (simp add: sctpHandleSack_def wf)

lemma prune_tsns_length: "length (prune_tsns c i tsns) \<le> length tsns"
proof (induction c i tsns rule: prune_tsns.induct)
  case (1 c i tsns)
  then show ?case by (auto simp: prune_tsns.simps [of c i tsns])
qed

lemma safe_forward_tsn [safe_intros]:
  assumes wf: "assoc_wf a"
  shows "safe (sctpHandleForwardTsn a v)"
proof -
  have len: "length (sa_receivedTsns a) \<le> SCTP_MAX_RECEIVED" using wf by (simp add: assoc_wf_def)
  have adv: "length (snd (advance_cumulative c (prune_tsns c 0 (sa_receivedTsns a)))) \<le> SCTP_MAX_RECEIVED" for c
    using advance_cumulative_length [of c] prune_tsns_length [of c 0] len by (meson le_trans)
  show ?thesis
    unfolding sctpHandleForwardTsn_def Let_def
    by (intro safe_if safe_reads safe_sack) (use wf adv in \<open>auto simp: case_prod_beta intro!: assoc_wf_received\<close>)
qed

lemma safe_shutdown [safe_intros]: "assoc_wf a \<Longrightarrow> safe (sctpHandleShutdown a)"
  unfolding sctpHandleShutdown_def by (intro safe_bind safe_sends [OF w_shutdown_ack.send_chunk_sends]) simp_all

lemma safe_shutdown_ack [safe_intros]: "assoc_wf a \<Longrightarrow> safe (sctpHandleShutdownAck a)"
  unfolding sctpHandleShutdownAck_def by (intro safe_bind safe_sends [OF w_shutdown_complete.send_chunk_sends]) simp_all

lemma safe_assoc_shutdown [safe_intros]: "assoc_wf a \<Longrightarrow> safe (sctpAssocShutdown a)"
  unfolding sctpAssocShutdown_def by (intro safe_if safe_bind safe_sends [OF w_shutdown.send_chunk_sends]) simp_all

lemma safe_heartbeat [safe_intros]:
  assumes wf: "assoc_wf a"
  shows "safe (heartbeat_ack a v)"
proof -
  let ?h = "common_layout (sa_localPort a) (sa_remotePort a) (sa_peerVerificationTag a) (be32 0)"
  let ?n = "12 + SCTP_PAD4 (4 + length v)"
  have len: "length (sa_outPacket a) = 1200" using wf by (simp add: assoc_wf_def)
  show ?thesis
  proof (cases "16 + length v \<le> 1200")
    case False
    with wf len show ?thesis
      by (simp add: heartbeat_ack_def sctpWriteCommonHeader_spec assoc_wf_def)
  next
    case True
    let ?b = "bsplice (sa_outPacket a) 0 (?h @ chunk_layout SCTP_CHUNK_HEARTBEAT_ACK 0 v)"
    have pad: "SCTP_PAD4 (4 + length v) \<le> 1188" using True by (intro SCTP_PAD4_le) auto
    have lb: "length ?b = 1200" using len True by simp
    have "heartbeat_ack a v = sctpSendPacket (a\<lparr>sa_outPacket := ?b\<rparr>) ?n"
      using True len unfolding heartbeat_ack_def
      by (simp add: sctpWriteCommonHeader_spec put_defs mem_simps chunk_layout_def)
    moreover have "event_ok (OutboundPacket (finalized (take ?n ?b)))"
      using lb pad SCTP_PAD4_bounds [of "4 + length v"] by (simp add: event_ok_def) presburger
    ultimately show ?thesis
      using sctpSendPacket_spec [of ?n "a\<lparr>sa_outPacket := ?b\<rparr>"] wf lb pad by (auto simp: assoc_wf_def)
  qed
qed

lemma dispatch_wf:
  assumes "assoc_wf a" and "length v < 2 ^ 16"
  shows "\<exists>a'. sctpChunkDispatch e t flags v a = Some (STATUS_SUCCESS, a') \<and> assoc_wf a'"
proof -
  have r: "\<exists>a'. Option.bind r (\<lambda>a'. Some (STATUS_SUCCESS, a')) = Some (STATUS_SUCCESS, a') \<and> assoc_wf a'" if "safe r" for r
    using that by (auto simp: safe_def)
  show ?thesis
    unfolding sctpChunkDispatch_def
    by (rule r, intro safe_if safe_intros) (use assms in simp_all)
qed

lemma handle_packet_wf:
  assumes "assoc_wf a"
  shows "\<exists>a'. sctpAssocHandlePacket e a buf = Some (STATUS_SUCCESS, a') \<and> assoc_wf a'"
proof (cases "length buf < 12")
  case False
  have "\<exists>status a'. sctpParseChunks buf (sctpChunkDispatch e) a = Some (status, a') \<and> status = STATUS_SUCCESS \<and> assoc_wf a'"
    unfolding sctpParseChunks_def by (rule parse_total) (use assms dispatch_wf in auto)
  with False assms show ?thesis
    by (simp add: sctpAssocHandlePacket_def sctpValidatePacket_spec)
qed (simp add: sctpAssocHandlePacket_def assms)

lemma double_rto_range:
  fixes rto :: u32
  assumes "1000 \<le> rto" and "rto \<le> 60000"
  shows "1000 \<le> (if rto * 2 > 60000 then 60000 else rto * 2)"
proof -
  have r: "1000 \<le> unat rto" "unat rto \<le> 60000" using assms by (simp_all add: word_le_nat_alt)
  then have "unat (rto * 2) = unat rto * 2" using unat_mult_lem [of rto 2] by simp
  with r show ?thesis by (simp add: word_le_nat_alt)
qed

lemma double_rto_wf: "assoc_wf a \<Longrightarrow> assoc_wf (double_rto a)"
  using double_rto_range [of "sa_rtoMs a"] by (auto simp: double_rto_def Let_def assoc_wf_def split: if_splits)

lemma send_init_sends: "assoc_wf a \<Longrightarrow> sends a (send_init a)"
  unfolding send_init_def by (intro w_init.send_chunk_sends) simp_all

lemma safe_connect [safe_intros]: "assoc_wf a \<Longrightarrow> safe (sctpAssocConnect e a)"
  unfolding sctpAssocConnect_def by (intro safe_bind safe_sends [OF send_init_sends]) simp_all

lemma check_t1_wf:
  assumes "assoc_wf a"
  shows "\<exists>a' c. check_t1 a now = Some (a', c) \<and> assoc_wf a'"
proof -
  let ?a2 = "double_rto (a\<lparr>sa_initRetransmitCount := sa_initRetransmitCount a + 1\<rparr>)"
  have wf2: "assoc_wf ?a2" using assms by (intro double_rto_wf) simp
  have "safe (if sa_state ?a2 = SCTP_ASSOC_COOKIE_WAIT then send_init ?a2
      else if sa_state ?a2 = SCTP_ASSOC_COOKIE_ECHOED \<and> sa_cookieEchoValid ?a2 then send_cookie_echo ?a2 else Some ?a2)"
    using wf2 by (intro safe_if safe_sends [OF send_init_sends] safe_sends [OF send_cookie_echo_sends]) auto
  then obtain a3 where "(if sa_state ?a2 = SCTP_ASSOC_COOKIE_WAIT then send_init ?a2
      else if sa_state ?a2 = SCTP_ASSOC_COOKIE_ECHOED \<and> sa_cookieEchoValid ?a2 then send_cookie_echo ?a2 else Some ?a2) = Some a3"
    "assoc_wf a3" by (auto simp only: safe_def)
  then show ?thesis unfolding check_t1_def Let_def using assms by (simp, blast)
qed

lemma safe_rtx_slot:
  assumes wf: "assoc_wf a" and "i < SCTP_MAX_OUTSTANDING"
  shows "safe (rtx_slot now i a)"
proof -
  let ?old = "sa_outstanding a ! i"
  let ?od = "?old\<lparr>od_retransmitCount := od_retransmitCount ?old + 1\<rparr>"
  let ?a1 = "a\<lparr>sa_outstanding := (sa_outstanding a)[i := ?od]\<rparr>"
  have out: "out_ok (sa_outstanding a) (sa_outstandingCount a) (sa_flightSize a)"
    using wf by (simp add: assoc_wf_def)
  then have i: "i < length (sa_outstanding a)" using assms by (simp add: out_ok_def)
  have od: "od_ok ?old" using out_ok_nth [OF out assms(2)] .
  show ?thesis
  proof (cases "od_inUse ?old \<and> \<not> od_acked ?old \<and> \<not> od_abandoned ?old")
    case False
    then show ?thesis using wf by (auto simp: rtx_slot_def Let_def)
  next
    case True
    have "out_ok ((sa_outstanding a)[i := ?od]) (sa_outstandingCount a) (sa_flightSize a)"
      using True od by (intro out_ok_same [OF out i]) (auto simp: od_ok_def)
    then have wf1: "assoc_wf ?a1" using wf by (simp add: assoc_wf_def)
    note rel = out_ok_release [OF out i, of "?od\<lparr>od_abandoned := True, od_payload := None, od_inUse := False\<rparr>"]
    show ?thesis
    proof (cases "should_abandon now ?od")
      case abandon: True
      show ?thesis using True abandon rel wf by (simp add: rtx_slot_def Let_def assoc_wf_def)
    next
      case keep: False
      show ?thesis
      proof (cases "od_payload ?old")
        case None
        then show ?thesis using True keep wf1 by (simp add: rtx_slot_def Let_def)
      next
        case (Some p)
        then show ?thesis using True keep wf1 od
          by (auto simp: rtx_slot_def Let_def od_ok_def mem_simps intro!: safe_sends [OF send_data_sends])
      qed
    qed
  qed
qed

lemma safe_check_t3: 
  assumes wf: "assoc_wf a"
  shows "safe (check_t3 a now)"
  unfolding check_t3_def Let_def
  by (intro safe_if safe_bind safe_for_each safe_rtx_slot double_rto_wf safe_sends [OF w_forward_tsn.send_chunk_sends])
     (use wf in auto)

lemma safe_timers [safe_intros]: "assoc_wf a \<Longrightarrow> safe (sctpAssocCheckTimers a now)"
  using check_t1_wf [of a now] by (auto simp: sctpAssocCheckTimers_def intro: safe_check_t3)

lemma out_ok_cleared:
  "length ods = SCTP_MAX_OUTSTANDING \<Longrightarrow> \<forall>od \<in> set ods. \<not> od_inUse od \<Longrightarrow> out_ok ods 0 0"
  by (induction ods rule: rev_induct) (auto simp: out_ok_def od_ok_def in_flight_def cong: map_cong)

lemma queue_ok_cleared: "length qs = cap \<Longrightarrow> \<forall>q \<in> set qs. \<not> q_inUse q \<Longrightarrow> queue_ok cap qs 0"
  by (simp add: queue_ok_def q_ok_def cong: map_cong)

lemma sctpAssocCleanup_wf:
  assumes "assoc_wf a"
  shows "assoc_wf (sctpAssocCleanup a)"
proof -
  have "length (sa_outstanding a) = SCTP_MAX_OUTSTANDING" "length (sa_pendingQueue a) = SCTP_MAX_PENDING_SENDS"
    using assms by (auto simp: assoc_wf_def out_ok_def queue_ok_def)
  then show ?thesis
    using assms unfolding sctpAssocCleanup_def assoc_wf_def
    by (simp add: out_ok_cleared queue_ok_cleared)
qed

lemma sctpAssocInit_wf:
  assumes "28 < mtu" and "mtu \<le> 1200"
  shows "assoc_wf (sctpAssocInit clk localPort remotePort mtu)"
  unfolding sctpAssocInit_def Let_def assoc_wf_def
  using assms by (simp add: out_ok_cleared queue_ok_cleared)

section \<open>Reachable associations\<close>

text \<open>
  The calls the public interface offers, and the associations that any sequence of them
  produces. A payload has less than \<open>2 ^ 32\<close> bytes because its length is a \<open>UINT32\<close>; the MTU
  leaves room for one payload byte and does not exceed the packet buffer.
\<close>

datatype assoc_call =
    CallConnect env
  | CallHandlePacket env bytes
  | CallSend env message
  | CallCheckTimers u64
  | CallShutdown
  | CallCleanup

fun run_call :: "assoc_call \<Rightarrow> SctpAssociation \<Rightarrow> SctpAssociation option" where
  "run_call (CallConnect e) a = sctpAssocConnect e a"
| "run_call (CallHandlePacket e buf) a = map_option snd (sctpAssocHandlePacket e a buf)"
| "run_call (CallSend e m) a = sctpAssocSend e a m"
| "run_call (CallCheckTimers now) a = sctpAssocCheckTimers a now"
| "run_call CallShutdown a = sctpAssocShutdown a"
| "run_call CallCleanup a = Some (sctpAssocCleanup a)"

fun call_ok :: "assoc_call \<Rightarrow> bool" where
  "call_ok (CallSend e m) = (length (m_payload m) < 2 ^ 32)"
| "call_ok _ = True"

inductive assoc_reachable :: "SctpAssociation \<Rightarrow> bool" where
  init: "28 < mtu \<Longrightarrow> mtu \<le> 1200 \<Longrightarrow> assoc_reachable (sctpAssocInit clk localPort remotePort mtu)"
| call: "assoc_reachable a \<Longrightarrow> call_ok c \<Longrightarrow> run_call c a = Some a' \<Longrightarrow> assoc_reachable a'"

lemma run_call_safe: "assoc_wf a \<Longrightarrow> call_ok c \<Longrightarrow> safe (run_call c a)"
proof (induction c a rule: run_call.induct)
  case (2 e buf a)
  then show ?case using handle_packet_wf [of a e buf] by auto
qed (auto intro: safe_intros sctpAssocCleanup_wf)

lemma reachable_wf: "assoc_reachable a \<Longrightarrow> assoc_wf a"
proof (induction rule: assoc_reachable.induct)
  case (call a c a')
  then show ?case using run_call_safe [of a c] by simp
qed (rule sctpAssocInit_wf)

section \<open>Properties\<close>

text \<open>A surrounding for concrete runs: clock at 0, memory available, little endian, with a callback.\<close>

definition env0 :: env where
  "env0 = \<lparr>env_gettime = 0, env_alloc = (\<lambda>_. True), env_isBigEndian = False, env_hasMessageFn = True\<rparr>"

definition assoc0 :: SctpAssociation where
  "assoc0 = sctpAssocInit (\<lambda>_. 0) 5000 5000 1188"

lemma assoc0_reachable: "assoc_reachable assoc0"
  unfolding assoc0_def by (rule assoc_reachable.init) simp_all



lemma unat_sum_list:
  fixes g :: "'a \<Rightarrow> u32"
  assumes "(\<Sum>x\<leftarrow>xs. unat (g x)) < 2 ^ 32"
  shows "unat (\<Sum>x\<leftarrow>xs. g x) = (\<Sum>x\<leftarrow>xs. unat (g x))"
  using assms
proof (induction xs)
  case (Cons x xs)
  then show ?case using unat_add_lem [of "g x" "\<Sum>x\<leftarrow>xs. g x"] by simp
qed simp

lemma sum_list_le: "(\<And>x. x \<in> set xs \<Longrightarrow> f x \<le> k) \<Longrightarrow> (\<Sum>x\<leftarrow>xs. f x) \<le> length xs * (k :: nat)"
  by (induction xs) (auto intro: add_mono)

lemma out_ok_counts:
  assumes "out_ok ods n f"
  shows "unat n = length (filter od_inUse ods)" and "unat f = (\<Sum>od\<leftarrow>filter od_inUse ods. unat (od_payloadLen od))"
    and "unat f \<le> 2048 * 1172"
proof -
  have len: "length ods = 2048" and od: "\<forall>od \<in> set ods. od_ok od" using assms by (auto simp: out_ok_def SCTP_MAX_OUTSTANDING_def)
  have 1: "(\<Sum>od\<leftarrow>ods. unat (of_bool (od_inUse od) :: u32)) = length (filter od_inUse ods)" for ods
    by (induction ods) auto
  have "length (filter od_inUse ods) \<le> 2048" using len by (metis length_filter_le)
  then show "unat n = length (filter od_inUse ods)"
    using assms unat_sum_list [of "\<lambda>od. of_bool (od_inUse od)" ods] by (simp add: out_ok_def 1)
  have 2: "(\<Sum>od\<leftarrow>ods. unat (in_flight od)) = (\<Sum>od\<leftarrow>filter od_inUse ods. unat (od_payloadLen od))" for ods
    by (induction ods) (auto simp: in_flight_def)
  have "unat (in_flight od) \<le> 1172" if "od \<in> set ods" for od
    using od that by (auto simp: in_flight_def od_ok_def)
  then have le: "(\<Sum>od\<leftarrow>ods. unat (in_flight od)) \<le> 2048 * 1172"
    using sum_list_le [of ods "\<lambda>od. unat (in_flight od)" 1172] len by simp
  then have eq: "unat f = (\<Sum>od\<leftarrow>ods. unat (in_flight od))"
    using assms unat_sum_list [of in_flight ods] by (simp add: out_ok_def)
  then show "unat f = (\<Sum>od\<leftarrow>filter od_inUse ods. unat (od_payloadLen od))" by (simp add: 2)
  show "unat f \<le> 2048 * 1172" using eq le by simp
qed

lemma queue_ok_counts: "queue_ok cap qs n \<Longrightarrow> cap < 2 ^ 32 \<Longrightarrow> unat n = length (filter q_inUse qs)"
proof -
  assume q: "queue_ok cap qs n" and cap: "cap < 2 ^ 32"
  have 1: "(\<Sum>q\<leftarrow>qs. unat (of_bool (q_inUse q) :: u32)) = length (filter q_inUse qs)" for qs
    by (induction qs) auto
  have "length (filter q_inUse qs) \<le> cap" using q by (metis length_filter_le queue_ok_def)
  then show ?thesis using q cap unat_sum_list [of "\<lambda>q. of_bool (q_inUse q)" qs] by (simp add: queue_ok_def 1)
qed

text \<open>
  C2. The accounting never drifts: in every reachable association \<open>flightSize\<close> is the number of
  payload bytes of the chunks in the outstanding table, \<open>outstandingCount\<close> their number, and
  \<open>sendQueueCount\<close> and \<open>pendingQueueCount\<close> the numbers of occupied queue slots; none of the
  32-bit counters wraps.
\<close>

theorem assoc_accounting:
  assumes "assoc_reachable a"
  shows "unat (sa_flightSize a) = (\<Sum>od\<leftarrow>filter od_inUse (sa_outstanding a). unat (od_payloadLen od)) \<and>
    unat (sa_outstandingCount a) = length (filter od_inUse (sa_outstanding a)) \<and>
    unat (sa_sendQueueCount a) = length (filter q_inUse (sa_sendQueue a)) \<and>
    unat (sa_pendingQueueCount a) = length (filter q_inUse (sa_pendingQueue a)) \<and>
    unat (sa_flightSize a) \<le> 2048 * 1172"
proof -
  have "assoc_wf a" by (rule reachable_wf [OF assms])
  then have o: "out_ok (sa_outstanding a) (sa_outstandingCount a) (sa_flightSize a)"
    and q: "queue_ok SCTP_MAX_QUEUED_MESSAGES (sa_sendQueue a) (sa_sendQueueCount a)"
      "queue_ok SCTP_MAX_PENDING_SENDS (sa_pendingQueue a) (sa_pendingQueueCount a)" by (auto simp: assoc_wf_def)
  show ?thesis
    using out_ok_counts [OF o] queue_ok_counts [OF q(1)] queue_ok_counts [OF q(2)]
    by (simp add: SCTP_MAX_QUEUED_MESSAGES_def SCTP_MAX_PENDING_SENDS_def)
qed

theorem assoc_accounting_witness:
  "assoc_reachable assoc0 \<and>
   unat (sa_flightSize assoc0) = (\<Sum>od\<leftarrow>filter od_inUse (sa_outstanding assoc0). unat (od_payloadLen od))"
  using assoc_accounting [OF assoc0_reachable] assoc0_reachable by simp

text \<open>
  C3. Every packet an association hands to the outbound callback is one its peer can accept:
  between 16 and 1200 bytes, a multiple of four, with a correct checksum, so that
  \<open>sctpValidatePacket\<close> accepts it at a receiver that does not check the tag.
\<close>

theorem assoc_packets_valid:
  assumes "assoc_reachable a" and "OutboundPacket p \<in> set (sa_trace a)"
  shows "16 \<le> length p \<and> length p \<le> 1200 \<and> length p mod 4 = 0 \<and>
    sctpValidatePacket (Some p) 0 = Some (STATUS_SUCCESS, Some p)"
proof -
  have ok: "event_ok (OutboundPacket p)" using reachable_wf [OF assms(1)] assms(2) by (auto simp: assoc_wf_def)
  then have "12 \<le> length p" by (simp add: event_ok_def)
  moreover then obtain vtag where "getUnalignedInt32Be p 4 = Some vtag"
    using get_Be_in_range(2) [of 4 p] by auto
  ultimately show ?thesis using ok by (simp add: event_ok_def sctpValidatePacket_spec vtag_ok_def)
qed

lemma connect_trace:
  "\<exists>a p. run_call (CallConnect env0) assoc0 = Some a \<and> OutboundPacket p \<in> set (sa_trace a)"
proof -
  have wf: "assoc_wf assoc0" by (rule reachable_wf [OF assoc0_reachable])
  from sends_wf [OF send_init_sends [OF wf] wf] obtain b p where
    "send_init assoc0 = Some (assoc0\<lparr>sa_outPacket := b, sa_trace := sa_trace assoc0 @ [OutboundPacket p]\<rparr>)" by blast
  then show ?thesis by (intro exI) (auto simp: sctpAssocConnect_def)
qed

theorem assoc_packets_valid_witness:
  "\<exists>a p. run_call (CallConnect env0) assoc0 = Some a \<and> OutboundPacket p \<in> set (sa_trace a) \<and>
    sctpValidatePacket (Some p) 0 = Some (STATUS_SUCCESS, Some p)"
proof -
  obtain a p where a: "run_call (CallConnect env0) assoc0 = Some a" "OutboundPacket p \<in> set (sa_trace a)"
    using connect_trace by blast
  then have "assoc_reachable a" using assoc_reachable.call [OF assoc0_reachable, of "CallConnect env0" a] by simp
  from assoc_packets_valid [OF this a(2)] a show ?thesis by blast
qed

end
