(* ===== verification/SctpReceive.thy ===== *)
theory SctpReceive
  imports SctpInvariant "HOL-Library.Multiset"
begin

text \<open>
  The receiving side of the association: the serial number arithmetic of TSNs, the tracking
  of received TSNs in \<open>sctpHandleData\<close> as an implementation of a set of received chunk
  numbers, and the gap blocks of \<open>sctpSendSack\<close> read back by \<open>sctpHandleSack\<close>.
\<close>

section \<open>Serial number arithmetic\<close>

lemma sint_neg_iff: "(sint (w :: u32) < 0) = (2 ^ 31 \<le> unat w)"
proof -
  have "unat w < 2 ^ LENGTH(32)" by (rule unsigned_less)
  then have lt: "unat w < 2 ^ 32" by simp
  have "(sint w < 0) = bit w 31" using bit_last_iff [of w] by simp
  also have "\<dots> = bit (unat w) 31" by (simp add: bit_unsigned_iff)
  also have "\<dots> = odd (unat w div 2 ^ 31)" by (rule bit_iff_odd)
  also have "\<dots> = (2 ^ 31 \<le> unat w)"
  proof (cases "2 ^ 31 \<le> unat w")
    case True
    then have "unat w div 2 ^ 31 = 1" using lt by (intro div_nat_eqI) auto
    with True show ?thesis by simp
  next
    case False
    then have "unat w div 2 ^ 31 = 0" by simp
    with False show ?thesis by simp
  qed
  finally show ?thesis .
qed

lemma TSN_LT_iff: "TSN_LT a b = (2 ^ 31 \<le> unat (a - b))"
  by (simp add: TSN_LT_def sint_neg_iff)

lemma TSN_GTE_iff: "TSN_GTE a b = (unat (a - b) < 2 ^ 31)"
  using sint_neg_iff [of "a - b"] by (simp add: TSN_GTE_def) linarith

lemma TSN_GT_iff: "TSN_GT a b = (a \<noteq> b \<and> unat (a - b) < 2 ^ 31)"
proof -
  have "(sint (a - b) = 0) = (a = b)" by (simp add: signed_eq_0_iff)
  then show ?thesis using sint_neg_iff [of "a - b"] by (simp add: TSN_GT_def) linarith
qed

lemma TSN_LTE_iff: "TSN_LTE a b = (\<not> TSN_GT a b)"
  by (simp add: TSN_LTE_def TSN_GT_def not_less)

text \<open>On numbers less than \<open>2 ^ 31\<close> apart, the comparisons are those of the numbers.\<close>

lemma tsn_diff:
  assumes "n \<le> m" and "m - n < 2 ^ 31"
  shows "unat ((base + word_of_nat m) - (base + word_of_nat n :: u32)) = m - n"
proof -
  have "(base + word_of_nat m) - (base + word_of_nat n) = (word_of_nat (m - n) :: u32)"
    using assms(1) by (simp add: of_nat_diff)
  then show ?thesis using assms(2) by (simp add: unat_of_nat_small)
qed

lemma tsn_eq_iff:
  assumes "m < n + 2 ^ 31" and "n < m + 2 ^ 31"
  shows "(base + word_of_nat m = (base + word_of_nat n :: u32)) = (m = n)"
proof -
  have *: "p = q" if "base + word_of_nat p = (base + word_of_nat q :: u32)" "q \<le> p" "p < q + 2 ^ 31" for p q
    using tsn_diff [of q p base] that by simp
  show ?thesis using *[of m n] *[of n m] assms by (metis nat_le_linear)
qed

lemma TSN_GT_number:
  assumes "m < n + 2 ^ 31" and "n < m + 2 ^ 31"
  shows "TSN_GT (base + word_of_nat m) (base + word_of_nat n) = (n < m)"
proof (cases "n \<le> m")
  case True
  then show ?thesis using tsn_diff [OF True, of base] tsn_eq_iff [OF assms, of base] assms by (auto simp: TSN_GT_iff)
next
  case False
  define k where "k = n - m"
  have k: "0 < k" "k < 2 ^ 31" "n = m + k" using False assms by (auto simp: k_def)
  have u: "unat (word_of_nat k :: u32) = k" using k by (intro unat_of_nat_small) simp
  have "(base + word_of_nat m) - (base + word_of_nat n) = 0 - (word_of_nat k :: u32)"
    using k by simp
  moreover have "unat (0 - word_of_nat k :: u32) = 2 ^ 32 - k"
    using k(1) u unat_sub_if_size [of 0 "word_of_nat k :: u32"] by (simp add: word_size)
  ultimately show ?thesis using False k by (simp add: TSN_GT_iff, arith)
qed

lemma TSN_GTE_number:
  assumes "m < n + 2 ^ 31" and "n < m + 2 ^ 31"
  shows "TSN_GTE (base + word_of_nat m) (base + word_of_nat n) = (n \<le> m)"
proof -
  have "TSN_GTE a b = (TSN_GT a b \<or> a = b)" for a b by (auto simp: TSN_GTE_iff TSN_GT_iff)
  then show ?thesis using TSN_GT_number [OF assms] tsn_eq_iff [OF assms] by auto
qed

section \<open>Tracking received TSNs\<close>

lemma mset_swap_remove:
  assumes "k < length xs"
  shows "mset (xs ! k # swap_remove xs k) = mset xs"
proof (cases xs rule: rev_cases)
  case (snoc ys y)
  show ?thesis
  proof (cases "k < length ys")
    case True
    then show ?thesis
      by (simp add: snoc swap_remove_def list_update_append nth_append mset_update)
  next
    case False
    then have "k = length ys" using assms snoc by simp
    then show ?thesis by (simp add: snoc swap_remove_def)
  qed
qed (use assms in simp)

lemma swap_remove_props:
  assumes "k < length xs" and "distinct xs"
  shows "distinct (swap_remove xs k)" and "set (swap_remove xs k) = set xs - {xs ! k}"
proof -
  have d: "distinct (xs ! k # swap_remove xs k)"
    using mset_eq_imp_distinct_iff [OF mset_swap_remove [OF assms(1)]] assms(2) by simp
  then show "distinct (swap_remove xs k)" by simp
  have "set (xs ! k # swap_remove xs k) = set xs" by (rule mset_eq_setD [OF mset_swap_remove [OF assms(1)]])
  with d show "set (swap_remove xs k) = set xs - {xs ! k}" by auto
qed

text \<open>
  The peer numbers its chunks 1, 2, 3, ..., chunk \<open>n\<close> has the TSN \<open>base + n\<close>. The association
  holds the set of the chunks received so far when chunks 1 to \<open>c\<close> have arrived and \<open>R\<close> are
  the later ones.
\<close>

definition tsn_of :: "u32 \<Rightarrow> nat \<Rightarrow> u32" where
  "tsn_of base n = base + word_of_nat n"

definition recv_rep :: "u32 \<Rightarrow> nat \<Rightarrow> nat set \<Rightarrow> u32 \<times> u32 list \<Rightarrow> bool" where
  "recv_rep base c R s = (fst s = tsn_of base c \<and> distinct (snd s) \<and> set (snd s) = tsn_of base ` R \<and>
     (\<forall>n \<in> R. c < n \<and> n < c + 2 ^ 31))"

definition received :: "nat \<Rightarrow> nat set \<Rightarrow> nat set" where
  "received c R = {1..c} \<union> R"

lemma tsn_of_Suc: "tsn_of base c + 1 = tsn_of base (Suc c)"
  by (simp add: tsn_of_def)

lemma tsn_of_eq:
  "m < n + 2 ^ 31 \<Longrightarrow> n < m + 2 ^ 31 \<Longrightarrow> (tsn_of base m = tsn_of base n) = (m = n)"
  unfolding tsn_of_def by (rule tsn_eq_iff)

lemma recv_rep_mem:
  assumes "recv_rep base c R (cum, tsns)" and "c < n" and "n < c + 2 ^ 31"
  shows "(tsn_of base n \<in> set tsns) = (n \<in> R)"
proof -
  have "m = n" if "tsn_of base n = tsn_of base m" "m \<in> R" for m
    using that assms tsn_of_eq [of n m base] by (auto simp: recv_rep_def)
  with assms show ?thesis by (auto simp: recv_rep_def)
qed

lemma recv_rep_remove:
  assumes rep: "recv_rep base c R (tsn_of base c, tsns)" and k: "k < length tsns" "tsns ! k = tsn_of base (Suc c)"
  shows "Suc c \<in> R" and "recv_rep base (Suc c) (R - {Suc c}) (tsn_of base (Suc c), swap_remove tsns k)"
proof -
  have "tsn_of base (Suc c) \<in> set tsns" using k by (metis nth_mem)
  then show mem: "Suc c \<in> R" using recv_rep_mem [OF rep, of "Suc c"] by simp
  have d: "distinct tsns" and s: "set tsns = tsn_of base ` R" and w: "\<forall>n \<in> R. c < n \<and> n < c + 2 ^ 31"
    using rep by (auto simp: recv_rep_def)
  have "tsn_of base n \<noteq> tsn_of base (Suc c)" if "n \<in> R - {Suc c}" for n
    using that w tsn_of_eq [of n "Suc c" base] by auto
  then have "set (swap_remove tsns k) = tsn_of base ` (R - {Suc c})"
    using swap_remove_props(2) [OF k(1) d] k(2) s mem by auto
  with swap_remove_props(1) [OF k(1) d] w
  show "recv_rep base (Suc c) (R - {Suc c}) (tsn_of base (Suc c), swap_remove tsns k)"
    by (auto simp: recv_rep_def)
qed

lemma advance_cumulative_rep:
  assumes "recv_rep base c R (cum, tsns)"
  shows "\<exists>c' R'. recv_rep base c' R' (advance_cumulative cum tsns) \<and> received c' R' = received c R \<and> Suc c' \<notin> R' \<and> c \<le> c'"
  using assms
proof (induction cum tsns arbitrary: c R rule: advance_cumulative.induct)
  case (1 cum tsns)
  let ?k = "first_index (\<lambda>t. t = cum + 1) tsns"
  have cum: "cum = tsn_of base c" using "1.prems" by (simp add: recv_rep_def)
  show ?case
  proof (cases "?k < length tsns")
    case False
    then have "tsn_of base (Suc c) \<notin> set tsns"
      using first_index_less [of "\<lambda>t. t = cum + 1" tsns] by (auto simp: cum tsn_of_Suc)
    then have "Suc c \<notin> R" using recv_rep_mem [OF "1.prems", of "Suc c"] by simp
    then show ?thesis using False "1.prems" by (auto simp: advance_cumulative.simps [of cum tsns])
  next
    case True
    then have k: "tsns ! ?k = tsn_of base (Suc c)" using first_index_nth [OF True] by (simp add: cum tsn_of_Suc)
    note rm = recv_rep_remove [OF "1.prems" [unfolded cum] True [unfolded cum] k [unfolded cum]]
    have "received (Suc c) (R - {Suc c}) = received c R" using rm(1) by (auto simp: received_def le_Suc_eq)
    moreover obtain c' R' where "recv_rep base c' R' (advance_cumulative (cum + 1) (swap_remove tsns ?k))"
      "received c' R' = received (Suc c) (R - {Suc c})" "Suc c' \<notin> R'" "Suc c \<le> c'"
      using "1.IH" [OF refl True, of "Suc c" "R - {Suc c}"] rm(2) by (auto simp: cum tsn_of_Suc)
    ultimately show ?thesis using True by (auto simp: advance_cumulative.simps [of cum tsns] intro!: exI [of _ c'])
  qed
qed

text \<open>
  The tracking of a new chunk adds its number to the set of received chunks and keeps the
  cumulative TSN at the end of the gapless prefix; an old chunk is recognised.
\<close>

lemma track_tsn_new:
  assumes rep: "recv_rep base c R (cum, tsns)" and new: "c < n" "n < c + 2 ^ 31"
    and room: "length tsns < SCTP_MAX_RECEIVED" and gap: "Suc c \<notin> R"
  shows "\<exists>s c' R'. track_tsn (tsn_of base n) cum tsns = Some s \<and> recv_rep base c' R' s \<and>
    received c' R' = insert n (received c R) \<and> Suc c' \<notin> R' \<and> c \<le> c'"
proof (cases "n = Suc c")
  case True
  have cum: "cum = tsn_of base c" using rep by (simp add: recv_rep_def)
  have rep1: "recv_rep base (Suc c) R (tsn_of base (Suc c), tsns)"
    using rep gap by (auto simp: recv_rep_def less_Suc_eq) (metis Suc_lessI)
  have "received (Suc c) R = insert n (received c R)" using True by (auto simp: received_def)
  with advance_cumulative_rep [OF rep1] True show ?thesis
    by (fastforce simp: track_tsn_def cum tsn_of_Suc)
next
  case False
  have cum: "cum = tsn_of base c" using rep by (simp add: recv_rep_def)
  have gt: "TSN_GT (tsn_of base n) (cum + 1)" and ne: "tsn_of base n \<noteq> cum + 1"
    using False new TSN_GT_number [of n "Suc c" base] tsn_of_eq [of n "Suc c" base]
    unfolding cum tsn_of_Suc by (auto simp: tsn_of_def)
  let ?tsns = "if tsn_of base n \<notin> set tsns then tsns @ [tsn_of base n] else tsns"
  have "recv_rep base c (insert n R) (cum, ?tsns)"
    using rep new recv_rep_mem [OF rep new] by (auto simp: recv_rep_def)
  moreover have "received c (insert n R) = insert n (received c R)" by (auto simp: received_def)
  moreover have "track_tsn (tsn_of base n) cum tsns = Some (cum, ?tsns)"
    using gt ne room by (simp add: track_tsn_def)
  ultimately show ?thesis using False gap by (metis insertE le_refl)
qed

lemma track_tsn_old:
  assumes "recv_rep base c R (cum, tsns)" and "n \<le> c" and "c < n + 2 ^ 31 - 1"
  shows "track_tsn (tsn_of base n) cum tsns = None"
proof -
  have cum: "cum = tsn_of base c" using assms by (simp add: recv_rep_def)
  have "\<not> TSN_GT (tsn_of base n) (tsn_of base (Suc c))"
    using assms TSN_GT_number [of n "Suc c" base] by (simp add: tsn_of_def)
  moreover have "tsn_of base n \<noteq> tsn_of base (Suc c)" using assms tsn_of_eq [of n "Suc c" base] by simp
  ultimately show ?thesis by (simp add: track_tsn_def cum tsn_of_Suc)
qed

section \<open>Receiving DATA chunks\<close>

text \<open>What the handling of a DATA chunk leaves alone besides the receive tracking.\<close>

definition recv_frame :: "SctpAssociation \<Rightarrow> SctpAssociation \<Rightarrow> bool" where
  "recv_frame a a' = (assoc_wf a' \<and> sa_state a' = sa_state a \<and> sa_myVerificationTag a' = sa_myVerificationTag a \<and>
     sa_peerCumulativeTsnValid a' = sa_peerCumulativeTsnValid a \<and>
     sa_peerCumulativeTsn a' = sa_peerCumulativeTsn a \<and> sa_receivedTsns a' = sa_receivedTsns a)"

lemma send_sack_result:
  assumes "assoc_wf a"
  shows "\<exists>a'. sctpSendSack a = Some a' \<and> recv_frame a a' \<and>
    (\<exists>ps. sa_trace a' = sa_trace a @ map OutboundPacket ps) \<and>
    sa_reassemblyBuf a' = sa_reassemblyBuf a \<and> sa_reassemblyInProgress a' = sa_reassemblyInProgress a \<and>
    sa_reassemblyStreamId a' = sa_reassemblyStreamId a \<and> sa_reassemblyPpid a' = sa_reassemblyPpid a"
proof (cases "sa_peerCumulativeTsnValid a")
  case True
  let ?gaps = "build_gaps (sa_peerCumulativeTsn a) (sort_tsns (take SCTP_MAX_RECEIVED (sa_receivedTsns a))) []"
  have "length ?gaps \<le> 128" using build_gaps_length [of "[]"] by (simp add: SCTP_MAX_GAP_BLOCKS_def)
  then have "sends a (send_chunk a (sa_peerVerificationTag a)
      (\<lambda>b p. sctpWriteSackChunk b p (sa_peerCumulativeTsn a) SCTP_DEFAULT_ARWND ?gaps))"
    using assms by (intro w_sack.send_chunk_sends) (auto simp: mod_simps)
  from sends_wf [OF this assms] obtain b p where
    "send_chunk a (sa_peerVerificationTag a) (\<lambda>b p. sctpWriteSackChunk b p (sa_peerCumulativeTsn a) SCTP_DEFAULT_ARWND ?gaps)
       = Some (a\<lparr>sa_outPacket := b, sa_trace := sa_trace a @ [OutboundPacket p]\<rparr>)"
    "assoc_wf (a\<lparr>sa_outPacket := b, sa_trace := sa_trace a @ [OutboundPacket p]\<rparr>)" by blast
  then show ?thesis using True by (auto simp: sctpSendSack_def recv_frame_def intro: exI [of _ "[p]"])
next
  case False
  then show ?thesis using assms by (auto simp: sctpSendSack_def recv_frame_def intro: exI [of _ "[]"])
qed

lemma deliver_frame:
  assumes "assoc_wf a" and "length payload \<le> SCTP_MAX_REASSEMBLY_SIZE"
  shows "\<exists>a'. deliver_data e flags streamId ssn ppid payload a = Some a' \<and> recv_frame a a'"
proof -
  obtain a' where a': "deliver_data e flags streamId ssn ppid payload a = Some a'" "assoc_wf a'"
    using safe_deliver [OF assms, of e flags streamId ssn ppid] by (auto simp: safe_def)
  then have "recv_frame a a'"
    by (auto simp: deliver_data_def Let_def recv_frame_def bind_Some_iff split: if_splits option.splits)
  with a' show ?thesis by blast
qed

lemma data_value_reads:
  "getUnalignedInt32Be (data_value tsn sid ssn ppid p) 0 = Some tsn"
  "getUnalignedInt16Be (data_value tsn sid ssn ppid p) 4 = Some sid"
  "getUnalignedInt16Be (data_value tsn sid ssn ppid p) 6 = Some ssn"
  "getUnalignedInt32Be (data_value tsn sid ssn ppid p) 8 = Some ppid"
  "drop 12 (data_value tsn sid ssn ppid p) = p"
  by (simp_all add: data_value_def get_Be_shift)

lemma handle_data_eq:
  assumes "sa_state a = SCTP_ASSOC_ESTABLISHED" and "sa_peerCumulativeTsnValid a"
  shows "sctpHandleData e a flags (data_value tsn sid ssn ppid payload) =
    (case track_tsn tsn (sa_peerCumulativeTsn a) (sa_receivedTsns a) of
       None \<Rightarrow> sctpSendSack (a\<lparr>sa_needSack := True\<rparr>)
     | Some (cum, tsns) \<Rightarrow>
         Option.bind (deliver_data e flags sid ssn ppid payload
           (a\<lparr>sa_peerCumulativeTsn := cum, sa_receivedTsns := tsns, sa_needSack := True\<rparr>)) sctpSendSack)"
  using assms by (simp add: sctpHandleData_def data_value_reads mem_simps Let_def)

lemma handle_data_tracks:
  assumes wf: "assoc_wf a" and est: "sa_state a = SCTP_ASSOC_ESTABLISHED" "sa_peerCumulativeTsnValid a"
    and small: "length payload \<le> SCTP_MAX_REASSEMBLY_SIZE"
  shows "\<exists>a'. sctpHandleData e a flags (data_value tsn sid ssn ppid payload) = Some a' \<and> assoc_wf a' \<and>
    sa_state a' = SCTP_ASSOC_ESTABLISHED \<and> sa_peerCumulativeTsnValid a' \<and>
    (sa_peerCumulativeTsn a', sa_receivedTsns a') =
      (case track_tsn tsn (sa_peerCumulativeTsn a) (sa_receivedTsns a) of
         None \<Rightarrow> (sa_peerCumulativeTsn a, sa_receivedTsns a) | Some s \<Rightarrow> s)"
proof (cases "track_tsn tsn (sa_peerCumulativeTsn a) (sa_receivedTsns a)")
  case None
  with send_sack_result [of "a\<lparr>sa_needSack := True\<rparr>"] wf est show ?thesis
    by (auto simp: handle_data_eq [OF est] recv_frame_def)
next
  case (Some s)
  obtain cum tsns where s: "s = (cum, tsns)" by force
  let ?a1 = "a\<lparr>sa_peerCumulativeTsn := cum, sa_receivedTsns := tsns, sa_needSack := True\<rparr>"
  have "length tsns \<le> SCTP_MAX_RECEIVED" using track_tsn_length [OF Some [unfolded s]] wf by (simp add: assoc_wf_def)
  then have "assoc_wf ?a1" using wf by (auto intro!: assoc_wf_received)
  from deliver_frame [OF this small, of e flags sid ssn ppid] obtain a2 where
    a2: "deliver_data e flags sid ssn ppid payload ?a1 = Some a2" "recv_frame ?a1 a2" by blast
  then obtain a3 where "sctpSendSack a2 = Some a3" "recv_frame a2 a3"
    using send_sack_result [of a2] by (auto simp: recv_frame_def)
  with Some a2 est show ?thesis by (auto simp: handle_data_eq [OF est] s recv_frame_def)
qed

lemma rep_room:
  assumes "recv_rep base c R (cum, tsns)" and "received c R \<subseteq> {1..SCTP_MAX_RECEIVED}" and "Suc c \<notin> R"
  shows "length tsns < SCTP_MAX_RECEIVED"
proof -
  have R: "R \<subseteq> {2..SCTP_MAX_RECEIVED}"
  proof
    fix n assume "n \<in> R"
    then have "c < n" "n \<noteq> Suc c" "n \<le> SCTP_MAX_RECEIVED" using assms by (auto simp: recv_rep_def received_def)
    then show "n \<in> {2..SCTP_MAX_RECEIVED}" by simp
  qed
  have "length tsns = card (tsn_of base ` R)" using assms(1) distinct_card by (fastforce simp: recv_rep_def)
  also have "\<dots> \<le> card R" using R by (intro card_image_le) (auto intro: finite_subset)
  also have "\<dots> \<le> card {2..SCTP_MAX_RECEIVED}" using R by (intro card_mono) auto
  finally show ?thesis by (simp add: SCTP_MAX_RECEIVED_def)
qed

text \<open>
  A run of DATA chunks: for each number the flags, stream, sequence number, protocol and
  payload it carries.
\<close>

type_synonym chunk_content = "nat \<Rightarrow> byte \<times> u16 \<times> u16 \<times> u32 \<times> bytes"

definition receive_chunk :: "env \<Rightarrow> u32 \<Rightarrow> chunk_content \<Rightarrow> nat \<Rightarrow> SctpAssociation \<Rightarrow> SctpAssociation option" where
  "receive_chunk e base content n a =
     (case content n of (flags, sid, ssn, ppid, payload) \<Rightarrow>
        sctpHandleData e a flags (data_value (tsn_of base n) sid ssn ppid payload))"

definition recv_state :: "u32 \<Rightarrow> nat set \<Rightarrow> SctpAssociation \<Rightarrow> bool" where
  "recv_state base S a = (assoc_wf a \<and> sa_state a = SCTP_ASSOC_ESTABLISHED \<and> sa_peerCumulativeTsnValid a \<and>
     (\<exists>c R. recv_rep base c R (sa_peerCumulativeTsn a, sa_receivedTsns a) \<and> received c R = S \<and> Suc c \<notin> R))"

lemma receive_chunk_state:
  assumes st: "recv_state base S a" and S: "S \<subseteq> {1..SCTP_MAX_RECEIVED}" and n: "n \<in> {1..SCTP_MAX_RECEIVED}"
    and small: "\<And>n. length (snd (snd (snd (snd (content n))))) \<le> SCTP_MAX_REASSEMBLY_SIZE"
  shows "\<exists>a'. receive_chunk e base content n a = Some a' \<and> recv_state base (insert n S) a'"
proof -
  obtain flags sid ssn ppid payload where c: "content n = (flags, sid, ssn, ppid, payload)" by (metis prod.exhaust)
  obtain c R where rep: "recv_rep base c R (sa_peerCumulativeTsn a, sa_receivedTsns a)"
    and rcv: "received c R = S" and gap: "Suc c \<notin> R" and wf: "assoc_wf a"
    and est: "sa_state a = SCTP_ASSOC_ESTABLISHED" "sa_peerCumulativeTsnValid a"
    using st by (auto simp: recv_state_def)
  have pl: "length payload \<le> SCTP_MAX_REASSEMBLY_SIZE" using small [of n] c by simp
  have "\<exists>c' R'. recv_rep base c' R' (case track_tsn (tsn_of base n) (sa_peerCumulativeTsn a) (sa_receivedTsns a) of
         None \<Rightarrow> (sa_peerCumulativeTsn a, sa_receivedTsns a) | Some s \<Rightarrow> s) \<and> received c' R' = insert n S \<and> Suc c' \<notin> R'"
  proof (cases "n \<le> c")
    case True
    have "c < n + 2 ^ 31 - 1"
      using S rcv True n by (cases "c = 0") (auto simp: received_def SCTP_MAX_RECEIVED_def)
    then have "track_tsn (tsn_of base n) (sa_peerCumulativeTsn a) (sa_receivedTsns a) = None"
      by (rule track_tsn_old [OF rep True])
    moreover have "insert n S = S" using rcv True n by (auto simp: received_def)
    ultimately show ?thesis using rep rcv gap by auto
  next
    case False
    then have "n < c + 2 ^ 31" using n by (simp add: SCTP_MAX_RECEIVED_def)
    with False track_tsn_new [OF rep _ _ _ gap, of n] rep_room [OF rep _ gap] S rcv show ?thesis by fastforce
  qed
  with handle_data_tracks [OF wf est pl, of e flags "tsn_of base n" sid ssn ppid]
  show ?thesis by (fastforce simp: receive_chunk_def c recv_state_def)
qed

lemma receive_chunks_state:
  assumes "recv_state base S a" and "S \<subseteq> {1..SCTP_MAX_RECEIVED}" and "set ns \<subseteq> {1..SCTP_MAX_RECEIVED}"
    and "\<And>n. length (snd (snd (snd (snd (content n))))) \<le> SCTP_MAX_REASSEMBLY_SIZE"
  shows "\<exists>a'. for_each (receive_chunk e base content) ns a = Some a' \<and> recv_state base (S \<union> set ns) a'"
  using assms
proof (induction ns arbitrary: S a)
  case (Cons n ns)
  from Cons.prems obtain a1 where a1: "receive_chunk e base content n a = Some a1" "recv_state base (insert n S) a1"
    using receive_chunk_state [of base S a n content e] by auto
  with Cons.IH [OF a1(2)] Cons.prems show ?case by auto
qed simp

section \<open>Sorting the out-of-order TSNs\<close>

definition tsn_offset :: "u32 \<Rightarrow> u32 \<Rightarrow> nat" where
  "tsn_offset cum tsn = unat (tsn - cum)"

lemma tsn_offset_inverse [simp]: "cum + word_of_nat (tsn_offset cum tsn) = tsn"
  by (simp add: tsn_offset_def)

lemma TSN_GT_offset:
  assumes "tsn_offset cum a < 2 ^ 31" and "tsn_offset cum b < 2 ^ 31"
  shows "TSN_GT a b = (tsn_offset cum b < tsn_offset cum a)"
  using TSN_GT_number [of "tsn_offset cum a" "tsn_offset cum b" cum] assms by simp

lemma insert_shift_split:
  "\<exists>A1 A2. A = A1 @ A2 \<and> insert_shift (A @ h # C) (length A) temp = A1 @ temp # A2 @ C \<and>
     (\<forall>y \<in> set A2. TSN_GT y temp) \<and> (A1 \<noteq> [] \<longrightarrow> \<not> TSN_GT (last A1) temp)"
proof (induction A arbitrary: h C rule: rev_induct)
  case (snoc y A)
  show ?case
  proof (cases "TSN_GT y temp")
    case True
    have "insert_shift ((A @ [y]) @ h # C) (length (A @ [y])) temp = insert_shift (A @ y # (y # C)) (length A) temp"
      using True by (simp add: nth_append list_update_append)
    moreover obtain A1 A2 where "A = A1 @ A2" "insert_shift (A @ y # (y # C)) (length A) temp = A1 @ temp # A2 @ (y # C)"
      "\<forall>z \<in> set A2. TSN_GT z temp" "A1 \<noteq> [] \<longrightarrow> \<not> TSN_GT (last A1) temp"
      using snoc [of y "y # C"] by auto
    ultimately show ?thesis using True by (intro exI [of _ A1] exI [of _ "A2 @ [y]"]) auto
  next
    case False
    then show ?thesis
      by (intro exI [of _ "A @ [y]"] exI [of _ "[]"]) (simp add: nth_append list_update_append)
  qed
qed simp

lemma insert_shift_sorted:
  assumes win: "\<forall>t \<in> set (A @ [temp]). tsn_offset cum t < 2 ^ 31" and "sorted (map (tsn_offset cum) A)"
  shows "\<exists>B. insert_shift (A @ temp # C) (length A) temp = B @ C \<and> mset B = mset (A @ [temp]) \<and>
    sorted (map (tsn_offset cum) B)"
proof -
  obtain A1 A2 where A: "A = A1 @ A2" and ins: "insert_shift (A @ temp # C) (length A) temp = A1 @ temp # A2 @ C"
    and gt: "\<forall>y \<in> set A2. TSN_GT y temp" and le: "A1 \<noteq> [] \<longrightarrow> \<not> TSN_GT (last A1) temp"
    using insert_shift_split by blast
  have s: "sorted (map (tsn_offset cum) A1)" "sorted (map (tsn_offset cum) A2)"
    "\<forall>x \<in> set A1. \<forall>y \<in> set A2. tsn_offset cum x \<le> tsn_offset cum y"
    using assms(2) by (auto simp: A sorted_append)
  have "tsn_offset cum temp \<le> tsn_offset cum y" if "y \<in> set A2" for y
    using gt that win by (auto simp: A TSN_GT_offset [of cum] less_imp_le)
  moreover have "tsn_offset cum x \<le> tsn_offset cum temp" if "x \<in> set A1" for x
  proof (cases A1 rule: rev_cases)
    case (snoc zs z)
    have "tsn_offset cum x \<le> tsn_offset cum z" using s(1) that snoc by (auto simp: sorted_append)
    also have "\<dots> \<le> tsn_offset cum temp" using le win snoc by (auto simp: A TSN_GT_offset [of cum] not_less)
    finally show ?thesis .
  qed (use that in simp)
  ultimately have "sorted (map (tsn_offset cum) (A1 @ temp # A2))" using s by (auto simp: sorted_append)
  moreover have "mset (A1 @ temp # A2) = mset (A @ [temp])" by (simp add: A)
  ultimately show ?thesis using ins by (intro exI [of _ "A1 @ temp # A2"]) simp
qed

lemma sort_tsns_prefix:
  assumes "\<forall>t \<in> set xs. tsn_offset cum t < 2 ^ 31" and "n \<le> length xs" and "1 \<le> n"
  shows "\<exists>B. fold (\<lambda>i ys. insert_shift ys i (ys ! i)) [1..<n] xs = B @ drop n xs \<and>
    mset B = mset (take n xs) \<and> sorted (map (tsn_offset cum) B)"
  using assms(3,2)
proof (induction n rule: nat_induct_at_least)
  case base
  have "sorted (map (tsn_offset cum) (take 1 xs))" by (cases xs) auto
  then show ?case by (intro exI [of _ "take 1 xs"]) simp
next
  case (Suc n)
  then obtain B where B: "fold (\<lambda>i ys. insert_shift ys i (ys ! i)) [1..<n] xs = B @ drop n xs"
    "mset B = mset (take n xs)" "sorted (map (tsn_offset cum) B)" by auto
  have lB: "length B = n" using mset_eq_length [OF B(2)] Suc.prems by simp
  have dr: "drop n xs = xs ! n # drop (Suc n) xs" using Suc.prems by (simp add: Cons_nth_drop_Suc)
  have "set B = set (take n xs)" by (rule mset_eq_setD [OF B(2)])
  then have "\<forall>t \<in> set (B @ [xs ! n]). tsn_offset cum t < 2 ^ 31"
    using assms(1) Suc.prems by (auto dest: in_set_takeD)
  then obtain B' where B': "insert_shift (B @ xs ! n # drop (Suc n) xs) (length B) (xs ! n) = B' @ drop (Suc n) xs"
    "mset B' = mset (B @ [xs ! n])" "sorted (map (tsn_offset cum) B')"
    using insert_shift_sorted [OF _ B(3)] by blast
  have "fold (\<lambda>i ys. insert_shift ys i (ys ! i)) [1..<Suc n] xs = B' @ drop (Suc n) xs"
    using B(1) B'(1) Suc.hyps lB by (simp add: dr nth_append)
  moreover have "mset B' = mset (take (Suc n) xs)"
    using B(2) B'(2) Suc.prems by (simp add: take_Suc_conv_app_nth)
  ultimately show ?case using B'(3) by blast
qed

lemma sort_tsns_sorted:
  assumes "\<forall>t \<in> set xs. tsn_offset cum t < 2 ^ 31"
  shows "mset (sort_tsns xs) = mset xs" and "sorted (map (tsn_offset cum) (sort_tsns xs))"
proof -
  have "mset (sort_tsns xs) = mset xs \<and> sorted (map (tsn_offset cum) (sort_tsns xs))"
  proof (cases xs)
    case Nil
    then show ?thesis by (simp add: sort_tsns_def)
  next
    case (Cons x ys)
    then show ?thesis using sort_tsns_prefix [OF assms, of "length xs"] by (auto simp: sort_tsns_def)
  qed
  then show "mset (sort_tsns xs) = mset xs" "sorted (map (tsn_offset cum) (sort_tsns xs))" by auto
qed

section \<open>Gap blocks\<close>

definition gaps_cover :: "(u16 \<times> u16) list \<Rightarrow> nat \<Rightarrow> bool" where
  "gaps_cover gaps n = (\<exists>(s, e) \<in> set gaps. unat s \<le> n \<and> n \<le> unat e)"

lemma gap_covers_offset:
  assumes "n < 2 ^ 31"
  shows "gap_covers cum s e (cum + word_of_nat n) = (unat s \<le> n \<and> n \<le> unat e)"
proof -
  have small: "unat x < 2 ^ 31" for x :: u16
  proof -
    have "unat x < 2 ^ LENGTH(16)" by (rule unsigned_less)
    then show ?thesis by simp
  qed
  show ?thesis
    using TSN_GTE_number [of n "unat s" cum] TSN_GT_number [of n "unat e" cum] small [of s] small [of e] assms
    by (simp add: gap_covers_def TSN_LTE_iff not_less)
qed

lemma gaps_cover_snoc: "gaps_cover (gaps @ [(s, e)]) n = (gaps_cover gaps n \<or> unat s \<le> n \<and> n \<le> unat e)"
  by (auto simp: gaps_cover_def)

lemma gaps_cover_extend:
  assumes "gaps \<noteq> []" and "unat e = unat (snd (last gaps)) + 1" and "unat (fst (last gaps)) \<le> unat (snd (last gaps)) + 1"
  shows "gaps_cover (butlast gaps @ [(fst (last gaps), e)]) n = (gaps_cover gaps n \<or> n = unat e)"
proof -
  obtain gs s e' where g: "gaps = gs @ [(s, e')]" using assms(1) by (metis prod.exhaust rev_exhaust)
  show ?thesis using assms by (auto simp: g gaps_cover_snoc)
qed

lemma unat_offset16: "tsn_offset cum tsn < 2 ^ 16 \<Longrightarrow> unat (ucast (tsn - cum) :: u16) = tsn_offset cum tsn"
  by (simp add: tsn_offset_def unsigned_ucast_eq take_bit_nat_eq_self)

abbreviation last_gap_ok :: "(u16 \<times> u16) list \<Rightarrow> bool" where
  "last_gap_ok gaps \<equiv> gaps \<noteq> [] \<longrightarrow> unat (fst (last gaps)) \<le> unat (snd (last gaps))"

lemma build_gaps_step:
  assumes off: "0 < tsn_offset cum tsn" "tsn_offset cum tsn < 2 ^ 16" and room: "length gaps < SCTP_MAX_GAP_BLOCKS"
    and ok: "last_gap_ok gaps"
  obtains gaps1 where "build_gaps cum (tsn # tsns) gaps = build_gaps cum tsns gaps1" and "last_gap_ok gaps1"
    and "\<And>n. gaps_cover gaps1 n = (gaps_cover gaps n \<or> n = tsn_offset cum tsn)"
proof -
  let ?o = "ucast (tsn - cum) :: u16"
  have o: "unat ?o = tsn_offset cum tsn" using off(2) by (rule unat_offset16)
  have gt: "\<not> TSN_LTE tsn cum" using off by (auto simp: TSN_LTE_iff TSN_GT_iff tsn_offset_def)
  show ?thesis
  proof (cases "gaps \<noteq> [] \<and> unat ?o = unat (snd (last gaps)) + 1")
    case True
    then show ?thesis
      using that [of "butlast gaps @ [(fst (last gaps), ?o)]"] gt room ok gaps_cover_extend [of gaps ?o] o
      by (simp add: Let_def)
  next
    case False
    have "gaps_cover (gaps @ [(?o, ?o)]) n = (gaps_cover gaps n \<or> n = tsn_offset cum tsn)" for n
      using o by (auto simp: gaps_cover_snoc)
    moreover have "build_gaps cum (tsn # tsns) gaps = build_gaps cum tsns (gaps @ [(?o, ?o)])"
      using False gt room by (auto simp: Let_def)
    ultimately show ?thesis using that [of "gaps @ [(?o, ?o)]"] by simp
  qed
qed

lemma build_gaps_full: "\<not> length gaps < SCTP_MAX_GAP_BLOCKS \<Longrightarrow> build_gaps cum tsns gaps = gaps"
  by (cases tsns) auto

lemma build_gaps_sound:
  assumes "\<forall>t \<in> set tsns. 0 < tsn_offset cum t \<and> tsn_offset cum t < 2 ^ 16" and "last_gap_ok gaps"
    and "gaps_cover (build_gaps cum tsns gaps) n"
  shows "gaps_cover gaps n \<or> n \<in> tsn_offset cum ` set tsns"
  using assms
proof (induction tsns arbitrary: gaps)
  case (Cons t tsns)
  show ?case
  proof (cases "length gaps < SCTP_MAX_GAP_BLOCKS")
    case True
    obtain gaps1 where g1: "build_gaps cum (t # tsns) gaps = build_gaps cum tsns gaps1" "last_gap_ok gaps1"
      "\<And>n. gaps_cover gaps1 n = (gaps_cover gaps n \<or> n = tsn_offset cum t)"
      using build_gaps_step [OF _ _ True Cons.prems(2)] Cons.prems(1) by (metis list.set_intros(1))
    show ?thesis using Cons.IH [OF _ g1(2)] Cons.prems g1 by auto
  qed (use Cons.prems build_gaps_full [of gaps cum "t # tsns"] in simp)
qed simp

lemma build_gaps_complete:
  assumes "\<forall>t \<in> set tsns. 0 < tsn_offset cum t \<and> tsn_offset cum t < 2 ^ 16" and "last_gap_ok gaps"
    and "length (build_gaps cum tsns gaps) < SCTP_MAX_GAP_BLOCKS"
    and "gaps_cover gaps n \<or> n \<in> tsn_offset cum ` set tsns"
  shows "gaps_cover (build_gaps cum tsns gaps) n"
  using assms
proof (induction tsns arbitrary: gaps)
  case (Cons t tsns)
  have room: "length gaps < SCTP_MAX_GAP_BLOCKS"
    using Cons.prems(3) build_gaps_full [of gaps cum "t # tsns"] by (metis)
  obtain gaps1 where g1: "build_gaps cum (t # tsns) gaps = build_gaps cum tsns gaps1" "last_gap_ok gaps1"
    "\<And>n. gaps_cover gaps1 n = (gaps_cover gaps n \<or> n = tsn_offset cum t)"
    using build_gaps_step [OF _ _ room Cons.prems(2)] Cons.prems(1) by (metis list.set_intros(1))
  show ?case using Cons.IH [OF _ g1(2)] Cons.prems g1 by auto
qed simp

lemma build_gaps_le: "length (build_gaps cum tsns gaps) \<le> length gaps + length tsns"
  by (induction cum tsns gaps rule: build_gaps.induct) (auto simp: Let_def)

section \<open>Properties\<close>

text \<open>
  C6. Receive tracking implements a set: whatever the order in which DATA chunks 1 to 2048
  arrive, duplicated or not, the cumulative TSN is the end of the gapless prefix of what has
  arrived and \<open>receivedTsns\<close> lists exactly the chunks beyond it, each once.
\<close>

theorem receive_any_order:
  assumes "assoc_wf a" and "sa_state a = SCTP_ASSOC_ESTABLISHED" and "sa_peerCumulativeTsnValid a"
    and "sa_peerCumulativeTsn a = base" and "sa_receivedTsns a = []" and "set ns \<subseteq> {1..SCTP_MAX_RECEIVED}"
    and "\<And>n. length (snd (snd (snd (snd (content n))))) \<le> SCTP_MAX_REASSEMBLY_SIZE"
  shows "\<exists>a' c. for_each (receive_chunk e base content) ns a = Some a' \<and>
    {1..c} \<subseteq> set ns \<and> Suc c \<notin> set ns \<and> sa_peerCumulativeTsn a' = tsn_of base c \<and>
    distinct (sa_receivedTsns a') \<and> set (sa_receivedTsns a') = tsn_of base ` {n \<in> set ns. c < n}"
proof -
  have "recv_state base {} a"
    unfolding recv_state_def recv_rep_def
    using assms by (auto simp: received_def tsn_of_def intro!: exI [of _ 0] exI [of _ "{}"])
  then obtain a' where a': "for_each (receive_chunk e base content) ns a = Some a'" "recv_state base (set ns) a'"
    using receive_chunks_state [of base "{}" a ns content e] assms(6,7) by auto
  then obtain c R where rep: "recv_rep base c R (sa_peerCumulativeTsn a', sa_receivedTsns a')"
    and ns: "received c R = set ns" and gap: "Suc c \<notin> R" by (auto simp: recv_state_def)
  have "R = {n \<in> set ns. c < n}" using rep by (auto simp: recv_rep_def received_def simp flip: ns)
  then show ?thesis
    using a'(1) rep gap ns by (intro exI [of _ a'] exI [of _ c]) (auto simp: recv_rep_def received_def)
qed

text \<open>
  C7. The gap blocks of a SACK are exact: as long as every out-of-order TSN is less than 65536
  ahead of the cumulative one, a receiver of the SACK, which decides with the same serial
  comparisons, finds a TSN covered only if it was received, and, unless all 128 blocks are
  used up, finds every received TSN covered.
\<close>

theorem sack_reports_received:
  assumes "\<forall>t \<in> set tsns. 0 < tsn_offset cum t \<and> tsn_offset cum t < 2 ^ 16" and "tsn_offset cum tsn < 2 ^ 31"
  shows "((\<exists>(s, e) \<in> set (build_gaps cum (sort_tsns tsns) []). gap_covers cum s e tsn) \<longrightarrow> tsn \<in> set tsns) \<and>
    (length (build_gaps cum (sort_tsns tsns) []) < SCTP_MAX_GAP_BLOCKS \<longrightarrow> tsn \<in> set tsns \<longrightarrow>
      (\<exists>(s, e) \<in> set (build_gaps cum (sort_tsns tsns) []). gap_covers cum s e tsn))"
proof -
  have "\<forall>t \<in> set tsns. tsn_offset cum t < 2 ^ 31" using assms(1) by fastforce
  then have s: "set (sort_tsns tsns) = set tsns" using sort_tsns_sorted(1) mset_eq_setD by blast
  let ?gaps = "build_gaps cum (sort_tsns tsns) []"
  have "gap_covers cum s e tsn = (unat s \<le> tsn_offset cum tsn \<and> tsn_offset cum tsn \<le> unat e)" for s e
    using gap_covers_offset [OF assms(2), of cum s e] by simp
  then have cov: "(\<exists>(s, e) \<in> set ?gaps. gap_covers cum s e tsn) = gaps_cover ?gaps (tsn_offset cum tsn)"
    by (simp add: gaps_cover_def)
  have mem: "(tsn_offset cum tsn \<in> tsn_offset cum ` set tsns) = (tsn \<in> set tsns)"
    by (auto simp: image_iff) (metis tsn_offset_inverse)
  show ?thesis
    unfolding cov using build_gaps_sound [of "sort_tsns tsns" cum "[]" "tsn_offset cum tsn"]
      build_gaps_complete [of "sort_tsns tsns" cum "[]" "tsn_offset cum tsn"] assms(1) s mem
    by (auto simp: gaps_cover_def)
qed

text \<open>
  The insertion sort of \<open>sctpSendSack\<close> returns its input reordered, ascending in distance
  from the cumulative TSN, also where TSNs wrap around zero.
\<close>

lemma sort_tsns_correct:
  assumes "\<forall>t \<in> set tsns. tsn_offset cum t < 2 ^ 31"
  shows "mset (sort_tsns tsns) = mset tsns \<and> sorted (map (tsn_offset cum) (sort_tsns tsns))"
  using sort_tsns_sorted [OF assms] by simp

text \<open>
  The TSN comparisons are the order of the numbers they stand for, on any two numbers less
  than \<open>2 ^ 31\<close> apart, wherever the 32-bit counter wraps.
\<close>

lemma tsn_serial_order:
  assumes "m < n + 2 ^ 31" and "n < m + 2 ^ 31"
  shows "TSN_GT (tsn_of base m) (tsn_of base n) = (n < m) \<and> TSN_GTE (tsn_of base m) (tsn_of base n) = (n \<le> m) \<and>
    TSN_LTE (tsn_of base m) (tsn_of base n) = (m \<le> n) \<and> TSN_LT (tsn_of base m) (tsn_of base n) = (m < n)"
proof -
  have "TSN_LT a b = (\<not> TSN_GTE a b)" for a b by (auto simp: TSN_LT_def TSN_GTE_def)
  then show ?thesis
    unfolding tsn_of_def TSN_LTE_iff using TSN_GT_number [OF assms] TSN_GTE_number [OF assms] by (simp add: not_less not_le)
qed

lemma tsn_serial_order_witness:
  "TSN_GT (tsn_of 0xFFFFFFFE 5) (tsn_of 0xFFFFFFFE 1) \<and> TSN_LT (tsn_of 0xFFFFFFFE 1) (tsn_of 0xFFFFFFFE 5)"
  using tsn_serial_order [of 5 1 "0xFFFFFFFE"] tsn_serial_order [of 1 5 "0xFFFFFFFE"] by simp

lemma sort_tsns_correct_witness:
  "mset (sort_tsns [2, 0xFFFFFFFF, 1]) = mset [2, 0xFFFFFFFF, 1] \<and>
   sorted (map (tsn_offset 0xFFFFFFFE) (sort_tsns [2, 0xFFFFFFFF, 1]))"
  by (rule sort_tsns_correct) (simp add: tsn_offset_def)

theorem sack_reports_received_witness:
  "(\<exists>(s, e) \<in> set (build_gaps 10 (sort_tsns [14, 12, 13]) []). gap_covers 10 s e 14) \<and>
   \<not> (\<exists>(s, e) \<in> set (build_gaps 10 (sort_tsns [14, 12, 13]) []). gap_covers 10 s e 11)"
proof -
  have pre: "\<forall>t \<in> set [14, 12, 13]. 0 < tsn_offset 10 t \<and> tsn_offset 10 t < 2 ^ 16" by (simp add: tsn_offset_def)
  have "mset (sort_tsns [14, 12, 13]) = mset [14, 12, 13]"
    by (rule sort_tsns_sorted(1) [of _ 10]) (simp add: tsn_offset_def)
  then have "length (sort_tsns [14, 12, 13]) = 3" using mset_eq_length by fastforce
  then have "length (build_gaps 10 (sort_tsns [14, 12, 13]) []) < SCTP_MAX_GAP_BLOCKS"
    using build_gaps_le [of 10 "sort_tsns [14, 12, 13]" "[]"] by (simp add: SCTP_MAX_GAP_BLOCKS_def)
  then show ?thesis
    using sack_reports_received [OF pre, of 14] sack_reports_received [OF pre, of 11] by (simp add: tsn_offset_def)
qed

text \<open>An established association that has received nothing yet.\<close>

definition established0 :: SctpAssociation where
  "established0 = assoc0\<lparr>sa_state := SCTP_ASSOC_ESTABLISHED, sa_peerCumulativeTsnValid := True\<rparr>"

lemma established0_wf [simp]: "assoc_wf established0"
  unfolding established0_def by (simp add: reachable_wf [OF assoc0_reachable])

lemma established0_simps [simp]:
  "sa_state established0 = SCTP_ASSOC_ESTABLISHED" "sa_peerCumulativeTsnValid established0"
  "sa_peerCumulativeTsn established0 = 0" "sa_receivedTsns established0 = []"
  by (simp_all add: established0_def assoc0_def sctpAssocInit_def Let_def)

theorem receive_any_order_witness:
  "\<exists>a' c. for_each (receive_chunk env0 0 (\<lambda>n. (3, 1, 0, 51, [1, 2]))) [2, 4, 1, 2] established0 = Some a' \<and>
    {1..c} \<subseteq> set [2, 4, 1, 2] \<and> Suc c \<notin> set [2, 4, 1, 2] \<and> sa_peerCumulativeTsn a' = tsn_of 0 c \<and>
    distinct (sa_receivedTsns a') \<and> set (sa_receivedTsns a') = tsn_of 0 ` {n \<in> set [2, 4, 1, 2]. c < n}"
  by (rule receive_any_order) (simp_all add: SCTP_MAX_RECEIVED_def SCTP_MAX_REASSEMBLY_SIZE_def)

end
