(* ===== verification/SctpHandshake.thy ===== *)
theory SctpHandshake
  imports SctpInvariant
begin

text \<open>
  Two associations talking to each other: packets that one of them sends, handled by the
  other. The four-way handshake INIT, INIT-ACK, COOKIE-ECHO, COOKIE-ACK establishes both.
\<close>

section \<open>Handling a packet with one chunk\<close>

lemma finalized_eq:
  assumes "length c = 4"
  shows "\<exists>crc. finalized (common_layout sp dp vtag c @ r) = common_layout sp dp vtag crc @ r \<and> length crc = 4"
proof -
  let ?x = "common_layout sp dp vtag c @ r"
  let ?crc = "le32 (sctpCrc32c (bsplice ?x 8 [0, 0, 0, 0]))"
  have "finalized ?x = common_layout sp dp vtag ?crc @ r"
    unfolding finalized_def using assms by (simp add: bsplice_def common_layout_def)
  then show ?thesis by (intro exI [of _ ?crc]) simp
qed

lemma vtag_common_layout: "vtag_ok (common_layout sp dp vtag crc @ r) v = (vtag = 0 \<or> v = 0 \<or> vtag = v)"
  by (simp add: vtag_ok_def common_layout_def get_Be_shift)

lemma handle_single:
  assumes "4 + length v < 2 ^ 16" and "length pad = SCTP_PAD4 (4 + length v) - (4 + length v)"
    and "vtag = 0 \<or> sa_myVerificationTag a = 0 \<or> vtag = sa_myVerificationTag a"
  shows "sctpAssocHandlePacket e a (finalized (common_layout sp dp vtag (be32 0) @ chunk_layout t f v @ pad)) =
    sctpChunkDispatch e t f v a"
proof -
  let ?x = "common_layout sp dp vtag (be32 0) @ chunk_layout t f v @ pad"
  obtain crc where crc: "finalized ?x = common_layout sp dp vtag crc @ chunk_layout t f v @ pad" "length crc = 4"
    using finalized_eq [of "be32 0" sp dp vtag "chunk_layout t f v @ pad"] by auto
  have ck: "checksum_ok (finalized ?x)" by (rule checksum_finalized) simp
  have len: "\<not> length (finalized ?x) < 12" by simp
  have vt: "vtag_ok (finalized ?x) (sa_myVerificationTag a)" using crc assms(3) by (simp add: vtag_common_layout)
  have po: "pads_ok [(t, f, v)] [pad]" using assms(1,2) by (simp add: pads_ok_def)
  have "sctpParseChunks (finalized ?x) (sctpChunkDispatch e) a = for_chunks (sctpChunkDispatch e) [(t, f, v)] a"
    using parse_wire_chunks [OF po, of "common_layout sp dp vtag crc" "sctpChunkDispatch e" a] crc
    by (simp add: sctpParseChunks_def)
  also have "\<dots> = sctpChunkDispatch e t f v a"
    by (auto simp: sctpChunkDispatch_def bind_eq_None_conv split: bind_splits)
  finally show ?thesis using len ck vt by (simp add: sctpAssocHandlePacket_def sctpValidatePacket_spec)
qed

section \<open>Exchanging packets\<close>

definition new_packets :: "SctpAssociation \<Rightarrow> SctpAssociation \<Rightarrow> bytes list" where
  "new_packets a a' = concat (map (\<lambda>ev. case ev of OutboundPacket p \<Rightarrow> [p] | InboundMessage _ _ _ \<Rightarrow> [])
     (drop (length (sa_trace a)) (sa_trace a')))"

definition deliver_packets :: "env \<Rightarrow> bytes list \<Rightarrow> SctpAssociation \<Rightarrow> SctpAssociation option" where
  "deliver_packets e ps a = for_each (\<lambda>p a. map_option snd (sctpAssocHandlePacket e a p)) ps a"

definition handshake ::
  "env \<Rightarrow> env \<Rightarrow> SctpAssociation \<Rightarrow> SctpAssociation \<Rightarrow> (SctpAssociation \<times> SctpAssociation) option" where
  "handshake eA eB A B =
     do { A1 \<leftarrow> sctpAssocConnect eA A;
          B1 \<leftarrow> deliver_packets eB (new_packets A A1) B;
          A2 \<leftarrow> deliver_packets eA (new_packets B B1) A1;
          B2 \<leftarrow> deliver_packets eB (new_packets A1 A2) B1;
          A3 \<leftarrow> deliver_packets eA (new_packets B1 B2) A2;
          Some (A3, B2) }"

lemma deliver_one: "deliver_packets e [p] a = map_option snd (sctpAssocHandlePacket e a p)"
  unfolding deliver_packets_def by (cases "sctpAssocHandlePacket e a p") simp_all

lemma deliver_dispatch:
  assumes "4 + length v < 2 ^ 16" and "SCTP_PAD4 (4 + length v) = 4 + length v"
    and "vtag = 0 \<or> sa_myVerificationTag a = 0 \<or> vtag = sa_myVerificationTag a"
  shows "deliver_packets e [finalized (common_layout sp dp vtag (be32 0) @ chunk_layout t f v)] a =
    map_option snd (sctpChunkDispatch e t f v a)"
  using handle_single [of v "[]" vtag a e sp dp t f] assms by (simp add: deliver_one)

text \<open>A sender whose chunk needs no padding: exactly one packet, known byte for byte.\<close>

context chunk_writer
begin

lemma send_chunk_exact:
  assumes "assoc_wf a" and "size \<le> 1188" and "length layout = size"
  shows "\<exists>b. send_chunk a vtag wr = Some (a\<lparr>sa_outPacket := b, sa_trace := sa_trace a @
      [OutboundPacket (finalized (common_layout (sa_localPort a) (sa_remotePort a) vtag (be32 0) @ layout))]\<rparr>) \<and>
    length b = 1200"
  using send_chunk_spec [of a vtag] assms by (auto simp: assoc_wf_def)

end

section \<open>Reading the handshake chunks\<close>

lemma init_value_reads:
  "getUnalignedInt32Be (init_value tag arwnd out inn tsn @ r) 0 = Some tag"
  "getUnalignedInt32Be (init_value tag arwnd out inn tsn @ r) 4 = Some arwnd"
  "getUnalignedInt16Be (init_value tag arwnd out inn tsn @ r) 8 = Some out"
  "getUnalignedInt16Be (init_value tag arwnd out inn tsn @ r) 10 = Some inn"
  "getUnalignedInt32Be (init_value tag arwnd out inn tsn @ r) 12 = Some tsn"
  by (simp_all add: init_value_def get_Be_shift)

lemma find_cookie_first:
  assumes "length cookie = 44"
  shows "find_cookie (init_value tag arwnd out inn tsn @ cookie_param cookie @ r) 16 = Some (Some cookie)"
proof -
  let ?v = "init_value tag arwnd out inn tsn @ cookie_param cookie @ r"
  have rd: "getUnalignedInt16Be ?v 16 = Some SCTP_PARAM_STATE_COOKIE" "getUnalignedInt16Be ?v (16 + 2) = Some 48"
    using assms by (simp_all add: get_Be_shift cookie_param_def)
  have "memread ?v (16 + 4) 44 = Some cookie"
    using assms by (simp add: memread_def cookie_param_def)
  then show ?thesis using rd assms by (simp add: find_cookie.simps [of ?v] Let_def)
qed

lemma native32_length [simp]: "length (native_bytes32 g w) = 4" "length (native_bytes64 g x) = 8"
  by (simp_all add: native_bytes32_def native_bytes64_def)

lemma native32_shift: "length xs \<le> p \<Longrightarrow> native32 g (xs @ ys) p = native32 g ys (p - length xs)"
  by (simp add: native32_def get_Be_shift get_Le_shift)

lemma native32_bytes [simp]: "native32 g (native_bytes32 g w @ r) 0 = Some w"
  by (simp add: native32_def native_bytes32_def)

lemma cookie_reads:
  "native32 g (cookie_bytes g c) 0 = Some (ck_magic1 c)"
  "native32 g (cookie_bytes g c) 4 = Some (ck_magic2 c)"
  "native32 g (cookie_bytes g c) 8 = Some (ck_peerTag c)"
  "native32 g (cookie_bytes g c) 16 = Some (ck_peerInitialTsn c)"
  "native32 g (cookie_bytes g c) 24 = Some (ck_peerArwnd c)"
  by (simp_all add: cookie_bytes_def native32_shift)

section \<open>The four steps\<close>

lemma flush_empty:
  assumes "\<forall>q \<in> set (sa_sendQueue a). \<not> q_inUse q" and "length (sa_sendQueue a) = SCTP_MAX_QUEUED_MESSAGES"
  shows "sctpFlushSendQueue e a = Some a"
proof -
  have "for_each (flush_slot e) is a = Some a" if "\<forall>i \<in> set is. i < length (sa_sendQueue a)" for "is"
    using that assms(1) by (induction "is") (auto simp: flush_slot_def Let_def)
  then show ?thesis using assms(2) by (simp add: sctpFlushSendQueue_def)
qed

definition quiet :: "SctpAssociation \<Rightarrow> bool" where
  "quiet a = (assoc_wf a \<and> (\<forall>q \<in> set (sa_sendQueue a). \<not> q_inUse q))"

text \<open>The fields that stay as they are during the handshake.\<close>

definition same_identity :: "SctpAssociation \<Rightarrow> SctpAssociation \<Rightarrow> bool" where
  "same_identity a a' = (quiet a' \<and> sa_myVerificationTag a' = sa_myVerificationTag a \<and> sa_nextTsn a' = sa_nextTsn a)"

lemma connect_step:
  assumes "quiet A"
  shows "\<exists>A1 sp dp. sctpAssocConnect e A = Some A1 \<and> same_identity A A1 \<and> sa_state A1 = SCTP_ASSOC_COOKIE_WAIT \<and>
    new_packets A A1 = [finalized (common_layout sp dp 0 (be32 0) @ chunk_layout SCTP_CHUNK_INIT 0
      (init_value (sa_myVerificationTag A) SCTP_DEFAULT_ARWND 300 300 (sa_nextTsn A) @ forward_tsn_param))]"
proof -
  have wf: "assoc_wf A" using assms by (simp add: quiet_def)
  obtain b where "send_init A = Some (A\<lparr>sa_outPacket := b, sa_trace := sa_trace A @ [OutboundPacket
      (finalized (common_layout (sa_localPort A) (sa_remotePort A) 0 (be32 0) @ chunk_layout SCTP_CHUNK_INIT 0
        (init_value (sa_myVerificationTag A) SCTP_DEFAULT_ARWND 300 300 (sa_nextTsn A) @ forward_tsn_param)))]\<rparr>)"
    using w_init.send_chunk_exact [OF wf, of "sa_myVerificationTag A" SCTP_DEFAULT_ARWND 300 300 "sa_nextTsn A" 0]
    by (auto simp: send_init_def SCTP_MAX_STREAMS_def)
  moreover have "safe (sctpAssocConnect e A)" using wf by (rule safe_connect)
  ultimately show ?thesis
    using assms by (auto simp: sctpAssocConnect_def same_identity_def quiet_def new_packets_def)
qed

definition good_cookie :: "SctpCookie \<Rightarrow> u32 \<Rightarrow> u32 \<Rightarrow> u32 \<Rightarrow> bool" where
  "good_cookie ck tag tsn arwnd = (ck_magic1 ck = SCTP_COOKIE_MAGIC1 \<and> ck_magic2 ck = SCTP_COOKIE_MAGIC2 \<and>
     ck_peerTag ck = tag \<and> ck_peerInitialTsn ck = tsn \<and> ck_peerArwnd ck = arwnd)"

lemma init_step:
  assumes "quiet B"
  shows "\<exists>B1 sp' dp' ck. deliver_packets e [finalized (common_layout sp dp 0 (be32 0) @ chunk_layout SCTP_CHUNK_INIT 0
      (init_value tag arwnd out inn tsn @ forward_tsn_param))] B = Some B1 \<and>
    same_identity B B1 \<and> good_cookie ck tag tsn arwnd \<and>
    new_packets B B1 = [finalized (common_layout sp' dp' tag (be32 0) @ chunk_layout SCTP_CHUNK_INIT_ACK 0
      (init_value (sa_myVerificationTag B) SCTP_DEFAULT_ARWND 300 300 (sa_nextTsn B) @
       cookie_param (cookie_bytes (env_isBigEndian e) ck) @ forward_tsn_param))]"
proof -
  have wf: "assoc_wf B" using assms by (simp add: quiet_def)
  let ?v = "init_value tag arwnd out inn tsn @ forward_tsn_param"
  let ?ms = "300 :: u16"
  let ?ck = "\<lparr>ck_magic1 = SCTP_COOKIE_MAGIC1, ck_magic2 = SCTP_COOKIE_MAGIC2, ck_peerTag = tag,
     ck_myTag = sa_myVerificationTag B, ck_peerInitialTsn = tsn, ck_myInitialTsn = sa_nextTsn B, ck_peerArwnd = arwnd,
     ck_tieTag = sa_tieTag B, ck_numInStreams = (if out < ?ms then out else ?ms),
     ck_numOutStreams = (if inn < ?ms then inn else ?ms), ck_reserved = 0\<rparr>"
  let ?cookie = "cookie_bytes (env_isBigEndian e) ?ck"
  let ?layout = "chunk_layout SCTP_CHUNK_INIT_ACK 0 (init_value (sa_myVerificationTag B) SCTP_DEFAULT_ARWND 300 300
     (sa_nextTsn B) @ cookie_param ?cookie @ forward_tsn_param)"
  have pad: "SCTP_PAD4 44 = 44" "SCTP_PAD4 48 = 48" by (simp_all add: SCTP_PAD4_def)
  obtain b where b: "send_chunk B tag (\<lambda>b p. sctpWriteInitAckChunk b p (sa_myVerificationTag B) SCTP_DEFAULT_ARWND 300 300
      (sa_nextTsn B) ?cookie) = Some (B\<lparr>sa_outPacket := b, sa_trace := sa_trace B @ [OutboundPacket
      (finalized (common_layout (sa_localPort B) (sa_remotePort B) tag (be32 0) @ ?layout))]\<rparr>)" "length b = 1200"
    using w_init_ack.send_chunk_exact [OF wf, of ?cookie "sa_myVerificationTag B" SCTP_DEFAULT_ARWND 300 300 "sa_nextTsn B" tag]
    by (auto simp: pad chunk_layout_def)
  let ?B1 = "B\<lparr>sa_outPacket := b, sa_trace := sa_trace B @ [OutboundPacket
      (finalized (common_layout (sa_localPort B) (sa_remotePort B) tag (be32 0) @ ?layout))]\<rparr>"
  have h: "sctpHandleInit e B ?v = Some ?B1"
    using b by (simp add: sctpHandleInit_def init_value_reads Let_def SCTP_MAX_STREAMS_def)
  have "assoc_wf ?B1" using safe_init [OF wf, of e ?v] h by simp
  then have "same_identity B ?B1" using assms by (simp add: same_identity_def quiet_def)
  moreover have "deliver_packets e [finalized (common_layout sp dp 0 (be32 0) @ chunk_layout SCTP_CHUNK_INIT 0 ?v)] B = Some ?B1"
    using h by (subst deliver_dispatch) (simp_all add: sctpChunkDispatch_def)
  moreover have "new_packets B ?B1 = [finalized (common_layout (sa_localPort B) (sa_remotePort B) tag (be32 0) @ ?layout)]"
    by (simp add: new_packets_def)
  moreover have "good_cookie ?ck tag tsn arwnd" by (simp add: good_cookie_def)
  ultimately show ?thesis by blast
qed

lemma init_ack_step:
  assumes "quiet A" and st: "sa_state A = SCTP_ASSOC_COOKIE_WAIT" and cookie: "length cookie = 44"
  shows "\<exists>A2 sp' dp'. deliver_packets e [finalized (common_layout sp dp (sa_myVerificationTag A) (be32 0) @
      chunk_layout SCTP_CHUNK_INIT_ACK 0 (init_value tag arwnd out inn tsn @ cookie_param cookie @ forward_tsn_param))] A = Some A2 \<and>
    same_identity A A2 \<and> sa_state A2 = SCTP_ASSOC_COOKIE_ECHOED \<and> sa_peerVerificationTag A2 = tag \<and>
    sa_peerArwnd A2 = arwnd \<and> sa_peerCumulativeTsn A2 = tsn - 1 \<and> sa_peerCumulativeTsnValid A2 \<and>
    new_packets A A2 = [finalized (common_layout sp' dp' tag (be32 0) @ chunk_layout SCTP_CHUNK_COOKIE_ECHO 0 cookie)]"
proof -
  let ?v = "init_value tag arwnd out inn tsn @ cookie_param cookie @ forward_tsn_param"
  let ?echo = "bsplice (sa_cookieEchoData A) 0 cookie"
  let ?A1 = "A\<lparr>sa_peerVerificationTag := tag, sa_peerArwnd := arwnd, sa_peerCumulativeTsn := tsn - 1,
     sa_peerCumulativeTsnValid := True, sa_cookieEchoData := ?echo, sa_cookieEchoLen := 44, sa_cookieEchoValid := True\<rparr>"
  have wf: "assoc_wf A" and len: "length (sa_cookieEchoData A) = 44"
    using assms(1) by (auto simp: quiet_def assoc_wf_def)
  have wf1: "assoc_wf ?A1" using wf len cookie by (simp add: assoc_wf_cookie)
  have echo: "?echo = cookie" using len cookie by (simp add: bsplice_def)
  have pad: "SCTP_PAD4 48 = 48" by (simp add: SCTP_PAD4_def)
  let ?pkt = "finalized (common_layout (sa_localPort A) (sa_remotePort A) tag (be32 0) @ chunk_layout SCTP_CHUNK_COOKIE_ECHO 0 cookie)"
  obtain b where b: "send_chunk ?A1 tag (\<lambda>b p. sctpWriteCookieEchoChunk b p cookie) =
      Some (?A1\<lparr>sa_outPacket := b, sa_trace := sa_trace A @ [OutboundPacket ?pkt]\<rparr>)"
    using w_cookie_echo.send_chunk_exact [OF wf1, of cookie tag] cookie pad by auto
  let ?A2 = "?A1\<lparr>sa_outPacket := b, sa_trace := sa_trace A @ [OutboundPacket ?pkt], sa_state := SCTP_ASSOC_COOKIE_ECHOED,
     sa_t1InitExpiry := SCTP_NOW_MS e + ucast (sa_rtoMs A)\<rparr>"
  have "send_cookie_echo ?A1 = Some (?A1\<lparr>sa_outPacket := b, sa_trace := sa_trace A @ [OutboundPacket ?pkt]\<rparr>)"
    using b len cookie echo by (simp add: send_cookie_echo_def mem_simps)
  then have h: "sctpHandleInitAck e A ?v = Some ?A2"
    using st len cookie by (simp add: sctpHandleInitAck_def init_value_reads find_cookie_first Let_def mem_simps)
  have "assoc_wf ?A2" using safe_init_ack [OF wf, of e ?v] h by simp
  then have "same_identity A ?A2" using assms(1) by (simp add: same_identity_def quiet_def)
  moreover have "deliver_packets e [finalized (common_layout sp dp (sa_myVerificationTag A) (be32 0) @
      chunk_layout SCTP_CHUNK_INIT_ACK 0 ?v)] A = Some ?A2"
    using h cookie by (subst deliver_dispatch) (simp_all add: sctpChunkDispatch_def)
  moreover have "new_packets A ?A2 = [?pkt]" by (simp add: new_packets_def)
  ultimately show ?thesis by (intro exI [of _ ?A2]) auto
qed

lemma cookie_echo_step:
  assumes "quiet B" and ck: "good_cookie ck tag tsn arwnd"
  shows "\<exists>B2 sp' dp'. deliver_packets e [finalized (common_layout sp dp (sa_myVerificationTag B) (be32 0) @
      chunk_layout SCTP_CHUNK_COOKIE_ECHO 0 (cookie_bytes (env_isBigEndian e) ck))] B = Some B2 \<and>
    same_identity B B2 \<and> sa_state B2 = SCTP_ASSOC_ESTABLISHED \<and> sa_peerVerificationTag B2 = tag \<and>
    sa_peerArwnd B2 = arwnd \<and> sa_peerCumulativeTsn B2 = tsn - 1 \<and> sa_peerCumulativeTsnValid B2 \<and>
    new_packets B B2 = [finalized (common_layout sp' dp' tag (be32 0) @ chunk_layout SCTP_CHUNK_COOKIE_ACK 0 [])]"
proof -
  let ?v = "cookie_bytes (env_isBigEndian e) ck"
  let ?B1 = "B\<lparr>sa_peerVerificationTag := tag, sa_peerCumulativeTsn := tsn - 1, sa_peerCumulativeTsnValid := True,
     sa_peerArwnd := arwnd\<rparr>"
  have wf: "assoc_wf B" and len: "length (sa_sendQueue B) = SCTP_MAX_QUEUED_MESSAGES"
    using assms(1) by (auto simp: quiet_def assoc_wf_def queue_ok_def)
  have wf1: "assoc_wf ?B1" using wf by simp
  let ?pkt = "finalized (common_layout (sa_localPort B) (sa_remotePort B) tag (be32 0) @ chunk_layout SCTP_CHUNK_COOKIE_ACK 0 [])"
  obtain b where b: "send_chunk ?B1 tag sctpWriteCookieAckChunk =
      Some (?B1\<lparr>sa_outPacket := b, sa_trace := sa_trace B @ [OutboundPacket ?pkt]\<rparr>)"
    using w_cookie_ack.send_chunk_exact [OF wf1, of tag] by auto
  let ?B2 = "?B1\<lparr>sa_outPacket := b, sa_trace := sa_trace B @ [OutboundPacket ?pkt], sa_state := SCTP_ASSOC_ESTABLISHED,
     sa_t1InitExpiry := 0\<rparr>"
  have "sctpFlushSendQueue e ?B2 = Some ?B2" using assms(1) len by (intro flush_empty) (auto simp: quiet_def)
  then have h: "sctpHandleCookieEcho e B ?v = Some ?B2"
    using b ck by (simp add: sctpHandleCookieEcho_def cookie_reads good_cookie_def)
  have "assoc_wf ?B2" using safe_cookie_echo [OF wf, of e ?v] h by simp
  then have "same_identity B ?B2" using assms(1) by (simp add: same_identity_def quiet_def)
  moreover have "deliver_packets e [finalized (common_layout sp dp (sa_myVerificationTag B) (be32 0) @
      chunk_layout SCTP_CHUNK_COOKIE_ECHO 0 ?v)] B = Some ?B2"
    using h by (subst deliver_dispatch) (simp_all add: sctpChunkDispatch_def)
  moreover have "new_packets B ?B2 = [?pkt]" by (simp add: new_packets_def)
  ultimately show ?thesis by (intro exI [of _ ?B2]) auto
qed

lemma cookie_ack_step:
  assumes "quiet A" and "sa_state A = SCTP_ASSOC_COOKIE_ECHOED"
  shows "deliver_packets e [finalized (common_layout sp dp (sa_myVerificationTag A) (be32 0) @
      chunk_layout SCTP_CHUNK_COOKIE_ACK 0 [])] A = Some (A\<lparr>sa_state := SCTP_ASSOC_ESTABLISHED, sa_t1InitExpiry := 0\<rparr>)"
proof -
  have "length (sa_sendQueue A) = SCTP_MAX_QUEUED_MESSAGES" using assms(1) by (simp add: quiet_def assoc_wf_def queue_ok_def)
  then have "sctpHandleCookieAck e A = Some (A\<lparr>sa_state := SCTP_ASSOC_ESTABLISHED, sa_t1InitExpiry := 0\<rparr>)"
    using assms by (simp add: sctpHandleCookieAck_def flush_empty quiet_def)
  then show ?thesis by (subst deliver_dispatch) (simp_all add: sctpChunkDispatch_def)
qed

section \<open>Properties\<close>

text \<open>
  C4. The four-way handshake: when one association connects and the packets travel, both
  associations end up established, each with the other's verification tag, advertised window
  and initial TSN, whatever their earlier states were and on hosts of either byte order.
\<close>

theorem handshake_establishes:
  assumes "quiet A" and "quiet B"
  shows "\<exists>A' B'. handshake eA eB A B = Some (A', B') \<and>
    sa_state A' = SCTP_ASSOC_ESTABLISHED \<and> sa_state B' = SCTP_ASSOC_ESTABLISHED \<and>
    sa_peerVerificationTag A' = sa_myVerificationTag B \<and> sa_peerVerificationTag B' = sa_myVerificationTag A \<and>
    sa_peerCumulativeTsn A' = sa_nextTsn B' - 1 \<and> sa_peerCumulativeTsn B' = sa_nextTsn A' - 1 \<and>
    sa_peerArwnd A' = SCTP_DEFAULT_ARWND \<and> sa_peerArwnd B' = SCTP_DEFAULT_ARWND"
proof -
  obtain A1 sp1 dp1 where A1: "sctpAssocConnect eA A = Some A1" "same_identity A A1" "sa_state A1 = SCTP_ASSOC_COOKIE_WAIT"
    "new_packets A A1 = [finalized (common_layout sp1 dp1 0 (be32 0) @ chunk_layout SCTP_CHUNK_INIT 0
      (init_value (sa_myVerificationTag A) SCTP_DEFAULT_ARWND 300 300 (sa_nextTsn A) @ forward_tsn_param))]"
    using connect_step [OF assms(1)] by blast
  obtain B1 sp2 dp2 ck where B1: "deliver_packets eB (new_packets A A1) B = Some B1" "same_identity B B1"
    "good_cookie ck (sa_myVerificationTag A) (sa_nextTsn A) SCTP_DEFAULT_ARWND"
    "new_packets B B1 = [finalized (common_layout sp2 dp2 (sa_myVerificationTag A) (be32 0) @ chunk_layout SCTP_CHUNK_INIT_ACK 0
      (init_value (sa_myVerificationTag B) SCTP_DEFAULT_ARWND 300 300 (sa_nextTsn B) @
       cookie_param (cookie_bytes (env_isBigEndian eB) ck) @ forward_tsn_param))]"
    unfolding A1(4) using init_step [OF assms(2)] by blast
  have q1: "quiet A1" "quiet B1" "sa_myVerificationTag A1 = sa_myVerificationTag A" "sa_nextTsn A1 = sa_nextTsn A"
    "sa_myVerificationTag B1 = sa_myVerificationTag B" "sa_nextTsn B1 = sa_nextTsn B"
    using A1(2) B1(2) by (auto simp: same_identity_def)
  obtain A2 sp3 dp3 where A2: "deliver_packets eA (new_packets B B1) A1 = Some A2" "same_identity A1 A2"
    "sa_state A2 = SCTP_ASSOC_COOKIE_ECHOED" "sa_peerVerificationTag A2 = sa_myVerificationTag B"
    "sa_peerArwnd A2 = SCTP_DEFAULT_ARWND" "sa_peerCumulativeTsn A2 = sa_nextTsn B - 1"
    "new_packets A1 A2 = [finalized (common_layout sp3 dp3 (sa_myVerificationTag B) (be32 0) @
      chunk_layout SCTP_CHUNK_COOKIE_ECHO 0 (cookie_bytes (env_isBigEndian eB) ck))]"
    unfolding B1(4) q1(3) [symmetric] using init_ack_step [OF q1(1) A1(3) length_cookie_bytes] by blast
  obtain B2 sp4 dp4 where B2: "deliver_packets eB (new_packets A1 A2) B1 = Some B2" "same_identity B1 B2"
    "sa_state B2 = SCTP_ASSOC_ESTABLISHED" "sa_peerVerificationTag B2 = sa_myVerificationTag A"
    "sa_peerArwnd B2 = SCTP_DEFAULT_ARWND" "sa_peerCumulativeTsn B2 = sa_nextTsn A - 1"
    "new_packets B1 B2 = [finalized (common_layout sp4 dp4 (sa_myVerificationTag A) (be32 0) @
      chunk_layout SCTP_CHUNK_COOKIE_ACK 0 [])]"
    unfolding A2(7) q1(5) [symmetric] using cookie_echo_step [OF q1(2) B1(3)] by blast
  have q2: "quiet A2" "sa_myVerificationTag A2 = sa_myVerificationTag A" "sa_nextTsn A2 = sa_nextTsn A"
    "sa_nextTsn B2 = sa_nextTsn B"
    using A2(2) B2(2) q1 by (auto simp: same_identity_def)
  have "deliver_packets eA (new_packets B1 B2) A2 = Some (A2\<lparr>sa_state := SCTP_ASSOC_ESTABLISHED, sa_t1InitExpiry := 0\<rparr>)"
    unfolding B2(7) q2(2) [symmetric] by (rule cookie_ack_step [OF q2(1) A2(3)])
  then show ?thesis
    using A1(1) B1(1) A2 B2 q2 by (simp add: handshake_def)
qed

lemma assoc0_quiet: "quiet assoc0"
  using reachable_wf [OF assoc0_reachable] by (simp add: quiet_def assoc0_def sctpAssocInit_def Let_def)

theorem handshake_establishes_witness:
  "\<exists>A' B'. handshake env0 (env0\<lparr>env_isBigEndian := True\<rparr>) assoc0 assoc0 = Some (A', B') \<and>
    sa_state A' = SCTP_ASSOC_ESTABLISHED \<and> sa_state B' = SCTP_ASSOC_ESTABLISHED"
  using handshake_establishes [OF assoc0_quiet assoc0_quiet] by blast

end
