(* ===== verification/SctpTransfer.thy ===== *)
theory SctpTransfer
  imports SctpReceive SctpHandshake
begin

text \<open>
  A message from one association to another: \<open>sctpAssocSend\<close> on one side, fragmented when the
  message exceeds the MTU, and \<open>sctpAssocHandlePacket\<close> on each packet on the other side.
\<close>

section \<open>Messages handed to the application\<close>

fun inbound :: "sctp_event list \<Rightarrow> (u16 \<times> u32 \<times> bytes) list" where
  "inbound [] = []"
| "inbound (InboundMessage sid ppid data # evs) = (sid, ppid, data) # inbound evs"
| "inbound (OutboundPacket p # evs) = inbound evs"

lemma inbound_append [simp]: "inbound (xs @ ys) = inbound xs @ inbound ys"
  by (induction xs rule: inbound.induct) auto

lemma inbound_outbound [simp]: "inbound (map OutboundPacket ps) = []"
  by (induction ps) auto

section \<open>One DATA packet in sequence\<close>

text \<open>A receiver that has everything up to \<open>cum\<close>; \<open>part\<close> is the message it is reassembling.\<close>

definition ready :: "u32 \<Rightarrow> (u16 \<times> u32 \<times> bytes) option \<Rightarrow> SctpAssociation \<Rightarrow> bool" where
  "ready cum part b = (assoc_wf b \<and> sa_state b = SCTP_ASSOC_ESTABLISHED \<and> sa_peerCumulativeTsnValid b \<and>
     sa_peerCumulativeTsn b = cum \<and> sa_receivedTsns b = [] \<and>
     (\<forall>sid ppid data. part = Some (sid, ppid, data) \<longrightarrow> sa_reassemblyInProgress b \<and>
        sa_reassemblyBuf b = Some data \<and> sa_reassemblyStreamId b = sid \<and> sa_reassemblyPpid b = ppid))"

lemma advance_cumulative_Nil [simp]: "advance_cumulative cum [] = (cum, [])"
  by (simp add: advance_cumulative.simps)

lemma track_tsn_next: "track_tsn (cum + 1) cum [] = Some (cum + 1, [])"
  by (simp add: track_tsn_def)

lemma data_in_sequence:
  assumes rdy: "ready cum part b" and small: "length payload \<le> SCTP_MAX_REASSEMBLY_SIZE"
    and deliver: "deliver_data e flags sid ssn ppid payload
      (b\<lparr>sa_peerCumulativeTsn := cum + 1, sa_receivedTsns := [], sa_needSack := True\<rparr>) = Some b1"
    and part1: "\<And>s p d. part1 = Some (s, p, d) \<Longrightarrow> sa_reassemblyInProgress b1 \<and> sa_reassemblyBuf b1 = Some d \<and>
      sa_reassemblyStreamId b1 = s \<and> sa_reassemblyPpid b1 = p"
  shows "\<exists>b'. sctpHandleData e b flags (data_value (cum + 1) sid ssn ppid payload) = Some b' \<and>
    ready (cum + 1) part1 b' \<and> sa_myVerificationTag b' = sa_myVerificationTag b \<and>
    inbound (sa_trace b') = inbound (sa_trace b1)"
proof -
  let ?b0 = "b\<lparr>sa_peerCumulativeTsn := cum + 1, sa_receivedTsns := [], sa_needSack := True\<rparr>"
  have est: "sa_state b = SCTP_ASSOC_ESTABLISHED" "sa_peerCumulativeTsnValid b" "assoc_wf b"
    "sa_peerCumulativeTsn b = cum" "sa_receivedTsns b = []"
    using rdy by (auto simp: ready_def)
  have "assoc_wf ?b0" using est by (auto intro!: assoc_wf_received)
  from deliver_frame [OF this small, of e flags sid ssn ppid] deliver have fr: "recv_frame ?b0 b1" by simp
  then obtain b' where b': "sctpSendSack b1 = Some b'" "recv_frame b1 b'"
    "inbound (sa_trace b') = inbound (sa_trace b1)"
    "sa_reassemblyBuf b' = sa_reassemblyBuf b1" "sa_reassemblyInProgress b' = sa_reassemblyInProgress b1"
    "sa_reassemblyStreamId b' = sa_reassemblyStreamId b1" "sa_reassemblyPpid b' = sa_reassemblyPpid b1"
    using send_sack_result [of b1] by (auto simp: recv_frame_def)
  have "sctpHandleData e b flags (data_value (cum + 1) sid ssn ppid payload) = Some b'"
    using b'(1) deliver est by (simp add: handle_data_eq track_tsn_next)
  moreover have "ready (cum + 1) part1 b'" using fr b' est part1 by (auto simp: recv_frame_def ready_def)
  ultimately show ?thesis using fr b' by (auto simp: recv_frame_def)
qed

lemma fragment_flags_bits:
  "(fragment_flags f l u AND SCTP_DATA_FLAG_BEGIN \<noteq> 0) = f"
  "(fragment_flags f l u AND SCTP_DATA_FLAG_END \<noteq> 0) = l"
  by (cases f; cases l; cases u; simp add: fragment_flags_def)+

lemma single_flags_bits:
  "single_flags u AND SCTP_DATA_FLAG_BEGIN \<noteq> 0" "single_flags u AND SCTP_DATA_FLAG_END \<noteq> 0"
  by (cases u; simp add: single_flags_def)+

lemma data_packet_handled:
  assumes "length payload \<le> 1172" and "length pad = SCTP_PAD4 (16 + length payload) - (16 + length payload)"
    and "vtag = sa_myVerificationTag b"
    and "sctpHandleData e b flags (data_value tsn sid ssn ppid payload) = Some b'"
  shows "sctpAssocHandlePacket e b (finalized (common_layout sp dp vtag (be32 0) @
      chunk_layout SCTP_CHUNK_DATA flags (data_value tsn sid ssn ppid payload) @ pad)) = Some (STATUS_SUCCESS, b')"
  using handle_single [of "data_value tsn sid ssn ppid payload" pad vtag b e sp dp SCTP_CHUNK_DATA flags] assms
  by (simp add: sctpChunkDispatch_def)

text \<open>A packet that holds one DATA chunk, as the send path builds it.\<close>

definition data_packet :: "bytes \<Rightarrow> bool" where
  "data_packet x = (\<exists>sp dp vtag flags tsn sid ssn ppid payload pad. length payload \<le> 1172 \<and>
     length pad = SCTP_PAD4 (16 + length payload) - (16 + length payload) \<and>
     x = finalized (common_layout sp dp vtag (be32 0) @
       chunk_layout SCTP_CHUNK_DATA flags (data_value tsn sid ssn ppid payload) @ pad))"

lemma data_packetI:
  "length payload \<le> 1172 \<Longrightarrow> length pad = SCTP_PAD4 (16 + length payload) - (16 + length payload) \<Longrightarrow>
   data_packet (finalized (common_layout sp dp vtag (be32 0) @
     chunk_layout SCTP_CHUNK_DATA flags (data_value tsn sid ssn ppid payload) @ pad))"
  unfolding data_packet_def by blast

text \<open>The four ways a chunk that arrives in sequence is delivered.\<close>

lemma whole_message_step:
  assumes "ready cum part b" and "length payload \<le> SCTP_MAX_REASSEMBLY_SIZE" and "env_hasMessageFn e"
    and "flags AND SCTP_DATA_FLAG_BEGIN \<noteq> 0" and "flags AND SCTP_DATA_FLAG_END \<noteq> 0"
  shows "\<exists>b'. sctpHandleData e b flags (data_value (cum + 1) sid ssn ppid payload) = Some b' \<and> ready (cum + 1) None b' \<and>
    sa_myVerificationTag b' = sa_myVerificationTag b \<and>
    inbound (sa_trace b') = inbound (sa_trace b) @ [(sid, ppid, payload)]"
proof -
  obtain b1 where "deliver_data e flags sid ssn ppid payload
      (b\<lparr>sa_peerCumulativeTsn := cum + 1, sa_receivedTsns := [], sa_needSack := True\<rparr>) = Some b1"
    "inbound (sa_trace b1) = inbound (sa_trace b) @ [(sid, ppid, payload)]"
    using assms(3-5) by (simp add: deliver_data_def Let_def)
  then show ?thesis using data_in_sequence [OF assms(1,2), of e flags sid ssn ppid b1 None] by auto
qed

lemma first_fragment_step:
  assumes "ready cum part b" and "length payload \<le> SCTP_MAX_REASSEMBLY_SIZE" and "env_hasMessageFn e"
    and "sa_reassemblyBuf b \<noteq> None \<or> env_alloc e SCTP_MAX_REASSEMBLY_SIZE"
  shows "\<exists>b'. sctpHandleData e b (fragment_flags True False u) (data_value (cum + 1) sid ssn ppid payload) = Some b' \<and>
    ready (cum + 1) (Some (sid, ppid, payload)) b' \<and> sa_myVerificationTag b' = sa_myVerificationTag b \<and>
    inbound (sa_trace b') = inbound (sa_trace b)"
proof -
  obtain b1 where "deliver_data e (fragment_flags True False u) sid ssn ppid payload
      (b\<lparr>sa_peerCumulativeTsn := cum + 1, sa_receivedTsns := [], sa_needSack := True\<rparr>) = Some b1"
    "inbound (sa_trace b1) = inbound (sa_trace b)" "sa_reassemblyInProgress b1" "sa_reassemblyBuf b1 = Some payload"
    "sa_reassemblyStreamId b1 = sid" "sa_reassemblyPpid b1 = ppid"
    using assms(2-4) by (cases "sa_reassemblyBuf b") (auto simp: deliver_data_def Let_def fragment_flags_bits)
  then show ?thesis
    using data_in_sequence [OF assms(1,2), of e "fragment_flags True False u" sid ssn ppid b1 "Some (sid, ppid, payload)"] by auto
qed

lemma next_fragment_step:
  assumes "ready cum (Some (s, p, d)) b" and "length d + length payload \<le> SCTP_MAX_REASSEMBLY_SIZE" and "env_hasMessageFn e"
  shows "\<exists>b'. sctpHandleData e b (fragment_flags False l u) (data_value (cum + 1) sid ssn ppid payload) = Some b' \<and>
    ready (cum + 1) (if l then None else Some (s, p, d @ payload)) b' \<and> sa_myVerificationTag b' = sa_myVerificationTag b \<and>
    inbound (sa_trace b') = inbound (sa_trace b) @ (if l then [(s, p, d @ payload)] else [])"
proof -
  have rd: "sa_reassemblyInProgress b" "sa_reassemblyBuf b = Some d" "sa_reassemblyStreamId b = s" "sa_reassemblyPpid b = p"
    using assms(1) by (auto simp: ready_def)
  obtain b1 where "deliver_data e (fragment_flags False l u) sid ssn ppid payload
      (b\<lparr>sa_peerCumulativeTsn := cum + 1, sa_receivedTsns := [], sa_needSack := True\<rparr>) = Some b1"
    "inbound (sa_trace b1) = inbound (sa_trace b) @ (if l then [(s, p, d @ payload)] else [])"
    "\<not> l \<longrightarrow> sa_reassemblyInProgress b1 \<and> sa_reassemblyBuf b1 = Some (d @ payload) \<and>
       sa_reassemblyStreamId b1 = s \<and> sa_reassemblyPpid b1 = p"
    using assms(2,3) rd by (cases l) (auto simp: deliver_data_def Let_def fragment_flags_bits)
  then show ?thesis
    using assms(2) data_in_sequence [OF assms(1), of payload e "fragment_flags False l u" sid ssn ppid b1
        "if l then None else Some (s, p, d @ payload)"]
    by (auto split: if_splits)
qed

section \<open>The fragments of a message\<close>

text \<open>
  What the receiver does with the packets one round of the loop after another: chunk \<open>tsn\<close>
  is the next one, and the part of the message before \<open>off\<close> is in the reassembly buffer.
\<close>

definition part_of :: "message \<Rightarrow> bool \<Rightarrow> nat \<Rightarrow> (u16 \<times> u32 \<times> bytes) option" where
  "part_of m isFirst off = (if isFirst then None else Some (m_streamId m, m_ppid m, take off (m_payload m)))"

lemma fragment_received:
  fixes isFirst isLast :: bool
  assumes rdy: "ready cum (part_of m isFirst off) b" and fn: "env_hasMessageFn e"
    and alloc: "sa_reassemblyBuf b \<noteq> None \<or> env_alloc e SCTP_MAX_REASSEMBLY_SIZE"
    and first: "isFirst \<Longrightarrow> off = 0 \<and> \<not> isLast" and lim: "off + n \<le> length (m_payload m)"
    and max: "length (m_payload m) \<le> SCTP_MAX_REASSEMBLY_SIZE"
    and last: "isLast = (off + n = length (m_payload m))"
  shows "\<exists>b'. sctpHandleData e b (fragment_flags isFirst isLast (m_unordered m))
       (data_value (cum + 1) (m_streamId m) ssn (m_ppid m) (take n (drop off (m_payload m)))) = Some b' \<and>
     ready (cum + 1) (if isLast then None else part_of m False (off + n)) b' \<and>
     sa_myVerificationTag b' = sa_myVerificationTag b \<and>
     inbound (sa_trace b') = inbound (sa_trace b) @ (if isLast then [(m_streamId m, m_ppid m, m_payload m)] else [])"
proof (cases isFirst)
  case True
  have "take n (drop off (m_payload m)) = take (off + n) (m_payload m)" using first True by simp
  then show ?thesis
    using first_fragment_step [of cum "part_of m isFirst off" b "take n (drop off (m_payload m))" e] True first rdy fn alloc lim max
    by (auto simp: part_of_def)
next
  case False
  have tk: "take off (m_payload m) @ take n (drop off (m_payload m)) = take (off + n) (m_payload m)"
    by (simp add: take_add)
  have rdy': "ready cum (Some (m_streamId m, m_ppid m, take off (m_payload m))) b"
    using rdy False by (simp add: part_of_def)
  have "length (take off (m_payload m)) + length (take n (drop off (m_payload m))) \<le> SCTP_MAX_REASSEMBLY_SIZE"
    using lim max by simp
  note step = next_fragment_step [OF rdy' this fn, of isLast "m_unordered m" "m_streamId m" ssn "m_ppid m", unfolded tk]
  have "isLast \<longrightarrow> take (off + n) (m_payload m) = m_payload m" using last by simp
  with step False show ?thesis by (cases isLast) (simp_all add: part_of_def)
qed

lemma free_slots_pos: "(free_slots a > 0) = (free_slot a < length (sa_outstanding a))"
  unfolding free_slot_def first_index_less by (auto simp: filter_empty_conv)

lemma free_slots_fill:
  "i < length xs \<Longrightarrow> \<not> od_inUse (xs ! i) \<Longrightarrow> od_inUse y \<Longrightarrow>
   Suc (length (filter (\<lambda>od. \<not> od_inUse od) (xs[i := y]))) = length (filter (\<lambda>od. \<not> od_inUse od) xs)"
proof (induction xs arbitrary: i)
  case (Cons x xs)
  then show ?case by (cases i) auto
qed simp

text \<open>One round of the fragmentation loop: the packet it sends and the state it leaves.\<close>

lemma fragment_sent:
  fixes e :: env and m :: message and ssn :: u16
  assumes wf: "assoc_wf a" and free: "free_slots a > 0" and frag: "length fragment \<le> 1172"
  defines "a1 \<equiv> a\<lparr>sa_nextTsn := sa_nextTsn a + 1\<rparr>"
  defines "a2 \<equiv> store_outstanding e a1 (free_slot a1) (sa_nextTsn a) ssn m fragment"
  shows "\<exists>a3 sp dp pad. send_chunk a2 (sa_peerVerificationTag a)
      (\<lambda>b p. write_fragment b p flags (sa_nextTsn a) (m_streamId m) ssn (m_ppid m) fragment) = Some a3 \<and>
    assoc_wf a3 \<and> Suc (free_slots a3) = free_slots a \<and> sa_nextTsn a3 = sa_nextTsn a + 1 \<and>
    sa_peerVerificationTag a3 = sa_peerVerificationTag a \<and>
    length pad = SCTP_PAD4 (16 + length fragment) - (16 + length fragment) \<and>
    sa_trace a3 = sa_trace a @ [OutboundPacket (finalized (common_layout sp dp (sa_peerVerificationTag a) (be32 0) @
      chunk_layout SCTP_CHUNK_DATA flags (data_value (sa_nextTsn a) (m_streamId m) ssn (m_ppid m) fragment) @ pad))]"
proof -
  have fs: "free_slot a1 = free_slot a" by (simp add: a1_def free_slot_def)
  have i: "free_slot a1 < length (sa_outstanding a1)" unfolding fs using free free_slots_pos [of a] by (simp add: a1_def)
  have len: "length (sa_outstanding a1) = SCTP_MAX_OUTSTANDING" using wf by (simp add: a1_def assoc_wf_def out_ok_def)
  have wf1: "assoc_wf a1" using wf by (simp add: a1_def)
  have u: "\<not> od_inUse (sa_outstanding a1 ! free_slot a1)" using free_slot_unused [OF wf1] i len by simp
  have wf2: "assoc_wf a2" unfolding a2_def by (rule store_outstanding_wf [OF wf1 i u frag])
  have sl: "Suc (free_slots a2) = free_slots a"
    using i u free_slots_fill [OF i u] by (simp add: a2_def store_outstanding_def a1_def)
  have size: "SCTP_PAD4 (16 + length fragment) \<le> 1188" using data_chunk_size [OF frag] by simp
  have buf: "length (sa_outPacket a2) = 1200" using wf2 by (simp add: assoc_wf_def)
  from w_fragment.send_chunk_spec [OF buf size, of "sa_peerVerificationTag a" flags "sa_nextTsn a" "m_streamId m" ssn "m_ppid m"]
  obtain b pad where s: "send_chunk a2 (sa_peerVerificationTag a)
      (\<lambda>b p. write_fragment b p flags (sa_nextTsn a) (m_streamId m) ssn (m_ppid m) fragment) =
    Some (a2\<lparr>sa_outPacket := b, sa_trace := sa_trace a2 @ [OutboundPacket (finalized
      (common_layout (sa_localPort a2) (sa_remotePort a2) (sa_peerVerificationTag a) (be32 0) @
       chunk_layout SCTP_CHUNK_DATA flags (data_value (sa_nextTsn a) (m_streamId m) ssn (m_ppid m) fragment) @ pad))]\<rparr>)"
    "length pad = SCTP_PAD4 (16 + length fragment) - (16 + length fragment)" by auto
  have "safe (send_chunk a2 (sa_peerVerificationTag a)
      (\<lambda>b p. write_fragment b p flags (sa_nextTsn a) (m_streamId m) ssn (m_ppid m) fragment))"
    by (rule safe_sends [OF send_fragment_sends [OF wf2 frag] wf2])
  with s sl show ?thesis by (auto simp: a2_def store_outstanding_def a1_def)
qed

lemma deliver_packets_Cons:
  "sctpAssocHandlePacket e a p = Some (st, a') \<Longrightarrow> deliver_packets e (p # ps) a = deliver_packets e ps a'"
  by (simp add: deliver_packets_def)

lemma fragments_transfer:
  assumes "assoc_wf a" and "0 < unat mx" "unat mx \<le> 1172" and "unat off + unat remaining = length (m_payload m)"
    and "length (m_payload m) \<le> SCTP_MAX_REASSEMBLY_SIZE" and "unat remaining \<le> free_slots a * unat mx"
    and "remaining > 0" and "isFirst \<Longrightarrow> off = 0 \<and> remaining > mx"
    and "ready (sa_nextTsn a - 1) (part_of m isFirst (unat off)) b" and "env_hasMessageFn eb"
    and "sa_reassemblyBuf b \<noteq> None \<or> env_alloc eb SCTP_MAX_REASSEMBLY_SIZE"
    and "sa_myVerificationTag b = sa_peerVerificationTag a"
  shows "\<exists>a' ps b'. send_fragments e m mx ssn remaining off isFirst a = Some (a', True) \<and>
    sa_trace a' = sa_trace a @ map OutboundPacket ps \<and> list_all data_packet ps \<and> deliver_packets eb ps b = Some b' \<and>
    inbound (sa_trace b') = inbound (sa_trace b) @ [(m_streamId m, m_ppid m, m_payload m)] \<and>
    ready (sa_nextTsn a' - 1) None b'"
  using assms
proof (induction e m mx ssn remaining off isFirst a arbitrary: b rule: send_fragments.induct)
  case (1 e m mx ssn remaining off isFirst a)
  let ?fl = "if remaining > mx then mx else remaining"
  let ?isLast = "remaining - ?fl = 0"
  let ?a1 = "a\<lparr>sa_nextTsn := sa_nextTsn a + 1\<rparr>"
  let ?fragment = "take (unat ?fl) (drop (unat off) (m_payload m))"
  let ?flags = "fragment_flags isFirst ?isLast (m_unordered m)"
  let ?a2 = "store_outstanding e ?a1 (free_slot ?a1) (sa_nextTsn a) ssn m ?fragment"
  have small: "length (m_payload m) < 2 ^ 32" using "1.prems"(5) by (simp add: SCTP_MAX_REASSEMBLY_SIZE_def)
  note arith = fragment_arith [OF "1.prems"(4) small, of mx]
  have rd: "memread (m_payload m) (unat off) (unat ?fl) = Some ?fragment" using arith(1) by (simp add: mem_simps)
  have lf: "length ?fragment \<le> 1172" using arith(3) "1.prems"(3) by simp
  have pos: "free_slots a > 0" using "1.prems"(6,7) by (cases "free_slots a") (auto simp: word_less_nat_alt)
  obtain a3 sp dp pad where a3: "send_chunk ?a2 (sa_peerVerificationTag a)
      (\<lambda>b p. write_fragment b p ?flags (sa_nextTsn a) (m_streamId m) ssn (m_ppid m) ?fragment) = Some a3"
    and wf3: "assoc_wf a3" and fs3: "Suc (free_slots a3) = free_slots a" and tsn3: "sa_nextTsn a3 = sa_nextTsn a + 1"
    and tag3: "sa_peerVerificationTag a3 = sa_peerVerificationTag a"
    and pad: "length pad = SCTP_PAD4 (16 + length ?fragment) - (16 + length ?fragment)"
    and tr3: "sa_trace a3 = sa_trace a @ [OutboundPacket (finalized (common_layout sp dp (sa_peerVerificationTag a) (be32 0) @
      chunk_layout SCTP_CHUNK_DATA ?flags (data_value (sa_nextTsn a) (m_streamId m) ssn (m_ppid m) ?fragment) @ pad))]"
    using fragment_sent [OF "1.prems"(1) pos lf] by blast
  let ?p = "finalized (common_layout sp dp (sa_peerVerificationTag a) (be32 0) @
      chunk_layout SCTP_CHUNK_DATA ?flags (data_value (sa_nextTsn a) (m_streamId m) ssn (m_ppid m) ?fragment) @ pad)"
  have last: "?isLast = (unat off + unat ?fl = length (m_payload m))"
  proof -
    have "?isLast = (remaining = ?fl)" by simp
    also have "\<dots> = (unat remaining = unat ?fl)" by (rule word_unat_eq_iff)
    finally show ?thesis using "1.prems"(4) by linarith
  qed
  have first: "isFirst \<Longrightarrow> unat off = 0 \<and> \<not> ?isLast" using "1.prems"(8) by auto
  have hd: "\<exists>b1. sctpHandleData eb b ?flags
       (data_value (sa_nextTsn a - 1 + 1) (m_streamId m) ssn (m_ppid m) ?fragment) = Some b1 \<and>
     ready (sa_nextTsn a - 1 + 1) (if ?isLast then None else part_of m False (unat off + unat ?fl)) b1 \<and>
     sa_myVerificationTag b1 = sa_myVerificationTag b \<and>
     inbound (sa_trace b1) = inbound (sa_trace b) @ (if ?isLast then [(m_streamId m, m_ppid m, m_payload m)] else [])"
    by (rule fragment_received [OF "1.prems"(9) "1.prems"(10) "1.prems"(11) first arith(1) "1.prems"(5) last])
  then obtain b1 where b1: "sctpHandleData eb b ?flags
       (data_value (sa_nextTsn a) (m_streamId m) ssn (m_ppid m) ?fragment) = Some b1"
    and rdy1: "ready (sa_nextTsn a) (if ?isLast then None else part_of m False (unat off + unat ?fl)) b1"
    and tag1: "sa_myVerificationTag b1 = sa_myVerificationTag b"
    and in1: "inbound (sa_trace b1) = inbound (sa_trace b) @ (if ?isLast then [(m_streamId m, m_ppid m, m_payload m)] else [])"
    by auto
  have del: "deliver_packets eb (?p # ps) b = deliver_packets eb ps b1" for ps
    using data_packet_handled [OF lf pad _ b1] "1.prems"(12) by (intro deliver_packets_Cons) simp
  have dp: "data_packet ?p" by (rule data_packetI [OF lf pad])
  have nf: "\<not> length (sa_outstanding ?a1) \<le> free_slot ?a1"
    using pos free_slots_pos [of a] by (simp add: free_slot_def)
  have step: "send_fragments e m mx ssn remaining off isFirst a =
      send_fragments e m mx ssn (remaining - ?fl) (off + ?fl) False a3"
    using "1.prems"(7) nf rd a3 by (simp add: send_fragments.simps [of e m mx ssn remaining off isFirst a] Let_def)
  show ?case
  proof (cases ?isLast)
    case True
    then have fin: "send_fragments e m mx ssn (remaining - ?fl) (off + ?fl) False a3 = Some (a3, True)"
      by (simp only: send_fragments.simps [of e m mx ssn 0]) simp
    show ?thesis
      using step fin tr3 del [of "[]"] rdy1 in1 True tsn3 dp
      by (intro exI [of _ a3] exI [of _ "[?p]"] exI [of _ b1]) (simp add: deliver_packets_def)
  next
    case False
    then have fl: "?fl = mx" and gt: "mx < remaining" by (auto split: if_splits)
    have sub: "unat (remaining - ?fl) = unat remaining - unat mx"
      using gt unfolding fl by (intro unat_sub) simp
    have room: "unat (remaining - ?fl) \<le> free_slots a3 * unat mx"
      using "1.prems"(6) unfolding sub fs3 [symmetric] by simp
    have off: "unat (off + ?fl) = unat off + unat ?fl"
      using arith(1) small unat_add_lem [of off ?fl] by simp
    have rdy1': "ready (sa_nextTsn a3 - 1) (part_of m False (unat (off + ?fl))) b1" using rdy1 False tsn3 off by simp
    have more: "remaining - ?fl > 0" using False by (simp only: word_greater_zero_iff) simp
    have buf1: "sa_reassemblyBuf b1 \<noteq> None \<or> env_alloc eb SCTP_MAX_REASSEMBLY_SIZE"
      using rdy1 False by (simp add: ready_def part_of_def)
    have "\<exists>a' ps b'. send_fragments e m mx ssn (remaining - ?fl) (off + ?fl) False a3 = Some (a', True) \<and>
      sa_trace a' = sa_trace a3 @ map OutboundPacket ps \<and> list_all data_packet ps \<and> deliver_packets eb ps b1 = Some b' \<and>
      inbound (sa_trace b') = inbound (sa_trace b1) @ [(m_streamId m, m_ppid m, m_payload m)] \<and>
      ready (sa_nextTsn a' - 1) None b'"
      using tag1 tag3 "1.prems"(12)
      by (intro "1.IH" [OF "1.prems"(7) refl refl refl refl refl nf rd a3 wf3 "1.prems"(2) "1.prems"(3) arith(2)
            "1.prems"(5) room more _ rdy1' "1.prems"(10) buf1]) auto
    then obtain a' ps b' where "send_fragments e m mx ssn (remaining - ?fl) (off + ?fl) False a3 = Some (a', True)"
      "sa_trace a' = sa_trace a3 @ map OutboundPacket ps" "list_all data_packet ps" "deliver_packets eb ps b1 = Some b'"
      "inbound (sa_trace b') = inbound (sa_trace b1) @ [(m_streamId m, m_ppid m, m_payload m)]"
      "ready (sa_nextTsn a' - 1) None b'" by blast
    then show ?thesis
      using step tr3 del [of ps] in1 False dp
      by (intro exI [of _ a'] exI [of _ "?p # ps"] exI [of _ b']) simp
  qed
qed

section \<open>A whole message\<close>

lemma data_chunk_as_fragment:
  "sctpWriteDataChunk b p tsn sid ssn ppid u payload = write_fragment b p (fragment_flags True True u) tsn sid ssn ppid payload"
  by (cases u) (simp_all add: sctpWriteDataChunk_def write_fragment_def fragment_flags_def Let_def)

lemma new_packets_append:
  "sa_trace a' = sa_trace a @ map OutboundPacket ps \<Longrightarrow> new_packets a a' = ps"
  by (simp add: new_packets_def concat_map_singleton comp_def)

lemma start_t3_trace [simp]: "sa_trace (start_t3 e a) = sa_trace a" "sa_nextTsn (start_t3 e a) = sa_nextTsn a"
  by (simp_all add: start_t3_def)

text \<open>A sender that may send \<open>m\<close> now and has a slot for every fragment of it.\<close>

definition can_send :: "SctpAssociation \<Rightarrow> message \<Rightarrow> bool" where
  "can_send a m = (assoc_wf a \<and> sa_state a = SCTP_ASSOC_ESTABLISHED \<and> sa_flightSize a < sa_cwnd a \<and>
     sa_flightSize a < sa_peerArwnd a \<and> 0 < free_slots a \<and>
     length (m_payload m) \<le> free_slots a * (unat (sa_mtu a) - 28))"

lemma message_sent_received:
  assumes can: "can_send a m" and max: "length (m_payload m) \<le> SCTP_MAX_REASSEMBLY_SIZE"
    and rdy: "ready (sa_nextTsn a - 1) None b" and fn: "env_hasMessageFn eb"
    and alloc: "sa_reassemblyBuf b \<noteq> None \<or> env_alloc eb SCTP_MAX_REASSEMBLY_SIZE"
    and tag: "sa_myVerificationTag b = sa_peerVerificationTag a"
  shows "\<exists>a' ps b'. sctpAssocSend e a m = Some a' \<and> sa_trace a' = sa_trace a @ map OutboundPacket ps \<and>
    list_all data_packet ps \<and> deliver_packets eb ps b = Some b' \<and>
    inbound (sa_trace b') = inbound (sa_trace b) @ [(m_streamId m, m_ppid m, m_payload m)] \<and>
    ready (sa_nextTsn a' - 1) None b'"
proof -
  let ?ordered = "\<not> m_unordered m \<and> unat (m_streamId m) < SCTP_MAX_STREAMS"
  let ?ssn = "if ?ordered then sa_nextSsn a ! unat (m_streamId m) else 0"
  let ?a1 = "if ?ordered then a\<lparr>sa_nextSsn := (sa_nextSsn a)[unat (m_streamId m) := ?ssn + 1]\<rparr> else a"
  let ?mx = "ucast (sa_mtu a) - 12 - 16 :: u32"
  have wf: "assoc_wf a" using can by (simp add: can_send_def)
  have mtu: "28 < unat (sa_mtu a)" "unat (sa_mtu a) \<le> 1200" using unat_mtu_le [OF wf] by auto
  have mx: "unat ?mx = unat (sa_mtu a) - 28" using wf by (intro max_data_payload) (auto simp: assoc_wf_def)
  have small: "length (m_payload m) < 2 ^ 32" using max by (simp add: SCTP_MAX_REASSEMBLY_SIZE_def)
  have len: "unat (m_payloadLen m) = length (m_payload m)" using small by (simp add: m_payloadLen_def unat_of_nat_small)
  have wf1: "assoc_wf ?a1" using wf by simp
  have same: "sa_outstanding ?a1 = sa_outstanding a" "sa_nextTsn ?a1 = sa_nextTsn a" "sa_trace ?a1 = sa_trace a"
    "sa_peerVerificationTag ?a1 = sa_peerVerificationTag a" by simp_all
  have open_window: "\<not> (sa_cwnd a \<le> sa_flightSize a \<or> sa_peerArwnd a \<le> sa_flightSize a)"
    "sa_state a = SCTP_ASSOC_ESTABLISHED" using can by (auto simp: can_send_def)
  show ?thesis
  proof (cases "m_payloadLen m \<le> ?mx")
    case single: True
    let ?flags = "fragment_flags True True (m_unordered m)"
    have short: "length (m_payload m) \<le> 1172" using single mx mtu len by (simp add: word_le_nat_alt)
    have pos: "free_slots ?a1 > 0" using can same(1) by (simp add: can_send_def)
    have slot: "\<not> SCTP_MAX_OUTSTANDING \<le> free_slot ?a1"
      using pos wf1 unfolding free_slots_pos by (simp add: assoc_wf_def out_ok_def)
    have fs: "free_slot (?a1\<lparr>sa_nextTsn := n\<rparr>) = free_slot ?a1" for n by (simp add: free_slot_def)
    let ?a2 = "store_outstanding e (?a1\<lparr>sa_nextTsn := sa_nextTsn ?a1 + 1\<rparr>) (free_slot ?a1) (sa_nextTsn ?a1) ?ssn m (m_payload m)"
    have t2: "sa_peerVerificationTag ?a2 = sa_peerVerificationTag ?a1" by (simp add: store_outstanding_def)
    obtain a3 sp dp pad where a3: "send_chunk ?a2 (sa_peerVerificationTag ?a2) (\<lambda>b p. write_fragment b p ?flags (sa_nextTsn ?a1)
        (m_streamId m) ?ssn (m_ppid m) (m_payload m)) = Some a3" and tsn3: "sa_nextTsn a3 = sa_nextTsn ?a1 + 1"
      and pad: "length pad = SCTP_PAD4 (16 + length (m_payload m)) - (16 + length (m_payload m))"
      and tr3: "sa_trace a3 = sa_trace ?a1 @ [OutboundPacket (finalized (common_layout sp dp (sa_peerVerificationTag ?a1) (be32 0) @
        chunk_layout SCTP_CHUNK_DATA ?flags (data_value (sa_nextTsn ?a1) (m_streamId m) ?ssn (m_ppid m) (m_payload m)) @ pad))]"
      using fragment_sent [OF wf1 pos short, of e ?ssn m ?flags] unfolding t2 fs by blast
    have "sctpAssocSend e a m = Some (start_t3 e a3)"
      unfolding sctpAssocSend_def Let_def data_chunk_as_fragment using open_window single slot a3 by simp
    moreover let ?p = "finalized (common_layout sp dp (sa_peerVerificationTag ?a1) (be32 0) @
        chunk_layout SCTP_CHUNK_DATA ?flags (data_value (sa_nextTsn ?a1) (m_streamId m) ?ssn (m_ppid m) (m_payload m)) @ pad)"
    have "sa_trace (start_t3 e a3) = sa_trace a @ map OutboundPacket [?p]" "list_all data_packet [?p]"
      using tr3 data_packetI [OF short pad] by (simp_all add: same)
    moreover obtain b' where "sctpHandleData eb b ?flags
        (data_value (sa_nextTsn a - 1 + 1) (m_streamId m) ?ssn (m_ppid m) (m_payload m)) = Some b'"
      "ready (sa_nextTsn a - 1 + 1) None b'" "inbound (sa_trace b') = inbound (sa_trace b) @ [(m_streamId m, m_ppid m, m_payload m)]"
      using whole_message_step [OF rdy max fn, of ?flags "m_streamId m" ?ssn "m_ppid m"] fragment_flags_bits [of True True] by auto
    moreover have "deliver_packets eb [?p] b = Some b'" if "sctpHandleData eb b ?flags
        (data_value (sa_nextTsn a - 1 + 1) (m_streamId m) ?ssn (m_ppid m) (m_payload m)) = Some b'" for b'
      using data_packet_handled [OF short pad, of "sa_peerVerificationTag ?a1" b eb ?flags] that tag
      by (simp add: deliver_one same)
    moreover have "sa_nextTsn (start_t3 e a3) - 1 = sa_nextTsn a - 1 + 1" using tsn3 by (simp add: same)
    ultimately show ?thesis by metis
  next
    case many: False
    have gt: "?mx < m_payloadLen m" using many by simp
    have "\<exists>a' ps b'. send_fragments e m ?mx ?ssn (m_payloadLen m) 0 True ?a1 = Some (a', True) \<and>
      sa_trace a' = sa_trace ?a1 @ map OutboundPacket ps \<and> list_all data_packet ps \<and> deliver_packets eb ps b = Some b' \<and>
      inbound (sa_trace b') = inbound (sa_trace b) @ [(m_streamId m, m_ppid m, m_payload m)] \<and>
      ready (sa_nextTsn a' - 1) None b'"
    proof (rule fragments_transfer [OF wf1])
      show "0 < unat ?mx" "unat ?mx \<le> 1172" using mx mtu by auto
      show "unat (m_payloadLen m) \<le> free_slots ?a1 * unat ?mx"
        unfolding len mx same using can by (simp add: can_send_def)
      show "ready (sa_nextTsn ?a1 - 1) (part_of m True (unat 0)) b" using rdy by (simp add: same part_of_def)
      show "0 < m_payloadLen m" using gt by (simp only: word_greater_zero_iff) auto
    qed (use len max fn alloc tag gt same in auto)
    then obtain a' ps b' where s: "send_fragments e m ?mx ?ssn (m_payloadLen m) 0 True ?a1 = Some (a', True)"
      "sa_trace a' = sa_trace a @ map OutboundPacket ps" "list_all data_packet ps" "deliver_packets eb ps b = Some b'"
      "inbound (sa_trace b') = inbound (sa_trace b) @ [(m_streamId m, m_ppid m, m_payload m)]"
      "ready (sa_nextTsn a' - 1) None b'" using same(3) by auto
    have "sctpAssocSend e a m = Some (start_t3 e a')"
      unfolding sctpAssocSend_def Let_def using open_window many s(1) by simp
    then show ?thesis using s(2-6) by auto
  qed
qed

section \<open>Properties\<close>

text \<open>
  C5. A message arrives as it was sent: a message of at most 64 KB that the sender may send, in
  one DATA chunk or split over as many as the MTU requires, and whose packets reach an
  in-sequence receiver in order, is handed to the receiving application exactly once, with
  its stream, protocol identifier and bytes, and the receiver is in sequence again.
\<close>

theorem message_transfer:
  assumes "can_send a m" and "length (m_payload m) \<le> SCTP_MAX_REASSEMBLY_SIZE"
    and "ready (sa_nextTsn a - 1) None b" and "env_hasMessageFn eb"
    and "sa_reassemblyBuf b \<noteq> None \<or> env_alloc eb SCTP_MAX_REASSEMBLY_SIZE"
    and "sa_myVerificationTag b = sa_peerVerificationTag a"
  shows "\<exists>a' b'. sctpAssocSend e a m = Some a' \<and> deliver_packets eb (new_packets a a') b = Some b' \<and>
    inbound (sa_trace b') = inbound (sa_trace b) @ [(m_streamId m, m_ppid m, m_payload m)] \<and>
    ready (sa_nextTsn a' - 1) None b'"
  using message_sent_received [OF assms, of e] new_packets_append by metis

text \<open>The two ends of a concrete transfer of 3000 bytes, which takes three fragments.\<close>

definition sender0 :: SctpAssociation where
  "sender0 = established0\<lparr>sa_peerVerificationTag := sa_myVerificationTag established0\<rparr>"

definition receiver0 :: SctpAssociation where
  "receiver0 = established0\<lparr>sa_peerCumulativeTsn := sa_nextTsn established0 - 1\<rparr>"

definition message0 :: message where
  "message0 = \<lparr>m_streamId = 1, m_ppid = 51, m_unordered = False, m_payload = replicate 3000 7,
     m_maxRetransmits = 0xFFFF, m_lifetimeMs = 0\<rparr>"

theorem message_transfer_witness:
  "\<exists>a' b'. sctpAssocSend env0 sender0 message0 = Some a' \<and> deliver_packets env0 (new_packets sender0 a') receiver0 = Some b' \<and>
    inbound (sa_trace b') = [(1, 51, replicate 3000 7)]"
proof -
  have f: "sa_flightSize sender0 = 0" "sa_cwnd sender0 = 3564" "sa_peerArwnd sender0 = 131072" "sa_mtu sender0 = 1188"
    "sa_trace receiver0 = []" "sa_outstanding sender0 = sa_outstanding assoc0" "sa_nextTsn sender0 = sa_nextTsn established0"
    by (simp_all add: sender0_def receiver0_def established0_def assoc0_def sctpAssocInit_def Let_def)
  have "free_slots sender0 = 2048"
    unfolding f(6) by (simp add: assoc0_def sctpAssocInit_def Let_def filter_replicate SCTP_MAX_OUTSTANDING_def)
  then have "can_send sender0 message0"
    using f by (simp add: can_send_def message0_def sender0_def)
  moreover have "ready (sa_nextTsn sender0 - 1) None receiver0" unfolding f(7) by (simp add: ready_def receiver0_def)
  ultimately show ?thesis
    using message_transfer [of sender0 message0 receiver0 env0 env0] f(5)
    by (simp add: message0_def env0_def SCTP_MAX_REASSEMBLY_SIZE_def sender0_def receiver0_def) blast
qed

end
