(* ===== verification/NativeSctp.thy ===== *)
theory NativeSctp
  imports SctpTransfer
begin

text \<open>
  \<^verbatim>\<open>src/source/Sctp/NativeSctp.c\<close> and \<^verbatim>\<open>Sctp.h\<close>: the SCTP session of a peer connection. It
  owns one association, announces data channels to the peer with DCEP messages, sends and
  receives the messages of the channels, and passes everything the association produces to
  the callbacks of the peer connection.

  The callbacks are not in this file of the program: the record of callbacks says which of
  them are set, and \<open>ss_trace\<close> records their calls in order. The association calls the two
  bridges while it works; since they leave the association alone, the model runs the
  association first and hands its new events to the bridges in the same order. A null
  pointer that is called or read is a fault (\<open>None\<close>). One call of a session runs at a time, as
  the lock of the session makes it.
\<close>

section \<open>Constants and data\<close>

abbreviation (input) SCTP_MTU :: u16 where "SCTP_MTU \<equiv> 1150"
abbreviation (input) SCTP_ASSOCIATION_DEFAULT_PORT :: u16 where "SCTP_ASSOCIATION_DEFAULT_PORT \<equiv> 5000"
abbreviation (input) SCTP_DCEP_HEADER_LENGTH :: nat where "SCTP_DCEP_HEADER_LENGTH \<equiv> 12"
abbreviation (input) SCTP_DCEP_LABEL_LEN_OFFSET :: nat where "SCTP_DCEP_LABEL_LEN_OFFSET \<equiv> 8"
abbreviation (input) SCTP_DCEP_LABEL_OFFSET :: nat where "SCTP_DCEP_LABEL_OFFSET \<equiv> 12"
abbreviation (input) MAX_DATA_CHANNEL_NAME_LEN :: nat where "MAX_DATA_CHANNEL_NAME_LEN \<equiv> 255"
abbreviation (input) MAX_DATA_CHANNEL_PROTOCOL_LEN :: nat where "MAX_DATA_CHANNEL_PROTOCOL_LEN \<equiv> 255"

definition SCTP_MAX_ALLOWABLE_PACKET_LENGTH :: nat where
  "SCTP_MAX_ALLOWABLE_PACKET_LENGTH =
     SCTP_DCEP_HEADER_LENGTH + MAX_DATA_CHANNEL_NAME_LEN + MAX_DATA_CHANNEL_PROTOCOL_LEN + 2"

abbreviation (input) SCTP_PPID_DCEP :: u32 where "SCTP_PPID_DCEP \<equiv> 50"
abbreviation (input) SCTP_PPID_STRING :: u32 where "SCTP_PPID_STRING \<equiv> 51"
abbreviation (input) SCTP_PPID_BINARY :: u32 where "SCTP_PPID_BINARY \<equiv> 53"
abbreviation (input) SCTP_PPID_STRING_EMPTY :: u32 where "SCTP_PPID_STRING_EMPTY \<equiv> 56"
abbreviation (input) SCTP_PPID_BINARY_EMPTY :: u32 where "SCTP_PPID_BINARY_EMPTY \<equiv> 57"

abbreviation (input) DCEP_DATA_CHANNEL_OPEN :: byte where "DCEP_DATA_CHANNEL_OPEN \<equiv> 0x03"
abbreviation (input) DCEP_DATA_CHANNEL_RELIABLE_ORDERED :: byte where "DCEP_DATA_CHANNEL_RELIABLE_ORDERED \<equiv> 0x00"
abbreviation (input) DCEP_DATA_CHANNEL_RELIABLE_UNORDERED :: byte where "DCEP_DATA_CHANNEL_RELIABLE_UNORDERED \<equiv> 0x80"
abbreviation (input) DCEP_DATA_CHANNEL_REXMIT :: byte where "DCEP_DATA_CHANNEL_REXMIT \<equiv> 0x01"
abbreviation (input) DCEP_DATA_CHANNEL_TIMED :: byte where "DCEP_DATA_CHANNEL_TIMED \<equiv> 0x02"

datatype SctpSessionStatus =
    SCTP_SESSION_ACTIVE
  | SCTP_SESSION_SHUTDOWN_INITIATED
  | SCTP_SESSION_SHUTDOWN_COMPLETED

text \<open>Which callbacks are set.\<close>

record SctpSessionCallbacks =
  cb_outboundPacketFunc :: bool
  cb_dataChannelOpenFunc :: bool
  cb_dataChannelMessageFunc :: bool

text \<open>
  The calls of the callbacks. \<open>DataChannelOpenFunc\<close> gets a pointer and a length: the event has
  the bytes of the message from the pointer on, and the length as it is passed.
\<close>

datatype session_event =
    OutboundPacketFunc bytes
  | DataChannelOpenFunc u32 bytes u16
  | DataChannelMessageFunc u32 bool bytes

record SctpSession =
  ss_shutdownStatus :: SctpSessionStatus
  ss_assoc :: SctpAssociation
  ss_packet :: bytes
  ss_packetSize :: u32
  ss_callbacks :: SctpSessionCallbacks
  ss_trace :: "session_event list"

text \<open>\<open>NullableUint16\<close> is an option; the members that no function of this file reads are left out.\<close>

record RtcDataChannelInit =
  ci_ordered :: bool
  ci_maxPacketLifeTime :: "u16 option"
  ci_maxRetransmits :: "u16 option"

section \<open>The bridges\<close>

text \<open>
  The two copies and \<open>putInt16\<close> in place: a native load whose bytes are swapped on a
  little-endian host.
\<close>

definition handleDcepPacket :: "env \<Rightarrow> SctpSession \<Rightarrow> u32 \<Rightarrow> bytes \<Rightarrow> (STATUS \<times> SctpSession) option" where
  "handleDcepPacket e s streamId data =
     (if \<not> length data > SCTP_DCEP_HEADER_LENGTH then Some (STATUS_SUCCESS, s)
      else do {
        messageType \<leftarrow> memget data 0;
        if messageType \<noteq> DCEP_DATA_CHANNEL_OPEN then Some (STATUS_SUCCESS, s)
        else do {
          rawLabelLength \<leftarrow> native16 (env_isBigEndian e) data 8;
          rawProtocolLength \<leftarrow> native16 (env_isBigEndian e) data 10;
          let labelLength = getInt16 (env_isBigEndian e) rawLabelLength;
          let protocolLength = getInt16 (env_isBigEndian e) rawProtocolLength;
          if \<not> unat labelLength + unat protocolLength + SCTP_DCEP_HEADER_LENGTH \<ge> length data
          then Some (STATUS_SCTP_INVALID_DCEP_PACKET, s)
          else if \<not> SCTP_MAX_ALLOWABLE_PACKET_LENGTH \<ge> length data
          then Some (STATUS_SCTP_INVALID_DCEP_PACKET, s)
          else if \<not> cb_dataChannelOpenFunc (ss_callbacks s) then None
          else Some (STATUS_SUCCESS, s\<lparr>ss_trace := ss_trace s @
                 [DataChannelOpenFunc streamId (drop SCTP_DCEP_HEADER_LENGTH data) labelLength]\<rparr>) } })"

definition sctpOutboundBridge :: "SctpSession \<Rightarrow> bytes \<Rightarrow> SctpSession" where
  "sctpOutboundBridge s pPacket =
     (if ss_shutdownStatus s \<noteq> SCTP_SESSION_ACTIVE then s
      else if cb_outboundPacketFunc (ss_callbacks s)
      then s\<lparr>ss_trace := ss_trace s @ [OutboundPacketFunc pPacket]\<rparr> else s)"

definition sctpMessageBridge :: "env \<Rightarrow> SctpSession \<Rightarrow> u32 \<Rightarrow> u32 \<Rightarrow> bytes \<Rightarrow> SctpSession option" where
  "sctpMessageBridge e s streamId ppid pPayload =
     (if ss_shutdownStatus s \<noteq> SCTP_SESSION_ACTIVE then Some s
      else if ppid = SCTP_PPID_DCEP then map_option snd (handleDcepPacket e s streamId pPayload)
      else if ppid \<in> {SCTP_PPID_BINARY, SCTP_PPID_BINARY_EMPTY, SCTP_PPID_STRING, SCTP_PPID_STRING_EMPTY}
      then let isBinary = (ppid \<in> {SCTP_PPID_BINARY, SCTP_PPID_BINARY_EMPTY}) in
        Some (if cb_dataChannelMessageFunc (ss_callbacks s)
              then s\<lparr>ss_trace := ss_trace s @ [DataChannelMessageFunc streamId isBinary pPayload]\<rparr> else s)
      else Some s)"

definition bridge :: "env \<Rightarrow> sctp_event \<Rightarrow> SctpSession \<Rightarrow> SctpSession option" where
  "bridge e ev s = (case ev of
     OutboundPacket p \<Rightarrow> Some (sctpOutboundBridge s p)
   | InboundMessage streamId ppid data \<Rightarrow> sctpMessageBridge e s (ucast streamId) ppid data)"

definition new_events :: "SctpAssociation \<Rightarrow> SctpAssociation \<Rightarrow> sctp_event list" where
  "new_events a a' = drop (length (sa_trace a)) (sa_trace a')"

text \<open>The session after a call on its association that left it in state \<open>a'\<close>.\<close>

definition after_call :: "env \<Rightarrow> SctpSession \<Rightarrow> SctpAssociation \<Rightarrow> SctpSession option" where
  "after_call e s a' = for_each (bridge e) (new_events (ss_assoc s) a') (s\<lparr>ss_assoc := a'\<rparr>)"

section \<open>Operations\<close>

text \<open>
  \<open>freeSctpSession\<close>: the second component is the session as it is when its memory is released
  (\<open>*ppSctpSession\<close> is null then).
\<close>

definition freeSctpSession :: "env \<Rightarrow> SctpSession option option \<Rightarrow> (STATUS \<times> SctpSession option) option" where
  "freeSctpSession e ppSctpSession =
     (case ppSctpSession of
        None \<Rightarrow> Some (STATUS_NULL_ARG, None)
      | Some None \<Rightarrow> Some (STATUS_SUCCESS, None)
      | Some (Some s) \<Rightarrow>
          let s1 = s\<lparr>ss_shutdownStatus := SCTP_SESSION_SHUTDOWN_INITIATED\<rparr> in
          do { s2 \<leftarrow> (if sa_state (ss_assoc s1) = SCTP_ASSOC_ESTABLISHED
                      then do { a' \<leftarrow> sctpAssocShutdown (ss_assoc s1); after_call e s1 a' }
                      else Some s1);
               Some (STATUS_SUCCESS, Some (s2\<lparr>ss_assoc := sctpAssocCleanup (ss_assoc s2),
                 ss_shutdownStatus := SCTP_SESSION_SHUTDOWN_COMPLETED\<rparr>)) })"

text \<open>
  \<open>createSctpSession\<close>: the result is the status and the session that \<open>*ppSctpSession\<close> gets. The
  store happens on every path, also when \<open>ppSctpSession\<close> is null.
\<close>

definition createSctpSession ::
  "env \<Rightarrow> (nat \<Rightarrow> u64) \<Rightarrow> bool \<Rightarrow> SctpSessionCallbacks option \<Rightarrow> bool \<Rightarrow> (STATUS \<times> SctpSession option) option" where
  "createSctpSession e clk memory pSctpSessionCallbacks ppSctpSession =
     (if \<not> ppSctpSession then None
      else case pSctpSessionCallbacks of
        None \<Rightarrow> Some (STATUS_NULL_ARG, None)
      | Some callbacks \<Rightarrow>
          if \<not> memory then Some (STATUS_NOT_ENOUGH_MEMORY, None)
          else
            let s = \<lparr>ss_shutdownStatus = SCTP_SESSION_ACTIVE,
                     ss_assoc = sctpAssocInit clk SCTP_ASSOCIATION_DEFAULT_PORT SCTP_ASSOCIATION_DEFAULT_PORT SCTP_MTU,
                     ss_packet = replicate SCTP_MAX_ALLOWABLE_PACKET_LENGTH 0, ss_packetSize = 0,
                     ss_callbacks = callbacks, ss_trace = []\<rparr> in
            do { a' \<leftarrow> sctpAssocConnect e (ss_assoc s);
                 s' \<leftarrow> after_call e s a';
                 Some (STATUS_SUCCESS, Some s') })"

definition check_timers :: "env \<Rightarrow> SctpSession \<Rightarrow> SctpSession option" where
  "check_timers e s =
     do { a' \<leftarrow> sctpAssocCheckTimers (ss_assoc s) (env_gettime e div (10 * 10000)); after_call e s a' }"

definition putSctpPacket :: "env \<Rightarrow> SctpSession option \<Rightarrow> bytes \<Rightarrow> (STATUS \<times> SctpSession option) option" where
  "putSctpPacket e pSctpSession buf =
     (case pSctpSession of
        None \<Rightarrow> Some (STATUS_NULL_ARG, None)
      | Some s \<Rightarrow>
          if ss_shutdownStatus s \<noteq> SCTP_SESSION_ACTIVE then Some (STATUS_SUCCESS, Some s)
          else do { s1 \<leftarrow> check_timers e s;
                    (status, a') \<leftarrow> sctpAssocHandlePacket (e\<lparr>env_hasMessageFn := True\<rparr>) (ss_assoc s1) buf;
                    s2 \<leftarrow> after_call e s1 a';
                    Some (status, Some s2) })"

definition sctpSessionTickTimers :: "env \<Rightarrow> SctpSession option \<Rightarrow> (STATUS \<times> SctpSession option) option" where
  "sctpSessionTickTimers e pSctpSession =
     (case pSctpSession of
        None \<Rightarrow> Some (STATUS_NULL_ARG, None)
      | Some s \<Rightarrow>
          if ss_shutdownStatus s \<noteq> SCTP_SESSION_ACTIVE then Some (STATUS_SUCCESS, Some s)
          else do { s1 \<leftarrow> check_timers e s; Some (STATUS_SUCCESS, Some s1) })"

text \<open>
  The delivery parameters of a message, from the DCEP packet in \<open>packet\<close>. The reliability
  parameter is read as a signed number and converted to \<open>UINT16\<close> or \<open>UINT64\<close>.
\<close>

definition message_params :: "bytes \<Rightarrow> (bool \<times> u16 \<times> u64) option" where
  "message_params packet =
     do { channelType \<leftarrow> memget packet 1;
          let unordered = (channelType AND DCEP_DATA_CHANNEL_RELIABLE_UNORDERED \<noteq> 0);
          reliability \<leftarrow> getUnalignedInt32Be packet 4;
          let maxRetransmits = (if channelType AND DCEP_DATA_CHANNEL_REXMIT \<noteq> 0 then ucast reliability else 0xFFFF);
          let lifetimeMs = (if channelType AND DCEP_DATA_CHANNEL_TIMED \<noteq> 0 then scast reliability else 0);
          Some (unordered, maxRetransmits, lifetimeMs) }"

definition sctpSessionWriteMessage ::
  "env \<Rightarrow> SctpSession option \<Rightarrow> u32 \<Rightarrow> bool \<Rightarrow> bytes option \<Rightarrow> (STATUS \<times> SctpSession option) option" where
  "sctpSessionWriteMessage e pSctpSession streamId isBinary pMessage =
     (case (pSctpSession, pMessage) of
        (Some s, Some payload) \<Rightarrow>
          if ss_shutdownStatus s \<noteq> SCTP_SESSION_ACTIVE then Some (STATUS_SUCCESS, Some s)
          else do { (unordered, maxRetransmits, lifetimeMs) \<leftarrow> message_params (ss_packet s);
                    let ppid = (if isBinary then SCTP_PPID_BINARY else SCTP_PPID_STRING);
                    a' \<leftarrow> sctpAssocSend e (ss_assoc s)
                      \<lparr>m_streamId = ucast streamId, m_ppid = ppid, m_unordered = unordered, m_payload = payload,
                       m_maxRetransmits = maxRetransmits, m_lifetimeMs = lifetimeMs\<rparr>;
                    s' \<leftarrow> after_call e s a';
                    Some (STATUS_SUCCESS, Some s') }
      | _ \<Rightarrow> Some (STATUS_NULL_ARG, pSctpSession))"

text \<open>
  The stores that build the DATA_CHANNEL_OPEN message in \<open>packet\<close>, which is cleared first. The
  tests \<^verbatim>\<open>value >= 0\<close> of the source compare an unsigned number and hold.
\<close>

definition build_dcep :: "bytes \<Rightarrow> bytes \<Rightarrow> RtcDataChannelInit \<Rightarrow> bytes option" where
  "build_dcep packet pChannelName init =
     do { let b = replicate (length packet) 0;
          b \<leftarrow> memwrite b 0 [DCEP_DATA_CHANNEL_OPEN];
          let channelType = DCEP_DATA_CHANNEL_RELIABLE_ORDERED;
          let channelType = (if \<not> ci_ordered init then channelType OR DCEP_DATA_CHANNEL_RELIABLE_UNORDERED else channelType);
          (channelType, b) \<leftarrow>
            (case ci_maxRetransmits init of
               Some value \<Rightarrow> do { b \<leftarrow> putUnalignedInt32Be b 4 (ucast value);
                                 Some (channelType OR DCEP_DATA_CHANNEL_REXMIT, b) }
             | None \<Rightarrow>
                 (case ci_maxPacketLifeTime init of
                    Some value \<Rightarrow> do { b \<leftarrow> putUnalignedInt32Be b 4 (ucast value);
                                      Some (channelType OR DCEP_DATA_CHANNEL_TIMED, b) }
                  | None \<Rightarrow> Some (channelType, b)));
          b \<leftarrow> memwrite b 1 [channelType];
          b \<leftarrow> putUnalignedInt16Be b SCTP_DCEP_LABEL_LEN_OFFSET (word_of_nat (length pChannelName));
          memwrite b SCTP_DCEP_LABEL_OFFSET pChannelName }"

definition sctpSessionWriteDcep ::
  "env \<Rightarrow> SctpSession option \<Rightarrow> u32 \<Rightarrow> bytes option \<Rightarrow> RtcDataChannelInit option \<Rightarrow> (STATUS \<times> SctpSession option) option" where
  "sctpSessionWriteDcep e pSctpSession streamId pChannelName pRtcDataChannelInit =
     (case (pSctpSession, pChannelName) of
        (Some s, Some name) \<Rightarrow>
          do { init \<leftarrow> pRtcDataChannelInit;
               packet \<leftarrow> build_dcep (ss_packet s) name init;
               let packetSize = word_of_nat (SCTP_DCEP_HEADER_LENGTH + length name);
               let s1 = s\<lparr>ss_packet := packet, ss_packetSize := packetSize\<rparr>;
               payload \<leftarrow> memread packet 0 (unat packetSize);
               a' \<leftarrow> sctpAssocSend e (ss_assoc s1)
                 \<lparr>m_streamId = ucast streamId, m_ppid = SCTP_PPID_DCEP, m_unordered = False, m_payload = payload,
                  m_maxRetransmits = 0xFFFF, m_lifetimeMs = 0\<rparr>;
               s' \<leftarrow> after_call e s1 a';
               Some (STATUS_SUCCESS, Some s') }
      | _ \<Rightarrow> Some (STATUS_NULL_ARG, pSctpSession))"

section \<open>What the bridges pass on\<close>

text \<open>A session whose events all reach the peer connection.\<close>

definition connected :: "SctpSession \<Rightarrow> bool" where
  "connected s = (ss_shutdownStatus s = SCTP_SESSION_ACTIVE \<and> cb_outboundPacketFunc (ss_callbacks s) \<and>
     cb_dataChannelOpenFunc (ss_callbacks s) \<and> cb_dataChannelMessageFunc (ss_callbacks s))"

definition dcep_label_len :: "bytes \<Rightarrow> u16" where "dcep_label_len data = MAKE_INT16 (data ! 9) (data ! 8)"
definition dcep_protocol_len :: "bytes \<Rightarrow> u16" where "dcep_protocol_len data = MAKE_INT16 (data ! 11) (data ! 10)"

definition dcep_accepted :: "bytes \<Rightarrow> bool" where
  "dcep_accepted data = (12 < length data \<and> length data \<le> SCTP_MAX_ALLOWABLE_PACKET_LENGTH \<and> data ! 0 = DCEP_DATA_CHANNEL_OPEN \<and>
     length data \<le> 12 + unat (dcep_label_len data) + unat (dcep_protocol_len data))"

definition session_events :: "sctp_event \<Rightarrow> session_event list" where
  "session_events ev = (case ev of
     OutboundPacket p \<Rightarrow> [OutboundPacketFunc p]
   | InboundMessage sid ppid data \<Rightarrow>
       if ppid = SCTP_PPID_DCEP then
         if dcep_accepted data then [DataChannelOpenFunc (ucast sid) (drop 12 data) (dcep_label_len data)] else []
       else if ppid \<in> {SCTP_PPID_BINARY, SCTP_PPID_BINARY_EMPTY, SCTP_PPID_STRING, SCTP_PPID_STRING_EMPTY}
       then [DataChannelMessageFunc (ucast sid) (ppid \<in> {SCTP_PPID_BINARY, SCTP_PPID_BINARY_EMPTY}) data]
       else [])"

lemma native_label: "p + 1 < length b \<Longrightarrow> native16 g b p = Some (getInt16 g (MAKE_INT16 (b ! (p + 1)) (b ! p)))"
  by (rule native_be) (simp add: getUnalignedInt16Be_def memget_def)

lemma handleDcep_spec:
  assumes "cb_dataChannelOpenFunc (ss_callbacks s)"
  shows "handleDcepPacket e s sid data =
    Some (if 12 < length data \<and> data ! 0 = DCEP_DATA_CHANNEL_OPEN \<and> \<not> dcep_accepted data
          then STATUS_SCTP_INVALID_DCEP_PACKET else STATUS_SUCCESS,
      if dcep_accepted data
      then s\<lparr>ss_trace := ss_trace s @ [DataChannelOpenFunc sid (drop 12 data) (dcep_label_len data)]\<rparr> else s)"
proof (cases "12 < length data")
  case True
  then have "memget data 0 = Some (data ! 0)" by (subst memget_Some) auto
  then show ?thesis
    using True assms native_label [of 8 data "env_isBigEndian e"] native_label [of 10 data "env_isBigEndian e"]
    by (simp add: handleDcepPacket_def dcep_accepted_def dcep_label_len_def dcep_protocol_len_def Let_def)
qed (simp add: handleDcepPacket_def dcep_accepted_def)

lemma bridge_connected:
  assumes "connected s"
  shows "bridge e ev s = Some (s\<lparr>ss_trace := ss_trace s @ session_events ev\<rparr>)"
  using assms
  by (auto simp: bridge_def session_events_def sctpOutboundBridge_def sctpMessageBridge_def connected_def handleDcep_spec Let_def
      split: sctp_event.splits)

lemma connected_trace [simp]:
  "connected (s\<lparr>ss_trace := t\<rparr>) = connected s" "connected (s\<lparr>ss_assoc := a\<rparr>) = connected s"
  "connected (s\<lparr>ss_packet := p\<rparr>) = connected s" "connected (s\<lparr>ss_packetSize := n\<rparr>) = connected s"
  by (simp_all add: connected_def)

lemma bridges_connected:
  "connected s \<Longrightarrow> for_each (bridge e) evs s = Some (s\<lparr>ss_trace := ss_trace s @ concat (map session_events evs)\<rparr>)"
  by (induction evs arbitrary: s) (auto simp: bridge_connected)

lemma after_call_connected:
  "connected s \<Longrightarrow> after_call e s a' = Some (s\<lparr>ss_assoc := a',
     ss_trace := ss_trace s @ concat (map session_events (new_events (ss_assoc s) a'))\<rparr>)"
  by (simp add: after_call_def bridges_connected)

lemma bridges_inactive:
  "ss_shutdownStatus s \<noteq> SCTP_SESSION_ACTIVE \<Longrightarrow> for_each (bridge e) evs s = Some s"
  by (induction evs) (auto simp: bridge_def sctpOutboundBridge_def sctpMessageBridge_def split: sctp_event.splits)

lemma after_call_inactive:
  "ss_shutdownStatus s \<noteq> SCTP_SESSION_ACTIVE \<Longrightarrow> after_call e s a' = Some (s\<lparr>ss_assoc := a'\<rparr>)"
  by (simp add: after_call_def bridges_inactive)

section \<open>The DATA_CHANNEL_OPEN message\<close>

text \<open>The message of RFC 8832: type, channel type, priority, reliability, lengths, label, no protocol.\<close>

definition dcep_channel_type :: "RtcDataChannelInit \<Rightarrow> byte" where
  "dcep_channel_type init = (if ci_ordered init then 0 else 0x80) OR
     (if ci_maxRetransmits init \<noteq> None then 1 else if ci_maxPacketLifeTime init \<noteq> None then 2 else 0)"

definition dcep_reliability :: "RtcDataChannelInit \<Rightarrow> u32" where
  "dcep_reliability init = (case ci_maxRetransmits init of Some n \<Rightarrow> ucast n
     | None \<Rightarrow> (case ci_maxPacketLifeTime init of Some t \<Rightarrow> ucast t | None \<Rightarrow> 0))"

definition dcep_open :: "RtcDataChannelInit \<Rightarrow> bytes \<Rightarrow> bytes" where
  "dcep_open init name = [DCEP_DATA_CHANNEL_OPEN, dcep_channel_type init] @ be16 0 @ be32 (dcep_reliability init) @
     be16 (word_of_nat (length name)) @ be16 0 @ name"

lemma length_dcep_open [simp]: "length (dcep_open init name) = 12 + length name"
  by (simp add: dcep_open_def be16_def be32_def)

lemma zeros_524: "replicate 524 (0::byte) = [0,0,0,0,0,0,0,0,0,0,0,0] @ replicate 512 0"
proof -
  have "replicate (12 + 512) (0::byte) = replicate 12 0 @ replicate 512 0" by (rule replicate_add)
  moreover have "replicate 12 (0::byte) = [0,0,0,0,0,0,0,0,0,0,0,0]" by (simp add: numeral_eq_Suc)
  ultimately show ?thesis by simp
qed

lemma drop_header: "drop (12 + n) xs = drop n (drop 12 xs)"
  by (simp add: add.commute)

lemma build_dcep_spec:
  assumes "length packet = SCTP_MAX_ALLOWABLE_PACKET_LENGTH" and "length name \<le> 512"
  shows "build_dcep packet name init = Some (dcep_open init name @ replicate (512 - length name) 0)"
proof -
  have "length packet = 524" using assms by (simp add: SCTP_MAX_ALLOWABLE_PACKET_LENGTH_def)
  then show ?thesis
    using assms(2)
    by (cases "ci_ordered init"; cases "ci_maxRetransmits init"; cases "ci_maxPacketLifeTime init")
      (simp_all add: build_dcep_def Let_def zeros_524 memwrite_def bsplice_def putUnalignedInt32Be_def
        putUnalignedInt16Be_def drop_header dcep_open_def dcep_channel_type_def dcep_reliability_def be32_def be16_def)
qed

lemma dcep_open_accepted:
  assumes "0 < length name" and "length name \<le> 512"
  shows "dcep_accepted (dcep_open init name)" and "dcep_label_len (dcep_open init name) = word_of_nat (length name)"
    and "drop 12 (dcep_open init name) = name"
proof -
  show label: "dcep_label_len (dcep_open init name) = word_of_nat (length name)"
    by (simp add: dcep_label_len_def dcep_open_def be16_def be32_def)
  have "unat (dcep_label_len (dcep_open init name)) = length name"
    unfolding label using assms by (simp add: unat_of_nat)
  moreover have "dcep_open init name ! 0 = DCEP_DATA_CHANNEL_OPEN" by (simp add: dcep_open_def)
  ultimately show "dcep_accepted (dcep_open init name)"
    using assms by (simp add: dcep_accepted_def SCTP_MAX_ALLOWABLE_PACKET_LENGTH_def)
  show "drop 12 (dcep_open init name) = name" by (simp add: dcep_open_def be16_def be32_def)
qed

section \<open>Receiving DATA packets\<close>

text \<open>A DATA packet touches neither timer and only adds to the trace, whatever the association.\<close>

definition data_frame :: "SctpAssociation \<Rightarrow> SctpAssociation \<Rightarrow> bool" where
  "data_frame a a' = (sa_t1InitExpiry a' = sa_t1InitExpiry a \<and> sa_t3RtxExpiry a' = sa_t3RtxExpiry a \<and>
     (\<exists>evs. sa_trace a' = sa_trace a @ evs))"

lemma data_frame_refl [simp]: "data_frame a a"
  by (simp add: data_frame_def)

lemma data_frame_trans: "data_frame a b \<Longrightarrow> data_frame b c \<Longrightarrow> data_frame a c"
  by (auto simp: data_frame_def)

lemma sack_data_frame: "sctpSendSack a = Some a' \<Longrightarrow> data_frame a a'"
  by (auto simp: sctpSendSack_def send_chunk_def sctpSendPacket_def data_frame_def Let_def bind_Some_iff case_prod_Some_iff
      split: if_splits)

lemma deliver_data_frame: "deliver_data e flags sid ssn ppid payload a = Some a' \<Longrightarrow> data_frame a a'"
  by (auto simp: deliver_data_def data_frame_def Let_def bind_Some_iff split: if_splits option.splits)

lemma data_frame_update [simp]:
  "data_frame (a\<lparr>sa_peerCumulativeTsn := c\<rparr>) a' = data_frame a a'"
  "data_frame (a\<lparr>sa_peerCumulativeTsnValid := v\<rparr>) a' = data_frame a a'"
  "data_frame (a\<lparr>sa_receivedTsns := r\<rparr>) a' = data_frame a a'"
  "data_frame (a\<lparr>sa_needSack := n\<rparr>) a' = data_frame a a'"
  by (simp_all add: data_frame_def)

lemma sack_after_delivery:
  "deliver_data e flags sid ssn ppid payload a = Some b \<Longrightarrow> data_frame b a' \<Longrightarrow> data_frame a a'"
  using deliver_data_frame data_frame_trans by blast

lemma handle_data_frame: "sctpHandleData e a flags v = Some a' \<Longrightarrow> data_frame a a'"
  by (auto simp: sctpHandleData_def bind_Some_iff Let_def split: if_splits option.splits dest!: sack_data_frame)
    (use sack_after_delivery in fastforce)+

lemma data_packet_frame:
  assumes "data_packet p" and "sctpAssocHandlePacket e a p = Some (st, a')"
  shows "data_frame a a'"
proof -
  obtain sp dp vtag flags tsn sid ssn ppid payload pad where
    len: "length payload \<le> 1172" "length pad = SCTP_PAD4 (16 + length payload) - (16 + length payload)"
    and p: "p = finalized (common_layout sp dp vtag (be32 0) @
      chunk_layout SCTP_CHUNK_DATA flags (data_value tsn sid ssn ppid payload) @ pad)"
    using assms(1) unfolding data_packet_def by blast
  let ?v = "data_value tsn sid ssn ppid payload"
  show ?thesis
  proof (cases "vtag = 0 \<or> sa_myVerificationTag a = 0 \<or> vtag = sa_myVerificationTag a")
    case True
    then have "sctpAssocHandlePacket e a p = sctpChunkDispatch e SCTP_CHUNK_DATA flags ?v a"
      unfolding p using len by (intro handle_single) simp_all
    then have "Option.bind (sctpHandleData e a flags ?v) (\<lambda>a'. Some (STATUS_SUCCESS, a')) = Some (st, a')"
      using assms(2) by (simp add: sctpChunkDispatch_def)
    then show ?thesis by (auto simp: bind_Some_iff intro: handle_data_frame)
  next
    case False
    obtain crc where crc: "p = common_layout sp dp vtag crc @ chunk_layout SCTP_CHUNK_DATA flags ?v @ pad" "length crc = 4"
      unfolding p using finalized_eq [of "be32 0" sp dp vtag "chunk_layout SCTP_CHUNK_DATA flags ?v @ pad"] by auto
    then have "\<not> vtag_ok p (sa_myVerificationTag a)" "12 \<le> length p" using False by (auto simp: vtag_common_layout)
    then have "sctpAssocHandlePacket e a p = Some (STATUS_SUCCESS, a)"
      by (simp add: sctpAssocHandlePacket_def sctpValidatePacket_spec)
    then show ?thesis using assms(2) by simp
  qed
qed

text \<open>No timer of the association has expired.\<close>

definition timers_idle :: "env \<Rightarrow> SctpAssociation \<Rightarrow> bool" where
  "timers_idle e a = ((sa_t1InitExpiry a = 0 \<or> SCTP_NOW_MS e < sa_t1InitExpiry a) \<and>
     (sa_t3RtxExpiry a = 0 \<or> SCTP_NOW_MS e < sa_t3RtxExpiry a))"

lemma check_timers_idle:
  assumes "timers_idle e (ss_assoc s)"
  shows "check_timers e s = Some s"
proof -
  have "sctpAssocCheckTimers (ss_assoc s) (SCTP_NOW_MS e) = Some (ss_assoc s)"
    using assms by (auto simp: sctpAssocCheckTimers_def check_t1_def check_t3_def timers_idle_def)
  then show ?thesis
    by (simp add: check_timers_def SCTP_NOW_MS_def after_call_def new_events_def)
qed

definition put_packets :: "env \<Rightarrow> bytes list \<Rightarrow> SctpSession option \<Rightarrow> SctpSession option option" where
  "put_packets e ps s = for_each (\<lambda>p s. map_option snd (putSctpPacket e s p)) ps s"

fun is_outbound :: "session_event \<Rightarrow> bool" where
  "is_outbound (OutboundPacketFunc _) = True"
| "is_outbound _ = False"

text \<open>The calls that concern the data channels: what the peer connection learns from the session.\<close>

definition channel_events :: "session_event list \<Rightarrow> session_event list" where
  "channel_events evs = filter (\<lambda>ev. \<not> is_outbound ev) evs"

definition received_events :: "u16 \<times> u32 \<times> bytes \<Rightarrow> session_event list" where
  "received_events = (\<lambda>(sid, ppid, data). session_events (InboundMessage sid ppid data))"

lemma channel_events_append [simp]: "channel_events (xs @ ys) = channel_events xs @ channel_events ys"
  by (simp add: channel_events_def)

lemma channel_session_events:
  "channel_events (concat (map session_events evs)) = concat (map received_events (inbound evs))"
proof (induction evs rule: inbound.induct)
  case (2 sid ppid data evs)
  then show ?case by (auto simp: received_events_def session_events_def channel_events_def)
qed (auto simp: session_events_def channel_events_def)

lemma put_data_packet:
  assumes conn: "connected s" and idle: "timers_idle e (ss_assoc s)" and dp: "data_packet p"
    and hp: "sctpAssocHandlePacket (e\<lparr>env_hasMessageFn := True\<rparr>) (ss_assoc s) p = Some (st, a')"
  shows "\<exists>s' new. putSctpPacket e (Some s) p = Some (st, Some s') \<and> ss_assoc s' = a' \<and> connected s' \<and> timers_idle e a' \<and>
    inbound (sa_trace a') = inbound (sa_trace (ss_assoc s)) @ new \<and>
    channel_events (ss_trace s') = channel_events (ss_trace s) @ concat (map received_events new)"
proof -
  have fr: "data_frame (ss_assoc s) a'" by (rule data_packet_frame [OF dp hp])
  then obtain evs where evs: "sa_trace a' = sa_trace (ss_assoc s) @ evs" by (auto simp: data_frame_def)
  have "putSctpPacket e (Some s) p =
      Some (st, Some (s\<lparr>ss_assoc := a', ss_trace := ss_trace s @ concat (map session_events evs)\<rparr>))"
    using conn hp evs
    by (simp add: putSctpPacket_def check_timers_idle [OF idle] after_call_connected new_events_def connected_def)
  moreover have "timers_idle e a'" using fr idle by (auto simp: data_frame_def timers_idle_def)
  ultimately show ?thesis using conn evs by (auto simp: channel_session_events)
qed

lemma put_packets_data:
  assumes "connected s" and "timers_idle e (ss_assoc s)" and "list_all data_packet ps"
    and "deliver_packets (e\<lparr>env_hasMessageFn := True\<rparr>) ps (ss_assoc s) = Some a'"
  shows "\<exists>s' new. put_packets e ps (Some s) = Some (Some s') \<and> ss_assoc s' = a' \<and> connected s' \<and> timers_idle e a' \<and>
    inbound (sa_trace a') = inbound (sa_trace (ss_assoc s)) @ new \<and>
    channel_events (ss_trace s') = channel_events (ss_trace s) @ concat (map received_events new)"
  using assms
proof (induction ps arbitrary: s)
  case Nil
  then show ?case by (auto simp: put_packets_def deliver_packets_def)
next
  case (Cons p ps)
  obtain st a1 where h: "sctpAssocHandlePacket (e\<lparr>env_hasMessageFn := True\<rparr>) (ss_assoc s) p = Some (st, a1)"
    "deliver_packets (e\<lparr>env_hasMessageFn := True\<rparr>) ps a1 = Some a'"
    using Cons.prems(4) by (auto simp: deliver_packets_def split: option.splits)
  from put_data_packet [OF Cons.prems(1,2) _ h(1)] Cons.prems(3) obtain s1 new1 where
    s1: "putSctpPacket e (Some s) p = Some (st, Some s1)" "ss_assoc s1 = a1" "connected s1" "timers_idle e a1"
      "inbound (sa_trace a1) = inbound (sa_trace (ss_assoc s)) @ new1"
      "channel_events (ss_trace s1) = channel_events (ss_trace s) @ concat (map received_events new1)" by auto
  from Cons.IH [of s1] s1 h(2) Cons.prems(3) obtain s' new where
    "put_packets e ps (Some s1) = Some (Some s')" "ss_assoc s' = a'" "connected s'" "timers_idle e a'"
    "inbound (sa_trace a') = inbound (sa_trace a1) @ new"
    "channel_events (ss_trace s') = channel_events (ss_trace s1) @ concat (map received_events new)" by auto
  with s1 show ?case by (intro exI [of _ s'] exI [of _ "new1 @ new"]) (simp add: put_packets_def)
qed

section \<open>The session invariant\<close>

definition session_wf :: "SctpSession \<Rightarrow> bool" where
  "session_wf s = (connected s \<and> assoc_wf (ss_assoc s) \<and> length (ss_packet s) = SCTP_MAX_ALLOWABLE_PACKET_LENGTH)"

lemma after_call_wf:
  assumes "connected s" and "length (ss_packet s) = SCTP_MAX_ALLOWABLE_PACKET_LENGTH" and "assoc_wf a'"
  shows "\<exists>s'. after_call e s a' = Some s' \<and> session_wf s' \<and> ss_assoc s' = a'"
  using assms by (simp add: after_call_connected session_wf_def)

lemma check_timers_wf:
  assumes "session_wf s"
  shows "\<exists>s'. check_timers e s = Some s' \<and> session_wf s'"
proof -
  obtain a' where "sctpAssocCheckTimers (ss_assoc s) (env_gettime e div (10 * 10000)) = Some a'" "assoc_wf a'"
    using safe_timers [of "ss_assoc s"] assms by (auto simp: session_wf_def safe_def)
  then show ?thesis using after_call_wf [of s a' e] assms by (auto simp: check_timers_def session_wf_def)
qed

lemma put_packet_wf:
  assumes "session_wf s"
  shows "\<exists>s'. putSctpPacket e (Some s) buf = Some (STATUS_SUCCESS, Some s') \<and> session_wf s'"
proof -
  obtain s1 where s1: "check_timers e s = Some s1" "session_wf s1" using check_timers_wf [OF assms] by blast
  obtain a' where a': "sctpAssocHandlePacket (e\<lparr>env_hasMessageFn := True\<rparr>) (ss_assoc s1) buf = Some (STATUS_SUCCESS, a')" "assoc_wf a'"
    using handle_packet_wf [of "ss_assoc s1"] s1 by (auto simp: session_wf_def)
  obtain s2 where "after_call e s1 a' = Some s2" "session_wf s2"
    using after_call_wf [of s1 a' e] s1 a' by (auto simp: session_wf_def)
  then show ?thesis using assms s1 a' by (simp add: putSctpPacket_def session_wf_def connected_def)
qed

lemma session_send_wf:
  assumes "connected s" and "length (ss_packet s) = SCTP_MAX_ALLOWABLE_PACKET_LENGTH" and "assoc_wf (ss_assoc s)"
    and "length (m_payload m) < 2 ^ 32"
  shows "\<exists>a' s'. sctpAssocSend e (ss_assoc s) m = Some a' \<and> after_call e s a' = Some s' \<and> session_wf s'"
proof -
  obtain a' where "sctpAssocSend e (ss_assoc s) m = Some a'" "assoc_wf a'"
    using safe_send [OF assms(3,4), of e] by (auto simp: safe_def)
  then show ?thesis using after_call_wf [OF assms(1,2)] by blast
qed

text \<open>The parameters of a channel, as the sender reads them back from its DCEP packet.\<close>

definition init_params :: "RtcDataChannelInit \<Rightarrow> bool \<times> u16 \<times> u64" where
  "init_params init = (\<not> ci_ordered init,
     (case ci_maxRetransmits init of Some n \<Rightarrow> n | None \<Rightarrow> 0xFFFF),
     (case (ci_maxRetransmits init, ci_maxPacketLifeTime init) of (None, Some t) \<Rightarrow> ucast t | _ \<Rightarrow> 0))"

lemma scast_ucast_16: "(scast (ucast (t :: u16) :: u32) :: u64) = ucast t"
  by (rule bit_word_eqI) (auto simp: bit_simps min_def dest: bit_imp_le_length split: if_splits)

lemma ucast_ucast_16: "(ucast (ucast (t :: u16) :: u32) :: u16) = t"
  by (rule bit_word_eqI) (auto simp: bit_simps)

lemma message_params_open: "message_params (dcep_open init name @ rest) = Some (init_params init)"
proof -
  have r: "getUnalignedInt32Be (dcep_open init name @ rest) 4 = Some (dcep_reliability init)"
    using get_Be_shift(2) [of "[DCEP_DATA_CHANNEL_OPEN, dcep_channel_type init] @ be16 0" 4
        "be32 (dcep_reliability init) @ be16 (word_of_nat (length name)) @ be16 0 @ name @ rest"]
    by (simp add: dcep_open_def)
  have t: "memget (dcep_open init name @ rest) (Suc 0) = Some (dcep_channel_type init)"
    by (simp add: memget_def dcep_open_def)
  show ?thesis
    by (cases "ci_ordered init"; cases "ci_maxRetransmits init"; cases "ci_maxPacketLifeTime init")
      (simp_all add: message_params_def r t Let_def init_params_def dcep_channel_type_def dcep_reliability_def scast_ucast_16 ucast_ucast_16)
qed

definition dcep_message :: "u32 \<Rightarrow> RtcDataChannelInit \<Rightarrow> bytes \<Rightarrow> message" where
  "dcep_message sid init name =
     \<lparr>m_streamId = ucast sid, m_ppid = SCTP_PPID_DCEP, m_unordered = False, m_payload = dcep_open init name,
      m_maxRetransmits = 0xFFFF, m_lifetimeMs = 0\<rparr>"

definition channel_message :: "bool \<times> u16 \<times> u64 \<Rightarrow> u32 \<Rightarrow> bool \<Rightarrow> bytes \<Rightarrow> message" where
  "channel_message = (\<lambda>(unordered, maxRetransmits, lifetimeMs) sid isBinary payload.
     \<lparr>m_streamId = ucast sid, m_ppid = (if isBinary then SCTP_PPID_BINARY else SCTP_PPID_STRING), m_unordered = unordered,
      m_payload = payload, m_maxRetransmits = maxRetransmits, m_lifetimeMs = lifetimeMs\<rparr>)"

definition opened :: "SctpSession \<Rightarrow> RtcDataChannelInit \<Rightarrow> bytes \<Rightarrow> SctpSession" where
  "opened s init name = s\<lparr>ss_packet := dcep_open init name @ replicate (512 - length name) 0,
     ss_packetSize := word_of_nat (12 + length name)\<rparr>"

lemma write_dcep_eq:
  assumes "length (ss_packet s) = SCTP_MAX_ALLOWABLE_PACKET_LENGTH" and "length name \<le> 512"
  shows "sctpSessionWriteDcep e (Some s) sid (Some name) (Some init) =
    do { a' \<leftarrow> sctpAssocSend e (ss_assoc s) (dcep_message sid init name);
         s' \<leftarrow> after_call e (opened s init name) a'; Some (STATUS_SUCCESS, Some s') }"
proof -
  have "unat (word_of_nat (12 + length name) :: u32) = 12 + length name"
    using assms(2) by (intro unat_of_nat_small) simp
  moreover then have "memread (dcep_open init name @ replicate (512 - length name) 0) 0 (12 + length name) = Some (dcep_open init name)"
    by (simp add: memread_def)
  ultimately show ?thesis
    by (simp add: sctpSessionWriteDcep_def build_dcep_spec [OF assms] Let_def dcep_message_def opened_def del: of_nat_add)
qed

lemma write_message_eq:
  assumes "ss_shutdownStatus s = SCTP_SESSION_ACTIVE"
  shows "sctpSessionWriteMessage e (Some s) sid isBinary (Some payload) =
    do { params \<leftarrow> message_params (ss_packet s);
         a' \<leftarrow> sctpAssocSend e (ss_assoc s) (channel_message params sid isBinary payload);
         s' \<leftarrow> after_call e s a'; Some (STATUS_SUCCESS, Some s') }"
  using assms by (simp add: sctpSessionWriteMessage_def channel_message_def Let_def case_prod_unfold)

text \<open>The calls a peer connection makes on a session it has created.\<close>

datatype session_call =
    CallPutPacket env bytes
  | CallTick env
  | CallWriteMessage env u32 bool bytes
  | CallWriteDcep env u32 bytes RtcDataChannelInit

fun run_session_call :: "session_call \<Rightarrow> SctpSession \<Rightarrow> (STATUS \<times> SctpSession option) option" where
  "run_session_call (CallPutPacket e buf) s = putSctpPacket e (Some s) buf"
| "run_session_call (CallTick e) s = sctpSessionTickTimers e (Some s)"
| "run_session_call (CallWriteMessage e sid isBinary payload) s = sctpSessionWriteMessage e (Some s) sid isBinary (Some payload)"
| "run_session_call (CallWriteDcep e sid name init) s = sctpSessionWriteDcep e (Some s) sid (Some name) (Some init)"

text \<open>A message has less than 2 \<open>^\<close> 32 bytes; the name of a channel fits its field of 256 bytes.\<close>

fun session_call_ok :: "session_call \<Rightarrow> bool" where
  "session_call_ok (CallWriteMessage e sid isBinary payload) = (length payload < 2 ^ 32)"
| "session_call_ok (CallWriteDcep e sid name init) = (length name \<le> 255)"
| "session_call_ok _ = True"

definition all_callbacks :: SctpSessionCallbacks where
  "all_callbacks = \<lparr>cb_outboundPacketFunc = True, cb_dataChannelOpenFunc = True, cb_dataChannelMessageFunc = True\<rparr>"

inductive session_reachable :: "SctpSession \<Rightarrow> bool" where
  create: "createSctpSession e clk True (Some all_callbacks) True = Some (st, Some s) \<Longrightarrow> session_reachable s"
| call: "session_reachable s \<Longrightarrow> session_call_ok c \<Longrightarrow> run_session_call c s = Some (st, Some s') \<Longrightarrow> session_reachable s'"

lemma params_in_packet: "8 \<le> length packet \<Longrightarrow> \<exists>params. message_params packet = Some params"
  using get_Be_in_range(2) [of 4 packet] by (auto simp: message_params_def memget_def Let_def)

lemma run_session_call_wf:
  assumes "session_wf s" and "session_call_ok c"
  shows "\<exists>s'. run_session_call c s = Some (STATUS_SUCCESS, Some s') \<and> session_wf s'"
  using assms(2)
proof (cases c)
  case (CallPutPacket e buf)
  then show ?thesis using put_packet_wf [OF assms(1)] by simp
next
  case (CallTick e)
  then show ?thesis
    using check_timers_wf [OF assms(1), of e] assms(1) by (auto simp: sctpSessionTickTimers_def session_wf_def connected_def)
next
  case (CallWriteMessage e sid isBinary payload)
  have wf: "connected s" "length (ss_packet s) = SCTP_MAX_ALLOWABLE_PACKET_LENGTH" "assoc_wf (ss_assoc s)"
    using assms(1) by (auto simp: session_wf_def)
  then obtain params where params: "message_params (ss_packet s) = Some params"
    using params_in_packet [of "ss_packet s"] by (auto simp: SCTP_MAX_ALLOWABLE_PACKET_LENGTH_def)
  have "length (m_payload (channel_message params sid isBinary payload)) < 2 ^ 32"
    using assms(2) CallWriteMessage by (simp add: channel_message_def case_prod_unfold)
  from session_send_wf [OF wf this, of e] show ?thesis
    using CallWriteMessage params wf(1) by (auto simp: write_message_eq connected_def)
next
  case (CallWriteDcep e sid name init)
  have name: "length name \<le> 255" using assms(2) CallWriteDcep by simp
  have wf: "length (ss_packet s) = SCTP_MAX_ALLOWABLE_PACKET_LENGTH" using assms(1) by (simp add: session_wf_def)
  let ?s = "opened s init name"
  have o: "connected ?s" "length (ss_packet ?s) = SCTP_MAX_ALLOWABLE_PACKET_LENGTH" "assoc_wf (ss_assoc ?s)"
    using assms(1) name by (auto simp: opened_def session_wf_def SCTP_MAX_ALLOWABLE_PACKET_LENGTH_def)
  have "length (m_payload (dcep_message sid init name)) < 2 ^ 32" using name by (simp add: dcep_message_def)
  from session_send_wf [OF o this, of e] show ?thesis
    using CallWriteDcep name wf by (auto simp: write_dcep_eq opened_def)
qed

lemma create_session_wf:
  "\<exists>s. createSctpSession e clk True (Some all_callbacks) True = Some (STATUS_SUCCESS, Some s) \<and> session_wf s"
proof -
  let ?a = "sctpAssocInit clk 5000 5000 1150"
  have "assoc_wf ?a" by (rule sctpAssocInit_wf) simp_all
  then obtain a' where a': "sctpAssocConnect e ?a = Some a'" "assoc_wf a'"
    using safe_connect [of ?a e] by (auto simp: safe_def)
  let ?s = "\<lparr>ss_shutdownStatus = SCTP_SESSION_ACTIVE, ss_assoc = ?a, ss_packet = replicate SCTP_MAX_ALLOWABLE_PACKET_LENGTH 0,
     ss_packetSize = 0, ss_callbacks = all_callbacks, ss_trace = []\<rparr>"
  obtain s' where "after_call e ?s a' = Some s'" "session_wf s'"
    using after_call_wf [of ?s a' e] a' by (auto simp: connected_def all_callbacks_def)
  then show ?thesis using a' by (simp add: createSctpSession_def Let_def)
qed

lemma session_reachable_wf: "session_reachable s \<Longrightarrow> session_wf s"
proof (induction rule: session_reachable.induct)
  case (create e clk st s)
  then show ?case using create_session_wf [of e clk] by auto
next
  case (call s c st s')
  then show ?case using run_session_call_wf [of s c] by auto
qed

section \<open>From one session to another\<close>

definition sent_packets :: "SctpSession \<Rightarrow> SctpSession \<Rightarrow> bytes list" where
  "sent_packets s s' = concat (map (\<lambda>ev. case ev of OutboundPacketFunc p \<Rightarrow> [p] | _ \<Rightarrow> [])
     (drop (length (ss_trace s)) (ss_trace s')))"

lemma sent_packets_append:
  "ss_trace s' = ss_trace s @ map OutboundPacketFunc ps \<Longrightarrow> sent_packets s s' = ps"
  by (simp add: sent_packets_def concat_map_singleton comp_def)

text \<open>
  Session \<open>B\<close> has everything session \<open>A\<close> has sent, no timer of \<open>B\<close> is due, and \<open>B\<close> has or gets memory
  for reassembly.
\<close>

definition linked :: "env \<Rightarrow> SctpSession \<Rightarrow> SctpSession \<Rightarrow> bool" where
  "linked eB A B = (connected A \<and> connected B \<and> length (ss_packet A) = SCTP_MAX_ALLOWABLE_PACKET_LENGTH \<and>
     ready (sa_nextTsn (ss_assoc A) - 1) None (ss_assoc B) \<and> timers_idle eB (ss_assoc B) \<and>
     (sa_reassemblyBuf (ss_assoc B) \<noteq> None \<or> env_alloc eB SCTP_MAX_REASSEMBLY_SIZE) \<and>
     sa_myVerificationTag (ss_assoc B) = sa_peerVerificationTag (ss_assoc A))"

lemma session_transfer:
  assumes link: "linked eB A B" and can: "can_send (ss_assoc A) m" and max: "length (m_payload m) \<le> SCTP_MAX_REASSEMBLY_SIZE"
    and A1: "connected A1" "ss_assoc A1 = ss_assoc A" "ss_trace A1 = ss_trace A"
  shows "\<exists>a' A' B'. sctpAssocSend eA (ss_assoc A) m = Some a' \<and> after_call eA A1 a' = Some A' \<and>
    put_packets eB (sent_packets A A') (Some B) = Some (Some B') \<and>
    channel_events (ss_trace B') = channel_events (ss_trace B) @ received_events (m_streamId m, m_ppid m, m_payload m)"
proof -
  let ?e = "eB\<lparr>env_hasMessageFn := True\<rparr>"
  have B: "connected B" "timers_idle eB (ss_assoc B)" using link by (auto simp: linked_def)
  from message_sent_received [OF can max, of "ss_assoc B" ?e eA] link obtain a' ps b' where
    s: "sctpAssocSend eA (ss_assoc A) m = Some a'" "sa_trace a' = sa_trace (ss_assoc A) @ map OutboundPacket ps"
      "list_all data_packet ps" "deliver_packets ?e ps (ss_assoc B) = Some b'"
      "inbound (sa_trace b') = inbound (sa_trace (ss_assoc B)) @ [(m_streamId m, m_ppid m, m_payload m)]"
    by (auto simp: linked_def)
  have evs: "concat (map session_events (map OutboundPacket ps)) = map OutboundPacketFunc ps"
    by (induction ps) (auto simp: session_events_def)
  have A': "after_call eA A1 a' = Some (A1\<lparr>ss_assoc := a', ss_trace := ss_trace A @ map OutboundPacketFunc ps\<rparr>)"
    using A1 s(2) evs by (simp add: after_call_connected new_events_def del: map_map)
  moreover have "sent_packets A (A1\<lparr>ss_assoc := a', ss_trace := ss_trace A @ map OutboundPacketFunc ps\<rparr>) = ps"
    by (rule sent_packets_append) simp
  moreover obtain B' new where "put_packets eB ps (Some B) = Some (Some B')"
    "inbound (sa_trace b') = inbound (sa_trace (ss_assoc B)) @ new"
    "channel_events (ss_trace B') = channel_events (ss_trace B) @ concat (map received_events new)"
    using put_packets_data [OF B s(3,4)] by blast
  ultimately show ?thesis using s(1,5) by auto
qed

section \<open>Properties\<close>


definition channel0 :: RtcDataChannelInit where
  "channel0 = \<lparr>ci_ordered = False, ci_maxPacketLifeTime = None, ci_maxRetransmits = Some 3\<rparr>"


text \<open>
  C11. Opening a channel announces it to the peer: the DATA_CHANNEL_OPEN message that
  \<open>sctpSessionWriteDcep\<close> sends makes the session of the peer call its \<open>dataChannelOpenFunc\<close> once, with
  the stream of the channel and exactly its name.
\<close>

theorem channel_open_announced:
  assumes "linked eB A B" and "can_send (ss_assoc A) (dcep_message sid init name)" and "0 < length name" and "length name \<le> 255"
  shows "\<exists>A' B'. sctpSessionWriteDcep eA (Some A) sid (Some name) (Some init) = Some (STATUS_SUCCESS, Some A') \<and>
    put_packets eB (sent_packets A A') (Some B) = Some (Some B') \<and>
    channel_events (ss_trace B') = channel_events (ss_trace B) @
      [DataChannelOpenFunc (ucast (ucast sid :: u16)) name (word_of_nat (length name))]"
proof -
  have name: "length name \<le> 512" using assms(4) by simp
  have packet: "length (ss_packet A) = SCTP_MAX_ALLOWABLE_PACKET_LENGTH" using assms(1) by (simp add: linked_def)
  have max: "length (m_payload (dcep_message sid init name)) \<le> SCTP_MAX_REASSEMBLY_SIZE"
    using name by (simp add: dcep_message_def SCTP_MAX_REASSEMBLY_SIZE_def)
  have "connected (opened A init name)" "ss_assoc (opened A init name) = ss_assoc A" "ss_trace (opened A init name) = ss_trace A"
    using assms(1) by (auto simp: opened_def linked_def)
  from session_transfer [OF assms(1,2) max this, of eA] show ?thesis
    using dcep_open_accepted [OF assms(3) name, of init]
    by (auto simp: write_dcep_eq [OF packet name] dcep_message_def received_events_def session_events_def)
qed

text \<open>Two sessions over the two ends of a concrete association.\<close>

definition session_on :: "SctpAssociation \<Rightarrow> SctpSession" where
  "session_on a = \<lparr>ss_shutdownStatus = SCTP_SESSION_ACTIVE, ss_assoc = a, ss_packet = replicate SCTP_MAX_ALLOWABLE_PACKET_LENGTH 0,
     ss_packetSize = 0, ss_callbacks = all_callbacks, ss_trace = []\<rparr>"

lemma sender0_sends:
  assumes "length (m_payload m) \<le> 2048 * 1160"
  shows "can_send sender0 m"
proof -
  have f: "sa_flightSize sender0 = 0" "sa_cwnd sender0 = 3564" "sa_peerArwnd sender0 = 131072" "sa_mtu sender0 = 1188"
    "sa_outstanding sender0 = sa_outstanding assoc0"
    by (simp_all add: sender0_def established0_def assoc0_def sctpAssocInit_def Let_def)
  have "free_slots sender0 = 2048"
    unfolding f(5) by (simp add: assoc0_def sctpAssocInit_def Let_def filter_replicate SCTP_MAX_OUTSTANDING_def)
  then show ?thesis using f assms by (simp add: can_send_def sender0_def)
qed

lemma sessions_linked: "linked env0 (session_on sender0) (session_on receiver0)"
proof -
  have "sa_t1InitExpiry receiver0 = 0" "sa_t3RtxExpiry receiver0 = 0" "sa_nextTsn sender0 = sa_nextTsn established0"
    by (simp_all add: sender0_def receiver0_def established0_def assoc0_def sctpAssocInit_def Let_def)
  then show ?thesis
    by (simp add: linked_def session_on_def connected_def all_callbacks_def ready_def timers_idle_def env0_def
        receiver0_def sender0_def)
qed

theorem channel_open_announced_witness:
  "\<exists>A' B'. sctpSessionWriteDcep env0 (Some (session_on sender0)) 1 (Some [99, 104]) (Some channel0) = Some (STATUS_SUCCESS, Some A') \<and>
    put_packets env0 (sent_packets (session_on sender0) A') (Some (session_on receiver0)) = Some (Some B') \<and>
    channel_events (ss_trace B') = [DataChannelOpenFunc 1 [99, 104] 2]"
proof -
  have "can_send (ss_assoc (session_on sender0)) (dcep_message 1 channel0 [99, 104])"
    by (simp add: session_on_def) (rule sender0_sends, simp add: dcep_message_def)
  from channel_open_announced [OF sessions_linked this, of env0] show ?thesis
    by (simp add: session_on_def channel_events_def)
qed

text \<open>
  C12. A message written to a channel is delivered: the session of the peer calls its
  \<open>dataChannelMessageFunc\<close> once, with the stream, the kind of the message (text or binary) and its
  bytes, for messages of up to 64 KB and whatever reliability the channel asked for.
\<close>

theorem channel_message_delivered:
  assumes "linked eB A B" and "can_send (ss_assoc A) (channel_message params sid isBinary payload)"
    and "message_params (ss_packet A) = Some params" and "length payload \<le> SCTP_MAX_REASSEMBLY_SIZE"
  shows "\<exists>A' B'. sctpSessionWriteMessage eA (Some A) sid isBinary (Some payload) = Some (STATUS_SUCCESS, Some A') \<and>
    put_packets eB (sent_packets A A') (Some B) = Some (Some B') \<and>
    channel_events (ss_trace B') = channel_events (ss_trace B) @ [DataChannelMessageFunc (ucast (ucast sid :: u16)) isBinary payload]"
proof -
  let ?m = "channel_message params sid isBinary payload"
  have m: "m_streamId ?m = ucast sid" "m_ppid ?m = (if isBinary then 53 else 51)" "m_payload ?m = payload"
    by (simp_all add: channel_message_def case_prod_unfold)
  have A: "connected A" "ss_shutdownStatus A = SCTP_SESSION_ACTIVE" using assms(1) by (auto simp: linked_def connected_def)
  from session_transfer [OF assms(1,2) _ A(1) refl refl, of eA] assms(4) obtain a' A' B' where
    "sctpAssocSend eA (ss_assoc A) ?m = Some a'" "after_call eA A a' = Some A'"
    "put_packets eB (sent_packets A A') (Some B) = Some (Some B')"
    "channel_events (ss_trace B') = channel_events (ss_trace B) @ received_events (ucast sid, if isBinary then 53 else 51, payload)"
    unfolding m by auto
  then show ?thesis
    using assms(3) by (cases isBinary) (auto simp: write_message_eq [OF A(2)] received_events_def session_events_def)
qed

theorem channel_message_delivered_witness:
  "\<exists>A' B'. sctpSessionWriteMessage env0 (Some (session_on sender0)) 1 True (Some (replicate 3000 7)) = Some (STATUS_SUCCESS, Some A') \<and>
    put_packets env0 (sent_packets (session_on sender0) A') (Some (session_on receiver0)) = Some (Some B') \<and>
    channel_events (ss_trace B') = [DataChannelMessageFunc 1 True (replicate 3000 7)]"
proof -
  obtain params where params: "message_params (ss_packet (session_on sender0)) = Some params"
    using params_in_packet [of "ss_packet (session_on sender0)"] by (auto simp: session_on_def SCTP_MAX_ALLOWABLE_PACKET_LENGTH_def)
  have "can_send (ss_assoc (session_on sender0)) (channel_message params 1 True (replicate 3000 7))"
    by (simp add: session_on_def) (rule sender0_sends, simp add: channel_message_def case_prod_unfold)
  from channel_message_delivered [OF sessions_linked this params, of env0] show ?thesis
    by (simp add: session_on_def channel_events_def SCTP_MAX_REASSEMBLY_SIZE_def)
qed

text \<open>
  The reliability of a message is that of the channel opened last: after
  \<open>sctpSessionWriteDcep\<close> for one channel, \<open>sctpSessionWriteMessage\<close> sends every message, on
  whatever stream, with the ordering, retransmission limit and lifetime of that channel.
\<close>

lemma message_params_of_last_channel:
  assumes "session_reachable s" and "length name \<le> 255"
    and "sctpSessionWriteDcep e (Some s) sid (Some name) (Some init) = Some (st, Some s')"
  shows "sctpSessionWriteMessage e' (Some s') sid' isBinary (Some payload) =
    do { a' \<leftarrow> sctpAssocSend e' (ss_assoc s') (channel_message (init_params init) sid' isBinary payload);
         s2 \<leftarrow> after_call e' s' a'; Some (STATUS_SUCCESS, Some s2) }"
proof -
  have wf: "session_wf s" by (rule session_reachable_wf [OF assms(1)])
  then have packet: "length (ss_packet s) = SCTP_MAX_ALLOWABLE_PACKET_LENGTH" and name: "length name \<le> 512"
    and conn: "connected (opened s init name)" using assms(2) by (auto simp: session_wf_def opened_def)
  from assms(3) obtain a' where "after_call e (opened s init name) a' = Some s'"
    by (auto simp: write_dcep_eq [OF packet name] bind_Some_iff)
  then have "ss_packet s' = ss_packet (opened s init name)" "ss_shutdownStatus s' = ss_shutdownStatus (opened s init name)"
    using conn by (auto simp: after_call_connected)
  then show ?thesis
    using conn by (simp add: write_message_eq message_params_open opened_def connected_def)
qed

lemma message_params_of_last_channel_witness:
  "\<exists>s s'. session_reachable s \<and>
    sctpSessionWriteDcep env0 (Some s) 3 (Some [99]) (Some channel0) = Some (STATUS_SUCCESS, Some s') \<and>
    sctpSessionWriteMessage env0 (Some s') 1 True (Some [7]) =
      do { a' \<leftarrow> sctpAssocSend env0 (ss_assoc s') (channel_message (True, 3, 0) 1 True [7]);
           s2 \<leftarrow> after_call env0 s' a'; Some (STATUS_SUCCESS, Some s2) }"
proof -
  obtain s where s: "createSctpSession env0 (\<lambda>_. 0) True (Some all_callbacks) True = Some (STATUS_SUCCESS, Some s)" "session_wf s"
    using create_session_wf by blast
  then have r: "session_reachable s" by (blast intro: session_reachable.create)
  obtain s' where s': "sctpSessionWriteDcep env0 (Some s) 3 (Some [99]) (Some channel0) = Some (STATUS_SUCCESS, Some s')"
    using run_session_call_wf [OF s(2), of "CallWriteDcep env0 3 [99] channel0"] by auto
  have "init_params channel0 = (True, 3, 0)" by (simp add: init_params_def channel0_def)
  with message_params_of_last_channel [OF r _ s', of env0 1 True "[7]"] r s' show ?thesis by auto
qed

text \<open>
  \<open>freeSctpSession\<close> on an established session builds a SHUTDOWN chunk, but nothing leaves the
  session: the status was set before, and the outbound bridge drops every packet of a
  session that is not active. The peer is not told.
\<close>

lemma free_session_silent:
  assumes "session_wf s" and "sa_state (ss_assoc s) = SCTP_ASSOC_ESTABLISHED"
  shows "\<exists>s'. freeSctpSession e (Some (Some s)) = Some (STATUS_SUCCESS, Some s') \<and>
    sa_state (ss_assoc s') = SCTP_ASSOC_SHUTDOWN_SENT \<and> ss_trace s' = ss_trace s"
proof -
  have "safe (sctpAssocShutdown (ss_assoc s))" using assms(1) by (intro safe_intros) (simp add: session_wf_def)
  then obtain a' where a': "sctpAssocShutdown (ss_assoc s) = Some a'" by (auto simp: safe_def)
  then have "sa_state a' = SCTP_ASSOC_SHUTDOWN_SENT" using assms(2) by (auto simp: sctpAssocShutdown_def bind_Some_iff)
  then show ?thesis
    using assms(2) a' by (simp add: freeSctpSession_def Let_def after_call_inactive sctpAssocCleanup_def)
qed

lemma free_session_silent_witness:
  "\<exists>s'. freeSctpSession env0 (Some (Some (session_on sender0))) = Some (STATUS_SUCCESS, Some s') \<and>
    sa_state (ss_assoc s') = SCTP_ASSOC_SHUTDOWN_SENT \<and> ss_trace s' = []"
proof -
  have "session_wf (session_on sender0)" "sa_state sender0 = SCTP_ASSOC_ESTABLISHED"
    by (simp_all add: session_wf_def session_on_def connected_def all_callbacks_def sender0_def)
  with free_session_silent [of "session_on sender0" env0] show ?thesis by (simp add: session_on_def)
qed

text \<open>
  The length that \<open>handleDcepPacket\<close> hands to the application is not bounded by the message: a
  DATA_CHANNEL_OPEN of 13 bytes that announces a label of any length passes the test, and the
  callback gets that length with a pointer to a single byte.
\<close>

lemma dcep_label_overlong:
  assumes "connected s" and "0 < label"
  shows "sctpMessageBridge e s sid SCTP_PPID_DCEP ([DCEP_DATA_CHANNEL_OPEN, 0, 0, 0, 0, 0, 0, 0] @ be16 label @ [0, 0, x]) =
    Some (s\<lparr>ss_trace := ss_trace s @ [DataChannelOpenFunc sid [x] label]\<rparr>)"
proof -
  let ?d = "[DCEP_DATA_CHANNEL_OPEN, 0, 0, 0, 0, 0, 0, 0] @ be16 label @ [0, 0, x]"
  have l: "dcep_label_len ?d = label" by (simp add: dcep_label_len_def be16_def)
  have "0 < unat label" using assms(2) by (simp add: word_less_nat_alt)
  then have "dcep_accepted ?d" unfolding dcep_accepted_def l by (simp add: be16_def SCTP_MAX_ALLOWABLE_PACKET_LENGTH_def)
  moreover have "drop 12 ?d = [x]" by (simp add: be16_def)
  ultimately show ?thesis
    using assms(1) l by (simp add: sctpMessageBridge_def connected_def handleDcep_spec)
qed

lemma dcep_label_overlong_witness:
  "sctpMessageBridge env0 (session_on sender0) 5 50 ([3, 0, 0, 0, 0, 0, 0, 0] @ be16 0xFFFF @ [0, 0, 65]) =
    Some ((session_on sender0)\<lparr>ss_trace := [DataChannelOpenFunc 5 [65] 0xFFFF]\<rparr>)"
  using dcep_label_overlong [of "session_on sender0" "0xFFFF" env0 5 65]
  by (simp add: session_on_def connected_def all_callbacks_def)

end
