(* ===== verification/HashTable.thy ===== *)
theory HashTable
  imports Prelude
begin

text \<open>
  \<^verbatim>\<open>deps/src/utils/HashTable.c\<close>: the hash table from 64-bit keys to 64-bit values that the peer
  connection, the jitter buffer and the ICE agent keep their objects in.

  A bucket has the entries that are in use (the first \<open>count\<close> of its array), the declared
  \<open>length\<close> of the array and the number of entries that were allocated for it (\<open>hb_alloc\<close>): a
  store behind the allocated entries is a fault, \<open>None\<close>. A null table is \<open>None\<close> in an argument;
  \<open>mem\<close> tells whether an allocation succeeds. The sizes of the structures are those of a
  64-bit platform, 16 bytes each.
\<close>

section \<open>Data\<close>

record HashEntry =
  he_key :: u64
  he_value :: u64

record HashBucket =
  hb_length :: u32
  hb_alloc :: nat
  hb_entries :: "HashEntry list"

record HashTable =
  ht_itemCount :: u32
  ht_bucketCount :: u32
  ht_bucketLength :: u32
  ht_buckets :: "HashBucket list"

abbreviation (input) MIN_HASH_BUCKET_COUNT :: u32 where "MIN_HASH_BUCKET_COUNT \<equiv> 16"
abbreviation (input) DEFAULT_HASH_TABLE_BUCKET_LENGTH :: u32 where "DEFAULT_HASH_TABLE_BUCKET_LENGTH \<equiv> 2"
abbreviation (input) DEFAULT_HASH_TABLE_BUCKET_COUNT :: u32 where "DEFAULT_HASH_TABLE_BUCKET_COUNT \<equiv> 10000"
abbreviation (input) MIN_HASH_TABLE_ENTRIES_ALLOC_LENGTH :: u32 where "MIN_HASH_TABLE_ENTRIES_ALLOC_LENGTH \<equiv> 8"

section \<open>Hashing\<close>

text \<open>One round of FNV-1a, with byte \<open>i\<close> of the key.\<close>

definition fnv_round :: "u64 \<Rightarrow> nat \<Rightarrow> u64 \<Rightarrow> u64" where
  "fnv_round key i hash = (hash XOR (drop_bit (i * 8) key AND 0xff)) * 0x100000001b3"

definition getKeyHash :: "u64 \<Rightarrow> u64" where
  "getKeyHash key = fold (fnv_round key) [0..<8] 0xcbf29ce484222325"

definition bucket_index :: "u32 \<Rightarrow> u64 \<Rightarrow> nat" where
  "bucket_index bucketCount key = unat (ucast (getKeyHash key mod ucast bucketCount) :: u32)"

definition getHashBucket :: "HashTable \<Rightarrow> u64 \<Rightarrow> HashBucket option" where
  "getHashBucket t key = memget (ht_buckets t) (bucket_index (ht_bucketCount t) key)"

section \<open>Creating and clearing\<close>

text \<open>
  The size of the allocation is computed in 32 bits. When it wraps, the buckets or their
  entries lie behind the allocation: the model faults then.
\<close>

definition hashTableCreateWithParams ::
  "(nat \<Rightarrow> bool) \<Rightarrow> u32 \<Rightarrow> u32 \<Rightarrow> bool \<Rightarrow> (STATUS \<times> HashTable option) option" where
  "hashTableCreateWithParams mem bucketCount bucketLength ppHashTable =
     (if \<not> (bucketCount \<ge> MIN_HASH_BUCKET_COUNT \<and> bucketLength > 0 \<and> ppHashTable) then Some (STATUS_NULL_ARG, None)
      else
        let entryAllocSize = 16 * unat bucketLength;
            bucketAllocSize = 16 * unat bucketCount;
            allocSize = 16 + bucketAllocSize + entryAllocSize * unat bucketCount in
        if allocSize \<ge> 2 ^ 32 then None
        else if \<not> mem allocSize then Some (STATUS_NOT_ENOUGH_MEMORY, None)
        else Some (STATUS_SUCCESS,
          Some \<lparr>ht_itemCount = 0, ht_bucketCount = bucketCount, ht_bucketLength = bucketLength,
                ht_buckets = replicate (unat bucketCount)
                  \<lparr>hb_length = bucketLength, hb_alloc = unat bucketLength, hb_entries = []\<rparr>\<rparr>))"

definition hashTableCreate :: "(nat \<Rightarrow> bool) \<Rightarrow> bool \<Rightarrow> (STATUS \<times> HashTable option) option" where
  "hashTableCreate mem ppHashTable =
     hashTableCreateWithParams mem DEFAULT_HASH_TABLE_BUCKET_COUNT DEFAULT_HASH_TABLE_BUCKET_LENGTH ppHashTable"

definition hashTableClear :: "HashTable option \<Rightarrow> STATUS \<times> HashTable option" where
  "hashTableClear pHashTable = (case pHashTable of
     None \<Rightarrow> (STATUS_NULL_ARG, None)
   | Some t \<Rightarrow> (STATUS_SUCCESS, Some (t\<lparr>ht_buckets := map (\<lambda>b. b\<lparr>hb_entries := []\<rparr>) (ht_buckets t), ht_itemCount := 0\<rparr>)))"

text \<open>The allocations that are released: one array per bucket that has grown, and the table.\<close>

definition hashTableFree :: "HashTable option \<Rightarrow> STATUS \<times> nat" where
  "hashTableFree pHashTable = (case pHashTable of
     None \<Rightarrow> (STATUS_SUCCESS, 0)
   | Some t \<Rightarrow> (STATUS_SUCCESS, length (filter (\<lambda>b. hb_length b \<noteq> ht_bucketLength t) (ht_buckets t)) + 1))"

section \<open>Counting\<close>

definition hashTableGetCount :: "HashTable option \<Rightarrow> bool \<Rightarrow> STATUS \<times> u32 option" where
  "hashTableGetCount pHashTable pItemCount = (case pHashTable of
     Some t \<Rightarrow> if pItemCount then (STATUS_SUCCESS, Some (ht_itemCount t)) else (STATUS_NULL_ARG, None)
   | None \<Rightarrow> (STATUS_NULL_ARG, None))"

definition hashTableGetBucketCount :: "HashTable option \<Rightarrow> bool \<Rightarrow> STATUS \<times> u32 option" where
  "hashTableGetBucketCount pHashTable pBucketCount = (case pHashTable of
     Some t \<Rightarrow> if pBucketCount then (STATUS_SUCCESS, Some (ht_bucketCount t)) else (STATUS_NULL_ARG, None)
   | None \<Rightarrow> (STATUS_NULL_ARG, None))"

definition hashTableIsEmpty :: "HashTable option \<Rightarrow> bool \<Rightarrow> STATUS \<times> bool option" where
  "hashTableIsEmpty pHashTable pIsEmpty = (case pHashTable of
     Some t \<Rightarrow> if pIsEmpty then (STATUS_SUCCESS, Some (ht_itemCount t = 0)) else (STATUS_NULL_ARG, None)
   | None \<Rightarrow> (STATUS_NULL_ARG, None))"

section \<open>Looking up\<close>

definition find_entry :: "HashBucket \<Rightarrow> u64 \<Rightarrow> nat" where
  "find_entry b key = first_index (\<lambda>en. he_key en = key) (hb_entries b)"

text \<open>The second component is what is stored through \<open>pValue\<close>.\<close>

definition hashTableGet :: "HashTable option \<Rightarrow> u64 \<Rightarrow> bool \<Rightarrow> (STATUS \<times> u64 option) option" where
  "hashTableGet pHashTable key pValue = (case pHashTable of
     None \<Rightarrow> Some (STATUS_NULL_ARG, None)
   | Some t \<Rightarrow>
       if \<not> pValue then Some (STATUS_NULL_ARG, None)
       else do { b \<leftarrow> getHashBucket t key;
                 let i = find_entry b key;
                 if i < length (hb_entries b) then Some (STATUS_SUCCESS, Some (he_value (hb_entries b ! i)))
                 else Some (STATUS_HASH_KEY_NOT_PRESENT, None) })"

definition hashTableContains :: "HashTable option \<Rightarrow> u64 \<Rightarrow> bool \<Rightarrow> (STATUS \<times> bool option) option" where
  "hashTableContains pHashTable key pContains =
     (if \<not> pContains then Some (STATUS_NULL_ARG, None)
      else do { (retStatus, value) \<leftarrow> hashTableGet pHashTable key True;
                if retStatus \<noteq> STATUS_HASH_KEY_NOT_PRESENT \<and> retStatus \<noteq> STATUS_SUCCESS then Some (retStatus, None)
                else Some (STATUS_SUCCESS, Some (retStatus = STATUS_SUCCESS)) })"

section \<open>Changing\<close>

definition set_bucket :: "HashTable \<Rightarrow> u64 \<Rightarrow> HashBucket \<Rightarrow> HashTable" where
  "set_bucket t key b = t\<lparr>ht_buckets := (ht_buckets t)[bucket_index (ht_bucketCount t) key := b]\<rparr>"

text \<open>The larger array of a full bucket; its size in bytes is computed in 32 bits.\<close>

definition grow_bucket :: "(nat \<Rightarrow> bool) \<Rightarrow> HashBucket \<Rightarrow> (STATUS \<times> HashBucket) option" where
  "grow_bucket mem b =
     (let doubled = hb_length b * 2;
          entriesLength = (if doubled > MIN_HASH_TABLE_ENTRIES_ALLOC_LENGTH then doubled else MIN_HASH_TABLE_ENTRIES_ALLOC_LENGTH);
          allocSize = (16 * entriesLength :: u32) in
      if \<not> mem (unat allocSize) then Some (STATUS_NOT_ENOUGH_MEMORY, b)
      else if length (hb_entries b) > unat allocSize div 16 then None
      else Some (STATUS_SUCCESS, b\<lparr>hb_length := entriesLength, hb_alloc := unat allocSize div 16\<rparr>))"

definition hashTableUpsert :: "(nat \<Rightarrow> bool) \<Rightarrow> HashTable option \<Rightarrow> u64 \<Rightarrow> u64 \<Rightarrow> (STATUS \<times> HashTable option) option" where
  "hashTableUpsert mem pHashTable key value = (case pHashTable of
     None \<Rightarrow> Some (STATUS_NULL_ARG, None)
   | Some t \<Rightarrow>
       do { b \<leftarrow> getHashBucket t key;
            let i = find_entry b key;
            if i < length (hb_entries b)
            then Some (STATUS_SUCCESS, Some (set_bucket t key
                   (b\<lparr>hb_entries := (hb_entries b)[i := (hb_entries b ! i)\<lparr>he_value := value\<rparr>]\<rparr>)))
            else do {
              (status, b1) \<leftarrow> (if length (hb_entries b) = unat (hb_length b) then grow_bucket mem b else Some (STATUS_SUCCESS, b));
              if status \<noteq> STATUS_SUCCESS then Some (status, Some t)
              else if length (hb_entries b1) \<ge> hb_alloc b1 then None
              else Some (STATUS_SUCCESS,
                     Some ((set_bucket t key (b1\<lparr>hb_entries := hb_entries b1 @ [\<lparr>he_key = key, he_value = value\<rparr>]\<rparr>))
                             \<lparr>ht_itemCount := ht_itemCount t + 1\<rparr>)) } })"

definition hashTablePut :: "(nat \<Rightarrow> bool) \<Rightarrow> HashTable option \<Rightarrow> u64 \<Rightarrow> u64 \<Rightarrow> (STATUS \<times> HashTable option) option" where
  "hashTablePut mem pHashTable key value =
     do { (status, contains) \<leftarrow> hashTableContains pHashTable key True;
          if status \<noteq> STATUS_SUCCESS then Some (status, pHashTable)
          else if contains = Some True then Some (STATUS_HASH_KEY_ALREADY_PRESENT, pHashTable)
          else hashTableUpsert mem pHashTable key value }"

text \<open>The search counts \<open>i\<close> one past the entry; the entries behind it move down.\<close>

definition hashTableRemove :: "HashTable option \<Rightarrow> u64 \<Rightarrow> (STATUS \<times> HashTable option) option" where
  "hashTableRemove pHashTable key = (case pHashTable of
     None \<Rightarrow> Some (STATUS_NULL_ARG, None)
   | Some t \<Rightarrow>
       do { b \<leftarrow> getHashBucket t key;
            let i = find_entry b key;
            if \<not> i < length (hb_entries b) then Some (STATUS_HASH_KEY_NOT_PRESENT, Some t)
            else Some (STATUS_SUCCESS,
                   Some ((set_bucket t key (b\<lparr>hb_entries := take i (hb_entries b) @ drop (i + 1) (hb_entries b)\<rparr>))
                           \<lparr>ht_itemCount := ht_itemCount t - 1\<rparr>)) })"

section \<open>All entries\<close>

text \<open>
  The caller's array, if there is one, with its size: the status, the array and the count
  that is stored through \<open>pHashCount\<close>.
\<close>

definition hashTableGetAllEntries ::
  "HashTable option \<Rightarrow> HashEntry list option \<Rightarrow> u32 option \<Rightarrow> (STATUS \<times> HashEntry list option \<times> u32 option) option" where
  "hashTableGetAllEntries pHashTable pHashEntries pHashCount = (case (pHashTable, pHashCount) of
     (Some t, Some hashCount) \<Rightarrow>
       (case pHashEntries of
          None \<Rightarrow> Some (STATUS_SUCCESS, None, Some (ht_itemCount t))
        | Some entries \<Rightarrow>
            if ht_itemCount t = 0 then Some (STATUS_SUCCESS, Some entries, Some (ht_itemCount t))
            else if \<not> hashCount \<ge> ht_itemCount t then Some (STATUS_BUFFER_TOO_SMALL, Some entries, Some hashCount)
            else do { entries' \<leftarrow> memwrite entries 0 (concat (map hb_entries (ht_buckets t)));
                      Some (STATUS_SUCCESS, Some entries', Some (ht_itemCount t)) })
   | _ \<Rightarrow> Some (STATUS_NULL_ARG, pHashEntries, pHashCount))"

text \<open>
  The iteration calls \<open>hashEntryFn\<close> with the state behind \<open>callerData\<close> on one entry after the
  other, bucket by bucket; a callback that changes the table it iterates over is not covered.
\<close>

fun iterate_entries :: "(HashEntry \<Rightarrow> 's \<Rightarrow> STATUS \<times> 's) \<Rightarrow> HashEntry list \<Rightarrow> 's \<Rightarrow> STATUS \<times> 's \<times> bool" where
  "iterate_entries fn [] s = (STATUS_SUCCESS, s, True)"
| "iterate_entries fn (en # ens) s =
     (let (retStatus, s') = fn en s in
      if retStatus = STATUS_HASH_ENTRY_ITERATION_ABORT then (STATUS_SUCCESS, s', False)
      else if retStatus \<noteq> STATUS_SUCCESS then (retStatus, s', False)
      else iterate_entries fn ens s')"

fun iterate_buckets :: "(HashEntry \<Rightarrow> 's \<Rightarrow> STATUS \<times> 's) \<Rightarrow> HashBucket list \<Rightarrow> 's \<Rightarrow> STATUS \<times> 's" where
  "iterate_buckets fn [] s = (STATUS_SUCCESS, s)"
| "iterate_buckets fn (b # bs) s =
     (let (retStatus, s', continue) = iterate_entries fn (hb_entries b) s in
      if continue then iterate_buckets fn bs s' else (retStatus, s'))"

definition hashTableIterateEntries ::
  "HashTable option \<Rightarrow> 's \<Rightarrow> (HashEntry \<Rightarrow> 's \<Rightarrow> STATUS \<times> 's) option \<Rightarrow> STATUS \<times> 's" where
  "hashTableIterateEntries pHashTable callerData hashEntryFn = (case (pHashTable, hashEntryFn) of
     (Some t, Some fn) \<Rightarrow> iterate_buckets fn (ht_buckets t) callerData
   | _ \<Rightarrow> (STATUS_NULL_ARG, callerData))"

section \<open>The table as a map\<close>

definition kv :: "HashEntry list \<Rightarrow> (u64 \<times> u64) list" where
  "kv es = map (\<lambda>en. (he_key en, he_value en)) es"

definition all_entries :: "HashTable \<Rightarrow> HashEntry list" where
  "all_entries t = concat (map hb_entries (ht_buckets t))"

definition ht_abs :: "HashTable \<Rightarrow> u64 \<rightharpoonup> u64" where
  "ht_abs t = map_of (kv (all_entries t))"

text \<open>A bucket has only keys that hash to it, each once, and memory for as many entries as its length says.\<close>

definition bucket_ok :: "u32 \<Rightarrow> nat \<Rightarrow> HashBucket \<Rightarrow> bool" where
  "bucket_ok n i b = (distinct (map he_key (hb_entries b)) \<and> (\<forall>en \<in> set (hb_entries b). bucket_index n (he_key en) = i) \<and>
     length (hb_entries b) \<le> hb_alloc b \<and> hb_alloc b = unat (hb_length b))"

definition ht_inv :: "HashTable \<Rightarrow> bool" where
  "ht_inv t = (0 < ht_bucketCount t \<and> length (ht_buckets t) = unat (ht_bucketCount t) \<and>
     (\<forall>i < length (ht_buckets t). bucket_ok (ht_bucketCount t) i (ht_buckets t ! i)) \<and>
     ht_itemCount t = word_of_nat (length (all_entries t)))"

lemma kv_simps [simp]: "kv [] = []" "kv (en # es) = (he_key en, he_value en) # kv es" "kv (xs @ ys) = kv xs @ kv ys"
  by (simp_all add: kv_def)

lemma kv_concat: "kv (concat xss) = concat (map kv xss)"
  by (induction xss) auto

lemma kv_keys: "fst ` set (kv es) = he_key ` set es"
  by (force simp: kv_def)

lemma map_of_kv_None: "(map_of (kv es) k = None) = (k \<notin> he_key ` set es)"
  by (simp add: map_of_eq_None_iff kv_keys)

lemma map_of_concat_nth:
  assumes "i < length xss" and "\<And>j. j < length xss \<Longrightarrow> j \<noteq> i \<Longrightarrow> map_of (xss ! j) k = None"
  shows "map_of (concat xss) k = map_of (xss ! i) k"
  using assms
proof (induction xss arbitrary: i)
  case (Cons xs xss)
  show ?case
  proof (cases i)
    case 0
    have "map_of (concat xss) k = None"
    proof (cases "xss = []")
      case False
      then have "map_of (concat xss) k = map_of (xss ! 0) k"
        using Cons.prems(2) [of "Suc _"] 0 by (intro Cons.IH) auto
      then show ?thesis using Cons.prems(2) [of 1] 0 False by simp
    qed simp
    then show ?thesis using 0 by (simp add: map_add_def split: option.split)
  next
    case (Suc i')
    then have "map_of (concat xss) k = map_of (xss ! i') k"
      using Cons.prems(1) Cons.prems(2) [of "Suc _"] by (intro Cons.IH) auto
    moreover have "map_of xs k = None" using Cons.prems(2) [of 0] Suc by simp
    ultimately show ?thesis using Suc by (simp add: map_add_def split: option.split)
  qed
qed simp

lemma bucket_index_less:
  assumes "0 < n"
  shows "bucket_index n key < unat n"
proof -
  have n: "unat (ucast n :: u64) = unat n" by (simp add: unsigned_ucast_eq take_bit_nat_eq_self less_le_trans [OF unat_less32 [of n]])
  have "unat (getKeyHash key mod ucast n) < unat n"
    using assms by (simp add: unat_mod_distrib n word_less_nat_alt)
  moreover then have "unat (getKeyHash key mod ucast n) < 2 ^ 32" using unat_less32 [of n] by (rule less_trans)
  ultimately show ?thesis by (simp add: bucket_index_def unsigned_ucast_eq take_bit_nat_eq_self)
qed

lemma abs_bucket:
  assumes "ht_inv t"
  shows "ht_abs t key = map_of (kv (hb_entries (ht_buckets t ! bucket_index (ht_bucketCount t) key))) key"
proof -
  let ?i = "bucket_index (ht_bucketCount t) key" and ?xss = "map (\<lambda>b. kv (hb_entries b)) (ht_buckets t)"
  have i: "?i < length ?xss" using assms bucket_index_less by (simp add: ht_inv_def)
  have "map_of (concat ?xss) key = map_of (?xss ! ?i) key"
  proof (rule map_of_concat_nth [OF i])
    fix j assume j: "j < length ?xss" "j \<noteq> ?i"
    then have "bucket_ok (ht_bucketCount t) j (ht_buckets t ! j)" using assms by (simp add: ht_inv_def)
    then have "key \<notin> he_key ` set (hb_entries (ht_buckets t ! j))" using j(2) by (auto simp: bucket_ok_def)
    then show "map_of (?xss ! j) key = None" using j(1) by (simp add: map_of_kv_None)
  qed
  then show ?thesis using i by (simp add: ht_abs_def all_entries_def kv_concat comp_def)
qed

lemma getHashBucket_inv:
  assumes "ht_inv t"
  shows "getHashBucket t key = Some (ht_buckets t ! bucket_index (ht_bucketCount t) key)"
    and "bucket_ok (ht_bucketCount t) (bucket_index (ht_bucketCount t) key) (ht_buckets t ! bucket_index (ht_bucketCount t) key)"
  using assms bucket_index_less [of "ht_bucketCount t" key] by (auto simp: getHashBucket_def ht_inv_def mem_simps)

section \<open>Searching a bucket\<close>

lemma find_entry_map_of:
  "map_of (kv es) key = (let i = first_index (\<lambda>en. he_key en = key) es in if i < length es then Some (he_value (es ! i)) else None)"
  by (induction es) (auto simp: Let_def)

lemma update_found:
  assumes "first_index (\<lambda>en. he_key en = key) es < length es"
  shows "map_of (kv (es[first_index (\<lambda>en. he_key en = key) es := (es ! first_index (\<lambda>en. he_key en = key) es)\<lparr>he_value := v\<rparr>])) =
    (map_of (kv es))(key \<mapsto> v)"
  using assms by (induction es) auto

lemma keys_update_found:
  "map he_key (es[first_index (\<lambda>en. he_key en = key) es := (es ! first_index (\<lambda>en. he_key en = key) es)\<lparr>he_value := v\<rparr>]) = map he_key es"
  by (induction es) auto

lemma remove_found:
  assumes "distinct (map he_key es)"
  shows "map_of (kv (take (first_index (\<lambda>en. he_key en = key) es) es @ drop (Suc (first_index (\<lambda>en. he_key en = key) es)) es)) =
    (map_of (kv es))(key := None)"
  using assms
proof (induction es)
  case (Cons en es)
  then show ?case by (auto simp: map_of_kv_None fun_upd_twist intro!: ext)
qed simp

lemma removed_sub:
  "set (take i es @ drop (Suc i) es) \<subseteq> set es" "distinct (map he_key es) \<Longrightarrow> distinct (map he_key (take i es @ drop (Suc i) es))"
  "i < length es \<Longrightarrow> Suc (length (take i es @ drop (Suc i) es)) = length es"
proof -
  show "set (take i es @ drop (Suc i) es) \<subseteq> set es" by (auto dest: in_set_takeD in_set_dropD)
  show "Suc (length (take i es @ drop (Suc i) es)) = length es" if "i < length es" using that by simp
  assume d: "distinct (map he_key es)"
  show "distinct (map he_key (take i es @ drop (Suc i) es))"
  proof (cases "i < length es")
    case True
    then have "map he_key es = map he_key (take i es) @ he_key (es ! i) # map he_key (drop (Suc i) es)"
      by (metis id_take_nth_drop list.simps(9) map_append)
    with d show ?thesis by simp
  qed (use d in simp)
qed

section \<open>Replacing a bucket\<close>

lemma length_concat_update:
  "i < length xss \<Longrightarrow> length (concat (xss[i := ys])) + length (xss ! i) = length (concat xss) + length ys"
proof (induction xss arbitrary: i)
  case (Cons xs xss)
  then show ?case by (cases i) auto
qed simp

lemma bucket_step:
  assumes inv: "ht_inv t" and ok: "bucket_ok (ht_bucketCount t) (bucket_index (ht_bucketCount t) key) b'"
    and b: "b = ht_buckets t ! bucket_index (ht_bucketCount t) key"
    and upd: "map_of (kv (hb_entries b')) = (map_of (kv (hb_entries b)))(key := x)"
    and c: "c + word_of_nat (length (hb_entries b)) = ht_itemCount t + word_of_nat (length (hb_entries b'))"
  defines "t' \<equiv> (set_bucket t key b')\<lparr>ht_itemCount := c\<rparr>"
  shows "ht_inv t' \<and> ht_abs t' = (ht_abs t)(key := x) \<and>
    length (all_entries t') + length (hb_entries b) = length (all_entries t) + length (hb_entries b')"
proof -
  let ?n = "ht_bucketCount t" and ?bs = "ht_buckets t"
  let ?i = "bucket_index ?n key"
  have i: "?i < length ?bs" using inv bucket_index_less by (simp add: ht_inv_def)
  have bs: "ht_buckets t' = ?bs[?i := b']" "ht_bucketCount t' = ?n" "ht_itemCount t' = c"
    by (simp_all add: t'_def set_bucket_def)
  have len: "length (all_entries t') + length (hb_entries b) = length (all_entries t) + length (hb_entries b')"
    using length_concat_update [of ?i "map hb_entries ?bs" "hb_entries b'"] i
    by (simp add: all_entries_def bs map_update b)
  have "(word_of_nat (length (all_entries t')) :: u32) = c"
  proof -
    have "(word_of_nat (length (all_entries t')) :: u32) + word_of_nat (length (hb_entries b)) =
        word_of_nat (length (all_entries t)) + word_of_nat (length (hb_entries b'))"
      using len by (simp only: of_nat_add [symmetric])
    also have "\<dots> = c + word_of_nat (length (hb_entries b))" using c inv by (simp add: ht_inv_def)
    finally show ?thesis by simp
  qed
  then have inv': "ht_inv t'"
    using inv ok i by (auto simp: ht_inv_def bs nth_list_update)
  have "ht_abs t' k = ((ht_abs t)(key := x)) k" for k
  proof (cases "bucket_index ?n k = ?i")
    case True
    then show ?thesis using abs_bucket [OF inv', of k] abs_bucket [OF inv, of k] i upd b by (simp add: bs)
  next
    case False
    then have "k \<noteq> key" by auto
    then show ?thesis using abs_bucket [OF inv', of k] abs_bucket [OF inv, of k] False by (simp add: bs)
  qed
  with inv' len show ?thesis by blast
qed

lemma bucket_entries_le:
  assumes "b \<in> set (ht_buckets t)"
  shows "length (hb_entries b) \<le> length (all_entries t)"
proof -
  obtain xs ys where "ht_buckets t = xs @ b # ys" using assms by (auto dest: split_list)
  then show ?thesis by (simp add: all_entries_def)
qed

section \<open>The operations on the map\<close>

lemma hashTableGet_spec:
  assumes "ht_inv t"
  shows "hashTableGet (Some t) key True =
    Some (case ht_abs t key of None \<Rightarrow> (STATUS_HASH_KEY_NOT_PRESENT, None) | Some v \<Rightarrow> (STATUS_SUCCESS, Some v))"
  by (simp add: hashTableGet_def getHashBucket_inv [OF assms] abs_bucket [OF assms] find_entry_map_of find_entry_def Let_def)

lemma hashTableContains_spec:
  assumes "ht_inv t"
  shows "hashTableContains (Some t) key True = Some (STATUS_SUCCESS, Some (ht_abs t key \<noteq> None))"
  by (simp add: hashTableContains_def hashTableGet_spec [OF assms] split: option.split)

text \<open>Fewer entries than any bucket can grow to.\<close>

definition ht_room :: "HashTable \<Rightarrow> bool" where
  "ht_room t = (length (all_entries t) < 2 ^ 27)"

lemma grow_bucket_spec:
  assumes "unat (hb_length b) = length (hb_entries b)" and "length (hb_entries b) < 2 ^ 27"
  shows "grow_bucket mem b = Some (STATUS_NOT_ENOUGH_MEMORY, b) \<and> (\<exists>n. \<not> mem n) \<or>
    (\<exists>b'. grow_bucket mem b = Some (STATUS_SUCCESS, b') \<and> hb_entries b' = hb_entries b \<and>
      hb_alloc b' = unat (hb_length b') \<and> length (hb_entries b) < hb_alloc b')"
proof -
  let ?l = "if hb_length b * 2 > 8 then hb_length b * 2 else 8 :: u32"
  have d: "unat (hb_length b * 2) = 2 * length (hb_entries b)"
    using assms by (simp add: unat_word_ariths)
  have l: "unat ?l < 2 ^ 28" "length (hb_entries b) < unat ?l"
    using assms(2) d by (auto simp: word_less_nat_alt)
  have "unat (16 * ?l) = 16 * unat ?l" using l(1) by (simp only: unat_word_ariths) simp
  then show ?thesis using l by (auto simp: grow_bucket_def Let_def simp del: if_split)
qed

lemma hashTableUpsert_spec:
  assumes inv: "ht_inv t" and room: "ht_room t"
  shows "hashTableUpsert mem (Some t) key v = Some (STATUS_NOT_ENOUGH_MEMORY, Some t) \<and> (\<exists>n. \<not> mem n) \<or>
    (\<exists>t'. hashTableUpsert mem (Some t) key v = Some (STATUS_SUCCESS, Some t') \<and> ht_inv t' \<and> ht_abs t' = (ht_abs t)(key \<mapsto> v) \<and>
      length (all_entries t') \<le> Suc (length (all_entries t)))"
proof -
  let ?n = "ht_bucketCount t" and ?i = "bucket_index (ht_bucketCount t) key"
  define b where "b = ht_buckets t ! ?i"
  note bk = getHashBucket_inv [OF inv, of key, folded b_def]
  have bt: "b \<in> set (ht_buckets t)" using bk(1) by (auto simp: getHashBucket_def memget_def b_def split: if_splits)
  have small: "length (hb_entries b) < 2 ^ 27" using bucket_entries_le [OF bt] room by (simp add: ht_room_def)
  let ?f = "find_entry b key"
  show ?thesis
  proof (cases "?f < length (hb_entries b)")
    case True
    let ?b' = "b\<lparr>hb_entries := (hb_entries b)[?f := (hb_entries b ! ?f)\<lparr>he_value := v\<rparr>]\<rparr>"
    have keys: "map he_key (hb_entries ?b') = map he_key (hb_entries b)" by (simp add: find_entry_def keys_update_found)
    then have ks: "he_key ` set (hb_entries ?b') = he_key ` set (hb_entries b)" by (metis image_set)
    have "\<forall>k \<in> he_key ` set (hb_entries b). bucket_index ?n k = ?i" using bk(2) by (simp add: bucket_ok_def)
    then have "\<forall>en \<in> set (hb_entries ?b'). bucket_index ?n (he_key en) = ?i" unfolding ks [symmetric] by simp
    then have ok: "bucket_ok ?n ?i ?b'" using bk(2) keys by (simp add: bucket_ok_def)
    have m: "map_of (kv (hb_entries ?b')) = (map_of (kv (hb_entries b)))(key := Some v)"
      using update_found [OF True [unfolded find_entry_def]] by (simp add: find_entry_def)
    have "set_bucket t key ?b' = (set_bucket t key ?b')\<lparr>ht_itemCount := ht_itemCount t\<rparr>" by (simp add: set_bucket_def)
    with bucket_step [OF inv ok b_def m, of "ht_itemCount t"] True bk(1) show ?thesis
      by (simp add: hashTableUpsert_def Let_def)
  next
    case False
    have new: "key \<notin> he_key ` set (hb_entries b)"
      using False find_entry_map_of [of "hb_entries b" key] map_of_kv_None [of "hb_entries b" key] by (simp add: find_entry_def)
    let ?g = "if length (hb_entries b) = unat (hb_length b) then grow_bucket mem b else Some (STATUS_SUCCESS, b)"
    have "?g = Some (STATUS_NOT_ENOUGH_MEMORY, b) \<and> (\<exists>n. \<not> mem n) \<or> (\<exists>b1. ?g = Some (STATUS_SUCCESS, b1) \<and> hb_entries b1 = hb_entries b \<and>
      hb_alloc b1 = unat (hb_length b1) \<and> length (hb_entries b) < hb_alloc b1)"
      using grow_bucket_spec [of b mem] small bk(2) by (auto simp: bucket_ok_def)
    then show ?thesis
    proof (elim disjE exE conjE)
      fix n assume "?g = Some (STATUS_NOT_ENOUGH_MEMORY, b)" "\<not> mem n"
      then show ?thesis using False bk(1) by (auto simp: hashTableUpsert_def Let_def)
    next
      fix b1 assume g: "?g = Some (STATUS_SUCCESS, b1)" and b1: "hb_entries b1 = hb_entries b"
        "hb_alloc b1 = unat (hb_length b1)" "length (hb_entries b) < hb_alloc b1"
      let ?b' = "b1\<lparr>hb_entries := hb_entries b1 @ [\<lparr>he_key = key, he_value = v\<rparr>]\<rparr>"
      have ok: "bucket_ok ?n ?i ?b'" using bk(2) new b1 by (auto simp: bucket_ok_def)
      have m: "map_of (kv (hb_entries ?b')) = (map_of (kv (hb_entries b)))(key := Some v)"
        using new [folded map_of_kv_None] b1 by (auto simp: map_add_def fun_eq_iff split: option.split)
      have "hashTableUpsert mem (Some t) key v =
          Some (STATUS_SUCCESS, Some ((set_bucket t key ?b')\<lparr>ht_itemCount := ht_itemCount t + 1\<rparr>))"
        using False bk(1) g b1 by (simp add: hashTableUpsert_def Let_def)
      with bucket_step [OF inv ok b_def m, of "ht_itemCount t + 1"] b1 show ?thesis by simp
    qed
  qed
qed

lemma hashTablePut_spec:
  assumes "ht_inv t" and "ht_room t"
  shows "hashTablePut mem (Some t) key v = (if ht_abs t key = None then hashTableUpsert mem (Some t) key v
    else Some (STATUS_HASH_KEY_ALREADY_PRESENT, Some t))"
  by (simp add: hashTablePut_def hashTableContains_spec [OF assms(1)])

lemma hashTableRemove_spec:
  assumes inv: "ht_inv t"
  shows "\<exists>t'. hashTableRemove (Some t) key =
      Some (if ht_abs t key = None then STATUS_HASH_KEY_NOT_PRESENT else STATUS_SUCCESS, Some t') \<and>
    ht_inv t' \<and> ht_abs t' = (ht_abs t)(key := None) \<and> length (all_entries t') \<le> length (all_entries t)"
proof -
  let ?n = "ht_bucketCount t" and ?i = "bucket_index (ht_bucketCount t) key"
  define b where "b = ht_buckets t ! ?i"
  note bk = getHashBucket_inv [OF inv, of key, folded b_def]
  let ?f = "find_entry b key"
  have abs: "ht_abs t key = (if ?f < length (hb_entries b) then Some (he_value (hb_entries b ! ?f)) else None)"
    using abs_bucket [OF inv, of key] by (simp add: b_def find_entry_map_of find_entry_def Let_def)
  show ?thesis
  proof (cases "?f < length (hb_entries b)")
    case True
    let ?es = "take ?f (hb_entries b) @ drop (Suc ?f) (hb_entries b)"
    let ?b' = "b\<lparr>hb_entries := ?es\<rparr>"
    have len: "Suc (length ?es) = length (hb_entries b)" by (rule removed_sub(3) [OF True])
    have "set ?es \<subseteq> set (hb_entries b)" "distinct (map he_key (hb_entries b))"
      using removed_sub(1) bk(2) by (auto simp: bucket_ok_def)
    then have ok: "bucket_ok ?n ?i ?b'"
      using bk(2) removed_sub(2) [of "hb_entries b" ?f] len by (auto simp: bucket_ok_def)
    have m: "map_of (kv (hb_entries ?b')) = (map_of (kv (hb_entries b)))(key := None)"
      using remove_found [of "hb_entries b" key] bk(2) by (simp add: bucket_ok_def find_entry_def)
    have c: "ht_itemCount t - 1 + word_of_nat (length (hb_entries b)) = ht_itemCount t + word_of_nat (length (hb_entries ?b'))"
      unfolding len [symmetric] by simp
    have "hashTableRemove (Some t) key = Some (STATUS_SUCCESS, Some ((set_bucket t key ?b')\<lparr>ht_itemCount := ht_itemCount t - 1\<rparr>))"
      using True bk(1) by (simp add: hashTableRemove_def Let_def)
    moreover note step = bucket_step [OF inv ok b_def m c]
    moreover have "length (all_entries ((set_bucket t key ?b')\<lparr>ht_itemCount := ht_itemCount t - 1\<rparr>)) \<le> length (all_entries t)"
      using step len by (simp del: length_append length_take length_drop)
    ultimately show ?thesis using abs True by simp
  next
    case False
    then show ?thesis using abs bk(1) inv by (auto simp: hashTableRemove_def Let_def)
  qed
qed

lemma concat_map_Nil: "concat (map (\<lambda>x. []) xs) = []"
  by (induction xs) auto

lemma hashTableClear_spec:
  assumes "ht_inv t"
  shows "\<exists>t'. hashTableClear (Some t) = (STATUS_SUCCESS, Some t') \<and> ht_inv t' \<and> ht_abs t' = Map.empty \<and> all_entries t' = []"
  using assms by (simp add: hashTableClear_def ht_inv_def bucket_ok_def all_entries_def ht_abs_def comp_def concat_map_Nil)

lemma distinct_entries:
  assumes "ht_inv t"
  shows "distinct (map he_key (all_entries t))"
proof -
  have d: "distinct (concat (map (\<lambda>b. map he_key (hb_entries b)) bs))"
    if "\<forall>i < length bs. bucket_ok n (k + i) (bs ! i)" for bs n k
    using that
  proof (induction bs arbitrary: k)
    case (Cons b bs)
    have tl: "\<forall>i < length bs. bucket_ok n (Suc k + i) (bs ! i)" using Cons.prems by auto
    have ks: "bucket_index n (he_key en) = k" if "en \<in> set (hb_entries b)" for en
      using Cons.prems that by (auto simp: bucket_ok_def)
    have "bucket_index n (he_key en) > k" if b': "b' \<in> set bs" and en: "en \<in> set (hb_entries b')" for b' en
    proof -
      obtain i where "i < length bs" "b' = bs ! i" using b' by (auto simp: in_set_conv_nth)
      then show ?thesis using tl en by (auto simp: bucket_ok_def)
    qed
    then have "set (map he_key (hb_entries b)) \<inter> set (concat (map (\<lambda>b. map he_key (hb_entries b)) bs)) = {}"
      using ks by fastforce
    moreover have "distinct (map he_key (hb_entries b))" using Cons.prems by (auto simp: bucket_ok_def)
    ultimately show ?case using Cons.IH [OF tl] by simp
  qed simp
  show ?thesis
    using d [of "ht_buckets t" "ht_bucketCount t" 0] assms by (simp add: ht_inv_def all_entries_def map_concat comp_def)
qed

lemma item_count:
  assumes "ht_inv t"
  shows "ht_itemCount t = word_of_nat (card (dom (ht_abs t)))"
proof -
  have "dom (ht_abs t) = set (map he_key (all_entries t))"
    by (simp add: ht_abs_def dom_map_of_conv_image_fst kv_keys)
  then have "card (dom (ht_abs t)) = length (all_entries t)"
    using distinct_card [OF distinct_entries [OF assms]] by simp
  then show ?thesis using assms by (simp add: ht_inv_def)
qed

lemma create_spec:
  assumes "16 \<le> bc" and "0 < bl" and "16 + 16 * unat bc + 16 * unat bl * unat bc < 2 ^ 32"
  shows "\<exists>t. hashTableCreateWithParams (\<lambda>_. True) bc bl True = Some (STATUS_SUCCESS, Some t) \<and>
    ht_inv t \<and> ht_abs t = Map.empty \<and> all_entries t = []"
proof -
  have "0 < bc" using assms(1) by (simp add: word_less_nat_alt word_le_nat_alt)
  moreover have "concat (replicate n []) = []" for n by (induction n) auto
  ultimately show ?thesis
    using assms by (simp add: hashTableCreateWithParams_def Let_def ht_inv_def bucket_ok_def all_entries_def ht_abs_def)
qed

section \<open>Dictionaries\<close>

text \<open>What the users of a table rely on: the laws of a finite map behind status codes.\<close>

locale dictionary =
  fixes abs :: "'t \<Rightarrow> 'k \<rightharpoonup> 'v"
    and inv :: "'t \<Rightarrow> bool"
    and room :: "'t \<Rightarrow> bool"
    and get :: "'t \<Rightarrow> 'k \<Rightarrow> (STATUS \<times> 'v option) option"
    and upsert :: "'t \<Rightarrow> 'k \<Rightarrow> 'v \<Rightarrow> (STATUS \<times> 't option) option"
    and delete :: "'t \<Rightarrow> 'k \<Rightarrow> (STATUS \<times> 't option) option"
  assumes get_law: "inv t \<Longrightarrow> get t k =
      Some (case abs t k of None \<Rightarrow> (STATUS_HASH_KEY_NOT_PRESENT, None) | Some v \<Rightarrow> (STATUS_SUCCESS, Some v))"
    and upsert_law: "inv t \<Longrightarrow> room t \<Longrightarrow> \<exists>t'. upsert t k v = Some (STATUS_SUCCESS, Some t') \<and> inv t' \<and> abs t' = (abs t)(k \<mapsto> v)"
    and delete_law: "inv t \<Longrightarrow> \<exists>t'. delete t k =
      Some (if abs t k = None then STATUS_HASH_KEY_NOT_PRESENT else STATUS_SUCCESS, Some t') \<and> inv t' \<and> abs t' = (abs t)(k := None)"
begin

lemma get_after_upsert:
  assumes "inv t" and "room t" and "upsert t k v = Some (st, Some t')"
  shows "get t' k' = (if k' = k then Some (STATUS_SUCCESS, Some v) else get t k')"
proof -
  have "inv t'" "abs t' = (abs t)(k \<mapsto> v)" using upsert_law [OF assms(1,2), of k v] assms(3) by auto
  then show ?thesis by (simp add: get_law assms(1))
qed

lemma get_after_delete:
  assumes "inv t" and "delete t k = Some (st, Some t')"
  shows "get t' k' = (if k' = k then Some (STATUS_HASH_KEY_NOT_PRESENT, None) else get t k')"
proof -
  have "inv t'" "abs t' = (abs t)(k := None)" using delete_law [OF assms(1), of k] assms(2) by auto
  then show ?thesis by (simp add: get_law assms(1))
qed

end

interpretation ht: dictionary ht_abs ht_inv ht_room
  "\<lambda>t k. hashTableGet (Some t) k True" "\<lambda>t. hashTableUpsert (\<lambda>_. True) (Some t)" "\<lambda>t. hashTableRemove (Some t)"
proof
  show "\<exists>t'. hashTableUpsert (\<lambda>_. True) (Some t) k v = Some (STATUS_SUCCESS, Some t') \<and> ht_inv t' \<and> ht_abs t' = (ht_abs t)(k \<mapsto> v)"
    if "ht_inv t" "ht_room t" for t k v
    using hashTableUpsert_spec [OF that, of "\<lambda>_. True" k v] by auto
  show "\<exists>t'. hashTableRemove (Some t) k =
      Some (if ht_abs t k = None then STATUS_HASH_KEY_NOT_PRESENT else STATUS_SUCCESS, Some t') \<and> ht_inv t' \<and> ht_abs t' = (ht_abs t)(k := None)"
    if "ht_inv t" for t k
    using hashTableRemove_spec [OF that, of k] by blast
qed (rule hashTableGet_spec)

section \<open>Sequences of operations\<close>

datatype table_op =
    OpGet u64
  | OpContains u64
  | OpPut u64 u64
  | OpUpsert u64 u64
  | OpRemove u64
  | OpClear
  | OpCount

text \<open>What a call returns: its status, the value it stores for the caller, and the table after it.\<close>

fun run_op :: "table_op \<Rightarrow> HashTable \<Rightarrow> (STATUS \<times> u64 option \<times> HashTable) option" where
  "run_op (OpGet k) t = do { (st, v) \<leftarrow> hashTableGet (Some t) k True; Some (st, v, t) }"
| "run_op (OpContains k) t = do { (st, v) \<leftarrow> hashTableContains (Some t) k True; Some (st, map_option of_bool v, t) }"
| "run_op (OpPut k v) t = do { (st, p) \<leftarrow> hashTablePut (\<lambda>_. True) (Some t) k v; t' \<leftarrow> p; Some (st, None, t') }"
| "run_op (OpUpsert k v) t = do { (st, p) \<leftarrow> hashTableUpsert (\<lambda>_. True) (Some t) k v; t' \<leftarrow> p; Some (st, None, t') }"
| "run_op (OpRemove k) t = do { (st, p) \<leftarrow> hashTableRemove (Some t) k; t' \<leftarrow> p; Some (st, None, t') }"
| "run_op OpClear t = (case hashTableClear (Some t) of (st, p) \<Rightarrow> do { t' \<leftarrow> p; Some (st, None, t') })"
| "run_op OpCount t = (case hashTableGetCount (Some t) True of (st, n) \<Rightarrow> Some (st, map_option ucast n, t))"

fun run_ops :: "table_op list \<Rightarrow> HashTable \<Rightarrow> (STATUS \<times> u64 option) list option" where
  "run_ops [] t = Some []"
| "run_ops (op # ops) t = do { (st, v, t') \<leftarrow> run_op op t; r \<leftarrow> run_ops ops t'; Some ((st, v) # r) }"

text \<open>The same calls on a finite map.\<close>

fun spec_op :: "table_op \<Rightarrow> (u64 \<rightharpoonup> u64) \<Rightarrow> STATUS \<times> u64 option \<times> (u64 \<rightharpoonup> u64)" where
  "spec_op (OpGet k) m = (if m k = None then STATUS_HASH_KEY_NOT_PRESENT else STATUS_SUCCESS, m k, m)"
| "spec_op (OpContains k) m = (STATUS_SUCCESS, Some (of_bool (k \<in> dom m)), m)"
| "spec_op (OpPut k v) m = (if k \<in> dom m then (STATUS_HASH_KEY_ALREADY_PRESENT, None, m) else (STATUS_SUCCESS, None, m(k \<mapsto> v)))"
| "spec_op (OpUpsert k v) m = (STATUS_SUCCESS, None, m(k \<mapsto> v))"
| "spec_op (OpRemove k) m = (if k \<in> dom m then STATUS_SUCCESS else STATUS_HASH_KEY_NOT_PRESENT, None, m(k := None))"
| "spec_op OpClear m = (STATUS_SUCCESS, None, Map.empty)"
| "spec_op OpCount m = (STATUS_SUCCESS, Some (ucast (word_of_nat (card (dom m)) :: u32)), m)"

fun spec_ops :: "table_op list \<Rightarrow> (u64 \<rightharpoonup> u64) \<Rightarrow> (STATUS \<times> u64 option) list" where
  "spec_ops [] m = []"
| "spec_ops (op # ops) m = (case spec_op op m of (st, v, m') \<Rightarrow> (st, v) # spec_ops ops m')"

lemma upsert_step:
  assumes "ht_inv t" and "ht_room t"
  shows "\<exists>t'. hashTableUpsert (\<lambda>_. True) (Some t) k v = Some (STATUS_SUCCESS, Some t') \<and> ht_inv t' \<and>
    ht_abs t' = (ht_abs t)(k \<mapsto> v) \<and> length (all_entries t') \<le> Suc (length (all_entries t))"
  using hashTableUpsert_spec [OF assms, of "\<lambda>_. True" k v] by auto

lemma run_op_spec:
  assumes inv: "ht_inv t" and room: "ht_room t"
  shows "\<exists>st v t'. run_op op t = Some (st, v, t') \<and> ht_inv t' \<and> spec_op op (ht_abs t) = (st, v, ht_abs t') \<and>
    length (all_entries t') \<le> Suc (length (all_entries t))"
proof (cases op)
  case (OpGet k)
  then show ?thesis using inv by (auto simp: hashTableGet_spec split: option.split)
next
  case (OpContains k)
  then show ?thesis using inv by (auto simp: hashTableContains_spec)
next
  case (OpPut k v)
  then show ?thesis using upsert_step [OF inv room, of k v] inv by (auto simp: hashTablePut_spec [OF inv room])
next
  case (OpUpsert k v)
  then show ?thesis using upsert_step [OF inv room, of k v] by auto
next
  case (OpRemove k)
  then show ?thesis using hashTableRemove_spec [OF inv, of k] by (auto simp: domIff)
next
  case OpClear
  then show ?thesis using hashTableClear_spec [OF inv] by auto
next
  case OpCount
  then show ?thesis using inv item_count [OF inv] by (auto simp: hashTableGetCount_def)
qed

lemma run_ops_spec:
  "ht_inv t \<Longrightarrow> length (all_entries t) + length ops \<le> 2 ^ 27 \<Longrightarrow> run_ops ops t = Some (spec_ops ops (ht_abs t))"
proof (induction ops arbitrary: t)
  case (Cons op ops)
  then have "ht_room t" by (simp add: ht_room_def)
  from run_op_spec [OF Cons.prems(1) this, of op] obtain st v t' where
    "run_op op t = Some (st, v, t')" "ht_inv t'" "spec_op op (ht_abs t) = (st, v, ht_abs t')"
    "length (all_entries t') \<le> Suc (length (all_entries t))" by blast
  then show ?case using Cons.IH [of t'] Cons.prems(2) by simp
qed simp

lemma iterate_entries_success:
  "(\<And>en s. fst (fn en s) = STATUS_SUCCESS) \<Longrightarrow>
   iterate_entries fn es s = (STATUS_SUCCESS, fold (\<lambda>en s. snd (fn en s)) es s, True)"
  by (induction es arbitrary: s) (auto simp: case_prod_unfold Let_def)

lemma iterate_buckets_success:
  "(\<And>en s. fst (fn en s) = STATUS_SUCCESS) \<Longrightarrow>
   iterate_buckets fn bs s = (STATUS_SUCCESS, fold (\<lambda>en s. snd (fn en s)) (concat (map hb_entries bs)) s)"
  by (induction bs arbitrary: s) (simp_all add: iterate_entries_success)

section \<open>Properties\<close>

text \<open>
  C21. The hash table implements a finite map: on a table that was just created, with any number of
  buckets, every sequence of calls of \<open>hashTableGet\<close>, \<open>hashTableContains\<close>, \<open>hashTablePut\<close>,
  \<open>hashTableUpsert\<close>, \<open>hashTableRemove\<close>, \<open>hashTableClear\<close> and \<open>hashTableGetCount\<close> returns the statuses and
  values that the same calls on a map return, whichever keys collide and whichever buckets grow.
\<close>

theorem hash_table_refines_map:
  assumes "16 \<le> bc" and "0 < bl" and "16 + 16 * unat bc + 16 * unat bl * unat bc < 2 ^ 32" and "length ops \<le> 2 ^ 27"
  shows "\<exists>t. hashTableCreateWithParams (\<lambda>_. True) bc bl True = Some (STATUS_SUCCESS, Some t) \<and>
    run_ops ops t = Some (spec_ops ops Map.empty)"
  using create_spec [OF assms(1-3)] run_ops_spec [of _ ops] assms(4) by (metis add_0 list.size(3))

theorem hash_table_refines_map_witness:
  "\<exists>t. hashTableCreateWithParams (\<lambda>_. True) 16 1 True = Some (STATUS_SUCCESS, Some t) \<and>
    run_ops [OpPut 5 7, OpPut 5 8, OpUpsert 5 9, OpGet 5, OpRemove 5, OpGet 5] t =
      Some [(STATUS_SUCCESS, None), (STATUS_HASH_KEY_ALREADY_PRESENT, None), (STATUS_SUCCESS, None), (STATUS_SUCCESS, Some 9),
        (STATUS_SUCCESS, None), (STATUS_HASH_KEY_NOT_PRESENT, None)]"
  using hash_table_refines_map [of 16 1 "[OpPut 5 7, OpPut 5 8, OpUpsert 5 9, OpGet 5, OpRemove 5, OpGet 5]"] by simp

text \<open>
  \<open>hashTableIterateEntries\<close> calls the callback exactly once for every key of the map, with its
  value, as long as the callback returns success.
\<close>

lemma iteration_visits_each_entry:
  assumes "ht_inv t" and "\<And>en s. fst (fn en s) = STATUS_SUCCESS"
  shows "\<exists>es. hashTableIterateEntries (Some t) s (Some fn) = (STATUS_SUCCESS, fold (\<lambda>en s. snd (fn en s)) es s) \<and>
    distinct (map he_key es) \<and> map_of (map (\<lambda>en. (he_key en, he_value en)) es) = ht_abs t"
  using iterate_buckets_success [of fn "ht_buckets t" s] assms(2) distinct_entries [OF assms(1)]
  by (intro exI [of _ "all_entries t"]) (simp add: hashTableIterateEntries_def all_entries_def [symmetric] ht_abs_def kv_def)

lemma iteration_visits_each_entry_witness:
  "\<exists>t es. hashTableCreateWithParams (\<lambda>_. True) 16 1 True = Some (STATUS_SUCCESS, Some t) \<and>
    hashTableIterateEntries (Some t) (0::nat) (Some (\<lambda>en n. (STATUS_SUCCESS, n + 1))) = (STATUS_SUCCESS, fold (\<lambda>en n. n + 1) es 0) \<and>
    map_of (map (\<lambda>en. (he_key en, he_value en)) es) = Map.empty"
proof -
  obtain t where t: "hashTableCreateWithParams (\<lambda>_. True) 16 1 True = Some (STATUS_SUCCESS, Some t)" "ht_inv t" "ht_abs t = Map.empty"
    using create_spec [of 16 1] by auto
  then show ?thesis using iteration_visits_each_entry [OF t(2), of "\<lambda>en n. (STATUS_SUCCESS, n + 1)" "0::nat"] by auto
qed

end
