(* ===== verification/DoubleLinkedList.thy ===== *)
theory DoubleLinkedList
  imports Prelude
begin

text \<open>
  \<^verbatim>\<open>deps/src/utils/DoubleLinkedList.c\<close>: the double linked list of the ICE agent, the TURN
  connection and the timers.

  The nodes live in an explicit heap, a map from addresses to nodes; the null pointer is \<open>None\<close>.
  An access through a null pointer or to an address that is not allocated is a fault, and so is
  releasing a node twice: the result is \<open>None\<close> then. An operation that allocates takes the
  address that the allocator returns (\<open>None\<close> when there is no memory). \<open>doubleListClear\<close> and
  \<open>doubleListFree\<close> may get a null list; the other operations take a list that exists and leave out
  the test of the list pointer and of pointers to results.
\<close>

section \<open>Nodes, lists and the heap\<close>

type_synonym addr = nat

record DoubleListNode =
  dn_pNext :: "addr option"
  dn_pPrev :: "addr option"
  dn_data :: u64

type_synonym dheap = "addr \<rightharpoonup> DoubleListNode"

record DoubleList =
  dl_count :: u32
  dl_pHead :: "addr option"
  dl_pTail :: "addr option"

type_synonym dstate = "DoubleList \<times> dheap"

definition node_at :: "dheap \<Rightarrow> addr option \<Rightarrow> DoubleListNode option" where
  "node_at h p = do { a \<leftarrow> p; h a }"

text \<open>\<^verbatim>\<open>p->pNext = q\<close> and \<^verbatim>\<open>p->pPrev = q\<close>.\<close>

definition set_next :: "dheap \<Rightarrow> addr option \<Rightarrow> addr option \<Rightarrow> dheap option" where
  "set_next h p q = do { a \<leftarrow> p; n \<leftarrow> h a; Some (h(a \<mapsto> n\<lparr>dn_pNext := q\<rparr>)) }"

definition set_prev :: "dheap \<Rightarrow> addr option \<Rightarrow> addr option \<Rightarrow> dheap option" where
  "set_prev h p q = do { a \<leftarrow> p; n \<leftarrow> h a; Some (h(a \<mapsto> n\<lparr>dn_pPrev := q\<rparr>)) }"

definition memfree :: "dheap \<Rightarrow> addr option \<Rightarrow> dheap option" where
  "memfree h p = do { a \<leftarrow> p; n \<leftarrow> h a; Some (h(a := None)) }"

section \<open>Internal operations\<close>

definition doubleListAllocNode :: "addr option \<Rightarrow> u64 \<Rightarrow> dheap \<Rightarrow> STATUS \<times> addr option \<times> dheap" where
  "doubleListAllocNode new data h = (case new of
     None \<Rightarrow> (STATUS_NOT_ENOUGH_MEMORY, None, h)
   | Some a \<Rightarrow> (STATUS_SUCCESS, Some a, h(a \<mapsto> \<lparr>dn_pNext = None, dn_pPrev = None, dn_data = data\<rparr>)))"

definition doubleListInsertNodeHeadInternal :: "dstate \<Rightarrow> addr option \<Rightarrow> (STATUS \<times> dstate) option" where
  "doubleListInsertNodeHeadInternal = (\<lambda>(l, h) pNode.
     do { h \<leftarrow> set_prev h pNode None;
          h \<leftarrow> set_next h pNode (dl_pHead l);
          if dl_pHead l \<noteq> None
          then do { h \<leftarrow> set_prev h (dl_pHead l) pNode;
                    Some (STATUS_SUCCESS, l\<lparr>dl_pHead := pNode, dl_count := dl_count l + 1\<rparr>, h) }
          else if dl_pTail l \<noteq> None then Some (STATUS_INTERNAL_ERROR, l, h)
          else Some (STATUS_SUCCESS, l\<lparr>dl_pTail := pNode, dl_pHead := pNode, dl_count := dl_count l + 1\<rparr>, h) })"

definition doubleListInsertNodeTailInternal :: "dstate \<Rightarrow> addr option \<Rightarrow> (STATUS \<times> dstate) option" where
  "doubleListInsertNodeTailInternal = (\<lambda>(l, h) pNode.
     do { h \<leftarrow> set_prev h pNode (dl_pTail l);
          h \<leftarrow> set_next h pNode None;
          if dl_pTail l \<noteq> None
          then do { h \<leftarrow> set_next h (dl_pTail l) pNode;
                    Some (STATUS_SUCCESS, l\<lparr>dl_pTail := pNode, dl_count := dl_count l + 1\<rparr>, h) }
          else if dl_pHead l \<noteq> None then Some (STATUS_INTERNAL_ERROR, l, h)
          else Some (STATUS_SUCCESS, l\<lparr>dl_pHead := pNode, dl_pTail := pNode, dl_count := dl_count l + 1\<rparr>, h) })"

definition doubleListInsertNodeBeforeInternal :: "dstate \<Rightarrow> addr option \<Rightarrow> addr option \<Rightarrow> (STATUS \<times> dstate) option" where
  "doubleListInsertNodeBeforeInternal = (\<lambda>(l, h) pNode pInsertNode.
     do { node \<leftarrow> node_at h pNode;
          h \<leftarrow> set_prev h pInsertNode (dn_pPrev node);
          h \<leftarrow> set_next h pInsertNode pNode;
          node \<leftarrow> node_at h pNode;
          if dn_pPrev node \<noteq> None
          then do { h \<leftarrow> set_next h (dn_pPrev node) pInsertNode;
                    h \<leftarrow> set_prev h pNode pInsertNode;
                    Some (STATUS_SUCCESS, l\<lparr>dl_count := dl_count l + 1\<rparr>, h) }
          else if dl_pHead l \<noteq> pNode then Some (STATUS_INTERNAL_ERROR, l, h)
          else do { h \<leftarrow> set_prev h pNode pInsertNode;
                    Some (STATUS_SUCCESS, l\<lparr>dl_pHead := pInsertNode, dl_count := dl_count l + 1\<rparr>, h) } })"

definition doubleListInsertNodeAfterInternal :: "dstate \<Rightarrow> addr option \<Rightarrow> addr option \<Rightarrow> (STATUS \<times> dstate) option" where
  "doubleListInsertNodeAfterInternal = (\<lambda>(l, h) pNode pInsertNode.
     do { h \<leftarrow> set_prev h pInsertNode pNode;
          node \<leftarrow> node_at h pNode;
          h \<leftarrow> set_next h pInsertNode (dn_pNext node);
          node \<leftarrow> node_at h pNode;
          if dn_pNext node \<noteq> None
          then do { h \<leftarrow> set_prev h (dn_pNext node) pInsertNode;
                    h \<leftarrow> set_next h pNode pInsertNode;
                    Some (STATUS_SUCCESS, l\<lparr>dl_count := dl_count l + 1\<rparr>, h) }
          else if dl_pTail l \<noteq> pNode then Some (STATUS_INTERNAL_ERROR, l, h)
          else do { h \<leftarrow> set_next h pNode pInsertNode;
                    Some (STATUS_SUCCESS, l\<lparr>dl_pTail := pInsertNode, dl_count := dl_count l + 1\<rparr>, h) } })"

text \<open>\<open>ok\<close> is false when one of the two consistency checks has failed.\<close>

definition doubleListRemoveNodeInternal :: "dstate \<Rightarrow> addr option \<Rightarrow> (STATUS \<times> dstate) option" where
  "doubleListRemoveNodeInternal = (\<lambda>(l, h) pNode.
     do { node \<leftarrow> node_at h pNode;
          (ok, l, h) \<leftarrow>
            (if dn_pPrev node \<noteq> None
             then do { h \<leftarrow> set_next h (dn_pPrev node) (dn_pNext node); Some (True, l, h) }
             else if dl_pHead l \<noteq> pNode then Some (False, l, h)
             else Some (True, l\<lparr>dl_pHead := dn_pNext node\<rparr>, h));
          if \<not> ok then Some (STATUS_INTERNAL_ERROR, l, h)
          else do {
            node \<leftarrow> node_at h pNode;
            (ok, l, h) \<leftarrow>
              (if dn_pNext node \<noteq> None
               then do { h \<leftarrow> set_prev h (dn_pNext node) (dn_pPrev node); Some (True, l, h) }
               else if dl_pTail l \<noteq> pNode then Some (False, l, h)
               else Some (True, l\<lparr>dl_pTail := dn_pPrev node\<rparr>, h));
            if \<not> ok then Some (STATUS_INTERNAL_ERROR, l, h)
            else do { h \<leftarrow> set_prev h pNode None;
                      h \<leftarrow> set_next h pNode None;
                      Some (STATUS_SUCCESS, l\<lparr>dl_count := dl_count l - 1\<rparr>, h) } } })"

text \<open>The walk from the head: \<open>index\<close> steps along \<open>pNext\<close>, with a null check before each.\<close>

fun walk :: "dheap \<Rightarrow> addr option \<Rightarrow> nat \<Rightarrow> (STATUS \<times> addr option) option" where
  "walk h p 0 = Some (STATUS_SUCCESS, p)"
| "walk h p (Suc n) =
     (if p = None then Some (STATUS_INTERNAL_ERROR, None)
      else do { node \<leftarrow> node_at h p; walk h (dn_pNext node) n })"

definition doubleListGetNodeAtInternal :: "dstate \<Rightarrow> u32 \<Rightarrow> (STATUS \<times> addr option) option" where
  "doubleListGetNodeAtInternal = (\<lambda>(l, h) index. walk h (dl_pHead l) (unat index))"

section \<open>Public operations\<close>

definition doubleListCreate :: "bool \<Rightarrow> bool \<Rightarrow> STATUS \<times> DoubleList option" where
  "doubleListCreate memory ppList =
     (if \<not> ppList then (STATUS_NULL_ARG, None)
      else if \<not> memory then (STATUS_NOT_ENOUGH_MEMORY, None)
      else (STATUS_SUCCESS, Some \<lparr>dl_count = 0, dl_pHead = None, dl_pTail = None\<rparr>))"

text \<open>
  The loop that releases the nodes: the heap after it and the data pointers it has released.
  It does not end on a list that runs in a circle of nodes it has not freed, so it is a partial
  function; a node that is freed and met again is a fault.
\<close>

partial_function (option) clear_nodes :: "bool \<Rightarrow> addr option \<Rightarrow> dheap \<Rightarrow> u64 list \<Rightarrow> (dheap \<times> u64 list) option" where
  "clear_nodes freeData pCurNode h freed =
     (if pCurNode = None then Some (h, freed)
      else do { node \<leftarrow> node_at h pCurNode;
                h' \<leftarrow> memfree h pCurNode;
                clear_nodes freeData (dn_pNext node) h'
                  (if freeData \<and> dn_data node \<noteq> 0 then freed @ [dn_data node] else freed) })"

definition doubleListClear :: "(DoubleList option \<times> dheap) \<Rightarrow> bool \<Rightarrow> (STATUS \<times> (DoubleList option \<times> dheap) \<times> u64 list) option" where
  "doubleListClear = (\<lambda>(pList, h) freeData. (case pList of
     None \<Rightarrow> Some (STATUS_NULL_ARG, (None, h), [])
   | Some l \<Rightarrow>
       do { (h', freed) \<leftarrow> clear_nodes freeData (dl_pHead l) h [];
            Some (STATUS_SUCCESS, (Some (l\<lparr>dl_count := 0, dl_pHead := None, dl_pTail := None\<rparr>), h'), freed) }))"

text \<open>The list itself is released: there is none afterwards.\<close>

definition doubleListFree :: "(DoubleList option \<times> dheap) \<Rightarrow> (STATUS \<times> dheap) option" where
  "doubleListFree = (\<lambda>(pList, h). (case pList of
     None \<Rightarrow> Some (STATUS_SUCCESS, h)
   | Some l \<Rightarrow> do { (_, (_, h'), _) \<leftarrow> doubleListClear (Some l, h) False; Some (STATUS_SUCCESS, h') }))"

definition doubleListInsertNodeHead :: "dstate \<Rightarrow> addr option \<Rightarrow> (STATUS \<times> dstate) option" where
  "doubleListInsertNodeHead s pNode =
     (if pNode = None then Some (STATUS_NULL_ARG, s) else doubleListInsertNodeHeadInternal s pNode)"

definition doubleListInsertItemHead :: "addr option \<Rightarrow> dstate \<Rightarrow> u64 \<Rightarrow> (STATUS \<times> dstate) option" where
  "doubleListInsertItemHead new = (\<lambda>(l, h) data.
     (case doubleListAllocNode new data h of (st, pNode, h') \<Rightarrow>
        if st \<noteq> STATUS_SUCCESS then Some (st, l, h') else doubleListInsertNodeHeadInternal (l, h') pNode))"

definition doubleListInsertNodeTail :: "dstate \<Rightarrow> addr option \<Rightarrow> (STATUS \<times> dstate) option" where
  "doubleListInsertNodeTail s pNode =
     (if pNode = None then Some (STATUS_NULL_ARG, s) else doubleListInsertNodeTailInternal s pNode)"

definition doubleListInsertItemTail :: "addr option \<Rightarrow> dstate \<Rightarrow> u64 \<Rightarrow> (STATUS \<times> dstate) option" where
  "doubleListInsertItemTail new = (\<lambda>(l, h) data.
     (case doubleListAllocNode new data h of (st, pNode, h') \<Rightarrow>
        if st \<noteq> STATUS_SUCCESS then Some (st, l, h') else doubleListInsertNodeTailInternal (l, h') pNode))"

definition doubleListInsertNodeBefore :: "dstate \<Rightarrow> addr option \<Rightarrow> addr option \<Rightarrow> (STATUS \<times> dstate) option" where
  "doubleListInsertNodeBefore s pNode pInsertNode =
     (if pNode = None \<or> pInsertNode = None then Some (STATUS_NULL_ARG, s)
      else doubleListInsertNodeBeforeInternal s pNode pInsertNode)"

definition doubleListInsertItemBefore :: "addr option \<Rightarrow> dstate \<Rightarrow> addr option \<Rightarrow> u64 \<Rightarrow> (STATUS \<times> dstate) option" where
  "doubleListInsertItemBefore new = (\<lambda>(l, h) pNode data.
     if pNode = None then Some (STATUS_NULL_ARG, l, h)
     else (case doubleListAllocNode new data h of (st, pInsertNode, h') \<Rightarrow>
        if st \<noteq> STATUS_SUCCESS then Some (st, l, h') else doubleListInsertNodeBeforeInternal (l, h') pNode pInsertNode))"

definition doubleListInsertNodeAfter :: "dstate \<Rightarrow> addr option \<Rightarrow> addr option \<Rightarrow> (STATUS \<times> dstate) option" where
  "doubleListInsertNodeAfter s pNode pInsertNode =
     (if pNode = None \<or> pInsertNode = None then Some (STATUS_NULL_ARG, s)
      else doubleListInsertNodeAfterInternal s pNode pInsertNode)"

definition doubleListInsertItemAfter :: "addr option \<Rightarrow> dstate \<Rightarrow> addr option \<Rightarrow> u64 \<Rightarrow> (STATUS \<times> dstate) option" where
  "doubleListInsertItemAfter new = (\<lambda>(l, h) pNode data.
     if pNode = None then Some (STATUS_NULL_ARG, l, h)
     else (case doubleListAllocNode new data h of (st, pInsertNode, h') \<Rightarrow>
        if st \<noteq> STATUS_SUCCESS then Some (st, l, h') else doubleListInsertNodeAfterInternal (l, h') pNode pInsertNode))"

text \<open>\<open>doubleListRemoveNodeInternal\<close> and, when it succeeds, the release of the node.\<close>

definition remove_and_free :: "dstate \<Rightarrow> addr option \<Rightarrow> (STATUS \<times> dstate) option" where
  "remove_and_free s pNode =
     do { (st, l', h') \<leftarrow> doubleListRemoveNodeInternal s pNode;
          if st \<noteq> STATUS_SUCCESS then Some (st, l', h')
          else do { h'' \<leftarrow> memfree h' pNode; Some (STATUS_SUCCESS, l', h'') } }"

definition doubleListDeleteHead :: "dstate \<Rightarrow> (STATUS \<times> dstate) option" where
  "doubleListDeleteHead s =
     (if dl_pHead (fst s) = None then Some (STATUS_SUCCESS, s) else remove_and_free s (dl_pHead (fst s)))"

definition doubleListDeleteTail :: "dstate \<Rightarrow> (STATUS \<times> dstate) option" where
  "doubleListDeleteTail s =
     (if dl_pTail (fst s) = None then Some (STATUS_SUCCESS, s) else remove_and_free s (dl_pTail (fst s)))"

definition doubleListRemoveNode :: "dstate \<Rightarrow> addr option \<Rightarrow> (STATUS \<times> dstate) option" where
  "doubleListRemoveNode s pNode =
     (if pNode = None then Some (STATUS_NULL_ARG, s) else doubleListRemoveNodeInternal s pNode)"

definition doubleListDeleteNode :: "dstate \<Rightarrow> addr option \<Rightarrow> (STATUS \<times> dstate) option" where
  "doubleListDeleteNode s pNode =
     (if pNode = None then Some (STATUS_NULL_ARG, s) else remove_and_free s pNode)"

definition doubleListGetHeadNode :: "dstate \<Rightarrow> STATUS \<times> addr option" where
  "doubleListGetHeadNode s = (STATUS_SUCCESS, dl_pHead (fst s))"

definition doubleListGetTailNode :: "dstate \<Rightarrow> STATUS \<times> addr option" where
  "doubleListGetTailNode s = (STATUS_SUCCESS, dl_pTail (fst s))"

definition doubleListGetNodeAt :: "dstate \<Rightarrow> u32 \<Rightarrow> (STATUS \<times> addr option) option" where
  "doubleListGetNodeAt s index =
     (if \<not> index < dl_count (fst s) then Some (STATUS_INVALID_ARG, None) else doubleListGetNodeAtInternal s index)"

definition doubleListGetNodeDataAt :: "dstate \<Rightarrow> u32 \<Rightarrow> (STATUS \<times> u64 option) option" where
  "doubleListGetNodeDataAt s index =
     (if \<not> index < dl_count (fst s) then Some (STATUS_INVALID_ARG, None)
      else do { (st, pNode) \<leftarrow> doubleListGetNodeAtInternal s index;
                if st \<noteq> STATUS_SUCCESS then Some (st, None)
                else do { node \<leftarrow> node_at (snd s) pNode; Some (STATUS_SUCCESS, Some (dn_data node)) } })"

definition doubleListGetNodeData :: "dheap \<Rightarrow> addr option \<Rightarrow> (STATUS \<times> u64 option) option" where
  "doubleListGetNodeData h pNode =
     (if pNode = None then Some (STATUS_NULL_ARG, None)
      else do { node \<leftarrow> node_at h pNode; Some (STATUS_SUCCESS, Some (dn_data node)) })"

definition doubleListGetNextNode :: "dheap \<Rightarrow> addr option \<Rightarrow> (STATUS \<times> addr option) option" where
  "doubleListGetNextNode h pNode =
     (if pNode = None then Some (STATUS_NULL_ARG, None)
      else do { node \<leftarrow> node_at h pNode; Some (STATUS_SUCCESS, dn_pNext node) })"

definition doubleListGetPrevNode :: "dheap \<Rightarrow> addr option \<Rightarrow> (STATUS \<times> addr option) option" where
  "doubleListGetPrevNode h pNode =
     (if pNode = None then Some (STATUS_NULL_ARG, None)
      else do { node \<leftarrow> node_at h pNode; Some (STATUS_SUCCESS, dn_pPrev node) })"

definition doubleListGetNodeCount :: "dstate \<Rightarrow> STATUS \<times> u32" where
  "doubleListGetNodeCount s = (STATUS_SUCCESS, dl_count (fst s))"

text \<open>The appended list is released, its nodes belong to the destination afterwards.\<close>

definition doubleListAppendList :: "DoubleList \<Rightarrow> DoubleList option \<Rightarrow> dheap \<Rightarrow> (STATUS \<times> dstate) option" where
  "doubleListAppendList pDstList pListToAppend h = (case pListToAppend of
     None \<Rightarrow> Some (STATUS_SUCCESS, pDstList, h)
   | Some l2 \<Rightarrow>
       do { (l, h) \<leftarrow>
              (if dl_count pDstList = 0 then Some (pDstList\<lparr>dl_pHead := dl_pHead l2, dl_pTail := dl_pTail l2\<rparr>, h)
               else if dl_count l2 \<noteq> 0
               then do { h \<leftarrow> set_next h (dl_pTail pDstList) (dl_pHead l2);
                         h \<leftarrow> set_prev h (dl_pHead l2) (dl_pTail pDstList);
                         Some (pDstList\<lparr>dl_pTail := dl_pTail l2\<rparr>, h) }
               else Some (pDstList, h));
            Some (STATUS_SUCCESS, l\<lparr>dl_count := dl_count l + dl_count l2\<rparr>, h) })"

section \<open>Segments of linked nodes\<close>

text \<open>
  The nodes of a segment with their data. \<open>prev\<close> and \<open>nxt\<close> are what its outer pointers hold.
\<close>

definition first_addr :: "(addr \<times> u64) list \<Rightarrow> addr option \<Rightarrow> addr option" where
  "first_addr xs nxt = (case xs of [] \<Rightarrow> nxt | x # _ \<Rightarrow> Some (fst x))"

definition last_addr :: "(addr \<times> u64) list \<Rightarrow> addr option \<Rightarrow> addr option" where
  "last_addr xs prev = (if xs = [] then prev else Some (fst (last xs)))"

fun dseg :: "dheap \<Rightarrow> addr option \<Rightarrow> (addr \<times> u64) list \<Rightarrow> addr option \<Rightarrow> bool" where
  "dseg h prev [] nxt = True"
| "dseg h prev (x # xs) nxt =
     (h (fst x) = Some \<lparr>dn_pNext = first_addr xs nxt, dn_pPrev = prev, dn_data = snd x\<rparr> \<and> dseg h (Some (fst x)) xs nxt)"

lemma addr_simps [simp]:
  "first_addr [] q = q" "first_addr (x # xs) q = Some (fst x)" "first_addr (xs @ ys) q = first_addr xs (first_addr ys q)"
  "last_addr [] p = p" "last_addr (xs @ [x]) p = Some (fst x)" "last_addr [x] p = Some (fst x)"
  by (auto simp: first_addr_def last_addr_def split: list.split)

lemma last_addr_Cons [simp]: "last_addr (x # xs) p = last_addr xs (Some (fst x))"
  by (simp add: last_addr_def)

lemma last_addr_append [simp]: "last_addr (xs @ ys) p = last_addr ys (last_addr xs p)"
  by (simp add: last_addr_def)

lemma dseg_append [simp]: "dseg h p (xs @ ys) q = (dseg h p xs (first_addr ys q) \<and> dseg h (last_addr xs p) ys q)"
  by (induction xs arbitrary: p) auto

lemma dseg_upd [simp]: "a \<notin> fst ` set xs \<Longrightarrow> dseg (h(a := v)) p xs q = dseg h p xs q"
  by (induction xs arbitrary: p) auto

lemma dseg_alloc: "dseg h p xs q \<Longrightarrow> fst ` set xs \<subseteq> dom h"
  by (induction xs arbitrary: p) auto

text \<open>The list \<open>l\<close> in heap \<open>h\<close> consists of the nodes \<open>xs\<close>.\<close>

definition dlist :: "dstate \<Rightarrow> (addr \<times> u64) list \<Rightarrow> bool" where
  "dlist s xs = (distinct (map fst xs) \<and> dseg (snd s) None xs None \<and> dl_pHead (fst s) = first_addr xs None \<and>
     dl_pTail (fst s) = last_addr xs None \<and> dl_count (fst s) = word_of_nat (length xs))"

lemma dlist_alloc: "dlist s xs \<Longrightarrow> fst ` set xs \<subseteq> dom (snd s)"
  using dseg_alloc [of "snd s" None xs None] by (simp add: dlist_def)

section \<open>Effect of the operations\<close>

lemmas heap_ops = node_at_def set_next_def set_prev_def memfree_def

definition same_outside :: "addr set \<Rightarrow> dheap \<Rightarrow> dheap \<Rightarrow> bool" where
  "same_outside A h h' = (\<forall>p. p \<notin> A \<longrightarrow> h' p = h p)"

text \<open>A node \<open>b\<close> outside the list, as the caller or the allocator provides it.\<close>

lemma insert_head_spec:
  assumes "dlist (l, h) xs" and "h b = Some n" and "b \<notin> fst ` set xs"
  shows "\<exists>l' h'. doubleListInsertNodeHeadInternal (l, h) (Some b) = Some (STATUS_SUCCESS, l', h') \<and>
    dlist (l', h') ((b, dn_data n) # xs) \<and> dom h' = dom h \<and> same_outside (fst ` set xs \<union> {b}) h h'"
  using assms
  by (cases xs) (auto simp: doubleListInsertNodeHeadInternal_def heap_ops dlist_def image_Un same_outside_def)

lemma insert_tail_spec:
  assumes "dlist (l, h) xs" and "h b = Some n" and "b \<notin> fst ` set xs"
  shows "\<exists>l' h'. doubleListInsertNodeTailInternal (l, h) (Some b) = Some (STATUS_SUCCESS, l', h') \<and>
    dlist (l', h') (xs @ [(b, dn_data n)]) \<and> dom h' = dom h \<and> same_outside (fst ` set xs \<union> {b}) h h'"
  using assms
  by (cases xs rule: rev_cases) (auto simp: doubleListInsertNodeTailInternal_def heap_ops dlist_def image_Un same_outside_def)

lemma insert_before_spec:
  assumes "dlist (l, h) (us @ (a, d) # vs)" and "h b = Some n" and "b \<notin> fst ` set (us @ (a, d) # vs)"
  shows "\<exists>l' h'. doubleListInsertNodeBeforeInternal (l, h) (Some a) (Some b) = Some (STATUS_SUCCESS, l', h') \<and>
    dlist (l', h') (us @ (b, dn_data n) # (a, d) # vs) \<and> dom h' = dom h \<and> same_outside (fst ` set (us @ (a, d) # vs) \<union> {b}) h h'"
  using assms
  by (cases us rule: rev_cases) (auto simp: doubleListInsertNodeBeforeInternal_def heap_ops dlist_def image_Un same_outside_def)

lemma insert_after_spec:
  assumes "dlist (l, h) (us @ (a, d) # vs)" and "h b = Some n" and "b \<notin> fst ` set (us @ (a, d) # vs)"
  shows "\<exists>l' h'. doubleListInsertNodeAfterInternal (l, h) (Some a) (Some b) = Some (STATUS_SUCCESS, l', h') \<and>
    dlist (l', h') (us @ (a, d) # (b, dn_data n) # vs) \<and> dom h' = dom h \<and> same_outside (fst ` set (us @ (a, d) # vs) \<union> {b}) h h'"
  using assms
  by (cases vs) (auto simp: doubleListInsertNodeAfterInternal_def heap_ops dlist_def image_Un same_outside_def)

lemma remove_spec:
  assumes "dlist (l, h) (us @ (a, d) # vs)"
  shows "\<exists>l' h'. doubleListRemoveNodeInternal (l, h) (Some a) = Some (STATUS_SUCCESS, l', h') \<and>
    dlist (l', h') (us @ vs) \<and> dom h' = dom h \<and> same_outside (fst ` set (us @ (a, d) # vs)) h h' \<and> h' a = Some \<lparr>dn_pNext = None, dn_pPrev = None, dn_data = d\<rparr>"
  using assms
  by (cases us rule: rev_cases; cases vs) (auto simp: doubleListRemoveNodeInternal_def heap_ops dlist_def image_Un same_outside_def)

lemma walk_spec:
  "dseg h p xs q \<Longrightarrow> i \<le> length xs \<Longrightarrow> walk h (first_addr xs q) i = Some (STATUS_SUCCESS, first_addr (drop i xs) q)"
proof (induction i arbitrary: p xs)
  case (Suc i)
  then show ?case by (cases xs) (auto simp: node_at_def)
qed simp

lemma index_in_count:
  assumes "dlist (l, h) xs" and "length xs < 2 ^ 32"
  shows "(i < dl_count l) = (unat i < length xs)"
  using assms by (simp add: dlist_def word_less_nat_alt unat_small32)

lemma walk_index:
  assumes "dlist (l, h) xs" and "unat i < length xs"
  shows "doubleListGetNodeAtInternal (l, h) i = Some (STATUS_SUCCESS, Some (fst (xs ! unat i)))"
  using walk_spec [of h None xs None "unat i"] assms
  by (simp add: doubleListGetNodeAtInternal_def dlist_def Cons_nth_drop_Suc [symmetric])

lemma node_at_index:
  assumes "dlist (l, h) xs" and "length xs < 2 ^ 32"
  shows "doubleListGetNodeAt (l, h) i =
    Some (if unat i < length xs then (STATUS_SUCCESS, Some (fst (xs ! unat i))) else (STATUS_INVALID_ARG, None))"
  using walk_index [OF assms(1)] by (simp add: doubleListGetNodeAt_def index_in_count [OF assms])

lemma data_at_index:
  assumes "dlist (l, h) xs" and "length xs < 2 ^ 32"
  shows "doubleListGetNodeDataAt (l, h) i =
    Some (if unat i < length xs then (STATUS_SUCCESS, Some (snd (xs ! unat i))) else (STATUS_INVALID_ARG, None))"
proof -
  have "\<exists>n. h (fst (xs ! unat i)) = Some n \<and> dn_data n = snd (xs ! unat i)" if "unat i < length xs"
  proof -
    have "xs = take (unat i) xs @ xs ! unat i # drop (Suc (unat i)) xs" by (rule id_take_nth_drop [OF that])
    then have "dseg h None (take (unat i) xs @ xs ! unat i # drop (Suc (unat i)) xs) None" using assms(1) by (simp add: dlist_def)
    then show ?thesis by auto
  qed
  then show ?thesis
    using walk_index [OF assms(1), of i] by (auto simp: doubleListGetNodeDataAt_def node_at_def index_in_count [OF assms])
qed

lemma clear_nodes_spec:
  assumes "dseg h p xs None" and "distinct (map fst xs)"
  shows "clear_nodes freeData (first_addr xs None) h freed =
    Some (h |` (- (fst ` set xs)), freed @ (if freeData then filter (\<lambda>d. d \<noteq> 0) (map snd xs) else []))"
  using assms
proof (induction xs arbitrary: h p freed)
  case (Cons x xs)
  let ?h = "h(fst x := None)"
  have n: "h (fst x) = Some \<lparr>dn_pNext = first_addr xs None, dn_pPrev = p, dn_data = snd x\<rparr>" "dseg ?h (Some (fst x)) xs None"
    using Cons.prems by auto
  have "clear_nodes freeData (first_addr (x # xs) None) h freed =
      clear_nodes freeData (first_addr xs None) ?h (if freeData \<and> snd x \<noteq> 0 then freed @ [snd x] else freed)"
    using n(1) by (subst clear_nodes.simps) (simp add: node_at_def memfree_def)
  also have "\<dots> = Some (?h |` (- (fst ` set xs)),
      (if freeData \<and> snd x \<noteq> 0 then freed @ [snd x] else freed) @ (if freeData then filter (\<lambda>d. d \<noteq> 0) (map snd xs) else []))"
    using Cons.prems(2) by (intro Cons.IH [OF n(2)]) simp
  also have "?h |` (- (fst ` set xs)) = h |` (- (fst ` set (x # xs)))"
    by (auto simp: restrict_map_def fun_eq_iff)
  finally show ?case by simp
qed (simp add: clear_nodes.simps restrict_map_def)

lemma clear_spec:
  assumes "dlist (l, h) xs"
  shows "\<exists>l'. doubleListClear (Some l, h) freeData =
      Some (STATUS_SUCCESS, (Some l', h |` (- (fst ` set xs))), if freeData then filter (\<lambda>d. d \<noteq> 0) (map snd xs) else []) \<and>
    dlist (l', h |` (- (fst ` set xs))) []"
  using clear_nodes_spec [of h None xs freeData "[]"] assms by (simp add: doubleListClear_def dlist_def)

lemma delete_spec:
  assumes "dlist (l, h) (us @ (a, d) # vs)"
  shows "\<exists>l' h'. remove_and_free (l, h) (Some a) = Some (STATUS_SUCCESS, l', h') \<and>
    dlist (l', h') (us @ vs) \<and> dom h' = dom h - {a} \<and> same_outside (fst ` set (us @ (a, d) # vs)) h h'"
proof -
  obtain l' h' where r: "doubleListRemoveNodeInternal (l, h) (Some a) = Some (STATUS_SUCCESS, l', h')"
    "dlist (l', h') (us @ vs)" "dom h' = dom h" "same_outside (fst ` set (us @ (a, d) # vs)) h h'"
    "h' a = Some \<lparr>dn_pNext = None, dn_pPrev = None, dn_data = d\<rparr>"
    using remove_spec [OF assms] by blast
  have "a \<notin> fst ` set (us @ vs)" using assms by (auto simp: dlist_def)
  then show ?thesis
    using r by (auto simp: remove_and_free_def memfree_def dlist_def image_Un same_outside_def)
qed

lemma append_spec:
  assumes "dlist (l, h) xs" and "dlist (l2, h) ys" and "fst ` set xs \<inter> fst ` set ys = {}"
    and "length xs < 2 ^ 32" and "length ys < 2 ^ 32"
  shows "\<exists>l' h'. doubleListAppendList l (Some l2) h = Some (STATUS_SUCCESS, l', h') \<and> dlist (l', h') (xs @ ys) \<and>
    dom h' = dom h \<and> same_outside (fst ` set (xs @ ys)) h h'"
proof -
  have c: "(dl_count l = 0) = (xs = [])" "(dl_count l2 = 0) = (ys = [])"
    using assms unat_small32 [of "length xs"] unat_small32 [of "length ys"] by (auto simp: dlist_def unat_eq_0 [symmetric])
  show ?thesis
    using assms(1-3) c
    by (cases xs rule: rev_cases; cases ys) (auto simp: doubleListAppendList_def heap_ops dlist_def image_Un same_outside_def)
qed

section \<open>The list as a sequence\<close>

text \<open>Calls of the public operations; a node is named by its position and found with \<open>doubleListGetNodeAt\<close>.\<close>

datatype list_op =
    LInsertHead u64
  | LInsertTail u64
  | LInsertBefore u32 u64
  | LInsertAfter u32 u64
  | LDeleteHead
  | LDeleteTail
  | LDeleteAt u32
  | LDataAt u32
  | LCount
  | LClear

definition with_node :: "dstate \<Rightarrow> u32 \<Rightarrow> (addr option \<Rightarrow> (STATUS \<times> dstate) option) \<Rightarrow> (STATUS \<times> dstate) option" where
  "with_node s i f = do { (st, p) \<leftarrow> doubleListGetNodeAt s i; if st \<noteq> STATUS_SUCCESS then Some (st, s) else f p }"

fun run_list_op :: "addr option \<Rightarrow> list_op \<Rightarrow> dstate \<Rightarrow> (STATUS \<times> u64 option \<times> dstate) option" where
  "run_list_op new (LInsertHead d) s = map_option (\<lambda>(st, s'). (st, None, s')) (doubleListInsertItemHead new s d)"
| "run_list_op new (LInsertTail d) s = map_option (\<lambda>(st, s'). (st, None, s')) (doubleListInsertItemTail new s d)"
| "run_list_op new (LInsertBefore i d) s =
     map_option (\<lambda>(st, s'). (st, None, s')) (with_node s i (\<lambda>p. doubleListInsertItemBefore new s p d))"
| "run_list_op new (LInsertAfter i d) s =
     map_option (\<lambda>(st, s'). (st, None, s')) (with_node s i (\<lambda>p. doubleListInsertItemAfter new s p d))"
| "run_list_op new LDeleteHead s = map_option (\<lambda>(st, s'). (st, None, s')) (doubleListDeleteHead s)"
| "run_list_op new LDeleteTail s = map_option (\<lambda>(st, s'). (st, None, s')) (doubleListDeleteTail s)"
| "run_list_op new (LDeleteAt i) s = map_option (\<lambda>(st, s'). (st, None, s')) (with_node s i (\<lambda>p. doubleListDeleteNode s p))"
| "run_list_op new (LDataAt i) s = map_option (\<lambda>(st, d). (st, d, s)) (doubleListGetNodeDataAt s i)"
| "run_list_op new LCount s = (case doubleListGetNodeCount s of (st, n) \<Rightarrow> Some (st, Some (ucast n), s))"
| "run_list_op new LClear s = do { (st, (p, h'), freed) \<leftarrow> doubleListClear (Some (fst s), snd s) False; l' \<leftarrow> p; Some (st, None, (l', h')) }"

text \<open>The same on a plain list.\<close>

definition insert_at :: "nat \<Rightarrow> 'a \<Rightarrow> 'a list \<Rightarrow> 'a list" where
  "insert_at i x xs = take i xs @ x # drop i xs"

definition delete_at :: "nat \<Rightarrow> 'a list \<Rightarrow> 'a list" where
  "delete_at i xs = take i xs @ drop (Suc i) xs"

fun spec_list_op :: "list_op \<Rightarrow> u64 list \<Rightarrow> STATUS \<times> u64 option \<times> u64 list" where
  "spec_list_op (LInsertHead d) ds = (STATUS_SUCCESS, None, d # ds)"
| "spec_list_op (LInsertTail d) ds = (STATUS_SUCCESS, None, ds @ [d])"
| "spec_list_op (LInsertBefore i d) ds =
     (if unat i < length ds then (STATUS_SUCCESS, None, insert_at (unat i) d ds) else (STATUS_INVALID_ARG, None, ds))"
| "spec_list_op (LInsertAfter i d) ds =
     (if unat i < length ds then (STATUS_SUCCESS, None, insert_at (Suc (unat i)) d ds) else (STATUS_INVALID_ARG, None, ds))"
| "spec_list_op LDeleteHead ds = (STATUS_SUCCESS, None, tl ds)"
| "spec_list_op LDeleteTail ds = (STATUS_SUCCESS, None, butlast ds)"
| "spec_list_op (LDeleteAt i) ds =
     (if unat i < length ds then (STATUS_SUCCESS, None, delete_at (unat i) ds) else (STATUS_INVALID_ARG, None, ds))"
| "spec_list_op (LDataAt i) ds =
     (if unat i < length ds then (STATUS_SUCCESS, Some (ds ! unat i), ds) else (STATUS_INVALID_ARG, None, ds))"
| "spec_list_op LCount ds = (STATUS_SUCCESS, Some (ucast (word_of_nat (length ds) :: u32)), ds)"
| "spec_list_op LClear ds = (STATUS_SUCCESS, None, [])"

text \<open>
  The outcome of a call: the list has the nodes \<open>xs'\<close>, exactly the memory of the nodes that came
  and went has changed hands, and no other memory was written.
\<close>

definition outcome :: "dheap \<Rightarrow> (addr \<times> u64) list \<Rightarrow> dstate \<Rightarrow> (addr \<times> u64) list \<Rightarrow> bool" where
  "outcome h xs s' xs' = (dlist s' xs' \<and> dom (snd s') = dom h - fst ` set xs \<union> fst ` set xs' \<and>
     same_outside (fst ` set xs \<union> fst ` set xs') h (snd s'))"

lemma outcome_same: "dlist (l, h) xs \<Longrightarrow> outcome h xs (l, h) xs"
  using dlist_alloc [of "(l, h)" xs] by (auto simp: outcome_def same_outside_def)

lemma outcome_insert:
  assumes "dlist (l, h) xs" and "h a = None" and "dlist s' xs'" and "dom (snd s') = insert a (dom h)"
    and "same_outside (fst ` set xs \<union> {a}) (h(a \<mapsto> n)) (snd s')" and "fst ` set xs' = insert a (fst ` set xs)"
  shows "outcome h xs s' xs'"
  using assms dlist_alloc [OF assms(1)] by (auto simp: outcome_def same_outside_def)

lemma outcome_delete:
  assumes "dlist (l, h) (us @ (a, d) # vs)" and "dlist (l', h') (us @ vs)" and "dom h' = dom h - {a}"
    and "same_outside (fst ` set (us @ (a, d) # vs)) h h'"
  shows "outcome h (us @ (a, d) # vs) (l', h') (us @ vs)"
proof -
  have "a \<notin> fst ` set (us @ vs)" "fst ` set (us @ (a, d) # vs) \<subseteq> dom h"
    using assms(1) dlist_alloc [OF assms(1)] by (auto simp: dlist_def)
  then show ?thesis using assms(2-4) by (auto simp: outcome_def same_outside_def)
qed

lemma alloc_dlist:
  assumes "dlist (l, h) xs" and "h a = None"
  shows "dlist (l, h(a \<mapsto> n)) xs" and "a \<notin> fst ` set xs"
proof -
  show a: "a \<notin> fst ` set xs" using dlist_alloc [OF assms(1)] assms(2) by auto
  then show "dlist (l, h(a \<mapsto> n)) xs" using assms(1) by (simp add: dlist_def)
qed

lemma item_head:
  assumes "dlist (l, h) xs" and "h a = None"
  shows "\<exists>s'. doubleListInsertItemHead (Some a) (l, h) d = Some (STATUS_SUCCESS, s') \<and> outcome h xs s' ((a, d) # xs)"
proof -
  let ?n = "\<lparr>dn_pNext = None, dn_pPrev = None, dn_data = d\<rparr>"
  obtain l' h' where "doubleListInsertNodeHeadInternal (l, h(a \<mapsto> ?n)) (Some a) = Some (STATUS_SUCCESS, l', h')"
    "dlist (l', h') ((a, d) # xs)" "dom h' = dom (h(a \<mapsto> ?n))" "same_outside (fst ` set xs \<union> {a}) (h(a \<mapsto> ?n)) h'"
    using insert_head_spec [OF alloc_dlist(1) [OF assms] _ alloc_dlist(2) [OF assms], of ?n ?n] by auto
  then show ?thesis
    using outcome_insert [OF assms, of "(l', h')" "(a, d) # xs" ?n] by (simp add: doubleListInsertItemHead_def doubleListAllocNode_def)
qed

lemma item_tail:
  assumes "dlist (l, h) xs" and "h a = None"
  shows "\<exists>s'. doubleListInsertItemTail (Some a) (l, h) d = Some (STATUS_SUCCESS, s') \<and> outcome h xs s' (xs @ [(a, d)])"
proof -
  let ?n = "\<lparr>dn_pNext = None, dn_pPrev = None, dn_data = d\<rparr>"
  obtain l' h' where "doubleListInsertNodeTailInternal (l, h(a \<mapsto> ?n)) (Some a) = Some (STATUS_SUCCESS, l', h')"
    "dlist (l', h') (xs @ [(a, d)])" "dom h' = dom (h(a \<mapsto> ?n))" "same_outside (fst ` set xs \<union> {a}) (h(a \<mapsto> ?n)) h'"
    using insert_tail_spec [OF alloc_dlist(1) [OF assms] _ alloc_dlist(2) [OF assms], of ?n ?n] by auto
  then show ?thesis
    using outcome_insert [OF assms, of "(l', h')" "xs @ [(a, d)]" ?n] by (simp add: doubleListInsertItemTail_def doubleListAllocNode_def)
qed

lemma item_before:
  assumes "dlist (l, h) (us @ (b, e) # vs)" and "h a = None"
  shows "\<exists>s'. doubleListInsertItemBefore (Some a) (l, h) (Some b) d = Some (STATUS_SUCCESS, s') \<and>
    outcome h (us @ (b, e) # vs) s' (us @ (a, d) # (b, e) # vs)"
proof -
  let ?n = "\<lparr>dn_pNext = None, dn_pPrev = None, dn_data = d\<rparr>" and ?xs = "us @ (b, e) # vs"
  obtain l' h' where "doubleListInsertNodeBeforeInternal (l, h(a \<mapsto> ?n)) (Some b) (Some a) = Some (STATUS_SUCCESS, l', h')"
    "dlist (l', h') (us @ (a, d) # (b, e) # vs)" "dom h' = dom (h(a \<mapsto> ?n))" "same_outside (fst ` set ?xs \<union> {a}) (h(a \<mapsto> ?n)) h'"
    using insert_before_spec [OF alloc_dlist(1) [OF assms] _ alloc_dlist(2) [OF assms], of ?n ?n] by auto
  then show ?thesis
    using outcome_insert [OF assms, of "(l', h')" "us @ (a, d) # (b, e) # vs" ?n]
    by (auto simp: doubleListInsertItemBefore_def doubleListAllocNode_def)
qed

lemma item_after:
  assumes "dlist (l, h) (us @ (b, e) # vs)" and "h a = None"
  shows "\<exists>s'. doubleListInsertItemAfter (Some a) (l, h) (Some b) d = Some (STATUS_SUCCESS, s') \<and>
    outcome h (us @ (b, e) # vs) s' (us @ (b, e) # (a, d) # vs)"
proof -
  let ?n = "\<lparr>dn_pNext = None, dn_pPrev = None, dn_data = d\<rparr>" and ?xs = "us @ (b, e) # vs"
  obtain l' h' where "doubleListInsertNodeAfterInternal (l, h(a \<mapsto> ?n)) (Some b) (Some a) = Some (STATUS_SUCCESS, l', h')"
    "dlist (l', h') (us @ (b, e) # (a, d) # vs)" "dom h' = dom (h(a \<mapsto> ?n))" "same_outside (fst ` set ?xs \<union> {a}) (h(a \<mapsto> ?n)) h'"
    using insert_after_spec [OF alloc_dlist(1) [OF assms] _ alloc_dlist(2) [OF assms], of ?n ?n] by auto
  then show ?thesis
    using outcome_insert [OF assms, of "(l', h')" "us @ (b, e) # (a, d) # vs" ?n]
    by (auto simp: doubleListInsertItemAfter_def doubleListAllocNode_def)
qed

lemma item_deleted:
  assumes "dlist (l, h) (us @ (a, d) # vs)"
  shows "\<exists>s'. remove_and_free (l, h) (Some a) = Some (STATUS_SUCCESS, s') \<and> outcome h (us @ (a, d) # vs) s' (us @ vs)"
  using delete_spec [OF assms] outcome_delete [OF assms] by blast

lemma split_at_index:
  assumes "i < length xs"
  shows "\<exists>us b e vs. xs = us @ (b, e) # vs \<and> length us = i \<and> fst (xs ! i) = b"
  using id_take_nth_drop [OF assms] assms
  by (intro exI [of _ "take i xs"] exI [of _ "fst (xs ! i)"] exI [of _ "snd (xs ! i)"] exI [of _ "drop (Suc i) xs"]) simp

lemma no_memory:
  "doubleListInsertItemHead None (l, h) d = Some (STATUS_NOT_ENOUGH_MEMORY, l, h)"
  "doubleListInsertItemTail None (l, h) d = Some (STATUS_NOT_ENOUGH_MEMORY, l, h)"
  "doubleListInsertItemBefore None (l, h) (Some p) d = Some (STATUS_NOT_ENOUGH_MEMORY, l, h)"
  "doubleListInsertItemAfter None (l, h) (Some p) d = Some (STATUS_NOT_ENOUGH_MEMORY, l, h)"
  by (simp_all add: doubleListInsertItemHead_def doubleListInsertItemTail_def doubleListInsertItemBefore_def
      doubleListInsertItemAfter_def doubleListAllocNode_def)

text \<open>A call does what the call on a plain list does, or there was no memory for it.\<close>

definition simulates :: "addr option \<Rightarrow> list_op \<Rightarrow> DoubleList \<Rightarrow> dheap \<Rightarrow> (addr \<times> u64) list \<Rightarrow> bool" where
  "simulates new op l h xs = (\<exists>st out s' xs'. run_list_op new op (l, h) = Some (st, out, s') \<and> outcome h xs s' xs' \<and>
    (spec_list_op op (map snd xs) = (st, out, map snd xs') \<or> new = None \<and> st = STATUS_NOT_ENOUGH_MEMORY \<and> xs' = xs))"

lemma simulatesI:
  "run_list_op new op (l, h) = Some (st, out, s') \<Longrightarrow> outcome h xs s' xs' \<Longrightarrow>
   spec_list_op op (map snd xs) = (st, out, map snd xs') \<Longrightarrow> simulates new op l h xs"
  unfolding simulates_def by blast

lemma simulates_no_memory:
  "run_list_op None op (l, h) = Some (STATUS_NOT_ENOUGH_MEMORY, out, (l, h)) \<Longrightarrow> dlist (l, h) xs \<Longrightarrow> simulates None op l h xs"
  unfolding simulates_def using outcome_same by blast

lemma simulates_out_of_range:
  assumes "dlist (l, h) xs" and "length xs < 2 ^ 32" and "\<not> unat i < length xs"
    and "op \<in> {LInsertBefore i d, LInsertAfter i d, LDeleteAt i}"
  shows "simulates new op l h xs"
  using assms(3,4) outcome_same [OF assms(1)]
  by (intro simulatesI [of new op l h STATUS_INVALID_ARG None "(l, h)" xs xs])
    (auto simp: with_node_def node_at_index [OF assms(1,2)])

lemma simulates_ends:
  assumes "dlist (l, h) xs" and "\<And>a. new = Some a \<Longrightarrow> h a = None"
  shows "simulates new (LInsertHead d) l h xs" and "simulates new (LInsertTail d) l h xs"
proof -
  show "simulates new (LInsertHead d) l h xs"
  proof (cases new)
    case (Some a)
    then obtain s' where "doubleListInsertItemHead (Some a) (l, h) d = Some (STATUS_SUCCESS, s')" "outcome h xs s' ((a, d) # xs)"
      using item_head [OF assms(1), of a d] assms(2) by auto
    with Some show ?thesis by (intro simulatesI) auto
  qed (simp add: simulates_no_memory no_memory assms(1))
  show "simulates new (LInsertTail d) l h xs"
  proof (cases new)
    case (Some a)
    then obtain s' where "doubleListInsertItemTail (Some a) (l, h) d = Some (STATUS_SUCCESS, s')" "outcome h xs s' (xs @ [(a, d)])"
      using item_tail [OF assms(1), of a d] assms(2) by auto
    with Some show ?thesis by (intro simulatesI) auto
  qed (simp add: simulates_no_memory no_memory assms(1))
qed

lemma simulates_inside:
  assumes "dlist (l, h) xs" and "length xs < 2 ^ 32" and "\<And>a. new = Some a \<Longrightarrow> h a = None" and "unat i < length xs"
  shows "simulates new (LInsertBefore i d) l h xs" and "simulates new (LInsertAfter i d) l h xs" and "simulates new (LDeleteAt i) l h xs"
proof -
  obtain us b e vs where x: "xs = us @ (b, e) # vs" "length us = unat i" "fst (xs ! unat i) = b"
    using split_at_index [OF assms(4)] by blast
  have at: "with_node (l, h) i f = f (Some b)" for f
    using assms(4) x(3) by (simp add: with_node_def node_at_index [OF assms(1,2)])
  show "simulates new (LInsertBefore i d) l h xs"
  proof (cases new)
    case (Some a)
    then obtain s' where "doubleListInsertItemBefore (Some a) (l, h) (Some b) d = Some (STATUS_SUCCESS, s')"
      "outcome h xs s' (us @ (a, d) # (b, e) # vs)"
      using item_before [OF assms(1) [unfolded x(1)], of a d] assms(3) unfolding x(1) by auto
    with Some show ?thesis by (intro simulatesI) (auto simp: at x(1) x(2) [symmetric] insert_at_def)
  qed (simp add: simulates_no_memory no_memory assms(1) at)
  show "simulates new (LInsertAfter i d) l h xs"
  proof (cases new)
    case (Some a)
    then obtain s' where "doubleListInsertItemAfter (Some a) (l, h) (Some b) d = Some (STATUS_SUCCESS, s')"
      "outcome h xs s' (us @ (b, e) # (a, d) # vs)"
      using item_after [OF assms(1) [unfolded x(1)], of a d] assms(3) unfolding x(1) by auto
    with Some show ?thesis by (intro simulatesI) (auto simp: at x(1) x(2) [symmetric] insert_at_def)
  qed (simp add: simulates_no_memory no_memory assms(1) at)
  obtain s' where "remove_and_free (l, h) (Some b) = Some (STATUS_SUCCESS, s')" "outcome h xs s' (us @ vs)"
    using item_deleted [OF assms(1) [unfolded x(1)]] unfolding x(1) by auto
  then show "simulates new (LDeleteAt i) l h xs"
    by (intro simulatesI) (auto simp: at doubleListDeleteNode_def x(1) x(2) [symmetric] delete_at_def)
qed

lemma simulates_delete_ends:
  assumes "dlist (l, h) xs"
  shows "simulates new LDeleteHead l h xs" and "simulates new LDeleteTail l h xs"
proof -
  show "simulates new LDeleteHead l h xs"
  proof (cases xs)
    case Nil
    then show ?thesis
      using assms outcome_same [OF assms] by (intro simulatesI) (auto simp: doubleListDeleteHead_def dlist_def)
  next
    case (Cons x ys)
    then obtain s' where "remove_and_free (l, h) (Some (fst x)) = Some (STATUS_SUCCESS, s')" "outcome h xs s' ys"
      using item_deleted [of l h "[]" "fst x" "snd x" ys] assms by auto
    then show ?thesis using Cons assms by (intro simulatesI) (auto simp: doubleListDeleteHead_def dlist_def)
  qed
  show "simulates new LDeleteTail l h xs"
  proof (cases xs rule: rev_cases)
    case Nil
    then show ?thesis
      using assms outcome_same [OF assms] by (intro simulatesI) (auto simp: doubleListDeleteTail_def dlist_def)
  next
    case (snoc ys x)
    then obtain s' where "remove_and_free (l, h) (Some (fst x)) = Some (STATUS_SUCCESS, s')" "outcome h xs s' ys"
      using item_deleted [of l h ys "fst x" "snd x" "[]"] assms by auto
    then show ?thesis using snoc assms by (intro simulatesI) (auto simp: doubleListDeleteTail_def dlist_def)
  qed
qed

lemma simulates_clear:
  assumes "dlist (l, h) xs"
  shows "simulates new LClear l h xs"
proof -
  obtain l' where "doubleListClear (Some l, h) False = Some (STATUS_SUCCESS, (Some l', h |` (- (fst ` set xs))), [])"
    "dlist (l', h |` (- (fst ` set xs))) []" using clear_spec [OF assms, of False] by auto
  moreover then have "outcome h xs (l', h |` (- (fst ` set xs))) []" by (simp add: outcome_def same_outside_def Diff_eq)
  ultimately show ?thesis by (intro simulatesI) auto
qed

lemma list_op_simulates:
  assumes "dlist (l, h) xs" and "length xs < 2 ^ 32" and "\<And>a. new = Some a \<Longrightarrow> h a = None"
  shows "simulates new op l h xs"
proof (cases op)
  case (LDataAt i)
  then show ?thesis
    using outcome_same [OF assms(1)] by (cases "unat i < length xs") (auto simp: simulates_def data_at_index [OF assms(1,2)])
next
  case LCount
  then show ?thesis
    using outcome_same [OF assms(1)] assms(1) by (auto simp: simulates_def doubleListGetNodeCount_def dlist_def)
next
  case (LInsertBefore i d)
  then show ?thesis using simulates_inside(1) [OF assms] simulates_out_of_range [OF assms(1,2), of i] by (cases "unat i < length xs") auto
next
  case (LInsertAfter i d)
  then show ?thesis using simulates_inside(2) [OF assms] simulates_out_of_range [OF assms(1,2), of i] by (cases "unat i < length xs") auto
next
  case (LDeleteAt i)
  then show ?thesis using simulates_inside(3) [OF assms] simulates_out_of_range [OF assms(1,2), of i] by (cases "unat i < length xs") auto
qed (simp_all add: simulates_ends simulates_delete_ends simulates_clear assms)

section \<open>Properties\<close>

text \<open>
  C22. The double linked list implements a sequence: on a list whose nodes hold the data \<open>map snd xs\<close>,
  every call that inserts, deletes, reads or counts returns what the same call on a plain list
  returns and leaves a well-linked list with the data of the plain one. A call that gets no memory
  changes nothing. Nodes are neither leaked nor freed twice, and no other memory is written.
\<close>

theorem double_list_refines_sequence:
  assumes "dlist (l, h) xs" and "length xs < 2 ^ 32" and "\<And>a. new = Some a \<Longrightarrow> h a = None"
  shows "\<exists>st out s' xs'. run_list_op new op (l, h) = Some (st, out, s') \<and>
    dlist s' xs' \<and> dom (snd s') = dom h - fst ` set xs \<union> fst ` set xs' \<and>
    (\<forall>p. p \<notin> fst ` set xs \<union> fst ` set xs' \<longrightarrow> snd s' p = h p) \<and>
    (spec_list_op op (map snd xs) = (st, out, map snd xs') \<or> new = None \<and> st = STATUS_NOT_ENOUGH_MEMORY \<and> xs' = xs)"
proof -
  have "simulates new op l h xs" by (rule list_op_simulates [OF assms])
  then show ?thesis by (simp add: simulates_def outcome_def same_outside_def)
qed

theorem double_list_refines_sequence_witness:
  "\<exists>l s' xs'. doubleListCreate True True = (STATUS_SUCCESS, Some l) \<and>
    run_list_op (Some 1) (LInsertHead 7) (l, Map.empty) = Some (STATUS_SUCCESS, None, s') \<and> dlist s' xs' \<and> map snd xs' = [7]"
proof -
  let ?l = "\<lparr>dl_count = 0, dl_pHead = None, dl_pTail = None\<rparr>"
  have "dlist (?l, Map.empty) []" by (simp add: dlist_def)
  from double_list_refines_sequence [OF this, of "Some 1" "LInsertHead 7"] obtain st out s' xs' where
    "run_list_op (Some 1) (LInsertHead 7) (?l, Map.empty) = Some (st, out, s')" "dlist s' xs'"
    "(STATUS_SUCCESS, None, [7]) = (st, out, map snd xs')" by auto
  then show ?thesis by (auto simp: doubleListCreate_def)
qed

text \<open>
  C23. \<open>doubleListClear\<close> ends on every list and releases each of its nodes exactly once, with the data
  pointers when it is asked to; the list is empty and usable afterwards.
\<close>

theorem clear_releases_all:
  assumes "dlist (l, h) xs"
  shows "\<exists>l'. doubleListClear (Some l, h) freeData =
      Some (STATUS_SUCCESS, (Some l', h |` (- (fst ` set xs))), if freeData then filter (\<lambda>d. d \<noteq> 0) (map snd xs) else []) \<and>
    dlist (l', h |` (- (fst ` set xs))) []"
  by (rule clear_spec [OF assms])

theorem clear_releases_all_witness:
  "\<exists>l'. doubleListClear (Some \<lparr>dl_count = 1, dl_pHead = Some 4, dl_pTail = Some 4\<rparr>,
       [4 \<mapsto> \<lparr>dn_pNext = None, dn_pPrev = None, dn_data = 9\<rparr>]) True =
     Some (STATUS_SUCCESS, (Some l', [4 \<mapsto> \<lparr>dn_pNext = None, dn_pPrev = None, dn_data = 9\<rparr>] |` (- {4})), [9])"
  using clear_releases_all [of "\<lparr>dl_count = 1, dl_pHead = Some 4, dl_pTail = Some 4\<rparr>"
      "[4 \<mapsto> \<lparr>dn_pNext = None, dn_pPrev = None, dn_data = 9\<rparr>]" "[(4, 9)]" True]
  by (auto simp: dlist_def)

end
