(* ===== verification/StateMachine.thy ===== *)
theory StateMachine
  imports Prelude
begin

text \<open>
  \<^verbatim>\<open>deps/src/state/State.c\<close>: the table-driven state machine under the signaling client, the ICE agent
  and the TURN connection.

  The callbacks of a state receive the custom data of the machine; they may read and change it and
  everything they reach from it. This is the type \<open>'c\<close>, which each callback returns updated. A callback
  does not step the machine it is called from. The pointer \<open>pCurrentState\<close> points into the table that
  the machine owns and never writes to, so it is modelled by the row it points to. A null machine is
  \<open>None\<close>. An execution callback may wait for other threads: \<open>None\<close> as its result, and as that of a step,
  means that it does not return.
\<close>

section \<open>Data\<close>

record 'c StateMachineState =
  sms_state :: u64
  sms_acceptStates :: u64
  sms_getNextStateFn :: "('c \<Rightarrow> STATUS \<times> u64 \<times> 'c) option"
  sms_executeStateFn :: "('c \<Rightarrow> u64 \<Rightarrow> (STATUS \<times> 'c) option) option"
  sms_stateTransitionHookFunc :: "('c \<Rightarrow> STATUS \<times> u64 \<times> 'c) option"
  sms_maxLocalStateRetryCount :: u32
  sms_status :: STATUS

record 'c StateMachineImpl =
  sm_getCurrentTimeFunc :: "'c \<Rightarrow> u64"
  sm_pCurrentState :: "'c StateMachineState"
  sm_localStateRetryCount :: u32
  sm_stateTransitionWaitTime :: u64
  sm_stateMachineName :: string
  sm_states :: "'c StateMachineState list"

abbreviation (input) MAX_STATE_MACHINE_NAME_LENGTH :: nat where "MAX_STATE_MACHINE_NAME_LENGTH \<equiv> 32"
abbreviation (input) INFINITE_RETRY_COUNT_SENTINEL :: u32 where "INFINITE_RETRY_COUNT_SENTINEL \<equiv> 0"

section \<open>Creating\<close>

text \<open>
  A row of the table has 48 bytes and the machine 104 on a 64-bit platform. The size of the
  allocation is computed in 32 bits; when it wraps, the rows are copied behind the allocation, and when
  the caller's table has fewer rows than it says, they are read behind it: the model faults.
\<close>

definition createStateMachine ::
  "(nat \<Rightarrow> bool) \<Rightarrow> 'c StateMachineState list option \<Rightarrow> u32 \<Rightarrow> ('c \<Rightarrow> u64) option \<Rightarrow> bool \<Rightarrow>
   (STATUS \<times> 'c StateMachineImpl option) option" where
  "createStateMachine mem pStates stateCount getCurrentTimeFunc ppStateMachine =
     (case (pStates, getCurrentTimeFunc) of
        (Some states, Some now) \<Rightarrow>
          if \<not> ppStateMachine then Some (STATUS_NULL_ARG, None)
          else if stateCount = 0 then Some (STATUS_INVALID_ARG, None)
          else
            let allocationSize = 104 + 48 * unat stateCount in
            if \<not> mem (allocationSize mod 2 ^ 32) then Some (STATUS_NOT_ENOUGH_MEMORY, None)
            else if allocationSize \<ge> 2 ^ 32 \<or> length states < unat stateCount then None
            else Some (STATUS_SUCCESS, Some
              \<lparr>sm_getCurrentTimeFunc = now, sm_pCurrentState = states ! 0, sm_localStateRetryCount = 0,
               sm_stateTransitionWaitTime = 0, sm_stateMachineName = [], sm_states = take (unat stateCount) states\<rparr>)
      | _ \<Rightarrow> Some (STATUS_NULL_ARG, None))"

text \<open>Names are given without their terminating zero.\<close>

definition createStateMachineWithName ::
  "(nat \<Rightarrow> bool) \<Rightarrow> 'c StateMachineState list option \<Rightarrow> u32 \<Rightarrow> ('c \<Rightarrow> u64) option \<Rightarrow> string option \<Rightarrow> bool \<Rightarrow>
   (STATUS \<times> 'c StateMachineImpl option) option" where
  "createStateMachineWithName mem pStates stateCount getCurrentTimeFunc pStateMachineName ppStateMachine =
     (case pStateMachineName of
        None \<Rightarrow> Some (STATUS_NULL_ARG, None)
      | Some name \<Rightarrow>
          if name = [] then Some (STATUS_STATE_MACHINE_NAME_LEN_INVALID, None)
          else if \<not> min (length name) (MAX_STATE_MACHINE_NAME_LENGTH + 1) \<le> MAX_STATE_MACHINE_NAME_LENGTH
            then Some (STATUS_STATE_MACHINE_NAME_LEN_INVALID, None)
          else do {
            (retStatus, m) \<leftarrow> createStateMachine mem pStates stateCount getCurrentTimeFunc ppStateMachine;
            if retStatus \<noteq> STATUS_SUCCESS then Some (retStatus, m)
            else Some (case m of
                None \<Rightarrow> (STATUS_NULL_ARG, None)
              | Some m \<Rightarrow> (STATUS_SUCCESS, Some (m\<lparr>sm_stateMachineName := take MAX_STATE_MACHINE_NAME_LENGTH name\<rparr>)))
          })"

text \<open>The number of allocations released.\<close>

definition freeStateMachine :: "'c StateMachineImpl option \<Rightarrow> STATUS \<times> nat" where
  "freeStateMachine pm = (case pm of None \<Rightarrow> (STATUS_SUCCESS, 0) | Some m \<Rightarrow> (STATUS_SUCCESS, 1))"

definition getStateMachineName :: "'c StateMachineImpl option \<Rightarrow> string option" where
  "getStateMachineName pm = map_option sm_stateMachineName pm"

section \<open>Looking up and testing states\<close>

definition getStateMachineState ::
  "'c StateMachineImpl option \<Rightarrow> u64 \<Rightarrow> STATUS + 'c StateMachineState" where
  "getStateMachineState pm state = (case pm of
     None \<Rightarrow> Inl STATUS_NULL_ARG
   | Some m \<Rightarrow> (case find (\<lambda>s. sms_state s = state) (sm_states m) of
       None \<Rightarrow> Inl STATUS_STATE_MACHINE_STATE_NOT_FOUND
     | Some s \<Rightarrow> Inr s))"

definition getStateMachineCurrentState :: "'c StateMachineImpl option \<Rightarrow> STATUS + 'c StateMachineState" where
  "getStateMachineCurrentState pm = (case pm of None \<Rightarrow> Inl STATUS_NULL_ARG | Some m \<Rightarrow> Inr (sm_pCurrentState m))"

definition acceptStateMachineState :: "'c StateMachineImpl option \<Rightarrow> u64 \<Rightarrow> STATUS" where
  "acceptStateMachineState pm requiredStates = (case pm of
     None \<Rightarrow> STATUS_NULL_ARG
   | Some m \<Rightarrow>
       if requiredStates AND sms_state (sm_pCurrentState m) = sms_state (sm_pCurrentState m) then STATUS_SUCCESS
       else STATUS_INVALID_STREAM_STATE)"

section \<open>Stepping\<close>

text \<open>The transition hook of the current state, when it has one, tells how long to wait.\<close>

definition transition_hook :: "'c StateMachineState \<Rightarrow> 'c \<Rightarrow> STATUS \<times> u64 \<times> 'c" where
  "transition_hook s c = (case sms_stateTransitionHookFunc s of None \<Rightarrow> (STATUS_SUCCESS, 0, c) | Some f \<Rightarrow> f c)"

text \<open>The retry count of the next state: from zero for another state, and one more for the same state.\<close>

definition next_retry_count :: "'c StateMachineImpl \<Rightarrow> 'c StateMachineState \<Rightarrow> u32" where
  "next_retry_count m s =
     (if sms_state s \<noteq> sms_state (sm_pCurrentState m) then 0 else sm_localStateRetryCount m + 1)"

definition execute_state :: "'c StateMachineState \<Rightarrow> u64 \<Rightarrow> 'c \<Rightarrow> (STATUS \<times> 'c) option" where
  "execute_state s time c = (case sms_executeStateFn s of None \<Rightarrow> Some (STATUS_SUCCESS, c) | Some f \<Rightarrow> f c time)"

text \<open>The part of a step after the hook has succeeded.\<close>

definition enter_state ::
  "'c StateMachineImpl \<Rightarrow> 'c StateMachineState \<Rightarrow> u64 \<Rightarrow> u64 \<Rightarrow> 'c \<Rightarrow> (STATUS \<times> 'c StateMachineImpl \<times> 'c) option" where
  "enter_state m pState time errorStateTransitionWaitTime c =
     (let m1 = m\<lparr>sm_localStateRetryCount := next_retry_count m pState\<rparr> in
      if sms_maxLocalStateRetryCount pState \<noteq> INFINITE_RETRY_COUNT_SENTINEL \<and>
         \<not> sm_localStateRetryCount m1 \<le> sms_maxLocalStateRetryCount pState
      then Some (sms_status pState, m1, c)
      else
        let m2 = m1\<lparr>sm_stateTransitionWaitTime := time + errorStateTransitionWaitTime, sm_pCurrentState := pState\<rparr> in
        map_option (\<lambda>(retStatus, c'). (retStatus, m2, c')) (execute_state pState (sm_stateTransitionWaitTime m2) c))"

definition stepStateMachine ::
  "'c StateMachineImpl option \<Rightarrow> 'c \<Rightarrow> (STATUS \<times> 'c StateMachineImpl option \<times> 'c) option" where
  "stepStateMachine pm c = (case pm of
     None \<Rightarrow> Some (STATUS_NULL_ARG, None, c)
   | Some m \<Rightarrow> (case sms_getNextStateFn (sm_pCurrentState m) of
       None \<Rightarrow> Some (STATUS_NULL_ARG, Some m, c)
     | Some getNext \<Rightarrow>
         let (retStatus, nextState, c1) = getNext c in
         if retStatus \<noteq> STATUS_SUCCESS then Some (retStatus, Some m, c1)
         else (case getStateMachineState (Some m) nextState of
           Inl retStatus \<Rightarrow> Some (retStatus, Some m, c1)
         | Inr pState \<Rightarrow>
             let retStatus = acceptStateMachineState (Some m) (sms_acceptStates pState) in
             if retStatus \<noteq> STATUS_SUCCESS then Some (retStatus, Some m, c1)
             else
               let time = sm_getCurrentTimeFunc m c1;
                   (retStatus, wait, c2) = transition_hook (sm_pCurrentState m) c1 in
               if retStatus \<noteq> STATUS_SUCCESS then Some (retStatus, Some m, c2)
               else map_option (\<lambda>(retStatus, m', c3). (retStatus, Some m', c3)) (enter_state m pState time wait c2))))"

section \<open>The other operations\<close>

definition setStateMachineCurrentState ::
  "'c StateMachineImpl option \<Rightarrow> u64 \<Rightarrow> STATUS \<times> 'c StateMachineImpl option" where
  "setStateMachineCurrentState pm state = (case pm of
     None \<Rightarrow> (STATUS_NULL_ARG, None)
   | Some m \<Rightarrow> (case getStateMachineState (Some m) state of
       Inl retStatus \<Rightarrow> (retStatus, Some m)
     | Inr pState \<Rightarrow> (STATUS_SUCCESS, Some (m\<lparr>sm_pCurrentState := pState\<rparr>))))"

definition resetStateMachineRetryCount :: "'c StateMachineImpl option \<Rightarrow> STATUS \<times> 'c StateMachineImpl option" where
  "resetStateMachineRetryCount pm = (case pm of
     None \<Rightarrow> (STATUS_NULL_ARG, None)
   | Some m \<Rightarrow> (STATUS_SUCCESS, Some (m\<lparr>sm_localStateRetryCount := 0, sm_stateTransitionWaitTime := 0\<rparr>)))"

definition checkForStateTransition ::
  "'c StateMachineImpl option \<Rightarrow> bool \<Rightarrow> 'c \<Rightarrow> (STATUS + bool) \<times> 'c" where
  "checkForStateTransition pm pTransitionReady c = (case pm of
     None \<Rightarrow> (Inl STATUS_NULL_ARG, c)
   | Some m \<Rightarrow>
       if \<not> pTransitionReady then (Inl STATUS_NULL_ARG, c)
       else (case sms_getNextStateFn (sm_pCurrentState m) of
         None \<Rightarrow> (Inl STATUS_NULL_ARG, c)
       | Some getNext \<Rightarrow>
           let (retStatus, nextState, c1) = getNext c in
           if retStatus \<noteq> STATUS_SUCCESS then (Inl retStatus, c1)
           else (Inr (list_ex (\<lambda>s. sms_state s = nextState) (sm_states m) \<and> sms_state (sm_pCurrentState m) \<noteq> nextState), c1)))"

section \<open>Well-formed machines\<close>

definition machine_wf :: "'c StateMachineImpl \<Rightarrow> bool" where
  "machine_wf m \<longleftrightarrow> sm_pCurrentState m \<in> set (sm_states m) \<and> (\<forall>s \<in> set (sm_states m). sms_status s \<noteq> STATUS_SUCCESS)"

text \<open>What no operation changes.\<close>

definition same_table :: "'c StateMachineImpl \<Rightarrow> 'c StateMachineImpl \<Rightarrow> bool" where
  "same_table m m' \<longleftrightarrow> sm_states m' = sm_states m \<and> sm_stateMachineName m' = sm_stateMachineName m \<and>
     sm_getCurrentTimeFunc m' = sm_getCurrentTimeFunc m"

definition accepts :: "'c StateMachineState \<Rightarrow> 'c StateMachineState \<Rightarrow> bool" where
  "accepts s cur \<longleftrightarrow> sms_acceptStates s AND sms_state cur = sms_state cur"

definition retry_ok :: "'c StateMachineState \<Rightarrow> u32 \<Rightarrow> bool" where
  "retry_ok s n \<longleftrightarrow> sms_maxLocalStateRetryCount s = INFINITE_RETRY_COUNT_SENTINEL \<or> n \<le> sms_maxLocalStateRetryCount s"

text \<open>A row of the table has been entered from the current one.\<close>

definition entered :: "'c StateMachineImpl \<Rightarrow> 'c StateMachineImpl \<Rightarrow> bool" where
  "entered m m' \<longleftrightarrow> sm_pCurrentState m' \<in> set (sm_states m) \<and> accepts (sm_pCurrentState m') (sm_pCurrentState m) \<and>
     sm_localStateRetryCount m' = next_retry_count m (sm_pCurrentState m') \<and>
     retry_ok (sm_pCurrentState m') (sm_localStateRetryCount m')"

lemma getStateMachineState_Inr:
  "getStateMachineState (Some m) i = Inr s \<Longrightarrow> s \<in> set (sm_states m) \<and> sms_state s = i"
  by (auto simp: getStateMachineState_def find_Some_iff split: option.splits)

lemma accept_success [simp]:
  "(acceptStateMachineState (Some m) (sms_acceptStates s) = STATUS_SUCCESS) = accepts s (sm_pCurrentState m)"
  by (simp add: acceptStateMachineState_def accepts_def)

lemma accept_failure:
  "acceptStateMachineState (Some m) (sms_acceptStates s) =
     (if accepts s (sm_pCurrentState m) then STATUS_SUCCESS else STATUS_INVALID_STREAM_STATE)"
  by (simp add: acceptStateMachineState_def accepts_def)

text \<open>Every outcome of a step, as one predicate: which branch was taken and what it left behind.\<close>

lemma enter_state_cases:
  assumes "enter_state m s t w c = Some (st, m', c')"
  obtains (exhausted) "\<not> retry_ok s (next_retry_count m s)" "st = sms_status s" "c' = c"
      "m' = m\<lparr>sm_localStateRetryCount := next_retry_count m s\<rparr>"
    | (taken) "retry_ok s (next_retry_count m s)" "execute_state s (t + w) c = Some (st, c')"
      "m' = m\<lparr>sm_localStateRetryCount := next_retry_count m s, sm_stateTransitionWaitTime := t + w, sm_pCurrentState := s\<rparr>"
  using assms by (auto simp: enter_state_def retry_ok_def Let_def split: if_splits prod.splits)

lemma step_cases:
  assumes "stepStateMachine (Some m) c = Some (st, pm', c')"
  obtains (refused) "st \<noteq> STATUS_SUCCESS" "pm' = Some m"
    | (step) f i c1 s w c2 m' where "sms_getNextStateFn (sm_pCurrentState m) = Some f" "f c = (STATUS_SUCCESS, i, c1)"
      "getStateMachineState (Some m) i = Inr s" "accepts s (sm_pCurrentState m)"
      "transition_hook (sm_pCurrentState m) c1 = (STATUS_SUCCESS, w, c2)" "pm' = Some m'"
      "enter_state m s (sm_getCurrentTimeFunc m c1) w c2 = Some (st, m', c')"
proof (cases "sms_getNextStateFn (sm_pCurrentState m)")
  case None
  then show thesis using assms refused by (simp add: stepStateMachine_def)
next
  case (Some f)
  obtain st1 i c1 where f: "f c = (st1, i, c1)" by (cases "f c")
  obtain st2 w c2 where h: "transition_hook (sm_pCurrentState m) c1 = (st2, w, c2)"
    by (cases "transition_hook (sm_pCurrentState m) c1")
  show thesis
  proof (cases "getStateMachineState (Some m) i")
    case (Inl e)
    then have "e \<noteq> STATUS_SUCCESS" by (auto simp: getStateMachineState_def split: option.splits)
    then show thesis using assms refused Some f Inl
      by (cases "st1 = STATUS_SUCCESS") (simp_all add: stepStateMachine_def)
  next
    case (Inr s)
    let ?e = "enter_state m s (sm_getCurrentTimeFunc m c1) w c2"
    have "stepStateMachine (Some m) c = (if st1 \<noteq> STATUS_SUCCESS then Some (st1, Some m, c1)
        else if \<not> accepts s (sm_pCurrentState m) then Some (STATUS_INVALID_STREAM_STATE, Some m, c1)
        else if st2 \<noteq> STATUS_SUCCESS then Some (st2, Some m, c2)
        else map_option (\<lambda>(st, m', c3). (st, Some m', c3)) ?e)"
      using Some f Inr h by (simp add: stepStateMachine_def accept_failure Let_def)
    with assms show thesis using refused step[OF Some] f Inr h
      by (cases "st1 = STATUS_SUCCESS"; cases "accepts s (sm_pCurrentState m)"; cases "st2 = STATUS_SUCCESS") auto
  qed
qed

lemma step_outcome:
  assumes "machine_wf m" and "stepStateMachine (Some m) c = Some (st, Some m', c')"
  shows "machine_wf m' \<and> same_table m m' \<and> (st = STATUS_SUCCESS \<longrightarrow> entered m m') \<and>
    (sm_pCurrentState m' = sm_pCurrentState m \<or> entered m m')"
  using assms(2)
proof (cases rule: step_cases)
  case refused
  then show ?thesis using assms(1) by (simp add: same_table_def)
next
  case (step f i c1 s w c2 m'')
  note s = getStateMachineState_Inr[OF step(3)]
  from step(7) show ?thesis
  proof (cases rule: enter_state_cases)
    case exhausted
    then show ?thesis using assms(1) step(6) s by (auto simp: machine_wf_def same_table_def)
  next
    case taken
    then show ?thesis using assms(1) step(4,6) s
      by (auto simp: machine_wf_def same_table_def entered_def)
  qed
qed

lemma set_current_outcome:
  assumes "machine_wf m" and "setStateMachineCurrentState (Some m) i = (st, Some m')"
  shows "machine_wf m' \<and> same_table m m'"
  using assms getStateMachineState_Inr[of m i]
  by (auto simp: setStateMachineCurrentState_def machine_wf_def same_table_def split: sum.splits)

lemma reset_outcome:
  assumes "machine_wf m" and "resetStateMachineRetryCount (Some m) = (st, Some m')"
  shows "machine_wf m' \<and> same_table m m'"
  using assms by (auto simp: resetStateMachineRetryCount_def machine_wf_def same_table_def)

lemma create_outcome:
  assumes "createStateMachine mem (Some states) n (Some now) True = Some (STATUS_SUCCESS, Some m)"
    and "\<forall>s \<in> set states. sms_status s \<noteq> STATUS_SUCCESS"
  shows "machine_wf m \<and> sm_states m = take (unat n) states \<and> sm_pCurrentState m = states ! 0 \<and> sm_localStateRetryCount m = 0"
proof -
  have m: "n \<noteq> 0" "unat n \<le> length states" "sm_states m = take (unat n) states"
      "sm_pCurrentState m = states ! 0" "sm_localStateRetryCount m = 0"
    using assms(1) by (auto simp: createStateMachine_def Let_def split: if_splits)
  then have "0 < unat n" by (simp add: unat_gt_0)
  with m(2) have "states ! 0 \<in> set (take (unat n) states)" by (auto simp: in_set_conv_nth intro: exI[of _ 0])
  then show ?thesis using m assms(2) by (auto simp: machine_wf_def dest: in_set_takeD)
qed

section \<open>Machines in use\<close>

text \<open>The machines that a client can hold after it has created one from a table, with any custom data.\<close>

inductive machine_reachable :: "'c StateMachineState list \<Rightarrow> 'c StateMachineImpl \<Rightarrow> bool" for states where
  create: "createStateMachine mem (Some states) (word_of_nat (length states)) (Some now) True = Some (STATUS_SUCCESS, Some m) \<Longrightarrow>
    machine_reachable states m"
| step: "machine_reachable states m \<Longrightarrow> stepStateMachine (Some m) c = Some (st, Some m', c') \<Longrightarrow> machine_reachable states m'"
| set: "machine_reachable states m \<Longrightarrow> setStateMachineCurrentState (Some m) i = (st, Some m') \<Longrightarrow> machine_reachable states m'"
| reset: "machine_reachable states m \<Longrightarrow> resetStateMachineRetryCount (Some m) = (st, Some m') \<Longrightarrow> machine_reachable states m'"

lemma create_count: "createStateMachine mem (Some states) (word_of_nat (length states)) (Some now) True = Some (STATUS_SUCCESS, Some m) \<Longrightarrow>
    \<forall>s \<in> set states. sms_status s \<noteq> STATUS_SUCCESS \<Longrightarrow> length states < 2 ^ 32 \<Longrightarrow> machine_wf m \<and> sm_states m = states"
  using create_outcome[of mem states "word_of_nat (length states)" now m] by (simp add: unat_small32)

lemma machine_reachable_wf:
  assumes "machine_reachable states m" and "\<forall>s \<in> set states. sms_status s \<noteq> STATUS_SUCCESS" and "length states < 2 ^ 32"
  shows "machine_wf m \<and> sm_states m = states"
  using assms(1)
proof induction
  case (create mem now m)
  then show ?case using create_count assms(2,3) by blast
next
  case (step m c st m' c')
  then show ?case using step_outcome[of m c st m' c'] by (simp add: same_table_def)
next
  case (set m i st m')
  then show ?case using set_current_outcome[of m i st m'] by (simp add: same_table_def)
next
  case (reset m st m')
  then show ?case using reset_outcome[of m st m'] by (simp add: same_table_def)
qed

section \<open>Retries\<close>

text \<open>A state that asks to be entered again, and whose callbacks return.\<close>

definition asks_itself :: "'c StateMachineState \<Rightarrow> bool" where
  "asks_itself s \<longleftrightarrow> (\<exists>f. sms_getNextStateFn s = Some f \<and> (\<forall>c. \<exists>c'. f c = (STATUS_SUCCESS, sms_state s, c'))) \<and>
     (\<forall>c. fst (transition_hook s c) = STATUS_SUCCESS) \<and> (\<forall>c t. execute_state s t c \<noteq> None)"

fun repeat_step :: "nat \<Rightarrow> 'c StateMachineImpl \<Rightarrow> 'c \<Rightarrow> (STATUS list \<times> 'c StateMachineImpl \<times> 'c) option" where
  "repeat_step 0 m c = Some ([], m, c)"
| "repeat_step (Suc n) m c = (case repeat_step n m c of
     Some (sts, m1, c1) \<Rightarrow> (case stepStateMachine (Some m1) c1 of
        Some (st, Some m2, c2) \<Rightarrow> Some (sts @ [st], m2, c2) | _ \<Rightarrow> None)
   | None \<Rightarrow> None)"

lemma find_distinct:
  assumes "distinct (map g xs)" and "x \<in> set xs"
  shows "find (\<lambda>y. g y = g x) xs = Some x"
  using assms by (induction xs) (auto simp: image_iff)

lemma step_asking_itself:
  assumes "machine_wf m" "distinct (map sms_state (sm_states m))" "asks_itself s" "accepts s s" "sm_pCurrentState m = s"
    and n: "n = sm_localStateRetryCount m + 1"
  obtains st m' c' where "stepStateMachine (Some m) c = Some (st, Some m', c')" "machine_wf m'" "same_table m m'"
    "sm_pCurrentState m' = s" "sm_localStateRetryCount m' = n" "\<not> retry_ok s n \<Longrightarrow> st = sms_status s"
    "retry_ok s n \<Longrightarrow> \<exists>t c2. execute_state s t c2 = Some (st, c')"
proof -
  obtain f c1 where f: "sms_getNextStateFn s = Some f" "f c = (STATUS_SUCCESS, sms_state s, c1)"
    using assms(3) unfolding asks_itself_def by blast
  obtain w c2 where h: "transition_hook s c1 = (STATUS_SUCCESS, w, c2)"
    using assms(3) by (cases "transition_hook s c1") (auto simp: asks_itself_def dest: spec[of _ c1])
  have g: "getStateMachineState (Some m) (sms_state s) = Inr s"
    using assms(1,2,5) find_distinct[of sms_state "sm_states m" s] by (simp add: getStateMachineState_def machine_wf_def)
  have n': "next_retry_count m s = n" using n assms(5) by (simp add: next_retry_count_def)
  let ?e = "enter_state m s (sm_getCurrentTimeFunc m c1) w c2"
  have step: "stepStateMachine (Some m) c = map_option (\<lambda>(st, m', c3). (st, Some m', c3)) ?e"
    using f g h assms(4,5) by (simp add: stepStateMachine_def accept_failure Let_def)
  have "?e \<noteq> None" using assms(3) by (auto simp: enter_state_def asks_itself_def Let_def)
  then obtain st m' c' where e: "?e = Some (st, m', c')" by auto
  then have S: "stepStateMachine (Some m) c = Some (st, Some m', c')" using step by simp
  have o: "machine_wf m'" "same_table m m'" using step_outcome[OF assms(1) S] by auto
  from e have "sm_pCurrentState m' = s \<and> sm_localStateRetryCount m' = n \<and> (\<not> retry_ok s n \<longrightarrow> st = sms_status s) \<and>
      (retry_ok s n \<longrightarrow> (\<exists>t c2. execute_state s t c2 = Some (st, c')))"
    by (cases rule: enter_state_cases) (use n' assms(5) in auto)
  then show thesis using that S o by blast
qed

lemma repeat_step_asking_itself:
  assumes "machine_wf m" "distinct (map sms_state (sm_states m))" "asks_itself s" "accepts s s" "sm_pCurrentState m = s"
    and "sm_localStateRetryCount m = 0" "sms_maxLocalStateRetryCount s \<noteq> 0" "n < 2 ^ 32"
  shows "\<exists>sts m' c'. repeat_step n m c = Some (sts, m', c') \<and> length sts = n \<and> machine_wf m' \<and> same_table m m' \<and>
    sm_pCurrentState m' = s \<and> sm_localStateRetryCount m' = word_of_nat n \<and>
    (\<forall>k < n. if k < unat (sms_maxLocalStateRetryCount s) then \<exists>t c1 c2. execute_state s t c1 = Some (sts ! k, c2)
       else sts ! k = sms_status s)"
  using assms(8)
proof (induction n)
  case 0
  then show ?case using assms by (simp add: same_table_def)
next
  case (Suc n)
  then obtain sts m1 c1 where IH: "repeat_step n m c = Some (sts, m1, c1)" "length sts = n" "machine_wf m1" "same_table m m1"
      "sm_pCurrentState m1 = s" "sm_localStateRetryCount m1 = word_of_nat n"
      "\<forall>k < n. if k < unat (sms_maxLocalStateRetryCount s) then \<exists>t c1 c2. execute_state s t c1 = Some (sts ! k, c2)
       else sts ! k = sms_status s" by auto
  have count: "word_of_nat (Suc n) = sm_localStateRetryCount m1 + 1" using IH(6) by simp
  have d: "distinct (map sms_state (sm_states m1))" using IH(4) assms(2) by (simp add: same_table_def)
  obtain st m2 c2 where S: "stepStateMachine (Some m1) c1 = Some (st, Some m2, c2)" "machine_wf m2" "same_table m1 m2"
      "sm_pCurrentState m2 = s" "sm_localStateRetryCount m2 = word_of_nat (Suc n)"
      "\<not> retry_ok s (word_of_nat (Suc n)) \<Longrightarrow> st = sms_status s"
      "retry_ok s (word_of_nat (Suc n)) \<Longrightarrow> \<exists>t c'. execute_state s t c' = Some (st, c2)"
    using step_asking_itself[OF IH(3) d assms(3,4) IH(5) count] by metis
  have ok: "retry_ok s (word_of_nat (Suc n)) = (n < unat (sms_maxLocalStateRetryCount s))"
    using assms(7) Suc(2) by (auto simp: retry_ok_def word_le_nat_alt unat_small32 simp del: of_nat_Suc)
  have last: "if n < unat (sms_maxLocalStateRetryCount s) then \<exists>t c' c2. execute_state s t c' = Some (st, c2) else st = sms_status s"
    using S(6,7) ok by auto
  have "repeat_step (Suc n) m c = Some (sts @ [st], m2, c2)" using IH(1) S(1) by simp
  moreover have "same_table m m2" using IH(4) S(3) by (simp add: same_table_def)
  moreover have "\<forall>k < Suc n. if k < unat (sms_maxLocalStateRetryCount s) then \<exists>t c1 c2. execute_state s t c1 = Some ((sts @ [st]) ! k, c2)
       else (sts @ [st]) ! k = sms_status s"
    using IH(2,7) last by (simp add: nth_append less_Suc_eq all_conj_distrib)
  ultimately show ?case using IH(2) S(2,4,5) by simp
qed

section \<open>Tables whose states only ask for states that accept them\<close>

text \<open>
  The contract of the rows of a table. \<open>legal s c\<close> tells for which custom data the row \<open>s\<close> asks for a row
  that accepts it.
\<close>

locale transition_table =
  fixes states :: "'c StateMachineState list" and legal :: "'c StateMachineState \<Rightarrow> 'c \<Rightarrow> bool"
  assumes status_failed: "\<And>s. s \<in> set states \<Longrightarrow> sms_status s \<noteq> STATUS_SUCCESS"
    and few_states: "length states < 2 ^ 32"
    and hook_succeeds: "\<And>s c. s \<in> set states \<Longrightarrow> fst (transition_hook s c) = STATUS_SUCCESS"
    and asks: "\<And>s c. s \<in> set states \<Longrightarrow> \<exists>f i c1. sms_getNextStateFn s = Some f \<and> f c = (STATUS_SUCCESS, i, c1) \<and>
      (\<exists>t. find (\<lambda>t. sms_state t = i) states = Some t \<and> (accepts t s \<longleftrightarrow> legal s c))"
begin

lemma reachable_current: "machine_reachable states m \<Longrightarrow> sm_pCurrentState m \<in> set states \<and> sm_states m = states \<and> machine_wf m"
  using machine_reachable_wf[of states m] status_failed few_states by (auto simp: machine_wf_def)

lemma step_legal:
  assumes m: "machine_reachable states m" and "legal (sm_pCurrentState m) c"
  obtains t wt c2 where "t \<in> set states" "accepts t (sm_pCurrentState m)"
    "stepStateMachine (Some m) c = map_option (\<lambda>(st, m', c'). (st, Some m', c')) (enter_state m t (fst wt) (snd wt) c2)"
proof -
  note cur = reachable_current[OF m]
  obtain f i c1 t where f: "sms_getNextStateFn (sm_pCurrentState m) = Some f" "f c = (STATUS_SUCCESS, i, c1)"
      "find (\<lambda>t. sms_state t = i) states = Some t" "accepts t (sm_pCurrentState m)"
    using asks[of "sm_pCurrentState m" c] cur assms(2) by auto
  obtain w c2 where h: "transition_hook (sm_pCurrentState m) c1 = (STATUS_SUCCESS, w, c2)"
    using hook_succeeds[of "sm_pCurrentState m" c1] cur by (cases "transition_hook (sm_pCurrentState m) c1") auto
  have "stepStateMachine (Some m) c =
      map_option (\<lambda>(st, m', c'). (st, Some m', c')) (enter_state m t (sm_getCurrentTimeFunc m c1) w c2)"
    using f h cur by (simp add: stepStateMachine_def getStateMachineState_def accept_failure Let_def)
  moreover have "t \<in> set states" using f(3) by (auto simp: find_Some_iff)
  ultimately show thesis using that[of t "(sm_getCurrentTimeFunc m c1, w)" c2] f(4) by simp
qed

text \<open>A legal step that returns enters a state, or gives the error of a state that was tried too often.\<close>

lemma legal_step_enters:
  assumes m: "machine_reachable states m" and l: "legal (sm_pCurrentState m) c"
    and S: "stepStateMachine (Some m) c = Some (st, Some m', c')"
  shows "entered m m' \<or> sm_pCurrentState m' = sm_pCurrentState m \<and> (\<exists>t \<in> set states. st = sms_status t \<and>
    sms_maxLocalStateRetryCount t \<noteq> 0 \<and> sms_maxLocalStateRetryCount t < sm_localStateRetryCount m')"
proof -
  from step_legal[OF m l] obtain t wt c2 where t: "t \<in> set states" "accepts t (sm_pCurrentState m)"
    "stepStateMachine (Some m) c = map_option (\<lambda>(st, m', c'). (st, Some m', c')) (enter_state m t (fst wt) (snd wt) c2)" .
  then have "enter_state m t (fst wt) (snd wt) c2 = Some (st, m', c')" using S
    by (cases "enter_state m t (fst wt) (snd wt) c2") auto
  then show ?thesis
  proof (cases rule: enter_state_cases)
    case exhausted
    then show ?thesis using t(1) by (auto simp: retry_ok_def intro!: bexI[of _ t])
  next
    case taken
    then show ?thesis using t reachable_current[OF m] by (simp add: entered_def)
  qed
qed

text \<open>A step from a state that asks for one that does not accept it changes nothing in the machine.\<close>

lemma illegal_step_refused:
  assumes m: "machine_reachable states m" and l: "\<not> legal (sm_pCurrentState m) c"
  shows "\<exists>f i c1. sms_getNextStateFn (sm_pCurrentState m) = Some f \<and> f c = (STATUS_SUCCESS, i, c1) \<and>
    stepStateMachine (Some m) c = Some (STATUS_INVALID_STREAM_STATE, Some m, c1)"
proof -
  note cur = reachable_current[OF m]
  obtain f i c1 t where "sms_getNextStateFn (sm_pCurrentState m) = Some f" "f c = (STATUS_SUCCESS, i, c1)"
      "find (\<lambda>t. sms_state t = i) states = Some t" "\<not> accepts t (sm_pCurrentState m)"
    using asks[of "sm_pCurrentState m" c] cur l by auto
  then show ?thesis using cur by (simp add: stepStateMachine_def getStateMachineState_def accept_failure Let_def)
qed

end

section \<open>Properties\<close>


text \<open>A table of one state that asks for itself and may be retried twice, and the machine made from it.\<close>

definition polling_state :: "nat StateMachineState" where
  "polling_state = \<lparr>sms_state = 1, sms_acceptStates = 1, sms_getNextStateFn = Some (\<lambda>c. (STATUS_SUCCESS, 1, c)),
     sms_executeStateFn = Some (\<lambda>c t. Some (STATUS_SUCCESS, c + 1)), sms_stateTransitionHookFunc = None,
     sms_maxLocalStateRetryCount = 2, sms_status = STATUS_INTERNAL_ERROR\<rparr>"

definition polling_machine :: "nat StateMachineImpl" where
  "polling_machine = \<lparr>sm_getCurrentTimeFunc = (\<lambda>c. 7), sm_pCurrentState = polling_state, sm_localStateRetryCount = 0,
     sm_stateTransitionWaitTime = 0, sm_stateMachineName = [], sm_states = [polling_state]\<rparr>"

lemma polling_reachable: "machine_reachable [polling_state] polling_machine"
proof (rule machine_reachable.create[of "\<lambda>_. True" _ "\<lambda>_. 7"])
  show "createStateMachine (\<lambda>_. True) (Some [polling_state]) (word_of_nat (length [polling_state])) (Some (\<lambda>_. 7)) True =
    Some (STATUS_SUCCESS, Some polling_machine)"
    by (simp add: createStateMachine_def polling_machine_def Let_def)
qed

lemma polling_asks_itself: "asks_itself polling_state"
  by (simp add: asks_itself_def polling_state_def transition_hook_def execute_state_def)

lemma polling_step: "stepStateMachine (Some polling_machine) 0 = Some (STATUS_SUCCESS, Some
    (polling_machine\<lparr>sm_localStateRetryCount := 1, sm_stateTransitionWaitTime := 7\<rparr>), 1)"
  by (simp add: stepStateMachine_def polling_machine_def polling_state_def getStateMachineState_def acceptStateMachineState_def
      transition_hook_def enter_state_def next_retry_count_def execute_state_def Let_def)


text \<open>
  A state with a retry limit that keeps asking for itself is executed as many times as the limit says.
  Every further step fails with the error status of the state and does not execute it.
\<close>

lemma retries_bounded:
  assumes "machine_reachable states m" and "\<forall>s \<in> set states. sms_status s \<noteq> STATUS_SUCCESS" and "length states < 2 ^ 32"
    and "distinct (map sms_state states)" and "asks_itself (sm_pCurrentState m)"
    and "accepts (sm_pCurrentState m) (sm_pCurrentState m)" and "sm_localStateRetryCount m = 0"
    and "sms_maxLocalStateRetryCount (sm_pCurrentState m) \<noteq> 0" and "n < 2 ^ 32"
  shows "\<exists>sts m' c'. repeat_step n m c = Some (sts, m', c') \<and> length sts = n \<and> sm_pCurrentState m' = sm_pCurrentState m \<and>
    (\<forall>k < n. if k < unat (sms_maxLocalStateRetryCount (sm_pCurrentState m))
       then \<exists>t c1 c2. execute_state (sm_pCurrentState m) t c1 = Some (sts ! k, c2)
       else sts ! k = sms_status (sm_pCurrentState m))"
  using repeat_step_asking_itself[of m "sm_pCurrentState m" n c] machine_reachable_wf[OF assms(1-3)] assms(4-9) by auto

lemma retries_bounded_witness:
  "\<exists>sts m' c'. repeat_step 4 polling_machine 0 = Some (sts, m', c') \<and> sts ! 2 = STATUS_INTERNAL_ERROR \<and> sts ! 3 = STATUS_INTERNAL_ERROR"
proof -
  have cur: "sm_pCurrentState polling_machine = polling_state" "sm_localStateRetryCount polling_machine = 0"
      "accepts polling_state polling_state" "sms_maxLocalStateRetryCount polling_state = 2"
      "sms_status polling_state = STATUS_INTERNAL_ERROR"
    by (simp_all add: polling_machine_def polling_state_def accepts_def)
  obtain sts m' c' where R: "repeat_step 4 polling_machine 0 = Some (sts, m', c')"
      "\<forall>k < 4. if k < unat (2::u32) then \<exists>t c1 c2. execute_state polling_state t c1 = Some (sts ! k, c2)
        else sts ! k = STATUS_INTERNAL_ERROR"
    using retries_bounded[OF polling_reachable, of 4 0] polling_asks_itself unfolding cur by (auto simp: cur)
  from R(2) have "sts ! 2 = STATUS_INTERNAL_ERROR" "sts ! 3 = STATUS_INTERNAL_ERROR"
    using spec[of _ 2] spec[of _ 3] by simp_all
  with R(1) show ?thesis by blast
qed

end
