(* ===== verification/SignalingState.thy ===== *)
theory SignalingState
  imports StateMachine
begin

text \<open>
  \<^verbatim>\<open>src/source/Signaling/StateMachine.c\<close>: the states of the signaling client, which gets credentials,
  describes or creates the channel, gets its endpoints and the ICE servers, connects, and joins a storage session.

  The client record has the fields that this file reads or writes. The calls it makes to the service, the
  credential provider, the retry strategy, the application and the condition variable are the fields of
  \<open>SignalingCalls\<close>: each may change the client and the world outside (\<open>sc_world\<close>). The custom data is the
  client, whose address is not null. Reading the clock is a call, too, since time passes. The durations kept for diagnostics are left out.
\<close>

section \<open>States and results of service calls\<close>

abbreviation (input) SIGNALING_STATE_NONE :: u64 where "SIGNALING_STATE_NONE \<equiv> 0"
abbreviation (input) SIGNALING_STATE_NEW :: u64 where "SIGNALING_STATE_NEW \<equiv> 1"
abbreviation (input) SIGNALING_STATE_GET_TOKEN :: u64 where "SIGNALING_STATE_GET_TOKEN \<equiv> 2"
abbreviation (input) SIGNALING_STATE_DESCRIBE :: u64 where "SIGNALING_STATE_DESCRIBE \<equiv> 4"
abbreviation (input) SIGNALING_STATE_CREATE :: u64 where "SIGNALING_STATE_CREATE \<equiv> 8"
abbreviation (input) SIGNALING_STATE_GET_ENDPOINT :: u64 where "SIGNALING_STATE_GET_ENDPOINT \<equiv> 16"
abbreviation (input) SIGNALING_STATE_GET_ICE_CONFIG :: u64 where "SIGNALING_STATE_GET_ICE_CONFIG \<equiv> 32"
abbreviation (input) SIGNALING_STATE_READY :: u64 where "SIGNALING_STATE_READY \<equiv> 64"
abbreviation (input) SIGNALING_STATE_CONNECT :: u64 where "SIGNALING_STATE_CONNECT \<equiv> 128"
abbreviation (input) SIGNALING_STATE_CONNECTED :: u64 where "SIGNALING_STATE_CONNECTED \<equiv> 256"
abbreviation (input) SIGNALING_STATE_DISCONNECTED :: u64 where "SIGNALING_STATE_DISCONNECTED \<equiv> 512"
abbreviation (input) SIGNALING_STATE_DELETE :: u64 where "SIGNALING_STATE_DELETE \<equiv> 1024"
abbreviation (input) SIGNALING_STATE_DELETED :: u64 where "SIGNALING_STATE_DELETED \<equiv> 2048"
abbreviation (input) SIGNALING_STATE_DESCRIBE_MEDIA :: u64 where "SIGNALING_STATE_DESCRIBE_MEDIA \<equiv> 4096"
abbreviation (input) SIGNALING_STATE_JOIN_SESSION :: u64 where "SIGNALING_STATE_JOIN_SESSION \<equiv> 8192"
abbreviation (input) SIGNALING_STATE_JOIN_SESSION_WAITING :: u64 where "SIGNALING_STATE_JOIN_SESSION_WAITING \<equiv> 16384"
abbreviation (input) SIGNALING_STATE_JOIN_SESSION_CONNECTED :: u64 where "SIGNALING_STATE_JOIN_SESSION_CONNECTED \<equiv> 32768"

abbreviation (input) SERVICE_CALL_RESULT_NOT_SET :: u64 where "SERVICE_CALL_RESULT_NOT_SET \<equiv> 0"
abbreviation (input) SERVICE_CALL_RESULT_OK :: u64 where "SERVICE_CALL_RESULT_OK \<equiv> 200"
abbreviation (input) SERVICE_CALL_BAD_REQUEST :: u64 where "SERVICE_CALL_BAD_REQUEST \<equiv> 400"
abbreviation (input) SERVICE_CALL_NOT_AUTHORIZED :: u64 where "SERVICE_CALL_NOT_AUTHORIZED \<equiv> 401"
abbreviation (input) SERVICE_CALL_FORBIDDEN :: u64 where "SERVICE_CALL_FORBIDDEN \<equiv> 403"
abbreviation (input) SERVICE_CALL_RESOURCE_NOT_FOUND :: u64 where "SERVICE_CALL_RESOURCE_NOT_FOUND \<equiv> 404"
abbreviation (input) SERVICE_CALL_REQUEST_TIMEOUT :: u64 where "SERVICE_CALL_REQUEST_TIMEOUT \<equiv> 408"
abbreviation (input) SERVICE_CALL_INTERNAL_ERROR :: u64 where "SERVICE_CALL_INTERNAL_ERROR \<equiv> 500"
abbreviation (input) SERVICE_CALL_GATEWAY_TIMEOUT :: u64 where "SERVICE_CALL_GATEWAY_TIMEOUT \<equiv> 504"
abbreviation (input) SERVICE_CALL_NETWORK_READ_TIMEOUT :: u64 where "SERVICE_CALL_NETWORK_READ_TIMEOUT \<equiv> 598"
abbreviation (input) SERVICE_CALL_NETWORK_CONNECTION_TIMEOUT :: u64 where "SERVICE_CALL_NETWORK_CONNECTION_TIMEOUT \<equiv> 599"
abbreviation (input) SERVICE_CALL_RESULT_SIGNALING_GO_AWAY :: u64 where "SERVICE_CALL_RESULT_SIGNALING_GO_AWAY \<equiv> 6000"
abbreviation (input) SERVICE_CALL_RESULT_SIGNALING_RECONNECT_ICE :: u64 where "SERVICE_CALL_RESULT_SIGNALING_RECONNECT_ICE \<equiv> 6001"
abbreviation (input) SERVICE_CALL_UNKNOWN :: u64 where "SERVICE_CALL_UNKNOWN \<equiv> 10006"
abbreviation (input) SERVICE_CALL_RESOURCE_DELETED :: u64 where "SERVICE_CALL_RESOURCE_DELETED \<equiv> 10400"

datatype SIGNALING_CLIENT_STATE =
    SIGNALING_CLIENT_STATE_UNKNOWN
  | SIGNALING_CLIENT_STATE_NEW
  | SIGNALING_CLIENT_STATE_GET_CREDENTIALS
  | SIGNALING_CLIENT_STATE_DESCRIBE
  | SIGNALING_CLIENT_STATE_CREATE
  | SIGNALING_CLIENT_STATE_GET_ENDPOINT
  | SIGNALING_CLIENT_STATE_GET_ICE_CONFIG
  | SIGNALING_CLIENT_STATE_READY
  | SIGNALING_CLIENT_STATE_CONNECTING
  | SIGNALING_CLIENT_STATE_CONNECTED
  | SIGNALING_CLIENT_STATE_DISCONNECTED
  | SIGNALING_CLIENT_STATE_DELETE
  | SIGNALING_CLIENT_STATE_DELETED
  | SIGNALING_CLIENT_STATE_DESCRIBE_MEDIA
  | SIGNALING_CLIENT_STATE_JOIN_SESSION
  | SIGNALING_CLIENT_STATE_JOIN_SESSION_WAITING
  | SIGNALING_CLIENT_STATE_JOIN_SESSION_CONNECTED

section \<open>The client and its surroundings\<close>

record 'w SignalingClient =
  sc_result :: u64
  sc_clientReady :: bool
  sc_shutdown :: bool
  sc_connected :: bool
  sc_deleting :: bool
  sc_refreshIceConfig :: bool
  sc_offerReceived :: bool
  sc_retry :: bool
  sc_pChannelArn :: "string option"
  sc_useMediaStorage :: bool
  sc_storageStatus :: bool
  sc_channelArn :: string
  sc_describeTime :: u64
  sc_describeMediaTime :: u64
  sc_getEndpointTime :: u64
  sc_credentialsExpiration :: "u64 option"
  sc_stateMachineRetryCount :: u32
  sc_world :: 'w

type_synonym 'w service_call = "'w SignalingClient \<Rightarrow> u64 \<Rightarrow> STATUS \<times> 'w SignalingClient"

record 'w SignalingCalls =
  call_getCurrentTime :: "'w SignalingClient \<Rightarrow> u64 \<times> 'w SignalingClient"
  call_sleepUntil :: "u64 \<Rightarrow> 'w SignalingClient \<Rightarrow> 'w SignalingClient"
  call_stateChangeFn :: "(SIGNALING_CLIENT_STATE \<Rightarrow> 'w SignalingClient \<Rightarrow> STATUS \<times> 'w SignalingClient) option"
  call_getCurrentRetryAttemptNumberFn :: "('w SignalingClient \<Rightarrow> STATUS \<times> u32) option"
  call_executeRetryStrategyFn :: "('w SignalingClient \<Rightarrow> u64 \<times> 'w SignalingClient) option"
  call_getCredentialsFn :: "'w SignalingClient \<Rightarrow> STATUS \<times> 'w SignalingClient"
  call_describeChannel :: "'w service_call"
  call_describeMediaStorageConf :: "'w service_call"
  call_createChannel :: "'w service_call"
  call_getChannelEndpoint :: "'w service_call"
  call_getIceConfig :: "'w service_call"
  call_connectSignalingChannel :: "'w service_call"
  call_joinStorageSession :: "'w service_call"
  call_deleteChannel :: "'w service_call"
  call_cvarWait :: "'w SignalingClient \<Rightarrow> STATUS \<times> 'w SignalingClient"

abbreviation (input) MAX_ARN_LEN :: nat where "MAX_ARN_LEN \<equiv> 2048"
abbreviation (input) INVALID_TIMESTAMP_VALUE :: u64 where "INVALID_TIMESTAMP_VALUE \<equiv> - 1"
abbreviation (input) SIGNALING_STATES_DEFAULT_RETRY_COUNT :: u32 where "SIGNALING_STATES_DEFAULT_RETRY_COUNT \<equiv> 1"

section \<open>What each state asks for next\<close>

type_synonym 'w from_state = "'w SignalingClient \<Rightarrow> STATUS \<times> u64 \<times> 'w SignalingClient"

definition fromNewSignalingState :: "'w from_state" where
  "fromNewSignalingState c = (STATUS_SUCCESS, SIGNALING_STATE_GET_TOKEN, c)"

definition fromGetTokenSignalingState :: "'w from_state" where
  "fromGetTokenSignalingState c =
     (if sc_result c = SERVICE_CALL_RESULT_OK then
        if sc_deleting c then (STATUS_SUCCESS, SIGNALING_STATE_DELETE, c)
        else (case sc_pChannelArn c of
            Some (ch # arn) \<Rightarrow> (STATUS_SUCCESS, SIGNALING_STATE_GET_ENDPOINT, c\<lparr>sc_channelArn := take MAX_ARN_LEN (ch # arn)\<rparr>)
          | _ \<Rightarrow> (STATUS_SUCCESS, SIGNALING_STATE_DESCRIBE, c))
      else (STATUS_SUCCESS, SIGNALING_STATE_GET_TOKEN, c))"

definition fromDescribeSignalingState :: "'w from_state" where
  "fromDescribeSignalingState c =
     (let result = sc_result c in
      (STATUS_SUCCESS,
       if result = SERVICE_CALL_RESULT_OK then
         if sc_deleting c then SIGNALING_STATE_DELETE
         else if sc_useMediaStorage c then SIGNALING_STATE_DESCRIBE_MEDIA
         else SIGNALING_STATE_GET_ENDPOINT
       else if result = SERVICE_CALL_RESOURCE_NOT_FOUND then SIGNALING_STATE_CREATE
       else if result \<in> {SERVICE_CALL_FORBIDDEN, SERVICE_CALL_NOT_AUTHORIZED} then SIGNALING_STATE_GET_TOKEN
       else SIGNALING_STATE_DESCRIBE, c))"

definition fromDescribeMediaStorageConfState :: "'w from_state" where
  "fromDescribeMediaStorageConfState c =
     (let result = sc_result c in
      (STATUS_SUCCESS,
       if result = SERVICE_CALL_RESULT_OK then
         if sc_deleting c then SIGNALING_STATE_DELETE else SIGNALING_STATE_GET_ENDPOINT
       else if result = SERVICE_CALL_RESOURCE_NOT_FOUND then SIGNALING_STATE_CREATE
       else if result \<in> {SERVICE_CALL_FORBIDDEN, SERVICE_CALL_NOT_AUTHORIZED} then SIGNALING_STATE_GET_TOKEN
       else SIGNALING_STATE_DESCRIBE_MEDIA, c))"

definition fromCreateSignalingState :: "'w from_state" where
  "fromCreateSignalingState c =
     (let result = sc_result c in
      (STATUS_SUCCESS,
       if result = SERVICE_CALL_RESULT_OK then SIGNALING_STATE_DESCRIBE
       else if result \<in> {SERVICE_CALL_FORBIDDEN, SERVICE_CALL_NOT_AUTHORIZED} then SIGNALING_STATE_GET_TOKEN
       else SIGNALING_STATE_CREATE, c))"

definition fromGetEndpointSignalingState :: "'w from_state" where
  "fromGetEndpointSignalingState c =
     (let result = sc_result c in
      (STATUS_SUCCESS,
       if result = SERVICE_CALL_RESULT_OK then SIGNALING_STATE_GET_ICE_CONFIG
       else if result \<in> {SERVICE_CALL_FORBIDDEN, SERVICE_CALL_NOT_AUTHORIZED} then SIGNALING_STATE_GET_TOKEN
       else SIGNALING_STATE_GET_ENDPOINT, c))"

definition fromGetIceConfigSignalingState :: "'w from_state" where
  "fromGetIceConfigSignalingState c =
     (let result = sc_result c in
      if result = SERVICE_CALL_RESULT_OK then (STATUS_SUCCESS, SIGNALING_STATE_READY, c)
      else if result \<in> {SERVICE_CALL_FORBIDDEN, SERVICE_CALL_NOT_AUTHORIZED} then (STATUS_SUCCESS, SIGNALING_STATE_GET_TOKEN, c)
      else if result = SERVICE_CALL_RESOURCE_NOT_FOUND then
        (STATUS_SUCCESS, SIGNALING_STATE_DESCRIBE,
         c\<lparr>sc_describeTime := INVALID_TIMESTAMP_VALUE, sc_describeMediaTime := INVALID_TIMESTAMP_VALUE,
           sc_getEndpointTime := INVALID_TIMESTAMP_VALUE\<rparr>)
      else (STATUS_SUCCESS, SIGNALING_STATE_GET_ICE_CONFIG, c))"

text \<open>The requested state is overwritten when the ICE servers are to be fetched again.\<close>

definition force_refresh :: "u64 \<Rightarrow> 'w from_state" where
  "force_refresh state c =
     (STATUS_SUCCESS, if sc_refreshIceConfig c then SIGNALING_STATE_GET_ICE_CONFIG else state, c\<lparr>sc_refreshIceConfig := False\<rparr>)"

definition fromReadySignalingState :: "'w from_state" where
  "fromReadySignalingState c =
     (let result = sc_result c in
      force_refresh
       (if result = SERVICE_CALL_RESULT_OK then SIGNALING_STATE_READY
        else if result = SERVICE_CALL_RESULT_SIGNALING_RECONNECT_ICE then SIGNALING_STATE_GET_ICE_CONFIG
        else if result \<in> {SERVICE_CALL_FORBIDDEN, SERVICE_CALL_NOT_AUTHORIZED} then SIGNALING_STATE_GET_TOKEN
        else SIGNALING_STATE_CONNECT) c)"

definition fromConnectSignalingState :: "'w from_state" where
  "fromConnectSignalingState c =
     (let result = sc_result c in
      force_refresh
       (if result = SERVICE_CALL_RESULT_OK then
          if sc_connected c then SIGNALING_STATE_CONNECTED else SIGNALING_STATE_CONNECT
        else if result = SERVICE_CALL_RESOURCE_NOT_FOUND then SIGNALING_STATE_DESCRIBE
        else if result \<in> {SERVICE_CALL_FORBIDDEN, SERVICE_CALL_NOT_AUTHORIZED} then SIGNALING_STATE_GET_TOKEN
        else if result = SERVICE_CALL_INTERNAL_ERROR then SIGNALING_STATE_GET_ENDPOINT
        else if result = SERVICE_CALL_BAD_REQUEST then SIGNALING_STATE_GET_ENDPOINT
        else if result = SERVICE_CALL_RESULT_SIGNALING_RECONNECT_ICE then SIGNALING_STATE_GET_ICE_CONFIG
        else if result \<in> {SERVICE_CALL_NETWORK_CONNECTION_TIMEOUT, SERVICE_CALL_NETWORK_READ_TIMEOUT,
          SERVICE_CALL_REQUEST_TIMEOUT, SERVICE_CALL_GATEWAY_TIMEOUT} then SIGNALING_STATE_GET_ENDPOINT
        else SIGNALING_STATE_GET_TOKEN) c)"

definition fromConnectedSignalingState :: "'w from_state" where
  "fromConnectedSignalingState c =
     (let result = sc_result c in
      force_refresh
       (if result = SERVICE_CALL_RESULT_OK then
          if \<not> sc_connected c then SIGNALING_STATE_DISCONNECTED
          else if sc_storageStatus c then SIGNALING_STATE_JOIN_SESSION
          else SIGNALING_STATE_CONNECTED
        else if result = SERVICE_CALL_RESOURCE_NOT_FOUND then SIGNALING_STATE_DESCRIBE
        else if result \<in> {SERVICE_CALL_FORBIDDEN, SERVICE_CALL_NOT_AUTHORIZED} then SIGNALING_STATE_GET_TOKEN
        else if result \<in> {SERVICE_CALL_INTERNAL_ERROR, SERVICE_CALL_BAD_REQUEST, SERVICE_CALL_NETWORK_CONNECTION_TIMEOUT,
          SERVICE_CALL_NETWORK_READ_TIMEOUT, SERVICE_CALL_REQUEST_TIMEOUT, SERVICE_CALL_GATEWAY_TIMEOUT}
          then SIGNALING_STATE_GET_ENDPOINT
        else if result = SERVICE_CALL_RESULT_SIGNALING_GO_AWAY then SIGNALING_STATE_DESCRIBE
        else if result = SERVICE_CALL_RESULT_SIGNALING_RECONNECT_ICE then SIGNALING_STATE_GET_ICE_CONFIG
        else SIGNALING_STATE_GET_TOKEN) c)"

definition fromJoinStorageSessionState :: "'w from_state" where
  "fromJoinStorageSessionState c =
     (let result = sc_result c in
      force_refresh
       (if result = SERVICE_CALL_RESULT_OK then
          if \<not> sc_connected c then SIGNALING_STATE_DISCONNECTED else SIGNALING_STATE_JOIN_SESSION_WAITING
        else if result = SERVICE_CALL_RESOURCE_NOT_FOUND then SIGNALING_STATE_DESCRIBE
        else if result \<in> {SERVICE_CALL_FORBIDDEN, SERVICE_CALL_NOT_AUTHORIZED} then SIGNALING_STATE_GET_TOKEN
        else if result = SERVICE_CALL_INTERNAL_ERROR then SIGNALING_STATE_GET_ENDPOINT
        else if result = SERVICE_CALL_RESULT_SIGNALING_RECONNECT_ICE then SIGNALING_STATE_GET_ICE_CONFIG
        else if result \<in> {SERVICE_CALL_BAD_REQUEST, SERVICE_CALL_NETWORK_CONNECTION_TIMEOUT, SERVICE_CALL_NETWORK_READ_TIMEOUT,
          SERVICE_CALL_REQUEST_TIMEOUT, SERVICE_CALL_GATEWAY_TIMEOUT} then SIGNALING_STATE_GET_ENDPOINT
        else SIGNALING_STATE_GET_TOKEN) c)"

definition fromJoinStorageSessionWaitingState :: "'w from_state" where
  "fromJoinStorageSessionWaitingState c =
     (let result = sc_result c in
      (STATUS_SUCCESS,
       if result = SERVICE_CALL_RESULT_OK then
         if \<not> sc_connected c then SIGNALING_STATE_DISCONNECTED else SIGNALING_STATE_JOIN_SESSION_CONNECTED
       else if result = SERVICE_CALL_RESULT_NOT_SET then
         if \<not> sc_connected c then SIGNALING_STATE_DISCONNECTED else SIGNALING_STATE_JOIN_SESSION
       else SIGNALING_STATE_GET_TOKEN, c))"

definition fromJoinStorageSessionConnectedState :: "'w from_state" where
  "fromJoinStorageSessionConnectedState c =
     (let result = sc_result c in
      force_refresh
       (if result = SERVICE_CALL_RESULT_OK then
          if \<not> sc_connected c then SIGNALING_STATE_DISCONNECTED
          else if sc_storageStatus c then SIGNALING_STATE_GET_ICE_CONFIG
          else SIGNALING_STATE_CONNECTED
        else if result = SERVICE_CALL_RESULT_SIGNALING_GO_AWAY then SIGNALING_STATE_DESCRIBE
        else if result = SERVICE_CALL_RESULT_SIGNALING_RECONNECT_ICE then SIGNALING_STATE_GET_ICE_CONFIG
        else SIGNALING_STATE_GET_TOKEN) c)"

definition fromDisconnectedSignalingState :: "'w from_state" where
  "fromDisconnectedSignalingState c =
     (let result = sc_result c in
      force_refresh
       (if result \<in> {SERVICE_CALL_FORBIDDEN, SERVICE_CALL_NOT_AUTHORIZED} then SIGNALING_STATE_GET_TOKEN
        else if result = SERVICE_CALL_RESULT_SIGNALING_RECONNECT_ICE then SIGNALING_STATE_GET_ICE_CONFIG
        else SIGNALING_STATE_READY) c)"

definition fromDeleteSignalingState :: "'w from_state" where
  "fromDeleteSignalingState c =
     (let result = sc_result c in
      (STATUS_SUCCESS,
       if result \<in> {SERVICE_CALL_FORBIDDEN, SERVICE_CALL_NOT_AUTHORIZED} then SIGNALING_STATE_GET_TOKEN
       else if result \<in> {SERVICE_CALL_RESULT_OK, SERVICE_CALL_RESOURCE_DELETED, SERVICE_CALL_RESOURCE_NOT_FOUND}
         then SIGNALING_STATE_DELETED
       else if result = SERVICE_CALL_BAD_REQUEST then SIGNALING_STATE_DESCRIBE
       else SIGNALING_STATE_DELETE, c))"

definition fromDeletedSignalingState :: "'w from_state" where
  "fromDeletedSignalingState c = (STATUS_SUCCESS, SIGNALING_STATE_DELETED, c)"

section \<open>What is done in each state\<close>

type_synonym 'w execute_fn = "'w SignalingCalls \<Rightarrow> 'w SignalingClient \<Rightarrow> u64 \<Rightarrow> (STATUS \<times> 'w SignalingClient) option"

text \<open>The application is told of the new state; the state is left when it returns an error.\<close>

definition notify_state :: "'w SignalingCalls \<Rightarrow> SIGNALING_CLIENT_STATE \<Rightarrow> 'w SignalingClient \<Rightarrow> STATUS \<times> 'w SignalingClient" where
  "notify_state calls st c = (case call_stateChangeFn calls of None \<Rightarrow> (STATUS_SUCCESS, c) | Some f \<Rightarrow> f st c)"

definition and_then :: "STATUS \<times> 'w SignalingClient \<Rightarrow> ('w SignalingClient \<Rightarrow> STATUS \<times> 'w SignalingClient) \<Rightarrow>
    STATUS \<times> 'w SignalingClient" where
  "and_then r f = (if fst r \<noteq> STATUS_SUCCESS then r else f (snd r))"

definition executeNewSignalingState :: "'w execute_fn" where
  "executeNewSignalingState calls c time =
     Some (notify_state calls SIGNALING_CLIENT_STATE_NEW (c\<lparr>sc_result := SERVICE_CALL_RESULT_NOT_SET, sc_clientReady := False\<rparr>))"

definition executeGetTokenSignalingState :: "'w execute_fn" where
  "executeGetTokenSignalingState calls c time =
     Some (and_then (notify_state calls SIGNALING_CLIENT_STATE_GET_CREDENTIALS
               (c\<lparr>sc_result := SERVICE_CALL_RESULT_NOT_SET, sc_clientReady := False\<rparr>))
       (\<lambda>c. let (retStatus, c) = call_getCredentialsFn calls (call_sleepUntil calls time c);
                (serviceCallResult, c) = (case sc_credentialsExpiration c of
                    None \<Rightarrow> (SERVICE_CALL_NOT_AUTHORIZED, c)
                  | Some expiration \<Rightarrow>
                      let (now, c) = call_getCurrentTime calls c in
                      (if now \<ge> expiration then SERVICE_CALL_NOT_AUTHORIZED else SERVICE_CALL_RESULT_OK, c)) in
            (retStatus, c\<lparr>sc_result := serviceCallResult\<rparr>)))"

definition executeDescribeSignalingState :: "'w execute_fn" where
  "executeDescribeSignalingState calls c time =
     Some (and_then (notify_state calls SIGNALING_CLIENT_STATE_DESCRIBE
               (c\<lparr>sc_result := SERVICE_CALL_RESULT_NOT_SET, sc_clientReady := False\<rparr>))
       (\<lambda>c. call_describeChannel calls c time))"

definition executeDescribeMediaStorageConfState :: "'w execute_fn" where
  "executeDescribeMediaStorageConfState calls c time =
     Some (and_then (notify_state calls SIGNALING_CLIENT_STATE_DESCRIBE_MEDIA
               (c\<lparr>sc_result := SERVICE_CALL_RESULT_NOT_SET\<rparr>))
       (\<lambda>c. call_describeMediaStorageConf calls c time))"

definition executeCreateSignalingState :: "'w execute_fn" where
  "executeCreateSignalingState calls c time =
     Some (and_then (notify_state calls SIGNALING_CLIENT_STATE_CREATE
               (c\<lparr>sc_result := SERVICE_CALL_RESULT_NOT_SET, sc_clientReady := False\<rparr>))
       (\<lambda>c. call_createChannel calls c time))"

definition executeGetEndpointSignalingState :: "'w execute_fn" where
  "executeGetEndpointSignalingState calls c time =
     Some (and_then (notify_state calls SIGNALING_CLIENT_STATE_GET_ENDPOINT
               (c\<lparr>sc_result := SERVICE_CALL_RESULT_NOT_SET, sc_clientReady := False\<rparr>))
       (\<lambda>c. call_getChannelEndpoint calls c time))"

definition executeGetIceConfigSignalingState :: "'w execute_fn" where
  "executeGetIceConfigSignalingState calls c time =
     Some (and_then (notify_state calls SIGNALING_CLIENT_STATE_GET_ICE_CONFIG
               (c\<lparr>sc_result := SERVICE_CALL_RESULT_NOT_SET, sc_clientReady := False\<rparr>))
       (\<lambda>c. call_getIceConfig calls c time))"

definition executeReadySignalingState :: "'w execute_fn" where
  "executeReadySignalingState calls c time =
     Some (notify_state calls SIGNALING_CLIENT_STATE_READY (c\<lparr>sc_clientReady := True, sc_result := SERVICE_CALL_RESULT_NOT_SET\<rparr>))"

definition executeConnectSignalingState :: "'w execute_fn" where
  "executeConnectSignalingState calls c time =
     Some (and_then (notify_state calls SIGNALING_CLIENT_STATE_CONNECTING c) (\<lambda>c. call_connectSignalingChannel calls c time))"

definition executeConnectedSignalingState :: "'w execute_fn" where
  "executeConnectedSignalingState calls c time = Some (notify_state calls SIGNALING_CLIENT_STATE_CONNECTED c)"

definition executeJoinStorageSessionState :: "'w execute_fn" where
  "executeJoinStorageSessionState calls c time =
     Some (and_then (notify_state calls SIGNALING_CLIENT_STATE_JOIN_SESSION c)
       (\<lambda>c. call_joinStorageSession calls (c\<lparr>sc_offerReceived := False\<rparr>) time))"

text \<open>
  The wait for the offer of the storage session. A wake-up without an offer starts another wait, so the loop
  need not end; \<open>None\<close> stands for that.
\<close>

partial_function (option) wait_for_offer :: "'w SignalingCalls \<Rightarrow> 'w SignalingClient \<Rightarrow> (STATUS \<times> 'w SignalingClient) option" where
  "wait_for_offer calls c =
     (if sc_offerReceived c then Some (STATUS_SUCCESS, c)
      else let (retStatus, c') = call_cvarWait calls c in
        if retStatus \<noteq> STATUS_SUCCESS then Some (retStatus, c') else wait_for_offer calls c')"

definition executeJoinStorageSessionWaitingState :: "'w execute_fn" where
  "executeJoinStorageSessionWaitingState calls c time =
     (let (retStatus, c) = notify_state calls SIGNALING_CLIENT_STATE_JOIN_SESSION_WAITING c in
      do {
        (retStatus, c) \<leftarrow> (if retStatus \<noteq> STATUS_SUCCESS then Some (retStatus, c) else wait_for_offer calls c);
        Some (retStatus, c\<lparr>sc_result :=
          (if retStatus = STATUS_OPERATION_TIMED_OUT then SERVICE_CALL_RESULT_NOT_SET
           else if retStatus = STATUS_SUCCESS then SERVICE_CALL_RESULT_OK
           else SERVICE_CALL_UNKNOWN)\<rparr>)
      })"

definition executeJoinStorageSessionConnectedState :: "'w execute_fn" where
  "executeJoinStorageSessionConnectedState calls c time =
     Some (notify_state calls SIGNALING_CLIENT_STATE_JOIN_SESSION_CONNECTED c)"

definition executeDisconnectedSignalingState :: "'w execute_fn" where
  "executeDisconnectedSignalingState calls c time = Some (notify_state calls SIGNALING_CLIENT_STATE_DISCONNECTED c)"

definition executeDeleteSignalingState :: "'w execute_fn" where
  "executeDeleteSignalingState calls c time =
     Some (and_then (notify_state calls SIGNALING_CLIENT_STATE_DELETE
               (c\<lparr>sc_result := SERVICE_CALL_RESULT_NOT_SET, sc_clientReady := False\<rparr>))
       (\<lambda>c. call_deleteChannel calls c time))"

definition executeDeletedSignalingState :: "'w execute_fn" where
  "executeDeletedSignalingState calls c time = Some (notify_state calls SIGNALING_CLIENT_STATE_DELETED c)"

section \<open>The transition hook and the table\<close>

definition defaultSignalingStateTransitionHook ::
  "'w SignalingCalls \<Rightarrow> 'w SignalingClient \<Rightarrow> STATUS \<times> u64 \<times> 'w SignalingClient" where
  "defaultSignalingStateTransitionHook calls c =
     (case call_executeRetryStrategyFn calls of
        None \<Rightarrow> (STATUS_SUCCESS, 0, c)
      | Some executeRetry \<Rightarrow>
          if \<not> sc_result c > SERVICE_CALL_RESULT_OK then (STATUS_SUCCESS, 0, c)
          else
            let c1 = (case call_getCurrentRetryAttemptNumberFn calls of
                None \<Rightarrow> c
              | Some f \<Rightarrow> c\<lparr>sc_stateMachineRetryCount := snd (f c)\<rparr>);
                (retryWaitTime, c2) = executeRetry c1 in
            (STATUS_SUCCESS, retryWaitTime, c2))"

definition SIGNALING_STATE_MACHINE_STATES :: "'w SignalingCalls \<Rightarrow> 'w SignalingClient StateMachineState list" where
  "SIGNALING_STATE_MACHINE_STATES calls =
    [\<lparr>sms_state = SIGNALING_STATE_NEW,
      sms_acceptStates = SIGNALING_STATE_NONE OR SIGNALING_STATE_NEW,
      sms_getNextStateFn = Some fromNewSignalingState, sms_executeStateFn = Some (executeNewSignalingState calls),
      sms_stateTransitionHookFunc = Some (defaultSignalingStateTransitionHook calls),
      sms_maxLocalStateRetryCount = INFINITE_RETRY_COUNT_SENTINEL, sms_status = STATUS_SIGNALING_INVALID_READY_STATE\<rparr>,
     \<lparr>sms_state = SIGNALING_STATE_GET_TOKEN,
      sms_acceptStates = SIGNALING_STATE_NEW OR SIGNALING_STATE_DESCRIBE OR SIGNALING_STATE_DESCRIBE_MEDIA
        OR SIGNALING_STATE_CREATE OR SIGNALING_STATE_GET_ENDPOINT OR SIGNALING_STATE_GET_ICE_CONFIG
        OR SIGNALING_STATE_READY OR SIGNALING_STATE_CONNECT OR SIGNALING_STATE_CONNECTED
        OR SIGNALING_STATE_JOIN_SESSION OR SIGNALING_STATE_JOIN_SESSION_WAITING
        OR SIGNALING_STATE_JOIN_SESSION_CONNECTED OR SIGNALING_STATE_DELETE OR SIGNALING_STATE_GET_TOKEN,
      sms_getNextStateFn = Some fromGetTokenSignalingState, sms_executeStateFn = Some (executeGetTokenSignalingState calls),
      sms_stateTransitionHookFunc = Some (defaultSignalingStateTransitionHook calls),
      sms_maxLocalStateRetryCount = SIGNALING_STATES_DEFAULT_RETRY_COUNT, sms_status = STATUS_SIGNALING_GET_TOKEN_CALL_FAILED\<rparr>,
     \<lparr>sms_state = SIGNALING_STATE_DESCRIBE,
      sms_acceptStates = SIGNALING_STATE_GET_TOKEN OR SIGNALING_STATE_CREATE OR SIGNALING_STATE_GET_ENDPOINT
        OR SIGNALING_STATE_GET_ICE_CONFIG OR SIGNALING_STATE_CONNECT OR SIGNALING_STATE_CONNECTED
        OR SIGNALING_STATE_JOIN_SESSION OR SIGNALING_STATE_JOIN_SESSION_CONNECTED
        OR SIGNALING_STATE_DELETE OR SIGNALING_STATE_DESCRIBE OR SIGNALING_STATE_READY
        OR SIGNALING_STATE_DISCONNECTED,
      sms_getNextStateFn = Some fromDescribeSignalingState, sms_executeStateFn = Some (executeDescribeSignalingState calls),
      sms_stateTransitionHookFunc = Some (defaultSignalingStateTransitionHook calls),
      sms_maxLocalStateRetryCount = SIGNALING_STATES_DEFAULT_RETRY_COUNT, sms_status = STATUS_SIGNALING_DESCRIBE_CALL_FAILED\<rparr>,
     \<lparr>sms_state = SIGNALING_STATE_DESCRIBE_MEDIA,
      sms_acceptStates = SIGNALING_STATE_DESCRIBE OR SIGNALING_STATE_DESCRIBE_MEDIA,
      sms_getNextStateFn = Some fromDescribeMediaStorageConfState, sms_executeStateFn = Some (executeDescribeMediaStorageConfState calls),
      sms_stateTransitionHookFunc = Some (defaultSignalingStateTransitionHook calls),
      sms_maxLocalStateRetryCount = SIGNALING_STATES_DEFAULT_RETRY_COUNT, sms_status = STATUS_SIGNALING_DESCRIBE_MEDIA_CALL_FAILED\<rparr>,
     \<lparr>sms_state = SIGNALING_STATE_CREATE,
      sms_acceptStates = SIGNALING_STATE_DESCRIBE OR SIGNALING_STATE_DESCRIBE_MEDIA OR SIGNALING_STATE_CREATE,
      sms_getNextStateFn = Some fromCreateSignalingState, sms_executeStateFn = Some (executeCreateSignalingState calls),
      sms_stateTransitionHookFunc = Some (defaultSignalingStateTransitionHook calls),
      sms_maxLocalStateRetryCount = SIGNALING_STATES_DEFAULT_RETRY_COUNT, sms_status = STATUS_SIGNALING_CREATE_CALL_FAILED\<rparr>,
     \<lparr>sms_state = SIGNALING_STATE_GET_ENDPOINT,
      sms_acceptStates = SIGNALING_STATE_DESCRIBE OR SIGNALING_STATE_DESCRIBE_MEDIA OR SIGNALING_STATE_CREATE
        OR SIGNALING_STATE_GET_TOKEN OR SIGNALING_STATE_READY OR SIGNALING_STATE_CONNECT
        OR SIGNALING_STATE_CONNECTED OR SIGNALING_STATE_JOIN_SESSION
        OR SIGNALING_STATE_JOIN_SESSION_CONNECTED OR SIGNALING_STATE_GET_ENDPOINT,
      sms_getNextStateFn = Some fromGetEndpointSignalingState, sms_executeStateFn = Some (executeGetEndpointSignalingState calls),
      sms_stateTransitionHookFunc = Some (defaultSignalingStateTransitionHook calls),
      sms_maxLocalStateRetryCount = SIGNALING_STATES_DEFAULT_RETRY_COUNT, sms_status = STATUS_SIGNALING_GET_ENDPOINT_CALL_FAILED\<rparr>,
     \<lparr>sms_state = SIGNALING_STATE_GET_ICE_CONFIG,
      sms_acceptStates = SIGNALING_STATE_DESCRIBE OR SIGNALING_STATE_DESCRIBE_MEDIA OR SIGNALING_STATE_CONNECT
        OR SIGNALING_STATE_CONNECTED OR SIGNALING_STATE_JOIN_SESSION
        OR SIGNALING_STATE_JOIN_SESSION_CONNECTED OR SIGNALING_STATE_GET_ENDPOINT OR SIGNALING_STATE_READY
        OR SIGNALING_STATE_GET_ICE_CONFIG,
      sms_getNextStateFn = Some fromGetIceConfigSignalingState, sms_executeStateFn = Some (executeGetIceConfigSignalingState calls),
      sms_stateTransitionHookFunc = Some (defaultSignalingStateTransitionHook calls),
      sms_maxLocalStateRetryCount = SIGNALING_STATES_DEFAULT_RETRY_COUNT, sms_status = STATUS_SIGNALING_GET_ICE_CONFIG_CALL_FAILED\<rparr>,
     \<lparr>sms_state = SIGNALING_STATE_READY,
      sms_acceptStates = SIGNALING_STATE_GET_ICE_CONFIG OR SIGNALING_STATE_DISCONNECTED OR SIGNALING_STATE_READY,
      sms_getNextStateFn = Some fromReadySignalingState, sms_executeStateFn = Some (executeReadySignalingState calls),
      sms_stateTransitionHookFunc = Some (defaultSignalingStateTransitionHook calls),
      sms_maxLocalStateRetryCount = INFINITE_RETRY_COUNT_SENTINEL, sms_status = STATUS_SIGNALING_READY_CALLBACK_FAILED\<rparr>,
     \<lparr>sms_state = SIGNALING_STATE_CONNECT,
      sms_acceptStates = SIGNALING_STATE_READY OR SIGNALING_STATE_DISCONNECTED OR SIGNALING_STATE_CONNECTED
        OR SIGNALING_STATE_JOIN_SESSION OR SIGNALING_STATE_CONNECT,
      sms_getNextStateFn = Some fromConnectSignalingState, sms_executeStateFn = Some (executeConnectSignalingState calls),
      sms_stateTransitionHookFunc = Some (defaultSignalingStateTransitionHook calls),
      sms_maxLocalStateRetryCount = INFINITE_RETRY_COUNT_SENTINEL, sms_status = STATUS_SIGNALING_CONNECT_CALL_FAILED\<rparr>,
     \<lparr>sms_state = SIGNALING_STATE_CONNECTED,
      sms_acceptStates = SIGNALING_STATE_CONNECT OR SIGNALING_STATE_CONNECTED OR SIGNALING_STATE_JOIN_SESSION,
      sms_getNextStateFn = Some fromConnectedSignalingState, sms_executeStateFn = Some (executeConnectedSignalingState calls),
      sms_stateTransitionHookFunc = Some (defaultSignalingStateTransitionHook calls),
      sms_maxLocalStateRetryCount = INFINITE_RETRY_COUNT_SENTINEL, sms_status = STATUS_SIGNALING_CONNECTED_CALLBACK_FAILED\<rparr>,
     \<lparr>sms_state = SIGNALING_STATE_DISCONNECTED,
      sms_acceptStates = SIGNALING_STATE_CONNECT OR SIGNALING_STATE_CONNECTED OR SIGNALING_STATE_JOIN_SESSION
        OR SIGNALING_STATE_JOIN_SESSION_WAITING OR SIGNALING_STATE_JOIN_SESSION_CONNECTED,
      sms_getNextStateFn = Some fromDisconnectedSignalingState, sms_executeStateFn = Some (executeDisconnectedSignalingState calls),
      sms_stateTransitionHookFunc = Some (defaultSignalingStateTransitionHook calls),
      sms_maxLocalStateRetryCount = SIGNALING_STATES_DEFAULT_RETRY_COUNT, sms_status = STATUS_SIGNALING_DISCONNECTED_CALLBACK_FAILED\<rparr>,
     \<lparr>sms_state = SIGNALING_STATE_DELETE,
      sms_acceptStates = SIGNALING_STATE_GET_TOKEN OR SIGNALING_STATE_DESCRIBE OR SIGNALING_STATE_DESCRIBE_MEDIA
        OR SIGNALING_STATE_CREATE OR SIGNALING_STATE_GET_ENDPOINT OR SIGNALING_STATE_GET_ICE_CONFIG
        OR SIGNALING_STATE_READY OR SIGNALING_STATE_CONNECT OR SIGNALING_STATE_CONNECTED
        OR SIGNALING_STATE_JOIN_SESSION OR SIGNALING_STATE_DISCONNECTED OR SIGNALING_STATE_DELETE,
      sms_getNextStateFn = Some fromDeleteSignalingState, sms_executeStateFn = Some (executeDeleteSignalingState calls),
      sms_stateTransitionHookFunc = Some (defaultSignalingStateTransitionHook calls),
      sms_maxLocalStateRetryCount = SIGNALING_STATES_DEFAULT_RETRY_COUNT, sms_status = STATUS_SIGNALING_DELETE_CALL_FAILED\<rparr>,
     \<lparr>sms_state = SIGNALING_STATE_DELETED,
      sms_acceptStates = SIGNALING_STATE_DELETE OR SIGNALING_STATE_DELETED,
      sms_getNextStateFn = Some fromDeletedSignalingState, sms_executeStateFn = Some (executeDeletedSignalingState calls),
      sms_stateTransitionHookFunc = Some (defaultSignalingStateTransitionHook calls),
      sms_maxLocalStateRetryCount = INFINITE_RETRY_COUNT_SENTINEL, sms_status = STATUS_SIGNALING_DELETE_CALL_FAILED\<rparr>,
     \<lparr>sms_state = SIGNALING_STATE_JOIN_SESSION,
      sms_acceptStates = SIGNALING_STATE_CONNECTED OR SIGNALING_STATE_JOIN_SESSION_WAITING
        OR SIGNALING_STATE_JOIN_SESSION_CONNECTED,
      sms_getNextStateFn = Some fromJoinStorageSessionState, sms_executeStateFn = Some (executeJoinStorageSessionState calls),
      sms_stateTransitionHookFunc = Some (defaultSignalingStateTransitionHook calls),
      sms_maxLocalStateRetryCount = INFINITE_RETRY_COUNT_SENTINEL, sms_status = STATUS_SIGNALING_JOIN_SESSION_CALL_FAILED\<rparr>,
     \<lparr>sms_state = SIGNALING_STATE_JOIN_SESSION_WAITING,
      sms_acceptStates = SIGNALING_STATE_JOIN_SESSION,
      sms_getNextStateFn = Some fromJoinStorageSessionWaitingState, sms_executeStateFn = Some (executeJoinStorageSessionWaitingState calls),
      sms_stateTransitionHookFunc = Some (defaultSignalingStateTransitionHook calls),
      sms_maxLocalStateRetryCount = INFINITE_RETRY_COUNT_SENTINEL, sms_status = STATUS_SIGNALING_JOIN_SESSION_CONNECTED_FAILED\<rparr>,
     \<lparr>sms_state = SIGNALING_STATE_JOIN_SESSION_CONNECTED,
      sms_acceptStates = SIGNALING_STATE_JOIN_SESSION_WAITING OR SIGNALING_STATE_JOIN_SESSION_CONNECTED,
      sms_getNextStateFn = Some fromJoinStorageSessionConnectedState, sms_executeStateFn = Some (executeJoinStorageSessionConnectedState calls),
      sms_stateTransitionHookFunc = Some (defaultSignalingStateTransitionHook calls),
      sms_maxLocalStateRetryCount = INFINITE_RETRY_COUNT_SENTINEL, sms_status = STATUS_SIGNALING_JOIN_SESSION_CONNECTED_FAILED\<rparr>]"

definition getSignalingStateFromStateMachineState :: "u64 \<Rightarrow> SIGNALING_CLIENT_STATE" where
  "getSignalingStateFromStateMachineState state =
     (if state = SIGNALING_STATE_NONE then SIGNALING_CLIENT_STATE_UNKNOWN
      else if state = SIGNALING_STATE_NEW then SIGNALING_CLIENT_STATE_NEW
      else if state = SIGNALING_STATE_GET_TOKEN then SIGNALING_CLIENT_STATE_GET_CREDENTIALS
      else if state = SIGNALING_STATE_DESCRIBE then SIGNALING_CLIENT_STATE_DESCRIBE
      else if state = SIGNALING_STATE_CREATE then SIGNALING_CLIENT_STATE_CREATE
      else if state = SIGNALING_STATE_GET_ENDPOINT then SIGNALING_CLIENT_STATE_GET_ENDPOINT
      else if state = SIGNALING_STATE_GET_ICE_CONFIG then SIGNALING_CLIENT_STATE_GET_ICE_CONFIG
      else if state = SIGNALING_STATE_READY then SIGNALING_CLIENT_STATE_READY
      else if state = SIGNALING_STATE_CONNECT then SIGNALING_CLIENT_STATE_CONNECTING
      else if state = SIGNALING_STATE_CONNECTED then SIGNALING_CLIENT_STATE_CONNECTED
      else if state = SIGNALING_STATE_DISCONNECTED then SIGNALING_CLIENT_STATE_DISCONNECTED
      else if state = SIGNALING_STATE_DELETE then SIGNALING_CLIENT_STATE_DELETE
      else if state = SIGNALING_STATE_DELETED then SIGNALING_CLIENT_STATE_DELETED
      else if state = SIGNALING_STATE_DESCRIBE_MEDIA then SIGNALING_CLIENT_STATE_DESCRIBE_MEDIA
      else if state = SIGNALING_STATE_JOIN_SESSION then SIGNALING_CLIENT_STATE_JOIN_SESSION
      else if state = SIGNALING_STATE_JOIN_SESSION_WAITING then SIGNALING_CLIENT_STATE_JOIN_SESSION_WAITING
      else if state = SIGNALING_STATE_JOIN_SESSION_CONNECTED then SIGNALING_CLIENT_STATE_JOIN_SESSION_CONNECTED
      else SIGNALING_CLIENT_STATE_UNKNOWN)"

definition acceptSignalingStateMachineState :: "'w SignalingClient StateMachineImpl option \<Rightarrow> u64 \<Rightarrow> STATUS" where
  "acceptSignalingStateMachineState pStateMachine state = acceptStateMachineState pStateMachine state"

section \<open>Driving the machine to a state\<close>

text \<open>
  The loop of \<^verbatim>\<open>signalingStateMachineIterator\<close>. The machine is a field of the client in the code; it is kept
  beside it here. The loop may run for ever, then the result is \<open>None\<close>.
\<close>

partial_function (option) iterate_machine ::
  "'w SignalingCalls \<Rightarrow> u64 \<Rightarrow> u64 \<Rightarrow> STATUS \<Rightarrow> 'w SignalingClient StateMachineImpl \<Rightarrow> 'w SignalingClient \<Rightarrow>
   (STATUS \<times> 'w SignalingClient StateMachineImpl \<times> 'w SignalingClient) option" where
  "iterate_machine calls expiration finalState retStatus m c =
     (if sc_shutdown c then Some (retStatus, m, c)
      else if retStatus \<noteq> STATUS_SUCCESS \<and> \<not> sc_retry c then Some (retStatus, m, c)
      else if retStatus \<noteq> STATUS_SUCCESS \<and> list_ex (\<lambda>s. sms_status s = retStatus) (SIGNALING_STATE_MACHINE_STATES calls)
        then Some (retStatus, m, c)
      else
        let (currentTime, c) = call_getCurrentTime calls c in
        if \<not> (expiration = 0 \<or> currentTime \<le> expiration) then Some (STATUS_OPERATION_TIMED_OUT, m, c)
        else
          let expired = (case sc_credentialsExpiration c of None \<Rightarrow> False | Some e \<Rightarrow> e < currentTime);
              c1 = (if retStatus = STATUS_SERVICE_CALL_NOT_AUTHORIZED_ERROR \<or> expired
                    then c\<lparr>sc_result := SERVICE_CALL_NOT_AUTHORIZED\<rparr> else c) in
          (case stepStateMachine (Some m) c1 of
             None \<Rightarrow> None
           | Some (st, None, c2) \<Rightarrow> None
           | Some (st, Some m2, c2) \<Rightarrow>
               if sms_state (sm_pCurrentState m2) = finalState then Some (STATUS_SUCCESS, m2, c2)
               else iterate_machine calls expiration finalState st m2 c2))"

definition signalingStateMachineIterator ::
  "'w SignalingCalls \<Rightarrow> u64 \<Rightarrow> u64 \<Rightarrow> 'w SignalingClient StateMachineImpl \<Rightarrow> 'w SignalingClient \<Rightarrow>
   (STATUS \<times> 'w SignalingClient StateMachineImpl \<times> 'w SignalingClient) option" where
  "signalingStateMachineIterator calls expiration finalState m c =
     iterate_machine calls expiration finalState STATUS_SUCCESS m c"

section \<open>The table is closed, but for two rows\<close>

text \<open>The custom data for which a row asks for a row that accepts it.\<close>

definition signaling_legal :: "'w SignalingClient StateMachineState \<Rightarrow> 'w SignalingClient \<Rightarrow> bool" where
  "signaling_legal s c =
     (if sms_state s = SIGNALING_STATE_DISCONNECTED then
        \<not> sc_refreshIceConfig c \<and>
        sc_result c \<notin> {SERVICE_CALL_FORBIDDEN, SERVICE_CALL_NOT_AUTHORIZED, SERVICE_CALL_RESULT_SIGNALING_RECONNECT_ICE}
      else if sms_state s = SIGNALING_STATE_JOIN_SESSION_CONNECTED then
        sc_refreshIceConfig c \<or> \<not> (sc_result c = SERVICE_CALL_RESULT_OK \<and> sc_connected c \<and> \<not> sc_storageStatus c)
      else True)"

lemmas from_defs = fromNewSignalingState_def fromGetTokenSignalingState_def fromDescribeSignalingState_def
  fromDescribeMediaStorageConfState_def fromCreateSignalingState_def fromGetEndpointSignalingState_def
  fromGetIceConfigSignalingState_def fromReadySignalingState_def fromConnectSignalingState_def fromConnectedSignalingState_def
  fromJoinStorageSessionState_def fromJoinStorageSessionWaitingState_def fromJoinStorageSessionConnectedState_def
  fromDisconnectedSignalingState_def fromDeleteSignalingState_def fromDeletedSignalingState_def

text \<open>The table as a map from states to the states they accept.\<close>

definition signaling_masks :: "u64 \<Rightarrow> u64 option" where
  "signaling_masks = map_of (zip
    [0x1, 0x2, 0x4, 0x1000, 0x8, 0x10, 0x20, 0x40, 0x80, 0x100, 0x200, 0x400, 0x800, 0x2000, 0x4000, 0x8000]
    [0x1, 0xF5FF, 0xA7FE, 0x1004, 0x100C, 0xB1DE, 0xB1F4, 0x260, 0x23C0, 0x2180, 0xE180, 0x37FE, 0xC00, 0xC100, 0x2000, 0xC000])"

lemma table_ids: "map sms_state (SIGNALING_STATE_MACHINE_STATES calls) =
    [0x1, 0x2, 0x4, 0x1000, 0x8, 0x10, 0x20, 0x40, 0x80, 0x100, 0x200, 0x400, 0x800, 0x2000, 0x4000, 0x8000]"
  by (simp add: SIGNALING_STATE_MACHINE_STATES_def)

lemma table_masks: "map sms_acceptStates (SIGNALING_STATE_MACHINE_STATES calls) =
    [0x1, 0xF5FF, 0xA7FE, 0x1004, 0x100C, 0xB1DE, 0xB1F4, 0x260, 0x23C0, 0x2180, 0xE180, 0x37FE, 0xC00, 0xC100, 0x2000, 0xC000]"
  by (simp add: SIGNALING_STATE_MACHINE_STATES_def)

lemma find_mask: "map_option sms_acceptStates (find (\<lambda>t. sms_state t = i) ts) =
    map_of (zip (map sms_state ts) (map sms_acceptStates ts)) i"
  by (induction ts) auto

lemma masks_found: "map_option sms_acceptStates (find (\<lambda>t. sms_state t = i) (SIGNALING_STATE_MACHINE_STATES calls)) = signaling_masks i"
  by (simp only: find_mask table_ids table_masks signaling_masks_def)

lemma mask_values:
  "signaling_masks 1 = Some 0x1"
  "signaling_masks 2 = Some 0xF5FF"
  "signaling_masks 4 = Some 0xA7FE"
  "signaling_masks 4096 = Some 0x1004"
  "signaling_masks 8 = Some 0x100C"
  "signaling_masks 16 = Some 0xB1DE"
  "signaling_masks 32 = Some 0xB1F4"
  "signaling_masks 64 = Some 0x260"
  "signaling_masks 128 = Some 0x23C0"
  "signaling_masks 256 = Some 0x2180"
  "signaling_masks 512 = Some 0xE180"
  "signaling_masks 1024 = Some 0x37FE"
  "signaling_masks 2048 = Some 0xC00"
  "signaling_masks 8192 = Some 0xC100"
  "signaling_masks 16384 = Some 0x2000"
  "signaling_masks 32768 = Some 0xC000"
  by (simp_all add: signaling_masks_def)

definition asks_accepting :: "'w SignalingClient StateMachineState \<Rightarrow> 'w SignalingClient \<Rightarrow> bool" where
  "asks_accepting s c = (case sms_getNextStateFn s of
     None \<Rightarrow> False
   | Some f \<Rightarrow> fst (f c) = STATUS_SUCCESS \<and> (case signaling_masks (fst (snd (f c))) of
       None \<Rightarrow> False
     | Some msk \<Rightarrow> (msk AND sms_state s = sms_state s) \<longleftrightarrow> signaling_legal s c))"

lemmas row_defs = asks_accepting_def from_defs force_refresh_def mask_values signaling_legal_def Let_def

lemma rows_ask: "list_all (\<lambda>s. asks_accepting s c) (SIGNALING_STATE_MACHINE_STATES calls)"
  unfolding SIGNALING_STATE_MACHINE_STATES_def list.pred_inject
  by (intro conjI TrueI) (simp_all add: row_defs split: list.split option.split)

lemma asks_accepting_find:
  assumes "asks_accepting s c"
  shows "\<exists>f i c1. sms_getNextStateFn s = Some f \<and> f c = (STATUS_SUCCESS, i, c1) \<and>
    (\<exists>t. find (\<lambda>t. sms_state t = i) (SIGNALING_STATE_MACHINE_STATES calls) = Some t \<and> (accepts t s \<longleftrightarrow> signaling_legal s c))"
proof -
  obtain f msk where f: "sms_getNextStateFn s = Some f" "fst (f c) = STATUS_SUCCESS" "signaling_masks (fst (snd (f c))) = Some msk"
      "(msk AND sms_state s = sms_state s) \<longleftrightarrow> signaling_legal s c"
    using assms by (auto simp: asks_accepting_def split: option.splits)
  moreover obtain t where "find (\<lambda>t. sms_state t = fst (snd (f c))) (SIGNALING_STATE_MACHINE_STATES calls) = Some t"
      "sms_acceptStates t = msk"
    using masks_found[of "fst (snd (f c))" calls] f(3) by auto
  ultimately show ?thesis
    by (intro exI[of _ f] exI[of _ "fst (snd (f c))"] exI[of _ "snd (snd (f c))"]) (auto simp: accepts_def prod_eq_iff)
qed

lemma hook_success: "fst (defaultSignalingStateTransitionHook calls c) = STATUS_SUCCESS"
  by (simp add: defaultSignalingStateTransitionHook_def Let_def split: option.split prod.split)

lemma table_hooks: "list_all (\<lambda>s. sms_stateTransitionHookFunc s = Some (defaultSignalingStateTransitionHook calls) \<and>
    sms_status s \<noteq> STATUS_SUCCESS) (SIGNALING_STATE_MACHINE_STATES calls)"
  by (simp add: SIGNALING_STATE_MACHINE_STATES_def)

interpretation sig: transition_table "SIGNALING_STATE_MACHINE_STATES calls" signaling_legal for calls
proof
  fix s c
  assume s: "s \<in> set (SIGNALING_STATE_MACHINE_STATES calls)"
  show "sms_status s \<noteq> STATUS_SUCCESS" using s table_hooks[of calls] by (simp add: list_all_iff)
  show "fst (transition_hook s c) = STATUS_SUCCESS"
    using s table_hooks[of calls] hook_success by (simp add: list_all_iff transition_hook_def)
  show "\<exists>f i c1. sms_getNextStateFn s = Some f \<and> f c = (STATUS_SUCCESS, i, c1) \<and>
    (\<exists>t. find (\<lambda>t. sms_state t = i) (SIGNALING_STATE_MACHINE_STATES calls) = Some t \<and> (accepts t s \<longleftrightarrow> signaling_legal s c))"
    using s rows_ask[of c calls] by (intro asks_accepting_find) (simp add: list_all_iff)
next
  show "length (SIGNALING_STATE_MACHINE_STATES calls) < 2 ^ 32" by (simp add: SIGNALING_STATE_MACHINE_STATES_def)
qed

section \<open>Time passes\<close>

definition clock_of :: "'w SignalingCalls \<Rightarrow> 'w SignalingClient \<Rightarrow> u64" where
  "clock_of calls c = fst (call_getCurrentTime calls c)"

text \<open>
  What the code relies on of its surroundings: the clock is outside of the client, no call turns it back,
  it is later after each reading (until its last value), and the wait for an offer ends.
\<close>

definition forward :: "'w SignalingCalls \<Rightarrow> ('w SignalingClient \<Rightarrow> 'a \<times> 'w SignalingClient) \<Rightarrow> bool" where
  "forward calls f \<longleftrightarrow> (\<forall>c. clock_of calls c \<le> clock_of calls (snd (f c)))"

definition calls_forward :: "'w SignalingCalls \<Rightarrow> bool" where
  "calls_forward calls \<longleftrightarrow>
     forward calls (call_getCurrentTime calls) \<and>
     (\<forall>t. forward calls (\<lambda>c. ((), call_sleepUntil calls t c))) \<and>
     (\<forall>st. forward calls (notify_state calls st)) \<and>
     (case call_executeRetryStrategyFn calls of None \<Rightarrow> True | Some f \<Rightarrow> forward calls f) \<and>
     forward calls (call_getCredentialsFn calls) \<and>
     (\<forall>f \<in> {call_describeChannel calls, call_describeMediaStorageConf calls, call_createChannel calls,
        call_getChannelEndpoint calls, call_getIceConfig calls, call_connectSignalingChannel calls,
        call_joinStorageSession calls, call_deleteChannel calls}. \<forall>t. forward calls (\<lambda>c. f c t))"

definition time_flows :: "'w SignalingCalls \<Rightarrow> bool" where
  "time_flows calls \<longleftrightarrow> calls_forward calls \<and>
     (\<forall>c c'. sc_world c = sc_world c' \<longrightarrow> clock_of calls c = clock_of calls c') \<and>
     (\<forall>c. clock_of calls c < - 1 \<longrightarrow> clock_of calls c < clock_of calls (snd (call_getCurrentTime calls c))) \<and>
     (\<forall>c. \<exists>r c'. wait_for_offer calls c = Some (r, c') \<and> clock_of calls c \<le> clock_of calls c')"

lemma clock_updates:
  assumes "time_flows calls"
  shows "clock_of calls (c\<lparr>sc_result := r\<rparr>) = clock_of calls c"
    "clock_of calls (c\<lparr>sc_clientReady := b\<rparr>) = clock_of calls c"
    "clock_of calls (c\<lparr>sc_refreshIceConfig := b\<rparr>) = clock_of calls c"
    "clock_of calls (c\<lparr>sc_offerReceived := b\<rparr>) = clock_of calls c"
    "clock_of calls (c\<lparr>sc_channelArn := a\<rparr>) = clock_of calls c"
    "clock_of calls (c\<lparr>sc_describeTime := t\<rparr>) = clock_of calls c"
    "clock_of calls (c\<lparr>sc_describeMediaTime := t\<rparr>) = clock_of calls c"
    "clock_of calls (c\<lparr>sc_getEndpointTime := t\<rparr>) = clock_of calls c"
    "clock_of calls (c\<lparr>sc_stateMachineRetryCount := k\<rparr>) = clock_of calls c"
proof -
  have W: "clock_of calls c = clock_of calls c'" if "sc_world c = sc_world c'" for c c'
    using assms that unfolding time_flows_def by blast
  show "clock_of calls (c\<lparr>sc_result := r\<rparr>) = clock_of calls c"
    "clock_of calls (c\<lparr>sc_clientReady := b\<rparr>) = clock_of calls c"
    "clock_of calls (c\<lparr>sc_refreshIceConfig := b\<rparr>) = clock_of calls c"
    "clock_of calls (c\<lparr>sc_offerReceived := b\<rparr>) = clock_of calls c"
    "clock_of calls (c\<lparr>sc_channelArn := a\<rparr>) = clock_of calls c"
    "clock_of calls (c\<lparr>sc_describeTime := t\<rparr>) = clock_of calls c"
    "clock_of calls (c\<lparr>sc_describeMediaTime := t\<rparr>) = clock_of calls c"
    "clock_of calls (c\<lparr>sc_getEndpointTime := t\<rparr>) = clock_of calls c"
    "clock_of calls (c\<lparr>sc_stateMachineRetryCount := k\<rparr>) = clock_of calls c" by (rule W, simp)+
qed

lemma forward_facts:
  assumes "time_flows calls"
  shows "clock_of calls c \<le> clock_of calls (snd (call_getCurrentTime calls c))"
    "clock_of calls c \<le> clock_of calls (call_sleepUntil calls t c)"
    "clock_of calls c \<le> clock_of calls (snd (notify_state calls st c))"
    "clock_of calls c \<le> clock_of calls (snd (call_getCredentialsFn calls c))"
    "clock_of calls c \<le> clock_of calls (snd (call_describeChannel calls c t))"
    "clock_of calls c \<le> clock_of calls (snd (call_describeMediaStorageConf calls c t))"
    "clock_of calls c \<le> clock_of calls (snd (call_createChannel calls c t))"
    "clock_of calls c \<le> clock_of calls (snd (call_getChannelEndpoint calls c t))"
    "clock_of calls c \<le> clock_of calls (snd (call_getIceConfig calls c t))"
    "clock_of calls c \<le> clock_of calls (snd (call_connectSignalingChannel calls c t))"
    "clock_of calls c \<le> clock_of calls (snd (call_joinStorageSession calls c t))"
    "clock_of calls c \<le> clock_of calls (snd (call_deleteChannel calls c t))"
  using conjunct1[OF assms[unfolded time_flows_def]] by (simp_all add: calls_forward_def forward_def)

lemma clock_ticks: "time_flows calls \<Longrightarrow> clock_of calls c < - 1 \<Longrightarrow> clock_of calls c < clock_of calls (snd (call_getCurrentTime calls c))"
  unfolding time_flows_def by blast

lemma and_then_forward:
  assumes "x \<le> clock_of calls (snd r)" and "\<And>c. clock_of calls c \<le> clock_of calls (snd (f c))"
  shows "x \<le> clock_of calls (snd (and_then r f))"
  using order_trans[OF assms(1) assms(2)] assms(1) by (simp add: and_then_def)

text \<open>Every state's work ends, and does not turn the clock back.\<close>

definition work_ends :: "'w SignalingCalls \<Rightarrow> 'w SignalingClient \<Rightarrow> (STATUS \<times> 'w SignalingClient) option \<Rightarrow> bool" where
  "work_ends calls c r \<longleftrightarrow> (\<exists>st c'. r = Some (st, c') \<and> clock_of calls c \<le> clock_of calls c')"

lemma work_endsI: "clock_of calls c \<le> clock_of calls (snd r) \<Longrightarrow> work_ends calls c (Some r)"
  by (cases r) (simp add: work_ends_def)

lemma notify_update:
  assumes "time_flows calls"
  shows "clock_of calls c' = x \<Longrightarrow> x \<le> clock_of calls (snd (notify_state calls st c'))"
  using forward_facts(3)[OF assms, of c' st] by simp

lemmas clock_facts = clock_updates forward_facts

lemma token_forward:
  assumes T: "time_flows calls"
  shows "work_ends calls c (executeGetTokenSignalingState calls c t)"
  unfolding executeGetTokenSignalingState_def
proof (intro work_endsI and_then_forward)
  show "clock_of calls c \<le> clock_of calls (snd (notify_state calls SIGNALING_CLIENT_STATE_GET_CREDENTIALS
      (c\<lparr>sc_result := SERVICE_CALL_RESULT_NOT_SET, sc_clientReady := False\<rparr>)))"
    by (rule notify_update[OF T]) (simp add: clock_updates[OF T])
next
  fix c
  obtain r c1 where c1: "call_getCredentialsFn calls (call_sleepUntil calls t c) = (r, c1)"
    by (cases "call_getCredentialsFn calls (call_sleepUntil calls t c)")
  obtain n c2 where c2: "call_getCurrentTime calls c1 = (n, c2)" by (cases "call_getCurrentTime calls c1")
  have "clock_of calls c \<le> clock_of calls c1"
    using forward_facts(2)[OF T, of c t] forward_facts(4)[OF T, of "call_sleepUntil calls t c"] c1 by simp
  moreover have "clock_of calls c1 \<le> clock_of calls c2" using forward_facts(1)[OF T, of c1] c2 by simp
  ultimately show "clock_of calls c \<le> clock_of calls (snd (let (retStatus, c) = call_getCredentialsFn calls (call_sleepUntil calls t c);
      (serviceCallResult, c) = case sc_credentialsExpiration c of None \<Rightarrow> (SERVICE_CALL_NOT_AUTHORIZED, c)
        | Some expiration \<Rightarrow> let (now, c) = call_getCurrentTime calls c in
            (if expiration \<le> now then SERVICE_CALL_NOT_AUTHORIZED else SERVICE_CALL_RESULT_OK, c) in
      (retStatus, c\<lparr>sc_result := serviceCallResult\<rparr>)))"
    using c1 c2 by (cases "sc_credentialsExpiration c1") (auto simp: clock_updates[OF T])
qed

lemma waiting_forward:
  assumes T: "time_flows calls"
  shows "work_ends calls c (executeJoinStorageSessionWaitingState calls c t)"
proof -
  obtain r c1 where c1: "notify_state calls SIGNALING_CLIENT_STATE_JOIN_SESSION_WAITING c = (r, c1)"
    by (cases "notify_state calls SIGNALING_CLIENT_STATE_JOIN_SESSION_WAITING c")
  have 1: "clock_of calls c \<le> clock_of calls c1"
    using forward_facts(3)[OF T, of c SIGNALING_CLIENT_STATE_JOIN_SESSION_WAITING] c1 by simp
  obtain r2 c2 where 2: "wait_for_offer calls c1 = Some (r2, c2)" "clock_of calls c1 \<le> clock_of calls c2"
    using T unfolding time_flows_def by blast
  show ?thesis using 1 2 c1 by (auto simp: executeJoinStorageSessionWaitingState_def work_ends_def clock_updates[OF T])
qed

lemma join_forward:
  assumes T: "time_flows calls"
  shows "work_ends calls c (executeJoinStorageSessionState calls c t)"
proof -
  have "clock_of calls d \<le> clock_of calls (snd (call_joinStorageSession calls (d\<lparr>sc_offerReceived := False\<rparr>) t))" for d
    using forward_facts(11)[OF T, of "d\<lparr>sc_offerReceived := False\<rparr>" t] by (simp add: clock_updates[OF T])
  then show ?thesis unfolding executeJoinStorageSessionState_def
    by (intro work_endsI and_then_forward) (simp_all add: forward_facts[OF T])
qed

lemma rows_work:
  assumes T: "time_flows calls"
  shows "list_all (\<lambda>s. work_ends calls c (execute_state s t c)) (SIGNALING_STATE_MACHINE_STATES calls)"
  unfolding SIGNALING_STATE_MACHINE_STATES_def list.pred_inject execute_state_def StateMachineState.select_convs option.case
  using token_forward[OF T] waiting_forward[OF T] join_forward[OF T]
  by (intro conjI TrueI)
    (simp_all add: executeNewSignalingState_def executeDescribeSignalingState_def executeDescribeMediaStorageConfState_def
      executeCreateSignalingState_def executeGetEndpointSignalingState_def executeGetIceConfigSignalingState_def
      executeReadySignalingState_def executeConnectSignalingState_def executeConnectedSignalingState_def
      executeJoinStorageSessionConnectedState_def executeDisconnectedSignalingState_def
      executeDeleteSignalingState_def executeDeletedSignalingState_def work_endsI and_then_forward notify_update[OF T] clock_facts[OF T])

lemma rows_ask_forward:
  assumes T: "time_flows calls"
  shows "list_all (\<lambda>s. case sms_getNextStateFn s of None \<Rightarrow> True | Some f \<Rightarrow> clock_of calls (snd (snd (f c))) = clock_of calls c)
    (SIGNALING_STATE_MACHINE_STATES calls)"
  unfolding SIGNALING_STATE_MACHINE_STATES_def list.pred_inject
  by (intro conjI TrueI)
    (simp_all add: from_defs force_refresh_def Let_def clock_updates[OF T] split: list.split option.split)

lemma hook_forward:
  assumes T: "time_flows calls"
  shows "clock_of calls c \<le> clock_of calls (snd (snd (defaultSignalingStateTransitionHook calls c)))"
proof (cases "call_executeRetryStrategyFn calls")
  case None
  then show ?thesis by (simp add: defaultSignalingStateTransitionHook_def)
next
  case (Some f)
  then have F: "clock_of calls d \<le> clock_of calls (snd (f d))" for d
    using conjunct1[OF T[unfolded time_flows_def]] by (simp add: calls_forward_def forward_def)
  define d where "d = (case call_getCurrentRetryAttemptNumberFn calls of None \<Rightarrow> c
      | Some g \<Rightarrow> c\<lparr>sc_stateMachineRetryCount := snd (g c)\<rparr>)"
  have d: "clock_of calls d = clock_of calls c" by (simp add: d_def clock_updates[OF T] split: option.split)
  have "snd (snd (defaultSignalingStateTransitionHook calls c)) = (if sc_result c > SERVICE_CALL_RESULT_OK then snd (f d) else c)"
    using Some by (simp add: defaultSignalingStateTransitionHook_def d_def Let_def split: prod.split)
  then show ?thesis using F[of d] d by simp
qed

lemma step_forward:
  assumes T: "time_flows calls" and m: "machine_reachable (SIGNALING_STATE_MACHINE_STATES calls) m"
  obtains st m' c' where "stepStateMachine (Some m) c = Some (st, Some m', c')"
    "machine_reachable (SIGNALING_STATE_MACHINE_STATES calls) m'" "clock_of calls c \<le> clock_of calls c'"
proof -
  let ?s = "sm_pCurrentState m"
  note cur = sig.reachable_current[OF m]
  obtain f i c1 t where f: "sms_getNextStateFn ?s = Some f" "f c = (STATUS_SUCCESS, i, c1)"
      "find (\<lambda>t. sms_state t = i) (SIGNALING_STATE_MACHINE_STATES calls) = Some t"
    using sig.asks[of ?s calls c] cur by auto
  then have t: "t \<in> set (SIGNALING_STATE_MACHINE_STATES calls)" by (auto simp: find_Some_iff)
  have c1: "clock_of calls c1 = clock_of calls c" using rows_ask_forward[OF T, of c] cur f(1,2) by (auto simp: list_all_iff)
  obtain w c2 where h: "transition_hook ?s c1 = (STATUS_SUCCESS, w, c2)"
    using sig.hook_succeeds[of ?s calls c1] cur by (cases "transition_hook ?s c1") auto
  then have "snd (snd (defaultSignalingStateTransitionHook calls c1)) = c2"
    using table_hooks[of calls] cur by (simp add: transition_hook_def list_all_iff)
  then have c2: "clock_of calls c \<le> clock_of calls c2" using hook_forward[OF T, of c1] c1 by auto
  let ?e = "enter_state m t (sm_getCurrentTimeFunc m c1) w c2"
  have "stepStateMachine (Some m) c = (if \<not> accepts t ?s then Some (STATUS_INVALID_STREAM_STATE, Some m, c1)
      else map_option (\<lambda>(st, m', c3). (st, Some m', c3)) ?e)"
    using f h cur by (simp add: stepStateMachine_def getStateMachineState_def accept_failure Let_def)
  moreover have "\<exists>st m' c'. ?e = Some (st, m', c') \<and> clock_of calls c \<le> clock_of calls c'"
  proof -
    obtain st c3 where w: "execute_state t (sm_getCurrentTimeFunc m c1 + w) c2 = Some (st, c3)" "clock_of calls c2 \<le> clock_of calls c3"
      using rows_work[OF T, of c2 "sm_getCurrentTimeFunc m c1 + w"] t by (auto simp: list_all_iff work_ends_def)
    then show ?thesis using c2 by (auto simp: enter_state_def Let_def)
  qed
  ultimately obtain st m' c' where "stepStateMachine (Some m) c = Some (st, Some m', c')" "clock_of calls c \<le> clock_of calls c'"
    using c1 by (cases "accepts t ?s") auto
  then show thesis using that machine_reachable.step[OF m] by blast
qed

text \<open>How a call of the iterator may end.\<close>

definition iterator_outcome :: "'w SignalingCalls \<Rightarrow> u64 \<Rightarrow> STATUS \<Rightarrow> 'w SignalingClient StateMachineImpl \<Rightarrow> 'w SignalingClient \<Rightarrow> bool" where
  "iterator_outcome calls finalState st m c \<longleftrightarrow> machine_reachable (SIGNALING_STATE_MACHINE_STATES calls) m \<and>
     (if st = STATUS_SUCCESS then sms_state (sm_pCurrentState m) = finalState \<or> sc_shutdown c
      else sc_shutdown c \<or> \<not> sc_retry c \<or> st = STATUS_OPERATION_TIMED_OUT \<or> st \<in> sms_status ` set (SIGNALING_STATE_MACHINE_STATES calls))"

lemma iterate_machine_ends:
  assumes T: "time_flows calls" and x: "x \<noteq> 0" "x < - 1"
    and "machine_reachable (SIGNALING_STATE_MACHINE_STATES calls) m"
  shows "\<exists>st m' c'. iterate_machine calls x finalState r m c = Some (st, m', c') \<and> iterator_outcome calls finalState st m' c'"
  using assms(4)
proof (induction "unat x + 1 - unat (clock_of calls c)" arbitrary: r m c rule: less_induct)
  case less
  let ?it = "iterate_machine calls x finalState r m c"
  obtain now c1 where n: "call_getCurrentTime calls c = (now, c1)" by (cases "call_getCurrentTime calls c")
  then have now: "now = clock_of calls c" by (simp add: clock_of_def)
  consider "sc_shutdown c" | "\<not> sc_shutdown c" "r \<noteq> STATUS_SUCCESS" "\<not> sc_retry c \<or> r \<in> sms_status ` set (SIGNALING_STATE_MACHINE_STATES calls)"
    | "\<not> sc_shutdown c" "r = STATUS_SUCCESS \<or> sc_retry c \<and> r \<notin> sms_status ` set (SIGNALING_STATE_MACHINE_STATES calls)"
    by blast
  then show ?case
  proof cases
    case 1
    then show ?thesis using less(2) by (subst iterate_machine.simps) (simp add: iterator_outcome_def)
  next
    case 2
    then show ?thesis using less(2) by (subst iterate_machine.simps) (auto simp: iterator_outcome_def list_ex_iff image_iff)
  next
    case 3
    define c2 where "c2 = (if r = STATUS_SERVICE_CALL_NOT_AUTHORIZED_ERROR \<or>
        (case sc_credentialsExpiration c1 of None \<Rightarrow> False | Some e \<Rightarrow> e < now) then c1\<lparr>sc_result := SERVICE_CALL_NOT_AUTHORIZED\<rparr> else c1)"
    obtain st m' c' where S: "stepStateMachine (Some m) c2 = Some (st, Some m', c')"
        "machine_reachable (SIGNALING_STATE_MACHINE_STATES calls) m'" "clock_of calls c2 \<le> clock_of calls c'"
      using step_forward[OF T less(2), of c2] by metis
    have g: "\<not> (r \<noteq> STATUS_SUCCESS \<and> \<not> sc_retry c)"
        "\<not> (r \<noteq> STATUS_SUCCESS \<and> list_ex (\<lambda>s. sms_status s = r) (SIGNALING_STATE_MACHINE_STATES calls))"
      using 3(2) by (auto simp: list_ex_iff)
    have it: "?it = (if x < now then Some (STATUS_OPERATION_TIMED_OUT, m, c1)
        else if sms_state (sm_pCurrentState m') = finalState then Some (STATUS_SUCCESS, m', c')
        else iterate_machine calls x finalState st m' c')"
      unfolding iterate_machine.simps[of calls x finalState r m c] if_not_P[OF 3(1)] if_not_P[OF g(1)] if_not_P[OF g(2)]
      using x(1) S(1) by (simp add: n c2_def[symmetric] Let_def not_le)
    show ?thesis
    proof (cases "x < now")
      case True
      then show ?thesis using it less(2) by (simp add: iterator_outcome_def)
    next
      case False
      then have "clock_of calls c < clock_of calls c1" using clock_ticks[OF T, of c] n x(2) now by simp
      moreover have "clock_of calls c1 = clock_of calls c2" by (simp add: c2_def clock_updates[OF T])
      ultimately have "unat (clock_of calls c) < unat (clock_of calls c')" "unat (clock_of calls c) \<le> unat x"
        using S(3) False now by (simp_all add: word_le_nat_alt word_less_nat_alt)
      then have "unat x + 1 - unat (clock_of calls c') < unat x + 1 - unat (clock_of calls c)" by linarith
      then show ?thesis using less(1)[of c' m' st] S(2) it False by (auto simp: iterator_outcome_def)
    qed
  qed
qed

section \<open>A client at work\<close>

text \<open>Calls that succeed at once, on a clock that advances by one with each reading, for the witnesses.\<close>

definition succeeding :: "u64 service_call" where
  "succeeding c t = (STATUS_SUCCESS, c\<lparr>sc_result := SERVICE_CALL_RESULT_OK\<rparr>)"

definition ideal_calls :: "u64 SignalingCalls" where
  "ideal_calls = \<lparr>
     call_getCurrentTime = (\<lambda>c. (sc_world c, c\<lparr>sc_world := (if sc_world c = - 1 then - 1 else sc_world c + 1)\<rparr>)),
     call_sleepUntil = (\<lambda>t c. c), call_stateChangeFn = None, call_getCurrentRetryAttemptNumberFn = None,
     call_executeRetryStrategyFn = None,
     call_getCredentialsFn = (\<lambda>c. (STATUS_SUCCESS, c\<lparr>sc_credentialsExpiration := Some (- 1)\<rparr>)),
     call_describeChannel = succeeding, call_describeMediaStorageConf = succeeding, call_createChannel = succeeding,
     call_getChannelEndpoint = succeeding, call_getIceConfig = succeeding, call_connectSignalingChannel = succeeding,
     call_joinStorageSession = succeeding, call_deleteChannel = succeeding,
     call_cvarWait = (\<lambda>c. (STATUS_OPERATION_TIMED_OUT, c))\<rparr>"

definition fresh_client :: "u64 SignalingClient" where
  "fresh_client = \<lparr>sc_result = 0, sc_clientReady = False, sc_shutdown = False, sc_connected = False, sc_deleting = False,
     sc_refreshIceConfig = False, sc_offerReceived = False, sc_retry = True, sc_pChannelArn = None, sc_useMediaStorage = False,
     sc_storageStatus = False, sc_channelArn = [], sc_describeTime = 0, sc_describeMediaTime = 0, sc_getEndpointTime = 0,
     sc_credentialsExpiration = None, sc_stateMachineRetryCount = 0, sc_world = 5\<rparr>"

definition fresh_machine :: "u64 SignalingClient StateMachineImpl" where
  "fresh_machine = \<lparr>sm_getCurrentTimeFunc = sc_world, sm_pCurrentState = SIGNALING_STATE_MACHINE_STATES ideal_calls ! 0,
     sm_localStateRetryCount = 0, sm_stateTransitionWaitTime = 0, sm_stateMachineName = [],
     sm_states = SIGNALING_STATE_MACHINE_STATES ideal_calls\<rparr>"

lemma length_table [simp]: "length (SIGNALING_STATE_MACHINE_STATES calls) = 16"
  by (simp add: SIGNALING_STATE_MACHINE_STATES_def)

lemma fresh_reachable: "machine_reachable (SIGNALING_STATE_MACHINE_STATES ideal_calls) fresh_machine"
  by (rule machine_reachable.create[of "\<lambda>_. True" _ sc_world]) (simp add: createStateMachine_def fresh_machine_def)

lemma word_up: "(w :: u64) \<noteq> - 1 \<Longrightarrow> w < w + 1"
  using inc_less_eq_self_iff_eq[of w] by (simp add: not_le[symmetric])

lemma ideal_clock: "clock_of ideal_calls c = sc_world c"
  by (simp add: clock_of_def ideal_calls_def)

lemma ideal_time_flows: "time_flows ideal_calls"
  unfolding time_flows_def
proof (intro conjI allI impI)
  show "calls_forward ideal_calls"
    by (simp add: calls_forward_def forward_def ideal_clock)
       (simp add: ideal_calls_def succeeding_def notify_state_def word_up less_imp_le)
next
  fix c :: "u64 SignalingClient"
  show "clock_of ideal_calls c < clock_of ideal_calls (snd (call_getCurrentTime ideal_calls c))" if "clock_of ideal_calls c < - 1"
    using that by (simp add: ideal_clock) (auto simp: ideal_calls_def word_up)
  have "wait_for_offer ideal_calls c = Some (if sc_offerReceived c then STATUS_SUCCESS else STATUS_OPERATION_TIMED_OUT, c)"
    by (subst wait_for_offer.simps) (simp add: ideal_calls_def)
  then show "\<exists>r c'. wait_for_offer ideal_calls c = Some (r, c') \<and> clock_of ideal_calls c \<le> clock_of ideal_calls c'" by auto
qed (simp add: ideal_clock)

section \<open>Properties\<close>

text \<open>
  C25. In every state of the signaling client and for every client data, the requested state is one of the
  table. It accepts the current state, so that a step that returns enters it or gives the error of a state that was tried
  too often, except in two situations: in the disconnected state when the client is not authorised or the ICE servers
  are to be fetched again, and in a joined storage session when storage has been turned off. There the step is refused.
\<close>

theorem signaling_transitions:
  assumes "machine_reachable (SIGNALING_STATE_MACHINE_STATES calls) m"
    and "stepStateMachine (Some m) c = Some (st, Some m', c')"
  shows "if signaling_legal (sm_pCurrentState m) c
    then entered m m' \<or> sm_pCurrentState m' = sm_pCurrentState m \<and> (\<exists>t \<in> set (SIGNALING_STATE_MACHINE_STATES calls).
      st = sms_status t \<and> sms_maxLocalStateRetryCount t \<noteq> 0 \<and> sms_maxLocalStateRetryCount t < sm_localStateRetryCount m')
    else st = STATUS_INVALID_STREAM_STATE \<and> m' = m"
  using sig.legal_step_enters[OF assms(1) _ assms(2)] sig.illegal_step_refused[OF assms(1), of c] assms(2) by auto

theorem signaling_transitions_witness:
  "\<exists>m' c'. stepStateMachine (Some fresh_machine) fresh_client = Some (STATUS_SUCCESS, Some m', c') \<and> entered fresh_machine m'"
proof -
  have "\<exists>m' c'. stepStateMachine (Some fresh_machine) fresh_client = Some (STATUS_SUCCESS, Some m', c')"
    by (simp add: fresh_machine_def fresh_client_def SIGNALING_STATE_MACHINE_STATES_def stepStateMachine_def getStateMachineState_def
        acceptStateMachineState_def fromNewSignalingState_def transition_hook_def defaultSignalingStateTransitionHook_def
        enter_state_def next_retry_count_def execute_state_def executeGetTokenSignalingState_def notify_state_def and_then_def
        ideal_calls_def)
  then obtain m' c' where S: "stepStateMachine (Some fresh_machine) fresh_client = Some (STATUS_SUCCESS, Some m', c')" by blast
  have "signaling_legal (sm_pCurrentState fresh_machine) fresh_client"
    by (simp add: fresh_machine_def signaling_legal_def SIGNALING_STATE_MACHINE_STATES_def)
  then show ?thesis using signaling_transitions[OF fresh_reachable S] sig.status_failed[of _ ideal_calls] S by fastforce
qed



text \<open>
  C27. A client that is not authorised in the disconnected state never leaves it by stepping: it asks for new
  credentials, and the state that would get them does not accept a disconnected client.
\<close>

theorem disconnected_stuck:
  assumes "machine_reachable (SIGNALING_STATE_MACHINE_STATES calls) m"
    and "sms_state (sm_pCurrentState m) = SIGNALING_STATE_DISCONNECTED"
    and "sc_result c \<in> {SERVICE_CALL_FORBIDDEN, SERVICE_CALL_NOT_AUTHORIZED}" and "\<not> sc_refreshIceConfig c"
  shows "repeat_step n m c = Some (replicate n STATUS_INVALID_STREAM_STATE, m, c)"
proof -
  let ?s = "sm_pCurrentState m"
  have "?s \<in> set (SIGNALING_STATE_MACHINE_STATES calls)" using sig.reachable_current[OF assms(1)] by simp
  then have f: "sms_getNextStateFn ?s = Some fromDisconnectedSignalingState"
    using assms(2) by (auto simp: SIGNALING_STATE_MACHINE_STATES_def)
  have "fromDisconnectedSignalingState c = (STATUS_SUCCESS, SIGNALING_STATE_GET_TOKEN, c)"
    using assms(3,4) by (auto simp: fromDisconnectedSignalingState_def force_refresh_def)
  then have "stepStateMachine (Some m) c = Some (STATUS_INVALID_STREAM_STATE, Some m, c)"
    using sig.illegal_step_refused[OF assms(1), of c] f assms(2,3) by (auto simp: signaling_legal_def)
  then show ?thesis by (induction n) (auto simp: replicate_append_same)
qed

theorem disconnected_stuck_witness:
  "repeat_step 3 (fresh_machine\<lparr>sm_pCurrentState := SIGNALING_STATE_MACHINE_STATES ideal_calls ! 10\<rparr>) (fresh_client\<lparr>sc_result := 401\<rparr>) =
    Some (replicate 3 STATUS_INVALID_STREAM_STATE,
      fresh_machine\<lparr>sm_pCurrentState := SIGNALING_STATE_MACHINE_STATES ideal_calls ! 10\<rparr>, fresh_client\<lparr>sc_result := 401\<rparr>)"
proof (rule disconnected_stuck)
  show "machine_reachable (SIGNALING_STATE_MACHINE_STATES ideal_calls)
      (fresh_machine\<lparr>sm_pCurrentState := SIGNALING_STATE_MACHINE_STATES ideal_calls ! 10\<rparr>)"
    by (rule machine_reachable.set[OF fresh_reachable, of SIGNALING_STATE_DISCONNECTED STATUS_SUCCESS])
       (simp add: setStateMachineCurrentState_def getStateMachineState_def fresh_machine_def SIGNALING_STATE_MACHINE_STATES_def)
qed (simp_all add: fresh_client_def SIGNALING_STATE_MACHINE_STATES_def)

end
