(* ===== verification/Retransmitter.thy ===== *)
theory Retransmitter
  imports RtpRollingBuffer RtcpPacket
begin

text \<open>
  \<^verbatim>\<open>src/source/PeerConnection/Retransmitter.c\<close>, with \<open>findTransceiverBySsrc\<close> and \<open>writeRtpPacket\<close> of
  \<^verbatim>\<open>Rtp.c\<close>: answering a NACK from the buffer of sent packets.

  What the handler calls outside these files are operations on an environment \<open>'e\<close>: sending
  through the ICE agent, SRTP protection (a library), the packet capture, the book-keeping of
  transport-wide feedback and the clock. The transceivers of the connection are the list that
  the linked list holds, a transceiver is named by its position.
\<close>

section \<open>Data\<close>

record Retransmitter =
  sequenceNumberList :: "u16 list"
  seqNumListLen :: u32
  validIndexListLen :: u32
  validIndexList :: "u64 list"

record KvsRtpTransceiver =
  sender_payloadType :: byte
  sender_rtxPayloadType :: byte
  sender_rtxSequenceNumber :: u16
  sender_ssrc :: u32
  sender_rtxSsrc :: u32
  jitterBufferSsrc :: u32
  packetBuffer :: "RtpRollingBuffer option"
  retransmitter :: "Retransmitter option"
  nackCount :: u32
  retransmittedPacketsSent :: u64
  retransmittedBytesSent :: u64

record 'e PeerServices =
  srtpReady :: bool
  encryptRtpPacket :: "bytes \<Rightarrow> 'e \<Rightarrow> STATUS \<times> bytes \<times> 'e"
  iceAgentSendPacket :: "bytes \<Rightarrow> 'e \<Rightarrow> STATUS \<times> 'e"
  pcapDumpWritePacket :: "(bytes \<Rightarrow> 'e \<Rightarrow> 'e) option"
  twccManagerOnPacketSent :: "RtpPacket \<Rightarrow> 'e \<Rightarrow> 'e"
  gettime :: "'e \<Rightarrow> u64"
  rtxMem :: "RtpPacket option"
  rtxMalloc :: "nat \<Rightarrow> bytes option"

section \<open>Operations\<close>

text \<open>\<open>mem\<close> tells whether \<open>MEMALLOC\<close> succeeds; the lists start with whatever is in memory.\<close>

definition createRetransmitter ::
  "(u16 list \<times> u64 list) option \<Rightarrow> u32 \<Rightarrow> u32 \<Rightarrow> STATUS \<times> Retransmitter option" where
  "createRetransmitter mem seqLen validLen =
     (case mem of
        None \<Rightarrow> (STATUS_NOT_ENOUGH_MEMORY, None)
      | Some (seqs, valid) \<Rightarrow>
          (STATUS_SUCCESS, Some \<lparr>sequenceNumberList = seqs, seqNumListLen = seqLen, validIndexListLen = validLen,
                                 validIndexList = valid\<rparr>))"

definition findTransceiverBySsrc :: "KvsRtpTransceiver list \<Rightarrow> u32 \<Rightarrow> STATUS \<times> nat option" where
  "findTransceiverBySsrc ts s =
     (let i = first_index (\<lambda>t. sender_ssrc t = s \<or> sender_rtxSsrc t = s \<or> jitterBufferSsrc t = s) ts in
      if i < length ts then (STATUS_SUCCESS, Some i) else (STATUS_NOT_FOUND, None))"

text \<open>The allocation of the copy is not checked: without memory the copy faults.\<close>

definition writeRtpPacket :: "'e PeerServices \<Rightarrow> bool \<Rightarrow> RtpPacket option \<Rightarrow> 'e \<Rightarrow> (STATUS \<times> 'e) option" where
  "writeRtpPacket pc mem pPacket e =
     (case pPacket of
        None \<Rightarrow> Some (STATUS_NULL_ARG, e)
      | Some p \<Rightarrow>
          (case pRawPacket p of
             None \<Rightarrow> Some (STATUS_NULL_ARG, e)
           | Some raw \<Rightarrow>
               if \<not> srtpReady pc then Some (STATUS_SUCCESS, e)
               else if \<not> mem then None
               else do {
                 d \<leftarrow> memread raw 0 (unat (rawPacketLength p));
                 let e = (case pcapDumpWritePacket pc of None \<Rightarrow> e | Some dump \<Rightarrow> dump d e);
                 let (status, d, e) = encryptRtpPacket pc d e;
                 if status \<noteq> STATUS_SUCCESS then Some (status, e)
                 else Some (iceAgentSendPacket pc d e) }))"

text \<open>What the loop over the found packets changes besides the buffer.\<close>

record 'e Resend =
  rs_rtxSequenceNumber :: u16
  rs_packets :: u32
  rs_bytes :: u32
  rs_env :: 'e

text \<open>
  Sending one packet again, as it is or wrapped into a retransmission packet. A status other
  than success is the failure to build that packet, which ends the handler; a failure to send
  does not.
\<close>

definition transmit ::
  "bool \<Rightarrow> 'e PeerServices \<Rightarrow> KvsRtpTransceiver \<Rightarrow> RtpPacket \<Rightarrow> 'e Resend \<Rightarrow> (STATUS \<times> RtpPacket \<times> 'e Resend) option" where
  "transmit isBig pc t p rs =
     do { raw \<leftarrow> pRawPacket p;
          d \<leftarrow> memread raw 0 (unat (rawPacketLength p));
          (built, sent, rs) \<leftarrow>
            (if sender_payloadType t = sender_rtxPayloadType t then
               let (status, e) = iceAgentSendPacket pc d (rs_env rs) in Some (STATUS_SUCCESS, status, rs\<lparr>rs_env := e\<rparr>)
             else do {
               (status, rtx) \<leftarrow> constructRetransmitRtpPacketFromBytes isBig (rtxMem pc) (rtxMalloc pc) (Some d)
                                  (rs_rtxSequenceNumber rs) (sender_rtxPayloadType t) (sender_rtxSsrc t);
               if status \<noteq> STATUS_SUCCESS then Some (status, status, rs)
               else do {
                 (status, e) \<leftarrow> writeRtpPacket pc True rtx (rs_env rs);
                 Some (STATUS_SUCCESS, status, rs\<lparr>rs_rtxSequenceNumber := rs_rtxSequenceNumber rs + 1, rs_env := e\<rparr>) } });
          if built \<noteq> STATUS_SUCCESS then Some (built, p, rs)
          else if sent \<noteq> STATUS_SUCCESS then Some (STATUS_SUCCESS, p, rs)
          else
            let p = p\<lparr>sentTime := gettime pc (rs_env rs)\<rparr> in
            Some (STATUS_SUCCESS, p,
                  rs\<lparr>rs_packets := rs_packets rs + 1,
                     rs_bytes := rs_bytes rs + (rawPacketLength p - RTP_HEADER_LEN p),
                     rs_env := twccManagerOnPacketSent pc p (rs_env rs)\<rparr>) }"

text \<open>
  One round of the loop. A packet that is not put back, because the ring refuses its index or
  because the handler ends early, is freed.
\<close>

definition resend_round ::
  "bool \<Rightarrow> 'e PeerServices \<Rightarrow> KvsRtpTransceiver \<Rightarrow> u64 list \<Rightarrow> u16 list \<Rightarrow> nat \<Rightarrow>
   heap RollingBuffer option \<Rightarrow> heap \<Rightarrow> 'e Resend \<Rightarrow> (STATUS \<times> heap RollingBuffer option \<times> heap \<times> 'e Resend) option" where
  "resend_round isBig pc t valid seqs k ring h rs =
     do { i \<leftarrow> memget valid k;
          (status, ring, data) \<leftarrow> rollingBufferExtractData ring i True;
          item \<leftarrow> data;
          if item = 0 then Some (STATUS_SUCCESS, ring, h, rs)
          else do {
            p \<leftarrow> h item;
            (status, p, rs) \<leftarrow> transmit isBig pc t p rs;
            if status \<noteq> STATUS_SUCCESS then
              do { (_, h, _) \<leftarrow> freeRtpPacket h (Some item); Some (status, ring, h, rs) }
            else do {
              s \<leftarrow> memget seqs k;
              (status, ring, h) \<leftarrow> rollingBufferInsertData ring (ucast s) item (h(item \<mapsto> p));
              if status = STATUS_ROLLING_BUFFER_NOT_IN_RANGE then
                do { (_, h, _) \<leftarrow> freeRtpPacket h (Some item); Some (STATUS_SUCCESS, ring, h, rs) }
              else if status \<noteq> STATUS_SUCCESS then
                do { (_, h, _) \<leftarrow> freeRtpPacket h (Some item); Some (status, ring, h, rs) }
              else Some (STATUS_SUCCESS, ring, h, rs) } } }"

fun resend_loop ::
  "bool \<Rightarrow> 'e PeerServices \<Rightarrow> KvsRtpTransceiver \<Rightarrow> u64 list \<Rightarrow> u16 list \<Rightarrow> nat \<Rightarrow> nat \<Rightarrow>
   heap RollingBuffer option \<Rightarrow> heap \<Rightarrow> 'e Resend \<Rightarrow> (STATUS \<times> heap RollingBuffer option \<times> heap \<times> 'e Resend) option" where
  "resend_loop isBig pc t valid seqs k 0 ring h rs = Some (STATUS_SUCCESS, ring, h, rs)"
| "resend_loop isBig pc t valid seqs k (Suc n) ring h rs =
     do { (status, ring, h, rs) \<leftarrow> resend_round isBig pc t valid seqs k ring h rs;
          if status \<noteq> STATUS_SUCCESS then Some (status, ring, h, rs)
          else resend_loop isBig pc t valid seqs (k + 1) n ring h rs }"

text \<open>The part of the handler behind the lookup of the transceiver.\<close>

definition resend_from ::
  "bool \<Rightarrow> 'e PeerServices \<Rightarrow> RtcpPacket \<Rightarrow> KvsRtpTransceiver \<Rightarrow> heap \<Rightarrow> 'e \<Rightarrow> (STATUS \<times> KvsRtpTransceiver \<times> heap \<times> 'e) option" where
  "resend_from isBig pc rtcp t h e =
     (case retransmitter t of
        None \<Rightarrow> Some (STATUS_INVALID_OPERATION, t\<lparr>nackCount := nackCount t + 1\<rparr>, h, e)
      | Some r \<Rightarrow> do {
          (status, _, lst, filled) \<leftarrow> rtcpNackListGet isBig (rtcp_payload rtcp) (rtcp_payloadLength rtcp) True
                                        (Some (sequenceNumberList r)) (Some (seqNumListLen r));
          seqs \<leftarrow> lst;
          filledLen \<leftarrow> filled;
          let t1 = t\<lparr>nackCount := nackCount t + 1, retransmitter := Some (r\<lparr>sequenceNumberList := seqs\<rparr>)\<rparr>;
          if status \<noteq> STATUS_SUCCESS then Some (status, t1, h, e)
          else do {
            (status, vl, vlen) \<leftarrow> rtpRollingBufferGetValidSeqIndexList (packetBuffer t) (Some seqs) filledLen
                                    (Some (validIndexList r)) (Some (validIndexListLen r));
            valid \<leftarrow> vl;
            n \<leftarrow> vlen;
            let t2 = t1\<lparr>retransmitter := Some (r\<lparr>sequenceNumberList := seqs, validIndexList := valid\<rparr>)\<rparr>;
            if status \<noteq> STATUS_SUCCESS then Some (status, t2, h, e)
            else do {
              rrb \<leftarrow> packetBuffer t;
              (status, ring, h, rs) \<leftarrow> resend_loop isBig pc t valid seqs 0 (unat n) (pRollingBuffer rrb) h
                 \<lparr>rs_rtxSequenceNumber = sender_rtxSequenceNumber t, rs_packets = 0, rs_bytes = 0, rs_env = e\<rparr>;
              Some (status, t2\<lparr>packetBuffer := Some (rrb\<lparr>pRollingBuffer := ring\<rparr>),
                      sender_rtxSequenceNumber := rs_rtxSequenceNumber rs,
                      retransmittedPacketsSent := retransmittedPacketsSent t + ucast (rs_packets rs),
                      retransmittedBytesSent := retransmittedBytesSent t + ucast (rs_bytes rs)\<rparr>,
                    h, rs_env rs) } } })"

text \<open>
  When the receiver's source is unknown the sender's is looked up, but the status of the first
  lookup is returned in both cases.
\<close>

definition resendPacketOnNack ::
  "bool \<Rightarrow> 'e PeerServices \<Rightarrow> RtcpPacket option \<Rightarrow> KvsRtpTransceiver list \<Rightarrow> heap \<Rightarrow> 'e \<Rightarrow>
   (STATUS \<times> KvsRtpTransceiver list \<times> heap \<times> 'e) option" where
  "resendPacketOnNack isBig pc pRtcp ts h e =
     (case pRtcp of
        None \<Rightarrow> Some (STATUS_NULL_ARG, ts, h, e)
      | Some rtcp \<Rightarrow> do {
          (status, ssrcs, _, _) \<leftarrow> rtcpNackListGet isBig (rtcp_payload rtcp) (rtcp_payloadLength rtcp) True None (Some 0);
          if status \<noteq> STATUS_SUCCESS then Some (status, ts, h, e)
          else do {
            (senderSsrc, receiverSsrc) \<leftarrow> ssrcs;
            case findTransceiverBySsrc ts receiverSsrc of
              (STATUS_SUCCESS, Some i) \<Rightarrow>
                do { (status, t, h, e) \<leftarrow> resend_from isBig pc rtcp (ts ! i) h e; Some (status, ts[i := t], h, e) }
            | (tmpStatus, _) \<Rightarrow>
                let (status, _) = findTransceiverBySsrc ts senderSsrc in
                if status \<noteq> STATUS_SUCCESS then Some (status, ts, h, e) else Some (tmpStatus, ts, h, e) } })"

section \<open>A NACK is answered from the buffer\<close>

text \<open>What answering a NACK means: the packets at the given addresses are sent again, in order.\<close>

fun resend_all ::
  "bool \<Rightarrow> 'e PeerServices \<Rightarrow> KvsRtpTransceiver \<Rightarrow> u64 list \<Rightarrow> heap \<Rightarrow> 'e Resend \<Rightarrow> (heap \<times> 'e Resend) option" where
  "resend_all isBig pc t [] h rs = Some (h, rs)"
| "resend_all isBig pc t (a # as) h rs =
     do { p \<leftarrow> h a;
          (status, p, rs) \<leftarrow> transmit isBig pc t p rs;
          if status = STATUS_SUCCESS then resend_all isBig pc t as (h(a \<mapsto> p)) rs else None }"

definition requested :: "heap RollingBuffer \<Rightarrow> u16 list \<Rightarrow> u64 list" where
  "requested rb xs = map (\<lambda>x. window_items rb ! (unat x - window_lo rb)) xs"

definition buffered :: "heap RollingBuffer \<Rightarrow> u16 \<Rightarrow> bool" where
  "buffered rb x = (window_lo rb \<le> unat x \<and> unat x < window_lo rb + length (window_items rb) \<and>
     window_items rb ! (unat x - window_lo rb) \<noteq> 0)"

lemma buffered_index:
  assumes "rb_wf rb" "buffered rb x"
  shows "tailIndex rb \<le> ucast x" "ucast x < headIndex rb" "unat (ucast x :: u64) = unat x"
  using assms window_hi[OF assms(1)]
  by (simp_all add: buffered_def word_le_nat_alt word_less_nat_alt unat_ucast_16_64 window_lo_def)

lemma resend_round_served:
  assumes wf: "rb_wf rb" and k: "k < length seqs" "k < length valid" "valid ! k = ucast (seqs ! k)" "buffered rb (seqs ! k)"
    and a: "a = window_items rb ! (unat (seqs ! k) - window_lo rb)" "h a = Some p"
    and tr: "transmit isBig pc t p rs = Some (STATUS_SUCCESS, p', rs')"
  shows "resend_round isBig pc t valid seqs k (Some rb) h rs = Some (STATUS_SUCCESS, Some rb, h(a \<mapsto> p'), rs')"
proof -
  note i = buffered_index[OF wf k(4)]
  have a0: "a \<noteq> 0" using k(4) by (simp add: buffered_def a(1))
  obtain rb1 where "rollingBufferExtractData (Some rb) (ucast (seqs ! k)) True = Some (STATUS_SUCCESS, Some rb1, Some a)"
    "\<forall>s. rollingBufferInsertData (Some rb1) (ucast (seqs ! k)) a s = Some (STATUS_SUCCESS, Some rb, s)"
    using extract_then_insert[OF wf i(1,2) _ a0] a(1) i(3) by auto
  then show ?thesis using k a0 a(2) tr by (simp add: resend_round_def memget_def)
qed

lemma resend_loop_served:
  assumes wf: "rb_wf rb" and "k + n \<le> length seqs" "k + n \<le> length valid"
    and "\<forall>j < k + n. valid ! j = ucast (seqs ! j) \<and> buffered rb (seqs ! j)"
    and "resend_all isBig pc t (requested rb (take n (drop k seqs))) h rs = Some (h', rs')"
  shows "resend_loop isBig pc t valid seqs k n (Some rb) h rs = Some (STATUS_SUCCESS, Some rb, h', rs')"
  using assms(2-)
proof (induction n arbitrary: k h rs)
  case (Suc n)
  have k: "k < length seqs" "k < length valid" using Suc.prems(1,2) by auto
  have kk: "valid ! k = ucast (seqs ! k)" "buffered rb (seqs ! k)" using Suc.prems(3) by auto
  have split: "take (Suc n) (drop k seqs) = seqs ! k # take n (drop (k + 1) seqs)"
    using k by (simp add: Cons_nth_drop_Suc[symmetric])
  define a where "a = window_items rb ! (unat (seqs ! k) - window_lo rb)"
  obtain p p1 rs1 where 1: "h a = Some p" "transmit isBig pc t p rs = Some (STATUS_SUCCESS, p1, rs1)"
    "resend_all isBig pc t (requested rb (take n (drop (k + 1) seqs))) (h(a \<mapsto> p1)) rs1 = Some (h', rs')"
    using Suc.prems(4) unfolding split by (auto simp: requested_def a_def bind_Some_iff split: if_splits)
  have "resend_round isBig pc t valid seqs k (Some rb) h rs = Some (STATUS_SUCCESS, Some rb, h(a \<mapsto> p1), rs1)"
    by (rule resend_round_served[OF wf k kk a_def, where h = h, OF 1(1,2)])
  then show ?case using Suc.IH[of "k + 1" "h(a \<mapsto> p1)" rs1] Suc.prems(1-3) 1(3) by (simp del: fun_upd_apply)
qed (simp add: requested_def)

text \<open>While the indexes are below $2^{16}$ a sequence number is its own index.\<close>

lemma in_window_index_low:
  assumes "rb_wf rb" "unat (headIndex rb) \<le> 65536" "buffered rb x"
  shows "in_window_index (window_lo rb) (length (window_items rb)) x = Some (ucast x)"
proof -
  have hi: "window_lo rb + length (window_items rb) \<le> 65536" using assms(2) window_hi[OF assms(1)] by simp
  have x: "window_lo rb \<le> unat x" "unat x < window_lo rb + length (window_items rb)" using assms(3) by (auto simp: buffered_def)
  have "unat x = index_of_seq (window_lo rb) x"
    using index_of_seq_unique[of "window_lo rb" "unat x" x] x hi by simp
  then show ?thesis using x by (simp add: in_window_index_def) (metis word_of_nat_eq_iff unat_ucast_16_64 of_nat_unat ucast_id)
qed

lemma map_filter_total:
  "(\<And>x. x \<in> set xs \<Longrightarrow> f x = Some (g x)) \<Longrightarrow> List.map_filter f xs = map g xs"
  by (induction xs) (simp_all add: List.map_filter_simps)

text \<open>A retransmitter whose lists have the lengths it says and room for the packets of a NACK.\<close>

definition room_for :: "Retransmitter \<Rightarrow> nat \<Rightarrow> bool" where
  "room_for r n = (n \<le> unat (seqNumListLen r) \<and> unat (seqNumListLen r) \<le> length (sequenceNumberList r) \<and>
     n \<le> unat (validIndexListLen r) \<and> unat (validIndexListLen r) \<le> length (validIndexList r) \<and>
     0 < unat (validIndexListLen r) \<and> n < 65536)"

lemma nack_indexes:
  assumes wf: "rb_wf rb" "pRollingBuffer rrb = Some rb" "lastIndex rrb = headIndex rb - 1" "unat (headIndex rb) \<le> 65536"
    and n: "2 \<le> length (window_items rb)"
    and r: "room_for r (length xs)" and xs: "\<forall>x \<in> set xs. buffered rb x"
  shows "\<exists>valid k. rtpRollingBufferGetValidSeqIndexList (Some rrb) (Some (xs @ ys)) (word_of_nat (length xs))
       (Some (validIndexList r)) (Some (validIndexListLen r)) = Some (STATUS_SUCCESS, Some valid, Some k) \<and>
     unat k = length xs \<and> length xs \<le> length valid \<and> (\<forall>j < length xs. valid ! j = ucast (xs ! j))"
proof -
  have u: "unat (word_of_nat (length xs) :: u32) = length xs"
    using r by (simp add: room_for_def unat_of_nat take_bit_nat_eq_self)
  have le: "length (window_items rb) \<le> 65536" using wf(4) window_hi[OF wf(1)] by simp
  have m: "0 < validIndexListLen r" "unat (validIndexListLen r) \<le> length (validIndexList r)"
    "unat (word_of_nat (length xs) :: u32) \<le> length (xs @ ys)"
    using r u by (auto simp: room_for_def word_less_nat_alt)
  from valid_seq_index_list'[OF wf(1-3) n le m] obtain valid k where
    v: "rtpRollingBufferGetValidSeqIndexList (Some rrb) (Some (xs @ ys)) (word_of_nat (length xs))
       (Some (validIndexList r)) (Some (validIndexListLen r)) = Some (STATUS_SUCCESS, Some valid, Some k)"
    "length valid = length (validIndexList r)" "unat k \<le> unat (validIndexListLen r)"
    "take (unat k) valid = take (unat (validIndexListLen r))
       (List.map_filter (in_window_index (window_lo rb) (length (window_items rb))) (take (unat (word_of_nat (length xs) :: u32)) (xs @ ys)))"
    by blast
  have "List.map_filter (in_window_index (window_lo rb) (length (window_items rb))) xs = map ucast xs"
    using in_window_index_low[OF wf(1,4)] xs by (intro map_filter_total) blast
  then have "take (unat k) valid = map ucast xs" using v(4) r by (simp add: u room_for_def)
  moreover from this have "unat k = length xs"
    using v(2,3) m(2) by (metis length_map length_take min.absorb2 order_trans)
  ultimately have "unat k = length xs" "length xs \<le> length valid" "\<forall>j < length xs. valid ! j = ucast (xs ! j)"
    using v(2,3) m(2) by (auto simp flip: nth_take[of _ "unat k" valid])
  with v(1) show ?thesis by blast
qed


section \<open>A connection with one transceiver\<close>

text \<open>The environment is the list of the datagrams handed to the ICE agent.\<close>

definition services0 :: "bytes list PeerServices" where
  "services0 = \<lparr>srtpReady = True, encryptRtpPacket = (\<lambda>d e. (STATUS_SUCCESS, d, e)),
     iceAgentSendPacket = (\<lambda>d e. (STATUS_SUCCESS, e @ [d])), pcapDumpWritePacket = None,
     twccManagerOnPacketSent = (\<lambda>p e. e), gettime = (\<lambda>e. 5), rtxMem = None, rtxMalloc = (\<lambda>n. None)\<rparr>"

definition retransmitter0 :: Retransmitter where
  "retransmitter0 = \<lparr>sequenceNumberList = [0, 0], seqNumListLen = 2, validIndexListLen = 2, validIndexList = [0, 0]\<rparr>"

definition transceiver0 :: "heap RollingBuffer \<Rightarrow> KvsRtpTransceiver" where
  "transceiver0 ring = \<lparr>sender_payloadType = 96, sender_rtxPayloadType = 96, sender_rtxSequenceNumber = 0, sender_ssrc = 2,
     sender_rtxSsrc = 3, jitterBufferSsrc = 4,
     packetBuffer = Some \<lparr>pRollingBuffer = Some ring, lastIndex = headIndex ring - 1\<rparr>,
     retransmitter = Some retransmitter0, nackCount = 0, retransmittedPacketsSent = 0, retransmittedBytesSent = 0\<rparr>"

definition low_ring :: "heap RollingBuffer" where
  "low_ring = \<lparr>capacity = 2, headIndex = 2, tailIndex = 0, dataBuffer = [16, 24], freeDataFn = Some freeRtpRollingBufferData\<rparr>"

definition heap0 :: heap where
  "heap0 = [16 \<mapsto> sample_packet, 24 \<mapsto> sample_packet, 32 \<mapsto> sample_packet, 40 \<mapsto> sample_packet]"

definition nack0 :: "u16 \<Rightarrow> RtcpPacket" where
  "nack0 s = \<lparr>rtcp_header = \<lparr>rtcp_version = 2, receptionReportCount = 1, packetType = 205, packetLength = 3\<rparr>,
     rtcp_payload = Some (nack_bytes 1 2 [(s, 0)] @ []), rtcp_payloadLength = 12\<rparr>"

lemma heap0_lookup: "a \<in> {16, 24, 32, 40} \<Longrightarrow> heap0 a = Some sample_packet"
  by (auto simp: heap0_def)

lemma transceiver0_fields:
  "sender_rtxSequenceNumber (transceiver0 ring) = 0" "retransmitter (transceiver0 ring) = Some retransmitter0"
  "packetBuffer (transceiver0 ring) = Some \<lparr>pRollingBuffer = Some ring, lastIndex = headIndex ring - 1\<rparr>"
  by (simp_all add: transceiver0_def)

lemma nack0_seqs: "concat (map nack_entry [(s, 0)]) = [s]"
  by (simp add: nack_entry_def)

lemma low_ring_window: "rb_wf low_ring" "window_items low_ring = [16, 24]" "window_lo low_ring = 0"
  by (simp_all add: low_ring_def rb_wf_def window_items_def window_lo_def ring_view_def upt_rec)

lemma transmit_sample:
  "transmit isBig services0 (transceiver0 ring) sample_packet rs =
     Some (STATUS_SUCCESS, sample_packet\<lparr>sentTime := 5\<rparr>,
       rs\<lparr>rs_packets := rs_packets rs + 1, rs_bytes := rs_bytes rs + 1,
          rs_env := rs_env rs @ [[0x80, 96, 0, 1, 0, 0, 0, 2, 0, 0, 0, 3, 42]]\<rparr>)"
  by (simp add: transmit_def services0_def transceiver0_def sample_packet_def memread_def RTP_HEADER_LEN_def Let_def)


text \<open>The same connection after more than $2^{16}$ packets, and what the first NACK leaves of it.\<close>

definition drained_ring :: "heap RollingBuffer" where
  "drained_ring = wrap_ring\<lparr>dataBuffer := [0, 24, 32, 40]\<rparr>"

definition transceiver1 :: KvsRtpTransceiver where
  "transceiver1 = (transceiver0 wrap_ring)\<lparr>nackCount := 1,
     retransmitter := Some (retransmitter0\<lparr>validIndexList := [65536, 0]\<rparr>),
     packetBuffer := Some \<lparr>pRollingBuffer = Some drained_ring, lastIndex = 65537\<rparr>,
     retransmittedPacketsSent := 1, retransmittedBytesSent := 1\<rparr>"

lemma nack0_decoded:
  "rtcpNackListGet False (rtcp_payload (nack0 0)) (rtcp_payloadLength (nack0 0)) True (Some [0, 0]) (Some 2) =
     Some (STATUS_SUCCESS, Some (1, 2), Some [0, 0], Some 1)"
  "rtcpNackListGet False (rtcp_payload (nack0 0)) (rtcp_payloadLength (nack0 0)) True None (Some 0) =
     Some (STATUS_SUCCESS, Some (1, 2), None, Some 1)"
  using nack_list_decoded[of "[(0, 0)]" 2 "[0, 0]" False 1 2 "[]" 0]
  by (simp_all add: nack0_seqs[unfolded list.map concat.simps append_Nil2] nack0_def)

lemma wrapped_lookup:
  "capacity ring = 4 \<Longrightarrow> headIndex ring = 65538 \<Longrightarrow> tailIndex ring = 65534 \<Longrightarrow>
   rtpRollingBufferGetValidSeqIndexList (Some \<lparr>pRollingBuffer = Some ring, lastIndex = 65537\<rparr>) (Some [0, 0]) 1
      (Some [x, 0]) (Some 2) = Some (STATUS_SUCCESS, Some [65536, 0], Some 1)"
  by (simp add: rtpRollingBufferGetValidSeqIndexList_def rollingBufferGetSize_def GET_UINT16_SEQ_NUM_def seq_index_def
      memget_def memwrite_def bsplice_def)

lemma first_round:
  "resend_round False services0 (transceiver0 wrap_ring) [65536, 0] [0, 0] 0 (Some wrap_ring) heap0
     \<lparr>rs_rtxSequenceNumber = 0, rs_packets = 0, rs_bytes = 0, rs_env = []\<rparr> =
   Some (STATUS_SUCCESS, Some drained_ring, heap0(16 := None),
     \<lparr>rs_rtxSequenceNumber = 0, rs_packets = 1, rs_bytes = 1, rs_env = [[0x80, 96, 0, 1, 0, 0, 0, 2, 0, 0, 0, 3, 42]]\<rparr>)"
proof -
  have "rollingBufferExtractData (Some wrap_ring) 65536 True = Some (STATUS_SUCCESS, Some drained_ring, Some 16)"
    by (simp add: rollingBufferExtractData_def wrap_ring_def drained_ring_def ROLLING_BUFFER_MAP_INDEX_def store_ring_slot_def
        memget_def memwrite_def bsplice_def)
  moreover have "rollingBufferInsertData (Some drained_ring) 0 16 s = Some (STATUS_ROLLING_BUFFER_NOT_IN_RANGE, Some drained_ring, s)"
    for s by (simp add: rollingBufferInsertData_def drained_ring_def wrap_ring_def)
  ultimately show ?thesis
    by (simp add: resend_round_def memget_def heap0_lookup transmit_sample freeRtpPacket_def)
qed

lemma second_round:
  "resend_round False services0 t [65536, 0] [0, 0] 0 (Some drained_ring) h rs = Some (STATUS_SUCCESS, Some drained_ring, h, rs)"
  by (simp add: resend_round_def memget_def rollingBufferExtractData_def drained_ring_def wrap_ring_def
      ROLLING_BUFFER_MAP_INDEX_def)

text \<open>
  Retransmission after the wrap-around. In a connection that has sent more than $2^{16}$
  packets, the first NACK for a buffered packet is answered, but the packet is put back under
  its 16-bit sequence number instead of its index in the buffer, which the ring refuses; the
  packet is freed, and a second NACK for it sends nothing.
\<close>

lemma nack_loses_packet:
  "resendPacketOnNack False services0 (Some (nack0 0)) [transceiver0 wrap_ring] heap0 [] =
     Some (STATUS_SUCCESS, [transceiver1], heap0(16 := None), [[0x80, 96, 0, 1, 0, 0, 0, 2, 0, 0, 0, 3, 42]]) \<and>
   (\<exists>t2. resendPacketOnNack False services0 (Some (nack0 0)) [transceiver1] (heap0(16 := None)) [] =
     Some (STATUS_SUCCESS, [t2], heap0(16 := None), []))"
proof -
  have rings: "capacity wrap_ring = 4" "headIndex wrap_ring = 65538" "tailIndex wrap_ring = 65534"
    "capacity drained_ring = 4" "headIndex drained_ring = 65538" "tailIndex drained_ring = 65534"
    by (simp_all add: wrap_ring_def drained_ring_def)
  note lookups = wrapped_lookup[OF rings(1-3)] wrapped_lookup[OF rings(4-6)]
  have find: "findTransceiverBySsrc [transceiver0 wrap_ring] 2 = (STATUS_SUCCESS, Some 0)"
    "findTransceiverBySsrc [transceiver1] 2 = (STATUS_SUCCESS, Some 0)"
    by (simp_all add: findTransceiverBySsrc_def transceiver0_def transceiver1_def)
  have r0: "sequenceNumberList retransmitter0 = [0, 0]" "seqNumListLen retransmitter0 = 2"
    "validIndexListLen retransmitter0 = 2" "validIndexList retransmitter0 = [0, 0]"
    "retransmitter0\<lparr>sequenceNumberList := [0, 0], validIndexList := v\<rparr> = retransmitter0\<lparr>validIndexList := v\<rparr>" for v
    by (simp_all add: retransmitter0_def)
  have t0: "nackCount (transceiver0 r) = 0" "retransmittedPacketsSent (transceiver0 r) = 0"
    "retransmittedBytesSent (transceiver0 r) = 0" for r
    by (simp_all add: transceiver0_def)
  have "resend_from False services0 (nack0 0) (transceiver0 wrap_ring) heap0 [] =
      Some (STATUS_SUCCESS, transceiver1, heap0(16 := None), [[0x80, 96, 0, 1, 0, 0, 0, 2, 0, 0, 0, 3, 42]])"
    using lookups(1)[of 0] first_round nack0_decoded
    by (simp add: resend_from_def transceiver0_fields r0 rings t0 Let_def del: fun_upd_apply)
      (simp add: transceiver1_def transceiver0_def)
  moreover have "\<exists>t2. resend_from False services0 (nack0 0) transceiver1 (heap0(16 := None)) [] =
      Some (STATUS_SUCCESS, t2, heap0(16 := None), [])"
    using lookups(2)[of 65536] second_round nack0_decoded
    by (simp add: resend_from_def transceiver1_def transceiver0_fields r0 rings t0 Let_def del: fun_upd_apply)
  ultimately show ?thesis
    using find nack0_decoded(2) by (auto simp: resendPacketOnNack_def simp del: fun_upd_apply)
qed

end
