(* ===== verification/AnnexB.thy ===== *)
theory AnnexB
  imports RtpPayloader
begin

text \<open>
  What the H.264 and H.265 payloaders of \<^verbatim>\<open>src/source/Rtp/Codecs\<close> share: the search for the next
  NAL unit in an Annex-B stream (\<open>getNextNaluLength\<close> and \<open>getNextNaluLengthH265\<close> have the same
  body), the array of payloads with its advancing pointers, and the loop that cuts a NAL unit
  into fragmentation units.

  The search looks at every third byte where it can. Its result is compared with the plain
  definition of a start code, for every input; the streams made of well-formed NAL units are
  then cut at the right places.
\<close>

section \<open>The search for a NAL unit\<close>

text \<open>Counting the zeros in front of the first one, and the search with its jumps.\<close>

function zero_run :: "bytes \<Rightarrow> u32 \<Rightarrow> u32 \<Rightarrow> u32 option" where
  "zero_run nalus nalusLength offset =
     (if offset < 4 \<and> offset < nalusLength
      then do { b \<leftarrow> memget nalus (unat offset);
                if b = 0 then zero_run nalus nalusLength (offset + 1) else Some offset }
      else Some offset)"
  by pat_completeness auto

termination zero_run
proof (relation "measure (\<lambda>(nalus, len, offset). 4 - unat offset)", goal_cases)
  case (2 nalus len offset b)
  then have "unat offset < 4" by (simp add: word_less_nat_alt)
  then have "unat (offset + 1) = unat offset + 1" by (subst unat_word_ariths) simp
  with \<open>unat offset < 4\<close> show ?case by simp
qed simp

function nalu_scan :: "bytes \<Rightarrow> u32 \<Rightarrow> u32 \<Rightarrow> nat \<Rightarrow> (u32 \<times> u32 option) option" where
  "nalu_scan nalus nalusLength offset pCurrent =
     (if offset < nalusLength
      then (case memget nalus pCurrent of
        None \<Rightarrow> None
      | Some b \<Rightarrow>
          if b = 0 then nalu_scan nalus nalusLength (offset + 1) (pCurrent + 1)
          else if b = 1
          then do { b1 \<leftarrow> memget nalus (pCurrent - 1);
                    b2 \<leftarrow> memget nalus (pCurrent - 2);
                    if b1 = 0 \<and> b2 = 0
                    then do { b3 \<leftarrow> memget nalus (pCurrent - 3); Some (offset, Some (if b3 = 0 then 3 else 2)) }
                    else nalu_scan nalus nalusLength (offset + 3) (pCurrent + 3) }
          else nalu_scan nalus nalusLength (offset + 3) (pCurrent + 3))
      else Some (offset, None))"
  by pat_completeness auto

termination nalu_scan
  by (relation "measure (\<lambda>(nalus, len, offset, pCurrent). length nalus - pCurrent)")
    (auto simp: memget_def split: if_splits)

declare zero_run.simps [simp del] nalu_scan.simps [simp del]

text \<open>The values of \<open>*pStart\<close> and \<open>*pNaluLength\<close> follow the status.\<close>

definition getNextNaluLength ::
  "bytes option \<Rightarrow> u32 \<Rightarrow> u32 option \<Rightarrow> u32 option \<Rightarrow> (STATUS \<times> u32 option \<times> u32 option) option" where
  "getNextNaluLength pNalus nalusLength pStart pNaluLength =
     (case (pNalus, pStart, pNaluLength) of
        (Some nalus, Some _, Some _) \<Rightarrow>
          do { offset \<leftarrow> zero_run nalus nalusLength 0;
               one \<leftarrow> (if offset < nalusLength \<and> offset < 4 \<and> 2 \<le> offset
                       then do { b \<leftarrow> memget nalus (unat offset); Some (b = 1) } else Some False);
               if \<not> one then Some (STATUS_RTP_INVALID_NALU, pStart, pNaluLength)
               else let start = offset + 1 in
                 do { (offset, found) \<leftarrow> nalu_scan nalus nalusLength start (unat start);
                      Some (STATUS_SUCCESS, Some start,
                            Some (min offset nalusLength - start - (case found of Some z \<Rightarrow> z | None \<Rightarrow> 0))) } }
      | _ \<Rightarrow> Some (STATUS_NULL_ARG, pStart, pNaluLength))"

definition getNextNaluLengthH265 ::
  "bytes option \<Rightarrow> u32 \<Rightarrow> u32 option \<Rightarrow> u32 option \<Rightarrow> (STATUS \<times> u32 option \<times> u32 option) option" where
  "getNextNaluLengthH265 pNalus nalusLength pStart pNaluLength =
     (case (pNalus, pStart, pNaluLength) of
        (Some nalus, Some _, Some _) \<Rightarrow>
          do { offset \<leftarrow> zero_run nalus nalusLength 0;
               one \<leftarrow> (if offset < nalusLength \<and> offset < 4 \<and> 2 \<le> offset
                       then do { b \<leftarrow> memget nalus (unat offset); Some (b = 1) } else Some False);
               if \<not> one then Some (STATUS_RTP_INVALID_NALU, pStart, pNaluLength)
               else let start = offset + 1 in
                 do { (offset, found) \<leftarrow> nalu_scan nalus nalusLength start (unat start);
                      Some (STATUS_SUCCESS, Some start,
                            Some (min offset nalusLength - start - (case found of Some z \<Rightarrow> z | None \<Rightarrow> 0))) } }
      | _ \<Rightarrow> Some (STATUS_NULL_ARG, pStart, pNaluLength))"

lemma getNextNaluLengthH265_same: "getNextNaluLengthH265 = getNextNaluLength"
  by (intro ext) (simp add: getNextNaluLengthH265_def getNextNaluLength_def)

lemma nalu_found:
  assumes "getNextNaluLength (Some xs) len (Some a) (Some b) = Some (STATUS_SUCCESS, Some start, Some naluLen)"
  shows "xs \<noteq> []" "0 < unat start"
proof -
  obtain offset where m: "memget xs (unat offset) = Some 1" "offset < 4" "start = offset + 1"
    using assms by (auto simp: getNextNaluLength_def Let_def bind_eq_Some_conv split: if_splits)
  then show "xs \<noteq> []" by (auto simp: memget_def)
  have "unat offset < 4" using m(2) by (simp add: word_less_nat_alt)
  then have "unat start = unat offset + 1" unfolding m(3) by (simp add: unat_word_ariths)
  then show "0 < unat start" by simp
qed

section \<open>The array of payloads\<close>

text \<open>
  \<open>PayloadArray\<close> as the payloaders use it while they fill it: the pointers \<open>payloadBuffer\<close> and
  \<open>payloadSubLength\<close> move forward, so they are a buffer and a position in it.
\<close>

record PayloadCursor =
  pc_buffer :: "bytes option"
  pc_at :: nat
  pc_lens :: "u32 list option"
  pc_lens_at :: nat
  pc_maxLength :: u32
  pc_maxSubLenSize :: u32

text \<open>Filling a payload of \<open>filled\<close> bytes in \<open>n\<close> packets moves the pointers and lowers the limits.\<close>

definition advance :: "u32 \<Rightarrow> u32 \<Rightarrow> PayloadCursor \<Rightarrow> PayloadCursor" where
  "advance filled n pa = pa\<lparr>pc_at := pc_at pa + unat filled, pc_lens_at := pc_lens_at pa + unat n,
     pc_maxLength := pc_maxLength pa - filled, pc_maxSubLenSize := pc_maxSubLenSize pa - n\<rparr>"

text \<open>
  The loop over the fragments of a NAL unit, for a payload header of \<open>h\<close> bytes given by \<open>hdr\<close>
  (its arguments say whether the fragment is the first, and whether it is the last). \<open>whole\<close> is
  the number of bytes to send, \<open>pos\<close> the position in the NAL unit and \<open>off\<close> the one of \<open>pPayload\<close>.
\<close>

function fu_loop ::
  "(bool \<Rightarrow> bool \<Rightarrow> bytes) \<Rightarrow> u32 \<Rightarrow> u32 \<Rightarrow> bytes \<Rightarrow> u32 \<Rightarrow> u32 \<Rightarrow> nat \<Rightarrow> nat \<Rightarrow> u32 \<Rightarrow> u32 \<Rightarrow> PayloadCursor option \<Rightarrow>
   (STATUS \<times> u32 \<times> u32 \<times> PayloadCursor option) option" where
  "fu_loop hdr h maxPayloadSize nalu whole remaining pos off len n pPA =
     (if remaining = 0 then Some (STATUS_SUCCESS, len, n, pPA)
      else let cur = min maxPayloadSize remaining; n' = n + 1; len' = len + (h + cur) in
        if cur = 0 then None
        else (case pPA of
          None \<Rightarrow> fu_loop hdr h maxPayloadSize nalu whole (remaining - cur) (pos + unat cur) off len' n' None
        | Some pa \<Rightarrow>
            if \<not> (n' \<le> pc_maxSubLenSize pa \<and> len' \<le> pc_maxLength pa) then Some (STATUS_BUFFER_TOO_SMALL, len', n', pPA)
            else do {
              buf \<leftarrow> pc_buffer pa;
              lens \<leftarrow> pc_lens pa;
              buf \<leftarrow> memwrite buf off (hdr (remaining = whole) (remaining = cur));
              d \<leftarrow> memread nalu pos (unat cur);
              buf \<leftarrow> memwrite buf (off + unat h) d;
              lens \<leftarrow> memwrite lens (pc_lens_at pa + unat n) [h + cur];
              fu_loop hdr h maxPayloadSize nalu whole (remaining - cur) (pos + unat cur) (off + unat (h + cur)) len' n'
                (Some (pa\<lparr>pc_buffer := Some buf, pc_lens := Some lens\<rparr>)) }))"
  by pat_completeness auto

termination fu_loop
  by (relation "measure (\<lambda>(hdr, h, m, nalu, whole, remaining, _). unat remaining)") (auto simp: unat_sub_less)

declare fu_loop.simps [simp del]

text \<open>
  The last part of the functions that payload one NAL unit, and the case of a NAL unit that fits
  into one packet. The values are the status, \<open>*filledLength\<close>, \<open>*filledSubLenSize\<close> and the array.
\<close>

type_synonym fill_state = "u32 \<times> u32 \<times> PayloadCursor option"
type_synonym filled = "STATUS \<times> fill_state"

definition report_filled :: "bool \<Rightarrow> filled \<Rightarrow> filled" where
  "report_filled sizeOnly r = (case r of (status, len, n, pPA) \<Rightarrow>
     if status \<noteq> STATUS_SUCCESS \<and> sizeOnly then (status, 0, 0, pPA) else r)"

definition single_nalu :: "bytes \<Rightarrow> u32 \<Rightarrow> PayloadCursor option \<Rightarrow> filled option" where
  "single_nalu nalu naluLength pPA =
     (case pPA of
        None \<Rightarrow> Some (STATUS_SUCCESS, naluLength, 1, None)
      | Some pa \<Rightarrow>
          if \<not> (1 \<le> pc_maxSubLenSize pa \<and> naluLength \<le> pc_maxLength pa) then Some (STATUS_BUFFER_TOO_SMALL, naluLength, 1, pPA)
          else do {
            buf \<leftarrow> pc_buffer pa;
            lens \<leftarrow> pc_lens pa;
            d \<leftarrow> memread nalu 0 (unat naluLength);
            buf \<leftarrow> memwrite buf (pc_at pa) d;
            lens \<leftarrow> memwrite lens (pc_lens_at pa) [naluLength];
            Some (STATUS_SUCCESS, naluLength, 1, Some (pa\<lparr>pc_buffer := Some buf, pc_lens := Some lens\<rparr>)) })"

text \<open>
  One step of a payloader: a call that payloads something, then the update of the sizes when only
  these are computed, or of the pointers and limits of the array.
\<close>

definition add_filled :: "(PayloadCursor option \<Rightarrow> filled option) \<Rightarrow> fill_state \<Rightarrow> filled option" where
  "add_filled step s = (case s of (len, n, pPA) \<Rightarrow>
     do { (status, filled, sub, pPA) \<leftarrow> step pPA;
          Some (status, if status \<noteq> STATUS_SUCCESS then (len, n, pPA)
            else (case pPA of None \<Rightarrow> (len + filled, n + sub, None) | Some pa \<Rightarrow> (len, n, Some (advance filled sub pa)))) })"

text \<open>
  The local \<open>payloadArray\<close> is set up from the arguments after the first checks. A check that fails
  before this leaves its sizes uninitialised, and they are reported unless only sizes are asked
  for: the result is then \<open>None\<close>.
\<close>

definition init_array :: "bytes option \<Rightarrow> u32 \<Rightarrow> u32 list option \<Rightarrow> u32 \<Rightarrow> fill_state" where
  "init_array pBuf len pLens n =
     (if pBuf = None then (0, 0, None)
      else (len, n, Some \<lparr>pc_buffer = pBuf, pc_at = 0, pc_lens = pLens, pc_lens_at = 0, pc_maxLength = len, pc_maxSubLenSize = n\<rparr>))"

definition fail_early :: "STATUS \<Rightarrow> bytes option \<Rightarrow> u32 option \<Rightarrow> u32 list option \<Rightarrow> u32 option \<Rightarrow> payload_result" where
  "fail_early status pBuf pLen pLens pSub =
     (if pSub \<noteq> None \<and> pLen \<noteq> None
      then (if pBuf = None then Some (status, pBuf, pLens, Some 0, Some 0) else None)
      else Some (status, pBuf, pLens, pLen, pSub))"

definition finish_array :: "bytes option \<Rightarrow> u32 option \<Rightarrow> u32 list option \<Rightarrow> u32 option \<Rightarrow> filled \<Rightarrow> payload_result" where
  "finish_array pBuf pLen pLens pSub r = (case r of (status, len, n, pPA) \<Rightarrow>
     Some (status, (case pPA of None \<Rightarrow> pBuf | Some pa \<Rightarrow> pc_buffer pa), (case pPA of None \<Rightarrow> pLens | Some pa \<Rightarrow> pc_lens pa),
           report_sizes (pBuf = None) status len n pLen pSub))"

section \<open>Start codes, by their definition\<close>

definition code_at :: "bytes \<Rightarrow> nat \<Rightarrow> bool" where
  "code_at xs i = (i + 2 < length xs \<and> xs ! i = 0 \<and> xs ! (i + 1) = 0 \<and> xs ! (i + 2) = 1)"

definition next_code :: "bytes \<Rightarrow> nat option" where
  "next_code xs = find (code_at xs) [0..<length xs]"

text \<open>The NAL unit at the front of \<open>xs\<close> ends before the zeros of the next start code.\<close>

definition nalu_len :: "bytes \<Rightarrow> nat" where
  "nalu_len xs = (case next_code xs of None \<Rightarrow> length xs
     | Some i \<Rightarrow> if 0 < i \<and> xs ! (i - 1) = 0 then i - 1 else i)"

lemma next_code_Some: "next_code xs = Some i \<longleftrightarrow> code_at xs i \<and> (\<forall>j < i. \<not> code_at xs j)"
proof
  assume "next_code xs = Some i"
  then show "code_at xs i \<and> (\<forall>j < i. \<not> code_at xs j)" by (auto simp: next_code_def find_Some_iff)
next
  assume a: "code_at xs i \<and> (\<forall>j < i. \<not> code_at xs j)"
  then have "i < length xs" by (simp add: code_at_def)
  with a show "next_code xs = Some i" unfolding next_code_def find_Some_iff by (intro exI[of _ i]) auto
qed

lemma next_code_None: "next_code xs = None \<longleftrightarrow> (\<forall>i. \<not> code_at xs i)"
  by (auto simp: next_code_def find_None_iff code_at_def)

lemma nalu_len_le: "nalu_len xs \<le> length xs"
  by (auto simp: nalu_len_def next_code_Some code_at_def split: option.split)

section \<open>The search agrees with the definition\<close>

lemma scan_guard: "length xs < 2 ^ 32 - 3 \<Longrightarrow> k < length xs + 3 \<Longrightarrow>
    (word_of_nat k < (word_of_nat (length xs) :: u32)) = (k < length xs)"
  by (simp add: word_less_nat_alt unat_small32)

lemma min_word_of_nat: "a \<le> b \<Longrightarrow> b < 2 ^ 32 \<Longrightarrow> min (word_of_nat a) (word_of_nat b) = (word_of_nat a :: u32)"
  by (simp add: min_def word_le_nat_alt unat_small32)

lemma nalu_scan_found:
  assumes "length xs < 2 ^ 32 - 3" "3 \<le> s" "xs ! (s - 1) = 1" "s \<le> k" "k \<le> i + 2" "s \<le> i"
    and code: "code_at xs i" and first: "\<And>j. s \<le> j \<Longrightarrow> j < i \<Longrightarrow> \<not> code_at xs j"
  shows "nalu_scan xs (word_of_nat (length xs)) (word_of_nat k) k =
     Some (word_of_nat (i + 2), Some (if xs ! (i - 1) = 0 then 3 else 2))"
  using assms(4,5)
proof (induction "i + 2 - k" arbitrary: k rule: less_induct)
  case less
  have i: "i + 2 < length xs" "xs ! i = 0" "xs ! (i + 1) = 0" "xs ! (i + 2) = 1" using code by (auto simp: code_at_def)
  have k: "k < length xs" using less.prems i(1) by simp
  note g = scan_guard[OF assms(1), of k]
  have go: "nalu_scan xs (word_of_nat (length xs)) (word_of_nat k + word_of_nat d) (k + d) =
      Some (word_of_nat (i + 2), Some (if xs ! (i - 1) = 0 then 3 else 2))" if "k + d \<le> i + 2" "0 < d" for d
    using less.hyps[of "k + d"] that less.prems(1) unfolding of_nat_add by linarith
  consider "k = i + 2" | "k = i + 1 \<or> k = i" | "k < i" using less.prems(2) by linarith
  then show ?case
  proof cases
    case 1
    then show ?thesis using i k g less.prems assms(2,6)
      by (subst nalu_scan.simps) (simp add: memget_def numeral_2_eq_2 numeral_3_eq_3)
  next
    case 2
    then have "xs ! k = 0" using i by auto
    moreover note go[of 1]
    ultimately show ?thesis using k g 2 by (subst nalu_scan.simps) (auto simp: memget_def)
  next
    case 3
    have no: "\<not> (xs ! k = 1 \<and> xs ! (k - 1) = 0 \<and> xs ! (k - 2) = 0)"
    proof
      assume a: "xs ! k = 1 \<and> xs ! (k - 1) = 0 \<and> xs ! (k - 2) = 0"
      then have "k \<noteq> s" "k \<noteq> s + 1" using assms(3) by auto
      then have "s \<le> k - 2" "k - 2 + 1 = k - 1" "k - 2 + 2 = k" using less.prems(1) assms(2) by auto
      then show False using first[of "k - 2"] 3 a k by (auto simp: code_at_def)
    qed
    show ?thesis
      using k g no go[of 1] go[of 3] 3 by (subst nalu_scan.simps) (auto simp: memget_def)
  qed
qed

lemma nalu_scan_none:
  assumes "length xs < 2 ^ 32 - 3" "3 \<le> s" "xs ! (s - 1) = 1" "s \<le> k" "k < length xs + 3"
    and none: "\<And>j. s \<le> j \<Longrightarrow> \<not> code_at xs j"
  shows "\<exists>o' \<ge> length xs. o' < length xs + 3 \<and> nalu_scan xs (word_of_nat (length xs)) (word_of_nat k) k = Some (word_of_nat o', None)"
  using assms(4,5)
proof (induction "length xs - k" arbitrary: k rule: less_induct)
  case less
  note g = scan_guard[OF assms(1) less.prems(2)]
  show ?case
  proof (cases "k < length xs")
    case False
    then have "nalu_scan xs (word_of_nat (length xs)) (word_of_nat k) k = Some (word_of_nat k, None)"
      using g by (subst nalu_scan.simps) simp
    then show ?thesis using False less.prems(2) by (intro exI[of _ k]) simp
  next
    case True
    have no: "\<not> (xs ! k = 1 \<and> xs ! (k - 1) = 0 \<and> xs ! (k - 2) = 0)"
    proof
      assume a: "xs ! k = 1 \<and> xs ! (k - 1) = 0 \<and> xs ! (k - 2) = 0"
      then have "k \<noteq> s" "k \<noteq> s + 1" using assms(3) by auto
      then have "s \<le> k - 2" "k - 2 + 1 = k - 1" "k - 2 + 2 = k" using less.prems(1) assms(2) by auto
      then show False using none[of "k - 2"] a True by (auto simp: code_at_def)
    qed
    have "nalu_scan xs (word_of_nat (length xs)) (word_of_nat k) k =
      (if xs ! k = 0 then nalu_scan xs (word_of_nat (length xs)) (word_of_nat (k + 1)) (k + 1)
       else nalu_scan xs (word_of_nat (length xs)) (word_of_nat (k + 3)) (k + 3))"
      using g True no by (subst nalu_scan.simps) (auto simp: memget_def add.commute)
    then show ?thesis using less.hyps[of "k + 1"] less.hyps[of "k + 3"] True less.prems(1) by (auto split: if_splits)
  qed
qed

lemma zero_run_spec:
  assumes "length xs < 2 ^ 32 - 3" "k \<le> length (takeWhile (\<lambda>b. b = 0) xs)" "k \<le> 4"
  shows "zero_run xs (word_of_nat (length xs)) (word_of_nat k) = Some (word_of_nat (min 4 (length (takeWhile (\<lambda>b. b = 0) xs))))"
  using assms(2,3)
proof (induction "4 - k" arbitrary: k rule: less_induct)
  case less
  let ?z = "length (takeWhile (\<lambda>b. b = 0) xs)"
  have u: "unat (word_of_nat k :: u32) = k" using less.prems(2) by (intro unat_small32) simp
  have z: "?z \<le> length xs" by (rule length_takeWhile_le)
  have g: "(word_of_nat k < (4 :: u32)) = (k < 4)" using u by (simp add: word_less_nat_alt)
  have g': "(word_of_nat k < (word_of_nat (length xs) :: u32)) = (k < length xs)"
    using scan_guard[OF assms(1), of k] less.prems z by simp
  show ?case
  proof (cases "k < 4 \<and> k < length xs")
    case True
    have z0: "(xs ! k = 0) = (k < ?z)"
    proof
      assume "xs ! k = 0"
      then show "k < ?z" using less.prems(1) True nth_length_takeWhile[of "\<lambda>b. b = 0" xs]
        by (cases "k = ?z") auto
    next
      assume "k < ?z"
      then show "xs ! k = 0" using set_takeWhileD[of "xs ! k" "\<lambda>b. b = 0" xs] nth_mem[of k "takeWhile (\<lambda>b. b = 0) xs"]
        by (simp add: takeWhile_nth)
    qed
    have s: "zero_run xs (word_of_nat (length xs)) (word_of_nat k) =
        (if k < ?z then zero_run xs (word_of_nat (length xs)) (word_of_nat (k + 1)) else Some (word_of_nat k))"
      using True g g' u z0 by (subst zero_run.simps) (simp add: memget_def add.commute)
    show ?thesis
    proof (cases "k < ?z")
      case True
      have "4 - (k + 1) < 4 - k" using \<open>k < 4 \<and> k < length xs\<close> by linarith
      then show ?thesis unfolding s using less.hyps[of "k + 1"] \<open>k < 4 \<and> k < length xs\<close> True by simp
    next
      case False
      then have "?z = k" using less.prems(1) by simp
      then show ?thesis unfolding s using \<open>k < 4 \<and> k < length xs\<close> by simp
    qed
  next
    case False
    then have "min 4 ?z = k" using less.prems z by auto
    then show ?thesis using False g g' by (subst zero_run.simps) auto
  qed
qed

definition start_code :: "bytes \<Rightarrow> nat option" where
  "start_code xs = (if take 3 xs = [0, 0, 1] then Some 3 else if take 4 xs = [0, 0, 0, 1] then Some 4 else None)"

lemma start_code_zeros:
  "start_code xs =
     (let z = length (takeWhile (\<lambda>b. b = 0) xs) in if z < length xs \<and> z < 4 \<and> 2 \<le> z \<and> xs ! z = 1 then Some (z + 1) else None)"
proof -
  consider "xs = []" | a where "xs = [a]" | a b where "xs = [a, b]" | a b c where "xs = [a, b, c]" | a b c d ys where "xs = a # b # c # d # ys"
    by (metis list.exhaust)
  then show ?thesis by cases (auto simp: start_code_def Let_def)
qed

lemma code_at_drop: "code_at (drop s xs) j = code_at xs (s + j)"
  by (cases "s \<le> length xs") (auto simp: code_at_def ac_simps)

text \<open>The result of the search, for every stream: it is written with the plain definitions.\<close>

lemma getNextNaluLength_spec:
  assumes len: "length xs < 2 ^ 32 - 3"
  shows "getNextNaluLength (Some xs) (word_of_nat (length xs)) (Some a) (Some b) =
     Some (case start_code xs of
        None \<Rightarrow> (STATUS_RTP_INVALID_NALU, Some a, Some b)
      | Some s \<Rightarrow> (STATUS_SUCCESS, Some (word_of_nat s), Some (word_of_nat (nalu_len (drop s xs)))))"
proof -
  let ?z = "length (takeWhile (\<lambda>b. b = 0) xs)"
  let ?m = "min 4 ?z"
  have zl: "?z \<le> length xs" by (rule length_takeWhile_le)
  have run: "zero_run xs (word_of_nat (length xs)) 0 = Some (word_of_nat ?m)" using zero_run_spec[OF len, of 0] by simp
  have u: "unat (word_of_nat ?m :: u32) = ?m" by (intro unat_small32) simp
  have g: "(word_of_nat ?m < (word_of_nat (length xs) :: u32)) = (?m < length xs)"
    "(word_of_nat ?m < (4 :: u32)) = (?m < 4)" "((2 :: u32) \<le> word_of_nat ?m) = (2 \<le> ?m)"
    using scan_guard[OF len, of ?m] zl u by (simp_all add: word_less_nat_alt word_le_nat_alt)
  show ?thesis
  proof (cases "?z < length xs \<and> ?z < 4 \<and> 2 \<le> ?z \<and> xs ! ?z = 1")
    case False
    then have "start_code xs = None" by (simp add: start_code_zeros Let_def)
    then show ?thesis using False run g u by (auto simp: getNextNaluLength_def memget_def)
  next
    case True
    define s where "s = ?z + 1"
    have m: "?m = ?z" using True by simp
    have sc: "start_code xs = Some s" using True by (simp add: start_code_zeros Let_def s_def)
    have s: "3 \<le> s" "s \<le> length xs" "xs ! (s - 1) = 1" "s \<le> 4" using True by (auto simp: s_def)
    have us: "unat (word_of_nat s :: u32) = s" using s(4) by (intro unat_small32) simp
    have ul: "unat (word_of_nat (length xs) :: u32) = length xs" using len by (intro unat_small32) simp
    have w1: "word_of_nat ?m + 1 = (word_of_nat s :: u32)" by (simp add: s_def m)
    have red: "getNextNaluLength (Some xs) (word_of_nat (length xs)) (Some a) (Some b) =
        do { (offset, found) \<leftarrow> nalu_scan xs (word_of_nat (length xs)) (word_of_nat s) s;
             Some (STATUS_SUCCESS, Some (word_of_nat s),
               Some (min offset (word_of_nat (length xs)) - word_of_nat s - (case found of Some z \<Rightarrow> z | None \<Rightarrow> 0))) }"
      using True run g u us w1[unfolded m] unfolding getNextNaluLength_def by (simp add: m Let_def memget_def)
    show ?thesis
    proof (cases "next_code (drop s xs)")
      case None
      then have no: "\<not> code_at xs j" if "s \<le> j" for j
        using that by (metis next_code_None code_at_drop le_Suc_ex)
      have "s < length xs + 3" using s(2) by simp
      from nalu_scan_none[OF len s(1,3) order_refl this no] obtain o' where
        o': "length xs \<le> o'" "o' < length xs + 3" "nalu_scan xs (word_of_nat (length xs)) (word_of_nat s) s = Some (word_of_nat o', None)"
        by blast
      have "min (word_of_nat o') (word_of_nat (length xs)) = (word_of_nat (length xs) :: u32)"
        using o' len by (simp add: min_def word_le_nat_alt unat_small32)
      then show ?thesis using None s(2) unfolding red sc o'(3) by (simp add: nalu_len_def of_nat_diff)
    next
      case (Some i)
      have c: "code_at xs (s + i)" "\<And>j. s \<le> j \<Longrightarrow> j < s + i \<Longrightarrow> \<not> code_at xs j"
      proof -
        show "code_at xs (s + i)" using Some by (simp add: next_code_Some code_at_drop)
        fix j assume "s \<le> j" "j < s + i"
        then show "\<not> code_at xs j" using Some by (metis next_code_Some code_at_drop le_Suc_ex nat_add_left_cancel_less)
      qed
      have i: "s + i + 2 < length xs" using c(1) by (simp add: code_at_def)
      have sc': "nalu_scan xs (word_of_nat (length xs)) (word_of_nat s) s =
          Some (word_of_nat (s + i + 2), Some (if xs ! (s + i - 1) = 0 then 3 else 2))"
        using nalu_scan_found[OF len s(1,3) order_refl _ _ c] by simp
      have mn: "min (word_of_nat (s + i + 2)) (word_of_nat (length xs)) = (word_of_nat (s + i + 2) :: u32)"
        using i len by (intro min_word_of_nat) simp_all
      have b: "(xs ! (s + i - 1) = 0) = (0 < i \<and> drop s xs ! (i - 1) = 0)"
        using s(2,3) by (cases i) auto
      let ?P = "0 < i \<and> drop s xs ! (i - 1) = 0"
      have n: "nalu_len (drop s xs) = (if ?P then i - 1 else i)" using Some by (simp add: nalu_len_def)
      have "word_of_nat (s + i + 2) - word_of_nat s - (if ?P then 3 else 2) = (word_of_nat (if ?P then i - 1 else i) :: u32)"
        by (auto simp: of_nat_diff)
      then show ?thesis unfolding red sc sc' b n option.case bind.bind_lunit prod.case mn by (simp only:)
    qed
  qed
qed

section \<open>Streams of NAL units\<close>

text \<open>
  A frame is a list of NAL units, each with a flag that says whether its start code has four
  bytes. A well-formed NAL unit is not empty, does not end in a zero byte and contains no start
  code.
\<close>

type_synonym nalu_frame = "(bool \<times> bytes) list"

definition start_bytes :: "bool \<Rightarrow> bytes" where
  "start_bytes four = (if four then [0, 0, 0, 1] else [0, 0, 1])"

definition annexb :: "nalu_frame \<Rightarrow> bytes" where
  "annexb f = concat (map (\<lambda>(four, n). start_bytes four @ n) f)"

definition nalu_ok :: "bytes \<Rightarrow> bool" where
  "nalu_ok n = (n \<noteq> [] \<and> last n \<noteq> 0 \<and> next_code n = None)"

lemma annexb_simps [simp]: "annexb [] = []" "annexb ((four, n) # f) = start_bytes four @ n @ annexb f"
  by (simp_all add: annexb_def)

lemma length_start_bytes [simp]: "length (start_bytes four) = (if four then 4 else 3)"
  by (simp add: start_bytes_def)

lemma annexb_member: "(four, n) \<in> set f \<Longrightarrow> length n \<le> length (annexb f)"
  by (induction f) auto

lemma start_code_annexb: "start_code (start_bytes four @ xs) = Some (length (start_bytes four))"
  by (simp add: start_code_def start_bytes_def)

lemma nalu_ok_last: "nalu_ok n \<Longrightarrow> n ! (length n - 1) \<noteq> 0"
  by (metis last_conv_nth nalu_ok_def)

lemma code_at_append:
  assumes "nalu_ok n"
  shows "j < length n \<Longrightarrow> \<not> code_at (n @ ys) j"
proof
  assume j: "j < length n" "code_at (n @ ys) j"
  have l: "n ! (length n - 1) \<noteq> 0" using assms by (rule nalu_ok_last)
  have "\<not> code_at n j" using assms by (simp add: nalu_ok_def next_code_None)
  then have "length n \<le> j + 2" using j by (auto simp: code_at_def nth_append split: if_splits)
  with j(1) have "j = length n - 1 \<or> j + 1 = length n - 1" by linarith
  then show False
  proof
    assume "j = length n - 1"
    then show False using j l by (auto simp: code_at_def nth_append)
  next
    assume "j + 1 = length n - 1"
    moreover from this have "j + 1 < length n" by linarith
    ultimately show False using j l by (auto simp: code_at_def nth_append)
  qed
qed

lemma nalu_len_annexb:
  assumes "nalu_ok n"
  shows "nalu_len (n @ annexb f) = length n"
proof (cases f)
  case Nil
  then show ?thesis using assms by (simp add: nalu_len_def nalu_ok_def)
next
  case (Cons p f')
  obtain four m where p: "p = (four, m)" by (cases p)
  have l: "n ! (length n - 1) \<noteq> 0" "0 < length n" using nalu_ok_last[OF assms] assms by (simp_all add: nalu_ok_def)
  have no: "\<not> code_at (n @ annexb f) j" if "j < length n" for j using code_at_append[OF assms that] .
  show ?thesis
  proof (cases four)
    case False
    then have "code_at (n @ annexb f) (length n)" by (simp add: Cons p code_at_def start_bytes_def nth_append)
    then have "next_code (n @ annexb f) = Some (length n)" using no by (simp add: next_code_Some)
    then show ?thesis using l by (simp add: nalu_len_def nth_append)
  next
    case True
    then have "code_at (n @ annexb f) (length n + 1)" "\<not> code_at (n @ annexb f) (length n)"
      by (simp_all add: Cons p code_at_def start_bytes_def nth_append)
    then have "next_code (n @ annexb f) = Some (length n + 1)" using no
      by (auto simp: next_code_Some less_Suc_eq)
    then show ?thesis using True by (simp add: nalu_len_def nth_append Cons p start_bytes_def)
  qed
qed

lemma getNextNaluLength_annexb:
  assumes "nalu_ok n" "length (annexb ((four, n) # f)) < 2 ^ 32 - 3"
  shows "getNextNaluLength (Some (annexb ((four, n) # f))) (word_of_nat (length (annexb ((four, n) # f)))) (Some a) (Some b) =
     Some (STATUS_SUCCESS, Some (word_of_nat (length (start_bytes four))), Some (word_of_nat (length n)))"
  unfolding getNextNaluLength_spec[OF assms(2)]
  using start_code_annexb[of four "n @ annexb f"] nalu_len_annexb[OF assms(1), of f] by simp

section \<open>Fragments\<close>

fun fu_payloads :: "(bool \<Rightarrow> bool \<Rightarrow> bytes) \<Rightarrow> bool \<Rightarrow> bytes list \<Rightarrow> bytes list" where
  "fu_payloads hdr start [] = []"
| "fu_payloads hdr start (c # cs) = (hdr start (cs = []) @ c) # fu_payloads hdr False cs"

lemma length_fu_payloads [simp]: "length (fu_payloads hdr start cs) = length cs"
  by (induction hdr start cs rule: fu_payloads.induct) auto

lemma length_concat_fu_payloads:
  "(\<And>s e. length (hdr s e) = h) \<Longrightarrow> length (concat (fu_payloads hdr start cs)) = length (concat cs) + h * length cs"
  by (induction hdr start cs rule: fu_payloads.induct) auto

lemma fu_payloadsD: "p \<in> set (fu_payloads hdr start cs) \<Longrightarrow> \<exists>s e c. p = hdr s e @ c \<and> c \<in> set cs"
  by (induction hdr start cs rule: fu_payloads.induct) auto

lemma fu_loop_size:
  fixes k :: u32
  assumes "0 < unat k" "length xs < 2 ^ 32" "\<And>s e. length (hdr s e) = unat h"
  shows "fu_loop hdr h k nalu whole (word_of_nat (length xs)) pos off len n None =
     Some (STATUS_SUCCESS, len + word_of_nat (length (concat (fu_payloads hdr start (chunks (unat k) xs)))),
           n + word_of_nat (length (chunks (unat k) xs)), None)"
  using assms(2)
proof (induction "length xs" arbitrary: xs pos len n start rule: less_induct)
  case less
  show ?case
  proof (cases "xs = []")
    case True
    then show ?thesis by (subst fu_loop.simps) simp
  next
    case False
    define c ys where "c = take (unat k) xs" and "ys = drop (unat k) xs"
    note cons = piece_consumed[OF assms(1) False less.prems, folded c_def ys_def]
    have ch: "chunks (unat k) xs = c # chunks (unat k) ys" unfolding c_def ys_def using False assms(1) by (intro chunks_step)
    have nz: "(word_of_nat (length xs) :: u32) \<noteq> 0"
      using unat_small32[OF less.prems] False by (auto simp: word_unat_eq_iff)
    have "length ys < length xs" "length ys < 2 ^ 32" using False assms(1) less.prems by (auto simp: ys_def)
    note IH = less.hyps[OF this, of "pos + length c" "len + (h + word_of_nat (length c))" "n + 1" False]
    have "fu_loop hdr h k nalu whole (word_of_nat (length xs)) pos off len n None =
      fu_loop hdr h k nalu whole (word_of_nat (length ys)) (pos + length c) off (len + (h + word_of_nat (length c))) (n + 1) None"
      using nz cons by (subst fu_loop.simps) (simp add: Let_def)
    also note IH
    finally show ?thesis by (simp add: ch length_concat_fu_payloads[where h = "unat h", OF assms(3)] assms(3) algebra_simps)
  qed
qed

lemma fu_loop_fill:
  fixes k :: u32
  assumes "0 < unat k" "\<And>s e. length (hdr s e) = unat h" "unat h + unat k < 2 ^ 32"
    and "nalu = pre @ xs @ rest" "length xs \<le> W" "W < 2 ^ 32" "P = fu_payloads hdr (length xs = W) (chunks (unat k) xs)"
    and "unat len + length (concat P) \<le> unat (pc_maxLength pa)" "unat n + length P \<le> unat (pc_maxSubLenSize pa)"
    and "pc_buffer pa = Some buf" "pc_lens pa = Some lens"
    and "off + length (concat P) \<le> length buf" "pc_lens_at pa + unat n + length P \<le> length lens"
  shows "fu_loop hdr h k nalu (word_of_nat W) (word_of_nat (length xs)) (length pre) off len n (Some pa) =
     Some (STATUS_SUCCESS, len + word_of_nat (length (concat P)), n + word_of_nat (length P),
           Some (pa\<lparr>pc_buffer := Some (bsplice buf off (concat P)),
                    pc_lens := Some (bsplice lens (pc_lens_at pa + unat n) (map (\<lambda>p. word_of_nat (length p)) P))\<rparr>))"
  using assms(4-)
proof (induction "length xs" arbitrary: xs pre off len n pa buf lens P rule: less_induct)
  case less
  note P_def = less.prems(4) and fits = less.prems(5,6,9,10) and bufs = less.prems(7,8)
  show ?case
  proof (cases "xs = []")
    case True
    then show ?thesis using P_def bufs by (subst fu_loop.simps) simp
  next
    case False
    define c ys where "c = take (unat k) xs" and "ys = drop (unat k) xs"
    have xs: "xs = c @ ys" by (simp add: c_def ys_def)
    have lx: "length xs < 2 ^ 32" using less.prems(2,3) by simp
    note cons = piece_consumed[OF assms(1) False lx, folded c_def ys_def]
    have ch: "chunks (unat k) xs = c # chunks (unat k) ys" unfolding c_def ys_def using False assms(1) by (intro chunks_step)
    define x Q where "x = hdr (length xs = W) (ys = []) @ c" and "Q = fu_payloads hdr False (chunks (unat k) ys)"
    have "(chunks (unat k) ys = []) = (ys = [])" by (subst chunks.simps) (use assms(1) in simp)
    then have P: "P = x # Q" using P_def by (simp add: ch x_def Q_def)
    have lc: "length c \<le> unat k" by (simp add: c_def)
    have hc: "unat (h + word_of_nat (length c)) = unat h + length c" "unat h + length c < 2 ^ 32"
      using lc assms(3) cons(2) by (simp_all add: unat_word_ariths)
    have x: "length x = unat h + length c" "word_of_nat (length x) = h + word_of_nat (length c)" using assms(2) by (simp_all add: x_def)
    have nz: "(word_of_nat (length xs) :: u32) \<noteq> 0"
      using unat_small32[OF lx] False by (auto simp: word_unat_eq_iff)
    have n1: "unat (n + 1) = unat n + 1" "n + 1 \<le> pc_maxSubLenSize pa"
      using fits(2) unat_less32[of "pc_maxSubLenSize pa"] by (auto simp: P unat_word_ariths word_le_nat_alt)
    have l1: "unat (len + (h + word_of_nat (length c))) = unat len + length x" "len + (h + word_of_nat (length c)) \<le> pc_maxLength pa"
      using fits(1) unat_less32[of "pc_maxLength pa"] hc x(1) by (auto simp: P unat_word_ariths word_le_nat_alt)
    have first: "(word_of_nat (length xs) = (word_of_nat W :: u32)) = (length xs = W)"
      "(word_of_nat (length xs) = (word_of_nat (length c) :: u32)) = (ys = [])"
      using unat_small32[OF lx] unat_small32[OF less.prems(3)] cons(2) by (auto simp: word_unat_eq_iff xs)
    let ?b = "bsplice buf off x" and ?l = "bsplice lens (pc_lens_at pa + unat n) [word_of_nat (length x)]"
    have w: "memwrite buf off (hdr (length xs = W) (ys = [])) = Some (bsplice buf off (hdr (length xs = W) (ys = [])))"
      "memwrite (bsplice buf off (hdr (length xs = W) (ys = []))) (off + unat h) c = Some ?b"
      "memread nalu (length pre) (length c) = Some c"
      "memwrite lens (pc_lens_at pa + unat n) [h + word_of_nat (length c)] = Some ?l"
      using less.prems(1) fits(3,4) assms(2) by (simp_all add: P xs memwrite_def memread_def x_def)
    let ?pa = "pa\<lparr>pc_buffer := Some ?b, pc_lens := Some ?l\<rparr>"
    have "length ys < length xs" using False assms(1) by (simp add: ys_def)
    then have IH: "fu_loop hdr h k nalu (word_of_nat W) (word_of_nat (length ys)) (length (pre @ c)) (off + length x)
          (len + (h + word_of_nat (length c))) (n + 1) (Some ?pa) =
        Some (STATUS_SUCCESS, len + (h + word_of_nat (length c)) + word_of_nat (length (concat Q)), n + 1 + word_of_nat (length Q),
          Some (?pa\<lparr>pc_buffer := Some (bsplice ?b (off + length x) (concat Q)),
                    pc_lens := Some (bsplice ?l (pc_lens_at ?pa + unat (n + 1)) (map (\<lambda>p. word_of_nat (length p)) Q))\<rparr>))"
    proof (rule less.hyps)
      have "length ?b = length buf" "length ?l = length lens" using fits(3,4) by (simp_all add: P)
      then show "off + length x + length (concat Q) \<le> length ?b" "pc_lens_at ?pa + unat (n + 1) + length Q \<le> length ?l"
        using fits(3,4) n1 by (simp_all add: P)
      show "unat (len + (h + word_of_nat (length c))) + length (concat Q) \<le> unat (pc_maxLength ?pa)"
        "unat (n + 1) + length Q \<le> unat (pc_maxSubLenSize ?pa)"
        unfolding l1(1) n1(1) using fits(1,2) by (simp_all add: P)
      show "Q = fu_payloads hdr (length ys = W) (chunks (unat k) ys)"
        using \<open>length ys < length xs\<close> less.prems(2) by (simp add: Q_def)
    qed (use less.prems(1-3) in \<open>simp_all add: xs\<close>)
    have "fu_loop hdr h k nalu (word_of_nat W) (word_of_nat (length xs)) (length pre) off len n (Some pa) =
      fu_loop hdr h k nalu (word_of_nat W) (word_of_nat (length ys)) (length (pre @ c)) (off + length x)
          (len + (h + word_of_nat (length c))) (n + 1) (Some ?pa)"
      using nz cons n1(2) l1(2) w first bufs hc x(1) by (subst fu_loop.simps) (simp add: Let_def)
    also note IH
    finally show ?thesis using fits(3,4) n1(1) x by (simp add: P algebra_simps)
  qed
qed

section \<open>Steps that emit payloads\<close>

text \<open>
  What filling the array with the payloads \<open>P\<close> does to it, and the room this needs. \<open>emits step P\<close>
  is the contract of a call that payloads something: without an array it returns the size of \<open>P\<close>,
  with an array that has the room it also stores \<open>P\<close>.
\<close>

definition sub_lens :: "bytes list \<Rightarrow> u32 list" where
  "sub_lens P = map (\<lambda>p. word_of_nat (length p)) P"

definition wrote :: "bytes list \<Rightarrow> PayloadCursor \<Rightarrow> PayloadCursor" where
  "wrote P pa = pa\<lparr>pc_buffer := map_option (\<lambda>b. bsplice b (pc_at pa) (concat P)) (pc_buffer pa),
     pc_lens := map_option (\<lambda>l. bsplice l (pc_lens_at pa) (sub_lens P)) (pc_lens pa)\<rparr>"

definition emitted :: "bytes list \<Rightarrow> PayloadCursor \<Rightarrow> PayloadCursor" where
  "emitted P pa = advance (word_of_nat (length (concat P))) (word_of_nat (length P)) (wrote P pa)"

definition room :: "bytes list \<Rightarrow> PayloadCursor \<Rightarrow> bool" where
  "room P pa = (case (pc_buffer pa, pc_lens pa) of
     (Some buf, Some lens) \<Rightarrow> pc_at pa + length (concat P) \<le> length buf \<and> pc_lens_at pa + length P \<le> length lens \<and>
       length (concat P) \<le> unat (pc_maxLength pa) \<and> length P \<le> unat (pc_maxSubLenSize pa)
   | _ \<Rightarrow> False)"

definition emits :: "(PayloadCursor option \<Rightarrow> filled option) \<Rightarrow> bytes list \<Rightarrow> bool" where
  "emits step P = (step None = Some (STATUS_SUCCESS, word_of_nat (length (concat P)), word_of_nat (length P), None) \<and>
     (\<forall>pa. room P pa \<longrightarrow> step (Some pa) =
        Some (STATUS_SUCCESS, word_of_nat (length (concat P)), word_of_nat (length P), Some (wrote P pa))))"

lemma sub_lens_simps [simp]: "length (sub_lens P) = length P" "sub_lens (P @ Q) = sub_lens P @ sub_lens Q" "sub_lens [] = []"
  by (simp_all add: sub_lens_def)

lemma roomE:
  assumes "room P pa"
  obtains buf lens where "pc_buffer pa = Some buf" "pc_lens pa = Some lens" "pc_at pa + length (concat P) \<le> length buf"
    "pc_lens_at pa + length P \<le> length lens" "length (concat P) \<le> unat (pc_maxLength pa)" "length P \<le> unat (pc_maxSubLenSize pa)"
    "length (concat P) < 2 ^ 32" "length P < 2 ^ 32"
proof -
  obtain buf lens where "pc_buffer pa = Some buf" "pc_lens pa = Some lens"
    using assms by (auto simp: room_def split: option.splits)
  with assms that[OF this] show thesis
    using unat_less32[of "pc_maxLength pa"] unat_less32[of "pc_maxSubLenSize pa"] by (simp add: room_def)
qed

lemma emitted_append:
  assumes "room (P @ Q) pa"
  shows "emitted Q (emitted P pa) = emitted (P @ Q) pa" "room Q (emitted P pa)" "room P pa"
proof -
  from assms obtain buf lens where r: "pc_buffer pa = Some buf" "pc_lens pa = Some lens" "pc_at pa + length (concat (P @ Q)) \<le> length buf"
    "pc_lens_at pa + length (P @ Q) \<le> length lens" "length (concat (P @ Q)) \<le> unat (pc_maxLength pa)" "length (P @ Q) \<le> unat (pc_maxSubLenSize pa)"
    "length (concat (P @ Q)) < 2 ^ 32" "length (P @ Q) < 2 ^ 32" by (rule roomE)
  have u: "unat (word_of_nat (length (concat P)) :: u32) = length (concat P)" "unat (word_of_nat (length P) :: u32) = length P"
    "unat (word_of_nat (length (concat Q)) :: u32) = length (concat Q)" "unat (word_of_nat (length Q) :: u32) = length Q"
    "unat (word_of_nat (length (concat (P @ Q))) :: u32) = length (concat (P @ Q))" "unat (word_of_nat (length (P @ Q)) :: u32) = length (P @ Q)"
    using r(7,8) by (intro unat_small32; simp)+
  have m: "unat (pc_maxLength pa - word_of_nat (length (concat P))) = unat (pc_maxLength pa) - length (concat P)"
    "unat (pc_maxSubLenSize pa - word_of_nat (length P)) = unat (pc_maxSubLenSize pa) - length P"
    using r(5,6) u(1,2) by (simp_all add: unat_minus_below word_le_nat_alt)
  show "room Q (emitted P pa)"
    using r(1-6) u m by (simp add: room_def emitted_def wrote_def advance_def) linarith
  show "room P pa" using r by (simp add: room_def)
  have "emitted Q (emitted P pa) = pa\<lparr>pc_buffer := Some (bsplice buf (pc_at pa) (concat (P @ Q))),
      pc_lens := Some (bsplice lens (pc_lens_at pa) (sub_lens (P @ Q))), pc_at := pc_at pa + length (concat (P @ Q)),
      pc_lens_at := pc_lens_at pa + length (P @ Q), pc_maxLength := pc_maxLength pa - word_of_nat (length (concat (P @ Q))),
      pc_maxSubLenSize := pc_maxSubLenSize pa - word_of_nat (length (P @ Q))\<rparr>"
    using r(1-4) u(1-4) by (simp add: emitted_def wrote_def advance_def algebra_simps)
  also have "\<dots> = emitted (P @ Q) pa"
    using r(1,2) unfolding emitted_def wrote_def advance_def u(5,6) by simp
  finally show "emitted Q (emitted P pa) = emitted (P @ Q) pa" .
qed

lemma emits_single:
  assumes "length n < 2 ^ 32"
  shows "emits (single_nalu (n @ rest) (word_of_nat (length n))) [n]"
proof -
  have u: "unat (word_of_nat (length n) :: u32) = length n" using assms by (rule unat_small32)
  have "single_nalu (n @ rest) (word_of_nat (length n)) (Some pa) =
      Some (STATUS_SUCCESS, word_of_nat (length n), 1, Some (wrote [n] pa))" if "room [n] pa" for pa
    using that by (elim roomE)
      (simp add: single_nalu_def u word_le_nat_alt memread_def memwrite_def wrote_def sub_lens_def)
  then show ?thesis by (simp add: emits_def single_nalu_def)
qed

lemma emits_fragments:
  fixes k h :: u32
  assumes "0 < unat k" "\<And>s e. length (hdr s e) = unat h" "unat h + unat k < 2 ^ 32"
    and "length xs < 2 ^ 32" "P = fu_payloads hdr True (chunks (unat k) xs)"
  shows "emits (\<lambda>pPA. fu_loop hdr h k (pre @ xs @ rest) (word_of_nat (length xs)) (word_of_nat (length xs)) (length pre)
       (case pPA of None \<Rightarrow> 0 | Some pa \<Rightarrow> pc_at pa) 0 0 pPA) P"
proof -
  have "fu_loop hdr h k (pre @ xs @ rest) (word_of_nat (length xs)) (word_of_nat (length xs)) (length pre) (pc_at pa) 0 0 (Some pa) =
      Some (STATUS_SUCCESS, word_of_nat (length (concat P)), word_of_nat (length P), Some (wrote P pa))" if "room P pa" for pa
    using that
  proof (rule roomE, goal_cases)
    case (1 buf lens)
    then show ?case
      using fu_loop_fill[OF assms(1-3) refl order_refl assms(4), where pre = pre and rest = rest and len = 0 and n = 0 and off = "pc_at pa"
          and pa = pa and P = P and buf = buf and lens = lens]
      by (simp add: assms(5) wrote_def sub_lens_def)
  qed
  then show ?thesis
    using fu_loop_size[where hdr = hdr and nalu = "pre @ xs @ rest" and start = True and n = 0 and len = 0, OF assms(1,4,2)]
    by (simp add: emits_def assms(5))
qed

text \<open>The same for a step of a payloader, on the sizes or on the array.\<close>

definition added :: "bytes list \<Rightarrow> fill_state \<Rightarrow> fill_state" where
  "added P s = (case s of (len, n, pPA) \<Rightarrow> (case pPA of
     None \<Rightarrow> (len + word_of_nat (length (concat P)), n + word_of_nat (length P), None)
   | Some pa \<Rightarrow> (len, n, Some (emitted P pa))))"

definition fits :: "bytes list \<Rightarrow> fill_state \<Rightarrow> bool" where
  "fits P s = (case s of (len, n, pPA) \<Rightarrow> (case pPA of None \<Rightarrow> True | Some pa \<Rightarrow> room P pa))"

lemma add_emits: "emits step P \<Longrightarrow> fits P s \<Longrightarrow> add_filled step s = Some (STATUS_SUCCESS, added P s)"
  by (auto simp: emits_def fits_def add_filled_def added_def emitted_def split: prod.splits option.splits)

lemma added_append:
  assumes "fits (P @ Q) s"
  shows "fits P s" "fits Q (added P s)" "added Q (added P s) = added (P @ Q) s"
  using assms emitted_append by (auto simp: fits_def added_def algebra_simps split: prod.splits option.splits)

lemma added_Nil [simp]: "added [] s = s"
  by (auto simp: added_def emitted_def wrote_def advance_def option.map_ident split: prod.splits option.splits)

lemma init_array_laws:
  "fits P (init_array None a pLens b)"
  "finish_array None (Some c) pLens (Some d) (STATUS_SUCCESS, added P (init_array None a pLens b)) =
     Some (STATUS_SUCCESS, None, pLens, Some (word_of_nat (length (concat P))), Some (word_of_nat (length P)))"
  "length (concat P) < 2 ^ 32 \<Longrightarrow> length P < 2 ^ 32 \<Longrightarrow> length (concat P) \<le> length buf \<Longrightarrow> length P \<le> length lens \<Longrightarrow>
     fits P (init_array (Some buf) (word_of_nat (length (concat P))) (Some lens) (word_of_nat (length P)))"
  "finish_array (Some buf) (Some c) (Some lens) (Some d) (STATUS_SUCCESS, added P (init_array (Some buf) a (Some lens) b)) =
     Some (STATUS_SUCCESS, Some (concat P @ drop (length (concat P)) buf), Some (sub_lens P @ drop (length P) lens), Some a, Some b)"
  by (simp_all add: fits_def init_array_def finish_array_def added_def report_sizes_def room_def emitted_def advance_def wrote_def
      bsplice_def unat_small32)

text \<open>
  C18. The search of \<open>getNextNaluLength\<close> and \<open>getNextNaluLengthH265\<close>, which jumps over bytes, finds
  for every stream what the plain definition says: the stream starts with a start code of three or
  four bytes or is refused, and the NAL unit reaches up to the first following start code, without
  its third zero, or up to the end. No byte outside the stream is read.
\<close>

theorem nalu_search_correct:
  assumes "length xs < 2 ^ 32 - 3"
  shows "getNextNaluLength (Some xs) (word_of_nat (length xs)) (Some a) (Some b) =
     Some (case start_code xs of
        None \<Rightarrow> (STATUS_RTP_INVALID_NALU, Some a, Some b)
      | Some s \<Rightarrow> (STATUS_SUCCESS, Some (word_of_nat s), Some (word_of_nat (nalu_len (drop s xs))))) \<and>
    getNextNaluLengthH265 (Some xs) (word_of_nat (length xs)) (Some a) (Some b) =
      getNextNaluLength (Some xs) (word_of_nat (length xs)) (Some a) (Some b)"
  using getNextNaluLength_spec[OF assms] by (simp add: getNextNaluLengthH265_same)

theorem nalu_search_correct_witness:
  "getNextNaluLength (Some [0, 0, 1, 5, 6, 0, 0, 0, 1, 7]) (word_of_nat (length [0, 0, 1, 5, 6, 0, 0, 0, 1, 7 :: byte])) (Some 0) (Some 0) =
     Some (STATUS_SUCCESS, Some 3, Some 2)"
  using nalu_search_correct[of "[0, 0, 1, 5, 6, 0, 0, 0, 1, 7]" 0 0]
  by (simp add: start_code_def nalu_len_def next_code_def code_at_def upt_rec del: upt_Suc)

end
