(* ===== verification/RtpH265.thy ===== *)
theory RtpH265
  imports AnnexB
begin

text \<open>
  \<^verbatim>\<open>src/source/Rtp/Codecs/RtpH265Payloader.c\<close>: a NAL unit is sent in one packet, or in fragmentation
  units of RFC 7798 when it is larger than the MTU; the depayloader puts a start code in front of
  every NAL unit. The payloader keeps the contract of the locale \<open>payloader\<close> for the streams of
  well-formed NAL units, so that such a frame arrives with the same NAL units.
\<close>

section \<open>Model\<close>

text \<open>The header of a fragment; \<open>b0\<close> and \<open>b1\<close> are the first bytes of the NAL unit.\<close>

definition h265_fu_header :: "byte \<Rightarrow> byte \<Rightarrow> bool \<Rightarrow> bool \<Rightarrow> bytes" where
  "h265_fu_header b0 b1 isFirst isLast =
     (let naluType = drop_bit 1 (b0 AND 0x7E) in
      [push_bit 1 49 OR (b0 AND 0x81) OR (b0 AND 0x1), b1 AND 0xFF,
       if isFirst then (naluType AND 0x3F) OR 0x80 else if isLast then (naluType AND 0x3F) OR 0x40 else naluType AND 0x3F])"

definition createPayloadFromNaluH265 :: "u32 \<Rightarrow> bytes option \<Rightarrow> u32 \<Rightarrow> PayloadCursor option \<Rightarrow> filled option" where
  "createPayloadFromNaluH265 mtu pNalu naluLength pPA =
     map_option (report_filled (pPA = None))
       (case pNalu of
          None \<Rightarrow> Some (STATUS_NULL_ARG, 0, 0, pPA)
        | Some nalu \<Rightarrow>
            if \<not> (case pPA of None \<Rightarrow> True | Some pa \<Rightarrow> pc_lens pa \<noteq> None \<and> pc_buffer pa \<noteq> None)
            then Some (STATUS_NULL_ARG, 0, 0, pPA)
            else if \<not> (mtu > 3) then Some (STATUS_RTP_INPUT_MTU_TOO_SMALL, 0, 0, pPA)
            else do {
              b0 \<leftarrow> memget nalu 0;
              if naluLength \<le> mtu then single_nalu nalu naluLength pPA
              else do {
                b1 \<leftarrow> (case pPA of None \<Rightarrow> Some 0 | Some _ \<Rightarrow> memget nalu 1);
                fu_loop (h265_fu_header b0 b1) 3 (mtu - 3) nalu (naluLength - 2) (naluLength - 2) 2
                  (case pPA of None \<Rightarrow> 0 | Some pa \<Rightarrow> pc_at pa) 0 0 pPA } })"

text \<open>\<open>pos\<close> is the position of \<open>curPtrInNalus\<close>; the state holds the sizes and the array.\<close>

function h265_loop :: "u32 \<Rightarrow> bytes \<Rightarrow> u32 \<Rightarrow> nat \<Rightarrow> fill_state \<Rightarrow> filled option" where
  "h265_loop mtu nalus remaining pos s =
     (case getNextNaluLengthH265 (Some (drop pos nalus)) remaining (Some 0) (Some 0) of
        Some (status, Some start, Some naluLen) \<Rightarrow>
          if status \<noteq> STATUS_SUCCESS then Some (status, s)
          else if remaining - start = 0 then Some (STATUS_SUCCESS, s)
          else (case add_filled (createPayloadFromNaluH265 mtu (Some (drop (pos + unat start) nalus)) naluLen) s of
            None \<Rightarrow> None
          | Some (status, s) \<Rightarrow>
              if status \<noteq> STATUS_SUCCESS then Some (status, s)
              else if remaining - start - naluLen = 0 then Some (STATUS_SUCCESS, s)
              else h265_loop mtu nalus (remaining - start - naluLen) (pos + unat start + unat naluLen) s)
      | _ \<Rightarrow> None)"
  by pat_completeness auto

termination h265_loop
proof (relation "measure (\<lambda>(mtu, nalus, remaining, pos, s). length nalus - pos)", goal_cases)
  case (2 mtu nalus remaining pos s)
  then show ?case
    using nalu_found[of "drop pos nalus" remaining 0 0] by (auto simp: getNextNaluLengthH265_same)
qed simp

declare h265_loop.simps [simp del]

definition createPayloadForH265 ::
  "u32 \<Rightarrow> bytes option \<Rightarrow> u32 \<Rightarrow> bytes option \<Rightarrow> u32 option \<Rightarrow> u32 list option \<Rightarrow> u32 option \<Rightarrow> payload_result" where
  "createPayloadForH265 mtu pNalus nalusLength pBuf pLen pLens pSub =
     (case (pNalus, pSub, pLen) of
        (Some nalus, Some sub, Some len) \<Rightarrow>
          if \<not> (pBuf = None \<or> pLens \<noteq> None) then fail_early STATUS_NULL_ARG pBuf pLen pLens pSub
          else if \<not> (mtu > 3) then fail_early STATUS_RTP_INPUT_MTU_TOO_SMALL pBuf pLen pLens pSub
          else do { r \<leftarrow> h265_loop mtu nalus nalusLength 0 (init_array pBuf len pLens sub);
                    finish_array pBuf pLen pLens pSub r }
      | _ \<Rightarrow> fail_early STATUS_NULL_ARG pBuf pLen pLens pSub)"

definition depayH265FromRtpPayload :: "bytes option \<Rightarrow> u32 \<Rightarrow> bytes option \<Rightarrow> u32 option \<Rightarrow> depay_result" where
  "depayH265FromRtpPayload pRaw packetLength pData pLength =
     (case (pRaw, pLength) of
        (Some raw, Some maxLength) \<Rightarrow>
          if packetLength = 0 then Some (STATUS_SUCCESS, pData, Some 0, True)
          else do {
            b0 \<leftarrow> memget raw 0;
            let isFu = (drop_bit 1 b0 AND 0x3F = 49);
            isStart \<leftarrow> (if isFu then do { b2 \<leftarrow> memget raw 2; Some (b2 AND 0x80 \<noteq> 0) } else Some True);
            let headerSize = (if isFu then 3 else 0);
            let naluLength = packetLength - headerSize + (if isFu \<and> isStart then 2 else 0) + (if isStart then 4 else 0);
            case pData of
              None \<Rightarrow> Some (STATUS_SUCCESS, None, Some naluLength, isStart)
            | Some out \<Rightarrow>
                if \<not> (naluLength \<le> maxLength) then Some (STATUS_BUFFER_TOO_SMALL, pData, Some naluLength, isStart)
                else do {
                  (out, at) \<leftarrow> (if isStart
                     then do { out \<leftarrow> memwrite out 0 [0, 0, 0, 1];
                               if isFu
                               then do { b1 \<leftarrow> memget raw 1;
                                         b2 \<leftarrow> memget raw 2;
                                         out \<leftarrow> memwrite out 4 [push_bit 1 (b2 AND 0x3F) OR (b0 AND 0x81), b1];
                                         Some (out, 6) }
                               else Some (out, 4) }
                     else Some (out, 0));
                  d \<leftarrow> memread raw (unat headerSize) (unat (packetLength - headerSize));
                  out \<leftarrow> memwrite out at d;
                  Some (STATUS_SUCCESS, Some out, Some naluLength, isStart) } }
      | _ \<Rightarrow> Some (STATUS_NULL_ARG, pData, map_option (\<lambda>_. if pData = None then 0 else packetLength) pLength, True))"

section \<open>The payloads of a frame\<close>

definition h265_nalu_payloads :: "u32 \<Rightarrow> bytes \<Rightarrow> bytes list" where
  "h265_nalu_payloads mtu n =
     (if length n \<le> unat mtu then [n] else fu_payloads (h265_fu_header (n ! 0) (n ! 1)) True (chunks (unat mtu - 3) (drop 2 n)))"

definition h265_payloads :: "u32 \<Rightarrow> nalu_frame \<Rightarrow> bytes list" where
  "h265_payloads mtu f = concat (map (\<lambda>(_, n). h265_nalu_payloads mtu n) f)"

definition h265_type :: "byte \<Rightarrow> byte" where
  "h265_type b = drop_bit 1 b AND 0x3F"

definition h265_valid :: "u32 \<Rightarrow> nalu_frame \<Rightarrow> bool" where
  "h265_valid mtu f = (f \<noteq> [] \<and> 3 < unat mtu \<and> length (annexb f) < 2 ^ 28 \<and>
     (\<forall>(four, n) \<in> set f. nalu_ok n \<and> h265_type (n ! 0) \<noteq> 49))"

definition h265_strip :: "bytes \<Rightarrow> bytes" where
  "h265_strip p =
     (if h265_type (p ! 0) = 49
      then (if p ! 2 AND 0x80 \<noteq> 0 then [0, 0, 0, 1, push_bit 1 (p ! 2 AND 0x3F) OR (p ! 0 AND 0x81), p ! 1] @ drop 3 p else drop 3 p)
      else [0, 0, 0, 1] @ p)"

lemma length_h265_fu_header [simp]: "length (h265_fu_header b0 b1 s e) = 3"
  by (simp add: h265_fu_header_def Let_def)

lemma emits_h265_nalu:
  assumes "3 < unat mtu" "n \<noteq> []" "length n < 2 ^ 32"
  shows "emits (createPayloadFromNaluH265 mtu (Some (n @ rest)) (word_of_nat (length n))) (h265_nalu_payloads mtu n)"
proof -
  have m: "mtu > 3" using assms(1) by (simp add: word_less_nat_alt)
  have um: "unat (mtu - 3) = unat mtu - 3" using assms(1) by (subst unat_minus_below) (simp_all add: word_le_nat_alt)
  have u: "unat (word_of_nat (length n) :: u32) = length n" using assms(3) by (rule unat_small32)
  have b0: "memget (n @ rest) 0 = Some (n ! 0)" using assms(2) by (simp add: memget_def nth_append)
  show ?thesis
  proof (cases "length n \<le> unat mtu")
    case True
    then have le: "word_of_nat (length n) \<le> mtu" using u by (simp add: word_le_nat_alt)
    have P: "h265_nalu_payloads mtu n = [n]" using True by (simp add: h265_nalu_payloads_def)
    show ?thesis unfolding P using emits_single[OF assms(3), of rest] m b0 le
      by (auto simp: emits_def createPayloadFromNaluH265_def report_filled_def elim!: roomE)
  next
    case False
    define xs where "xs = drop 2 n"
    have n: "n = [n ! 0, n ! 1] @ xs" using False assms(1)
      by (cases n; cases "tl n") (auto simp: xs_def)
    have le: "\<not> word_of_nat (length n) \<le> mtu" using u False by (simp add: word_le_nat_alt)
    have b1: "memget (n @ rest) 1 = Some (n ! 1)" using False assms(1) by (simp add: memget_def nth_append)
    have w: "word_of_nat (length n) - 2 = (word_of_nat (length xs) :: u32)" by (subst n) simp
    have P: "h265_nalu_payloads mtu n = fu_payloads (h265_fu_header (n ! 0) (n ! 1)) True (chunks (unat (mtu - 3)) xs)"
      using False by (simp add: h265_nalu_payloads_def um xs_def)
    have em: "emits (\<lambda>pPA. fu_loop (h265_fu_header (n ! 0) (n ! 1)) 3 (mtu - 3) (n @ rest) (word_of_nat (length xs)) (word_of_nat (length xs)) 2
         (case pPA of None \<Rightarrow> 0 | Some pa \<Rightarrow> pc_at pa) 0 0 pPA) (h265_nalu_payloads mtu n)"
    proof -
      have nr: "n @ rest = [n ! 0, n ! 1] @ xs @ rest" "length [n ! 0, n ! 1] = 2" by (subst n, simp) simp
      have "0 < unat (mtu - 3)" "unat (3 :: u32) + unat (mtu - 3) < 2 ^ 32" "length xs < 2 ^ 32"
        using um assms(1,3) unat_less32[of mtu] by (simp_all add: xs_def)
      from emits_fragments[OF this(1) _ this(2,3) P, where pre = "[n ! 0, n ! 1]" and rest = rest]
      show ?thesis unfolding nr by simp
    qed
    have sz: "fu_loop (h265_fu_header (n ! 0) 0) 3 (mtu - 3) (n @ rest) (word_of_nat (length xs)) (word_of_nat (length xs)) 2 0 0 0 None =
        Some (STATUS_SUCCESS, word_of_nat (length (concat (h265_nalu_payloads mtu n))), word_of_nat (length (h265_nalu_payloads mtu n)), None)"
      using fu_loop_size[where k = "mtu - 3" and hdr = "h265_fu_header (n ! 0) 0" and h = 3 and xs = xs and len = 0 and n = 0] um assms(1,3)
      by (simp add: P length_concat_fu_payloads[where h = 3] xs_def)
    show ?thesis using em sz m b0 b1 le
      by (auto simp: emits_def createPayloadFromNaluH265_def report_filled_def w elim!: roomE)
  qed
qed

lemma h265_loop_frame:
  assumes "f \<noteq> []" "3 < unat mtu" "\<forall>(four, n) \<in> set f. nalu_ok n" "length (annexb f) < 2 ^ 32 - 3" "fits (h265_payloads mtu f) s"
  shows "h265_loop mtu (pre @ annexb f) (word_of_nat (length (annexb f))) (length pre) s = Some (STATUS_SUCCESS, added (h265_payloads mtu f) s)"
  using assms(1,3-5)
proof (induction f arbitrary: pre s)
  case Nil
  then show ?case by simp
next
  case (Cons p f)
  obtain four n where p: "p = (four, n)" by (cases p)
  let ?P = "h265_nalu_payloads mtu n" and ?pre = "pre @ start_bytes four"
  have n: "nalu_ok n" "n \<noteq> []" using Cons.prems(2) by (auto simp: p nalu_ok_def)
  have l: "length n < 2 ^ 32" "length (annexb f) < 2 ^ 32 - 3" using Cons.prems(3) by (auto simp: p split: if_splits)
  have u: "unat (word_of_nat (length n) :: u32) = length n" using l(1) by (rule unat_small32)
  have us: "unat (word_of_nat (length (start_bytes four)) :: u32) = length (start_bytes four)" by simp
  have P: "h265_payloads mtu (p # f) = ?P @ h265_payloads mtu f" by (simp add: h265_payloads_def p)
  note ap = added_append[OF Cons.prems(4)[unfolded P]]
  have next_nalu: "getNextNaluLengthH265 (Some (annexb (p # f))) (word_of_nat (length (annexb (p # f)))) (Some 0) (Some 0) =
      Some (STATUS_SUCCESS, Some (word_of_nat (length (start_bytes four))), Some (word_of_nat (length n)))"
    unfolding getNextNaluLengthH265_same using getNextNaluLength_annexb[of n four f] n(1) Cons.prems(3) by (simp only: p)
  have step: "add_filled (createPayloadFromNaluH265 mtu (Some (n @ annexb f)) (word_of_nat (length n))) s =
      Some (STATUS_SUCCESS, added ?P s)"
    by (rule add_emits[OF emits_h265_nalu[OF assms(2) n(2) l(1)] ap(1)])
  have r1: "word_of_nat (length (annexb (p # f))) - word_of_nat (length (start_bytes four)) = (word_of_nat (length (n @ annexb f)) :: u32)"
    "word_of_nat (length (n @ annexb f)) - word_of_nat (length n) = (word_of_nat (length (annexb f)) :: u32)"
    by (simp_all only: p annexb_simps length_append of_nat_add add_diff_cancel_left')
  have nz: "word_of_nat (length (n @ annexb f)) \<noteq> (0 :: u32)"
    using unat_small32[of "length (n @ annexb f)"] n(2) Cons.prems(3) by (auto simp: p word_unat_eq_iff split: if_splits)
  have z: "(word_of_nat (length (annexb f)) = (0 :: u32)) = (f = [])"
    using unat_small32[of "length (annexb f)"] l(2) by (cases f) (auto simp: word_unat_eq_iff start_bytes_def split: if_splits)
  have d: "drop (length pre) (pre @ annexb (p # f)) = annexb (p # f)"
    "drop (length pre + length (start_bytes four)) (pre @ annexb (p # f)) = n @ annexb f" by (simp_all add: p)
  have loop: "h265_loop mtu (pre @ annexb (p # f)) (word_of_nat (length (annexb (p # f)))) (length pre) s =
      (if f = [] then Some (STATUS_SUCCESS, added ?P s)
       else h265_loop mtu (pre @ annexb (p # f)) (word_of_nat (length (annexb f))) (length pre + length (start_bytes four) + length n) (added ?P s))"
    by (subst h265_loop.simps) (simp only: d next_nalu step r1 nz z u us option.case prod.case simp_thms if_False if_True)
  show ?case
  proof (cases "f = []")
    case True
    then show ?thesis using loop by (simp add: P h265_payloads_def p)
  next
    case False
    have "h265_loop mtu ((pre @ start_bytes four @ n) @ annexb f) (word_of_nat (length (annexb f))) (length (pre @ start_bytes four @ n)) (added ?P s) =
        Some (STATUS_SUCCESS, added (h265_payloads mtu f) (added ?P s))"
      by (rule Cons.IH[OF False _ l(2) ap(2)]) (use Cons.prems(2) in auto)
    then show ?thesis unfolding loop P ap(3) using False by (simp add: p add.assoc)
  qed
qed

section \<open>Depayloading\<close>

lemma byte_bits: "n < 8 \<longleftrightarrow> n = 0 \<or> n = 1 \<or> n = 2 \<or> n = 3 \<or> n = 4 \<or> n = 5 \<or> n = 6 \<or> n = (7 :: nat)"
  by auto

text \<open>The fields of a fragment header, read back by the depayloader.\<close>

lemma fu_header_type: "h265_type (push_bit 1 49 OR (b AND 0x81) OR (b AND 0x1)) = 49"
  unfolding h265_type_def by (rule bit_word_eqI) (auto simp: bit_simps byte_bits)

lemma fu_header_flag:
  "(x OR 0x80) AND 0x80 \<noteq> (0 :: byte)" "((drop_bit 1 (b AND 0x7E) AND 0x3F) OR 0x40) AND 0x80 = (0 :: byte)"
  "(drop_bit 1 (b AND 0x7E) AND 0x3F) AND 0x80 = (0 :: byte)"
proof -
  have "bit ((x OR 0x80) AND 0x80) 7" by (simp add: bit_simps)
  then show "(x OR 0x80) AND 0x80 \<noteq> 0" by auto
qed (rule bit_word_eqI, auto simp: bit_simps byte_bits)+

lemma fu_header_first_byte:
  "push_bit 1 (((drop_bit 1 (b AND 0x7E) AND 0x3F) OR 0x80) AND 0x3F) OR ((push_bit 1 49 OR (b AND 0x81) OR (b AND 0x1)) AND 0x81) = (b :: byte)"
  (is "?x = b")
proof (rule bit_word_eqI)
  fix n assume "n < LENGTH(8)"
  then have "n = 0 \<or> n = 1 \<or> n = 2 \<or> n = 3 \<or> n = 4 \<or> n = 5 \<or> n = 6 \<or> n = 7" by auto
  then show "bit ?x n = bit b n"
    by (elim disjE) (hypsubst, simp only: bit_or_iff bit_and_iff bit_push_bit_iff bit_drop_bit_eq comp_def, (simp; simp add: numeral_eq_Suc))+
qed

lemma fu_header_fields:
  obtains x z where "h265_fu_header b0 b1 isFirst isLast = [x, b1, z]" "h265_type x = 49" "(z AND 0x80 \<noteq> 0) = isFirst"
    "isFirst \<longrightarrow> push_bit 1 (z AND 0x3F) OR (x AND 0x81) = b0"
proof -
  have b1: "b1 AND 0xFF = b1" by (rule bit_word_eqI) (auto simp: bit_simps byte_bits)
  show thesis
  proof (rule that)
    show "h265_fu_header b0 b1 isFirst isLast = [push_bit 1 49 OR (b0 AND 0x81) OR (b0 AND 0x1), b1,
       if isFirst then (drop_bit 1 (b0 AND 0x7E) AND 0x3F) OR 0x80
       else if isLast then (drop_bit 1 (b0 AND 0x7E) AND 0x3F) OR 0x40 else drop_bit 1 (b0 AND 0x7E) AND 0x3F]"
      by (simp only: h265_fu_header_def Let_def b1)
  qed (simp_all only: fu_header_type fu_header_flag fu_header_first_byte if_True if_False simp_thms split: if_split, blast)
qed

lemma h265_strip_fragment:
  "h265_strip (h265_fu_header b0 b1 isFirst isLast @ c) = (if isFirst then [0, 0, 0, 1, b0, b1] else []) @ c"
proof -
  obtain x z where "h265_fu_header b0 b1 isFirst isLast = [x, b1, z]" "h265_type x = 49" "(z AND 0x80 \<noteq> 0) = isFirst"
    "isFirst \<longrightarrow> push_bit 1 (z AND 0x3F) OR (x AND 0x81) = b0" by (rule fu_header_fields[of b0 b1 isFirst isLast])
  then show ?thesis by (cases isFirst) (simp_all add: h265_strip_def del: push_bit_and)
qed

lemma h265_strip_fragments:
  "concat (map h265_strip (fu_payloads (h265_fu_header b0 b1) isFirst cs)) = (if isFirst \<and> cs \<noteq> [] then [0, 0, 0, 1, b0, b1] else []) @ concat cs"
  by (induction "h265_fu_header b0 b1" isFirst cs rule: fu_payloads.induct) (simp_all add: h265_strip_fragment)

lemma h265_nalu_reassembled:
  assumes "3 < unat mtu" "h265_type (n ! 0) \<noteq> 49"
  shows "concat (map h265_strip (h265_nalu_payloads mtu n)) = [0, 0, 0, 1] @ n"
proof (cases "length n \<le> unat mtu")
  case True
  then show ?thesis using assms(2) by (simp add: h265_nalu_payloads_def h265_strip_def)
next
  case False
  then have "n = [n ! 0, n ! 1] @ drop 2 n" "drop 2 n \<noteq> []" using assms(1) by (cases n; cases "tl n"; auto)+
  moreover from this have "chunks (unat mtu - 3) (drop 2 n) \<noteq> []" using assms(1) by (subst chunks.simps) simp
  ultimately show ?thesis using False assms(1) by (simp add: h265_nalu_payloads_def h265_strip_fragments)
qed

text \<open>The bytes a payload must have for the depayloader: a NAL unit, or a fragment header and data.\<close>

definition h265_payload_ok :: "bytes \<Rightarrow> bool" where
  "h265_payload_ok p = (p \<noteq> [] \<and> length p < 2 ^ 31 \<and> (h265_type (p ! 0) = 49 \<longrightarrow> 3 \<le> length p))"

lemma depay_h265:
  assumes "h265_payload_ok p"
  shows "\<exists>start. depayH265FromRtpPayload (Some (p @ rest)) (word_of_nat (length p)) None (Some a) =
      Some (STATUS_SUCCESS, None, Some (word_of_nat (length (h265_strip p))), start)" (is ?size)
    and "length (h265_strip p) \<le> length out \<Longrightarrow>
      \<exists>start. depayH265FromRtpPayload (Some (p @ rest)) (word_of_nat (length p)) (Some out) (Some (word_of_nat (length (h265_strip p)))) =
        Some (STATUS_SUCCESS, Some (h265_strip p @ drop (length (h265_strip p)) out), Some (word_of_nat (length (h265_strip p))), start)"
      (is "_ \<Longrightarrow> ?data")
proof -
  have l: "length p < 2 ^ 31" "p \<noteq> []" using assms by (simp_all add: h265_payload_ok_def)
  have u: "unat (word_of_nat (length p) :: u32) = length p" using l by (intro unat_small32) simp
  have nz: "(word_of_nat (length p) :: u32) \<noteq> 0" using u l by (auto simp: word_unat_eq_iff)
  have "?size \<and> (length (h265_strip p) \<le> length out \<longrightarrow> ?data)"
  proof (cases "h265_type (p ! 0) = 49")
    case True
    then have "3 \<le> length p" using assms by (simp add: h265_payload_ok_def)
    then obtain x y z c where p: "p = x # y # z # c" by (auto simp: numeral_3_eq_3 Suc_le_length_iff)
    have t: "drop_bit (Suc 0) x AND 0x3F = 49" using True by (simp add: p h265_type_def)
    have lc: "unat (word_of_nat (length c) :: u32) = length c" using l(1) by (intro unat_small32) (simp add: p)
    have w: "word_of_nat (length p) - 3 = (word_of_nat (length c) :: u32)" by (simp add: p)
    have m: "memget (p @ rest) 0 = Some x" "memget (p @ rest) 1 = Some y" "memget (p @ rest) 2 = Some z"
      "memread (p @ rest) 3 (length c) = Some c" by (simp_all add: p memget_def memread_def)
    show ?thesis
    proof (cases "z AND 0x80 = 0")
      case True
      then have "h265_strip p = c" using t by (simp add: p h265_strip_def h265_type_def)
      then show ?thesis using True nz lc t w m
        by (simp add: depayH265FromRtpPayload_def Let_def memwrite_def bsplice_def) blast
    next
      case False
      define q where "q = push_bit 1 (z AND 0x3F) OR (x AND 0x81)"
      have st: "h265_strip p = [0, 0, 0, 1, q, y] @ c" using t False by (simp add: p h265_strip_def h265_type_def q_def)
      have ln: "word_of_nat (length c) + 2 + 4 = (word_of_nat (length (h265_strip p)) :: u32)" unfolding st by simp
      have wr: "memwrite out 0 [0, 0, 0, 1] = Some (bsplice out 0 [0, 0, 0, 1])"
        "memwrite (bsplice out 0 [0, 0, 0, 1]) 4 [q, y] = Some (bsplice out 0 [0, 0, 0, 1, q, y])"
        "memwrite (bsplice out 0 [0, 0, 0, 1, q, y]) 6 c = Some (h265_strip p @ drop (length (h265_strip p)) out)"
        if "length (h265_strip p) \<le> length out"
        using that by (simp_all add: st memwrite_def) (simp add: bsplice_def)
      show ?thesis using False nz lc t w m wr ln q_def
        by (simp add: depayH265FromRtpPayload_def Let_def del: push_bit_and) blast
    qed
  next
    case False
    then have t: "drop_bit (Suc 0) (p ! 0) AND 0x3F \<noteq> 49" and st: "h265_strip p = [0, 0, 0, 1] @ p"
      by (simp_all add: h265_strip_def h265_type_def)
    have m: "memget (p @ rest) 0 = Some (p ! 0)" "memread (p @ rest) 0 (length p) = Some p"
      using l(2) by (simp_all add: memget_def memread_def nth_append)
    have ln: "word_of_nat (length p) + 4 = (word_of_nat (length (h265_strip p)) :: u32)" unfolding st by simp
    have wr: "memwrite out 0 [0, 0, 0, 1] = Some (bsplice out 0 [0, 0, 0, 1])"
      "memwrite (bsplice out 0 [0, 0, 0, 1]) 4 p = Some (h265_strip p @ drop (length (h265_strip p)) out)"
      if "length (h265_strip p) \<le> length out"
      using that by (simp_all add: st memwrite_def) (simp add: bsplice_def)
    show ?thesis using nz u t m wr ln by (simp add: depayH265FromRtpPayload_def Let_def) blast
  qed
  then show ?size and "length (h265_strip p) \<le> length out \<Longrightarrow> ?data" by blast+
qed

section \<open>The contract of the payloader\<close>

lemma h265_nalu_payload_bounds:
  assumes "3 < unat mtu" "n \<noteq> []" "length n < 2 ^ 28" "h265_type (n ! 0) \<noteq> 49" "p \<in> set (h265_nalu_payloads mtu n)"
  shows "0 < length p" "length p \<le> unat mtu" "h265_payload_ok p"
proof -
  show "0 < length p" "length p \<le> unat mtu" "h265_payload_ok p"
  proof (atomize (full), cases "length n \<le> unat mtu")
    case True
    then show "0 < length p \<and> length p \<le> unat mtu \<and> h265_payload_ok p"
      using assms by (auto simp: h265_nalu_payloads_def h265_payload_ok_def)
  next
    case False
    then obtain s e c where p: "p = h265_fu_header (n ! 0) (n ! 1) s e @ c" "c \<in> set (chunks (unat mtu - 3) (drop 2 n))"
      using assms(5) by (auto simp: h265_nalu_payloads_def dest!: fu_payloadsD)
    have "length c \<le> unat mtu - 3" "length c \<le> length n"
      using chunks_bounds[OF _ p(2)] length_concat_ge[OF p(2)] assms(1) by auto
    then show "0 < length p \<and> length p \<le> unat mtu \<and> h265_payload_ok p"
      using assms(1,3) length_h265_fu_header[of "n ! 0" "n ! 1" s e] by (auto simp: p(1) h265_payload_ok_def simp del: length_h265_fu_header)
  qed
qed

lemma h265_nalu_payloads_size:
  assumes "3 < unat mtu"
  shows "length (concat (h265_nalu_payloads mtu n)) \<le> 4 * length n" "h265_nalu_payloads mtu n \<noteq> []"
proof -
  let ?cs = "chunks (unat mtu - 3) (drop 2 n)"
  have "\<forall>c \<in> set ?cs. 0 < length c" using chunks_bounds[of "unat mtu - 3"] assms by auto
  then have "length ?cs \<le> length (concat ?cs)" by (rule length_le_concat)
  then show "length (concat (h265_nalu_payloads mtu n)) \<le> 4 * length n"
    using assms by (simp add: h265_nalu_payloads_def length_concat_fu_payloads[where h = 3]) linarith
  show "h265_nalu_payloads mtu n \<noteq> []"
  proof (cases "length n \<le> unat mtu")
    case False
    then have "?cs \<noteq> []" using assms by (subst chunks.simps) auto
    then show ?thesis using False by (cases ?cs) (auto simp: h265_nalu_payloads_def)
  qed (simp add: h265_nalu_payloads_def)
qed

lemma h265_frame_size:
  assumes "3 < unat mtu"
  shows "length (concat (h265_payloads mtu f)) \<le> 4 * length (annexb f)"
proof (induction f)
  case (Cons p f)
  then show ?case using h265_nalu_payloads_size(1)[OF assms, of "snd p"] by (cases p) (simp add: h265_payloads_def)
qed (simp add: h265_payloads_def)

lemma h265_payload_bounds:
  assumes "h265_valid mtu f" "p \<in> set (h265_payloads mtu f)"
  shows "0 < length p \<and> length p \<le> unat mtu" "h265_payload_ok p"
proof -
  obtain four n where n: "(four, n) \<in> set f" "p \<in> set (h265_nalu_payloads mtu n)"
    using assms(2) by (auto simp: h265_payloads_def)
  have "n \<noteq> []" "h265_type (n ! 0) \<noteq> 49" "length n < 2 ^ 28" "3 < unat mtu"
    using assms(1) n(1) annexb_member[OF n(1)] by (auto simp: h265_valid_def nalu_ok_def)
  from h265_nalu_payload_bounds[OF this(4,1,3,2) n(2)]
  show "0 < length p \<and> length p \<le> unat mtu" "h265_payload_ok p" by auto
qed

lemma h265_strip_small: "h265_payload_ok p \<Longrightarrow> length (h265_strip p) < 2 ^ 32"
  by (auto simp: h265_payload_ok_def h265_strip_def)

lemma h265_counts:
  assumes "h265_valid mtu f"
  shows "length (concat (h265_payloads mtu f)) < 2 ^ 30" "length (h265_payloads mtu f) < 2 ^ 30"
proof -
  show s: "length (concat (h265_payloads mtu f)) < 2 ^ 30"
    using h265_frame_size[of mtu f] assms by (simp add: h265_valid_def)
  have "\<forall>p \<in> set (h265_payloads mtu f). 0 < length p" using h265_payload_bounds(1)[OF assms] by blast
  then show "length (h265_payloads mtu f) < 2 ^ 30" using length_le_concat[of "h265_payloads mtu f"] s by simp
qed

lemma h265_create:
  assumes "h265_valid mtu f" "fits (h265_payloads mtu f) (init_array pBuf len pLens sub)" "pBuf = None \<or> pLens \<noteq> None"
  shows "createPayloadForH265 mtu (Some (annexb f)) (word_of_nat (length (annexb f))) pBuf (Some len) pLens (Some sub) =
     finish_array pBuf (Some len) pLens (Some sub) (STATUS_SUCCESS, added (h265_payloads mtu f) (init_array pBuf len pLens sub))"
proof -
  have v: "f \<noteq> []" "3 < unat mtu" "\<forall>(four, n) \<in> set f. nalu_ok n" "length (annexb f) < 2 ^ 32 - 3"
    using assms(1) by (auto simp: h265_valid_def)
  show ?thesis
    using h265_loop_frame[OF v assms(2), of "[]"] v(2) assms(3) by (auto simp: createPayloadForH265_def word_less_nat_alt)
qed

interpretation h265: payloader createPayloadForH265 depayH265FromRtpPayload annexb h265_valid h265_payloads h265_strip
  "\<lambda>f d. d = annexb (map (\<lambda>(_, n). (True, n)) f)"
proof (unfold_locales, goal_cases)
  case (1 mtu f)
  then obtain p g where "f = p # g" "3 < unat mtu" by (cases f) (auto simp: h265_valid_def)
  then have "h265_payloads mtu f \<noteq> []" using h265_nalu_payloads_size(2)[of mtu "snd p"] by (cases p) (simp add: h265_payloads_def)
  then show ?case using h265_payload_bounds(1)[OF 1] by blast
next
  case (2 mtu f)
  then show ?case using h265_counts(1)[OF 2] by simp
next
  case (3 mtu f a b)
  show ?case using h265_create[OF 3 init_array_laws(1)] by (simp add: init_array_laws(2))
next
  case (4 mtu f buf lens)
  let ?P = "h265_payloads mtu f"
  have "fits ?P (init_array (Some buf) (word_of_nat (length (concat ?P))) (Some lens) (word_of_nat (length ?P)))"
    using h265_counts[OF 4(1)] 4(2,3) by (intro init_array_laws(3)) simp_all
  from h265_create[OF 4(1) this] show ?case by (simp add: init_array_laws(4) sub_lens_def)
next
  case (5 mtu f p rest a)
  then show ?case using depay_h265(1)[OF h265_payload_bounds(2)[OF 5]] h265_strip_small[OF h265_payload_bounds(2)[OF 5]] by blast
next
  case (6 mtu f p out rest)
  then show ?case using depay_h265(2)[OF h265_payload_bounds(2)[OF 6(1,2)]] by blast
next
  case (7 mtu f)
  then have v: "3 < unat mtu" "\<forall>(four, n) \<in> set f. h265_type (n ! 0) \<noteq> 49" by (auto simp: h265_valid_def)
  from v(2) show ?case
  proof (induction f)
    case (Cons p f)
    then show ?case using h265_nalu_reassembled[OF v(1), of "snd p"]
      by (cases p) (simp add: h265_payloads_def start_bytes_def)
  qed (simp add: h265_payloads_def)
qed

text \<open>
  C19. An H.265 frame survives the transport: a stream of well-formed NAL units (none of which is
  itself a fragmentation unit) is sent in packets of at most the MTU and a header, and the
  receiver obtains the same NAL units in the same order, each after a start code of four bytes.
\<close>

theorem h265_frame_transport:
  assumes "f \<noteq> []" "3 < unat mtu" "length (annexb f) < 2 ^ 28"
    and "\<forall>(four, n) \<in> set f. nalu_ok n \<and> h265_type (n ! 0) \<noteq> 49" "pt < 128"
  shows "\<exists>raws ds. send_frame createPayloadForH265 mtu (annexb f) pt seq ts src junk = Some raws \<and>
     (\<forall>raw \<in> set raws. length raw \<le> 12 + unat mtu) \<and>
     those (map (receive_packet depayH265FromRtpPayload isBig junk') raws) = Some ds \<and>
     concat ds = annexb (map (\<lambda>(_, n). (True, n)) f)"
proof -
  have "h265_valid mtu f" using assms by (auto simp: h265_valid_def)
  from h265.frame_transport[OF this assms(5)] show ?thesis by blast
qed

theorem h265_frame_transport_witness:
  "\<exists>raws ds. send_frame createPayloadForH265 5 (annexb [(False, [0x40, 1, 2]), (True, [0x02, 1, 2, 3, 4, 5, 6])]) 98 65535 0 7 packet0 = Some raws \<and>
     (\<forall>raw \<in> set raws. length raw \<le> 12 + unat (5 :: u32)) \<and>
     those (map (receive_packet depayH265FromRtpPayload False packet0) raws) = Some ds \<and>
     concat ds = annexb (map (\<lambda>(_, n). (True, n)) [(False, [0x40, 1, 2]), (True, [0x02, 1, 2, 3, 4, 5, 6])])"
  by (rule h265_frame_transport)
    (simp_all add: start_bytes_def nalu_ok_def next_code_def code_at_def h265_type_def upt_rec del: upt_Suc)

text \<open>
  A fragment of two bytes. The depayloader does not compare the length of a fragmentation unit
  with its header: for a fragment of two bytes the computed size is five, so that a buffer of five
  bytes is accepted, and then \<open>packetLength - headerSize\<close>, which has wrapped around to \<open>2 ^ 32 - 1\<close>,
  bytes are copied.
\<close>

lemma h265_short_fragment:
  "depayH265FromRtpPayload (Some [0x62, 1, 0x80]) 2 None (Some 0) = Some (STATUS_SUCCESS, None, Some 5, True) \<and>
   depayH265FromRtpPayload (Some [0x62, 1, 0x80]) 2 (Some [0, 0, 0, 0, 0]) (Some 5) = None"
  by (simp add: depayH265FromRtpPayload_def memget_def memread_def memwrite_def Let_def)

end
