(* ===== verification/RtpH264.thy ===== *)
theory RtpH264
  imports AnnexB
begin

text \<open>
  \<^verbatim>\<open>src/source/Rtp/Codecs/RtpH264Payloader.c\<close>: small NAL units that fit together are sent in one
  aggregation packet (STAP-A), a NAL unit larger than the MTU in fragmentation units (FU-A), any
  other one in a packet of its own. The depayloader handles STAP-A, STAP-B, FU-A, FU-B and single
  NAL units, and reports whether the packet starts a frame, for which it decodes the Exp-Golomb
  code at the start of a slice header.
\<close>

section \<open>The first macroblock of a slice\<close>

text \<open>
  \<open>h264ReadUeGolomb\<close>. At most 64 bits are read, so that bit positions and counts are natural
  numbers; the decoded value keeps its width. The outer option is an access outside the data, the
  inner one the result \<open>FALSE\<close>.
\<close>

definition emulation_byte :: "bytes \<Rightarrow> nat \<Rightarrow> bool option" where
  "emulation_byte d i =
     (if 2 \<le> i then do { a \<leftarrow> memget d i; b \<leftarrow> memget d (i - 1); c \<leftarrow> memget d (i - 2); Some (a = 3 \<and> b = 0 \<and> c = 0) }
      else Some False)"

function ue_zeros :: "bytes \<Rightarrow> nat \<Rightarrow> nat \<Rightarrow> nat \<Rightarrow> (nat \<times> nat) option" where
  "ue_zeros d maxBits bitPos zeroBits =
     (if bitPos < maxBits
      then do { skip \<leftarrow> emulation_byte d (bitPos div 8);
                if skip then ue_zeros d maxBits (bitPos + 8) zeroBits
                else do { b \<leftarrow> memget d (bitPos div 8);
                          if drop_bit (7 - bitPos mod 8) b AND 1 \<noteq> 0 then Some (bitPos, zeroBits)
                          else ue_zeros d maxBits (bitPos + 1) (zeroBits + 1) } }
      else Some (bitPos, zeroBits))"
  by pat_completeness auto

termination ue_zeros
  by (relation "measure (\<lambda>(d, maxBits, bitPos, zeroBits). maxBits - bitPos)") auto

declare ue_zeros.simps [simp del]

fun ue_bits :: "bytes \<Rightarrow> nat \<Rightarrow> nat \<Rightarrow> nat \<Rightarrow> u32 \<Rightarrow> u32 option option" where
  "ue_bits d maxBits 0 bitPos val = Some (Some val)"
| "ue_bits d maxBits (Suc k) bitPos val =
     do { skip \<leftarrow> emulation_byte d (bitPos div 8);
          let bitPos = (if skip then bitPos + 8 else bitPos);
          if skip \<and> bitPos + Suc k > maxBits then Some None
          else do { b \<leftarrow> memget d (bitPos div 8);
                    ue_bits d maxBits k (bitPos + 1) (push_bit 1 val OR (ucast (drop_bit (7 - bitPos mod 8) b) AND 1)) } }"

definition h264ReadUeGolomb :: "bytes \<Rightarrow> u32 \<Rightarrow> u32 option option" where
  "h264ReadUeGolomb d nBytes =
     (let maxBits = (if nBytes < 8 then unat nBytes else 8) * 8 in
      do { (bitPos, zeroBits) \<leftarrow> ue_zeros d maxBits 0 0;
           if maxBits \<le> bitPos \<or> 32 \<le> zeroBits then Some None
           else if bitPos + 1 + zeroBits > maxBits then Some None
           else do { r \<leftarrow> ue_bits d maxBits zeroBits (bitPos + 1) 0;
                     Some (map_option (\<lambda>val. push_bit zeroBits 1 - 1 + val) r) } })"

text \<open>The NAL unit types: 1 slice, 5 IDR, 6 SEI, 7 SPS, 8 PPS, 9 AUD.\<close>

definition h264NaluIsFrameStart :: "bytes option \<Rightarrow> u32 \<Rightarrow> bool option" where
  "h264NaluIsFrameStart pNalu naluLen =
     (case pNalu of
        None \<Rightarrow> Some False
      | Some nalu \<Rightarrow>
          if naluLen = 0 then Some False
          else do {
            b \<leftarrow> memget nalu 0;
            let naluType = b AND 31;
            if naluType \<in> {7, 8, 6, 9} then Some True
            else if naluType \<in> {1, 5}
            then (if naluLen < 2 then Some False
                  else do { firstMb \<leftarrow> h264ReadUeGolomb (drop 1 nalu) (naluLen - 1);
                            Some (case firstMb of None \<Rightarrow> False | Some v \<Rightarrow> v = 0) })
            else Some False })"

section \<open>Payloading\<close>

text \<open>\<open>pNalu\<close> points into the frame: it is a position.\<close>

record NaluInfo =
  ni_pNalu :: nat
  ni_length :: u32

fun stap_measure :: "bytes \<Rightarrow> NaluInfo list \<Rightarrow> u32 \<Rightarrow> byte \<Rightarrow> (u32 \<times> byte) option" where
  "stap_measure nalus [] totalSize maxNri = Some (totalSize, maxNri)"
| "stap_measure nalus (info # infos) totalSize maxNri =
     do { b \<leftarrow> memget nalus (ni_pNalu info);
          let nri = b AND 0x60;
          stap_measure nalus infos (totalSize + (2 + ni_length info)) (if nri > maxNri then nri else maxNri) }"

fun stap_write :: "bytes \<Rightarrow> NaluInfo list \<Rightarrow> bytes \<Rightarrow> nat \<Rightarrow> bytes option" where
  "stap_write nalus [] buf at = Some buf"
| "stap_write nalus (info # infos) buf at =
     do { buf \<leftarrow> putUnalignedInt16Be buf at (ucast (ni_length info));
          d \<leftarrow> memread nalus (ni_pNalu info) (unat (ni_length info));
          buf \<leftarrow> memwrite buf (at + 2) d;
          stap_write nalus infos buf (at + 2 + unat (ni_length info)) }"

definition createStapAPayload :: "bytes \<Rightarrow> NaluInfo list \<Rightarrow> PayloadCursor option \<Rightarrow> filled option" where
  "createStapAPayload nalus infos pPA =
     (if infos = [] then Some (STATUS_NULL_ARG, 0, 0, pPA)
      else do {
        (totalSize, maxNri) \<leftarrow> stap_measure nalus infos 1 0;
        case pPA of
          None \<Rightarrow> Some (STATUS_SUCCESS, totalSize, 1, None)
        | Some pa \<Rightarrow>
            (case (pc_buffer pa, pc_lens pa) of
               (Some buf, Some lens) \<Rightarrow>
                 if \<not> (1 \<le> pc_maxSubLenSize pa \<and> totalSize \<le> pc_maxLength pa) then Some (STATUS_BUFFER_TOO_SMALL, totalSize, 1, pPA)
                 else do {
                   buf \<leftarrow> memwrite buf (pc_at pa) [24 OR maxNri];
                   buf \<leftarrow> stap_write nalus infos buf (pc_at pa + 1);
                   lens \<leftarrow> memwrite lens (pc_lens_at pa) [totalSize];
                   Some (STATUS_SUCCESS, totalSize, 1, Some (pa\<lparr>pc_buffer := Some buf, pc_lens := Some lens\<rparr>)) }
             | _ \<Rightarrow> Some (STATUS_NULL_ARG, totalSize, 1, pPA)) })"

definition h264_fu_header :: "byte \<Rightarrow> bool \<Rightarrow> bool \<Rightarrow> bytes" where
  "h264_fu_header b0 isFirst isLast =
     (let naluType = b0 AND 0x1F; naluRefIdc = b0 AND 0x60 in
      [28 OR naluRefIdc, if isFirst then naluType OR 0x80 else if isLast then naluType OR 0x40 else naluType])"

definition createPayloadFromNalu :: "u32 \<Rightarrow> bytes option \<Rightarrow> u32 \<Rightarrow> PayloadCursor option \<Rightarrow> filled option" where
  "createPayloadFromNalu mtu pNalu naluLength pPA =
     map_option (report_filled (pPA = None))
       (case pNalu of
          None \<Rightarrow> Some (STATUS_NULL_ARG, 0, 0, pPA)
        | Some nalu \<Rightarrow>
            if \<not> (case pPA of None \<Rightarrow> True | Some pa \<Rightarrow> pc_lens pa \<noteq> None \<and> pc_buffer pa \<noteq> None)
            then Some (STATUS_NULL_ARG, 0, 0, pPA)
            else if \<not> (mtu > 2) then Some (STATUS_RTP_INPUT_MTU_TOO_SMALL, 0, 0, pPA)
            else do {
              b0 \<leftarrow> memget nalu 0;
              if naluLength \<le> mtu then single_nalu nalu naluLength pPA
              else fu_loop (h264_fu_header b0) 2 (mtu - 2) nalu (naluLength - 1) (naluLength - 1) 1
                     (case pPA of None \<Rightarrow> 0 | Some pa \<Rightarrow> pc_at pa) 0 0 pPA })"

text \<open>The first pass collects the NAL units, 64 at most; the bytes left over follow the status.\<close>

function h264_collect :: "bytes \<Rightarrow> u32 \<Rightarrow> nat \<Rightarrow> NaluInfo list \<Rightarrow> (STATUS \<times> u32 \<times> NaluInfo list) option" where
  "h264_collect nalus remaining pos infos =
     (if remaining > 0 \<and> length infos < 64
      then (case getNextNaluLength (Some (drop pos nalus)) remaining (Some 0) (Some 0) of
          Some (status, Some start, Some naluLen) \<Rightarrow>
            if status \<noteq> STATUS_SUCCESS then Some (status, remaining, infos)
            else if remaining - start = 0 then Some (STATUS_SUCCESS, 0, infos)
            else h264_collect nalus (remaining - start - naluLen) (pos + unat start + unat naluLen)
                   (infos @ [\<lparr>ni_pNalu = pos + unat start, ni_length = naluLen\<rparr>])
        | _ \<Rightarrow> None)
      else Some (STATUS_SUCCESS, remaining, infos))"
  by pat_completeness auto

termination h264_collect
  by (relation "measure (\<lambda>(nalus, remaining, pos, infos). 64 - length infos)") auto

declare h264_collect.simps [simp del]

text \<open>Flushing the pending NAL units, \<open>stapNaluCount\<close> of them from \<open>stapStartIndex\<close> on.\<close>

definition payload_info :: "u32 \<Rightarrow> bytes \<Rightarrow> NaluInfo \<Rightarrow> fill_state \<Rightarrow> filled option" where
  "payload_info mtu nalus info s =
     add_filled (createPayloadFromNalu mtu (Some (drop (ni_pNalu info) nalus)) (ni_length info)) s"

definition stap_flush :: "u32 \<Rightarrow> bytes \<Rightarrow> NaluInfo list \<Rightarrow> nat \<Rightarrow> nat \<Rightarrow> fill_state \<Rightarrow> filled option" where
  "stap_flush mtu nalus infos stapStartIndex stapNaluCount s =
     (if stapNaluCount > 1
      then do { pending \<leftarrow> memread infos stapStartIndex stapNaluCount; add_filled (createStapAPayload nalus pending) s }
      else if stapNaluCount = 1
      then do { info \<leftarrow> memget infos stapStartIndex; payload_info mtu nalus info s }
      else Some (STATUS_SUCCESS, s))"

text \<open>The second pass, from index \<open>i\<close> on, and the flush after it.\<close>

function h264_loop :: "u32 \<Rightarrow> bytes \<Rightarrow> NaluInfo list \<Rightarrow> nat \<Rightarrow> nat \<Rightarrow> nat \<Rightarrow> u32 \<Rightarrow> fill_state \<Rightarrow> filled option" where
  "h264_loop mtu nalus infos i stapStartIndex stapNaluCount currentStapSize s =
     (if i < length infos
      then let info = infos ! i; naluSize = ni_length info; stapNaluSize = 2 + naluSize in
        if naluSize > mtu
        then do { (status, s) \<leftarrow> stap_flush mtu nalus infos stapStartIndex stapNaluCount s;
                  if status \<noteq> STATUS_SUCCESS then Some (status, s)
                  else do { (status, s) \<leftarrow> payload_info mtu nalus info s;
                            if status \<noteq> STATUS_SUCCESS then Some (status, s)
                            else h264_loop mtu nalus infos (i + 1) (i + 1) 0 1 s } }
        else if currentStapSize + stapNaluSize \<le> mtu
        then h264_loop mtu nalus infos (i + 1) (if stapNaluCount = 0 then i else stapStartIndex) (stapNaluCount + 1)
               (currentStapSize + stapNaluSize) s
        else do { (status, s) \<leftarrow> stap_flush mtu nalus infos stapStartIndex stapNaluCount s;
                  if status \<noteq> STATUS_SUCCESS then Some (status, s)
                  else h264_loop mtu nalus infos (i + 1) i 1 (1 + stapNaluSize) s }
      else stap_flush mtu nalus infos stapStartIndex stapNaluCount s)"
  by pat_completeness auto

termination h264_loop
  by (relation "measure (\<lambda>(mtu, nalus, infos, i, _). length infos - i)") auto

declare h264_loop.simps [simp del]

definition createPayloadForH264 ::
  "u32 \<Rightarrow> bytes option \<Rightarrow> u32 \<Rightarrow> bytes option \<Rightarrow> u32 option \<Rightarrow> u32 list option \<Rightarrow> u32 option \<Rightarrow> payload_result" where
  "createPayloadForH264 mtu pNalus nalusLength pBuf pLen pLens pSub =
     (case (pNalus, pSub, pLen) of
        (Some nalus, Some sub, Some len) \<Rightarrow>
          if \<not> (pBuf = None \<or> pLens \<noteq> None) then fail_early STATUS_NULL_ARG pBuf pLen pLens pSub
          else if \<not> (mtu > 2) then fail_early STATUS_RTP_INPUT_MTU_TOO_SMALL pBuf pLen pLens pSub
          else let s = init_array pBuf len pLens sub in
            do { (status, remaining, infos) \<leftarrow> h264_collect nalus nalusLength 0 [];
                 r \<leftarrow> (if status \<noteq> STATUS_SUCCESS then Some (status, s)
                       else if remaining > 0 \<and> 64 \<le> length infos then Some (STATUS_INVALID_ARG, s)
                       else if infos = [] then Some (STATUS_SUCCESS, s)
                       else h264_loop mtu nalus infos 0 0 0 1 s);
                 finish_array pBuf pLen pLens pSub r }
      | _ \<Rightarrow> fail_early STATUS_NULL_ARG pBuf pLen pLens pSub)"

section \<open>Depayloading\<close>

text \<open>
  The loops over the NAL units of an aggregation packet: the first computes the size and whether a
  frame starts, the second copies. \<open>cur\<close> is the position in the packet, \<open>at\<close> the one in the output.
\<close>

function stap_scan :: "bytes \<Rightarrow> nat \<Rightarrow> u32 \<Rightarrow> nat \<Rightarrow> bool \<Rightarrow> u32 \<Rightarrow> bool \<Rightarrow> (u32 \<times> bool) option" where
  "stap_scan raw packetLength startCodeSize cur isFirst naluLength isFrameStart =
     (case getUnalignedInt16Be raw cur of
        None \<Rightarrow> None
      | Some sub \<Rightarrow>
          do { let naluLength = naluLength + (ucast sub + (if isFirst then startCodeSize else 3));
               isFrameStart \<leftarrow> (if \<not> isFrameStart then h264NaluIsFrameStart (Some (drop (cur + 2) raw)) (ucast sub) else Some True);
               if sub > 0 \<and> cur + 2 + unat sub < packetLength
               then stap_scan raw packetLength startCodeSize (cur + 2 + unat sub) False naluLength isFrameStart
               else Some (naluLength, isFrameStart) })"
  by pat_completeness auto

lemma get16_inside: "getUnalignedInt16Be raw cur = Some sub \<Longrightarrow> cur < length raw"
  by (auto simp: getUnalignedInt16Be_def memget_def split: if_splits)

termination stap_scan
  by (relation "measure (\<lambda>(raw, packetLength, size, cur, _). length raw - cur)") (auto dest: get16_inside)

declare stap_scan.simps [simp del]

function stap_copy :: "bytes \<Rightarrow> nat \<Rightarrow> bytes \<Rightarrow> nat \<Rightarrow> bool \<Rightarrow> bytes \<Rightarrow> nat \<Rightarrow> u32 \<Rightarrow> (bytes \<times> u32) option" where
  "stap_copy raw packetLength startCode cur isFirst out at naluLength =
     (case getUnalignedInt16Be raw cur of
        None \<Rightarrow> None
      | Some sub \<Rightarrow>
          do { let code = (if isFirst then startCode else [0, 0, 1]);
               out \<leftarrow> memwrite out at code;
               d \<leftarrow> memread raw (cur + 2) (unat sub);
               out \<leftarrow> memwrite out (at + length code) d;
               let naluLength = naluLength + word_of_nat (length code) + ucast sub;
               if sub > 0 \<and> cur + 2 + unat sub < packetLength
               then stap_copy raw packetLength startCode (cur + 2 + unat sub) False out (at + length code + unat sub) naluLength
               else Some (out, naluLength) })"
  by pat_completeness auto

termination stap_copy
  by (relation "measure (\<lambda>(raw, packetLength, code, cur, _). length raw - cur)") (auto dest: get16_inside)

declare stap_copy.simps [simp del]

text \<open>
  What the first part of the function computes: \<open>naluLength\<close> without a start code in front of the
  packet, \<open>isStartingPacket\<close>, \<open>isFrameStart\<close>, and the first byte of a fragmented NAL unit
  (\<open>naluRefIdc | naluType\<close>).
\<close>

definition h264_inspect :: "bytes \<Rightarrow> u32 \<Rightarrow> u32 \<Rightarrow> byte \<Rightarrow> (u32 \<times> bool \<times> bool \<times> byte) option" where
  "h264_inspect raw packetLength startCodeSize indicator =
     (if indicator = 28
      then do {
        b0 \<leftarrow> memget raw 0;
        b1 \<leftarrow> memget raw 1;
        let naluRefIdc = b0 AND 0x60;
        let naluType = b1 AND 0x1F;
        if b1 AND 0x80 \<noteq> 0
        then do {
          isFrameStart \<leftarrow>
            (if naluType \<in> {7, 8, 6, 9} then Some True
             else if naluType \<in> {1, 5} \<and> packetLength > 2
             then do { firstMb \<leftarrow> h264ReadUeGolomb (drop 2 raw) (packetLength - 2);
                       Some (case firstMb of None \<Rightarrow> False | Some v \<Rightarrow> v = 0) }
             else Some False);
          Some (packetLength - 2 + 1, True, isFrameStart, naluRefIdc OR naluType) }
        else Some (packetLength - 2, False, False, naluRefIdc OR naluType) }
      else if indicator = 29 then Some (packetLength - 2 + 1, False, False, 0)
      else if indicator = 24
      then do { (len, isFrameStart) \<leftarrow> stap_scan raw (unat packetLength) startCodeSize 1 True 0 False; Some (len, True, isFrameStart, 0) }
      else if indicator = 25
      then do { (len, isFrameStart) \<leftarrow> stap_scan raw (unat packetLength) startCodeSize 3 True 0 False; Some (len, True, isFrameStart, 0) }
      else do { isFrameStart \<leftarrow> h264NaluIsFrameStart (Some raw) packetLength; Some (packetLength, True, isFrameStart, 0) })"

text \<open>
  The copy of the data; \<open>at\<close> is the position behind the start code of the packet and \<open>naluLength\<close>
  the length without it.
\<close>

definition h264_copy :: "bytes \<Rightarrow> u32 \<Rightarrow> bytes \<Rightarrow> byte \<Rightarrow> bool \<Rightarrow> byte \<Rightarrow> bytes \<Rightarrow> nat \<Rightarrow> u32 \<Rightarrow> (bytes \<times> u32) option" where
  "h264_copy raw packetLength startCode indicator isStart hdr out at naluLength =
     (if indicator = 28 \<or> indicator = 29
      then let headerSize = (if indicator = 28 then 2 else 4) in
        if isStart
        then do { d \<leftarrow> memread raw headerSize (unat (naluLength - 1));
                  out \<leftarrow> memwrite out (at + 1) d;
                  out \<leftarrow> memwrite out at [hdr];
                  Some (out, naluLength) }
        else do { d \<leftarrow> memread raw headerSize (unat naluLength);
                  out \<leftarrow> memwrite out at d;
                  Some (out, naluLength) }
      else if indicator = 24 then stap_copy raw (unat packetLength) startCode 1 True out at 0
      else if indicator = 25 then stap_copy raw (unat packetLength) startCode 3 True out at 0
      else do { d \<leftarrow> memread raw 0 (unat naluLength); out \<leftarrow> memwrite out at d; Some (out, naluLength) })"

text \<open>\<open>pIsStart\<close> is read: a frame whose first NAL unit has been seen uses start codes of three bytes.\<close>

definition depayH264FromRtpPayload ::
  "bytes option \<Rightarrow> u32 \<Rightarrow> bytes option \<Rightarrow> u32 option \<Rightarrow> bool option \<Rightarrow> depay_result" where
  "depayH264FromRtpPayload pRaw packetLength pData pLength pIsStart =
     (let startCode = (if pIsStart = Some False then [0, 0, 1] else [0, 0, 0, 1]); startCodeSize = word_of_nat (length startCode) in
      case (pRaw, pLength) of
        (Some raw, Some maxLength) \<Rightarrow>
          if packetLength = 0 then Some (STATUS_SUCCESS, pData, Some 0, False)
          else do {
            b0 \<leftarrow> memget raw 0;
            let indicator = b0 AND 31;
            (naluLength, isStart, isFrameStart, hdr) \<leftarrow> h264_inspect raw packetLength startCodeSize indicator;
            let coded = (isStart \<and> indicator \<noteq> 24 \<and> indicator \<noteq> 25);
            let fullLength = (if coded then naluLength + startCodeSize else naluLength);
            case pData of
              None \<Rightarrow> Some (STATUS_SUCCESS, None, Some fullLength, isFrameStart)
            | Some out \<Rightarrow>
                if \<not> (fullLength \<le> maxLength) then Some (STATUS_BUFFER_TOO_SMALL, pData, Some fullLength, isFrameStart)
                else do {
                  out \<leftarrow> (if coded then memwrite out 0 startCode else Some out);
                  (out, len) \<leftarrow> h264_copy raw packetLength startCode indicator isStart hdr out (if coded then length startCode else 0) naluLength;
                  Some (STATUS_SUCCESS, Some out, Some (if coded then len + startCodeSize else len), isFrameStart) } }
      | _ \<Rightarrow> Some (STATUS_NULL_ARG, pData, map_option (\<lambda>_. 0) pLength, False))"

section \<open>The start of a frame\<close>

lemma emulation_inside: "i < length d \<Longrightarrow> \<exists>skip. emulation_byte d i = Some skip"
  by (auto simp: emulation_byte_def memget_def)

lemma ue_zeros_total:
  assumes "maxBits \<le> 8 * length d"
  shows "\<exists>p z. ue_zeros d maxBits bitPos zeroBits = Some (p, z) \<and> zeroBits \<le> z"
proof (induction "maxBits - bitPos" arbitrary: bitPos zeroBits rule: less_induct)
  case less
  show ?case
  proof (cases "bitPos < maxBits")
    case True
    then have i: "bitPos div 8 < length d" using assms by auto
    obtain skip where skip: "emulation_byte d (bitPos div 8) = Some skip" using emulation_inside[OF i] by blast
    have "\<exists>p z. ue_zeros d maxBits (bitPos + 8) zeroBits = Some (p, z) \<and> zeroBits \<le> z"
      "\<exists>p z. ue_zeros d maxBits (bitPos + 1) (zeroBits + 1) = Some (p, z) \<and> zeroBits + 1 \<le> z"
      using less True by auto
    then show ?thesis using skip True i by (subst ue_zeros.simps) (auto simp: memget_def)
  qed (subst ue_zeros.simps, simp)
qed

lemma shift_in_bound:
  fixes val x :: u32
  assumes "unat val < 2 ^ j" "j < 31"
  shows "unat (push_bit 1 val OR (x AND 1)) < 2 ^ (j + 1)"
proof -
  have j: "2 * 2 ^ j \<le> (2 :: nat) ^ 31" using assms(2) power_increasing[of "j + 1" 31 "2 :: nat"] by simp
  have d: "unat (2 * val) = 2 * unat val" using assms(1) j by (simp add: unat_word_ariths)
  have "push_bit 1 val = 2 * val" by simp
  moreover have "2 * val OR 1 = 2 * val + 1" by (simp add: or_one_eq)
  moreover have "x AND 1 = 0 \<or> x AND 1 = 1" by (auto simp: and_one_eq mod_2_eq_odd)
  moreover have "unat (2 * val + 1) = 2 * unat val + 1" using assms(1) j d unat_add_lem[of "2 * val" 1] by simp
  ultimately show ?thesis using assms(1) d by (auto simp: mult.commute[of val])
qed

lemma ue_bits_total:
  assumes "maxBits \<le> 8 * length d" "bitPos + k \<le> maxBits" "unat val < 2 ^ j" "j + k < 32"
  shows "\<exists>r. ue_bits d maxBits k bitPos val = Some r \<and> (\<forall>v. r = Some v \<longrightarrow> unat v < 2 ^ (j + k))"
  using assms(2-4)
proof (induction k arbitrary: bitPos val j)
  case 0
  then show ?case by simp
next
  case (Suc k)
  have i: "bitPos div 8 < length d" using assms(1) Suc.prems(1) by auto
  obtain skip where skip: "emulation_byte d (bitPos div 8) = Some skip" using emulation_inside[OF i] by blast
  define p where "p = (if skip then bitPos + 8 else bitPos)"
  show ?case
  proof (cases "skip \<and> p + Suc k > maxBits")
    case True
    then show ?thesis using skip by (auto simp: p_def Let_def)
  next
    case False
    then have p: "p + Suc k \<le> maxBits" using Suc.prems(1) by (auto simp: p_def)
    then have "p div 8 < length d" using assms(1) by auto
    then obtain b where b: "memget d (p div 8) = Some b" by (simp add: memget_def)
    let ?v = "push_bit 1 val OR (ucast (drop_bit (7 - p mod 8) b) AND 1) :: u32"
    have "unat ?v < 2 ^ (j + 1)" using shift_in_bound[OF Suc.prems(2), of "ucast (drop_bit (7 - p mod 8) b)"] Suc.prems(3) by simp
    from Suc.IH[OF _ this, of "p + 1"] p Suc.prems(3)
    obtain r where "ue_bits d maxBits k (p + 1) ?v = Some r" "\<forall>v. r = Some v \<longrightarrow> unat v < 2 ^ (j + Suc k)" by auto
    then show ?thesis using skip b False by (simp add: p_def[symmetric] Let_def del: push_bit_of_1)
  qed
qed


text \<open>The first code is zero exactly when the first bit is set.\<close>

lemma ue_golomb_zero:
  assumes "n \<noteq> 0" "unat n \<le> length d"
  shows "\<exists>r. h264ReadUeGolomb d n = Some r \<and> (r = Some 0) = bit (d ! 0) 7"
proof -
  define m where "m = (if n < 8 then unat n else 8) * 8"
  have "0 < unat n" using assms(1) by (simp add: unat_gt_0)
  then have m: "0 < m" "m \<le> 8 * length d" "8 \<le> m"
    using assms by (auto simp: m_def word_less_nat_alt)
  have b: "memget d 0 = Some (d ! 0)" using m by (auto simp: memget_def)
  have one: "(drop_bit 7 (d ! 0) AND 1 \<noteq> 0) = bit (d ! 0) 7" by (simp add: bit_iff_odd_drop_bit and_one_eq mod_2_eq_odd)
  have z: "ue_zeros d m 0 0 = (if bit (d ! 0) 7 then Some (0, 0) else ue_zeros d m 1 1)"
    using m(1) b one by (subst ue_zeros.simps) (simp add: emulation_byte_def)
  show ?thesis
  proof (cases "bit (d ! 0) 7")
    case True
    then show ?thesis using z m(3) by (simp add: h264ReadUeGolomb_def m_def[symmetric] Let_def)
  next
    case False
    obtain p k where pk: "ue_zeros d m 1 1 = Some (p, k)" "1 \<le> k" using ue_zeros_total[OF m(2), of 1 1] by blast
    show ?thesis
    proof (cases "m \<le> p \<or> 32 \<le> k \<or> p + 1 + k > m")
      case True
      then show ?thesis using z False pk by (auto simp: h264ReadUeGolomb_def m_def[symmetric] Let_def)
    next
      case c: False
      then obtain r where r: "ue_bits d m k (p + 1) 0 = Some r" "\<forall>v. r = Some v \<longrightarrow> unat v < 2 ^ k"
        using ue_bits_total[OF m(2), of "p + 1" k 0 0] by auto
      have "push_bit k 1 - 1 + v \<noteq> 0" if "r = Some v" for v :: u32
      proof -
        have v: "unat v < 2 ^ k" using r(2) that by blast
        have k: "k < 32" "(2 :: nat) ^ k \<le> 2 ^ 31" using c power_increasing[of k 31 "2 :: nat"] by auto
        have u: "unat (push_bit k 1 :: u32) = 2 ^ k" using k unfolding unsigned_push_bit_eq by (simp add: push_bit_eq_mult take_bit_nat_eq_self)
        then have "unat (push_bit k 1 - 1 :: u32) = 2 ^ k - 1"
          by (subst unat_minus_below) (simp_all add: word_le_nat_alt)
        then have "unat (push_bit k 1 - 1 + v) = 2 ^ k - 1 + unat v" using v k(2) by (subst unat_word_ariths) simp
        moreover have "2 \<le> (2 :: nat) ^ k" using pk(2) power_increasing[of 1 k "2 :: nat"] by simp
        ultimately show ?thesis by (metis unat_0 add_is_0 diff_is_0_eq not_less_eq_eq numeral_2_eq_2 One_nat_def)
      qed
      then show ?thesis using z False pk c r by (auto simp: h264ReadUeGolomb_def m_def[symmetric] Let_def)
    qed
  qed
qed

lemma h264_frame_start':
  assumes "n \<noteq> []" "length n < 2 ^ 32"
  shows "h264NaluIsFrameStart (Some (n @ rest)) (word_of_nat (length n)) =
     Some (n ! 0 AND 31 \<in> {6, 7, 8, 9} \<or> n ! 0 AND 31 \<in> {1, 5} \<and> 2 \<le> length n \<and> bit (n ! 1) 7)"
proof -
  have u: "unat (word_of_nat (length n) :: u32) = length n" using assms(2) by (rule unat_small32)
  have nz: "(word_of_nat (length n) :: u32) \<noteq> 0" using u assms(1) by (auto simp: word_unat_eq_iff)
  have b: "memget (n @ rest) 0 = Some (n ! 0)" using assms(1) by (simp add: memget_def nth_append)
  have lt: "(word_of_nat (length n) < (2 :: u32)) = (length n < 2)" using u by (simp add: word_less_nat_alt)
  show ?thesis
  proof (cases "2 \<le> length n")
    case False
    then show ?thesis using nz b lt by (auto simp: h264NaluIsFrameStart_def Let_def)
  next
    case True
    have le: "(1 :: u32) \<le> word_of_nat (length n)" using u True by (simp add: word_le_nat_alt)
    have u1: "unat (word_of_nat (length n) - 1 :: u32) = length n - 1" using u unat_minus_below[OF le] by simp
    then have "word_of_nat (length n) - 1 \<noteq> (0 :: u32)" using True by (auto simp: word_unat_eq_iff)
    then obtain r where "h264ReadUeGolomb (drop 1 (n @ rest)) (word_of_nat (length n) - 1) = Some r" "(r = Some 0) = bit (drop 1 (n @ rest) ! 0) 7"
      using ue_golomb_zero[of "word_of_nat (length n) - 1" "drop 1 (n @ rest)"] u1 by auto
    moreover have "drop 1 (n @ rest) ! 0 = n ! 1" using True by (simp add: nth_append)
    ultimately show ?thesis using nz b lt True
      by (auto simp: h264NaluIsFrameStart_def Let_def split: option.splits)
  qed
qed

section \<open>The payloads of a frame\<close>

text \<open>
  Reference definitions, on the NAL units themselves. \<open>h264_group\<close> takes the pending NAL units and
  the size of their aggregation packet.
\<close>

definition h264_nalu_payloads :: "u32 \<Rightarrow> bytes \<Rightarrow> bytes list" where
  "h264_nalu_payloads mtu n =
     (if length n \<le> unat mtu then [n] else fu_payloads (h264_fu_header (n ! 0)) True (chunks (unat mtu - 2) (drop 1 n)))"

definition stap_entry :: "bytes \<Rightarrow> bytes" where
  "stap_entry n = be16 (word_of_nat (length n)) @ n"

fun max_nri :: "bytes list \<Rightarrow> byte \<Rightarrow> byte" where
  "max_nri [] m = m"
| "max_nri (n # ns) m = max_nri ns (if n ! 0 AND 0x60 > m then n ! 0 AND 0x60 else m)"

definition stap_payload :: "bytes list \<Rightarrow> bytes" where
  "stap_payload ns = (24 OR max_nri ns 0) # concat (map stap_entry ns)"

definition flush_payloads :: "u32 \<Rightarrow> bytes list \<Rightarrow> bytes list" where
  "flush_payloads mtu pend = (if length pend > 1 then [stap_payload pend] else concat (map (h264_nalu_payloads mtu) pend))"

fun h264_group :: "u32 \<Rightarrow> bytes list \<Rightarrow> nat \<Rightarrow> bytes list \<Rightarrow> bytes list" where
  "h264_group mtu pend sz [] = flush_payloads mtu pend"
| "h264_group mtu pend sz (n # ns) =
     (if length n > unat mtu then flush_payloads mtu pend @ h264_nalu_payloads mtu n @ h264_group mtu [] 1 ns
      else if sz + (2 + length n) \<le> unat mtu then h264_group mtu (pend @ [n]) (sz + (2 + length n)) ns
      else flush_payloads mtu pend @ h264_group mtu [n] (1 + (2 + length n)) ns)"

lemma length_stap_entry [simp]: "length (stap_entry n) = 2 + length n"
  by (simp add: stap_entry_def)

text \<open>A collected NAL unit and the bytes it stands for.\<close>

definition info_of :: "bytes \<Rightarrow> NaluInfo \<Rightarrow> bytes \<Rightarrow> bool" where
  "info_of nalus info n = (n \<noteq> [] \<and> length n < 2 ^ 30 \<and> ni_length info = word_of_nat (length n) \<and>
     (\<exists>rest. drop (ni_pNalu info) nalus = n @ rest))"

lemma info_ofD:
  assumes "info_of nalus info n"
  shows "memget nalus (ni_pNalu info) = Some (n ! 0)" "memread nalus (ni_pNalu info) (unat (ni_length info)) = Some n"
    "unat (ni_length info) = length n"
proof -
  obtain rest where d: "drop (ni_pNalu info) nalus = n @ rest" "n \<noteq> []" "length n < 2 ^ 30" "ni_length info = word_of_nat (length n)"
    using assms by (auto simp: info_of_def)
  show u: "unat (ni_length info) = length n" using d by (simp add: unat_small32)
  have l: "ni_pNalu info < length nalus" using d(1,2) by (metis append_is_Nil_conv drop_all not_le)
  then have "nalus ! ni_pNalu info = n ! 0" using d(1,2) by (metis hd_append2 hd_conv_nth hd_drop_conv_nth)
  then show "memget nalus (ni_pNalu info) = Some (n ! 0)" using l by (simp add: memget_def)
  have "length nalus - ni_pNalu info = length (n @ rest)" using d(1) by (metis length_drop)
  then have "ni_pNalu info + length n \<le> length nalus" using l by simp
  then show "memread nalus (ni_pNalu info) (unat (ni_length info)) = Some n" using d(1) u by (simp add: memread_def)
qed

lemma length_h264_fu_header [simp]: "length (h264_fu_header b0 s e) = 2"
  by (simp add: h264_fu_header_def Let_def)

lemma emits_h264_nalu:
  assumes "2 < unat mtu" "n \<noteq> []" "length n < 2 ^ 32"
  shows "emits (createPayloadFromNalu mtu (Some (n @ rest)) (word_of_nat (length n))) (h264_nalu_payloads mtu n)"
proof -
  have m: "mtu > 2" using assms(1) by (simp add: word_less_nat_alt)
  have um: "unat (mtu - 2) = unat mtu - 2" using assms(1) by (subst unat_minus_below) (simp_all add: word_le_nat_alt)
  have u: "unat (word_of_nat (length n) :: u32) = length n" using assms(3) by (rule unat_small32)
  have b0: "memget (n @ rest) 0 = Some (n ! 0)" using assms(2) by (simp add: memget_def nth_append)
  show ?thesis
  proof (cases "length n \<le> unat mtu")
    case True
    then have le: "word_of_nat (length n) \<le> mtu" using u by (simp add: word_le_nat_alt)
    have P: "h264_nalu_payloads mtu n = [n]" using True by (simp add: h264_nalu_payloads_def)
    show ?thesis unfolding P using emits_single[OF assms(3), of rest] m b0 le
      by (auto simp: emits_def createPayloadFromNalu_def report_filled_def elim!: roomE)
  next
    case False
    define xs where "xs = drop 1 n"
    have n: "n = [n ! 0] @ xs" using assms(2) by (cases n) (auto simp: xs_def)
    have le: "\<not> word_of_nat (length n) \<le> mtu" using u False by (simp add: word_le_nat_alt)
    have w: "word_of_nat (length n) - 1 = (word_of_nat (length xs) :: u32)" by (subst n) simp
    have P: "h264_nalu_payloads mtu n = fu_payloads (h264_fu_header (n ! 0)) True (chunks (unat (mtu - 2)) xs)"
      using False by (simp add: h264_nalu_payloads_def um xs_def)
    have nr: "n @ rest = [n ! 0] @ xs @ rest" "length [n ! 0] = 1" by (subst n, simp) simp
    have "0 < unat (mtu - 2)" "unat (2 :: u32) + unat (mtu - 2) < 2 ^ 32" "length xs < 2 ^ 32"
      using um assms(1,3) unat_less32[of mtu] by (simp_all add: xs_def)
    from emits_fragments[OF this(1) _ this(2,3) P, where pre = "[n ! 0]" and rest = rest]
    have em: "emits (\<lambda>pPA. fu_loop (h264_fu_header (n ! 0)) 2 (mtu - 2) (n @ rest) (word_of_nat (length xs)) (word_of_nat (length xs)) 1
         (case pPA of None \<Rightarrow> 0 | Some pa \<Rightarrow> pc_at pa) 0 0 pPA) (h264_nalu_payloads mtu n)"
      unfolding nr by simp
    show ?thesis using em m b0 le
      by (auto simp: emits_def createPayloadFromNalu_def report_filled_def w elim!: roomE)
  qed
qed

lemma emits_info:
  assumes "2 < unat mtu" "info_of nalus info n" "fits (h264_nalu_payloads mtu n) s"
  shows "payload_info mtu nalus info s = Some (STATUS_SUCCESS, added (h264_nalu_payloads mtu n) s)"
proof -
  obtain rest where d: "drop (ni_pNalu info) nalus = n @ rest" "n \<noteq> []" "length n < 2 ^ 32" "ni_length info = word_of_nat (length n)"
    using assms(2) by (auto simp: info_of_def)
  show ?thesis unfolding payload_info_def d(1,4) by (rule add_emits[OF emits_h264_nalu[OF assms(1) d(2,3)] assms(3)])
qed

lemma stap_measure_infos:
  "list_all2 (info_of nalus) infos ns \<Longrightarrow>
   stap_measure nalus infos sz m = Some (sz + word_of_nat (length (concat (map stap_entry ns))), max_nri ns m)"
proof (induction ns arbitrary: infos sz m)
  case (Cons n ns)
  then obtain info infos' where i: "infos = info # infos'" "info_of nalus info n" "list_all2 (info_of nalus) infos' ns"
    by (auto simp: list_all2_Cons2)
  then show ?case using info_ofD(1)[OF i(2)] Cons.IH[OF i(3)]
    by (simp add: info_of_def stap_entry_def Let_def algebra_simps)
qed simp

lemma stap_write_infos:
  assumes "list_all2 (info_of nalus) infos ns" "at + length (concat (map stap_entry ns)) \<le> length buf"
  shows "stap_write nalus infos buf at = Some (bsplice buf at (concat (map stap_entry ns)))"
  using assms
proof (induction ns arbitrary: infos buf at rule: list.induct)
  case (Cons n ns)
  then obtain info infos' where i: "infos = info # infos'" "info_of nalus info n" "list_all2 (info_of nalus) infos' ns"
    by (auto simp: list_all2_Cons2)
  note f = info_ofD[OF i(2)]
  have c: "ucast (ni_length info) = (word_of_nat (length n) :: u16)" using i(2) by (auto simp: info_of_def unsigned_of_nat word_of_nat_eq_iff take_bit_take_bit)
  have "stap_write nalus infos' (bsplice buf at (stap_entry n)) (at + 2 + length n) =
      Some (bsplice (bsplice buf at (stap_entry n)) (at + 2 + length n) (concat (map stap_entry ns)))"
    by (rule Cons.IH[OF i(3)]) (use Cons.prems(2) in simp)
  moreover have "bsplice (bsplice buf at (stap_entry n)) (at + 2 + length n) (concat (map stap_entry ns)) =
      bsplice buf at (concat (map stap_entry (n # ns)))"
    using Cons.prems(2) by simp
  ultimately show ?case using f Cons.prems(2)
    by (simp add: i(1) putUnalignedInt16Be_def c memwrite_def stap_entry_def[of n])
qed simp

lemma emits_stap:
  assumes "list_all2 (info_of nalus) infos ns" "ns \<noteq> []"
  shows "emits (createStapAPayload nalus infos) [stap_payload ns]"
proof -
  have i: "infos \<noteq> []" using assms by (auto simp: list_all2_Cons2 neq_Nil_conv)
  let ?e = "concat (map stap_entry ns)"
  note ms = stap_measure_infos[OF assms(1), of 1 0]
  have "createStapAPayload nalus infos (Some pa) =
      Some (STATUS_SUCCESS, word_of_nat (length (stap_payload ns)), 1, Some (wrote [stap_payload ns] pa))" if "room [stap_payload ns] pa" for pa
    using that
  proof (rule roomE, goal_cases)
    case (1 buf lens)
    have l: "length (stap_payload ns) = 1 + length ?e" by (simp add: stap_payload_def)
    then have u: "unat (1 + word_of_nat (length ?e) :: u32) = 1 + length ?e"
      using 1(7) unat_small32[of "1 + length ?e"] by simp
    have "stap_write nalus infos (bsplice buf (pc_at pa) [24 OR max_nri ns 0]) (pc_at pa + 1) =
        Some (bsplice (bsplice buf (pc_at pa) [24 OR max_nri ns 0]) (pc_at pa + 1) ?e)"
      by (rule stap_write_infos[OF assms(1)]) (use 1(3) l in simp)
    then show ?case using i ms 1(1-6) l u
      by (simp add: createStapAPayload_def word_le_nat_alt memwrite_def wrote_def sub_lens_def stap_payload_def)
  qed
  then show ?thesis using i ms by (simp add: emits_def createStapAPayload_def stap_payload_def)
qed

lemma stap_flush_pending:
  assumes "2 < unat mtu" "list_all2 (info_of nalus) infos ns" "count \<le> i" "i \<le> length ns" "0 < count \<Longrightarrow> st = i - count"
    and "pend = take count (drop (i - count) ns)" "fits (flush_payloads mtu pend) s"
  shows "stap_flush mtu nalus infos st count s = Some (STATUS_SUCCESS, added (flush_payloads mtu pend) s)"
proof -
  have len: "length infos = length ns" using assms(2) by (rule list_all2_lengthD)
  consider "count = 0" | "count = 1" | "count > 1" by linarith
  then show ?thesis
  proof cases
    case 1
    then show ?thesis using assms(6) by (simp add: stap_flush_def flush_payloads_def)
  next
    case 2
    then have "pend = [ns ! (i - 1)]" using assms(3,4,6) by (simp add: take_Suc_conv_app_nth)
    then have P: "flush_payloads mtu pend = h264_nalu_payloads mtu (ns ! (i - 1))" by (simp add: flush_payloads_def)
    have "info_of nalus (infos ! (i - 1)) (ns ! (i - 1))" using list_all2_nthD[OF assms(2), of "i - 1"] assms(3,4) 2 len by simp
    from emits_info[OF assms(1) this] show ?thesis
      using 2 assms(3-5,7) len by (simp add: stap_flush_def P memget_def)
  next
    case 3
    have l: "length pend = count" using assms(3,4,6) by simp
    have "list_all2 (info_of nalus) (take count (drop (i - count) infos)) pend"
      unfolding assms(6) using assms(2) by (intro list_all2_takeI list_all2_dropI)
    moreover have "pend \<noteq> []" "flush_payloads mtu pend = [stap_payload pend]" using 3 l by (auto simp: flush_payloads_def)
    ultimately have "add_filled (createStapAPayload nalus (take count (drop (i - count) infos))) s =
        Some (STATUS_SUCCESS, added (flush_payloads mtu pend) s)"
      using add_emits[OF emits_stap] assms(7) by metis
    then show ?thesis using 3 assms(3-5) len by (simp add: stap_flush_def memread_def)
  qed
qed

lemma h264_loop_groups:
  assumes "2 < unat mtu" "unat mtu < 2 ^ 16" "list_all2 (info_of nalus) infos ns"
    and "count \<le> i" "i \<le> length ns" "0 < count \<Longrightarrow> st = i - count" "sz \<le> unat mtu + 3"
    and "pend = take count (drop (i - count) ns)" "P = h264_group mtu pend sz (drop i ns)" "fits P s"
  shows "h264_loop mtu nalus infos i st count (word_of_nat sz) s = Some (STATUS_SUCCESS, added P s)"
  using assms(4-)
proof (induction "length ns - i" arbitrary: i st count sz pend P s rule: less_induct)
  case less
  have flush: "stap_flush mtu nalus infos st count s' = Some (STATUS_SUCCESS, added (flush_payloads mtu pend) s')"
    if "fits (flush_payloads mtu pend) s'" for s'
    using stap_flush_pending[OF assms(1,3) less.prems(1,2) _ less.prems(5) that] less.prems(3) by blast
  have len: "length infos = length ns" using assms(3) by (rule list_all2_lengthD)
  show ?case
  proof (cases "i < length ns")
    case False
    then show ?thesis using flush less.prems(6,7) len by (subst h264_loop.simps) simp
  next
    case True
    define n where "n = ns ! i"
    define rest where "rest = drop (i + 1) ns"
    have d: "drop i ns = n # rest" using True by (simp add: n_def rest_def Cons_nth_drop_Suc)
    have info: "info_of nalus (infos ! i) n" unfolding n_def using list_all2_nthD[OF assms(3), of i] True len by simp
    then have il: "ni_length (infos ! i) = word_of_nat (length n)" "length n < 2 ^ 30" by (simp_all add: info_of_def)
    have big: "(ni_length (infos ! i) > mtu) = (length n > unat mtu)"
      using info_ofD(3)[OF info] by (simp add: word_less_nat_alt)
    have sum: "word_of_nat sz + (2 + ni_length (infos ! i)) = (word_of_nat (sz + (2 + length n)) :: u32)" by (simp add: il)
    have fit: "(word_of_nat sz + (2 + ni_length (infos ! i)) \<le> mtu) = (sz + (2 + length n) \<le> unat mtu)" if "length n \<le> unat mtu"
      unfolding sum using that less.prems(4) assms(2) by (simp only: word_le_nat_alt) (subst unat_small32, simp_all)
    have step: "length ns - (i + 1) < length ns - i" "i + 1 \<le> length ns" using True by simp_all
    consider "length n > unat mtu" | "length n \<le> unat mtu" "sz + (2 + length n) \<le> unat mtu"
      | "length n \<le> unat mtu" "\<not> sz + (2 + length n) \<le> unat mtu" by linarith
    then show ?thesis
    proof cases
      case 1
      let ?Q = "h264_group mtu [] 1 rest"
      have P: "P = flush_payloads mtu pend @ h264_nalu_payloads mtu n @ ?Q" using 1 less.prems(6) d by simp
      note a1 = added_append[OF less.prems(7)[unfolded P]] 
      note a2 = added_append[OF a1(2)]
      have "h264_loop mtu nalus infos (i + 1) (i + 1) 0 (word_of_nat 1) (added (h264_nalu_payloads mtu n) (added (flush_payloads mtu pend) s)) =
          Some (STATUS_SUCCESS, added ?Q (added (h264_nalu_payloads mtu n) (added (flush_payloads mtu pend) s)))"
        by (rule less.hyps[OF step(1) _ step(2)]) (use a2(2) in \<open>simp_all add: rest_def\<close>)
      then show ?thesis
        using 1 True len big flush[OF a1(1)] emits_info[OF assms(1) info a2(1)] a2(3) a1(3)
        by (subst h264_loop.simps) (simp add: Let_def P)
    next
      case 2
      have "P = h264_group mtu (pend @ [n]) (sz + (2 + length n)) rest" using 2 less.prems(6) d by simp
      moreover have "pend @ [n] = take (count + 1) (drop (i + 1 - (count + 1)) ns)"
        using less.prems(1,5) True by (simp add: take_Suc_conv_app_nth n_def)
      ultimately have "h264_loop mtu nalus infos (i + 1) (if count = 0 then i else st) (count + 1) (word_of_nat (sz + (2 + length n))) s =
          Some (STATUS_SUCCESS, added P s)"
        by (intro less.hyps[OF step(1) _ step(2)]) (use less.prems(1,3,7) 2(2) in \<open>auto simp: rest_def\<close>)
      then show ?thesis using 2 True len big fit sum by (subst h264_loop.simps) (auto simp: Let_def ac_simps)
    next
      case 3
      let ?Q = "h264_group mtu [n] (1 + (2 + length n)) rest"
      have P: "P = flush_payloads mtu pend @ ?Q" using 3 less.prems(6) d by simp
      note a1 = added_append[OF less.prems(7)[unfolded P]]
      have "h264_loop mtu nalus infos (i + 1) i 1 (word_of_nat (1 + (2 + length n))) (added (flush_payloads mtu pend) s) =
          Some (STATUS_SUCCESS, added ?Q (added (flush_payloads mtu pend) s))"
        by (rule less.hyps[OF step(1) _ step(2)]) (use a1(2) 3(1) True in \<open>simp_all add: rest_def n_def take_Suc_conv_app_nth\<close>)
      then show ?thesis
        using 3 True len big fit flush[OF a1(1)] a1(3) by (subst h264_loop.simps) (simp add: Let_def P il)
    qed
  qed
qed

lemma h264_collect_frame:
  assumes "\<forall>(four, n) \<in> set f. nalu_ok n" "length (annexb f) < 2 ^ 30" "length infos + length f \<le> 64"
  shows "\<exists>infos'. h264_collect (pre @ annexb f) (word_of_nat (length (annexb f))) (length pre) infos =
       Some (STATUS_SUCCESS, 0, infos @ infos') \<and> list_all2 (info_of (pre @ annexb f)) infos' (map snd f)"
  using assms
proof (induction f arbitrary: pre infos)
  case Nil
  then show ?case by (subst h264_collect.simps) simp
next
  case (Cons p f)
  obtain four n where p: "p = (four, n)" by (cases p)
  define pos where "pos = length pre + length (start_bytes four)"
  define info where "info = \<lparr>ni_pNalu = pos, ni_length = word_of_nat (length n) :: u32\<rparr>"
  let ?nalus = "pre @ annexb (p # f)"
  have n: "nalu_ok n" "n \<noteq> []" "length n < 2 ^ 30" "length (annexb f) < 2 ^ 30"
    using Cons.prems(1,2) by (auto simp: p nalu_ok_def split: if_splits)
  have l: "length (annexb (p # f)) = length (start_bytes four) + length (n @ annexb f)" by (simp add: p)
  have pos_len: "(0 :: u32) < word_of_nat (length (annexb (p # f)))"
    using unat_small32[of "length (annexb (p # f))"] Cons.prems(2) by (auto simp: word_less_nat_alt p)
  have next_nalu: "getNextNaluLength (Some (annexb (p # f))) (word_of_nat (length (annexb (p # f)))) (Some 0) (Some 0) =
      Some (STATUS_SUCCESS, Some (word_of_nat (length (start_bytes four))), Some (word_of_nat (length n)))"
    using getNextNaluLength_annexb[of n four f] n(1) Cons.prems(2) by (simp add: p)
  have r: "word_of_nat (length (annexb (p # f))) - word_of_nat (length (start_bytes four)) = (word_of_nat (length (n @ annexb f)) :: u32)"
    "word_of_nat (length (n @ annexb f)) - word_of_nat (length n) = (word_of_nat (length (annexb f)) :: u32)"
    by (simp_all only: l length_append of_nat_add add_diff_cancel_left')
  have nz: "word_of_nat (length (n @ annexb f)) \<noteq> (0 :: u32)"
    using unat_small32[of "length (n @ annexb f)"] n(2) Cons.prems(2) by (auto simp: l word_unat_eq_iff split: if_splits)
  have u: "unat (word_of_nat (length n) :: u32) = length n" "unat (word_of_nat (length (start_bytes four)) :: u32) = length (start_bytes four)"
    using n(3) by (intro unat_small32; simp)+
  have d: "drop (length pre) ?nalus = annexb (p # f)" by simp
  have step: "h264_collect ?nalus (word_of_nat (length (annexb (p # f)))) (length pre) infos =
      h264_collect ?nalus (word_of_nat (length (annexb f))) (pos + length n) (infos @ [info])"
    using Cons.prems(3) pos_len nz
    by (subst h264_collect.simps) (simp only: d next_nalu r u option.case prod.case info_def pos_def length_Cons, simp)
  have same: "?nalus = (pre @ start_bytes four @ n) @ annexb f" "pos + length n = length (pre @ start_bytes four @ n)"
    by (simp_all add: p pos_def)
  obtain infos' where i: "h264_collect ?nalus (word_of_nat (length (annexb f))) (pos + length n) (infos @ [info]) =
      Some (STATUS_SUCCESS, 0, (infos @ [info]) @ infos')" "list_all2 (info_of ?nalus) infos' (map snd f)"
    using Cons.IH[of "infos @ [info]" "pre @ start_bytes four @ n"] Cons.prems(1,3) n(4) unfolding same by auto
  have "info_of ?nalus info n" using n(2,3) by (auto simp: info_of_def info_def pos_def p)
  then show ?case using step i by (intro exI[of _ "info # infos'"]) (simp add: p)
qed

definition h264_payloads :: "u32 \<Rightarrow> nalu_frame \<Rightarrow> bytes list" where
  "h264_payloads mtu f = h264_group mtu [] 1 (map snd f)"

definition h264_valid :: "u32 \<Rightarrow> nalu_frame \<Rightarrow> bool" where
  "h264_valid mtu f = (f \<noteq> [] \<and> length f \<le> 64 \<and> 2 < unat mtu \<and> unat mtu < 2 ^ 16 \<and> length (annexb f) < 2 ^ 28 \<and>
     (\<forall>(four, n) \<in> set f. nalu_ok n \<and> n ! 0 < 128 \<and> n ! 0 AND 31 \<notin> {24, 25, 28, 29}))"

lemma h264_create:
  assumes "h264_valid mtu f" "fits (h264_payloads mtu f) (init_array pBuf len pLens sub)" "pBuf = None \<or> pLens \<noteq> None"
  shows "createPayloadForH264 mtu (Some (annexb f)) (word_of_nat (length (annexb f))) pBuf (Some len) pLens (Some sub) =
     finish_array pBuf (Some len) pLens (Some sub) (STATUS_SUCCESS, added (h264_payloads mtu f) (init_array pBuf len pLens sub))"
proof -
  have v: "f \<noteq> []" "2 < unat mtu" "unat mtu < 2 ^ 16" "\<forall>(four, n) \<in> set f. nalu_ok n" "length (annexb f) < 2 ^ 30" "length f \<le> 64"
    using assms(1) by (auto simp: h264_valid_def)
  obtain infos where i: "h264_collect (annexb f) (word_of_nat (length (annexb f))) 0 [] = Some (STATUS_SUCCESS, 0, infos)"
    "list_all2 (info_of (annexb f)) infos (map snd f)"
    using h264_collect_frame[of f "[]" "[]"] v(4-6) by auto
  have "infos \<noteq> []" using i(2) v(1) by auto
  moreover have "h264_loop mtu (annexb f) infos 0 0 0 (word_of_nat 1) (init_array pBuf len pLens sub) =
      Some (STATUS_SUCCESS, added (h264_payloads mtu f) (init_array pBuf len pLens sub))"
    by (rule h264_loop_groups[OF v(2,3) i(2), where sz = 1 and pend = "[]"]) (use assms(2) in \<open>simp_all add: h264_payloads_def\<close>)
  ultimately show ?thesis using i(1) v(2) assms(3) by (auto simp: createPayloadForH264_def word_less_nat_alt)
qed

end
