(* ===== verification/H264Transport.thy ===== *)
theory H264Transport
  imports RtpH264
begin

text \<open>
  The H.264 payloader of \<^verbatim>\<open>RtpH264Payloader.c\<close> keeps the contract of the locale \<open>payloader\<close>: the
  sizes of its payloads, what the depayloader takes out of aggregation packets, fragments and
  single NAL units, and the transport of a frame.
\<close>

section \<open>Sizes\<close>

lemma h264_nalu_payloads_size:
  assumes "2 < unat mtu"
  shows "length (concat (h264_nalu_payloads mtu n)) \<le> 3 * length n + 3" "h264_nalu_payloads mtu n \<noteq> []"
proof -
  let ?cs = "chunks (unat mtu - 2) (drop 1 n)"
  have "\<forall>c \<in> set ?cs. 0 < length c" using chunks_bounds[of "unat mtu - 2"] assms by auto
  then have "length ?cs \<le> length (concat ?cs)" by (rule length_le_concat)
  then show "length (concat (h264_nalu_payloads mtu n)) \<le> 3 * length n + 3"
    using assms by (simp add: h264_nalu_payloads_def length_concat_fu_payloads[where h = 2]) linarith
  show "h264_nalu_payloads mtu n \<noteq> []"
  proof (cases "length n \<le> unat mtu")
    case False
    then have "?cs \<noteq> []" using assms by (subst chunks.simps) auto
    then show ?thesis using False by (cases ?cs) (auto simp: h264_nalu_payloads_def)
  qed (simp add: h264_nalu_payloads_def)
qed

definition nalus_size :: "bytes list \<Rightarrow> nat" where
  "nalus_size ns = (\<Sum>n \<leftarrow> ns. 3 * length n + 3)"

lemma nalus_size_simps [simp]: "nalus_size [] = 0" "nalus_size (n # ns) = 3 * length n + 3 + nalus_size ns"
    "nalus_size (ns @ ms) = nalus_size ns + nalus_size ms"
  by (simp_all add: nalus_size_def)

lemma stap_payload_size: "length (stap_payload (n # ns)) \<le> nalus_size (n # ns)"
proof -
  have "length (concat (map stap_entry ns)) \<le> nalus_size ns" by (induction ns) auto
  then show ?thesis by (simp add: stap_payload_def)
qed

lemma flush_size:
  assumes "2 < unat mtu"
  shows "length (concat (flush_payloads mtu pend)) \<le> nalus_size pend"
proof (cases pend)
  case (Cons n ns)
  then show ?thesis
    using stap_payload_size[of n ns] h264_nalu_payloads_size(1)[OF assms, of n] by (cases ns) (simp_all add: flush_payloads_def)
qed (simp add: flush_payloads_def)

lemma h264_group_size:
  assumes "2 < unat mtu"
  shows "length (concat (h264_group mtu pend sz ns)) \<le> nalus_size pend + nalus_size ns"
proof (induction ns arbitrary: pend sz)
  case Nil
  then show ?case using flush_size[OF assms] by simp
next
  case (Cons n ns)
  then show ?case
    using flush_size[OF assms, of pend] h264_nalu_payloads_size(1)[OF assms, of n]
      Cons.IH[of "[]" 1] Cons.IH[of "pend @ [n]" "sz + (2 + length n)"] Cons.IH[of "[n]" "1 + (2 + length n)"] by auto
qed

lemma nalus_size_annexb: "nalus_size (map snd f) \<le> 3 * length (annexb f)"
  by (induction f) auto

text \<open>A payload is one of a NAL unit, or an aggregation packet that fits the MTU.\<close>

lemma flush_members:
  assumes "p \<in> set (flush_payloads mtu pend)" "1 < length pend \<longrightarrow> length (stap_payload pend) \<le> unat mtu"
  shows "(\<exists>n \<in> set pend. p \<in> set (h264_nalu_payloads mtu n)) \<or>
     (\<exists>g. g \<noteq> [] \<and> set g \<subseteq> set pend \<and> p = stap_payload g \<and> length p \<le> unat mtu)"
proof (cases "1 < length pend")
  case True
  then have "p = stap_payload pend" "pend \<noteq> []" using assms(1) by (auto simp: flush_payloads_def)
  then show ?thesis using assms(2) True by blast
next
  case False
  then show ?thesis using assms(1) by (auto simp: flush_payloads_def)
qed

lemma h264_group_payloads:
  assumes "p \<in> set (h264_group mtu pend sz ns)" "sz = length (stap_payload pend)" "1 < length pend \<longrightarrow> sz \<le> unat mtu"
  shows "(\<exists>n \<in> set (pend @ ns). p \<in> set (h264_nalu_payloads mtu n)) \<or>
     (\<exists>g. g \<noteq> [] \<and> set g \<subseteq> set (pend @ ns) \<and> p = stap_payload g \<and> length p \<le> unat mtu)"
  using assms
proof (induction ns arbitrary: pend sz)
  case Nil
  then show ?case using flush_members[of p mtu pend] by simp
next
  case (Cons n ns)
  have fl: "(\<exists>n \<in> set pend. p \<in> set (h264_nalu_payloads mtu n)) \<or> (\<exists>g. g \<noteq> [] \<and> set g \<subseteq> set pend \<and> p = stap_payload g \<and> length p \<le> unat mtu)"
    if "p \<in> set (flush_payloads mtu pend)" using flush_members[OF that] Cons.prems(2,3) by simp
  have s1: "1 = length (stap_payload [])" "1 + (2 + length n) = length (stap_payload [n])"
    "sz + (2 + length n) = length (stap_payload (pend @ [n]))" using Cons.prems(2) by (simp_all add: stap_payload_def)
  show ?case
  proof (cases "length n > unat mtu")
    case True
    then consider "p \<in> set (flush_payloads mtu pend)" | "p \<in> set (h264_nalu_payloads mtu n)" | "p \<in> set (h264_group mtu [] 1 ns)"
      using Cons.prems(1) by auto
    then show ?thesis
    proof cases
      case 3
      from Cons.IH[OF 3 s1(1)] show ?thesis by auto
    qed (use fl in auto)
  next
    case small: False
    show ?thesis
    proof (cases "sz + (2 + length n) \<le> unat mtu")
      case True
      then have "p \<in> set (h264_group mtu (pend @ [n]) (sz + (2 + length n)) ns)" using Cons.prems(1) small by simp
      from Cons.IH[OF this s1(3)] True show ?thesis by auto
    next
      case False
      then consider "p \<in> set (flush_payloads mtu pend)" | "p \<in> set (h264_group mtu [n] (1 + (2 + length n)) ns)"
        using Cons.prems(1) small by auto
      then show ?thesis
      proof cases
        case 2
        from Cons.IH[OF 2 s1(2)] show ?thesis by auto
      qed (use fl in auto)
    qed
  qed
qed

section \<open>What the depayloader takes out of a payload\<close>

text \<open>The NAL units of an aggregation packet, and their data with the start codes.\<close>

function unstap :: "bytes \<Rightarrow> bytes list" where
  "unstap xs =
     (if length xs < 2 then []
      else let k = unat (MAKE_INT16 (xs ! 1) (xs ! 0)) in take k (drop 2 xs) # unstap (drop (2 + k) xs))"
  by pat_completeness auto

termination unstap
  by (relation "measure length") auto

declare unstap.simps [simp del]

fun stap_data :: "bytes \<Rightarrow> bytes list \<Rightarrow> bytes" where
  "stap_data code [] = []"
| "stap_data code (n # ns) = code @ n @ stap_data [0, 0, 1] ns"

definition h264_strip :: "bytes \<Rightarrow> bytes" where
  "h264_strip p =
     (if p ! 0 AND 31 = 28
      then (if p ! 1 AND 0x80 \<noteq> 0 then [0, 0, 0, 1, (p ! 0 AND 0x60) OR (p ! 1 AND 0x1F)] @ drop 2 p else drop 2 p)
      else if p ! 0 AND 31 = 24 then stap_data [0, 0, 0, 1] (unstap (drop 1 p))
      else [0, 0, 0, 1] @ p)"

lemma unstap_entries: "\<forall>n \<in> set ns. length n < 2 ^ 16 \<Longrightarrow> unstap (concat (map stap_entry ns)) = ns"
proof (induction ns)
  case Nil
  then show ?case by (simp add: unstap.simps)
next
  case (Cons n ns)
  have "getUnalignedInt16Be (stap_entry n @ concat (map stap_entry ns)) 0 = Some (word_of_nat (length n))"
    by (simp add: stap_entry_def)
  then have k: "MAKE_INT16 ((stap_entry n @ concat (map stap_entry ns)) ! 1) ((stap_entry n @ concat (map stap_entry ns)) ! 0) = word_of_nat (length n)"
    by (simp add: getUnalignedInt16Be_def memget_def)
  have "unat (word_of_nat (length n) :: u16) = length n" using Cons.prems by (simp add: unat_of_nat take_bit_nat_eq_self)
  then show ?case using Cons k by (subst unstap.simps) (simp add: Let_def stap_entry_def[of n])
qed

lemma stap_indicator: "(24 OR max_nri ns 0) AND 31 = 24"
proof -
  have "max_nri ns m AND 31 = 0" if "m AND 31 = 0" for m
    using that
  proof (induction ns arbitrary: m)
    case (Cons n ns)
    have "(n ! 0 AND 0x60) AND 31 = (0 :: byte)" by (simp add: and.assoc)
    then show ?case using Cons.IH Cons.prems by simp
  qed simp
  from this[of 0] show ?thesis by (simp add: bit.conj_disj_distrib2)
qed

lemma stap_strip:
  assumes "\<forall>n \<in> set ns. length n < 2 ^ 16"
  shows "h264_strip (stap_payload ns) = stap_data [0, 0, 0, 1] ns"
  using unstap_entries[OF assms] stap_indicator[of ns] by (simp add: h264_strip_def stap_payload_def)

section \<open>Aggregation packets\<close>

definition stap_ok :: "bytes list \<Rightarrow> bool" where
  "stap_ok ns = (\<forall>n \<in> set ns. n \<noteq> [] \<and> length n < 2 ^ 16)"

lemma stap_head:
  assumes "stap_ok (n # ns)" "raw = pre @ concat (map stap_entry (n # ns)) @ rest"
  defines "sub \<equiv> word_of_nat (length n) :: u16"
  shows "getUnalignedInt16Be raw (length pre) = Some sub" "unat sub = length n" "sub > 0" "ucast sub = (word_of_nat (length n) :: u32)"
    "drop (length pre + 2) raw = n @ concat (map stap_entry ns) @ rest" "memread raw (length pre + 2) (length n) = Some n"
    "raw = (pre @ stap_entry n) @ concat (map stap_entry ns) @ rest"
proof -
  have n: "n \<noteq> []" "length n < 2 ^ 16" using assms(1) by (auto simp: stap_ok_def)
  show u: "unat sub = length n" unfolding sub_def using n(2) by (simp add: unat_of_nat take_bit_nat_eq_self)
  then show "sub > 0" using n(1) by (simp add: word_less_nat_alt)
  show "ucast sub = (word_of_nat (length n) :: u32)" using u unat_small32[of "length n"] n(2) by (simp add: word_unat_eq_iff unsigned_ucast_eq take_bit_nat_eq_self)
  show "getUnalignedInt16Be raw (length pre) = Some sub"
    unfolding assms(2) by (subst get_Be_shift) (simp_all add: stap_entry_def sub_def)
  show "raw = (pre @ stap_entry n) @ concat (map stap_entry ns) @ rest" using assms(2) by simp
  show "drop (length pre + 2) raw = n @ concat (map stap_entry ns) @ rest" unfolding assms(2) by (simp add: stap_entry_def[of n])
  then show "memread raw (length pre + 2) (length n) = Some n" by (simp add: memread_def assms(2))
qed

lemma stap_scan_entries:
  assumes "stap_ok ns" "ns \<noteq> []" "raw = pre @ concat (map stap_entry ns) @ rest" "pl = length pre + length (concat (map stap_entry ns))"
  shows "\<exists>fs'. stap_scan raw pl (word_of_nat (length code)) (length pre) isFirst len fs =
     Some (len + word_of_nat (length (stap_data (if isFirst then code else [0, 0, 1]) ns)), fs')"
  using assms
proof (induction ns arbitrary: pre isFirst len fs)
  case (Cons n ns)
  note h = stap_head[OF Cons.prems(1,3)]
  let ?c = "if isFirst then code else [0, 0, 1]"
  let ?len = "len + (word_of_nat (length n) + (if isFirst then word_of_nat (length code) else 3))"
  have len: "?len = len + word_of_nat (length (?c @ n))" by (simp add: algebra_simps)
  have n: "n \<noteq> []" "length n < 2 ^ 32" "stap_ok ns" using Cons.prems(1) by (auto simp: stap_ok_def)
  obtain fs1 where fs1: "(if \<not> fs then h264NaluIsFrameStart (Some (drop (length pre + 2) raw)) (word_of_nat (length n)) else Some True) = Some fs1"
    using h264_frame_start'[OF n(1,2)] unfolding h(5) by (cases fs) auto
  have step: "stap_scan raw pl (word_of_nat (length code)) (length pre) isFirst len fs =
      (if length pre + 2 + length n < pl then stap_scan raw pl (word_of_nat (length code)) (length pre + 2 + length n) False ?len fs1
       else Some (?len, fs1))"
    by (subst stap_scan.simps) (simp only: h(1-4) fs1 option.case Let_def bind.bind_lunit simp_thms)
  show ?case
  proof (cases "ns = []")
    case True
    then show ?thesis unfolding step len using Cons.prems(4) by simp
  next
    case False
    then obtain m ms where "ns = m # ms" by (cases ns) auto
    then have lt: "length pre + 2 + length n < pl" using Cons.prems(4) by simp
    have e: "length pre + 2 + length n = length (pre @ stap_entry n)" by simp
    have pl: "pl = length (pre @ stap_entry n) + length (concat (map stap_entry ns))" using Cons.prems(4) by simp
    obtain fs' where "stap_scan raw pl (word_of_nat (length code)) (length (pre @ stap_entry n)) False ?len fs1 =
        Some (?len + word_of_nat (length (stap_data [0, 0, 1] ns)), fs')"
      using Cons.IH[OF n(3) False h(7) pl, of False ?len fs1] by auto
    then show ?thesis unfolding step e using lt e by (auto simp: len)
  qed
qed simp

lemma stap_copy_entries:
  assumes "stap_ok ns" "ns \<noteq> []" "raw = pre @ concat (map stap_entry ns) @ rest" "pl = length pre + length (concat (map stap_entry ns))"
    and "at + length (stap_data (if isFirst then code else [0, 0, 1]) ns) \<le> length out"
  shows "stap_copy raw pl code (length pre) isFirst out at len =
     Some (bsplice out at (stap_data (if isFirst then code else [0, 0, 1]) ns),
           len + word_of_nat (length (stap_data (if isFirst then code else [0, 0, 1]) ns)))"
  using assms
proof (induction ns arbitrary: pre isFirst out at len)
  case (Cons n ns)
  note h = stap_head[OF Cons.prems(1,3)]
  define c where "c = (if isFirst then code else [0, 0, 1])"
  have n: "stap_ok ns" using Cons.prems(1) by (auto simp: stap_ok_def)
  have fit: "at + length (c @ n @ stap_data [0, 0, 1] ns) \<le> length out" using Cons.prems(5) by (simp add: c_def)
  have w: "memwrite out at c = Some (bsplice out at c)" "memwrite (bsplice out at c) (at + length c) n = Some (bsplice out at (c @ n))"
    using fit by (simp_all add: memwrite_def)
  let ?len = "len + word_of_nat (length c) + word_of_nat (length n)"
  have step: "stap_copy raw pl code (length pre) isFirst out at len =
      (if length pre + 2 + length n < pl
       then stap_copy raw pl code (length pre + 2 + length n) False (bsplice out at (c @ n)) (at + length c + length n) ?len
       else Some (bsplice out at (c @ n), ?len))"
    by (subst stap_copy.simps) (simp only: h(1-4,6) w c_def[symmetric] option.case Let_def bind.bind_lunit simp_thms)
  show ?case
  proof (cases "ns = []")
    case True
    then show ?thesis unfolding step using Cons.prems(4) by (simp add: c_def[symmetric])
  next
    case False
    then obtain m ms where "ns = m # ms" by (cases ns) auto
    then have lt: "length pre + 2 + length n < pl" using Cons.prems(4) by simp
    have e: "length pre + 2 + length n = length (pre @ stap_entry n)" "at + length c + length n = at + length (c @ n)" by simp_all
    have pl: "pl = length (pre @ stap_entry n) + length (concat (map stap_entry ns))" using Cons.prems(4) by simp
    have "stap_copy raw pl code (length (pre @ stap_entry n)) False (bsplice out at (c @ n)) (at + length (c @ n)) ?len =
        Some (bsplice (bsplice out at (c @ n)) (at + length (c @ n)) (stap_data [0, 0, 1] ns), ?len + word_of_nat (length (stap_data [0, 0, 1] ns)))"
      using Cons.IH[OF n False h(7) pl, of "at + length (c @ n)" False "bsplice out at (c @ n)" ?len] fit by simp
    then show ?thesis unfolding step e using lt e fit by (simp add: c_def[symmetric] algebra_simps)
  qed
qed simp

section \<open>The depayloader\<close>

text \<open>
  What a payload must be for the depayloader: an aggregation packet, a fragment with data, or a NAL
  unit whose type is not that of a packet. \<open>depays p d\<close> says that it takes \<open>d\<close> out of \<open>p\<close>, in both of
  its modes.
\<close>

definition depays :: "bytes \<Rightarrow> bytes \<Rightarrow> bool" where
  "depays p d =
     (\<forall>rest a out. (\<exists>start. depayH264FromRtpPayload (Some (p @ rest)) (word_of_nat (length p)) None (Some a) None =
        Some (STATUS_SUCCESS, None, Some (word_of_nat (length d)), start)) \<and>
      (length d \<le> length out \<longrightarrow>
        (\<exists>start. depayH264FromRtpPayload (Some (p @ rest)) (word_of_nat (length p)) (Some out) (Some (word_of_nat (length d))) None =
          Some (STATUS_SUCCESS, Some (d @ drop (length d) out), Some (word_of_nat (length d)), start))))"

lemma payload_word:
  assumes "p \<noteq> []" "length p < 2 ^ 31"
  shows "unat (word_of_nat (length p) :: u32) = length p" "(word_of_nat (length p) :: u32) \<noteq> 0" "memget (p @ rest) 0 = Some (p ! 0)"
proof -
  show u: "unat (word_of_nat (length p) :: u32) = length p" using assms(2) by (intro unat_small32) simp
  then show "(word_of_nat (length p) :: u32) \<noteq> 0" using assms(1) by (auto simp: word_unat_eq_iff)
  show "memget (p @ rest) 0 = Some (p ! 0)" using assms(1) by (simp add: memget_def nth_append)
qed

lemma depays_stap:
  assumes "stap_ok g" "g \<noteq> []" "length (stap_payload g) < 2 ^ 31"
  shows "depays (stap_payload g) (stap_data [0, 0, 0, 1] g)"
  unfolding depays_def
proof (intro allI conjI impI)
  fix rest :: bytes and a :: u32 and out :: bytes
  let ?p = "stap_payload g" and ?d = "stap_data [0, 0, 0, 1] g" and ?h = "24 OR max_nri g 0"
  note w = payload_word[OF _ assms(3)]
  have p: "?p @ rest = [?h] @ concat (map stap_entry g) @ rest" "length ?p = length [?h] + length (concat (map stap_entry g))" "?p \<noteq> []" "?p ! 0 = ?h"
    by (simp_all add: stap_payload_def)
  obtain fs where scan: "stap_scan (?p @ rest) (length ?p) (word_of_nat (length [0, 0, 0, 1 :: byte])) (length [?h]) True 0 False =
      Some (0 + word_of_nat (length ?d), fs)"
    using stap_scan_entries[OF assms(1,2) p(1,2), of "[0, 0, 0, 1]" True 0 False] by auto
  have ins: "h264_inspect (?p @ rest) (word_of_nat (length ?p)) 4 24 = Some (word_of_nat (length ?d), True, fs, 0)"
    using scan w(1)[OF p(3)] by (simp add: h264_inspect_def)
  note b0 = w(3)[OF p(3), unfolded p(4)] and ind = stap_indicator[of g]
  show "\<exists>start. depayH264FromRtpPayload (Some (?p @ rest)) (word_of_nat (length ?p)) None (Some a) None =
      Some (STATUS_SUCCESS, None, Some (word_of_nat (length ?d)), start)"
    using w(2)[OF p(3)] b0 ind ins by (simp add: depayH264FromRtpPayload_def Let_def)
  assume fit: "length ?d \<le> length out"
  have "stap_copy (?p @ rest) (length ?p) [0, 0, 0, 1] (length [?h]) True out 0 0 =
      Some (bsplice out 0 ?d, word_of_nat (length ?d))"
    using stap_copy_entries[OF assms(1,2) p(1,2), of 0 True "[0, 0, 0, 1]" out 0] fit by simp
  then have "h264_copy (?p @ rest) (word_of_nat (length ?p)) [0, 0, 0, 1] 24 True 0 out 0 (word_of_nat (length ?d)) =
      Some (bsplice out 0 ?d, word_of_nat (length ?d))"
    using w(1)[OF p(3)] by (simp add: h264_copy_def)
  then show "\<exists>start. depayH264FromRtpPayload (Some (?p @ rest)) (word_of_nat (length ?p)) (Some out) (Some (word_of_nat (length ?d))) None =
      Some (STATUS_SUCCESS, Some (?d @ drop (length ?d) out), Some (word_of_nat (length ?d)), start)"
    using w(2)[OF p(3)] b0 ind ins by (simp add: depayH264FromRtpPayload_def Let_def bsplice_def)
qed

text \<open>A packet with one start code in front: a NAL unit, or the first fragment of one.\<close>

lemma depays_coded:
  assumes "p \<noteq> []" "length p < 2 ^ 31" "p ! 0 AND 31 \<notin> {24, 25}"
    and ins: "\<And>rest. \<exists>fs. h264_inspect (p @ rest) (word_of_nat (length p)) 4 (p ! 0 AND 31) = Some (word_of_nat (length x), True, fs, hdr)"
    and copy: "\<And>rest out at. at = 4 \<Longrightarrow> 4 + length x \<le> length out \<Longrightarrow>
      h264_copy (p @ rest) (word_of_nat (length p)) [0, 0, 0, 1] (p ! 0 AND 31) True hdr out at (word_of_nat (length x)) =
        Some (bsplice out 4 x, word_of_nat (length x))"
  shows "depays p ([0, 0, 0, 1] @ x)"
  unfolding depays_def
proof (intro allI conjI impI)
  fix rest :: bytes and a :: u32 and out :: bytes
  let ?d = "[0, 0, 0, 1] @ x"
  note w = payload_word[OF assms(1,2)]
  obtain fs where fs: "h264_inspect (p @ rest) (word_of_nat (length p)) 4 (p ! 0 AND 31) = Some (word_of_nat (length x), True, fs, hdr)"
    using ins by blast
  have ln: "word_of_nat (length x) + 4 = (word_of_nat (length ?d) :: u32)" by simp
  show "\<exists>start. depayH264FromRtpPayload (Some (p @ rest)) (word_of_nat (length p)) None (Some a) None =
      Some (STATUS_SUCCESS, None, Some (word_of_nat (length ?d)), start)"
    using w fs assms(3) ln by (simp add: depayH264FromRtpPayload_def Let_def)
  assume fit: "length ?d \<le> length out"
  then have wr: "memwrite out 0 [0, 0, 0, 1] = Some (bsplice out 0 [0, 0, 0, 1])"
    "bsplice (bsplice out 0 [0, 0, 0, 1]) 4 x = ?d @ drop (length ?d) out" "4 + length x \<le> length (bsplice out 0 [0, 0, 0, 1])"
    by (simp_all add: memwrite_def) (simp add: bsplice_def)
  show "\<exists>start. depayH264FromRtpPayload (Some (p @ rest)) (word_of_nat (length p)) (Some out) (Some (word_of_nat (length ?d))) None =
      Some (STATUS_SUCCESS, Some (?d @ drop (length ?d) out), Some (word_of_nat (length ?d)), start)"
    using w fs assms(3) ln wr copy[of "Suc (Suc (Suc (Suc 0)))", OF _ wr(3)] by (simp add: depayH264FromRtpPayload_def Let_def add.commute[of _ 4])
qed

lemma depays_single:
  assumes "n \<noteq> []" "length n < 2 ^ 31" "n ! 0 AND 31 \<notin> {24, 25, 28, 29}"
  shows "depays n ([0, 0, 0, 1] @ n)"
proof (rule depays_coded[OF assms(1,2)])
  note w = payload_word[OF assms(1,2)]
  show "n ! 0 AND 31 \<notin> {24, 25}" using assms(3) by blast
  show "\<exists>fs. h264_inspect (n @ rest) (word_of_nat (length n)) 4 (n ! 0 AND 31) = Some (word_of_nat (length n), True, fs, 0)" for rest
    using assms(2,3) h264_frame_start'[OF assms(1), of rest] by (simp add: h264_inspect_def)
  show "h264_copy (n @ rest) (word_of_nat (length n)) [0, 0, 0, 1] (n ! 0 AND 31) True 0 out at (word_of_nat (length n)) =
      Some (bsplice out 4 n, word_of_nat (length n))" if "at = 4" "4 + length n \<le> length out" for rest out at
    using assms(3) w(1) that by (simp add: h264_copy_def memread_def memwrite_def)
qed

lemma fu_a_fields:
  obtains x z where "h264_fu_header b0 isFirst isLast = [x, z]" "x AND 31 = 28" "x AND 0x60 = b0 AND 0x60" "z AND 0x1F = b0 AND 0x1F"
    "(z AND 0x80 \<noteq> 0) = isFirst"
proof (rule that)
  show "h264_fu_header b0 isFirst isLast = [28 OR (b0 AND 0x60),
     if isFirst then (b0 AND 0x1F) OR 0x80 else if isLast then (b0 AND 0x1F) OR 0x40 else b0 AND 0x1F]"
    by (simp only: h264_fu_header_def Let_def)
  have a: "(b0 AND 0x60) AND 31 = 0" "(b0 AND 0x1F) AND 0x80 = 0" by (simp_all add: and.assoc)
  show "(28 OR (b0 AND 0x60)) AND 31 = 28" "(28 OR (b0 AND 0x60)) AND 0x60 = b0 AND 0x60"
    using a by (simp_all add: bit.conj_disj_distrib2 and.assoc)
  show "(if isFirst then (b0 AND 0x1F) OR 0x80 else if isLast then (b0 AND 0x1F) OR 0x40 else b0 AND 0x1F) AND 0x1F = b0 AND 0x1F"
    by (simp add: bit.conj_disj_distrib2 and.assoc)
  show "((if isFirst then (b0 AND 0x1F) OR 0x80 else if isLast then (b0 AND 0x1F) OR 0x40 else b0 AND 0x1F) AND 0x80 \<noteq> 0) = isFirst"
    using a by (auto simp: bit.conj_disj_distrib2)
qed

lemma nalu_byte: "b < 128 \<Longrightarrow> (b AND 0x60) OR (b AND 0x1F) = (b :: byte)"
proof -
  assume "b < 128"
  then have "b AND 0x7F = b" using less_mask_eq[of b 7] by (simp add: mask_eq_exp_minus_1)
  moreover have "(b AND 0x60) OR (b AND 0x1F) = b AND (0x60 OR 0x1F)" by (simp only: bit.conj_disj_distrib)
  ultimately show ?thesis by simp
qed

lemma depays_fragment:
  assumes "c \<noteq> []" "length c < 2 ^ 30" "b0 < 128" "p = h264_fu_header b0 isFirst isLast @ c"
  shows "depays p ((if isFirst then [0, 0, 0, 1, b0] else []) @ c)"
proof -
  obtain x z where xz: "h264_fu_header b0 isFirst isLast = [x, z]" "x AND 31 = 28" "x AND 0x60 = b0 AND 0x60" "z AND 0x1F = b0 AND 0x1F"
    "(z AND 0x80 \<noteq> 0) = isFirst" by (rule fu_a_fields[of b0 isFirst isLast])
  have p: "p = x # z # c" using assms(4) xz(1) by simp
  have lp: "p \<noteq> []" "length p < 2 ^ 31" using assms(2) by (simp_all add: p)
  note w = payload_word[OF lp]
  have m: "memget (p @ rest) 0 = Some x" "memget (p @ rest) 1 = Some z" "memread (p @ rest) 2 (length c) = Some c" "drop 2 (p @ rest) = c @ rest" for rest
    by (simp_all add: p memget_def memread_def)
  have lc: "unat (word_of_nat (length c) :: u32) = length c" using assms(2) by (intro unat_small32) simp
  have l2: "word_of_nat (length p) - 2 = (word_of_nat (length c) :: u32)" by (simp add: p)
  have gt: "word_of_nat (length p) > (2 :: u32)" using w(1) assms(1) by (simp add: word_less_nat_alt p)
  have cz: "(word_of_nat (length c) :: u32) \<noteq> 0" using lc assms(1) by (auto simp: word_unat_eq_iff)
  show ?thesis
  proof (cases isFirst)
    case True
    have "depays p ([0, 0, 0, 1] @ b0 # c)"
    proof (rule depays_coded[OF lp])
      show "p ! 0 AND 31 \<notin> {24, 25}" using xz(2) by (simp add: p)
      show "\<exists>fs. h264_inspect (p @ rest) (word_of_nat (length p)) 4 (p ! 0 AND 31) = Some (word_of_nat (length (b0 # c)), True, fs, b0)" for rest
      proof -
        obtain r where "h264ReadUeGolomb (c @ rest) (word_of_nat (length c)) = Some r"
          using ue_golomb_zero[OF cz, of "c @ rest"] lc by auto
        then show ?thesis using True xz m(1,2,4)[of rest] gt l2 nalu_byte[OF assms(3)]
          by (simp add: h264_inspect_def Let_def p add.commute) blast
      qed
      show "h264_copy (p @ rest) (word_of_nat (length p)) [0, 0, 0, 1] (p ! 0 AND 31) True b0 out at (word_of_nat (length (b0 # c))) =
          Some (bsplice out 4 (b0 # c), word_of_nat (length (b0 # c)))" if "at = 4" "4 + length (b0 # c) \<le> length out" for rest out at
      proof -
        have e: "unat (word_of_nat (length (b0 # c)) - 1 :: u32) = length c" using lc by simp
        have "bsplice (bsplice out (at + 1) c) at [b0] = bsplice out at (b0 # c)" using that by (simp add: bsplice_def min_def)
        then show ?thesis using xz(2) m(3)[of rest] that e by (simp add: h264_copy_def p memwrite_def Let_def)
      qed
    qed
    then show ?thesis using True by simp
  next
    case False
    have ins: "h264_inspect (p @ rest) (word_of_nat (length p)) 4 28 = Some (word_of_nat (length c), False, False, b0)" for rest
      using False xz m(1,2)[of rest] l2 nalu_byte[OF assms(3)] by (simp add: h264_inspect_def Let_def)
    have copy: "h264_copy (p @ rest) (word_of_nat (length p)) [0, 0, 0, 1] 28 False b0 out 0 (word_of_nat (length c)) =
        Some (bsplice out 0 c, word_of_nat (length c))" if "length c \<le> length out" for rest out
      using that m(3)[of rest] lc by (simp add: h264_copy_def memwrite_def Let_def)
    have "depays p c"
      unfolding depays_def using w ins copy xz(2) by (auto simp: depayH264FromRtpPayload_def Let_def p bsplice_def)
    then show ?thesis using False by simp
  qed
qed

section \<open>The contract of the payloader\<close>

lemma h264_strip_fragment:
  assumes "b0 < 128"
  shows "h264_strip (h264_fu_header b0 isFirst isLast @ c) = (if isFirst then [0, 0, 0, 1, b0] else []) @ c"
proof -
  obtain x z where "h264_fu_header b0 isFirst isLast = [x, z]" "x AND 31 = 28" "x AND 0x60 = b0 AND 0x60" "z AND 0x1F = b0 AND 0x1F"
    "(z AND 0x80 \<noteq> 0) = isFirst" by (rule fu_a_fields[of b0 isFirst isLast])
  then show ?thesis using nalu_byte[OF assms] by (cases isFirst) (simp_all add: h264_strip_def)
qed

lemma h264_strip_fragments:
  "b0 < 128 \<Longrightarrow> concat (map h264_strip (fu_payloads (h264_fu_header b0) isFirst cs)) =
     (if isFirst \<and> cs \<noteq> [] then [0, 0, 0, 1, b0] else []) @ concat cs"
  by (induction "h264_fu_header b0" isFirst cs rule: fu_payloads.induct) (simp_all add: h264_strip_fragment)

text \<open>The receiver's data \<open>d\<close> is a stream of the NAL units \<open>ns\<close>, with start codes of either size.\<close>

definition stream_of :: "bytes list \<Rightarrow> bytes \<Rightarrow> bool" where
  "stream_of ns d = (\<exists>codes. length codes = length ns \<and> d = annexb (zip codes ns))"

lemma stream_of_append: "stream_of ns d \<Longrightarrow> stream_of ms e \<Longrightarrow> stream_of (ns @ ms) (d @ e)"
proof -
  assume "stream_of ns d" "stream_of ms e"
  then obtain c c' where "length c = length ns" "d = annexb (zip c ns)" "length c' = length ms" "e = annexb (zip c' ms)"
    by (auto simp: stream_of_def)
  then show ?thesis unfolding stream_of_def by (intro exI[of _ "c @ c'"]) (simp add: annexb_def)
qed

lemma stream_of_Nil [simp]: "stream_of [] []"
  by (simp add: stream_of_def)

lemma stream_of_one: "stream_of [n] ([0, 0, 0, 1] @ n)"
  unfolding stream_of_def by (intro exI[of _ "[True]"]) (simp add: start_bytes_def)

lemma stream_of_stap: "stream_of ns (stap_data (if four then [0, 0, 0, 1] else [0, 0, 1]) ns)"
proof (induction ns arbitrary: four)
  case (Cons n ns)
  obtain codes where "length codes = length ns" "stap_data [0, 0, 1] ns = annexb (zip codes ns)"
    using Cons.IH[of False] by (auto simp: stream_of_def)
  then show ?case unfolding stream_of_def by (intro exI[of _ "four # codes"]) (simp add: start_bytes_def)
qed simp

definition h264_nalu_ok :: "bytes \<Rightarrow> bool" where
  "h264_nalu_ok n = (n \<noteq> [] \<and> length n < 2 ^ 28 \<and> n ! 0 < 128 \<and> n ! 0 AND 31 \<notin> {24, 25, 28, 29})"

lemma h264_nalu_stream:
  assumes "2 < unat mtu" "h264_nalu_ok n"
  shows "stream_of [n] (concat (map h264_strip (h264_nalu_payloads mtu n)))"
proof -
  have n: "n \<noteq> []" "n ! 0 < 128" "n ! 0 AND 31 \<notin> {24, 25, 28, 29}" using assms(2) by (auto simp: h264_nalu_ok_def)
  have "concat (map h264_strip (h264_nalu_payloads mtu n)) = [0, 0, 0, 1] @ n"
  proof (cases "length n \<le> unat mtu")
    case True
    then show ?thesis using n(3) by (simp add: h264_nalu_payloads_def h264_strip_def)
  next
    case False
    then have "n = n ! 0 # drop 1 n" "drop 1 n \<noteq> []" using n(1) assms(1) by (cases n; auto)+
    moreover from this(2) have "chunks (unat mtu - 2) (drop 1 n) \<noteq> []" using assms(1) by (subst chunks.simps) simp
    ultimately show ?thesis using False assms(1) h264_strip_fragments[OF n(2), of True] by (simp add: h264_nalu_payloads_def)
  qed
  then show ?thesis by (simp add: stream_of_one[simplified])
qed

lemma flush_stream:
  assumes "2 < unat mtu" "unat mtu < 2 ^ 16" "\<forall>n \<in> set pend. h264_nalu_ok n \<and> length n \<le> unat mtu"
  shows "stream_of pend (concat (map h264_strip (flush_payloads mtu pend)))"
proof (cases pend)
  case (Cons n ns)
  show ?thesis
  proof (cases ns)
    case Nil
    then show ?thesis using h264_nalu_stream[OF assms(1), of n] assms(3) by (simp add: Cons flush_payloads_def)
  next
    case (Cons m ms)
    have "\<forall>n \<in> set pend. length n < 2 ^ 16" using assms(2,3) by auto
    from stap_strip[OF this] stream_of_stap[of pend True] show ?thesis by (simp add: \<open>pend = n # ns\<close> Cons flush_payloads_def)
  qed
qed (simp add: flush_payloads_def)

lemma h264_group_stream:
  assumes "2 < unat mtu" "unat mtu < 2 ^ 16" "\<forall>n \<in> set pend. h264_nalu_ok n \<and> length n \<le> unat mtu" "\<forall>n \<in> set ns. h264_nalu_ok n"
  shows "stream_of (pend @ ns) (concat (map h264_strip (h264_group mtu pend sz ns)))"
  using assms(3,4)
proof (induction ns arbitrary: pend sz)
  case Nil
  then show ?case using flush_stream[OF assms(1,2)] by simp
next
  case (Cons n ns)
  note fl = flush_stream[OF assms(1,2) Cons.prems(1)]
  have n: "h264_nalu_ok n" "\<forall>n \<in> set ns. h264_nalu_ok n" using Cons.prems(2) by auto
  show ?case
  proof (cases "length n > unat mtu")
    case True
    have "stream_of (pend @ [n] @ [] @ ns) (concat (map h264_strip (flush_payloads mtu pend)) @
        concat (map h264_strip (h264_nalu_payloads mtu n)) @ concat (map h264_strip (h264_group mtu [] 1 ns)))"
      using stream_of_append[OF fl stream_of_append[OF h264_nalu_stream[OF assms(1) n(1)] Cons.IH[of "[]" 1]]] n(2) by simp
    then show ?thesis using True by simp
  next
    case False
    have "stream_of ((pend @ [n]) @ ns) (concat (map h264_strip (h264_group mtu (pend @ [n]) (sz + (2 + length n)) ns)))"
      using Cons.IH[of "pend @ [n]"] n Cons.prems(1) False by simp
    moreover have "stream_of (pend @ [n] @ ns) (concat (map h264_strip (flush_payloads mtu pend)) @
        concat (map h264_strip (h264_group mtu [n] (1 + (2 + length n)) ns)))"
      using stream_of_append[OF fl Cons.IH[of "[n]" "1 + (2 + length n)"]] n False by simp
    ultimately show ?thesis using False by simp
  qed
qed

lemma stap_data_size: "length code \<le> 4 \<Longrightarrow> length (stap_data code ns) \<le> 2 * length (concat (map stap_entry ns))"
proof (induction ns arbitrary: code)
  case (Cons n ns)
  have "length (stap_data [0, 0, 1] ns) \<le> 2 * length (concat (map stap_entry ns))" by (rule Cons.IH) simp
  then show ?case using Cons.prems by simp
qed simp

lemma h264_nalu_payload:
  assumes "2 < unat mtu" "h264_nalu_ok n" "p \<in> set (h264_nalu_payloads mtu n)"
  shows "p \<noteq> [] \<and> length p \<le> unat mtu \<and> length (h264_strip p) < 2 ^ 32 \<and> depays p (h264_strip p)"
proof -
  have n: "n \<noteq> []" "length n < 2 ^ 28" "n ! 0 < 128" "n ! 0 AND 31 \<notin> {24, 25, 28, 29}" using assms(2) by (auto simp: h264_nalu_ok_def)
  show ?thesis
  proof (cases "length n \<le> unat mtu")
    case True
    then have "p = n" using assms(3) by (simp add: h264_nalu_payloads_def)
    moreover have "h264_strip n = [0, 0, 0, 1] @ n" using n(4) by (simp add: h264_strip_def)
    ultimately show ?thesis using True n depays_single[OF n(1) _ n(4)] by simp
  next
    case False
    then obtain s e c where p: "p = h264_fu_header (n ! 0) s e @ c" "c \<in> set (chunks (unat mtu - 2) (drop 1 n))"
      using assms(3) by (auto simp: h264_nalu_payloads_def dest!: fu_payloadsD)
    have c: "c \<noteq> []" "length c \<le> unat mtu - 2" "length c \<le> length n"
      using chunks_bounds[OF _ p(2)] length_concat_ge[OF p(2)] assms(1) by auto
    then show ?thesis
      using depays_fragment[OF c(1) _ n(3) p(1)] h264_strip_fragment[OF n(3), of s e c] n(2) assms(1) by (auto simp: p(1))
  qed
qed

lemma h264_stap:
  assumes "unat mtu < 2 ^ 16" "g \<noteq> []" "\<forall>n \<in> set g. h264_nalu_ok n" "length (stap_payload g) \<le> unat mtu"
  shows "length (h264_strip (stap_payload g)) < 2 ^ 32 \<and> depays (stap_payload g) (h264_strip (stap_payload g))"
proof -
  have l: "length (concat (map stap_entry g)) < 2 ^ 16" using assms(1,4) by (simp add: stap_payload_def)
  have "length n < 2 ^ 16" if "n \<in> set g" for n
    using length_concat_ge[of "stap_entry n" "map stap_entry g"] that l by simp
  then have ok: "stap_ok g" "\<forall>n \<in> set g. length n < 2 ^ 16" using assms(3) by (auto simp: stap_ok_def h264_nalu_ok_def)
  show ?thesis unfolding stap_strip[OF ok(2)]
    using depays_stap[OF ok(1) assms(2)] stap_data_size[of "[0, 0, 0, 1]" g] l by (simp add: stap_payload_def)
qed

lemma h264_frame_nalu: "h264_valid mtu f \<Longrightarrow> n \<in> set (map snd f) \<Longrightarrow> h264_nalu_ok n"
  using annexb_member[of _ n f] by (fastforce simp: h264_valid_def h264_nalu_ok_def nalu_ok_def)

lemma h264_payload:
  assumes "h264_valid mtu f" "p \<in> set (h264_payloads mtu f)"
  shows "p \<noteq> [] \<and> length p \<le> unat mtu \<and> length (h264_strip p) < 2 ^ 32 \<and> depays p (h264_strip p)"
proof -
  have v: "2 < unat mtu" "unat mtu < 2 ^ 16" using assms(1) by (auto simp: h264_valid_def)
  note ok = h264_frame_nalu[OF assms(1)]
  have "(\<exists>n \<in> set (map snd f). p \<in> set (h264_nalu_payloads mtu n)) \<or>
     (\<exists>g. g \<noteq> [] \<and> set g \<subseteq> set (map snd f) \<and> p = stap_payload g \<and> length p \<le> unat mtu)"
    using h264_group_payloads[of p mtu "[]" 1 "map snd f"] assms(2) by (simp add: h264_payloads_def stap_payload_def)
  then show ?thesis
  proof
    assume "\<exists>n \<in> set (map snd f). p \<in> set (h264_nalu_payloads mtu n)"
    then show ?thesis using h264_nalu_payload[OF v(1)] ok by blast
  next
    assume "\<exists>g. g \<noteq> [] \<and> set g \<subseteq> set (map snd f) \<and> p = stap_payload g \<and> length p \<le> unat mtu"
    then obtain g where g: "g \<noteq> []" "set g \<subseteq> set (map snd f)" "p = stap_payload g" "length p \<le> unat mtu" by blast
    then have "\<forall>n \<in> set g. h264_nalu_ok n" using ok by blast
    then show ?thesis using h264_stap[OF v(2) g(1)] g by (simp add: stap_payload_def)
  qed
qed

lemma h264_counts:
  assumes "h264_valid mtu f"
  shows "length (concat (h264_payloads mtu f)) < 2 ^ 30" "length (h264_payloads mtu f) < 2 ^ 30"
proof -
  have "2 < unat mtu" "length (annexb f) < 2 ^ 28" using assms by (auto simp: h264_valid_def)
  then show s: "length (concat (h264_payloads mtu f)) < 2 ^ 30"
    using h264_group_size[of mtu "[]" 1 "map snd f"] nalus_size_annexb[of f] by (simp add: h264_payloads_def)
  have "\<forall>p \<in> set (h264_payloads mtu f). 0 < length p" using h264_payload[OF assms] by blast
  then show "length (h264_payloads mtu f) < 2 ^ 30" using length_le_concat[of "h264_payloads mtu f"] s by simp
qed

lemma h264_group_nonempty:
  assumes "2 < unat mtu"
  shows "pend @ ns \<noteq> [] \<Longrightarrow> h264_group mtu pend sz ns \<noteq> []"
proof (induction ns arbitrary: pend sz)
  case Nil
  then show ?case using h264_nalu_payloads_size(2)[OF assms] by (cases pend) (auto simp: flush_payloads_def)
next
  case (Cons n ns)
  then show ?case using h264_nalu_payloads_size(2)[OF assms, of n] by auto
qed

interpretation h264: payloader createPayloadForH264 "\<lambda>pRaw len pData pLen. depayH264FromRtpPayload pRaw len pData pLen None"
  annexb h264_valid h264_payloads h264_strip "\<lambda>f d. stream_of (map snd f) d"
proof (unfold_locales, goal_cases)
  case (1 mtu f)
  then have "h264_payloads mtu f \<noteq> []" using h264_group_nonempty[of mtu "[]" "map snd f" 1] by (simp add: h264_payloads_def h264_valid_def)
  then show ?case using h264_payload[OF 1] by blast
next
  case (2 mtu f)
  then show ?case using h264_counts(1)[OF 2] by simp
next
  case (3 mtu f a b)
  show ?case using h264_create[OF 3 init_array_laws(1)] by (simp add: init_array_laws(2))
next
  case (4 mtu f buf lens)
  let ?P = "h264_payloads mtu f"
  have "fits ?P (init_array (Some buf) (word_of_nat (length (concat ?P))) (Some lens) (word_of_nat (length ?P)))"
    using h264_counts[OF 4(1)] 4(2,3) by (intro init_array_laws(3)) simp_all
  from h264_create[OF 4(1) this] show ?case by (simp add: init_array_laws(4) sub_lens_def)
next
  case (5 mtu f p rest a)
  then show ?case using h264_payload[OF 5] unfolding depays_def by blast
next
  case (6 mtu f p out rest)
  then show ?case using h264_payload[OF 6(1,2)] unfolding depays_def by blast
next
  case (7 mtu f)
  then show ?case using h264_group_stream[of mtu "[]" "map snd f" 1] h264_frame_nalu[OF 7] by (simp add: h264_payloads_def h264_valid_def)
qed

text \<open>
  C20. An H.264 frame survives the transport: a stream of at most 64 well-formed NAL units (none of
  which has the type of a packet) is sent in packets of at most the MTU and a header, aggregated,
  fragmented or alone, and the receiver obtains the same NAL units in the same order, each after a
  start code.
\<close>

theorem h264_frame_transport:
  assumes "f \<noteq> []" "length f \<le> 64" "2 < unat mtu" "unat mtu < 2 ^ 16" "length (annexb f) < 2 ^ 28"
    and "\<forall>(four, n) \<in> set f. nalu_ok n \<and> n ! 0 < 128 \<and> n ! 0 AND 31 \<notin> {24, 25, 28, 29}" "pt < 128"
  shows "\<exists>raws ds codes. send_frame createPayloadForH264 mtu (annexb f) pt seq ts src junk = Some raws \<and>
     (\<forall>raw \<in> set raws. length raw \<le> 12 + unat mtu) \<and>
     those (map (receive_packet (\<lambda>pRaw len pData pLen. depayH264FromRtpPayload pRaw len pData pLen None) isBig junk') raws) = Some ds \<and>
     length codes = length f \<and> concat ds = annexb (zip codes (map snd f))"
proof -
  have "h264_valid mtu f" using assms(1-6) by (simp add: h264_valid_def)
  from h264.frame_transport[OF this assms(7)] show ?thesis unfolding stream_of_def length_map by blast
qed

theorem h264_frame_transport_witness:
  "\<exists>raws ds codes. send_frame createPayloadForH264 9 (annexb [(True, [0x67, 1]), (False, [0x68, 2]), (False, [0x65, 1, 2, 3, 4, 5, 6, 7, 8, 9])])
       102 65535 0 7 packet0 = Some raws \<and>
     (\<forall>raw \<in> set raws. length raw \<le> 12 + unat (9 :: u32)) \<and>
     those (map (receive_packet (\<lambda>pRaw len pData pLen. depayH264FromRtpPayload pRaw len pData pLen None) False packet0) raws) = Some ds \<and>
     length codes = length [(True, [0x67, 1 :: byte]), (False, [0x68, 2]), (False, [0x65, 1, 2, 3, 4, 5, 6, 7, 8, 9])] \<and>
     concat ds = annexb (zip codes (map snd [(True, [0x67, 1]), (False, [0x68, 2]), (False, [0x65, 1, 2, 3, 4, 5, 6, 7, 8, 9])]))"
  by (rule h264_frame_transport)
    (simp_all add: start_bytes_def nalu_ok_def next_code_def code_at_def upt_rec del: upt_Suc)

text \<open>
  The start of a frame. \<open>h264NaluIsFrameStart\<close> always has a result and reads nothing behind the
  NAL unit: parameter sets, SEI and delimiters start a frame, a slice starts one exactly when the
  first bit behind its header is set (which is the Exp-Golomb code of the first macroblock, 0), and
  no other NAL unit does.
\<close>

lemma h264_frame_start:
  assumes "n \<noteq> []" "length n < 2 ^ 32"
  shows "h264NaluIsFrameStart (Some n) (word_of_nat (length n)) =
     Some (n ! 0 AND 31 \<in> {6, 7, 8, 9} \<or> n ! 0 AND 31 \<in> {1, 5} \<and> 2 \<le> length n \<and> bit (n ! 1) 7)"
  using h264_frame_start'[OF assms, of "[]"] by simp

lemma h264_frame_start_witness:
  "h264NaluIsFrameStart (Some [0x65, 0x88]) (word_of_nat (length [0x65, 0x88 :: byte])) = Some True"
  using h264_frame_start[of "[0x65, 0x88]"] by (simp add: bit_simps)

text \<open>
  FU-B packets. The size of a FU-B packet is computed with the header of a FU-A packet, so that
  more bytes are copied than the packet has behind its header of four bytes: for a packet of five
  bytes the copy reads four bytes from offset four.
\<close>

lemma h264_fu_b_overread:
  "depayH264FromRtpPayload (Some [29, 0, 0, 0, 7]) 5 None (Some 0) None = Some (STATUS_SUCCESS, None, Some 4, False) \<and>
   depayH264FromRtpPayload (Some [29, 0, 0, 0, 7]) 5 (Some [0, 0, 0, 0]) (Some 4) None = None \<and>
   depayH264FromRtpPayload (Some [29, 0, 0, 0, 7, 1, 2, 3]) 5 (Some [0, 0, 0, 0]) (Some 4) None =
     Some (STATUS_SUCCESS, Some [7, 1, 2, 3], Some 4, False)"
  by (simp add: depayH264FromRtpPayload_def h264_inspect_def h264_copy_def memget_def memread_def memwrite_def bsplice_def Let_def)

end
