(* ===== verification/Stun.thy ===== *)
theory Stun
  imports Crc32
begin

text \<open>
  \<^verbatim>\<open>src/source/Stun/Stun.c\<close>: STUN messages.

  A \<open>StunPacket\<close> is one allocation: the structure, an array of pointers to attributes, and
  the attributes. Addresses are offsets into that allocation (\<open>attributeList\<close> is a list of
  offsets, \<open>attrs\<close> maps the offset of an attribute to its structure), with the structure sizes
  of a 64-bit host. An attribute structure that other data has been written over is absent
  from \<open>attrs\<close>. Reads of the message and writes into the allocation that leave them are
  \<open>None\<close>. The host's byte order is the argument \<open>isBig\<close>. HMAC-SHA1 comes from the TLS
  library and is the argument \<open>hmac\<close>, from key and message to the digest, or to \<open>None\<close> when
  the library reports an error. Pointers to results are not null.
\<close>

section \<open>Constants and structures\<close>

abbreviation (input) STUN_HEADER_LEN :: nat where "STUN_HEADER_LEN \<equiv> 20"
abbreviation (input) STUN_HEADER_MAGIC_COOKIE :: u32 where "STUN_HEADER_MAGIC_COOKIE \<equiv> 0x2112A442"
abbreviation (input) STUN_HEADER_MAGIC_COOKIE_LE :: u32 where "STUN_HEADER_MAGIC_COOKIE_LE \<equiv> 0x42A41221"
abbreviation (input) STUN_FINGERPRINT_XOR_VALUE :: u32 where "STUN_FINGERPRINT_XOR_VALUE \<equiv> 0x5354554e"
abbreviation (input) STUN_ATTRIBUTE_MAX_COUNT :: nat where "STUN_ATTRIBUTE_MAX_COUNT \<equiv> 20"
abbreviation (input) STUN_PACKET_ALLOCATION_SIZE :: u32 where "STUN_PACKET_ALLOCATION_SIZE \<equiv> 2048"

abbreviation (input) MAPPED_ADDRESS :: u16 where "MAPPED_ADDRESS \<equiv> 0x0001"
abbreviation (input) RESPONSE_ADDRESS :: u16 where "RESPONSE_ADDRESS \<equiv> 0x0002"
abbreviation (input) CHANGE_REQUEST :: u16 where "CHANGE_REQUEST \<equiv> 0x0003"
abbreviation (input) SOURCE_ADDRESS :: u16 where "SOURCE_ADDRESS \<equiv> 0x0004"
abbreviation (input) CHANGED_ADDRESS :: u16 where "CHANGED_ADDRESS \<equiv> 0x0005"
abbreviation (input) USERNAME :: u16 where "USERNAME \<equiv> 0x0006"
abbreviation (input) MESSAGE_INTEGRITY :: u16 where "MESSAGE_INTEGRITY \<equiv> 0x0008"
abbreviation (input) ERROR_CODE :: u16 where "ERROR_CODE \<equiv> 0x0009"
abbreviation (input) REFLECTED_FROM :: u16 where "REFLECTED_FROM \<equiv> 0x000B"
abbreviation (input) CHANNEL_NUMBER :: u16 where "CHANNEL_NUMBER \<equiv> 0x000C"
abbreviation (input) LIFETIME :: u16 where "LIFETIME \<equiv> 0x000D"
abbreviation (input) XOR_PEER_ADDRESS :: u16 where "XOR_PEER_ADDRESS \<equiv> 0x0012"
abbreviation (input) DATA :: u16 where "DATA \<equiv> 0x0013"
abbreviation (input) REALM :: u16 where "REALM \<equiv> 0x0014"
abbreviation (input) NONCE :: u16 where "NONCE \<equiv> 0x0015"
abbreviation (input) XOR_RELAYED_ADDRESS :: u16 where "XOR_RELAYED_ADDRESS \<equiv> 0x0016"
abbreviation (input) REQUESTED_ADDRESS_FAMILY :: u16 where "REQUESTED_ADDRESS_FAMILY \<equiv> 0x0017"
abbreviation (input) REQUESTED_TRANSPORT :: u16 where "REQUESTED_TRANSPORT \<equiv> 0x0019"
abbreviation (input) DONT_FRAGMENT :: u16 where "DONT_FRAGMENT \<equiv> 0x001A"
abbreviation (input) XOR_MAPPED_ADDRESS :: u16 where "XOR_MAPPED_ADDRESS \<equiv> 0x0020"
abbreviation (input) PRIORITY :: u16 where "PRIORITY \<equiv> 0x0024"
abbreviation (input) USE_CANDIDATE :: u16 where "USE_CANDIDATE \<equiv> 0x0025"
abbreviation (input) FINGERPRINT :: u16 where "FINGERPRINT \<equiv> 0x8028"
abbreviation (input) ICE_CONTROLLED :: u16 where "ICE_CONTROLLED \<equiv> 0x8029"
abbreviation (input) ICE_CONTROLLING :: u16 where "ICE_CONTROLLING \<equiv> 0x802A"

abbreviation (input) KVS_IP_FAMILY_TYPE_IPV4 :: u16 where "KVS_IP_FAMILY_TYPE_IPV4 \<equiv> 1"
abbreviation (input) KVS_IP_FAMILY_TYPE_IPV6 :: u16 where "KVS_IP_FAMILY_TYPE_IPV6 \<equiv> 2"

text \<open>The port is a native integer whose bytes are in network order, the address is 16 bytes.\<close>

record KvsIpAddress =
  ip_family :: u16
  ip_port :: u16
  ip_address :: bytes
  isPointToPoint :: bool

definition IS_IPV4_ADDR :: "KvsIpAddress \<Rightarrow> bool" where
  "IS_IPV4_ADDR a = (ip_family a = KVS_IP_FAMILY_TYPE_IPV4)"

record StunHeader =
  stunMessageType :: u16
  messageLength :: u16
  magicCookie :: u32
  transactionId :: bytes

text \<open>
  What follows the attribute header. Structures with the same layout share a constructor:
  \<open>StunAttributePadded\<close> is the user name, realm, nonce and data structure (\<open>paddedLength\<close> and the
  bytes behind the structure), \<open>StunAttributeWord\<close> the priority, lifetime, change request and
  fingerprint one, \<open>StunAttributeBytes4\<close> the requested transport and address family one. The
  64-bit field of \<open>StunAttributeIceControl\<close> is aligned, so 12 bytes follow its header.
\<close>

datatype attribute_struct =
    StunAttributeFlag
  | StunAttributeAddress KvsIpAddress
  | StunAttributePadded u16 bytes
  | StunAttributeWord u32
  | StunAttributeBytes4 bytes
  | StunAttributeErrorCode u16 u16 bytes
  | StunAttributeIceControl bytes
  | StunAttributeChannelNumber u16 u16
  | StunAttributeMessageIntegrity bytes

record StunAttribute =
  attr_type :: u16
  attr_length :: u16
  attr_struct :: attribute_struct

record StunPacket =
  stunHeader :: StunHeader
  attributesCount :: u32
  allocationSize :: u32
  attributeList :: "nat list"
  attrs :: "nat \<rightharpoonup> StunAttribute"

abbreviation (input) SIZEOF_StunPacket :: nat where "SIZEOF_StunPacket \<equiv> 40"

definition ROUND_UP :: "nat \<Rightarrow> nat \<Rightarrow> nat" where
  "ROUND_UP x a = (x + (a - 1)) div a * a"

definition padded_length :: "u16 \<Rightarrow> u16" where
  "padded_length len = word_of_nat (ROUND_UP (unat len) 4)"

definition is_address_type :: "u16 \<Rightarrow> bool" where
  "is_address_type ty = (ty = MAPPED_ADDRESS \<or> ty = XOR_MAPPED_ADDRESS \<or> ty = RESPONSE_ADDRESS \<or>
     ty = SOURCE_ADDRESS \<or> ty = REFLECTED_FROM \<or> ty = XOR_PEER_ADDRESS \<or> ty = CHANGED_ADDRESS)"

section \<open>Addresses\<close>

definition xor_transaction :: "bytes \<Rightarrow> bytes \<Rightarrow> bytes option" where
  "xor_transaction adr tid =
     do { d \<leftarrow> memread adr 4 12; t \<leftarrow> memread tid 0 12; memwrite adr 4 (map2 (XOR) d t) }"

definition xorIpAddress :: "bool \<Rightarrow> KvsIpAddress option \<Rightarrow> bytes option \<Rightarrow> (STATUS \<times> KvsIpAddress option) option" where
  "xorIpAddress isBig pAddress pTransactionId =
     (case pAddress of
        None \<Rightarrow> Some (STATUS_NULL_ARG, None)
      | Some a \<Rightarrow>
          if \<not> IS_IPV4_ADDR a \<and> pTransactionId = None then Some (STATUS_INVALID_ARG, Some a)
          else do {
            let p = getInt16 isBig (ucast (drop_bit 16 STUN_HEADER_MAGIC_COOKIE)) XOR ip_port a;
            w \<leftarrow> load32 isBig (ip_address a) 0;
            adr \<leftarrow> putInt32 isBig (ip_address a) 0 (w XOR STUN_HEADER_MAGIC_COOKIE);
            adr \<leftarrow> (if ip_family a = KVS_IP_FAMILY_TYPE_IPV6
                    then do { tid \<leftarrow> pTransactionId; xor_transaction adr tid } else Some adr);
            Some (STATUS_SUCCESS, Some (a\<lparr>ip_port := p, ip_address := adr\<rparr>)) })"

definition PACKAGE_STUN_ATTR_HEADER :: "bool \<Rightarrow> bytes \<Rightarrow> nat \<Rightarrow> u16 \<Rightarrow> u16 \<Rightarrow> bytes option" where
  "PACKAGE_STUN_ATTR_HEADER isBig b p ty len =
     do { b \<leftarrow> putInt16 isBig b p ty; putInt16 isBig b (p + 2) len }"

text \<open>The buffer and the position in it, where the code has a pointer into the buffer.\<close>

definition stunPackageIpAddr ::
  "bool \<Rightarrow> StunHeader option \<Rightarrow> u16 \<Rightarrow> KvsIpAddress option \<Rightarrow> bytes option \<Rightarrow> nat \<Rightarrow> u32 \<Rightarrow>
   (STATUS \<times> bytes option \<times> u32) option" where
  "stunPackageIpAddr isBig pStunHeader ty pAddress pBuffer pos dataLenIn =
     (case (pAddress, pStunHeader) of
        (Some a, Some h) \<Rightarrow>
          let n = (if IS_IPV4_ADDR a then 4 else 16);
              dataLen = 4 + 4 + word_of_nat n
          in (case pBuffer of
                None \<Rightarrow> Some (STATUS_SUCCESS, None, dataLen)
              | Some b \<Rightarrow>
                  if dataLenIn < dataLen then Some (STATUS_NOT_ENOUGH_MEMORY, Some b, dataLenIn)
                  else do {
                    (status, ind) \<leftarrow> (if ty = XOR_MAPPED_ADDRESS \<or> ty = XOR_PEER_ADDRESS
                                     then xorIpAddress isBig (Some a) (Some (transactionId h))
                                     else Some (STATUS_SUCCESS, Some a));
                    if status \<noteq> STATUS_SUCCESS then Some (status, Some b, dataLenIn)
                    else do {
                      a \<leftarrow> ind;
                      b \<leftarrow> PACKAGE_STUN_ATTR_HEADER isBig b pos ty (ucast (dataLen - 4));
                      b \<leftarrow> putInt16 isBig b (pos + 4) (ip_family a);
                      b \<leftarrow> memwrite b (pos + 6) (nativebytes16 isBig (ip_port a));
                      d \<leftarrow> memread (ip_address a) 0 (if IS_IPV4_ADDR a then 4 else 16);
                      b \<leftarrow> memwrite b (pos + 8) d;
                      Some (STATUS_SUCCESS, Some b, dataLen) } })
      | _ \<Rightarrow> Some (STATUS_NULL_ARG, pBuffer, dataLenIn))"

section \<open>Serialisation\<close>

record SerializeState =
  sz_buffer :: "bytes option"
  sz_pos :: nat
  sz_remaining :: u32
  sz_packetSize :: u32
  sz_fingerprintFound :: bool
  sz_integrityFound :: bool

text \<open>
  \<open>attribute_value\<close> gives, for the attributes that are written by value, the encoded length and the
  writes after the attribute header, each with its offset from the start of the attribute.
  For the error code the code adds the header length to a pointer to 16-bit integers.
\<close>

definition attribute_value :: "bool \<Rightarrow> StunAttribute \<Rightarrow> (u32 \<times> (nat \<times> bytes) list) option option" where
  "attribute_value isBig a =
     (let ty = attr_type a in
      if ty = USERNAME \<or> ty = REALM \<or> ty = NONCE \<or> ty = DATA then
        (case attr_struct a of
           StunAttributePadded pl c \<Rightarrow>
             do { d \<leftarrow> memread c 0 (unat pl); Some (Some (4 + ucast pl, [(4, d)])) }
         | _ \<Rightarrow> None)
      else if ty = PRIORITY \<or> ty = LIFETIME \<or> ty = CHANGE_REQUEST then
        (case attr_struct a of
           StunAttributeWord w \<Rightarrow> Some (Some (8, [(4, nativebytes32 isBig (getInt32 isBig w))]))
         | _ \<Rightarrow> None)
      else if ty = USE_CANDIDATE \<or> ty = DONT_FRAGMENT then Some (Some (4, []))
      else if ty = REQUESTED_TRANSPORT \<or> ty = REQUESTED_ADDRESS_FAMILY then
        (case attr_struct a of
           StunAttributeBytes4 c \<Rightarrow> do { d \<leftarrow> memread c 0 4; Some (Some (8, [(4, d)])) }
         | _ \<Rightarrow> None)
      else if ty = ERROR_CODE then
        (case attr_struct a of
           StunAttributeErrorCode code pl c \<Rightarrow>
             do { d \<leftarrow> memread c 0 (unat pl);
                  Some (Some (4 + ucast pl, [(2 * 4, nativebytes16 isBig (getInt16 isBig code)), (4 + 2, d)])) }
         | _ \<Rightarrow> None)
      else if ty = ICE_CONTROLLED \<or> ty = ICE_CONTROLLING then
        (case attr_struct a of
           StunAttributeIceControl c \<Rightarrow>
             do { x \<leftarrow> native64 isBig c 0;
                  Some (Some (12, [(4, nativebytes64 isBig (getInt64 isBig x))])) }
         | _ \<Rightarrow> None)
      else if ty = CHANNEL_NUMBER then
        (case attr_struct a of
           StunAttributeChannelNumber num res \<Rightarrow>
             Some (Some (8, [(4, nativebytes16 isBig (getInt16 isBig num)), (4 + 2, nativebytes16 isBig (getInt16 isBig res))]))
         | _ \<Rightarrow> None)
      else Some None)"

fun put_values :: "bytes \<Rightarrow> nat \<Rightarrow> (nat \<times> bytes) list \<Rightarrow> bytes option" where
  "put_values b pos [] = Some b"
| "put_values b pos ((off, d) # ws) = do { b \<leftarrow> memwrite b (pos + off) d; put_values b pos ws }"

definition serialize_attribute ::
  "bool \<Rightarrow> StunPacket \<Rightarrow> nat \<Rightarrow> StunAttribute \<Rightarrow> SerializeState \<Rightarrow> (STATUS \<times> u32 \<times> SerializeState) option" where
  "serialize_attribute isBig p i a st =
     (let late = sz_fingerprintFound st \<or> sz_integrityFound st; count = attributesCount p in
      if is_address_type (attr_type a) then
        if late then Some (STATUS_STUN_ATTRIBUTES_AFTER_FINGERPRINT_MESSAGE_INTEGRITY, sz_remaining st, st)
        else (case attr_struct a of
                StunAttributeAddress ip \<Rightarrow>
                  do { (status, buf, len) \<leftarrow> stunPackageIpAddr isBig (Some (stunHeader p)) (attr_type a) (Some ip)
                         (sz_buffer st) (sz_pos st) (sz_remaining st);
                       Some (status, len, st\<lparr>sz_buffer := buf\<rparr>) }
              | _ \<Rightarrow> None)
      else if attr_type a = MESSAGE_INTEGRITY then
        if word_of_nat i \<noteq> count - 1 \<and> word_of_nat i \<noteq> count - 2 then Some (STATUS_STUN_MESSAGE_INTEGRITY_NOT_LAST, 0, st)
        else if sz_integrityFound st then Some (STATUS_STUN_MULTIPLE_MESSAGE_INTEGRITY_ATTRIBUTES, 0, st)
        else if sz_fingerprintFound st then Some (STATUS_STUN_MESSAGE_INTEGRITY_AFTER_FINGERPRINT, 0, st)
        else Some (STATUS_SUCCESS, 0, st\<lparr>sz_integrityFound := True\<rparr>)
      else if attr_type a = FINGERPRINT then
        if word_of_nat i \<noteq> count - 1 then Some (STATUS_STUN_FINGERPRINT_NOT_LAST, 0, st)
        else if sz_fingerprintFound st then Some (STATUS_STUN_MULTIPLE_FINGERPRINT_ATTRIBUTES, 0, st)
        else Some (STATUS_SUCCESS, 0, st\<lparr>sz_fingerprintFound := True\<rparr>)
      else do {
        v \<leftarrow> attribute_value isBig a;
        case v of
          None \<Rightarrow> Some (STATUS_SUCCESS, 0, st)
        | Some (encodedLen, ws) \<Rightarrow>
            if late then Some (STATUS_STUN_ATTRIBUTES_AFTER_FINGERPRINT_MESSAGE_INTEGRITY, encodedLen, st)
            else (case sz_buffer st of
                    None \<Rightarrow> Some (STATUS_SUCCESS, encodedLen, st)
                  | Some b \<Rightarrow>
                      if sz_remaining st < encodedLen then Some (STATUS_NOT_ENOUGH_MEMORY, encodedLen, st)
                      else do {
                        b \<leftarrow> PACKAGE_STUN_ATTR_HEADER isBig b (sz_pos st) (attr_type a) (attr_length a);
                        b \<leftarrow> put_values b (sz_pos st) ws;
                        Some (STATUS_SUCCESS, encodedLen, st\<lparr>sz_buffer := Some b\<rparr>) }) })"

definition advance_position :: "u32 \<Rightarrow> SerializeState \<Rightarrow> SerializeState" where
  "advance_position encodedLen st =
     (case sz_buffer st of
        Some b \<Rightarrow> st\<lparr>sz_pos := sz_pos st + unat encodedLen, sz_remaining := sz_remaining st - encodedLen\<rparr>
      | None \<Rightarrow> st\<lparr>sz_packetSize := sz_packetSize st + encodedLen\<rparr>)"

fun serialize_attributes ::
  "bool \<Rightarrow> StunPacket \<Rightarrow> nat \<Rightarrow> nat list \<Rightarrow> SerializeState \<Rightarrow> (STATUS \<times> SerializeState) option" where
  "serialize_attributes isBig p i [] st = Some (STATUS_SUCCESS, st)"
| "serialize_attributes isBig p i (off # offs) st =
     do { a \<leftarrow> attrs p off;
          (status, encodedLen, st) \<leftarrow> serialize_attribute isBig p i a st;
          if status \<noteq> STATUS_SUCCESS then Some (status, st)
          else serialize_attributes isBig p (i + 1) offs (advance_position encodedLen st) }"

definition generate_integrity ::
  "bool \<Rightarrow> (bytes \<Rightarrow> bytes \<Rightarrow> bytes option) \<Rightarrow> bytes option \<Rightarrow> SerializeState \<Rightarrow> (STATUS \<times> SerializeState) option" where
  "generate_integrity isBig hmac password st =
     (case sz_buffer st of
        None \<Rightarrow> Some (STATUS_SUCCESS, advance_position 24 st)
      | Some b \<Rightarrow>
          if sz_remaining st < 24 then Some (STATUS_NOT_ENOUGH_MEMORY, st)
          else do {
            b \<leftarrow> PACKAGE_STUN_ATTR_HEADER isBig b (sz_pos st) MESSAGE_INTEGRITY 20;
            b \<leftarrow> putInt16 isBig b 2 (word_of_nat (sz_pos st + 24 - STUN_HEADER_LEN));
            m \<leftarrow> memread b 0 (unat (word_of_nat (sz_pos st) :: u16));
            key \<leftarrow> password;
            case hmac key m of
              None \<Rightarrow> Some (STATUS_HMAC_GENERATION_ERROR, st\<lparr>sz_buffer := Some b\<rparr>)
            | Some d \<Rightarrow> do { b \<leftarrow> memwrite b (sz_pos st + 4) d;
                             Some (STATUS_SUCCESS, advance_position 24 (st\<lparr>sz_buffer := Some b\<rparr>)) } })"

definition generate_fingerprint :: "bool \<Rightarrow> SerializeState \<Rightarrow> (STATUS \<times> SerializeState) option" where
  "generate_fingerprint isBig st =
     (case sz_buffer st of
        None \<Rightarrow> Some (STATUS_SUCCESS, advance_position 8 st)
      | Some b \<Rightarrow>
          if sz_remaining st < 8 then Some (STATUS_NOT_ENOUGH_MEMORY, st)
          else do {
            b \<leftarrow> PACKAGE_STUN_ATTR_HEADER isBig b (sz_pos st) FINGERPRINT 4;
            b \<leftarrow> putInt16 isBig b 2 (word_of_nat (sz_pos st + 8 - STUN_HEADER_LEN));
            m \<leftarrow> memread b 0 (unat (word_of_nat (sz_pos st) :: u16));
            b \<leftarrow> putInt32 isBig b (sz_pos st + 4) (COMPUTE_CRC32 m XOR STUN_FINGERPRINT_XOR_VALUE);
            Some (STATUS_SUCCESS, advance_position 8 (st\<lparr>sz_buffer := Some b\<rparr>)) })"

definition package_header :: "bool \<Rightarrow> StunHeader \<Rightarrow> bytes \<Rightarrow> bytes option" where
  "package_header isBig h b =
     do { b \<leftarrow> putInt16 isBig b 0 (stunMessageType h);
          b \<leftarrow> putInt32 isBig b 4 STUN_HEADER_MAGIC_COOKIE;
          t \<leftarrow> memread (transactionId h) 0 12;
          memwrite b 8 t }"

text \<open>The end of the function: the length field, the check of the size, and the result.\<close>

definition finish_packet :: "bool \<Rightarrow> u32 \<Rightarrow> SerializeState \<Rightarrow> (STATUS \<times> bytes option \<times> u32) option" where
  "finish_packet isBig pSize st =
     (case sz_buffer st of
        None \<Rightarrow> Some (STATUS_SUCCESS, None, sz_packetSize st)
      | Some b \<Rightarrow>
          do { b \<leftarrow> putInt16 isBig b 2 (ucast (sz_packetSize st - 20));
               if sz_packetSize st = word_of_nat (sz_pos st) then Some (STATUS_SUCCESS, Some b, sz_packetSize st)
               else Some (STATUS_INTERNAL_ERROR, Some b, pSize) })"

definition serializeStunPacket ::
  "bool \<Rightarrow> (bytes \<Rightarrow> bytes \<Rightarrow> bytes option) \<Rightarrow> StunPacket option \<Rightarrow> bytes option \<Rightarrow> bool \<Rightarrow> bool \<Rightarrow>
   bytes option \<Rightarrow> u32 \<Rightarrow> (STATUS \<times> bytes option \<times> u32) option" where
  "serializeStunPacket isBig hmac pStunPacket password generateMessageIntegrity generateFingerprint pBuffer pSize =
     (case pStunPacket of
        None \<Rightarrow> Some (STATUS_NULL_ARG, pBuffer, pSize)
      | Some p \<Rightarrow>
          if generateMessageIntegrity \<and> password = None then Some (STATUS_NULL_ARG, pBuffer, pSize)
          else if password = Some [] then Some (STATUS_INVALID_ARG, pBuffer, pSize)
          else if magicCookie (stunHeader p) \<noteq> STUN_HEADER_MAGIC_COOKIE
               then Some (STATUS_STUN_MAGIC_COOKIE_MISMATCH, pBuffer, pSize)
          else if pBuffer \<noteq> None \<and> pSize < 20 then Some (STATUS_NOT_ENOUGH_MEMORY, pBuffer, pSize)
          else do {
            buf \<leftarrow> (case pBuffer of None \<Rightarrow> Some None
                    | Some b \<Rightarrow> map_option Some (package_header isBig (stunHeader p) b));
            let st = \<lparr>sz_buffer = buf, sz_pos = STUN_HEADER_LEN,
                      sz_remaining = (if pBuffer = None then 0 else pSize - 20),
                      sz_packetSize = (if pBuffer = None then 20 else pSize),
                      sz_fingerprintFound = False, sz_integrityFound = False\<rparr>;
            offs \<leftarrow> memread (attributeList p) 0 (unat (attributesCount p));
            (status, st) \<leftarrow> serialize_attributes isBig p 0 offs st;
            if status \<noteq> STATUS_SUCCESS then Some (status, sz_buffer st, pSize)
            else do {
              (status, st) \<leftarrow> (if generateMessageIntegrity then generate_integrity isBig hmac password st
                              else Some (STATUS_SUCCESS, st));
              if status \<noteq> STATUS_SUCCESS then Some (status, sz_buffer st, pSize)
              else do {
                (status, st) \<leftarrow> (if generateFingerprint then generate_fingerprint isBig st else Some (STATUS_SUCCESS, st));
                if status \<noteq> STATUS_SUCCESS then Some (status, sz_buffer st, pSize)
                else finish_packet isBig pSize st } } })"

section \<open>Deserialisation\<close>

text \<open>The size of the structure for an attribute, with the bytes behind it; 0 for the types the parser does not know.\<close>

definition attribute_size :: "u16 \<Rightarrow> u16 \<Rightarrow> u32" where
  "attribute_size ty len =
     (if is_address_type ty \<or> ty = XOR_RELAYED_ADDRESS then 28
      else if ty = USERNAME \<or> ty = REALM \<or> ty = NONCE \<or> ty = ERROR_CODE \<or> ty = DATA then 16 + ucast (padded_length len)
      else if ty = PRIORITY \<or> ty = LIFETIME \<or> ty = CHANGE_REQUEST \<or> ty = REQUESTED_TRANSPORT \<or>
              ty = CHANNEL_NUMBER \<or> ty = FINGERPRINT then 8
      else if ty = USE_CANDIDATE \<or> ty = DONT_FRAGMENT then 4
      else if ty = ICE_CONTROLLED \<or> ty = ICE_CONTROLLING then 16
      else if ty = MESSAGE_INTEGRITY then 24
      else 0)"

definition is_known_type :: "u16 \<Rightarrow> bool" where
  "is_known_type ty = (is_address_type ty \<or> ty \<in> {XOR_RELAYED_ADDRESS, USERNAME, PRIORITY, USE_CANDIDATE, DONT_FRAGMENT,
     LIFETIME, CHANGE_REQUEST, REQUESTED_TRANSPORT, REALM, NONCE, ERROR_CODE, ICE_CONTROLLED, ICE_CONTROLLING, DATA,
     CHANNEL_NUMBER, MESSAGE_INTEGRITY, FINGERPRINT})"

text \<open>The length a type prescribes and the status when the length of the attribute does not fit.\<close>

definition check_length :: "bool \<Rightarrow> bytes \<Rightarrow> nat \<Rightarrow> u16 \<Rightarrow> u16 \<Rightarrow> STATUS option" where
  "check_length isBig b pos ty len =
     (if is_address_type ty \<or> ty = XOR_RELAYED_ADDRESS then
        do { fam \<leftarrow> load16 isBig b (pos + 4);
             Some (if len = 4 + (if fam AND 0xff = KVS_IP_FAMILY_TYPE_IPV4 then 4 else 16) then STATUS_SUCCESS
                   else STATUS_STUN_INVALID_ADDRESS_ATTRIBUTE_LENGTH) }
      else Some
       (if ty = USERNAME then if len \<le> 512 then STATUS_SUCCESS else STATUS_STUN_INVALID_USERNAME_ATTRIBUTE_LENGTH
        else if ty = PRIORITY then if len = 4 then STATUS_SUCCESS else STATUS_STUN_INVALID_PRIORITY_ATTRIBUTE_LENGTH
        else if ty = USE_CANDIDATE \<or> ty = DONT_FRAGMENT
             then if len = 0 then STATUS_SUCCESS else STATUS_STUN_INVALID_USE_CANDIDATE_ATTRIBUTE_LENGTH
        else if ty = LIFETIME then if len = 4 then STATUS_SUCCESS else STATUS_STUN_INVALID_LIFETIME_ATTRIBUTE_LENGTH
        else if ty = CHANGE_REQUEST
             then if len = 4 then STATUS_SUCCESS else STATUS_STUN_INVALID_CHANGE_REQUEST_ATTRIBUTE_LENGTH
        else if ty = REQUESTED_TRANSPORT
             then if len = 4 then STATUS_SUCCESS else STATUS_STUN_INVALID_REQUESTED_TRANSPORT_ATTRIBUTE_LENGTH
        else if ty = REALM then if len \<le> 128 then STATUS_SUCCESS else STATUS_STUN_INVALID_REALM_ATTRIBUTE_LENGTH
        else if ty = NONCE then if len \<le> 128 then STATUS_SUCCESS else STATUS_STUN_INVALID_NONCE_ATTRIBUTE_LENGTH
        else if ty = ERROR_CODE then if len \<le> 128 then STATUS_SUCCESS else STATUS_STUN_INVALID_ERROR_CODE_ATTRIBUTE_LENGTH
        else if ty = ICE_CONTROLLED \<or> ty = ICE_CONTROLLING
             then if len = 8 then STATUS_SUCCESS else STATUS_STUN_INVALID_ICE_CONTROL_ATTRIBUTE_LENGTH
        else if ty = CHANNEL_NUMBER
             then if len = 4 then STATUS_SUCCESS else STATUS_STUN_INVALID_CHANNEL_NUMBER_ATTRIBUTE_LENGTH
        else if ty = MESSAGE_INTEGRITY
             then if len = 20 then STATUS_SUCCESS else STATUS_STUN_INVALID_MESSAGE_INTEGRITY_ATTRIBUTE_LENGTH
        else if ty = FINGERPRINT
             then if len = 4 then STATUS_SUCCESS else STATUS_STUN_INVALID_FINGERPRINT_ATTRIBUTE_LENGTH
        else STATUS_SUCCESS))"

text \<open>The checks of the order of the attributes, with the two flags before and after.\<close>

definition check_order :: "u16 \<Rightarrow> bool \<Rightarrow> bool \<Rightarrow> STATUS \<times> bool \<times> bool" where
  "check_order ty fpFound miFound =
     (if ty = MESSAGE_INTEGRITY then
        if miFound then (STATUS_STUN_MULTIPLE_MESSAGE_INTEGRITY_ATTRIBUTES, fpFound, miFound)
        else if fpFound then (STATUS_STUN_MESSAGE_INTEGRITY_AFTER_FINGERPRINT, fpFound, miFound)
        else (STATUS_SUCCESS, fpFound, True)
      else if ty = FINGERPRINT then
        if fpFound then (STATUS_STUN_MULTIPLE_FINGERPRINT_ATTRIBUTES, fpFound, miFound)
        else (STATUS_SUCCESS, True, miFound)
      else if is_known_type ty \<and> (fpFound \<or> miFound)
        then (STATUS_STUN_ATTRIBUTES_AFTER_FINGERPRINT_MESSAGE_INTEGRITY, fpFound, miFound)
      else (STATUS_SUCCESS, fpFound, miFound))"

text \<open>The first loop: it checks the attributes, counts them and sums up the sizes of their structures.\<close>

function count_attributes ::
  "bool \<Rightarrow> bytes \<Rightarrow> nat \<Rightarrow> nat \<Rightarrow> u32 \<Rightarrow> u32 \<Rightarrow> bool \<Rightarrow> bool \<Rightarrow> (STATUS \<times> u32 \<times> u32) option" where
  "count_attributes isBig b pos end_pos count allocation fpFound miFound =
     (if end_pos \<le> pos then Some (STATUS_SUCCESS, count, allocation)
      else do {
        ty \<leftarrow> load16 isBig b pos;
        len \<leftarrow> load16 isBig b (pos + 2);
        status \<leftarrow> check_length isBig b pos ty len;
        if status \<noteq> STATUS_SUCCESS then Some (status, count, allocation)
        else case check_order ty fpFound miFound of (status, fpFound, miFound) \<Rightarrow>
          if status \<noteq> STATUS_SUCCESS then Some (status, count, allocation)
          else let count = (if is_known_type ty then count else count - 1) + 1;
                   allocation = allocation + attribute_size ty len
               in if 20 < count then Some (STATUS_STUN_MAX_ATTRIBUTE_COUNT, count, allocation)
                  else count_attributes isBig b (pos + 4 + unat (padded_length len)) end_pos count allocation fpFound miFound })"
  by pat_completeness auto
termination by (relation "measure (\<lambda>(_, _, pos, end_pos, _). end_pos - pos)") auto

declare count_attributes.simps [simp del]

definition stunMagicCookie :: "bool \<Rightarrow> u32" where
  "stunMagicCookie isBig = (if isBig then STUN_HEADER_MAGIC_COOKIE else STUN_HEADER_MAGIC_COOKIE_LE)"

text \<open>An address attribute: the bytes of the message are copied over the zeroed structure.\<close>

definition convert_address :: "bool \<Rightarrow> bytes \<Rightarrow> bytes \<Rightarrow> nat \<Rightarrow> u16 \<Rightarrow> u16 \<Rightarrow> KvsIpAddress option" where
  "convert_address isBig tid b pos ty len =
     (if 20 < unat len then None
      else do {
        d \<leftarrow> memread b (pos + 4) (unat len);
        m \<leftarrow> memwrite (replicate 20 0) 0 d;
        fam \<leftarrow> load16 isBig m 0;
        p \<leftarrow> native16 isBig m 2;
        let fam = fam AND 0xff;
        let adr = drop 4 m;
        if ty = XOR_MAPPED_ADDRESS \<or> ty = XOR_RELAYED_ADDRESS then do {
          let p = p XOR ucast (stunMagicCookie isBig);
          w \<leftarrow> native32 isBig adr 0;
          adr \<leftarrow> memwrite adr 0 (nativebytes32 isBig (w XOR stunMagicCookie isBig));
          adr \<leftarrow> (if fam = KVS_IP_FAMILY_TYPE_IPV6 then xor_transaction adr tid else Some adr);
          Some \<lparr>ip_family = fam, ip_port = p, ip_address = adr, isPointToPoint = False\<rparr> }
        else Some \<lparr>ip_family = fam, ip_port = p, ip_address = adr, isPointToPoint = False\<rparr> })"

text \<open>The two checks write another length into the header of the message and then restore it.\<close>

definition verify_integrity ::
  "bool \<Rightarrow> (bytes \<Rightarrow> bytes \<Rightarrow> bytes option) \<Rightarrow> bytes option \<Rightarrow> u16 \<Rightarrow> bytes \<Rightarrow> nat \<Rightarrow>
   (STATUS \<times> attribute_struct \<times> bytes) option" where
  "verify_integrity isBig hmac password msgLen b pos =
     (case password of
        None \<Rightarrow> Some (STATUS_NULL_ARG, StunAttributeFlag, b)
      | Some key \<Rightarrow>
          if key = [] then Some (STATUS_INVALID_ARG, StunAttributeFlag, b)
          else do {
            b \<leftarrow> putInt16 isBig b 2 (word_of_nat (pos + 4 + 20 - STUN_HEADER_LEN));
            m \<leftarrow> memread b 0 (unat (word_of_nat pos :: u16));
            case hmac key m of
              None \<Rightarrow> Some (STATUS_HMAC_GENERATION_ERROR, StunAttributeFlag, b)
            | Some d \<Rightarrow> do {
                b \<leftarrow> putInt16 isBig b 2 msgLen;
                v \<leftarrow> memread b (pos + 4) 20;
                Some (if take 20 d = v then STATUS_SUCCESS else STATUS_STUN_MESSAGE_INTEGRITY_MISMATCH,
                      StunAttributeMessageIntegrity d, b) } })"

definition verify_fingerprint ::
  "bool \<Rightarrow> u16 \<Rightarrow> bytes \<Rightarrow> nat \<Rightarrow> (STATUS \<times> attribute_struct \<times> bytes) option" where
  "verify_fingerprint isBig msgLen b pos =
     do { v \<leftarrow> load32 isBig b (pos + 4);
          b \<leftarrow> putInt16 isBig b 2 (word_of_nat (pos + 4 + 4 - STUN_HEADER_LEN));
          m \<leftarrow> memread b 0 (unat (word_of_nat pos :: u16));
          b \<leftarrow> putInt16 isBig b 2 msgLen;
          Some (if COMPUTE_CRC32 m XOR STUN_FINGERPRINT_XOR_VALUE = v then STATUS_SUCCESS
                else STATUS_STUN_FINGERPRINT_MISMATCH, StunAttributeWord v, b) }"

text \<open>
  The body of the second loop for one attribute. The size of the copy of an error phrase is
  the padded length less 4, as an unsigned integer.
\<close>

definition convert_attribute ::
  "bool \<Rightarrow> (bytes \<Rightarrow> bytes \<Rightarrow> bytes option) \<Rightarrow> bytes option \<Rightarrow> StunHeader \<Rightarrow> bytes \<Rightarrow> nat \<Rightarrow> u16 \<Rightarrow> u16 \<Rightarrow>
   (STATUS \<times> attribute_struct \<times> bytes) option" where
  "convert_attribute isBig hmac password h b pos ty len =
     (let pl = unat (padded_length len) in
      if is_address_type ty \<or> ty = XOR_RELAYED_ADDRESS then
        do { a \<leftarrow> convert_address isBig (transactionId h) b pos ty len; Some (STATUS_SUCCESS, StunAttributeAddress a, b) }
      else if ty = USERNAME \<or> ty = REALM \<or> ty = NONCE \<or> ty = DATA then
        do { d \<leftarrow> memread b (pos + 4) pl; Some (STATUS_SUCCESS, StunAttributePadded (padded_length len) d, b) }
      else if ty = PRIORITY \<or> ty = LIFETIME \<or> ty = CHANGE_REQUEST then
        do { w \<leftarrow> load32 isBig b (pos + 4); Some (STATUS_SUCCESS, StunAttributeWord w, b) }
      else if ty = REQUESTED_TRANSPORT then
        do { d \<leftarrow> memread b (pos + 4) 4; Some (STATUS_SUCCESS, StunAttributeBytes4 d, b) }
      else if ty = ERROR_CODE then
        do { c \<leftarrow> memget b (pos + 4 + 2);
             n \<leftarrow> memget b (pos + 4 + 3);
             if pl < 4 then None
             else do {
               d \<leftarrow> memread b (pos + 4 + 4) (pl - 4);
               Some (STATUS_SUCCESS, StunAttributeErrorCode (word_of_nat (unat c * 100 + unat n)) (padded_length len)
                       (d @ replicate 4 0), b) } }
      else if ty = ICE_CONTROLLED \<or> ty = ICE_CONTROLLING then
        do { x \<leftarrow> load64 isBig b (pos + 4);
             Some (STATUS_SUCCESS, StunAttributeIceControl (replicate 4 0 @ nativebytes64 isBig x), b) }
      else if ty = CHANNEL_NUMBER then
        do { n \<leftarrow> load16 isBig b (pos + 4); Some (STATUS_SUCCESS, StunAttributeChannelNumber n 0, b) }
      else if ty = MESSAGE_INTEGRITY then verify_integrity isBig hmac password (messageLength h) b pos
      else if ty = FINGERPRINT then verify_fingerprint isBig (messageLength h) b pos
      else Some (STATUS_SUCCESS, StunAttributeFlag, b))"

text \<open>
  The second loop. Its writes stay inside the allocation when the header and the structure of
  the attribute end before \<open>allocation\<close>.
\<close>

function convert_attributes ::
  "bool \<Rightarrow> (bytes \<Rightarrow> bytes \<Rightarrow> bytes option) \<Rightarrow> bytes option \<Rightarrow> StunHeader \<Rightarrow> nat \<Rightarrow> nat \<Rightarrow> bytes \<Rightarrow> nat \<Rightarrow> nat \<Rightarrow> nat \<Rightarrow>
   nat list \<Rightarrow> (nat \<rightharpoonup> StunAttribute) \<Rightarrow> (STATUS \<times> nat list \<times> (nat \<rightharpoonup> StunAttribute) \<times> bytes) option" where
  "convert_attributes isBig hmac password h count allocation b pos end_pos dest offs m =
     (if end_pos \<le> pos \<or> count \<le> length offs then Some (STATUS_SUCCESS, offs, m, b)
      else do {
        ty \<leftarrow> load16 isBig b pos;
        len \<leftarrow> load16 isBig b (pos + 2);
        if allocation < dest + 4 \<or> allocation < dest + unat (attribute_size ty len) then None
        else do {
          (status, c, b) \<leftarrow> convert_attribute isBig hmac password h b pos ty len;
          if status \<noteq> STATUS_SUCCESS then Some (status, offs @ [dest], m, b)
          else convert_attributes isBig hmac password h count allocation b (pos + 4 + unat (padded_length len)) end_pos
                 (dest + unat (attribute_size ty len)) (offs @ [dest])
                 (m(dest \<mapsto> \<lparr>attr_type = ty, attr_length = len, attr_struct = c\<rparr>)) } })"
  by pat_completeness auto
termination by (relation "measure (\<lambda>(_, _, _, _, _, _, _, pos, end_pos, _). end_pos - pos)") auto

declare convert_attributes.simps [simp del]

text \<open>\<open>mem\<close> tells whether the allocation succeeds. The message is part of the result since the parser writes to it.\<close>

definition deserializeStunPacket ::
  "bool \<Rightarrow> (bytes \<Rightarrow> bytes \<Rightarrow> bytes option) \<Rightarrow> bool \<Rightarrow> bytes option \<Rightarrow> u32 \<Rightarrow> bytes option \<Rightarrow>
   (STATUS \<times> StunPacket option \<times> bytes option) option" where
  "deserializeStunPacket isBig hmac mem pStunBuffer bufferSize password =
     (case pStunBuffer of
        None \<Rightarrow> Some (STATUS_NULL_ARG, None, None)
      | Some b \<Rightarrow>
          if bufferSize < 20 then Some (STATUS_INVALID_ARG, None, Some b)
          else do {
            len \<leftarrow> load16 isBig b 2;
            cookie \<leftarrow> load32 isBig b 4;
            if bufferSize < ucast len + 20 then Some (STATUS_INVALID_ARG, None, Some b)
            else if cookie \<noteq> STUN_HEADER_MAGIC_COOKIE then Some (STATUS_STUN_MAGIC_COOKIE_MISMATCH, None, Some b)
            else do {
              let end_pos = STUN_HEADER_LEN + unat len;
              (status, count, allocation) \<leftarrow>
                count_attributes isBig b STUN_HEADER_LEN end_pos 0 (word_of_nat SIZEOF_StunPacket) False False;
              if status \<noteq> STATUS_SUCCESS then Some (status, None, Some b)
              else let allocation = allocation + count * 8 in
              if \<not> mem then Some (STATUS_NOT_ENOUGH_MEMORY, None, Some b)
              else do {
                ty \<leftarrow> load16 isBig b 0;
                tid \<leftarrow> memread b 8 12;
                let h = \<lparr>stunMessageType = ty, messageLength = len, magicCookie = cookie, transactionId = tid\<rparr>;
                (status, offs, m, b) \<leftarrow>
                  convert_attributes isBig hmac password h (unat count) (unat allocation) b STUN_HEADER_LEN end_pos
                    (SIZEOF_StunPacket + 8 * unat count) [] Map.empty;
                Some (status,
                      if status \<noteq> STATUS_SUCCESS then None
                      else Some \<lparr>stunHeader = h, attributesCount = count, allocationSize = allocation,
                                 attributeList = offs, attrs = m\<rparr>,
                      Some b) } } })"

section \<open>Building a message\<close>

text \<open>\<open>rnd\<close> is the sequence of the values of \<^verbatim>\<open>RAND()\<close>.\<close>

definition createStunPacket :: "bool \<Rightarrow> (nat \<Rightarrow> nat) \<Rightarrow> u16 \<Rightarrow> bytes option \<Rightarrow> (STATUS \<times> StunPacket option) option" where
  "createStunPacket mem rnd stunPacketType tid =
     (if \<not> mem then Some (STATUS_NOT_ENOUGH_MEMORY, None)
      else do {
        t \<leftarrow> (case tid of None \<Rightarrow> Some (map (\<lambda>i. word_of_nat (rnd i mod 0xFF)) [0..<12]) | Some t \<Rightarrow> memread t 0 12);
        Some (STATUS_SUCCESS,
          Some \<lparr>stunHeader = \<lparr>stunMessageType = stunPacketType, messageLength = 0,
                              magicCookie = STUN_HEADER_MAGIC_COOKIE, transactionId = t\<rparr>,
                attributesCount = 0, allocationSize = STUN_PACKET_ALLOCATION_SIZE, attributeList = [], attrs = Map.empty\<rparr>) })"

definition struct_padded :: "attribute_struct \<Rightarrow> u16 option" where
  "struct_padded c = (case c of StunAttributePadded pl d \<Rightarrow> Some pl | StunAttributeErrorCode e pl d \<Rightarrow> Some pl | _ \<Rightarrow> None)"

definition getPackagedStunAttributeSize :: "StunAttribute \<Rightarrow> u16 option" where
  "getPackagedStunAttributeSize a =
     (let ty = attr_type a in
      do { len \<leftarrow>
             (if is_address_type ty then Some 28
              else if ty = USE_CANDIDATE \<or> ty = DONT_FRAGMENT then Some 4
              else if ty = PRIORITY \<or> ty = LIFETIME \<or> ty = CHANGE_REQUEST \<or> ty = REQUESTED_TRANSPORT \<or> ty = CHANNEL_NUMBER
                   then Some 8
              else if ty = ICE_CONTROLLED \<or> ty = ICE_CONTROLLING then Some 16
              else if ty = REALM \<or> ty = NONCE \<or> ty = DATA \<or> ty = USERNAME \<or> ty = ERROR_CODE
                   then map_option (\<lambda>pl. 16 + pl) (struct_padded (attr_struct a))
              else Some (4 + attr_length a));
           Some (word_of_nat (ROUND_UP (unat len) 8)) })"

definition getFirstAvailableStunAttribute :: "StunPacket option \<Rightarrow> (STATUS \<times> nat) option" where
  "getFirstAvailableStunAttribute pStunPacket =
     (case pStunPacket of
        None \<Rightarrow> Some (STATUS_NULL_ARG, 0)
      | Some p \<Rightarrow>
          if 20 < attributesCount p then Some (STATUS_STUN_MAX_ATTRIBUTE_COUNT, 0)
          else if attributesCount p \<noteq> 0 then do {
            off \<leftarrow> memget (attributeList p) (unat (attributesCount p) - 1);
            a \<leftarrow> attrs p off;
            if attr_type a = MESSAGE_INTEGRITY \<or> attr_type a = FINGERPRINT
            then Some (STATUS_STUN_ATTRIBUTES_AFTER_FINGERPRINT_MESSAGE_INTEGRITY, 0)
            else do {
              n \<leftarrow> getPackagedStunAttributeSize a;
              if off + unat n < unat (allocationSize p) then Some (STATUS_SUCCESS, off + unat n)
              else Some (STATUS_NOT_ENOUGH_MEMORY, 0) } }
          else Some (STATUS_SUCCESS, SIZEOF_StunPacket + 8 * STUN_ATTRIBUTE_MAX_COUNT))"

definition with_first_available ::
  "StunPacket option \<Rightarrow> (StunPacket \<Rightarrow> nat \<Rightarrow> (STATUS \<times> StunPacket option) option) \<Rightarrow> (STATUS \<times> StunPacket option) option" where
  "with_first_available pStunPacket f =
     do { (status, off) \<leftarrow> getFirstAvailableStunAttribute pStunPacket;
          if status \<noteq> STATUS_SUCCESS then Some (status, pStunPacket)
          else do { p \<leftarrow> pStunPacket; f p off } }"

text \<open>
  What every function does with the address of the new attribute: it checks that \<open>room\<close> bytes are
  left, stores the address in the next entry of the pointer array, and fills the structure,
  \<open>extent\<close> bytes of it. The new entry overwrites what lies at its own 8 bytes.
\<close>

definition append_attribute ::
  "StunPacket \<Rightarrow> nat \<Rightarrow> nat \<Rightarrow> nat \<Rightarrow> StunAttribute \<Rightarrow> u16 \<Rightarrow> (STATUS \<times> StunPacket option) option" where
  "append_attribute p off room extent a added =
     (if unat (allocationSize p) < off + room then Some (STATUS_NOT_ENOUGH_MEMORY, Some p)
      else if unat (allocationSize p) < off + extent then None
      else let n = unat (attributesCount p); slot = SIZEOF_StunPacket + 8 * n in
        if n \<noteq> length (attributeList p) then None
        else Some (STATUS_SUCCESS, Some (p\<lparr>
          stunHeader := (stunHeader p)\<lparr>messageLength := messageLength (stunHeader p) + added\<rparr>,
          attributesCount := attributesCount p + 1,
          attributeList := attributeList p @ [off],
          attrs := (\<lambda>o'. if slot \<le> o' \<and> o' < slot + 8 then None else ((attrs p)(off \<mapsto> a)) o')\<rparr>)))"

definition appendStunAddressAttribute ::
  "StunPacket option \<Rightarrow> u16 \<Rightarrow> KvsIpAddress option \<Rightarrow> (STATUS \<times> StunPacket option) option" where
  "appendStunAddressAttribute pStunPacket ty pAddress =
     (case pAddress of
        None \<Rightarrow> Some (STATUS_NULL_ARG, pStunPacket)
      | Some ip \<Rightarrow> with_first_available pStunPacket (\<lambda>p off.
          let len = 4 + (if IS_IPV4_ADDR ip then 4 else 16) in
          append_attribute p off (ROUND_UP 28 8) 28
            \<lparr>attr_type = ty, attr_length = len, attr_struct = StunAttributeAddress ip\<rparr> (len + 4)))"

text \<open>The attributes with the bytes behind the structure; the rest of the padding is zero since the allocation was zeroed.\<close>

definition append_padded :: "StunPacket \<Rightarrow> nat \<Rightarrow> u16 \<Rightarrow> bytes \<Rightarrow> u16 \<Rightarrow> (STATUS \<times> StunPacket option) option" where
  "append_padded p off ty data len =
     (let pl = padded_length len in
      if unat (allocationSize p) < off + ROUND_UP (unat pl + 16) 8 then Some (STATUS_NOT_ENOUGH_MEMORY, Some p)
      else do {
        d \<leftarrow> memread data 0 (unat len);
        append_attribute p off (ROUND_UP (unat pl + 16) 8) (16 + unat len)
          \<lparr>attr_type = ty, attr_length = len,
           attr_struct = StunAttributePadded pl (d @ replicate (unat pl - unat len) 0)\<rparr> (pl + 4) })"

definition STRNLEN :: "bytes \<Rightarrow> nat \<Rightarrow> nat option" where
  "STRNLEN s n =
     (let k = first_index (\<lambda>c. c = 0) s in
      if n \<le> k then Some n else if k < length s then Some k else None)"

definition appendStunUsernameAttribute :: "StunPacket option \<Rightarrow> bytes option \<Rightarrow> (STATUS \<times> StunPacket option) option" where
  "appendStunUsernameAttribute pStunPacket userName =
     (case userName of
        None \<Rightarrow> Some (STATUS_NULL_ARG, pStunPacket)
      | Some s \<Rightarrow> with_first_available pStunPacket (\<lambda>p off.
          do { n \<leftarrow> STRNLEN s 512; append_padded p off USERNAME s (word_of_nat n) }))"

definition getStunAttribute :: "StunPacket option \<Rightarrow> u16 \<Rightarrow> (STATUS \<times> nat option) option" where
  "getStunAttribute pStunPacket ty =
     (case pStunPacket of
        None \<Rightarrow> Some (STATUS_NULL_ARG, None)
      | Some p \<Rightarrow> do {
          offs \<leftarrow> memread (attributeList p) 0 (unat (attributesCount p));
          r \<leftarrow> for_each (\<lambda>off r. if r = None
                then do { a \<leftarrow> attrs p off; Some (if attr_type a = ty then Some off else None) } else Some r) offs None;
          Some (STATUS_SUCCESS, r) })"

definition appendStunPriorityAttribute :: "StunPacket option \<Rightarrow> u32 \<Rightarrow> (STATUS \<times> StunPacket option) option" where
  "appendStunPriorityAttribute pStunPacket priority =
     with_first_available pStunPacket (\<lambda>p off. append_attribute p off (ROUND_UP 8 8) 8
       \<lparr>attr_type = PRIORITY, attr_length = 4, attr_struct = StunAttributeWord priority\<rparr> (4 + 4))"

definition appendStunFlagAttribute :: "StunPacket option \<Rightarrow> u16 \<Rightarrow> (STATUS \<times> StunPacket option) option" where
  "appendStunFlagAttribute pStunPacket attrType =
     with_first_available pStunPacket (\<lambda>p off. append_attribute p off (ROUND_UP 4 8) 4
       \<lparr>attr_type = attrType, attr_length = 0, attr_struct = StunAttributeFlag\<rparr> (0 + 4))"

definition appendStunLifetimeAttribute :: "StunPacket option \<Rightarrow> u32 \<Rightarrow> (STATUS \<times> StunPacket option) option" where
  "appendStunLifetimeAttribute pStunPacket lifetime =
     with_first_available pStunPacket (\<lambda>p off. append_attribute p off (ROUND_UP 8 8) 8
       \<lparr>attr_type = LIFETIME, attr_length = 4, attr_struct = StunAttributeWord lifetime\<rparr> (4 + 4))"

definition appendStunChangeRequestAttribute :: "StunPacket option \<Rightarrow> u32 \<Rightarrow> (STATUS \<times> StunPacket option) option" where
  "appendStunChangeRequestAttribute pStunPacket changeFlag =
     with_first_available pStunPacket (\<lambda>p off. append_attribute p off (ROUND_UP 8 8) 8
       \<lparr>attr_type = CHANGE_REQUEST, attr_length = 4, attr_struct = StunAttributeWord changeFlag\<rparr> (4 + 4))"

definition appendStunRequestedTransportAttribute :: "StunPacket option \<Rightarrow> byte \<Rightarrow> (STATUS \<times> StunPacket option) option" where
  "appendStunRequestedTransportAttribute pStunPacket protocol =
     with_first_available pStunPacket (\<lambda>p off. append_attribute p off (ROUND_UP 8 8) 8
       \<lparr>attr_type = REQUESTED_TRANSPORT, attr_length = 4, attr_struct = StunAttributeBytes4 [protocol, 0, 0, 0]\<rparr> (4 + 4))"

definition appendStunRealmAttribute :: "StunPacket option \<Rightarrow> bytes option \<Rightarrow> (STATUS \<times> StunPacket option) option" where
  "appendStunRealmAttribute pStunPacket realm =
     (case realm of
        None \<Rightarrow> Some (STATUS_NULL_ARG, pStunPacket)
      | Some s \<Rightarrow> with_first_available pStunPacket (\<lambda>p off.
          do { n \<leftarrow> STRNLEN s 128; append_padded p off REALM s (word_of_nat n) }))"

definition appendStunAllocationAddressFamily :: "StunPacket option \<Rightarrow> u16 \<Rightarrow> (STATUS \<times> StunPacket option) option" where
  "appendStunAllocationAddressFamily pStunPacket ipFamily =
     with_first_available pStunPacket (\<lambda>p off. append_attribute p off (ROUND_UP 8 4) 8
       \<lparr>attr_type = REQUESTED_ADDRESS_FAMILY, attr_length = 4, attr_struct = StunAttributeBytes4 [ucast ipFamily, 0, 0, 0]\<rparr> (4 + 4))"

definition appendStunNonceAttribute :: "StunPacket option \<Rightarrow> bytes option \<Rightarrow> u16 \<Rightarrow> (STATUS \<times> StunPacket option) option" where
  "appendStunNonceAttribute pStunPacket nonce nonceLen =
     (case nonce of
        None \<Rightarrow> Some (STATUS_NULL_ARG, pStunPacket)
      | Some d \<Rightarrow> with_first_available pStunPacket (\<lambda>p off. append_padded p off NONCE d nonceLen))"

definition updateStunNonceAttribute :: "StunPacket option \<Rightarrow> bytes option \<Rightarrow> u16 \<Rightarrow> (STATUS \<times> StunPacket option) option" where
  "updateStunNonceAttribute pStunPacket nonce nonceLen =
     (case (pStunPacket, nonce) of
        (Some p, Some d) \<Rightarrow> do {
          (status, r) \<leftarrow> getStunAttribute (Some p) NONCE;
          if status \<noteq> STATUS_SUCCESS then Some (status, Some p)
          else case r of
            None \<Rightarrow> Some (status, Some p)
          | Some off \<Rightarrow> do {
              a \<leftarrow> attrs p off;
              if attr_length a \<noteq> nonceLen then Some (STATUS_INVALID_ARG, Some p)
              else (case attr_struct a of
                      StunAttributePadded pl c \<Rightarrow> do {
                        d \<leftarrow> memread d 0 (unat nonceLen);
                        c \<leftarrow> memwrite c 0 d;
                        Some (STATUS_SUCCESS, Some (p\<lparr>attrs := (attrs p)(off \<mapsto> a\<lparr>attr_struct := StunAttributePadded pl c\<rparr>)\<rparr>)) }
                    | _ \<Rightarrow> None) } }
      | _ \<Rightarrow> Some (STATUS_NULL_ARG, pStunPacket))"

definition appendStunErrorCodeAttribute ::
  "StunPacket option \<Rightarrow> bytes option \<Rightarrow> u16 \<Rightarrow> (STATUS \<times> StunPacket option) option" where
  "appendStunErrorCodeAttribute pStunPacket errorPhrase errorCode =
     (case errorPhrase of
        None \<Rightarrow> Some (STATUS_NULL_ARG, pStunPacket)
      | Some s \<Rightarrow> with_first_available pStunPacket (\<lambda>p off.
          do { n \<leftarrow> STRNLEN s 128;
               let pl = padded_length (word_of_nat n);
               d \<leftarrow> memread s 0 n;
               append_attribute p off (ROUND_UP (unat pl + 16) 8) (16 + n)
                 \<lparr>attr_type = ERROR_CODE, attr_length = word_of_nat n,
                  attr_struct = StunAttributeErrorCode errorCode pl (d @ replicate (unat pl - n) 0)\<rparr> (pl + 4) }))"

definition appendStunIceControllAttribute ::
  "bool \<Rightarrow> StunPacket option \<Rightarrow> u16 \<Rightarrow> u64 \<Rightarrow> (STATUS \<times> StunPacket option) option" where
  "appendStunIceControllAttribute isBig pStunPacket attributeType tieBreaker =
     (if attributeType \<noteq> ICE_CONTROLLING \<and> attributeType \<noteq> ICE_CONTROLLED then Some (STATUS_INVALID_ARG, pStunPacket)
      else with_first_available pStunPacket (\<lambda>p off. append_attribute p off (ROUND_UP 16 8) 12
        \<lparr>attr_type = attributeType, attr_length = 8,
         attr_struct = StunAttributeIceControl (nativebytes64 isBig tieBreaker @ replicate 4 0)\<rparr> (8 + 4)))"

definition appendStunDataAttribute :: "StunPacket option \<Rightarrow> bytes option \<Rightarrow> u16 \<Rightarrow> (STATUS \<times> StunPacket option) option" where
  "appendStunDataAttribute pStunPacket data dataLen =
     (case data of
        None \<Rightarrow> Some (STATUS_NULL_ARG, pStunPacket)
      | Some d \<Rightarrow> with_first_available pStunPacket (\<lambda>p off. append_padded p off DATA d dataLen))"

definition appendStunChannelNumberAttribute :: "StunPacket option \<Rightarrow> u16 \<Rightarrow> (STATUS \<times> StunPacket option) option" where
  "appendStunChannelNumberAttribute pStunPacket channelNumber =
     with_first_available pStunPacket (\<lambda>p off. append_attribute p off (ROUND_UP 8 8) 8
       \<lparr>attr_type = CHANNEL_NUMBER, attr_length = 4, attr_struct = StunAttributeChannelNumber channelNumber 0\<rparr> (4 + 4))"

definition freeStunPacket :: "StunPacket option option \<Rightarrow> STATUS \<times> StunPacket option option" where
  "freeStunPacket ppStunPacket =
     (case ppStunPacket of None \<Rightarrow> (STATUS_NULL_ARG, None) | Some pp \<Rightarrow> (STATUS_SUCCESS, Some None))"

end
