(* ===== verification/StunWire.thy ===== *)
theory StunWire
  imports Stun
begin

text \<open>
  The wire format of STUN messages and the proof that \<open>deserializeStunPacket\<close> reads back what
  \<open>serializeStunPacket\<close> writes. \<open>wire\<close> is the encoding of one attribute, \<open>received_attr\<close> the attribute the
  parser makes of it, and \<open>sendable\<close> the attributes for which this holds: all types that both
  functions know, except the error code, whose encoding is wrong.
\<close>

section \<open>Padding\<close>

lemma ROUND_UP_bounds: "0 < a \<Longrightarrow> x \<le> ROUND_UP x a \<and> ROUND_UP x a < x + a"
proof -
  assume a: "0 < a"
  let ?q = "(x + (a - 1)) div a"
  have "x + (a - 1) = ?q * a + (x + (a - 1)) mod a" by simp
  moreover have "(x + (a - 1)) mod a \<le> a - 1" using a by (simp add: less_Suc_eq_le [symmetric])
  moreover have "?q * a \<le> x + (a - 1)" by simp
  ultimately show ?thesis using a unfolding ROUND_UP_def by linarith
qed

lemma ROUND_UP_dvd: "a dvd ROUND_UP x a"
  by (simp add: ROUND_UP_def)

lemma unat_padded_length: "unat len \<le> 65532 \<Longrightarrow> unat (padded_length len) = ROUND_UP (unat len) 4"
proof -
  assume le: "unat len \<le> 65532"
  have "ROUND_UP (unat len) 4 \<le> ROUND_UP 65532 4"
    unfolding ROUND_UP_def using le by (intro mult_le_mono1 div_le_mono) simp
  then have "ROUND_UP (unat len) 4 < 65536" by (simp add: ROUND_UP_def)
  then show ?thesis by (simp add: padded_length_def unat_of_nat take_bit_nat_eq_self)
qed

lemma padded_length_fixed [simp]:
  "padded_length 0 = 0" "padded_length 4 = 4" "padded_length 8 = 8" "padded_length 20 = 20"
  by (simp_all add: padded_length_def ROUND_UP_def)

section \<open>Bytes of integers\<close>

lemma be_xor:
  "be16 (v XOR w) = map2 (XOR) (be16 v) (be16 w)"
  "be32 (x XOR y) = map2 (XOR) (be32 x) (be32 y)"
  "le16 (v XOR w) = map2 (XOR) (le16 v) (le16 w)"
  "le32 (x XOR y) = map2 (XOR) (le32 x) (le32 y)"
  by (simp_all add: be16_def be32_def le16_def le32_def drop_bit_xor unsigned_xor_eq)

lemma list_2: "length xs = 2 \<Longrightarrow> \<exists>a b. xs = [a, b]"
  by (auto simp: length_Suc_conv eval_nat_numeral)

lemma native16_encode: "length xs = 2 \<Longrightarrow> \<exists>v. native16 g (xs @ ys) 0 = Some v \<and> nativebytes16 g v = xs"
  by (auto dest!: list_2 simp: native16_def nativebytes16_def getUnalignedInt16Be_def getUnalignedInt16Le_def
      memget_def be16_def le16_def)

lemma native16_nativebytes16: "native16 g (nativebytes16 g v @ ys) 0 = Some v"
  by (simp add: native16_def nativebytes16_def)

lemma native32_nativebytes32: "native32 g (nativebytes32 g v @ ys) 0 = Some v"
  by (simp add: native32_def nativebytes32_def)

section \<open>The encoding of an attribute\<close>

text \<open>The bytes an address is combined with.\<close>

definition xor_mask :: "bytes \<Rightarrow> u16 \<Rightarrow> bytes" where
  "xor_mask tid fam = be32 STUN_HEADER_MAGIC_COOKIE @ (if fam = KVS_IP_FAMILY_TYPE_IPV6 then tid else replicate 12 0)"

definition xored :: "bool \<Rightarrow> bytes \<Rightarrow> KvsIpAddress \<Rightarrow> KvsIpAddress" where
  "xored isBig tid a = a\<lparr>ip_port := getInt16 isBig 0x2112 XOR ip_port a,
     ip_address := map2 (XOR) (ip_address a) (xor_mask tid (ip_family a))\<rparr>"

definition wire_address :: "bool \<Rightarrow> KvsIpAddress \<Rightarrow> bytes" where
  "wire_address isBig a = be16 (ip_family a) @ nativebytes16 isBig (ip_port a) @
     take (if IS_IPV4_ADDR a then 4 else 16) (ip_address a)"

definition wire_value :: "bool \<Rightarrow> bytes \<Rightarrow> StunAttribute \<Rightarrow> bytes" where
  "wire_value isBig tid a =
     (case attr_struct a of
        StunAttributeAddress ip \<Rightarrow>
          wire_address isBig (if attr_type a = XOR_MAPPED_ADDRESS \<or> attr_type a = XOR_PEER_ADDRESS then xored isBig tid ip else ip)
      | StunAttributePadded pl c \<Rightarrow> c
      | StunAttributeWord w \<Rightarrow> be32 w
      | StunAttributeBytes4 c \<Rightarrow> c
      | StunAttributeIceControl c \<Rightarrow> (if isBig then take 8 c else rev (take 8 c))
      | StunAttributeChannelNumber n r \<Rightarrow> be16 n @ be16 r
      | _ \<Rightarrow> [])"

definition wire :: "bool \<Rightarrow> bytes \<Rightarrow> StunAttribute \<Rightarrow> bytes" where
  "wire isBig tid a = be16 (attr_type a) @ be16 (attr_length a) @ wire_value isBig tid a"

definition sendable :: "bool \<Rightarrow> StunAttribute \<Rightarrow> bool" where
  "sendable isBig a =
     (let ty = attr_type a; len = attr_length a in
      case attr_struct a of
        StunAttributeFlag \<Rightarrow> (ty = USE_CANDIDATE \<or> ty = DONT_FRAGMENT) \<and> len = 0
      | StunAttributeAddress ip \<Rightarrow> is_address_type ty \<and> (isBig \<longrightarrow> ty \<noteq> XOR_MAPPED_ADDRESS) \<and>
          length (ip_address ip) = 16 \<and> ip_family ip AND 0xff = ip_family ip \<and> len = 4 + (if IS_IPV4_ADDR ip then 4 else 16)
      | StunAttributePadded pl c \<Rightarrow> pl = padded_length len \<and> length c = unat pl \<and>
          (ty = USERNAME \<and> len \<le> 512 \<or> ty = REALM \<and> len \<le> 128 \<or> ty = NONCE \<and> len \<le> 128 \<or> ty = DATA \<and> len \<le> 65532)
      | StunAttributeWord w \<Rightarrow> (ty = PRIORITY \<or> ty = LIFETIME \<or> ty = CHANGE_REQUEST) \<and> len = 4
      | StunAttributeBytes4 c \<Rightarrow> ty = REQUESTED_TRANSPORT \<and> len = 4 \<and> length c = 4
      | StunAttributeIceControl c \<Rightarrow> (ty = ICE_CONTROLLED \<or> ty = ICE_CONTROLLING) \<and> len = 8 \<and> length c = 12
      | StunAttributeChannelNumber n r \<Rightarrow> ty = CHANNEL_NUMBER \<and> len = 4
      | _ \<Rightarrow> False)"

lemma length_xor_mask [simp]: "length tid = 12 \<Longrightarrow> length (xor_mask tid fam) = 16"
  by (simp add: xor_mask_def)

lemma length_wire_value:
  assumes "sendable g a" and "length tid = 12"
  shows "length (wire_value g tid a) = unat (padded_length (attr_length a))"
  using assms
  by (cases "attr_struct a")
    (auto simp: sendable_def wire_value_def wire_address_def xored_def Let_def IS_IPV4_ADDR_def split: if_splits)

lemma length_wire_attr:
  "sendable g a \<Longrightarrow> length tid = 12 \<Longrightarrow> length (wire g tid a) = 4 + unat (padded_length (attr_length a))"
  by (simp add: wire_def length_wire_value)

lemma length_wire_bounds:
  "sendable g a \<Longrightarrow> length tid = 12 \<Longrightarrow> 4 \<le> length (wire g tid a) \<and> length (wire g tid a) < 65540"
  using unsigned_less [of "padded_length (attr_length a)", where ?'a = nat] by (simp add: length_wire_attr)

section \<open>Exclusive or of an address\<close>

lemma list_split4: "4 \<le> length xs \<Longrightarrow> \<exists>a b c d r. xs = a # b # c # d # r"
  by (auto simp: eval_nat_numeral Suc_le_length_iff)

lemma be32_MAKE: "be32 (MAKE_INT32 (MAKE_INT16 d c) (MAKE_INT16 b a)) = [a, b, c, d]"
  unfolding be32_def list.inject by (intro conjI refl bit_word_eqI; auto simp: bit_MAKE bit_ucasts)

lemma le32_MAKE_INT32: "le32 (MAKE_INT32 (MAKE_INT16 a b) (MAKE_INT16 c d)) = [a, b, c, d]"
  unfolding le32_def list.inject by (intro conjI refl bit_word_eqI; auto simp: bit_MAKE bit_ucasts)

lemma load32_bytes: "4 \<le> length adr \<Longrightarrow> \<exists>w. load32 g adr 0 = Some w \<and> be32 w = take 4 adr"
  using list_split4 [of adr] by (auto simp: getUnalignedInt32Be_def memget_def be32_MAKE)

lemma native32_decode: "4 \<le> length adr \<Longrightarrow> \<exists>w. native32 g adr 0 = Some w \<and> nativebytes32 g w = take 4 adr"
  using list_split4 [of adr]
  by (auto simp: native32_def nativebytes32_def getUnalignedInt32Be_def getUnalignedInt32Le_def memget_def be32_MAKE le32_MAKE_INT32)

lemma map2_xor_0: "length xs \<le> n \<Longrightarrow> map2 (XOR) xs (replicate n 0) = xs" for xs :: bytes
proof (induction xs arbitrary: n)
  case (Cons x xs)
  then show ?case by (cases n) auto
qed simp

lemma map2_append_left:
  "length xs = length us \<Longrightarrow> map2 f (xs @ ys) (us @ vs) = map2 f xs us @ map2 f ys vs"
  by simp

lemma map2_xor_split:
  "4 \<le> length adr \<Longrightarrow> map2 (XOR) adr (be32 c @ m) = map2 (XOR) (take 4 adr) (be32 c) @ map2 (XOR) (drop 4 adr) m"
  for adr :: bytes
  using map2_append_left [of "take 4 adr" "be32 c" "(XOR)" "drop 4 adr" m] by simp

lemma xorIpAddress_xored:
  assumes "length (ip_address a) = 16" "length tid = 12"
  shows "xorIpAddress g (Some a) (Some tid) = Some (STATUS_SUCCESS, Some (xored g tid a))"
proof -
  let ?c = "STUN_HEADER_MAGIC_COOKIE" and ?r = "drop 4 (ip_address a)"
  obtain w where w: "load32 g (ip_address a) 0 = Some w" "be32 w = take 4 (ip_address a)"
    using load32_bytes [of "ip_address a" g] assms by auto
  have split: "map2 (XOR) (ip_address a) (be32 ?c @ m) = be32 (w XOR ?c) @ map2 (XOR) ?r m" for m
    using assms w(2) map2_xor_split [of "ip_address a" ?c m] by (simp add: be_xor)
  have new: "putInt32 g (ip_address a) 0 (w XOR ?c) = Some (be32 (w XOR ?c) @ ?r)"
    using assms by (simp add: mem_simps bsplice_def)
  have fin: "xor_transaction (be32 (w XOR ?c) @ ?r) tid = Some (be32 (w XOR ?c) @ map2 (XOR) ?r tid)"
    using assms by (simp add: xor_transaction_def mem_simps bsplice_def)
  show ?thesis
    using w(1) new fin split [of tid] split [of "replicate 12 0"] assms
    by (simp add: xorIpAddress_def xored_def xor_mask_def map2_xor_0 Let_def del: load_be putInt_be)
qed

section \<open>Writing the attributes\<close>

lemma SWAP_INT64_swaps: "SWAP_INT64 (MAKE_INT64 a b) = MAKE_INT64 (SWAP_INT32 b) (SWAP_INT32 a)"
proof -
  have "(ucast :: u64 \<Rightarrow> u32) (MAKE_INT64 a b) = a" "(ucast :: u64 \<Rightarrow> u32) (drop_bit 32 (MAKE_INT64 a b)) = b"
    by (rule bit_word_eqI; simp add: bit_MAKE bit_ucasts)+
  then show ?thesis by (simp add: SWAP_INT64_def)
qed

lemma be64_MAKE: "be64 (MAKE_INT64 (MAKE_INT32 (MAKE_INT16 h g) (MAKE_INT16 f e)) (MAKE_INT32 (MAKE_INT16 d c) (MAKE_INT16 b a)))
    = [a, b, c, d, e, f, g, h]"
  unfolding be64_def list.inject by (intro conjI refl bit_word_eqI; auto simp: bit_MAKE bit_ucasts)

lemma le64_MAKE: "le64 (MAKE_INT64 (MAKE_INT32 (MAKE_INT16 a b) (MAKE_INT16 c d)) (MAKE_INT32 (MAKE_INT16 e f) (MAKE_INT16 g h)))
    = [a, b, c, d, e, f, g, h]"
  unfolding le64_def list.inject by (intro conjI refl bit_word_eqI; auto simp: bit_MAKE bit_ucasts)

lemma list_split8: "8 \<le> length xs \<Longrightarrow> \<exists>a b c d e f g h r. xs = a # b # c # d # e # f # g # h # r"
  by (auto simp: eval_nat_numeral Suc_le_length_iff)

lemma swap64_bytes:
  "8 \<le> length c \<Longrightarrow> \<exists>x. native64 g c 0 = Some x \<and>
     nativebytes64 g (getInt64 g x) = (if g then take 8 c else rev (take 8 c))"
  using list_split8 [of c]
  by (auto simp: native64_def nativebytes64_def getInt64_def getUnalignedInt64Be_def getUnalignedInt64Le_def
      getUnalignedInt32Be_def getUnalignedInt32Le_def memget_def SWAP_INT64_swaps SWAP_INT32_swaps be64_MAKE le64_MAKE)

lemma PACKAGE_Some [mem_simps]:
  "pos + 4 \<le> length b \<Longrightarrow> PACKAGE_STUN_ATTR_HEADER g b pos ty len = Some (bsplice b pos (be16 ty @ be16 len))"
  by (simp add: PACKAGE_STUN_ATTR_HEADER_def mem_simps)

lemma sendable_value:
  assumes "sendable g a" and "length tid = 12" and "\<not> is_address_type (attr_type a)"
  shows "\<exists>ws. attribute_value g a = Some (Some (word_of_nat (length (wire g tid a)), ws)) \<and>
    (\<forall>b pos. pos + length (wire g tid a) \<le> length b \<longrightarrow>
       put_values (bsplice b pos (be16 (attr_type a) @ be16 (attr_length a))) pos ws = Some (bsplice b pos (wire g tid a)))"
proof (cases "attr_struct a")
  case (StunAttributePadded pl c)
  then show ?thesis using assms
    by (auto simp: sendable_def Let_def attribute_value_def wire_def wire_value_def mem_simps)
next
  case (StunAttributeIceControl c)
  then obtain x where "native64 g c 0 = Some x" "nativebytes64 g (getInt64 g x) = wire_value g tid a"
    using assms swap64_bytes [of c g] by (auto simp: sendable_def Let_def wire_value_def)
  then show ?thesis using assms StunAttributeIceControl
    by (auto simp: sendable_def Let_def attribute_value_def wire_def mem_simps length_wire_value)
qed (use assms in \<open>auto simp: sendable_def Let_def attribute_value_def wire_def wire_value_def mem_simps getInt_bytes\<close>)

lemma sendable_address:
  assumes "sendable g a" and "is_address_type (attr_type a)"
  obtains ip where "attr_struct a = StunAttributeAddress ip" "length (ip_address ip) = 16"
    "attr_length a = 4 + (if IS_IPV4_ADDR ip then 4 else 16)" "ip_family ip AND 0xff = ip_family ip"
    "g \<longrightarrow> attr_type a \<noteq> XOR_MAPPED_ADDRESS"
  using assms by (cases "attr_struct a") (auto simp: sendable_def Let_def is_address_type_def)

lemma length_xored [simp]: "length (ip_address a) = 16 \<Longrightarrow> length tid = 12 \<Longrightarrow> length (ip_address (xored g tid a)) = 16"
  by (simp add: xored_def)

lemma ip_family_xored [simp]: "ip_family (xored g tid a) = ip_family a"
  by (simp add: xored_def)

lemma stunPackageIpAddr_wire:
  assumes "sendable g a" "attr_struct a = StunAttributeAddress ip" "length tid = 12" "transactionId h = tid"
  shows "pBuffer = None \<Longrightarrow> stunPackageIpAddr g (Some h) (attr_type a) (Some ip) pBuffer pos rem =
           Some (STATUS_SUCCESS, None, word_of_nat (length (wire g tid a)))"
    and "pBuffer = Some b \<Longrightarrow> pos + length (wire g tid a) \<le> length b \<Longrightarrow> length (wire g tid a) \<le> unat rem \<Longrightarrow>
         stunPackageIpAddr g (Some h) (attr_type a) (Some ip) pBuffer pos rem =
           Some (STATUS_SUCCESS, Some (bsplice b pos (wire g tid a)), word_of_nat (length (wire g tid a)))"
proof -
  have ok: "is_address_type (attr_type a)" "length (ip_address ip) = 16"
      "attr_length a = 4 + (if IS_IPV4_ADDR ip then 4 else 16)"
    using assms(1,2) by (simp_all add: sendable_def Let_def)
  let ?n = "if IS_IPV4_ADDR ip then 4 else 16 :: nat"
  let ?ind = "if attr_type a = XOR_MAPPED_ADDRESS \<or> attr_type a = XOR_PEER_ADDRESS then xored g tid ip else ip"
  have ind: "length (ip_address ?ind) = 16" "IS_IPV4_ADDR ?ind = IS_IPV4_ADDR ip"
    using ok assms(3) by (simp_all add: IS_IPV4_ADDR_def)
  have val: "wire g tid a = be16 (attr_type a) @ be16 (attr_length a) @ be16 (ip_family ?ind) @
      nativebytes16 g (ip_port ?ind) @ take ?n (ip_address ?ind)"
    using assms(2) ind(2) by (simp add: wire_def wire_value_def wire_address_def)
  have len: "length (wire g tid a) = 8 + ?n"
    using ind unfolding val by simp
  show "pBuffer = None \<Longrightarrow> stunPackageIpAddr g (Some h) (attr_type a) (Some ip) pBuffer pos rem =
      Some (STATUS_SUCCESS, None, word_of_nat (length (wire g tid a)))"
    unfolding len by (simp add: stunPackageIpAddr_def Let_def)
  assume b: "pBuffer = Some b" "pos + length (wire g tid a) \<le> length b" "length (wire g tid a) \<le> unat rem"
  have rem: "\<not> rem < 8 + word_of_nat ?n"
    using b(3) unfolding len by (auto simp: word_less_nat_alt)
  have xor: "(if attr_type a = XOR_MAPPED_ADDRESS \<or> attr_type a = XOR_PEER_ADDRESS
      then xorIpAddress g (Some ip) (Some (transactionId h)) else Some (STATUS_SUCCESS, Some ip)) = Some (STATUS_SUCCESS, Some ?ind)"
    using xorIpAddress_xored [OF ok(2) assms(3)] assms(4) by simp
  have cast: "ucast (8 + word_of_nat ?n - 4 :: u32) = attr_length a"
    using ok(3) by simp
  show "stunPackageIpAddr g (Some h) (attr_type a) (Some ip) pBuffer pos rem =
      Some (STATUS_SUCCESS, Some (bsplice b pos (wire g tid a)), word_of_nat (length (wire g tid a)))"
    using b rem xor cast ind unfolding len unfolding val
    by (simp add: stunPackageIpAddr_def Let_def mem_simps del: of_nat_numeral) simp
qed

text \<open>One attribute, without and with a buffer.\<close>

definition not_late :: "SerializeState \<Rightarrow> bool" where
  "not_late st = (\<not> sz_fingerprintFound st \<and> \<not> sz_integrityFound st)"

lemma serialize_attribute_wire:
  assumes "sendable g a" "length tid = 12" "transactionId (stunHeader p) = tid" "not_late st"
  shows "sz_buffer st = None \<Longrightarrow>
           serialize_attribute g p i a st = Some (STATUS_SUCCESS, word_of_nat (length (wire g tid a)), st)"
    and "sz_buffer st = Some b \<Longrightarrow> sz_pos st + length (wire g tid a) \<le> length b \<Longrightarrow>
           length (wire g tid a) \<le> unat (sz_remaining st) \<Longrightarrow>
           serialize_attribute g p i a st = Some (STATUS_SUCCESS, word_of_nat (length (wire g tid a)),
             st\<lparr>sz_buffer := Some (bsplice b (sz_pos st) (wire g tid a))\<rparr>)"
proof -
  have ty: "attr_type a \<noteq> MESSAGE_INTEGRITY" "attr_type a \<noteq> FINGERPRINT"
    using assms(1) by (cases "attr_struct a"; auto simp: sendable_def Let_def is_address_type_def)+
  show "serialize_attribute g p i a st = Some (STATUS_SUCCESS, word_of_nat (length (wire g tid a)), st)"
    if "sz_buffer st = None"
  proof (cases "is_address_type (attr_type a)")
    case True
    with assms(1) obtain ip where "attr_struct a = StunAttributeAddress ip" by (rule sendable_address)
    then show ?thesis
      using True that assms(4) stunPackageIpAddr_wire(1) [OF assms(1) _ assms(2,3) that]
      by (simp add: serialize_attribute_def not_late_def)
  next
    case False
    then show ?thesis
      using that assms(4) ty sendable_value [OF assms(1,2)] by (auto simp: serialize_attribute_def not_late_def)
  qed
  assume b: "sz_buffer st = Some b" "sz_pos st + length (wire g tid a) \<le> length b"
    "length (wire g tid a) \<le> unat (sz_remaining st)"
  show "serialize_attribute g p i a st = Some (STATUS_SUCCESS, word_of_nat (length (wire g tid a)),
      st\<lparr>sz_buffer := Some (bsplice b (sz_pos st) (wire g tid a))\<rparr>)"
  proof (cases "is_address_type (attr_type a)")
    case True
    with assms(1) obtain ip where "attr_struct a = StunAttributeAddress ip" by (rule sendable_address)
    then show ?thesis
      using True assms(4) stunPackageIpAddr_wire(2) [OF assms(1) _ assms(2,3) b]
      by (simp add: serialize_attribute_def not_late_def)
  next
    case False
    obtain ws where ws: "attribute_value g a = Some (Some (word_of_nat (length (wire g tid a)), ws))"
      "put_values (bsplice b (sz_pos st) (be16 (attr_type a) @ be16 (attr_length a))) (sz_pos st) ws =
         Some (bsplice b (sz_pos st) (wire g tid a))"
      using sendable_value [OF assms(1,2) False] b(2) by blast
    have "\<not> sz_remaining st < word_of_nat (length (wire g tid a))"
      using b(3) by (simp add: word_less_nat_alt) (metis le_less_trans not_le unat_small32 unat_less32)
    then show ?thesis
      using b length_wire_bounds [OF assms(1,2)] False assms(4) ty ws
      by (simp add: serialize_attribute_def not_late_def mem_simps)
  qed
qed

text \<open>The loop over the attributes.\<close>

definition wires :: "bool \<Rightarrow> bytes \<Rightarrow> StunAttribute list \<Rightarrow> bytes" where
  "wires isBig tid as = concat (map (wire isBig tid) as)"

lemma wires_simps [simp]: "wires g tid [] = []" "wires g tid (a # as) = wire g tid a @ wires g tid as"
  by (simp_all add: wires_def)

lemma serialize_attributes_size:
  assumes "list_all2 (\<lambda>off a. attrs p off = Some a) offs as" "\<forall>a \<in> set as. sendable g a"
    "length tid = 12" "transactionId (stunHeader p) = tid" "not_late st" "sz_buffer st = None"
  shows "serialize_attributes g p i offs st =
    Some (STATUS_SUCCESS, st\<lparr>sz_packetSize := sz_packetSize st + word_of_nat (length (wires g tid as))\<rparr>)"
  using assms
proof (induction offs as arbitrary: i st rule: list_all2_induct)
  case (Cons off offs a as)
  let ?st = "advance_position (word_of_nat (length (wire g tid a))) st"
  have "serialize_attributes g p (i + 1) offs ?st =
      Some (STATUS_SUCCESS, ?st\<lparr>sz_packetSize := sz_packetSize ?st + word_of_nat (length (wires g tid as))\<rparr>)"
    using Cons by (intro Cons.IH) (simp_all add: advance_position_def not_late_def)
  then show ?case
    using Cons serialize_attribute_wire(1) [of g a tid p st i] by (simp add: advance_position_def add.assoc)
qed simp

lemma serialize_attributes_wire:
  assumes "list_all2 (\<lambda>off a. attrs p off = Some a) offs as" "\<forall>a \<in> set as. sendable g a"
    "length tid = 12" "transactionId (stunHeader p) = tid" "not_late st" "sz_buffer st = Some b"
    "sz_pos st + length (wires g tid as) \<le> length b" "length (wires g tid as) \<le> unat (sz_remaining st)"
  shows "serialize_attributes g p i offs st =
    Some (STATUS_SUCCESS, st\<lparr>sz_buffer := Some (bsplice b (sz_pos st) (wires g tid as)),
      sz_pos := sz_pos st + length (wires g tid as),
      sz_remaining := sz_remaining st - word_of_nat (length (wires g tid as))\<rparr>)"
  using assms
proof (induction offs as arbitrary: i st b rule: list_all2_induct)
  case (Cons off offs a as)
  let ?w = "wire g tid a" and ?b = "bsplice b (sz_pos st) (wire g tid a)"
  let ?st = "advance_position (word_of_nat (length ?w)) (st\<lparr>sz_buffer := Some ?b\<rparr>)"
  have n: "length ?w < 2 ^ 32" using length_wire_bounds [of g a tid] Cons.prems by simp
  have st: "?st = st\<lparr>sz_buffer := Some ?b, sz_pos := sz_pos st + length ?w,
      sz_remaining := sz_remaining st - word_of_nat (length ?w)\<rparr>"
    using n by (simp add: advance_position_def unat_small32)
  have rem: "unat (sz_remaining st - word_of_nat (length ?w)) = unat (sz_remaining st) - length ?w"
    using n Cons.prems(7) by (subst unat_sub) (simp_all add: word_le_nat_alt unat_small32)
  have "serialize_attributes g p (i + 1) offs ?st = Some (STATUS_SUCCESS,
      ?st\<lparr>sz_buffer := Some (bsplice ?b (sz_pos ?st) (wires g tid as)), sz_pos := sz_pos ?st + length (wires g tid as),
      sz_remaining := sz_remaining ?st - word_of_nat (length (wires g tid as))\<rparr>)"
    unfolding st using Cons.prems rem by (intro Cons.IH) (simp_all add: not_late_def)
  moreover have "serialize_attribute g p i a st = Some (STATUS_SUCCESS, word_of_nat (length ?w), st\<lparr>sz_buffer := Some ?b\<rparr>)"
    using Cons.prems by (intro serialize_attribute_wire(2)) simp_all
  ultimately show ?case using Cons st by (simp add: algebra_simps)
qed simp

section \<open>Whole messages\<close>

text \<open>The header with its length field \<open>x\<close>, and the two attributes that end a message.\<close>

definition stun_header :: "u16 \<Rightarrow> bytes \<Rightarrow> bytes \<Rightarrow> bytes" where
  "stun_header ty x tid = be16 ty @ x @ be32 STUN_HEADER_MAGIC_COOKIE @ tid"

definition header_for :: "u16 \<Rightarrow> bytes \<Rightarrow> nat \<Rightarrow> bytes" where
  "header_for ty tid n = stun_header ty (be16 (word_of_nat n)) tid"

definition integrity_part :: "bytes \<Rightarrow> bytes" where
  "integrity_part d = be16 MESSAGE_INTEGRITY @ be16 20 @ d"

definition fingerprint_part :: "u16 \<Rightarrow> bytes \<Rightarrow> bytes \<Rightarrow> bytes" where
  "fingerprint_part ty tid body = be16 FINGERPRINT @ be16 4 @
     be32 (COMPUTE_CRC32 (header_for ty tid (length body + 8) @ body) XOR STUN_FINGERPRINT_XOR_VALUE)"

definition tail_parts :: "u16 \<Rightarrow> bytes \<Rightarrow> bytes option \<Rightarrow> bool \<Rightarrow> bytes \<Rightarrow> bytes" where
  "tail_parts ty tid digest fp body =
     (let mi = (case digest of None \<Rightarrow> [] | Some d \<Rightarrow> integrity_part d)
      in mi @ (if fp then fingerprint_part ty tid (body @ mi) else []))"

definition stun_message :: "u16 \<Rightarrow> bytes \<Rightarrow> bytes option \<Rightarrow> bool \<Rightarrow> bytes \<Rightarrow> bytes" where
  "stun_message ty tid digest fp body =
     (let r = body @ tail_parts ty tid digest fp body in header_for ty tid (length r) @ r)"

lemma length_stun_header [simp]:
  "length x = 2 \<Longrightarrow> length (stun_header ty x tid) = 8 + length tid"
  by (simp add: stun_header_def)

lemma length_header_for [simp]: "length tid = 12 \<Longrightarrow> length (header_for ty tid n) = 20"
  by (simp add: header_for_def stun_header_def)

lemma length_parts [simp]:
  "length (integrity_part d) = 4 + length d" "length (fingerprint_part ty tid body) = 8"
  by (simp_all add: integrity_part_def fingerprint_part_def)

lemma put_length_field:
  assumes "length tid = 12" "length x = 2" "20 + length r \<le> length b"
  shows "memwrite (bsplice b 0 (stun_header ty x tid @ r)) 2 (be16 v) = Some (bsplice b 0 (stun_header ty (be16 v) tid @ r))"
proof -
  have "bsplice (stun_header ty x tid @ r) 2 (be16 v) = stun_header ty (be16 v) tid @ r"
    using assms by (simp add: bsplice_def stun_header_def)
  moreover have "length (stun_header ty x tid @ r) = 20 + length r"
    using assms by simp
  ultimately show ?thesis
    using assms bsplice_inside [of 2 "be16 v" "stun_header ty x tid @ r" b] by (simp add: memwrite_Some)
qed

lemma package_header_Some:
  assumes "20 \<le> length b" "length (transactionId h) = 12"
  shows "package_header g h b = Some (bsplice b 0 (stun_header (stunMessageType h) (take 2 (drop 2 b)) (transactionId h)))"
  using assms
  by (simp add: package_header_def mem_simps bsplice_def stun_header_def min_def numeral_2_eq_2 [symmetric])

lemma take_bsplice_prefix: "n = length xs \<Longrightarrow> length xs + length ys \<le> length b \<Longrightarrow> take n (bsplice b 0 (xs @ ys)) = xs"
  by (simp add: bsplice_def)

lemma unat_small16: "n < 65536 \<Longrightarrow> unat (word_of_nat n :: u16) = n"
  by (simp add: unat_of_nat take_bit_nat_eq_self)

text \<open>A state in which the header and \<open>body\<close> have been written, the length field being \<open>x\<close>.\<close>

definition written :: "bytes \<Rightarrow> u16 \<Rightarrow> bytes \<Rightarrow> bytes \<Rightarrow> bytes \<Rightarrow> SerializeState \<Rightarrow> bool" where
  "written b ty tid x body st = (sz_buffer st = Some (bsplice b 0 (stun_header ty x tid @ body)) \<and>
     sz_pos st = 20 + length body \<and> length tid = 12 \<and> length x = 2 \<and> 20 + length body < 65536 \<and>
     20 + length body + unat (sz_remaining st) \<le> length b)"

lemma unat_sub_small: "n \<le> unat (r :: u32) \<Longrightarrow> unat (r - word_of_nat n) = unat r - n"
  using unat_less32 [of r] by (subst unat_sub) (simp_all add: word_le_nat_alt unat_small32)

text \<open>The writes that add an attribute of \<open>n\<close> bytes behind \<open>body\<close>, and the state after them.\<close>

lemma end_part:
  fixes t l :: u16
  assumes "written b ty tid x body st" "4 + n \<le> unat (sz_remaining st)" "length v = n" "20 + length body + 4 + n < 65536"
  defines "b1 \<equiv> bsplice b 0 (stun_header ty x tid @ body @ be16 t @ be16 l)"
    and "b2 \<equiv> bsplice b 0 (header_for ty tid (length body + (4 + n)) @ body @ be16 t @ be16 l)"
    and "b3 \<equiv> bsplice b 0 (header_for ty tid (length body + (4 + n)) @ body @ be16 t @ be16 l @ v)"
  shows "PACKAGE_STUN_ATTR_HEADER g (bsplice b 0 (stun_header ty x tid @ body)) (20 + length body) t l = Some b1"
    and "memwrite b1 2 (be16 (word_of_nat (length body + (4 + n)))) = Some b2"
    and "memread b2 0 (unat (word_of_nat (20 + length body) :: u16)) =
           Some (header_for ty tid (length body + (4 + n)) @ body)"
    and "memwrite b2 (24 + length body) v = Some b3"
    and "\<exists>x'. written b ty tid x' (body @ be16 t @ be16 l @ v) (advance_position (word_of_nat (4 + n)) (st\<lparr>sz_buffer := Some b3\<rparr>))"
    and "unat (sz_remaining (advance_position (word_of_nat (4 + n)) (st\<lparr>sz_buffer := Some b3\<rparr>))) = unat (sz_remaining st) - (4 + n)"
proof -
  let ?h = "stun_header ty x tid" and ?h' = "header_for ty tid (length body + (4 + n))"
  have w: "sz_pos st = 20 + length body" "length tid = 12" "length x = 2"
      "20 + length body + unat (sz_remaining st) \<le> length b"
    using assms(1) by (simp_all add: written_def)
  have lens: "length ?h = 20" "length ?h' = 20" using w by simp_all
  show "PACKAGE_STUN_ATTR_HEADER g (bsplice b 0 (?h @ body)) (20 + length body) t l = Some b1"
    using w lens assms(2) by (simp add: mem_simps b1_def)
  show "memwrite b1 2 (be16 (word_of_nat (length body + (4 + n)))) = Some b2"
    using w assms(2) put_length_field [of tid x "body @ be16 t @ be16 l" b ty]
    by (simp add: header_for_def b1_def b2_def)
  show "memread b2 0 (unat (word_of_nat (20 + length body) :: u16)) = Some (?h' @ body)"
    using w lens assms(2,4) take_bsplice_prefix [of "20 + length body" "?h' @ body" "be16 t @ be16 l" b]
      unat_small16 [of "20 + length body"] by (simp add: mem_simps b2_def)
  show "memwrite b2 (24 + length body) v = Some b3"
    using w lens assms(2,3) by (simp add: mem_simps b2_def b3_def)
  have n: "unat (word_of_nat (4 + n) :: u32) = 4 + n" using assms(4) by (intro unat_small32) simp
  show rem: "unat (sz_remaining (advance_position (word_of_nat (4 + n)) (st\<lparr>sz_buffer := Some b3\<rparr>))) = unat (sz_remaining st) - (4 + n)"
    using unat_sub_small [OF assms(2)] by (simp add: advance_position_def del: of_nat_add)
  have "written b ty tid (be16 (word_of_nat (length body + (4 + n)))) (body @ be16 t @ be16 l @ v)
      (advance_position (word_of_nat (4 + n)) (st\<lparr>sz_buffer := Some b3\<rparr>))"
    using w rem n assms(2-4) by (simp add: written_def advance_position_def b3_def header_for_def del: of_nat_add)
  then show "\<exists>x'. written b ty tid x' (body @ be16 t @ be16 l @ v) (advance_position (word_of_nat (4 + n)) (st\<lparr>sz_buffer := Some b3\<rparr>))"
    by blast
qed

lemma sz_packetSize_advance [simp]: "sz_buffer st \<noteq> None \<Longrightarrow> sz_packetSize (advance_position n st) = sz_packetSize st"
  by (auto simp: advance_position_def)

lemma generate_integrity_written:
  assumes w: "written b ty tid x body st" "24 \<le> unat (sz_remaining st)" "44 + length body < 65536"
    and h: "hmac key (header_for ty tid (length body + 24) @ body) = Some d" "length d = 20"
  shows "\<exists>st' x'. generate_integrity g hmac (Some key) st = Some (STATUS_SUCCESS, st') \<and>
    written b ty tid x' (body @ integrity_part d) st' \<and>
    unat (sz_remaining st') = unat (sz_remaining st) - 24 \<and> sz_packetSize st' = sz_packetSize st"
proof -
  have pre: "4 + 20 \<le> unat (sz_remaining st)" "20 + length body + 4 + 20 < 65536" using w by simp_all
  note part = end_part [OF w(1) pre(1) h(2) pre(2), where t = MESSAGE_INTEGRITY and l = 20]
  have "\<not> sz_remaining st < 24" "sz_pos st = 20 + length body"
    "sz_buffer st = Some (bsplice b 0 (stun_header ty x tid @ body))"
    using w by (simp_all add: word_less_nat_alt written_def)
  then show ?thesis
    using part h(1) unfolding integrity_part_def
    by (simp add: generate_integrity_def add.commute [of "length body"])
qed

lemma generate_fingerprint_written:
  assumes w: "written b ty tid x body st" "8 \<le> unat (sz_remaining st)" "28 + length body < 65536"
  shows "\<exists>st' x'. generate_fingerprint g st = Some (STATUS_SUCCESS, st') \<and>
    written b ty tid x' (body @ fingerprint_part ty tid body) st' \<and>
    unat (sz_remaining st') = unat (sz_remaining st) - 8 \<and> sz_packetSize st' = sz_packetSize st"
proof -
  let ?v = "be32 (COMPUTE_CRC32 (header_for ty tid (length body + 8) @ body) XOR STUN_FINGERPRINT_XOR_VALUE)"
  have pre: "4 + 4 \<le> unat (sz_remaining st)" "20 + length body + 4 + 4 < 65536" "length ?v = 4" using w by simp_all
  note part = end_part [OF w(1) pre(1,3,2), where t = FINGERPRINT and l = 4]
  have "\<not> sz_remaining st < 8" "sz_pos st = 20 + length body"
    "sz_buffer st = Some (bsplice b 0 (stun_header ty x tid @ body))"
    using w by (simp_all add: word_less_nat_alt written_def)
  then show ?thesis
    using part unfolding fingerprint_part_def
    by (simp add: generate_fingerprint_def add.commute [of "length body"])
qed

text \<open>The attributes of a packet, in order.\<close>

definition holds :: "bool \<Rightarrow> StunPacket \<Rightarrow> StunAttribute list \<Rightarrow> bool" where
  "holds isBig p as = (list_all2 (\<lambda>off a. attrs p off = Some a) (attributeList p) as \<and>
     unat (attributesCount p) = length (attributeList p) \<and> magicCookie (stunHeader p) = STUN_HEADER_MAGIC_COOKIE \<and>
     length (transactionId (stunHeader p)) = 12 \<and> (\<forall>a \<in> set as. sendable isBig a))"

text \<open>The digest the sender computes when it has a password.\<close>

definition digest_for ::
  "(bytes \<Rightarrow> bytes \<Rightarrow> bytes option) \<Rightarrow> bytes option \<Rightarrow> u16 \<Rightarrow> bytes \<Rightarrow> bytes \<Rightarrow> bytes option \<Rightarrow> bool" where
  "digest_for hmac password ty tid body digest =
     (case password of
        None \<Rightarrow> digest = None
      | Some key \<Rightarrow> key \<noteq> [] \<and> (\<exists>d. digest = Some d \<and> length d = 20 \<and>
          hmac key (header_for ty tid (length body + 24) @ body) = Some d))"

definition packet_message :: "bool \<Rightarrow> StunPacket \<Rightarrow> StunAttribute list \<Rightarrow> bytes option \<Rightarrow> bool \<Rightarrow> bytes" where
  "packet_message isBig p as digest fp =
     (let h = stunHeader p in stun_message (stunMessageType h) (transactionId h) digest fp (wires isBig (transactionId h) as))"

lemma length_message:
  "length tid = 12 \<Longrightarrow> (\<And>d. digest = Some d \<Longrightarrow> length d = 20) \<Longrightarrow>
     length (stun_message ty tid digest fp body) =
       20 + length body + (if digest = None then 0 else 24) + (if fp then 8 else 0)"
  by (cases digest) (simp_all add: stun_message_def tail_parts_def Let_def)

lemma digest_for_length: "digest_for hmac password ty tid body digest \<Longrightarrow> digest = Some d \<Longrightarrow> length d = 20"
  by (auto simp: digest_for_def split: option.splits)

lemma digest_for_password: "digest_for hmac password ty tid body digest \<Longrightarrow> (digest = None) = (password = None) \<and> password \<noteq> Some []"
  by (auto simp: digest_for_def split: option.splits)

lemma memread_all: "n = length xs \<Longrightarrow> memread xs 0 n = Some xs"
  by (simp add: memread_def)

lemma serialize_size:
  assumes "holds g p as" "password \<noteq> Some []"
  shows "serializeStunPacket g hmac (Some p) password (password \<noteq> None) fp None pSize =
    Some (STATUS_SUCCESS, None, word_of_nat (20 + length (wires g (transactionId (stunHeader p)) as) +
      (if password = None then 0 else 24) + (if fp then 8 else 0)))"
  using assms serialize_attributes_size [of p "attributeList p" as g "transactionId (stunHeader p)"
      "\<lparr>sz_buffer = None, sz_pos = 20, sz_remaining = 0, sz_packetSize = 20,
        sz_fingerprintFound = False, sz_integrityFound = False\<rparr>" 0]
  by (auto simp: holds_def serializeStunPacket_def memread_all not_late_def generate_integrity_def generate_fingerprint_def
      advance_position_def finish_packet_def Let_def)

lemma finish_written:
  assumes "written b ty tid x body st" "sz_packetSize st = word_of_nat (20 + length body)"
  shows "finish_packet g pSize st = Some (STATUS_SUCCESS, Some (bsplice b 0 (header_for ty tid (length body) @ body)), sz_packetSize st)"
proof -
  have w: "sz_buffer st = Some (bsplice b 0 (stun_header ty x tid @ body))" "sz_pos st = 20 + length body" "length tid = 12"
      "length x = 2" "20 + length body \<le> length b" "length body < 65536"
    using assms(1) by (simp_all add: written_def)
  have "ucast (sz_packetSize st - 20 :: u32) = (word_of_nat (length body) :: u16)"
    using assms(2) w(6) by (simp add: unsigned_of_nat take_bit_nat_eq_self)
  then show ?thesis
    using w assms(2) put_length_field [of tid x body b ty] by (simp add: finish_packet_def header_for_def)
qed

lemma unat_minus_header: "20 \<le> n \<Longrightarrow> n < 65536 \<Longrightarrow> unat (word_of_nat n - 20 :: u32) = n - 20"
  using unat_sub_small [of 20 "word_of_nat n"] by (simp add: unat_small32)

lemma not_below_header: "20 \<le> n \<Longrightarrow> n < 65536 \<Longrightarrow> \<not> word_of_nat n < (20 :: u32)"
  by (simp add: word_less_nat_alt unat_small32)

lemma serialize_message:
  assumes h: "holds g p as" and hdr: "ty = stunMessageType (stunHeader p)" "tid = transactionId (stunHeader p)"
    and dig: "digest_for hmac password ty tid (wires g tid as) digest"
    and len: "length (packet_message g p as digest fp) \<le> length b" "length (packet_message g p as digest fp) < 65536"
  shows "serializeStunPacket g hmac (Some p) password (password \<noteq> None) fp (Some b)
      (word_of_nat (length (packet_message g p as digest fp))) =
    Some (STATUS_SUCCESS, Some (bsplice b 0 (packet_message g p as digest fp)), word_of_nat (length (packet_message g p as digest fp)))"
proof -
  let ?body = "wires g tid as" and ?m = "packet_message g p as digest fp"
  let ?x = "take 2 (drop 2 b)"
  let ?st = "\<lparr>sz_buffer = Some (bsplice b 0 (stun_header ty ?x tid)), sz_pos = 20, sz_remaining = word_of_nat (length ?m) - 20,
      sz_packetSize = word_of_nat (length ?m), sz_fingerprintFound = False, sz_integrityFound = False\<rparr>"
  have t12: "length tid = 12" using h hdr by (simp add: holds_def)
  have m: "length ?m = 20 + length ?body + (if password = None then 0 else 24) + (if fp then 8 else 0)"
    using length_message [OF t12 digest_for_length [OF dig]] digest_for_password [OF dig] hdr
    by (simp add: packet_message_def Let_def)
  have rem: "unat (word_of_nat (length ?m) - 20 :: u32) = length ?m - 20"
    using unat_minus_header [of "length ?m"] len(2) m by linarith
  define st1 where "st1 = ?st\<lparr>sz_buffer := Some (bsplice (bsplice b 0 (stun_header ty ?x tid)) 20 ?body),
      sz_pos := 20 + length ?body, sz_remaining := sz_remaining ?st - word_of_nat (length ?body)\<rparr>"
  have fits: "20 + length ?body \<le> length ?m" "20 + length ?body \<le> length b" "length ?body \<le> length ?m - 20"
      "20 + length ?body < 65536" "2 \<le> length b - 2"
    using m len by simp_all
  have loop: "serialize_attributes g p 0 (attributeList p) ?st = Some (STATUS_SUCCESS, st1)"
    unfolding st1_def using h hdr t12 rem fits
    by (subst serialize_attributes_wire [where tid = tid and as = as and b = "bsplice b 0 (stun_header ty ?x tid)"])
      (simp_all add: holds_def not_late_def)
  have w1: "written b ty tid ?x ?body st1" "unat (sz_remaining st1) = length ?m - 20 - length ?body"
      "sz_packetSize st1 = word_of_nat (length ?m)"
    using t12 rem fits len(1) unat_sub_small [of "length ?body" "word_of_nat (length ?m) - 20"]
    by (simp_all add: st1_def written_def)
  obtain st2 x2 where w2: "(if password \<noteq> None then generate_integrity g hmac password st1 else Some (STATUS_SUCCESS, st1)) =
        Some (STATUS_SUCCESS, st2)"
      "written b ty tid x2 (?body @ (case digest of None \<Rightarrow> [] | Some d \<Rightarrow> integrity_part d)) st2"
      "unat (sz_remaining st2) = (if fp then 8 else 0)" "sz_packetSize st2 = word_of_nat (length ?m)"
  proof (cases password)
    case None
    then have "digest = None" using dig by (simp add: digest_for_def)
    then show ?thesis using that [of st1 ?x] w1 m None by simp
  next
    case (Some key)
    then obtain d where d: "digest = Some d" "length d = 20" "hmac key (header_for ty tid (length ?body + 24) @ ?body) = Some d"
      using dig by (auto simp: digest_for_def)
    have "24 \<le> unat (sz_remaining st1)" "44 + length ?body < 65536" using w1(2) m len(2) Some by simp_all
    from generate_integrity_written [OF w1(1) this, of hmac key d g] d obtain st2 x2
      where "generate_integrity g hmac (Some key) st1 = Some (STATUS_SUCCESS, st2)"
        "written b ty tid x2 (?body @ integrity_part d) st2" "unat (sz_remaining st2) = unat (sz_remaining st1) - 24"
        "sz_packetSize st2 = sz_packetSize st1" by auto
    then show ?thesis using that [of st2 x2] w1 m Some d by simp
  qed
  let ?r = "?body @ tail_parts ty tid digest fp ?body"
  obtain st3 x3 where w3: "(if fp then generate_fingerprint g st2 else Some (STATUS_SUCCESS, st2)) = Some (STATUS_SUCCESS, st3)"
      "written b ty tid x3 ?r st3" "sz_packetSize st3 = word_of_nat (length ?m)"
  proof (cases fp)
    case False
    then show ?thesis using that [of st2 x2] w2 by (simp add: tail_parts_def Let_def)
  next
    case True
    let ?mi = "case digest of None \<Rightarrow> [] | Some d \<Rightarrow> integrity_part d"
    have "8 \<le> unat (sz_remaining st2)" "28 + length (?body @ ?mi) < 65536"
      using w2(3) m len(2) True digest_for_length [OF dig] digest_for_password [OF dig]
      by (auto split: option.splits if_splits)
    from generate_fingerprint_written [OF w2(2) this, of g] obtain st3 x3
      where "generate_fingerprint g st2 = Some (STATUS_SUCCESS, st3)"
        "written b ty tid x3 ((?body @ ?mi) @ fingerprint_part ty tid (?body @ ?mi)) st3"
        "sz_packetSize st3 = sz_packetSize st2" by auto
    then show ?thesis using that [of st3 x3] w2 True by (simp add: tail_parts_def Let_def)
  qed
  have mr: "?m = header_for ty tid (length ?r) @ ?r"
    using hdr by (simp add: packet_message_def stun_message_def Let_def)
  have fin: "finish_packet g pSize st3 = Some (STATUS_SUCCESS, Some (bsplice b 0 ?m), word_of_nat (length ?m))" for pSize
    using finish_written [OF w3(2)] w3(3) t12 unfolding mr by simp
  have small: "\<not> word_of_nat (length ?m) < (20 :: u32)"
    using m len(2) by (intro not_below_header) simp_all
  show ?thesis
    using h hdr loop w2(1) w3(1) fin small fits(2) digest_for_password [OF dig]
      package_header_Some [of b "stunHeader p" g] t12
    by (cases password) (simp_all add: holds_def serializeStunPacket_def memread_all Let_def)
qed

end
