(* ===== verification/StunAttr.thy ===== *)
theory StunAttr
  imports StunWire
begin

text \<open>
  Reading one attribute of a STUN message back: what \<open>deserializeStunPacket\<close> makes of the encoding
  of an attribute (\<open>received_attr\<close>). The address of XOR-MAPPED-ADDRESS comes back as it was sent, on a
  little-endian host; that of XOR-PEER-ADDRESS is read without undoing the exclusive or.
\<close>

section \<open>Reading behind a prefix\<close>

lemma memread_shift: "memread (pre @ xs) (length pre + k) n = memread xs k n"
  by (simp add: memread_def)

lemma memget_shift_add: "memget (pre @ xs) (length pre + k) = memget xs k"
  by (simp add: memget_def)

lemma get_shift_add:
  "getUnalignedInt16Be (pre @ xs) (length pre + k) = getUnalignedInt16Be xs k"
  "getUnalignedInt32Be (pre @ xs) (length pre + k) = getUnalignedInt32Be xs k"
  by (simp_all add: get_Be_shift)

lemma native64_shift_add: "native64 g (pre @ xs) (length pre + k) = native64 g xs k"
  by (simp add: native64_def getUnalignedInt64Be_def getUnalignedInt64Le_def get_Be_shift get_Le_shift add.assoc)

lemmas shift_add = memread_shift memget_shift_add get_shift_add native64_shift_add

section \<open>Reading one attribute back\<close>

definition received_address :: "bool \<Rightarrow> bytes \<Rightarrow> u16 \<Rightarrow> KvsIpAddress \<Rightarrow> KvsIpAddress" where
  "received_address isBig tid ty ip =
     (let ip' = (if ty = XOR_PEER_ADDRESS then xored isBig tid ip else ip);
          n = (if IS_IPV4_ADDR ip then 4 else 16)
      in ip'\<lparr>ip_address := take n (ip_address ip') @ replicate (16 - n) 0, isPointToPoint := False\<rparr>)"

definition received_attr :: "bool \<Rightarrow> bytes \<Rightarrow> StunAttribute \<Rightarrow> StunAttribute" where
  "received_attr isBig tid a = a\<lparr>attr_struct :=
     (case attr_struct a of
        StunAttributeAddress ip \<Rightarrow> StunAttributeAddress (received_address isBig tid (attr_type a) ip)
      | StunAttributeIceControl c \<Rightarrow> StunAttributeIceControl (replicate 4 0 @ take 8 c)
      | StunAttributeChannelNumber n r \<Rightarrow> StunAttributeChannelNumber n 0
      | c \<Rightarrow> c)\<rparr>"

lemma stunMagicCookie_bytes: "nativebytes32 g (stunMagicCookie g) = be32 STUN_HEADER_MAGIC_COOKIE"
  by (simp add: stunMagicCookie_def nativebytes32_def be32_def le32_def)

lemma nativebytes32_xor: "nativebytes32 g (x XOR y) = map2 (XOR) (nativebytes32 g x) (nativebytes32 g y)"
  by (simp add: nativebytes32_def be_xor)

text \<open>The parser's exclusive or of the address.\<close>

lemma parser_xor:
  assumes "length adr = 16" "length tid = 12"
  shows "\<exists>w. native32 g adr 0 = Some w \<and>
    memwrite adr 0 (nativebytes32 g (w XOR stunMagicCookie g)) = Some (map2 (XOR) adr (be32 STUN_HEADER_MAGIC_COOKIE @ replicate 12 0)) \<and>
    (if fam = KVS_IP_FAMILY_TYPE_IPV6 then xor_transaction (map2 (XOR) adr (be32 STUN_HEADER_MAGIC_COOKIE @ replicate 12 0)) tid
     else Some (map2 (XOR) adr (be32 STUN_HEADER_MAGIC_COOKIE @ replicate 12 0))) = Some (map2 (XOR) adr (xor_mask tid fam))"
proof -
  let ?c = "be32 STUN_HEADER_MAGIC_COOKIE"
  obtain w where w: "native32 g adr 0 = Some w" "nativebytes32 g w = take 4 adr"
    using native32_decode [of adr g] assms by auto
  have split: "map2 (XOR) adr (?c @ m) = map2 (XOR) (take 4 adr) ?c @ map2 (XOR) (drop 4 adr) m" for m
    using map2_xor_split [of adr STUN_HEADER_MAGIC_COOKIE m] assms(1) by simp
  have four: "length (map2 (XOR) (take 4 adr) ?c) = 4" using assms(1) by simp
  show ?thesis
    using w assms four split [of tid] split [of "replicate 12 0"]
    by (simp add: nativebytes32_xor stunMagicCookie_bytes mem_simps bsplice_def map2_xor_0 xor_mask_def xor_transaction_def)
qed

lemma map2_xor_twice: "length xs = length ys \<Longrightarrow> map2 (XOR) (map2 (XOR) xs ys) ys = xs" for xs ys :: bytes
  by (induction xs ys rule: list_induct2) (simp_all add: xor.assoc)

lemma mask_v4: "fam = KVS_IP_FAMILY_TYPE_IPV4 \<Longrightarrow> xor_mask tid fam = be32 STUN_HEADER_MAGIC_COOKIE @ replicate 12 0"
  by (simp add: xor_mask_def)

lemma unxor_address:
  assumes "length adr = 16" "length tid = 12" "n = (if fam = KVS_IP_FAMILY_TYPE_IPV4 then 4 else 16)"
  shows "map2 (XOR) (take n (map2 (XOR) adr (xor_mask tid fam)) @ replicate (16 - n) 0) (xor_mask tid fam) =
    take n adr @ replicate (16 - n) 0"
proof (cases "fam = KVS_IP_FAMILY_TYPE_IPV4")
  case True
  let ?c = "be32 STUN_HEADER_MAGIC_COOKIE"
  have "take 4 (map2 (XOR) adr (?c @ replicate 12 0)) = map2 (XOR) (take 4 adr) ?c"
    using assms(1) by (simp add: map2_xor_split)
  then show ?thesis
    using True assms map2_append_left [of "map2 (XOR) (take 4 adr) ?c" ?c "(XOR)" "replicate 12 0" "replicate 12 0"]
      map2_xor_twice [of "take 4 adr" ?c] map2_xor_0 [of "replicate 12 0" 12]
    by (simp add: mask_v4)
next
  case False
  then show ?thesis using assms map2_xor_twice [of adr "xor_mask tid fam"] by simp
qed

lemma port_unxor: "\<not> g \<Longrightarrow> (getInt16 g 0x2112 XOR v) XOR ucast (stunMagicCookie g) = v"
proof -
  assume "\<not> g"
  then have "getInt16 g 0x2112 = 0x1221" "ucast (stunMagicCookie g) = (0x1221 :: u16)"
    by (simp_all add: getInt16_def SWAP_INT16_def MAKE_INT16_def stunMagicCookie_def)
  then show ?thesis by (simp add: xor.commute [of _ v] xor.assoc)
qed

lemma native16_shift: "native16 g (pre @ xs) (length pre + k) = native16 g xs k"
  by (simp add: native16_def get_Be_shift get_Le_shift)

lemma convert_address_wire:
  assumes "sendable g a" "attr_struct a = StunAttributeAddress ip" "length tid = 12"
    "b = pre @ wire g tid a @ post" "pos = length pre"
  shows "convert_address g tid b pos (attr_type a) (attr_length a) = Some (received_address g tid (attr_type a) ip)"
proof -
  have ok: "is_address_type (attr_type a)" "length (ip_address ip) = 16" "ip_family ip AND 0xff = ip_family ip"
      "attr_length a = 4 + (if IS_IPV4_ADDR ip then 4 else 16)" "g \<longrightarrow> attr_type a \<noteq> XOR_MAPPED_ADDRESS"
    using assms(1,2) by (simp_all add: sendable_def Let_def)
  let ?n = "if IS_IPV4_ADDR ip then 4 else 16 :: nat"
  let ?ind = "if attr_type a = XOR_MAPPED_ADDRESS \<or> attr_type a = XOR_PEER_ADDRESS then xored g tid ip else ip"
  have ind: "length (ip_address ?ind) = 16" "ip_family ?ind = ip_family ip"
    using ok assms(3) by simp_all
  define adr where "adr = take ?n (ip_address ?ind) @ replicate (16 - ?n) 0"
  have adr16: "length adr = 16" using ind(1) by (simp add: adr_def)
  have len: "unat (attr_length a) = 4 + ?n" "\<not> 20 < unat (attr_length a)" using ok(4) by simp_all
  let ?d = "be16 (ip_family ip) @ nativebytes16 g (ip_port ?ind) @ take ?n (ip_address ?ind)"
  have wire: "wire g tid a = (be16 (attr_type a) @ be16 (attr_length a)) @ ?d"
    using assms(2) ind by (simp add: wire_def wire_value_def wire_address_def IS_IPV4_ADDR_def)
  have d: "memread b (pos + 4) (unat (attr_length a)) = Some ?d"
    using assms(4,5) ind(1) len unfolding wire by (simp add: memread_def)
  have m: "memwrite (replicate 20 0) 0 ?d = Some (be16 (ip_family ip) @ nativebytes16 g (ip_port ?ind) @ adr)"
    using ind(1) by (simp add: memwrite_def bsplice_def adr_def)
  have fields: "load16 g (be16 (ip_family ip) @ nativebytes16 g (ip_port ?ind) @ adr) 0 = Some (ip_family ip)"
      "native16 g (be16 (ip_family ip) @ nativebytes16 g (ip_port ?ind) @ adr) 2 = Some (ip_port ?ind)"
    using native16_shift [of g "be16 (ip_family ip)" _ 0] by (simp_all add: native16_nativebytes16)
  obtain w where w: "native32 g adr 0 = Some w"
    "memwrite adr 0 (nativebytes32 g (w XOR stunMagicCookie g)) = Some (map2 (XOR) adr (be32 STUN_HEADER_MAGIC_COOKIE @ replicate 12 0))"
    "(if ip_family ip = KVS_IP_FAMILY_TYPE_IPV6 then xor_transaction (map2 (XOR) adr (be32 STUN_HEADER_MAGIC_COOKIE @ replicate 12 0)) tid
      else Some (map2 (XOR) adr (be32 STUN_HEADER_MAGIC_COOKIE @ replicate 12 0))) = Some (map2 (XOR) adr (xor_mask tid (ip_family ip)))"
    using parser_xor [OF adr16 assms(3)] by blast
  have unxor: "attr_type a = XOR_MAPPED_ADDRESS \<Longrightarrow>
      map2 (XOR) adr (xor_mask tid (ip_family ip)) = take ?n (ip_address ip) @ replicate (16 - ?n) 0"
    using unxor_address [OF ok(2) assms(3), of ?n "ip_family ip"] by (simp add: adr_def xored_def IS_IPV4_ADDR_def)
  have ty: "attr_type a \<noteq> XOR_RELAYED_ADDRESS" using ok(1) by (auto simp: is_address_type_def)
  show ?thesis
  proof (cases "attr_type a = XOR_MAPPED_ADDRESS")
    case True
    then show ?thesis
      using ok d m fields w unxor len(2) port_unxor [of g "ip_port ip"]
      by (simp add: convert_address_def Let_def received_address_def xored_def del: load_be)
  next
    case False
    then show ?thesis
      using ok d m fields len(2) ty
      by (auto simp: convert_address_def Let_def received_address_def adr_def xored_def simp del: load_be)
  qed
qed

lemma wire_fields:
  assumes "b = pre @ wire g tid a @ post" "pos = length pre"
  shows "load16 k b pos = Some (attr_type a)" "load16 k b (pos + 2) = Some (attr_length a)"
  using assms get_shift_add(1) [of pre "wire g tid a @ post" 0] get_shift_add(1) [of pre "wire g tid a @ post" 2]
  by (simp_all add: wire_def get_Be_shift)

lemma wire_read:
  assumes "sendable g a" "length tid = 12" "b = pre @ wire g tid a @ post" "pos = length pre"
  shows "memread b (pos + 4) (unat (padded_length (attr_length a))) = Some (wire_value g tid a)"
  using assms length_wire_value [OF assms(1,2)] by (simp add: wire_def memread_def)

lemma convert_wire:
  assumes s: "sendable g a" and t: "length tid = 12" "transactionId h = tid"
    and b: "b = pre @ wire g tid a @ post" "pos = length pre"
  shows "convert_attribute g hmac password h b pos (attr_type a) (attr_length a) =
    Some (STATUS_SUCCESS, attr_struct (received_attr g tid a), b)"
proof -
  note read = wire_read [OF s t(1) b]
  have val: "memread b (pos + 4) n = memread (wire_value g tid a @ post) 0 n"
      "getUnalignedInt16Be b (pos + 4) = getUnalignedInt16Be (wire_value g tid a @ post) 0"
      "getUnalignedInt32Be b (pos + 4) = getUnalignedInt32Be (wire_value g tid a @ post) 0"
      "native64 g b (pos + 4) = native64 g (wire_value g tid a @ post) 0" for n
    using b memread_shift [of "pre @ be16 (attr_type a) @ be16 (attr_length a)" _ 0]
      get_shift_add [of "pre @ be16 (attr_type a) @ be16 (attr_length a)" _ 0]
      native64_shift_add [of g "pre @ be16 (attr_type a) @ be16 (attr_length a)" _ 0]
    by (simp_all add: wire_def)
  show ?thesis
  proof (cases "attr_struct a")
    case (StunAttributeAddress ip)
    then show ?thesis
      using s t convert_address_wire [OF s StunAttributeAddress t(1) b]
      by (simp add: convert_attribute_def sendable_def received_attr_def Let_def)
  next
    case (StunAttributeIceControl c)
    define u where "u = (if g then take 8 c else rev (take 8 c))"
    have c: "length c = 12" "wire_value g tid a = u" "length u = 8" using s StunAttributeIceControl
      by (auto simp: sendable_def Let_def wire_value_def u_def)
    obtain x where "native64 g (u @ post) 0 = Some x" "nativebytes64 g (getInt64 g x) = (if g then u else rev u)"
      using swap64_bytes [of "u @ post" g] c(3) by (simp add: ac_simps split: if_splits) blast+
    moreover have "(if g then u else rev u) = take 8 c" by (simp add: u_def)
    ultimately show ?thesis using s c val(4) StunAttributeIceControl
      by (auto simp: convert_attribute_def sendable_def received_attr_def Let_def load64_def is_address_type_def)
  next
    case (StunAttributePadded pl c)
    then show ?thesis using s read
      by (auto simp: convert_attribute_def sendable_def received_attr_def Let_def wire_value_def is_address_type_def)
  next
    case (StunAttributeWord w)
    then show ?thesis using s val(3)
      by (auto simp: convert_attribute_def sendable_def received_attr_def Let_def wire_value_def is_address_type_def)
  next
    case (StunAttributeBytes4 c)
    then show ?thesis using s read
      by (auto simp: convert_attribute_def sendable_def received_attr_def Let_def wire_value_def is_address_type_def)
  next
    case (StunAttributeChannelNumber n r)
    then show ?thesis using s val(2)
      by (auto simp: convert_attribute_def sendable_def received_attr_def Let_def wire_value_def is_address_type_def)
  qed (use s in \<open>auto simp: convert_attribute_def sendable_def received_attr_def Let_def is_address_type_def\<close>)
qed

lemma check_length_types:
  "check_length g b pos USERNAME len = Some (if len \<le> 512 then STATUS_SUCCESS else STATUS_STUN_INVALID_USERNAME_ATTRIBUTE_LENGTH)"
  "check_length g b pos REALM len = Some (if len \<le> 128 then STATUS_SUCCESS else STATUS_STUN_INVALID_REALM_ATTRIBUTE_LENGTH)"
  "check_length g b pos NONCE len = Some (if len \<le> 128 then STATUS_SUCCESS else STATUS_STUN_INVALID_NONCE_ATTRIBUTE_LENGTH)"
  "check_length g b pos DATA len = Some STATUS_SUCCESS"
  "check_length g b pos PRIORITY 4 = Some STATUS_SUCCESS"
  "check_length g b pos LIFETIME 4 = Some STATUS_SUCCESS"
  "check_length g b pos CHANGE_REQUEST 4 = Some STATUS_SUCCESS"
  "check_length g b pos REQUESTED_TRANSPORT 4 = Some STATUS_SUCCESS"
  "check_length g b pos CHANNEL_NUMBER 4 = Some STATUS_SUCCESS"
  "check_length g b pos USE_CANDIDATE 0 = Some STATUS_SUCCESS"
  "check_length g b pos DONT_FRAGMENT 0 = Some STATUS_SUCCESS"
  "check_length g b pos ICE_CONTROLLED 8 = Some STATUS_SUCCESS"
  "check_length g b pos ICE_CONTROLLING 8 = Some STATUS_SUCCESS"
  "check_length g b pos MESSAGE_INTEGRITY 20 = Some STATUS_SUCCESS"
  "check_length g b pos FINGERPRINT 4 = Some STATUS_SUCCESS"
  by (simp_all add: check_length_def is_address_type_def)

lemma check_length_wire:
  assumes s: "sendable g a" and t: "length tid = 12" and b: "b = pre @ wire g tid a @ post" "pos = length pre"
  shows "check_length g b pos (attr_type a) (attr_length a) = Some STATUS_SUCCESS"
proof (cases "attr_struct a")
  case (StunAttributeAddress ip)
  have "getUnalignedInt16Be b (pos + 4) = getUnalignedInt16Be (wire_value g tid a @ post) 0"
    using b get_shift_add [of "pre @ be16 (attr_type a) @ be16 (attr_length a)" _ 0] by (simp add: wire_def)
  then show ?thesis using s t StunAttributeAddress
    by (auto simp: check_length_def sendable_def Let_def wire_value_def wire_address_def IS_IPV4_ADDR_def)
qed (use s in \<open>auto simp: sendable_def Let_def check_length_types\<close>)

lemma sendable_known:
  assumes "sendable g a"
  shows "is_known_type (attr_type a)" "attr_type a \<noteq> MESSAGE_INTEGRITY" "attr_type a \<noteq> FINGERPRINT"
  using assms by (cases "attr_struct a"; auto simp: sendable_def Let_def is_address_type_def is_known_type_def)+

end
