(* ===== verification/StunParse.thy ===== *)
theory StunParse
  imports StunAttr
begin

text \<open>
  Parsing of STUN messages: the two loops of \<open>deserializeStunPacket\<close> over the attributes.

  \<open>attr_walk\<close> lists the attributes of a message as both loops visit them; the loops are shown to be
  recursions over that list (\<open>count_list\<close>, \<open>convert_list\<close>). On a message that
  \<open>serializeStunPacket\<close> has written they return the attributes that were sent
  (\<open>packet_roundtrip\<close>).
\<close>

section \<open>The attributes of a message\<close>

inductive attr_walk :: "bool \<Rightarrow> bytes \<Rightarrow> nat \<Rightarrow> nat \<Rightarrow> (nat \<times> u16 \<times> u16) list \<Rightarrow> bool"
  for isBig :: bool and b :: bytes and end_pos :: nat where
  attr_walk_end: "end_pos \<le> pos \<Longrightarrow> attr_walk isBig b end_pos pos []"
| attr_walk_step: "pos < end_pos \<Longrightarrow> load16 isBig b pos = Some ty \<Longrightarrow> load16 isBig b (pos + 2) = Some len \<Longrightarrow>
    attr_walk isBig b end_pos (pos + 4 + unat (padded_length len)) w \<Longrightarrow> attr_walk isBig b end_pos pos ((pos, ty, len) # w)"

fun count_list ::
  "bool \<Rightarrow> bytes \<Rightarrow> (nat \<times> u16 \<times> u16) list \<Rightarrow> u32 \<Rightarrow> u32 \<Rightarrow> bool \<Rightarrow> bool \<Rightarrow> (STATUS \<times> u32 \<times> u32) option" where
  "count_list isBig b [] count allocation fpFound miFound = Some (STATUS_SUCCESS, count, allocation)"
| "count_list isBig b ((pos, ty, len) # w) count allocation fpFound miFound =
     do { status \<leftarrow> check_length isBig b pos ty len;
          if status \<noteq> STATUS_SUCCESS then Some (status, count, allocation)
          else case check_order ty fpFound miFound of (status, fpFound, miFound) \<Rightarrow>
            if status \<noteq> STATUS_SUCCESS then Some (status, count, allocation)
            else let count = (if is_known_type ty then count else count - 1) + 1;
                     allocation = allocation + attribute_size ty len
                 in if 20 < count then Some (STATUS_STUN_MAX_ATTRIBUTE_COUNT, count, allocation)
                    else count_list isBig b w count allocation fpFound miFound }"

lemma count_attributes_walk:
  "attr_walk g b e pos w \<Longrightarrow> count_attributes g b pos e c al fp mi = count_list g b w c al fp mi"
proof (induction arbitrary: c al fp mi rule: attr_walk.induct)
  case (attr_walk_end pos)
  then show ?case by (subst count_attributes.simps) simp
next
  case (attr_walk_step pos ty len w)
  then show ?case
    by (subst count_attributes.simps) (simp add: Let_def split: prod.splits Option.bind_split del: load_be)
qed

fun convert_list ::
  "bool \<Rightarrow> (bytes \<Rightarrow> bytes \<Rightarrow> bytes option) \<Rightarrow> bytes option \<Rightarrow> StunHeader \<Rightarrow> nat \<Rightarrow> nat \<Rightarrow> bytes \<Rightarrow> (nat \<times> u16 \<times> u16) list \<Rightarrow> nat \<Rightarrow>
   nat list \<Rightarrow> (nat \<rightharpoonup> StunAttribute) \<Rightarrow> (STATUS \<times> nat list \<times> (nat \<rightharpoonup> StunAttribute) \<times> bytes) option" where
  "convert_list isBig hmac password h count allocation b [] dest offs m = Some (STATUS_SUCCESS, offs, m, b)"
| "convert_list isBig hmac password h count allocation b ((pos, ty, len) # w) dest offs m =
     (if count \<le> length offs then Some (STATUS_SUCCESS, offs, m, b)
      else if allocation < dest + 4 \<or> allocation < dest + unat (attribute_size ty len) then None
      else do {
        (status, c, b') \<leftarrow> convert_attribute isBig hmac password h b pos ty len;
        if status \<noteq> STATUS_SUCCESS then Some (status, offs @ [dest], m, b')
        else convert_list isBig hmac password h count allocation b w
               (dest + unat (attribute_size ty len)) (offs @ [dest])
               (m(dest \<mapsto> \<lparr>attr_type = ty, attr_length = len, attr_struct = c\<rparr>)) })"

text \<open>A successful step leaves the message as it was, since the length field is restored.\<close>

lemma restore_length:
  assumes "getUnalignedInt16Be b 2 = Some v" "memwrite b 2 (be16 w) = Some b1" "memwrite b1 2 (be16 v) = Some b2"
  shows "b2 = b"
proof -
  have "4 \<le> length b" using assms(2) by (simp add: memwrite_def split: if_splits)
  then obtain a0 a1 a2 a3 r where b: "b = a0 # a1 # a2 # a3 # r" using list_split4 by blast
  have "be16 v = [a2, a3]"
    using assms(1) unfolding b by (auto simp: getUnalignedInt16Be_def memget_def be16_def)
  then show ?thesis
    using assms(2,3) unfolding b by (auto simp: memwrite_def bsplice_def be16_def numeral_2_eq_2 split: if_splits)
qed

lemma convert_attribute_restores:
  assumes "getUnalignedInt16Be b 2 = Some (messageLength h)"
    "convert_attribute g hmac password h b pos ty len = Some (status, c, b')" "status \<noteq> STATUS_HMAC_GENERATION_ERROR"
  shows "b' = b"
proof (cases "ty = MESSAGE_INTEGRITY \<or> ty = FINGERPRINT")
  case True
  then show ?thesis
    using assms
    by (auto simp: convert_attribute_def verify_integrity_def verify_fingerprint_def is_address_type_def Let_def
        bind_Some_iff split: option.splits if_splits intro: restore_length)
next
  case False
  then show ?thesis
    using assms(2) by (auto simp: convert_attribute_def Let_def bind_Some_iff split: if_splits)
qed

lemma convert_attributes_walk:
  assumes "attr_walk g b e pos w" "getUnalignedInt16Be b 2 = Some (messageLength h)"
  shows "convert_attributes g hmac pw h count al b pos e dest offs m = convert_list g hmac pw h count al b w dest offs m"
  using assms
proof (induction arbitrary: dest offs m rule: attr_walk.induct)
  case (attr_walk_end pos)
  then show ?case by (subst convert_attributes.simps) simp
next
  case (attr_walk_step pos ty len w)
  show ?case
  proof (cases "convert_attribute g hmac pw h b pos ty len")
    case None
    then show ?thesis using attr_walk_step.hyps
      by (subst convert_attributes.simps) (simp del: load_be)
  next
    case (Some r)
    obtain status c b' where r: "r = (status, c, b')" by (cases r)
    then have "status = STATUS_SUCCESS \<Longrightarrow> b' = b"
      using convert_attribute_restores [OF attr_walk_step.prems] Some by simp
    then show ?thesis using attr_walk_step Some r
      by (subst convert_attributes.simps) (simp del: load_be)
  qed
qed

section \<open>The loops on a list of attributes\<close>

definition entry_size :: "nat \<times> u16 \<times> u16 \<Rightarrow> nat" where
  "entry_size x = (case x of (pos, ty, len) \<Rightarrow> unat (attribute_size ty len))"

definition total_size :: "(nat \<times> u16 \<times> u16) list \<Rightarrow> nat" where
  "total_size w = sum_list (map entry_size w)"

lemma total_size_simps [simp]:
  "total_size [] = 0" "total_size (x # w) = entry_size x + total_size w" "total_size (v @ w) = total_size v + total_size w"
  by (simp_all add: total_size_def)

lemma padded_size: "unat (16 + ucast pl :: u32) = 16 + unat (pl :: u16)"
proof -
  have "unat pl < 65536" using unsigned_less [of pl, where ?'a = nat] by simp
  then have "unat (16 :: u32) + unat (ucast pl :: u32) < 2 ^ 32" "unat (ucast pl :: u32) = unat pl"
    by (simp_all add: unsigned_ucast_eq take_bit_nat_eq_self)
  then show ?thesis by (simp add: unat_word_ariths)
qed

lemma attribute_size_known: "is_known_type ty \<Longrightarrow> 4 \<le> unat (attribute_size ty len)"
  by (auto simp: attribute_size_def is_known_type_def padded_size)

lemma attribute_size_unknown: "\<not> is_known_type ty \<Longrightarrow> attribute_size ty len = 0"
  by (auto simp: attribute_size_def is_known_type_def)

lemma attribute_size_bound: "unat (attribute_size ty len) < 65552"
  using unsigned_less [of "padded_length len", where ?'a = nat] by (simp add: attribute_size_def padded_size)

lemma total_size_bound: "total_size w \<le> 65551 * length w"
proof (induction w)
  case (Cons x w)
  obtain pos ty len where "x = (pos, ty, len)" by (cases x)
  then show ?case using Cons attribute_size_bound [of ty len] by (simp add: entry_size_def)
qed simp

text \<open>The first loop, as long as it does not meet one of the two attributes that end a message.\<close>

lemma count_list_plain:
  assumes "\<forall>(pos, ty, len) \<in> set w. check_length g b pos ty len = Some STATUS_SUCCESS \<and> is_known_type ty \<and>
      ty \<noteq> MESSAGE_INTEGRITY \<and> ty \<noteq> FINGERPRINT" "unat c + length w \<le> 20"
  shows "count_list g b (w @ w') c al False False =
    count_list g b w' (c + word_of_nat (length w)) (al + word_of_nat (total_size w)) False False"
  using assms
proof (induction w arbitrary: c al)
  case (Cons x w)
  obtain pos ty len where x: "x = (pos, ty, len)" by (cases x)
  have c: "unat (c + 1) = unat c + 1" using Cons.prems(2) by (simp add: unat_word_ariths)
  then have "\<not> 20 < c + 1" using Cons.prems(2) by (simp add: word_less_nat_alt)
  then show ?case
    using Cons.IH [of "c + 1" "al + attribute_size ty len"] Cons.prems x c
    by (simp add: check_order_def Let_def entry_size_def ac_simps)
qed simp

text \<open>The second loop, when every attribute is read.\<close>

lemma convert_list_all:
  assumes "list_all2 (\<lambda>(pos, ty, len) c. convert_attribute g hmac pw h b pos ty len = Some (STATUS_SUCCESS, c, b) \<and> is_known_type ty) w cs"
    "length offs + length w \<le> count" "dest + total_size w \<le> al"
    "list_all2 (\<lambda>off a. m off = Some a) offs as" "\<forall>off \<in> set offs. off < dest"
  shows "\<exists>offs' m'. convert_list g hmac pw h count al b w dest offs m = Some (STATUS_SUCCESS, offs', m', b) \<and>
    list_all2 (\<lambda>off a. m' off = Some a) offs'
      (as @ map (\<lambda>((pos, ty, len), c). \<lparr>attr_type = ty, attr_length = len, attr_struct = c\<rparr>) (zip w cs))"
  using assms
proof (induction w cs arbitrary: dest offs m as rule: list_all2_induct)
  case (Cons x w c cs)
  obtain pos ty len where x: "x = (pos, ty, len)" by (cases x)
  let ?a = "\<lparr>attr_type = ty, attr_length = len, attr_struct = c\<rparr>"
  have conv: "convert_attribute g hmac pw h b pos ty len = Some (STATUS_SUCCESS, c, b)" and four: "4 \<le> unat (attribute_size ty len)"
    using Cons.hyps x attribute_size_known by auto
  have "list_all2 (\<lambda>off a. (m(dest \<mapsto> ?a)) off = Some a) offs as"
    by (rule list.rel_mono_strong [OF Cons.prems(3)]) (use Cons.prems(4) in auto)
  then have "list_all2 (\<lambda>off a. (m(dest \<mapsto> ?a)) off = Some a) (offs @ [dest]) (as @ [?a])"
    by (intro list_all2_appendI) simp_all
  then have "\<exists>offs' m'. convert_list g hmac pw h count al b w (dest + unat (attribute_size ty len)) (offs @ [dest]) (m(dest \<mapsto> ?a)) =
      Some (STATUS_SUCCESS, offs', m', b) \<and> list_all2 (\<lambda>off a. m' off = Some a) offs'
        ((as @ [?a]) @ map (\<lambda>((pos, ty, len), c). \<lparr>attr_type = ty, attr_length = len, attr_struct = c\<rparr>) (zip w cs))"
    using Cons.prems four x by (intro Cons.IH) (auto simp: entry_size_def)
  then show ?case
    using Cons.prems conv four x by (simp add: entry_size_def del: fun_upd_apply)
qed simp

section \<open>Reading a message back\<close>

lemma set_length_field:
  assumes "length tid = 12"
  shows "memwrite (header_for ty tid n @ r) 2 (be16 (word_of_nat k)) = Some (header_for ty tid k @ r)"
  using put_length_field [of tid "be16 (word_of_nat n)" r "header_for ty tid n @ r" ty] assms
  by (simp add: header_for_def bsplice_def)

lemma verify_integrity_ok:
  assumes "length tid = 12" "length d = 20" "hmac key (header_for ty tid (length body + 24) @ body) = Some d" "key \<noteq> []"
    "20 + length body < 65536" "b = header_for ty tid n @ body @ integrity_part d @ post" "pos = 20 + length body"
  shows "verify_integrity g hmac (Some key) (word_of_nat n) b pos = Some (STATUS_SUCCESS, StunAttributeMessageIntegrity d, b)"
proof -
  let ?b = "header_for ty tid (length body + 24) @ body @ integrity_part d @ post"
  have set: "memwrite b 2 (be16 (word_of_nat (length body + 24))) = Some ?b"
      "memwrite ?b 2 (be16 (word_of_nat n)) = Some b"
    unfolding assms(6) by (rule set_length_field [OF assms(1)])+
  have read: "memread ?b 0 (unat (word_of_nat pos :: u16)) = Some (header_for ty tid (length body + 24) @ body)"
    unfolding unat_small16 [OF assms(5) [folded assms(7)]] using assms(1,7) by (simp add: memread_def)
  have digest: "memread b (pos + 4) 20 = Some d"
    using assms(1,2,6,7) by (simp add: memread_def integrity_part_def)
  show ?thesis
    using set read digest assms(2,3,4,7)
    by (simp add: verify_integrity_def add.commute [of "length body"])
qed

lemma verify_fingerprint_ok:
  assumes "length tid = 12" "20 + length body < 65536"
    "b = header_for ty tid n @ body @ fingerprint_part ty tid body @ post" "pos = 20 + length body"
  shows "\<exists>v. verify_fingerprint g (word_of_nat n) b pos = Some (STATUS_SUCCESS, StunAttributeWord v, b)"
proof -
  let ?b = "header_for ty tid (length body + 8) @ body @ fingerprint_part ty tid body @ post"
  let ?v = "COMPUTE_CRC32 (header_for ty tid (length body + 8) @ body) XOR STUN_FINGERPRINT_XOR_VALUE"
  have set: "memwrite b 2 (be16 (word_of_nat (length body + 8))) = Some ?b"
      "memwrite ?b 2 (be16 (word_of_nat n)) = Some b"
    unfolding assms(3) by (rule set_length_field [OF assms(1)])+
  have read: "memread ?b 0 (unat (word_of_nat pos :: u16)) = Some (header_for ty tid (length body + 8) @ body)"
    unfolding unat_small16 [OF assms(2) [folded assms(4)]] using assms(1,4) by (simp add: memread_def)
  have "getUnalignedInt32Be b (pos + 4) = Some ?v"
    using assms(1,3,4) get_shift_add(2) [of "header_for ty tid n @ body @ be16 FINGERPRINT @ be16 4" _ 0]
    by (simp add: fingerprint_part_def)
  then show ?thesis
    using set read assms(4) by (simp add: verify_fingerprint_def add.commute [of "length body"])
qed

text \<open>The positions of the attributes of a message that was written.\<close>

fun entries :: "bool \<Rightarrow> bytes \<Rightarrow> nat \<Rightarrow> StunAttribute list \<Rightarrow> (nat \<times> u16 \<times> u16) list" where
  "entries isBig tid pos [] = []"
| "entries isBig tid pos (a # as) = (pos, attr_type a, attr_length a) # entries isBig tid (pos + length (wire isBig tid a)) as"

lemma length_entries [simp]: "length (entries g tid pos as) = length as"
  by (induction as arbitrary: pos) simp_all

lemma walk_part:
  assumes "b = pre @ be16 ty @ be16 len @ v @ post" "length v = unat (padded_length len)" "length pre < e"
    "attr_walk g b e (length pre + 4 + length v) w"
  shows "attr_walk g b e (length pre) ((length pre, ty, len) # w)"
proof (rule attr_walk_step [OF assms(3)])
  show "load16 g b (length pre) = Some ty" "load16 g b (length pre + 2) = Some len"
    using assms(1) get_shift_add(1) [of pre _ 0] get_shift_add(1) [of pre _ 2] by (simp_all add: get_Be_shift)
  show "attr_walk g b e (length pre + 4 + unat (padded_length len)) w" using assms(2,4) by simp
qed

lemma walk_wires:
  assumes "\<forall>a \<in> set as. sendable g a" "length tid = 12" "b = pre @ wires g tid as @ post"
    "length pre + length (wires g tid as) \<le> e" "attr_walk g b e (length pre + length (wires g tid as)) w"
  shows "attr_walk g b e (length pre) (entries g tid (length pre) as @ w)"
  using assms
proof (induction as arbitrary: pre)
  case (Cons a as)
  have len: "length (wire g tid a) = 4 + length (wire_value g tid a)" by (simp add: wire_def)
  have b: "b = pre @ be16 (attr_type a) @ be16 (attr_length a) @ wire_value g tid a @ (wires g tid as @ post)"
    using Cons.prems(3) by (simp add: wire_def)
  have "attr_walk g b e (length (pre @ wire g tid a)) (entries g tid (length (pre @ wire g tid a)) as @ w)"
    using Cons.prems by (intro Cons.IH) (simp_all add: add.assoc)
  then have rest: "attr_walk g b e (length pre + 4 + length (wire_value g tid a)) (entries g tid (length pre + length (wire g tid a)) as @ w)"
    using len by (simp add: add.assoc)
  have "length pre < e" using Cons.prems(4) len by simp
  then show ?case
    using walk_part [OF b _ _ rest] length_wire_value [of g a tid] Cons.prems(1,2) by simp
qed simp

lemma entries_converted:
  assumes "\<forall>a \<in> set as. sendable g a" "length tid = 12" "transactionId h = tid" "b = pre @ wires g tid as @ post"
  shows "list_all2 (\<lambda>(pos, ty, len) c. convert_attribute g hmac pw h b pos ty len = Some (STATUS_SUCCESS, c, b) \<and> is_known_type ty)
      (entries g tid (length pre) as) (map (\<lambda>a. attr_struct (received_attr g tid a)) as)"
  using assms
proof (induction as arbitrary: pre)
  case (Cons a as)
  have b: "b = pre @ wire g tid a @ wires g tid as @ post" using Cons.prems by simp
  have "convert_attribute g hmac pw h b (length pre) (attr_type a) (attr_length a) = Some (STATUS_SUCCESS, attr_struct (received_attr g tid a), b)"
    using Cons.prems by (intro convert_wire [OF _ _ _ b]) simp_all
  then show ?case
    using Cons.IH [of "pre @ wire g tid a"] Cons.prems b sendable_known [of g a] by simp
qed simp

lemma entries_checked:
  assumes "\<forall>a \<in> set as. sendable g a" "length tid = 12" "b = pre @ wires g tid as @ post"
  shows "\<forall>(pos, ty, len) \<in> set (entries g tid (length pre) as). check_length g b pos ty len = Some STATUS_SUCCESS \<and>
      is_known_type ty \<and> ty \<noteq> MESSAGE_INTEGRITY \<and> ty \<noteq> FINGERPRINT"
  using assms
proof (induction as arbitrary: pre)
  case (Cons a as)
  have b: "b = pre @ wire g tid a @ wires g tid as @ post" using Cons.prems by simp
  have "check_length g b (length pre) (attr_type a) (attr_length a) = Some STATUS_SUCCESS"
    using Cons.prems by (intro check_length_wire [OF _ _ b]) simp_all
  then show ?case
    using Cons.IH [of "pre @ wire g tid a"] Cons.prems b sendable_known [of g a] by simp
qed simp

text \<open>The two attributes at the end.\<close>

definition tail_entries :: "nat \<Rightarrow> bool \<Rightarrow> bool \<Rightarrow> (nat \<times> u16 \<times> u16) list" where
  "tail_entries pos mi fp = (if mi then [(pos, MESSAGE_INTEGRITY, 20)] else []) @
     (if fp then [(pos + (if mi then 24 else 0), FINGERPRINT, 4)] else [])"

lemma walk_tail:
  assumes "b = pre @ tail_parts ty tid digest fp body @ post" "\<And>d. digest = Some d \<Longrightarrow> length d = 20"
  shows "attr_walk g b (length pre + length (tail_parts ty tid digest fp body)) (length pre) (tail_entries (length pre) (digest \<noteq> None) fp)"
proof -
  define mi where "mi = (case digest of None \<Rightarrow> [] | Some d \<Rightarrow> integrity_part d)"
  let ?e = "length pre + length (tail_parts ty tid digest fp body)"
  have mi: "length mi = (if digest \<noteq> None then 24 else 0)" using assms(2) by (auto simp: mi_def split: option.splits)
  have e: "?e = length pre + length mi + (if fp then 8 else 0)" by (simp add: tail_parts_def mi_def [symmetric] Let_def)
  have fpw: "attr_walk g b ?e (length (pre @ mi)) (if fp then [(length (pre @ mi), FINGERPRINT, 4)] else [])"
  proof (cases fp)
    case True
    obtain v where "fingerprint_part ty tid (body @ mi) = be16 FINGERPRINT @ be16 4 @ be32 v"
      by (simp add: fingerprint_part_def)
    then have "b = (pre @ mi) @ be16 FINGERPRINT @ be16 4 @ be32 v @ post"
      using assms(1) True by (simp add: tail_parts_def mi_def [symmetric] Let_def)
    then have "attr_walk g b ?e (length (pre @ mi)) ((length (pre @ mi), FINGERPRINT, 4) # [])"
      by (rule walk_part) (use e True in \<open>simp_all add: attr_walk_end\<close>)
    then show ?thesis using True by simp
  next
    case False
    then show ?thesis using e by (simp add: attr_walk_end)
  qed
  show ?thesis
  proof (cases digest)
    case None
    then show ?thesis using fpw mi by (cases fp) (simp_all add: tail_entries_def)
  next
    case (Some d)
    have "b = pre @ be16 MESSAGE_INTEGRITY @ be16 20 @ d @ ((if fp then fingerprint_part ty tid (body @ mi) else []) @ post)"
      using assms(1) Some by (simp add: tail_parts_def mi_def integrity_part_def Let_def)
    then have "attr_walk g b ?e (length pre) ((length pre, MESSAGE_INTEGRITY, 20) # (if fp then [(length (pre @ mi), FINGERPRINT, 4)] else []))"
      by (rule walk_part) (use assms(2) Some fpw mi e in \<open>simp_all add: add.assoc\<close>)
    then show ?thesis using Some mi by (cases fp) (simp_all add: tail_entries_def)
  qed
qed

lemma count_tail:
  assumes "unat c + length (tail_entries pos mi fp) \<le> 20"
  shows "count_list g b (tail_entries pos mi fp) c al False False =
    Some (STATUS_SUCCESS, c + word_of_nat (length (tail_entries pos mi fp)), al + word_of_nat (total_size (tail_entries pos mi fp)))"
proof -
  have small: "\<not> 20 < c + 1" if "unat c + 1 \<le> 20" for c :: u32
    using that by (simp add: word_less_nat_alt unat_word_ariths)
  have c1: "unat (c + 1) = unat c + 1" if "unat c + 1 \<le> 20"
    using that by (simp add: unat_word_ariths)
  show ?thesis
    using assms small [of c] small [of "c + 1"] c1
    by (auto simp: tail_entries_def check_length_types check_order_def Let_def is_known_type_def entry_size_def
        attribute_size_def is_address_type_def add.assoc)
qed

lemma tail_converted:
  assumes "length tid = 12" "digest_for hmac password ty tid body digest"
    "20 + length (body @ tail_parts ty tid digest fp body) < 65536"
    "b = header_for ty tid n @ body @ tail_parts ty tid digest fp body @ post" "messageLength h = word_of_nat n"
  shows "\<exists>cs. list_all2 (\<lambda>(pos, t, len) c. convert_attribute g hmac password h b pos t len = Some (STATUS_SUCCESS, c, b) \<and> is_known_type t)
    (tail_entries (20 + length body) (digest \<noteq> None) fp) cs"
proof -
  define mi where "mi = (case digest of None \<Rightarrow> [] | Some d \<Rightarrow> integrity_part d)"
  have mi: "length mi = (if digest \<noteq> None then 24 else 0)"
    using digest_for_length [OF assms(2)] by (auto simp: mi_def split: option.splits)
  have tail: "tail_parts ty tid digest fp body = mi @ (if fp then fingerprint_part ty tid (body @ mi) else [])"
    by (simp add: tail_parts_def mi_def Let_def)
  have dispatch: "convert_attribute g hmac password h b pos MESSAGE_INTEGRITY len = verify_integrity g hmac password (messageLength h) b pos"
      "convert_attribute g hmac password h b pos FINGERPRINT len = verify_fingerprint g (messageLength h) b pos" for pos len
    by (simp_all add: convert_attribute_def is_address_type_def)
  have known: "is_known_type MESSAGE_INTEGRITY" "is_known_type FINGERPRINT" by (simp_all add: is_known_type_def)
  have integrity: "\<exists>c. verify_integrity g hmac password (messageLength h) b (20 + length body) = Some (STATUS_SUCCESS, c, b)"
    if "digest \<noteq> None"
  proof -
    from that obtain key d where k: "password = Some key" "digest = Some d" "length d = 20" "key \<noteq> []"
        "hmac key (header_for ty tid (length body + 24) @ body) = Some d"
      using assms(2) by (cases password) (auto simp: digest_for_def)
    have b: "b = header_for ty tid n @ body @ integrity_part d @ (if fp then fingerprint_part ty tid (body @ mi) else []) @ post"
      using assms(4) k(2) unfolding tail by (simp add: mi_def)
    show ?thesis
      using verify_integrity_ok [of tid d hmac key ty body b n _ "20 + length body" g] k assms(1,3,5) b by auto
  qed
  have fingerprint: "\<exists>c. verify_fingerprint g (messageLength h) b (20 + length (body @ mi)) = Some (STATUS_SUCCESS, c, b)" if fp
  proof -
    have "b = header_for ty tid n @ (body @ mi) @ fingerprint_part ty tid (body @ mi) @ post" "20 + length (body @ mi) < 65536"
      using assms(3,4) that unfolding tail by simp_all
    then show ?thesis
      using verify_fingerprint_ok [OF assms(1), of "body @ mi" b ty n post "20 + length (body @ mi)" g] assms(5) by auto
  qed
  from integrity fingerprint show ?thesis
    using mi by (cases "digest = None"; cases fp; fastforce simp: tail_entries_def dispatch known list_all2_Cons1)
qed

lemma message_fields:
  assumes "length tid = 12"
  shows "load16 g (header_for ty tid n @ r) 0 = Some ty" "load16 g (header_for ty tid n @ r) 2 = Some (word_of_nat n)"
    "load32 g (header_for ty tid n @ r) 4 = Some STUN_HEADER_MAGIC_COOKIE" "memread (header_for ty tid n @ r) 8 12 = Some tid"
  using assms by (simp_all add: header_for_def stun_header_def get_Be_shift memread_def)

text \<open>The allocation that the first loop computes.\<close>

lemma unat_allocation:
  assumes "length w \<le> 20"
  shows "unat (40 + word_of_nat (total_size w) + word_of_nat (length w) * 8 :: u32) = 40 + total_size w + 8 * length w"
proof -
  have "total_size w \<le> 65551 * 20" using total_size_bound [of w] assms by (meson le_trans mult_le_mono2)
  then have "40 + total_size w + 8 * length w < 2 ^ 32" using assms by simp
  then have "unat (word_of_nat (40 + total_size w + 8 * length w) :: u32) = 40 + total_size w + 8 * length w"
    by (rule unat_small32)
  moreover have "(word_of_nat (40 + total_size w + 8 * length w) :: u32) = 40 + word_of_nat (total_size w) + word_of_nat (length w) * 8"
    by (simp only: of_nat_add of_nat_mult of_nat_numeral mult.commute)
  ultimately show ?thesis by metis
qed

lemma ucast_16_32: "n < 65536 \<Longrightarrow> (ucast (word_of_nat n :: u16) :: u32) = word_of_nat n"
  by (simp add: unsigned_of_nat take_bit_nat_eq_self)

lemma entries_attributes:
  "map (\<lambda>((pos, ty, len), c). \<lparr>attr_type = ty, attr_length = len, attr_struct = c\<rparr>)
     (zip (entries g tid pos as) (map (\<lambda>a. attr_struct (received_attr g tid a)) as)) = map (received_attr g tid) as"
  by (induction as arbitrary: pos) (simp_all add: received_attr_def)

lemma tail_attributes:
  assumes "length cs = length (tail_entries pos mi fp)"
  shows "map (\<lambda>a. attr_type a) (map (\<lambda>((pos, ty, len), c). \<lparr>attr_type = ty, attr_length = len, attr_struct = c\<rparr>)
     (zip (tail_entries pos mi fp) cs)) = (if mi then [MESSAGE_INTEGRITY] else []) @ (if fp then [FINGERPRINT] else [])"
  using assms by (cases mi; cases fp; auto simp: tail_entries_def length_Suc_conv)

lemma deserialize_message:
  assumes s: "\<forall>a \<in> set as. sendable g a" and t: "length tid = 12"
    and body: "body = wires g tid as" and dig: "digest_for hmac password ty tid body digest"
    and n: "length as + (if digest = None then 0 else 1) + (if fp then 1 else 0) \<le> 20"
    and len: "length (stun_message ty tid digest fp body) < 65536"
    and b: "b = stun_message ty tid digest fp body @ post" and size: "bufferSize = word_of_nat (length (stun_message ty tid digest fp body))"
  shows "\<exists>p' rs. deserializeStunPacket g hmac True (Some b) bufferSize password = Some (STATUS_SUCCESS, Some p', Some b) \<and>
    stunMessageType (stunHeader p') = ty \<and> transactionId (stunHeader p') = tid \<and>
    unat (attributesCount p') = length (attributeList p') \<and>
    list_all2 (\<lambda>off a. attrs p' off = Some a) (attributeList p') (map (received_attr g tid) as @ rs) \<and>
    map attr_type rs = (if digest = None then [] else [MESSAGE_INTEGRITY]) @ (if fp then [FINGERPRINT] else [])"
proof -
  define tp where "tp = tail_parts ty tid digest fp body"
  let ?r = "body @ tp"
  define N where "N = length ?r"
  have m: "stun_message ty tid digest fp body = header_for ty tid N @ ?r" by (simp add: stun_message_def tp_def Let_def N_def)
  have b': "b = header_for ty tid N @ ?r @ post" using b m by simp
  have N: "20 + N < 65536" "unat (word_of_nat N :: u16) = N"
  proof -
    show "20 + N < 65536" using len t unfolding m by (simp add: N_def)
    then show "unat (word_of_nat N :: u16) = N" by (intro unat_small16) linarith
  qed
  let ?te = "tail_entries (20 + length body) (digest \<noteq> None) fp"
  let ?w = "entries g tid 20 as @ ?te"
  have wl: "length ?w \<le> 20" using n by (simp add: tail_entries_def split: if_splits)
  have bw: "b = header_for ty tid N @ wires g tid as @ (tp @ post)" using b' body by simp
  have bt: "b = (header_for ty tid N @ body) @ tail_parts ty tid digest fp body @ post" using b' by (simp add: tp_def)
  have "attr_walk g b (20 + N) (20 + length (wires g tid as)) ?te"
    using walk_tail [OF bt digest_for_length [OF dig], of g] t body by (simp add: tp_def N_def add.assoc)
  then have attr_walk: "attr_walk g b (20 + N) 20 ?w"
    using walk_wires [OF s t bw, of "20 + N" ?te] t body by (simp add: N_def)
  have "count_list g b ?w 0 40 False False =
      count_list g b ?te (0 + word_of_nat (length as)) (40 + word_of_nat (total_size (entries g tid 20 as))) False False"
    using count_list_plain [of "entries g tid 20 as" g b 0 ?te 40] entries_checked [OF s t bw] t wl by simp
  also have "\<dots> = Some (STATUS_SUCCESS, word_of_nat (length ?w), 40 + word_of_nat (total_size ?w))"
    using count_tail [of "0 + word_of_nat (length as)" "20 + length body" "digest \<noteq> None" fp g b] wl
    by (simp add: unat_small32 add.assoc)
  finally have count: "count_attributes g b 20 (20 + N) 0 40 False False = Some (STATUS_SUCCESS, word_of_nat (length ?w), 40 + word_of_nat (total_size ?w))"
    using count_attributes_walk [OF attr_walk] by simp
  define h where "h = \<lparr>stunMessageType = ty, messageLength = word_of_nat N, magicCookie = STUN_HEADER_MAGIC_COOKIE, transactionId = tid\<rparr>"
  have bt': "b = header_for ty tid N @ body @ tail_parts ty tid digest fp body @ post" using bt by simp
  obtain cs where cs: "list_all2 (\<lambda>(pos, t, len) c. convert_attribute g hmac password h b pos t len = Some (STATUS_SUCCESS, c, b) \<and> is_known_type t) ?te cs"
    using tail_converted [OF t dig _ bt', of h g] N(1) by (auto simp: h_def tp_def N_def)
  have "list_all2 (\<lambda>(pos, t, len) c. convert_attribute g hmac password h b pos t len = Some (STATUS_SUCCESS, c, b) \<and> is_known_type t)
      (entries g tid 20 as) (map (\<lambda>a. attr_struct (received_attr g tid a)) as)"
    using entries_converted [OF s t _ bw, of h hmac password] t by (simp add: h_def)
  from list_all2_appendI [OF this cs] have all: "list_all2 (\<lambda>(pos, t, len) c. convert_attribute g hmac password h b pos t len = Some (STATUS_SUCCESS, c, b) \<and>
      is_known_type t) ?w (map (\<lambda>a. attr_struct (received_attr g tid a)) as @ cs)" .
  let ?dest = "40 + 8 * length ?w" and ?al = "40 + total_size ?w + 8 * length ?w"
  define rs where "rs = map (\<lambda>((pos, ty, len), c). \<lparr>attr_type = ty, attr_length = len, attr_struct = c\<rparr>) (zip ?te cs)"
  obtain offs m where conv: "convert_list g hmac password h (length ?w) ?al b ?w ?dest [] Map.empty = Some (STATUS_SUCCESS, offs, m, b)"
      "list_all2 (\<lambda>off a. m off = Some a) offs (map (received_attr g tid) as @ rs)"
    using convert_list_all [OF all, of "[]" "length ?w" ?dest ?al Map.empty "[]"] by (auto simp: entries_attributes rs_def)
  have lenm: "getUnalignedInt16Be b 2 = Some (messageLength h)"
    using message_fields(2) [OF t, of g ty N "?r @ post"] b' by (simp add: h_def)
  have cv: "convert_attributes g hmac password h (length ?w) ?al b 20 (20 + N) ?dest [] Map.empty = Some (STATUS_SUCCESS, offs, m, b)"
    using convert_attributes_walk [OF attr_walk lenm] conv(1) by simp
  have uw: "unat (word_of_nat (length ?w) :: u32) = length ?w" using wl by (intro unat_small32) simp
  have bs: "bufferSize = word_of_nat (20 + N)" using size t unfolding m by (simp add: N_def)
  then have bounds: "\<not> bufferSize < 20" "\<not> bufferSize < ucast (word_of_nat N :: u16) + 20"
    using not_below_header [of "20 + N"] N(1) by (simp_all add: ucast_16_32 add.commute)
  let ?p = "\<lparr>stunHeader = h, attributesCount = word_of_nat (length ?w),
      allocationSize = 40 + word_of_nat (total_size ?w) + word_of_nat (length ?w) * 8, attributeList = offs, attrs = m\<rparr>"
  have "deserializeStunPacket g hmac True (Some b) bufferSize password = Some (STATUS_SUCCESS, Some ?p, Some b)"
    using message_fields [OF t, where ty = ty and n = N and r = "?r @ post"] b' N(2) count cv uw unat_allocation [OF wl] bounds
    by (simp add: deserializeStunPacket_def Let_def h_def [symmetric] del: load_be length_append of_nat_add)
  moreover have "length offs = length ?w"
    using list_all2_lengthD [OF conv(2)] list_all2_lengthD [OF cs] by (simp add: rs_def)
  moreover have "map attr_type rs = (if digest = None then [] else [MESSAGE_INTEGRITY]) @ (if fp then [FINGERPRINT] else [])"
    unfolding rs_def using tail_attributes [of cs "20 + length body" "digest \<noteq> None" fp] list_all2_lengthD [OF cs]
    by (simp del: map_map)
  ultimately show ?thesis
    using conv(2) uw by (intro exI [of _ ?p] exI [of _ rs]) (simp add: h_def)
qed

section \<open>The round trip\<close>

text \<open>
  What \<open>serializeStunPacket\<close> writes, \<open>deserializeStunPacket\<close> reads back, for every packet that holds attributes of the types both
  know: the size query gives the size that the second call needs, the parser accepts the message under the same
  password, its header has the same type and transaction id, and its attributes are those that
  were sent (\<open>received_attr\<close> names the fields that the encoding does not carry), followed by the
  message integrity and the fingerprint.
\<close>

lemma packet_roundtrip:
  assumes hmac: "\<And>k m. \<exists>d. hmac k m = Some d \<and> length d = 20"
    and p: "holds g p as" "tid = transactionId (stunHeader p)" and pw: "password \<noteq> Some []"
    and n: "length as + (if password = None then 0 else 1) + (if fp then 1 else 0) \<le> 20"
    and size: "n = 20 + length (wires g tid as) + (if password = None then 0 else 24) + (if fp then 8 else 0)"
      "n < 65536" "n \<le> length b"
  shows "\<exists>b' p' rs.
    serializeStunPacket g hmac (Some p) password (password \<noteq> None) fp None pSize = Some (STATUS_SUCCESS, None, word_of_nat n) \<and>
    serializeStunPacket g hmac (Some p) password (password \<noteq> None) fp (Some b) (word_of_nat n) =
      Some (STATUS_SUCCESS, Some b', word_of_nat n) \<and>
    deserializeStunPacket g hmac True (Some b') (word_of_nat n) password = Some (STATUS_SUCCESS, Some p', Some b') \<and>
    stunMessageType (stunHeader p') = stunMessageType (stunHeader p) \<and> transactionId (stunHeader p') = tid \<and>
    unat (attributesCount p') = length (attributeList p') \<and>
    list_all2 (\<lambda>off a. attrs p' off = Some a) (attributeList p') (map (received_attr g tid) as @ rs) \<and>
    map attr_type rs = (if password = None then [] else [MESSAGE_INTEGRITY]) @ (if fp then [FINGERPRINT] else [])"
proof -
  let ?ty = "stunMessageType (stunHeader p)" and ?body = "wires g tid as"
  obtain digest where dig: "digest_for hmac password ?ty tid ?body digest"
  proof (cases password)
    case None
    then show ?thesis using that [of None] by (simp add: digest_for_def)
  next
    case (Some key)
    then show ?thesis
      using hmac [of key "header_for ?ty tid (length ?body + 24) @ ?body"] pw that by (auto simp: digest_for_def)
  qed
  have t: "length tid = 12" and s: "\<forall>a \<in> set as. sendable g a" using p by (simp_all add: holds_def)
  have dp: "(digest = None) = (password = None)" using digest_for_password [OF dig] by simp
  let ?m = "stun_message ?ty tid digest fp ?body"
  have m: "packet_message g p as digest fp = ?m" "length ?m = n"
    using p(2) length_message [OF t digest_for_length [OF dig], where ty = ?ty and fp = fp and body = ?body] dp size(1)
    by (simp_all add: packet_message_def Let_def)
  have ser: "serializeStunPacket g hmac (Some p) password (password \<noteq> None) fp (Some b) (word_of_nat n) =
      Some (STATUS_SUCCESS, Some (bsplice b 0 ?m), word_of_nat n)"
    using serialize_message [OF p(1) refl p(2), of hmac password digest fp b] dig m size by simp
  have split: "bsplice b 0 ?m = ?m @ drop n b" using m(2) by (simp add: bsplice_def)
  from deserialize_message [OF s t refl dig, of fp "?m @ drop n b" "drop n b" "word_of_nat n"] n m(2) size(2) dp
  obtain p' rs where "deserializeStunPacket g hmac True (Some (?m @ drop n b)) (word_of_nat n) password =
        Some (STATUS_SUCCESS, Some p', Some (?m @ drop n b))"
      "stunMessageType (stunHeader p') = ?ty \<and> transactionId (stunHeader p') = tid \<and> unat (attributesCount p') = length (attributeList p') \<and>
       list_all2 (\<lambda>off a. attrs p' off = Some a) (attributeList p') (map (received_attr g tid) as @ rs) \<and>
       map attr_type rs = (if password = None then [] else [MESSAGE_INTEGRITY]) @ (if fp then [FINGERPRINT] else [])"
    by auto
  then show ?thesis
    using ser serialize_size [OF p(1) pw, of hmac fp pSize] split p(2) size(1) by auto
qed

end
