(* ===== verification/StunSafety.thy ===== *)
theory StunSafety
  imports StunParse
begin

text \<open>
  Memory safety of \<open>deserializeStunPacket\<close> on arbitrary bytes. The parser checks the attribute
  lengths against the types but not against the end of the message. \<open>deserialize_safe\<close> states what
  is needed for it to stay inside the message and inside its allocation; \<open>stun_short_attributes_fault\<close>
  shows what happens without it, and \<open>stun_integrity_skipped\<close> what an unknown attribute does to the check of the
  message integrity.
\<close>

section \<open>Messages whose attributes lie inside\<close>

function attributes_inside :: "bool \<Rightarrow> bytes \<Rightarrow> nat \<Rightarrow> nat \<Rightarrow> bool" where
  "attributes_inside isBig b pos end_pos =
     (if end_pos \<le> pos then True
      else case (load16 isBig b pos, load16 isBig b (pos + 2)) of
         (Some ty, Some len) \<Rightarrow>
           pos + 4 + unat (padded_length len) \<le> end_pos \<and>
           (is_address_type ty \<or> ty = XOR_RELAYED_ADDRESS \<or> ty = ERROR_CODE \<longrightarrow> padded_length len \<noteq> 0) \<and>
           attributes_inside isBig b (pos + 4 + unat (padded_length len)) end_pos
       | _ \<Rightarrow> False)"
  by pat_completeness auto
termination by (relation "measure (\<lambda>(_, _, pos, end_pos). end_pos - pos)") auto

declare attributes_inside.simps [simp del]

definition entry_inside :: "nat \<Rightarrow> nat \<times> u16 \<times> u16 \<Rightarrow> bool" where
  "entry_inside end_pos x = (case x of (pos, ty, len) \<Rightarrow> 20 \<le> pos \<and> pos + 4 + unat (padded_length len) \<le> end_pos \<and>
     (is_address_type ty \<or> ty = XOR_RELAYED_ADDRESS \<or> ty = ERROR_CODE \<longrightarrow> padded_length len \<noteq> 0))"

lemma inside_walk:
  "attributes_inside g b pos e \<Longrightarrow> 20 \<le> pos \<Longrightarrow> \<exists>w. attr_walk g b e pos w \<and> (\<forall>x \<in> set w. entry_inside e x)"
proof (induction g b pos e rule: attributes_inside.induct)
  case (1 g b pos e)
  show ?case
  proof (cases "e \<le> pos")
    case True
    then show ?thesis by (intro exI [of _ "[]"]) (simp add: attr_walk_end)
  next
    case False
    then obtain ty len where f: "load16 g b pos = Some ty" "load16 g b (pos + 2) = Some len"
        "pos + 4 + unat (padded_length len) \<le> e" "is_address_type ty \<or> ty = XOR_RELAYED_ADDRESS \<or> ty = ERROR_CODE \<longrightarrow> padded_length len \<noteq> 0"
        "attributes_inside g b (pos + 4 + unat (padded_length len)) e"
      using 1(2) by (subst (asm) attributes_inside.simps) (auto split: option.splits simp del: load_be)
    obtain w where w: "attr_walk g b e (pos + 4 + unat (padded_length len)) w" "\<forall>x \<in> set w. entry_inside e x"
      using 1(1) [OF False, of "Some ty" "Some len" ty len] f 1(3) by auto
    show ?thesis
      using attr_walk_step [OF _ f(1,2) w(1)] False w(2) f(3,4) 1(3)
      by (intro exI [of _ "(pos, ty, len) # w"]) (auto simp: entry_inside_def)
  qed
qed

section \<open>The first loop\<close>

abbreviation known_count :: "(nat \<times> u16 \<times> u16) list \<Rightarrow> nat" where
  "known_count w \<equiv> length (filter (\<lambda>(pos, ty, len). is_known_type ty) w)"

lemma padded_dvd: "4 dvd unat (padded_length len)"
proof -
  have "4 dvd ROUND_UP (unat len) 4 mod 65536"
    using ROUND_UP_dvd [of 4 "unat len"] by (rule dvd_mod) simp
  then show ?thesis by (simp add: padded_length_def unat_of_nat take_bit_eq_mod)
qed

lemma padded_positive: "padded_length len \<noteq> 0 \<Longrightarrow> 4 \<le> unat (padded_length len)"
  using dvd_imp_le [OF padded_dvd [of len]] by (simp add: unat_gt_0)

lemma check_length_defined: "pos + 6 \<le> length b \<Longrightarrow> check_length g b pos ty len \<noteq> None"
  using get_Be_in_range(1) [of "pos + 4" b] by (auto simp: check_length_def)

lemma check_length_defined_plain:
  "\<not> is_address_type ty \<Longrightarrow> ty \<noteq> XOR_RELAYED_ADDRESS \<Longrightarrow> check_length g b pos ty len \<noteq> None"
  by (simp add: check_length_def)

lemma check_length_inside:
  assumes "entry_inside e (pos, ty, len)" "e \<le> length b"
  shows "\<exists>status. check_length g b pos ty len = Some status"
  using assms check_length_defined [of pos b g ty len] check_length_defined_plain [of ty g b pos len] padded_positive [of len]
  by (cases "is_address_type ty \<or> ty = XOR_RELAYED_ADDRESS") (auto simp: entry_inside_def)

lemma count_list_defined:
  assumes "\<forall>x \<in> set w. entry_inside e x" "e \<le> length b"
  shows "\<exists>r. count_list g b w c al fp mi = Some r"
  using assms
proof (induction w arbitrary: c al fp mi)
  case (Cons x w)
  obtain pos ty len where x: "x = (pos, ty, len)" by (cases x)
  obtain status where "check_length g b pos ty len = Some status"
    using check_length_inside [of e pos ty len b g] Cons.prems x by auto
  then show ?case
    using Cons x by (auto simp: Let_def split: prod.splits)
qed simp

text \<open>What the first loop has checked and computed when it succeeds.\<close>

lemma count_list_success:
  assumes "count_list g b w c al fp mi = Some (STATUS_SUCCESS, c', al')" "unat c \<le> 20"
  shows "unat c' = unat c + known_count w \<and> unat c' \<le> 20 \<and> al' = al + word_of_nat (total_size w) \<and>
    (\<forall>(pos, ty, len) \<in> set w. check_length g b pos ty len = Some STATUS_SUCCESS)"
  using assms
proof (induction w arbitrary: c al fp mi)
  case (Cons x w)
  obtain pos ty len where x: "x = (pos, ty, len)" by (cases x)
  let ?c = "(if is_known_type ty then c else c - 1) + 1"
  obtain fp' mi' where len: "check_length g b pos ty len = Some STATUS_SUCCESS" and le: "\<not> 20 < ?c"
      and rest: "count_list g b w ?c (al + attribute_size ty len) fp' mi' = Some (STATUS_SUCCESS, c', al')"
    using Cons.prems(1) x by (auto simp: bind_Some_iff Let_def split: if_splits prod.splits)
  have c: "unat ?c = unat c + (if is_known_type ty then 1 else 0)" "unat ?c \<le> 20"
  proof -
    have "?c = (if is_known_type ty then c + 1 else c)" by simp
    then show "unat ?c = unat c + (if is_known_type ty then 1 else 0)" "unat ?c \<le> 20"
      using le Cons.prems(2) by (simp_all add: word_less_nat_alt unat_word_ariths split: if_splits)
  qed
  have size: "al + attribute_size ty len + word_of_nat (total_size w) = al + word_of_nat (total_size (x # w))"
    by (simp add: x entry_size_def add.assoc)
  show ?case
    using Cons.IH [OF rest c(2)] c(1) len x size by (simp split: if_splits)
qed simp

lemma total_size_known: "total_size w \<le> 65551 * known_count w"
proof (induction w)
  case (Cons x w)
  obtain pos ty len where "x = (pos, ty, len)" by (cases x)
  then show ?case using Cons attribute_size_bound [of ty len] attribute_size_unknown [of ty len] by (simp add: entry_size_def)
qed simp

lemma known_size: "0 < known_count w \<Longrightarrow> 4 \<le> total_size w"
proof (induction w)
  case (Cons x w)
  obtain pos ty len where "x = (pos, ty, len)" by (cases x)
  then show ?case using Cons attribute_size_known [of ty len] by (auto simp: entry_size_def split: if_splits)
qed simp

section \<open>The second loop\<close>

lemma convert_list_defined:
  assumes "\<forall>(pos, ty, len) \<in> set w. convert_attribute g hmac pw h b pos ty len \<noteq> None"
    "dest + total_size w \<le> al" "count \<le> length offs + known_count w"
  shows "convert_list g hmac pw h count al b w dest offs m \<noteq> None"
  using assms
proof (induction w arbitrary: dest offs m)
  case (Cons x w)
  obtain pos ty len where x: "x = (pos, ty, len)" by (cases x)
  have conv: "convert_attribute g hmac pw h b pos ty len \<noteq> None" using Cons.prems(1) x by auto
  have room: "dest + 4 \<le> al \<and> dest + unat (attribute_size ty len) \<le> al" if "\<not> count \<le> length offs"
  proof -
    have "0 < known_count (x # w)" using that Cons.prems(3) by linarith
    then show ?thesis using Cons.prems(2) known_size [of "x # w"] x by (simp add: entry_size_def)
  qed
  have "convert_list g hmac pw h count al b w (dest + unat (attribute_size ty len)) (offs @ [dest]) m' \<noteq> None" for m'
    using Cons.prems x by (intro Cons.IH) (auto simp: entry_size_def split: if_splits)
  then show ?case using conv room x by (cases "count \<le> length offs") (auto simp: not_less)
qed simp

lemma convert_list_restores:
  assumes "getUnalignedInt16Be b 2 = Some (messageLength h)"
    "convert_list g hmac pw h count al b w dest offs m = Some (status, offs', m', b')" "status \<noteq> STATUS_HMAC_GENERATION_ERROR"
  shows "b' = b"
  using assms(2)
proof (induction w arbitrary: dest offs m)
  case (Cons x w)
  obtain pos ty len where "x = (pos, ty, len)" by (cases x)
  then show ?case
    using Cons convert_attribute_restores [OF assms(1) _ assms(3)]
    by (auto simp: bind_Some_iff split: if_splits)
qed simp

lemma convert_address_defined:
  assumes "check_length g b pos ty len = Some STATUS_SUCCESS" "is_address_type ty \<or> ty = XOR_RELAYED_ADDRESS"
    "pos + 4 + unat (padded_length len) \<le> length b" "length tid = 12"
  shows "convert_address g tid b pos ty len \<noteq> None"
proof -
  have len: "len = 8 \<or> len = 20"
    using assms(1,2) by (auto simp: check_length_def bind_Some_iff split: if_splits)
  then have inb: "pos + 4 + unat len \<le> length b" "\<not> 20 < unat len" "4 \<le> unat len" "unat len \<le> 20" using assms(3) by auto
  define m where "m = take (unat len) (drop (pos + 4) b) @ replicate (20 - unat len) 0"
  have m: "length m = 20" using inb by (auto simp: m_def)
  have wr: "memwrite (replicate 20 0) 0 (take (unat len) (drop (pos + 4) b)) = Some m"
    using inb by (auto simp: memwrite_def bsplice_def m_def)
  obtain fam where fam: "getUnalignedInt16Be m 0 = Some fam" using get_Be_in_range(1) [of 0 m] m by auto
  then obtain p where p: "native16 g m 2 = Some p"
    using m by (cases g) (auto simp: native16_def getUnalignedInt16Be_def getUnalignedInt16Le_def memget_def)
  have adr: "length (drop 4 m) = 16" using m by simp
  show ?thesis
    using inb wr fam p parser_xor [OF adr assms(4), of g "fam AND 0xff"]
    by (auto simp: convert_address_def memread_Some Let_def)
qed

lemma word16_le: "unat (word_of_nat n :: u16) \<le> n"
  by (simp add: unat_of_nat take_bit_eq_mod)

lemma verify_defined:
  assumes "20 \<le> pos" "pos + 4 + n \<le> length b"
  shows "n = 20 \<Longrightarrow> verify_integrity g hmac pw msgLen b pos \<noteq> None"
    and "n = 4 \<Longrightarrow> verify_fingerprint g msgLen b pos \<noteq> None"
proof -
  have w: "\<exists>b'. memwrite c 2 (be16 v) = Some b' \<and> length b' = length b" if "length c = length b" for v c
    using that assms by (simp add: memwrite_def)
  have r: "\<exists>m. memread c 0 (unat (word_of_nat pos :: u16)) = Some m" if "length c = length b" for c
    using that assms word16_le [of pos] by (simp add: memread_def)
  show "verify_integrity g hmac pw msgLen b pos \<noteq> None" if "n = 20"
  proof -
    obtain b1 where b1: "memwrite b 2 (be16 (word_of_nat (pos + 4 + 20 - STUN_HEADER_LEN))) = Some b1" "length b1 = length b"
      using w [of b] by auto
    obtain b2 where b2: "memwrite b1 2 (be16 msgLen) = Some b2" "length b2 = length b" using w [OF b1(2)] by auto
    show ?thesis
      using that assms b1 b2 r [OF b1(2)] by (auto simp: verify_integrity_def memread_Some split: option.splits)
  qed
  show "verify_fingerprint g msgLen b pos \<noteq> None" if "n = 4"
  proof -
    obtain b1 where b1: "memwrite b 2 (be16 (word_of_nat (pos + 4 + 4 - STUN_HEADER_LEN))) = Some b1" "length b1 = length b"
      using w [of b] by auto
    obtain b2 where b2: "memwrite b1 2 (be16 msgLen) = Some b2" "length b2 = length b" using w [OF b1(2)] by auto
    show ?thesis
      using that assms b1 b2 r [OF b1(2)] get_Be_in_range(2) [of "pos + 4" b] by (auto simp: verify_fingerprint_def)
  qed
qed

lemma native64_defined: "p + 8 \<le> length b \<Longrightarrow> \<exists>x. native64 g b p = Some x"
  by (auto simp: native64_def getUnalignedInt64Be_def getUnalignedInt64Le_def getUnalignedInt32Be_def getUnalignedInt32Le_def memget_def)

lemma convert_attribute_defined:
  assumes "check_length g b pos ty len = Some STATUS_SUCCESS" "entry_inside e (pos, ty, len)" "e \<le> length b"
    "length (transactionId h) = 12"
  shows "convert_attribute g hmac pw h b pos ty len \<noteq> None"
proof -
  have inb: "pos + 4 + unat (padded_length len) \<le> length b" "20 \<le> pos"
    using assms(2,3) by (auto simp: entry_inside_def)
  have reads: "n \<le> unat (padded_length len) \<Longrightarrow> \<exists>d. memread b (pos + 4) n = Some d"
      "2 \<le> unat (padded_length len) \<Longrightarrow> \<exists>v. getUnalignedInt16Be b (pos + 4) = Some v"
      "4 \<le> unat (padded_length len) \<Longrightarrow> \<exists>v. getUnalignedInt32Be b (pos + 4) = Some v" for n
    using inb get_Be_in_range [of "pos + 4" b] by (auto simp: memread_def)
  consider (addr) "is_address_type ty \<or> ty = XOR_RELAYED_ADDRESS" | (mi) "ty = MESSAGE_INTEGRITY" | (fp) "ty = FINGERPRINT"
    | (err) "ty = ERROR_CODE" | (ice) "ty = ICE_CONTROLLED \<or> ty = ICE_CONTROLLING"
    | (word) "ty = PRIORITY \<or> ty = LIFETIME \<or> ty = CHANGE_REQUEST \<or> ty = REQUESTED_TRANSPORT \<or> ty = CHANNEL_NUMBER"
    | (padded) "ty = USERNAME \<or> ty = REALM \<or> ty = NONCE \<or> ty = DATA"
    | (other) "\<not> is_known_type ty \<or> ty = USE_CANDIDATE \<or> ty = DONT_FRAGMENT"
    by (auto simp: is_known_type_def)
  then show ?thesis
  proof cases
    case addr
    then show ?thesis
      using convert_address_defined [OF assms(1) addr inb(1) assms(4)] by (auto simp: convert_attribute_def)
  next
    case mi
    then have "len = 20" using assms(1) by (simp add: check_length_def is_address_type_def split: if_splits)
    then show ?thesis
      using mi inb verify_defined(1) [of pos 20 b g hmac pw "messageLength h"] by (auto simp: convert_attribute_def is_address_type_def)
  next
    case fp
    then have "len = 4" using assms(1) by (simp add: check_length_def is_address_type_def split: if_splits)
    then show ?thesis
      using fp inb verify_defined(2) [of pos 4 b g "messageLength h"] by (auto simp: convert_attribute_def is_address_type_def)
  next
    case err
    then have "4 \<le> unat (padded_length len)"
      using assms(2) padded_positive [of len] by (auto simp: entry_inside_def)
    then show ?thesis
      using err inb by (auto simp: convert_attribute_def is_address_type_def memget_Some memread_Some)
  next
    case ice
    then have "len = 8" using assms(1) by (auto simp: check_length_def is_address_type_def split: if_splits)
    then show ?thesis
      using ice inb native64_defined [of "pos + 4" b g] by (auto simp: convert_attribute_def is_address_type_def load64_def)
  next
    case word
    then have "len = 4" using assms(1) by (auto simp: check_length_def is_address_type_def split: if_splits)
    then show ?thesis
      using word reads(1) [of 4] reads(2,3) by (auto simp: convert_attribute_def is_address_type_def)
  next
    case padded
    then show ?thesis using reads(1) [of "unat (padded_length len)"]
      by (auto simp: convert_attribute_def is_address_type_def)
  next
    case other
    then show ?thesis
      by (auto simp: convert_attribute_def is_address_type_def is_known_type_def)
  qed
qed

section \<open>Properties\<close>

lemma loops_defined:
  assumes w: "attr_walk g b e 20 w" "\<forall>x \<in> set w. entry_inside e x" "e \<le> length b"
    and c: "count_list g b w 0 40 False False = Some (STATUS_SUCCESS, count, al)"
    and h: "length (transactionId h) = 12"
  shows "convert_list g hmac pw h (unat count) (unat (al + count * 8)) b w (40 + 8 * unat count) [] Map.empty \<noteq> None"
proof -
  have count: "unat count = known_count w" "unat count \<le> 20" "al = 40 + word_of_nat (total_size w)"
      and ok: "\<forall>(pos, ty, len) \<in> set w. check_length g b pos ty len = Some STATUS_SUCCESS"
    using count_list_success [OF c] by auto
  have total: "total_size w \<le> 65551 * 20" using total_size_known [of w] count(1,2) by simp
  then have small: "40 + total_size w + 8 * unat count < 2 ^ 32" using count(2) by simp
  have "(al + count * 8 :: u32) = word_of_nat (40 + total_size w + 8 * unat count)"
    by (simp add: count(3) mult.commute)
  then have "unat (al + count * 8) = 40 + total_size w + 8 * unat count"
    using unat_small32 [OF small] by metis
  then show ?thesis
    using count(1) ok w(2) convert_attribute_defined [OF _ _ w(3) h, of g]
    by (intro convert_list_defined) fastforce+
qed


text \<open>A message of 24 bytes: the header and the header of one attribute of 4 bytes at most.\<close>

definition bare_attribute :: "u16 \<Rightarrow> bytes \<Rightarrow> u16 \<Rightarrow> u16 \<Rightarrow> bytes" where
  "bare_attribute ty tid t len = header_for ty tid 4 @ be16 t @ be16 len"

lemma bare_fields:
  assumes "length tid = 12"
  shows "load16 g (bare_attribute ty tid t len @ post) 20 = Some t" "load16 g (bare_attribute ty tid t len @ post) 22 = Some len"
  using assms get_shift_add(1) [of "header_for ty tid 4" _ 0] get_shift_add(1) [of "header_for ty tid 4" _ 2]
  by (simp_all add: bare_attribute_def get_Be_shift)

lemma deserialize_bare:
  assumes t: "length tid = 12" and "check_length g (bare_attribute ty tid t len @ post) 20 t len = Some STATUS_SUCCESS"
    and "is_known_type t" "t \<noteq> MESSAGE_INTEGRITY" "t \<noteq> FINGERPRINT"
    and conv: "\<And>h. convert_attribute g hmac password h (bare_attribute ty tid t len @ post) 20 t len = None"
  shows "deserializeStunPacket g hmac True (Some (bare_attribute ty tid t len @ post)) 24 password = None"
proof -
  let ?b = "bare_attribute ty tid t len @ post"
  have attr_walk: "attr_walk g ?b 24 20 [(20, t, len)]"
    using bare_fields [OF t, of g ty t len post] by (intro attr_walk_step attr_walk_end) (simp_all del: load_be)
  have count: "count_attributes g ?b 20 24 0 40 False False = Some (STATUS_SUCCESS, 1, 40 + attribute_size t len)"
    using count_attributes_walk [OF attr_walk] assms(2-5) by (simp add: check_order_def)
  have "getUnalignedInt16Be ?b 2 = Some 4"
    using message_fields(2) [OF t, of g ty 4 "be16 t @ be16 len @ post"] by (simp add: bare_attribute_def)
  then have "convert_attributes g hmac password
      \<lparr>stunMessageType = ty, messageLength = 4, magicCookie = STUN_HEADER_MAGIC_COOKIE, transactionId = tid\<rparr>
      1 (unat (40 + attribute_size t len + 8)) ?b 20 24 48 [] Map.empty = None"
    using convert_attributes_walk [OF attr_walk, of "\<lparr>stunMessageType = ty, messageLength = 4, magicCookie = STUN_HEADER_MAGIC_COOKIE, transactionId = tid\<rparr>"] conv
    by simp
  then show ?thesis
    using message_fields [OF t, where ty = ty and n = 4 and r = "be16 t @ be16 len @ post"] count
    by (simp add: deserializeStunPacket_def bare_attribute_def Let_def del: load_be)
qed

text \<open>
  C39. Two messages of 24 bytes that make the parser leave its memory: the header of a PRIORITY attribute at the end of the
  message, whose value is then read behind the buffer, and an ERROR-CODE attribute of length 0,
  for which the size of the copy of the phrase wraps around, whatever follows the message in the buffer.
  No password is needed for either.
\<close>

theorem stun_short_attributes_fault:
  assumes "length tid = 12"
  shows "deserializeStunPacket g hmac True (Some (bare_attribute ty tid PRIORITY 4)) 24 password = None \<and>
    deserializeStunPacket g hmac True (Some (bare_attribute ty tid ERROR_CODE 0 @ post)) 24 password = None"
proof
  have len: "length (bare_attribute ty tid PRIORITY 4) = 24" using assms by (simp add: bare_attribute_def)
  have "convert_attribute g hmac password h (bare_attribute ty tid PRIORITY 4 @ []) 20 PRIORITY 4 = None" for h
    using len by (simp add: convert_attribute_def is_address_type_def getUnalignedInt32Be_def memget_def)
  then show "deserializeStunPacket g hmac True (Some (bare_attribute ty tid PRIORITY 4)) 24 password = None"
    using deserialize_bare [OF assms, of g ty PRIORITY 4 "[]" hmac password]
    by (simp add: check_length_types is_known_type_def)
  show "deserializeStunPacket g hmac True (Some (bare_attribute ty tid ERROR_CODE 0 @ post)) 24 password = None"
    using assms by (intro deserialize_bare)
      (simp_all add: check_length_def is_address_type_def is_known_type_def convert_attribute_def Option.bind_eq_None_conv)
qed

theorem stun_short_attributes_fault_witness:
  "deserializeStunPacket False (\<lambda>k m. None) True (Some (bare_attribute 1 (replicate 12 7) PRIORITY 4)) 24 (Some [1]) = None \<and>
   deserializeStunPacket False (\<lambda>k m. None) True (Some (bare_attribute 1 (replicate 12 7) ERROR_CODE 0 @ [0, 0])) 24 (Some [1]) = None"
  using stun_short_attributes_fault [of "replicate 12 7" False "\<lambda>k m. None" 1 "Some [1]" "[0, 0]"] by simp

text \<open>
  A message that starts with two attributes of types the parser does not know, then has a single
  attribute, a message integrity and a fingerprint.
\<close>

definition unknown_first :: "bool \<Rightarrow> u16 \<Rightarrow> bytes \<Rightarrow> u16 \<Rightarrow> u16 \<Rightarrow> StunAttribute \<Rightarrow> bytes \<Rightarrow> u32 \<Rightarrow> bytes" where
  "unknown_first isBig ty tid u1 u2 a d v =
     (let r = (be16 u1 @ be16 0) @ (be16 u2 @ be16 0) @ wire isBig tid a @ (be16 MESSAGE_INTEGRITY @ be16 20 @ d) @ (be16 FINGERPRINT @ be16 4 @ be32 v)
      in header_for ty tid (length r) @ r)"

lemma unknown_check:
  "\<not> is_known_type u \<Longrightarrow> check_length g b pos u len = Some STATUS_SUCCESS"
  "\<not> is_known_type u \<Longrightarrow> check_order u fp mi = (STATUS_SUCCESS, fp, mi)"
  "\<not> is_known_type u \<Longrightarrow> convert_attribute g hmac password h b pos u len = Some (STATUS_SUCCESS, StunAttributeFlag, b)"
  by (auto simp: check_length_def check_order_def convert_attribute_def is_known_type_def)

lemma unknown_walk:
  assumes t: "length tid = 12" and a: "sendable g a" and d: "length d = 20" and w: "w = length (wire g tid a)"
  shows "attr_walk g (unknown_first g ty tid u1 u2 a d v) (60 + w) 20
    [(20, u1, 0), (24, u2, 0), (28, attr_type a, attr_length a), (28 + w, MESSAGE_INTEGRITY, 20), (52 + w, FINGERPRINT, 4)]"
proof -
  let ?h = "header_for ty tid (40 + w)" and ?b = "unknown_first g ty tid u1 u2 a d v"
  have b: "?b = ?h @ (be16 u1 @ be16 0) @ (be16 u2 @ be16 0) @ wire g tid a @ (be16 MESSAGE_INTEGRITY @ be16 20 @ d) @ (be16 FINGERPRINT @ be16 4 @ be32 v)"
    using w d by (simp add: unknown_first_def Let_def)
  have wl: "w = 4 + length (wire_value g tid a)" "length (wire_value g tid a) = unat (padded_length (attr_length a))"
    using w length_wire_value [OF a t] by (simp_all add: wire_def)
  have "attr_walk g ?b (60 + w) (52 + w) [(52 + w, FINGERPRINT, 4)]"
    using walk_part [of ?b "?h @ (be16 u1 @ be16 0) @ (be16 u2 @ be16 0) @ wire g tid a @ (be16 MESSAGE_INTEGRITY @ be16 20 @ d)"
        FINGERPRINT 4 "be32 v" "[]" "60 + w" g "[]"] b t d w by (simp add: attr_walk_end)
  then have "attr_walk g ?b (60 + w) (28 + w) [(28 + w, MESSAGE_INTEGRITY, 20), (52 + w, FINGERPRINT, 4)]"
    using walk_part [of ?b "?h @ (be16 u1 @ be16 0) @ (be16 u2 @ be16 0) @ wire g tid a" MESSAGE_INTEGRITY 20 d _ "60 + w" g
        "[(52 + w, FINGERPRINT, 4)]"] b t d w by simp
  then have "attr_walk g ?b (60 + w) 28 [(28, attr_type a, attr_length a), (28 + w, MESSAGE_INTEGRITY, 20), (52 + w, FINGERPRINT, 4)]"
    using walk_part [of ?b "?h @ (be16 u1 @ be16 0) @ (be16 u2 @ be16 0)" "attr_type a" "attr_length a" "wire_value g tid a" _ "60 + w" g
        "[(28 + w, MESSAGE_INTEGRITY, 20), (52 + w, FINGERPRINT, 4)]"] b t wl by (simp add: wire_def)
  then have "attr_walk g ?b (60 + w) 24 [(24, u2, 0), (28, attr_type a, attr_length a), (28 + w, MESSAGE_INTEGRITY, 20), (52 + w, FINGERPRINT, 4)]"
    using walk_part [of ?b "?h @ (be16 u1 @ be16 0)" u2 0 "[]" _ "60 + w" g
        "[(28, attr_type a, attr_length a), (28 + w, MESSAGE_INTEGRITY, 20), (52 + w, FINGERPRINT, 4)]"] b t by simp
  then show ?thesis
    using walk_part [of ?b ?h u1 0 "[]" _ "60 + w" g
        "[(24, u2, 0), (28, attr_type a, attr_length a), (28 + w, MESSAGE_INTEGRITY, 20), (52 + w, FINGERPRINT, 4)]"] b t by simp
qed

lemma received_record:
  "\<lparr>attr_type = attr_type a, attr_length = attr_length a, attr_struct = attr_struct (received_attr g tid a)\<rparr> = received_attr g tid a"
  by (cases a) (simp add: received_attr_def)

text \<open>
  C38. The check of the message integrity is skipped when two attributes of unknown types come first: such a message is accepted
  with any digest and any fingerprint, for every password and every HMAC function. The packet
  holds three times the attribute, which is thus accepted without authentication.
\<close>

theorem stun_integrity_skipped:
  assumes t: "length tid = 12" and a: "sendable g a" and u: "\<not> is_known_type u1" "\<not> is_known_type u2"
    and d: "length d = 20" and size: "unat n = length (unknown_first g ty tid u1 u2 a d v)" "unat n < 65536"
  shows "\<exists>p off. deserializeStunPacket g hmac True (Some (unknown_first g ty tid u1 u2 a d v)) n password =
      Some (STATUS_SUCCESS, Some p, Some (unknown_first g ty tid u1 u2 a d v)) \<and>
    attributesCount p = 3 \<and> attributeList p = [off, off, off] \<and> attrs p off = Some (received_attr g tid a)"
proof -
  define w where "w = length (wire g tid a)"
  let ?b = "unknown_first g ty tid u1 u2 a d v" and ?s = "attribute_size (attr_type a) (attr_length a)"
  define pre where "pre = header_for ty tid (40 + w) @ (be16 u1 @ be16 0) @ (be16 u2 @ be16 0)"
  define post where "post = (be16 MESSAGE_INTEGRITY @ be16 20 @ d) @ (be16 FINGERPRINT @ be16 4 @ be32 v)"
  have b: "?b = pre @ wire g tid a @ post" "length pre = 28"
    using t d by (simp_all add: unknown_first_def pre_def post_def w_def Let_def)
  have bh: "?b = header_for ty tid (40 + w) @ ((be16 u1 @ be16 0) @ (be16 u2 @ be16 0) @ wire g tid a @ post)"
    using b(1) by (simp add: pre_def)
  have n: "unat n = 60 + w" "60 + w < 65536" using size t d b by (simp_all add: post_def w_def)
  have e: "unat (word_of_nat (40 + w) :: u16) = 40 + w" using n by (intro unat_small16) simp
  note attr_walk = unknown_walk [OF t a d w_def, of ty u1 u2 v]
  note known = sendable_known [OF a]
  define h where "h = \<lparr>stunMessageType = ty, messageLength = word_of_nat (40 + w), magicCookie = STUN_HEADER_MAGIC_COOKIE, transactionId = tid\<rparr>"
  have conv: "check_length g ?b 28 (attr_type a) (attr_length a) = Some STATUS_SUCCESS"
      "convert_attribute g hmac password h ?b 28 (attr_type a) (attr_length a) = Some (STATUS_SUCCESS, attr_struct (received_attr g tid a), ?b)"
    using check_length_wire [OF a t b(1)] convert_wire [OF a t _ b(1), of h] b(2) by (simp_all add: h_def)
  have last: "check_order MESSAGE_INTEGRITY False False = (STATUS_SUCCESS, False, True)"
      "check_order FINGERPRINT False True = (STATUS_SUCCESS, True, True)" "is_known_type MESSAGE_INTEGRITY" "is_known_type FINGERPRINT"
      "attribute_size MESSAGE_INTEGRITY 20 = 24" "attribute_size FINGERPRINT 4 = 8"
      "check_order (attr_type a) False False = (STATUS_SUCCESS, False, False)"
    using known by (simp_all add: check_order_def is_known_type_def attribute_size_def is_address_type_def)
  have count: "count_attributes g ?b 20 (60 + w) 0 40 False False = Some (STATUS_SUCCESS, 3, 40 + ?s + 24 + 8)"
    using count_attributes_walk [OF attr_walk] u conv(1) last known by (simp add: unknown_check attribute_size_unknown check_length_types)
  have alloc: "unat (40 + ?s + 24 + 8 + 3 * 8 :: u32) = 96 + unat ?s"
  proof -
    have "(40 + ?s + 24 + 8 + 3 * 8 :: u32) = word_of_nat (96 + unat ?s)" by simp
    then show ?thesis
      using unat_small32 [of "96 + unat ?s"] attribute_size_bound [of "attr_type a" "attr_length a"] by simp
  qed
  have len: "getUnalignedInt16Be ?b 2 = Some (messageLength h)"
    using message_fields(2) [OF t, of g ty "40 + w"] bh by (simp add: h_def)
  have "convert_attributes g hmac password h 3 (96 + unat ?s) ?b 20 (60 + w) 64 [] Map.empty =
      Some (STATUS_SUCCESS, [64, 64, 64], [64 \<mapsto> received_attr g tid a], ?b)"
    using convert_attributes_walk [OF attr_walk len] u conv(2)
    by (simp add: unknown_check attribute_size_unknown received_record)
  moreover have "\<not> n < 20" "\<not> n < ucast (word_of_nat (40 + w) :: u16) + 20"
    using n ucast_16_32 [of "40 + w"] unat_small32 [of "60 + w"] by (simp_all add: word_less_nat_alt)
  ultimately show ?thesis
    using message_fields [OF t, where ty = ty and n = "40 + w" and r = "(be16 u1 @ be16 0) @ (be16 u2 @ be16 0) @ wire g tid a @ post"]
      e count alloc bh
    by (simp add: deserializeStunPacket_def Let_def h_def [symmetric] del: load_be of_nat_add)
qed

theorem stun_integrity_skipped_witness:
  "\<exists>p off. deserializeStunPacket False (\<lambda>k m. Some (replicate 20 5)) True
      (Some (unknown_first False 1 (replicate 12 7) 0x8022 0xC057
         \<lparr>attr_type = USE_CANDIDATE, attr_length = 0, attr_struct = StunAttributeFlag\<rparr> (replicate 20 9) 0)) 64 (Some [1, 2]) =
      Some (STATUS_SUCCESS, Some p, Some (unknown_first False 1 (replicate 12 7) 0x8022 0xC057
         \<lparr>attr_type = USE_CANDIDATE, attr_length = 0, attr_struct = StunAttributeFlag\<rparr> (replicate 20 9) 0)) \<and>
    attributesCount p = 3 \<and> attributeList p = [off, off, off] \<and>
    attrs p off = Some (received_attr False (replicate 12 7) \<lparr>attr_type = USE_CANDIDATE, attr_length = 0, attr_struct = StunAttributeFlag\<rparr>)"
  by (rule stun_integrity_skipped)
    (simp_all add: sendable_def is_known_type_def is_address_type_def unknown_first_def wire_def wire_value_def)


end
