(* ===== verification/StunBuild.thy ===== *)
theory StunBuild
  imports StunParse
begin

text \<open>
  Packets built by \<open>createStunPacket\<close> and the \<open>appendStun\<close> functions. \<open>run_append\<close> is one call of such a function,
  \<open>stun_inv\<close> the invariant they keep: the attributes lie one behind the other in the allocation,
  each has the structure its type says, and the length in the header is the length of the
  message. It gives the round trip for every packet that was built. The invariant ends with the 21st attribute, whose pointer
  is written over the first attribute.
\<close>

section \<open>The operations\<close>

datatype stun_op =
    AppendAddress u16 KvsIpAddress
  | AppendUsername bytes
  | AppendPriority u32
  | AppendFlag u16
  | AppendLifetime u32
  | AppendChangeRequest u32
  | AppendRequestedTransport byte
  | AppendRealm bytes
  | AppendNonce bytes u16
  | AppendIceControl u16 u64
  | AppendData bytes u16
  | AppendChannelNumber u16

fun run_append :: "bool \<Rightarrow> stun_op \<Rightarrow> StunPacket option \<Rightarrow> (STATUS \<times> StunPacket option) option" where
  "run_append isBig (AppendAddress ty ip) p = appendStunAddressAttribute p ty (Some ip)"
| "run_append isBig (AppendUsername s) p = appendStunUsernameAttribute p (Some s)"
| "run_append isBig (AppendPriority w) p = appendStunPriorityAttribute p w"
| "run_append isBig (AppendFlag ty) p = appendStunFlagAttribute p ty"
| "run_append isBig (AppendLifetime w) p = appendStunLifetimeAttribute p w"
| "run_append isBig (AppendChangeRequest w) p = appendStunChangeRequestAttribute p w"
| "run_append isBig (AppendRequestedTransport b) p = appendStunRequestedTransportAttribute p b"
| "run_append isBig (AppendRealm s) p = appendStunRealmAttribute p (Some s)"
| "run_append isBig (AppendNonce d n) p = appendStunNonceAttribute p (Some d) n"
| "run_append isBig (AppendIceControl ty t) p = appendStunIceControllAttribute isBig p ty t"
| "run_append isBig (AppendData d n) p = appendStunDataAttribute p (Some d) n"
| "run_append isBig (AppendChannelNumber n) p = appendStunChannelNumberAttribute p n"

text \<open>The arguments with which the attribute can be read back: an address of an address type, a flag type, the lengths of the parser.\<close>

fun op_ok :: "bool \<Rightarrow> stun_op \<Rightarrow> bool" where
  "op_ok isBig (AppendAddress ty ip) = (is_address_type ty \<and> (isBig \<longrightarrow> ty \<noteq> XOR_MAPPED_ADDRESS) \<and>
     length (ip_address ip) = 16 \<and> ip_family ip AND 0xff = ip_family ip)"
| "op_ok isBig (AppendFlag ty) = (ty = USE_CANDIDATE \<or> ty = DONT_FRAGMENT)"
| "op_ok isBig (AppendNonce d n) = (n \<le> 128)"
| "op_ok isBig (AppendData d n) = (n \<le> 65532)"
| "op_ok isBig op = True"

text \<open>The attribute an operation adds.\<close>

definition padded_attribute :: "u16 \<Rightarrow> bytes \<Rightarrow> u16 \<Rightarrow> StunAttribute" where
  "padded_attribute ty d len = \<lparr>attr_type = ty, attr_length = len,
     attr_struct = StunAttributePadded (padded_length len) (take (unat len) d @ replicate (unat (padded_length len) - unat len) 0)\<rparr>"

fun op_attr :: "bool \<Rightarrow> stun_op \<Rightarrow> StunAttribute" where
  "op_attr isBig (AppendAddress ty ip) =
     \<lparr>attr_type = ty, attr_length = 4 + (if IS_IPV4_ADDR ip then 4 else 16), attr_struct = StunAttributeAddress ip\<rparr>"
| "op_attr isBig (AppendUsername s) = padded_attribute USERNAME s (word_of_nat (min 512 (first_index (\<lambda>c. c = 0) s)))"
| "op_attr isBig (AppendPriority w) = \<lparr>attr_type = PRIORITY, attr_length = 4, attr_struct = StunAttributeWord w\<rparr>"
| "op_attr isBig (AppendFlag ty) = \<lparr>attr_type = ty, attr_length = 0, attr_struct = StunAttributeFlag\<rparr>"
| "op_attr isBig (AppendLifetime w) = \<lparr>attr_type = LIFETIME, attr_length = 4, attr_struct = StunAttributeWord w\<rparr>"
| "op_attr isBig (AppendChangeRequest w) = \<lparr>attr_type = CHANGE_REQUEST, attr_length = 4, attr_struct = StunAttributeWord w\<rparr>"
| "op_attr isBig (AppendRequestedTransport b) =
     \<lparr>attr_type = REQUESTED_TRANSPORT, attr_length = 4, attr_struct = StunAttributeBytes4 [b, 0, 0, 0]\<rparr>"
| "op_attr isBig (AppendRealm s) = padded_attribute REALM s (word_of_nat (min 128 (first_index (\<lambda>c. c = 0) s)))"
| "op_attr isBig (AppendNonce d n) = padded_attribute NONCE d n"
| "op_attr isBig (AppendIceControl ty t) =
     \<lparr>attr_type = ty, attr_length = 8, attr_struct = StunAttributeIceControl (nativebytes64 isBig t @ replicate 4 0)\<rparr>"
| "op_attr isBig (AppendData d n) = padded_attribute DATA d n"
| "op_attr isBig (AppendChannelNumber n) =
     \<lparr>attr_type = CHANNEL_NUMBER, attr_length = 4, attr_struct = StunAttributeChannelNumber n 0\<rparr>"

section \<open>One operation\<close>

text \<open>The bytes an attribute takes in the allocation.\<close>

definition room_of :: "StunAttribute \<Rightarrow> nat" where
  "room_of a = unat (the (getPackagedStunAttributeSize a))"

definition struct_size :: "StunAttribute \<Rightarrow> nat" where
  "struct_size a = unat (attribute_size (attr_type a) (attr_length a))"

text \<open>An append that succeeds, as the one function all of them share.\<close>

definition appended :: "StunPacket \<Rightarrow> StunAttribute \<Rightarrow> u16 \<Rightarrow> StunPacket \<Rightarrow> bool" where
  "appended p a added p' = (\<exists>off extent. getFirstAvailableStunAttribute (Some p) = Some (STATUS_SUCCESS, off) \<and>
     append_attribute p off (ROUND_UP (struct_size a) 8) extent a added = Some (STATUS_SUCCESS, Some p'))"

lemma with_first_Some:
  assumes "with_first_available (Some p) f = Some (STATUS_SUCCESS, Some p')"
  obtains off where "getFirstAvailableStunAttribute (Some p) = Some (STATUS_SUCCESS, off)" "f p off = Some (STATUS_SUCCESS, Some p')"
  using assms by (auto simp: with_first_available_def bind_Some_iff split: if_splits)

lemma STRNLEN_Some: "STRNLEN s n = Some k \<Longrightarrow> k = min n (first_index (\<lambda>c. c = 0) s)"
  by (auto simp: STRNLEN_def Let_def split: if_splits)

lemma with_first_appended:
  assumes "with_first_available (Some p) (\<lambda>p off. append_attribute p off room extent a added) = Some (STATUS_SUCCESS, Some p')"
    and "room = ROUND_UP (struct_size a) 8"
  shows "appended p a added p'"
  using assms(1) by (rule with_first_Some) (auto simp: appended_def assms(2))

lemma struct_size_padded:
  "ty = USERNAME \<or> ty = REALM \<or> ty = NONCE \<or> ty = DATA \<Longrightarrow> struct_size (padded_attribute ty d len) = 16 + unat (padded_length len)"
  by (auto simp: struct_size_def padded_attribute_def attribute_size_def is_address_type_def padded_size)

lemma append_padded_appended:
  assumes "with_first_available (Some p) (\<lambda>p off. append_padded p off ty d len) = Some (STATUS_SUCCESS, Some p')"
    and "ty = USERNAME \<or> ty = REALM \<or> ty = NONCE \<or> ty = DATA"
  shows "appended p (padded_attribute ty d len) (padded_length len + 4) p' \<and> unat len \<le> length d"
  using assms(1)
proof (rule with_first_Some)
  fix off
  assume f: "getFirstAvailableStunAttribute (Some p) = Some (STATUS_SUCCESS, off)"
    "append_padded p off ty d len = Some (STATUS_SUCCESS, Some p')"
  then have "unat len \<le> length d \<and> append_attribute p off (ROUND_UP (unat (padded_length len) + 16) 8) (16 + unat len)
      (padded_attribute ty d len) (padded_length len + 4) = Some (STATUS_SUCCESS, Some p')"
    by (auto simp: append_padded_def Let_def bind_Some_iff memread_def padded_attribute_def split: if_splits)
  then show ?thesis
    using f(1) struct_size_padded [OF assms(2), of d len] by (auto simp: appended_def add.commute)
qed

lemma padded_sendable:
  assumes "unat len \<le> length d" "len \<le> 65532"
    "ty = USERNAME \<and> len \<le> 512 \<or> ty = REALM \<and> len \<le> 128 \<or> ty = NONCE \<and> len \<le> 128 \<or> ty = DATA"
  shows "sendable g (padded_attribute ty d len)"
proof -
  have "unat len \<le> unat (padded_length len)"
    using assms(2) ROUND_UP_bounds [of 4 "unat len"] by (simp add: word_le_nat_alt unat_padded_length)
  then show ?thesis using assms by (auto simp: sendable_def padded_attribute_def)
qed

lemma strnlen_attribute:
  assumes "with_first_available (Some p) (\<lambda>p off. do { n \<leftarrow> STRNLEN s k; append_padded p off ty s (word_of_nat n) }) = Some (STATUS_SUCCESS, Some p')"
    and "k = 512 \<and> ty = USERNAME \<or> k = 128 \<and> ty = REALM"
  defines "len \<equiv> word_of_nat (min k (first_index (\<lambda>c. c = 0) s))"
  shows "appended p (padded_attribute ty s len) (padded_length len + 4) p' \<and> sendable g (padded_attribute ty s len)"
proof -
  have "STRNLEN s k = Some (min k (first_index (\<lambda>c. c = 0) s))"
    using assms(1) by (auto simp: with_first_available_def bind_Some_iff STRNLEN_Some split: if_splits)
  then have w: "with_first_available (Some p) (\<lambda>p off. append_padded p off ty s len) = Some (STATUS_SUCCESS, Some p')"
    using assms(1) by (simp add: len_def)
  have len: "unat len = min k (first_index (\<lambda>c. c = 0) s)" "unat len \<le> k"
    using assms(2) unat_small16 [of "min k (first_index (\<lambda>c. c = 0) s)"] by (auto simp: len_def)
  then show ?thesis
    using append_padded_appended [OF w] padded_sendable [of len s ty g] assms(2) by (auto simp: word_le_nat_alt)
qed

lemma run_op_appended:
  assumes "run_append g op (Some p) = Some (STATUS_SUCCESS, Some p')" "op_ok g op" "length tid = 12"
  shows "sendable g (op_attr g op) \<and> appended p (op_attr g op) (word_of_nat (length (wire g tid (op_attr g op)))) p'"
proof -
  have added: "word_of_nat (length (wire g tid a)) = padded_length (attr_length a) + 4" if "sendable g a" for a
    using length_wire_attr [OF that assms(3)] by simp
  have "sendable g (op_attr g op) \<and> appended p (op_attr g op) (padded_length (attr_length (op_attr g op)) + 4) p'"
  proof (cases op)
    case (AppendAddress ty ip)
    then show ?thesis using assms(1,2)
      by (auto simp: appendStunAddressAttribute_def sendable_def Let_def struct_size_def attribute_size_def
          intro!: with_first_appended split: if_splits)
  next
    case (AppendUsername s)
    then show ?thesis using assms(1) strnlen_attribute [of p s 512 USERNAME p' g]
      by (simp add: appendStunUsernameAttribute_def padded_attribute_def)
  next
    case (AppendRealm s)
    then show ?thesis using assms(1) strnlen_attribute [of p s 128 REALM p' g]
      by (simp add: appendStunRealmAttribute_def padded_attribute_def)
  next
    case (AppendNonce d n)
    then show ?thesis using assms(1,2) append_padded_appended [of p NONCE d n p'] padded_sendable [of n d NONCE g]
      by (auto simp: appendStunNonceAttribute_def padded_attribute_def word_le_nat_alt)
  next
    case (AppendData d n)
    then show ?thesis using assms(1,2) append_padded_appended [of p DATA d n p'] padded_sendable [of n d DATA g]
      by (auto simp: appendStunDataAttribute_def padded_attribute_def)
  qed (use assms(1,2) in \<open>auto simp: appendStunPriorityAttribute_def appendStunFlagAttribute_def appendStunLifetimeAttribute_def
      appendStunChangeRequestAttribute_def appendStunRequestedTransportAttribute_def appendStunIceControllAttribute_def
      appendStunChannelNumberAttribute_def sendable_def struct_size_def attribute_size_def is_address_type_def
      intro!: with_first_appended split: if_splits\<close>)
  then show ?thesis using added [of "op_attr g op"] by simp
qed

section \<open>The layout of the allocation\<close>

lemma packaged_size:
  assumes "sendable g a" "struct_size a \<le> 2048"
  shows "getPackagedStunAttributeSize a = Some (word_of_nat (ROUND_UP (struct_size a) 8))"
proof (cases "attr_struct a")
  case (StunAttributePadded pl c)
  then have ty: "attr_type a = USERNAME \<or> attr_type a = REALM \<or> attr_type a = NONCE \<or> attr_type a = DATA"
      and pl: "pl = padded_length (attr_length a)"
    using assms(1) by (auto simp: sendable_def Let_def)
  then have size: "struct_size a = 16 + unat pl" by (auto simp: struct_size_def attribute_size_def is_address_type_def padded_size)
  then have "unat (16 + pl) = struct_size a" using assms(2) by (simp add: unat_word_ariths)
  then show ?thesis
    using ty StunAttributePadded by (auto simp: getPackagedStunAttributeSize_def struct_padded_def Let_def is_address_type_def)
qed (use assms(1) in \<open>auto simp: getPackagedStunAttributeSize_def sendable_def struct_size_def attribute_size_def Let_def
      is_address_type_def split: if_splits\<close>)

lemma room_sendable:
  assumes "sendable g a" "struct_size a \<le> 2048" "length tid = 12"
  shows "room_of a = ROUND_UP (struct_size a) 8" "struct_size a \<le> room_of a" "4 \<le> struct_size a" "length (wire g tid a) \<le> room_of a"
proof -
  have "ROUND_UP (struct_size a) 8 < 65536" using ROUND_UP_bounds [of 8 "struct_size a"] assms(2) by simp
  then show r: "room_of a = ROUND_UP (struct_size a) 8"
    using packaged_size [OF assms(1,2)] by (simp add: room_of_def unat_small16)
  show "struct_size a \<le> room_of a" using r ROUND_UP_bounds [of 8 "struct_size a"] by simp
  show "4 \<le> struct_size a"
    using attribute_size_known [OF sendable_known(1) [OF assms(1)]] by (simp add: struct_size_def)
  have "length (wire g tid a) \<le> struct_size a"
    unfolding length_wire_attr [OF assms(1,3)] struct_size_def using assms(1)
    by (cases "attr_struct a") (auto simp: sendable_def Let_def attribute_size_def is_address_type_def padded_size split: if_splits)
  then show "length (wire g tid a) \<le> room_of a" using r ROUND_UP_bounds [of 8 "struct_size a"] by simp
qed

text \<open>The attributes follow each other from \<open>pos\<close> to \<open>e\<close>, each inside its own bytes.\<close>

fun packed :: "nat \<Rightarrow> nat list \<Rightarrow> StunAttribute list \<Rightarrow> nat \<Rightarrow> bool" where
  "packed pos [] [] e = (pos = e)"
| "packed pos (off # offs) (a # as) e =
     (off = pos \<and> 4 \<le> struct_size a \<and> struct_size a \<le> room_of a \<and> packed (pos + room_of a) offs as e)"
| "packed pos offs as e = False"

lemma packed_snoc:
  "packed pos offs as e \<Longrightarrow> 4 \<le> struct_size a \<Longrightarrow> struct_size a \<le> room_of a \<Longrightarrow> packed pos (offs @ [e]) (as @ [a]) (e + room_of a)"
  by (induction pos offs as e rule: packed.induct) auto

lemma packed_bounds: "packed pos offs as e \<Longrightarrow> pos \<le> e \<and> (\<forall>off \<in> set offs. pos \<le> off \<and> off < e)"
  by (induction pos offs as e rule: packed.induct) fastforce+

lemma packed_last: "packed pos offs as e \<Longrightarrow> offs \<noteq> [] \<Longrightarrow> as \<noteq> [] \<and> last offs + room_of (last as) = e"
proof (induction pos offs as e rule: packed.induct)
  case (2 pos off offs a as e)
  then show ?case by (cases offs; cases as) auto
qed auto

lemma packed_wires:
  "packed pos offs as e \<Longrightarrow> (\<And>a. a \<in> set as \<Longrightarrow> length (wire g tid a) \<le> room_of a) \<Longrightarrow> pos + length (wires g tid as) \<le> e"
  by (induction pos offs as e rule: packed.induct) force+

definition stun_inv :: "bool \<Rightarrow> StunPacket \<Rightarrow> StunAttribute list \<Rightarrow> bool" where
  "stun_inv isBig p as = (holds isBig p as \<and> allocationSize p = 2048 \<and> length as \<le> 20 \<and>
     (\<exists>e \<le> 2048. packed 200 (attributeList p) as e) \<and> (\<forall>a \<in> set as. struct_size a \<le> 2048) \<and>
     messageLength (stunHeader p) = word_of_nat (length (wires isBig (transactionId (stunHeader p)) as)))"

lemma stun_inv_create:
  assumes "createStunPacket True rnd ty tid = Some (STATUS_SUCCESS, Some p)"
  shows "stun_inv g p [] \<and> stunMessageType (stunHeader p) = ty \<and> (\<forall>t. tid = Some t \<longrightarrow> transactionId (stunHeader p) = take 12 t)"
  using assms by (auto simp: createStunPacket_def bind_Some_iff stun_inv_def holds_def memread_def split: option.splits if_splits)

lemma wires_append [simp]: "wires g tid (xs @ ys) = wires g tid xs @ wires g tid ys"
  by (simp add: wires_def)

lemma first_available_packed:
  assumes "stun_inv g p as" "packed 200 (attributeList p) as e" "getFirstAvailableStunAttribute (Some p) = Some (STATUS_SUCCESS, off)"
  shows "off = e"
proof (cases "attributeList p = []")
  case True
  then have "as = []" "attributesCount p = 0" using assms(1) by (auto simp: stun_inv_def holds_def unat_eq_0)
  then show ?thesis using assms(2,3) True by (simp add: getFirstAvailableStunAttribute_def)
next
  case False
  let ?n = "length (attributeList p)"
  have h: "list_all2 (\<lambda>off a. attrs p off = Some a) (attributeList p) as" "unat (attributesCount p) = ?n"
      "\<forall>a \<in> set as. sendable g a" "\<forall>a \<in> set as. struct_size a \<le> 2048"
    using assms(1) by (auto simp: stun_inv_def holds_def)
  have l: "as \<noteq> []" "last (attributeList p) + room_of (last as) = e" using packed_last [OF assms(2) False] by auto
  have "attrs p (last (attributeList p)) = Some (last as)"
    using h(1) False l(1) list_all2_lengthD [OF h(1)] list_all2_nthD [OF h(1), of "?n - 1"] by (simp add: last_conv_nth)
  moreover have "getPackagedStunAttributeSize (last as) \<noteq> None"
    using packaged_size [of g "last as"] h(3,4) l(1) by auto
  moreover have "memget (attributeList p) (unat (attributesCount p) - 1) = Some (last (attributeList p))"
    using h(2) False by (simp add: memget_def last_conv_nth)
  moreover have "attributesCount p \<noteq> 0" using h(2) False by (auto simp: unat_eq_0)
  ultimately show ?thesis
    using assms(3) l(2) by (auto simp: getFirstAvailableStunAttribute_def room_of_def split: if_splits)
qed

lemma stun_inv_appended:
  assumes inv: "stun_inv g p as" and a: "sendable g a" and n: "length as < 20"
    and app: "appended p a (word_of_nat (length (wire g (transactionId (stunHeader p)) a))) p'"
  shows "stun_inv g p' (as @ [a]) \<and> stunMessageType (stunHeader p') = stunMessageType (stunHeader p) \<and>
    transactionId (stunHeader p') = transactionId (stunHeader p)"
proof -
  obtain e where e: "packed 200 (attributeList p) as e" "e \<le> 2048" using inv by (auto simp: stun_inv_def)
  have h: "list_all2 (\<lambda>off a. attrs p off = Some a) (attributeList p) as" "unat (attributesCount p) = length (attributeList p)"
      "length (transactionId (stunHeader p)) = 12" "allocationSize p = 2048"
    using inv by (auto simp: stun_inv_def holds_def)
  have len: "length (attributeList p) = length as" using list_all2_lengthD [OF h(1)] .
  let ?slot = "40 + 8 * length as"
  obtain extent where "append_attribute p e (ROUND_UP (struct_size a) 8) extent a (word_of_nat (length (wire g (transactionId (stunHeader p)) a))) =
      Some (STATUS_SUCCESS, Some p')"
    using app first_available_packed [OF inv e(1)] by (auto simp: appended_def)
  then have fits: "e + ROUND_UP (struct_size a) 8 \<le> 2048"
    and p': "p' = p\<lparr>stunHeader := (stunHeader p)\<lparr>messageLength := messageLength (stunHeader p) +
          word_of_nat (length (wire g (transactionId (stunHeader p)) a))\<rparr>,
        attributesCount := attributesCount p + 1, attributeList := attributeList p @ [e],
        attrs := (\<lambda>o'. if ?slot \<le> o' \<and> o' < ?slot + 8 then None else ((attrs p)(e \<mapsto> a)) o')\<rparr>"
    using h(2,4) len by (auto simp: append_attribute_def Let_def split: if_splits)
  have small: "struct_size a \<le> 2048" using fits ROUND_UP_bounds [of 8 "struct_size a"] by simp
  note room = room_sendable [OF a small h(3)]
  have bounds: "200 \<le> e" "\<And>off. off \<in> set (attributeList p) \<Longrightarrow> 200 \<le> off \<and> off < e" using packed_bounds [OF e(1)] by auto
  have "list_all2 (\<lambda>off a. attrs p' off = Some a) (attributeList p) as"
    by (rule list.rel_mono_strong [OF h(1)]) (use bounds(2) n in \<open>force simp: p'\<close>)
  moreover have "attrs p' e = Some a" using bounds(1) n by (simp add: p')
  ultimately have all: "list_all2 (\<lambda>off a. attrs p' off = Some a) (attributeList p') (as @ [a])"
    by (simp add: p' list_all2_appendI)
  have "unat (attributesCount p + 1) = length (attributeList p) + 1"
    using h(2) len n by (simp add: unat_word_ariths)
  moreover have "packed 200 (attributeList p') (as @ [a]) (e + room_of a)" using packed_snoc [OF e(1) room(3,2)] by (simp add: p')
  ultimately have "stun_inv g p' (as @ [a])"
    using inv a n all fits room(1) small by (auto simp: stun_inv_def holds_def p')
  then show ?thesis by (simp add: p')
qed

text \<open>A sequence of operations; it stops with the first that does not succeed.\<close>

fun run_appends :: "bool \<Rightarrow> stun_op list \<Rightarrow> StunPacket option \<Rightarrow> (STATUS \<times> StunPacket option) option" where
  "run_appends isBig [] p = Some (STATUS_SUCCESS, p)"
| "run_appends isBig (op # ops) p =
     do { (status, p) \<leftarrow> run_append isBig op p;
          if status \<noteq> STATUS_SUCCESS then Some (status, p) else run_appends isBig ops p }"

lemma append_packet:
  "append_attribute p off room extent a added = Some (status, r) \<Longrightarrow> r \<noteq> None"
  by (auto simp: append_attribute_def Let_def split: if_splits)

lemma with_first_packet:
  "with_first_available (Some p) f = Some (status, r) \<Longrightarrow> (\<And>off s r. f p off = Some (s, r) \<Longrightarrow> r \<noteq> None) \<Longrightarrow> r \<noteq> None"
  by (auto simp: with_first_available_def bind_Some_iff split: if_splits)

lemma run_op_packet: "run_append g op (Some p) = Some (status, r) \<Longrightarrow> r \<noteq> None"
  by (cases op)
    (auto simp: appendStunAddressAttribute_def appendStunUsernameAttribute_def appendStunPriorityAttribute_def appendStunFlagAttribute_def
      appendStunLifetimeAttribute_def appendStunChangeRequestAttribute_def appendStunRequestedTransportAttribute_def
      appendStunRealmAttribute_def appendStunNonceAttribute_def appendStunIceControllAttribute_def appendStunDataAttribute_def
      appendStunChannelNumberAttribute_def append_padded_def bind_Some_iff Let_def split: if_splits
      dest!: with_first_packet append_packet)

lemma run_ops_inv:
  assumes "stun_inv g p as" "run_appends g ops (Some p) = Some (STATUS_SUCCESS, Some p')" "\<forall>op \<in> set ops. op_ok g op" "length as + length ops \<le> 20"
  shows "stun_inv g p' (as @ map (op_attr g) ops) \<and> stunMessageType (stunHeader p') = stunMessageType (stunHeader p) \<and>
    transactionId (stunHeader p') = transactionId (stunHeader p)"
  using assms
proof (induction ops arbitrary: p as)
  case (Cons op ops)
  obtain q where q: "run_append g op (Some p) = Some (STATUS_SUCCESS, Some q)" "run_appends g ops (Some q) = Some (STATUS_SUCCESS, Some p')"
    using Cons.prems(2) run_op_packet [of g op p] by (auto simp: bind_Some_iff split: if_splits)
  have t: "length (transactionId (stunHeader p)) = 12" using Cons.prems(1) by (simp add: stun_inv_def holds_def)
  have "sendable g (op_attr g op)" "appended p (op_attr g op) (word_of_nat (length (wire g (transactionId (stunHeader p)) (op_attr g op)))) q"
    using run_op_appended [OF q(1) _ t] Cons.prems(3) by auto
  from stun_inv_appended [OF Cons.prems(1) this(1) _ this(2)] Cons.prems(4)
  show ?case using Cons.IH [of q "as @ [op_attr g op]"] q(2) Cons.prems(3,4) by simp
qed simp

section \<open>Properties\<close>


lemmas append_defs = with_first_available_def getFirstAvailableStunAttribute_def getPackagedStunAttributeSize_def append_attribute_def
  is_address_type_def ROUND_UP_def Let_def memget_def


text \<open>
  The 21st attribute is accepted, and the pointer to it is written over the first attribute, which is lost.
\<close>

lemma stun_21st_attribute:
  assumes "stun_inv g p as" "length as = 20" "appended p a added p'"
  shows "attrs p' (hd (attributeList p')) = None"
proof -
  have h: "list_all2 (\<lambda>off a. attrs p off = Some a) (attributeList p) as" "unat (attributesCount p) = length (attributeList p)"
    using assms(1) by (auto simp: stun_inv_def holds_def)
  have len: "length (attributeList p) = 20" using list_all2_lengthD [OF h(1)] assms(2) by simp
  obtain e where "packed 200 (attributeList p) as e" using assms(1) by (auto simp: stun_inv_def)
  then have "hd (attributeList p) = 200" using len by (cases "attributeList p"; cases as) auto
  then show ?thesis
    using assms(3) h(2) len
    by (cases "attributeList p") (auto simp: appended_def append_attribute_def Let_def split: if_splits)
qed

end
