(* ===== verification/IceUtils.thy ===== *)
theory IceUtils
  imports StunBuild
begin

text \<open>
  \<^verbatim>\<open>src/source/Ice/IceUtils.c\<close>: the store of transaction identifiers and the packaging of STUN messages.

  The store is the flat ring of the code. Its specification is the set of identifiers in its slots:
  an identifier is found if and only if it is among the last ones inserted, as many as there are slots, or is all zero
  while a slot is unused. \<open>iceUtilsPackageStunPacket\<close> is what every sender calls; with the parser it gives the
  round trip of every message built with the append functions.
\<close>

section \<open>The store of transaction identifiers\<close>

record TransactionIdStore =
  maxTransactionIdsCount :: u32
  nextTransactionIdIndex :: u32
  earliestTransactionIdIndex :: u32
  transactionIdCount :: u32
  transactionIds :: bytes

abbreviation (input) STUN_TRANSACTION_ID_LEN :: nat where "STUN_TRANSACTION_ID_LEN \<equiv> 12"

definition createTransactionIdStore :: "bool \<Rightarrow> u32 \<Rightarrow> STATUS \<times> TransactionIdStore option" where
  "createTransactionIdStore mem maxIdCount =
     (if \<not> (maxIdCount < 100 \<and> 0 < maxIdCount) then (STATUS_INVALID_ARG, None)
      else if \<not> mem then (STATUS_NOT_ENOUGH_MEMORY, None)
      else (STATUS_SUCCESS, Some \<lparr>maxTransactionIdsCount = maxIdCount, nextTransactionIdIndex = 0, earliestTransactionIdIndex = 0,
              transactionIdCount = 0, transactionIds = replicate (STUN_TRANSACTION_ID_LEN * unat maxIdCount) 0\<rparr>))"

definition freeTransactionIdStore :: "TransactionIdStore option option \<Rightarrow> STATUS \<times> TransactionIdStore option option" where
  "freeTransactionIdStore pp =
     (case pp of None \<Rightarrow> (STATUS_NULL_ARG, None) | Some None \<Rightarrow> (STATUS_SUCCESS, Some None) | Some (Some s) \<Rightarrow> (STATUS_SUCCESS, Some None))"

definition transactionIdStoreInsert :: "TransactionIdStore \<Rightarrow> bytes \<Rightarrow> TransactionIdStore option" where
  "transactionIdStoreInsert s tid =
     do { d \<leftarrow> memread tid 0 STUN_TRANSACTION_ID_LEN;
          ids \<leftarrow> memwrite (transactionIds s)
                  (unat (nextTransactionIdIndex s mod maxTransactionIdsCount s) * STUN_TRANSACTION_ID_LEN) d;
          let s = s\<lparr>transactionIds := ids,
                    nextTransactionIdIndex := (nextTransactionIdIndex s + 1) mod maxTransactionIdsCount s\<rparr>;
          Some (if nextTransactionIdIndex s = earliestTransactionIdIndex s
                then s\<lparr>earliestTransactionIdIndex := (earliestTransactionIdIndex s + 1) mod maxTransactionIdsCount s\<rparr>
                else s\<lparr>transactionIdCount := min (transactionIdCount s + 1) (maxTransactionIdsCount s)\<rparr>) }"

fun has_id_loop :: "TransactionIdStore \<Rightarrow> bytes \<Rightarrow> u32 \<Rightarrow> nat \<Rightarrow> bool option" where
  "has_id_loop s tid i 0 = Some False"
| "has_id_loop s tid i (Suc n) =
     do { d \<leftarrow> memread tid 0 STUN_TRANSACTION_ID_LEN;
          e \<leftarrow> memread (transactionIds s) (unat i * STUN_TRANSACTION_ID_LEN) STUN_TRANSACTION_ID_LEN;
          if d = e then Some True
          else has_id_loop s tid ((i + 1) mod maxTransactionIdsCount s) n }"

definition transactionIdStoreHasId :: "TransactionIdStore \<Rightarrow> bytes \<Rightarrow> bool option" where
  "transactionIdStoreHasId s tid =
     has_id_loop s tid (earliestTransactionIdIndex s) (unat (maxTransactionIdsCount s))"

fun remove_loop :: "TransactionIdStore \<Rightarrow> bytes \<Rightarrow> u32 \<Rightarrow> nat \<Rightarrow> TransactionIdStore option" where
  "remove_loop s tid i 0 = Some s"
| "remove_loop s tid i (Suc n) =
     do { d \<leftarrow> memread tid 0 STUN_TRANSACTION_ID_LEN;
          e \<leftarrow> memread (transactionIds s) (unat i * STUN_TRANSACTION_ID_LEN) STUN_TRANSACTION_ID_LEN;
          if d = e
          then do { ids \<leftarrow> memwrite (transactionIds s) (unat i * STUN_TRANSACTION_ID_LEN) (replicate STUN_TRANSACTION_ID_LEN 0);
                    Some (s\<lparr>transactionIds := ids\<rparr>) }
          else remove_loop s tid ((i + 1) mod maxTransactionIdsCount s) n }"

definition transactionIdStoreRemove :: "TransactionIdStore \<Rightarrow> bytes \<Rightarrow> TransactionIdStore option" where
  "transactionIdStoreRemove s tid =
     remove_loop s tid (earliestTransactionIdIndex s) (unat (maxTransactionIdsCount s))"

definition transactionIdStoreClear :: "TransactionIdStore \<Rightarrow> TransactionIdStore" where
  "transactionIdStoreClear s = s\<lparr>nextTransactionIdIndex := 0, earliestTransactionIdIndex := 0, transactionIdCount := 0\<rparr>"

definition iceUtilsGenerateTransactionId :: "(nat \<Rightarrow> nat) \<Rightarrow> bytes option \<Rightarrow> u32 \<Rightarrow> (STATUS \<times> bytes option) option" where
  "iceUtilsGenerateTransactionId rnd pBuffer bufferLen =
     (case pBuffer of
        None \<Rightarrow> Some (STATUS_NULL_ARG, None)
      | Some b \<Rightarrow>
          if bufferLen \<noteq> 12 then Some (STATUS_INVALID_ARG, Some b)
          else do { b \<leftarrow> memwrite b 0 (map (\<lambda>i. word_of_nat (rnd i mod 0x100)) [0..<12]); Some (STATUS_SUCCESS, Some b) })"

section \<open>Packaging\<close>

definition iceUtilsPackageStunPacket ::
  "bool \<Rightarrow> (bytes \<Rightarrow> bytes \<Rightarrow> bytes option) \<Rightarrow> StunPacket option \<Rightarrow> bytes option \<Rightarrow> bytes option \<Rightarrow> u32 \<Rightarrow>
   (STATUS \<times> bytes option \<times> u32) option" where
  "iceUtilsPackageStunPacket isBig hmac pStunPacket password pBuffer bufferLen =
     (case (pStunPacket, pBuffer) of
        (Some p, Some b) \<Rightarrow>
          if password = Some [] then Some (STATUS_INVALID_ARG, pBuffer, bufferLen)
          else do {
            (status, buf, stunPacketSize) \<leftarrow> serializeStunPacket isBig hmac (Some p) password (password \<noteq> None) True None 0;
            if status \<noteq> STATUS_SUCCESS then Some (status, pBuffer, bufferLen)
            else if bufferLen < stunPacketSize then Some (STATUS_BUFFER_TOO_SMALL, pBuffer, bufferLen)
            else do {
              (status, buf, stunPacketSize) \<leftarrow>
                serializeStunPacket isBig hmac (Some p) password (password \<noteq> None) True (Some b) stunPacketSize;
              if status \<noteq> STATUS_SUCCESS then Some (status, buf, bufferLen)
              else Some (STATUS_SUCCESS, buf, stunPacketSize) } }
      | _ \<Rightarrow> Some (STATUS_NULL_ARG, pBuffer, bufferLen))"

section \<open>The slots of the store\<close>

definition slot :: "TransactionIdStore \<Rightarrow> nat \<Rightarrow> bytes" where
  "slot s k = take 12 (drop (k * 12) (transactionIds s))"

definition store_ok :: "TransactionIdStore \<Rightarrow> bool" where
  "store_ok s = (0 < maxTransactionIdsCount s \<and> maxTransactionIdsCount s < 100 \<and>
     length (transactionIds s) = 12 * unat (maxTransactionIdsCount s) \<and>
     nextTransactionIdIndex s < maxTransactionIdsCount s \<and> earliestTransactionIdIndex s < maxTransactionIdsCount s)"

definition slots :: "TransactionIdStore \<Rightarrow> bytes list" where
  "slots s = map (slot s) [0..<unat (maxTransactionIdsCount s)]"

lemma slot_read:
  assumes "store_ok s" "k < unat (maxTransactionIdsCount s)"
  shows "memread (transactionIds s) (k * 12) 12 = Some (slot s k)" "length (slot s k) = 12"
proof -
  have "k * 12 + 12 \<le> 12 * unat (maxTransactionIdsCount s)" using assms(2) by linarith
  then show "memread (transactionIds s) (k * 12) 12 = Some (slot s k)" "length (slot s k) = 12"
    using assms(1) by (simp_all add: memread_def slot_def store_ok_def)
qed

lemma store_next:
  assumes "i < m" "m < 100"
  shows "unat ((i + 1) mod m) = (unat i + 1) mod unat m" "(i + 1) mod m < (m :: u32)"
proof -
  have "unat (i + 1) = unat i + 1" using assms by (simp add: word_less_nat_alt unat_word_ariths)
  then show "unat ((i + 1) mod m) = (unat i + 1) mod unat m" by (simp add: unat_mod)
  show "(i + 1) mod m < m" using assms by (simp add: word_less_nat_alt unat_mod)
qed

lemma has_id_loop_slots:
  assumes "store_ok s" "length tid = 12" "i < maxTransactionIdsCount s"
  shows "has_id_loop s tid i n = Some (\<exists>j < n. slot s ((unat i + j) mod unat (maxTransactionIdsCount s)) = tid)"
  using assms(3)
proof (induction n arbitrary: i)
  case (Suc n)
  let ?m = "maxTransactionIdsCount s"
  have i: "unat i < unat ?m" "?m < 100" using Suc.prems assms(1) by (simp_all add: word_less_nat_alt store_ok_def)
  note nxt = store_next [OF Suc.prems i(2)]
  have shift: "(unat ((i + 1) mod ?m) + j) mod unat ?m = (unat i + Suc j) mod unat ?m" for j
    by (simp add: nxt(1) mod_add_left_eq)
  have "has_id_loop s tid i (Suc n) = Some (slot s (unat i) = tid \<or> (\<exists>j < n. slot s ((unat i + Suc j) mod unat ?m) = tid))"
    using Suc.IH [OF nxt(2)] slot_read [OF assms(1) i(1)] assms(2) memread_all [of 12 tid] by (auto simp: shift)
  moreover have "(\<exists>j < Suc n. slot s ((unat i + j) mod unat ?m) = tid) =
      (slot s (unat i) = tid \<or> (\<exists>j < n. slot s ((unat i + Suc j) mod unat ?m) = tid))"
    using i(1) by (auto simp: less_Suc_eq_0_disj)
  ultimately show ?case by simp
qed simp

lemma ring_covers: "i < m \<Longrightarrow> (\<exists>j < m. P ((i + j) mod m)) = (\<exists>k < m. P k)" for i m :: nat
proof
  assume i: "i < m" and "\<exists>k < m. P k"
  then obtain k where k: "k < m" "P k" by blast
  let ?j = "(k + (m - i)) mod m"
  have "(i + ?j) mod m = (i + (k + (m - i))) mod m" by (simp add: mod_add_right_eq)
  also have "i + (k + (m - i)) = k + m" using i by simp
  finally have "(i + ?j) mod m = k" using k(1) by simp
  then show "\<exists>j < m. P ((i + j) mod m)" using k i by (intro exI [of _ ?j]) simp
qed (auto intro: exI [of _ "(i + j) mod m" for j])

lemma hasId_slots:
  assumes "store_ok s" "length tid = 12"
  shows "transactionIdStoreHasId s tid = Some (tid \<in> set (slots s))"
proof -
  have i: "earliestTransactionIdIndex s < maxTransactionIdsCount s" using assms(1) by (simp add: store_ok_def)
  then show ?thesis
    using has_id_loop_slots [OF assms i]
      ring_covers [of "unat (earliestTransactionIdIndex s)" "unat (maxTransactionIdsCount s)" "\<lambda>k. slot s k = tid"]
    by (auto simp: transactionIdStoreHasId_def slots_def word_less_nat_alt)
qed

lemma write_slot:
  assumes "store_ok s" "k < unat (maxTransactionIdsCount s)" "length d = 12"
  shows "\<exists>ids. memwrite (transactionIds s) (k * 12) d = Some ids \<and> length ids = length (transactionIds s) \<and>
    (\<forall>j < unat (maxTransactionIdsCount s). take 12 (drop (j * 12) ids) = (if j = k then d else slot s j))"
proof -
  let ?ids = "bsplice (transactionIds s) (k * 12) d"
  have len: "length (transactionIds s) = 12 * unat (maxTransactionIdsCount s)" using assms(1) by (simp add: store_ok_def)
  have k: "k * 12 + 12 \<le> length (transactionIds s)" using assms(2) len by linarith
  have "take 12 (drop (j * 12) ?ids) = (if j = k then d else slot s j)" if "j < unat (maxTransactionIdsCount s)" for j
  proof -
    consider "j = k" | "j < k" | "k < j" by linarith
    then show ?thesis
    proof cases
      case 1
      then show ?thesis using k assms(3) by (simp add: bsplice_def)
    next
      case 2
      then have "j * 12 \<le> k * 12" "12 \<le> k * 12 - j * 12" by linarith+
      moreover have "length (take (k * 12) (transactionIds s)) = k * 12" using k by simp
      ultimately show ?thesis using 2 by (simp add: bsplice_def slot_def drop_take)
    next
      case 3
      then have "k * 12 + 12 \<le> j * 12" by linarith
      then show ?thesis using 3 k assms(3) by (simp add: bsplice_def slot_def)
    qed
  qed
  then show ?thesis using k assms(3) by (simp add: memwrite_def)
qed

lemma insert_slots:
  assumes "store_ok s" "length tid = 12"
  shows "\<exists>s'. transactionIdStoreInsert s tid = Some s' \<and> store_ok s' \<and> maxTransactionIdsCount s' = maxTransactionIdsCount s \<and>
    slots s' = (slots s)[unat (nextTransactionIdIndex s) := tid] \<and>
    unat (nextTransactionIdIndex s') = (unat (nextTransactionIdIndex s) + 1) mod unat (maxTransactionIdsCount s)"
proof -
  let ?m = "maxTransactionIdsCount s" and ?k = "unat (nextTransactionIdIndex s)"
  have ok: "nextTransactionIdIndex s < ?m" "earliestTransactionIdIndex s < ?m" "?m < 100" using assms(1) by (simp_all add: store_ok_def)
  then have k: "?k < unat ?m" "unat (nextTransactionIdIndex s mod ?m) = ?k" by (simp_all add: word_less_nat_alt unat_mod)
  obtain ids where ids: "memwrite (transactionIds s) (?k * 12) tid = Some ids" "length ids = length (transactionIds s)"
      "\<forall>j < unat ?m. take 12 (drop (j * 12) ids) = (if j = ?k then tid else slot s j)"
    using write_slot [OF assms(1) k(1) assms(2)] by blast
  note nxt = store_next [OF ok(1,3)] store_next [OF ok(2,3)]
  define s1 where "s1 = s\<lparr>transactionIds := ids, nextTransactionIdIndex := (nextTransactionIdIndex s + 1) mod ?m\<rparr>"
  define s' where "s' = (if nextTransactionIdIndex s1 = earliestTransactionIdIndex s1
      then s1\<lparr>earliestTransactionIdIndex := (earliestTransactionIdIndex s1 + 1) mod maxTransactionIdsCount s1\<rparr>
      else s1\<lparr>transactionIdCount := min (transactionIdCount s1 + 1) (maxTransactionIdsCount s1)\<rparr>)"
  have "transactionIdStoreInsert s tid = Some s'"
    using ids(1) k(2) assms(2) memread_all [of 12 tid] by (simp add: transactionIdStoreInsert_def s'_def s1_def Let_def)
  then have ins: "transactionIdStoreInsert s tid = Some s'" "transactionIds s' = ids" "maxTransactionIdsCount s' = ?m"
      "nextTransactionIdIndex s' = (nextTransactionIdIndex s + 1) mod ?m"
      "earliestTransactionIdIndex s' \<in> {earliestTransactionIdIndex s, (earliestTransactionIdIndex s + 1) mod ?m}"
    by (simp_all add: s'_def s1_def)
  have "slots s' = (slots s)[?k := tid]"
  proof (rule nth_equalityI)
    show "length (slots s') = length ((slots s)[?k := tid])" by (simp add: slots_def ins(3))
    fix j
    assume "j < length (slots s')"
    then have j: "j < unat ?m" by (simp add: slots_def ins(3))
    then have "slots s' ! j = (if j = ?k then tid else slot s j)" using ids(3) by (simp add: slots_def slot_def ins(2,3))
    then show "slots s' ! j = (slots s)[?k := tid] ! j" using j k(1) by (simp add: slots_def)
  qed
  moreover have "store_ok s'"
    using assms(1) ins(5) ids(2) nxt(2,4) ok(2) by (auto simp: store_ok_def ins(2-4))
  ultimately show ?thesis using ins(1,3,4) nxt(1) by simp
qed

section \<open>A sequence of insertions\<close>

fun insert_all :: "TransactionIdStore \<Rightarrow> bytes list \<Rightarrow> TransactionIdStore option" where
  "insert_all s [] = Some s"
| "insert_all s (t # ts) = do { s \<leftarrow> transactionIdStoreInsert s t; insert_all s ts }"

text \<open>The slots after the insertions \<open>ts\<close>: the last ones are there, the unused slots are zero.\<close>

definition ring_of :: "nat \<Rightarrow> bytes list \<Rightarrow> TransactionIdStore \<Rightarrow> bool" where
  "ring_of m ts s = (store_ok s \<and> unat (maxTransactionIdsCount s) = m \<and> unat (nextTransactionIdIndex s) = length ts mod m \<and>
     (\<forall>j < length ts. length ts \<le> j + m \<longrightarrow> slots s ! (j mod m) = ts ! j) \<and>
     (\<forall>k < m. length ts \<le> k \<longrightarrow> slots s ! k = replicate 12 0))"

lemma ring_of_create:
  assumes "createTransactionIdStore True n = (STATUS_SUCCESS, Some s)"
  shows "ring_of (unat n) [] s" "0 < unat n"
proof -
  have n: "n < 100" "0 < n" and s: "s = \<lparr>maxTransactionIdsCount = n, nextTransactionIdIndex = 0, earliestTransactionIdIndex = 0,
      transactionIdCount = 0, transactionIds = replicate (12 * unat n) 0\<rparr>"
    using assms by (auto simp: createTransactionIdStore_def split: if_splits)
  have "k < unat n \<Longrightarrow> 12 \<le> 12 * unat n - k * 12" for k by linarith
  then show "ring_of (unat n) [] s"
    using n by (simp add: ring_of_def store_ok_def s slots_def slot_def take_replicate min_def)
  show "0 < unat n" using n(2) by (simp add: word_less_nat_alt)
qed

lemma ring_of_insert:
  assumes "ring_of m ts s" "length t = 12"
  shows "\<exists>s'. transactionIdStoreInsert s t = Some s' \<and> ring_of m (ts @ [t]) s'"
proof -
  have ok: "store_ok s" and m: "unat (maxTransactionIdsCount s) = m" and n: "unat (nextTransactionIdIndex s) = length ts mod m"
    using assms(1) by (simp_all add: ring_of_def)
  have m0: "0 < m" using ok m by (auto simp: store_ok_def word_less_nat_alt)
  obtain s' where s': "transactionIdStoreInsert s t = Some s'" "store_ok s'" "unat (maxTransactionIdsCount s') = m"
      "slots s' = (slots s)[length ts mod m := t]" "unat (nextTransactionIdIndex s') = (length ts + 1) mod m"
    using insert_slots [OF ok assms(2)] m n by (auto simp: mod_Suc_eq)
  have len: "length (slots s) = m" by (simp add: slots_def m)
  have apart: "j mod m \<noteq> length ts mod m" if "j < length ts" "length ts < j + m" for j
    using that mod_eq_dvd_iff_nat [of j "length ts" m] by (auto dest: dvd_imp_le)
  have "slots s' ! (j mod m) = (ts @ [t]) ! j" if "j < length (ts @ [t])" "length (ts @ [t]) \<le> j + m" for j
  proof (cases "j = length ts")
    case True
    then show ?thesis using m0 len by (simp add: s'(4))
  next
    case False
    then show ?thesis using that assms(1) apart [of j] by (simp add: s'(4) ring_of_def nth_append)
  qed
  moreover have "slots s' ! k = replicate 12 0" if "k < m" "length (ts @ [t]) \<le> k" for k
    using that assms(1) by (simp add: s'(4) ring_of_def)
  ultimately show ?thesis using s' by (auto simp: ring_of_def)
qed

lemma ring_of_insert_all:
  assumes "ring_of m us s" "\<forall>t \<in> set ts. length t = 12"
  shows "\<exists>s'. insert_all s ts = Some s' \<and> ring_of m (us @ ts) s'"
  using assms
proof (induction ts arbitrary: us s)
  case (Cons t ts)
  then obtain s1 where s1: "transactionIdStoreInsert s t = Some s1" "ring_of m (us @ [t]) s1"
    using ring_of_insert [of m us s t] by auto
  then show ?case using Cons.IH [OF s1(2)] Cons.prems(2) by auto
qed simp

lemma ring_of_ids:
  assumes "ring_of m ts s" "0 < m"
  shows "(t \<in> set (slots s)) = (t \<in> set (drop (length ts - m) ts) \<or> length ts < m \<and> t = replicate 12 0)"
proof -
  have len: "length (slots s) = m" using assms(1) by (simp add: slots_def ring_of_def)
  then have set: "(t \<in> set (slots s)) = (\<exists>k < m. slots s ! k = t)" by (auto simp: in_set_conv_nth)
  show ?thesis
  proof (cases "length ts < m")
    case True
    have nth: "slots s ! k = (if k < length ts then ts ! k else replicate 12 0)" if "k < m" for k
      using assms(1) that True by (auto simp: ring_of_def)
    show ?thesis unfolding set using True nth by (auto simp: in_set_conv_nth) (metis less_trans nth)
  next
    case False
    let ?o = "length ts - m"
    have nth: "slots s ! ((?o + j) mod m) = ts ! (?o + j)" if "j < m" for j
      using assms(1) that False by (simp add: ring_of_def)
    have "(\<exists>k < m. slots s ! k = t) = (\<exists>j < m. slots s ! ((?o mod m + j) mod m) = t)"
      using ring_covers [of "?o mod m" m "\<lambda>k. slots s ! k = t"] assms(2) by simp
    also have "\<dots> = (\<exists>j < m. ts ! (?o + j) = t)" using nth by (auto simp: mod_add_left_eq)
    also have "\<dots> = (t \<in> set (drop ?o ts))" using False by (auto simp: in_set_conv_nth)
    finally show ?thesis using set False by simp
  qed
qed

section \<open>Properties\<close>

text \<open>
  C40. The ring of transaction identifiers refines its specification: after any sequence of insertions into a new store of \<open>n\<close> slots,
  an identifier is found if and only if it is one of the last \<open>n\<close> inserted ones, or is all zero while fewer
  than \<open>n\<close> have been inserted.
\<close>

theorem transaction_store_refines:
  assumes "createTransactionIdStore True n = (STATUS_SUCCESS, Some s)" "\<forall>t \<in> set ts. length t = 12" "length t = 12"
  shows "\<exists>s'. insert_all s ts = Some s' \<and>
    transactionIdStoreHasId s' t = Some (t \<in> set (drop (length ts - unat n) ts) \<or> length ts < unat n \<and> t = replicate 12 0)"
proof -
  obtain s' where s': "insert_all s ts = Some s'" "ring_of (unat n) ts s'"
    using ring_of_insert_all [OF ring_of_create(1) [OF assms(1)] assms(2)] by auto
  then show ?thesis
    using hasId_slots [of s' t] ring_of_ids [OF s'(2) ring_of_create(2) [OF assms(1)]] assms(3) by (simp add: ring_of_def)
qed

theorem transaction_store_refines_witness:
  "\<exists>s s'. createTransactionIdStore True 2 = (STATUS_SUCCESS, Some s) \<and>
     insert_all s [replicate 12 1, replicate 12 2, replicate 12 3] = Some s' \<and> transactionIdStoreHasId s' (replicate 12 1) = Some False"
proof -
  obtain s where s: "createTransactionIdStore True 2 = (STATUS_SUCCESS, Some s)" by (simp add: createTransactionIdStore_def)
  have "replicate 12 (1 :: byte) \<noteq> replicate 12 2" "replicate 12 (1 :: byte) \<noteq> replicate 12 3" by simp_all
  then show ?thesis
    using s transaction_store_refines [OF s, of "[replicate 12 1, replicate 12 2, replicate 12 3]" "replicate 12 1"]
    by simp
qed

text \<open>\<open>transactionIdStoreClear\<close> resets the indices only: every identifier is still found.\<close>

lemma clear_keeps_ids:
  assumes "store_ok s" "length t = 12"
  shows "transactionIdStoreHasId (transactionIdStoreClear s) t = transactionIdStoreHasId s t"
proof -
  have "store_ok (transactionIdStoreClear s)" "slots (transactionIdStoreClear s) = slots s"
    using assms(1) by (auto simp: store_ok_def transactionIdStoreClear_def slots_def slot_def)
  then show ?thesis using hasId_slots assms by simp
qed

section \<open>A message from the builder to the parser\<close>

text \<open>The attributes of a packet fit into its allocation, so the message is shorter than 1900 bytes.\<close>

lemma built_wires_short:
  assumes "stun_inv g p as" "length tid = 12"
  shows "length (wires g tid as) \<le> 1848"
proof -
  obtain e where e: "packed 200 (attributeList p) as e" "e \<le> 2048" using assms(1) by (auto simp: stun_inv_def)
  have "length (wire g tid a) \<le> room_of a" if "a \<in> set as" for a
    using that assms(1) room_sendable(4) [OF _ _ assms(2), of g a] by (simp add: stun_inv_def holds_def)
  from packed_wires [OF e(1) this] e(2) show ?thesis by simp
qed

lemma package_serialized:
  assumes "serializeStunPacket g hmac (Some p) password (password \<noteq> None) True None 0 = Some (STATUS_SUCCESS, None, n)"
    "serializeStunPacket g hmac (Some p) password (password \<noteq> None) True (Some b) n = Some (STATUS_SUCCESS, Some b', n)"
    "password \<noteq> Some []" "n \<le> bufferLen"
  shows "iceUtilsPackageStunPacket g hmac (Some p) password (Some b) bufferLen = Some (STATUS_SUCCESS, Some b', n)"
  using assms by (simp add: iceUtilsPackageStunPacket_def not_less)



end
