(* ===== verification/Spec2Isabelle.thy ===== *)
theory Spec2Isabelle
  imports RtpReceive NativeSctp HashTable DoubleLinkedList SignalingState Retransmitter RtpH265 H264Transport StunSafety IceUtils
begin

text \<open>
  Verification of the media and data transport of the Amazon Kinesis Video Streams WebRTC SDK in C.

  \<^bold>\<open>The program.\<close> A peer connection (\<^verbatim>\<open>src/source/PeerConnection\<close>) sends media frames and data channel
  messages to a peer. A frame is cut into payloads by a codec payloader (\<^verbatim>\<open>Rtp/Codecs\<close>), the payloads
  become RTP packets (\<^verbatim>\<open>Rtp/RtpPacket.c\<close>), which are kept in a rolling buffer
  (\<^verbatim>\<open>Rtcp/RollingBuffer.c\<close>, \<^verbatim>\<open>Rtcp/RtpRollingBuffer.c\<close>) in case the peer reports a loss; the report is an
  RTCP packet (\<^verbatim>\<open>Rtcp/RtcpPacket.c\<close>) that the retransmitter (\<^verbatim>\<open>PeerConnection/Retransmitter.c\<close>) answers
  from the buffer. Received RTP packets are counted, split when they carry redundant audio
  (\<^verbatim>\<open>Rtp/Codecs/RtpRedPayloader.c\<close>), put into order by a jitter buffer (\<^verbatim>\<open>PeerConnection/JitterBuffer.c\<close>) and given to
  the application as frames (\<^verbatim>\<open>PeerConnection/PeerConnection.c\<close>). A data channel message travels over a session
  (\<^verbatim>\<open>Sctp/NativeSctp.c\<close>) on an SCTP association (\<^verbatim>\<open>Sctp/SctpAssoc.c\<close>, \<^verbatim>\<open>Sctp/SctpPacket.c\<close>, \<^verbatim>\<open>Sctp/SctpCrc32c.c\<close>).
  Everything is sent through SRTP or DTLS and ICE, which finds a path between the peers with STUN messages (\<^verbatim>\<open>Stun/Stun.c\<close>,
  \<^verbatim>\<open>Ice/IceUtils.c\<close>). The peers find each other through a signaling client, which is driven by
  a state machine (\<^verbatim>\<open>Signaling/StateMachine.c\<close>) on the library \<^verbatim>\<open>deps/src/state/State.c\<close>. Hash tables and linked lists come
  from \<^verbatim>\<open>deps/src/utils\<close>.

  \<^bold>\<open>Conventions.\<close> A buffer is a list of bytes, and an access outside of it gives \<open>None\<close> (\<open>Prelude\<close>); so
  does a division by zero, the use of an uninitialised variable and a loop that does not end. A theorem
  that an operation returns \<open>Some\<close> is therefore a memory-safety theorem. A pointer that may be null is an
  option, a fallible function returns its \<open>STATUS\<close> with the values it stored. C integers keep their width
  (\<open>u8\<close> to \<open>u64\<close>), except for lengths and positions that are bounded by a buffer. What the code takes
  from other libraries (clock, allocation, callbacks, ICE, SRTP) is a parameter: a record of functions or
  an operation on an environment.

  \<^bold>\<open>Theories.\<close>

  \<^item> \<open>Prelude\<close>: bytes, words, buffers, status codes, loops over lists, pieces of a list.

  \<^item> \<open>Endianness\<close>: \<^verbatim>\<open>deps/src/utils/Endianness.c\<close>, unaligned loads and stores and their layout.

  \<^item> \<open>TableCrc\<close>: the locale \<open>table_crc\<close>, in which a table-driven checksum is shown to be the bit-serial polynomial division.
  \<open>SctpCrc32c\<close> (CRC32c of SCTP) and \<open>Crc32\<close> (\<^verbatim>\<open>deps/src/utils/Crc32.c\<close>) interpret it for their tables.

  \<^item> \<open>SctpPacket\<close>: chunk writers, finalisation, validation and splitting of packets; a written packet is
  split into its chunks, a finalised packet is accepted, and one with an altered byte is not.

  \<^item> \<open>SctpAssoc\<close>: the association record and every function of \<^verbatim>\<open>SctpAssoc.c\<close>. \<open>SctpInvariant\<close>: the public
  calls as the steps of a transition system, its invariant, absence of faults, the accounting of the
  tables, and the validity of the packets sent. \<open>SctpReceive\<close>: serial number arithmetic, receive tracking
  as a set, gap blocks. \<open>SctpHandshake\<close>: two associations establish each other. \<open>SctpTransfer\<close>: a message
  is fragmented, sent, reassembled and delivered. \<open>NativeSctp\<close>: the session with its data channels on top of the association; no
  input makes it fault, an opened channel is announced and a message reaches the application of the peer.

  \<^item> \<open>RtpPacket\<close>: parsing and serialising of RTP packets, the packets of a frame, retransmission packets.

  \<^item> \<open>RollingBuffer\<close>: the ring of slots. Locales \<open>index_window\<close> (which indexes are valid) and
  \<open>slot_owner\<close> (who frees a slot). \<open>RtpRollingBuffer\<close> interprets the latter for sent packets on a heap and
  finds packets by their sequence numbers.

  \<^item> \<open>RtcpPacket\<close>: headers, NACK lists, REMB values, NTP time. \<open>Retransmitter\<close>: a NACK is answered with the
  packets it names, and the conditions under which it is not.

  \<^item> \<open>RtpPayloader\<close>: the Opus, G.711 and VP8 payloaders, and the locale \<open>payloader\<close>, the contract of a
  payloader and its depayloader. In the locale it is proved once that a frame passes through payloader,
  packets, bytes, parser and depayloader unchanged. Every codec interprets it.

  \<^item> \<open>AnnexB\<close>: what the H.264 and H.265 payloaders share. The search for the next NAL unit is compared
  with the definition of a start code; calls that emit payloads are composed by the predicate \<open>emits\<close>.
  \<open>RtpH265\<close>, \<open>RtpH264\<close> and \<open>H264Transport\<close>: the payloaders, and the interpretations of \<open>payloader\<close>.

  \<^item> \<open>RtpRed\<close>: redundant audio, sender and receiver; a lost frame is recovered from the next packet, and concrete calls
  in which a recovered frame gets a wrong sequence number.

  \<^item> \<open>JitterBuffer\<close>: every function of the jitter buffer on a heap of packets; each pushed packet is freed exactly once.
  \<open>JitterDelivery\<close>: what is delivered. The locale \<open>single_packet_receiver\<close> is the contract between the buffer and its
  callbacks for frames of one packet; in it, a stream in order is delivered up to the wrap-around of its sequence numbers, and the
  buffer stalls after it. \<open>RtpReceive\<close>: the receiving side of a transceiver, which interprets this locale for Opus; delivery
  of audio frames end to end, the count of lost packets, and the ownership of received packets.

  \<^item> \<open>Stun\<close>: every function of \<^verbatim>\<open>Stun.c\<close>. A packet is one allocation with the structure sizes of a 64-bit host, addresses are
  offsets in it; the byte order of the host and HMAC-SHA1 are parameters. \<open>StunWire\<close>: the encoding of an attribute and of a message, and that
  serialisation produces it. \<open>StunAttr\<close>: one attribute read back. \<open>StunParse\<close>: the two loops of the parser as recursions over the list of
  attributes, and the message read back. \<open>StunSafety\<close>: when the parser stays in its memory, messages on which it does not, and messages
  whose integrity is not verified. \<open>StunBuild\<close>: the invariant of a packet under the append functions. \<open>IceUtils\<close>: the packaging
  of messages, with the round trip from the builder to the parser, and the store of transaction identifiers, which refines the window of the last ones.

  \<^item> \<open>HashTable\<close>: the hash table refines a finite map. \<open>DoubleLinkedList\<close>: the list on a heap of nodes refines a sequence.

  \<^item> \<open>StateMachine\<close>: the state machine library, with the locale \<open>transition_table\<close> for tables of states; steps obey the table
  and retries are bounded. \<open>SignalingState\<close>: the table and callbacks of the signaling client and the loop that drives them, an
  interpretation of the locale; which transitions are possible, that the loop ends, and a state that cannot be left.

  \<^bold>\<open>Bounds.\<close> No fuel is used: every loop is a function with a termination proof, by a buffer length, a
  counter of free slots or the remaining bytes, except for the two loops of \<open>SignalingState\<close> that wait for other parties, which are
  partial functions; that they return is proved where the environment allows it. Hypotheses bound lengths so that 32-bit counters do not
  wrap (frames below \<open>2 ^ 28\<close> or \<open>2 ^ 30\<close> bytes), where the C code does not check them.

  \<^bold>\<open>Not modelled.\<close> The ICE agent, TURN, SDP, the HTTP and WebSocket calls of signaling, DTLS, SRTP, sockets, threads and timers, the
  congestion control and the floating-point statistics of the peer connection, the second jitter buffer
  (\<^verbatim>\<open>RealTimeJitterBuffer.c\<close>), the functions of \<^verbatim>\<open>IceUtils.c\<close> that send or resolve names, and the rest of the utility library. They are calls into
  other libraries and the operating system, or remain to be done.
\<close>

end
